(* ===== verification/Prelude.thy ===== *)
theory Prelude
  imports Main "HOL-Library.Word" "HOL-Library.Char_ord" "HOL-Library.List_Lexorder"
    "HOL-Library.Code_Target_Nat"
begin

text \<open>
  The shared vocabulary of the development: the machine integers of the C++ sources, bytes and
  byte strings, the error monad that stands for C++ exceptions, and the generic lemmas on lists,
  words and little-endian encodings that the component theories rest on.

  \<^item> \<open>std::string\<close>, \<open>std::string_view\<close> and \<open>const char*\<close> are \<^typ>\<open>string\<close>: a char of HOL is
    exactly a byte, and the lexicographic order of \<open>List_Lexorder\<close> over \<open>Char_ord\<close> is the
    unsigned byte order of \<open>std::string::compare\<close>.
  \<^item> \<open>std::vector<std::uint8_t>\<close> and \<open>uint8_t*\<close> buffers are lists of 8-bit words.
  \<^item> A thrown \<open>Error(message)\<close> is \<open>Inl (Error message)\<close>; \<open>ebind\<close> propagates it.
\<close>

unbundle bit_operations_syntax

section \<open>Machine integers and bytes\<close>

type_synonym byte = "8 word"
type_synonym u8 = "8 word"
type_synonym u16 = "16 word"
type_synonym u32 = "32 word"
type_synonym u64 = "64 word"
type_synonym bytes = "8 word list"

named_theorems bytes_simps \<open>rewriting of byte-string encodings\<close>
named_theorems result_simps \<open>rewriting of the error monad\<close>

definition byte_of_char :: "char \<Rightarrow> byte" where
  "byte_of_char c = word_of_nat (of_char c)"

definition char_of_byte :: "byte \<Rightarrow> char" where
  "char_of_byte b = char_of (unat b)"

definition bytes_of_string :: "string \<Rightarrow> bytes" where
  "bytes_of_string s = map byte_of_char s"

definition string_of_bytes :: "bytes \<Rightarrow> string" where
  "string_of_bytes bs = map char_of_byte bs"

section \<open>Exceptions as values\<close>

datatype error = Error string

type_synonym 'a result = "error + 'a"

definition throw :: "string \<Rightarrow> 'a result" where
  "throw message = Inl (Error message)"

definition ebind :: "'a result \<Rightarrow> ('a \<Rightarrow> 'b result) \<Rightarrow> 'b result" where
  "ebind m f = (case m of Inl e \<Rightarrow> Inl e | Inr x \<Rightarrow> f x)"

text \<open>\<open>if (condition) throw Error(message);\<close> followed by the rest of the function.\<close>

definition throw_if :: "bool \<Rightarrow> string \<Rightarrow> 'a result \<Rightarrow> 'a result" where
  "throw_if condition message rest = (if condition then throw message else rest)"

definition is_ok :: "'a result \<Rightarrow> bool" where
  "is_ok m = (case m of Inl _ \<Rightarrow> False | Inr _ \<Rightarrow> True)"

section \<open>Little-endian encodings\<close>

primrec le_bytes :: "nat \<Rightarrow> 'a::len word \<Rightarrow> bytes" where
  "le_bytes 0 w = []"
| "le_bytes (Suc n) w = ucast w # le_bytes n (drop_bit 8 w)"

primrec le_word :: "bytes \<Rightarrow> 'a::len word" where
  "le_word [] = 0"
| "le_word (b # bs) = ucast b OR push_bit 8 (le_word bs)"

section \<open>Buffers and checksums\<close>

text \<open>\<open>memcpy(destination + position, source, size)\<close> inside the destination.\<close>

definition blit :: "nat \<Rightarrow> 'a list \<Rightarrow> 'a list \<Rightarrow> 'a list" where
  "blit position source destination =
     take position destination @ source @ drop (position + length source) destination"

text \<open>The 32-bit FNV-1a hash every image, file and executable checksum of the system uses.\<close>

definition fnv1a :: "bytes \<Rightarrow> u32" where
  "fnv1a data = fold (\<lambda>b hash. (hash XOR ucast b) * 16777619) data 2166136261"

section \<open>Decimal text\<close>

definition digit_char :: "nat \<Rightarrow> char" where
  "digit_char d = char_of (48 + d)"

text \<open>\<open>std::to_string\<close> and \<open>operator<<\<close> on an unsigned integer.\<close>

fun show_nat :: "nat \<Rightarrow> string" where
  "show_nat n = (if n < 10 then [digit_char n] else show_nat (n div 10) @ [digit_char (n mod 10)])"

declare show_nat.simps [simp del]

section \<open>Lemmas\<close>

subsection \<open>Error monad\<close>

lemma ebind_Inr [simp, result_simps]: "ebind (Inr x) f = f x"
  by (simp add: ebind_def)

lemma ebind_Inl [simp, result_simps]: "ebind (Inl e) f = Inl e"
  by (simp add: ebind_def)

lemma ebind_throw [simp, result_simps]: "ebind (throw m) f = throw m"
  by (simp add: ebind_def throw_def)

lemma throw_not_Inr [simp]: "throw m \<noteq> Inr x" "Inr x \<noteq> throw m"
  by (simp_all add: throw_def)

lemma ebind_eq_Inr [result_simps]: "ebind m f = Inr y \<longleftrightarrow> (\<exists>x. m = Inr x \<and> f x = Inr y)"
  by (cases m) simp_all

lemma throw_if_eq_Inr [result_simps]: "throw_if c msg m = Inr y \<longleftrightarrow> \<not> c \<and> m = Inr y"
  by (simp add: throw_if_def)

lemma throw_if_False [simp]: "throw_if False msg m = m"
  by (simp add: throw_if_def)

lemma throw_if_True [simp]: "throw_if True msg m = throw msg"
  by (simp add: throw_if_def)

lemma is_ok_iff: "is_ok m \<longleftrightarrow> (\<exists>x. m = Inr x)"
  by (cases m) (simp_all add: is_ok_def)

subsection \<open>Bytes and characters\<close>

lemma char_of_byte_of_char [simp]: "char_of_byte (byte_of_char c) = c"
  by (simp add: char_of_byte_def byte_of_char_def unat_of_nat)

lemma byte_of_char_of_byte [simp]: "byte_of_char (char_of_byte b) = b"
proof -
  have "unat b < 2 ^ 8" using unsigned_less [of b] by simp
  then show ?thesis by (simp add: char_of_byte_def byte_of_char_def)
qed

lemma string_of_bytes_of_string [simp, bytes_simps]: "string_of_bytes (bytes_of_string s) = s"
  by (simp add: string_of_bytes_def bytes_of_string_def comp_def)

lemma bytes_of_string_of_bytes [simp, bytes_simps]: "bytes_of_string (string_of_bytes bs) = bs"
  by (simp add: string_of_bytes_def bytes_of_string_def comp_def)

lemma length_bytes_of_string [simp, bytes_simps]: "length (bytes_of_string s) = length s"
  by (simp add: bytes_of_string_def)

lemma length_string_of_bytes [simp, bytes_simps]: "length (string_of_bytes bs) = length bs"
  by (simp add: string_of_bytes_def)

subsection \<open>Little-endian round trips\<close>

lemma length_le_bytes [simp, bytes_simps]: "length (le_bytes n w) = n"
  by (induction n arbitrary: w) simp_all

lemma ucast_low_byte: "(ucast (ucast (w :: 'a::len word) :: byte) :: 'a word) = take_bit 8 w"
  by (rule bit_word_eqI) (auto simp: bit_simps)

lemma le_word_le_bytes_take: "le_word (le_bytes n w) = take_bit (8 * n) (w :: 'a::len word)"
proof (induction n arbitrary: w)
  case 0
  show ?case by simp
next
  case (Suc n)
  have "le_word (le_bytes (Suc n) w) = take_bit 8 w OR push_bit 8 (take_bit (8 * n) (drop_bit 8 w))"
    by (simp add: Suc.IH ucast_low_byte)
  also have "\<dots> = take_bit (8 * Suc n) w"
    by (rule bit_word_eqI) (auto simp: bit_simps)
  finally show ?case .
qed

lemma le_word_le_bytes: "LENGTH('a) \<le> 8 * n \<Longrightarrow> le_word (le_bytes n w) = (w :: 'a::len word)"
  by (simp add: le_word_le_bytes_take take_bit_word_eq_self)

lemma bit_le_word_bound: "bit (le_word bs :: 'a::len word) i \<Longrightarrow> i < 8 * length bs"
proof (induction bs arbitrary: i)
  case (Cons b bs)
  from Cons.prems consider "i < 8" | "8 \<le> i" "bit (le_word bs :: 'a word) (i - 8)"
    by (auto simp: bit_simps dest: bit_imp_le_length)
  then show ?case by cases (auto dest: Cons.IH)
qed simp

lemma le_bytes_le_word: "8 * length bs \<le> LENGTH('a) \<Longrightarrow> le_bytes (length bs) (le_word bs :: 'a::len word) = bs"
proof (induction bs)
  case (Cons b bs)
  have "ucast (ucast b OR push_bit 8 (le_word bs) :: 'a word) = b"
    using Cons.prems by (intro bit_word_eqI) (auto simp: bit_simps)
  moreover have "drop_bit 8 (ucast b OR push_bit 8 (le_word bs) :: 'a word) = le_word bs"
  proof (rule bit_word_eqI)
    fix n assume "n < LENGTH('a)"
    then show "bit (drop_bit 8 (ucast b OR push_bit 8 (le_word bs) :: 'a word)) n = bit (le_word bs :: 'a word) n"
      using Cons.prems bit_le_word_bound [of bs n, where 'a = 'a]
      by (auto simp: bit_simps dest: bit_imp_le_length)
  qed
  ultimately show ?case using Cons by simp
qed simp

lemma le_word_le_bytes_4 [simp, bytes_simps]: "le_word (le_bytes 4 w) = (w :: u32)"
  by (rule le_word_le_bytes) simp

lemma le_word_le_bytes_2 [simp, bytes_simps]: "le_word (le_bytes 2 w) = (w :: u16)"
  by (rule le_word_le_bytes) simp

lemma le_word_le_bytes_8 [simp, bytes_simps]: "le_word (le_bytes 8 w) = (w :: u64)"
  by (rule le_word_le_bytes) simp

lemma le_bytes_2_eq: "le_bytes 2 w = [ucast w, ucast (drop_bit 8 w)]"
  by (simp add: numeral_2_eq_2)

lemma le_bytes_4_eq:
  "le_bytes 4 w = [ucast w, ucast (drop_bit 8 w), ucast (drop_bit 16 w), ucast (drop_bit 24 w)]"
  by (simp add: eval_nat_numeral)

lemma length_4_conv: "length xs = 4 \<longleftrightarrow> (\<exists>a b c d. xs = [a, b, c, d])"
  by (auto simp: eval_nat_numeral length_Suc_conv)

lemma length_2_conv: "length xs = 2 \<longleftrightarrow> (\<exists>a b. xs = [a, b])"
  by (auto simp: eval_nat_numeral length_Suc_conv)

subsection \<open>Buffers\<close>

lemma length_blit [simp]:
  "position + length source \<le> length destination \<Longrightarrow>
     length (blit position source destination) = length destination"
  by (simp add: blit_def)

lemma nth_blit:
  "position + length source \<le> length destination \<Longrightarrow> k < length destination \<Longrightarrow>
     blit position source destination ! k =
       (if position \<le> k \<and> k < position + length source then source ! (k - position)
        else destination ! k)"
  by (auto simp: blit_def nth_append)

lemma drop_blit:
  "position + length source \<le> n \<Longrightarrow> position + length source \<le> length destination \<Longrightarrow>
     drop n (blit position source destination) = drop n destination"
  by (rule nth_equalityI) (auto simp: nth_blit)

lemma blit_whole: "length source = length destination \<Longrightarrow> blit 0 source destination = source"
  by (simp add: blit_def)

lemma concat_uniform_nth:
  "\<forall>i < length xss. length (xss ! i) = n \<Longrightarrow> k < length xss \<Longrightarrow>
     take n (drop (k * n) (concat xss)) = xss ! k"
proof (induction xss arbitrary: k)
  case (Cons xs xss)
  then have len: "length xs = n" "\<forall>i < length xss. length (xss ! i) = n" by fastforce+
  show ?case
  proof (cases k)
    case (Suc k')
    with Cons len show ?thesis by simp
  qed (simp add: len)
qed simp

subsection \<open>Unsigned arithmetic without overflow\<close>

lemma unat_add_nowrap:
  "unat a + unat b < 2 ^ LENGTH('a) \<Longrightarrow> unat (a + b :: 'a::len word) = unat a + unat b"
  by (simp add: unat_word_ariths)

lemma unat_mult_nowrap:
  "unat a * unat b < 2 ^ LENGTH('a) \<Longrightarrow> unat (a * b :: 'a::len word) = unat a * unat b"
  by (simp add: unat_word_ariths)

lemma unat_of_nat_nowrap: "n < 2 ^ LENGTH('a) \<Longrightarrow> unat (word_of_nat n :: 'a::len word) = n"
  by (simp add: unat_of_nat)

lemma unat_less_exp: "unat (w :: 'a::len word) < 2 ^ LENGTH('a)"
  using unsigned_less [of w] by simp

lemma unat_ucast_up:
  "LENGTH('a) \<le> LENGTH('b) \<Longrightarrow> unat (ucast (w :: 'a::len word) :: 'b::len word) = unat w"
proof -
  assume "LENGTH('a) \<le> LENGTH('b)"
  then have "(2 :: nat) ^ LENGTH('a) \<le> 2 ^ LENGTH('b)" by (simp add: power_increasing)
  then have "unat w < 2 ^ LENGTH('b)" using unat_less_exp [of w] by linarith
  then show ?thesis by (simp add: unsigned_ucast_eq take_bit_nat_eq_self)
qed

subsection \<open>Decimal text\<close>

lemma digit_char_inj: "a < 10 \<Longrightarrow> b < 10 \<Longrightarrow> digit_char a = digit_char b \<Longrightarrow> a = b"
  by (simp add: digit_char_def char_of_eq_iff take_bit_nat_eq_self)

lemma show_nat_nonempty [simp]: "show_nat n \<noteq> []"
  by (subst show_nat.simps) simp

text \<open>A comparison or a zero test that ors all differences together.\<close>

lemma fold_or_zero: "fold (\<lambda>i d. d OR f i) is d = 0 \<longleftrightarrow> d = 0 \<and> (\<forall>i\<in>set is. f i = (0 :: 'a::len word))"
proof (induction "is" arbitrary: d)
  case (Cons i "is")
  have "d OR f i = 0 \<longleftrightarrow> d = 0 \<and> f i = 0" by (auto simp: bit_eq_iff bit_simps)
  then show ?case using Cons by auto
qed simp

lemma xor_zero [simp]: "a XOR b = 0 \<longleftrightarrow> a = (b :: 'a::len word)"
  by (auto simp: bit_eq_iff bit_simps)

lemma fold_or_bytes_zero: "fold (\<lambda>b combined. combined OR b) data 0 = (0 :: 'a::len word) \<longleftrightarrow> (\<forall>b\<in>set data. b = 0)"
  using fold_or_zero [of "\<lambda>b. b" data 0] by simp

lemma and_push_bit_one: "w AND push_bit n 1 \<noteq> 0 \<longleftrightarrow> bit (w :: 'a::len word) n"
proof -
  have "w AND push_bit n 1 = (if bit w n then push_bit n 1 else 0)"
    by (rule bit_eqI) (auto simp: bit_simps simp del: push_bit_of_1)
  moreover have "push_bit n (1 :: 'a word) \<noteq> 0" if "bit w n"
    using that bit_imp_le_length [of w n] by (auto simp: bit_eq_iff bit_push_bit_iff simp del: push_bit_of_1)
  ultimately show ?thesis by auto
qed

end
