(* ===== verification/Block_Device.thy ===== *)
theory Block_Device
  imports Prelude
begin

text \<open>
  The typed block layer of the kernel: \<open>kernel/parts/storage_block_result.inc\<close> (operations,
  statuses, results), \<open>storage_block_device.inc\<close> (the device record with its driver function
  pointers, the request guards and the I/O counters) and the retry classification both the block
  layer and \<open>storage_ata_policy.inc\<close> use.

  A driver acts on a state of type \<open>'s\<close> (the ATA registers, or the RAM overlay of the live image).
  A \<open>uint8_t*\<close> buffer argument is an option: \<open>None\<close> is the null pointer, \<open>Some bs\<close> the caller's
  bytes, and a read returns the buffer as the driver left it.
\<close>

section \<open>Results\<close>

datatype block_operation = BopNone | BopIdentify | BopRead | BopWrite | BopFlush | BopReset

datatype block_status =
    BsOk | BsNoDevice | BsInvalidArgument | BsOutOfRange | BsReadOnly | BsTimeoutBusy
  | BsTimeoutDrq | BsDeviceFault | BsCommandAborted | BsIdNotFound | BsUncorrectable
  | BsInterfaceCrc | BsDeviceError | BsResetFailed

record block_result =
  br_operation :: block_operation
  br_status :: block_status
  br_lba :: u32
  br_attempts :: u8
  br_status_register :: u8
  br_error_register :: u8

definition block_ok :: "block_result \<Rightarrow> bool" where
  "block_ok r = (br_status r = BsOk)"

definition mk_block_result ::
    "block_operation \<Rightarrow> block_status \<Rightarrow> u32 \<Rightarrow> u8 \<Rightarrow> u8 \<Rightarrow> u8 \<Rightarrow> block_result" where
  "mk_block_result operation status lba attempts status_register error_register =
     \<lparr>br_operation = operation, br_status = status, br_lba = lba, br_attempts = attempts,
      br_status_register = status_register, br_error_register = error_register\<rparr>"

definition block_success :: "block_operation \<Rightarrow> u32 \<Rightarrow> u8 \<Rightarrow> block_result" where
  "block_success operation lba attempts = mk_block_result operation BsOk lba attempts 0 0"

definition block_retryable :: "block_status \<Rightarrow> bool" where
  "block_retryable status =
     (status = BsTimeoutBusy \<or> status = BsTimeoutDrq \<or> status = BsDeviceFault \<or>
      status = BsCommandAborted \<or> status = BsInterfaceCrc)"

fun block_operation_name :: "block_operation \<Rightarrow> string" where
  "block_operation_name BopNone = ''none''"
| "block_operation_name BopIdentify = ''identify''"
| "block_operation_name BopRead = ''read''"
| "block_operation_name BopWrite = ''write''"
| "block_operation_name BopFlush = ''flush''"
| "block_operation_name BopReset = ''reset''"

fun block_status_name :: "block_status \<Rightarrow> string" where
  "block_status_name BsOk = ''ok''"
| "block_status_name BsNoDevice = ''no-device''"
| "block_status_name BsInvalidArgument = ''invalid-argument''"
| "block_status_name BsOutOfRange = ''out-of-range''"
| "block_status_name BsReadOnly = ''read-only''"
| "block_status_name BsTimeoutBusy = ''timeout-busy''"
| "block_status_name BsTimeoutDrq = ''timeout-drq''"
| "block_status_name BsDeviceFault = ''device-fault''"
| "block_status_name BsCommandAborted = ''command-aborted''"
| "block_status_name BsIdNotFound = ''id-not-found''"
| "block_status_name BsUncorrectable = ''uncorrectable''"
| "block_status_name BsInterfaceCrc = ''interface-crc''"
| "block_status_name BsDeviceError = ''device-error''"
| "block_status_name BsResetFailed = ''reset-failed''"

section \<open>Devices\<close>

type_synonym buffer = "bytes option"
type_synonym 's read_sector_fn = "u32 \<Rightarrow> buffer \<Rightarrow> 's \<Rightarrow> block_result \<times> buffer \<times> 's"
type_synonym 's write_sector_fn = "u32 \<Rightarrow> buffer \<Rightarrow> 's \<Rightarrow> block_result \<times> 's"

record 's block_device =
  bd_name :: "string option"
  bd_present :: bool
  bd_writable :: bool
  bd_sectors :: u32
  bd_read_sector :: "'s read_sector_fn option"
  bd_write_sector :: "'s write_sector_fn option"

record block_io_state =
  io_requests :: u32
  io_completed :: u32
  io_failed :: u32
  io_last_result :: block_result
  io_last_failure :: block_result

definition block_io_state_initial :: block_io_state where
  "block_io_state_initial =
     \<lparr>io_requests = 0, io_completed = 0, io_failed = 0,
      io_last_result = block_success BopNone 0 0, io_last_failure = block_success BopNone 0 0\<rparr>"

definition block_device_contract_valid :: "'s block_device \<Rightarrow> bool" where
  "block_device_contract_valid device =
     (if bd_name device = None \<or> bd_read_sector device = None then False
      else if bd_writable device \<and> bd_write_sector device = None then False
      else if bd_present device \<and> bd_sectors device = 0 then False
      else True)"

definition block_io_complete ::
    "block_io_state \<Rightarrow> block_result \<Rightarrow> block_result \<times> block_io_state" where
  "block_io_complete state result =
     (let state = state\<lparr>io_requests := io_requests state + 1, io_last_result := result\<rparr>
      in if block_ok result then (result, state\<lparr>io_completed := io_completed state + 1\<rparr>)
         else (result, state\<lparr>io_failed := io_failed state + 1, io_last_failure := result\<rparr>))"

text \<open>The result, the buffer, the counters and the driver state after a read request.\<close>

definition block_device_read ::
    "'s block_device \<Rightarrow> block_io_state \<Rightarrow> u32 \<Rightarrow> buffer \<Rightarrow> 's
      \<Rightarrow> block_result \<times> buffer \<times> block_io_state \<times> 's" where
  "block_device_read device state lba output s =
     (let fail = (\<lambda>status. let (r, state') = block_io_complete state
                             (mk_block_result BopRead status lba 0 0 0)
                           in (r, output, state', s))
      in if \<not> bd_present device then fail BsNoDevice
         else if output = None then fail BsInvalidArgument
         else case bd_read_sector device of
             None \<Rightarrow> fail BsNoDevice
           | Some read_sector \<Rightarrow>
               if lba \<ge> bd_sectors device then fail BsOutOfRange
               else let (result, output', s') = read_sector lba output s;
                        (r, state') = block_io_complete state result
                    in (r, output', state', s'))"

definition block_device_write ::
    "'s block_device \<Rightarrow> block_io_state \<Rightarrow> u32 \<Rightarrow> buffer \<Rightarrow> 's
      \<Rightarrow> block_result \<times> block_io_state \<times> 's" where
  "block_device_write device state lba input s =
     (let fail = (\<lambda>status. let (r, state') = block_io_complete state
                             (mk_block_result BopWrite status lba 0 0 0)
                           in (r, state', s))
      in if \<not> bd_present device then fail BsNoDevice
         else if input = None then fail BsInvalidArgument
         else if \<not> bd_writable device then fail BsReadOnly
         else case bd_write_sector device of
             None \<Rightarrow> fail BsNoDevice
           | Some write_sector \<Rightarrow>
               if lba \<ge> bd_sectors device then fail BsOutOfRange
               else let (result, s') = write_sector lba input s;
                        (r, state') = block_io_complete state result
                    in (r, state', s'))"

definition block_io_counters_valid :: "block_io_state \<Rightarrow> bool" where
  "block_io_counters_valid state = (io_requests state = io_completed state + io_failed state)"

text \<open>
  The storage globals of \<open>storage_block_device_state.inc\<close>, with the state of the driver behind the
  device, and the two entry points of the file system.
\<close>

record 's storage =
  ata_present :: bool
  ata_sector_total :: u32
  ata0 :: "'s block_device"
  zfs_io_state :: block_io_state
  driver_state :: 's

definition zfs_read_sector :: "u32 \<Rightarrow> bytes \<Rightarrow> 's storage \<Rightarrow> block_result \<times> bytes \<times> 's storage" where
  "zfs_read_sector lba buffer g =
     (let (r, out, io, s) = block_device_read (ata0 g) (zfs_io_state g) lba (Some buffer) (driver_state g)
      in (r, case out of None \<Rightarrow> buffer | Some b \<Rightarrow> b, g\<lparr>zfs_io_state := io, driver_state := s\<rparr>))"

definition zfs_write_sector :: "u32 \<Rightarrow> bytes \<Rightarrow> 's storage \<Rightarrow> block_result \<times> 's storage" where
  "zfs_write_sector lba buffer g =
     (let (r, io, s) = block_device_write (ata0 g) (zfs_io_state g) lba (Some buffer) (driver_state g)
      in (r, g\<lparr>zfs_io_state := io, driver_state := s\<rparr>))"

section \<open>Lemmas\<close>

lemmas block_result_simps = mk_block_result_def block_success_def block_ok_def

lemma block_ok_mk [simp]: "block_ok (mk_block_result op st lba a sr er) \<longleftrightarrow> st = BsOk"
  by (simp add: block_result_simps)

lemma block_ok_success [simp]: "block_ok (block_success op lba a)"
  by (simp add: block_result_simps)

text \<open>The counters after a request that ended in a given result.\<close>

definition block_io_after :: "block_io_state \<Rightarrow> block_result \<Rightarrow> block_io_state" where
  "block_io_after state r = snd (block_io_complete state r)"

lemma block_io_complete_eq: "block_io_complete state r = (r, block_io_after state r)"
  by (simp add: block_io_after_def block_io_complete_def Let_def)

lemma block_io_after_valid [intro]:
  "block_io_counters_valid state \<Longrightarrow> block_io_counters_valid (block_io_after state r)"
  by (simp add: block_io_counters_valid_def block_io_after_def block_io_complete_def Let_def)

lemma block_io_state_initial_valid [simp]: "block_io_counters_valid block_io_state_initial"
  by (simp add: block_io_counters_valid_def block_io_state_initial_def)

lemma block_device_read_io:
  "block_device_read d io lba out s = (r, out', io', s') \<Longrightarrow> io' = block_io_after io r"
  by (auto simp: block_device_read_def Let_def block_io_complete_eq
      split: if_splits option.splits prod.splits)

lemma block_device_write_io:
  "block_device_write d io lba inp s = (r, io', s') \<Longrightarrow> io' = block_io_after io r"
  by (auto simp: block_device_write_def Let_def block_io_complete_eq
      split: if_splits option.splits prod.splits)

text \<open>A well-formed request reaches the driver and only the driver.\<close>

lemma block_device_read_driver:
  assumes "bd_present d" "bd_read_sector d = Some f" "\<not> bd_sectors d \<le> lba"
    and "f lba (Some buf) s = (r, out, s')"
  shows "block_device_read d io lba (Some buf) s = (r, out, block_io_after io r, s')"
  using assms by (auto simp: block_device_read_def Let_def block_io_complete_eq)

lemma block_device_write_driver:
  assumes "bd_present d" "bd_writable d" "bd_write_sector d = Some f" "\<not> bd_sectors d \<le> lba"
    and "f lba (Some buf) s = (r, s')"
  shows "block_device_write d io lba (Some buf) s = (r, block_io_after io r, s')"
  using assms by (auto simp: block_device_write_def Let_def block_io_complete_eq)

text \<open>A request out of the device's range never reaches the driver.\<close>

lemma block_device_read_out_of_range:
  assumes "bd_present d" "bd_read_sector d \<noteq> None" "bd_sectors d \<le> lba"
    and "block_device_read d io lba (Some buf) s = (r, out, io', s')"
  shows "br_status r = BsOutOfRange \<and> out = Some buf \<and> s' = s"
  using assms by (auto simp: block_device_read_def Let_def block_io_complete_eq block_result_simps
      split: option.splits)

lemma block_device_write_out_of_range:
  assumes "bd_present d" "bd_writable d" "bd_write_sector d \<noteq> None" "bd_sectors d \<le> lba"
    and "block_device_write d io lba (Some buf) s = (r, io', s')"
  shows "br_status r = BsOutOfRange \<and> s' = s"
  using assms by (auto simp: block_device_write_def Let_def block_io_complete_eq block_result_simps
      split: option.splits)

section \<open>The contract of a driver\<close>

text \<open>
  What the file system relies on. \<open>abs\<close> is the contents of the device as a list of sectors. A read
  that succeeds delivers the sector and a read never changes the contents; a write that succeeds
  replaces exactly its sector; a write that reports an error has either happened or not (a driver
  may lose the acknowledgement), but never tears the sector or touches another one.
\<close>

locale sector_driver =
  fixes rd :: "'s read_sector_fn" and wr :: "'s write_sector_fn"
    and inv :: "'s \<Rightarrow> bool" and abs :: "'s \<Rightarrow> bytes list"
  assumes rd_law: "inv s \<Longrightarrow> unat lba < length (abs s) \<Longrightarrow> 512 \<le> length buf \<Longrightarrow>
      rd lba (Some buf) s = (r, out, s') \<Longrightarrow>
      inv s' \<and> abs s' = abs s \<and> (block_ok r \<longrightarrow> out = Some (abs s ! unat lba @ drop 512 buf)) \<and>
      (\<not> block_ok r \<longrightarrow> (\<exists>buf'. out = Some buf' \<and> length buf' = length buf))"
    and wr_law: "inv s \<Longrightarrow> unat lba < length (abs s) \<Longrightarrow> 512 \<le> length buf \<Longrightarrow>
      wr lba (Some buf) s = (r, s') \<Longrightarrow>
      inv s' \<and> (block_ok r \<longrightarrow> abs s' = (abs s)[unat lba := take 512 buf]) \<and>
      (\<not> block_ok r \<longrightarrow> abs s' = abs s \<or> abs s' = (abs s)[unat lba := take 512 buf])"
    and sector_law: "inv s \<Longrightarrow> i < length (abs s) \<Longrightarrow> length (abs s ! i) = 512"
begin

definition device_ok :: "'s block_device \<Rightarrow> 's \<Rightarrow> bool" where
  "device_ok d s \<longleftrightarrow>
     inv s \<and> bd_present d \<and> bd_writable d \<and> bd_read_sector d = Some rd \<and> bd_write_sector d = Some wr \<and>
     unat (bd_sectors d) = length (abs s)"

lemma device_read:
  assumes "device_ok d s" and "512 \<le> length buf"
    and "block_device_read d io lba (Some buf) s = (r, out, io', s')"
  shows "device_ok d s'" and "abs s' = abs s" and "io' = block_io_after io r"
    and "block_ok r \<Longrightarrow> unat lba < length (abs s) \<and> out = Some (abs s ! unat lba @ drop 512 buf)"
    and "\<exists>buf'. out = Some buf' \<and> length buf' = length buf"
proof -
  show "io' = block_io_after io r" using assms(3) by (rule block_device_read_io)
  show "device_ok d s'" and "abs s' = abs s"
    and "block_ok r \<Longrightarrow> unat lba < length (abs s) \<and> out = Some (abs s ! unat lba @ drop 512 buf)"
    and "\<exists>buf'. out = Some buf' \<and> length buf' = length buf"
  proof (atomize (full), goal_cases)
    case 1
    show ?case
    proof (cases "bd_sectors d \<le> lba")
      case True
      then show ?thesis
        using assms block_device_read_out_of_range [of d lba io buf s r out io' s']
        by (auto simp: device_ok_def block_ok_def)
    next
      case False
      then have lba: "unat lba < length (abs s)"
        using assms(1) by (simp add: device_ok_def word_le_nat_alt)
      obtain r' out' s'' where call: "rd lba (Some buf) s = (r', out', s'')" by (cases "rd lba (Some buf) s") auto
      then have "r' = r" "out' = out" "s'' = s'"
        using assms(1,3) False block_device_read_driver [of d rd lba buf s r' out' s'' io]
        by (auto simp: device_ok_def)
      with call have "rd lba (Some buf) s = (r, out, s')" by simp
      with assms(1,2) lba show ?thesis
        using rd_law [of s lba buf r out s'] sector_law [of s "unat lba"]
        by (cases "block_ok r") (auto simp: device_ok_def)
    qed
  qed
qed

lemma device_write:
  assumes "device_ok d s" and "512 \<le> length buf"
    and "block_device_write d io lba (Some buf) s = (r, io', s')"
  shows "device_ok d s'" and "io' = block_io_after io r"
    and "block_ok r \<Longrightarrow> unat lba < length (abs s) \<and> abs s' = (abs s)[unat lba := take 512 buf]"
    and "\<not> block_ok r \<Longrightarrow> abs s' = abs s \<or> abs s' = (abs s)[unat lba := take 512 buf]"
proof -
  show "io' = block_io_after io r" using assms(3) by (rule block_device_write_io)
  show "device_ok d s'"
    and "block_ok r \<Longrightarrow> unat lba < length (abs s) \<and> abs s' = (abs s)[unat lba := take 512 buf]"
    and "\<not> block_ok r \<Longrightarrow> abs s' = abs s \<or> abs s' = (abs s)[unat lba := take 512 buf]"
  proof (atomize (full), goal_cases)
    case 1
    show ?case
    proof (cases "bd_sectors d \<le> lba")
      case True
      then show ?thesis
        using assms block_device_write_out_of_range [of d lba io buf s r io' s']
        by (auto simp: device_ok_def block_ok_def)
    next
      case False
      then have lba: "unat lba < length (abs s)"
        using assms(1) by (simp add: device_ok_def word_le_nat_alt)
      obtain r' s'' where call: "wr lba (Some buf) s = (r', s'')" by (cases "wr lba (Some buf) s") auto
      then have "r' = r" "s'' = s'"
        using assms(1,3) False block_device_write_driver [of d wr lba buf s r' s'' io]
        by (auto simp: device_ok_def)
      with call have "wr lba (Some buf) s = (r, s')" by simp
      with assms(1,2) lba show ?thesis
        using wr_law [of s lba buf r s']
        by (cases "block_ok r") (auto simp: device_ok_def)
    qed
  qed
qed

text \<open>The same at the level of the storage globals.\<close>

definition storage_ok :: "'s storage \<Rightarrow> bool" where
  "storage_ok g \<longleftrightarrow> device_ok (ata0 g) (driver_state g)"

definition disk :: "'s storage \<Rightarrow> bytes list" where
  "disk g = abs (driver_state g)"

lemma disk_sector: "storage_ok g \<Longrightarrow> i < length (disk g) \<Longrightarrow> length (disk g ! i) = 512"
  by (simp add: storage_ok_def device_ok_def disk_def sector_law)

lemma storage_sectors: "storage_ok g \<Longrightarrow> unat (bd_sectors (ata0 g)) = length (disk g)"
  by (simp add: storage_ok_def device_ok_def disk_def)

lemma zfs_read:
  assumes "storage_ok g" and "512 \<le> length buf" and "zfs_read_sector lba buf g = (r, out, g')"
  shows "storage_ok g'" and "disk g' = disk g" and "length out = length buf" and "ata0 g' = ata0 g"
    and "block_ok r \<Longrightarrow> unat lba < length (disk g) \<and> out = disk g ! unat lba @ drop 512 buf"
proof -
  obtain o' io s where call: "block_device_read (ata0 g) (zfs_io_state g) lba (Some buf) (driver_state g) =
      (r, o', io, s)" and out: "out = (case o' of None \<Rightarrow> buf | Some b \<Rightarrow> b)"
    and g': "g' = g\<lparr>zfs_io_state := io, driver_state := s\<rparr>"
    using assms(3) by (auto simp: zfs_read_sector_def split: prod.splits)
  note law = device_read [OF assms(1) [unfolded storage_ok_def] assms(2) call]
  show "storage_ok g'" "disk g' = disk g" "ata0 g' = ata0 g"
    using law(1,2) by (simp_all add: storage_ok_def disk_def g')
  show "length out = length buf" using law(5) out by auto
  show "block_ok r \<Longrightarrow> unat lba < length (disk g) \<and> out = disk g ! unat lba @ drop 512 buf"
    using law(4) out by (simp add: disk_def)
qed

lemma zfs_write:
  assumes "storage_ok g" and "512 \<le> length buf" and "zfs_write_sector lba buf g = (r, g')"
  shows "storage_ok g'" and "ata0 g' = ata0 g"
    and "block_ok r \<Longrightarrow> unat lba < length (disk g) \<and> disk g' = (disk g)[unat lba := take 512 buf]"
    and "disk g' = disk g \<or> disk g' = (disk g)[unat lba := take 512 buf]"
proof -
  obtain io s where call: "block_device_write (ata0 g) (zfs_io_state g) lba (Some buf) (driver_state g) =
      (r, io, s)" and g': "g' = g\<lparr>zfs_io_state := io, driver_state := s\<rparr>"
    using assms(3) by (auto simp: zfs_write_sector_def split: prod.splits)
  note law = device_write [OF assms(1) [unfolded storage_ok_def] assms(2) call]
  show "storage_ok g'" "ata0 g' = ata0 g" using law(1) by (simp_all add: storage_ok_def g')
  show "block_ok r \<Longrightarrow> unat lba < length (disk g) \<and> disk g' = (disk g)[unat lba := take 512 buf]"
    using law(3) by (simp add: disk_def g')
  show "disk g' = disk g \<or> disk g' = (disk g)[unat lba := take 512 buf]"
    using law(3,4) by (cases "block_ok r") (auto simp: disk_def g')
qed

end

end
