(* ===== verification/Lzss.thy ===== *)
theory Lzss
  imports Prelude
begin

text \<open>
  The ZLIVE003 transport of the live image: the LZSS compressor of the host tool
  \<open>tools/live_image_pack.cpp\<close> (\<open>lz_hash\<close>, \<open>lzss_compress\<close> with its hash chains) and the
  decompressor the kernel runs at boot, \<open>live_decompress_pack\<close> of
  \<open>kernel/parts/storage_live_image.inc\<close>.

  The main result is the round trip: whatever the hash chains offer as match candidates, the kernel
  rebuilds exactly the bytes the tool compressed. The vectors \<open>head\<close> and \<open>previous\<close> of the tool
  are functions from indices; an entry is the \<open>int32\<close> cast of a position, so it may be negative.
\<close>

section \<open>The compressor\<close>

definition lz_window :: nat where "lz_window = 4096"
definition lz_min_match :: nat where "lz_min_match = 3"
definition lz_max_match :: nat where "lz_max_match = 18"
definition lz_chain_limit :: nat where "lz_chain_limit = 128"

lemmas lz_constants = lz_window_def lz_min_match_def lz_max_match_def lz_chain_limit_def

definition lz_hash :: "bytes \<Rightarrow> nat \<Rightarrow> u32" where
  "lz_hash input position =
     (let a = ucast (input ! position) :: u32; b = ucast (input ! (position + 1));
          c = ucast (input ! (position + 2))
      in ((a * 251 + b) * 251 + c) AND 0xFFFF)"

record lz_state =
  lz_position :: nat
  lz_head :: "nat \<Rightarrow> int"
  lz_previous :: "nat \<Rightarrow> int"
  lz_flags :: u8
  lz_body :: bytes

definition insert_position :: "bytes \<Rightarrow> nat \<Rightarrow> lz_state \<Rightarrow> lz_state" where
  "insert_position input position s =
     (if position + lz_min_match > length input then s
      else let hash = unat (lz_hash input position)
           in s\<lparr>lz_previous := (lz_previous s)(position := lz_head s hash),
                lz_head := (lz_head s)(hash := sint (word_of_nat position :: u32))\<rparr>)"

text \<open>\<open>size_t\<close> subtraction wraps.\<close>

definition size_sub :: "nat \<Rightarrow> nat \<Rightarrow> nat" where
  "size_sub a b = (if b \<le> a then a - b else a + 2 ^ 64 - b)"

function match_length :: "bytes \<Rightarrow> nat \<Rightarrow> nat \<Rightarrow> nat \<Rightarrow> nat \<Rightarrow> nat" where
  "match_length input source position limit len =
     (if len < limit \<and> input ! (source + len) = input ! (position + len)
      then match_length input source position limit (len + 1) else len)"
  by pat_completeness auto
termination
  by (relation "measure (\<lambda>(input, source, position, limit, len). limit - len)") auto

declare match_length.simps [simp del]

text \<open>The candidate loop: at most \<open>lz_chain_limit - visited\<close> further links of the chain.\<close>

fun search_chain ::
    "bytes \<Rightarrow> (nat \<Rightarrow> int) \<Rightarrow> nat \<Rightarrow> nat \<Rightarrow> int \<Rightarrow> nat \<Rightarrow> nat \<Rightarrow> nat \<times> nat" where
  "search_chain input previous position 0 candidate best_length best_distance =
     (best_length, best_distance)"
| "search_chain input previous position (Suc visits) candidate best_length best_distance =
     (if candidate < 0 then (best_length, best_distance)
      else let source = nat candidate; distance = size_sub position source
           in if distance > lz_window then (best_length, best_distance)
              else let limit = (if length input - position < lz_max_match
                                then length input - position else lz_max_match);
                       len = match_length input source position limit 0
                   in if len > best_length \<and> len \<ge> lz_min_match
                      then if len = lz_max_match then (len, distance)
                           else search_chain input previous position visits (previous source) len distance
                      else search_chain input previous position visits (previous source)
                             best_length best_distance)"

definition find_match :: "bytes \<Rightarrow> lz_state \<Rightarrow> nat \<times> nat" where
  "find_match input s =
     (if lz_position s + lz_min_match \<le> length input
      then search_chain input (lz_previous s) (lz_position s) lz_chain_limit
             (lz_head s (unat (lz_hash input (lz_position s)))) 0 0
      else (0, 0))"

definition lz_code :: "nat \<Rightarrow> nat \<Rightarrow> u16" where
  "lz_code best_distance best_length =
     ucast (push_bit 4 (word_of_nat (best_distance - 1) :: u64) OR
            (word_of_nat (best_length - lz_min_match) :: u64))"

text \<open>One iteration of the bit loop: a match code or a literal.\<close>

definition lz_step :: "bytes \<Rightarrow> nat \<Rightarrow> lz_state \<Rightarrow> lz_state" where
  "lz_step input bit_index s =
     (let (best_length, best_distance) = find_match input s
      in if best_length \<ge> lz_min_match
         then let code = lz_code best_distance best_length;
                  s1 = s\<lparr>lz_body := lz_body s @ [ucast code, ucast (drop_bit 8 code)]\<rparr>;
                  s2 = fold (\<lambda>consumed. insert_position input (lz_position s + consumed))
                         [0..<best_length] s1
              in s2\<lparr>lz_position := lz_position s + best_length\<rparr>
         else let s1 = s\<lparr>lz_flags := lz_flags s OR push_bit bit_index 1,
                         lz_body := lz_body s @ [input ! lz_position s]\<rparr>;
                  s2 = insert_position input (lz_position s) s1
              in s2\<lparr>lz_position := lz_position s + 1\<rparr>)"

text \<open>The bit loop from \<open>bit\<close> on: \<open>count = 8 - bit\<close> iterations remain.\<close>

fun lz_items :: "bytes \<Rightarrow> nat \<Rightarrow> nat \<Rightarrow> lz_state \<Rightarrow> lz_state" where
  "lz_items input 0 bit_index s = s"
| "lz_items input (Suc count) bit_index s =
     (if lz_position s < length input
      then lz_items input count (bit_index + 1) (lz_step input bit_index s) else s)"

definition lz_group :: "bytes \<Rightarrow> lz_state \<Rightarrow> lz_state" where
  "lz_group input s = lz_items input 8 0 (s\<lparr>lz_flags := 0, lz_body := []\<rparr>)"

lemma insert_position_fields [simp]:
  "lz_position (insert_position input p s) = lz_position s"
  "lz_flags (insert_position input p s) = lz_flags s"
  "lz_body (insert_position input p s) = lz_body s"
  by (simp_all add: insert_position_def Let_def)

lemma fold_insert_fields [simp]:
  "lz_position (fold (\<lambda>c. insert_position input (p + c)) cs s) = lz_position s"
  "lz_flags (fold (\<lambda>c. insert_position input (p + c)) cs s) = lz_flags s"
  "lz_body (fold (\<lambda>c. insert_position input (p + c)) cs s) = lz_body s"
  by (induction cs arbitrary: s) simp_all

lemma lz_step_position: "lz_position s < lz_position (lz_step input bit_index s)"
  by (simp add: lz_step_def Let_def lz_constants split: prod.splits)

lemma lz_items_position: "lz_position s \<le> lz_position (lz_items input count bit_index s)"
proof (induction count arbitrary: bit_index s)
  case (Suc count)
  then show ?case
    using lz_step_position [of s input bit_index] by (auto intro: order.trans less_imp_le)
qed simp

lemma lz_items_progress:
  assumes "0 < count" and "lz_position s < length input"
  shows "lz_position s < lz_position (lz_items input count bit_index s)"
proof -
  obtain n where "count = Suc n" using assms(1) by (cases count) auto
  with assms(2) show ?thesis
    by (simp add: less_le_trans [OF lz_step_position lz_items_position])
qed

lemma lz_group_progress:
  "lz_position s < length input \<Longrightarrow> lz_position s < lz_position (lz_group input s)"
  using lz_items_progress [of 8 "s\<lparr>lz_flags := 0, lz_body := []\<rparr>" input 0]
  by (simp add: lz_group_def)

function lzss_loop :: "bytes \<Rightarrow> lz_state \<Rightarrow> bytes \<Rightarrow> bytes" where
  "lzss_loop input s output =
     (if lz_position s < length input
      then let s' = lz_group input s
           in lzss_loop input s' (output @ [lz_flags s'] @ lz_body s')
      else output)"
  by pat_completeness auto
termination
  by (relation "measure (\<lambda>(input, s, output). length input - lz_position s)")
    (auto intro: diff_less_mono2 lz_group_progress)

declare lzss_loop.simps [simp del]

definition lz_initial :: lz_state where
  "lz_initial = \<lparr>lz_position = 0, lz_head = (\<lambda>_. -1), lz_previous = (\<lambda>_. -1),
                lz_flags = 0, lz_body = []\<rparr>"

definition lzss_compress :: "bytes \<Rightarrow> bytes" where
  "lzss_compress input = lzss_loop input lz_initial []"

section \<open>The kernel decompressor\<close>

text \<open>
  \<open>output\<close> is the written prefix of the workspace, so its length is the counter \<open>written\<close>.
  A result \<open>Inl output\<close> is \<open>return false\<close> with the bytes written so far.
\<close>

fun live_copy :: "nat \<Rightarrow> nat \<Rightarrow> bytes \<Rightarrow> bytes" where
  "live_copy distance 0 output = output"
| "live_copy distance (Suc count) output =
     live_copy distance count (output @ [output ! (length output - distance)])"

fun live_decode_items ::
    "bytes \<Rightarrow> nat \<Rightarrow> u8 \<Rightarrow> nat \<Rightarrow> nat \<Rightarrow> nat \<Rightarrow> bytes \<Rightarrow> bytes + nat \<times> bytes" where
  "live_decode_items compressed capacity flags 0 bit_index input output = Inr (input, output)"
| "live_decode_items compressed capacity flags (Suc count) bit_index input output =
     (if \<not> length output < capacity then Inr (input, output)
      else if flags AND push_bit bit_index 1 \<noteq> 0
      then if input \<ge> length compressed then Inl output
           else live_decode_items compressed capacity flags count (bit_index + 1) (input + 1)
                  (output @ [compressed ! input])
      else if input + 1 \<ge> length compressed then Inl output
      else let code = ucast (compressed ! input) OR push_bit 8 (ucast (compressed ! (input + 1))) :: u16;
               distance = unat (drop_bit 4 code) + 1;
               len = unat (code AND 0x0F) + lz_min_match
           in if distance > length output \<or> length output + len > capacity then Inl output
              else live_decode_items compressed capacity flags count (bit_index + 1) (input + 2)
                     (live_copy distance len output))"

lemma length_live_copy [simp]: "length (live_copy d n out) = length out + n"
  by (induction n arbitrary: out) simp_all

lemma live_decode_items_grows:
  "live_decode_items cmp cap flags count i inp out = Inr (inp', out') \<Longrightarrow>
     length out \<le> length out' \<and> (0 < count \<and> length out < cap \<longrightarrow> length out < length out')"
proof (induction count arbitrary: i inp out)
  case (Suc count)
  show ?case
    using Suc.prems by (auto simp: Let_def lz_constants split: if_splits dest!: Suc.IH)
qed simp

function live_decode_loop :: "bytes \<Rightarrow> nat \<Rightarrow> nat \<Rightarrow> bytes \<Rightarrow> bool \<times> bytes" where
  "live_decode_loop compressed capacity input output =
     (if length output < capacity
      then if input \<ge> length compressed then (False, output)
           else case live_decode_items compressed capacity (compressed ! input) 8 0 (input + 1) output of
               Inl output' \<Rightarrow> (False, output')
             | Inr (input', output') \<Rightarrow> live_decode_loop compressed capacity input' output'
      else (input = length compressed, output))"
  by pat_completeness auto
termination
proof (relation "measure (\<lambda>(compressed, capacity, input, output). capacity - length output)",
    goal_cases)
  case (2 cmp cap inp out y inp' out')
  then have "length out < length out'"
    using live_decode_items_grows [of cmp cap _ 8 0 "inp + 1" out inp' out'] by auto
  with 2 show ?case by (auto simp: diff_less_mono2)
qed simp

declare live_decode_loop.simps [simp del]

section \<open>Round trip\<close>

subsection \<open>Match candidates\<close>

lemma match_length_bounds:
  "len \<le> limit \<Longrightarrow>
     len \<le> match_length input source position limit len \<and>
     match_length input source position limit len \<le> limit"
proof (induction input source position limit len rule: match_length.induct)
  case (1 input source position limit len)
  then show ?case by (subst (1 2) match_length.simps) auto
qed

lemma match_length_agree:
  "len \<le> k \<Longrightarrow> k < match_length input source position limit len \<Longrightarrow>
     input ! (source + k) = input ! (position + k)"
proof (induction input source position limit len rule: match_length.induct)
  case (1 input source position limit len)
  from "1.prems"(2) have step: "len < limit \<and> input ! (source + len) = input ! (position + len)"
    by (subst (asm) match_length.simps) (use "1.prems"(1) in \<open>auto split: if_splits\<close>)
  show ?case
  proof (cases "k = len")
    case True
    with step show ?thesis by simp
  next
    case False
    with "1.prems" step show ?thesis
      by (intro "1.IH") (simp_all add: match_length.simps [of input source position limit len])
  qed
qed

text \<open>What a found match promises: a copy of earlier input, within the window and the code's range.\<close>

definition good_match :: "bytes \<Rightarrow> nat \<Rightarrow> nat \<times> nat \<Rightarrow> bool" where
  "good_match input position m =
     (case m of (len, distance) \<Rightarrow>
        len \<ge> lz_min_match \<longrightarrow>
          len \<le> lz_max_match \<and> 1 \<le> distance \<and> distance \<le> lz_window \<and> distance \<le> position \<and>
          position + len \<le> length input \<and>
          (\<forall>k<len. input ! (position - distance + k) = input ! (position + k)))"

definition links_below :: "(nat \<Rightarrow> int) \<Rightarrow> nat \<Rightarrow> bool" where
  "links_below f position = (\<forall>i. f i < int position)"

lemma search_chain_good:
  assumes "links_below previous position" and "candidate < int position"
    and "position < length input" and "good_match input position (bl, bd)"
  shows "good_match input position (search_chain input previous position visits candidate bl bd)"
  using assms(2,4)
proof (induction visits arbitrary: candidate bl bd)
  case 0
  then show ?case by simp
next
  case (Suc visits)
  define source where "source = nat candidate"
  define limit where "limit = (if length input - position < lz_max_match
                               then length input - position else lz_max_match)"
  define len where "len = match_length input source position limit 0"
  have next_link: "previous source < int position"
    using assms(1) by (simp add: links_below_def)
  have found: "good_match input position (len, size_sub position source)"
    if "candidate \<ge> 0" and "\<not> size_sub position source > lz_window"
  proof -
    have src: "source < position" using Suc.prems(1) that(1) by (simp add: source_def)
    then have dist: "size_sub position source = position - source" by (simp add: size_sub_def)
    have bounds: "len \<le> limit" unfolding len_def using match_length_bounds [of 0 limit] by simp
    have agree: "input ! (source + k) = input ! (position + k)" if "k < len" for k
      using match_length_agree [of 0 k] that by (simp add: len_def)
    have "limit \<le> lz_max_match" "position + limit \<le> length input"
      using assms(3) by (auto simp: limit_def)
    with src that(2) bounds agree show ?thesis
      by (auto simp: good_match_def dist)
  qed
  show ?case
    using Suc.IH [OF next_link] Suc.prems(2) found
    by (auto simp: Let_def source_def [symmetric] limit_def [symmetric] len_def [symmetric])
qed

lemma find_match_good:
  assumes "links_below (lz_head s) (lz_position s)" and "links_below (lz_previous s) (lz_position s)"
    and "lz_position s < length input"
  shows "good_match input (lz_position s) (find_match input s)"
proof -
  have none: "good_match input (lz_position s) (0, 0)"
    by (simp add: good_match_def lz_constants)
  show ?thesis
    using assms none by (auto simp: find_match_def links_below_def intro!: search_chain_good)
qed

subsection \<open>The hash chains only hold earlier positions\<close>

lemma sint_word_of_nat_le: "sint (word_of_nat p :: u32) \<le> int p"
proof -
  have "sint (word_of_nat p :: u32) \<le> uint (word_of_nat p :: u32)"
    by (simp add: sint_uint signed_take_bit_int_less_eq_self_iff
        order_trans [OF _ unsigned_greater_eq])
  also have "\<dots> = int p mod 2 ^ 32"
    by (simp add: unsigned_of_nat take_bit_eq_mod of_nat_mod)
  also have "\<dots> \<le> int p"
    by (simp add: zmod_le_nonneg_dividend)
  finally show ?thesis .
qed

definition links_ok :: "lz_state \<Rightarrow> nat \<Rightarrow> bool" where
  "links_ok s position = (links_below (lz_head s) position \<and> links_below (lz_previous s) position)"

lemma links_ok_mono: "links_ok s p \<Longrightarrow> p \<le> q \<Longrightarrow> links_ok s q"
  by (fastforce simp: links_ok_def links_below_def intro: less_le_trans)

lemma insert_position_links:
  assumes "links_ok s q" and "p < q"
  shows "links_ok (insert_position input p s) q"
proof -
  have "sint (word_of_nat p :: u32) < int q"
    using sint_word_of_nat_le [of p] assms(2) by linarith
  with assms(1) show ?thesis
    by (auto simp: links_ok_def links_below_def insert_position_def Let_def)
qed

lemma fold_insert_links:
  assumes "links_ok s q" and "\<forall>c\<in>set cs. p + c < q"
  shows "links_ok (fold (\<lambda>c. insert_position input (p + c)) cs s) q"
  using assms by (induction cs arbitrary: s) (simp_all add: insert_position_links)

lemma links_ok_update [simp]:
  "links_ok (s\<lparr>lz_position := x\<rparr>) q = links_ok s q"
  "links_ok (s\<lparr>lz_flags := f\<rparr>) q = links_ok s q"
  "links_ok (s\<lparr>lz_body := b\<rparr>) q = links_ok s q"
  by (simp_all add: links_ok_def)

lemma lz_step_links:
  assumes "links_ok s (lz_position s)"
  shows "links_ok (lz_step input i s) (lz_position (lz_step input i s))"
proof -
  obtain bl bd where m: "find_match input s = (bl, bd)" by (cases "find_match input s") auto
  have "links_ok (s\<lparr>lz_flags := f, lz_body := b\<rparr>) (lz_position s + n)" for f b n
    using links_ok_mono [OF assms, of "lz_position s + n"] by simp
  then show ?thesis
    using links_ok_mono [OF assms]
    by (auto simp: lz_step_def m Let_def intro!: fold_insert_links insert_position_links)
qed

subsection \<open>Codes\<close>

lemma bit_nat_less: "(x :: nat) < 2 ^ k \<Longrightarrow> bit x n \<Longrightarrow> n < k"
  by (metis bit_take_bit_iff take_bit_nat_eq_self)

lemma lz_code_distance:
  assumes "len - lz_min_match < 16"
  shows "drop_bit 4 (lz_code distance len) = take_bit 12 (word_of_nat (distance - 1))"
  using bit_nat_less [of "len - lz_min_match" 4] assms
  by (intro bit_word_eqI) (auto simp: lz_code_def bit_simps)

lemma lz_code_length:
  assumes "len - lz_min_match < 16"
  shows "lz_code distance len AND 0x0F = word_of_nat (len - lz_min_match)"
proof -
  have "lz_code distance len AND mask 4 = word_of_nat (len - lz_min_match)"
    using bit_nat_less [of "len - lz_min_match" 4] assms
    by (intro bit_word_eqI) (auto simp: lz_code_def bit_simps)
  then show ?thesis by (simp add: mask_eq_exp_minus_1)
qed

lemma two_byte_code: "(ucast (ucast c :: u8) OR push_bit 8 (ucast (ucast (drop_bit 8 c) :: u8)) :: u16) = c"
  by (rule bit_word_eqI) (auto simp: bit_simps)

lemma lz_code_decodes:
  assumes "lz_min_match \<le> len" "len \<le> lz_max_match" "1 \<le> distance" "distance \<le> lz_window"
  shows "unat (drop_bit 4 (lz_code distance len)) + 1 = distance"
    and "unat (lz_code distance len AND 0x0F) + lz_min_match = len"
proof -
  have small: "len - lz_min_match < 16" using assms by (simp add: lz_constants)
  define x where "x = distance - 1"
  have "x < 2 ^ 12" using assms(4) by (simp add: x_def lz_constants)
  then have "unat (take_bit 12 (word_of_nat x :: u16)) = x"
    by (simp add: unsigned_take_bit_eq unat_of_nat take_bit_nat_eq_self)
  then have "unat (take_bit 12 (word_of_nat (distance - 1) :: u16)) = distance - 1"
    by (simp only: x_def)
  then show "unat (drop_bit 4 (lz_code distance len)) + 1 = distance"
    using assms by (simp add: lz_code_distance [OF small])
  define y where "y = len - lz_min_match"
  have "unat (word_of_nat y :: u16) = y"
    using small by (simp add: y_def [symmetric] unat_of_nat)
  then have "unat (lz_code distance len AND 0x0F) = len - lz_min_match"
    by (simp only: lz_code_length [OF small] y_def)
  then show "unat (lz_code distance len AND 0x0F) + lz_min_match = len"
    using assms(1) by simp
qed

lemma live_copy_match:
  assumes "1 \<le> d" "d \<le> p" "p + n \<le> length input"
    and "\<forall>k<n. input ! (p - d + k) = input ! (p + k)"
  shows "live_copy d n (take p input) = take (p + n) input"
  using assms
proof (induction n arbitrary: p)
  case (Suc n)
  have "take p input @ [take p input ! (length (take p input) - d)] = take (Suc p) input"
    using Suc.prems by (simp add: take_Suc_conv_app_nth) (use Suc.prems in auto)
  moreover have "live_copy d n (take (Suc p) input) = take (Suc p + n) input"
  proof (rule Suc.IH)
    show "\<forall>k<n. input ! (Suc p - d + k) = input ! (Suc p + k)"
      using Suc.prems(4) [rule_format, of "Suc _"] Suc.prems(2) by (auto simp: Suc_diff_le)
  qed (use Suc.prems in auto)
  ultimately show ?case by simp
qed simp

subsection \<open>One group of eight items\<close>

lemma lz_step_flags_low:
  "j < i \<Longrightarrow> bit (lz_flags (lz_step input i s)) j = bit (lz_flags s) j"
  by (simp add: lz_step_def Let_def bit_simps split: prod.splits)

lemma lz_items_flags_low:
  "j < i \<Longrightarrow> bit (lz_flags (lz_items input count i s)) j = bit (lz_flags s) j"
proof (induction count arbitrary: i s)
  case (Suc count)
  then show ?case by (simp add: lz_step_flags_low)
qed simp

lemma lz_step_flags_high:
  "i < j \<Longrightarrow> bit (lz_flags (lz_step input i s)) j = bit (lz_flags s) j"
  by (simp add: lz_step_def Let_def bit_simps split: prod.splits)

lemma lz_step_bound:
  assumes "links_ok s (lz_position s)" and "lz_position s < length input"
  shows "lz_position (lz_step input i s) \<le> length input"
  using find_match_good [of s input] assms
  by (auto simp: lz_step_def Let_def links_ok_def good_match_def split: prod.splits)

text \<open>The bytes one step appends, and that the kernel reads them back as the next input bytes.\<close>

definition step_bytes :: "bytes \<Rightarrow> lz_state \<Rightarrow> bytes" where
  "step_bytes input s =
     (let (bl, bd) = find_match input s
      in if bl \<ge> lz_min_match then [ucast (lz_code bd bl), ucast (drop_bit 8 (lz_code bd bl))]
         else [input ! lz_position s])"

lemma lz_step_body: "lz_body (lz_step input i s) = lz_body s @ step_bytes input s"
  by (simp add: lz_step_def step_bytes_def Let_def split: prod.splits)

lemma flag_test: "(f :: u8) AND push_bit i 1 \<noteq> 0 \<longleftrightarrow> i < 8 \<and> bit f i"
proof -
  have "f AND push_bit i 1 = (if bit f i then push_bit i 1 else 0)"
    by (rule bit_word_eqI) (auto simp: bit_simps)
  then show ?thesis using bit_imp_le_length [of f i] by (auto simp: push_bit_eq_0_iff)
qed

lemma decode_step:
  assumes links: "links_ok s (lz_position s)" and more: "lz_position s < length input" and "i < 8"
    and flag: "bit flags i = bit (lz_flags (lz_step input i s)) i" and "\<not> bit (lz_flags s) i"
    and here: "drop inp cmp = step_bytes input s @ rest"
  shows "live_decode_items cmp (length input) flags (Suc count) i inp (take (lz_position s) input) =
         live_decode_items cmp (length input) flags count (i + 1) (inp + length (step_bytes input s))
           (take (lz_position (lz_step input i s)) input)"
proof -
  obtain bl bd where m: "find_match input s = (bl, bd)" by (cases "find_match input s") auto
  have good: "good_match input (lz_position s) (bl, bd)"
    using find_match_good [of s input] links more by (simp add: links_ok_def m)
  have cmp_nth: "cmp ! (inp + k) = (step_bytes input s @ rest) ! k" if "inp + k < length cmp" for k
    using that by (simp add: here [symmetric] nth_drop)
  have room: "inp + length (step_bytes input s) \<le> length cmp"
    using arg_cong [OF here, of length] by (auto simp: step_bytes_def m)
  show ?thesis
  proof (cases "bl \<ge> lz_min_match")
    case True
    have bytes2: "step_bytes input s = [ucast (lz_code bd bl), ucast (drop_bit 8 (lz_code bd bl))]"
      using True by (simp add: step_bytes_def m)
    have nolit: "\<not> bit flags i"
      using assms(5) flag True by (simp add: lz_step_def m Let_def)
    have c0: "cmp ! inp = ucast (lz_code bd bl)"
      and c1: "cmp ! (inp + 1) = ucast (drop_bit 8 (lz_code bd bl))"
      using cmp_nth [of 0] cmp_nth [of 1] room by (simp_all add: bytes2)
    have copy: "live_copy bd bl (take (lz_position s) input) = take (lz_position s + bl) input"
      by (rule live_copy_match) (use good True in \<open>auto simp: good_match_def\<close>)
    have pos: "lz_position (lz_step input i s) = lz_position s + bl"
      using True by (simp add: lz_step_def m Let_def)
    have code: "unat (drop_bit 4 (lz_code bd bl)) + 1 = bd"
      "unat (lz_code bd bl AND 0x0F) + lz_min_match = bl"
      using lz_code_decodes [of bl bd] good True by (auto simp: good_match_def)
    have fits: "\<not> (bd > lz_position s \<or> lz_position s + bl > length input)"
      using good True by (auto simp: good_match_def)
    show ?thesis
      using more room nolit fits flag_test [of flags i]
      by (simp only: live_decode_items.simps c0 c1 two_byte_code code copy pos Let_def)
         (simp add: bytes2)
  next
    case False
    have "bit flags i"
      using flag False \<open>i < 8\<close> by (simp add: lz_step_def m Let_def bit_simps)
    moreover have "cmp ! inp = input ! lz_position s"
      using cmp_nth [of 0] room False by (simp add: step_bytes_def m)
    ultimately show ?thesis
      using more room False \<open>i < 8\<close> flag_test [of flags i]
      by (simp add: step_bytes_def lz_step_def m Let_def take_Suc_conv_app_nth)
  qed
qed

lemma lz_items_body: "\<exists>B. lz_body (lz_items input count i s) = lz_body s @ B"
proof (induction count arbitrary: i s)
  case (Suc count)
  show ?case
    using Suc.IH [of "i + 1" "lz_step input i s"] by (auto simp: lz_step_body)
qed simp

lemma decode_items:
  assumes "links_ok s (lz_position s)" "i + count \<le> 8" "lz_position s \<le> length input"
    and "\<forall>j. i \<le> j \<longrightarrow> \<not> bit (lz_flags s) j"
    and "\<forall>j. i \<le> j \<and> j < 8 \<longrightarrow> bit flags j = bit (lz_flags (lz_items input count i s)) j"
    and "lz_body (lz_items input count i s) = lz_body s @ B" and "drop inp cmp = B @ rest"
  shows "live_decode_items cmp (length input) flags count i inp (take (lz_position s) input) =
         Inr (inp + length B, take (lz_position (lz_items input count i s)) input)"
  using assms
proof (induction count arbitrary: i s inp B)
  case 0
  then show ?case by simp
next
  case (Suc count)
  show ?case
  proof (cases "lz_position s < length input")
    case False
    with Suc.prems show ?thesis by simp
  next
    case True
    let ?s = "lz_step input i s"
    have items: "lz_items input (Suc count) i s = lz_items input count (i + 1) ?s"
      using True by simp
    obtain B' where B': "lz_body (lz_items input count (i + 1) ?s) = lz_body ?s @ B'"
      and B: "B = step_bytes input s @ B'"
      using lz_items_body [of input count "i + 1" ?s] Suc.prems(6)
      by (auto simp: items lz_step_body simp del: lz_items.simps)
    have flag: "bit flags i = bit (lz_flags ?s) i"
      using Suc.prems(2,5) lz_items_flags_low [of i "i + 1" input count ?s] True by auto
    have zero: "\<forall>j. i + 1 \<le> j \<longrightarrow> \<not> bit (lz_flags ?s) j"
      using Suc.prems(4) lz_step_flags_high [of i _ input s] by auto
    have rest: "drop (inp + length (step_bytes input s)) cmp = B' @ rest"
      using arg_cong [OF Suc.prems(7), of "drop (length (step_bytes input s))"]
      by (simp add: B add.commute)
    have "live_decode_items cmp (length input) flags (Suc count) i inp (take (lz_position s) input) =
          live_decode_items cmp (length input) flags count (i + 1)
            (inp + length (step_bytes input s)) (take (lz_position ?s) input)"
      by (rule decode_step [where rest = "B' @ rest"]) (use Suc.prems True flag B in auto)
    also have "\<dots> = Inr (inp + length (step_bytes input s) + length B',
                        take (lz_position (lz_items input count (i + 1) ?s)) input)"
      by (rule Suc.IH) (use Suc.prems True zero rest B' lz_step_links lz_step_bound items in auto)
    finally show ?thesis by (simp only: items B length_append add.assoc)
  qed
qed

lemma lz_items_links:
  "links_ok s (lz_position s) \<Longrightarrow>
     links_ok (lz_items input count i s) (lz_position (lz_items input count i s))"
  by (induction count arbitrary: i s) (simp_all add: lz_step_links)

lemma lz_items_bound:
  "links_ok s (lz_position s) \<Longrightarrow> lz_position s \<le> length input \<Longrightarrow>
     lz_position (lz_items input count i s) \<le> length input"
  by (induction count arbitrary: i s) (simp_all add: lz_step_links lz_step_bound)

lemma lz_group_decode:
  assumes "links_ok s (lz_position s)" "lz_position s \<le> length input"
    and "drop inp cmp = lz_body (lz_group input s) @ rest"
  shows "live_decode_items cmp (length input) (lz_flags (lz_group input s)) 8 0 inp
           (take (lz_position s) input) =
         Inr (inp + length (lz_body (lz_group input s)), take (lz_position (lz_group input s)) input)"
  using decode_items [of "s\<lparr>lz_flags := 0, lz_body := []\<rparr>" 0 8 input] assms
  by (simp add: lz_group_def)

subsection \<open>The whole stream\<close>

lemma lzss_loop_prefix: "\<exists>X. lzss_loop input s out = out @ X"
proof (induction input s out rule: lzss_loop.induct)
  case (1 input s out)
  then show ?case by (subst lzss_loop.simps) (fastforce simp: Let_def)
qed

lemma lzss_loop_decodes:
  assumes "links_ok s (lz_position s)" "lz_position s \<le> length input"
  shows "live_decode_loop (lzss_loop input s out) (length input) (length out)
           (take (lz_position s) input) = (True, input)"
  using assms
proof (induction input s out rule: lzss_loop.induct)
  case (1 input s out)
  show ?case
  proof (cases "lz_position s < length input")
    case True
    let ?s = "lz_group input s" and ?cmp = "lzss_loop input s out"
    let ?out = "out @ [lz_flags (lz_group input s)] @ lz_body (lz_group input s)"
    have cmp: "?cmp = lzss_loop input ?s ?out"
      using True by (subst lzss_loop.simps) (simp add: Let_def)
    obtain X where X: "?cmp = ?out @ X" using lzss_loop_prefix cmp by metis
    have links: "links_ok ?s (lz_position ?s)" and bound: "lz_position ?s \<le> length input"
      using "1.prems" by (simp_all add: lz_group_def lz_items_links lz_items_bound)
    have "live_decode_items ?cmp (length input) (?cmp ! length out) 8 0 (length out + 1)
            (take (lz_position s) input) =
          Inr (length ?out, take (lz_position ?s) input)"
      using lz_group_decode [OF "1.prems", of "length out + 1" ?cmp X] by (simp add: X)
    moreover have "live_decode_loop ?cmp (length input) (length ?out)
                     (take (lz_position ?s) input) = (True, input)"
      unfolding cmp using True links bound by (intro "1.IH") auto
    ultimately show ?thesis
      using True by (subst live_decode_loop.simps) (simp add: X)
  next
    case False
    with "1.prems" show ?thesis
      by (simp add: lzss_loop.simps [of input s] live_decode_loop.simps)
  qed
qed

lemma lzss_round_trip: "live_decode_loop (lzss_compress input) (length input) 0 [] = (True, input)"
  using lzss_loop_decodes [of lz_initial input "[]"]
  by (simp add: lzss_compress_def lz_initial_def links_ok_def links_below_def)

text \<open>
  C30: The kernel's LZSS decoder inverts the host's compressor on every input: decoding the compressed
  stream to the original length succeeds and yields the original bytes.
\<close>

theorem lzss_decoder_inverts_compressor:
  "live_decode_loop (lzss_compress input) (length input) 0 [] = (True, input)"
  by (rule lzss_round_trip)

end
