(* ===== verification/Live_Image.thy ===== *)
theory Live_Image
  imports Block_Device Lzss
begin

text \<open>
  The live image of the ISO. The first part is the host tool \<open>tools/live_image_pack.cpp\<close>: it cuts
  the ZenovFS image into sparse chunks (ZLIVE002), compresses them (ZLIVE003, theory \<open>Lzss\<close>) and
  emits the constants of \<open>generated/live_zenovfs.hpp\<close>, here the record \<open>live_header\<close>. The second
  part is \<open>kernel/parts/storage_live_image.inc\<close>: decompression and validation at boot, the sparse
  base reader with its binary search, and the RAM copy-on-write overlay behind the block device
  \<open>live0\<close>.

  The lemmas show that the kernel reads back, sector by sector, the image the tool packed, and that
  the overlay refines a flat array of sectors.
\<close>

section \<open>The packer\<close>

definition sector_size :: nat where "sector_size = 512"
definition zero_gap :: nat where "zero_gap = 8"
definition max_chunk_bytes :: nat where "max_chunk_bytes = 0xFFFF"

record chunk =
  ck_offset :: u32
  ck_bytes :: bytes

definition append_u16 :: "bytes \<Rightarrow> u16 \<Rightarrow> bytes" where
  "append_u16 output value = output @ [ucast value, ucast (drop_bit 8 value)]"

definition append_u32 :: "bytes \<Rightarrow> u32 \<Rightarrow> bytes" where
  "append_u32 output value =
     output @ [ucast value, ucast (drop_bit 8 value), ucast (drop_bit 16 value),
               ucast (drop_bit 24 value)]"

function skip_zeros :: "bytes \<Rightarrow> nat \<Rightarrow> nat" where
  "skip_zeros img i = (if i < length img \<and> img ! i = 0 then skip_zeros img (i + 1) else i)"
  by pat_completeness auto
termination
  by (relation "measure (\<lambda>(img, i). length img - i)") auto

text \<open>The last non-zero byte of the chunk that runs until more than \<open>zero_gap\<close> zeros follow.\<close>

function scan_chunk :: "bytes \<Rightarrow> nat \<Rightarrow> nat \<Rightarrow> nat" where
  "scan_chunk img i last_nonzero =
     (if i < length img
      then if img ! i \<noteq> 0 then scan_chunk img (i + 1) i
           else if i - last_nonzero > zero_gap then last_nonzero
           else scan_chunk img (i + 1) last_nonzero
      else last_nonzero)"
  by pat_completeness auto
termination
  by (relation "measure (\<lambda>(img, i, last_nonzero). length img - i)") auto

declare skip_zeros.simps [simp del] scan_chunk.simps [simp del]

lemma skip_zeros_ge: "i \<le> skip_zeros img i"
proof (induction img i rule: skip_zeros.induct)
  case (1 img i)
  then show ?case by (subst skip_zeros.simps) auto
qed

lemma scan_chunk_ge: "last_nonzero \<le> i \<Longrightarrow> last_nonzero \<le> scan_chunk img i last_nonzero"
proof (induction img i last_nonzero rule: scan_chunk.induct)
  case (1 img i last_nonzero)
  then show ?case by (subst scan_chunk.simps) (auto intro: order.trans)
qed

function collect_chunks :: "bytes \<Rightarrow> nat \<Rightarrow> chunk list \<Rightarrow> chunk list result" where
  "collect_chunks img i chunks =
     (if i < length img
      then let start = skip_zeros img i
           in if start = length img then Inr chunks
              else let stop = scan_chunk img (start + 1) start + 1; len = stop - start
                   in if len > max_chunk_bytes
                      then throw ''sparse chunk exceeds ZLIVE002 uint16 length''
                      else collect_chunks img stop
                             (chunks @ [\<lparr>ck_offset = word_of_nat start,
                                         ck_bytes = take len (drop start img)\<rparr>])
      else Inr chunks)"
  by pat_completeness auto
termination
proof (relation "measure (\<lambda>(img, i, chunks). length img - i)", goal_cases)
  case (2 img i chunks start stop len)
  have "i \<le> skip_zeros img i" by (rule skip_zeros_ge)
  moreover have "start \<le> scan_chunk img (start + 1) start" by (rule scan_chunk_ge) simp
  ultimately show ?case using 2 by auto
qed simp

declare collect_chunks.simps [simp del]

text \<open>The ZLIVE002 sparse payload: header, row table, chunk data.\<close>

definition zlive_magic :: bytes where
  "zlive_magic = bytes_of_string ''ZLIVE002''"

definition append_row :: "chunk \<Rightarrow> bytes \<Rightarrow> bytes" where
  "append_row c sparse =
     append_u16 (append_u16 (append_u32 sparse (ck_offset c)) (word_of_nat (length (ck_bytes c)))) 0"

definition sparse_payload :: "nat \<Rightarrow> chunk list \<Rightarrow> bytes" where
  "sparse_payload sectors chunks =
     (let data_bytes = sum_list (map (length \<circ> ck_bytes) chunks);
          sparse = append_u32 (append_u32 (append_u32 zlive_magic (word_of_nat sectors))
                     (word_of_nat (length chunks))) (word_of_nat data_bytes);
          sparse = fold append_row chunks sparse
      in fold (\<lambda>c out. out @ ck_bytes c) chunks sparse)"

text \<open>The constants of the generated header.\<close>

record live_header =
  live_image_pack_bytes :: nat
  live_image_compressed_bytes :: nat
  live_image_pack_checksum :: u32
  live_image_logical_sectors :: nat
  live_image_chunk_count :: nat
  live_image_compressed :: bytes

text \<open>\<open>main\<close> of the packer, from the bytes of the image to the emitted constants.\<close>

definition live_image_pack :: "bytes \<Rightarrow> live_header result" where
  "live_image_pack img =
     throw_if (img = []) ''input image is empty''
     (throw_if (length img mod sector_size \<noteq> 0 \<or> length img div sector_size > 2 ^ 32 - 1)
        ''input must be a sector-aligned 32-bit image''
     (ebind (collect_chunks img 0 []) (\<lambda>chunks.
      throw_if (chunks = [] \<or> length chunks > 2 ^ 32 - 1)
        ''input produced an invalid sparse chunk set''
     (throw_if (sum_list (map (length \<circ> ck_bytes) chunks) > 2 ^ 32 - 1)
        ''packed data is too large''
     (let sparse = sparse_payload (length img div sector_size) chunks;
          compressed = lzss_compress sparse
      in throw_if (compressed = [] \<or> length compressed \<ge> length sparse)
           ''ZLIVE003 compression did not reduce the sparse payload''
         (Inr \<lparr>live_image_pack_bytes = length sparse,
               live_image_compressed_bytes = length compressed,
               live_image_pack_checksum = fnv1a sparse,
               live_image_logical_sectors = length img div sector_size,
               live_image_chunk_count = length chunks,
               live_image_compressed = compressed\<rparr>))))))"

section \<open>The kernel side\<close>

definition live_overlay_empty :: u16 where "live_overlay_empty = 0xFFFF"
definition live_overlay_capacity_sectors :: u32 where "live_overlay_capacity_sectors = 1024"
definition live_pack_header_bytes :: nat where "live_pack_header_bytes = 20"
definition live_pack_chunk_bytes :: nat where "live_pack_chunk_bytes = 8"

text \<open>
  The \<open>static_assert\<close>s that tie the generated constants to the supervisor layout (a 64 KiB
  workspace, a 64 KiB overlay map and a 512 KiB overlay), and the generated one on the array.
\<close>

definition live_static_asserts :: "live_header \<Rightarrow> bool" where
  "live_static_asserts h =
     (live_image_compressed_bytes h < 32768 \<and> live_image_pack_bytes h \<le> 0x10000 \<and>
      live_image_logical_sectors h * 2 \<le> 0x10000 \<and>
      unat live_overlay_capacity_sectors * sector_size \<le> 0x80000 \<and>
      length (live_image_compressed h) = live_image_compressed_bytes h)"

record live_state =
  live_pack_decoded :: bytes
  live_overlay_map :: "u16 list"
  live_overlay_sectors :: bytes
  live_overlay_used :: u32
  live_storage_active :: bool

definition live_read_u16 :: "bytes \<Rightarrow> u16" where
  "live_read_u16 data = ucast (data ! 0) OR push_bit 8 (ucast (data ! 1))"

definition live_read_u32 :: "bytes \<Rightarrow> u32" where
  "live_read_u32 data =
     ucast (data ! 0) OR push_bit 8 (ucast (data ! 1)) OR push_bit 16 (ucast (data ! 2)) OR
     push_bit 24 (ucast (data ! 3))"

definition live_fnv1a32 :: "bytes \<Rightarrow> nat \<Rightarrow> u32" where
  "live_fnv1a32 data count = fnv1a (take count data)"

text \<open>\<open>live_decompress_pack\<close>: the verdict and the workspace, whose written prefix is replaced.\<close>

definition live_decompress_pack :: "live_header \<Rightarrow> bytes \<Rightarrow> nat \<Rightarrow> bool \<times> bytes" where
  "live_decompress_pack h workspace capacity =
     (if capacity \<noteq> live_image_pack_bytes h then (False, workspace)
      else let (ok, written) = live_decode_loop (take (live_image_compressed_bytes h)
                                 (live_image_compressed h)) capacity 0 []
           in (ok, blit 0 written workspace))"

definition live_chunk_row :: "bytes \<Rightarrow> nat \<Rightarrow> bytes" where
  "live_chunk_row decoded index =
     drop (live_pack_header_bytes + index * live_pack_chunk_bytes) decoded"

definition live_chunk_length :: "bytes \<Rightarrow> nat \<Rightarrow> u32" where
  "live_chunk_length decoded index = ucast (live_read_u16 (drop 4 (live_chunk_row decoded index)))"

definition live_pack_data_start :: "live_header \<Rightarrow> nat" where
  "live_pack_data_start h =
     live_pack_header_bytes + live_image_chunk_count h * live_pack_chunk_bytes"

definition live_chunk_data_offset :: "bytes \<Rightarrow> nat \<Rightarrow> u32" where
  "live_chunk_data_offset decoded index =
     fold (\<lambda>i offset. offset + live_chunk_length decoded i) [0..<index] 0"

text \<open>The row loop of \<open>live_pack_valid\<close> with \<open>count\<close> rows left.\<close>

fun live_rows_valid :: "bytes \<Rightarrow> u32 \<Rightarrow> u32 \<Rightarrow> nat \<Rightarrow> nat \<Rightarrow> u32 \<Rightarrow> u32 \<Rightarrow> bool" where
  "live_rows_valid decoded sectors data_bytes 0 i previous_end accumulated_data =
     (accumulated_data = data_bytes)"
| "live_rows_valid decoded sectors data_bytes (Suc count) i previous_end accumulated_data =
     (let row = live_chunk_row decoded i; offset = live_read_u32 row;
          len = ucast (live_read_u16 (drop 4 row)) :: u32;
          reserved = ucast (live_read_u16 (drop 6 row)) :: u32
      in if len = 0 \<or> reserved \<noteq> 0 \<or> offset < previous_end \<or>
            unat offset + unat len > unat sectors * sector_size \<or>
            unat accumulated_data + unat len > unat data_bytes
         then False
         else live_rows_valid decoded sectors data_bytes count (i + 1) (offset + len)
                (accumulated_data + len))"

definition live_pack_valid :: "live_header \<Rightarrow> bytes \<Rightarrow> bool" where
  "live_pack_valid h decoded =
     (if live_image_pack_bytes h < live_pack_header_bytes then False
      else if take 8 decoded \<noteq> zlive_magic then False
      else if live_fnv1a32 decoded (live_image_pack_bytes h) \<noteq> live_image_pack_checksum h then False
      else let sectors = live_read_u32 (drop 8 decoded); chunks = live_read_u32 (drop 12 decoded);
               data_bytes = live_read_u32 (drop 16 decoded)
           in if unat sectors \<noteq> live_image_logical_sectors h \<or>
                 unat chunks \<noteq> live_image_chunk_count h \<or> sectors = 0 \<or> chunks = 0 then False
              else let table_end = live_pack_header_bytes + unat chunks * live_pack_chunk_bytes
                   in if table_end > live_image_pack_bytes h \<or>
                         table_end + unat data_bytes \<noteq> live_image_pack_bytes h then False
                      else live_rows_valid decoded sectors data_bytes (unat chunks) 0 0 0)"

text \<open>The binary search of \<open>live_read_base_sector\<close>: the first chunk that ends after the sector starts.\<close>

function live_lower_bound :: "bytes \<Rightarrow> u32 \<Rightarrow> nat \<Rightarrow> nat \<Rightarrow> nat" where
  "live_lower_bound decoded sector_begin low high =
     (if low < high
      then let middle = low + (high - low) div 2; row = live_chunk_row decoded middle;
               chunk_end = live_read_u32 row + ucast (live_read_u16 (drop 4 row))
           in if chunk_end \<le> sector_begin then live_lower_bound decoded sector_begin (middle + 1) high
              else live_lower_bound decoded sector_begin low middle
      else low)"
  by pat_completeness auto
termination
  by (relation "measure (\<lambda>(decoded, sector_begin, low, high). high - low)") auto

declare live_lower_bound.simps [simp del]

text \<open>The part of one chunk that lies in the sector, copied into the output buffer.\<close>

definition live_copy_chunk ::
    "bytes \<Rightarrow> nat \<Rightarrow> u32 \<Rightarrow> u32 \<Rightarrow> u32 \<Rightarrow> u32 \<Rightarrow> u32 \<Rightarrow> bytes \<Rightarrow> bytes" where
  "live_copy_chunk decoded data_start sector_begin sector_end offset len data_offset buffer =
     (let copy_begin = (if offset > sector_begin then offset else sector_begin);
          chunk_end = offset + len;
          copy_end = (if chunk_end < sector_end then chunk_end else sector_end)
      in if copy_end > copy_begin
         then blit (unat (copy_begin - sector_begin))
                (take (unat (copy_end - copy_begin))
                   (drop (data_start + unat data_offset + unat (copy_begin - offset)) decoded)) buffer
         else buffer)"

primrec live_copy_chunks ::
    "nat \<Rightarrow> bytes \<Rightarrow> nat \<Rightarrow> u32 \<Rightarrow> u32 \<Rightarrow> nat \<Rightarrow> u32 \<Rightarrow> bytes \<Rightarrow> bytes" where
  "live_copy_chunks 0 decoded data_start sector_begin sector_end i data_offset buffer = buffer"
| "live_copy_chunks (Suc count) decoded data_start sector_begin sector_end i data_offset buffer =
     (let row = live_chunk_row decoded i; offset = live_read_u32 row;
          len = ucast (live_read_u16 (drop 4 row)) :: u32
      in if offset \<ge> sector_end then buffer
         else live_copy_chunks count decoded data_start sector_begin sector_end (i + 1)
                (data_offset + len)
                (live_copy_chunk decoded data_start sector_begin sector_end offset len data_offset
                   buffer))"

definition live_read_base_sector :: "live_header \<Rightarrow> bytes \<Rightarrow> u32 \<Rightarrow> bytes \<Rightarrow> bytes" where
  "live_read_base_sector h decoded lba buffer =
     (let buffer = blit 0 (replicate sector_size 0) buffer;
          sector_begin = lba * 512; sector_end = sector_begin + 512;
          low = live_lower_bound decoded sector_begin 0 (live_image_chunk_count h)
      in live_copy_chunks (live_image_chunk_count h - low) decoded (live_pack_data_start h)
           sector_begin sector_end low (live_chunk_data_offset decoded low) buffer)"

definition live_read_sector :: "live_header \<Rightarrow> live_state read_sector_fn" where
  "live_read_sector h lba buffer s =
     (case buffer of
        None \<Rightarrow> (mk_block_result BopRead BsNoDevice lba 0 0 0, buffer, s)
      | Some out \<Rightarrow>
          if \<not> live_storage_active s then (mk_block_result BopRead BsNoDevice lba 0 0 0, buffer, s)
          else if unat lba \<ge> live_image_logical_sectors h
          then (mk_block_result BopRead BsOutOfRange lba 0 0 0, buffer, s)
          else let overlay = live_overlay_map s ! unat lba;
                   out' = (if overlay \<noteq> live_overlay_empty
                           then blit 0 (take sector_size
                                  (drop (unat overlay * sector_size) (live_overlay_sectors s))) out
                           else live_read_base_sector h (live_pack_decoded s) lba out)
               in (block_success BopRead lba 1, Some out', s))"

definition live_write_sector :: "live_header \<Rightarrow> live_state write_sector_fn" where
  "live_write_sector h lba buffer s =
     (case buffer of
        None \<Rightarrow> (mk_block_result BopWrite BsNoDevice lba 0 0 0, s)
      | Some inp \<Rightarrow>
          if \<not> live_storage_active s then (mk_block_result BopWrite BsNoDevice lba 0 0 0, s)
          else if unat lba \<ge> live_image_logical_sectors h
          then (mk_block_result BopWrite BsOutOfRange lba 0 0 0, s)
          else let overlay = live_overlay_map s ! unat lba;
                   store = (\<lambda>overlay s. s\<lparr>live_overlay_sectors :=
                              blit (unat overlay * sector_size) (take sector_size inp)
                                (live_overlay_sectors s)\<rparr>)
               in if overlay = live_overlay_empty
                  then if live_overlay_used s \<ge> live_overlay_capacity_sectors
                       then (mk_block_result BopWrite BsDeviceError lba 1 0 0, s)
                       else let overlay = ucast (live_overlay_used s) :: u16;
                                s = s\<lparr>live_overlay_used := live_overlay_used s + 1,
                                      live_overlay_map := (live_overlay_map s)[unat lba := overlay]\<rparr>
                            in (block_success BopWrite lba 1, store overlay s)
                  else (block_success BopWrite lba 1, store overlay s))"

text \<open>
  \<open>live_image_initialize\<close> over the storage globals, whose driver state is the live state. Its serial
  messages are not modelled.
\<close>

definition live_image_initialize ::
    "live_header \<Rightarrow> live_state storage \<Rightarrow> bool \<times> live_state storage" where
  "live_image_initialize h g =
     (let s = (driver_state g)\<lparr>live_storage_active := False, live_overlay_used := 0\<rparr>;
          (ok, decoded) = live_decompress_pack h (live_pack_decoded s) (live_image_pack_bytes h);
          s = s\<lparr>live_pack_decoded := decoded\<rparr>
      in if \<not> ok \<or> \<not> live_pack_valid h decoded then (False, g\<lparr>driver_state := s\<rparr>)
         else let s = s\<lparr>live_overlay_map :=
                          blit 0 (replicate (live_image_logical_sectors h) 0xFFFF) (live_overlay_map s),
                        live_storage_active := True\<rparr>
              in (True,
                  g\<lparr>ata_present := False,
                    ata_sector_total := word_of_nat (live_image_logical_sectors h),
                    ata0 := \<lparr>bd_name = Some ''live0'', bd_present = True, bd_writable = True,
                             bd_sectors = word_of_nat (live_image_logical_sectors h),
                             bd_read_sector = Some (live_read_sector h),
                             bd_write_sector = Some (live_write_sector h)\<rparr>,
                    zfs_io_state := block_io_state_initial,
                    driver_state := s\<rparr>))"

section \<open>Sparse chunks\<close>

abbreviation chunk_start :: "chunk \<Rightarrow> nat" where
  "chunk_start c \<equiv> unat (ck_offset c)"

abbreviation chunk_len :: "chunk \<Rightarrow> nat" where
  "chunk_len c \<equiv> length (ck_bytes c)"

abbreviation chunk_stop :: "chunk \<Rightarrow> nat" where
  "chunk_stop c \<equiv> chunk_start c + chunk_len c"

text \<open>The byte a chunk list denotes at an image offset: zero outside every chunk.\<close>

fun sparse_byte :: "chunk list \<Rightarrow> nat \<Rightarrow> byte" where
  "sparse_byte [] p = 0"
| "sparse_byte (c # cs) p =
     (if chunk_start c \<le> p \<and> p < chunk_stop c then ck_bytes c ! (p - chunk_start c)
      else sparse_byte cs p)"

text \<open>Ordered, disjoint, non-empty chunks of 16-bit length between two image offsets.\<close>

fun chunks_wf :: "nat \<Rightarrow> nat \<Rightarrow> chunk list \<Rightarrow> bool" where
  "chunks_wf low high [] = True"
| "chunks_wf low high (c # cs) =
     (low \<le> chunk_start c \<and> 0 < chunk_len c \<and> chunk_len c \<le> max_chunk_bytes \<and>
      chunk_stop c \<le> high \<and> chunks_wf (chunk_stop c) high cs)"

lemma sparse_byte_below: "chunks_wf low high cs \<Longrightarrow> p < low \<Longrightarrow> sparse_byte cs p = 0"
proof (induction cs arbitrary: low)
  case (Cons c cs)
  from Cons.prems have "sparse_byte cs p = 0" by (intro Cons.IH [of "chunk_stop c"]) auto
  with Cons.prems show ?case by auto
qed simp

lemma chunks_wf_mono: "chunks_wf low high cs \<Longrightarrow> low' \<le> low \<Longrightarrow> chunks_wf low' high cs"
  by (cases cs) auto

lemma skip_zeros_spec:
  "i \<le> length img \<Longrightarrow>
     skip_zeros img i \<le> length img \<and> (\<forall>p. i \<le> p \<and> p < skip_zeros img i \<longrightarrow> img ! p = 0) \<and>
     (skip_zeros img i < length img \<longrightarrow> img ! skip_zeros img i \<noteq> 0)"
proof (induction img i rule: skip_zeros.induct)
  case (1 img i)
  show ?case
  proof (cases "i < length img \<and> img ! i = 0")
    case True
    with 1 have IH: "skip_zeros img (i + 1) \<le> length img"
      "\<forall>p. i + 1 \<le> p \<and> p < skip_zeros img (i + 1) \<longrightarrow> img ! p = 0"
      "skip_zeros img (i + 1) < length img \<longrightarrow> img ! skip_zeros img (i + 1) \<noteq> 0"
      by auto
    have "img ! p = 0" if "i \<le> p" "p < skip_zeros img (i + 1)" for p
      using IH(2) True that by (cases "p = i") auto
    with True IH show ?thesis by (simp add: skip_zeros.simps [of img i])
  next
    case False
    with 1 show ?thesis by (auto simp: skip_zeros.simps [of img i])
  qed
qed

lemma scan_chunk_less:
  "last_nonzero < length img \<Longrightarrow> scan_chunk img i last_nonzero < length img"
proof (induction img i last_nonzero rule: scan_chunk.induct)
  case (1 img i last_nonzero)
  then show ?case by (subst scan_chunk.simps) auto
qed

lemma collect_chunks_spec:
  assumes "collect_chunks img i cs = Inr cs'" and "i \<le> length img" and "length img < 2 ^ 32"
  shows "\<exists>ds. cs' = cs @ ds \<and> chunks_wf i (length img) ds \<and>
           (\<forall>p. i \<le> p \<and> p < length img \<longrightarrow> sparse_byte ds p = img ! p)"
  using assms
proof (induction img i cs rule: collect_chunks.induct)
  case (1 img i cs)
  let ?start = "skip_zeros img i"
  note zeros = skip_zeros_spec [OF "1.prems"(2)]
  show ?case
  proof (cases "i < length img \<and> ?start \<noteq> length img")
    case False
    then have "cs' = cs" and "\<forall>p. i \<le> p \<and> p < length img \<longrightarrow> img ! p = 0"
      using "1.prems"(1,2) zeros
      by (auto simp: collect_chunks.simps [of img i] Let_def split: if_splits)
    then show ?thesis by (intro exI [of _ "[]"]) auto
  next
    case True
    define stop where "stop = scan_chunk img (?start + 1) ?start + 1"
    define c where "c = \<lparr>ck_offset = word_of_nat ?start,
                          ck_bytes = take (stop - ?start) (drop ?start img)\<rparr>"
    have start: "?start < length img" using zeros True by auto
    have stop: "?start < stop" "stop \<le> length img"
      using scan_chunk_ge [of ?start "?start + 1" img] scan_chunk_less [of ?start img "?start + 1"] start
      by (auto simp: stop_def)
    have start_c: "chunk_start c = ?start"
      using start "1.prems"(3) by (simp add: c_def unat_of_nat)
    have len_c: "chunk_len c = stop - ?start" using stop by (simp add: c_def)
    have rec: "collect_chunks img stop (cs @ [c]) = Inr cs'" and small: "stop - ?start \<le> max_chunk_bytes"
      using "1.prems"(1) True
      by (auto simp: collect_chunks.simps [of img i] Let_def stop_def c_def not_less
          split: if_splits)
    have "\<exists>ds. cs' = (cs @ [c]) @ ds \<and> chunks_wf stop (length img) ds \<and>
            (\<forall>p. stop \<le> p \<and> p < length img \<longrightarrow> sparse_byte ds p = img ! p)"
      using "1.IH" [OF _ refl _ refl refl] True small rec stop(2) "1.prems"(3)
      by (simp add: stop_def c_def)
    then obtain ds where ds: "cs' = (cs @ [c]) @ ds" "chunks_wf stop (length img) ds"
      "\<forall>p. stop \<le> p \<and> p < length img \<longrightarrow> sparse_byte ds p = img ! p" by blast
    have wf: "chunks_wf i (length img) (c # ds)"
      using ds(2) stop small skip_zeros_ge [of i img] by (simp add: start_c len_c)
    have "sparse_byte (c # ds) p = img ! p" if "i \<le> p" "p < length img" for p
    proof -
      consider "p < ?start" | "?start \<le> p" "p < stop" | "stop \<le> p" by linarith
      then show ?thesis
      proof cases
        case 1
        then have "sparse_byte ds p = 0" using sparse_byte_below [OF ds(2)] stop by auto
        with 1 that zeros show ?thesis by (simp add: start_c)
      next
        case 2
        then show ?thesis using stop that by (simp add: start_c len_c) (simp add: c_def)
      next
        case 3
        with that ds(3) stop show ?thesis by (simp add: start_c len_c)
      qed
    qed
    with ds(1) wf show ?thesis by (intro exI [of _ "c # ds"]) auto
  qed
qed

section \<open>The validated pack as chunks\<close>

definition data_pos :: "bytes \<Rightarrow> nat \<Rightarrow> nat" where
  "data_pos decoded i = sum_list (map (\<lambda>j. unat (live_chunk_length decoded j)) [0..<i])"

definition decoded_chunk :: "live_header \<Rightarrow> bytes \<Rightarrow> nat \<Rightarrow> chunk" where
  "decoded_chunk h decoded i =
     \<lparr>ck_offset = live_read_u32 (live_chunk_row decoded i),
      ck_bytes = take (unat (live_chunk_length decoded i))
                   (drop (live_pack_data_start h + data_pos decoded i) decoded)\<rparr>"

definition decoded_chunks :: "live_header \<Rightarrow> bytes \<Rightarrow> chunk list" where
  "decoded_chunks h decoded = map (decoded_chunk h decoded) [0..<live_image_chunk_count h]"

lemma data_pos_0 [simp]: "data_pos decoded 0 = 0"
  by (simp add: data_pos_def)

lemma data_pos_Suc [simp]:
  "data_pos decoded (Suc i) = data_pos decoded i + unat (live_chunk_length decoded i)"
  by (simp add: data_pos_def)

lemma data_pos_mono: "i \<le> j \<Longrightarrow> data_pos decoded i \<le> data_pos decoded j"
  by (rule lift_Suc_mono_le [of "data_pos decoded"]) simp_all

lemma live_chunk_length_bound: "unat (live_chunk_length decoded i) \<le> max_chunk_bytes"
  using unat_less_exp [of "live_read_u16 (drop 4 (live_chunk_row decoded i))"]
  by (simp add: live_chunk_length_def max_chunk_bytes_def unat_ucast_up)

lemma live_chunk_data_offset_eq:
  "data_pos decoded i < 2 ^ 32 \<Longrightarrow> unat (live_chunk_data_offset decoded i) = data_pos decoded i"
proof (induction i)
  case 0
  then show ?case by (simp add: live_chunk_data_offset_def)
next
  case (Suc i)
  then show ?case
    by (simp add: live_chunk_data_offset_def unat_add_nowrap)
qed

lemma live_rows_valid_sound:
  assumes "live_rows_valid decoded sectors data_bytes count i previous_end acc"
    and "unat acc = data_pos decoded i" and "unat sectors * sector_size < 2 ^ 32"
    and "live_pack_data_start h + unat data_bytes \<le> length decoded"
  shows "chunks_wf (unat previous_end) (unat sectors * sector_size)
           (map (decoded_chunk h decoded) [i..<i + count]) \<and>
         data_pos decoded (i + count) = unat data_bytes"
  using assms(1,2)
proof (induction count arbitrary: i previous_end acc)
  case 0
  then show ?case by simp
next
  case (Suc count)
  let ?off = "live_read_u32 (live_chunk_row decoded i)" and ?len = "live_chunk_length decoded i"
  have row: "?len \<noteq> 0" "previous_end \<le> ?off"
      "unat ?off + unat ?len \<le> unat sectors * sector_size" "unat acc + unat ?len \<le> unat data_bytes"
    and rest: "live_rows_valid decoded sectors data_bytes count (i + 1) (?off + ?len) (acc + ?len)"
    using Suc.prems(1) by (auto simp: Let_def live_chunk_length_def not_less split: if_splits)
  have stop: "unat (?off + ?len) = unat ?off + unat ?len"
    using row(3) assms(3) by (intro unat_add_nowrap) simp
  have acc: "unat (acc + ?len) = data_pos decoded (i + 1)"
    using row(4) Suc.prems(2) unat_less_exp [of data_bytes] by (simp add: unat_add_nowrap)
  have len: "chunk_len (decoded_chunk h decoded i) = unat ?len"
    using row(4) Suc.prems(2) assms(4) by (simp add: decoded_chunk_def)
  have start: "chunk_start (decoded_chunk h decoded i) = unat ?off"
    by (simp add: decoded_chunk_def)
  have "0 < unat ?len" using row(1) by (simp add: unat_gt_0)
  moreover note Suc.IH [OF rest acc]
  moreover have "[i..<i + Suc count] = i # [i + 1..<i + 1 + count]"
    by (simp add: upt_rec)
  ultimately show ?case
    using row(2,3) stop live_chunk_length_bound [of decoded i] by (simp add: len start word_le_nat_alt)
qed

lemma live_pack_valid_sound:
  assumes "live_pack_valid h decoded" and "live_static_asserts h"
    and "live_image_pack_bytes h \<le> length decoded"
  shows "chunks_wf 0 (live_image_logical_sectors h * sector_size) (decoded_chunks h decoded)"
    and "live_pack_data_start h + data_pos decoded (live_image_chunk_count h) =
         live_image_pack_bytes h"
proof -
  define sectors where "sectors = live_read_u32 (drop 8 decoded)"
  define chunks where "chunks = live_read_u32 (drop 12 decoded)"
  define data_bytes where "data_bytes = live_read_u32 (drop 16 decoded)"
  have head: "unat sectors = live_image_logical_sectors h" "unat chunks = live_image_chunk_count h"
      "live_pack_header_bytes + unat chunks * live_pack_chunk_bytes + unat data_bytes =
       live_image_pack_bytes h"
    and rows: "live_rows_valid decoded sectors data_bytes (unat chunks) 0 0 0"
    using assms(1)
    by (auto simp: live_pack_valid_def Let_def sectors_def chunks_def data_bytes_def split: if_splits)
  have "unat sectors * sector_size < 2 ^ 32"
    using assms(2) head(1) by (simp add: live_static_asserts_def sector_size_def)
  moreover have start: "live_pack_data_start h + unat data_bytes = live_image_pack_bytes h"
    using head by (simp add: live_pack_data_start_def)
  ultimately have "chunks_wf 0 (unat sectors * sector_size)
        (map (decoded_chunk h decoded) [0..<unat chunks]) \<and>
      data_pos decoded (unat chunks) = unat data_bytes"
    using live_rows_valid_sound [OF rows, of h] assms(3) by simp
  with head start
  show "chunks_wf 0 (live_image_logical_sectors h * sector_size) (decoded_chunks h decoded)"
    and "live_pack_data_start h + data_pos decoded (live_image_chunk_count h) =
         live_image_pack_bytes h"
    by (simp_all add: decoded_chunks_def)
qed

section \<open>Reading the base image\<close>

definition covered :: "chunk list \<Rightarrow> nat \<Rightarrow> bool" where
  "covered cs p = (\<exists>c\<in>set cs. chunk_start c \<le> p \<and> p < chunk_stop c)"

lemma covered_Cons [simp]:
  "covered (c # cs) p \<longleftrightarrow> chunk_start c \<le> p \<and> p < chunk_stop c \<or> covered cs p"
  by (auto simp: covered_def)

lemma not_covered_Nil [simp]: "\<not> covered [] p"
  by (simp add: covered_def)

lemma covered_above: "chunks_wf low high cs \<Longrightarrow> covered cs p \<Longrightarrow> low \<le> p"
proof (induction cs arbitrary: low)
  case (Cons c cs)
  have "chunk_stop c \<le> p" if "covered cs p" using Cons that by auto
  with Cons.prems show ?case by auto
qed simp

lemma sparse_byte_uncovered: "\<not> covered cs p \<Longrightarrow> sparse_byte cs p = 0"
  by (induction cs) auto

lemma sparse_byte_append:
  "\<not> covered xs p \<Longrightarrow> sparse_byte (xs @ ys) p = sparse_byte ys p"
  by (induction xs) auto

lemma chunks_wf_nth:
  assumes "chunks_wf low high cs" and "i < length cs"
  shows "low \<le> chunk_start (cs ! i)" and "chunk_stop (cs ! i) \<le> high"
    and "0 < chunk_len (cs ! i)"
  using assms by (induction cs arbitrary: low i) (fastforce simp: less_Suc_eq_0_disj)+

lemma chunks_wf_short:
  "chunks_wf low high cs \<Longrightarrow> i < length cs \<Longrightarrow> chunk_len (cs ! i) \<le> max_chunk_bytes"
  by (induction cs arbitrary: low i) (fastforce simp: less_Suc_eq_0_disj)+

lemma chunks_wf_ordered:
  "chunks_wf low high cs \<Longrightarrow> j < length cs \<Longrightarrow> i < j \<Longrightarrow> chunk_stop (cs ! i) \<le> chunk_start (cs ! j)"
proof (induction cs arbitrary: low i j)
  case (Cons c cs)
  then obtain k where j: "j = Suc k" by (cases j) auto
  show ?case
  proof (cases i)
    case 0
    with Cons.prems j show ?thesis using chunks_wf_nth(1) [of "chunk_stop c" high cs k] by simp
  next
    case (Suc i')
    with Cons.prems j show ?thesis using Cons.IH [of "chunk_stop c" k i'] by simp
  qed
qed simp

definition row_end :: "bytes \<Rightarrow> nat \<Rightarrow> u32" where
  "row_end decoded i = live_read_u32 (live_chunk_row decoded i) + live_chunk_length decoded i"

lemma live_lower_bound_spec:
  assumes "\<forall>i j. i \<le> j \<and> j < high \<longrightarrow> row_end decoded i \<le> row_end decoded j" and "low \<le> high"
  shows "low \<le> live_lower_bound decoded sb low high \<and> live_lower_bound decoded sb low high \<le> high \<and>
         (\<forall>i. low \<le> i \<and> i < live_lower_bound decoded sb low high \<longrightarrow> row_end decoded i \<le> sb) \<and>
         (\<forall>i. live_lower_bound decoded sb low high \<le> i \<and> i < high \<longrightarrow> sb < row_end decoded i)"
  using assms
proof (induction decoded sb low high rule: live_lower_bound.induct)
  case (1 decoded sb low high)
  define mid where "mid = low + (high - low) div 2"
  note unfold = live_lower_bound.simps [of decoded sb low high]
  show ?case
  proof (cases "low < high")
    case False
    then have "live_lower_bound decoded sb low high = low" by (simp add: unfold)
    with False "1.prems" show ?thesis by auto
  next
    case True
    then have mid: "low \<le> mid" "mid < high" by (auto simp: mid_def)
    note mono = "1.prems"(1)
    show ?thesis
    proof (cases "row_end decoded mid \<le> sb")
      case le: True
      have below: "row_end decoded i \<le> sb" if "i \<le> mid" for i
        using mono mid(2) that le order.trans by blast
      have "live_lower_bound decoded sb low high = live_lower_bound decoded sb (mid + 1) high"
        using True le by (simp add: unfold Let_def mid_def row_end_def live_chunk_length_def)
      moreover note "1.IH"(1) [OF True mid_def refl refl]
      ultimately show ?thesis
        using le mono mid below
        by (simp add: row_end_def live_chunk_length_def not_less_eq_eq) (metis Suc_leD not_less_eq_eq)
    next
      case gt: False
      have above: "sb < row_end decoded i" if "mid \<le> i" "i < high" for i
        using mono that gt by (metis less_le_trans not_le)
      have "live_lower_bound decoded sb low high = live_lower_bound decoded sb low mid"
        using True gt by (simp add: unfold Let_def mid_def row_end_def live_chunk_length_def)
      moreover have "\<forall>i j. i \<le> j \<and> j < mid \<longrightarrow> row_end decoded i \<le> row_end decoded j"
        using mono mid by auto
      moreover note "1.IH"(2) [OF True mid_def refl refl]
      ultimately have rec: "low \<le> live_lower_bound decoded sb low high"
          "live_lower_bound decoded sb low high \<le> mid"
          "\<forall>i. low \<le> i \<and> i < live_lower_bound decoded sb low high \<longrightarrow> row_end decoded i \<le> sb"
          "\<forall>i. live_lower_bound decoded sb low high \<le> i \<and> i < mid \<longrightarrow> sb < row_end decoded i"
        using gt mid by (simp_all add: row_end_def live_chunk_length_def)
      have "sb < row_end decoded i" if "live_lower_bound decoded sb low high \<le> i" "i < high" for i
        using rec(4) above that by (cases "i < mid") auto
      with rec(1-3) mid show ?thesis by auto
    qed
  qed
qed

lemma live_copy_chunk_spec:
  assumes "unat sb + sector_size = unat se" and "unat off + unat len < 2 ^ 32"
    and "data_start + unat doff + unat len \<le> length decoded" and "sector_size \<le> length buf"
  shows "length (live_copy_chunk decoded data_start sb se off len doff buf) = length buf"
    and "k < sector_size \<Longrightarrow>
      live_copy_chunk decoded data_start sb se off len doff buf ! k =
        (if unat off \<le> unat sb + k \<and> unat sb + k < unat off + unat len
         then decoded ! (data_start + unat doff + (unat sb + k - unat off)) else buf ! k)"
    and "drop sector_size (live_copy_chunk decoded data_start sb se off len doff buf) =
         drop sector_size buf"
proof -
  define cb where "cb = (if sb < off then off else sb)"
  define ce where "ce = (if off + len < se then off + len else se)"
  have stop: "unat (off + len) = unat off + unat len" using assms(2) by (intro unat_add_nowrap) simp
  have cb: "unat cb = max (unat off) (unat sb)" by (simp add: cb_def word_less_nat_alt max_def)
  have ce: "unat ce = min (unat off + unat len) (unat se)"
    by (simp add: ce_def word_less_nat_alt stop min_def)
  have le: "off \<le> cb" "sb \<le> cb" by (auto simp: cb_def)
  have d1: "unat (cb - sb) = unat cb - unat sb" and d2: "unat (cb - off) = unat cb - unat off"
    using le by (simp_all add: unat_sub)
  let ?res = "live_copy_chunk decoded data_start sb se off len doff buf"
  let ?src = "take (unat (ce - cb)) (drop (data_start + unat doff + unat (cb - off)) decoded)"
  have res: "?res = (if cb < ce then blit (unat (cb - sb)) ?src buf else buf)"
    by (simp add: live_copy_chunk_def cb_def ce_def Let_def)
  have copy: "unat (ce - cb) = unat ce - unat cb" "length ?src = unat ce - unat cb"
      "unat (cb - sb) + length ?src \<le> sector_size" if "cb < ce"
  proof -
    show d3: "unat (ce - cb) = unat ce - unat cb" using that by (simp add: unat_sub less_imp_le)
    have lt: "unat cb < unat ce" using that by (simp add: word_less_nat_alt)
    show len: "length ?src = unat ce - unat cb"
      using lt assms(3) cb ce unfolding length_take length_drop d3 d2 by linarith
    show "unat (cb - sb) + length ?src \<le> sector_size"
      using lt assms(1) cb ce unfolding len d1 by linarith
  qed
  have fits: "unat (cb - sb) + length ?src \<le> length buf" if "cb < ce"
    using copy(3) [OF that] assms(4) by linarith
  show "length ?res = length buf"
    unfolding res using fits by (cases "cb < ce") (simp_all only: if_True if_False length_blit)
  show "drop sector_size ?res = drop sector_size buf"
    unfolding res using drop_blit [OF copy(3) fits] by simp
  assume k: "k < sector_size"
  show "?res ! k = (if unat off \<le> unat sb + k \<and> unat sb + k < unat off + unat len
         then decoded ! (data_start + unat doff + (unat sb + k - unat off)) else buf ! k)"
  proof (cases "cb < ce")
    case True
    have inside: "unat (cb - sb) \<le> k \<and> k < unat (cb - sb) + length ?src \<longleftrightarrow>
        unat off \<le> unat sb + k \<and> unat sb + k < unat off + unat len"
      unfolding copy(2) [OF True] d1 using True k assms(1) cb ce
      by (auto simp: word_less_nat_alt max_def min_def split: if_splits)
    have "?res ! k = (if unat (cb - sb) \<le> k \<and> k < unat (cb - sb) + length ?src
                      then ?src ! (k - unat (cb - sb)) else buf ! k)"
      using True k copy(3) assms(4) by (simp add: res nth_blit del: length_take length_drop)
    moreover have "?src ! (k - unat (cb - sb)) =
        decoded ! (data_start + unat doff + (unat sb + k - unat off))"
      if "unat (cb - sb) \<le> k" "k < unat (cb - sb) + length ?src"
    proof -
      have lt: "k - unat (cb - sb) < unat (ce - cb)"
        using that copy(1,2) [OF True] by linarith
      have start: "data_start + unat doff + unat (cb - off) \<le> length decoded"
        using True assms(3) cb ce unfolding d2 word_less_nat_alt by linarith
      have index: "data_start + unat doff + unat (cb - off) + (k - unat (cb - sb)) =
          data_start + unat doff + (unat sb + k - unat off)"
        using that(1) cb unfolding d1 d2 by linarith
      show ?thesis by (simp only: nth_take [OF lt] nth_drop [OF start] index)
    qed
    ultimately show ?thesis using inside by metis
  next
    case False
    then have "\<not> (unat off \<le> unat sb + k \<and> unat sb + k < unat off + unat len)"
      using k assms(1) cb ce by (auto simp: word_less_nat_alt)
    with False show ?thesis by (auto simp: res)
  qed
qed

definition pack_ok :: "live_header \<Rightarrow> bytes \<Rightarrow> bool" where
  "pack_ok h decoded \<longleftrightarrow>
     live_static_asserts h \<and> live_image_pack_bytes h \<le> length decoded \<and> live_pack_valid h decoded"

lemma pack_ok_decoded:
  assumes "pack_ok h decoded" and "i < live_image_chunk_count h"
  shows "unat (live_read_u32 (live_chunk_row decoded i)) = chunk_start (decoded_chunks h decoded ! i)"
    and "unat (live_chunk_length decoded i) = chunk_len (decoded_chunks h decoded ! i)"
    and "ck_bytes (decoded_chunks h decoded ! i) =
         take (unat (live_chunk_length decoded i))
           (drop (live_pack_data_start h + data_pos decoded i) decoded)"
    and "live_pack_data_start h + data_pos decoded (Suc i) \<le> length decoded"
    and "chunk_stop (decoded_chunks h decoded ! i) \<le> live_image_logical_sectors h * sector_size"
    and "live_image_logical_sectors h * sector_size < 2 ^ 31"
proof -
  have ok: "live_pack_valid h decoded" "live_static_asserts h"
      "live_image_pack_bytes h \<le> length decoded"
    using assms(1) by (auto simp: pack_ok_def)
  note sound = live_pack_valid_sound [OF ok]
  show "live_image_logical_sectors h * sector_size < 2 ^ 31"
    using ok(2) by (simp add: live_static_asserts_def sector_size_def)
  show fits: "live_pack_data_start h + data_pos decoded (Suc i) \<le> length decoded"
    using data_pos_mono [of "Suc i" "live_image_chunk_count h" decoded] assms(2) sound(2) ok(3)
    by linarith
  show "unat (live_read_u32 (live_chunk_row decoded i)) = chunk_start (decoded_chunks h decoded ! i)"
    and "ck_bytes (decoded_chunks h decoded ! i) =
         take (unat (live_chunk_length decoded i))
           (drop (live_pack_data_start h + data_pos decoded i) decoded)"
    using assms(2) by (simp_all add: decoded_chunks_def decoded_chunk_def)
  then show "unat (live_chunk_length decoded i) = chunk_len (decoded_chunks h decoded ! i)"
    using fits by simp
  show "chunk_stop (decoded_chunks h decoded ! i) \<le> live_image_logical_sectors h * sector_size"
    using chunks_wf_nth(2) [OF sound(1)] assms(2) by (simp add: decoded_chunks_def)
qed

lemma pack_ok_wf:
  "pack_ok h decoded \<Longrightarrow>
     chunks_wf 0 (live_image_logical_sectors h * sector_size) (decoded_chunks h decoded)"
  by (auto simp: pack_ok_def intro: live_pack_valid_sound)

lemma row_end_eq:
  assumes "pack_ok h decoded" and "i < live_image_chunk_count h"
  shows "unat (row_end decoded i) = chunk_stop (decoded_chunks h decoded ! i)"
proof -
  note row = pack_ok_decoded [OF assms]
  have "unat (live_read_u32 (live_chunk_row decoded i)) + unat (live_chunk_length decoded i) < 2 ^ 32"
    using row(1,2,5,6) by simp
  then show ?thesis using row(1,2) by (simp add: row_end_def unat_add_nowrap)
qed

lemma row_end_mono:
  assumes "pack_ok h decoded" and "i \<le> j" and "j < live_image_chunk_count h"
  shows "row_end decoded i \<le> row_end decoded j"
proof (cases "i = j")
  case False
  have "chunk_stop (decoded_chunks h decoded ! i) \<le> chunk_start (decoded_chunks h decoded ! j)"
    using assms False by (intro chunks_wf_ordered [OF pack_ok_wf]) (auto simp: decoded_chunks_def)
  then show ?thesis using assms by (simp add: word_le_nat_alt row_end_eq)
qed simp

text \<open>The suffix of the chunk list the copy loop still has to visit.\<close>

abbreviation rest_chunks :: "live_header \<Rightarrow> bytes \<Rightarrow> nat \<Rightarrow> chunk list" where
  "rest_chunks h decoded i \<equiv> drop i (decoded_chunks h decoded)"

lemma rest_chunks_Cons:
  "i < live_image_chunk_count h \<Longrightarrow>
     rest_chunks h decoded i = decoded_chunks h decoded ! i # rest_chunks h decoded (Suc i)"
  by (rule Cons_nth_drop_Suc [symmetric]) (simp add: decoded_chunks_def)

lemma chunks_wf_drop:
  "chunks_wf low high cs \<Longrightarrow> i < length cs \<Longrightarrow> chunks_wf (chunk_start (cs ! i)) high (drop i cs)"
proof (induction cs arbitrary: low i)
  case (Cons c cs)
  then show ?case by (cases i) auto
qed simp

lemma sparse_byte_hit:
  assumes "chunks_wf low high cs" and "c \<in> set cs" and "chunk_start c \<le> p" and "p < chunk_stop c"
  shows "sparse_byte cs p = ck_bytes c ! (p - chunk_start c)"
  using assms
proof (induction cs arbitrary: low)
  case (Cons d ds)
  show ?case
  proof (cases "c = d")
    case False
    with Cons.prems have "c \<in> set ds" "chunks_wf (chunk_stop d) high ds" by auto
    moreover from this have "chunk_stop d \<le> p"
      using Cons.prems(3,4) by (intro covered_above [of _ high ds]) (auto simp: covered_def)
    ultimately show ?thesis using Cons by auto
  qed (use Cons.prems in simp)
qed simp

lemma live_copy_chunks_spec:
  assumes "pack_ok h decoded" and "unat sb + sector_size = unat se" and "sector_size \<le> length buf"
    and "i + count = live_image_chunk_count h" and "unat doff = data_pos decoded i"
  defines "out \<equiv> live_copy_chunks count decoded (live_pack_data_start h) sb se i doff buf"
  shows "length out = length buf \<and> drop sector_size out = drop sector_size buf \<and>
         (\<forall>k < sector_size. out ! k =
            (if covered (rest_chunks h decoded i) (unat sb + k)
             then sparse_byte (rest_chunks h decoded i) (unat sb + k) else buf ! k))"
  using assms(3-5) unfolding out_def
proof (induction count arbitrary: i doff buf)
  case 0
  then show ?case by (simp add: decoded_chunks_def)
next
  case (Suc count)
  let ?c = "decoded_chunks h decoded ! i" and ?off = "live_read_u32 (live_chunk_row decoded i)"
  let ?len = "live_chunk_length decoded i" and ?rest = "rest_chunks h decoded (Suc i)"
  have i: "i < live_image_chunk_count h" using Suc.prems(2) by simp
  note row = pack_ok_decoded [OF assms(1) i]
  have wf: "chunks_wf (chunk_start ?c) (live_image_logical_sectors h * sector_size) (?c # ?rest)"
    using chunks_wf_drop [OF pack_ok_wf [OF assms(1)], of i] i
    unfolding rest_chunks_Cons [OF i] by (simp add: decoded_chunks_def)
  show ?case
  proof (cases "se \<le> ?off")
    case True
    have "\<not> covered (?c # ?rest) (unat sb + k)" if "k < sector_size" for k
      using covered_above [OF wf] True row(1) assms(2) that
      by (fastforce simp: word_le_nat_alt)
    with True show ?thesis by (auto simp: rest_chunks_Cons [OF i] Let_def)
  next
    case False
    let ?buf = "live_copy_chunk decoded (live_pack_data_start h) sb se ?off ?len doff buf"
    have sum: "unat ?off + unat ?len < 2 ^ 32" using row(1,2,5,6) by simp
    have data: "live_pack_data_start h + unat doff + unat ?len \<le> length decoded"
      using row(4) Suc.prems(3) by simp
    note copy = live_copy_chunk_spec [OF assms(2) sum data Suc.prems(1)]
    have pack: "data_pos decoded (Suc i) < 2 ^ 32"
      using data_pos_mono [of "Suc i" "live_image_chunk_count h" decoded] i assms(1)
        live_pack_valid_sound(2) [of h decoded]
      by (auto simp: pack_ok_def live_static_asserts_def)
    have doff: "unat (doff + ?len) = data_pos decoded (Suc i)"
      using pack Suc.prems(3) by (simp add: unat_add_nowrap)
    have IH: "length (live_copy_chunks count decoded (live_pack_data_start h) sb se (Suc i) (doff + ?len) ?buf) =
          length ?buf"
        "drop sector_size (live_copy_chunks count decoded (live_pack_data_start h) sb se (Suc i) (doff + ?len) ?buf) =
          drop sector_size ?buf"
        "k < sector_size \<Longrightarrow>
          live_copy_chunks count decoded (live_pack_data_start h) sb se (Suc i) (doff + ?len) ?buf ! k =
            (if covered ?rest (unat sb + k) then sparse_byte ?rest (unat sb + k) else ?buf ! k)" for k
      using Suc.IH [of ?buf "Suc i" "doff + ?len"] copy(1) Suc.prems doff by simp_all
    have step: "live_copy_chunks (Suc count) decoded (live_pack_data_start h) sb se i doff buf =
        live_copy_chunks count decoded (live_pack_data_start h) sb se (Suc i) (doff + ?len) ?buf"
      using False by (simp add: Let_def live_chunk_length_def)
    have bytes: "decoded ! (live_pack_data_start h + unat doff + (unat sb + k - unat ?off)) =
        ck_bytes ?c ! (unat sb + k - chunk_start ?c)"
      if "unat ?off \<le> unat sb + k" "unat sb + k < unat ?off + unat ?len" for k
      using that row(1,4) Suc.prems(3) unfolding row(3) by simp
    have miss: "\<not> (chunk_start ?c \<le> p \<and> p < chunk_stop ?c)" if "covered ?rest p" for p
      using covered_above [of "chunk_stop ?c" _ ?rest p] wf that by fastforce
    show ?thesis
      unfolding step rest_chunks_Cons [OF i]
      using IH copy bytes miss row(1,2) by auto
  qed
qed

text \<open>One sector of the image a chunk list denotes.\<close>

definition sparse_sector :: "chunk list \<Rightarrow> nat \<Rightarrow> bytes" where
  "sparse_sector cs lba = map (\<lambda>k. sparse_byte cs (lba * sector_size + k)) [0..<sector_size]"

lemma live_read_base_sector_spec:
  assumes "pack_ok h decoded" and "unat lba < live_image_logical_sectors h"
    and "sector_size \<le> length buf"
  shows "live_read_base_sector h decoded lba buf =
         sparse_sector (decoded_chunks h decoded) (unat lba) @ drop sector_size buf"
proof -
  let ?n = "live_image_chunk_count h" and ?cs = "decoded_chunks h decoded"
  define sb where "sb = lba * 512"
  define low where "low = live_lower_bound decoded sb 0 ?n"
  define zeros where "zeros = blit 0 (replicate sector_size 0) buf"
  define out where "out = live_copy_chunks (?n - low) decoded (live_pack_data_start h) sb (sb + 512) low
      (live_chunk_data_offset decoded low) zeros"
  have small: "unat lba * 512 + 512 < 2 ^ 32"
    using assms(1,2) by (auto simp: pack_ok_def live_static_asserts_def)
  then have sb: "unat sb = unat lba * 512"
    unfolding sb_def by (subst unat_mult_nowrap) simp_all
  have se: "unat sb + sector_size = unat (sb + 512)"
    using small sb by (subst unat_add_nowrap) (simp_all add: sector_size_def)
  have zeros: "length zeros = length buf" "drop sector_size zeros = drop sector_size buf"
      "\<forall>k < sector_size. zeros ! k = 0"
    using assms(3) by (auto simp: zeros_def nth_blit drop_blit)
  have low: "low \<le> ?n" "\<forall>i < low. row_end decoded i \<le> sb"
    using live_lower_bound_spec [of ?n decoded 0 sb] row_end_mono [OF assms(1)]
    by (auto simp: low_def)
  have "data_pos decoded low < 2 ^ 32"
    using data_pos_mono [OF low(1), of decoded] live_pack_valid_sound(2) [of h decoded] assms(1)
    by (auto simp: pack_ok_def live_static_asserts_def)
  then have doff: "unat (live_chunk_data_offset decoded low) = data_pos decoded low"
    by (rule live_chunk_data_offset_eq)
  have before: "\<not> covered (take low ?cs) (unat sb + k)" for k
  proof
    assume "covered (take low ?cs) (unat sb + k)"
    then obtain i where i: "i < low" "unat sb + k < chunk_stop (?cs ! i)"
      by (auto simp: covered_def in_set_conv_nth)
    then have "unat (row_end decoded i) \<le> unat sb" using low(2) by (simp add: word_le_nat_alt)
    with i low(1) show False by (simp add: row_end_eq [OF assms(1)])
  qed
  have all: "sparse_byte ?cs (unat sb + k) = sparse_byte (rest_chunks h decoded low) (unat sb + k)" for k
    using sparse_byte_append [OF before, of "drop low ?cs"] by simp
  note copy = live_copy_chunks_spec [OF assms(1) se, of zeros low "?n - low", OF _ _ doff,
      folded out_def]
  have len: "length out = length buf" and tail: "drop sector_size out = drop sector_size buf"
    and byte: "\<And>k. k < sector_size \<Longrightarrow> out ! k = sparse_byte ?cs (unat sb + k)"
    using copy low(1) zeros assms(3) all by (auto simp: sparse_byte_uncovered)
  have "take sector_size out = sparse_sector ?cs (unat lba)"
    using len assms(3) by (intro nth_equalityI) (auto simp: sparse_sector_def byte sb sector_size_def)
  moreover have "live_read_base_sector h decoded lba buf = out"
    by (simp add: live_read_base_sector_def out_def low_def sb_def zeros_def Let_def)
  ultimately show ?thesis using tail by (metis append_take_drop_id)
qed

section \<open>The packed payload\<close>

definition row_bytes :: "chunk \<Rightarrow> bytes" where
  "row_bytes c = le_bytes 4 (ck_offset c) @ le_bytes 2 (word_of_nat (chunk_len c) :: u16) @
                 le_bytes 2 (0 :: u16)"

lemma length_row_bytes [simp]: "length (row_bytes c) = 8"
  by (simp add: row_bytes_def)

lemma append_u16_eq: "append_u16 output value = output @ le_bytes 2 value"
  by (simp add: append_u16_def le_bytes_2_eq)

lemma append_u32_eq: "append_u32 output value = output @ le_bytes 4 value"
  by (simp add: append_u32_def le_bytes_4_eq)

lemma fold_append_row: "fold append_row cs out = out @ concat (map row_bytes cs)"
  by (induction cs arbitrary: out)
     (simp_all add: append_row_def append_u16_eq append_u32_eq row_bytes_def)

lemma fold_append_bytes: "fold (\<lambda>c out. out @ ck_bytes c) cs out = out @ concat (map ck_bytes cs)"
  by (induction cs arbitrary: out) simp_all

definition chunk_data_bytes :: "chunk list \<Rightarrow> nat" where
  "chunk_data_bytes cs = length (concat (map ck_bytes cs))"

lemma sum_chunk_lengths: "sum_list (map (length \<circ> ck_bytes) cs) = chunk_data_bytes cs"
  by (simp add: chunk_data_bytes_def length_concat comp_def)

lemma sparse_payload_eq:
  "sparse_payload sectors cs =
     zlive_magic @ le_bytes 4 (word_of_nat sectors :: u32) @ le_bytes 4 (word_of_nat (length cs) :: u32) @
     le_bytes 4 (word_of_nat (chunk_data_bytes cs) :: u32) @ concat (map row_bytes cs) @
     concat (map ck_bytes cs)"
  by (simp add: sparse_payload_def Let_def fold_append_row fold_append_bytes append_u32_eq
      sum_chunk_lengths)

lemma live_read_u32_le [simp]: "live_read_u32 (le_bytes 4 w @ rest) = w"
proof -
  have "live_read_u32 (le_bytes 4 w @ rest) = le_word (le_bytes 4 w)"
    unfolding live_read_u32_def le_bytes_4_eq by (simp add: push_bit_or)
  then show ?thesis by simp
qed

lemma live_read_u16_le [simp]: "live_read_u16 (le_bytes 2 w @ rest) = w"
  unfolding live_read_u16_def le_bytes_2_eq by (rule bit_word_eqI) (auto simp: bit_simps)

lemma length_zlive_magic [simp]: "length zlive_magic = 8"
  by (simp add: zlive_magic_def)

lemma length_rows [simp]: "length (concat (map row_bytes cs)) = 8 * length cs"
  by (induction cs) simp_all

lemma drop_rows: "i \<le> length cs \<Longrightarrow>
    drop (8 * i) (concat (map row_bytes cs)) = concat (map row_bytes (drop i cs))"
proof (induction cs arbitrary: i)
  case (Cons c cs)
  then show ?case by (cases i) simp_all
qed simp

text \<open>A workspace that starts with the payload of a chunk list.\<close>

lemma payload_row:
  assumes "i < length cs"
  shows "\<exists>rest. live_chunk_row (sparse_payload sectors cs @ tail) i = row_bytes (cs ! i) @ rest"
proof -
  have "live_chunk_row (sparse_payload sectors cs @ tail) i =
      drop (8 * i) (concat (map row_bytes cs)) @ concat (map ck_bytes cs) @ tail"
    using assms by (simp add: live_chunk_row_def sparse_payload_eq live_pack_header_bytes_def
        live_pack_chunk_bytes_def mult.commute)
  also have "drop (8 * i) (concat (map row_bytes cs)) =
      row_bytes (cs ! i) @ concat (map row_bytes (drop (Suc i) cs))"
    by (simp only: drop_rows [OF less_imp_le [OF assms]] Cons_nth_drop_Suc [OF assms, symmetric]
        list.map concat.simps)
  finally show ?thesis by auto
qed

lemma payload_row_fields:
  fixes sectors :: nat and tail :: bytes
  assumes "i < length cs" and "chunk_len (cs ! i) \<le> max_chunk_bytes"
  defines "row \<equiv> live_chunk_row (sparse_payload sectors cs @ tail) i"
  shows "live_read_u32 row = ck_offset (cs ! i)"
    and "unat (ucast (live_read_u16 (drop 4 row)) :: u32) = chunk_len (cs ! i)"
    and "live_read_u16 (drop 6 row) = 0"
proof -
  obtain rest where row: "row = row_bytes (cs ! i) @ rest"
    using payload_row [OF assms(1), of sectors tail] unfolding row_def by blast
  show "live_read_u32 row = ck_offset (cs ! i)" "live_read_u16 (drop 6 row) = 0"
    by (simp_all add: row row_bytes_def)
  show "unat (ucast (live_read_u16 (drop 4 row)) :: u32) = chunk_len (cs ! i)"
    using assms(2) by (simp add: row row_bytes_def unat_ucast_up unat_of_nat_nowrap max_chunk_bytes_def)
qed

lemma chunk_data_bytes_Suc:
  "i < length cs \<Longrightarrow>
     chunk_data_bytes (take (Suc i) cs) = chunk_data_bytes (take i cs) + chunk_len (cs ! i)"
  by (simp add: chunk_data_bytes_def take_Suc_conv_app_nth)

lemma chunk_data_bytes_take: "chunk_data_bytes (take i cs) \<le> chunk_data_bytes cs"
  unfolding chunk_data_bytes_def
  by (subst (2) append_take_drop_id [of i cs, symmetric]) (simp del: append_take_drop_id)

lemma payload_rows_valid:
  fixes sectors :: nat and tail :: bytes
  assumes "chunks_wf 0 (unat secs * sector_size) cs" and "unat secs * sector_size < 2 ^ 32"
    and "unat data_bytes = chunk_data_bytes cs" and "i + count = length cs"
    and "chunks_wf (unat previous_end) (unat secs * sector_size) (drop i cs)"
    and "unat acc = chunk_data_bytes (take i cs)"
  shows "live_rows_valid (sparse_payload sectors cs @ tail) secs data_bytes count i previous_end acc"
  using assms(4-6)
proof (induction count arbitrary: i previous_end acc)
  case 0
  then have "unat acc = unat data_bytes" using assms(3) by simp
  then show ?case by (simp add: unsigned_word_eqI)
next
  case (Suc count)
  let ?c = "cs ! i" and ?row = "live_chunk_row (sparse_payload sectors cs @ tail) i"
  define len where "len = (ucast (live_read_u16 (drop 4 ?row)) :: u32)"
  have i: "i < length cs" using Suc.prems(1) by simp
  then have wf: "unat previous_end \<le> chunk_start ?c" "0 < chunk_len ?c"
      "chunk_len ?c \<le> max_chunk_bytes" "chunk_stop ?c \<le> unat secs * sector_size"
      "chunks_wf (chunk_stop ?c) (unat secs * sector_size) (drop (Suc i) cs)"
    using Suc.prems(2) by (simp_all add: Cons_nth_drop_Suc [symmetric])
  note row = payload_row_fields [OF i wf(3), of sectors tail]
  have len: "unat len = chunk_len ?c" using row(2) by (simp add: len_def)
  have acc: "unat acc + unat len = chunk_data_bytes (take (Suc i) cs)"
    using Suc.prems(3) i by (simp add: chunk_data_bytes_Suc len)
  then have sum: "unat acc + unat len \<le> unat data_bytes"
    using chunk_data_bytes_take [of "Suc i" cs] assms(3) by simp
  have stop: "unat (ck_offset ?c + len) = chunk_stop ?c"
    using wf(4) assms(2) len by (simp add: unat_add_nowrap)
  have acc': "unat (acc + len) = chunk_data_bytes (take (Suc i) cs)"
    using sum acc unat_less_exp [of data_bytes] by (simp add: unat_add_nowrap)
  have "live_rows_valid (sparse_payload sectors cs @ tail) secs data_bytes count (Suc i)
      (ck_offset ?c + len) (acc + len)"
    using Suc.IH [of "Suc i"] Suc.prems(1) wf(5) stop acc' by simp
  moreover have "len \<noteq> 0" using wf(2) len by (auto simp: unat_eq_0)
  moreover have "\<not> ck_offset ?c < previous_end" using wf(1) by (simp add: word_less_nat_alt)
  ultimately show ?case
    using sum wf(4) len row(1,3) by (simp add: Let_def len_def [symmetric])
qed

text \<open>The payload the packer writes passes the validation of the kernel and denotes its chunks.\<close>

lemma payload_valid:
  fixes tail :: bytes
  assumes "chunks_wf 0 (sectors * sector_size) cs" and "sectors * sector_size < 2 ^ 32"
    and "chunk_data_bytes cs < 2 ^ 32" and "length cs < 2 ^ 32" and "cs \<noteq> []"
    and "live_image_pack_bytes h = length (sparse_payload sectors cs)"
    and "live_image_pack_checksum h = fnv1a (sparse_payload sectors cs)"
    and "live_image_logical_sectors h = sectors" and "live_image_chunk_count h = length cs"
  shows "live_pack_valid h (sparse_payload sectors cs @ tail)"
proof -
  let ?D = "sparse_payload sectors cs @ tail"
  have sec: "unat (word_of_nat sectors :: u32) = sectors"
    using assms(2) by (intro unat_of_nat_nowrap) (simp add: sector_size_def)
  have cnt: "unat (word_of_nat (length cs) :: u32) = length cs"
    and dat: "unat (word_of_nat (chunk_data_bytes cs) :: u32) = chunk_data_bytes cs"
    using assms(3,4) by (simp_all add: unat_of_nat_nowrap)
  have fields: "take 8 ?D = zlive_magic" "live_read_u32 (drop 8 ?D) = word_of_nat sectors"
      "live_read_u32 (drop 12 ?D) = word_of_nat (length cs)"
      "live_read_u32 (drop 16 ?D) = word_of_nat (chunk_data_bytes cs)"
    by (simp_all add: sparse_payload_eq)
  have rows: "live_rows_valid ?D (word_of_nat sectors) (word_of_nat (chunk_data_bytes cs))
      (length cs) 0 0 0"
    using assms by (intro payload_rows_valid) (simp_all add: sec dat chunk_data_bytes_def [of "[]"])
  have size: "length (sparse_payload sectors cs) = 20 + length cs * 8 + chunk_data_bytes cs"
    by (simp add: sparse_payload_eq chunk_data_bytes_def)
  have "sectors \<noteq> 0"
  proof
    assume "sectors = 0"
    then show False using assms(1,5) by (cases cs) auto
  qed
  then have "word_of_nat sectors \<noteq> (0 :: u32)" "word_of_nat (length cs) \<noteq> (0 :: u32)"
    using sec cnt assms(5) by (metis unsigned_0 length_0_conv)+
  with rows show ?thesis
    using assms(6-9) size
    unfolding live_pack_valid_def fields Let_def
    by (simp add: sec cnt dat live_fnv1a32_def live_pack_header_bytes_def live_pack_chunk_bytes_def)
qed

lemma payload_chunks:
  fixes tail :: bytes
  assumes "chunks_wf 0 high cs" and "live_image_chunk_count h = length cs"
  shows "decoded_chunks h (sparse_payload sectors cs @ tail) = cs"
proof (rule nth_equalityI)
  let ?D = "sparse_payload sectors cs @ tail"
  have len: "unat (live_chunk_length ?D i) = chunk_len (cs ! i)" if "i < length cs" for i
    using payload_row_fields(2) [OF that] chunks_wf_short [OF assms(1) that]
    by (simp add: live_chunk_length_def)
  have pos: "data_pos ?D i = chunk_data_bytes (take i cs)" if "i \<le> length cs" for i
    using that by (induction i) (simp_all add: len chunk_data_bytes_Suc chunk_data_bytes_def [of "[]"])
  have data: "take (chunk_len (cs ! i)) (drop (live_pack_data_start h + chunk_data_bytes (take i cs)) ?D) =
      ck_bytes (cs ! i)" if "i < length cs" for i
  proof -
    have split: "concat (map ck_bytes cs) = concat (map ck_bytes (take i cs)) @ ck_bytes (cs ! i) @
        concat (map ck_bytes (drop (Suc i) cs))"
      using id_take_nth_drop [OF that] by (metis append.assoc concat.simps(2) concat_append list.simps(9) map_append)
    have "drop (live_pack_data_start h) ?D = concat (map ck_bytes cs) @ tail"
      by (simp add: sparse_payload_eq live_pack_data_start_def live_pack_header_bytes_def
          live_pack_chunk_bytes_def assms(2))
    then have "drop (live_pack_data_start h + chunk_data_bytes (take i cs)) ?D =
        drop (chunk_data_bytes (take i cs)) (concat (map ck_bytes cs) @ tail)"
      by (metis drop_drop add.commute)
    then show ?thesis by (simp add: split chunk_data_bytes_def)
  qed
  show "length (decoded_chunks h ?D) = length cs" by (simp add: decoded_chunks_def assms(2))
  fix i assume "i < length (decoded_chunks h ?D)"
  then have i: "i < length cs" by (simp add: decoded_chunks_def assms(2))
  then show "decoded_chunks h ?D ! i = cs ! i"
    using payload_row_fields(1) [OF i] chunks_wf_short [OF assms(1) i]
    by (simp add: decoded_chunks_def decoded_chunk_def assms(2) len pos data
        del: take_append drop_append)
qed

section \<open>The overlay refines a flat disk\<close>

definition overlay_slot :: "live_state \<Rightarrow> nat \<Rightarrow> nat" where
  "overlay_slot s lba = unat (live_overlay_map s ! lba)"

definition overlay_present :: "live_state \<Rightarrow> nat \<Rightarrow> bool" where
  "overlay_present s lba \<longleftrightarrow> live_overlay_map s ! lba \<noteq> live_overlay_empty"

definition overlay_sector :: "live_state \<Rightarrow> nat \<Rightarrow> bytes" where
  "overlay_sector s slot = take sector_size (drop (slot * sector_size) (live_overlay_sectors s))"

text \<open>
  The type invariant of the live device: a validated pack, buffers of the laid-out size, and an
  overlay map whose used entries are distinct slots below \<open>live_overlay_used\<close>.
\<close>

definition live_inv :: "live_header \<Rightarrow> live_state \<Rightarrow> bool" where
  "live_inv h s \<longleftrightarrow>
     live_storage_active s \<and> pack_ok h (live_pack_decoded s) \<and>
     live_image_logical_sectors h \<le> length (live_overlay_map s) \<and>
     unat live_overlay_capacity_sectors * sector_size \<le> length (live_overlay_sectors s) \<and>
     live_overlay_used s \<le> live_overlay_capacity_sectors \<and>
     (\<forall>i < live_image_logical_sectors h. overlay_present s i \<longrightarrow>
        overlay_slot s i < unat (live_overlay_used s)) \<and>
     (\<forall>i < live_image_logical_sectors h. \<forall>j < live_image_logical_sectors h.
        overlay_present s i \<and> overlay_present s j \<and> overlay_slot s i = overlay_slot s j \<longrightarrow> i = j)"

definition live_sector :: "live_header \<Rightarrow> live_state \<Rightarrow> nat \<Rightarrow> bytes" where
  "live_sector h s lba =
     (if overlay_present s lba then overlay_sector s (overlay_slot s lba)
      else sparse_sector (decoded_chunks h (live_pack_decoded s)) lba)"

definition live_abs :: "live_header \<Rightarrow> live_state \<Rightarrow> bytes list" where
  "live_abs h s = map (live_sector h s) [0..<live_image_logical_sectors h]"

lemma length_live_abs [simp]: "length (live_abs h s) = live_image_logical_sectors h"
  by (simp add: live_abs_def)

lemma length_sparse_sector [simp]: "length (sparse_sector cs lba) = sector_size"
  by (simp add: sparse_sector_def)

lemma live_inv_slot:
  assumes "live_inv h s" and "i < live_image_logical_sectors h" and "overlay_present s i"
  shows "(overlay_slot s i + 1) * sector_size \<le> length (live_overlay_sectors s)"
proof -
  have "overlay_slot s i < unat (live_overlay_used s)"
      "unat (live_overlay_used s) \<le> unat live_overlay_capacity_sectors"
      "unat live_overlay_capacity_sectors * sector_size \<le> length (live_overlay_sectors s)"
    using assms by (auto simp: live_inv_def word_le_nat_alt)
  moreover from this have "(overlay_slot s i + 1) * sector_size \<le> unat live_overlay_capacity_sectors * sector_size"
    by (intro mult_le_mono1) simp
  ultimately show ?thesis by linarith
qed

lemma live_abs_sector_size:
  assumes "live_inv h s" and "i < live_image_logical_sectors h"
  shows "length (live_abs h s ! i) = sector_size"
  using live_inv_slot [OF assms] assms(2)
  by (auto simp: live_abs_def live_sector_def overlay_sector_def)

text \<open>A read succeeds and returns the abstract sector; the device state stays as it was.\<close>

lemma live_read_sector_spec:
  assumes "live_inv h s" and "unat lba < live_image_logical_sectors h" and "sector_size \<le> length buf"
  shows "live_read_sector h lba (Some buf) s =
         (block_success BopRead lba 1, Some (live_abs h s ! unat lba @ drop sector_size buf), s)"
proof (cases "overlay_present s (unat lba)")
  case True
  then have "blit 0 (overlay_sector s (overlay_slot s (unat lba))) buf =
      live_abs h s ! unat lba @ drop sector_size buf"
    using live_abs_sector_size [OF assms(1,2)] assms(2)
    by (simp add: blit_def live_abs_def live_sector_def)
  with True assms(1,2) show ?thesis
    by (simp add: live_read_sector_def live_inv_def overlay_present_def overlay_slot_def
        overlay_sector_def Let_def)
next
  case False
  have "live_read_base_sector h (live_pack_decoded s) lba buf =
      live_abs h s ! unat lba @ drop sector_size buf"
    using False assms by (simp add: live_read_base_sector_spec live_inv_def live_abs_def live_sector_def)
  with False assms(1,2) show ?thesis
    by (simp add: live_read_sector_def live_inv_def overlay_present_def Let_def)
qed

definition live_store :: "nat \<Rightarrow> bytes \<Rightarrow> live_state \<Rightarrow> live_state" where
  "live_store slot data s =
     s\<lparr>live_overlay_sectors := blit (slot * sector_size) data (live_overlay_sectors s)\<rparr>"

lemma live_store_simps [simp]:
  "live_overlay_map (live_store k d s) = live_overlay_map s"
  "live_pack_decoded (live_store k d s) = live_pack_decoded s"
  "live_overlay_used (live_store k d s) = live_overlay_used s"
  "live_storage_active (live_store k d s) = live_storage_active s"
  by (simp_all add: live_store_def)

lemma overlay_store_simps [simp]:
  "overlay_present (live_store k d s) = overlay_present s"
  "overlay_slot (live_store k d s) = overlay_slot s"
  by (simp_all add: overlay_present_def overlay_slot_def fun_eq_iff)

lemma overlay_sector_store:
  assumes "length d = sector_size" and "(k + 1) * sector_size \<le> length (live_overlay_sectors s)"
    and "(j + 1) * sector_size \<le> length (live_overlay_sectors s)"
  shows "overlay_sector (live_store k d s) j = (if j = k then d else overlay_sector s j)"
proof (rule nth_equalityI)
  show "length (overlay_sector (live_store k d s) j) = length (if j = k then d else overlay_sector s j)"
    using assms by (auto simp: overlay_sector_def live_store_def)
  fix x assume "x < length (overlay_sector (live_store k d s) j)"
  then have x: "x < sector_size" by (simp add: overlay_sector_def)
  have apart: "\<not> (k * sector_size \<le> j * sector_size + x \<and> j * sector_size + x < k * sector_size + sector_size)"
    if neq: "j \<noteq> k"
  proof -
    consider "j + 1 \<le> k" | "k + 1 \<le> j" using neq by linarith
    then show ?thesis
    proof cases
      case 1
      then have "(j + 1) * sector_size \<le> k * sector_size" by (rule mult_le_mono1)
      with x show ?thesis by simp
    next
      case 2
      then have "(k + 1) * sector_size \<le> j * sector_size" by (rule mult_le_mono1)
      then show ?thesis by simp
    qed
  qed
  show "overlay_sector (live_store k d s) j ! x = (if j = k then d else overlay_sector s j) ! x"
    using x assms apart by (auto simp: overlay_sector_def live_store_def nth_blit)
qed

lemma live_store_inv: "live_inv h s \<Longrightarrow> length d = sector_size \<Longrightarrow>
    (k + 1) * sector_size \<le> length (live_overlay_sectors s) \<Longrightarrow> live_inv h (live_store k d s)"
  by (simp add: live_inv_def) (simp add: live_store_def)

lemma live_abs_store:
  assumes "live_inv h s" and "length d = sector_size" and "lba < live_image_logical_sectors h"
    and "overlay_present s lba"
  shows "live_abs h (live_store (overlay_slot s lba) d s) = (live_abs h s)[lba := d]"
proof (rule nth_equalityI)
  fix i assume "i < length (live_abs h (live_store (overlay_slot s lba) d s))"
  then have i: "i < live_image_logical_sectors h" by simp
  have inj: "overlay_slot s i = overlay_slot s lba \<longleftrightarrow> i = lba" if "overlay_present s i"
    using assms(1,3,4) i that unfolding live_inv_def by blast
  have "live_sector h (live_store (overlay_slot s lba) d s) i = (if i = lba then d else live_sector h s i)"
  proof (cases "overlay_present s i")
    case True
    have "overlay_sector (live_store (overlay_slot s lba) d s) (overlay_slot s i) =
        (if i = lba then d else overlay_sector s (overlay_slot s i))"
      using overlay_sector_store [OF assms(2) live_inv_slot [OF assms(1,3,4)]
          live_inv_slot [OF assms(1) i True]] inj [OF True] by simp
    with True show ?thesis by (simp add: live_sector_def)
  qed (use assms(4) in \<open>auto simp: live_sector_def\<close>)
  with i show "live_abs h (live_store (overlay_slot s lba) d s) ! i = (live_abs h s)[lba := d] ! i"
    by (cases "i = lba") (simp_all add: live_abs_def)
qed simp

text \<open>The allocation of a fresh overlay slot.\<close>

definition live_allocate :: "nat \<Rightarrow> live_state \<Rightarrow> live_state" where
  "live_allocate lba s =
     s\<lparr>live_overlay_used := live_overlay_used s + 1,
       live_overlay_map := (live_overlay_map s)[lba := ucast (live_overlay_used s)]\<rparr>"

lemma live_allocate_slot:
  assumes "live_inv h s" and "lba < live_image_logical_sectors h"
    and "live_overlay_used s < live_overlay_capacity_sectors"
  shows "overlay_present (live_allocate lba s) i = (i = lba \<or> overlay_present s i)"
    and "overlay_slot (live_allocate lba s) i =
         (if i = lba then unat (live_overlay_used s) else overlay_slot s i)"
    and "unat (live_overlay_used (live_allocate lba s)) = unat (live_overlay_used s) + 1"
proof -
  have used: "unat (live_overlay_used s) < 1024"
    using assms(3) by (simp add: live_overlay_capacity_sectors_def word_less_nat_alt)
  then have cast: "unat (ucast (live_overlay_used s) :: u16) = unat (live_overlay_used s)"
    by (simp add: unsigned_ucast_eq take_bit_nat_eq_self)
  then have "(ucast (live_overlay_used s) :: u16) \<noteq> live_overlay_empty"
    using used by (auto simp: live_overlay_empty_def)
  moreover have "lba < length (live_overlay_map s)" using assms(1,2) by (auto simp: live_inv_def)
  ultimately show "overlay_present (live_allocate lba s) i = (i = lba \<or> overlay_present s i)"
    and "overlay_slot (live_allocate lba s) i =
         (if i = lba then unat (live_overlay_used s) else overlay_slot s i)"
    using cast by (auto simp: overlay_present_def overlay_slot_def live_allocate_def nth_list_update)
  show "unat (live_overlay_used (live_allocate lba s)) = unat (live_overlay_used s) + 1"
    using used by (simp add: live_allocate_def unat_add_nowrap)
qed

lemma live_allocate_inv:
  assumes "live_inv h s" and "lba < live_image_logical_sectors h" and "\<not> overlay_present s lba"
    and "live_overlay_used s < live_overlay_capacity_sectors"
  shows "live_inv h (live_allocate lba s)"
proof -
  note slot = live_allocate_slot [OF assms(1,2,4)]
  have old: "overlay_slot s i < unat (live_overlay_used s)"
    if "i < live_image_logical_sectors h" "overlay_present s i" for i
    using assms(1) that by (auto simp: live_inv_def)
  have "live_overlay_used (live_allocate lba s) \<le> live_overlay_capacity_sectors"
    using assms(4) slot(3) by (simp add: word_le_nat_alt word_less_nat_alt)
  moreover have "overlay_present (live_allocate lba s) i \<Longrightarrow> i < live_image_logical_sectors h \<Longrightarrow>
      overlay_slot (live_allocate lba s) i < unat (live_overlay_used (live_allocate lba s))" for i
    using old [of i] by (auto simp: slot)
  moreover have "i = j"
    if "i < live_image_logical_sectors h" "j < live_image_logical_sectors h"
      "overlay_present (live_allocate lba s) i" "overlay_present (live_allocate lba s) j"
      "overlay_slot (live_allocate lba s) i = overlay_slot (live_allocate lba s) j" for i j
    using that old [of i] old [of j] assms(1) by (auto simp: slot live_inv_def split: if_splits)
  moreover have "live_storage_active (live_allocate lba s)" "pack_ok h (live_pack_decoded (live_allocate lba s))"
      "live_image_logical_sectors h \<le> length (live_overlay_map (live_allocate lba s))"
      "unat live_overlay_capacity_sectors * sector_size \<le> length (live_overlay_sectors (live_allocate lba s))"
    using assms(1) by (auto simp: live_inv_def live_allocate_def)
  ultimately show ?thesis unfolding live_inv_def by blast
qed

lemma live_abs_allocate:
  assumes "live_inv h s" and "lba < live_image_logical_sectors h" and "\<not> overlay_present s lba"
    and "live_overlay_used s < live_overlay_capacity_sectors" and "length d = sector_size"
  shows "live_abs h (live_store (unat (live_overlay_used s)) d (live_allocate lba s)) = (live_abs h s)[lba := d]"
proof -
  note slot = live_allocate_slot [OF assms(1,2,4)]
  have same: "live_sector h (live_allocate lba s) i = live_sector h s i" if "i \<noteq> lba" for i
    using that by (simp add: live_sector_def slot) (simp add: overlay_sector_def live_allocate_def)
  have "live_abs h (live_store (overlay_slot (live_allocate lba s) lba) d (live_allocate lba s)) =
      (live_abs h (live_allocate lba s))[lba := d]"
    using assms slot by (intro live_abs_store live_allocate_inv) auto
  also have "\<dots> = (live_abs h s)[lba := d]"
  proof (rule nth_equalityI)
    fix i assume "i < length ((live_abs h (live_allocate lba s))[lba := d])"
    then show "(live_abs h (live_allocate lba s))[lba := d] ! i = (live_abs h s)[lba := d] ! i"
      by (cases "i = lba") (simp_all add: live_abs_def same)
  qed simp
  finally show ?thesis by (simp add: slot)
qed

text \<open>
  A write either updates exactly the abstract sector it names, or, when the overlay is full and
  the sector has no slot, fails with \<open>device-error\<close> and changes nothing.
\<close>

lemma live_write_sector_spec:
  assumes "live_inv h s" and "unat lba < live_image_logical_sectors h" and "sector_size \<le> length inp"
    and "live_write_sector h lba (Some inp) s = (r, s')"
  shows "live_inv h s'"
    and "if overlay_present s (unat lba) \<or> live_overlay_used s < live_overlay_capacity_sectors
         then r = block_success BopWrite lba 1 \<and>
              live_abs h s' = (live_abs h s)[unat lba := take sector_size inp]
         else r = mk_block_result BopWrite BsDeviceError lba 1 0 0 \<and> s' = s"
proof -
  let ?d = "take sector_size inp" and ?u = "live_overlay_used s"
  have d: "length ?d = sector_size" using assms(3) by simp
  have active: "live_storage_active s" using assms(1) by (simp add: live_inv_def)
  consider (present) "overlay_present s (unat lba)"
    | (fresh) "\<not> overlay_present s (unat lba)" "?u < live_overlay_capacity_sectors"
    | (full) "\<not> overlay_present s (unat lba)" "\<not> ?u < live_overlay_capacity_sectors" by blast
  then have "live_inv h s' \<and> (if overlay_present s (unat lba) \<or> ?u < live_overlay_capacity_sectors
         then r = block_success BopWrite lba 1 \<and> live_abs h s' = (live_abs h s)[unat lba := ?d]
         else r = mk_block_result BopWrite BsDeviceError lba 1 0 0 \<and> s' = s)"
  proof cases
    case present
    then have "r = block_success BopWrite lba 1" "s' = live_store (overlay_slot s (unat lba)) ?d s"
      using assms(2,4) active
      by (auto simp: live_write_sector_def overlay_present_def overlay_slot_def live_store_def Let_def)
    with present show ?thesis
      using live_abs_store [OF assms(1) d assms(2) present]
        live_store_inv [OF assms(1) d live_inv_slot [OF assms(1,2) present]] by simp
  next
    case fresh
    note slot = live_allocate_slot [OF assms(1,2) fresh(2)]
    note inv = live_allocate_inv [OF assms(1,2) fresh]
    have "(ucast ?u :: u16) = live_overlay_map (live_allocate (unat lba) s) ! unat lba"
      using assms(1,2) by (simp add: live_allocate_def live_inv_def)
    then have "unat (ucast ?u :: u16) = unat ?u"
      using slot(2) [of "unat lba"] by (simp add: overlay_slot_def)
    then have "r = block_success BopWrite lba 1" "s' = live_store (unat ?u) ?d (live_allocate (unat lba) s)"
      using assms(2,4) active fresh
      by (auto simp: live_write_sector_def overlay_present_def live_store_def live_allocate_def
          Let_def not_le [symmetric])
    then show ?thesis
      using fresh live_abs_allocate [OF assms(1,2) fresh d]
        live_store_inv [OF inv d, of "unat ?u"] live_inv_slot [OF inv assms(2)] slot by simp
  next
    case full
    then show ?thesis using assms(1,2,4) active
      by (auto simp: live_write_sector_def overlay_present_def Let_def not_less)
  qed
  then show "live_inv h s'"
    and "if overlay_present s (unat lba) \<or> live_overlay_used s < live_overlay_capacity_sectors
         then r = block_success BopWrite lba 1 \<and>
              live_abs h s' = (live_abs h s)[unat lba := take sector_size inp]
         else r = mk_block_result BopWrite BsDeviceError lba 1 0 0 \<and> s' = s"
    by blast+
qed

section \<open>From the packer to the booted device\<close>

lemma concat_sparse_sectors:
  "concat (map (sparse_sector cs) [0..<n]) = map (sparse_byte cs) [0..<n * sector_size]"
proof (induction n)
  case (Suc n)
  have "[0..<Suc n * sector_size] = [0..<n * sector_size] @ map (\<lambda>k. n * sector_size + k) [0..<sector_size]"
    using upt_add_eq_append [of 0 "n * sector_size" sector_size] map_add_upt [of "n * sector_size" sector_size]
    by (simp only: mult_Suc add.commute [of sector_size] le0 add.commute [of _ "n * sector_size"])
  with Suc show ?case by (simp add: sparse_sector_def)
qed simp

text \<open>The static memory of the supervisor layout behind the live image.\<close>

definition live_layout :: "live_state \<Rightarrow> bool" where
  "live_layout s \<longleftrightarrow>
     length (live_pack_decoded s) = 0x10000 \<and> length (live_overlay_map s) = 0x8000 \<and>
     length (live_overlay_sectors s) = 0x80000"

lemma live_image_pack_sound:
  assumes "live_image_pack img = Inr h" and "live_static_asserts h"
  obtains cs where
    "chunks_wf 0 (live_image_logical_sectors h * sector_size) cs"
    "\<forall>p < length img. sparse_byte cs p = img ! p"
    "length img = live_image_logical_sectors h * sector_size"
    "cs \<noteq> []" "length cs < 2 ^ 32" "chunk_data_bytes cs < 2 ^ 32"
    "live_image_pack_bytes h = length (sparse_payload (live_image_logical_sectors h) cs)"
    "live_image_pack_checksum h = fnv1a (sparse_payload (live_image_logical_sectors h) cs)"
    "live_image_chunk_count h = length cs"
    "live_image_compressed h = lzss_compress (sparse_payload (live_image_logical_sectors h) cs)"
proof -
  from assms(1) obtain cs where cs: "collect_chunks img 0 [] = Inr cs" "cs \<noteq> []"
      "\<not> length cs > 2 ^ 32 - 1" "\<not> chunk_data_bytes cs > 2 ^ 32 - 1"
    and aligned: "length img mod sector_size = 0"
    and h: "h = \<lparr>live_image_pack_bytes = length (sparse_payload (length img div sector_size) cs),
        live_image_compressed_bytes = length (lzss_compress (sparse_payload (length img div sector_size) cs)),
        live_image_pack_checksum = fnv1a (sparse_payload (length img div sector_size) cs),
        live_image_logical_sectors = length img div sector_size,
        live_image_chunk_count = length cs,
        live_image_compressed = lzss_compress (sparse_payload (length img div sector_size) cs)\<rparr>"
    by (auto simp: live_image_pack_def result_simps Let_def sum_chunk_lengths)
  have size: "length img = live_image_logical_sectors h * sector_size"
    using aligned h by (simp add: mod_0_imp_dvd)
  then have "length img < 2 ^ 32" using assms(2) by (simp add: live_static_asserts_def sector_size_def)
  from collect_chunks_spec [OF cs(1) _ this]
  have "chunks_wf 0 (length img) cs" "\<forall>p < length img. sparse_byte cs p = img ! p" by auto
  note wf = this
  show ?thesis
  proof (rule that [of cs])
    show "chunks_wf 0 (live_image_logical_sectors h * sector_size) cs" using wf(1) by (simp only: size)
    show "length cs < 2 ^ 32" "chunk_data_bytes cs < 2 ^ 32" using cs(3,4) by simp_all
  qed (fact wf(2) size cs(2) | simp add: h)+
qed

lemma live_image_initialize_packed:
  assumes pack: "live_image_pack img = Inr h" and asserts: "live_static_asserts h"
    and layout: "live_layout (driver_state g0)"
  shows "\<exists>g. live_image_initialize h g0 = (True, g) \<and> live_inv h (driver_state g) \<and>
           live_overlay_used (driver_state g) = 0 \<and> concat (live_abs h (driver_state g)) = img \<and>
           block_device_contract_valid (ata0 g) \<and> bd_present (ata0 g) \<and> bd_writable (ata0 g) \<and>
           unat (bd_sectors (ata0 g)) = live_image_logical_sectors h \<and>
           bd_read_sector (ata0 g) = Some (live_read_sector h) \<and>
           bd_write_sector (ata0 g) = Some (live_write_sector h) \<and>
           zfs_io_state g = block_io_state_initial"
proof -
  let ?n = "live_image_logical_sectors h"
  obtain cs where cs: "chunks_wf 0 (?n * sector_size) cs" "\<forall>p < length img. sparse_byte cs p = img ! p"
      "length img = ?n * sector_size" "cs \<noteq> []" "length cs < 2 ^ 32" "chunk_data_bytes cs < 2 ^ 32"
      "live_image_pack_bytes h = length (sparse_payload ?n cs)"
      "live_image_pack_checksum h = fnv1a (sparse_payload ?n cs)"
      "live_image_chunk_count h = length cs" "live_image_compressed h = lzss_compress (sparse_payload ?n cs)"
    by (rule live_image_pack_sound [OF pack asserts])
  have small: "?n * 2 \<le> 0x10000" "live_image_pack_bytes h \<le> 0x10000"
    using asserts by (auto simp: live_static_asserts_def)
  then have nn: "?n * sector_size < 2 ^ 32" by (simp add: sector_size_def)
  define s0 where "s0 = driver_state g0"
  define tail where "tail = drop (length (sparse_payload ?n cs)) (live_pack_decoded s0)"
  define decoded where "decoded = sparse_payload ?n cs @ tail"
  have decompress: "live_decompress_pack h (live_pack_decoded s0) (live_image_pack_bytes h) = (True, decoded)"
    using asserts lzss_round_trip [of "sparse_payload ?n cs"]
    by (simp add: live_decompress_pack_def cs(7,10) live_static_asserts_def blit_def decoded_def tail_def)
  have valid: "live_pack_valid h decoded"
    unfolding decoded_def using cs nn by (intro payload_valid) auto
  define s where "s = s0\<lparr>live_storage_active := True, live_overlay_used := 0, live_pack_decoded := decoded,
      live_overlay_map := blit 0 (replicate ?n 0xFFFF) (live_overlay_map s0)\<rparr>"
  define device where "device = \<lparr>bd_name = Some ''live0'', bd_present = True, bd_writable = True,
      bd_sectors = word_of_nat ?n, bd_read_sector = Some (live_read_sector h),
      bd_write_sector = Some (live_write_sector h)\<rparr>"
  define g where "g = g0\<lparr>ata_present := False, ata_sector_total := word_of_nat ?n, ata0 := device,
      zfs_io_state := block_io_state_initial, driver_state := s\<rparr>"
  have init: "live_image_initialize h g0 = (True, g)"
    using decompress valid by (simp add: live_image_initialize_def Let_def g_def s_def device_def s0_def)
  have s: "live_pack_decoded s = decoded" "live_storage_active s" "live_overlay_used s = 0"
      "live_overlay_sectors s = live_overlay_sectors s0"
      "live_overlay_map s = blit 0 (replicate ?n 0xFFFF) (live_overlay_map s0)"
    by (simp_all add: s_def)
  have "length decoded = 0x10000"
    using layout [folded s0_def] small(2) cs(7) by (simp add: decoded_def tail_def live_layout_def)
  then have ok: "pack_ok h decoded" using asserts valid small(2) by (simp add: pack_ok_def)
  have none: "\<not> overlay_present s i" if "i < ?n" for i
    using that layout [folded s0_def] small(1)
    by (simp add: overlay_present_def s(5) nth_blit live_layout_def live_overlay_empty_def)
  have inv: "live_inv h s"
    using ok none layout [folded s0_def] small(1)
    by (auto simp: live_inv_def s live_layout_def live_overlay_capacity_sectors_def sector_size_def)
  have abs: "live_abs h s = map (sparse_sector cs) [0..<?n]"
    unfolding live_abs_def live_sector_def using none
    by (auto simp: s decoded_def payload_chunks [OF cs(1,9)])
  have "concat (live_abs h s) = map (sparse_byte cs) [0..<?n * sector_size]"
    unfolding abs by (rule concat_sparse_sectors)
  also have "\<dots> = img" using cs(2,3) by (intro nth_equalityI) auto
  finally have img: "concat (live_abs h s) = img" .
  have "length cs \<noteq> 0" "?n = 0 \<Longrightarrow> cs = []" using cs(1,4) by (auto elim: chunks_wf.elims)
  then have "?n \<noteq> 0" by auto
  then have "unat (bd_sectors device) = ?n" and "bd_sectors device \<noteq> 0"
    using small(1) unat_of_nat_nowrap [of ?n, where 'a = 32]
    by (auto simp: device_def)
  with init inv img show ?thesis
    by (intro exI [of _ g]) (simp add: g_def s device_def block_device_contract_valid_def)
qed

text \<open>The live device provides the contract of a sector driver.\<close>

interpretation live: sector_driver "live_read_sector h" "live_write_sector h" "live_inv h" "live_abs h"
  for h
proof
  fix s and lba :: u32 and buf :: bytes assume "live_inv h s" "unat lba < length (live_abs h s)" "512 \<le> length buf"
  moreover fix r out s' assume "live_read_sector h lba (Some buf) s = (r, out, s')"
  ultimately show "live_inv h s' \<and> live_abs h s' = live_abs h s \<and>
      (block_ok r \<longrightarrow> out = Some (live_abs h s ! unat lba @ drop 512 buf)) \<and>
      (\<not> block_ok r \<longrightarrow> (\<exists>buf'. out = Some buf' \<and> length buf' = length buf))"
    by (auto simp: live_read_sector_spec sector_size_def)
next
  fix s and lba :: u32 and buf :: bytes assume "live_inv h s" "unat lba < length (live_abs h s)" "512 \<le> length buf"
  moreover fix r s' assume "live_write_sector h lba (Some buf) s = (r, s')"
  ultimately show "live_inv h s' \<and>
      (block_ok r \<longrightarrow> live_abs h s' = (live_abs h s)[unat lba := take 512 buf]) \<and>
      (\<not> block_ok r \<longrightarrow> live_abs h s' = live_abs h s \<or>
         live_abs h s' = (live_abs h s)[unat lba := take 512 buf])"
    using live_write_sector_spec [of h s lba buf r s']
    by (auto simp: sector_size_def split: if_splits)
next
  fix s i assume "live_inv h s" "i < length (live_abs h s)"
  then show "length (live_abs h s ! i) = 512"
    using live_abs_sector_size [of h s i] by (simp add: sector_size_def)
qed

section \<open>Properties\<close>

definition witness_image :: bytes where
  "witness_image = 0x5A # replicate 511 0"

definition witness_live_state :: live_state where
  "witness_live_state =
     \<lparr>live_pack_decoded = replicate 0x10000 0, live_overlay_map = replicate 0x8000 0,
      live_overlay_sectors = replicate 0x80000 0, live_overlay_used = 0, live_storage_active = False\<rparr>"

definition witness_header :: live_header where
  "witness_header =
     (let sparse = [0x5A,0x4C,0x49,0x56,0x45,0x30,0x30,0x32,1,0,0,0,1,0,0,0,1,0,0,0,0,0,0,0,1,0,0,0,0x5A]
      in \<lparr>live_image_pack_bytes = 29, live_image_compressed_bytes = length (lzss_compress sparse),
          live_image_pack_checksum = fnv1a sparse, live_image_logical_sectors = 1,
          live_image_chunk_count = 1, live_image_compressed = lzss_compress sparse\<rparr>)"

lemma witness_chunks:
  "collect_chunks witness_image 0 [] = Inr [\<lparr>ck_offset = 0, ck_bytes = [0x5A]\<rparr>]"
proof -
  have zero: "witness_image ! i = 0" if "0 < i" "i < 512" for i
    using that by (cases i) (simp_all add: witness_image_def)
  have len: "length witness_image = 512" by (simp add: witness_image_def)
  have skip0: "skip_zeros witness_image 0 = 0"
    by (subst skip_zeros.simps) (simp add: witness_image_def)
  have "skip_zeros witness_image 1 = 512"
    using skip_zeros_spec [of 1 witness_image] skip_zeros_ge [of 1 witness_image]
      zero [of "skip_zeros witness_image 1"] len by (cases "skip_zeros witness_image 1 < 512") auto
  moreover have scan: "scan_chunk witness_image (9 - k) 0 = 0" if "k < 9" for k
    using that
  proof (induction k)
    case 0
    then show ?case using zero [of 9] by (subst scan_chunk.simps) (simp add: len zero_gap_def)
  next
    case (Suc k)
    then have "9 - Suc k + 1 = 9 - k" by simp
    with Suc zero [of "9 - Suc k"] show ?case
      by (subst scan_chunk.simps) (simp add: len zero_gap_def)
  qed
  from scan [of 8] have "scan_chunk witness_image 1 0 = 0" by simp
  ultimately show ?thesis
    using skip0 len by (simp add: collect_chunks.simps [of witness_image] Let_def max_chunk_bytes_def)
      (simp add: witness_image_def)
qed

lemma witness_compressed:
  "length (lzss_compress [0x5A,0x4C,0x49,0x56,0x45,0x30,0x30,0x32,1,0,0,0,1,0,0,0,1,0,0,0,0,0,0,0,
     1,0,0,0,0x5A]) = 21"
  by code_simp

lemma witness_pack: "live_image_pack witness_image = Inr witness_header"
proof -
  have sparse: "sparse_payload (Suc 0) [\<lparr>ck_offset = 0, ck_bytes = [0x5A]\<rparr>] =
      [0x5A,0x4C,0x49,0x56,0x45,0x30,0x30,0x32,1,0,0,0,1,0,0,0,1,0,0,0,0,0,0,0,1,0,0,0,0x5A]"
    by (simp add: sparse_payload_def append_row_def append_u16_def append_u32_def zlive_magic_def
        bytes_of_string_def byte_of_char_def)
  have "length witness_image = 512" "witness_image \<noteq> []" by (simp_all add: witness_image_def)
  then show ?thesis
    using witness_compressed
    by (auto simp: live_image_pack_def witness_chunks sector_size_def Let_def sparse witness_header_def
        throw_if_def)
qed

lemma witness_asserts: "live_static_asserts witness_header"
  by (simp add: live_static_asserts_def witness_header_def Let_def witness_compressed sector_size_def
      live_overlay_capacity_sectors_def)

lemma witness_layout: "live_layout witness_live_state"
  by (simp add: live_layout_def witness_live_state_def)

definition witness_storage :: "live_state storage" where
  "witness_storage =
     \<lparr>ata_present = False, ata_sector_total = 0,
      ata0 = \<lparr>bd_name = Some ''ata0'', bd_present = False, bd_writable = True, bd_sectors = 0,
              bd_read_sector = None, bd_write_sector = None\<rparr>,
      zfs_io_state = block_io_state_initial, driver_state = witness_live_state\<rparr>"

lemma witness_storage_layout: "live_layout (driver_state witness_storage)"
  by (simp add: witness_storage_def witness_layout)

text \<open>
  C1: Boot round trip. If the packer accepts an image and the generated constants pass the kernel's
  static assertions, then \<open>live_image_initialize\<close> succeeds, installs a device that satisfies the
  block contract, and every sector the file system reads through it is that of the original image.
\<close>

theorem live_boot_round_trip:
  assumes "live_image_pack img = Inr h" and "live_static_asserts h" and "live_layout (driver_state g0)"
  shows "\<exists>g. live_image_initialize h g0 = (True, g) \<and> block_device_contract_valid (ata0 g) \<and>
           (\<forall>lba buf. unat lba < length img div sector_size \<and> length buf = sector_size \<longrightarrow>
              zfs_read_sector lba buf g =
                (block_success BopRead lba 1, take sector_size (drop (unat lba * sector_size) img),
                 g\<lparr>zfs_io_state := block_io_after (zfs_io_state g) (block_success BopRead lba 1)\<rparr>))"
proof -
  obtain g where init: "live_image_initialize h g0 = (True, g)"
    and inv: "live_inv h (driver_state g)" and img: "concat (live_abs h (driver_state g)) = img"
    and dev: "block_device_contract_valid (ata0 g)" "bd_present (ata0 g)"
      "unat (bd_sectors (ata0 g)) = live_image_logical_sectors h"
      "bd_read_sector (ata0 g) = Some (live_read_sector h)"
    using live_image_initialize_packed [OF assms] by blast
  have size: "length img = live_image_logical_sectors h * sector_size"
    using assms(1,2) by (rule live_image_pack_sound)
  have "zfs_read_sector lba buf g =
      (block_success BopRead lba 1, take sector_size (drop (unat lba * sector_size) img),
       g\<lparr>zfs_io_state := block_io_after (zfs_io_state g) (block_success BopRead lba 1)\<rparr>)"
    if "unat lba < length img div sector_size" "length buf = sector_size" for lba buf
  proof -
    have lba: "unat lba < live_image_logical_sectors h" using that(1) size by (simp add: sector_size_def)
    have sector: "take sector_size (drop (unat lba * sector_size) img) = live_abs h (driver_state g) ! unat lba"
      unfolding img [symmetric]
      using live_abs_sector_size [OF inv] lba by (intro concat_uniform_nth) auto
    have "block_device_read (ata0 g) (zfs_io_state g) lba (Some buf) (driver_state g) =
        (block_success BopRead lba 1, Some (live_abs h (driver_state g) ! unat lba),
         block_io_after (zfs_io_state g) (block_success BopRead lba 1), driver_state g)"
      using live_read_sector_spec [OF inv lba, of buf] that(2) dev lba
      by (intro block_device_read_driver [where f = "live_read_sector h"]) (simp_all add: word_le_nat_alt)
    then show ?thesis by (simp add: zfs_read_sector_def sector)
  qed
  with init dev(1) show ?thesis by blast
qed

theorem live_boot_round_trip_witness:
  "\<exists>g. live_image_initialize witness_header witness_storage = (True, g) \<and>
    fst (snd (zfs_read_sector 0 (replicate sector_size 0) g)) = witness_image"
proof -
  have "length witness_image div sector_size = 1" "take sector_size witness_image = witness_image"
    by (simp_all add: witness_image_def sector_size_def)
  then show ?thesis
    using live_boot_round_trip [OF witness_pack witness_asserts witness_storage_layout] by auto
qed

text \<open>
  C2: Copy-on-write. A write to the live device keeps its invariant and refines the update of one
  sector of a flat disk; when the overlay has no slot left for a sector not yet written, the write
  fails with \<open>device-error\<close> and the whole device state stays as it was.
\<close>

theorem live_write_refines_disk:
  assumes "live_inv h s" and "unat lba < live_image_logical_sectors h" and "length inp = sector_size"
    and "live_write_sector h lba (Some inp) s = (r, s')"
  shows "live_inv h s' \<and>
         (if overlay_present s (unat lba) \<or> live_overlay_used s < live_overlay_capacity_sectors
          then r = block_success BopWrite lba 1 \<and> live_abs h s' = (live_abs h s)[unat lba := inp]
          else r = mk_block_result BopWrite BsDeviceError lba 1 0 0 \<and> s' = s)"
  using live_write_sector_spec [OF assms(1,2) _ assms(4)] assms(3) by simp

theorem live_write_refines_disk_witness:
  "\<exists>g s'. live_image_initialize witness_header witness_storage = (True, g) \<and>
      live_write_sector witness_header 0 (Some (replicate sector_size 7)) (driver_state g) =
        (block_success BopWrite 0 1, s') \<and>
      live_abs witness_header s' = [replicate sector_size 7]"
proof -
  obtain g where init: "live_image_initialize witness_header witness_storage = (True, g)"
    and inv: "live_inv witness_header (driver_state g)" and used: "live_overlay_used (driver_state g) = 0"
    using live_image_initialize_packed [OF witness_pack witness_asserts witness_storage_layout] by auto
  obtain r s' where call: "live_write_sector witness_header 0 (Some (replicate sector_size 7))
      (driver_state g) = (r, s')" by fastforce
  have one: "live_image_logical_sectors witness_header = 1" by (simp add: witness_header_def Let_def)
  have "r = block_success BopWrite 0 1 \<and>
      live_abs witness_header s' = (live_abs witness_header (driver_state g))[0 := replicate sector_size 7]"
    using live_write_refines_disk [OF inv _ _ call] one used
    by (simp add: live_overlay_capacity_sectors_def)
  moreover have "live_abs witness_header (driver_state g) = [live_sector witness_header (driver_state g) 0]"
    by (simp add: live_abs_def one)
  ultimately have "live_abs witness_header s' = [replicate sector_size 7]" "r = block_success BopWrite 0 1"
    by simp_all
  with init call show ?thesis by blast
qed

end
