(* ===== verification/Fs_Result.thy ===== *)
theory Fs_Result
  imports Block_Device
begin

text \<open>
  The typed results of the file system: \<open>kernel/parts/storage_fs_result.inc\<close> (operations, statuses,
  results and their names), \<open>storage_fs_state.inc\<close> (the counters behind \<open>fs_record_result\<close>) and
  \<open>storage_fs_surface.inc\<close> (the classification and the messages the shell shows).
\<close>

datatype fs_operation =
    FopNone | FopMount | FopRecover | FopRead | FopWrite | FopSync | FopQuery | FopCreate
  | FopRemove | FopRename | FopCopy

datatype fs_status =
    FsOk | FsRecoveryPending | FsNotMounted | FsInvalidArgument | FsInvalidPath | FsNotFound
  | FsWrongType | FsAlreadyExists | FsParentMissing | FsDirectoryNotEmpty | FsBufferTooSmall
  | FsNoSpace | FsReadOnly | FsChecksumMismatch | FsPermissionDenied | FsMetadataCorrupt | FsIoError

record fs_result =
  fs_operation_of :: fs_operation
  fs_status_of :: fs_status
  fs_bytes :: u32
  fs_block :: block_result

definition fs_ok :: "fs_result \<Rightarrow> bool" where
  "fs_ok r = (fs_status_of r = FsOk \<or> fs_status_of r = FsRecoveryPending)"

definition fs_durable :: "fs_result \<Rightarrow> bool" where
  "fs_durable r = (fs_status_of r = FsOk)"

definition fs_has_block_error :: "fs_result \<Rightarrow> bool" where
  "fs_has_block_error r = (\<not> block_ok (fs_block r))"

definition mk_fs_result :: "fs_operation \<Rightarrow> fs_status \<Rightarrow> u32 \<Rightarrow> block_result \<Rightarrow> fs_result" where
  "mk_fs_result operation status count block =
     \<lparr>fs_operation_of = operation, fs_status_of = status, fs_bytes = count, fs_block = block\<rparr>"

definition fs_success :: "fs_operation \<Rightarrow> u32 \<Rightarrow> fs_result" where
  "fs_success operation count = mk_fs_result operation FsOk count (block_success BopNone 0 0)"

definition fs_recovery_pending :: "fs_operation \<Rightarrow> u32 \<Rightarrow> block_result \<Rightarrow> fs_result" where
  "fs_recovery_pending operation count block = mk_fs_result operation FsRecoveryPending count block"

definition fs_failure :: "fs_operation \<Rightarrow> fs_status \<Rightarrow> fs_result" where
  "fs_failure operation status = mk_fs_result operation status 0 (block_success BopNone 0 0)"

fun fs_status_from_block :: "block_status \<Rightarrow> fs_status" where
  "fs_status_from_block BsOk = FsOk"
| "fs_status_from_block BsNoDevice = FsNotMounted"
| "fs_status_from_block BsInvalidArgument = FsInvalidArgument"
| "fs_status_from_block BsOutOfRange = FsMetadataCorrupt"
| "fs_status_from_block BsReadOnly = FsReadOnly"
| "fs_status_from_block _ = FsIoError"

definition fs_from_block :: "fs_operation \<Rightarrow> block_result \<Rightarrow> u32 \<Rightarrow> fs_result" where
  "fs_from_block operation block count =
     mk_fs_result operation (fs_status_from_block (br_status block)) count block"

definition fs_retryable :: "fs_result \<Rightarrow> bool" where
  "fs_retryable r = (fs_status_of r = FsIoError \<and> block_retryable (br_status (fs_block r)))"

fun fs_operation_name :: "fs_operation \<Rightarrow> string" where
  "fs_operation_name FopNone = ''none''"
| "fs_operation_name FopMount = ''mount''"
| "fs_operation_name FopRecover = ''recover''"
| "fs_operation_name FopRead = ''read''"
| "fs_operation_name FopWrite = ''write''"
| "fs_operation_name FopSync = ''sync''"
| "fs_operation_name FopQuery = ''query''"
| "fs_operation_name FopCreate = ''create''"
| "fs_operation_name FopRemove = ''remove''"
| "fs_operation_name FopRename = ''rename''"
| "fs_operation_name FopCopy = ''copy''"

fun fs_status_name :: "fs_status \<Rightarrow> string" where
  "fs_status_name FsOk = ''ok''"
| "fs_status_name FsRecoveryPending = ''recovery-pending''"
| "fs_status_name FsNotMounted = ''not-mounted''"
| "fs_status_name FsInvalidArgument = ''invalid-argument''"
| "fs_status_name FsInvalidPath = ''invalid-path''"
| "fs_status_name FsNotFound = ''not-found''"
| "fs_status_name FsWrongType = ''wrong-type''"
| "fs_status_name FsAlreadyExists = ''already-exists''"
| "fs_status_name FsParentMissing = ''parent-missing''"
| "fs_status_name FsDirectoryNotEmpty = ''directory-not-empty''"
| "fs_status_name FsBufferTooSmall = ''buffer-too-small''"
| "fs_status_name FsNoSpace = ''no-space''"
| "fs_status_name FsReadOnly = ''read-only''"
| "fs_status_name FsChecksumMismatch = ''checksum-mismatch''"
| "fs_status_name FsPermissionDenied = ''permission-denied''"
| "fs_status_name FsMetadataCorrupt = ''metadata-corrupt''"
| "fs_status_name FsIoError = ''io-error''"

section \<open>Counters\<close>

record fs_result_state =
  frs_requests :: u32
  frs_completed :: u32
  frs_failed :: u32
  frs_recovery_pending :: u32
  frs_last_result :: fs_result
  frs_last_failure :: fs_result

definition zfs_result_state_initial :: fs_result_state where
  "zfs_result_state_initial =
     \<lparr>frs_requests = 0, frs_completed = 0, frs_failed = 0, frs_recovery_pending = 0,
      frs_last_result = fs_success FopNone 0, frs_last_failure = fs_success FopNone 0\<rparr>"

definition fs_record_result :: "fs_result_state \<Rightarrow> fs_result \<Rightarrow> fs_result \<times> fs_result_state" where
  "fs_record_result st result =
     (let st = st\<lparr>frs_requests := frs_requests st + 1, frs_last_result := result\<rparr>
      in if fs_ok result
         then let st = st\<lparr>frs_completed := frs_completed st + 1\<rparr>
              in (result, if fs_status_of result = FsRecoveryPending
                          then st\<lparr>frs_recovery_pending := frs_recovery_pending st + 1\<rparr> else st)
         else (result, st\<lparr>frs_failed := frs_failed st + 1, frs_last_failure := result\<rparr>))"

definition fs_result_counters_valid :: "fs_result_state \<Rightarrow> bool" where
  "fs_result_counters_valid st =
     (frs_requests st = frs_completed st + frs_failed st \<and>
      frs_recovery_pending st \<le> frs_completed st)"

section \<open>Surface classification\<close>

datatype fs_surface =
    SfSuccess | SfRecovery | SfCaller | SfMissing | SfConflict | SfCapacity | SfPolicy
  | SfCorruption | SfUnavailable | SfTransport

fun fs_surface_class :: "fs_status \<Rightarrow> fs_surface" where
  "fs_surface_class FsOk = SfSuccess"
| "fs_surface_class FsRecoveryPending = SfRecovery"
| "fs_surface_class FsInvalidArgument = SfCaller"
| "fs_surface_class FsInvalidPath = SfCaller"
| "fs_surface_class FsWrongType = SfCaller"
| "fs_surface_class FsNotFound = SfMissing"
| "fs_surface_class FsParentMissing = SfMissing"
| "fs_surface_class FsAlreadyExists = SfConflict"
| "fs_surface_class FsDirectoryNotEmpty = SfConflict"
| "fs_surface_class FsBufferTooSmall = SfCapacity"
| "fs_surface_class FsNoSpace = SfCapacity"
| "fs_surface_class FsReadOnly = SfPolicy"
| "fs_surface_class FsPermissionDenied = SfPolicy"
| "fs_surface_class FsChecksumMismatch = SfCorruption"
| "fs_surface_class FsMetadataCorrupt = SfCorruption"
| "fs_surface_class FsNotMounted = SfUnavailable"
| "fs_surface_class FsIoError = SfTransport"

section \<open>Lemmas\<close>

lemmas fs_result_simps = mk_fs_result_def fs_success_def fs_failure_def fs_recovery_pending_def
  fs_from_block_def fs_ok_def fs_durable_def

lemma fs_ok_success [simp]: "fs_ok (fs_success op n)"
  by (simp add: fs_result_simps)

lemma fs_ok_mk [simp]: "fs_ok (mk_fs_result op st n b) \<longleftrightarrow> st = FsOk \<or> st = FsRecoveryPending"
  by (simp add: fs_result_simps)

lemma fs_ok_failure [simp]: "fs_ok (fs_failure op st) \<longleftrightarrow> st = FsOk \<or> st = FsRecoveryPending"
  by (simp add: fs_failure_def)

lemma fs_ok_recovery [simp]: "fs_ok (fs_recovery_pending op n b)"
  by (simp add: fs_recovery_pending_def)

lemma fs_status_from_block_eq [simp]:
  "fs_status_from_block st = FsOk \<longleftrightarrow> st = BsOk" "fs_status_from_block st \<noteq> FsRecoveryPending"
  by (cases st; simp)+

lemma fs_ok_from_block [simp]: "fs_ok (fs_from_block op b n) \<longleftrightarrow> block_ok b"
  by (simp add: fs_from_block_def block_ok_def)

lemma fs_durable_simps [simp]:
  "fs_durable (fs_success op n)" "fs_durable (fs_failure op st) \<longleftrightarrow> st = FsOk"
  "\<not> fs_durable (fs_recovery_pending op n b)" "fs_durable (fs_from_block op b n) \<longleftrightarrow> block_ok b"
  by (simp_all add: fs_result_simps block_ok_def)

lemma fs_status_simps [simp]:
  "fs_status_of (fs_success op n) = FsOk" "fs_status_of (fs_failure op st) = st"
  "fs_status_of (fs_recovery_pending op n b) = FsRecoveryPending"
  "fs_status_of (mk_fs_result op st n b) = st" "fs_bytes (mk_fs_result op st n b) = n"
  "fs_bytes (fs_success op n) = n" "fs_bytes (fs_recovery_pending op n b) = n"
  by (simp_all add: fs_result_simps)

end
