(* ===== verification/ZenovFS_Core.thy ===== *)
theory ZenovFS_Core
  imports Fs_Result "HOL-Library.Sublist"
begin

text \<open>
  The metadata and the paths of ZenovFS: \<open>kernel/parts/storage_zenovfs_core.inc\<close>. The superblock and
  the 64-byte entries are records with their packed encodings; the globals of the file system, the
  storage globals and the driver state together are the record \<open>zfs\<close>.

  A C string is its characters without the terminator. A stored path is the 48 raw bytes of the
  entry, read up to the first zero byte.
\<close>

section \<open>On-disk structures\<close>

record zfs_superblock =
  zs_magic :: bytes
  zs_version :: u32
  zs_total_sectors :: u32
  zs_entry_count :: u32
  zs_entry_sectors :: u32
  zs_data_start :: u32
  zs_slot_sectors :: u32
  zs_generation :: u32
  zs_label :: bytes
  zs_reserved :: bytes

record zfs_entry =
  ze_used :: u8
  ze_type :: u8
  ze_flags :: u16
  ze_path :: bytes
  ze_size :: u32
  ze_checksum :: u32
  ze_reserved :: u32

definition encode_super :: "zfs_superblock \<Rightarrow> bytes" where
  "encode_super s =
     zs_magic s @ le_bytes 4 (zs_version s) @ le_bytes 4 (zs_total_sectors s) @
     le_bytes 4 (zs_entry_count s) @ le_bytes 4 (zs_entry_sectors s) @ le_bytes 4 (zs_data_start s) @
     le_bytes 4 (zs_slot_sectors s) @ le_bytes 4 (zs_generation s) @ zs_label s @ zs_reserved s"

definition field_u32 :: "nat \<Rightarrow> bytes \<Rightarrow> u32" where
  "field_u32 offset raw = le_word (take 4 (drop offset raw))"

definition field_u16 :: "nat \<Rightarrow> bytes \<Rightarrow> u16" where
  "field_u16 offset raw = le_word (take 2 (drop offset raw))"

definition decode_super :: "bytes \<Rightarrow> zfs_superblock" where
  "decode_super raw =
     \<lparr>zs_magic = take 8 raw, zs_version = field_u32 8 raw, zs_total_sectors = field_u32 12 raw,
      zs_entry_count = field_u32 16 raw, zs_entry_sectors = field_u32 20 raw,
      zs_data_start = field_u32 24 raw, zs_slot_sectors = field_u32 28 raw,
      zs_generation = field_u32 32 raw, zs_label = take 16 (drop 36 raw),
      zs_reserved = take 460 (drop 52 raw)\<rparr>"

definition encode_entry :: "zfs_entry \<Rightarrow> bytes" where
  "encode_entry e =
     [ze_used e, ze_type e] @ le_bytes 2 (ze_flags e) @ ze_path e @ le_bytes 4 (ze_size e) @
     le_bytes 4 (ze_checksum e) @ le_bytes 4 (ze_reserved e)"

definition decode_entry :: "bytes \<Rightarrow> zfs_entry" where
  "decode_entry raw =
     \<lparr>ze_used = raw ! 0, ze_type = raw ! 1, ze_flags = field_u16 2 raw, ze_path = take 48 (drop 4 raw),
      ze_size = field_u32 52 raw, ze_checksum = field_u32 56 raw, ze_reserved = field_u32 60 raw\<rparr>"

definition empty_entry :: zfs_entry where
  "empty_entry = \<lparr>ze_used = 0, ze_type = 0, ze_flags = 0, ze_path = replicate 48 0, ze_size = 0,
                 ze_checksum = 0, ze_reserved = 0\<rparr>"

definition zfs_max_entries :: nat where "zfs_max_entries = 128"
definition transaction_none :: u32 where "transaction_none = 0xFFFFFFFF"
definition zfs_type_file :: u8 where "zfs_type_file = 1"
definition zfs_type_directory :: u8 where "zfs_type_directory = 2"
definition zfs_type_transaction :: u8 where "zfs_type_transaction = 3"
definition zfs_flag_committed :: u16 where "zfs_flag_committed = 1"

text \<open>The globals of the file system over the storage globals.\<close>

record 's zfs =
  zf_storage :: "'s storage"
  zf_super :: zfs_superblock
  zf_entries :: "zfs_entry list"
  zf_mounted :: bool
  zf_current_directory :: string
  zf_sector_buffer :: bytes
  zf_file_buffer :: "bytes option"

section \<open>Paths\<close>

definition cstr :: "bytes \<Rightarrow> string" where
  "cstr raw = string_of_bytes (takeWhile (\<lambda>b. b \<noteq> 0) raw)"

text \<open>The copied characters and their terminator over the old bytes of the output array.\<close>

definition path_copy :: "bytes \<Rightarrow> string \<Rightarrow> nat \<Rightarrow> bytes option" where
  "path_copy output input capacity =
     (if capacity = 0 \<or> length input + 1 > capacity then None
      else Some (blit 0 (bytes_of_string input @ [0]) output))"

definition path_append :: "string \<Rightarrow> string \<Rightarrow> nat \<Rightarrow> string option" where
  "path_append output input capacity =
     (if input \<noteq> [] \<and> length output + length input + 1 > capacity then None
      else Some (output @ input))"

lemma normalize_loop_decreases:
  assumes "dropWhile (\<lambda>c. c = CHR ''/'') xs \<noteq> []"
  shows "length (dropWhile (\<lambda>c. c \<noteq> CHR ''/'') (dropWhile (\<lambda>c. c = CHR ''/'') xs)) < length xs"
proof -
  obtain y ys where y: "dropWhile (\<lambda>c. c = CHR ''/'') xs = y # ys" using assms by (cases "dropWhile (\<lambda>c. c = CHR ''/'') xs") auto
  then have "y \<noteq> CHR ''/''" using hd_dropWhile [OF assms] by simp
  then have "length (dropWhile (\<lambda>c. c \<noteq> CHR ''/'') (y # ys)) \<le> length ys"
    by (simp add: length_dropWhile_le)
  moreover have "length (y # ys) \<le> length xs" using length_dropWhile_le y by metis
  ultimately show ?thesis using y by simp
qed

text \<open>
  The component loop of \<open>normalize_path\<close>: \<open>combined\<close> from \<open>position\<close> on, the output so far and the
  array \<open>starts\<close> with \<open>count\<close> used entries (its length).
\<close>

function normalize_loop :: "string \<Rightarrow> string \<Rightarrow> nat list \<Rightarrow> string option" where
  "normalize_loop combined output starts =
     (if combined = [] then Some output
      else let combined = dropWhile (\<lambda>c. c = CHR ''/'') combined
           in if combined = [] then Some output
              else let component = takeWhile (\<lambda>c. c \<noteq> CHR ''/'') combined;
                       combined = dropWhile (\<lambda>c. c \<noteq> CHR ''/'') combined
                   in if length component + 1 > 48 then None
                      else if component = ''.'' then normalize_loop combined output starts
                      else if component = ''..''
                      then if starts \<noteq> []
                           then let start = last starts
                                in normalize_loop combined
                                     (take (if start = 1 then 1 else start - 1) output) (butlast starts)
                           else normalize_loop combined output starts
                      else if length starts \<ge> 16 then None
                      else let current = length output;
                               starts = starts @ [if current = 1 then 1 else current + 1]
                           in case (if output \<noteq> ''/'' then path_append output ''/'' 48 else Some output) of
                                None \<Rightarrow> None
                              | Some output \<Rightarrow>
                                  (case path_append output component 48 of
                                     None \<Rightarrow> None
                                   | Some output \<Rightarrow> normalize_loop combined output starts))"
  by pat_completeness auto
termination
  by (relation "measure (\<lambda>(combined, output, starts). length combined)")
     (auto intro: normalize_loop_decreases)

declare normalize_loop.simps [simp del]

definition starts_with :: "string \<Rightarrow> string \<Rightarrow> bool" where
  "starts_with text prefix_text = (take (length prefix_text) text = prefix_text)"

text \<open>The part of \<open>normalize_path\<close> before its loop: the bytes of \<open>combined[96]\<close>.\<close>

definition combine_path :: "string \<Rightarrow> string \<Rightarrow> string option" where
  "combine_path current_directory input =
     (let fits = (\<lambda>s. if length s + 1 > 96 then None else Some s)
      in if starts_with input ''/data''
         then let source = drop 5 input
              in if source = [] then fits ''/''
                 else if hd source \<noteq> CHR ''/'' then None
                 else fits source
         else if hd input = CHR ''/'' then fits input
         else case fits current_directory of
                None \<Rightarrow> None
              | Some combined \<Rightarrow>
                  (case (if combined \<noteq> ''/'' then path_append combined ''/'' 96 else Some combined) of
                     None \<Rightarrow> None
                   | Some combined \<Rightarrow> path_append combined input 96))"

definition normalize_path :: "string \<Rightarrow> string option \<Rightarrow> string option" where
  "normalize_path current_directory input =
     (case input of
        None \<Rightarrow> None
      | Some input \<Rightarrow>
          if input = [] then None
          else case combine_path current_directory input of
                 None \<Rightarrow> None
               | Some combined \<Rightarrow> normalize_loop combined ''/'' [])"

section \<open>Lookups\<close>

text \<open>The table a lookup scans: \<open>i < entry_count && i < zfs_max_entries\<close>.\<close>

definition table_size :: "zfs_superblock \<Rightarrow> nat" where
  "table_size s = (if unat (zs_entry_count s) < zfs_max_entries then unat (zs_entry_count s) else zfs_max_entries)"

definition entry_visible :: "zfs_entry \<Rightarrow> bool" where
  "entry_visible e = (ze_used e \<noteq> 0 \<and> ze_type e \<noteq> zfs_type_transaction)"

definition find_entry :: "zfs_superblock \<Rightarrow> zfs_entry list \<Rightarrow> string \<Rightarrow> nat option" where
  "find_entry s entries path =
     List.find (\<lambda>i. entry_visible (entries ! i) \<and> cstr (ze_path (entries ! i)) = path) [0..<table_size s]"

definition free_entry :: "zfs_superblock \<Rightarrow> zfs_entry list \<Rightarrow> u32 \<Rightarrow> nat option" where
  "free_entry s entries excluded =
     List.find (\<lambda>i. word_of_nat i \<noteq> excluded \<and> ze_used (entries ! i) = 0) [0..<table_size s]"

text \<open>\<open>parent_path\<close>: cut at the last slash, which stays only for the root.\<close>

definition parent_path :: "string \<Rightarrow> string option" where
  "parent_path path =
     (if path = ''/'' \<or> length path + 1 > 48 then None
      else let kept = rev (dropWhile (\<lambda>c. c \<noteq> CHR ''/'') (rev path));
               len = (if length kept = 0 then (if path = [] then 0 else 1) else length kept)
           in Some (if len \<le> 1 then ''/'' else take (len - 1) path))"

definition parent_exists :: "zfs_superblock \<Rightarrow> zfs_entry list \<Rightarrow> string \<Rightarrow> bool" where
  "parent_exists s entries path =
     (case parent_path path of
        None \<Rightarrow> True
      | Some parent \<Rightarrow>
          if parent = ''/'' then True
          else case find_entry s entries parent of
                 None \<Rightarrow> False
               | Some index \<Rightarrow> ze_type (entries ! index) = zfs_type_directory)"

text \<open>\<open>direct_child\<close>: the displayed name, when the path is a child of the directory.\<close>

definition direct_child :: "string \<Rightarrow> string \<Rightarrow> string option" where
  "direct_child directory path =
     (let display = (if directory = ''/''
                     then if path = [] \<or> hd path \<noteq> CHR ''/'' \<or> length path = 1 then None
                          else Some (drop 1 path)
                     else if \<not> starts_with path directory \<or> length path = length directory \<or>
                             path ! length directory \<noteq> CHR ''/''
                     then None else Some (drop (length directory + 1) path))
      in case display of
           None \<Rightarrow> None
         | Some display \<Rightarrow>
             if display = [] \<or> CHR ''/'' \<in> set display then None else Some display)"

definition entry_sector :: "nat \<Rightarrow> u32" where
  "entry_sector index = 1 + word_of_nat (index div 8)"

definition entry_slot_offset :: "nat \<Rightarrow> nat" where
  "entry_slot_offset index = (index mod 8) * 64"

definition data_sector :: "zfs_superblock \<Rightarrow> nat \<Rightarrow> u32" where
  "data_sector s index = zs_data_start s + word_of_nat index * zs_slot_sectors s"

definition max_file_bytes :: "zfs_superblock \<Rightarrow> u32" where
  "max_file_bytes s = zs_slot_sectors s * 512"

end
