(* ===== verification/ZenovFS_Io.thy ===== *)
theory ZenovFS_Io
  imports ZenovFS_Core
begin

text \<open>
  The operations of ZenovFS: \<open>kernel/parts/storage_zenovfs_io.inc\<close> (mount, recovery, read, write,
  directories, rename, copy) and \<open>storage_tools.inc\<close> (query, metadata sync, integrity check). Every
  operation returns its \<open>FsResult\<close> and the new globals; serial and console output is left out.

  \<open>heap::allocate\<close> is the argument \<open>allocate\<close> of \<open>mount_result\<close>. The \<open>data\<close> pointer of a write is
  null, the caller's bytes, or the file buffer itself (as \<open>copy_file_result\<close> passes it).
\<close>

section \<open>Metadata\<close>

definition zfs_block_failure ::
    "fs_operation \<Rightarrow> block_result \<Rightarrow> u32 \<Rightarrow> 's zfs \<Rightarrow> fs_result \<times> 's zfs" where
  "zfs_block_failure operation block count st =
     (fs_from_block operation block count, st\<lparr>zf_mounted := False\<rparr>)"

definition flush_entry_result :: "nat \<Rightarrow> fs_operation \<Rightarrow> 's zfs \<Rightarrow> fs_result \<times> 's zfs" where
  "flush_entry_result index operation st =
     (if index \<ge> unat (zs_entry_count (zf_super st)) then (fs_failure operation FsInvalidArgument, st)
      else let (read, buffer, g) = zfs_read_sector (entry_sector index) (zf_sector_buffer st) (zf_storage st);
               st = st\<lparr>zf_sector_buffer := buffer, zf_storage := g\<rparr>
           in if \<not> block_ok read then zfs_block_failure operation read 0 st
              else let buffer = blit (entry_slot_offset index) (encode_entry (zf_entries st ! index)) buffer;
                       (write, g) = zfs_write_sector (entry_sector index) buffer g;
                       st = st\<lparr>zf_sector_buffer := buffer, zf_storage := g\<rparr>
                   in if \<not> block_ok write then zfs_block_failure operation write 0 st
                      else (fs_success operation 0, st))"

definition replace_entry_result ::
    "nat \<Rightarrow> zfs_entry \<Rightarrow> fs_operation \<Rightarrow> 's zfs \<Rightarrow> fs_result \<times> 's zfs" where
  "replace_entry_result index replacement operation st =
     (if index \<ge> unat (zs_entry_count (zf_super st)) then (fs_failure operation FsInvalidArgument, st)
      else let previous = zf_entries st ! index;
               (result, st) = flush_entry_result index operation
                                (st\<lparr>zf_entries := (zf_entries st)[index := replacement]\<rparr>)
           in if \<not> fs_ok result then (result, st\<lparr>zf_entries := (zf_entries st)[index := previous]\<rparr>)
              else (result, st))"

definition decode_entries :: "bytes \<Rightarrow> zfs_entry list" where
  "decode_entries raw = map (\<lambda>i. decode_entry (take 64 (drop (i * 64) raw))) [0..<zfs_max_entries]"

text \<open>The loop of \<open>load_entries_result\<close> with \<open>count\<close> sectors left, over the raw bytes of the table.\<close>

primrec load_sectors ::
    "nat \<Rightarrow> nat \<Rightarrow> bytes \<Rightarrow> 's storage \<Rightarrow> block_result option \<times> bytes \<times> 's storage" where
  "load_sectors 0 sector raw g = (None, raw, g)"
| "load_sectors (Suc count) sector raw g =
     (let (read, out, g) = zfs_read_sector (1 + word_of_nat sector) (drop (sector * 512) raw) g;
          raw = take (sector * 512) raw @ out
      in if \<not> block_ok read then (Some read, raw, g) else load_sectors count (sector + 1) raw g)"

definition load_entries_result :: "'s zfs \<Rightarrow> fs_result \<times> 's zfs" where
  "load_entries_result st =
     (let (failed, raw, g) = load_sectors (unat (zs_entry_sectors (zf_super st))) 0
                               (replicate (zfs_max_entries * 64) 0) (zf_storage st);
          st = st\<lparr>zf_entries := decode_entries raw, zf_storage := g\<rparr>
      in case failed of
           Some read \<Rightarrow> zfs_block_failure FopMount read 0 st
         | None \<Rightarrow> (fs_success FopMount 0, st))"

text \<open>The two loops of \<open>recover_transactions_result\<close>, over the remaining indices.\<close>

primrec recover_clear ::
    "nat list \<Rightarrow> u32 \<Rightarrow> 's zfs \<Rightarrow> (fs_result + u32) \<times> 's zfs" where
  "recover_clear [] recovered st = (Inr recovered, st)"
| "recover_clear (i # is) recovered st =
     (let e = zf_entries st ! i
      in if ze_used e = 0 \<or> ze_type e \<noteq> zfs_type_transaction then recover_clear is recovered st
         else let (cleared, st) = replace_entry_result i empty_entry FopRecover st
              in if \<not> fs_ok cleared then (Inl cleared, st) else recover_clear is (recovered + 1) st)"

definition finalized_entry :: "zfs_entry \<Rightarrow> zfs_entry" where
  "finalized_entry e = e\<lparr>ze_flags := ze_flags e AND NOT zfs_flag_committed, ze_reserved := 0\<rparr>"

primrec recover_commit ::
    "nat list \<Rightarrow> u32 \<Rightarrow> 's zfs \<Rightarrow> (fs_result + u32) \<times> 's zfs" where
  "recover_commit [] recovered st = (Inr recovered, st)"
| "recover_commit (i # is) recovered st =
     (let committed = zf_entries st ! i
      in if ze_used committed = 0 \<or> ze_type committed \<noteq> zfs_type_file \<or>
            ze_flags committed AND zfs_flag_committed = 0 then recover_commit is recovered st
         else let old = ze_reserved committed;
                  (cleared_old, st) =
                    (if old < zs_entry_count (zf_super st) \<and> unat old \<noteq> i \<and>
                        ze_used (zf_entries st ! unat old) \<noteq> 0
                     then replace_entry_result (unat old) empty_entry FopRecover st
                     else (fs_success FopRecover 0, st))
              in if \<not> fs_ok cleared_old then (Inl cleared_old, st)
                 else let (finalized_result, st) =
                            replace_entry_result i (finalized_entry committed) FopRecover st
                      in if \<not> fs_ok finalized_result then (Inl finalized_result, st)
                         else recover_commit is (recovered + 1) st)"

definition recover_transactions_result :: "'s zfs \<Rightarrow> fs_result \<times> 's zfs" where
  "recover_transactions_result st =
     (let indices = [0..<unat (zs_entry_count (zf_super st))];
          (cleared, st) = recover_clear indices 0 st
      in case cleared of
           Inl r \<Rightarrow> (r, st)
         | Inr recovered \<Rightarrow>
             (let (done, st) = recover_commit indices recovered st
              in case done of
                   Inl r \<Rightarrow> (r, st)
                 | Inr recovered \<Rightarrow> (fs_success FopRecover recovered, st)))"

section \<open>Mount\<close>

definition mount_layout_valid :: "zfs_superblock \<Rightarrow> u32 \<Rightarrow> bool" where
  "mount_layout_valid s sectors =
     (if zs_total_sectors s = 0 \<or> zs_entry_count s = 0 \<or> unat (zs_entry_count s) > zfs_max_entries \<or>
         zs_slot_sectors s = 0 then False
      else if zs_entry_sectors s \<noteq> (zs_entry_count s + 7) div 8 \<or>
              zs_data_start s < 1 + zs_entry_sectors s \<or> zs_total_sectors s > sectors then False
      else unat (zs_data_start s) + unat (zs_entry_count s) * unat (zs_slot_sectors s)
             \<le> unat (zs_total_sectors s))"

definition zfs_magic :: bytes where
  "zfs_magic = bytes_of_string ''ZENOVFS1''"

definition mount_result :: "(u32 \<Rightarrow> bytes option) \<Rightarrow> 's zfs \<Rightarrow> fs_result \<times> 's zfs" where
  "mount_result allocate st =
     (let st = st\<lparr>zf_mounted := False\<rparr>
      in if \<not> bd_present (ata0 (zf_storage st)) then (fs_failure FopMount FsNotMounted, st)
         else let (super_read, raw, g) = zfs_read_sector 0 (encode_super (zf_super st)) (zf_storage st);
                  st = st\<lparr>zf_super := decode_super raw, zf_storage := g\<rparr>
              in if \<not> block_ok super_read then zfs_block_failure FopMount super_read 0 st
                 else if zs_magic (zf_super st) \<noteq> zfs_magic \<or> zs_version (zf_super st) \<noteq> 1 \<or>
                         \<not> mount_layout_valid (zf_super st) (bd_sectors (ata0 (zf_storage st)))
                 then (fs_failure FopMount FsMetadataCorrupt, st)
                 else let (loaded, st) = load_entries_result st
                      in if \<not> fs_ok loaded then (loaded, st)
                         else let st = st\<lparr>zf_file_buffer := allocate (max_file_bytes (zf_super st))\<rparr>
                              in if zf_file_buffer st = None then (fs_failure FopMount FsNoSpace, st)
                                 else let (recovered, st) = recover_transactions_result st
                                      in if \<not> fs_ok recovered then (recovered, st)
                                         else (fs_success FopMount (fs_bytes recovered),
                                               st\<lparr>zf_mounted := True, zf_current_directory := ''/''\<rparr>))"

section \<open>Files\<close>

text \<open>The sector loop of \<open>read_file_result\<close>: \<open>Inl (read, copied)\<close> is the failed request.\<close>

function read_loop ::
    "u32 \<Rightarrow> nat \<Rightarrow> nat \<Rightarrow> nat \<Rightarrow> bytes \<Rightarrow> 's zfs \<Rightarrow> (block_result \<times> nat) option \<times> bytes \<times> 's zfs" where
  "read_loop base sector copied count output st =
     (if copied < count
      then let (read, buffer, g) = zfs_read_sector (base + word_of_nat sector) (zf_sector_buffer st) (zf_storage st);
               st = st\<lparr>zf_sector_buffer := buffer, zf_storage := g\<rparr>
           in if \<not> block_ok read then (Some (read, copied), output, st)
              else let chunk = (if count - copied > 512 then 512 else count - copied)
                   in read_loop base (sector + 1) (copied + chunk) count
                        (blit copied (take chunk buffer) output) st
      else (None, output, st))"
  by pat_completeness auto
termination
  by (relation "measure (\<lambda>(base, sector, copied, count, output, st). count - copied)") auto

declare read_loop.simps [simp del]

text \<open>The result, the actual size, the output buffer and the globals.\<close>

definition read_file_result ::
    "string option \<Rightarrow> bytes option \<Rightarrow> u32 \<Rightarrow> 's zfs \<Rightarrow> fs_result \<times> u32 \<times> bytes option \<times> 's zfs" where
  "read_file_result input output capacity st =
     (if \<not> zf_mounted st then (fs_failure FopRead FsNotMounted, 0, output, st)
      else if input = None \<or> output = None then (fs_failure FopRead FsInvalidArgument, 0, output, st)
      else case normalize_path (zf_current_directory st) input of
             None \<Rightarrow> (fs_failure FopRead FsInvalidPath, 0, output, st)
           | Some path \<Rightarrow>
               (case find_entry (zf_super st) (zf_entries st) path of
                  None \<Rightarrow> (fs_failure FopRead FsNotFound, 0, output, st)
                | Some found \<Rightarrow>
                    (let entry = zf_entries st ! found; out = the output
                     in if ze_type entry \<noteq> zfs_type_file then (fs_failure FopRead FsWrongType, 0, output, st)
                        else if ze_size entry > max_file_bytes (zf_super st)
                        then (fs_failure FopRead FsMetadataCorrupt, 0, output, st)
                        else if ze_size entry > capacity
                        then (fs_failure FopRead FsBufferTooSmall, 0, output, st)
                        else let (failed, out, st) = read_loop (data_sector (zf_super st) found) 0 0
                                                       (unat (ze_size entry)) out st
                             in case failed of
                                  Some (read, copied) \<Rightarrow>
                                    (let (r, st) = zfs_block_failure FopRead read (word_of_nat copied) st
                                     in (r, 0, Some (blit 0 (replicate copied 0) out), st))
                                | None \<Rightarrow>
                                    if fnv1a (take (unat (ze_size entry)) out) \<noteq> ze_checksum entry
                                    then (fs_failure FopRead FsChecksumMismatch, 0,
                                          Some (blit 0 (replicate (unat (ze_size entry)) 0) out), st)
                                    else (fs_success FopRead (ze_size entry), ze_size entry, Some out, st))))"

datatype data_pointer = DataNull | DataBytes bytes | DataFileBuffer

function write_loop ::
    "u32 \<Rightarrow> nat \<Rightarrow> nat \<Rightarrow> nat \<Rightarrow> bytes \<Rightarrow> 's zfs \<Rightarrow> (block_result \<times> nat) option \<times> 's zfs" where
  "write_loop base sector written total_bytes file_buffer st =
     (if written < total_bytes
      then let chunk = (if total_bytes - written > 512 then 512 else total_bytes - written);
               buffer = blit 0 (take chunk (drop written file_buffer)) (replicate 512 0);
               (write, g) = zfs_write_sector (base + word_of_nat sector) buffer (zf_storage st);
               st = st\<lparr>zf_sector_buffer := buffer, zf_storage := g\<rparr>
           in if \<not> block_ok write then (Some (write, written), st)
              else write_loop base (sector + 1) (written + chunk) total_bytes file_buffer st
      else (None, st))"
  by pat_completeness auto
termination
  by (relation "measure (\<lambda>(base, sector, written, total_bytes, file_buffer, st). total_bytes - written)") auto

declare write_loop.simps [simp del]

text \<open>The metadata half of \<open>write_file_result\<close>: stage, commit, clear the old entry, finalize.\<close>

definition old_word :: "nat option \<Rightarrow> u32" where
  "old_word old_index = (case old_index of Some i \<Rightarrow> word_of_nat i | None \<Rightarrow> transaction_none)"

definition stage_entry :: "string \<Rightarrow> nat \<Rightarrow> u32 \<Rightarrow> nat option \<Rightarrow> zfs_entry" where
  "stage_entry path total_bytes checksum old_index =
     empty_entry\<lparr>ze_used := 1, ze_type := zfs_type_transaction, ze_size := word_of_nat total_bytes,
       ze_checksum := checksum, ze_reserved := old_word old_index,
       ze_path := blit 0 (bytes_of_string path @ [0]) (replicate 48 0)\<rparr>"

definition publish_entry ::
    "nat option \<Rightarrow> nat \<Rightarrow> nat \<Rightarrow> zfs_entry \<Rightarrow> 's zfs \<Rightarrow> fs_result \<times> 's zfs" where
  "publish_entry old_index staging_index total_bytes stage st =
     (let (metadata, st) = replace_entry_result staging_index stage FopWrite st
      in if \<not> fs_ok metadata then (metadata, st)
         else let stage = stage\<lparr>ze_type := zfs_type_file, ze_flags := zfs_flag_committed\<rparr>;
                  (metadata, st) = replace_entry_result staging_index stage FopWrite st
              in if \<not> fs_ok metadata then (metadata, st)
                 else let (cleared_old, st) =
                            (case old_index of
                               Some old \<Rightarrow> replace_entry_result old empty_entry FopWrite st
                             | None \<Rightarrow> (fs_success FopWrite 0, st))
                      in if \<not> fs_ok cleared_old
                         then (fs_recovery_pending FopWrite (word_of_nat total_bytes) (fs_block cleared_old), st)
                         else let stage = stage\<lparr>ze_flags := 0, ze_reserved := 0\<rparr>;
                                  (finalized, st) = replace_entry_result staging_index stage FopWrite st
                              in if \<not> fs_ok finalized
                                 then (fs_recovery_pending FopWrite (word_of_nat total_bytes) (fs_block finalized), st)
                                 else (fs_success FopWrite (word_of_nat total_bytes), st))"

text \<open>The part of \<open>write_file_result\<close> after the old entry and its size are known.\<close>

definition store_file ::
    "string \<Rightarrow> nat option \<Rightarrow> nat \<Rightarrow> bytes \<Rightarrow> 's zfs \<Rightarrow> fs_result \<times> 's zfs" where
  "store_file path old_index total_bytes file_buffer st =
     (case free_entry (zf_super st) (zf_entries st) (old_word old_index) of
        None \<Rightarrow> (fs_failure FopWrite FsNoSpace, st)
      | Some staging_index \<Rightarrow>
          (let (failed, st) = write_loop (data_sector (zf_super st) staging_index) 0 0 total_bytes file_buffer st
           in case failed of
                Some (write, written) \<Rightarrow> zfs_block_failure FopWrite write (word_of_nat written) st
              | None \<Rightarrow>
                  if path_copy (replicate 48 0) path 48 = None then (fs_failure FopWrite FsInvalidPath, st)
                  else publish_entry old_index staging_index total_bytes
                         (stage_entry path total_bytes (fnv1a (take total_bytes file_buffer)) old_index) st))"

definition write_file_result ::
    "string option \<Rightarrow> data_pointer \<Rightarrow> u32 \<Rightarrow> bool \<Rightarrow> 's zfs \<Rightarrow> fs_result \<times> 's zfs" where
  "write_file_result input data count append_mode st =
     (if \<not> zf_mounted st then (fs_failure FopWrite FsNotMounted, st)
      else if input = None \<or> (data = DataNull \<and> count \<noteq> 0) then (fs_failure FopWrite FsInvalidArgument, st)
      else case normalize_path (zf_current_directory st) input of
             None \<Rightarrow> (fs_failure FopWrite FsInvalidPath, st)
           | Some path \<Rightarrow>
          if path = ''/'' then (fs_failure FopWrite FsInvalidPath, st)
          else if \<not> parent_exists (zf_super st) (zf_entries st) path
          then (fs_failure FopWrite FsParentMissing, st)
          else let old_index = find_entry (zf_super st) (zf_entries st) path
          in if (\<exists>i\<in>set_option old_index. ze_type (zf_entries st ! i) \<noteq> zfs_type_file)
             then (fs_failure FopWrite FsWrongType, st)
             else let existing = (case old_index of
                                    Some i \<Rightarrow> if append_mode then ze_size (zf_entries st ! i) else 0
                                  | None \<Rightarrow> 0);
                      capacity = max_file_bytes (zf_super st)
          in if existing > capacity \<or> count > capacity - existing then (fs_failure FopWrite FsNoSpace, st)
             else let (read, loaded, file_buffer, st) =
                        (if append_mode \<and> existing \<noteq> 0
                         then read_file_result (Some path) (zf_file_buffer st) capacity st
                         else (fs_success FopRead 0, existing, zf_file_buffer st, st));
                      st = st\<lparr>zf_file_buffer := file_buffer\<rparr>
          in if \<not> fs_ok read \<or> loaded \<noteq> existing
             then (mk_fs_result FopWrite (fs_status_of read) 0 (fs_block read), st)
             else let fb = the file_buffer;
                      fb = (case data of
                              DataNull \<Rightarrow> fb
                            | DataBytes bs \<Rightarrow> blit (unat existing) (take (unat count) bs) fb
                            | DataFileBuffer \<Rightarrow>
                                if existing = 0 then fb else blit (unat existing) (take (unat count) fb) fb);
                      st = st\<lparr>zf_file_buffer := Some fb\<rparr>
          in store_file path old_index (unat (existing + count)) fb st)"

section \<open>Directories, removal, renaming, copying\<close>

definition make_directory_result :: "string option \<Rightarrow> 's zfs \<Rightarrow> fs_result \<times> 's zfs" where
  "make_directory_result input st =
     (if \<not> zf_mounted st then (fs_failure FopCreate FsNotMounted, st)
      else case normalize_path (zf_current_directory st) input of
             None \<Rightarrow> (fs_failure FopCreate FsInvalidPath, st)
           | Some path \<Rightarrow>
               if path = ''/'' then (fs_failure FopCreate FsInvalidPath, st)
               else if find_entry (zf_super st) (zf_entries st) path \<noteq> None
               then (fs_failure FopCreate FsAlreadyExists, st)
               else if \<not> parent_exists (zf_super st) (zf_entries st) path
               then (fs_failure FopCreate FsParentMissing, st)
               else (case free_entry (zf_super st) (zf_entries st) transaction_none of
                       None \<Rightarrow> (fs_failure FopCreate FsNoSpace, st)
                     | Some index \<Rightarrow>
                         (case path_copy (replicate 48 0) path 48 of
                            None \<Rightarrow> (fs_failure FopCreate FsInvalidPath, st)
                          | Some raw \<Rightarrow>
                              replace_entry_result index
                                (empty_entry\<lparr>ze_used := 1, ze_type := zfs_type_directory, ze_path := raw\<rparr>)
                                FopCreate st)))"

definition touch_result :: "string option \<Rightarrow> 's zfs \<Rightarrow> fs_result \<times> 's zfs" where
  "touch_result input st =
     (case normalize_path (zf_current_directory st) input of
        None \<Rightarrow> (fs_failure FopCreate FsInvalidPath, st)
      | Some path \<Rightarrow>
          (case find_entry (zf_super st) (zf_entries st) path of
             Some found \<Rightarrow>
               (if ze_type (zf_entries st ! found) = zfs_type_file then fs_success FopCreate 0
                else fs_failure FopCreate FsWrongType, st)
           | None \<Rightarrow>
               (let (written, st) = write_file_result (Some path) DataNull 0 False st
                in (mk_fs_result FopCreate (fs_status_of written) (fs_bytes written) (fs_block written), st))))"

definition has_children :: "zfs_superblock \<Rightarrow> zfs_entry list \<Rightarrow> string \<Rightarrow> bool" where
  "has_children s entries path =
     (\<exists>i\<in>set [0..<unat (zs_entry_count s)].
        let p = cstr (ze_path (entries ! i))
        in entry_visible (entries ! i) \<and> starts_with p path \<and>
           length p > length path + 1 \<and> p ! length path = CHR ''/'')"

definition remove_result :: "string option \<Rightarrow> 's zfs \<Rightarrow> fs_result \<times> 's zfs" where
  "remove_result input st =
     (if \<not> zf_mounted st then (fs_failure FopRemove FsNotMounted, st)
      else case normalize_path (zf_current_directory st) input of
             None \<Rightarrow> (fs_failure FopRemove FsInvalidPath, st)
           | Some path \<Rightarrow>
               if path = ''/'' then (fs_failure FopRemove FsInvalidPath, st)
               else (case find_entry (zf_super st) (zf_entries st) path of
                       None \<Rightarrow> (fs_failure FopRemove FsNotFound, st)
                     | Some index \<Rightarrow>
                         if ze_type (zf_entries st ! index) = zfs_type_directory \<and>
                            has_children (zf_super st) (zf_entries st) path
                         then (fs_failure FopRemove FsDirectoryNotEmpty, st)
                         else replace_entry_result index empty_entry FopRemove st))"

definition change_directory_result :: "string option \<Rightarrow> 's zfs \<Rightarrow> fs_result \<times> 's zfs" where
  "change_directory_result input st =
     (if \<not> zf_mounted st then (fs_failure FopQuery FsNotMounted, st)
      else case normalize_path (zf_current_directory st) input of
             None \<Rightarrow> (fs_failure FopQuery FsInvalidPath, st)
           | Some path \<Rightarrow>
               let refused = (if path = ''/'' then None
                              else case find_entry (zf_super st) (zf_entries st) path of
                                     None \<Rightarrow> Some FsNotFound
                                   | Some index \<Rightarrow>
                                       if ze_type (zf_entries st ! index) \<noteq> zfs_type_directory
                                       then Some FsWrongType else None)
               in case refused of
                    Some status \<Rightarrow> (fs_failure FopQuery status, st)
                  | None \<Rightarrow>
                      if length path + 1 > 48 then (fs_failure FopQuery FsInvalidPath, st)
                      else (fs_success FopQuery 0, st\<lparr>zf_current_directory := path\<rparr>))"

definition rename_entry_result ::
    "string option \<Rightarrow> string option \<Rightarrow> 's zfs \<Rightarrow> fs_result \<times> 's zfs" where
  "rename_entry_result source_input destination_input st =
     (if \<not> zf_mounted st then (fs_failure FopRename FsNotMounted, st)
      else case normalize_path (zf_current_directory st) source_input of
             None \<Rightarrow> (fs_failure FopRename FsInvalidPath, st)
           | Some source \<Rightarrow>
               (case normalize_path (zf_current_directory st) destination_input of
                  None \<Rightarrow> (fs_failure FopRename FsInvalidPath, st)
                | Some destination \<Rightarrow>
                    if source = ''/'' then (fs_failure FopRename FsInvalidPath, st)
                    else if find_entry (zf_super st) (zf_entries st) destination \<noteq> None
                    then (fs_failure FopRename FsAlreadyExists, st)
                    else if \<not> parent_exists (zf_super st) (zf_entries st) destination
                    then (fs_failure FopRename FsParentMissing, st)
                    else (case find_entry (zf_super st) (zf_entries st) source of
                            None \<Rightarrow> (fs_failure FopRename FsNotFound, st)
                          | Some index \<Rightarrow>
                              if ze_type (zf_entries st ! index) = zfs_type_directory \<and>
                                 has_children (zf_super st) (zf_entries st) source
                              then (fs_failure FopRename FsDirectoryNotEmpty, st)
                              else (case path_copy (ze_path (zf_entries st ! index)) destination 48 of
                                      None \<Rightarrow> (fs_failure FopRename FsInvalidPath, st)
                                    | Some raw \<Rightarrow>
                                        replace_entry_result index
                                          ((zf_entries st ! index)\<lparr>ze_path := raw\<rparr>) FopRename st))))"

definition copy_file_result :: "string option \<Rightarrow> string option \<Rightarrow> 's zfs \<Rightarrow> fs_result \<times> 's zfs" where
  "copy_file_result source destination st =
     (if zf_file_buffer st = None then (fs_failure FopCopy FsNotMounted, st)
      else let (read, count, file_buffer, st) =
                 read_file_result source (zf_file_buffer st) (max_file_bytes (zf_super st)) st;
               st = st\<lparr>zf_file_buffer := file_buffer\<rparr>
           in if \<not> fs_ok read then (mk_fs_result FopCopy (fs_status_of read) 0 (fs_block read), st)
              else let (write, st) = write_file_result destination DataFileBuffer count False st
                   in (mk_fs_result FopCopy (fs_status_of write) (fs_bytes write) (fs_block write), st))"

section \<open>Query, sync, integrity\<close>

record file_info =
  fi_type :: u32
  fi_size :: u32
  fi_checksum :: u32

definition query_result :: "string option \<Rightarrow> 's zfs \<Rightarrow> fs_result \<times> file_info option" where
  "query_result input st =
     (if \<not> zf_mounted st then (fs_failure FopQuery FsNotMounted, None)
      else if input = None \<or> input = Some [] then (fs_failure FopQuery FsInvalidArgument, None)
      else case normalize_path (zf_current_directory st) input of
             None \<Rightarrow> (fs_failure FopQuery FsInvalidPath, None)
           | Some path \<Rightarrow>
               if path = ''/''
               then (fs_success FopQuery 0,
                     Some \<lparr>fi_type = ucast zfs_type_directory, fi_size = 0, fi_checksum = 0\<rparr>)
               else (case find_entry (zf_super st) (zf_entries st) path of
                       None \<Rightarrow> (fs_failure FopQuery FsNotFound, None)
                     | Some index \<Rightarrow>
                         (let entry = zf_entries st ! index
                          in if ze_type entry \<noteq> zfs_type_file \<and> ze_type entry \<noteq> zfs_type_directory
                             then (fs_failure FopQuery FsMetadataCorrupt, None)
                             else (fs_success FopQuery 0,
                                   Some \<lparr>fi_type = ucast (ze_type entry), fi_size = ze_size entry,
                                         fi_checksum = ze_checksum entry\<rparr>))))"

primrec sync_sectors ::
    "nat \<Rightarrow> nat \<Rightarrow> bytes \<Rightarrow> 's storage \<Rightarrow> block_result option \<times> 's storage" where
  "sync_sectors 0 sector source g = (None, g)"
| "sync_sectors (Suc count) sector source g =
     (let (write, g) = zfs_write_sector (1 + word_of_nat sector) (drop (sector * 512) source) g
      in if \<not> block_ok write then (Some write, g) else sync_sectors count (sector + 1) source g)"

definition sync_metadata_result :: "'s zfs \<Rightarrow> fs_result \<times> 's zfs" where
  "sync_metadata_result st =
     (if \<not> zf_mounted st then (fs_failure FopSync FsNotMounted, st)
      else let (recovered, st) = recover_transactions_result st
           in if \<not> fs_ok recovered then (recovered, st)
              else if zs_generation (zf_super st) = 0xFFFFFFFF
              then (fs_failure FopSync FsMetadataCorrupt, st)
              else let (failed, g) = sync_sectors (unat (zs_entry_sectors (zf_super st))) 0
                                       (concat (map encode_entry (zf_entries st))) (zf_storage st);
                       st = st\<lparr>zf_storage := g\<rparr>
                   in case failed of
                        Some write \<Rightarrow> zfs_block_failure FopSync write 0 st
                      | None \<Rightarrow>
                          (let committed = (zf_super st)\<lparr>zs_generation := zs_generation (zf_super st) + 1\<rparr>;
                               (super_write, g) = zfs_write_sector 0 (encode_super committed) (zf_storage st);
                               st = st\<lparr>zf_storage := g\<rparr>
                           in if \<not> block_ok super_write then zfs_block_failure FopSync super_write 0 st
                              else (fs_success FopSync (zs_generation committed), st\<lparr>zf_super := committed\<rparr>)))"

text \<open>A byte of a \<open>char\<close> above 127 is negative, so it fails \<open>value < 32\<close>.\<close>

definition valid_stored_path :: "bytes \<Rightarrow> bool" where
  "valid_stored_path raw =
     (let path = takeWhile (\<lambda>b. b \<noteq> 0) (take 48 raw); len = length path
      in raw \<noteq> [] \<and> raw ! 0 = 47 \<and> \<not> (len < 2 \<or> len \<ge> 48 \<or> path ! (len - 1) = 47) \<and>
         (\<forall>i\<in>set [0..<len]. \<not> (path ! i < 32 \<or> path ! i > 126 \<or>
            (path ! i = 47 \<and> i + 1 < len \<and> path ! (i + 1) = 47))))"

text \<open>The entry loop of \<open>check_integrity_result\<close>, over the remaining indices.\<close>

primrec check_entries :: "nat list \<Rightarrow> u32 \<Rightarrow> 's zfs \<Rightarrow> fs_result \<times> 's zfs" where
  "check_entries [] checked st = (fs_success FopQuery checked, st)"
| "check_entries (i # is) checked st =
     (let entry = zf_entries st ! i; corrupt = (fs_failure FopQuery FsMetadataCorrupt, st)
      in if ze_used entry = 0 then check_entries is checked st
         else if (ze_type entry \<noteq> zfs_type_file \<and> ze_type entry \<noteq> zfs_type_directory) \<or>
                 ze_flags entry \<noteq> 0 \<or> \<not> valid_stored_path (ze_path entry) then corrupt
         else if (\<exists>j\<in>set [i + 1..<unat (zs_entry_count (zf_super st))].
                    entry_visible (zf_entries st ! j) \<and>
                    cstr (ze_path entry) = cstr (ze_path (zf_entries st ! j))) then corrupt
         else if \<not> parent_exists (zf_super st) (zf_entries st) (cstr (ze_path entry)) then corrupt
         else if ze_type entry = zfs_type_directory
         then if ze_size entry \<noteq> 0 \<or> ze_checksum entry \<noteq> 0 then corrupt
              else check_entries is (checked + 1) st
         else if ze_size entry > max_file_bytes (zf_super st) then corrupt
         else let (read, loaded, file_buffer, st) =
                    read_file_result (Some (cstr (ze_path entry))) (zf_file_buffer st)
                      (max_file_bytes (zf_super st)) st;
                  st = st\<lparr>zf_file_buffer := file_buffer\<rparr>
              in if \<not> fs_ok read \<or> loaded \<noteq> ze_size entry
                 then (mk_fs_result FopQuery (fs_status_of read) (fs_bytes read) (fs_block read), st)
                 else check_entries is (checked + 1) st)"

definition check_integrity_result :: "'s zfs \<Rightarrow> fs_result \<times> 's zfs" where
  "check_integrity_result st =
     (if \<not> zf_mounted st \<or> zf_file_buffer st = None then (fs_failure FopQuery FsNotMounted, st)
      else let (recovered, st) = recover_transactions_result st
           in if \<not> fs_ok recovered then (recovered, st)
              else check_entries [0..<unat (zs_entry_count (zf_super st))] 0 st)"

end
