(* ===== verification/ZenovFS.thy ===== *)
theory ZenovFS
  imports ZenovFS_Io
begin

text \<open>
  Correctness of ZenovFS over any sector driver. The table and the files are first read off the
  disk (\<open>disk_entry\<close>, \<open>file_data\<close>, \<open>view\<close>); the operations of \<open>ZenovFS_Io\<close> are then shown, inside the
  locale \<open>zenovfs_device\<close>, to act on that view. The main result is the atomicity of a file write: after
  any failure of the device and a remount, the directory shows the old file or the new file, and
  every other file as it was.
\<close>

lemma length_concat_uniform: "(\<forall>xs\<in>set xss. length xs = n) \<Longrightarrow> length (concat xss) = length xss * n"
  by (induction xss) simp_all

section \<open>Encodings\<close>

definition entry_wf :: "zfs_entry \<Rightarrow> bool" where
  "entry_wf e \<longleftrightarrow> length (ze_path e) = 48"

lemma length_encode_entry [simp]: "entry_wf e \<Longrightarrow> length (encode_entry e) = 64"
  by (simp add: encode_entry_def entry_wf_def)

lemma decode_encode_entry [simp]: "entry_wf e \<Longrightarrow> decode_entry (encode_entry e) = e"
  by (simp add: decode_entry_def encode_entry_def entry_wf_def field_u32_def field_u16_def)

lemma entry_wf_empty [simp]: "entry_wf empty_entry"
  by (simp add: entry_wf_def empty_entry_def)

lemma entry_wf_decode [simp]: "length raw = 64 \<Longrightarrow> entry_wf (decode_entry raw)"
  by (simp add: entry_wf_def decode_entry_def)

definition super_wf :: "zfs_superblock \<Rightarrow> bool" where
  "super_wf s \<longleftrightarrow> length (zs_magic s) = 8 \<and> length (zs_label s) = 16 \<and> length (zs_reserved s) = 460"

lemma length_encode_super [simp]: "super_wf s \<Longrightarrow> length (encode_super s) = 512"
  by (simp add: encode_super_def super_wf_def)

lemma decode_encode_super [simp]: "super_wf s \<Longrightarrow> decode_super (encode_super s) = s"
  by (simp add: decode_super_def encode_super_def super_wf_def field_u32_def)

lemma super_wf_decode [simp]: "length raw = 512 \<Longrightarrow> super_wf (decode_super raw)"
  by (simp add: super_wf_def decode_super_def)

section \<open>The table and the files on the disk\<close>

definition table_sector :: "nat \<Rightarrow> nat" where
  "table_sector i = 1 + i div 8"

definition disk_entry :: "bytes list \<Rightarrow> nat \<Rightarrow> zfs_entry" where
  "disk_entry d i = decode_entry (take 64 (drop (entry_slot_offset i) (d ! table_sector i)))"

definition put_entry :: "bytes list \<Rightarrow> nat \<Rightarrow> zfs_entry \<Rightarrow> bytes list" where
  "put_entry d i e =
     d[table_sector i := blit (entry_slot_offset i) (encode_entry e) (d ! table_sector i)]"

definition sectors_wf :: "bytes list \<Rightarrow> bool" where
  "sectors_wf d \<longleftrightarrow> (\<forall>i < length d. length (d ! i) = 512)"

lemma entry_slot_fits: "entry_slot_offset i + 64 \<le> 512"
proof -
  have "i mod 8 \<le> 7" by simp
  then have "(i mod 8) * 64 \<le> 7 * 64" by (rule mult_le_mono1)
  then show ?thesis by (simp add: entry_slot_offset_def)
qed

lemma length_put_entry [simp]: "length (put_entry d i e) = length d"
  by (simp add: put_entry_def)

lemma put_entry_other: "k \<noteq> table_sector i \<Longrightarrow> put_entry d i e ! k = d ! k"
  by (simp add: put_entry_def)

lemma sectors_wf_put_entry:
  assumes "sectors_wf d" and "entry_wf e" and "table_sector i < length d"
  shows "sectors_wf (put_entry d i e)"
  using assms entry_slot_fits [of i]
  by (auto simp: sectors_wf_def put_entry_def nth_list_update)

lemma disk_entry_put:
  assumes "sectors_wf d" and "entry_wf e" and "table_sector i < length d"
  shows "disk_entry (put_entry d i e) j = (if j = i then e else disk_entry d j)"
proof (cases "table_sector j = table_sector i")
  case False
  then show ?thesis by (auto simp: disk_entry_def put_entry_other)
next
  case True
  let ?s = "d ! table_sector i"
  have len: "length ?s = 512" using assms by (simp add: sectors_wf_def)
  have sec: "put_entry d i e ! table_sector j = blit (entry_slot_offset i) (encode_entry e) ?s"
    using True assms(3) by (simp add: put_entry_def)
  show ?thesis
  proof (cases "j = i")
    case same: True
    have "take 64 (drop (entry_slot_offset i) (blit (entry_slot_offset i) (encode_entry e) ?s)) = encode_entry e"
      using entry_slot_fits [of i] len assms(2) by (simp add: blit_def)
    with same sec assms(2) show ?thesis by (simp add: disk_entry_def)
  next
    case other: False
    then have "i mod 8 \<noteq> j mod 8" using True by (metis table_sector_def add_left_cancel div_mult_mod_eq)
    then have apart: "entry_slot_offset j + 64 \<le> entry_slot_offset i \<or> entry_slot_offset i + 64 \<le> entry_slot_offset j"
      unfolding entry_slot_offset_def by auto
    have "take 64 (drop (entry_slot_offset j) (blit (entry_slot_offset i) (encode_entry e) ?s)) =
        take 64 (drop (entry_slot_offset j) ?s)"
      using apart entry_slot_fits [of i] entry_slot_fits [of j] len assms(2)
      by (intro nth_equalityI) (auto simp: nth_blit)
    with other sec True show ?thesis by (simp add: disk_entry_def)
  qed
qed

text \<open>The geometry \<open>mount_layout_valid\<close> establishes.\<close>

definition slots :: "zfs_superblock \<Rightarrow> nat" where "slots s = unat (zs_slot_sectors s)"
definition entry_total :: "zfs_superblock \<Rightarrow> nat" where "entry_total s = unat (zs_entry_count s)"
definition data_base :: "zfs_superblock \<Rightarrow> nat \<Rightarrow> nat" where
  "data_base s i = unat (zs_data_start s) + i * slots s"

definition geometry :: "zfs_superblock \<Rightarrow> nat \<Rightarrow> bool" where
  "geometry s n \<longleftrightarrow>
     0 < entry_total s \<and> entry_total s \<le> zfs_max_entries \<and> 0 < slots s \<and>
     unat (zs_entry_sectors s) = (entry_total s + 7) div 8 \<and>
     1 + unat (zs_entry_sectors s) \<le> unat (zs_data_start s) \<and>
     data_base s (entry_total s) \<le> n \<and> n < 2 ^ 32"

lemma mount_layout_geometry:
  assumes "mount_layout_valid s sectors" and "unat sectors = n"
  shows "geometry s n"
proof -
  have v: "zs_entry_count s \<noteq> 0" "unat (zs_entry_count s) \<le> 128" "zs_slot_sectors s \<noteq> 0"
      "zs_entry_sectors s = (zs_entry_count s + 7) div 8" "\<not> zs_data_start s < 1 + zs_entry_sectors s"
      "\<not> sectors < zs_total_sectors s"
      "unat (zs_data_start s) + unat (zs_entry_count s) * unat (zs_slot_sectors s) \<le> unat (zs_total_sectors s)"
    using assms(1) by (auto simp: mount_layout_valid_def zfs_max_entries_def split: if_splits)
  have "unat (zs_entry_count s + 7) = unat (zs_entry_count s) + 7"
    using v(2) by (simp add: unat_add_nowrap)
  then have es: "unat (zs_entry_sectors s) = (entry_total s + 7) div 8"
    by (simp add: v(4) unat_div entry_total_def)
  then have "unat (1 + zs_entry_sectors s) = 1 + unat (zs_entry_sectors s)"
    using v(2) by (simp add: unat_add_nowrap entry_total_def)
  with v(5) have "1 + unat (zs_entry_sectors s) \<le> unat (zs_data_start s)"
    by (simp add: word_less_nat_alt)
  moreover have "0 < entry_total s" "0 < slots s"
    using v(1,3) by (auto simp: entry_total_def slots_def unat_gt_0)
  moreover have "data_base s (entry_total s) \<le> n"
    using v(6,7) assms(2) by (simp add: data_base_def slots_def entry_total_def word_less_nat_alt)
  moreover have "n < 2 ^ 32" using unat_less_exp [of sectors] assms(2) by simp
  ultimately show ?thesis using es v(2) by (simp add: geometry_def zfs_max_entries_def entry_total_def)
qed

lemma table_sector_bound:
  assumes "geometry s n" and "i < entry_total s"
  shows "table_sector i < unat (zs_data_start s)" and "table_sector i < n" and "0 < table_sector i"
    and "unat (entry_sector i) = table_sector i"
proof -
  have "i div 8 < (entry_total s + 7) div 8" using assms(2) by linarith
  then show lt: "table_sector i < unat (zs_data_start s)"
    using assms(1) by (simp add: geometry_def table_sector_def)
  show "0 < table_sector i" by (simp add: table_sector_def)
  show "table_sector i < n" using lt assms(1) by (auto simp: geometry_def data_base_def)
  have "i < 128" using assms by (auto simp: geometry_def zfs_max_entries_def)
  then have "i div 8 < 16" by simp
  then show "unat (entry_sector i) = table_sector i"
    by (simp add: entry_sector_def table_sector_def unat_add_nowrap unat_of_nat_nowrap)
qed

lemma data_base_bound:
  assumes "geometry s n" and "i < entry_total s" and "k < slots s"
  shows "data_base s i + k < n" and "unat (zs_data_start s) \<le> data_base s i + k"
    and "unat (data_sector s i + word_of_nat k) = data_base s i + k"
proof -
  have "(i + 1) * slots s \<le> entry_total s * slots s" using assms(2) by (intro mult_le_mono1) simp
  then show lt: "data_base s i + k < n"
    using assms(1,3) by (simp add: geometry_def data_base_def)
  show "unat (zs_data_start s) \<le> data_base s i + k" by (simp add: data_base_def)
  have big: "data_base s i + k < 2 ^ 32" using lt assms(1) by (simp add: geometry_def)
  have k: "unat (word_of_nat k :: u32) = k" using big by (simp add: unat_of_nat_nowrap)
  have "i < 128" using assms by (auto simp: geometry_def zfs_max_entries_def)
  then have i: "unat (word_of_nat i :: u32) = i" by (simp add: unat_of_nat_nowrap)
  have prod: "unat (word_of_nat i * zs_slot_sectors s) = i * slots s"
    using big by (subst unat_mult_nowrap) (simp_all add: i slots_def data_base_def)
  have "unat (data_sector s i) = data_base s i"
    unfolding data_sector_def using big by (subst unat_add_nowrap) (simp_all add: prod data_base_def)
  then show "unat (data_sector s i + word_of_nat k) = data_base s i + k"
    using big by (subst unat_add_nowrap) (simp_all add: k)
qed

lemma data_base_disjoint:
  assumes "i \<noteq> j" and "k < slots s" and "l < slots s"
  shows "data_base s i + k \<noteq> data_base s j + l"
proof
  assume "data_base s i + k = data_base s j + l"
  then have eq: "i * slots s + k = j * slots s + l" by (simp add: data_base_def)
  then have "(i * slots s + k) div slots s = (j * slots s + l) div slots s" by simp
  with assms show False by simp
qed

text \<open>The bytes of a slot and of a file in it.\<close>

definition slot_bytes :: "zfs_superblock \<Rightarrow> bytes list \<Rightarrow> nat \<Rightarrow> bytes" where
  "slot_bytes s d i = concat (map (\<lambda>k. d ! (data_base s i + k)) [0..<slots s])"

definition file_data :: "zfs_superblock \<Rightarrow> bytes list \<Rightarrow> nat \<Rightarrow> zfs_entry \<Rightarrow> bytes" where
  "file_data s d i e = take (unat (ze_size e)) (slot_bytes s d i)"

datatype node = Directory | File bytes

text \<open>What a path shows: the entry the table lookup finds, with the bytes of its slot.\<close>

definition view :: "zfs_superblock \<Rightarrow> bytes list \<Rightarrow> zfs_entry list \<Rightarrow> string \<Rightarrow> node option" where
  "view s d entries path =
     (case find_entry s entries path of
        None \<Rightarrow> None
      | Some i \<Rightarrow> Some (if ze_type (entries ! i) = zfs_type_file
                       then File (file_data s d i (entries ! i)) else Directory))"

lemma slot_bytes_cong:
  "(\<And>k. k < slots s \<Longrightarrow> d ! (data_base s i + k) = d' ! (data_base s i + k)) \<Longrightarrow>
     slot_bytes s d i = slot_bytes s d' i"
  unfolding slot_bytes_def by (rule arg_cong [of _ _ concat]) simp

lemma slot_bytes_put_entry:
  assumes "geometry s n" and "j < entry_total s"
  shows "slot_bytes s (put_entry d j e) i = slot_bytes s d i"
  using table_sector_bound(1) [OF assms]
  by (intro slot_bytes_cong put_entry_other) (simp add: data_base_def)

lemma table_size_eq: "geometry s n \<Longrightarrow> table_size s = entry_total s"
  by (simp add: geometry_def table_size_def entry_total_def)

section \<open>Tables\<close>

definition paths_unique :: "nat \<Rightarrow> zfs_entry list \<Rightarrow> bool" where
  "paths_unique n entries \<longleftrightarrow>
     (\<forall>i < n. \<forall>j < n. entry_visible (entries ! i) \<and> entry_visible (entries ! j) \<and>
        cstr (ze_path (entries ! i)) = cstr (ze_path (entries ! j)) \<longrightarrow> i = j)"

text \<open>No write is under way: no transaction entry and no committed flag.\<close>

definition entry_settled :: "zfs_entry \<Rightarrow> bool" where
  "entry_settled e \<longleftrightarrow>
     ze_used e = 0 \<or> (ze_type e \<noteq> zfs_type_transaction \<and>
       (ze_type e = zfs_type_file \<longrightarrow> ze_flags e AND zfs_flag_committed = 0))"

definition table_settled :: "nat \<Rightarrow> zfs_entry list \<Rightarrow> bool" where
  "table_settled n entries \<longleftrightarrow> (\<forall>i < n. entry_settled (entries ! i))"

lemma find_upt_Some:
  "List.find P [0..<n] = Some i \<longleftrightarrow> i < n \<and> P i \<and> (\<forall>j < i. \<not> P j)"
  by (auto simp: find_Some_iff intro!: exI [of _ i])

lemma find_upt_None: "List.find P [0..<n] = None \<longleftrightarrow> (\<forall>i < n. \<not> P i)"
  by (auto simp: find_None_iff)

lemma find_entry_Some:
  assumes "geometry s n" and "paths_unique (entry_total s) entries"
  shows "find_entry s entries p = Some i \<longleftrightarrow>
           i < entry_total s \<and> entry_visible (entries ! i) \<and> cstr (ze_path (entries ! i)) = p"
  using assms(2) unfolding find_entry_def find_upt_Some table_size_eq [OF assms(1)] paths_unique_def
  by (auto dest: order.strict_trans)

lemma find_entry_SomeD:
  assumes "geometry s n" and "find_entry s entries p = Some i"
  shows "i < entry_total s \<and> entry_visible (entries ! i) \<and> cstr (ze_path (entries ! i)) = p"
  using assms(2) unfolding find_entry_def find_upt_Some table_size_eq [OF assms(1)] by auto

lemma find_entry_None:
  assumes "geometry s n"
  shows "find_entry s entries p = None \<longleftrightarrow>
           (\<forall>i < entry_total s. entry_visible (entries ! i) \<longrightarrow> cstr (ze_path (entries ! i)) \<noteq> p)"
  unfolding find_entry_def find_upt_None table_size_eq [OF assms] by auto

lemma find_entry_cong:
  "(\<And>i. i < entry_total s \<Longrightarrow> entries ! i = entries' ! i) \<Longrightarrow> geometry s n \<Longrightarrow>
     find_entry s entries p = find_entry s entries' p"
  unfolding find_entry_def by (rule find_cong) (auto simp: table_size_eq)

lemma free_entry_SomeD:
  assumes "geometry s n" and "free_entry s entries x = Some i"
  shows "i < entry_total s \<and> ze_used (entries ! i) = 0 \<and> word_of_nat i \<noteq> x"
  using assms(2) unfolding free_entry_def find_upt_Some table_size_eq [OF assms(1)] by auto

lemma free_not_visible: "ze_used e = 0 \<Longrightarrow> \<not> entry_visible e"
  by (simp add: entry_visible_def)

lemma not_visible_empty [simp]: "\<not> entry_visible empty_entry"
  by (simp add: entry_visible_def empty_entry_def)

section \<open>Recovery as a function on tables\<close>

definition clear_step :: "zfs_entry list \<Rightarrow> nat \<Rightarrow> zfs_entry list" where
  "clear_step es i =
     (if ze_used (es ! i) = 0 \<or> ze_type (es ! i) \<noteq> zfs_type_transaction then es else es[i := empty_entry])"

definition is_committed :: "zfs_entry \<Rightarrow> bool" where
  "is_committed e \<longleftrightarrow> ze_used e \<noteq> 0 \<and> ze_type e = zfs_type_file \<and> ze_flags e AND zfs_flag_committed \<noteq> 0"

definition drop_old :: "nat \<Rightarrow> zfs_entry list \<Rightarrow> nat \<Rightarrow> zfs_entry list" where
  "drop_old n es i =
     (let old = unat (ze_reserved (es ! i))
      in if old < n \<and> old \<noteq> i \<and> ze_used (es ! old) \<noteq> 0 then es[old := empty_entry] else es)"

definition commit_step :: "nat \<Rightarrow> zfs_entry list \<Rightarrow> nat \<Rightarrow> zfs_entry list" where
  "commit_step n es i =
     (if is_committed (es ! i) then (drop_old n es i)[i := finalized_entry (es ! i)] else es)"

definition recover_table :: "nat \<Rightarrow> zfs_entry list \<Rightarrow> zfs_entry list" where
  "recover_table n es = foldl (commit_step n) (foldl clear_step es [0..<n]) [0..<n]"

lemma foldl_fixed: "(\<And>i. i \<in> set is \<Longrightarrow> f x i = x) \<Longrightarrow> foldl f x is = x"
  by (induction "is") auto

lemma foldl_upt_single:
  assumes "g < n" and "\<And>i. i < g \<Longrightarrow> f x i = x" and "\<And>i. g < i \<Longrightarrow> i < n \<Longrightarrow> f (f x g) i = f x g"
  shows "foldl f x [0..<n] = f x g"
proof -
  have "[0..<n] = [0..<g] @ g # [Suc g..<n]"
    using assms(1) upt_add_eq_append [of 0 g "n - g"] by (simp add: upt_conv_Cons)
  moreover have "foldl f x [0..<g] = x" by (rule foldl_fixed) (use assms in simp)
  moreover have "foldl f (f x g) [Suc g..<n] = f x g" by (rule foldl_fixed) (use assms in simp)
  ultimately show ?thesis by simp
qed

lemma settled_clear: "entry_settled (es ! i) \<Longrightarrow> clear_step es i = es"
  by (auto simp: entry_settled_def clear_step_def)

lemma settled_commit: "entry_settled (es ! i) \<Longrightarrow> commit_step n es i = es"
  by (auto simp: entry_settled_def commit_step_def is_committed_def)

lemma settled_commits: "table_settled n es \<Longrightarrow> foldl (commit_step n) es [0..<n] = es"
  by (rule foldl_fixed) (simp add: settled_commit table_settled_def)

lemma recover_settled: "table_settled n es \<Longrightarrow> recover_table n es = es"
  using foldl_fixed [of "[0..<n]" clear_step es]
  by (simp add: recover_table_def settled_commits settled_clear table_settled_def)

lemma settled_empty [simp]: "entry_settled empty_entry"
  by (simp add: entry_settled_def empty_entry_def)

lemma table_settled_update:
  "table_settled n es \<Longrightarrow> entry_settled e \<Longrightarrow> i < length es \<Longrightarrow> table_settled n (es[i := e])"
  by (auto simp: table_settled_def nth_list_update)

lemma recover_transaction:
  assumes "table_settled n es" and "g < n" and "g < length es"
    and "ze_used t \<noteq> 0" and "ze_type t = zfs_type_transaction"
  shows "recover_table n (es[g := t]) = es[g := empty_entry]"
proof -
  have "foldl clear_step (es[g := t]) [0..<n] = clear_step (es[g := t]) g"
    using assms by (intro foldl_upt_single settled_clear)
      (auto simp: table_settled_def clear_step_def nth_list_update)
  also have "\<dots> = es[g := empty_entry]" using assms by (simp add: clear_step_def)
  finally have "foldl clear_step (es[g := t]) [0..<n] = es[g := empty_entry]" .
  moreover have "table_settled n (es[g := empty_entry])" using assms by (intro table_settled_update) auto
  ultimately show ?thesis unfolding recover_table_def by (simp add: settled_commits)
qed

lemma recover_committed:
  assumes "table_settled n es" and "g < n" and "n \<le> length es" and "is_committed c"
    and "entry_settled (finalized_entry c)"
  shows "recover_table n (es[g := c]) = (drop_old n (es[g := c]) g)[g := finalized_entry c]"
proof -
  let ?e = "es[g := c]"
  have rest: "entry_settled (?e ! i)" if "i < n" "i \<noteq> g" for i
    using assms(1) that by (simp add: table_settled_def)
  have "c = ?e ! g" using assms(2,3) by simp
  then have clear: "clear_step ?e i = ?e" if "i < n" for i
    using that rest [of i] assms(4)
    by (cases "i = g") (auto simp: clear_step_def is_committed_def entry_settled_def zfs_type_file_def zfs_type_transaction_def)
  have commit: "commit_step n ?e g = (drop_old n ?e g)[g := finalized_entry c]"
    using assms by (simp add: commit_step_def)
  have "table_settled n (commit_step n ?e g)"
    unfolding commit table_settled_def drop_old_def Let_def
    using assms(2,3,5) rest by (auto simp: nth_list_update)
  then have "foldl (commit_step n) ?e [0..<n] = commit_step n ?e g"
    using assms(2) rest by (intro foldl_upt_single settled_commit) (auto simp: table_settled_def)
  then show ?thesis
    using clear commit foldl_fixed [of "[0..<n]" clear_step ?e] by (simp add: recover_table_def)
qed

section \<open>The effect of publishing an entry\<close>

definition disk_table :: "zfs_superblock \<Rightarrow> bytes list \<Rightarrow> zfs_entry list" where
  "disk_table s d = map (disk_entry d) [0..<entry_total s]"

text \<open>What the next successful mount will show.\<close>

definition recovered_view :: "zfs_superblock \<Rightarrow> bytes list \<Rightarrow> string \<Rightarrow> node option" where
  "recovered_view s d = view s d (recover_table (entry_total s) (disk_table s d))"

lemma length_disk_table [simp]: "length (disk_table s d) = entry_total s"
  by (simp add: disk_table_def)

lemma disk_table_put:
  assumes "sectors_wf d" and "entry_wf e" and "geometry s (length d)" and "i < entry_total s"
  shows "disk_table s (put_entry d i e) = (disk_table s d)[i := e]"
  using disk_entry_put [OF assms(1,2) table_sector_bound(2) [OF assms(3,4)]]
  by (intro nth_equalityI) (auto simp: disk_table_def nth_list_update)

definition new_table :: "zfs_entry list \<Rightarrow> nat option \<Rightarrow> nat \<Rightarrow> zfs_entry \<Rightarrow> zfs_entry list" where
  "new_table es old g f = (case old of Some o' \<Rightarrow> es[o' := empty_entry] | None \<Rightarrow> es)[g := f]"

lemma length_new_table [simp]: "length (new_table es old g f) = length es"
  by (simp add: new_table_def split: option.splits)

lemma view_cong:
  assumes "geometry s n" and "\<And>i. i < entry_total s \<Longrightarrow> es ! i = es' ! i"
    and "\<And>i. i < entry_total s \<Longrightarrow> entry_visible (es ! i) \<Longrightarrow> slot_bytes s d i = slot_bytes s d' i"
  shows "view s d es q = view s d' es' q"
proof (cases "find_entry s es q")
  case None
  with find_entry_cong [OF assms(2,1), of q] show ?thesis by (simp add: view_def)
next
  case (Some i)
  then have "find_entry s es' q = Some i" using find_entry_cong [OF assms(2,1), of q] by simp
  with Some find_entry_SomeD [OF assms(1) Some] assms(2,3) [of i]
  show ?thesis by (simp add: view_def file_data_def)
qed

lemma view_invisible:
  assumes "geometry s n" and "paths_unique (entry_total s) es" and "g < entry_total s" "g < length es"
    and "\<not> entry_visible (es ! g)" and "\<not> entry_visible e"
    and "\<And>i. i < entry_total s \<Longrightarrow> i \<noteq> g \<Longrightarrow> slot_bytes s d' i = slot_bytes s d i"
  shows "view s d' (es[g := e]) q = view s d es q"
proof -
  have uniq: "paths_unique (entry_total s) (es[g := e])"
    using assms(2,4,6) by (auto simp: paths_unique_def nth_list_update)
  have "find_entry s (es[g := e]) q = find_entry s es q"
  proof (cases "find_entry s es q")
    case None
    then have "find_entry s (es[g := e]) q = None"
      using assms(4,6) unfolding find_entry_None [OF assms(1)] by (simp add: nth_list_update)
    with None show ?thesis by simp
  next
    case (Some i)
    then have "i \<noteq> g" using assms(5) find_entry_Some [OF assms(1,2)] by auto
    with find_entry_SomeD [OF assms(1) Some] have "find_entry s (es[g := e]) q = Some i"
      by (simp add: find_entry_Some [OF assms(1) uniq])
    with Some show ?thesis by simp
  qed
  moreover have "i \<noteq> g \<and> i < entry_total s" if "find_entry s es q = Some i" for i
    using find_entry_SomeD [OF assms(1) that] assms(5) by auto
  ultimately show ?thesis
    using assms(7) by (auto simp: view_def file_data_def split: option.splits)
qed

lemma view_published:
  assumes geo: "geometry s n" and uniq: "paths_unique (entry_total s) es" and g: "g < entry_total s"
    and len: "entry_total s \<le> length es" and free: "\<not> entry_visible (es ! g)"
    and old: "old = find_entry s es p"
    and f: "entry_visible f" "cstr (ze_path f) = p" "ze_type f = zfs_type_file"
    and slots: "\<And>i. i < entry_total s \<Longrightarrow> i \<noteq> g \<Longrightarrow> slot_bytes s d' i = slot_bytes s d i"
  shows "paths_unique (entry_total s) (new_table es old g f)"
    and "view s d' (new_table es old g f) = (view s d es)(p \<mapsto> File (file_data s d' g f))"
proof -
  let ?T = "new_table es old g f"
  have at: "?T ! i = (if i = g then f else if old = Some i then empty_entry else es ! i)"
    if "i < entry_total s" for i
    using that len by (auto simp: new_table_def nth_list_update split: option.splits)
  have other: "i = g" if "i < entry_total s" "entry_visible (?T ! i)" "cstr (ze_path (?T ! i)) = p" for i
  proof (rule ccontr)
    assume "i \<noteq> g"
    then have "old \<noteq> Some i" "entry_visible (es ! i)" "cstr (ze_path (es ! i)) = p"
      using that at [OF that(1)] by (auto split: if_splits)
    then show False using that(1) old find_entry_Some [OF geo uniq, of p i] by simp
  qed
  show uT: "paths_unique (entry_total s) ?T"
    unfolding paths_unique_def
  proof (intro allI impI, elim conjE)
    fix i j assume ij: "i < entry_total s" "j < entry_total s" "entry_visible (?T ! i)" "entry_visible (?T ! j)"
      "cstr (ze_path (?T ! i)) = cstr (ze_path (?T ! j))"
    show "i = j"
    proof (cases "cstr (ze_path (?T ! i)) = p")
      case True
      with ij other show ?thesis by metis
    next
      case False
      then have "i \<noteq> g" "j \<noteq> g" using f(2) at ij by auto
      with ij at have "entry_visible (es ! i)" "entry_visible (es ! j)"
        "cstr (ze_path (es ! i)) = cstr (ze_path (es ! j))" by (auto split: if_splits)
      with ij(1,2) uniq show ?thesis by (auto simp: paths_unique_def)
    qed
  qed
  have find: "find_entry s ?T q = (if q = p then Some g else find_entry s es q)" for q
  proof (cases "q = p")
    case True
    then show ?thesis using f at g by (simp add: find_entry_Some [OF geo uT])
  next
    case False
    show ?thesis
    proof (cases "find_entry s es q")
      case None
      then have "find_entry s ?T q = None"
        using False f(2) at unfolding find_entry_None [OF geo] by auto
      with None False show ?thesis by simp
    next
      case (Some i)
      then have i: "i < entry_total s" "entry_visible (es ! i)" "cstr (ze_path (es ! i)) = q"
        using find_entry_SomeD [OF geo Some] by auto
      then have "i \<noteq> g" using free by auto
      moreover have "old \<noteq> Some i" using i old False find_entry_SomeD [OF geo, of es p i] by auto
      ultimately show ?thesis using Some False i at by (simp add: find_entry_Some [OF geo uT])
    qed
  qed
  show "view s d' ?T = (view s d es)(p \<mapsto> File (file_data s d' g f))"
  proof
    fix q
    show "view s d' ?T q = ((view s d es)(p \<mapsto> File (file_data s d' g f))) q"
    proof (cases "q = p")
      case True
      then show ?thesis using find [of p] at [OF g] f(3) by (simp add: view_def)
    next
      case False
      show ?thesis
      proof (cases "find_entry s es q")
        case (Some i)
        then have i: "i < entry_total s" "entry_visible (es ! i)" "cstr (ze_path (es ! i)) = q"
          using find_entry_SomeD [OF geo Some] by auto
        then have "i \<noteq> g" using free by auto
        moreover have "old \<noteq> Some i" using i old False find_entry_SomeD [OF geo, of es p i] by auto
        ultimately show ?thesis
          using Some False find [of q] at [OF i(1)] slots [OF i(1)] by (simp add: view_def file_data_def)
      qed (use False find [of q] in \<open>simp add: view_def\<close>)
    qed
  qed
qed

section \<open>Operations over a driver\<close>

definition outside_slot :: "zfs_superblock \<Rightarrow> nat \<Rightarrow> bytes list \<Rightarrow> bytes list \<Rightarrow> bool" where
  "outside_slot s i d d' \<longleftrightarrow> length d' = length d \<and>
     (\<forall>k. (\<forall>j < slots s. k \<noteq> data_base s i + j) \<longrightarrow> d' ! k = d ! k)"


definition zfs_shape :: "bytes list \<Rightarrow> 's zfs \<Rightarrow> bool" where
  "zfs_shape d st \<longleftrightarrow>
     geometry (zf_super st) (length d) \<and> super_wf (zf_super st) \<and>
     length (zf_entries st) = zfs_max_entries \<and> (\<forall>e\<in>set (zf_entries st). entry_wf e) \<and>
     length (zf_sector_buffer st) = 512"

definition table_synced :: "bytes list \<Rightarrow> 's zfs \<Rightarrow> bool" where
  "table_synced d st \<longleftrightarrow> disk_table (zf_super st) d = take (entry_total (zf_super st)) (zf_entries st)"

text \<open>Metadata updates leave the superblock sector and every slot alone.\<close>

definition metadata_frame :: "zfs_superblock \<Rightarrow> bytes list \<Rightarrow> bytes list \<Rightarrow> bool" where
  "metadata_frame s d d' \<longleftrightarrow> length d' = length d \<and> d' ! 0 = d ! 0 \<and> (\<forall>j. slot_bytes s d' j = slot_bytes s d j)"

lemma metadata_frame_refl [simp]: "metadata_frame s d d"
  by (simp add: metadata_frame_def)

lemma metadata_frame_trans:
  "metadata_frame s a b \<Longrightarrow> metadata_frame s b c \<Longrightarrow> metadata_frame s a c"
  by (simp add: metadata_frame_def)

lemma metadata_frame_put:
  assumes "geometry s n" and "i < entry_total s"
  shows "metadata_frame s d (put_entry d i e)"
  using slot_bytes_put_entry [OF assms] table_sector_bound(3) [OF assms]
  by (simp add: metadata_frame_def put_entry_other)

lemma zfs_shape_entry:
  "zfs_shape d st \<Longrightarrow> i < entry_total (zf_super st) \<Longrightarrow>
     i < length (zf_entries st) \<and> entry_wf (zf_entries st ! i)"
  by (auto simp: zfs_shape_def geometry_def)

lemma set_list_update_wf:
  "\<forall>e\<in>set es. P e \<Longrightarrow> P x \<Longrightarrow> \<forall>e\<in>set (es[i := x]). P e"
  using set_update_subset_insert [of es i x] by blast

lemma length_slot_bytes:
  assumes "sectors_wf d" and "geometry s (length d)" and "i < entry_total s"
  shows "length (slot_bytes s d i) = slots s * 512"
proof -
  have "length (d ! (data_base s i + k)) = 512" if "k < slots s" for k
    using assms(1) data_base_bound(1) [OF assms(2,3) that] by (simp add: sectors_wf_def)
  then have "map (\<lambda>k. length (d ! (data_base s i + k))) [0..<slots s] = replicate (slots s) 512"
    by (intro nth_equalityI) auto
  then show ?thesis by (simp add: slot_bytes_def length_concat comp_def sum_list_replicate)
qed

lemma slot_bytes_sector:
  assumes "sectors_wf d" and "geometry s (length d)" and "i < entry_total s" and "k < slots s"
  shows "take 512 (drop (k * 512) (slot_bytes s d i)) = d ! (data_base s i + k)"
proof -
  have "length (d ! (data_base s i + j)) = 512" if "j < slots s" for j
    using assms(1) data_base_bound(1) [OF assms(2,3) that] by (simp add: sectors_wf_def)
  then show ?thesis
    using concat_uniform_nth [of "map (\<lambda>k. d ! (data_base s i + k)) [0..<slots s]" 512 k] assms(4)
    by (simp add: slot_bytes_def)
qed

lemma slot_bytes_prefix:
  assumes "sectors_wf d" and "sectors_wf d'" and "geometry s (length d)" and "length d' = length d"
    and "i < entry_total s" and "m \<le> slots s"
    and "\<And>k. k < m \<Longrightarrow> d' ! (data_base s i + k) = d ! (data_base s i + k)"
  shows "take (m * 512) (slot_bytes s d' i) = take (m * 512) (slot_bytes s d i)"
  using assms(6,7)
proof (induction m)
  case (Suc m)
  then have m: "m < slots s" by simp
  have "take 512 (drop (m * 512) (slot_bytes s d' i)) = take 512 (drop (m * 512) (slot_bytes s d i))"
    using slot_bytes_sector [OF assms(1,3,5) m] slot_bytes_sector [OF assms(2) _ assms(5) m] assms(3,4)
      Suc.prems(2) [of m] by simp
  with Suc show ?case by (simp add: add.commute [of 512] take_add)
qed simp

text \<open>The file system on a device that keeps the driver contract.\<close>

locale zenovfs_device = sector_driver rd wr inv abs
  for rd :: "'s read_sector_fn" and wr :: "'s write_sector_fn"
    and inv :: "'s \<Rightarrow> bool" and abs :: "'s \<Rightarrow> bytes list"
begin

abbreviation zdisk :: "'s zfs \<Rightarrow> bytes list" where
  "zdisk st \<equiv> disk (zf_storage st)"

definition zok :: "'s zfs \<Rightarrow> bool" where
  "zok st \<longleftrightarrow> storage_ok (zf_storage st) \<and> zfs_shape (zdisk st) st"

lemma disk_wf: "storage_ok g \<Longrightarrow> sectors_wf (disk g)"
  by (simp add: sectors_wf_def disk_sector)

text \<open>Two states that differ only in what a device request may change.\<close>

definition same_fs :: "'s zfs \<Rightarrow> 's zfs \<Rightarrow> bool" where
  "same_fs st st' \<longleftrightarrow> zf_super st' = zf_super st \<and> zf_current_directory st' = zf_current_directory st \<and>
     zf_file_buffer st' = zf_file_buffer st \<and> ata0 (zf_storage st') = ata0 (zf_storage st)"

lemma flush_entry:
  assumes ok: "zok st" and i: "i < entry_total (zf_super st)"
    and call: "flush_entry_result i op st = (r, st')"
  defines "d' \<equiv> put_entry (zdisk st) i (zf_entries st ! i)"
  shows "zok st' \<and> same_fs st st' \<and> zf_entries st' = zf_entries st \<and>
         (fs_ok r \<longrightarrow> zdisk st' = d' \<and> zf_mounted st' = zf_mounted st) \<and>
         (\<not> fs_ok r \<longrightarrow> \<not> zf_mounted st' \<and> (zdisk st' = zdisk st \<or> zdisk st' = d'))"
proof -
  let ?buf = "zf_sector_buffer st" and ?g = "zf_storage st"
  have st: "storage_ok ?g" "zfs_shape (zdisk st) st" using ok by (auto simp: zok_def)
  then have geo: "geometry (zf_super st) (length (zdisk st))" and buf: "length ?buf = 512"
    by (auto simp: zfs_shape_def)
  note tab = table_sector_bound [OF geo i]
  have wf: "entry_wf (zf_entries st ! i)" using zfs_shape_entry [OF st(2) i] by simp
  obtain read buffer g where rd: "zfs_read_sector (entry_sector i) ?buf ?g = (read, buffer, g)"
    by (metis prod_cases3)
  note rlaw = zfs_read [OF st(1) _ rd, unfolded buf]
  show ?thesis
  proof (cases "block_ok read")
    case False
    then have res: "r = fs_from_block op read 0"
        "st' = st\<lparr>zf_sector_buffer := buffer, zf_storage := g, zf_mounted := False\<rparr>"
      using call i rd by (auto simp: flush_entry_result_def zfs_block_failure_def entry_total_def)
    then show ?thesis using rlaw st False by (auto simp: zok_def zfs_shape_def same_fs_def)
  next
    case True
    define out where "out = blit (entry_slot_offset i) (encode_entry (zf_entries st ! i)) buffer"
    have buffer: "buffer = zdisk st ! table_sector i"
      using rlaw(5) True buf tab(4) by simp
    have out: "length out = 512" using entry_slot_fits [of i] rlaw(3) buf wf by (simp add: out_def)
    obtain w g' where wr: "zfs_write_sector (entry_sector i) out g = (w, g')" by fastforce
    have d': "d' = (disk g)[unat (entry_sector i) := take 512 out]"
      using rlaw(2) out tab(4) by (simp add: d'_def put_entry_def out_def buffer)
    note wlaw = zfs_write [OF rlaw(1) _ wr, unfolded out]
    have "st' = st\<lparr>zf_sector_buffer := out, zf_storage := g', zf_mounted := (block_ok w \<and> zf_mounted st)\<rparr>"
      "fs_ok r = block_ok w"
      using call i rd wr True
      by (auto simp: flush_entry_result_def zfs_block_failure_def entry_total_def out_def Let_def split: if_splits)
    then show ?thesis
      using wlaw st out rlaw(2,4) d'
      by (auto simp: zok_def zfs_shape_def same_fs_def)
  qed
qed

lemma replace_entry:
  assumes ok: "zok st" and i: "i < entry_total (zf_super st)" and wf: "entry_wf e"
    and call: "replace_entry_result i e op st = (r, st')"
  defines "d' \<equiv> put_entry (zdisk st) i e"
  shows "zok st'" "same_fs st st'"
    and "fs_ok r \<Longrightarrow> zf_entries st' = (zf_entries st)[i := e] \<and> zdisk st' = d' \<and> zf_mounted st' = zf_mounted st"
    and "\<not> fs_ok r \<Longrightarrow> zf_entries st' = zf_entries st \<and> \<not> zf_mounted st' \<and>
           (zdisk st' = zdisk st \<or> zdisk st' = d')"
proof -
  define st1 where "st1 = st\<lparr>zf_entries := (zf_entries st)[i := e]\<rparr>"
  obtain r1 st2 where flush: "flush_entry_result i op st1 = (r1, st2)" by fastforce
  have len: "i < length (zf_entries st)" using zfs_shape_entry [of "zdisk st", OF _ i] ok by (simp add: zok_def)
  have ok1: "zok st1"
    using ok wf set_list_update_wf [of "zf_entries st" entry_wf e i]
    by (auto simp: zok_def zfs_shape_def st1_def)
  have d': "put_entry (zdisk st1) i (zf_entries st1 ! i) = d'"
    using len by (simp add: d'_def st1_def)
  note law = flush_entry [OF ok1 _ flush, unfolded d']
  have res: "r = r1" "st' = (if fs_ok r1 then st2 else st2\<lparr>zf_entries := (zf_entries st2)[i := zf_entries st ! i]\<rparr>)"
    using call i flush by (auto simp: replace_entry_result_def entry_total_def st1_def Let_def split: if_splits)
  have law': "zok st2" "same_fs st st2" "zf_entries st2 = (zf_entries st)[i := e]"
    "fs_ok r \<Longrightarrow> zdisk st2 = d' \<and> zf_mounted st2 = zf_mounted st"
    "\<not> fs_ok r \<Longrightarrow> \<not> zf_mounted st2 \<and> (zdisk st2 = zdisk st \<or> zdisk st2 = d')"
    using law i res(1) by (auto simp: st1_def same_fs_def)
  have restored: "(zf_entries st2)[i := zf_entries st ! i] = zf_entries st" using law'(3) by simp
  show "zok st'"
  proof (cases "fs_ok r1")
    case False
    then have "st' = st2\<lparr>zf_entries := zf_entries st\<rparr>" using res restored by simp
    then show ?thesis using law'(1,2) ok by (auto simp: zok_def zfs_shape_def)
  qed (use law' res in simp)
  show "same_fs st st'" using law'(2) res by (auto simp: same_fs_def)
  show "fs_ok r \<Longrightarrow> zf_entries st' = (zf_entries st)[i := e] \<and> zdisk st' = d' \<and> zf_mounted st' = zf_mounted st"
    using law' res by auto
  show "\<not> fs_ok r \<Longrightarrow> zf_entries st' = zf_entries st \<and> \<not> zf_mounted st' \<and>
           (zdisk st' = zdisk st \<or> zdisk st' = d')"
    using law'(3,5) res restored by auto
qed

text \<open>The sector loop of a read copies the bytes of the slot.\<close>

lemma read_loop:
  assumes "zok st" and "i < entry_total (zf_super st)" and "base = data_sector (zf_super st) i"
    and "copied = sector * 512 \<or> copied = count" and "copied \<le> count" and "count \<le> slots (zf_super st) * 512"
    and "count \<le> length out" and "read_loop base sector copied count out st = (failed, out', st')"
  shows "zok st' \<and> same_fs st st' \<and> zf_entries st' = zf_entries st \<and> zdisk st' = zdisk st \<and>
         zf_mounted st' = zf_mounted st \<and> length out' = length out \<and>
         (case failed of
            None \<Rightarrow> out' = take copied out @
              take (count - copied) (drop copied (slot_bytes (zf_super st) (zdisk st) i)) @ drop count out
          | Some (r, c) \<Rightarrow> \<not> block_ok r \<and> c \<le> count)"
  using assms
proof (induction base sector copied count out st rule: read_loop.induct)
  case (1 base sector copied count out st)
  note prems = "1.prems"
  let ?s = "zf_super st" and ?d = "zdisk st" and ?buf = "zf_sector_buffer st"
  note unfold = read_loop.simps [of base sector copied count out st]
  show ?case
  proof (cases "copied < count")
    case False
    then show ?thesis using prems unfold by (auto simp: same_fs_def)
  next
    case True
    then have copied: "copied = sector * 512" using prems(4) by auto
    have sok: "storage_ok (zf_storage st)" and geo: "geometry ?s (length ?d)" and buf: "length ?buf = 512"
      using prems(1) by (auto simp: zok_def zfs_shape_def)
    have sector: "sector < slots ?s" using True copied prems(6) by linarith
    note at = data_base_bound [OF geo prems(2) sector]
    obtain read buffer g where rd: "zfs_read_sector (base + word_of_nat sector) ?buf (zf_storage st) = (read, buffer, g)"
      by (metis prod_cases3)
    note rlaw = zfs_read [OF sok _ rd, unfolded buf]
    define st1 where "st1 = st\<lparr>zf_sector_buffer := buffer, zf_storage := g\<rparr>"
    have st1: "zok st1" "same_fs st st1" "zf_entries st1 = zf_entries st" "zdisk st1 = ?d" "zf_super st1 = ?s"
        "zf_mounted st1 = zf_mounted st"
      using prems(1) rlaw by (auto simp: st1_def zok_def zfs_shape_def same_fs_def)
    show ?thesis
    proof (cases "block_ok read")
      case False
      then have "failed = Some (read, copied)" "out' = out" "st' = st1"
        using prems(8) True rd unfold by (auto simp: st1_def)
      then show ?thesis using st1 False prems(5) by simp
    next
      case ok: True
      define chunk where "chunk = (if count - copied > 512 then 512 else count - copied)"
      define out1 where "out1 = blit copied (take chunk buffer) out"
      have buffer: "buffer = take 512 (drop copied (slot_bytes ?s ?d i))"
        using rlaw(5) ok buf at(3) prems(3) slot_bytes_sector [OF disk_wf [OF sok] geo prems(2) sector]
        by (simp add: copied)
      have size: "length (slot_bytes ?s ?d i) = slots ?s * 512"
        by (rule length_slot_bytes [OF disk_wf [OF sok] geo prems(2)])
      have part: "take chunk buffer = take chunk (drop copied (slot_bytes ?s ?d i))" "length (take chunk buffer) = chunk"
        "copied + chunk \<le> count" "copied + chunk = (sector + 1) * 512 \<or> copied + chunk = count"
        using prems(6) size True by (auto simp: buffer chunk_def min_def copied)
      have len1: "length out1 = length out" using part prems(7) by (simp add: out1_def)
      have call: "read_loop base (sector + 1) (copied + chunk) count out1 st1 = (failed, out', st')"
        using prems(8) True rd ok unfold by (simp add: st1_def chunk_def out1_def Let_def)
      note IH = "1.IH" [OF True rd [symmetric] refl refl st1_def _ chunk_def, folded out1_def]
      have IH': "zok st' \<and> same_fs st1 st' \<and> zf_entries st' = zf_entries st1 \<and> zdisk st' = zdisk st1 \<and>
         zf_mounted st' = zf_mounted st1 \<and> length out' = length out1 \<and>
         (case failed of
            None \<Rightarrow> out' = take (copied + chunk) out1 @
              take (count - (copied + chunk)) (drop (copied + chunk) (slot_bytes (zf_super st1) (zdisk st1) i)) @
              drop count out1
          | Some (r, c) \<Rightarrow> \<not> block_ok r \<and> c \<le> count)"
        using IH ok st1 prems part len1 call by simp
      have "take (copied + chunk) out1 = take copied out @ take chunk (drop copied (slot_bytes ?s ?d i))"
        "drop count out1 = drop count out"
        using part prems(7) by (auto simp: out1_def blit_def)
      then have joined: "take (copied + chunk) out1 @ take (count - (copied + chunk)) (drop (copied + chunk) xs) @ drop count out1 =
          take copied out @ take (count - copied) (drop copied xs) @ drop count out"
        if "xs = slot_bytes ?s ?d i" for xs
        using that take_add [of chunk "count - (copied + chunk)" "drop copied xs"] part(3)
        by (simp add: add.commute)
      have same: "same_fs st st'" using IH' st1(2) by (simp add: same_fs_def)
      show ?thesis
      proof (cases failed)
        case None
        then have "out' = take (copied + chunk) out1 @
            take (count - (copied + chunk)) (drop (copied + chunk) (slot_bytes ?s ?d i)) @ drop count out1"
          using IH' st1(4,5) by simp
        then show ?thesis using None IH' same st1 len1 joined [OF refl] by simp
      next
        case (Some x)
        then show ?thesis using IH' same st1 len1 by simp
      qed
    qed
  qed
qed

text \<open>The sector loop of a write fills the slot and touches no sector outside it.\<close>

lemma write_loop:
  assumes "zok st" and "i < entry_total (zf_super st)" and "base = data_sector (zf_super st) i"
    and "written = sector * 512 \<or> written = total_bytes" and "written \<le> total_bytes"
    and "total_bytes \<le> slots (zf_super st) * 512" and "total_bytes \<le> length fb"
    and "write_loop base sector written total_bytes fb st = (failed, st')"
    and "take written (slot_bytes (zf_super st) (zdisk st) i) = take written fb"
  shows "zok st' \<and> same_fs st st' \<and> zf_entries st' = zf_entries st \<and> zf_mounted st' = zf_mounted st \<and>
         outside_slot (zf_super st) i (zdisk st) (zdisk st') \<and>
         (case failed of
            None \<Rightarrow> take total_bytes (slot_bytes (zf_super st) (zdisk st') i) = take total_bytes fb
          | Some (r, c) \<Rightarrow> \<not> block_ok r)"
  using assms
proof (induction base sector written total_bytes fb st rule: write_loop.induct)
  case (1 base sector written total_bytes fb st)
  note prems = "1.prems"
  let ?s = "zf_super st" and ?d = "zdisk st"
  note unfold = write_loop.simps [of base sector written total_bytes fb st]
  show ?case
  proof (cases "written < total_bytes")
    case False
    then have "failed = None" "st' = st" "written = total_bytes" using prems(5,8) unfold by simp_all
    then show ?thesis using prems(1,9) by (simp add: same_fs_def outside_slot_def)
  next
    case True
    then have written: "written = sector * 512" using prems(4) by auto
    have sok: "storage_ok (zf_storage st)" and geo: "geometry ?s (length ?d)"
      using prems(1) by (auto simp: zok_def zfs_shape_def)
    have sector: "sector < slots ?s" using True written prems(6) by linarith
    note at = data_base_bound [OF geo prems(2) sector]
    define chunk where "chunk = (if total_bytes - written > 512 then 512 else total_bytes - written)"
    define buffer where "buffer = blit 0 (take chunk (drop written fb)) (replicate 512 (0 :: byte))"
    have part: "chunk \<le> 512" "written + chunk \<le> total_bytes" "written + chunk = (sector + 1) * 512 \<or> written + chunk = total_bytes"
      using True by (auto simp: chunk_def written)
    have len: "length (take chunk (drop written fb)) = chunk" using part prems(7) by simp
    have buf: "length buffer = 512" "take chunk buffer = take chunk (drop written fb)"
      using part(1) len by (simp_all add: buffer_def blit_def)
    obtain w g where wr: "zfs_write_sector (base + word_of_nat sector) buffer (zf_storage st) = (w, g)"
      by fastforce
    note wlaw = zfs_write [OF sok _ wr, unfolded buf(1)]
    define st1 where "st1 = st\<lparr>zf_sector_buffer := buffer, zf_storage := g\<rparr>"
    have lba: "unat (base + word_of_nat sector) = data_base ?s i + sector" using at(3) prems(3) by simp
    have disk1: "zdisk st1 = ?d \<or> zdisk st1 = ?d[data_base ?s i + sector := buffer]"
      using wlaw(4) lba buf(1) by (simp add: st1_def)
    then have len1: "length (zdisk st1) = length ?d" by auto
    have st1: "zok st1" "same_fs st st1" "zf_entries st1 = zf_entries st" "zf_super st1 = ?s"
        "zf_mounted st1 = zf_mounted st"
      using prems(1) wlaw buf(1) len1 by (auto simp: st1_def zok_def zfs_shape_def same_fs_def)
    have out1: "outside_slot ?s i ?d (zdisk st1)"
      using disk1 sector by (auto simp: outside_slot_def)
    show ?thesis
    proof (cases "block_ok w")
      case False
      then have "failed = Some (w, written)" "st' = st1"
        using prems(8) True wr unfold by (simp_all add: Let_def chunk_def buffer_def st1_def)
      then show ?thesis using st1 out1 False by simp
    next
      case ok: True
      have call: "write_loop base (sector + 1) (written + chunk) total_bytes fb st1 = (failed, st')"
        using prems(8) True wr ok unfold by (simp add: Let_def chunk_def buffer_def st1_def)
      have d1: "zdisk st1 = ?d[data_base ?s i + sector := buffer]"
        using wlaw(3) ok lba buf(1) by (simp add: st1_def)
      have wf1: "sectors_wf (zdisk st1)" "geometry ?s (length (zdisk st1))"
        using st1(1,4) by (auto simp: zok_def zfs_shape_def intro: disk_wf)
      have below: "take written (slot_bytes ?s (zdisk st1) i) = take written (slot_bytes ?s ?d i)"
        unfolding written
        by (rule slot_bytes_prefix) (use sector at d1 wf1 disk_wf [OF sok] geo prems(2) in auto)
      have "drop written (slot_bytes ?s (zdisk st1) i) = buffer @ drop (written + 512) (slot_bytes ?s (zdisk st1) i)"
        using slot_bytes_sector [OF wf1 prems(2) sector] at(1) d1
          append_take_drop_id [of 512 "drop written (slot_bytes ?s (zdisk st1) i)"]
        by (simp add: written add.commute)
      then have "take chunk (drop written (slot_bytes ?s (zdisk st1) i)) = take chunk (drop written fb)"
        using part(1) buf by simp
      then have taken: "take (written + chunk) (slot_bytes ?s (zdisk st1) i) = take (written + chunk) fb"
        using below prems(9) by (simp add: take_add)
      note IH = "1.IH" [OF True chunk_def buffer_def wr [symmetric] refl st1_def]
      have IH': "zok st' \<and> same_fs st1 st' \<and> zf_entries st' = zf_entries st1 \<and> zf_mounted st' = zf_mounted st1 \<and>
         outside_slot (zf_super st1) i (zdisk st1) (zdisk st') \<and>
         (case failed of
            None \<Rightarrow> take total_bytes (slot_bytes (zf_super st1) (zdisk st') i) = take total_bytes fb
          | Some (r, c) \<Rightarrow> \<not> block_ok r)"
        using IH ok st1 prems part taken call by simp
      then show ?thesis using st1 out1 unfolding st1(4) by (auto simp: same_fs_def outside_slot_def)
    qed
  qed
qed

text \<open>One metadata update, on the table of the disk.\<close>

lemma replace_step:
  assumes ok: "zok st" and i: "i < entry_total (zf_super st)" and wf: "entry_wf e"
    and call: "replace_entry_result i e op st = (r, st')"
  defines "s \<equiv> zf_super st"
  shows "zok st'" and "same_fs st st'"
    and "metadata_frame s (zdisk st) (zdisk st')"
    and "fs_ok r \<Longrightarrow> zf_entries st' = (zf_entries st)[i := e] \<and> zf_mounted st' = zf_mounted st \<and>
           disk_table s (zdisk st') = (disk_table s (zdisk st))[i := e]"
    and "\<not> fs_ok r \<Longrightarrow> zf_entries st' = zf_entries st \<and> \<not> zf_mounted st' \<and>
           disk_table s (zdisk st') \<in> {disk_table s (zdisk st), (disk_table s (zdisk st))[i := e]}"
proof -
  note law = replace_entry [OF ok i wf call]
  have geo: "geometry s (length (zdisk st))" and sok: "storage_ok (zf_storage st)"
    using ok by (auto simp: zok_def zfs_shape_def s_def)
  note tab = disk_table_put [OF disk_wf [OF sok] wf geo i [folded s_def]]
  note dat = metadata_frame_put [OF geo i [folded s_def]]
  show "zok st'" "same_fs st st'" by (rule law)+
  show "metadata_frame s (zdisk st) (zdisk st')"
    using law(3,4) dat by (cases "fs_ok r") auto
  show "fs_ok r \<Longrightarrow> zf_entries st' = (zf_entries st)[i := e] \<and> zf_mounted st' = zf_mounted st \<and>
           disk_table s (zdisk st') = (disk_table s (zdisk st))[i := e]"
    using law(3) tab by simp
  show "\<not> fs_ok r \<Longrightarrow> zf_entries st' = zf_entries st \<and> \<not> zf_mounted st' \<and>
           disk_table s (zdisk st') \<in> {disk_table s (zdisk st), (disk_table s (zdisk st))[i := e]}"
    using law(4) tab by auto
qed

end

text \<open>The recovery of the intermediate tables of a publication.\<close>

lemma recover_publication:
  assumes settled: "table_settled n es" and len: "length es = n" "n \<le> zfs_max_entries" and g: "g < n"
    and stage: "ze_used stage \<noteq> 0" "ze_type stage = zfs_type_transaction" "ze_reserved stage = old_word old"
      "ze_flags stage = 0"
    and old: "\<forall>o'\<in>set_option old. o' < n \<and> o' \<noteq> g \<and> ze_used (es ! o') \<noteq> 0"
  defines "c \<equiv> stage\<lparr>ze_type := zfs_type_file, ze_flags := zfs_flag_committed\<rparr>"
  defines "f \<equiv> stage\<lparr>ze_type := zfs_type_file, ze_flags := 0, ze_reserved := 0\<rparr>"
  defines "cleared \<equiv> (case old of Some o' \<Rightarrow> es[o' := empty_entry] | None \<Rightarrow> es)"
  shows "recover_table n (es[g := stage]) = es[g := empty_entry]"
    and "recover_table n (es[g := c]) = new_table es old g f"
    and "recover_table n (cleared[g := c]) = new_table es old g f"
    and "recover_table n (new_table es old g f) = new_table es old g f"
    and "table_settled n (new_table es old g f)"
proof -
  have fin: "finalized_entry c = f" "entry_settled f" "is_committed c"
    using stage by (simp_all add: finalized_entry_def c_def f_def zfs_flag_committed_def entry_settled_def
        zfs_type_file_def zfs_type_transaction_def is_committed_def)
  have res: "ze_reserved c = old_word old" by (simp add: c_def stage)
  have word: "unat (old_word (Some o')) = o'" if "o' < n" for o'
    using that len by (simp add: old_word_def zfs_max_entries_def unat_of_nat_nowrap)
  have none: "\<not> unat (old_word None) < n" using len by (simp add: old_word_def transaction_none_def zfs_max_entries_def)
  show "recover_table n (es[g := stage]) = es[g := empty_entry]"
    using settled g len stage by (intro recover_transaction) auto
  have drop1: "(drop_old n (es[g := c]) g)[g := f] = new_table es old g f"
    using old g len word none
    by (cases old) (auto simp: drop_old_def res new_table_def list_update_swap Let_def)
  then show "recover_table n (es[g := c]) = new_table es old g f"
    using recover_committed [OF settled g _ fin(3)] fin len by simp
  have settled': "table_settled n cleared"
    using settled old len by (auto simp: cleared_def intro!: table_settled_update split: option.splits)
  have "length cleared = n" using len by (simp add: cleared_def split: option.splits)
  moreover have "(drop_old n (cleared[g := c]) g)[g := f] = new_table es old g f"
    using old g len word none
    by (cases old) (auto simp: cleared_def drop_old_def res new_table_def Let_def empty_entry_def)
  ultimately show "recover_table n (cleared[g := c]) = new_table es old g f"
    using recover_committed [OF settled' g _ fin(3)] fin by simp
  show final: "table_settled n (new_table es old g f)"
    using table_settled_update [OF settled' fin(2), of g] g len
    by (simp add: new_table_def cleared_def split: option.splits)
  then show "recover_table n (new_table es old g f) = new_table es old g f"
    by (rule recover_settled)
qed

lemma recover_clear_Inl: "recover_clear is k st = (Inl r, st') \<Longrightarrow> \<not> fs_ok r"
  by (induction "is" arbitrary: k st) (auto simp: Let_def split: if_splits prod.splits)

lemma recover_commit_Inl: "recover_commit is k st = (Inl r, st') \<Longrightarrow> \<not> fs_ok r"
  by (induction "is" arbitrary: k st) (auto simp: Let_def split: if_splits prod.splits)

context zenovfs_device
begin

lemma same_fs_super: "same_fs st st' \<Longrightarrow> zf_super st' = zf_super st"
  by (simp add: same_fs_def)

lemma same_fs_trans: "same_fs a b \<Longrightarrow> same_fs b c \<Longrightarrow> same_fs a c"
  by (simp add: same_fs_def)

lemma publish_entry_recovers:
  fixes st :: "'s zfs"
  defines "s \<equiv> zf_super st"
  defines "t \<equiv> disk_table s (zdisk st)"
  assumes ok: "zok st" and settled: "table_settled (entry_total s) t" and g: "g < entry_total s"
    and stage: "ze_used stage \<noteq> 0" "ze_type stage = zfs_type_transaction" "ze_reserved stage = old_word old"
      "ze_flags stage = 0" "entry_wf stage"
    and old: "\<forall>o'\<in>set_option old. o' < entry_total s \<and> o' \<noteq> g \<and> ze_used (t ! o') \<noteq> 0"
    and call: "publish_entry old g total_bytes stage st = (r, st')"
  defines "f \<equiv> stage\<lparr>ze_type := zfs_type_file, ze_flags := 0, ze_reserved := 0\<rparr>"
  shows "zok st'" and "same_fs st st'"
    and "metadata_frame s (zdisk st) (zdisk st')"
    and "recover_table (entry_total s) (disk_table s (zdisk st')) \<in> {t, t[g := empty_entry], new_table t old g f}"
    and "fs_ok r \<Longrightarrow> recover_table (entry_total s) (disk_table s (zdisk st')) = new_table t old g f"
    and "fs_durable r \<Longrightarrow> zf_entries st' = new_table (zf_entries st) old g f \<and> zf_mounted st' = zf_mounted st \<and>
           disk_table s (zdisk st') = new_table t old g f"
proof -
  let ?N = "entry_total s"
  define c where "c = stage\<lparr>ze_type := zfs_type_file, ze_flags := zfs_flag_committed\<rparr>"
  define cleared where "cleared = (case old of Some o' \<Rightarrow> t[o' := empty_entry] | None \<Rightarrow> t)"
  have N: "length t = ?N" "?N \<le> zfs_max_entries"
    using ok by (auto simp: t_def zok_def zfs_shape_def geometry_def s_def)
  note rec = recover_publication [OF settled N g stage(1-4) old, folded c_def f_def cleared_def]
  have wf: "entry_wf c" "entry_wf f" using stage(5) by (simp_all add: c_def f_def entry_wf_def)
  have gs: "g < entry_total (zf_super st)" using g by (simp add: s_def)
  obtain m1 st1 where c1: "replace_entry_result g stage FopWrite st = (m1, st1)" by fastforce
  note s1 = replace_step [OF ok gs stage(5) c1, folded s_def, folded t_def]
  have sup1: "zf_super st1 = s" using s1(2) by (simp add: same_fs_def s_def)
  obtain m2 st2 where c2: "replace_entry_result g c FopWrite st1 = (m2, st2)" by fastforce
  note s2 = replace_step [OF s1(1) _ wf(1) c2, unfolded sup1, OF g]
  have sup2: "zf_super st2 = s" using s2(2) sup1 by (simp add: same_fs_def)
  obtain m3 st3 where c3: "(case old of Some o' \<Rightarrow> replace_entry_result o' empty_entry FopWrite st2
      | None \<Rightarrow> (fs_success FopWrite 0, st2)) = (m3, st3)" by fastforce
  obtain m4 st4 where c4: "replace_entry_result g f FopWrite st3 = (m4, st4)" by fastforce
  have res: "(r, st') =
      (if \<not> fs_ok m1 then (m1, st1) else if \<not> fs_ok m2 then (m2, st2)
       else if \<not> fs_ok m3 then (fs_recovery_pending FopWrite (word_of_nat total_bytes) (fs_block m3), st3)
       else if \<not> fs_ok m4 then (fs_recovery_pending FopWrite (word_of_nat total_bytes) (fs_block m4), st4)
       else (fs_success FopWrite (word_of_nat total_bytes), st4))"
    using call c1 c2 c3 c4 by (simp add: publish_entry_def c_def f_def Let_def cong: if_cong)
  have t1: "fs_ok m1 \<Longrightarrow> disk_table s (zdisk st1) = t[g := stage]" using s1(4) by simp
  have t2: "fs_ok m1 \<Longrightarrow> fs_ok m2 \<Longrightarrow> disk_table s (zdisk st2) = t[g := c]" using s2(4) t1 by simp
  have three: "zok st3 \<and> same_fs st2 st3 \<and> metadata_frame s (zdisk st2) (zdisk st3) \<and>
      (fs_ok m3 \<longrightarrow> zf_mounted st3 = zf_mounted st2 \<and>
         zf_entries st3 = (case old of Some o' \<Rightarrow> (zf_entries st2)[o' := empty_entry] | None \<Rightarrow> zf_entries st2)) \<and>
      (fs_ok m1 \<and> fs_ok m2 \<longrightarrow> (if fs_ok m3 then disk_table s (zdisk st3) = cleared[g := c]
         else disk_table s (zdisk st3) \<in> {t[g := c], cleared[g := c]}))"
  proof (cases old)
    case None
    then show ?thesis using c3 s2(1) t2 by (auto simp: same_fs_def cleared_def)
  next
    case (Some o')
    with old have o': "o' < ?N" "o' \<noteq> g" by auto
    have call3: "replace_entry_result o' empty_entry FopWrite st2 = (m3, st3)" using c3 Some by simp
    note s3 = replace_step [OF s2(1) _ entry_wf_empty call3, unfolded sup2, OF o'(1)]
    then show ?thesis using Some t2 o'(2) by (auto simp: cleared_def list_update_swap)
  qed
  then have sup3: "zf_super st3 = s" using sup2 by (simp add: same_fs_def)
  note s4 = replace_step [OF conjunct1 [OF three] _ wf(2) c4, unfolded sup3, OF g]
  have t4: "cleared[g := c, g := f] = new_table t old g f"
    by (simp add: cleared_def new_table_def split: option.splits)
  show "zok st'" using res s1(1) s2(1) three s4(1) by (auto split: if_splits)
  have chain: "same_fs st st1" "same_fs st st2" "same_fs st st3" "same_fs st st4"
    using s1(2) s2(2) three s4(2) by (meson same_fs_trans)+
  then show "same_fs st st'" using res by (auto split: if_splits)
  have "metadata_frame s (zdisk st) (zdisk st1)" "metadata_frame s (zdisk st) (zdisk st2)"
    "metadata_frame s (zdisk st) (zdisk st3)" "metadata_frame s (zdisk st) (zdisk st4)"
    using s1(3) s2(3) three s4(3) by (meson metadata_frame_trans)+
  then show "metadata_frame s (zdisk st) (zdisk st')" using res by (auto split: if_splits)
  have self: "recover_table ?N t = t" by (rule recover_settled [OF settled])
  have ended: "recover_table ?N (disk_table s (zdisk st')) \<in>
      (if fs_ok r then {new_table t old g f} else {t, t[g := empty_entry], new_table t old g f})"
  proof -
    consider "\<not> fs_ok m1" | "fs_ok m1" "\<not> fs_ok m2" | "fs_ok m1" "fs_ok m2" "\<not> fs_ok m3"
      | "fs_ok m1" "fs_ok m2" "fs_ok m3" by blast
    then show ?thesis
    proof cases
      case 1
      then show ?thesis using res s1(5) self rec(1) by auto
    next
      case 2
      then show ?thesis using res s2(5) t1 rec(1,2) by auto
    next
      case 3
      then show ?thesis using res three rec(2,3) by auto
    next
      case 4
      then have "disk_table s (zdisk st4) \<in> {cleared[g := c], new_table t old g f}"
        using s4(4,5) three t4 by (cases "fs_ok m4") auto
      moreover have "fs_ok r" "st' = st4" using 4 res by (auto split: if_splits)
      ultimately show ?thesis using rec(3,4) by auto
    qed
  qed
  then show "recover_table ?N (disk_table s (zdisk st')) \<in> {t, t[g := empty_entry], new_table t old g f}"
    by (auto split: if_splits)
  show "fs_ok r \<Longrightarrow> recover_table ?N (disk_table s (zdisk st')) = new_table t old g f"
    using ended by simp
  assume durable: "fs_durable r"
  then have oks: "fs_ok m1" "fs_ok m2" "fs_ok m3" "fs_ok m4" "st' = st4"
    using res by (auto simp: fs_ok_def fs_durable_def split: if_splits)
  have "zf_entries st4 = new_table (zf_entries st) old g f"
    using s1(4) s2(4) three s4(4) oks old
    by (auto simp: new_table_def list_update_swap split: option.splits)
  then show "zf_entries st' = new_table (zf_entries st) old g f \<and> zf_mounted st' = zf_mounted st \<and>
           disk_table s (zdisk st') = new_table t old g f"
    using s1(4) s2(4) three s4(4) oks t4 by auto
qed

lemma take_synced_update:
  "table_synced d st \<Longrightarrow> i < entry_total (zf_super st) \<Longrightarrow>
     (disk_table (zf_super st) d)[i := e] = take (entry_total (zf_super st)) ((zf_entries st)[i := e])"
  by (simp add: table_synced_def take_update_swap)

text \<open>A recovery that succeeds computes \<open>recover_table\<close> in memory and on the disk.\<close>

definition table_moved :: "'s zfs \<Rightarrow> zfs_entry list \<Rightarrow> 's zfs \<Rightarrow> bool" where
  "table_moved st es st' \<longleftrightarrow> zok st' \<and> same_fs st st' \<and> zf_entries st' = es \<and> zf_mounted st' = zf_mounted st \<and>
     metadata_frame (zf_super st) (zdisk st) (zdisk st') \<and>
     (table_synced (zdisk st) st \<longrightarrow> table_synced (zdisk st') st')"

lemma table_moved_trans: "table_moved a es b \<Longrightarrow> table_moved b es' c \<Longrightarrow> table_moved a es' c"
  unfolding table_moved_def by (auto simp: same_fs_def intro: metadata_frame_trans)

lemma table_moved_replace:
  assumes "zok st" and "i < entry_total (zf_super st)" and "entry_wf e"
    and "replace_entry_result i e op st = (r, st')" and "fs_ok r"
  shows "table_moved st ((zf_entries st)[i := e]) st'"
  using replace_step [OF assms(1-4)] assms(5) take_synced_update [of "zdisk st" st i e] assms(2)
  by (auto simp: table_moved_def same_fs_def table_synced_def)

lemma recover_clear_spec:
  assumes "zok st" and "set is \<subseteq> {..<entry_total (zf_super st)}" and "recover_clear is k st = (Inr k', st')"
  shows "table_moved st (foldl clear_step (zf_entries st) is) st'"
  using assms
proof (induction "is" arbitrary: st k)
  case Nil
  then show ?case by (simp add: table_moved_def same_fs_def)
next
  case (Cons i "is")
  let ?e = "zf_entries st ! i"
  show ?case
  proof (cases "ze_used ?e = 0 \<or> ze_type ?e \<noteq> zfs_type_transaction")
    case True
    then show ?thesis using Cons by (simp add: clear_step_def)
  next
    case False
    obtain r st1 where call: "replace_entry_result i empty_entry FopRecover st = (r, st1)" by fastforce
    with Cons.prems(3) False have ok: "fs_ok r" and rest: "recover_clear is (k + 1) st1 = (Inr k', st')"
      by (auto simp: Let_def split: if_splits)
    have moved: "table_moved st ((zf_entries st)[i := empty_entry]) st1"
      using Cons.prems(1,2) by (intro table_moved_replace [OF _ _ entry_wf_empty call ok]) auto
    have "table_moved st1 (foldl clear_step (zf_entries st1) is) st'"
      using Cons.prems(2) moved by (intro Cons.IH [OF _ _ rest]) (auto simp: table_moved_def same_fs_def)
    moreover have "zf_entries st1 = clear_step (zf_entries st) i"
      using moved False by (simp add: table_moved_def clear_step_def)
    ultimately show ?thesis using table_moved_trans [OF moved] by simp
  qed
qed

lemma entry_wf_finalized [simp]: "entry_wf (finalized_entry e) = entry_wf e"
  by (simp add: entry_wf_def finalized_entry_def)

lemma recover_commit_spec:
  assumes "zok st" and "set is \<subseteq> {..<entry_total (zf_super st)}" and "recover_commit is k st = (Inr k', st')"
  shows "table_moved st (foldl (commit_step (entry_total (zf_super st))) (zf_entries st) is) st'"
  using assms
proof (induction "is" arbitrary: st k)
  case Nil
  then show ?case by (simp add: table_moved_def same_fs_def)
next
  case (Cons i "is")
  let ?e = "zf_entries st ! i" and ?N = "entry_total (zf_super st)"
  have i: "i < ?N" using Cons.prems(2) by simp
  show ?case
  proof (cases "is_committed ?e")
    case False
    then show ?thesis using Cons by (auto simp: commit_step_def is_committed_def)
  next
    case True
    let ?old = "unat (ze_reserved ?e)"
    let ?cond = "?old < ?N \<and> ?old \<noteq> i \<and> ze_used (zf_entries st ! ?old) \<noteq> 0"
    obtain r1 st1 where c1: "(if ?cond then replace_entry_result ?old empty_entry FopRecover st
        else (fs_success FopRecover 0, st)) = (r1, st1)" by fastforce
    obtain r2 st2 where c2: "replace_entry_result i (finalized_entry ?e) FopRecover st1 = (r2, st2)" by fastforce
    have "recover_commit (i # is) k st = (if \<not> fs_ok r1 then (Inl r1, st1)
        else if \<not> fs_ok r2 then (Inl r2, st2) else recover_commit is (k + 1) st2)"
      using True c1 c2
      by (simp add: is_committed_def Let_def word_less_nat_alt entry_total_def [symmetric] cong: if_cong)
    with Cons.prems(3) have ok: "fs_ok r1" "fs_ok r2" and rest: "recover_commit is (k + 1) st2 = (Inr k', st')"
      by (auto split: if_splits)
    have m1: "table_moved st (drop_old ?N (zf_entries st) i) st1"
    proof (cases ?cond)
      case True
      then show ?thesis
        using c1 ok(1) Cons.prems(1) table_moved_replace [OF _ _ entry_wf_empty, of st ?old FopRecover r1 st1]
        by (simp add: drop_old_def)
    next
      case False
      then show ?thesis
        using c1 Cons.prems(1) by (auto simp: drop_old_def Let_def table_moved_def same_fs_def)
    qed
    have sup1: "zf_super st1 = zf_super st" and ok1: "zok st1" and e1: "zf_entries st1 = drop_old ?N (zf_entries st) i"
      using m1 by (auto simp: table_moved_def same_fs_def)
    have wf: "entry_wf ?e" using zfs_shape_entry [of "zdisk st", OF _ i] Cons.prems(1) by (simp add: zok_def)
    have m2: "table_moved st1 ((zf_entries st1)[i := finalized_entry ?e]) st2"
      using i wf sup1 by (intro table_moved_replace [OF ok1 _ _ c2 ok(2)]) auto
    then have moved: "table_moved st (commit_step ?N (zf_entries st) i) st2"
      using table_moved_trans [OF m1] True by (simp add: e1 commit_step_def)
    then have "table_moved st2 (foldl (commit_step (entry_total (zf_super st2))) (zf_entries st2) is) st'"
      using Cons.prems(2) by (intro Cons.IH [OF _ _ rest]) (auto simp: table_moved_def same_fs_def)
    moreover have "zf_super st2 = zf_super st" "zf_entries st2 = commit_step ?N (zf_entries st) i"
      using moved by (auto simp: table_moved_def same_fs_def)
    ultimately show ?thesis using table_moved_trans [OF moved] by simp
  qed
qed

lemma recover_transactions_spec:
  assumes "zok st" and "recover_transactions_result st = (r, st')" and "fs_ok r"
  shows "table_moved st (recover_table (entry_total (zf_super st)) (zf_entries st)) st'"
proof -
  let ?is = "[0..<entry_total (zf_super st)]"
  obtain x st1 where c1: "recover_clear ?is 0 st = (x, st1)" by fastforce
  obtain k where x: "x = Inr k"
  proof (cases x)
    case (Inl q)
    have "\<not> fs_ok q" using c1 unfolding Inl
      by (rule recover_clear_Inl)
    with Inl c1 assms(2,3) show ?thesis by (auto simp: recover_transactions_result_def entry_total_def)
  qed
  obtain y st2 where c2: "recover_commit ?is k st1 = (y, st2)" by fastforce
  obtain k' where y: "y = Inr k'"
  proof (cases y)
    case (Inl q)
    have "\<not> fs_ok q" using c2 unfolding Inl
      by (rule recover_commit_Inl)
    with Inl x c1 c2 assms(2,3) show ?thesis by (auto simp: recover_transactions_result_def entry_total_def)
  qed
  have st': "st' = st2" using assms(2) c1 c2 x y by (simp add: recover_transactions_result_def entry_total_def)
  have m1: "table_moved st (foldl clear_step (zf_entries st) ?is) st1"
    using c1 x assms(1) by (intro recover_clear_spec) auto
  then have "table_moved st1 (foldl (commit_step (entry_total (zf_super st1))) (zf_entries st1) ?is) st2"
    using c2 y by (intro recover_commit_spec) (auto simp: table_moved_def same_fs_def)
  moreover have "zf_super st1 = zf_super st" "zf_entries st1 = foldl clear_step (zf_entries st) ?is"
    using m1 by (auto simp: table_moved_def same_fs_def)
  ultimately show ?thesis using table_moved_trans [OF m1] st' by (simp add: recover_table_def)
qed

text \<open>Loading the table.\<close>

lemma load_sectors_spec:
  assumes "storage_ok g" and "(sector + count) * 512 \<le> length raw" and "sector + count < 2 ^ 31"
    and "load_sectors count sector raw g = (failed, raw', g')"
  shows "storage_ok g' \<and> disk g' = disk g \<and> ata0 g' = ata0 g \<and> length raw' = length raw \<and>
         (\<forall>r. failed = Some r \<longrightarrow> \<not> block_ok r) \<and>
         (failed = None \<longrightarrow> raw' = take (sector * 512) raw @
            concat (map (\<lambda>k. disk g ! (1 + sector + k)) [0..<count]) @ drop ((sector + count) * 512) raw)"
  using assms
proof (induction count arbitrary: sector raw g)
  case 0
  then show ?case by simp
next
  case (Suc count)
  let ?buf = "drop (sector * 512) raw"
  obtain r out g1 where call: "zfs_read_sector (1 + word_of_nat sector) ?buf g = (r, out, g1)"
    by (metis prod_cases3)
  have buf: "512 \<le> length ?buf" using Suc.prems(2) by simp
  note law = zfs_read [OF Suc.prems(1) buf call]
  let ?raw = "take (sector * 512) raw @ out"
  have len: "length ?raw = length raw" using law(3) Suc.prems(2) by simp
  show ?case
  proof (cases "block_ok r")
    case False
    then show ?thesis using Suc.prems(4) call law(1,2,4) len by auto
  next
    case True
    have lba: "unat (1 + word_of_nat sector :: u32) = 1 + sector"
      using Suc.prems(3) by (subst unat_add_nowrap) (simp_all add: unat_of_nat_nowrap)
    have out: "out = disk g ! (1 + sector) @ drop ((sector + 1) * 512) raw"
      using law(5) True lba by (simp add: add.commute)
    have rest: "load_sectors count (sector + 1) ?raw g1 = (failed, raw', g')"
      using Suc.prems(4) call True by simp
    have IH: "storage_ok g' \<and> disk g' = disk g1 \<and> ata0 g' = ata0 g1 \<and> length raw' = length ?raw \<and>
         (\<forall>r. failed = Some r \<longrightarrow> \<not> block_ok r) \<and>
         (failed = None \<longrightarrow> raw' = take ((sector + 1) * 512) ?raw @
            concat (map (\<lambda>k. disk g1 ! (1 + (sector + 1) + k)) [0..<count]) @ drop ((sector + 1 + count) * 512) ?raw)"
      using Suc.prems(2,3) law(1) len rest by (intro Suc.IH) auto
    have sec: "length (disk g ! (1 + sector)) = 512"
      using disk_sector [OF Suc.prems(1)] law(5) True lba by simp
    have t1: "take ((sector + 1) * 512) ?raw = take (sector * 512) raw @ disk g ! (1 + sector)"
      using Suc.prems(2) sec by (simp add: out)
    have t2: "drop ((sector + 1 + count) * 512) ?raw = drop ((sector + Suc count) * 512) raw"
      using Suc.prems(2) sec by (simp add: out add_ac)
    have t3: "map (\<lambda>k. disk g ! (1 + sector + k)) [0..<Suc count] =
        disk g ! (1 + sector) # map (\<lambda>k. disk g ! (1 + (sector + 1) + k)) [0..<count]"
      by (simp only: map_upt_Suc) simp
    show ?thesis using IH law(2,4) len unfolding t1 t2 t3 by (auto simp: t3 simp del: upt_Suc)
  qed
qed

lemma decode_entries_disk:
  assumes "raw = concat (map (\<lambda>k. d ! (1 + k)) [0..<es]) @ rest" and "\<And>k. k < es \<Longrightarrow> length (d ! (1 + k)) = 512"
    and "i div 8 < es" and "i < zfs_max_entries"
  shows "decode_entries raw ! i = disk_entry d i"
proof -
  let ?c = "concat (map (\<lambda>k. d ! (1 + k)) [0..<es])"
  have "take 512 (drop (i div 8 * 512) ?c) = d ! (1 + i div 8)"
    using concat_uniform_nth [of "map (\<lambda>k. d ! (1 + k)) [0..<es]" 512 "i div 8"] assms(2,3) by simp
  moreover have "i div 8 * 512 + 512 \<le> length ?c"
  proof -
    have "length ?c = es * 512"
      using assms(2) length_concat_uniform [of "map (\<lambda>k. d ! (1 + k)) [0..<es]" 512] by simp
    moreover have "(i div 8 + 1) * 512 \<le> es * 512" using assms(3) by (intro mult_le_mono1) simp
    ultimately show ?thesis by simp
  qed
  ultimately have sec: "take 512 (drop (i div 8 * 512) raw) = d ! (1 + i div 8)"
    by (simp add: assms(1))
  have "i * 64 = (i div 8 * 8 + i mod 8) * 64" by simp
  then have "i * 64 = i mod 8 * 64 + i div 8 * 512" unfolding add_mult_distrib by simp
  then have "drop (i * 64) raw = drop (entry_slot_offset i) (drop (i div 8 * 512) raw)"
    by (simp add: entry_slot_offset_def)
  moreover have "take 64 (drop (entry_slot_offset i) xs) = take 64 (drop (entry_slot_offset i) (take 512 xs))"
    for xs :: bytes using entry_slot_fits [of i] by (simp add: drop_take min_absorb1)
  ultimately have "take 64 (drop (i * 64) raw) =
      take 64 (drop (entry_slot_offset i) (take 512 (drop (i div 8 * 512) raw)))"
    by simp
  then show ?thesis using assms(4) sec by (simp add: decode_entries_def disk_entry_def table_sector_def)
qed

lemma load_entries_spec:
  assumes "storage_ok (zf_storage st)" and "geometry (zf_super st) (length (zdisk st))"
    and "load_entries_result st = (r, st')" and "fs_ok r"
  shows "storage_ok (zf_storage st')" and "zdisk st' = zdisk st" and "ata0 (zf_storage st') = ata0 (zf_storage st)"
    and "st' = st\<lparr>zf_entries := zf_entries st', zf_storage := zf_storage st'\<rparr>"
    and "length (zf_entries st') = zfs_max_entries" and "\<forall>e\<in>set (zf_entries st'). entry_wf e"
    and "take (entry_total (zf_super st)) (zf_entries st') = disk_table (zf_super st) (zdisk st)"
proof -
  let ?es = "unat (zs_entry_sectors (zf_super st))" and ?N = "entry_total (zf_super st)"
  obtain failed raw g where call: "load_sectors ?es 0 (replicate (zfs_max_entries * 64) 0) (zf_storage st) = (failed, raw, g)"
    by (metis prod_cases3)
  have N: "?N \<le> 128" "?es = (?N + 7) div 8" "1 + ?es \<le> length (zdisk st)"
    using assms(2) by (auto simp: geometry_def zfs_max_entries_def data_base_def)
  then have "?es \<le> 16" by linarith
  then have law: "storage_ok g \<and> disk g = zdisk st \<and> ata0 g = ata0 (zf_storage st) \<and> length raw = 8192 \<and>
      (\<forall>r. failed = Some r \<longrightarrow> \<not> block_ok r) \<and>
      (failed = None \<longrightarrow> raw = concat (map (\<lambda>k. zdisk st ! (1 + k)) [0..<?es]) @
         drop (?es * 512) (replicate (zfs_max_entries * 64) 0))"
    using load_sectors_spec [OF assms(1) _ _ call] by (simp add: zfs_max_entries_def)
  have none: "failed = None"
  proof (cases failed)
    case (Some f)
    then show ?thesis using assms(3,4) call law by (auto simp: load_entries_result_def zfs_block_failure_def)
  qed simp
  have st': "st' = st\<lparr>zf_entries := decode_entries raw, zf_storage := g\<rparr>"
    using assms(3) call none by (simp add: load_entries_result_def)
  show "storage_ok (zf_storage st')" "zdisk st' = zdisk st" "ata0 (zf_storage st') = ata0 (zf_storage st)"
    "st' = st\<lparr>zf_entries := zf_entries st', zf_storage := zf_storage st'\<rparr>"
    "length (zf_entries st') = zfs_max_entries"
    using law st' by (simp_all add: decode_entries_def)
  have "entry_wf (decode_entry (take 64 (drop (i * 64) raw)))" if "i < 128" for i
    using that law by (intro entry_wf_decode) simp
  then show "\<forall>e\<in>set (zf_entries st'). entry_wf e"
    using st' by (auto simp: decode_entries_def zfs_max_entries_def)
  have "decode_entries raw ! i = disk_entry (zdisk st) i" if "i < ?N" for i
    using that N law none disk_sector [OF assms(1)]
    by (intro decode_entries_disk [where es = ?es]) (auto simp: zfs_max_entries_def)
  then show "take ?N (zf_entries st') = disk_table (zf_super st) (zdisk st)"
    using st' N(1) by (intro nth_equalityI) (auto simp: disk_table_def decode_entries_def zfs_max_entries_def)
qed

end

lemma take_clear_step: "i < n \<Longrightarrow> clear_step (take n es) i = take n (clear_step es i)"
  by (simp add: clear_step_def take_update_swap)

lemma take_commit_step: "i < n \<Longrightarrow> commit_step n (take n es) i = take n (commit_step n es i)"
  by (auto simp: commit_step_def drop_old_def take_update_swap Let_def)

lemma foldl_take:
  "(\<And>es i. i \<in> set is \<Longrightarrow> f (take n es) i = take n (f es i)) \<Longrightarrow> foldl f (take n es) is = take n (foldl f es is)"
  by (induction "is" arbitrary: es) simp_all

lemma recover_take: "recover_table n (take n es) = take n (recover_table n es)"
  unfolding recover_table_def
  using foldl_take [of "[0..<n]" clear_step n es] foldl_take [of "[0..<n]" "commit_step n" n]
  by (simp add: take_clear_step take_commit_step)

context zenovfs_device
begin

text \<open>
  A successful mount: the superblock is the one on the disk, and the directory shows what
  \<open>recovered_view\<close> predicted from the disk before the mount.
\<close>

lemma mount_spec:
  assumes ok: "storage_ok (zf_storage st)" and swf: "super_wf (zf_super st)"
    and buf: "length (zf_sector_buffer st) = 512"
    and call: "mount_result allocate st = (r, st')" and r: "fs_ok r"
  defines "s \<equiv> decode_super (zdisk st ! 0)"
  shows "zok st'" and "zf_super st' = s" and "zf_mounted st'" and "zf_current_directory st' = ''/''"
    and "zf_file_buffer st' = allocate (max_file_bytes s)" and "zf_file_buffer st' \<noteq> None"
    and "table_synced (zdisk st') st'" and "metadata_frame s (zdisk st) (zdisk st')"
    and "disk_table s (zdisk st') = recover_table (entry_total s) (disk_table s (zdisk st))"
proof -
  define st0 where "st0 = st\<lparr>zf_mounted := False\<rparr>"
  obtain sr raw g where rd: "zfs_read_sector 0 (encode_super (zf_super st)) (zf_storage st) = (sr, raw, g)"
    by (metis prod_cases3)
  define st1 where "st1 = st0\<lparr>zf_super := decode_super raw, zf_storage := g\<rparr>"
  obtain lr st2 where ld: "load_entries_result st1 = (lr, st2)" by fastforce
  define st3 where "st3 = st2\<lparr>zf_file_buffer := allocate (max_file_bytes (zf_super st2))\<rparr>"
  obtain rr st4 where rc: "recover_transactions_result st3 = (rr, st4)" by fastforce
  have steps: "block_ok sr" "mount_layout_valid (decode_super raw) (bd_sectors (ata0 g))" "fs_ok lr"
      "zf_file_buffer st3 \<noteq> None" "fs_ok rr" "st' = st4\<lparr>zf_mounted := True, zf_current_directory := ''/''\<rparr>"
    using call r rd ld rc
    by (auto simp: mount_result_def st0_def st1_def st3_def zfs_block_failure_def Let_def
        simp del: zf_file_buffer_def split: if_splits)
  note rlaw = zfs_read [OF ok _ rd, unfolded length_encode_super [OF swf]]
  have raw: "raw = zdisk st ! 0" using rlaw(5) steps(1) swf by simp
  have len0: "length raw = 512" using rlaw(3) swf by simp
  have s1: "zf_super st1 = s" "zdisk st1 = zdisk st" "storage_ok (zf_storage st1)"
      "zf_sector_buffer st1 = zf_sector_buffer st"
    using rlaw raw by (simp_all add: st1_def st0_def s_def)
  have geo: "geometry s (length (zdisk st))"
    using mount_layout_geometry [OF steps(2)] storage_sectors [OF rlaw(1)] rlaw(2) raw by (simp add: s_def)
  note load = load_entries_spec [OF s1(3) _ ld steps(3), unfolded s1(1,2), OF geo]
  have sup2: "zf_super st2 = s" "zf_sector_buffer st2 = zf_sector_buffer st"
    using load(4) s1 by (metis zfs.select_convs zfs.surjective zfs.update_convs)+
  have s3: "zf_super st3 = s" "zdisk st3 = zdisk st" "zf_entries st3 = zf_entries st2"
    using sup2 load(2) by (simp_all add: st3_def)
  have ok3: "zok st3"
    using load(1,2,5,6) geo buf sup2 len0 raw
    by (simp add: zok_def zfs_shape_def st3_def s_def)
  note moved = recover_transactions_spec [OF ok3 rc steps(5), unfolded s3(1,3)]
  have sync3: "table_synced (zdisk st3) st3" using load(7) s3 by (simp add: table_synced_def)
  show "zok st'" "zf_super st' = s" "zf_mounted st'" "zf_current_directory st' = ''/''"
    "zf_file_buffer st' = allocate (max_file_bytes s)" "zf_file_buffer st' \<noteq> None"
    "metadata_frame s (zdisk st) (zdisk st')"
    using moved steps(4) s3 sup2
    by (auto simp: steps(6) table_moved_def same_fs_def zok_def zfs_shape_def st3_def)
  show sync: "table_synced (zdisk st') st'"
    using moved sync3 by (simp add: steps(6) table_moved_def table_synced_def)
  have "disk_table s (zdisk st') = take (entry_total s) (recover_table (entry_total s) (zf_entries st2))"
    using sync moved s3(1) by (auto simp: steps(6) table_moved_def same_fs_def table_synced_def)
  then show "disk_table s (zdisk st') = recover_table (entry_total s) (disk_table s (zdisk st))"
    using load(7) by (simp add: recover_take [symmetric])
qed

end

section \<open>Atomic writes\<close>

definition path_ok :: "string \<Rightarrow> bool" where
  "path_ok p \<longleftrightarrow> length p \<le> 47 \<and> CHR 0x00 \<notin> set p"

lemma byte_of_char_0 [simp]: "byte_of_char c = 0 \<longleftrightarrow> c = CHR 0x00"
proof
  assume zero: "byte_of_char c = 0"
  have "char_of_byte (byte_of_char c) = c" by (rule char_of_byte_of_char)
  then show "c = CHR 0x00" unfolding zero by (auto simp: char_of_byte_def char_of_def)
qed (simp add: byte_of_char_def)

lemma cstr_terminated: "CHR 0x00 \<notin> set p \<Longrightarrow> cstr (bytes_of_string p @ 0 # rest) = p"
proof -
  assume "CHR 0x00 \<notin> set p"
  then have "takeWhile (\<lambda>b. b \<noteq> 0) (bytes_of_string p @ 0 # rest) = bytes_of_string p"
    by (subst takeWhile_append2) (auto simp: bytes_of_string_def)
  then show ?thesis by (simp add: cstr_def)
qed

lemma cstr_stage [simp]:
  "path_ok p \<Longrightarrow> cstr (ze_path (stage_entry p total_bytes checksum old)) = p"
  by (simp add: stage_entry_def blit_def path_ok_def cstr_terminated)

text \<open>A mounted file system at rest.\<close>

definition fs_consistent :: "bytes list \<Rightarrow> 's zfs \<Rightarrow> bool" where
  "fs_consistent d st \<longleftrightarrow>
     zfs_shape d st \<and> table_synced d st \<and> decode_super (d ! 0) = zf_super st \<and>
     table_settled (entry_total (zf_super st)) (zf_entries st) \<and>
     paths_unique (entry_total (zf_super st)) (zf_entries st) \<and>
     (\<exists>fb. zf_file_buffer st = Some fb \<and> unat (max_file_bytes (zf_super st)) \<le> length fb)"

definition current_view :: "bytes list \<Rightarrow> 's zfs \<Rightarrow> string \<Rightarrow> node option" where
  "current_view d st = view (zf_super st) d (zf_entries st)"

text \<open>Every file in the table hashes to its checksum and fits its slot.\<close>

definition files_intact :: "bytes list \<Rightarrow> 's zfs \<Rightarrow> bool" where
  "files_intact d st \<longleftrightarrow>
     (\<forall>i < entry_total (zf_super st).
        entry_visible (zf_entries st ! i) \<and> ze_type (zf_entries st ! i) = zfs_type_file \<longrightarrow>
        fnv1a (file_data (zf_super st) d i (zf_entries st ! i)) = ze_checksum (zf_entries st ! i) \<and>
        ze_size (zf_entries st ! i) \<le> max_file_bytes (zf_super st))"

text \<open>The same of a table on the disk, and of the table that recovery leaves.\<close>

definition entry_intact :: "zfs_superblock \<Rightarrow> bytes list \<Rightarrow> nat \<Rightarrow> zfs_entry \<Rightarrow> bool" where
  "entry_intact s d i e \<longleftrightarrow> fnv1a (file_data s d i e) = ze_checksum e \<and> ze_size e \<le> max_file_bytes s"

definition table_intact :: "zfs_superblock \<Rightarrow> bytes list \<Rightarrow> zfs_entry list \<Rightarrow> bool" where
  "table_intact s d es \<longleftrightarrow>
     (\<forall>i < entry_total s. entry_visible (es ! i) \<and> ze_type (es ! i) = zfs_type_file \<longrightarrow> entry_intact s d i (es ! i))"

definition recovered_intact :: "zfs_superblock \<Rightarrow> bytes list \<Rightarrow> bool" where
  "recovered_intact s d \<longleftrightarrow> table_intact s d (recover_table (entry_total s) (disk_table s d))"

lemma files_intact_table: "files_intact d st = table_intact (zf_super st) d (zf_entries st)"
  by (simp add: files_intact_def table_intact_def entry_intact_def)

lemma table_intact_take [simp]: "table_intact s d (take (entry_total s) es) = table_intact s d es"
  by (simp add: table_intact_def)

lemma table_intact_update:
  assumes "table_intact s d es"
    and "\<And>i. i < entry_total s \<Longrightarrow> entry_visible (es' ! i) \<Longrightarrow>
      es' ! i = es ! i \<and> slot_bytes s d' i = slot_bytes s d i \<or> entry_intact s d' i (es' ! i)"
  shows "table_intact s d' es'"
  using assms unfolding table_intact_def entry_intact_def file_data_def by metis

lemma take_new_table: "take n (new_table es old g f) = new_table (take n es) old g f"
  by (simp add: new_table_def take_update_swap split: option.splits)

lemma table_settled_take: "table_settled n (take n es) = table_settled n es"
  by (auto simp: table_settled_def)

lemma paths_unique_take: "paths_unique n (take n es) = paths_unique n es"
  by (auto simp: paths_unique_def)

lemma view_take:
  "geometry s n \<Longrightarrow> view s d (take (entry_total s) es) = view s d es"
  by (intro ext view_cong) auto

lemma consistent_recovered:
  assumes "fs_consistent d st"
  shows "recovered_view (zf_super st) d = current_view d st"
    and "files_intact d st \<Longrightarrow> recovered_intact (zf_super st) d"
proof -
  let ?s = "zf_super st"
  have geo: "geometry ?s (length d)" and sync: "disk_table ?s d = take (entry_total ?s) (zf_entries st)"
    and settled: "table_settled (entry_total ?s) (zf_entries st)"
    using assms by (auto simp: fs_consistent_def zfs_shape_def table_synced_def)
  then have rec: "recover_table (entry_total ?s) (disk_table ?s d) = take (entry_total ?s) (zf_entries st)"
    by (simp add: recover_settled table_settled_take)
  show "recovered_view ?s d = current_view d st"
    by (simp add: recovered_view_def current_view_def rec view_take [OF geo])
  show "files_intact d st \<Longrightarrow> recovered_intact ?s d"
    by (simp add: recovered_intact_def rec files_intact_table)
qed

lemma outside_slot_table:
  assumes "geometry s n" and "g < entry_total s" and "outside_slot s g d d'"
  shows "disk_table s d' = disk_table s d" and "d' ! 0 = d ! 0"
    and "i < entry_total s \<Longrightarrow> i \<noteq> g \<Longrightarrow> slot_bytes s d' i = slot_bytes s d i"
proof -
  have low: "d' ! k = d ! k" if "k < unat (zs_data_start s)" for k
    using assms(3) that by (auto simp: outside_slot_def data_base_def)
  show "disk_table s d' = disk_table s d"
    unfolding disk_table_def disk_entry_def using table_sector_bound(1) [OF assms(1)] low by auto
  show "d' ! 0 = d ! 0" using low [of 0] assms(1) by (simp add: geometry_def)
  show "slot_bytes s d' i = slot_bytes s d i" if "i < entry_total s" "i \<noteq> g"
    using assms(3) that(2) data_base_disjoint [of i g]
    by (intro slot_bytes_cong) (auto simp: outside_slot_def)
qed

lemma unat_max_file_bytes: "unat (max_file_bytes s) \<le> slots s * 512"
  by (simp add: max_file_bytes_def slots_def unat_word_ariths)

text \<open>
  The contents a write is meant to leave: the given bytes, after the old contents when it appends.
\<close>

definition written_contents :: "node option \<Rightarrow> bool \<Rightarrow> bytes \<Rightarrow> bytes" where
  "written_contents old append_mode new =
     (case old of Some (File c) \<Rightarrow> (if append_mode then c @ new else new) | _ \<Rightarrow> new)"

text \<open>
  The contents a successful write leaves. An append to a file that is not empty reads the old contents
  by the stored path, which \<open>read_file_result\<close> normalises once more. Under a root directory named
  \<open>data\<close> that names another file: its contents are taken when they have the size of the file, and
  otherwise the call reports success and nothing changes.
\<close>

definition outcome_contents :: "string \<Rightarrow> (string \<Rightarrow> node option) \<Rightarrow> string \<Rightarrow> bool \<Rightarrow> bytes \<Rightarrow> bytes" where
  "outcome_contents cwd V path append_mode new =
     (case V path of
        Some (File old) \<Rightarrow>
          if \<not> append_mode \<or> old = [] then new
          else (case normalize_path cwd (Some path) of
                  None \<Rightarrow> old
                | Some again \<Rightarrow>
                    (case V again of
                       Some (File c) \<Rightarrow> if length c = length old then c @ new else old
                     | _ \<Rightarrow> old))
      | _ \<Rightarrow> new)"

lemma outcome_overwrite [simp]: "outcome_contents cwd V path False new = new"
  by (simp add: outcome_contents_def split: option.split node.split)

lemma outcome_written:
  assumes "append_mode \<Longrightarrow> normalize_path cwd (Some path) = Some path"
  shows "outcome_contents cwd V path append_mode new = written_contents (V path) append_mode new"
  using assms by (auto simp: outcome_contents_def written_contents_def split: option.split node.split)

text \<open>
  A write that passes its checks: it reads the old contents when it appends, and stores the old and the
  new bytes under the path. \<open>appended_bytes\<close> is the number of old bytes that are kept.
\<close>

definition appended_bytes :: "'s zfs \<Rightarrow> string \<Rightarrow> bool \<Rightarrow> u32" where
  "appended_bytes st path append_mode =
     (case find_entry (zf_super st) (zf_entries st) path of
        Some i \<Rightarrow> if append_mode then ze_size (zf_entries st ! i) else 0 | None \<Rightarrow> 0)"

definition read_old :: "string \<Rightarrow> u32 \<Rightarrow> bool \<Rightarrow> bytes \<Rightarrow> 's zfs \<Rightarrow> fs_result \<times> u32 \<times> bytes option \<times> 's zfs" where
  "read_old path existing append_mode fb st =
     (if append_mode \<and> existing \<noteq> 0 then read_file_result (Some path) (Some fb) (max_file_bytes (zf_super st)) st
      else (fs_success FopRead 0, existing, Some fb, st))"

context zenovfs_device
begin

lemma publish_file:
  fixes st st1 :: "'s zfs"
  defines "s \<equiv> zf_super st"
  assumes con: "fs_consistent (zdisk st) st"
    and old: "old = find_entry s (zf_entries st) path" and pok: "path_ok path"
    and g: "g < entry_total s" "ze_used (zf_entries st ! g) = 0" and cap: "total_bytes \<le> unat (max_file_bytes s)"
    and st1: "zok st1" "same_fs st st1" "zf_entries st1 = zf_entries st" "zf_mounted st1 = zf_mounted st"
    and out: "outside_slot s g (zdisk st) (zdisk st1)"
    and data: "take total_bytes (slot_bytes s (zdisk st1) g) = take total_bytes fb"
  defines "stage \<equiv> stage_entry path total_bytes (fnv1a (take total_bytes fb)) old"
  assumes pub: "publish_entry old g total_bytes stage st1 = (r, st')"
  defines "V \<equiv> current_view (zdisk st) st"
  defines "V' \<equiv> V(path \<mapsto> File (take total_bytes fb))"
  shows "zok st' \<and> same_fs st st' \<and> zdisk st' ! 0 = zdisk st ! 0 \<and>
    recovered_view s (zdisk st') \<in> {V, V'} \<and>
    (fs_ok r \<longrightarrow> recovered_view s (zdisk st') = V') \<and>
    (fs_durable r \<longrightarrow> fs_consistent (zdisk st') st' \<and> current_view (zdisk st') st' = V' \<and>
       zf_mounted st' = zf_mounted st \<and> (files_intact (zdisk st) st \<longrightarrow> files_intact (zdisk st') st')) \<and>
    (files_intact (zdisk st) st \<longrightarrow> recovered_intact s (zdisk st'))"
proof -
  let ?N = "entry_total s" and ?es = "zf_entries st" and ?d = "zdisk st"
  have geo: "geometry s (length ?d)" and sync: "disk_table s ?d = take ?N ?es"
    and settled: "table_settled ?N ?es" and uniq: "paths_unique ?N ?es" and len: "?N \<le> length ?es"
    using con by (auto simp: fs_consistent_def zfs_shape_def table_synced_def s_def geometry_def)
  have fits: "total_bytes < 2 ^ 32" using cap unat_less_exp [of "max_file_bytes s"] by simp
  have sup1: "zf_super st1 = s" using st1(2) by (simp add: same_fs_def s_def)
  note tab = outside_slot_table [OF geo g(1) out]
  have inv: "\<not> entry_visible (?es ! g)" using g(2) by (rule free_not_visible)
  define f where "f = stage\<lparr>ze_type := zfs_type_file, ze_flags := 0, ze_reserved := 0\<rparr>"
  have stage: "ze_used stage \<noteq> 0" "ze_type stage = zfs_type_transaction"
    "ze_reserved stage = old_word old" "ze_flags stage = 0" "entry_wf stage"
    using pok by (simp_all add: stage_def stage_entry_def empty_entry_def entry_wf_def path_ok_def)
  have f: "entry_visible f" "cstr (ze_path f) = path" "ze_type f = zfs_type_file"
    using pok by (simp_all add: f_def stage_def entry_visible_def)
      (simp_all add: stage_entry_def zfs_type_file_def zfs_type_transaction_def)
  have size: "file_data s (zdisk st1) g f = take total_bytes fb"
    using data fits
    by (simp add: file_data_def f_def stage_def stage_entry_def unat_of_nat_nowrap)
  have t1: "disk_table s (zdisk st1) = take ?N ?es" using tab(1) sync by simp
  have ord: "\<forall>o'\<in>set_option old. o' < ?N \<and> o' \<noteq> g \<and> ze_used (take ?N ?es ! o') \<noteq> 0"
    using find_entry_SomeD [OF geo, of ?es path] old g(2) by (auto simp: entry_visible_def)
  note law = publish_entry_recovers [of st1, unfolded sup1 t1 table_settled_take, OF _ settled g(1) stage ord pub,
      folded f_def]
  note law = law [OF st1(1)]
  have frame: "slot_bytes s (zdisk st') j = slot_bytes s (zdisk st1) j" for j
    using law(3) by (simp add: metadata_frame_def)
  have slotv: "slot_bytes s (zdisk st') i = slot_bytes s ?d i" if "i < ?N" "i \<noteq> g" for i
    using frame tab(3) that by simp
  have data': "file_data s (zdisk st') g f = take total_bytes fb"
    using size frame by (simp add: file_data_def)
  note publ = view_published [OF geo uniq g(1) len inv old f slotv]
  have newV: "view s (zdisk st') (new_table (take ?N ?es) old g f) = V'"
    unfolding take_new_table [symmetric] view_take [OF geo]
    using publ(2) data' by (simp add: V'_def V_def current_view_def s_def)
  have oldV: "view s (zdisk st') (take ?N ?es) = V"
    unfolding view_take [OF geo] V_def current_view_def s_def [symmetric]
    using slotv inv by (intro ext view_cong [OF geo]) auto
  have emptyV: "view s (zdisk st') ((take ?N ?es)[g := empty_entry]) = V"
    unfolding take_update_swap [symmetric] view_take [OF geo] V_def current_view_def s_def [symmetric]
    using slotv inv g(1) len by (intro ext view_invisible [OF geo uniq]) auto
  have rv: "recovered_view s (zdisk st') \<in> {V, V'}" "fs_ok r \<Longrightarrow> recovered_view s (zdisk st') = V'"
    using law(4,5) newV oldV emptyV by (auto simp: recovered_view_def)
  have same': "same_fs st st'" using st1(2) law(2) by (auto intro: same_fs_trans)
  have zero: "zdisk st' ! 0 = ?d ! 0" using law(3) tab(2) by (simp add: metadata_frame_def)
  have f_intact: "entry_intact s (zdisk st') g f"
  proof -
    have "ze_checksum f = fnv1a (take total_bytes fb)" "ze_size f = word_of_nat total_bytes"
      by (simp_all add: f_def stage_def stage_entry_def)
    then show ?thesis using data' cap fits by (simp add: entry_intact_def word_le_nat_alt unat_of_nat_nowrap)
  qed
  have upd_intact: "table_intact s (zdisk st') es'"
    if "files_intact ?d st" "\<And>i. i < ?N \<Longrightarrow> i \<noteq> g \<Longrightarrow> entry_visible (es' ! i) \<Longrightarrow> es' ! i = ?es ! i"
      "entry_visible (es' ! g) \<Longrightarrow> es' ! g = f" for es'
    by (rule table_intact_update [where d = ?d and es = ?es])
      (use that slotv f_intact in \<open>auto simp: files_intact_table s_def\<close>)
  have vis0: "\<not> entry_visible empty_entry" by (simp add: empty_entry_def entry_visible_def)
  have new_at: "new_table ?es old g f ! i = (if i = g then f else if old = Some i then empty_entry else ?es ! i)"
    if "i < ?N" for i using that len by (auto simp: new_table_def nth_list_update split: option.splits)
  have new_intact: "table_intact s (zdisk st') (new_table ?es old g f)" if "files_intact ?d st"
    by (rule upd_intact [OF that]) (use new_at g(1) vis0 in \<open>auto split: if_splits\<close>)
  have intact': "recovered_intact s (zdisk st')" if "files_intact ?d st"
  proof -
    have "table_intact s (zdisk st') ?es" by (rule upd_intact [OF that]) (use inv in auto)
    moreover have "table_intact s (zdisk st') (?es[g := empty_entry])"
      by (rule upd_intact [OF that]) (use vis0 g(1) len in auto)
    ultimately show ?thesis
      using law(4) new_intact [OF that] unfolding recovered_intact_def
      by (auto simp: take_new_table [symmetric] take_update_swap [symmetric])
  qed
  have durable: "fs_consistent (zdisk st') st' \<and> current_view (zdisk st') st' = V' \<and> zf_mounted st' = zf_mounted st \<and>
      (files_intact ?d st \<longrightarrow> files_intact (zdisk st') st')"
    if "fs_durable r"
  proof -
    have e: "zf_entries st' = new_table ?es old g f" "zf_mounted st' = zf_mounted st"
      "disk_table s (zdisk st') = new_table (take ?N ?es) old g f"
      using law(6) [OF that] st1(3,4) by auto
    have sup: "zf_super st' = s" using same' by (simp add: same_fs_def s_def)
    have N128: "?N \<le> zfs_max_entries" using geo by (simp add: geometry_def)
    have "table_settled ?N (new_table (take ?N ?es) old g f)"
      unfolding f_def using settled len N128 g(1) stage(1-4) ord
      by (intro recover_publication(5)) (auto simp: table_settled_take)
    then have "table_settled ?N (zf_entries st')"
      unfolding e(1) take_new_table [symmetric] table_settled_take .
    moreover have "table_synced (zdisk st') st'"
      by (simp add: table_synced_def sup e take_new_table)
    moreover have "zfs_shape (zdisk st') st'" using law(1) by (simp add: zok_def)
    ultimately have "fs_consistent (zdisk st') st'"
      using con publ(1) sup zero same' by (auto simp: fs_consistent_def e(1) same_fs_def s_def)
    moreover have "current_view (zdisk st') st' = V'"
      using newV unfolding take_new_table [symmetric] view_take [OF geo] by (simp add: current_view_def sup e(1))
    moreover have "files_intact (zdisk st') st'" if intact: "files_intact ?d st"
      using new_intact [OF intact] by (simp add: files_intact_table sup e(1))
    ultimately show ?thesis using e(2) by simp
  qed
  show ?thesis using law(1) same' zero rv durable intact' by simp
qed

lemma store_file_atomic:
  fixes st :: "'s zfs"
  defines "s \<equiv> zf_super st"
  assumes sok: "storage_ok (zf_storage st)" and con: "fs_consistent (zdisk st) st"
    and old: "old = find_entry s (zf_entries st) path" and nul: "CHR 0x00 \<notin> set path"
    and cap: "total_bytes \<le> unat (max_file_bytes s)" and buf: "total_bytes \<le> length fb"
    and call: "store_file path old total_bytes fb st = (r, st')"
  defines "V \<equiv> current_view (zdisk st) st"
  defines "V' \<equiv> V(path \<mapsto> File (take total_bytes fb))"
  shows "zok st'" and "same_fs st st'" and "zdisk st' ! 0 = zdisk st ! 0"
    and "recovered_view s (zdisk st') \<in> {V, V'}"
    and "fs_ok r \<Longrightarrow> recovered_view s (zdisk st') = V'"
    and "fs_durable r \<Longrightarrow> fs_consistent (zdisk st') st' \<and> current_view (zdisk st') st' = V' \<and>
           zf_mounted st' = zf_mounted st \<and> (files_intact (zdisk st) st \<longrightarrow> files_intact (zdisk st') st')"
    and "files_intact (zdisk st) st \<Longrightarrow> recovered_intact s (zdisk st')"
proof -
  let ?N = "entry_total s" and ?es = "zf_entries st" and ?d = "zdisk st"
  have shape: "zfs_shape ?d st" and geo: "geometry s (length ?d)" and sync: "disk_table s ?d = take ?N ?es"
    and settled: "table_settled ?N ?es"
    using con by (auto simp: fs_consistent_def zfs_shape_def table_synced_def s_def)
  have ok: "zok st" using sok shape by (simp add: zok_def)
  have fits: "total_bytes \<le> slots s * 512" "total_bytes \<le> length fb"
    using cap buf unat_max_file_bytes [of s] by simp_all
  note same = consistent_recovered(1) [OF con, folded s_def V_def, symmetric]
  note same_intact = consistent_recovered(2) [OF con, folded s_def]
  show "zok st'" and "same_fs st st'" and "zdisk st' ! 0 = zdisk st ! 0"
    and "recovered_view s (zdisk st') \<in> {V, V'}"
    and "fs_ok r \<Longrightarrow> recovered_view s (zdisk st') = V'"
    and "fs_durable r \<Longrightarrow> fs_consistent (zdisk st') st' \<and> current_view (zdisk st') st' = V' \<and>
           zf_mounted st' = zf_mounted st \<and> (files_intact (zdisk st) st \<longrightarrow> files_intact (zdisk st') st')"
    and "files_intact (zdisk st) st \<Longrightarrow> recovered_intact s (zdisk st')"
  proof (atomize (full), goal_cases)
    case 1
    show ?case
    proof (cases "free_entry s ?es (old_word old)")
      case None
      then have "st' = st" "r = fs_failure FopWrite FsNoSpace" using call by (simp_all add: store_file_def s_def)
      then show ?thesis using ok same same_intact by (simp add: same_fs_def fs_durable_def)
    next
      case (Some g)
      have g: "g < ?N" "ze_used (?es ! g) = 0" using free_entry_SomeD [OF geo Some] by auto
      obtain failed st1 where loop: "write_loop (data_sector s g) 0 0 total_bytes fb st = (failed, st1)"
        by fastforce
      have w: "zok st1 \<and> same_fs st st1 \<and> zf_entries st1 = ?es \<and> zf_mounted st1 = zf_mounted st \<and>
          outside_slot s g ?d (zdisk st1) \<and>
          (case failed of
             None \<Rightarrow> take total_bytes (slot_bytes s (zdisk st1) g) = take total_bytes fb
           | Some (r, c) \<Rightarrow> \<not> block_ok r)"
        using write_loop [OF ok _ _ _ _ _ fits(2) loop [unfolded s_def], of g] g(1) fits(1)
        unfolding s_def by simp
      have out: "outside_slot s g ?d (zdisk st1)" and sup1: "zf_super st1 = s"
        using w by (simp_all add: same_fs_def s_def)
      note tab = outside_slot_table [OF geo g(1) out]
      have inv: "\<not> entry_visible (?es ! g)" using g(2) by (rule free_not_visible)
      have keep: "view s (zdisk st1) ?es = V"
        unfolding V_def current_view_def s_def [symmetric]
        using tab(3) inv by (intro ext view_cong [OF geo]) auto
      have same1: "recovered_view s (zdisk st1) = V"
        using settled keep
        by (simp add: recovered_view_def tab(1) sync recover_settled table_settled_take view_take [OF geo])
      have intact1: "recovered_intact s (zdisk st1)" if "files_intact ?d st"
      proof -
        have "table_intact s (zdisk st1) ?es"
          by (rule table_intact_update [where d = ?d and es = ?es]) (use that tab(3) inv in \<open>auto simp: files_intact_table s_def\<close>)
        then show ?thesis using settled unfolding recovered_intact_def tab(1) sync by (simp add: recover_settled table_settled_take)
      qed
      show ?thesis
      proof (cases "failed = None \<and> path_copy (replicate 48 0) path 48 \<noteq> None")
        case False
        have "st' = st1 \<or> st' = st1\<lparr>zf_mounted := False\<rparr>" "\<not> fs_ok r"
          using call Some loop False w
          by (auto simp: store_file_def s_def [symmetric] zfs_block_failure_def split: option.splits prod.splits)
        then show ?thesis
          using w same1 tab(2) intact1 by (auto simp: zok_def zfs_shape_def same_fs_def fs_durable_def fs_ok_def)
      next
        case True
        then have pok: "path_ok path" using nul by (simp add: path_copy_def path_ok_def split: if_splits)
        define stage where "stage = stage_entry path total_bytes (fnv1a (take total_bytes fb)) old"
        have pub: "publish_entry old g total_bytes stage st1 = (r, st')"
          using call Some loop True by (auto simp: store_file_def s_def [symmetric] stage_def)
        then show ?thesis
          using publish_file [OF con, folded s_def V_def, OF old pok g cap, of st1 fb r st', folded stage_def V'_def] w True
          by simp
      qed
    qed
  qed
qed

text \<open>
  A read never changes the disk or the table. When it succeeds, the path names a file, the output
  starts with exactly its bytes, and they hash to the checksum of the entry.
\<close>

lemma read_file_spec:
  assumes ok: "zok st" and cap: "unat capacity \<le> length out"
    and call: "read_file_result (Some inp) (Some out) capacity st = (r, n, out', st')"
  defines "s \<equiv> zf_super st"
  shows "zok st'" and "same_fs st st'" and "zf_entries st' = zf_entries st" and "zdisk st' = zdisk st"
    and "\<exists>o'. out' = Some o' \<and> length o' = length out"
    and "fs_ok r \<Longrightarrow> fs_durable r \<and> zf_mounted st' = zf_mounted st \<and>
           (\<exists>path i o'. normalize_path (zf_current_directory st) (Some inp) = Some path \<and>
              find_entry s (zf_entries st) path = Some i \<and> ze_type (zf_entries st ! i) = zfs_type_file \<and>
              n = ze_size (zf_entries st ! i) \<and> n \<le> capacity \<and> out' = Some o' \<and>
              o' = file_data s (zdisk st) i (zf_entries st ! i) @ drop (unat n) out \<and>
              length (file_data s (zdisk st) i (zf_entries st ! i)) = unat n \<and>
              fnv1a (file_data s (zdisk st) i (zf_entries st ! i)) = ze_checksum (zf_entries st ! i))"
proof (atomize (full), goal_cases)
  case 1
  let ?refused = "\<not> fs_ok r \<and> out' = Some out \<and> st' = st"
  show ?case
  proof (cases "?refused")
    case True
    then show ?thesis using ok by (simp add: same_fs_def)
  next
    case False
    obtain path i where path: "normalize_path (zf_current_directory st) (Some inp) = Some path"
      "find_entry s (zf_entries st) path = Some i"
      using False call by (auto simp: read_file_result_def s_def split: if_splits option.splits)
    let ?e = "zf_entries st ! i"
    have pass: "zf_mounted st" "ze_type ?e = zfs_type_file" "\<not> ze_size ?e > max_file_bytes s"
      "\<not> ze_size ?e > capacity"
      using False call path by (auto simp: read_file_result_def s_def Let_def split: if_splits)
    have geo: "geometry s (length (zdisk st))" and sok: "storage_ok (zf_storage st)"
      using ok by (auto simp: zok_def zfs_shape_def s_def)
    have i: "i < entry_total s" using find_entry_SomeD [OF geo path(2)] by simp
    have size: "unat (ze_size ?e) \<le> slots s * 512" "unat (ze_size ?e) \<le> length out"
      using pass(3,4) unat_max_file_bytes [of s] cap by (simp_all add: not_less word_le_nat_alt)
    obtain failed o1 st1 where loop: "read_loop (data_sector s i) 0 0 (unat (ze_size ?e)) out st = (failed, o1, st1)"
      by (metis prod_cases3)
    have rl: "zok st1 \<and> same_fs st st1 \<and> zf_entries st1 = zf_entries st \<and> zdisk st1 = zdisk st \<and>
        zf_mounted st1 = zf_mounted st \<and> length o1 = length out \<and>
        (case failed of
           None \<Rightarrow> o1 = take (unat (ze_size ?e)) (slot_bytes s (zdisk st) i) @ drop (unat (ze_size ?e)) out
         | Some (r, c) \<Rightarrow> \<not> block_ok r \<and> c \<le> unat (ze_size ?e))"
      using read_loop [OF ok i [unfolded s_def] refl _ _ _ size(2) loop [unfolded s_def]] size(1)
      unfolding s_def by (simp only: mult_0 le0 simp_thms diff_zero drop_0 take_0 append_Nil)
    have body: "read_file_result (Some inp) (Some out) capacity st =
        (case failed of
           Some (read, copied) \<Rightarrow>
             (fs_from_block FopRead read (word_of_nat copied), 0, Some (blit 0 (replicate copied 0) o1),
              st1\<lparr>zf_mounted := False\<rparr>)
         | None \<Rightarrow>
             if fnv1a (take (unat (ze_size ?e)) o1) \<noteq> ze_checksum ?e
             then (fs_failure FopRead FsChecksumMismatch, 0, Some (blit 0 (replicate (unat (ze_size ?e)) 0) o1), st1)
             else (fs_success FopRead (ze_size ?e), ze_size ?e, Some o1, st1))"
      using pass path loop
      by (simp add: read_file_result_def s_def zfs_block_failure_def Let_def split: option.split prod.split)
    show ?thesis
    proof (cases failed)
      case (Some x)
      obtain b c where x: "x = (b, c)" by fastforce
      then have "r = fs_from_block FopRead b (word_of_nat c)" "out' = Some (blit 0 (replicate c 0) o1)"
        "st' = st1\<lparr>zf_mounted := False\<rparr>" using call body Some by auto
      then show ?thesis using rl Some x size(2) by (auto simp: zok_def zfs_shape_def same_fs_def)
    next
      case None
      have o1: "o1 = file_data s (zdisk st) i ?e @ drop (unat (ze_size ?e)) out"
        using rl None by (simp add: file_data_def)
      have len: "length (file_data s (zdisk st) i ?e) = unat (ze_size ?e)"
        using size(1) length_slot_bytes [OF disk_wf [OF sok] geo i] by (simp add: file_data_def)
      have out: "out' = Some o1 \<or> out' = Some (blit 0 (replicate (unat (ze_size ?e)) 0) o1)" and "st' = st1"
        using call body None by (auto split: if_splits)
      moreover have "fs_ok r \<Longrightarrow> r = fs_success FopRead (ze_size ?e) \<and> n = ze_size ?e \<and> out' = Some o1 \<and>
          fnv1a (take (unat (ze_size ?e)) o1) = ze_checksum ?e"
        using call body None by (auto split: if_splits)
      ultimately show ?thesis using rl size(2) path pass o1 len by (auto simp: not_less)
    qed
  qed
qed

lemma consistent_file_buffer:
  "fs_consistent d st \<Longrightarrow> unat (max_file_bytes (zf_super st)) \<le> length fb \<Longrightarrow>
     fs_consistent d (st\<lparr>zf_file_buffer := Some fb\<rparr>)"
  by (simp add: fs_consistent_def zfs_shape_def table_synced_def)

lemma consistent_moved:
  assumes "fs_consistent (zdisk st) st" and "zok st'" and "same_fs st st'" and "zf_entries st' = zf_entries st"
    and "zdisk st' = zdisk st"
  shows "fs_consistent (zdisk st') st'"
  using assms by (auto simp: fs_consistent_def zok_def same_fs_def table_synced_def)

lemma view_at_entry:
  assumes "find_entry (zf_super st) (zf_entries st) p = Some k"
  shows "current_view d st p =
    Some (if ze_type (zf_entries st ! k) = zfs_type_file then File (file_data (zf_super st) d k (zf_entries st ! k)) else Directory)"
  using assms by (simp add: current_view_def view_def)

lemma write_file_parts:
  assumes call: "write_file_result (Some inp) (DataBytes bs) count append_mode st = (r, st')"
    and path: "normalize_path (zf_current_directory st) (Some inp) = Some path" and fb: "zf_file_buffer st = Some fb"
    and rd: "read_old path (appended_bytes st path append_mode) append_mode fb st = (res, ld, fbo, st1)"
    and run: "\<not> (st' = st \<and> \<not> fs_ok r)"
  shows "zf_mounted st" (is ?mounted)
    and "\<forall>i\<in>set_option (find_entry (zf_super st) (zf_entries st) path). ze_type (zf_entries st ! i) = zfs_type_file" (is ?files)
    and "appended_bytes st path append_mode \<le> max_file_bytes (zf_super st)" (is ?fits)
    and "unat (appended_bytes st path append_mode) + unat count \<le> unat (max_file_bytes (zf_super st))"
    and "(r, st') = (let existing = appended_bytes st path append_mode in
          if \<not> fs_ok res \<or> ld \<noteq> existing
          then (mk_fs_result FopWrite (fs_status_of res) 0 (fs_block res), st1\<lparr>zf_file_buffer := fbo\<rparr>)
          else store_file path (find_entry (zf_super st) (zf_entries st) path) (unat (existing + count))
                 (blit (unat existing) (take (unat count) bs) (the fbo))
                 (st1\<lparr>zf_file_buffer := Some (blit (unat existing) (take (unat count) bs) (the fbo))\<rparr>))" (is ?rest)
proof -
  let ?existing = "appended_bytes st path append_mode" and ?cap = "max_file_bytes (zf_super st)"
  have g: ?mounted ?files "\<not> (?existing > ?cap \<or> count > ?cap - ?existing)" "path \<noteq> ''/''"
      "parent_exists (zf_super st) (zf_entries st) path"
    using call path run by (auto simp: write_file_result_def appended_bytes_def Let_def split: if_splits)
  then show ?mounted ?files ?fits by auto
  have "?existing \<le> ?cap" "count \<le> ?cap - ?existing" using g(3) by auto
  then have "unat ?existing \<le> unat ?cap" "unat count \<le> unat ?cap - unat ?existing"
    by (simp_all add: word_le_nat_alt unat_sub)
  then show "unat ?existing + unat count \<le> unat ?cap" by linarith
  show ?rest
    unfolding call [symmetric] write_file_result_def Let_def
    using g path rd fb by (cases "append_mode \<and> ?existing \<noteq> 0") (auto simp: appended_bytes_def [symmetric] read_old_def)
qed

lemma read_old_spec:
  fixes st :: "'s zfs"
  defines "s \<equiv> zf_super st" and "es \<equiv> zf_entries st" and "V \<equiv> current_view (zdisk st) st"
  assumes sok: "storage_ok (zf_storage st)" and con: "fs_consistent (zdisk st) st"
    and files: "\<forall>i\<in>set_option (find_entry s es path). ze_type (es ! i) = zfs_type_file"
    and cap: "existing \<le> max_file_bytes s" "unat (max_file_bytes s) \<le> length fb"
    and existing: "existing = appended_bytes st path append_mode"
    and rd: "read_old path existing append_mode fb st = (res, ld, fbo, st1)"
  shows "zok st1 \<and> same_fs st st1 \<and> zf_entries st1 = es \<and> zdisk st1 = zdisk st \<and>
      (\<exists>fb1. fbo = Some fb1 \<and> length fb1 = length fb) \<and>
      (fs_ok res \<longrightarrow> zf_mounted st1 = zf_mounted st \<and>
        (if ld = existing
         then outcome_contents (zf_current_directory st) V path append_mode new = take (unat existing) (the fbo) @ new
         else fs_durable res \<and>
           V(path \<mapsto> File (outcome_contents (zf_current_directory st) V path append_mode new)) = V))"
proof -
  have geo: "geometry s (length (zdisk st))" and ok: "zok st"
    using con sok by (auto simp: fs_consistent_def zfs_shape_def zok_def s_def)
  have Vp: "V path = Some (File (file_data s (zdisk st) k (es ! k)))"
      "append_mode \<Longrightarrow> existing = ze_size (es ! k) \<and> length (file_data s (zdisk st) k (es ! k)) = unat existing"
    if k: "find_entry s es path = Some k" for k
  proof -
    show "V path = Some (File (file_data s (zdisk st) k (es ! k)))"
      using view_at_entry [of st path k "zdisk st"] k files by (simp add: V_def s_def es_def)
    have "unat existing \<le> slots s * 512" using cap(1) unat_max_file_bytes [of s] by (simp add: word_le_nat_alt)
    moreover have "k < entry_total s" using find_entry_SomeD [OF geo k] by simp
    moreover have "append_mode \<Longrightarrow> existing = ze_size (es ! k)"
      using k existing by (simp add: appended_bytes_def s_def es_def)
    ultimately show "append_mode \<Longrightarrow> existing = ze_size (es ! k) \<and> length (file_data s (zdisk st) k (es ! k)) = unat existing"
      using length_slot_bytes [OF disk_wf [OF sok] geo, of k] by (simp add: file_data_def)
  qed
  show ?thesis
  proof (cases "append_mode \<and> existing \<noteq> 0")
    case False
    then have st1: "res = fs_success FopRead 0" "ld = existing" "fbo = Some fb" "st1 = st"
      using rd by (auto simp: read_old_def)
    have ex: "existing = 0" using False existing by (auto simp: appended_bytes_def split: option.splits)
    have "outcome_contents (zf_current_directory st) V path append_mode new = new"
    proof (cases "find_entry s es path")
      case None
      then have "V path = None" by (simp add: V_def current_view_def view_def s_def es_def)
      then show ?thesis by (simp add: outcome_contents_def)
    next
      case (Some k)
      then show ?thesis using Vp [OF Some] ex by (auto simp: outcome_contents_def)
    qed
    then show ?thesis using ok st1 ex by (simp add: same_fs_def es_def)
  next
    case True
    then have call: "read_file_result (Some path) (Some fb) (max_file_bytes s) st = (res, ld, fbo, st1)"
      using rd by (simp add: read_old_def s_def)
    note law = read_file_spec [OF ok cap(2) call, folded s_def es_def]
    obtain i where i: "find_entry s es path = Some i"
      using True existing by (auto simp: appended_bytes_def s_def es_def split: option.splits)
    have old: "V path = Some (File (file_data s (zdisk st) i (es ! i)))"
        "length (file_data s (zdisk st) i (es ! i)) = unat existing" "file_data s (zdisk st) i (es ! i) \<noteq> []"
      using Vp [OF i] True by (auto simp: unat_eq_0)
    have "zf_mounted st1 = zf_mounted st \<and>
        (if ld = existing
         then outcome_contents (zf_current_directory st) V path append_mode new = take (unat existing) (the fbo) @ new
         else fs_durable res \<and> V(path \<mapsto> File (outcome_contents (zf_current_directory st) V path append_mode new)) = V)"
      if okr: "fs_ok res"
    proof -
      obtain p k where p: "normalize_path (zf_current_directory st) (Some path) = Some p"
          "find_entry s es p = Some k" "ze_type (es ! k) = zfs_type_file"
          "fbo = Some (file_data s (zdisk st) k (es ! k) @ drop (unat ld) fb)"
          "length (file_data s (zdisk st) k (es ! k)) = unat ld"
        using law(6) [OF okr] by blast
      have "V p = Some (File (file_data s (zdisk st) k (es ! k)))"
        using view_at_entry [of st p k "zdisk st"] p(2,3) by (simp add: V_def s_def es_def)
      then have out: "outcome_contents (zf_current_directory st) V path append_mode new =
          (if ld = existing then file_data s (zdisk st) k (es ! k) @ new else file_data s (zdisk st) i (es ! i))"
        using True old p(1,5) by (simp add: outcome_contents_def word_unat_eq_iff)
      show ?thesis using law(6) [OF okr] out p(4,5) old(1) by auto
    qed
    then show ?thesis using law(1-5) by auto
  qed
qed

lemma write_file_atomic:
  fixes st :: "'s zfs"
  defines "s \<equiv> zf_super st"
  assumes sok: "storage_ok (zf_storage st)" and con: "fs_consistent (zdisk st) st"
    and path: "normalize_path (zf_current_directory st) (Some inp) = Some path" and nul: "CHR 0x00 \<notin> set path"
    and count: "unat count \<le> length bs"
    and call: "write_file_result (Some inp) (DataBytes bs) count append_mode st = (r, st')"
  defines "V \<equiv> current_view (zdisk st) st"
  defines "V' \<equiv> V(path \<mapsto> File (outcome_contents (zf_current_directory st) V path append_mode (take (unat count) bs)))"
  shows "storage_ok (zf_storage st')" and "zf_super st' = s" and "length (zf_sector_buffer st') = 512 \<and> super_wf s"
    and "decode_super (zdisk st' ! 0) = s"
    and "recovered_view s (zdisk st') \<in> {V, V'}"
    and "fs_ok r \<Longrightarrow> recovered_view s (zdisk st') = V'"
    and "fs_durable r \<Longrightarrow> fs_consistent (zdisk st') st' \<and> current_view (zdisk st') st' = V' \<and> zf_mounted st' \<and>
           (files_intact (zdisk st) st \<longrightarrow> files_intact (zdisk st') st')"
    and "files_intact (zdisk st) st \<Longrightarrow> recovered_intact s (zdisk st')"
proof -
  let ?es = "zf_entries st" and ?d = "zdisk st" and ?cap = "max_file_bytes s" and ?new = "take (unat count) bs"
  define existing where "existing = appended_bytes st path append_mode"
  have shape: "zfs_shape ?d st" and super0: "decode_super (?d ! 0) = s"
    using con by (auto simp: fs_consistent_def s_def)
  obtain fb0 where fb0: "zf_file_buffer st = Some fb0" "unat ?cap \<le> length fb0"
    using con by (auto simp: fs_consistent_def s_def)
  have swf: "super_wf s" "length (zf_sector_buffer st) = 512" using shape by (auto simp: zfs_shape_def s_def)
  note same = consistent_recovered(1) [OF con, folded s_def V_def]
  note same_intact = consistent_recovered(2) [OF con, folded s_def]
  obtain res ld fbo st1 where rd: "read_old path existing append_mode fb0 st = (res, ld, fbo, st1)" by (metis prod_cases4)
  show "storage_ok (zf_storage st')" and "zf_super st' = s" and "length (zf_sector_buffer st') = 512 \<and> super_wf s"
    and "decode_super (zdisk st' ! 0) = s"
    and "recovered_view s (zdisk st') \<in> {V, V'}"
    and "fs_ok r \<Longrightarrow> recovered_view s (zdisk st') = V'"
    and "fs_durable r \<Longrightarrow> fs_consistent (zdisk st') st' \<and> current_view (zdisk st') st' = V' \<and> zf_mounted st' \<and>
           (files_intact (zdisk st) st \<longrightarrow> files_intact (zdisk st') st')"
    and "files_intact (zdisk st) st \<Longrightarrow> recovered_intact s (zdisk st')"
  proof (atomize (full), goal_cases)
    case 1
    show ?case
    proof (cases "st' = st \<and> \<not> fs_ok r")
      case True
      then show ?thesis using sok swf super0 same same_intact by (simp add: s_def fs_durable_def fs_ok_def)
    next
      case False
      note parts = write_file_parts [OF call path fb0(1) rd [unfolded existing_def] False, folded existing_def s_def]
      note step = read_old_spec [OF sok con, folded s_def V_def, OF parts(2,3) fb0(2) existing_def rd, of ?new, folded V'_def]
      have frame: "zok st1" "same_fs st st1" "zf_entries st1 = ?es" "zdisk st1 = ?d" using step by auto
      obtain fb1 where fb1: "fbo = Some fb1" "length fb1 = length fb0" using step by blast
      show ?thesis
      proof (cases "fs_ok res \<and> ld = existing")
        case bad: False
        then have r: "r = mk_fs_result FopWrite (fs_status_of res) 0 (fs_block res)" "st' = st1\<lparr>zf_file_buffer := fbo\<rparr>"
          using parts(5) by auto
        then have keep: "storage_ok (zf_storage st')" "zf_super st' = s" "length (zf_sector_buffer st') = 512 \<and> super_wf s"
          "zdisk st' = ?d" "decode_super (zdisk st' ! 0) = s"
          using frame super0 swf(1) by (auto simp: zok_def zfs_shape_def same_fs_def s_def)
        have "fs_consistent (zdisk st1) (st1\<lparr>zf_file_buffer := fbo\<rparr>)"
          using consistent_moved [OF con frame] frame(2) fb1 fb0(2)
          by (auto simp: same_fs_def s_def intro!: consistent_file_buffer)
        then have "fs_consistent (zdisk st') st' \<and> current_view (zdisk st') st' = V \<and> zf_mounted st' \<and>
           (files_intact (zdisk st) st \<longrightarrow> files_intact (zdisk st') st')" if "fs_ok res"
          using keep frame step that parts(1)
          by (simp add: r(2) current_view_def V_def files_intact_table same_fs_def s_def)
        moreover have "fs_ok r = fs_ok res" "fs_durable r = fs_durable res" by (simp_all add: r(1) fs_ok_def fs_durable_def mk_fs_result_def)
        moreover have "V' = V" if "fs_ok res" using step bad that by auto
        moreover have "fs_durable res \<Longrightarrow> fs_ok res" by (simp add: fs_ok_def fs_durable_def)
        ultimately show ?thesis using keep same same_intact by (cases "fs_ok res") auto
      next
        case True
        define fb where "fb = blit (unat existing) ?new fb1"
        define st2 where "st2 = st1\<lparr>zf_file_buffer := Some fb\<rparr>"
        define n where "n = unat (existing + count)"
        have n: "n = unat existing + unat count"
          using parts(4) unat_less_exp [of ?cap] by (simp add: n_def unat_add_nowrap)
        have "length ?new = unat count" "unat existing + unat count \<le> length fb1"
          using count parts(4) fb0(2) fb1(2) by auto
        then have fb: "length fb = length fb0" "take n fb = take (unat existing) (the fbo) @ ?new"
          using fb1 by (simp_all add: fb_def n blit_def)
        have store: "store_file path (find_entry s ?es path) n fb st2 = (r, st')"
          using parts(5) True fb1 by (simp add: n_def fb_def st2_def)
        have con2: "fs_consistent (zdisk st2) st2" and sok2: "storage_ok (zf_storage st2)"
          using consistent_moved [OF con frame] frame(1,2,4) fb(1) fb0(2)
          by (auto simp: st2_def zok_def same_fs_def s_def intro!: consistent_file_buffer)
        have sup2: "zf_super st2 = s" "zf_entries st2 = ?es" "zdisk st2 = ?d" "zf_mounted st2"
          using frame step True parts(1) by (simp_all add: st2_def same_fs_def s_def)
        have fits: "n \<le> unat ?cap" "n \<le> length fb" using parts(4) n fb(1) fb0(2) by auto
        note law = store_file_atomic [OF sok2 con2, unfolded sup2, OF refl nul fits store]
        have V2: "current_view ?d st2 = V" "files_intact ?d st2 = files_intact ?d st"
          by (simp_all add: current_view_def V_def files_intact_def sup2 s_def)
        have new: "take n fb = outcome_contents (zf_current_directory st) V path append_mode ?new"
          using fb(2) step True by simp
        show ?thesis
          using law swf super0 sup2(4) unfolding V2 new
          by (auto simp: V'_def same_fs_def sup2(1) zok_def zfs_shape_def)
      qed
    qed
  qed
qed

end

text \<open>A device whose reads always succeed, like the RAM overlay of the live image.\<close>

locale reliable_device = zenovfs_device rd wr inv abs
  for rd :: "'s read_sector_fn" and wr :: "'s write_sector_fn"
    and inv :: "'s \<Rightarrow> bool" and abs :: "'s \<Rightarrow> bytes list" +
  assumes rd_total: "inv s \<Longrightarrow> unat lba < length (abs s) \<Longrightarrow> 512 \<le> length buf \<Longrightarrow>
      rd lba (Some buf) s = (r, out, s') \<Longrightarrow> block_ok r"
begin

lemma zfs_read_total:
  assumes "storage_ok g" and "512 \<le> length buf" and "unat lba < length (disk g)"
    and "zfs_read_sector lba buf g = (r, out, g')"
  shows "block_ok r"
proof -
  have dev: "inv (driver_state g)" "bd_present (ata0 g)" "bd_read_sector (ata0 g) = Some rd"
      "\<not> bd_sectors (ata0 g) \<le> lba"
    using assms(1,3) by (auto simp: storage_ok_def device_ok_def disk_def word_le_nat_alt)
  obtain r1 o1 s1 where call: "rd lba (Some buf) (driver_state g) = (r1, o1, s1)"
    by (cases "rd lba (Some buf) (driver_state g)") auto
  have "r = r1"
    using assms(4) block_device_read_driver [OF dev(2-4) call, of "zfs_io_state g"]
    by (simp add: zfs_read_sector_def)
  then show ?thesis using rd_total [OF dev(1) _ assms(2) call] assms(3) by (simp add: disk_def)
qed

lemma read_loop_total:
  assumes "zok st" and "i < entry_total (zf_super st)" and "base = data_sector (zf_super st) i"
    and "copied = sector * 512 \<or> copied = count" and "copied \<le> count" and "count \<le> slots (zf_super st) * 512"
    and "count \<le> length out" and "read_loop base sector copied count out st = (failed, out', st')"
  shows "failed = None"
  using assms
proof (induction base sector copied count out st rule: read_loop.induct)
  case (1 base sector copied count out st)
  note prems = "1.prems"
  note unfold = read_loop.simps [of base sector copied count out st]
  let ?s = "zf_super st"
  show ?case
  proof (cases "copied < count")
    case False
    then show ?thesis using prems(8) unfold by simp
  next
    case True
    then have copied: "copied = sector * 512" using prems(4) by auto
    have sok: "storage_ok (zf_storage st)" and geo: "geometry ?s (length (zdisk st))"
      and buf: "length (zf_sector_buffer st) = 512"
      using prems(1) by (auto simp: zok_def zfs_shape_def)
    have sector: "sector < slots ?s" using True copied prems(6) by linarith
    note at = data_base_bound [OF geo prems(2) sector]
    obtain read buffer g where rd: "zfs_read_sector (base + word_of_nat sector) (zf_sector_buffer st) (zf_storage st) =
        (read, buffer, g)" by (metis prod_cases3)
    have ok: "block_ok read"
      using zfs_read_total [OF sok _ _ rd] buf at(1,3) prems(3) by simp
    note rlaw = zfs_read [OF sok _ rd, unfolded buf]
    define st1 where "st1 = st\<lparr>zf_sector_buffer := buffer, zf_storage := g\<rparr>"
    define chunk where "chunk = (if count - copied > 512 then 512 else count - copied)"
    have st1: "zok st1" "zf_super st1 = ?s"
      using prems(1) rlaw by (auto simp: st1_def zok_def zfs_shape_def)
    have part: "copied + chunk \<le> count" "copied + chunk = (sector + 1) * 512 \<or> copied + chunk = count"
      "length (take chunk buffer) = chunk"
      using True rlaw(3) buf by (auto simp: chunk_def copied)
    have call: "read_loop base (sector + 1) (copied + chunk) count (blit copied (take chunk buffer) out) st1 =
        (failed, out', st')"
      using prems(8) True rd ok unfold by (simp add: st1_def chunk_def Let_def)
    show ?thesis
      using "1.IH" [OF True rd [symmetric] refl refl st1_def _ chunk_def] ok st1 prems part call by simp
  qed
qed

lemma read_file_total:
  assumes "zok st" and "files_intact (zdisk st) st" and "zf_mounted st"
    and "normalize_path (zf_current_directory st) (Some inp) = Some path"
    and "current_view (zdisk st) st path = Some (File data)" and "length data \<le> unat capacity"
    and "unat capacity \<le> length out"
    and "read_file_result (Some inp) (Some out) capacity st = (r, n, out', st')"
  shows "r = fs_success FopRead (word_of_nat (length data)) \<and> n = word_of_nat (length data) \<and>
         out' = Some (data @ drop (length data) out)"
proof -
  let ?s = "zf_super st" and ?d = "zdisk st"
  have geo: "geometry ?s (length ?d)" and sok: "storage_ok (zf_storage st)"
    using assms(1) by (auto simp: zok_def zfs_shape_def)
  obtain i where i: "find_entry ?s (zf_entries st) path = Some i"
    and ty: "ze_type (zf_entries st ! i) = zfs_type_file" and data: "data = file_data ?s ?d i (zf_entries st ! i)"
    using assms(5) by (auto simp: current_view_def view_def split: option.splits if_splits)
  let ?e = "zf_entries st ! i"
  have vis: "i < entry_total ?s" "entry_visible ?e" using find_entry_SomeD [OF geo i] by auto
  have intact: "fnv1a data = ze_checksum ?e" "ze_size ?e \<le> max_file_bytes ?s"
    using assms(2) vis ty data by (auto simp: files_intact_def)
  have size: "unat (ze_size ?e) \<le> slots ?s * 512"
    using intact(2) unat_max_file_bytes [of ?s] by (simp add: word_le_nat_alt)
  then have len: "length data = unat (ze_size ?e)"
    using length_slot_bytes [OF disk_wf [OF sok] geo vis(1)] by (simp add: data file_data_def)
  obtain failed o1 st1 where loop: "read_loop (data_sector ?s i) 0 0 (unat (ze_size ?e)) out st = (failed, o1, st1)"
    by (metis prod_cases3)
  have none: "failed = None"
    using read_loop_total [OF assms(1) vis(1) refl _ _ size _ loop] assms(6,7) len by simp
  have fits: "unat (ze_size ?e) \<le> length out" using assms(6,7) len by simp
  have o1: "o1 = data @ drop (length data) out"
    using read_loop [OF assms(1) vis(1) refl _ _ size fits loop] none len by (simp add: data file_data_def)
  have guards: "(capacity < ze_size ?e) = False" "(max_file_bytes ?s < ze_size ?e) = False"
    using assms(6) len intact(2) by (simp_all add: word_less_nat_alt word_le_nat_alt)
  show ?thesis
    using assms(3,4,8) i ty intact(1) loop none o1 len
    by (auto simp: read_file_result_def Let_def guards)
qed

text \<open>When writes succeed too, no operation on a valid file system can fail for the device.\<close>

definition writes_total :: bool where
  "writes_total \<longleftrightarrow> (\<forall>s lba buf r s'. inv s \<and> unat lba < length (abs s) \<and> 512 \<le> length buf \<and>
     wr lba (Some buf) s = (r, s') \<longrightarrow> block_ok r)"

lemma zfs_write_total:
  assumes "writes_total" and "storage_ok g" and "512 \<le> length buf" and "unat lba < length (disk g)"
    and "zfs_write_sector lba buf g = (r, g')"
  shows "block_ok r"
proof -
  have dev: "inv (driver_state g)" "bd_present (ata0 g)" "bd_writable (ata0 g)" "bd_write_sector (ata0 g) = Some wr"
      "\<not> bd_sectors (ata0 g) \<le> lba"
    using assms(2,4) by (auto simp: storage_ok_def device_ok_def disk_def word_le_nat_alt)
  obtain r1 s1 where call: "wr lba (Some buf) (driver_state g) = (r1, s1)"
    by (cases "wr lba (Some buf) (driver_state g)") auto
  have "r = r1"
    using assms(5) block_device_write_driver [OF dev(2-5) call, of "zfs_io_state g"]
    by (simp add: zfs_write_sector_def)
  then show ?thesis using assms(1,3,4) dev(1) call unfolding writes_total_def disk_def by blast
qed

lemma replace_entry_total:
  assumes "writes_total" and ok: "zok st" and i: "i < entry_total (zf_super st)" and wf: "entry_wf e"
    and call: "replace_entry_result i e op st = (r, st')"
  shows "fs_ok r \<and> fs_durable r"
proof -
  define st1 where "st1 = st\<lparr>zf_entries := (zf_entries st)[i := e]\<rparr>"
  have st: "storage_ok (zf_storage st)" "zfs_shape (zdisk st) st" using ok by (auto simp: zok_def)
  then have geo: "geometry (zf_super st) (length (zdisk st))" and buf: "length (zf_sector_buffer st) = 512"
    by (auto simp: zfs_shape_def)
  note tab = table_sector_bound [OF geo i]
  have len: "i < length (zf_entries st)" using zfs_shape_entry [OF st(2) i] by simp
  obtain read buffer g where rd: "zfs_read_sector (entry_sector i) (zf_sector_buffer st) (zf_storage st) = (read, buffer, g)"
    by (metis prod_cases3)
  have rok: "block_ok read" using zfs_read_total [OF st(1) _ _ rd] buf tab(2,4) by simp
  note rlaw = zfs_read [OF st(1) _ rd, unfolded buf]
  define out where "out = blit (entry_slot_offset i) (encode_entry e) buffer"
  have out: "length out = 512" using entry_slot_fits [of i] rlaw(3) buf wf by (simp add: out_def)
  obtain w g' where wr': "zfs_write_sector (entry_sector i) out g = (w, g')" by fastforce
  have wok: "block_ok w"
    using zfs_write_total [OF assms(1) rlaw(1) _ _ wr'] out tab(2,4) rlaw(2) by simp
  have "flush_entry_result i op st1 = (fs_success op 0, st1\<lparr>zf_sector_buffer := out, zf_storage := g'\<rparr>)"
    using i rd rok wr' wok len
    by (simp add: flush_entry_result_def st1_def entry_total_def [symmetric] out_def Let_def)
  then show ?thesis using call i by (auto simp: replace_entry_result_def st1_def entry_total_def Let_def)
qed

lemma recover_clear_total:
  assumes "writes_total" and "zok st" and "set is \<subseteq> {..<entry_total (zf_super st)}"
    and "recover_clear is k st = (x, st')"
  shows "\<exists>k'. x = Inr k'"
  using assms(2-4)
proof (induction "is" arbitrary: st k)
  case Nil
  then show ?case by (metis Pair_inject recover_clear.simps(1))
next
  case (Cons i "is")
  show ?case
  proof (cases "ze_used (zf_entries st ! i) = 0 \<or> ze_type (zf_entries st ! i) \<noteq> zfs_type_transaction")
    case True
    then show ?thesis using Cons by simp
  next
    case False
    obtain r st1 where call: "replace_entry_result i empty_entry FopRecover st = (r, st1)" by fastforce
    have i: "i < entry_total (zf_super st)" using Cons.prems(2) by simp
    have ok: "fs_ok r" using replace_entry_total [OF assms(1) Cons.prems(1) i entry_wf_empty call] by simp
    have moved: "table_moved st ((zf_entries st)[i := empty_entry]) st1"
      by (rule table_moved_replace [OF Cons.prems(1) i entry_wf_empty call ok])
    have "recover_clear is (k + 1) st1 = (x, st')" using Cons.prems(3) False call ok by (simp add: Let_def)
    then show ?thesis
      using Cons.IH [of st1] Cons.prems(2) moved by (auto simp: table_moved_def same_fs_def)
  qed
qed

lemma recover_commit_total:
  assumes "writes_total" and "zok st" and "set is \<subseteq> {..<entry_total (zf_super st)}"
    and "recover_commit is k st = (x, st')"
  shows "\<exists>k'. x = Inr k'"
  using assms(2-4)
proof (induction "is" arbitrary: st k)
  case Nil
  then show ?case by (metis Pair_inject recover_commit.simps(1))
next
  case (Cons i "is")
  let ?e = "zf_entries st ! i" and ?N = "entry_total (zf_super st)"
  have i: "i < ?N" using Cons.prems(2) by simp
  show ?case
  proof (cases "is_committed ?e")
    case False
    then show ?thesis using Cons by (auto simp: is_committed_def)
  next
    case True
    let ?old = "unat (ze_reserved ?e)"
    let ?cond = "?old < ?N \<and> ?old \<noteq> i \<and> ze_used (zf_entries st ! ?old) \<noteq> 0"
    obtain r1 st1 where c1: "(if ?cond then replace_entry_result ?old empty_entry FopRecover st
        else (fs_success FopRecover 0, st)) = (r1, st1)" by fastforce
    obtain r2 st2 where c2: "replace_entry_result i (finalized_entry ?e) FopRecover st1 = (r2, st2)" by fastforce
    have unfold: "recover_commit (i # is) k st = (if \<not> fs_ok r1 then (Inl r1, st1)
        else if \<not> fs_ok r2 then (Inl r2, st2) else recover_commit is (k + 1) st2)"
      using True c1 c2
      by (simp add: is_committed_def Let_def word_less_nat_alt entry_total_def [symmetric] cong: if_cong)
    have one: "fs_ok r1 \<and> zok st1 \<and> zf_super st1 = zf_super st"
    proof (cases ?cond)
      case True
      then have c: "replace_entry_result ?old empty_entry FopRecover st = (r1, st1)" using c1 by simp
      have "fs_ok r1" using replace_entry_total [OF assms(1) Cons.prems(1) _ entry_wf_empty c] True by simp
      then show ?thesis
        using table_moved_replace [OF Cons.prems(1) _ entry_wf_empty c] True
        by (auto simp: table_moved_def same_fs_def)
    next
      case False
      then show ?thesis using c1 Cons.prems(1) by auto
    qed
    have wf: "entry_wf (finalized_entry ?e)"
      using zfs_shape_entry [of "zdisk st", OF _ i] Cons.prems(1) by (simp add: zok_def)
    have two: "fs_ok r2 \<and> zok st2 \<and> zf_super st2 = zf_super st"
    proof -
      have ok: "zok st1" and i1: "i < entry_total (zf_super st1)" using one i by auto
      have "fs_ok r2" using replace_entry_total [OF assms(1) ok i1 wf c2] by simp
      then show ?thesis
        using table_moved_replace [OF ok i1 wf c2] one by (auto simp: table_moved_def same_fs_def)
    qed
    then have "recover_commit is (k + 1) st2 = (x, st')" using unfold Cons.prems(3) one by simp
    then show ?thesis using Cons.IH [of st2] Cons.prems(2) two by auto
  qed
qed

lemma recover_transactions_total:
  assumes "writes_total" and "zok st" and "recover_transactions_result st = (r, st')"
  shows "fs_ok r"
proof -
  let ?is = "[0..<entry_total (zf_super st)]"
  obtain x st1 where c1: "recover_clear ?is 0 st = (x, st1)" by fastforce
  then obtain k where x: "x = Inr k" using recover_clear_total [OF assms(1,2) _ c1] by (auto simp: atLeast0LessThan)
  have m1: "table_moved st (foldl clear_step (zf_entries st) ?is) st1"
    using c1 x assms(2) by (intro recover_clear_spec) auto
  then have st1: "zok st1" "zf_super st1 = zf_super st" by (auto simp: table_moved_def same_fs_def)
  obtain y st2 where c2: "recover_commit ?is k st1 = (y, st2)" by fastforce
  then obtain k' where "y = Inr k'" using recover_commit_total [OF assms(1) st1(1) _ c2] st1(2)
    by (auto simp: atLeast0LessThan)
  then show ?thesis
    using assms(3) c1 c2 x by (auto simp: recover_transactions_result_def entry_total_def)
qed

lemma load_sectors_total:
  assumes "storage_ok g" and "(sector + count) * 512 \<le> length raw" and "1 + sector + count \<le> length (disk g)"
    and "sector + count < 2 ^ 31" and "load_sectors count sector raw g = (failed, raw', g')"
  shows "failed = None"
  using assms
proof (induction count arbitrary: sector raw g)
  case (Suc count)
  let ?buf = "drop (sector * 512) raw"
  obtain r out g1 where call: "zfs_read_sector (1 + word_of_nat sector) ?buf g = (r, out, g1)"
    by (metis prod_cases3)
  have buf: "512 \<le> length ?buf" using Suc.prems(2) by simp
  have lba: "unat (1 + word_of_nat sector :: u32) = 1 + sector"
    using Suc.prems(4) by (subst unat_add_nowrap) (simp_all add: unat_of_nat_nowrap)
  have ok: "block_ok r" using zfs_read_total [OF Suc.prems(1) buf _ call] lba Suc.prems(3) by simp
  note law = zfs_read [OF Suc.prems(1) buf call]
  have "load_sectors count (sector + 1) (take (sector * 512) raw @ out) g1 = (failed, raw', g')"
    using Suc.prems(5) call ok by simp
  then show ?case using Suc.prems(2-4) law(1-3) by (intro Suc.IH) auto
qed simp

lemma mount_total:
  assumes "writes_total" and ok: "storage_ok (zf_storage st)" and swf: "super_wf (zf_super st)"
    and buf: "length (zf_sector_buffer st) = 512" and some: "0 < length (zdisk st)"
  defines "s \<equiv> decode_super (zdisk st ! 0)"
  assumes valid: "zs_magic s = zfs_magic" "zs_version s = 1"
      "mount_layout_valid s (bd_sectors (ata0 (zf_storage st)))"
    and alloc: "allocate (max_file_bytes s) \<noteq> None"
    and call: "mount_result allocate st = (r, st')"
  shows "fs_ok r"
proof -
  obtain sr raw g where rd: "zfs_read_sector 0 (encode_super (zf_super st)) (zf_storage st) = (sr, raw, g)"
    by (metis prod_cases3)
  have enc: "length (encode_super (zf_super st)) = 512" using swf by simp
  have sok: "block_ok sr" using zfs_read_total [OF ok _ _ rd] enc some by simp
  note rlaw = zfs_read [OF ok _ rd, unfolded enc]
  have raw: "raw = zdisk st ! 0" using rlaw(5) sok enc by simp
  have geo: "geometry s (length (zdisk st))"
    using mount_layout_geometry [OF valid(3)] storage_sectors [OF ok] by simp
  define st1 where "st1 = st\<lparr>zf_mounted := False, zf_super := s, zf_storage := g\<rparr>"
  obtain lr st2 where ld: "load_entries_result st1 = (lr, st2)" by fastforce
  have lok: "fs_ok lr"
  proof -
    let ?es = "unat (zs_entry_sectors s)"
    obtain failed raw' g' where ls: "load_sectors ?es 0 (replicate (zfs_max_entries * 64) 0) g = (failed, raw', g')"
      by (metis prod_cases3)
    have N: "entry_total s \<le> 128" "?es = (entry_total s + 7) div 8" "1 + ?es \<le> length (zdisk st)"
      using geo by (auto simp: geometry_def zfs_max_entries_def data_base_def)
    then have "?es \<le> 16" by linarith
    then have "failed = None"
      using load_sectors_total [OF rlaw(1) _ _ _ ls] N(3) rlaw(2) by (simp add: zfs_max_entries_def)
    then show ?thesis using ld ls by (auto simp: load_entries_result_def st1_def)
  qed
  have st1: "storage_ok (zf_storage st1)" "geometry (zf_super st1) (length (zdisk st1))"
    using rlaw(1,2) geo by (simp_all add: st1_def)
  note load = load_entries_spec [OF st1 ld lok]
  have sup2: "zf_super st2 = s" "zf_sector_buffer st2 = zf_sector_buffer st"
    using load(4) by (metis st1_def zfs.select_convs zfs.surjective zfs.update_convs)+
  define st3 where "st3 = st2\<lparr>zf_file_buffer := allocate (max_file_bytes s)\<rparr>"
  have "length raw = 512" using rlaw(3) enc by simp
  then have ok3: "zok st3"
    using load(1,2,5,6) geo buf sup2 raw rlaw(2)
    by (simp add: zok_def zfs_shape_def st3_def s_def st1_def)
  obtain rr st4 where rc: "recover_transactions_result st3 = (rr, st4)" by fastforce
  have "fs_ok rr" by (rule recover_transactions_total [OF assms(1) ok3 rc])
  moreover have "bd_present (ata0 (zf_storage st))" using ok by (simp add: storage_ok_def device_ok_def)
  moreover have "mount_layout_valid s (bd_sectors (ata0 g))" using valid(3) rlaw(4) by simp
  moreover have "decode_super raw = s" by (simp add: raw s_def)
  ultimately have "mount_result allocate st =
      (fs_success FopMount (fs_bytes rr), st4\<lparr>zf_mounted := True, zf_current_directory := ''/''\<rparr>)"
    using rd sok valid(1,2) ld lok alloc rc sup2(1)
    by (auto simp: mount_result_def st1_def st3_def Let_def)
  then show ?thesis using call by simp
qed

lemma write_loop_total:
  assumes "writes_total" and "zok st" and "i < entry_total (zf_super st)"
    and "base = data_sector (zf_super st) i" and "written = sector * 512 \<or> written = total_bytes"
    and "written \<le> total_bytes" and "total_bytes \<le> slots (zf_super st) * 512" and "total_bytes \<le> length fb"
    and "write_loop base sector written total_bytes fb st = (failed, st')"
  shows "failed = None"
  using assms(2-9)
proof (induction base sector written total_bytes fb st rule: write_loop.induct)
  case (1 base sector written total_bytes fb st)
  note prems = "1.prems"
  let ?s = "zf_super st"
  note unfold = write_loop.simps [of base sector written total_bytes fb st]
  show ?case
  proof (cases "written < total_bytes")
    case False
    then show ?thesis using prems(8) unfold by simp
  next
    case True
    then have written: "written = sector * 512" using prems(4) by auto
    have sok: "storage_ok (zf_storage st)" and geo: "geometry ?s (length (zdisk st))"
      using prems(1) by (auto simp: zok_def zfs_shape_def)
    have sector: "sector < slots ?s" using True written prems(6) by linarith
    note at = data_base_bound [OF geo prems(2) sector]
    define chunk where "chunk = (if total_bytes - written > 512 then 512 else total_bytes - written)"
    define buffer where "buffer = blit 0 (take chunk (drop written fb)) (replicate 512 (0 :: byte))"
    have part: "chunk \<le> 512" "written + chunk \<le> total_bytes"
      "written + chunk = (sector + 1) * 512 \<or> written + chunk = total_bytes"
      using True by (auto simp: chunk_def written)
    have buf: "length buffer = 512" using part prems(7) by (simp add: buffer_def)
    obtain w g where wr': "zfs_write_sector (base + word_of_nat sector) buffer (zf_storage st) = (w, g)"
      by fastforce
    have wok: "block_ok w" using zfs_write_total [OF assms(1) sok _ _ wr'] buf at(1,3) prems(3) by simp
    note wlaw = zfs_write [OF sok _ wr', unfolded buf]
    define st1 where "st1 = st\<lparr>zf_sector_buffer := buffer, zf_storage := g\<rparr>"
    have "length (zdisk st1) = length (zdisk st)" using wlaw(3) wok by (simp add: st1_def)
    then have st1: "zok st1" "zf_super st1 = ?s"
      using prems(1) wlaw(1) buf by (auto simp: st1_def zok_def zfs_shape_def)
    have call: "write_loop base (sector + 1) (written + chunk) total_bytes fb st1 = (failed, st')"
      using prems(8) True wr' wok unfold by (simp add: Let_def chunk_def buffer_def st1_def)
    show ?thesis
      using "1.IH" [OF True chunk_def buffer_def wr' [symmetric] refl st1_def] wok st1 prems part call by simp
  qed
qed

lemma publish_entry_total:
  assumes "writes_total" and ok: "zok st" and g: "g < entry_total (zf_super st)" and wf: "entry_wf stage"
    and old: "\<forall>o'\<in>set_option old. o' < entry_total (zf_super st)"
    and call: "publish_entry old g total_bytes stage st = (r, st')"
  shows "r = fs_success FopWrite (word_of_nat total_bytes)"
proof -
  have step: "fs_ok r1 \<and> zok st1 \<and> zf_super st1 = zf_super st0"
    if "zok st0" "i < entry_total (zf_super st0)" "entry_wf e" "replace_entry_result i e FopWrite st0 = (r1, st1)"
    for i e st0 st1 r1
    using replace_entry_total [OF assms(1) that] table_moved_replace [OF that]
    by (auto simp: table_moved_def same_fs_def)
  define c where "c = stage\<lparr>ze_type := zfs_type_file, ze_flags := zfs_flag_committed\<rparr>"
  define f where "f = stage\<lparr>ze_type := zfs_type_file, ze_flags := 0, ze_reserved := 0\<rparr>"
  have wfs: "entry_wf c" "entry_wf f" using wf by (simp_all add: c_def f_def entry_wf_def)
  obtain m1 st1 where c1: "replace_entry_result g stage FopWrite st = (m1, st1)" by fastforce
  have s1: "fs_ok m1" "zok st1" "zf_super st1 = zf_super st" using step [OF ok g wf c1] by auto
  obtain m2 st2 where c2: "replace_entry_result g c FopWrite st1 = (m2, st2)" by fastforce
  have s2: "fs_ok m2" "zok st2" "zf_super st2 = zf_super st" using step [OF s1(2) _ wfs(1) c2] s1(3) g by auto
  obtain m3 st3 where c3: "(case old of Some o' \<Rightarrow> replace_entry_result o' empty_entry FopWrite st2
      | None \<Rightarrow> (fs_success FopWrite 0, st2)) = (m3, st3)" by fastforce
  have s3: "fs_ok m3" "zok st3" "zf_super st3 = zf_super st"
    using c3 s2 old step [OF s2(2) _ entry_wf_empty] by (cases old; auto)+
  obtain m4 st4 where c4: "replace_entry_result g f FopWrite st3 = (m4, st4)" by fastforce
  have s4: "fs_ok m4" using step [OF s3(2) _ wfs(2) c4] s3(3) g by auto
  show ?thesis
    using call c1 c2 c3 c4 s1(1) s2(1) s3(1) s4 by (simp add: publish_entry_def c_def f_def Let_def)
qed

lemma write_file_total:
  fixes st :: "'s zfs"
  defines "s \<equiv> zf_super st"
  assumes wt: "writes_total" and sok: "storage_ok (zf_storage st)" and con: "fs_consistent (zdisk st) st"
    and mounted: "zf_mounted st"
    and path: "normalize_path (zf_current_directory st) (Some inp) = Some path" and root: "path \<noteq> ''/''"
    and short: "length path \<le> 47" and parent: "parent_exists s (zf_entries st) path"
    and kind: "current_view (zdisk st) st path \<noteq> Some Directory"
    and room: "unat count \<le> unat (max_file_bytes s)"
    and free: "free_entry s (zf_entries st) (old_word (find_entry s (zf_entries st) path)) \<noteq> None"
    and count: "unat count \<le> length bs"
    and call: "write_file_result (Some inp) (DataBytes bs) count False st = (r, st')"
  shows "r = fs_success FopWrite count"
proof -
  define old where "old = find_entry s (zf_entries st) path"
  have geo: "geometry s (length (zdisk st))" and shape: "zfs_shape (zdisk st) st"
    using con by (auto simp: fs_consistent_def zfs_shape_def s_def)
  obtain fb0 where fb0: "zf_file_buffer st = Some fb0" "unat (max_file_bytes s) \<le> length fb0"
    using con by (auto simp: fs_consistent_def s_def)
  obtain g where g: "free_entry s (zf_entries st) (old_word old) = Some g" using free by (auto simp: old_def)
  have gN: "g < entry_total s" using free_entry_SomeD [OF geo g] by simp
  define fb where "fb = blit 0 (take (unat count) bs) fb0"
  define st1 where "st1 = st\<lparr>zf_file_buffer := Some fb\<rparr>"
  have st1: "zok st1" "zf_super st1 = s" "zf_entries st1 = zf_entries st"
    using sok shape by (auto simp: st1_def zok_def zfs_shape_def s_def)
  have kind': "\<forall>i\<in>set_option old. ze_type (zf_entries st ! i) = zfs_type_file"
    using kind by (auto simp: current_view_def view_def old_def s_def split: if_splits)
  have guard: "(max_file_bytes s < 0) = False" "(max_file_bytes s < count) = False"
    using room by (simp_all add: word_less_nat_alt)
  have store: "store_file path old (unat count) fb st1 = (r, st')"
  proof -
    have "zf_super st = s" "find_entry s (zf_entries st) path = old" by (simp_all add: s_def old_def)
    then show ?thesis
      using call mounted path root parent kind' guard fb0(1)
      by (cases old) (auto simp: write_file_result_def Let_def st1_def fb_def)
  qed
  have fits: "unat count \<le> slots s * 512" "unat count \<le> length fb"
    using room unat_max_file_bytes [of s] fb0(2) count by (simp_all add: fb_def)
  obtain failed st2 where loop: "write_loop (data_sector s g) 0 0 (unat count) fb st1 = (failed, st2)"
    by fastforce
  have none: "failed = None"
    using write_loop_total [OF wt st1(1) _ _ _ _ _ fits(2) loop, unfolded st1(2), OF gN refl _ _ fits(1)] by simp
  have st2: "zok st2 \<and> zf_super st2 = s"
    using write_loop [OF st1(1) _ _ _ _ _ fits(2) loop, unfolded st1(2), OF gN refl _ _ fits(1)] st1(2)
    by (simp add: same_fs_def)
  have pc: "path_copy (replicate 48 0) path 48 \<noteq> None" using short by (simp add: path_copy_def)
  have pub: "publish_entry old g (unat count) (stage_entry path (unat count) (fnv1a (take (unat count) fb)) old) st2 = (r, st')"
    using store g loop none pc st1 by (auto simp: store_file_def)
  have "\<forall>o'\<in>set_option old. o' < entry_total s"
    using find_entry_SomeD [OF geo, of "zf_entries st" path] by (auto simp: old_def)
  then have "r = fs_success FopWrite (word_of_nat (unat count))"
    using st2 gN short
    by (intro publish_entry_total [OF wt _ _ _ _ pub]) (auto simp: stage_entry_def entry_wf_def)
  then show ?thesis by simp
qed

end

end
