(* ===== verification/ZenovFS_Paths.thy ===== *)
theory ZenovFS_Paths
  imports ZenovFS_Core
begin

text \<open>
  \<open>normalize_path\<close> against a reference definition: split the combined path into components, resolve
  \<open>.\<close> and \<open>..\<close> on a stack, and print the stack. The buffers of the C++ code (96 bytes combined, 48
  bytes output, 16 start positions) only make it refuse, never change the answer.
\<close>

section \<open>Reference definition\<close>

abbreviation slash :: char where "slash \<equiv> CHR ''/''"

function path_components :: "string \<Rightarrow> string list" where
  "path_components xs =
     (let ys = dropWhile (\<lambda>c. c = slash) xs
      in if ys = [] then []
         else takeWhile (\<lambda>c. c \<noteq> slash) ys # path_components (dropWhile (\<lambda>c. c \<noteq> slash) ys))"
  by pat_completeness auto
termination
  by (relation "measure length") (auto intro: normalize_loop_decreases)

declare path_components.simps [simp del]

definition resolve_step :: "string list \<Rightarrow> string \<Rightarrow> string list" where
  "resolve_step stack c =
     (if c = ''.'' then stack else if c = ''..'' then butlast stack else stack @ [c])"

definition resolve_path :: "string \<Rightarrow> string list" where
  "resolve_path combined = foldl resolve_step [] (path_components combined)"

definition render_path :: "string list \<Rightarrow> string" where
  "render_path cs = (if cs = [] then ''/'' else concat (map (\<lambda>c. slash # c) cs))"

definition good_component :: "string \<Rightarrow> bool" where
  "good_component c \<longleftrightarrow> c \<noteq> [] \<and> slash \<notin> set c \<and> c \<noteq> ''.'' \<and> c \<noteq> ''..''"

section \<open>The loop\<close>

definition starts_of :: "string list \<Rightarrow> nat list" where
  "starts_of cs = map (\<lambda>i. if i = 0 then 1 else length (render_path (take i cs)) + 1) [0..<length cs]"

lemma starts_of_Nil [simp]: "starts_of [] = []"
  by (simp add: starts_of_def)

lemma length_starts_of [simp]: "length (starts_of cs) = length cs"
  by (simp add: starts_of_def)

lemma starts_of_snoc:
  "starts_of (cs @ [c]) = starts_of cs @ [if cs = [] then 1 else length (render_path cs) + 1]"
  by (auto simp: starts_of_def intro!: map_cong)

lemma render_snoc:
  "render_path (cs @ [c]) = (if cs = [] then '''' else render_path cs) @ slash # c"
  by (simp add: render_path_def)

lemma render_eq_root: "\<forall>c\<in>set cs. good_component c \<Longrightarrow> render_path cs = ''/'' \<longleftrightarrow> cs = []"
  by (cases cs) (auto simp: render_path_def good_component_def)

lemma length_render_1: "\<forall>c\<in>set cs. good_component c \<Longrightarrow> length (render_path cs) = 1 \<longleftrightarrow> cs = []"
  by (cases cs) (auto simp: render_path_def good_component_def)

lemma component_good:
  assumes "dropWhile (\<lambda>c. c = slash) xs \<noteq> []"
    and "c = takeWhile (\<lambda>c. c \<noteq> slash) (dropWhile (\<lambda>c. c = slash) xs)" and "c \<noteq> ''.''" and "c \<noteq> ''..''"
  shows "good_component c"
proof -
  obtain y ys where y: "dropWhile (\<lambda>c. c = slash) xs = y # ys" using assms(1) by (meson neq_Nil_conv)
  then have "y \<noteq> slash" using hd_dropWhile [OF assms(1)] by simp
  then have "c \<noteq> []" using assms(2) y by simp
  moreover have "slash \<notin> set c" using assms(2) by (auto dest: set_takeWhileD)
  ultimately show ?thesis using assms(3,4) by (simp add: good_component_def)
qed

lemma resolve_step_good:
  "\<forall>c\<in>set st. good_component c \<Longrightarrow> good_component c \<or> c = ''.'' \<or> c = ''..'' \<Longrightarrow>
     \<forall>c\<in>set (resolve_step st c). good_component c"
  by (auto simp: resolve_step_def good_component_def dest: in_set_butlastD)

text \<open>The buffers the loop works on, for a stack of components.\<close>

definition stack_ok :: "string list \<Rightarrow> bool" where
  "stack_ok st \<longleftrightarrow> (\<forall>c\<in>set st. good_component c) \<and> length (render_path st) \<le> 47 \<and> length st \<le> 16"

lemma pop_stack:
  assumes "stack_ok (st @ [c])"
  shows "take (if last (starts_of (st @ [c])) = 1 then 1 else last (starts_of (st @ [c])) - 1)
           (render_path (st @ [c])) = render_path st"
    and "stack_ok st"
proof -
  have good: "\<forall>c\<in>set st. good_component c" using assms by (simp add: stack_ok_def)
  then have "length (render_path st) \<noteq> 0" by (cases st) (auto simp: render_path_def)
  then show "take (if last (starts_of (st @ [c])) = 1 then 1 else last (starts_of (st @ [c])) - 1)
           (render_path (st @ [c])) = render_path st"
    by (auto simp: starts_of_snoc render_snoc render_path_def)
  show "stack_ok st"
    using assms good by (auto simp: stack_ok_def render_snoc render_path_def split: if_splits)
qed

lemma stack_ok_prefix: "stack_ok (st @ cs) \<Longrightarrow> stack_ok st"
proof (induction cs rule: rev_induct)
  case (snoc c cs)
  then show ?case using pop_stack(2) [of "st @ cs" c] by simp
qed simp

lemma push_stack:
  assumes "stack_ok st" and "good_component c" and "length st < 16"
  shows "(case (if render_path st \<noteq> ''/'' then path_append (render_path st) ''/'' 48 else Some (render_path st)) of
            None \<Rightarrow> None
          | Some output \<Rightarrow> (case path_append output c 48 of None \<Rightarrow> None | Some output \<Rightarrow> f output)) =
         (if length (render_path (st @ [c])) \<le> 47 then f (render_path (st @ [c])) else None)"
proof (cases "st = []")
  case True
  then show ?thesis using assms(2) by (auto simp: render_path_def path_append_def good_component_def)
next
  case False
  then have "render_path st \<noteq> ''/''" using assms(1) render_eq_root by (auto simp: stack_ok_def)
  then show ?thesis using False assms(2) by (auto simp: render_snoc path_append_def good_component_def)
qed

lemma normalize_loop_step:
  assumes "dropWhile (\<lambda>c. c = slash) xs = ys" and "ys \<noteq> []"
    and "takeWhile (\<lambda>c. c \<noteq> slash) ys = c" and "dropWhile (\<lambda>c. c \<noteq> slash) ys = rest"
  shows "normalize_loop xs output starts =
     (if length c + 1 > 48 then None
      else if c = ''.'' then normalize_loop rest output starts
      else if c = ''..''
      then if starts \<noteq> []
           then normalize_loop rest (take (if last starts = 1 then 1 else last starts - 1) output) (butlast starts)
           else normalize_loop rest output starts
      else if length starts \<ge> 16 then None
      else case (if output \<noteq> ''/'' then path_append output ''/'' 48 else Some output) of
             None \<Rightarrow> None
           | Some output' \<Rightarrow>
               (case path_append output' c 48 of
                  None \<Rightarrow> None
                | Some output' \<Rightarrow>
                    normalize_loop rest output' (starts @ [if length output = 1 then 1 else length output + 1])))"
proof -
  have "xs \<noteq> []" using assms(1,2) by auto
  then show ?thesis
    by (subst normalize_loop.simps) (simp only: assms Let_def if_False)
qed

lemma normalize_loop_sound:
  assumes "stack_ok st" and "normalize_loop combined (render_path st) (starts_of st) = Some p"
  shows "p = render_path (foldl resolve_step st (path_components combined)) \<and>
         stack_ok (foldl resolve_step st (path_components combined))"
  using assms
proof (induction combined arbitrary: st rule: path_components.induct)
  case (1 xs)
  let ?ys = "dropWhile (\<lambda>c. c = slash) xs"
  let ?c = "takeWhile (\<lambda>c. c \<noteq> slash) ?ys" and ?rest = "dropWhile (\<lambda>c. c \<noteq> slash) ?ys"
  show ?case
  proof (cases "?ys = []")
    case True
    then have "p = render_path st"
      using "1.prems"(2) by (subst (asm) normalize_loop.simps) (simp add: Let_def del: dropWhile_eq_Nil_conv split: if_splits)
    then show ?thesis using True "1.prems"(1) by (simp add: path_components.simps [of xs])
  next
    case False
    have comps: "path_components xs = ?c # path_components ?rest"
      using False by (subst path_components.simps) (simp add: Let_def del: dropWhile_eq_Nil_conv)
    note unfold = normalize_loop_step [OF refl False refl refl, of "render_path st" "starts_of st"]
    have step: "stack_ok (resolve_step st ?c) \<and>
        normalize_loop ?rest (render_path (resolve_step st ?c)) (starts_of (resolve_step st ?c)) = Some p"
    proof -
      have len: "\<not> length ?c + 1 > 48" using "1.prems"(2) unfold by (auto split: if_splits)
      consider (dot) "?c = ''.''" | (dots) "?c = ''..''" "st \<noteq> []" | (root) "?c = ''..''" "st = []"
        | (name) "?c \<noteq> ''.''" "?c \<noteq> ''..''" by blast
      then show ?thesis
      proof cases
        case dot
        then show ?thesis using "1.prems" unfold len by (simp add: resolve_step_def)
      next
        case root
        then show ?thesis using "1.prems" unfold len by (simp add: resolve_step_def)
      next
        case dots
        obtain st0 c0 where st: "st = st0 @ [c0]" using dots(2) by (meson rev_exhaust)
        have "starts_of st \<noteq> []" using dots(2) by (metis length_0_conv length_starts_of)
        then have "normalize_loop ?rest (take (if last (starts_of st) = 1 then 1 else last (starts_of st) - 1)
            (render_path st)) (butlast (starts_of st)) = Some p"
          using "1.prems"(2) dots unfold len by simp
        moreover have "take (if last (starts_of st) = 1 then 1 else last (starts_of st) - 1) (render_path st) =
            render_path st0" and "stack_ok st0"
          using pop_stack [of st0 c0] "1.prems"(1) unfolding st by blast+
        moreover have "butlast (starts_of st) = starts_of st0" by (simp add: st starts_of_snoc)
        ultimately show ?thesis using dots by (simp add: st resolve_step_def)
      next
        case name
        have good: "good_component ?c" using False name by (intro component_good) auto
        have few: "length st < 16" using "1.prems"(2) name len unfold by (auto split: if_splits)
        define starts' where "starts' = starts_of st @ [if length (render_path st) = 1 then 1 else length (render_path st) + 1]"
        have starts': "starts' = starts_of (st @ [?c])"
          using "1.prems"(1) length_render_1 [of st] by (simp add: starts'_def starts_of_snoc stack_ok_def)
        have "normalize_loop xs (render_path st) (starts_of st) =
            (if length (render_path (st @ [?c])) \<le> 47
             then normalize_loop ?rest (render_path (st @ [?c])) starts' else None)"
          unfolding push_stack [OF "1.prems"(1) good few, of "\<lambda>o'. normalize_loop ?rest o' starts'", symmetric]
          using name len few unfold [folded starts'_def] by simp
        then show ?thesis
          using "1.prems" good few name by (auto simp: starts' resolve_step_def stack_ok_def split: if_splits)
      qed
    qed
    then show ?thesis
      unfolding comps foldl_Cons using "1.IH" [OF refl False, of "resolve_step st ?c"] by blast
  qed
qed

lemma normalize_loop_good:
  assumes "\<forall>c\<in>set cs. good_component c" and "stack_ok (st @ cs)"
  shows "normalize_loop (concat (map (\<lambda>c. slash # c) cs)) (render_path st) (starts_of st) =
         Some (render_path (st @ cs))"
  using assms
proof (induction cs arbitrary: st)
  case Nil
  then show ?case by (simp add: normalize_loop.simps)
next
  case (Cons c cs)
  let ?rest = "concat (map (\<lambda>c. slash # c) cs)"
  have good: "good_component c" "slash \<notin> set c" "c \<noteq> []" using Cons.prems(1) by (auto simp: good_component_def)
  have parts: "stack_ok st" "stack_ok (st @ [c])"
    using stack_ok_prefix [of st "c # cs"] stack_ok_prefix [of "st @ [c]" cs] Cons.prems(2) by auto
  have few: "length st < 16" using parts(2) by (simp add: stack_ok_def)
  have len: "length c \<le> 47" using parts(2) by (auto simp: stack_ok_def render_snoc split: if_splits)
  have drop1: "dropWhile (\<lambda>c. c = slash) (slash # c @ ?rest) = c @ ?rest"
    using good(2,3) by (cases c) auto
  have take2: "takeWhile (\<lambda>c. c \<noteq> slash) (c @ ?rest) = c"
    using good(2) by (subst takeWhile_append2) (auto, cases cs, auto)
  have drop2: "dropWhile (\<lambda>c. c \<noteq> slash) (c @ ?rest) = ?rest"
    using good(2) by (subst dropWhile_append2) (auto, cases cs, auto)
  define starts' where "starts' = starts_of st @ [if length (render_path st) = 1 then 1 else length (render_path st) + 1]"
  have starts': "starts' = starts_of (st @ [c])"
    using parts(1) length_render_1 [of st] by (simp add: starts'_def starts_of_snoc stack_ok_def)
  have ne: "c @ ?rest \<noteq> []" using good(3) by simp
  have "normalize_loop (slash # c @ ?rest) (render_path st) (starts_of st) =
      (if length (render_path (st @ [c])) \<le> 47
       then normalize_loop ?rest (render_path (st @ [c])) starts' else None)"
    unfolding push_stack [OF parts(1) good(1) few, of "\<lambda>o'. normalize_loop ?rest o' starts'", symmetric]
    using good(1) len few normalize_loop_step [OF drop1 ne take2 drop2, of "render_path st" "starts_of st",
        folded starts'_def]
    by (simp add: good_component_def)
  then show ?case
    using Cons parts(2) by (simp add: starts' stack_ok_def)
qed

section \<open>Results\<close>

lemma normalize_path_Some:
  assumes "normalize_path cwd (Some inp) = Some p"
  obtains combined where "combine_path cwd inp = Some combined" and "p = render_path (resolve_path combined)"
    and "stack_ok (resolve_path combined)"
proof -
  obtain combined where c: "combine_path cwd inp = Some combined" "normalize_loop combined ''/'' [] = Some p"
    using assms by (auto simp: normalize_path_def split: if_splits option.splits)
  have "stack_ok []" by (simp add: stack_ok_def render_path_def)
  from normalize_loop_sound [OF this, of combined p] c(2)
  have "p = render_path (resolve_path combined) \<and> stack_ok (resolve_path combined)"
    by (simp add: resolve_path_def render_path_def)
  with c(1) that show ?thesis by blast
qed

lemma normalize_path_rendered:
  assumes "stack_ok cs" and "\<not> starts_with (render_path cs) ''/data''"
  shows "normalize_path cwd (Some (render_path cs)) = Some (render_path cs)"
proof -
  have hd: "render_path cs \<noteq> []" "hd (render_path cs) = slash"
    by (cases cs; simp add: render_path_def)+
  have "length (render_path cs) \<le> 47" using assms(1) by (simp add: stack_ok_def)
  then have comb: "combine_path cwd (render_path cs) = Some (render_path cs)"
    using assms(2) hd by (simp add: combine_path_def)
  have "normalize_loop (render_path cs) ''/'' [] = Some (render_path cs)"
  proof (cases "cs = []")
    case True
    then show ?thesis by (simp add: render_path_def normalize_loop.simps)
  next
    case False
    then show ?thesis
      using normalize_loop_good [of cs "[]"] assms(1) by (simp add: render_path_def stack_ok_def)
  qed
  then show ?thesis using comb hd(1) by (simp add: normalize_path_def)
qed

text \<open>
  C27: \<open>normalize_path\<close> agrees with the reference definition. When it returns a path, that path is the
  combined path with \<open>.\<close>, \<open>..\<close>, empty components and trailing slashes resolved: it starts at the
  root, every component is a real name, and with its terminator it fits the 48 bytes of an entry.
\<close>

theorem normalize_path_canonical:
  assumes "normalize_path cwd (Some inp) = Some p"
  shows "\<exists>combined. combine_path cwd inp = Some combined \<and> p = render_path (resolve_path combined) \<and>
           (\<forall>c\<in>set (resolve_path combined). good_component c) \<and> length p + 1 \<le> 48"
  using assms by (auto elim!: normalize_path_Some simp: stack_ok_def)

theorem normalize_path_canonical_witness:
  "normalize_path ''/home/docs'' (Some ''./a//../b/'') = Some ''/home/docs/b'' \<and> length ''/home/docs/b'' + 1 \<le> 48"
proof -
  have "normalize_path ''/home/docs'' (Some ''./a//../b/'') = Some ''/home/docs/b''" by code_simp
  then show ?thesis using normalize_path_canonical by blast
qed

text \<open>
  A stored path is not always a fixed point: a directory \<open>data\<close> under the root makes a path that
  names another file when it is normalised again, as the append path of \<open>write_file_result\<close>,
  \<open>touch_result\<close> and the integrity check do.
\<close>

lemma normalize_path_not_idempotent:
  "normalize_path ''/'' (Some ''/data/data/log'') = Some ''/data/log''"
  "normalize_path ''/'' (Some ''/data/log'') = Some ''/log''"
  by code_simp+

end
