(* ===== verification/ZenovFS_Device.thy ===== *)
theory ZenovFS_Device
  imports Live_Image ZenovFS ZenovFS_Paths
begin

text \<open>
  ZenovFS on its devices: the interpretation of the file system's locale on the live image device,
  and the properties of the file system. The statements speak of a device through its driver
  functions, its invariant and its contents; \<open>driver_installed\<close> says that the storage globals
  route requests to that driver. The RAM disk at the end only serves the witnesses.
\<close>

section \<open>Devices\<close>

definition driver_installed ::
    "'s read_sector_fn \<Rightarrow> 's write_sector_fn \<Rightarrow> ('s \<Rightarrow> bool) \<Rightarrow> ('s \<Rightarrow> bytes list) \<Rightarrow> 's storage \<Rightarrow> bool" where
  "driver_installed rd wr dinv dabs g \<longleftrightarrow>
     dinv (driver_state g) \<and> bd_present (ata0 g) \<and> bd_writable (ata0 g) \<and>
     bd_read_sector (ata0 g) = Some rd \<and> bd_write_sector (ata0 g) = Some wr \<and>
     unat (bd_sectors (ata0 g)) = length (dabs (driver_state g))"

definition contents :: "('s \<Rightarrow> bytes list) \<Rightarrow> 's zfs \<Rightarrow> bytes list" where
  "contents dabs st = dabs (driver_state (zf_storage st))"

text \<open>A device that performs every write inside its bounds.\<close>

definition device_writes :: "'s write_sector_fn \<Rightarrow> ('s \<Rightarrow> bool) \<Rightarrow> ('s \<Rightarrow> bytes list) \<Rightarrow> bool" where
  "device_writes wr dinv dabs \<longleftrightarrow>
     (\<forall>s lba buf r s'. dinv s \<and> unat lba < length (dabs s) \<and> 512 \<le> length buf \<and>
        wr lba (Some buf) s = (r, s') \<longrightarrow> block_ok r)"

lemma outcome_requested:
  assumes "normalize_path cwd (Some inp) = Some path" and "append_mode \<longrightarrow> \<not> starts_with path ''/data''"
  shows "outcome_contents cwd V path append_mode new = written_contents (V path) append_mode new"
  by (rule outcome_written) (use assms normalize_path_rendered in \<open>auto elim!: normalize_path_Some\<close>)

text \<open>The exception is real: an append to \<open>/data/log\<close> stores the contents of \<open>/log\<close>, or does nothing.\<close>

lemma append_under_data:
  assumes "V ''/data/log'' = Some (File old)" and "old \<noteq> []" and "V ''/log'' = Some (File c)"
  shows "outcome_contents ''/'' V ''/data/log'' True new = (if length c = length old then c @ new else old)"
  using assms normalize_path_not_idempotent(2) by (simp add: outcome_contents_def)

context zenovfs_device
begin

lemma storage_installed:
  "storage_ok (zf_storage st) = driver_installed rd wr inv abs (zf_storage st)"
  "disk (zf_storage st) = contents abs st"
  by (simp_all add: storage_ok_def device_ok_def driver_installed_def disk_def contents_def)

text \<open>A reboot and a mount, and the same after a write.\<close>

lemma reboot_mount:
  assumes ok: "storage_ok (zf_storage st)" and fresh: "super_wf (zf_super st)" "length (zf_sector_buffer st) = 512"
    and mnt: "mount_result allocate st = (m, st')" "fs_ok m"
  defines "s \<equiv> decode_super (zdisk st ! 0)"
  shows "current_view (zdisk st') st' = recovered_view s (zdisk st)"
    and "recovered_intact s (zdisk st) \<Longrightarrow> files_intact (zdisk st') st'"
proof -
  note m = mount_spec [OF ok fresh mnt, folded s_def]
  have geo: "geometry s (length (zdisk st'))" using m(1,2) by (simp add: zok_def zfs_shape_def)
  have "current_view (zdisk st') st' = view s (zdisk st') (disk_table s (zdisk st'))"
    using m(2,7) view_take [OF geo] by (simp add: current_view_def table_synced_def)
  also have "\<dots> = recovered_view s (zdisk st)"
    unfolding recovered_view_def m(9) using m(8) by (intro ext view_cong [OF geo]) (auto simp: metadata_frame_def)
  finally show "current_view (zdisk st') st' = recovered_view s (zdisk st)" .
  show "files_intact (zdisk st') st'" if "recovered_intact s (zdisk st)"
  proof -
    have "table_intact s (zdisk st) (disk_table s (zdisk st'))" using that by (simp add: recovered_intact_def m(9))
    then have "table_intact s (zdisk st') (disk_table s (zdisk st'))"
      by (rule table_intact_update) (use m(8) in \<open>simp add: metadata_frame_def\<close>)
    then show ?thesis using m(2,7) by (simp add: files_intact_table table_synced_def)
  qed
qed

lemma write_reboot_mount:
  assumes sok: "storage_ok (zf_storage st)" and con: "fs_consistent (disk (zf_storage st)) st"
    and path: "normalize_path (zf_current_directory st) (Some inp) = Some path"
    and nul: "CHR 0x00 \<notin> set path" and count: "unat count \<le> length bs"
    and call: "write_file_result (Some inp) (DataBytes bs) count append_mode st = (r, st1)"
    and reboot: "zf_storage st2 = zf_storage st1" "super_wf (zf_super st2)" "length (zf_sector_buffer st2) = 512"
    and mnt: "mount_result allocate st2 = (m, st3)" "fs_ok m"
  defines "V \<equiv> current_view (disk (zf_storage st)) st"
  defines "V' \<equiv> V(path \<mapsto> File (outcome_contents (zf_current_directory st) V path append_mode (take (unat count) bs)))"
  shows "current_view (disk (zf_storage st3)) st3 \<in> {V, V'}"
    and "fs_ok r \<Longrightarrow> current_view (disk (zf_storage st3)) st3 = V'"
    and "files_intact (disk (zf_storage st)) st \<Longrightarrow> files_intact (disk (zf_storage st3)) st3"
    and "zok st3" and "zf_mounted st3"
proof -
  note w = write_file_atomic [OF sok con path nul count call, folded V_def, folded V'_def]
  have ok2: "storage_ok (zf_storage st2)" using w(1) reboot(1) by simp
  note m = reboot_mount [OF ok2 reboot(2,3) mnt, unfolded reboot(1) w(4)]
  show "current_view (zdisk st3) st3 \<in> {V, V'}" "fs_ok r \<Longrightarrow> current_view (zdisk st3) st3 = V'"
    "files_intact (zdisk st) st \<Longrightarrow> files_intact (zdisk st3) st3"
    using m w(5,6,8) by simp_all
  show "zok st3" "zf_mounted st3" using mount_spec(1,3) [OF ok2 reboot(2,3) mnt] by simp_all
qed

end

context reliable_device
begin

lemma write_then_read:
  assumes sok: "storage_ok (zf_storage st)" and con: "fs_consistent (disk (zf_storage st)) st"
    and intact: "files_intact (disk (zf_storage st)) st"
    and path: "normalize_path (zf_current_directory st) (Some inp) = Some path"
    and nul: "CHR 0x00 \<notin> set path" and count: "unat count \<le> length bs"
    and call: "write_file_result (Some inp) (DataBytes bs) count append_mode st = (r, st1)"
    and durable: "fs_durable r"
    and name: "normalize_path (zf_current_directory st1) (Some inp2) = Some path"
  defines "new \<equiv> outcome_contents (zf_current_directory st) (current_view (disk (zf_storage st)) st) path append_mode
      (take (unat count) bs)"
  assumes cap: "length new \<le> unat capacity" "unat capacity \<le> length out"
    and rd: "read_file_result (Some inp2) (Some out) capacity st1 = (r2, n, out', st2)"
  shows "r2 = fs_success FopRead (word_of_nat (length new)) \<and> out' = Some (new @ drop (length new) out)"
proof -
  note w = write_file_atomic [OF sok con path nul count call]
  have st1: "zok st1" "files_intact (zdisk st1) st1" "zf_mounted st1"
      "current_view (zdisk st1) st1 path = Some (File new)"
    using w(1,7) durable intact by (auto simp: zok_def fs_consistent_def new_def)
  show ?thesis using read_file_total [OF st1(1-3) name st1(4) cap rd] by simp
qed

end

section \<open>The live image device\<close>

interpretation live_fs: reliable_device "live_read_sector h" "live_write_sector h" "live_inv h" "live_abs h"
  for h
proof
  fix s and lba :: u32 and buf :: bytes and r out s'
  assume "live_inv h s" "unat lba < length (live_abs h s)" "512 \<le> length buf"
    "live_read_sector h lba (Some buf) s = (r, out, s')"
  then show "block_ok r" by (auto simp: live_read_sector_spec sector_size_def)
qed

section \<open>A RAM disk for the witnesses\<close>

definition ram_read :: "bytes list read_sector_fn" where
  "ram_read lba buffer s =
     (block_success BopRead lba 1, map_option (\<lambda>b. s ! unat lba @ drop 512 b) buffer, s)"

definition ram_write :: "bytes list write_sector_fn" where
  "ram_write lba buffer s = (block_success BopWrite lba 1, s[unat lba := take 512 (the buffer)])"

lemma sectors_wf_update: "sectors_wf d \<Longrightarrow> length x = 512 \<Longrightarrow> sectors_wf (d[i := x])"
  unfolding sectors_wf_def by (metis length_list_update nth_list_update_eq nth_list_update_neq)

lemma ram_device: "reliable_device ram_read ram_write sectors_wf id"
  by unfold_locales
    (auto simp: ram_read_def ram_write_def sectors_wf_def nth_list_update intro: sectors_wf_update)

lemma ram_writes: "device_writes ram_write sectors_wf id"
  by (simp add: device_writes_def ram_write_def)

definition demo_super :: zfs_superblock where
  "demo_super =
     \<lparr>zs_magic = zfs_magic, zs_version = 1, zs_total_sectors = 4, zs_entry_count = 2,
      zs_entry_sectors = 1, zs_data_start = 2, zs_slot_sectors = 1, zs_generation = 0,
      zs_label = replicate 16 0, zs_reserved = replicate 460 0\<rparr>"

definition demo_disk :: "bytes list" where
  "demo_disk = [encode_super demo_super, replicate 512 0, replicate 512 0, replicate 512 0]"

definition demo_fs :: "bytes list zfs" where
  "demo_fs =
     \<lparr>zf_storage = \<lparr>ata_present = False, ata_sector_total = 0,
        ata0 = \<lparr>bd_name = Some ''ram0'', bd_present = True, bd_writable = True, bd_sectors = 4,
                bd_read_sector = Some ram_read, bd_write_sector = Some ram_write\<rparr>,
        zfs_io_state = block_io_state_initial, driver_state = demo_disk\<rparr>,
      zf_super = demo_super, zf_entries = replicate 128 empty_entry, zf_mounted = True,
      zf_current_directory = ''/'', zf_sector_buffer = replicate 512 0,
      zf_file_buffer = Some (replicate 512 0)\<rparr>"

lemma demo_super_wf: "super_wf demo_super"
  by (simp add: super_wf_def demo_super_def zfs_magic_def)

lemma demo_disk_wf: "sectors_wf demo_disk"
  by (auto simp: sectors_wf_def demo_disk_def nth_Cons demo_super_wf split: nat.splits)

lemma demo_installed: "driver_installed ram_read ram_write sectors_wf id (zf_storage demo_fs)"
  using demo_disk_wf by (simp add: driver_installed_def demo_fs_def demo_disk_def)

lemma demo_contents [simp]: "contents id demo_fs = demo_disk"
  by (simp add: contents_def demo_fs_def)

lemma demo_geometry: "geometry demo_super 4"
  by (simp add: geometry_def entry_total_def slots_def data_base_def demo_super_def zfs_max_entries_def)

lemma le_word_zeros: "le_word (replicate n 0) = 0"
  by (induction n) simp_all

lemma decode_zero_entry: "decode_entry (replicate 64 0) = empty_entry"
  by (simp add: decode_entry_def empty_entry_def field_u16_def field_u32_def le_word_zeros)

lemma demo_entry_total: "entry_total demo_super = 2"
  by (simp add: entry_total_def demo_super_def)

lemma demo_table: "disk_table demo_super demo_disk = [empty_entry, empty_entry]"
  by (simp add: disk_table_def entry_total_def demo_super_def upt_rec disk_entry_def demo_disk_def
      table_sector_def entry_slot_offset_def decode_zero_entry)

lemma demo_consistent: "fs_consistent demo_disk demo_fs"
proof -
  have "length demo_disk = 4" by (simp add: demo_disk_def)
  then have "zfs_shape demo_disk demo_fs"
    using demo_geometry demo_super_wf by (simp add: zfs_shape_def demo_fs_def zfs_max_entries_def)
  moreover have "table_synced demo_disk demo_fs"
    using demo_table demo_entry_total by (simp add: table_synced_def demo_fs_def min_def numeral_2_eq_2)
  moreover have "decode_super (demo_disk ! 0) = zf_super demo_fs"
    using demo_super_wf by (simp add: demo_disk_def demo_fs_def)
  moreover have "table_settled (entry_total (zf_super demo_fs)) (zf_entries demo_fs)"
    "paths_unique (entry_total (zf_super demo_fs)) (zf_entries demo_fs)"
    by (simp_all add: table_settled_def paths_unique_def demo_fs_def entry_total_def demo_super_def)
  ultimately show ?thesis
    by (simp add: fs_consistent_def demo_fs_def max_file_bytes_def demo_super_def)
qed

lemma demo_intact: "files_intact demo_disk demo_fs"
  by (simp add: files_intact_def demo_fs_def entry_total_def demo_super_def)

lemma demo_path: "normalize_path ''/'' (Some ''a'') = Some ''/a''"
  by code_simp

lemma demo_find: "find_entry demo_super (zf_entries demo_fs) p = None"
  unfolding find_entry_None [OF demo_geometry]
  by (simp add: demo_fs_def entry_total_def demo_super_def)

lemma ram_fs_device: "zenovfs_device ram_read ram_write sectors_wf id"
  using ram_device by (rule reliable_device.axioms)

lemma demo_storage:
  "sector_driver.storage_ok ram_read ram_write sectors_wf id (zf_storage demo_fs)"
  "sector_driver.disk id (zf_storage demo_fs) = demo_disk"
  using demo_installed zenovfs_device.storage_installed [OF ram_fs_device, of demo_fs] by simp_all

definition demo_written :: "fs_result \<times> bytes list zfs" where
  "demo_written = write_file_result (Some ''a'') (DataBytes [97]) 1 False demo_fs"

definition demo_mounted :: "fs_result \<times> bytes list zfs" where
  "demo_mounted = mount_result (\<lambda>_. Some (replicate 512 0)) (snd demo_written)"

lemma ram_writes_total: "reliable_device.writes_total ram_write sectors_wf id"
  using ram_writes by (simp add: reliable_device.writes_total_def [OF ram_device] device_writes_def)

lemma demo_fields:
  "zf_super demo_fs = demo_super" "zf_mounted demo_fs" "zf_current_directory demo_fs = ''/''"
  by (simp_all add: demo_fs_def)

lemma demo_parent: "parent_exists demo_super (zf_entries demo_fs) ''/a''"
  by (simp add: parent_exists_def parent_path_def)

lemma demo_room: "unat (1 :: u32) \<le> unat (max_file_bytes demo_super)"
  by (simp add: max_file_bytes_def demo_super_def)

lemma demo_free: "free_entry demo_super (zf_entries demo_fs) (old_word None) \<noteq> None"
  by (simp add: free_entry_def old_word_def transaction_none_def table_size_def demo_super_def demo_fs_def
      zfs_max_entries_def upt_rec empty_entry_def)

lemma demo_view: "current_view demo_disk demo_fs p = None"
  by (simp add: current_view_def view_def demo_find demo_fields)

lemma demo_write_ok: "fst demo_written = fs_success FopWrite 1"
proof (cases demo_written)
  case (Pair r st1)
  have "r = fs_success FopWrite 1"
    by (rule reliable_device.write_file_total [OF ram_device ram_writes_total demo_storage(1) _ demo_fields(2) _ _ _ _ _ _ _ _
            Pair [unfolded demo_written_def], where path = "''/a''"])
      (simp_all add: demo_storage demo_consistent demo_fields demo_path demo_parent demo_view demo_room [simplified] demo_free demo_find)
  then show ?thesis by (simp add: Pair)
qed

lemma demo_mount_ok: "fs_ok (fst demo_mounted)" "super_wf (zf_super (snd demo_written))"
  "length (zf_sector_buffer (snd demo_written)) = 512"
proof -
  obtain r st1 where w: "demo_written = (r, st1)" by fastforce
  obtain m st3 where mnt: "demo_mounted = (m, st3)" by fastforce
  have path: "normalize_path (zf_current_directory demo_fs) (Some ''a'') = Some ''/a''"
    by (simp add: demo_fields demo_path)
  note a = zenovfs_device.write_file_atomic [OF ram_fs_device demo_storage(1) _ path _ _ w [unfolded demo_written_def]]
  have con: "fs_consistent (sector_driver.disk id (zf_storage demo_fs)) demo_fs"
    by (simp add: demo_storage demo_consistent)
  have st1: "sector_driver.storage_ok ram_read ram_write sectors_wf id (zf_storage st1)"
      "zf_super st1 = demo_super" "length (zf_sector_buffer st1) = 512"
      "decode_super (sector_driver.disk id (zf_storage st1) ! 0) = demo_super"
    using a(1-4) con by (simp_all add: demo_fields)
  have "fs_consistent (sector_driver.disk id (zf_storage st1)) st1"
    using a(7) con demo_write_ok by (simp add: w fs_durable_def fs_success_def)
  then have "geometry demo_super (length (sector_driver.disk id (zf_storage st1)))"
    using st1(2) by (simp add: fs_consistent_def zfs_shape_def)
  then have "data_base demo_super 2 \<le> length (sector_driver.disk id (zf_storage st1))"
    using demo_entry_total by (simp add: geometry_def)
  then have len: "4 \<le> length (sector_driver.disk id (zf_storage st1))"
    by (simp add: data_base_def slots_def demo_super_def)
  have sectors: "4 \<le> bd_sectors (ata0 (zf_storage st1))"
    using st1(1) len unfolding zenovfs_device.storage_installed [OF ram_fs_device]
    by (simp add: driver_installed_def contents_def word_le_nat_alt)
  have valid: "mount_layout_valid demo_super (bd_sectors (ata0 (zf_storage st1)))"
    using sectors by (simp add: mount_layout_valid_def demo_super_def zfs_max_entries_def not_less)
  have some: "0 < length (sector_driver.disk id (zf_storage st1))" using len by linarith
  have "fs_ok m"
    by (rule reliable_device.mount_total [OF ram_device ram_writes_total st1(1) _ st1(3) _ _ _ _ _
          mnt [unfolded demo_mounted_def w snd_conv]])
      (simp_all add: st1 some [simplified] valid demo_super_wf, simp_all add: demo_super_def)
  then show "fs_ok (fst demo_mounted)" "super_wf (zf_super (snd demo_written))"
    "length (zf_sector_buffer (snd demo_written)) = 512"
    using st1 demo_super_wf by (simp_all add: w mnt)
qed

lemma demo_call:
  "write_file_result (Some ''a'') (DataBytes [97]) 1 False demo_fs = (fst demo_written, snd demo_written)"
  "normalize_path (zf_current_directory demo_fs) (Some ''a'') = Some ''/a''"
  by (simp_all add: demo_written_def demo_fields demo_path)

lemma demo_written_state:
  "driver_installed ram_read ram_write sectors_wf id (zf_storage (snd demo_written))"
  "fs_consistent (contents id (snd demo_written)) (snd demo_written)"
  "zfs_shape (contents id (snd demo_written)) (snd demo_written)"
  "files_intact (contents id (snd demo_written)) (snd demo_written)"
  "zf_mounted (snd demo_written)"
  "current_view (contents id (snd demo_written)) (snd demo_written) ''/a'' = Some (File [97])"
proof -
  note a = zenovfs_device.write_file_atomic [OF ram_fs_device demo_storage(1) _ demo_call(2) _ _ demo_call(1)]
  note inst = zenovfs_device.storage_installed [OF ram_fs_device]
  show "driver_installed ram_read ram_write sectors_wf id (zf_storage (snd demo_written))"
    "fs_consistent (contents id (snd demo_written)) (snd demo_written)"
    "zfs_shape (contents id (snd demo_written)) (snd demo_written)"
    "files_intact (contents id (snd demo_written)) (snd demo_written)"
    "zf_mounted (snd demo_written)"
    "current_view (contents id (snd demo_written)) (snd demo_written) ''/a'' = Some (File [97])"
    using a(1,7) demo_consistent demo_intact demo_write_ok
    by (simp_all add: inst demo_storage written_contents_def demo_view fs_consistent_def)
qed

lemma demo_name: "normalize_path cwd (Some ''/a'') = Some ''/a''"
  by (simp add: normalize_path_def combine_path_def starts_with_def) code_simp

lemma demo_read: "\<exists>st2. read_file_result (Some ''/a'') (Some [0, 0]) 2 (snd demo_written) =
     (fs_success FopRead 1, 1, Some [97, 0], st2)"
proof -
  obtain r2 n o2 st2 where rd: "read_file_result (Some ''/a'') (Some [0, 0]) 2 (snd demo_written) = (r2, n, o2, st2)"
    by (metis prod_cases4)
  note inst = zenovfs_device.storage_installed [OF ram_fs_device]
  have zok: "zenovfs_device.zok ram_read ram_write sectors_wf id (snd demo_written)"
    using demo_written_state by (simp add: zenovfs_device.zok_def [OF ram_fs_device] inst)
  show ?thesis
    using reliable_device.read_file_total [OF ram_device zok _ demo_written_state(5) demo_name _ _ _ rd] rd
      demo_written_state by (simp add: inst)
qed

section \<open>Properties\<close>

text \<open>
  C3: Atomicity of a file write across a crash. Let the file system be consistent on a device that
  keeps the driver contract (any sector write may fail, leaving the old sector), and let a write or
  an append of \<open>count\<close> bytes run. Whatever it returns, a reboot that mounts the device again sees either
  exactly the old tree or the tree in which only this file changed; when the call reported success it
  sees the new tree. The new contents are the given bytes, for an append after the old contents. The
  exception is an append to a path stored under a root directory named \<open>data\<close>: the code normalises such
  a path a second time when it reads the old contents, so \<open>outcome_contents\<close> has the contents of the
  file that path then names in their place or, when the sizes differ, no change at all.
\<close>

theorem zenovfs_write_atomic:
  assumes dev: "zenovfs_device rd wr dinv dabs" and sok: "driver_installed rd wr dinv dabs (zf_storage st)"
    and con: "fs_consistent (contents dabs st) st"
    and path: "normalize_path (zf_current_directory st) (Some inp) = Some path"
    and nul: "CHR 0x00 \<notin> set path" and count: "unat count \<le> length bs"
    and call: "write_file_result (Some inp) (DataBytes bs) count append_mode st = (r, st1)"
    and reboot: "zf_storage st2 = zf_storage st1" "super_wf (zf_super st2)" "length (zf_sector_buffer st2) = 512"
    and mnt: "mount_result allocate st2 = (m, st3)" "fs_ok m"
    and V: "V = current_view (contents dabs st) st"
    and V': "V' = V(path \<mapsto> File (outcome_contents (zf_current_directory st) V path append_mode (take (unat count) bs)))"
  shows "current_view (contents dabs st3) st3 \<in> {V, V'} \<and>
         (fs_ok r \<longrightarrow> current_view (contents dabs st3) st3 = V') \<and>
         ((append_mode \<longrightarrow> \<not> starts_with path ''/data'') \<longrightarrow>
            V' = V(path \<mapsto> File (written_contents (V path) append_mode (take (unat count) bs))))"
  using zenovfs_device.write_reboot_mount(1,2) [OF dev _ _ path nul count call reboot mnt] sok con outcome_requested [OF path]
  by (simp add: zenovfs_device.storage_installed [OF dev] V V')

theorem zenovfs_write_atomic_witness:
  "fs_ok (fst demo_mounted) \<and>
   current_view (contents id (snd demo_mounted)) (snd demo_mounted) =
     (current_view demo_disk demo_fs)(''/a'' \<mapsto> File [97])"
proof -
  have mnt: "mount_result (\<lambda>_. Some (replicate 512 0)) (snd demo_written) = (fst demo_mounted, snd demo_mounted)"
    by (simp add: demo_mounted_def)
  note w = zenovfs_write_atomic [OF ram_fs_device demo_installed _ demo_call(2) _ _ demo_call(1) refl demo_mount_ok(2,3) mnt demo_mount_ok(1) refl refl]
  show ?thesis
    using w demo_consistent demo_mount_ok(1) demo_write_ok by (simp add: written_contents_def demo_view)
qed

text \<open>
  C4: A durable write or append followed by a read of the same file (by any name that normalises to
  the same path) returns exactly the contents the write left, on every device whose reads succeed, and
  leaves the rest of the caller's buffer alone. These are the contents that were asked for, the given
  bytes or the old contents followed by them, except for an append to a path stored under a root
  directory named \<open>data\<close>, where \<open>outcome_contents\<close> says what the code stores in their place.
\<close>

theorem zenovfs_write_read:
  assumes dev: "reliable_device rd wr dinv dabs" and sok: "driver_installed rd wr dinv dabs (zf_storage st)"
    and con: "fs_consistent (contents dabs st) st" and intact: "files_intact (contents dabs st) st"
    and path: "normalize_path (zf_current_directory st) (Some inp) = Some path"
    and nul: "CHR 0x00 \<notin> set path" and count: "unat count \<le> length bs"
    and call: "write_file_result (Some inp) (DataBytes bs) count append_mode st = (r, st1)"
    and durable: "fs_durable r"
    and name: "normalize_path (zf_current_directory st1) (Some inp2) = Some path"
    and V: "V = current_view (contents dabs st) st"
    and new: "new = outcome_contents (zf_current_directory st) V path append_mode (take (unat count) bs)"
    and cap: "length new \<le> unat capacity" "unat capacity \<le> length out"
    and rd: "read_file_result (Some inp2) (Some out) capacity st1 = (r2, n, out', st2)"
  shows "r2 = fs_success FopRead (word_of_nat (length new)) \<and> out' = Some (new @ drop (length new) out) \<and>
         ((append_mode \<longrightarrow> \<not> starts_with path ''/data'') \<longrightarrow>
            new = written_contents (V path) append_mode (take (unat count) bs))"
proof -
  note fsd = reliable_device.axioms(1) [OF dev]
  note inst = zenovfs_device.storage_installed [OF fsd]
  show ?thesis
    using reliable_device.write_then_read [OF dev _ _ _ path nul count call durable name _ _ rd]
      sok con intact cap outcome_requested [OF path] by (simp add: inst new V)
qed

theorem zenovfs_write_read_witness:
  "\<exists>n st2. read_file_result (Some ''/a'') (Some [0, 0]) 2 (snd demo_written) =
     (fs_success FopRead 1, n, Some [97, 0], st2)"
proof -
  obtain r2 n o2 st2 where rd: "read_file_result (Some ''/a'') (Some [0, 0]) 2 (snd demo_written) = (r2, n, o2, st2)"
    by (metis prod_cases4)
  show ?thesis
    using zenovfs_write_read [OF ram_device demo_installed _ _ demo_call(2) _ _ demo_call(1) _ demo_name refl refl _ _ rd] rd
      demo_consistent demo_intact demo_write_ok
    by (simp add: written_contents_def demo_view)
qed

text \<open>
  C5: A write succeeds whenever it should: on a mounted, consistent file system over a device that
  performs every request, a write to a legal path with an existing parent directory, no larger than
  a slot, that does not overwrite a directory and finds a free entry, reports success with the
  number of bytes written.
\<close>

theorem zenovfs_write_succeeds:
  assumes dev: "reliable_device rd wr dinv dabs" and wt: "device_writes wr dinv dabs"
    and sok: "driver_installed rd wr dinv dabs (zf_storage st)"
    and con: "fs_consistent (contents dabs st) st" and mounted: "zf_mounted st"
    and path: "normalize_path (zf_current_directory st) (Some inp) = Some path" and root: "path \<noteq> ''/''"
    and parent: "parent_exists (zf_super st) (zf_entries st) path"
    and kind: "current_view (contents dabs st) st path \<noteq> Some Directory"
    and room: "unat count \<le> unat (max_file_bytes (zf_super st))"
    and free: "free_entry (zf_super st) (zf_entries st) (old_word (find_entry (zf_super st) (zf_entries st) path)) \<noteq> None"
    and count: "unat count \<le> length bs"
  shows "fst (write_file_result (Some inp) (DataBytes bs) count False st) = fs_success FopWrite count"
proof -
  note fsd = reliable_device.axioms(1) [OF dev]
  note inst = zenovfs_device.storage_installed [OF fsd]
  have wt': "reliable_device.writes_total wr dinv dabs"
    using wt by (simp add: reliable_device.writes_total_def [OF dev] device_writes_def)
  have "length path \<le> 47" using path by (auto elim!: normalize_path_Some simp: stack_ok_def)
  then show ?thesis
    using reliable_device.write_file_total [OF dev wt' _ _ mounted path root _ parent _ room free count] sok con kind
    by (metis inst prod.collapse)
qed

theorem zenovfs_write_succeeds_witness:
  "fst (write_file_result (Some ''a'') (DataBytes [97]) 1 False demo_fs) = fs_success FopWrite 1"
  by (rule zenovfs_write_succeeds [OF ram_device ram_writes demo_installed _ demo_fields(2), where path = "''/a''"])
    (simp_all add: demo_consistent demo_fields demo_path demo_parent demo_view demo_room [simplified] demo_free demo_find)

text \<open>
  C6: What a successful mount establishes. The metadata read from sector 0 is in force, the root is
  the current directory, the table in memory is the table on disk, the table on disk is the old one
  with every staged transaction dropped and every committed one completed, and no data sector was
  touched.
\<close>

theorem zenovfs_mount_recovers:
  assumes dev: "zenovfs_device rd wr dinv dabs" and sok: "driver_installed rd wr dinv dabs (zf_storage st)"
    and fresh: "super_wf (zf_super st)" "length (zf_sector_buffer st) = 512"
    and mnt: "mount_result allocate st = (m, st')" "fs_ok m"
    and s: "s = decode_super (contents dabs st ! 0)"
  shows "zf_super st' = s \<and> zf_mounted st' \<and> zf_current_directory st' = ''/'' \<and>
         table_synced (contents dabs st') st' \<and> metadata_frame s (contents dabs st) (contents dabs st') \<and>
         disk_table s (contents dabs st') = recover_table (entry_total s) (disk_table s (contents dabs st))"
  using zenovfs_device.mount_spec [OF dev _ fresh mnt] sok
  by (simp add: zenovfs_device.storage_installed [OF dev] s)

theorem zenovfs_mount_recovers_witness:
  "fs_ok (fst demo_mounted) \<and> zf_mounted (snd demo_mounted) \<and> zf_current_directory (snd demo_mounted) = ''/'' \<and>
   table_synced (contents id (snd demo_mounted)) (snd demo_mounted)"
proof -
  have mnt: "mount_result (\<lambda>_. Some (replicate 512 0)) (snd demo_written) = (fst demo_mounted, snd demo_mounted)"
    by (simp add: demo_mounted_def)
  show ?thesis
    using zenovfs_mount_recovers [OF ram_fs_device demo_written_state(1) demo_mount_ok(2,3) mnt demo_mount_ok(1) refl]
      demo_mount_ok(1) by simp
qed

text \<open>
  C7: A successful read is honest: it returns the bytes that the named file has on disk, their
  number fits the caller's capacity, they hash to the recorded checksum, and neither the disk nor
  the entry table changes.
\<close>

theorem zenovfs_read_sound:
  assumes dev: "zenovfs_device rd wr dinv dabs" and sok: "driver_installed rd wr dinv dabs (zf_storage st)"
    and shape: "zfs_shape (contents dabs st) st" and cap: "unat capacity \<le> length out"
    and call: "read_file_result (Some inp) (Some out) capacity st = (r, n, out', st')" and ok: "fs_ok r"
  shows "\<exists>path data i. normalize_path (zf_current_directory st) (Some inp) = Some path \<and>
           current_view (contents dabs st) st path = Some (File data) \<and> unat n = length data \<and> n \<le> capacity \<and>
           find_entry (zf_super st) (zf_entries st) path = Some i \<and>
           fnv1a data = ze_checksum (zf_entries st ! i) \<and> out' = Some (data @ drop (length data) out) \<and>
           contents dabs st' = contents dabs st \<and> zf_entries st' = zf_entries st"
proof -
  note inst = zenovfs_device.storage_installed [OF dev]
  have zok: "zenovfs_device.zok rd wr dinv dabs st"
    using sok shape by (simp add: zenovfs_device.zok_def [OF dev] inst)
  note spec = zenovfs_device.read_file_spec [OF dev zok cap call]
  have same: "contents dabs st' = contents dabs st" "zf_entries st' = zf_entries st"
    using spec(3,4) by (simp_all add: inst)
  from spec(6) ok obtain path i where
    "normalize_path (zf_current_directory st) (Some inp) = Some path"
    "find_entry (zf_super st) (zf_entries st) path = Some i" "ze_type (zf_entries st ! i) = zfs_type_file"
    "n = ze_size (zf_entries st ! i)" "n \<le> capacity"
    "out' = Some (file_data (zf_super st) (contents dabs st) i (zf_entries st ! i) @ drop (unat n) out)"
    "length (file_data (zf_super st) (contents dabs st) i (zf_entries st ! i)) = unat n"
    "fnv1a (file_data (zf_super st) (contents dabs st) i (zf_entries st ! i)) = ze_checksum (zf_entries st ! i)"
    by (auto simp: inst)
  then show ?thesis using same by (auto simp: current_view_def view_def zfs_type_file_def zfs_type_directory_def)
qed

theorem zenovfs_read_sound_witness:
  "\<exists>st2. read_file_result (Some ''/a'') (Some [0, 0]) 2 (snd demo_written) =
     (fs_success FopRead 1, 1, Some [97, 0], st2) \<and> contents id st2 = contents id (snd demo_written)"
proof -
  obtain st2 where rd: "read_file_result (Some ''/a'') (Some [0, 0]) 2 (snd demo_written) =
      (fs_success FopRead 1, 1, Some [97, 0], st2)" using demo_read by blast
  show ?thesis
    using zenovfs_read_sound [OF ram_fs_device demo_written_state(1,3) _ rd] rd by auto
qed

end
