(* ===== verification/Host_Text.thy ===== *)
theory Host_Text
  imports Prelude "HOL-Library.Sublist"
begin

text \<open>
  What the host tools use of the C++ standard library: the character classes of the C locale,
  searches in strings, \<open>std::getline\<close>, and unsigned decimal text.
\<close>

section \<open>Character classes\<close>

definition isspace :: "char \<Rightarrow> bool" where
  "isspace c = (of_char c = (32 :: nat) \<or> (9 \<le> (of_char c :: nat) \<and> (of_char c :: nat) \<le> 13))"

definition isdigit :: "char \<Rightarrow> bool" where
  "isdigit c = (48 \<le> (of_char c :: nat) \<and> (of_char c :: nat) \<le> 57)"

definition isupper :: "char \<Rightarrow> bool" where
  "isupper c = (65 \<le> (of_char c :: nat) \<and> (of_char c :: nat) \<le> 90)"

definition islower :: "char \<Rightarrow> bool" where
  "islower c = (97 \<le> (of_char c :: nat) \<and> (of_char c :: nat) \<le> 122)"

definition isalnum :: "char \<Rightarrow> bool" where
  "isalnum c = (isdigit c \<or> isupper c \<or> islower c)"

definition isxdigit :: "char \<Rightarrow> bool" where
  "isxdigit c = (isdigit c \<or> (65 \<le> (of_char c :: nat) \<and> (of_char c :: nat) \<le> 70) \<or>
     (97 \<le> (of_char c :: nat) \<and> (of_char c :: nat) \<le> 102))"

text \<open>The control characters the printable-text checks of the tools refuse.\<close>

definition iscontrol :: "char \<Rightarrow> bool" where
  "iscontrol c = ((of_char c :: nat) < 32 \<or> (of_char c :: nat) = 127)"

lemmas ctype_defs = isspace_def isdigit_def isupper_def islower_def isalnum_def isxdigit_def iscontrol_def

section \<open>Strings\<close>

abbreviation newline :: char where "newline \<equiv> CHR 0x0A"
abbreviation carriage_return :: char where "carriage_return \<equiv> CHR 0x0D"

text \<open>\<open>value.substr(0, prefix.size()) == prefix\<close>.\<close>

definition has_prefix :: "string \<Rightarrow> string \<Rightarrow> bool" where
  "has_prefix value prefix_text = (take (length prefix_text) value = prefix_text)"

text \<open>\<open>value.find(pattern) != npos\<close>.\<close>

definition contains :: "string \<Rightarrow> string \<Rightarrow> bool" where
  "contains value pattern = list_ex (\<lambda>t. has_prefix t pattern) (suffixes value)"

text \<open>The text before the first separator and, when there is one, the text after it.\<close>

definition split_first :: "char \<Rightarrow> string \<Rightarrow> string \<times> string option" where
  "split_first c value =
     (takeWhile (\<lambda>x. x \<noteq> c) value,
      case dropWhile (\<lambda>x. x \<noteq> c) value of [] \<Rightarrow> None | _ # rest \<Rightarrow> Some rest)"

text \<open>The components between separators, as the \<open>find(c, start)\<close> loops of the tools visit them.\<close>

fun split_all :: "char \<Rightarrow> string \<Rightarrow> string list" where
  "split_all c [] = [[]]"
| "split_all c (x # xs) =
     (if x = c then [] # split_all c xs
      else case split_all c xs of [] \<Rightarrow> [[x]] | p # ps \<Rightarrow> (x # p) # ps)"

text \<open>The text between the first and the last character outside a class.\<close>

definition strip :: "(char \<Rightarrow> bool) \<Rightarrow> string \<Rightarrow> string" where
  "strip P value = rev (dropWhile P (rev (dropWhile P value)))"

definition stripped :: "(char \<Rightarrow> bool) \<Rightarrow> string \<Rightarrow> bool" where
  "stripped P value \<longleftrightarrow> value = [] \<or> (\<not> P (hd value) \<and> \<not> P (last value))"

text \<open>The lines a \<open>while (std::getline(stream, line))\<close> loop sees.\<close>

fun getlines_from :: "string \<Rightarrow> string \<Rightarrow> string list" where
  "getlines_from line [] = (if line = [] then [] else [rev line])"
| "getlines_from line (x # xs) = (if x = newline then rev line # getlines_from [] xs else getlines_from (x # line) xs)"

definition getlines :: "string \<Rightarrow> string list" where
  "getlines text = getlines_from [] text"

section \<open>Numbers\<close>

definition u64_max :: nat where "u64_max = 2 ^ 64 - 1"

definition digit_value :: "char \<Rightarrow> nat" where
  "digit_value c = of_char c - 48"

definition decimal_value :: "string \<Rightarrow> nat" where
  "decimal_value digits = foldl (\<lambda>n c. n * 10 + digit_value c) 0 digits"

text \<open>\<open>std::vector::resize\<close> on a vector of numbers.\<close>

definition resize :: "nat \<Rightarrow> nat list \<Rightarrow> nat list" where
  "resize count xs = take count xs @ replicate (count - length xs) 0"

section \<open>Lemmas\<close>

lemma strip_stripped: "stripped P str \<Longrightarrow> strip P str = str"
proof (cases "str = []")
  case False
  assume t: "stripped P str"
  have "dropWhile P str = str" using t False by (simp add: stripped_def dropWhile_eq_self_iff)
  moreover have "dropWhile P (rev str) = rev str"
    using t False by (simp add: stripped_def dropWhile_eq_self_iff hd_rev)
  ultimately show ?thesis by (simp add: strip_def)
qed (simp add: strip_def)

lemma stripped_strip: "stripped P (strip P str)"
proof (cases "strip P str = []")
  case False
  let ?m = "dropWhile P str"
  have r: "dropWhile P (rev ?m) \<noteq> []" using False by (simp add: strip_def)
  have l: "\<not> P (last (strip P str))"
    using hd_dropWhile [OF r] by (simp add: strip_def last_rev r)
  obtain pre where m: "?m = strip P str @ pre"
    unfolding strip_def by (metis rev_append rev_rev_ident takeWhile_dropWhile_id)
  have "?m \<noteq> []" using m False by auto
  then have "\<not> P (hd (strip P str))"
    using hd_dropWhile [of P str] m False by simp
  with l show ?thesis by (simp add: stripped_def)
qed (simp add: stripped_def)

lemma set_strip: "set (strip P str) \<subseteq> set str"
  unfolding strip_def by (auto dest!: set_dropWhileD)

lemma getlines_from_line:
  "newline \<notin> set xs \<Longrightarrow> getlines_from line (xs @ newline # rest) = (rev line @ xs) # getlines_from [] rest"
  by (induction xs arbitrary: line) auto

lemma getlines_Nil [simp]: "getlines [] = []"
  by (simp add: getlines_def)

lemma getlines_line [simp]:
  "newline \<notin> set xs \<Longrightarrow> getlines (xs @ newline # rest) = xs # getlines rest"
  by (simp add: getlines_def getlines_from_line)

lemma getlines_from_no_newline:
  "newline \<notin> set line \<Longrightarrow> x \<in> set (getlines_from line text) \<Longrightarrow> newline \<notin> set x"
  by (induction line "text" rule: getlines_from.induct) (auto split: if_splits)

lemma getlines_no_newline: "x \<in> set (getlines text) \<Longrightarrow> newline \<notin> set x"
  using getlines_from_no_newline [of "[]"] by (simp add: getlines_def)

lemma getlines_concat:
  "\<forall>x\<in>set xs. newline \<notin> set x \<Longrightarrow> getlines (concat (map (\<lambda>x. x @ [newline]) xs)) = xs"
  by (induction xs) simp_all

lemma split_all_nonempty [simp]: "split_all c xs \<noteq> []"
  by (cases "(c, xs)" rule: split_all.cases) (auto split: list.splits)

lemma split_first_found [simp]:
  assumes "c \<notin> set a"
  shows "split_first c (a @ c # b) = (a, Some b)"
proof -
  have "takeWhile (\<lambda>x. x \<noteq> c) (a @ c # b) = a" "dropWhile (\<lambda>x. x \<noteq> c) (a @ c # b) = c # b"
    using assms by (auto simp: takeWhile_tail dropWhile_append3 intro: takeWhile_eq_all_conv [THEN iffD2])
  then show ?thesis by (simp add: split_first_def)
qed

lemma split_first_Some:
  assumes "split_first c str = (a, Some b)"
  shows "str = a @ c # b \<and> c \<notin> set a"
proof -
  obtain x where d: "dropWhile (\<lambda>x. x \<noteq> c) str = x # b" and a: "a = takeWhile (\<lambda>x. x \<noteq> c) str"
    using assms by (auto simp: split_first_def split: list.splits)
  have "x = c" using hd_dropWhile [of "\<lambda>x. x \<noteq> c" str] d by auto
  moreover have "str = a @ x # b" using a d by (metis takeWhile_dropWhile_id)
  moreover have "c \<notin> set a" using a by (auto dest: set_takeWhileD)
  ultimately show ?thesis by simp
qed

lemma contains_iff: "contains str pattern \<longleftrightarrow> (\<exists>a b. str = a @ pattern @ b)"
proof
  assume "contains str pattern"
  then obtain t where "suffix t str" "take (length pattern) t = pattern"
    by (auto simp: contains_def has_prefix_def list_ex_iff)
  then show "\<exists>a b. str = a @ pattern @ b" by (metis append_take_drop_id suffix_def)
next
  assume "\<exists>a b. str = a @ pattern @ b"
  then obtain a b where v: "str = a @ pattern @ b" by blast
  have "suffix (pattern @ b) str" by (simp add: v suffix_def)
  then show "contains str pattern"
    unfolding contains_def has_prefix_def list_ex_iff in_set_suffixes by (intro bexI [of _ "pattern @ b"]) simp_all
qed

lemma resize_grow: "length xs \<le> k \<Longrightarrow> k \<le> n \<Longrightarrow> resize n xs = resize k xs @ replicate (n - k) 0"
  by (simp add: resize_def flip: replicate_add)

lemma length_resize [simp]: "length (resize n xs) = n"
  by (simp add: resize_def)

lemma less_append_same: "length xs = length ys \<Longrightarrow> xs @ zs < ys @ zs \<longleftrightarrow> xs < (ys :: nat list)"
  by (induction xs ys rule: list_induct2) auto

text \<open>Comparing two padded vectors does not depend on how far they are padded.\<close>

lemma resize_compare:
  assumes "length xs \<le> k" and "length ys \<le> k" and "k \<le> n"
  shows "resize n xs = resize n ys \<longleftrightarrow> resize k xs = resize k ys" and "resize n xs < resize n ys \<longleftrightarrow> resize k xs < resize k ys"
  using resize_grow [OF assms(1,3)] resize_grow [OF assms(2,3)] by (simp_all add: less_append_same)

text \<open>Decimal text and its value.\<close>

lemma decimal_value_snoc [simp]: "decimal_value (xs @ [c]) = decimal_value xs * 10 + digit_value c"
  by (simp add: decimal_value_def)

lemma digit_char_digit: "n < 10 \<Longrightarrow> isdigit (digit_char n) \<and> digit_value (digit_char n) = n"
  by (simp add: digit_char_def isdigit_def digit_value_def of_char_of take_bit_nat_eq_self)

lemma digit_char_value: "isdigit c \<Longrightarrow> digit_char (digit_value c) = c \<and> digit_value c < 10"
  by (auto simp: isdigit_def digit_char_def digit_value_def)

lemma digit_char_0: "digit_char 0 = CHR ''0''"
  by code_simp

lemma decimal_show_nat: "list_all isdigit (show_nat n) \<and> decimal_value (show_nat n) = n"
proof (induction n rule: show_nat.induct)
  case (1 n)
  show ?case
  proof (cases "n < 10")
    case True
    then show ?thesis using digit_char_digit [OF True]
      by (simp add: show_nat.simps [of n] decimal_value_def)
  next
    case False
    then show ?thesis using 1 digit_char_digit [of "n mod 10"] by (simp add: show_nat.simps [of n])
  qed
qed

lemma show_nat_leading: "length (show_nat n) > 1 \<Longrightarrow> hd (show_nat n) \<noteq> CHR ''0''"
proof (induction n rule: show_nat.induct)
  case (1 n)
  have big: "\<not> n < 10" using "1.prems" by (subst (asm) show_nat.simps) (auto split: if_splits)
  show ?case
  proof (cases "n div 10 < 10")
    case True
    then have "hd (show_nat n) = digit_char (n div 10)" using big by (simp add: show_nat.simps)
    then show ?thesis using big True digit_char_digit [of "n div 10"] by (auto simp: digit_value_def)
  next
    case False
    then have "length (show_nat (n div 10)) > 1" by (subst show_nat.simps) simp
    then show ?thesis using "1.IH" [OF big] big by (simp add: show_nat.simps [of n])
  qed
qed

lemma show_nat_decimal:
  "list_all isdigit xs \<Longrightarrow> xs \<noteq> [] \<Longrightarrow> length xs > 1 \<longrightarrow> hd xs \<noteq> CHR ''0'' \<Longrightarrow> show_nat (decimal_value xs) = xs"
proof (induction xs rule: rev_induct)
  case (snoc c xs)
  have c: "digit_char (digit_value c) = c" "digit_value c < 10" using snoc.prems digit_char_value by auto
  show ?case
  proof (cases "xs = []")
    case True
    then show ?thesis using c by (simp add: decimal_value_def show_nat.simps)
  next
    case False
    then have lead: "hd xs \<noteq> CHR ''0''" using snoc.prems by simp
    have "show_nat (decimal_value xs) = xs" using snoc False lead by simp
    moreover have "decimal_value xs \<noteq> 0"
    proof
      assume "decimal_value xs = 0"
      then have "xs = ''0''" using calculation by (simp add: show_nat.simps digit_char_0)
      then show False using lead by simp
    qed
    ultimately show ?thesis using c by (simp add: show_nat.simps [of "decimal_value xs * 10 + digit_value c"])
  qed
qed simp

lemma show_nat_iff:
  "str = show_nat n \<longleftrightarrow> str \<noteq> [] \<and> list_all isdigit str \<and> (length str > 1 \<longrightarrow> hd str \<noteq> CHR ''0'') \<and> decimal_value str = n"
  using decimal_show_nat show_nat_leading show_nat_decimal show_nat_nonempty by metis

end
