(* ===== verification/Host_Files.thy ===== *)
theory Host_Files
  imports Host_Text
begin

text \<open>
  The host's file system as the tools see it through \<open>std::filesystem\<close> and file streams: a list of
  paths with their nodes, in the order a directory iterator would yield them. The other fields say
  what the host refuses: reading a path, writing a path, and the outcomes of the coming \<open>rename\<close>
  calls (success when none is left), with the text of its error messages. A stream opens on a regular
  file only: what opening a directory as a stream does is left to the host, and the model refuses it.
\<close>

datatype host_node = Regular bytes | Folder | Link
datatype read_fault = CannotOpen | CannotSize | ShortRead
datatype write_fault = CannotCreate | WriteFails nat

record host =
  host_nodes :: "(string \<times> host_node) list"
  host_read_fault :: "string \<Rightarrow> read_fault option"
  host_write_fault :: "string \<Rightarrow> write_fault option"
  host_renames :: "bool list"
  host_error_text :: string

definition host_lookup :: "host \<Rightarrow> string \<Rightarrow> host_node option" where
  "host_lookup h = map_of (host_nodes h)"

definition host_put :: "string \<Rightarrow> host_node \<Rightarrow> host \<Rightarrow> host" where
  "host_put path node h = h\<lparr>host_nodes := (path, node) # filter (\<lambda>(p, _). p \<noteq> path) (host_nodes h)\<rparr>"

definition host_remove :: "string \<Rightarrow> host \<Rightarrow> host" where
  "host_remove path h = h\<lparr>host_nodes := filter (\<lambda>(p, _). p \<noteq> path) (host_nodes h)\<rparr>"

text \<open>\<open>std::filesystem::rename(from, to, ec)\<close>: the flag is the absence of an error.\<close>

definition host_rename :: "string \<Rightarrow> string \<Rightarrow> host \<Rightarrow> bool \<times> host" where
  "host_rename src dst h =
     (let ok = (case host_renames h of [] \<Rightarrow> True | b # _ \<Rightarrow> b);
          h = h\<lparr>host_renames := tl (host_renames h)\<rparr>
      in case host_lookup h src of
           None \<Rightarrow> (False, h)
         | Some node \<Rightarrow> if ok then (True, host_put dst node (host_remove src h)) else (False, h))"

text \<open>\<open>path::filename\<close>, \<open>path::extension\<close>, \<open>path::parent_path\<close> and \<open>operator/\<close>.\<close>

definition path_filename :: "string \<Rightarrow> string" where
  "path_filename path = rev (takeWhile (\<lambda>c. c \<noteq> CHR ''/'') (rev path))"

definition path_extension :: "string \<Rightarrow> string" where
  "path_extension path =
     (let name = path_filename path; tail = rev (takeWhile (\<lambda>c. c \<noteq> CHR ''.'') (rev name))
      in if name = ''.'' \<or> name = ''..'' \<or> length tail + 1 \<ge> length name then []
         else CHR ''.'' # tail)"

definition path_parent :: "string \<Rightarrow> string" where
  "path_parent path =
     (let kept = rev (dropWhile (\<lambda>c. c \<noteq> CHR ''/'') (rev path));
          stripped = rev (dropWhile (\<lambda>c. c = CHR ''/'') (rev kept))
      in if kept = [] then [] else if stripped = [] then ''/'' else stripped)"

definition path_join :: "string \<Rightarrow> string \<Rightarrow> string" where
  "path_join directory name =
     (if directory \<noteq> [] \<and> last directory = CHR ''/'' then directory @ name
      else directory @ ''/'' @ name)"

text \<open>\<open>create_directories\<close>: every prefix that ends before a slash, and the path itself.\<close>

definition directory_chain :: "string \<Rightarrow> string list" where
  "directory_chain path =
     map (\<lambda>i. take i path) (filter (\<lambda>i. path ! i = CHR ''/'') [1..<length path]) @ [path]"

definition host_create_directories :: "string \<Rightarrow> host \<Rightarrow> host" where
  "host_create_directories path h =
     fold (\<lambda>d h. if host_lookup h d = None then host_put d Folder h else h) (directory_chain path) h"

text \<open>The paths of the regular files of a directory, in iteration order.\<close>

definition host_regular_files :: "string \<Rightarrow> host \<Rightarrow> string list" where
  "host_regular_files directory h =
     map fst (filter (\<lambda>(p, node). p = path_join directory (path_filename p) \<and> path_filename p \<noteq> [] \<and>
                        (case node of Regular _ \<Rightarrow> True | _ \<Rightarrow> False)) (host_nodes h))"

text \<open>Writing a file through a stream that truncates it, with the messages of the caller's two checks.\<close>

definition write_stream :: "string \<Rightarrow> bytes \<Rightarrow> string \<Rightarrow> string \<Rightarrow> host \<Rightarrow> unit result \<times> host" where
  "write_stream path data open_message write_message h =
     (case host_write_fault h path of
        Some CannotCreate \<Rightarrow> (throw open_message, h)
      | Some (WriteFails n) \<Rightarrow> (throw write_message, host_put path (Regular (take n data)) h)
      | None \<Rightarrow> (Inr (), host_put path (Regular data) h))"

section \<open>Lemmas\<close>

lemma host_lookup_renames [simp]: "host_lookup (h\<lparr>host_renames := r\<rparr>) = host_lookup h"
  by (simp add: host_lookup_def)

lemma host_lookup_put: "host_lookup (host_put p node h) q = (if q = p then Some node else host_lookup h q)"
proof -
  have "map_of (filter (\<lambda>(r, _). r \<noteq> p) xs) q = map_of xs q" if "q \<noteq> p" for xs :: "(string \<times> host_node) list"
    using that by (induction xs) auto
  then show ?thesis by (simp add: host_lookup_def host_put_def)
qed

lemma host_lookup_remove: "host_lookup (host_remove p h) q = (if q = p then None else host_lookup h q)"
proof -
  have "map_of (filter (\<lambda>(r, _). r \<noteq> p) xs) q = (if q = p then None else map_of xs q)"
    for xs :: "(string \<times> host_node) list"
    by (induction xs) auto
  then show ?thesis by (simp add: host_lookup_def host_remove_def)
qed

lemma host_put_fields [simp]:
  "host_read_fault (host_put p n h) = host_read_fault h" "host_write_fault (host_put p n h) = host_write_fault h"
  "host_renames (host_put p n h) = host_renames h"
  by (simp_all add: host_put_def)

lemma host_remove_fields [simp]:
  "host_read_fault (host_remove p h) = host_read_fault h" "host_write_fault (host_remove p h) = host_write_fault h"
  "host_renames (host_remove p h) = host_renames h"
  by (simp_all add: host_remove_def)

lemma host_create_directories_fields [simp]:
  "host_read_fault (host_create_directories p h) = host_read_fault h"
  "host_write_fault (host_create_directories p h) = host_write_fault h"
  "host_renames (host_create_directories p h) = host_renames h"
proof -
  have "host_read_fault (fold (\<lambda>d h. if host_lookup h d = None then host_put d Folder h else h) ds h) = host_read_fault h \<and>
      host_write_fault (fold (\<lambda>d h. if host_lookup h d = None then host_put d Folder h else h) ds h) = host_write_fault h \<and>
      host_renames (fold (\<lambda>d h. if host_lookup h d = None then host_put d Folder h else h) ds h) = host_renames h" for ds
    by (induction ds arbitrary: h) auto
  then show "host_read_fault (host_create_directories p h) = host_read_fault h"
    "host_write_fault (host_create_directories p h) = host_write_fault h"
    "host_renames (host_create_directories p h) = host_renames h"
    by (simp_all add: host_create_directories_def)
qed

text \<open>Creating directories never changes a path that exists.\<close>

lemma host_create_directories_lookup:
  "host_lookup (host_create_directories p h) q \<in> {host_lookup h q, Some Folder}"
  "host_lookup h q = Some node \<Longrightarrow> host_lookup (host_create_directories p h) q = Some node"
proof -
  let ?step = "\<lambda>d h. if host_lookup h d = None then host_put d Folder h else h"
  have kept: "host_lookup h q = Some node \<Longrightarrow> host_lookup (fold ?step ds h) q = Some node" for ds h node
  proof (induction ds arbitrary: h)
    case (Cons d ds)
    have "host_lookup (?step d h) q = Some node" using Cons.prems by (auto simp: host_lookup_put)
    from Cons.IH [OF this] show ?case by simp
  qed simp
  have fresh: "host_lookup (fold ?step ds h) q \<in> {host_lookup h q, Some Folder}" for ds h
  proof (induction ds arbitrary: h)
    case (Cons d ds)
    show ?case using Cons [of "?step d h"] by (auto simp: host_lookup_put split: if_splits)
  qed simp
  show "host_lookup h q = Some node \<Longrightarrow> host_lookup (host_create_directories p h) q = Some node"
    "host_lookup (host_create_directories p h) q \<in> {host_lookup h q, Some Folder}"
    using kept fresh by (simp_all add: host_create_directories_def)
qed

lemma host_rename_lookup:
  "host_rename src dst h = (True, h') \<Longrightarrow> src \<noteq> dst \<Longrightarrow>
     host_lookup h' = (host_lookup h)(dst := host_lookup h src, src := None)"
  by (rule ext)
    (auto simp: host_rename_def Let_def host_lookup_put host_lookup_remove split: option.splits if_splits)
    
lemma host_rename_fields [simp]:
  "host_read_fault (snd (host_rename src dst h)) = host_read_fault h"
  "host_write_fault (snd (host_rename src dst h)) = host_write_fault h"
  "host_renames (snd (host_rename src dst h)) = tl (host_renames h)"
  by (auto simp: host_rename_def Let_def split: option.splits)

lemma write_stream_ok:
  "write_stream path data m1 m2 h = (Inr u, h') \<longleftrightarrow> host_write_fault h path = None \<and> h' = host_put path (Regular data) h"
  by (auto simp: write_stream_def throw_def split: option.splits write_fault.splits)

end
