(* ===== verification/Image_Builder.thy ===== *)
theory Image_Builder
  imports ZenovFS_Device Host_Files
begin

text \<open>
  \<open>tools/zenovfs_builder.cpp\<close>: the tool that writes the ZenovFS image the system is shipped with. The
  superblock and the entries are the records of \<open>ZenovFS_Core\<close>, whose packed encodings are those of the
  tool's structs. The calls of \<open>add_directory\<close> and \<open>add_file\<close> in \<open>main\<close> are a list of \<open>seed\<close> values,
  performed in order by \<open>run_seeds\<close>.
\<close>

section \<open>The tool\<close>

definition k_sector_size :: nat where "k_sector_size = 512"
definition k_total_sectors :: nat where "k_total_sectors = 32768"
definition k_entry_count :: nat where "k_entry_count = 128"
definition k_entry_sectors :: nat where "k_entry_sectors = 16"
definition k_data_start :: nat where "k_data_start = 32"
definition k_slot_sectors :: nat where "k_slot_sectors = 128"
definition k_max_file_bytes :: nat where "k_max_file_bytes = k_slot_sectors * k_sector_size"

text \<open>\<open>read_all\<close>: the size is \<open>-1\<close> when it cannot be determined.\<close>

definition read_seed :: "host \<Rightarrow> string \<Rightarrow> bytes result" where
  "read_seed h path =
     (case (host_read_fault h path, host_lookup h path) of
        (Some CannotOpen, _) \<Rightarrow> throw (''cannot open seed file: '' @ path)
      | (Some CannotSize, Some (Regular _)) \<Rightarrow> throw ''seed file exceeds ZenovFS slot capacity''
      | (fault, Some (Regular data)) \<Rightarrow>
          throw_if (length data > k_max_file_bytes) ''seed file exceeds ZenovFS slot capacity'' (
          throw_if (fault = Some ShortRead \<and> data \<noteq> []) ''cannot read seed file'' (Inr data))
      | _ \<Rightarrow> throw (''cannot open seed file: '' @ path))"

definition set_path :: "zfs_entry \<Rightarrow> string \<Rightarrow> zfs_entry result" where
  "set_path entry path =
     throw_if (path = [] \<or> length path \<ge> 48 \<or> hd path \<noteq> CHR ''/'') (''invalid ZenovFS path: '' @ path)
       (Inr (entry\<lparr>ze_path := blit 0 (bytes_of_string path) (replicate 48 0)\<rparr>))"

text \<open>\<open>std::array::at\<close> throws outside the array.\<close>

definition entry_at :: "zfs_entry list \<Rightarrow> nat \<Rightarrow> zfs_entry result" where
  "entry_at entries index = throw_if (index \<ge> length entries) ''array::at'' (Inr (entries ! index))"

definition add_directory :: "nat \<Rightarrow> string \<Rightarrow> zfs_entry list \<Rightarrow> zfs_entry list result" where
  "add_directory index path entries =
     ebind (entry_at entries index) (\<lambda>entry.
     ebind (set_path (entry\<lparr>ze_used := 1, ze_type := 2\<rparr>) path) (\<lambda>entry.
     Inr (entries[index := entry])))"

definition add_file ::
    "nat \<Rightarrow> string \<Rightarrow> bytes \<Rightarrow> bytes \<times> zfs_entry list \<Rightarrow> (bytes \<times> zfs_entry list) result" where
  "add_file index path data st =
     (let (disk, entries) = st
      in throw_if (length data > k_max_file_bytes) ''file too large'' (
         ebind (entry_at entries index) (\<lambda>entry.
         ebind (set_path (entry\<lparr>ze_used := 1, ze_type := 1\<rparr>) path) (\<lambda>entry.
           let entry = entry\<lparr>ze_size := word_of_nat (length data), ze_checksum := fnv1a data\<rparr>;
               first_sector = k_data_start + index * k_slot_sectors;
               offset = first_sector * k_sector_size
           in throw_if (offset + length data > length disk) ''ZenovFS layout exceeds disk size''
                (Inr (blit offset data disk, entries[index := entry]))))))"

definition empty_audit_journal :: bytes where
  "empty_audit_journal =
     bytes_of_string ''ZGAL'' @ le_bytes 2 (1 :: u16) @ le_bytes 2 (96 :: u16) @ le_bytes 2 (128 :: u16) @
     le_bytes 2 (64 :: u16) @ le_bytes 4 (0 :: u32) @ le_bytes 4 (0 :: u32) @ le_bytes 4 (1 :: u32) @
     replicate (32 + 32 + 8) 0 @ replicate (64 * 128) 0"

datatype seed = SeedDirectory nat string | SeedFile nat string bytes

definition run_seed :: "seed \<Rightarrow> bytes \<times> zfs_entry list \<Rightarrow> (bytes \<times> zfs_entry list) result" where
  "run_seed s st =
     (case s of
        SeedDirectory index path \<Rightarrow> ebind (add_directory index path (snd st)) (\<lambda>entries. Inr (fst st, entries))
      | SeedFile index path data \<Rightarrow> add_file index path data st)"

primrec run_seeds :: "seed list \<Rightarrow> bytes \<times> zfs_entry list \<Rightarrow> (bytes \<times> zfs_entry list) result" where
  "run_seeds [] st = Inr st"
| "run_seeds (s # ss) st = ebind (run_seed s st) (run_seeds ss)"

definition text_line_bytes :: "string list \<Rightarrow> bytes" where
  "text_line_bytes ls = bytes_of_string (concat (map (\<lambda>l. l @ [newline]) ls))"

text \<open>The texts the tool carries.\<close>

definition readme_text :: bytes where
  "readme_text = text_line_bytes
     [''ZenovFS1 persistent volume for ZenovOS 0.1.1'',
      ''Writes use a copy-on-write slot and sector-atomic metadata commit.'',
      ''ZenovGuard enforces RSA-PSS policy and a persistent hash-chained audit journal.'']"

definition release_text :: bytes where
  "release_text = text_line_bytes
     [''ZenovOS 0.1.1 security build: page permissions, recoverable user faults,'',
      ''transactional storage, signed policy and persistent audit replay.'']"

definition system_text :: bytes where
  "system_text = text_line_bytes
     [''[system]'', ''version=0.1.1'', ''[console]'', ''theme=midnight'', ''prompt=zenov>'',
      ''[storage]'', ''mount=/data'', ''filesystem=ZenovFS1'', ''transaction=cow'',
      ''[security]'', ''engine=ZenovGuard'', ''database=ZGDB2'', ''root=6f788074c018f5aa'',
      ''capabilities=ZCAP1'', ''capability_root=9202c73fad96ad66'',
      ''intelligence=ZMID1'', ''intelligence_root=6ca6a5275544c533'',
      ''ransomware_policy=ZRWP1'', ''ransomware_root=7186b2bd819e47dc'',
      ''verified_reads=ZVRT1'', ''verified_reads_root=d28215ec62269ffc'', ''audit=ZGAL1'',
      ''policy_transaction_journal=ZPTJ1'']"

text \<open>The calls of \<open>main\<close>; \<open>f n\<close> is the contents of \<open>argv[n]\<close>.\<close>

definition seeds_of :: "(nat \<Rightarrow> bytes) \<Rightarrow> seed list" where
  "seeds_of f =
     [SeedDirectory 0 ''/apps'', SeedDirectory 1 ''/docs'',
      SeedFile 2 ''/docs/readme.txt'' readme_text,
      SeedFile 3 ''/apps/hello.zex'' (f 1), SeedFile 4 ''/apps/fileio.elf'' (f 2),
      SeedFile 5 ''/docs/release.txt'' release_text,
      SeedDirectory 6 ''/config'',
      SeedFile 7 ''/config/system.ini'' system_text,
      SeedFile 8 ''/apps/args.elf'' (f 3), SeedFile 9 ''/apps/console.elf'' (f 4),
      SeedFile 10 ''/apps/protect.elf'' (f 5), SeedFile 11 ''/apps/kaccess.elf'' (f 6),
      SeedFile 12 ''/apps/zenovapp.zex'' (f 7),
      SeedDirectory 13 ''/security'', SeedDirectory 14 ''/security/updates'',
      SeedFile 15 ''/security/zenovguard.zgdb'' (f 8),
      SeedFile 16 ''/security/zenovguard.version'' (text_line_bytes [''3'']),
      SeedFile 17 ''/security/updates/zenovguard-v3.zgdb'' (f 8),
      SeedFile 18 ''/security/updates/zenovguard-v4.zgdb'' (f 9),
      SeedFile 19 ''/security/updates/zenovguard-tampered.zgdb'' (f 10),
      SeedFile 20 ''/security/updates/zenovguard-wrong-key.zgdb'' (f 11),
      SeedFile 21 ''/security/zenovguard.audit'' empty_audit_journal,
      SeedFile 22 ''/security/syscall-capabilities.zcap'' (f 12),
      SeedFile 23 ''/security/syscall-capabilities.version'' (text_line_bytes [''1'']),
      SeedFile 24 ''/security/updates/zcap-v1.zcap'' (f 12),
      SeedFile 25 ''/security/updates/zcap-v2.zcap'' (f 13),
      SeedFile 26 ''/security/updates/zcap-tampered.zcap'' (f 14),
      SeedFile 27 ''/security/updates/zcap-wrong-key.zcap'' (f 15),
      SeedFile 28 ''/security/zenovguard-intelligence.zmid'' (f 16),
      SeedFile 29 ''/security/zenovguard-intelligence.version'' (text_line_bytes [''1'']),
      SeedFile 30 ''/security/updates/zmid-v1.zmid'' (f 16),
      SeedFile 31 ''/security/updates/zmid-v2.zmid'' (f 17),
      SeedFile 32 ''/security/updates/zmid-tampered.zmid'' (f 18),
      SeedFile 33 ''/security/updates/zmid-wrong-key.zmid'' (f 19),
      SeedDirectory 34 ''/samples'',
      SeedFile 35 ''/samples/clean.txt'' (text_line_bytes [''ZENOV_ZMID_CLEAN_VECTOR_V1'']),
      SeedFile 36 ''/samples/ransomware-test.bin'' (text_line_bytes [''prefix-ZENOV_RANSOMWARE_TEST_V1-suffix'']),
      SeedFile 37 ''/samples/pua-test.bin'' (text_line_bytes [''ZENOV_PUA_TEST_V1'']),
      SeedFile 38 ''/samples/malware-v2.bin'' (text_line_bytes [''ZENOV_MALWARE_TEST_V2'']),
      SeedDirectory 39 ''/quarantine'',
      SeedFile 40 ''/security/ransomware-policy.zrwp'' (f 20),
      SeedFile 41 ''/security/ransomware-policy.version'' (text_line_bytes [''1'']),
      SeedFile 42 ''/security/updates/zrwp-v1.zrwp'' (f 20),
      SeedFile 43 ''/security/updates/zrwp-v2.zrwp'' (f 21),
      SeedFile 44 ''/security/updates/zrwp-tampered.zrwp'' (f 22),
      SeedFile 45 ''/security/updates/zrwp-wrong-key.zrwp'' (f 23),
      SeedFile 46 ''/security/verified-reads.zvrt'' (f 24),
      SeedFile 47 ''/security/verified-reads.version'' (text_line_bytes [''1'']),
      SeedFile 48 ''/security/updates/verified-reads-tampered.zvrt'' (f 25),
      SeedFile 49 ''/security/updates/verified-reads-wrong-key.zvrt'' (f 26),
      SeedFile 50 ''/security/policy-transaction.journal'' [],
      SeedFile 51 ''/samples/linux-i386-hello.elf'' (f 27)]"

definition seed_super :: zfs_superblock where
  "seed_super =
     \<lparr>zs_magic = bytes_of_string ''ZENOVFS1'', zs_version = 1, zs_total_sectors = word_of_nat k_total_sectors,
      zs_entry_count = word_of_nat k_entry_count, zs_entry_sectors = word_of_nat k_entry_sectors,
      zs_data_start = word_of_nat k_data_start, zs_slot_sectors = word_of_nat k_slot_sectors, zs_generation = 1,
      zs_label = bytes_of_string ''ZENOVDATA'' @ replicate 7 0, zs_reserved = replicate 460 0\<rparr>"

definition build_image :: "(nat \<Rightarrow> bytes) \<Rightarrow> bytes result" where
  "build_image f =
     ebind (run_seeds (seeds_of f) (replicate (k_total_sectors * k_sector_size) 0, replicate k_entry_count empty_entry))
       (\<lambda>(disk, entries).
          Inr (blit k_sector_size (concat (map encode_entry entries)) (blit 0 (encode_super seed_super) disk)))"

primrec read_seeds :: "host \<Rightarrow> string list \<Rightarrow> bytes list result" where
  "read_seeds h [] = Inr []"
| "read_seeds h (p # ps) = ebind (read_seed h p) (\<lambda>x. ebind (read_seeds h ps) (\<lambda>xs. Inr (x # xs)))"

definition builder_usage :: string where
  "builder_usage =
     ''usage: zenovfs-builder <hello.zex> <fileio.elf> <args.elf> <console.elf> <protect.elf> <kaccess.elf> '' @
     ''<zenovapp.zex> <zgdb-v3> <zgdb-v4> <zgdb-tampered> <zgdb-wrong-key> <zcap-v1> <zcap-v2> <zcap-tampered> '' @
     ''<zcap-wrong-key> <zmid-v1> <zmid-v2> <zmid-tampered> <zmid-wrong-key> <zrwp-v1> <zrwp-v2> <zrwp-tampered> '' @
     ''<zrwp-wrong-key> <zvrt-v1> <zvrt-tampered> <zvrt-wrong-key> <linux-i386.elf> <output.img>'' @ [newline]"

definition builder_line :: "nat \<Rightarrow> string" where
  "builder_line app_bytes =
     ''zenovfs-builder: OK version=0.1.1 entries='' @ show_nat k_entry_count @
     '' apps=7 linux_i386_compat=1 zgdb=schema2-v3+v4+2-negative zcap=schema1-v1+v2+2-negative '' @
     ''zmid=schema1-v1+v2+2-negative zrwp=schema1-v1-audit+v2-block+2-negative zvrt=schema1-v1+2-negative '' @
     ''rules=hash+pattern audit=ZGAL1-8288B policy_journal=ZPTJ1-empty zenov_source_app='' @
     show_nat app_bytes @ [newline]"

text \<open>The exit code, the standard output and error, and the host; the arguments without \<open>argv[0]\<close>.\<close>

definition builder_main :: "string list \<Rightarrow> host \<Rightarrow> nat \<times> string \<times> string \<times> host" where
  "builder_main argv h =
     (if length argv + 1 \<noteq> 29 then (2, [], builder_usage, h)
      else let failed = (\<lambda>e h. (1, [], ''zenovfs-builder: '' @ e @ [newline], h))
           in case ebind (read_seeds h (take 27 argv)) (\<lambda>files.
                     ebind (build_image (\<lambda>n. files ! (n - 1))) (\<lambda>img. Inr (files, img))) of
                Inl (Error e) \<Rightarrow> failed e h
              | Inr (files, img) \<Rightarrow>
                  (case write_stream (argv ! 27) img ''cannot open output image'' ''cannot write output image'' h of
                     (Inl (Error e), h) \<Rightarrow> failed e h
                   | (Inr _, h) \<Rightarrow> (0, builder_line (length (files ! 6)), [], h)))"

section \<open>What the image holds\<close>

text \<open>The image as the sectors of a device, and the slot of an entry.\<close>

definition image_sectors :: "bytes \<Rightarrow> bytes list" where
  "image_sectors img = map (\<lambda>k. take 512 (drop (k * 512) img)) [0..<length img div 512]"

definition slot_offset :: "nat \<Rightarrow> nat" where
  "slot_offset i = 16384 + i * 65536"

definition image_slot :: "nat \<Rightarrow> bytes \<Rightarrow> bytes" where
  "image_slot i img = take 65536 (drop (slot_offset i) img)"

lemmas k_defs = k_sector_size_def k_total_sectors_def k_entry_count_def k_entry_sectors_def k_data_start_def
  k_slot_sectors_def k_max_file_bytes_def

lemma slot_bound: "i < 128 \<Longrightarrow> slot_offset i + 65536 \<le> 16777216"
  by (simp add: slot_offset_def)

lemma concat_pieces:
  "(b + m) * n \<le> length xs \<Longrightarrow> concat (map (\<lambda>k. take n (drop ((b + k) * n) xs)) [0..<m]) = take (m * n) (drop (b * n) xs)"
proof (induction m)
  case (Suc m)
  then have IH: "concat (map (\<lambda>k. take n (drop ((b + k) * n) xs)) [0..<m]) = take (m * n) (drop (b * n) xs)"
    by simp
  have "take (Suc m * n) (drop (b * n) xs) = take (m * n) (drop (b * n) xs) @ take n (drop (m * n) (drop (b * n) xs))"
    by (simp only: mult_Suc add.commute [of n] take_add)
  also have "drop (m * n) (drop (b * n) xs) = drop ((b + m) * n) xs"
    by (simp add: add_mult_distrib add.commute)
  finally show ?case using IH by simp
qed simp

lemma image_slot_blit_same:
  "length data \<le> 65536 \<Longrightarrow> slot_offset i + 65536 \<le> length disk \<Longrightarrow>
     image_slot i (blit (slot_offset i) data disk) = data @ drop (length data) (image_slot i disk)"
  by (simp add: image_slot_def blit_def drop_take add.commute)

lemma image_slot_blit_other:
  assumes "length data \<le> 65536" "slot_offset i + 65536 \<le> length disk" "i \<noteq> j"
  shows "image_slot j (blit (slot_offset i) data disk) = image_slot j disk"
proof (rule nth_equalityI)
  have len: "length (blit (slot_offset i) data disk) = length disk" using assms by simp
  then show "length (image_slot j (blit (slot_offset i) data disk)) = length (image_slot j disk)"
    by (simp add: image_slot_def)
  fix k assume "k < length (image_slot j (blit (slot_offset i) data disk))"
  then have k: "k < 65536" "slot_offset j + k < length disk" using len by (auto simp: image_slot_def)
  have "i + 1 \<le> j \<or> j + 1 \<le> i" using assms(3) by linarith
  then have "\<not> (slot_offset i \<le> slot_offset j + k \<and> slot_offset j + k < slot_offset i + length data)"
    using k(1) assms(1) by (auto simp: slot_offset_def)
  then show "image_slot j (blit (slot_offset i) data disk) ! k = image_slot j disk ! k"
    using k assms by (auto simp: image_slot_def nth_blit)
qed

text \<open>What a seed leaves in the table, on the disk and in the tree.\<close>

primrec seed_index :: "seed \<Rightarrow> nat" where
  "seed_index (SeedDirectory i p) = i"
| "seed_index (SeedFile i p data) = i"

primrec seed_path :: "seed \<Rightarrow> string" where
  "seed_path (SeedDirectory i p) = p"
| "seed_path (SeedFile i p data) = p"

primrec seed_node :: "seed \<Rightarrow> node" where
  "seed_node (SeedDirectory i p) = Directory"
| "seed_node (SeedFile i p data) = File data"

definition path_field :: "string \<Rightarrow> bytes" where
  "path_field p = blit 0 (bytes_of_string p) (replicate 48 0)"

primrec seed_entry :: "seed \<Rightarrow> zfs_entry" where
  "seed_entry (SeedDirectory i p) = empty_entry\<lparr>ze_used := 1, ze_type := 2, ze_path := path_field p\<rparr>"
| "seed_entry (SeedFile i p data) =
     empty_entry\<lparr>ze_used := 1, ze_type := 1, ze_path := path_field p, ze_size := word_of_nat (length data),
       ze_checksum := fnv1a data\<rparr>"

primrec seed_disk :: "seed \<Rightarrow> bytes \<Rightarrow> bytes" where
  "seed_disk (SeedDirectory i p) disk = disk"
| "seed_disk (SeedFile i p data) disk = blit (slot_offset i) data disk"

definition node_fits :: "node \<Rightarrow> bool" where
  "node_fits n = (case n of Directory \<Rightarrow> True | File data \<Rightarrow> length data \<le> 65536)"

definition path_legal :: "string \<Rightarrow> bool" where
  "path_legal p \<longleftrightarrow> p \<noteq> [] \<and> length p < 48 \<and> hd p = CHR ''/'' \<and> CHR 0x00 \<notin> set p"

lemma node_fits_simps [simp]: "node_fits Directory" "node_fits (File data) \<longleftrightarrow> length data \<le> 65536"
  by (simp_all add: node_fits_def)

lemma run_seed_ok:
  assumes "path_legal (seed_path s)" "node_fits (seed_node s)" "seed_index s < 128"
    and "length disk = 16777216" "length es = 128" "es ! seed_index s = empty_entry"
  shows "run_seed s (disk, es) = Inr (seed_disk s disk, es[seed_index s := seed_entry s])"
proof (cases s)
  case (SeedFile i p data)
  have at: "(k_data_start + i * k_slot_sectors) * k_sector_size = slot_offset i"
    by (simp add: k_defs slot_offset_def)
  have "slot_offset i + length data \<le> length disk" "length data \<le> k_max_file_bytes"
    using assms SeedFile by (simp_all add: slot_offset_def k_defs)
  then have "add_file i p data (disk, es) =
      ebind (entry_at es i) (\<lambda>e. ebind (set_path (e\<lparr>ze_used := 1, ze_type := 1\<rparr>) p) (\<lambda>e.
        Inr (blit (slot_offset i) data disk, es[i := e\<lparr>ze_size := word_of_nat (length data), ze_checksum := fnv1a data\<rparr>])))"
    unfolding add_file_def Let_def at by simp
  then show ?thesis
    using assms by (simp add: SeedFile run_seed_def entry_at_def set_path_def path_legal_def path_field_def)
qed (use assms in \<open>simp add: run_seed_def add_directory_def entry_at_def set_path_def throw_if_def
       path_legal_def path_field_def\<close>)

lemma length_seed_disk:
  "node_fits (seed_node s) \<Longrightarrow> seed_index s < 128 \<Longrightarrow> length disk = 16777216 \<Longrightarrow> length (seed_disk s disk) = 16777216"
  by (cases s) (simp_all add: slot_offset_def)

text \<open>Seeds whose indices count from zero fill the table from the front.\<close>

definition seeds_legal :: "seed list \<Rightarrow> bool" where
  "seeds_legal ss \<longleftrightarrow> map seed_index ss = [0..<length ss] \<and> length ss \<le> 128 \<and>
     (\<forall>s\<in>set ss. path_legal (seed_path s) \<and> node_fits (seed_node s)) \<and> distinct (map seed_path ss)"

definition blank_disk :: bytes where "blank_disk = replicate 16777216 0"

definition seeded_disk :: "seed list \<Rightarrow> bytes" where
  "seeded_disk ss = fold seed_disk ss blank_disk"

definition seeded_table :: "seed list \<Rightarrow> zfs_entry list" where
  "seeded_table ss = map seed_entry ss @ replicate (128 - length ss) empty_entry"

lemma seeds_legal_snoc:
  "seeds_legal (ss @ [s]) \<Longrightarrow> seeds_legal ss \<and> seed_index s = length ss \<and> path_legal (seed_path s) \<and>
     node_fits (seed_node s) \<and> length ss < 128"
  by (simp add: seeds_legal_def)

lemma run_seeds_append: "run_seeds (a @ b) st = ebind (run_seeds a st) (run_seeds b)"
  by (induction a arbitrary: st) (simp_all add: ebind_def split: sum.splits)

lemma run_seeds_ok:
  "seeds_legal ss \<Longrightarrow> length (seeded_disk ss) = 16777216 \<and>
     run_seeds ss (blank_disk, replicate 128 empty_entry) = Inr (seeded_disk ss, seeded_table ss)"
proof (induction ss rule: rev_induct)
  case Nil
  show ?case by (simp add: seeded_disk_def seeded_table_def) (simp only: blank_disk_def length_replicate)
next
  case (snoc s ss)
  note s = seeds_legal_snoc [OF snoc.prems]
  then have IH: "length (seeded_disk ss) = 16777216"
      "run_seeds ss (blank_disk, replicate 128 empty_entry) = Inr (seeded_disk ss, seeded_table ss)"
    using snoc.IH by auto
  have run: "run_seed s (seeded_disk ss, seeded_table ss) =
      Inr (seed_disk s (seeded_disk ss), (seeded_table ss)[seed_index s := seed_entry s])"
    using s IH(1) by (intro run_seed_ok) (auto simp: seeded_table_def nth_append)
  have "replicate (128 - length ss) empty_entry = empty_entry # replicate (127 - length ss) empty_entry"
  proof -
    have "128 - length ss = Suc (127 - length ss)" using s by arith
    then show ?thesis by (simp only: replicate_Suc)
  qed
  then have "(seeded_table ss)[seed_index s := seed_entry s] = seeded_table (ss @ [s])"
    using s by (simp add: seeded_table_def list_update_append)
  then show ?case
    using run IH s length_seed_disk [of s "seeded_disk ss"] by (simp add: run_seeds_append seeded_disk_def)
qed

lemma seeded_slot:
  "seeds_legal ss \<Longrightarrow> i < length ss \<Longrightarrow> seed_node (ss ! i) = File data \<Longrightarrow>
     take (length data) (image_slot i (seeded_disk ss)) = data"
proof (induction ss rule: rev_induct)
  case (snoc s ss)
  note s = seeds_legal_snoc [OF snoc.prems(1)]
  have len: "length (seeded_disk ss) = 16777216" using run_seeds_ok s by blast
  have disk: "seeded_disk (ss @ [s]) = seed_disk s (seeded_disk ss)" by (simp add: seeded_disk_def)
  show ?case
  proof (cases "i = length ss")
    case True
    then obtain p where "s = SeedFile i p data" using snoc.prems(3) s by (cases s) auto
    then have "image_slot i (seeded_disk (ss @ [s])) = data @ drop (length data) (image_slot i (seeded_disk ss))"
      unfolding disk using s len True slot_bound [of i] by (simp add: image_slot_blit_same)
    then show ?thesis by simp
  next
    case False
    with snoc.prems have i: "i < length ss" "seed_node (ss ! i) = File data" by (auto simp: nth_append)
    have "image_slot i (seed_disk s (seeded_disk ss)) = image_slot i (seeded_disk ss)"
      using s len i(1) slot_bound [of "seed_index s"] by (cases s) (simp_all add: image_slot_blit_other)
    with snoc.IH [OF _ i] s show ?thesis by (simp add: disk)
  qed
qed simp

definition seed_image :: "seed list \<Rightarrow> bytes" where
  "seed_image ss =
     blit 512 (concat (map encode_entry (seeded_table ss))) (blit 0 (encode_super seed_super) (seeded_disk ss))"

lemma seed_super_wf: "super_wf seed_super"
  by (simp add: super_wf_def seed_super_def)

lemma seed_entry_wf: "path_legal (seed_path s) \<Longrightarrow> entry_wf (seed_entry s)"
  by (cases s) (simp_all add: entry_wf_def path_field_def path_legal_def)

lemma seeded_table_wf:
  assumes "seeds_legal ss"
  shows "length (seeded_table ss) = 128" "\<forall>e\<in>set (seeded_table ss). entry_wf e"
  using assms by (auto simp: seeds_legal_def seeded_table_def seed_entry_wf)

lemma length_seeded_bytes: "seeds_legal ss \<Longrightarrow> length (concat (map encode_entry (seeded_table ss))) = 8192"
  using length_concat_uniform [of "map encode_entry (seeded_table ss)" 64] seeded_table_wf [of ss] by simp

lemma seed_image_fields:
  assumes "seeds_legal ss"
  shows "length (seed_image ss) = 16777216"
    and "take 512 (seed_image ss) = encode_super seed_super"
    and "i < 128 \<Longrightarrow> take 64 (drop (512 + i * 64) (seed_image ss)) = encode_entry (seeded_table ss ! i)"
    and "image_slot i (seed_image ss) = image_slot i (seeded_disk ss)"
proof -
  let ?t = "concat (map encode_entry (seeded_table ss))" and ?s = "encode_super seed_super"
  have len: "length (seeded_disk ss) = 16777216" "length ?t = 8192" "length ?s = 512"
    using run_seeds_ok [OF assms] length_seeded_bytes [OF assms] seed_super_wf by simp_all
  then have low: "length (blit 0 ?s (seeded_disk ss)) = 16777216" by simp
  show "length (seed_image ss) = 16777216" using low len by (simp add: seed_image_def)
  show "take 512 (seed_image ss) = ?s" using len by (simp add: seed_image_def blit_def)
  show "take 64 (drop (512 + i * 64) (seed_image ss)) = encode_entry (seeded_table ss ! i)" if i: "i < 128"
  proof -
    have "drop (512 + i * 64) (seed_image ss) = drop (i * 64) (?t @ drop 8704 (blit 0 ?s (seeded_disk ss)))"
      unfolding seed_image_def blit_def [of 512] using low len(2)
      by (simp only: drop_append length_take min_def) (simp add: add.commute)
    then have "take 64 (drop (512 + i * 64) (seed_image ss)) = take 64 (drop (i * 64) ?t)"
      using i len(2) by simp
    also have "\<dots> = encode_entry (seeded_table ss ! i)"
      using concat_uniform_nth [of "map encode_entry (seeded_table ss)" 64 i] seeded_table_wf [OF assms] i by simp
    finally show ?thesis .
  qed
  have "drop (slot_offset i) (seed_image ss) = drop (slot_offset i) (seeded_disk ss)"
    unfolding seed_image_def using low len by (simp add: drop_blit slot_offset_def)
  then show "image_slot i (seed_image ss) = image_slot i (seeded_disk ss)" by (simp add: image_slot_def)
qed

lemma build_image_eq: "seeds_legal (seeds_of f) \<Longrightarrow> build_image f = Inr (seed_image (seeds_of f))"
proof -
  have "k_total_sectors * k_sector_size = 16777216" "k_entry_count = 128" "k_sector_size = 512"
    by (simp_all add: k_defs)
  then show "seeds_legal (seeds_of f) \<Longrightarrow> build_image f = Inr (seed_image (seeds_of f))"
    using run_seeds_ok [of "seeds_of f"] unfolding build_image_def seed_image_def blank_disk_def by simp
qed

text \<open>The calls of \<open>main\<close> are legal whenever the input files fit.\<close>

definition seed_paths :: "string list" where
  "seed_paths =
     [''/apps'', ''/docs'', ''/docs/readme.txt'', ''/apps/hello.zex'', ''/apps/fileio.elf'',
      ''/docs/release.txt'', ''/config'', ''/config/system.ini'', ''/apps/args.elf'', ''/apps/console.elf'',
      ''/apps/protect.elf'', ''/apps/kaccess.elf'', ''/apps/zenovapp.zex'', ''/security'',
      ''/security/updates'', ''/security/zenovguard.zgdb'', ''/security/zenovguard.version'',
      ''/security/updates/zenovguard-v3.zgdb'', ''/security/updates/zenovguard-v4.zgdb'',
      ''/security/updates/zenovguard-tampered.zgdb'', ''/security/updates/zenovguard-wrong-key.zgdb'',
      ''/security/zenovguard.audit'', ''/security/syscall-capabilities.zcap'',
      ''/security/syscall-capabilities.version'', ''/security/updates/zcap-v1.zcap'',
      ''/security/updates/zcap-v2.zcap'', ''/security/updates/zcap-tampered.zcap'',
      ''/security/updates/zcap-wrong-key.zcap'', ''/security/zenovguard-intelligence.zmid'',
      ''/security/zenovguard-intelligence.version'', ''/security/updates/zmid-v1.zmid'',
      ''/security/updates/zmid-v2.zmid'', ''/security/updates/zmid-tampered.zmid'',
      ''/security/updates/zmid-wrong-key.zmid'', ''/samples'', ''/samples/clean.txt'',
      ''/samples/ransomware-test.bin'', ''/samples/pua-test.bin'', ''/samples/malware-v2.bin'',
      ''/quarantine'', ''/security/ransomware-policy.zrwp'', ''/security/ransomware-policy.version'',
      ''/security/updates/zrwp-v1.zrwp'', ''/security/updates/zrwp-v2.zrwp'',
      ''/security/updates/zrwp-tampered.zrwp'', ''/security/updates/zrwp-wrong-key.zrwp'',
      ''/security/verified-reads.zvrt'', ''/security/verified-reads.version'',
      ''/security/updates/verified-reads-tampered.zvrt'', ''/security/updates/verified-reads-wrong-key.zvrt'',
      ''/security/policy-transaction.journal'', ''/samples/linux-i386-hello.elf'']"

lemma length_seeds_of [simp]: "length (seeds_of f) = 52"
  by (simp add: seeds_of_def)

lemma seeds_of_shape:
  "map seed_path (seeds_of f) = seed_paths" "map seed_index (seeds_of f) = [0..<52]"
  by (simp_all add: seed_paths_def seeds_of_def upt_rec)

lemma seed_paths_legal: "list_all path_legal seed_paths" "distinct seed_paths"
  by code_simp+

lemma seed_texts_fit:
  "length readme_text \<le> 65536" "length release_text \<le> 65536" "length system_text \<le> 65536"
  "length empty_audit_journal \<le> 65536"
  by (simp_all add: readme_text_def release_text_def system_text_def text_line_bytes_def empty_audit_journal_def)

lemma seeds_of_fit:
  assumes "\<And>n. 1 \<le> n \<Longrightarrow> n \<le> 27 \<Longrightarrow> length (f n) \<le> 65536"
  shows "\<forall>s\<in>set (seeds_of f). node_fits (seed_node s)"
  using assms seed_texts_fit by (simp add: seeds_of_def text_line_bytes_def)

lemma seeds_of_legal:
  assumes "\<And>n. 1 \<le> n \<Longrightarrow> n \<le> 27 \<Longrightarrow> length (f n) \<le> 65536"
  shows "seeds_legal (seeds_of f)"
proof -
  have "\<forall>s\<in>set (seeds_of f). path_legal (seed_path s)"
    using seed_paths_legal(1) unfolding list_all_iff seeds_of_shape(1) [of f, symmetric] by simp
  then show ?thesis
    using seeds_of_fit [of f] assms seed_paths_legal(2) seeds_of_shape by (simp add: seeds_legal_def)
qed

lemma read_seeds_Inr:
  "read_seeds h ps = Inr files \<Longrightarrow> length files = length ps \<and> (\<forall>x\<in>set files. length x \<le> 65536)"
proof (induction ps arbitrary: files)
  case (Cons p ps)
  then obtain x xs where "read_seed h p = Inr x" "read_seeds h ps = Inr xs" "files = x # xs"
    by (auto simp: ebind_eq_Inr)
  moreover have "length x \<le> 65536"
    using calculation(1) by (auto simp: read_seed_def throw_if_eq_Inr k_defs split: option.splits host_node.splits read_fault.splits)
  ultimately show ?case using Cons.IH by auto
qed simp

lemma builder_seeds_legal:
  assumes "read_seeds h (take 27 argv) = Inr files" "length argv = 28"
  shows "seeds_legal (seeds_of (\<lambda>n. files ! (n - 1)))"
  using read_seeds_Inr [OF assms(1)] assms(2) by (intro seeds_of_legal) simp

text \<open>The tool succeeds exactly when it can read its inputs and write its output.\<close>

lemma builder_succeeds:
  "(\<exists>printed complaint h'. builder_main argv h = (0, printed, complaint, h')) \<longleftrightarrow>
     length argv = 28 \<and> (\<exists>files. read_seeds h (take 27 argv) = Inr files) \<and> host_write_fault h (argv ! 27) = None"
proof (cases "length argv = 28 \<and> (\<exists>files. read_seeds h (take 27 argv) = Inr files)")
  case True
  then obtain files where files: "length argv = 28" "read_seeds h (take 27 argv) = Inr files" by blast
  then show ?thesis
    using build_image_eq [OF builder_seeds_legal [OF files(2,1)]]
    by (auto simp: builder_main_def Let_def write_stream_def throw_def split: option.splits write_fault.splits)
next
  case False
  then show ?thesis
    by (cases "read_seeds h (take 27 argv)") (auto simp: builder_main_def Let_def split: error.splits)
qed

lemma builder_output:
  assumes "builder_main argv h = (0, printed, complaint, h')" "read_seeds h (take 27 argv) = Inr files"
  shows "host_lookup h' (argv ! 27) = Some (Regular (seed_image (seeds_of (\<lambda>n. files ! (n - 1)))))"
proof -
  have len: "length argv = 28" using assms(1) builder_succeeds by blast
  show ?thesis
    using assms len build_image_eq [OF builder_seeds_legal [OF assms(2) len]]
    by (auto simp: builder_main_def Let_def write_stream_def throw_def host_lookup_put
        split: option.splits write_fault.splits)
qed

end
