(* ===== verification/Image_Verify.thy ===== *)
theory Image_Verify
  imports Image_Builder "HOL-Library.List_Lexorder" "HOL-Library.Char_ord"
begin

text \<open>
  \<open>tools/zenovfs_verify.cpp\<close>: the tool that checks a ZenovFS image before it is shipped, and what its
  verdict means for the kernel. Every image the builder writes is accepted, mounted and shows exactly
  the seeded tree; in any accepted image that the kernel mounts, the paths are unique, every parent
  exists and every file reads back.
\<close>

section \<open>The tool\<close>

definition read_data_image :: "host \<Rightarrow> string \<Rightarrow> bytes result" where
  "read_data_image h path =
     (case (host_read_fault h path, host_lookup h path) of
        (Some CannotOpen, _) \<Rightarrow> throw (''cannot open image: '' @ path)
      | (Some CannotSize, Some (Regular _)) \<Rightarrow> throw ''unexpected ZenovFS image size''
      | (fault, Some (Regular data)) \<Rightarrow>
          throw_if (length data \<noteq> k_total_sectors * k_sector_size) ''unexpected ZenovFS image size'' (
          throw_if (fault = Some ShortRead) ''failed reading image'' (Inr data))
      | _ \<Rightarrow> throw (''cannot open image: '' @ path))"

definition path_of :: "zfs_entry \<Rightarrow> string result" where
  "path_of entry = throw_if (0 \<notin> set (ze_path entry)) ''unterminated entry path'' (Inr (cstr (ze_path entry)))"

definition valid_path :: "string \<Rightarrow> bool" where
  "valid_path path =
     (if length path < 2 \<or> hd path \<noteq> CHR ''/'' \<or> last path = CHR ''/'' \<or> contains path ''//'' then False
      else list_all (\<lambda>c. 32 \<le> (of_char c :: nat) \<and> (of_char c :: nat) \<le> 126) path)"

definition parent_of :: "string \<Rightarrow> string" where
  "parent_of path =
     (let slash = length path - 1 - length (takeWhile (\<lambda>c. c \<noteq> CHR ''/'') (rev path))
      in if slash = 0 then ''/'' else take slash path)"

text \<open>The 32-bit products and sums of the superblock check wrap as they do in the source.\<close>

definition super_valid :: "zfs_superblock \<Rightarrow> bool" where
  "super_valid s \<longleftrightarrow>
     \<not> (zs_magic s \<noteq> bytes_of_string ''ZENOVFS1'' \<or> zs_version s \<noteq> 1 \<or>
        zs_total_sectors s \<noteq> 32768 \<or> zs_entry_count s = 0 \<or> zs_entry_count s > 128 \<or>
        unat (zs_entry_sectors s * 512) < unat (zs_entry_count s) * 64 \<or>
        zs_slot_sectors s = 0 \<or> zs_data_start s < 1 + zs_entry_sectors s)"

record verify_state =
  vs_paths :: "string list"
  vs_directories :: "string list"
  vs_files :: nat
  vs_directory_count :: nat

definition verify_file :: "bytes \<Rightarrow> zfs_superblock \<Rightarrow> nat \<Rightarrow> zfs_entry \<Rightarrow> string \<Rightarrow> unit result" where
  "verify_file disk s i entry path =
     (let capacity = unat (zs_slot_sectors s) * 512;
          sector = unat (zs_data_start s) + i * unat (zs_slot_sectors s);
          offset = sector * 512; count = unat (ze_size entry)
      in throw_if (count > capacity) (''file exceeds slot: '' @ path) (
         throw_if (offset + count > length disk) (''file data outside image: '' @ path) (
         throw_if (fnv1a (take count (drop offset disk)) \<noteq> ze_checksum entry) (''checksum mismatch: '' @ path)
           (Inr ()))))"

text \<open>The body of the entry loop.\<close>

definition verify_entry :: "bytes \<Rightarrow> zfs_superblock \<Rightarrow> nat \<Rightarrow> verify_state \<Rightarrow> verify_state result" where
  "verify_entry disk s i st =
     (let entry = decode_entry (take 64 (drop (512 + i * 64) disk))
      in if ze_used entry = 0 then Inr st
         else ebind (path_of entry) (\<lambda>path.
              throw_if (\<not> valid_path path \<or> path \<in> set (vs_paths st)) (''invalid or duplicate entry path: '' @ path) (
              let st = st\<lparr>vs_paths := path # vs_paths st\<rparr>
              in if ze_type entry = 2
                 then throw_if (ze_size entry \<noteq> 0 \<or> ze_checksum entry \<noteq> 0) (''directory metadata is not empty: '' @ path)
                        (Inr (st\<lparr>vs_directories := path # vs_directories st,
                                vs_directory_count := vs_directory_count st + 1\<rparr>))
                 else if ze_type entry = 1
                 then ebind (verify_file disk s i entry path) (\<lambda>_. Inr (st\<lparr>vs_files := vs_files st + 1\<rparr>))
                 else throw (''unsupported entry type: '' @ path))))"

primrec verify_entries :: "bytes \<Rightarrow> zfs_superblock \<Rightarrow> nat list \<Rightarrow> verify_state \<Rightarrow> verify_state result" where
  "verify_entries disk s [] st = Inr st"
| "verify_entries disk s (i # is) st = ebind (verify_entry disk s i st) (verify_entries disk s is)"

text \<open>The set of paths is visited in order.\<close>

primrec verify_parents :: "string list \<Rightarrow> string list \<Rightarrow> unit result" where
  "verify_parents directories [] = Inr ()"
| "verify_parents directories (path # rest) =
     throw_if (parent_of path \<notin> set directories) (''missing parent directory for '' @ path)
       (verify_parents directories rest)"

primrec verify_required :: "string list \<Rightarrow> string list \<Rightarrow> unit result" where
  "verify_required paths [] = Inr ()"
| "verify_required paths (path # rest) =
     throw_if (path \<notin> set paths) (''required seed missing: '' @ path) (verify_required paths rest)"

definition required_seeds :: "string list" where
  "required_seeds = [''/apps/hello.zex'', ''/apps/fileio.elf'', ''/config/system.ini'', ''/docs/release.txt'']"

definition verify_image :: "bytes \<Rightarrow> verify_state result" where
  "verify_image disk =
     (let s = decode_super (take 512 disk)
      in throw_if (\<not> super_valid s) ''invalid ZenovFS superblock'' (
         ebind (verify_entries disk s [0..<unat (zs_entry_count s)]
                  \<lparr>vs_paths = [], vs_directories = [''/''], vs_files = 0, vs_directory_count = 0\<rparr>) (\<lambda>st.
         ebind (verify_parents (vs_directories st) (sort (vs_paths st))) (\<lambda>_.
         ebind (verify_required (vs_paths st) required_seeds) (\<lambda>_. Inr st)))))"

definition verify_main :: "string list \<Rightarrow> host \<Rightarrow> nat \<times> string \<times> string" where
  "verify_main argv h =
     (if length argv + 1 \<noteq> 2 then (2, [], ''usage: zenovfs-verify <zenov-data.img>'' @ [newline])
      else case ebind (read_data_image h (argv ! 0)) (\<lambda>disk. ebind (verify_image disk) (\<lambda>st. Inr (disk, st))) of
             Inl (Error e) \<Rightarrow> (1, [], ''zenovfs-verify: '' @ e @ [newline])
           | Inr (disk, st) \<Rightarrow>
               (0, ''zenovfs-verify: OK version=1 generation='' @ show_nat (unat (zs_generation (decode_super (take 512 disk)))) @
                   '' files='' @ show_nat (vs_files st) @ '' directories='' @ show_nat (vs_directory_count st) @ [newline], []))"

section \<open>What the tool accepts\<close>

definition image_entry :: "bytes \<Rightarrow> nat \<Rightarrow> zfs_entry" where
  "image_entry disk i = decode_entry (take 64 (drop (512 + i * 64) disk))"

abbreviation image_path :: "bytes \<Rightarrow> nat \<Rightarrow> string" where
  "image_path disk i \<equiv> cstr (ze_path (image_entry disk i))"

abbreviation image_used :: "bytes \<Rightarrow> nat \<Rightarrow> bool" where
  "image_used disk i \<equiv> ze_used (image_entry disk i) \<noteq> 0"

abbreviation image_directory :: "bytes \<Rightarrow> nat \<Rightarrow> bool" where
  "image_directory disk i \<equiv> image_used disk i \<and> ze_type (image_entry disk i) = 2"

definition entry_good :: "bytes \<Rightarrow> zfs_superblock \<Rightarrow> nat \<Rightarrow> bool" where
  "entry_good disk s i \<longleftrightarrow>
     (let e = image_entry disk i
      in 0 \<in> set (ze_path e) \<and> valid_path (cstr (ze_path e)) \<and>
         (ze_type e = 2 \<and> ze_size e = 0 \<and> ze_checksum e = 0 \<or>
          ze_type e = 1 \<and> verify_file disk s i e (cstr (ze_path e)) = Inr ()))"

definition verify_step :: "bytes \<Rightarrow> nat \<Rightarrow> verify_state \<Rightarrow> verify_state" where
  "verify_step disk i st =
     (if \<not> image_used disk i then st
      else if image_directory disk i
      then st\<lparr>vs_paths := image_path disk i # vs_paths st, vs_directories := image_path disk i # vs_directories st,
             vs_directory_count := vs_directory_count st + 1\<rparr>
      else st\<lparr>vs_paths := image_path disk i # vs_paths st, vs_files := vs_files st + 1\<rparr>)"

lemma verify_entry_iff:
  "verify_entry disk s i st = Inr st' \<longleftrightarrow>
     (image_used disk i \<longrightarrow> entry_good disk s i \<and> image_path disk i \<notin> set (vs_paths st)) \<and> st' = verify_step disk i st"
  unfolding verify_entry_def verify_step_def entry_good_def Let_def image_entry_def [symmetric]
  by (auto simp: path_of_def ebind_eq_Inr throw_if_eq_Inr)

lemma verify_step_paths:
  "vs_paths (fold (verify_step disk) is st) = rev (map (image_path disk) (filter (image_used disk) is)) @ vs_paths st"
  "vs_directories (fold (verify_step disk) is st) =
     rev (map (image_path disk) (filter (image_directory disk) is)) @ vs_directories st"
  by (induction "is" arbitrary: st) (simp_all add: verify_step_def)

lemma verify_entries_iff:
  "verify_entries disk s is st = Inr st' \<longleftrightarrow>
     (\<forall>i\<in>set is. image_used disk i \<longrightarrow> entry_good disk s i) \<and>
     distinct (map (image_path disk) (filter (image_used disk) is)) \<and>
     image_path disk ` set (filter (image_used disk) is) \<inter> set (vs_paths st) = {} \<and>
     st' = fold (verify_step disk) is st"
proof (induction "is" arbitrary: st)
  case (Cons i "is")
  have "set (vs_paths (verify_step disk i st)) =
      (if image_used disk i then insert (image_path disk i) (set (vs_paths st)) else set (vs_paths st))"
    by (simp add: verify_step_def)
  then show ?case by (auto simp: ebind_eq_Inr verify_entry_iff Cons.IH)
qed auto

lemma verify_parents_iff: "verify_parents ds ps = Inr () \<longleftrightarrow> (\<forall>p\<in>set ps. parent_of p \<in> set ds)"
  by (induction ps) (simp_all add: throw_if_eq_Inr)

lemma verify_required_iff: "verify_required paths ps = Inr () \<longleftrightarrow> set ps \<subseteq> set paths"
  by (induction ps) (simp_all add: throw_if_eq_Inr)

definition image_paths :: "bytes \<Rightarrow> nat \<Rightarrow> string set" where
  "image_paths disk n = image_path disk ` {i. i < n \<and> image_used disk i}"

definition image_directories :: "bytes \<Rightarrow> nat \<Rightarrow> string set" where
  "image_directories disk n = insert ''/'' (image_path disk ` {i. i < n \<and> image_directory disk i})"

lemma verify_image_accepts:
  assumes "s = decode_super (take 512 disk)" and "n = unat (zs_entry_count s)"
  shows "(\<exists>st. verify_image disk = Inr st) \<longleftrightarrow>
     super_valid s \<and> (\<forall>i<n. image_used disk i \<longrightarrow> entry_good disk s i) \<and>
     distinct (map (image_path disk) (filter (image_used disk) [0..<n])) \<and>
     (\<forall>p\<in>image_paths disk n. parent_of p \<in> image_directories disk n) \<and> set required_seeds \<subseteq> image_paths disk n"
proof -
  have sets: "set (filter (image_used disk) [0..<n]) = {i. i < n \<and> image_used disk i}"
    "set (filter (image_directory disk) [0..<n]) = {i. i < n \<and> image_directory disk i}" by auto
  show ?thesis
    unfolding verify_image_def Let_def assms [symmetric] image_paths_def image_directories_def
    by (simp add: throw_if_eq_Inr ebind_eq_Inr verify_entries_iff verify_parents_iff verify_required_iff
        verify_step_paths sets) (auto simp: required_seeds_def)
qed

section \<open>An image on a device\<close>

lemma image_sectors_shape:
  assumes "length img = 16777216"
  shows "length (image_sectors img) = 32768" "sectors_wf (image_sectors img)"
    and "k < 32768 \<Longrightarrow> image_sectors img ! k = take 512 (drop (k * 512) img)"
    and "image_sectors img ! 0 = take 512 img"
proof -
  show len: "length (image_sectors img) = 32768" using assms by (simp add: image_sectors_def)
  show nth: "image_sectors img ! k = take 512 (drop (k * 512) img)" if "k < 32768" for k
    using that assms by (simp add: image_sectors_def)
  show "sectors_wf (image_sectors img)"
    unfolding sectors_wf_def len using nth assms by (auto simp: min_def)
  show "image_sectors img ! 0 = take 512 img" using nth [of 0] by simp
qed

lemma image_disk_entry:
  assumes "length img = 16777216" "i < 128"
  shows "disk_entry (image_sectors img) i = image_entry img i"
proof -
  have "table_sector i < 32768" using assms(2) by (simp add: table_sector_def)
  then have "image_sectors img ! table_sector i = take 512 (drop (table_sector i * 512) img)"
    by (rule image_sectors_shape(3) [OF assms(1)])
  moreover have "entry_slot_offset i + table_sector i * 512 = 512 + i * 64"
  proof -
    have "r * 64 + (1 + q) * 512 = 512 + (q * 8 + r) * 64" for q r :: nat by simp
    from this [of "i mod 8" "i div 8"] show ?thesis by (simp only: table_sector_def entry_slot_offset_def div_mult_mod_eq)
  qed
  moreover have "take 64 (drop o' (take 512 xs)) = take 64 (drop o' xs)" if "o' + 64 \<le> 512" for o' :: nat and xs :: bytes
    using that by (simp add: drop_take min_def)
  ultimately show ?thesis
    using entry_slot_fits [of i] by (simp add: disk_entry_def image_entry_def add.commute)
qed

lemma image_slot_bytes:
  assumes "length img = 16777216" "geometry s 32768" "i < entry_total s"
  shows "slot_bytes s (image_sectors img) i = take (slots s * 512) (drop (data_base s i * 512) img)"
proof -
  have bound: "data_base s i + slots s \<le> 32768"
    using data_base_bound(1) [OF assms(2,3), of "slots s - 1"] assms(2) by (auto simp: geometry_def)
  have "slot_bytes s (image_sectors img) i = concat (map (\<lambda>k. take 512 (drop ((data_base s i + k) * 512) img)) [0..<slots s])"
    unfolding slot_bytes_def using image_sectors_shape(3) [OF assms(1)] bound
    by (intro arg_cong [where f = concat] map_cong refl) auto
  also have "\<dots> = take (slots s * 512) (drop (data_base s i * 512) img)"
    using bound assms(1) by (intro concat_pieces) simp
  finally show ?thesis .
qed

lemma distinct_map_filter:
  assumes "distinct (map f (filter P [0..<n]))" "i < n" "j < n" "P i" "P j" "f i = f j"
  shows "i = j"
  using assms by (auto simp: distinct_map inj_on_def)

text \<open>A mounted image whose table holds no write under way.\<close>

lemma mounted_image:
  assumes dev: "zenovfs_device rd wr dinv dabs" and sok: "driver_installed rd wr dinv dabs (zf_storage st)"
    and len: "length img = 16777216" and disk: "contents dabs st = image_sectors img"
    and fresh: "super_wf (zf_super st)" "length (zf_sector_buffer st) = 512"
    and s: "s = decode_super (take 512 img)"
    and settled: "table_settled (entry_total s) (disk_table s (image_sectors img))"
    and mnt: "mount_result allocate st = (m, st')" "fs_ok m"
  shows "zf_super st' = s" "zfs_shape (contents dabs st') st'" "table_synced (contents dabs st') st'"
    and "decode_super (contents dabs st' ! 0) = s" "geometry s 32768" "zf_mounted st'" "zf_current_directory st' = ''/''"
    and "driver_installed rd wr dinv dabs (zf_storage st')"
    and "zf_file_buffer st' = allocate (max_file_bytes s)" "zf_file_buffer st' \<noteq> None"
    and "i < entry_total s \<Longrightarrow> zf_entries st' ! i = image_entry img i"
    and "i < entry_total s \<Longrightarrow> slot_bytes s (contents dabs st') i = take (slots s * 512) (drop (data_base s i * 512) img)"
proof -
  note inst = zenovfs_device.storage_installed [OF dev]
  have sok': "sector_driver.storage_ok rd wr dinv dabs (zf_storage st)" using sok by (simp add: inst)
  note m = zenovfs_device.mount_spec [OF dev sok' fresh mnt, unfolded inst disk image_sectors_shape(4) [OF len] s [symmetric]]
  note zok = m(1) [unfolded zenovfs_device.zok_def [OF dev] inst]
  show super: "zf_super st' = s" and shape: "zfs_shape (contents dabs st') st'" and sync: "table_synced (contents dabs st') st'"
    and "zf_mounted st'" "zf_current_directory st' = ''/''" "driver_installed rd wr dinv dabs (zf_storage st')"
    "zf_file_buffer st' = allocate (max_file_bytes s)" "zf_file_buffer st' \<noteq> None"
    using m zok by auto
  have frame: "length (contents dabs st') = 32768" "contents dabs st' ! 0 = take 512 img"
      "\<And>j. slot_bytes s (contents dabs st') j = slot_bytes s (image_sectors img) j"
    using m(8) image_sectors_shape [OF len] by (auto simp: metadata_frame_def)
  then show "decode_super (contents dabs st' ! 0) = s" by (simp add: s)
  show geo: "geometry s 32768" using shape super frame(1) by (simp add: zfs_shape_def)
  show "slot_bytes s (contents dabs st') i = take (slots s * 512) (drop (data_base s i * 512) img)" if "i < entry_total s"
    using frame(3) image_slot_bytes [OF len geo that] by simp
  have "take (entry_total s) (zf_entries st') = disk_table s (image_sectors img)"
    using m(9) sync super recover_settled [OF settled] by (simp add: table_synced_def)
  then have "zf_entries st' ! i = disk_entry (image_sectors img) i" if "i < entry_total s"
    using that nth_take [of i "entry_total s" "zf_entries st'"] by (simp add: disk_table_def)
  then show "zf_entries st' ! i = image_entry img i" if "i < entry_total s"
    using that image_disk_entry [OF len, of i] geo by (simp add: geometry_def zfs_max_entries_def)
qed

section \<open>The builder's image\<close>

lemma byte_zero_path: "CHR 0x00 \<notin> set p \<Longrightarrow> length p < 48 \<Longrightarrow> cstr (path_field p) = p \<and> 0 \<in> set (path_field p)"
proof -
  assume p: "CHR 0x00 \<notin> set p" "length p < 48"
  have "48 - length p = Suc (47 - length p)" using p(2) by simp
  then have "path_field p = bytes_of_string p @ 0 # replicate (47 - length p) 0"
    by (simp add: path_field_def blit_def)
  then show "cstr (path_field p) = p \<and> 0 \<in> set (path_field p)" using cstr_terminated [OF p(1)] by simp
qed

lemma seed_super_fields:
  "entry_total seed_super = 128" "slots seed_super = 128" "data_base seed_super i * 512 = slot_offset i"
  "zs_entry_count seed_super = 128" "geometry seed_super 32768" "super_valid seed_super"
  by (simp_all add: entry_total_def slots_def data_base_def slot_offset_def seed_super_def k_defs geometry_def
      zfs_max_entries_def super_valid_def)

lemma seed_image_entry:
  assumes "seeds_legal ss" "i < 128"
  shows "image_entry (seed_image ss) i = (if i < length ss then seed_entry (ss ! i) else empty_entry)"
proof -
  have "entry_wf (seeded_table ss ! i)" using seeded_table_wf [OF assms(1)] assms(2) by simp
  then show ?thesis
    using seed_image_fields(3) [OF assms] assms(2) by (simp add: image_entry_def seeded_table_def nth_append)
qed

lemma seed_entry_fields:
  assumes "path_legal (seed_path s)"
  shows "cstr (ze_path (seed_entry s)) = seed_path s" "0 \<in> set (ze_path (seed_entry s))" "ze_used (seed_entry s) = 1"
    "ze_flags (seed_entry s) = 0" "ze_type (seed_entry s) = (if seed_node s = Directory then 2 else 1)"
  using assms byte_zero_path [of "seed_path s"] by (cases s; simp add: path_legal_def empty_entry_def)+

lemma seed_image_used:
  assumes "seeds_legal ss" "i < 128"
  shows "image_used (seed_image ss) i \<longleftrightarrow> i < length ss"
    and "i < length ss \<Longrightarrow> image_path (seed_image ss) i = seed_path (ss ! i)"
    and "image_directory (seed_image ss) i \<longleftrightarrow> i < length ss \<and> seed_node (ss ! i) = Directory"
  using seed_image_entry [OF assms] assms(1) seed_entry_fields [of "ss ! i"]
  by (auto simp: seeds_legal_def empty_entry_def)

lemma seed_file_verified:
  assumes "seeds_legal ss" "i < length ss" "seed_node (ss ! i) = File data" "i < 128"
  shows "take (length data) (drop (slot_offset i) (seed_image ss)) = data" "length data \<le> 65536"
    "ze_size (image_entry (seed_image ss) i) = word_of_nat (length data)"
    "ze_checksum (image_entry (seed_image ss) i) = fnv1a data"
proof -
  have "node_fits (seed_node (ss ! i))" using assms(1,2) by (simp add: seeds_legal_def)
  then show "length data \<le> 65536" using assms(3) by simp
  then have "take (length data) (drop (slot_offset i) (seed_image ss)) = take (length data) (image_slot i (seed_image ss))"
    by (simp add: image_slot_def min_def)
  then show "take (length data) (drop (slot_offset i) (seed_image ss)) = data"
    using seeded_slot [OF assms(1-3)] seed_image_fields(4) [OF assms(1), of i] by simp
  show "ze_size (image_entry (seed_image ss) i) = word_of_nat (length data)"
    "ze_checksum (image_entry (seed_image ss) i) = fnv1a data"
    using seed_image_entry [OF assms(1,4)] assms(2,3) by (cases "ss ! i"; simp)+
qed

lemma seed_image_good:
  assumes "seeds_legal ss" "i < length ss" "i < 128" "valid_path (seed_path (ss ! i))"
  shows "entry_good (seed_image ss) seed_super i"
proof -
  have legal: "path_legal (seed_path (ss ! i))" using assms(1,2) by (simp add: seeds_legal_def)
  note e = seed_image_entry [OF assms(1,3), simplified assms(2) if_True] seed_entry_fields [OF legal]
  show ?thesis
  proof (cases "seed_node (ss ! i)")
    case Directory
    then have "ze_size (seed_entry (ss ! i)) = 0 \<and> ze_checksum (seed_entry (ss ! i)) = 0"
      by (cases "ss ! i") (simp_all add: empty_entry_def)
    then show ?thesis using assms(4) Directory e by (simp add: entry_good_def)
  next
    case (File data)
    note v = seed_file_verified [OF assms(1,2) File assms(3)]
    have size: "unat (word_of_nat (length data) :: u32) = length data"
      using v(2) by (intro unat_of_nat_nowrap) simp
    have "slot_offset i + length data \<le> length (seed_image ss)"
      using v(2) slot_bound [OF assms(3)] seed_image_fields(1) [OF assms(1)] by simp
    then have "verify_file (seed_image ss) seed_super i (image_entry (seed_image ss) i) p = Inr ()" for p
      unfolding verify_file_def Let_def slots_def [symmetric] data_base_def [symmetric]
      unfolding seed_super_fields v(3,4) size using v(1,2) by (simp add: throw_if_eq_Inr)
    then show ?thesis using assms(4) File e by (simp add: entry_good_def)
  qed
qed

definition seed_directories :: "string list" where
  "seed_directories =
     [''/apps'', ''/docs'', ''/config'', ''/security'', ''/security/updates'', ''/samples'', ''/quarantine'']"

lemma seed_paths_valid:
  "list_all valid_path seed_paths"
  "list_all (\<lambda>p. parent_of p \<in> set (''/'' # seed_directories)) seed_paths"
  "list_all (\<lambda>p. p \<in> set seed_paths) required_seeds"
  "list_all (\<lambda>p. normalize_path ''/'' (Some p) = Some p) seed_paths"
  by code_simp+

lemma seed_directory_nodes:
  "set seed_directories = seed_path ` {s \<in> set (seeds_of f). seed_node s = Directory}"
proof -
  have "filter (\<lambda>s. seed_node s = Directory) (seeds_of f) =
      [SeedDirectory 0 ''/apps'', SeedDirectory 1 ''/docs'', SeedDirectory 6 ''/config'', SeedDirectory 13 ''/security'',
       SeedDirectory 14 ''/security/updates'', SeedDirectory 34 ''/samples'', SeedDirectory 39 ''/quarantine'']"
    by (simp add: seeds_of_def)
  then show ?thesis unfolding set_filter [symmetric] by (simp add: seed_directories_def)
qed

lemma seed_image_accepted:
  assumes "seeds_legal (seeds_of f)"
  shows "\<exists>v. verify_image (seed_image (seeds_of f)) = Inr v"
proof -
  let ?ss = "seeds_of f" and ?img = "seed_image (seeds_of f)"
  have s: "seed_super = decode_super (take 512 ?img)"
    using seed_image_fields(2) [OF assms] seed_super_wf by simp
  have n: "128 = unat (zs_entry_count seed_super)" by (simp add: seed_super_fields)
  have free: "ze_used (image_entry ?img i) = 0 \<longleftrightarrow> 52 \<le> i" if "i < 128" for i
    using seed_image_used(1) [OF assms that] by auto
  then have used: "{i. i < 128 \<and> image_used ?img i} = {0..<52}" by auto
  have nth: "seed_path (?ss ! i) = seed_paths ! i" if "i < 52" for i
    using that seeds_of_shape(1) [of f] nth_map [of i ?ss seed_path] by simp
  have len: "length seed_paths = 52" by (simp add: seed_paths_def)
  have paths: "image_path ?img i = seed_paths ! i" if "i < 52" for i
    using seed_image_used(2) [OF assms, of i] that nth by simp
  have filt: "filter (image_used ?img) [0..<128] = [0..<52]"
  proof -
    have "[0..<128] = [0..<52] @ [52..<128]" using upt_add_eq_append [of 0 52 76] by simp
    moreover have "filter (image_used ?img) [0..<52] = [0..<52]"
      using free by (intro filter_True) auto
    moreover have "filter (image_used ?img) [52..<128] = []"
      using free by (intro filter_False) auto
    ultimately show ?thesis by (simp only: filter_append append_Nil2)
  qed
  have map: "map (image_path ?img) [0..<52] = seed_paths"
    using paths len by (intro nth_equalityI) simp_all
  have names: "image_paths ?img 128 = set seed_paths"
    unfolding image_paths_def used using map by (metis atLeastLessThan_upt list.set_map)
  have dirs: "image_directories ?img 128 = set (''/'' # seed_directories)"
  proof -
    have "(i < 128 \<and> image_directory ?img i) = (i < 52 \<and> seed_node (?ss ! i) = Directory)" for i
      using seed_image_used(3) [OF assms, of i] by (cases "i < 128") simp_all
    then have "image_path ?img ` {i. i < 128 \<and> image_directory ?img i} =
        (\<lambda>i. seed_path (?ss ! i)) ` {i. i < 52 \<and> seed_node (?ss ! i) = Directory}"
      using paths nth by (intro image_cong) auto
    also have "\<dots> = seed_path ` {s \<in> set ?ss. seed_node s = Directory}"
      by (auto simp: in_set_conv_nth)
    finally show ?thesis by (simp add: image_directories_def seed_directory_nodes [of f])
  qed
  have "\<forall>i<128. image_used ?img i \<longrightarrow> entry_good ?img seed_super i"
  proof (intro allI impI)
    fix i :: nat assume i: "i < 128" "image_used ?img i"
    then have "i < 52" using seed_image_used(1) [OF assms i(1)] by simp
    moreover have "valid_path (seed_paths ! i)"
      using seed_paths_valid(1) calculation len by (simp add: list_all_length)
    ultimately show "entry_good ?img seed_super i"
      using seed_image_good [OF assms _ i(1)] nth by simp
  qed
  then show ?thesis
    using seed_super_fields(6) filt map names dirs seed_paths_legal(2) seed_paths_valid(2,3)
    by (simp only: verify_image_accepts [OF s n] list_all_iff subset_iff simp_thms Ball_def)
qed

lemma seed_table_settled:
  assumes "seeds_legal ss"
  shows "table_settled 128 (disk_table seed_super (image_sectors (seed_image ss)))"
  unfolding table_settled_def
proof (intro allI impI)
  fix i :: nat assume i: "i < 128"
  have "disk_table seed_super (image_sectors (seed_image ss)) ! i = image_entry (seed_image ss) i"
    using i image_disk_entry [OF seed_image_fields(1) [OF assms] i] by (simp add: disk_table_def seed_super_fields)
  moreover have "entry_settled (image_entry (seed_image ss) i)"
  proof (cases "i < length ss")
    case True
    then show ?thesis
      using seed_image_entry [OF assms i] assms seed_entry_fields(4,5) [of "ss ! i"]
      by (auto simp: entry_settled_def seeds_legal_def zfs_type_transaction_def)
  qed (simp add: seed_image_entry [OF assms i])
  ultimately show "entry_settled (disk_table seed_super (image_sectors (seed_image ss)) ! i)" by simp
qed

text \<open>The tree the seeds describe.\<close>

definition seed_tree :: "seed list \<Rightarrow> string \<Rightarrow> node option" where
  "seed_tree ss = map_of (map (\<lambda>s. (seed_path s, seed_node s)) ss)"

lemma seed_tree_nth: "seeds_legal ss \<Longrightarrow> i < length ss \<Longrightarrow> seed_tree ss (seed_path (ss ! i)) = Some (seed_node (ss ! i))"
  unfolding seed_tree_def by (rule map_of_is_SomeI) (auto simp: seeds_legal_def comp_def)

lemma seed_view:
  assumes ss: "seeds_legal ss" and geo: "geometry seed_super n"
    and unique: "paths_unique 128 es"
    and es: "\<And>i. i < 128 \<Longrightarrow> es ! i = image_entry (seed_image ss) i"
    and slots: "\<And>i. i < 128 \<Longrightarrow> slot_bytes seed_super d i = take 65536 (drop (slot_offset i) (seed_image ss))"
  shows "view seed_super d es = seed_tree ss"
proof
  fix p
  note find = find_entry_Some [OF geo, of es p, unfolded seed_super_fields(1), OF unique]
  have visible: "entry_visible (es ! i) \<longleftrightarrow> i < length ss" if "i < 128" for i
    using es [OF that] seed_image_entry [OF ss that] ss seed_entry_fields(3,5) [of "ss ! i"]
    by (cases "i < length ss") (auto simp: entry_visible_def seeds_legal_def zfs_type_transaction_def empty_entry_def)
  have path: "cstr (ze_path (es ! i)) = seed_path (ss ! i)" if "i < 128" "i < length ss" for i
    using es seed_image_used(2) [OF ss] that by simp
  show "view seed_super d es p = seed_tree ss p"
  proof (cases "find_entry seed_super es p")
    case (Some i)
    then have i: "i < 128" "i < length ss" "p = seed_path (ss ! i)" using find visible path by auto
    have e: "es ! i = seed_entry (ss ! i)" using es seed_image_entry [OF ss i(1)] i by simp
    have "(if ze_type (es ! i) = zfs_type_file then File (file_data seed_super d i (es ! i)) else Directory) = seed_node (ss ! i)"
    proof (cases "seed_node (ss ! i)")
      case Directory
      then show ?thesis using e by (cases "ss ! i") (simp_all add: zfs_type_file_def)
    next
      case (File data)
      note v = seed_file_verified [OF ss i(2) File i(1)]
      have "unat (word_of_nat (length data) :: u32) = length data"
        using v(2) by (intro unat_of_nat_nowrap) simp
      then have "file_data seed_super d i (es ! i) = data"
        using v es [OF i(1)] by (simp add: file_data_def slots [OF i(1)] min_def)
      moreover have "ze_type (es ! i) = zfs_type_file" using e File by (cases "ss ! i") (simp_all add: zfs_type_file_def)
      ultimately show ?thesis using File by simp
    qed
    then show ?thesis using Some i seed_tree_nth [OF ss i(2)] by (simp add: view_def)
  next
    case None
    have "p \<notin> seed_path ` set ss"
    proof
      assume "p \<in> seed_path ` set ss"
      then obtain i where i: "i < length ss" "p = seed_path (ss ! i)" by (auto simp: in_set_conv_nth)
      then have "i < 128" using ss by (simp add: seeds_legal_def)
      then show False using None i visible path unfolding find_entry_None [OF geo] seed_super_fields(1) by blast
    qed
    then have "seed_tree ss p = None" by (simp add: seed_tree_def map_of_eq_None_iff image_image)
    then show ?thesis using None by (simp add: view_def)
  qed
qed

section \<open>Properties\<close>

lemma verified_file:
  assumes "verify_file img s i e path = Inr ()" "length img = 16777216" "geometry s 32768" "i < entry_total s"
    and "slot_bytes s d i = take (slots s * 512) (drop (data_base s i * 512) img)"
  shows "fnv1a (file_data s d i e) = ze_checksum e" "ze_size e \<le> max_file_bytes s"
proof -
  have small: "slots s * 512 < 2 ^ 32"
    using data_base_bound(1) [OF assms(3,4), of "slots s - 1"] assms(3) by (auto simp: geometry_def)
  have v: "unat (ze_size e) \<le> slots s * 512"
      "fnv1a (take (unat (ze_size e)) (drop (data_base s i * 512) img)) = ze_checksum e"
    using assms(1) by (auto simp: verify_file_def Let_def throw_if_eq_Inr slots_def data_base_def)
  then show "fnv1a (file_data s d i e) = ze_checksum e" by (simp add: file_data_def assms(5) min_def)
  have "unat (max_file_bytes s) = slots s * 512"
    using small by (simp add: max_file_bytes_def slots_def unat_mult_nowrap)
  then show "ze_size e \<le> max_file_bytes s" using v(1) by (simp add: word_le_nat_alt)
qed

lemma verified_mount:
  assumes dev: "zenovfs_device rd wr dinv dabs" and sok: "driver_installed rd wr dinv dabs (zf_storage st)"
    and acc: "verify_image img = Inr v" and len: "length img = 16777216" and disk: "contents dabs st = image_sectors img"
    and fresh: "super_wf (zf_super st)" "length (zf_sector_buffer st) = 512"
    and s: "s = decode_super (take 512 img)"
    and settled: "table_settled (entry_total s) (disk_table s (image_sectors img))"
    and alloc: "\<And>n buffer. allocate n = Some buffer \<Longrightarrow> unat n \<le> length buffer"
    and mnt: "mount_result allocate st = (m, st')" "fs_ok m"
  shows "fs_consistent (contents dabs st') st' \<and> files_intact (contents dabs st') st' \<and>
         (\<forall>p. current_view (contents dabs st') st' p \<noteq> None \<longrightarrow>
              parent_of p = ''/'' \<or> current_view (contents dabs st') st' (parent_of p) = Some Directory)"
proof -
  note m = mounted_image [OF dev sok len disk fresh s settled mnt]
  note v = verify_image_accepts [OF s refl, THEN iffD1, OF exI, OF acc, folded entry_total_def]
  have geo: "geometry (zf_super st') (length (contents dabs st'))" using m(2) by (simp add: zfs_shape_def)
  have good: "entry_good img s i" if "i < entry_total s" "image_used img i" for i using v that by blast
  have visible: "entry_visible (zf_entries st' ! i) \<longleftrightarrow> image_used img i" if "i < entry_total s" for i
    using good [OF that] m(11) [OF that]
    by (auto simp: entry_visible_def entry_good_def Let_def zfs_type_transaction_def)
  have unique: "paths_unique (entry_total s) (zf_entries st')"
    unfolding paths_unique_def using visible m(11) distinct_map_filter [of "image_path img" "image_used img" "entry_total s"] v
    by simp
  have flags: "table_settled (entry_total s) (zf_entries st')"
    using m(3) m(1) settled recover_settled [OF settled] m(11) image_disk_entry [OF len] m(5)
    by (auto simp: table_settled_def disk_table_def geometry_def zfs_max_entries_def)
  obtain fb where "zf_file_buffer st' = Some fb" "unat (max_file_bytes s) \<le> length fb"
    using m(9,10) alloc [of "max_file_bytes s"] by (cases "zf_file_buffer st'") auto
  then have "fs_consistent (contents dabs st') st'"
    using m(1-4) unique flags by (simp add: fs_consistent_def)
  moreover have "files_intact (contents dabs st') st'"
    unfolding files_intact_def m(1)
  proof (intro allI impI)
    fix i assume i: "i < entry_total s" "entry_visible (zf_entries st' ! i) \<and> ze_type (zf_entries st' ! i) = zfs_type_file"
    then have "verify_file img s i (zf_entries st' ! i) (image_path img i) = Inr ()"
      using good [OF i(1)] visible [OF i(1)] m(11) [OF i(1)] by (auto simp: entry_good_def Let_def zfs_type_file_def)
    then show "fnv1a (file_data s (contents dabs st') i (zf_entries st' ! i)) = ze_checksum (zf_entries st' ! i) \<and>
        ze_size (zf_entries st' ! i) \<le> max_file_bytes s"
      using verified_file [OF _ len m(5) i(1) m(12) [OF i(1)]] by blast
  qed
  moreover have "current_view (contents dabs st') st' (parent_of p) = Some Directory"
    if p: "current_view (contents dabs st') st' p \<noteq> None" "parent_of p \<noteq> ''/''" for p
  proof -
    note find = find_entry_Some [OF geo unique [folded m(1)], unfolded m(1)]
    obtain i where "find_entry s (zf_entries st') p = Some i"
      using p(1) by (auto simp: current_view_def view_def m(1) split: option.splits)
    then have i: "i < entry_total s" "image_used img i" "image_path img i = p"
      using find visible m(11) by auto
    then have "p \<in> image_paths img (entry_total s)" by (auto simp: image_paths_def)
    then have "parent_of p \<in> image_directories img (entry_total s)" using v by blast
    then obtain j where j: "j < entry_total s" "image_directory img j" "image_path img j = parent_of p"
      using p(2) by (auto simp: image_directories_def)
    then have "find_entry s (zf_entries st') (parent_of p) = Some j" using find visible m(11) by simp
    then show ?thesis using j m(11) by (simp add: current_view_def view_def m(1) zfs_type_file_def)
  qed
  ultimately show ?thesis by blast
qed

lemma seed_mount_ok:
  assumes dev: "reliable_device rd wr dinv dabs" and wt: "device_writes wr dinv dabs"
    and sok: "driver_installed rd wr dinv dabs (zf_storage st)" and ss: "seeds_legal ss"
    and disk: "contents dabs st = image_sectors (seed_image ss)"
    and fresh: "super_wf (zf_super st)" "length (zf_sector_buffer st) = 512"
    and alloc: "allocate (max_file_bytes seed_super) \<noteq> None"
    and mnt: "mount_result allocate st = (m, st')"
  shows "fs_ok m"
proof -
  note inst = zenovfs_device.storage_installed [OF reliable_device.axioms(1) [OF dev]]
  note shape = image_sectors_shape [OF seed_image_fields(1) [OF ss]]
  have s: "decode_super (contents dabs st ! 0) = seed_super"
    using seed_image_fields(2) [OF ss] seed_super_wf by (simp add: disk shape)
  have total: "reliable_device.writes_total wr dinv dabs"
    using wt by (simp add: reliable_device.writes_total_def [OF dev] device_writes_def)
  have "unat (bd_sectors (ata0 (zf_storage st))) = 32768"
    using sok disk shape(1) by (simp add: driver_installed_def contents_def)
  then have "bd_sectors (ata0 (zf_storage st)) = 32768"
    by (simp add: word_unat_eq_iff)
  then have layout: "mount_layout_valid seed_super (bd_sectors (ata0 (zf_storage st)))"
    by (simp add: mount_layout_valid_def seed_super_def k_defs zfs_max_entries_def)
  have sok': "sector_driver.storage_ok rd wr dinv dabs (zf_storage st)" using sok by (simp add: inst)
  have some: "contents dabs st \<noteq> []" using disk shape(1) by auto
  show ?thesis
    by (rule reliable_device.mount_total [OF dev total sok' fresh _ _ _ _ _ mnt, unfolded inst])
      (simp_all add: s layout alloc some, simp_all add: seed_super_def zfs_magic_def)
qed

text \<open>A host with empty inputs, and a RAM disk with the image built from them, for the witnesses.\<close>

definition demo_argv :: "string list" where
  "demo_argv = replicate 27 ''in'' @ [''out'']"

definition builder_host :: host where
  "builder_host = \<lparr>host_nodes = [(''in'', Regular [])], host_read_fault = (\<lambda>_. None), host_write_fault = (\<lambda>_. None),
     host_renames = [], host_error_text = []\<rparr>"

definition demo_image :: bytes where
  "demo_image = seed_image (seeds_of (\<lambda>n. replicate 27 [] ! (n - 1)))"

definition image_fs :: "bytes \<Rightarrow> bytes list zfs" where
  "image_fs img = demo_fs\<lparr>zf_storage := (zf_storage demo_fs)\<lparr>ata0 := (ata0 (zf_storage demo_fs))\<lparr>bd_sectors := 32768\<rparr>,
     driver_state := image_sectors img\<rparr>\<rparr>"

definition allocate_zeros :: "u32 \<Rightarrow> bytes option" where
  "allocate_zeros n = Some (replicate (unat n) 0)"

lemma demo_reads: "read_seeds builder_host (take 27 demo_argv) = Inr (replicate 27 [])"
proof -
  have "read_seed builder_host ''in'' = Inr []"
    by (simp add: read_seed_def builder_host_def host_lookup_def throw_if_def)
  then have "read_seeds builder_host (replicate n ''in'') = Inr (replicate n [])" for n by (induction n) simp_all
  then show ?thesis by (simp add: demo_argv_def)
qed

lemma demo_argv_nth: "demo_argv ! 27 = ''out''" "length demo_argv = 28"
  by (simp_all add: demo_argv_def nth_append)

lemma demo_legal: "seeds_legal (seeds_of (\<lambda>n. replicate 27 [] ! (n - 1)))"
  by (rule builder_seeds_legal [OF demo_reads demo_argv_nth(2)])

lemma demo_built:
  obtains printed complaint h' where "builder_main demo_argv builder_host = (0, printed, complaint, h')"
    "host_lookup h' (demo_argv ! 27) = Some (Regular demo_image)"
proof -
  have "host_write_fault builder_host (demo_argv ! 27) = None" by (simp add: builder_host_def)
  then obtain printed complaint h' where r: "builder_main demo_argv builder_host = (0, printed, complaint, h')"
    using builder_succeeds [of demo_argv builder_host] demo_reads demo_argv_nth by blast
  then show ?thesis using that builder_output [OF r demo_reads] by (simp add: demo_image_def)
qed

lemma image_fs_installed:
  assumes "length img = 16777216"
  shows "driver_installed ram_read ram_write sectors_wf id (zf_storage (image_fs img))"
    "contents id (image_fs img) = image_sectors img" "super_wf (zf_super (image_fs img))"
    "length (zf_sector_buffer (image_fs img)) = 512"
  using image_sectors_shape [OF assms] demo_super_wf
  by (simp_all add: driver_installed_def image_fs_def contents_def demo_fs_def)

text \<open>
  An image that \<open>zenovfs-verify\<close> accepts and the kernel mounts gives a consistent file system. When
  no write is under way in its table, the mounted state satisfies the invariant of the file system,
  every file fits its slot and hashes to its checksum, and the parent of every path is the root or a
  directory of the tree.
\<close>

theorem verified_image_consistent:
  assumes dev: "zenovfs_device rd wr dinv dabs" and sok: "driver_installed rd wr dinv dabs (zf_storage st)"
    and acc: "verify_image img = Inr v" and len: "length img = 16777216" and disk: "contents dabs st = image_sectors img"
    and fresh: "super_wf (zf_super st)" "length (zf_sector_buffer st) = 512"
    and s: "s = decode_super (take 512 img)"
    and settled: "table_settled (entry_total s) (disk_table s (image_sectors img))"
    and alloc: "\<And>n buffer. allocate n = Some buffer \<Longrightarrow> unat n \<le> length buffer"
    and mnt: "mount_result allocate st = (m, st')" "fs_ok m"
  shows "fs_consistent (contents dabs st') st' \<and> files_intact (contents dabs st') st' \<and>
         (\<forall>p. current_view (contents dabs st') st' p \<noteq> None \<longrightarrow>
              parent_of p = ''/'' \<or> current_view (contents dabs st') st' (parent_of p) = Some Directory)"
  by (rule verified_mount [OF dev sok acc len disk fresh s settled alloc mnt])

theorem verified_image_consistent_witness:
  "fs_consistent (contents id (snd (mount_result allocate_zeros (image_fs demo_image))))
     (snd (mount_result allocate_zeros (image_fs demo_image)))"
proof -
  obtain m st' where mnt: "mount_result allocate_zeros (image_fs demo_image) = (m, st')" by fastforce
  have len: "length demo_image = 16777216" using seed_image_fields(1) [OF demo_legal] by (simp add: demo_image_def)
  have s: "seed_super = decode_super (take 512 demo_image)"
    using seed_image_fields(2) [OF demo_legal] seed_super_wf by (simp add: demo_image_def)
  obtain v where v: "verify_image demo_image = Inr v"
    using seed_image_accepted [OF demo_legal] by (auto simp: demo_image_def)
  note ram = image_fs_installed [OF len]
  have ok: "fs_ok m"
    by (rule seed_mount_ok [OF ram_device ram_writes ram(1) demo_legal _ ram(3,4) _ mnt])
      (simp_all only: ram(2) demo_image_def [symmetric], simp add: allocate_zeros_def)
  have settled: "table_settled (entry_total seed_super) (disk_table seed_super (image_sectors demo_image))"
    using seed_table_settled [OF demo_legal] by (simp add: demo_image_def seed_super_fields)
  show ?thesis
    using verified_image_consistent [OF ram_fs_device ram(1) v len ram(2,3,4) s settled _ mnt ok]
    by (simp add: mnt allocate_zeros_def)
qed

lemma seed_image_mounts:
  assumes run: "builder_main argv h = (0, printed, complaint, h')"
    and out: "host_lookup h' (argv ! 27) = Some (Regular img)"
    and files: "read_seeds h (take 27 argv) = Inr files" and ss: "ss = seeds_of (\<lambda>n. files ! (n - 1))"
    and dev: "reliable_device rd wr dinv dabs" and wt: "device_writes wr dinv dabs"
    and sok: "driver_installed rd wr dinv dabs (zf_storage st)" and disk: "contents dabs st = image_sectors img"
    and fresh: "super_wf (zf_super st)" "length (zf_sector_buffer st) = 512"
    and alloc: "\<And>n. \<exists>buffer. allocate n = Some buffer \<and> unat n \<le> length buffer"
    and mnt: "mount_result allocate st = (m, st')"
  shows "is_ok (verify_image img) \<and> fs_ok m \<and> fs_consistent (contents dabs st') st' \<and>
         current_view (contents dabs st') st' = seed_tree ss \<and>
         (\<forall>path data buffer capacity. seed_tree ss path = Some (File data) \<and> length data \<le> unat capacity \<and>
            unat capacity \<le> length buffer \<longrightarrow>
            (\<exists>st2. read_file_result (Some path) (Some buffer) capacity st' =
               (fs_success FopRead (word_of_nat (length data)), word_of_nat (length data), Some (data @ drop (length data) buffer), st2)))"
proof -
  have "length argv = 28" using run builder_succeeds by blast
  then have legal: "seeds_legal ss" using builder_seeds_legal [OF files] ss by simp
  have img: "img = seed_image ss" using builder_output [OF run files] out ss by simp
  note fsd = reliable_device.axioms(1) [OF dev]
  note inst = zenovfs_device.storage_installed [OF fsd]
  have len: "length img = 16777216" using seed_image_fields(1) [OF legal] img by simp
  have s: "seed_super = decode_super (take 512 img)"
    using seed_image_fields(2) [OF legal] seed_super_wf img by simp
  have "allocate (max_file_bytes seed_super) \<noteq> None" using alloc by (metis option.distinct(1))
  then have ok: "fs_ok m" by (rule seed_mount_ok [OF dev wt sok legal disk [unfolded img] fresh _ mnt])
  have settled: "table_settled (entry_total seed_super) (disk_table seed_super (image_sectors img))"
    using seed_table_settled [OF legal] by (simp add: img seed_super_fields)
  obtain v where v: "verify_image img = Inr v" using seed_image_accepted legal by (auto simp: img ss)
  have buf: "allocate n = Some b \<Longrightarrow> unat n \<le> length b" for n b using alloc [of n] by auto
  note m = mounted_image [OF fsd sok len disk fresh s settled mnt ok]
  note c = verified_mount [OF fsd sok v len disk fresh s settled buf mnt ok]
  have tree: "current_view (contents dabs st') st' = seed_tree ss"
    unfolding current_view_def m(1)
  proof (rule seed_view [OF legal m(5)])
    show "paths_unique 128 (zf_entries st')" using c m(1) by (simp add: fs_consistent_def seed_super_fields)
    show "zf_entries st' ! i = image_entry (seed_image ss) i"
      "slot_bytes seed_super (contents dabs st') i = take 65536 (drop (slot_offset i) (seed_image ss))" if "i < 128" for i
      using that m(11,12) [of i] by (simp_all add: seed_super_fields img)
  qed
  have "\<exists>st2. read_file_result (Some path) (Some buffer) capacity st' =
      (fs_success FopRead (word_of_nat (length data)), word_of_nat (length data), Some (data @ drop (length data) buffer), st2)"
    if p: "seed_tree ss path = Some (File data)" and cap: "length data \<le> unat capacity" "unat capacity \<le> length buffer"
    for path data buffer capacity
  proof -
    have "path \<in> set (map seed_path ss)" using p by (auto simp: seed_tree_def dest!: map_of_SomeD)
    then have "path \<in> set seed_paths" using seeds_of_shape(1) unfolding ss by metis
    then have name: "normalize_path (zf_current_directory st') (Some path) = Some path"
      using seed_paths_valid(4) m(7) by (simp add: list_all_iff)
    obtain r n o2 st2 where rd: "read_file_result (Some path) (Some buffer) capacity st' = (r, n, o2, st2)"
      by (metis prod_cases4)
    have "zenovfs_device.zok rd wr dinv dabs st'" using m(2,8) by (simp add: zenovfs_device.zok_def [OF fsd] inst)
    then show ?thesis
      using reliable_device.read_file_total [OF dev _ _ m(6) name _ cap rd] c tree p rd by (simp add: inst)
  qed
  then show ?thesis using v ok c tree by (auto simp: is_ok_def)
qed

text \<open>
  C8: The shipped image boots. Whatever files it is given, the image \<open>zenovfs-builder\<close> writes is accepted
  by \<open>zenovfs-verify\<close>, and the kernel mounts it on every device that performs its requests: the file
  system is consistent, its tree is exactly the seeded one, and every seeded file is read back by its
  name with the contents it was given.
\<close>

theorem seed_image_boots:
  assumes run: "builder_main argv h = (0, printed, complaint, h')"
    and out: "host_lookup h' (argv ! 27) = Some (Regular img)"
    and files: "read_seeds h (take 27 argv) = Inr files" and ss: "ss = seeds_of (\<lambda>n. files ! (n - 1))"
    and dev: "reliable_device rd wr dinv dabs" and wt: "device_writes wr dinv dabs"
    and sok: "driver_installed rd wr dinv dabs (zf_storage st)" and disk: "contents dabs st = image_sectors img"
    and fresh: "super_wf (zf_super st)" "length (zf_sector_buffer st) = 512"
    and alloc: "\<And>n. \<exists>buffer. allocate n = Some buffer \<and> unat n \<le> length buffer"
    and mnt: "mount_result allocate st = (m, st')"
  shows "is_ok (verify_image img) \<and> fs_ok m \<and> fs_consistent (contents dabs st') st' \<and>
         current_view (contents dabs st') st' = seed_tree ss \<and>
         (\<forall>path data buffer capacity. seed_tree ss path = Some (File data) \<and> length data \<le> unat capacity \<and>
            unat capacity \<le> length buffer \<longrightarrow>
            (\<exists>st2. read_file_result (Some path) (Some buffer) capacity st' =
               (fs_success FopRead (word_of_nat (length data)), word_of_nat (length data), Some (data @ drop (length data) buffer), st2)))"
  by (rule seed_image_mounts [OF run out files ss dev wt sok disk fresh alloc mnt])

theorem seed_image_boots_witness:
  "fs_ok (fst (mount_result allocate_zeros (image_fs demo_image))) \<and>
   current_view (contents id (snd (mount_result allocate_zeros (image_fs demo_image))))
     (snd (mount_result allocate_zeros (image_fs demo_image))) ''/apps'' = Some Directory"
proof -
  obtain m st' where mnt: "mount_result allocate_zeros (image_fs demo_image) = (m, st')" by fastforce
  obtain printed complaint h' where run: "builder_main demo_argv builder_host = (0, printed, complaint, h')"
    "host_lookup h' (demo_argv ! 27) = Some (Regular demo_image)" by (rule demo_built)
  have len: "length demo_image = 16777216" using seed_image_fields(1) [OF demo_legal] by (simp add: demo_image_def)
  have alloc: "\<exists>buffer. allocate_zeros n = Some buffer \<and> unat n \<le> length buffer" for n
    by (simp add: allocate_zeros_def)
  have "seed_tree (seeds_of f) ''/apps'' = Some Directory" for f by (simp add: seed_tree_def seeds_of_def)
  then show ?thesis
    using seed_image_boots [OF run demo_reads refl ram_device ram_writes image_fs_installed [OF len] alloc mnt] by (simp add: mnt)
qed

end
