(* ===== verification/Boot_Image.thy ===== *)
theory Boot_Image
  imports Host_Files
begin

text \<open>
  The boot floppy: \<open>tools/fat12_builder.cpp\<close> writes a FAT12 image with the boot sector and the kernel, and
  \<open>tools/image_verify.cpp\<close> checks one. An entry of the allocation table is twelve bits of the byte string;
  the two lemmas on single bits of an entry carry the proofs. The image of a bootable kernel passes the
  check, and following the cluster chain gives the kernel back.
\<close>

section \<open>Vectors with checked access\<close>

definition vector_at :: "bytes \<Rightarrow> nat \<Rightarrow> byte result" where
  "vector_at data offset = throw_if (offset \<ge> length data) ''vector::_M_range_check'' (Inr (data ! offset))"

definition vector_put :: "nat \<Rightarrow> byte \<Rightarrow> bytes \<Rightarrow> bytes result" where
  "vector_put offset value data =
     throw_if (offset \<ge> length data) ''vector::_M_range_check'' (Inr (data[offset := value]))"

text \<open>\<open>read_all\<close> of both tools, with the message of a short read.\<close>

definition read_all_file :: "string \<Rightarrow> host \<Rightarrow> string \<Rightarrow> bytes result" where
  "read_all_file short_message h path =
     (case (host_read_fault h path, host_lookup h path) of
        (Some CannotOpen, _) \<Rightarrow> throw (''cannot open '' @ path)
      | (Some CannotSize, Some (Regular _)) \<Rightarrow> throw (''cannot size '' @ path)
      | (fault, Some (Regular data)) \<Rightarrow>
          throw_if (fault = Some ShortRead \<and> data \<noteq> []) short_message (Inr data)
      | _ \<Rightarrow> throw (''cannot open '' @ path))"

section \<open>The builder\<close>

definition boot_sector_size :: nat where "boot_sector_size = 512"
definition boot_total_sectors :: nat where "boot_total_sectors = 2880"
definition boot_fat_sectors :: nat where "boot_fat_sectors = 9"
definition boot_root_start :: nat where "boot_root_start = 19"
definition boot_data_start :: nat where "boot_data_start = 33"

definition put16 :: "nat \<Rightarrow> u16 \<Rightarrow> bytes \<Rightarrow> bytes result" where
  "put16 offset value data =
     ebind (vector_put offset (ucast value) data) (vector_put (offset + 1) (ucast (drop_bit 8 value)))"

definition put32 :: "nat \<Rightarrow> u32 \<Rightarrow> bytes \<Rightarrow> bytes result" where
  "put32 offset value data =
     ebind (put16 offset (ucast value) data) (put16 (offset + 2) (ucast (drop_bit 16 value)))"

definition fat12_set :: "u16 \<Rightarrow> u16 \<Rightarrow> bytes \<Rightarrow> bytes result" where
  "fat12_set cluster value fat =
     (let offset = unat cluster + unat cluster div 2
      in ebind (vector_at fat offset) (\<lambda>low. ebind (vector_at fat (offset + 1)) (\<lambda>high.
         let current = (ucast low OR push_bit 8 (ucast high) :: u16);
             current = (if bit cluster 0 then (current AND 0x000F) OR push_bit 4 (value AND 0x0FFF)
                        else (current AND 0xF000) OR (value AND 0x0FFF))
         in ebind (vector_put offset (ucast current) fat) (vector_put (offset + 1) (ucast (drop_bit 8 current))))))"

definition copy_name :: "nat \<Rightarrow> string \<Rightarrow> bytes \<Rightarrow> bytes result" where
  "copy_name offset name img =
     throw_if (offset + length name > length img) ''vector::_M_range_check'' (Inr (blit offset (bytes_of_string name) img))"

primrec fill_fat :: "nat \<Rightarrow> nat list \<Rightarrow> bytes \<Rightarrow> bytes result" where
  "fill_fat clusters [] fat = Inr fat"
| "fill_fat clusters (i # is) fat =
     (let cluster = word_of_nat (2 + i) :: u16
      in ebind (fat12_set cluster (if i + 1 = clusters then 0x0FFF else cluster + 1) fat) (fill_fat clusters is))"

definition boot_volume_name :: string where "boot_volume_name = ''ZENOVOS    ''"
definition boot_kernel_name :: string where "boot_kernel_name = ''KERNEL  BIN''"

definition boot_image :: "bytes \<Rightarrow> bytes \<Rightarrow> bytes result" where
  "boot_image boot payload =
     throw_if (length boot \<noteq> boot_sector_size) ''boot sector must be exactly 512 bytes'' (
     throw_if (boot ! 510 \<noteq> 0x55 \<or> boot ! 511 \<noteq> 0xAA) ''boot signature 0xAA55 missing'' (
     throw_if (payload = []) ''kernel is empty'' (
     let clusters = (length payload + boot_sector_size - 1) div boot_sector_size
     in throw_if (clusters > boot_total_sectors - boot_data_start) ''kernel does not fit FAT12 image'' (
        let img = blit 0 boot (replicate (boot_sector_size * boot_total_sectors) 0);
            fat = blit 0 [0xF0, 0xFF, 0xFF] (replicate (boot_fat_sectors * boot_sector_size) 0)
        in ebind (fill_fat clusters [0..<clusters] fat) (\<lambda>fat.
           let fat1 = boot_sector_size; fat2 = fat1 + length fat;
               img = blit fat2 fat (blit fat1 fat img);
               root = boot_root_start * boot_sector_size; entry = root + 32
           in ebind (copy_name root boot_volume_name img) (\<lambda>img.
              ebind (copy_name entry boot_kernel_name (img[root + 11 := 0x08])) (\<lambda>img.
              ebind (put16 (entry + 26) 2 (img[entry + 11 := 0x20])) (\<lambda>img.
              ebind (put32 (entry + 28) (word_of_nat (length payload)) img) (\<lambda>img.
              Inr (blit (boot_data_start * boot_sector_size) payload img))))))))))"

definition fat12_main :: "string list \<Rightarrow> host \<Rightarrow> nat \<times> string \<times> string \<times> host" where
  "fat12_main argv h =
     (if length argv + 1 \<noteq> 4 then (2, [], ''usage: fat12-builder <BOOT.BIN> <KERNEL.BIN> <zenov-os.img>'' @ [newline], h)
      else let failed = (\<lambda>e h. (1, [], ''fat12-builder: error: '' @ e @ [newline], h))
           in case ebind (read_all_file (''cannot read '' @ argv ! 0) h (argv ! 0)) (\<lambda>boot.
                   ebind (read_all_file (''cannot read '' @ argv ! 1) h (argv ! 1)) (\<lambda>payload.
                   ebind (boot_image boot payload) (\<lambda>img. Inr (payload, img)))) of
                Inl (Error e) \<Rightarrow> failed e h
              | Inr (payload, img) \<Rightarrow>
                  (case write_stream (argv ! 2) img (''cannot create '' @ argv ! 2) (''cannot write '' @ argv ! 2) h of
                     (Inl (Error e), h) \<Rightarrow> failed e h
                   | (Inr _, h) \<Rightarrow>
                       (0, ''fat12-builder: wrote '' @ argv ! 2 @ '' (kernel='' @ show_nat (length payload) @ '' bytes, clusters='' @
                           show_nat ((length payload + boot_sector_size - 1) div boot_sector_size) @ '')'' @ [newline], [], h)))"

section \<open>The verifier\<close>

definition get16 :: "bytes \<Rightarrow> nat \<Rightarrow> u16 result" where
  "get16 data offset =
     ebind (vector_at data offset) (\<lambda>low. ebind (vector_at data (offset + 1)) (\<lambda>high.
     Inr (ucast low OR push_bit 8 (ucast high))))"

definition get32 :: "bytes \<Rightarrow> nat \<Rightarrow> u32 result" where
  "get32 data offset =
     ebind (get16 data offset) (\<lambda>low. ebind (get16 data (offset + 2)) (\<lambda>high.
     Inr (ucast low OR push_bit 16 (ucast high))))"

definition image_text :: "bytes \<Rightarrow> nat \<Rightarrow> nat \<Rightarrow> string" where
  "image_text data offset n = string_of_bytes (take n (drop offset data))"

definition fat12_get :: "bytes \<Rightarrow> nat \<Rightarrow> u16 \<Rightarrow> u16 result" where
  "fat12_get img fat_offset cluster =
     ebind (get16 img (fat_offset + unat cluster + unat cluster div 2)) (\<lambda>pair.
     Inr (if bit cluster 0 then drop_bit 4 pair else pair AND 0x0FFF))"

text \<open>The chain loop: the cluster that ends it and the number of clusters passed.\<close>

function walk_chain :: "bytes \<Rightarrow> nat \<Rightarrow> u16 \<Rightarrow> u16 set \<Rightarrow> nat \<Rightarrow> (u16 \<times> nat) result" where
  "walk_chain img expected_clusters cluster visited chain_length =
     (if cluster < 0x0FF0
      then if cluster < 2 \<or> unat cluster \<ge> 4096 \<or> cluster \<in> visited
           then throw ''invalid or cyclic kernel FAT chain''
           else if chain_length + 1 > expected_clusters then throw ''kernel FAT chain is longer than file size''
           else if (boot_data_start + (unat cluster - 2) + 1) * boot_sector_size > length img
           then throw ''kernel cluster is outside image''
           else (case fat12_get img boot_sector_size cluster of
                   Inl e \<Rightarrow> Inl e
                 | Inr next \<Rightarrow> walk_chain img expected_clusters next (insert cluster visited) (chain_length + 1))
      else Inr (cluster, chain_length))"
  by pat_completeness auto
termination
  by (relation "measure (\<lambda>(img, expected_clusters, cluster, visited, chain_length). expected_clusters - chain_length)") auto

declare walk_chain.simps [simp del]

definition verify_boot_image :: "bytes \<Rightarrow> (u32 \<times> nat \<times> u16) result" where
  "verify_boot_image img =
     throw_if (length img \<noteq> 1474560) ''image size is not 1.44 MiB'' (
     throw_if (img ! 510 \<noteq> 0x55 \<or> img ! 511 \<noteq> 0xAA) ''boot signature missing'' (
     throw_if (image_text img 3 8 \<noteq> ''ZENOVOS '') ''OEM label mismatch'' (
     ebind (get16 img 11) (\<lambda>bytes_per_sector.
     throw_if (unat bytes_per_sector \<noteq> boot_sector_size) ''sector size mismatch'' (
     throw_if (image_text img 54 8 \<noteq> ''FAT12   '') ''filesystem marker mismatch'' (
     let fat1 = boot_sector_size; fat_bytes = boot_fat_sectors * boot_sector_size; fat2 = fat1 + fat_bytes
     in throw_if (take fat_bytes (drop fat1 img) \<noteq> take fat_bytes (drop fat2 img)) ''FAT copies differ'' (
        let root = boot_root_start * boot_sector_size; entry = root + 32
        in throw_if (image_text img root 11 \<noteq> boot_volume_name) ''volume entry missing'' (
           throw_if (image_text img entry 11 \<noteq> boot_kernel_name) ''KERNEL.BIN entry missing'' (
           ebind (get16 img (entry + 26)) (\<lambda>first_cluster.
           ebind (get32 img (entry + 28)) (\<lambda>count.
           throw_if (first_cluster \<noteq> 2) ''kernel first cluster is not 2'' (
           throw_if (count = 0 \<or> count > 512 * 1024) ''kernel size outside segmented-loader contract'' (
           let expected_clusters = (unat count + boot_sector_size - 1) div boot_sector_size
           in ebind (walk_chain img expected_clusters first_cluster {} 0) (\<lambda>(cluster, chain_length).
              throw_if (cluster < 0x0FF8 \<or> chain_length \<noteq> expected_clusters) ''kernel FAT chain does not cover the file''
                (Inr (count, chain_length, first_cluster))))))))))))))))"

definition image_verify_main :: "string list \<Rightarrow> host \<Rightarrow> nat \<times> string \<times> string" where
  "image_verify_main argv h =
     (if length argv + 1 \<noteq> 2 then (2, [], ''usage: image-verify <zenov-os.img>'' @ [newline])
      else case ebind (read_all_file ''read failed'' h (argv ! 0)) verify_boot_image of
             Inl (Error e) \<Rightarrow> (1, [], ''image-verify: error: '' @ e @ [newline])
           | Inr (count, chain_length, first_cluster) \<Rightarrow>
               (0, ''image-verify: OK image=1474560 boot=0xAA55 kernel='' @ show_nat (unat count) @ '' clusters='' @
                   show_nat chain_length @ '' first='' @ show_nat (unat first_cluster) @ '' loader=segmented'' @ [newline], []))"

section \<open>Entries of the allocation table\<close>

lemma word_parity: "bit (w :: u16) 0 \<longleftrightarrow> odd (unat w)"
proof -
  have "bit (unat w) 0 = bit w 0" by (simp add: bit_unsigned_iff)
  then show ?thesis by (simp add: bit_0)
qed

lemma pair_bits:
  "bit (ucast (a :: byte) OR push_bit 8 (ucast (b :: byte)) :: u16) n \<longleftrightarrow>
     (if n < 8 then bit a n else n < 16 \<and> bit b (n - 8))"
  using bit_imp_le_length [of a n] bit_imp_le_length [of b "n - 8"] by (auto simp: bit_simps)

lemma vector_put_Inr: "vector_put i v xs = Inr ys \<longleftrightarrow> i < length xs \<and> ys = xs[i := v]"
  by (auto simp: vector_put_def throw_if_eq_Inr)

lemma vector_at_Inr: "vector_at xs i = Inr v \<longleftrightarrow> i < length xs \<and> v = xs ! i"
  by (auto simp: vector_at_def throw_if_eq_Inr)

lemma mask12: "bit (0x0FFF :: u16) n \<longleftrightarrow> n < 12"
proof -
  have "(0x0FFF :: u16) = mask 12" by (simp add: mask_eq_exp_minus_1)
  then show ?thesis by (simp only: bit_mask_iff) (auto dest: bit_imp_le_length)
qed

lemma mask4: "bit (0x000F :: u16) n \<longleftrightarrow> n < 4"
proof -
  have "(0x000F :: u16) = mask 4" by (simp add: mask_eq_exp_minus_1)
  then show ?thesis by (simp only: bit_mask_iff) (auto dest: bit_imp_le_length)
qed

text \<open>The bits of the three ways to combine an entry with its neighbour, over abstract halves.\<close>

lemma mask_high: "bit (0xF000 :: u16) n \<longleftrightarrow> 12 \<le> n \<and> n < 16"
proof -
  have "(0xF000 :: u16) = push_bit 12 (mask 4)" by (simp add: mask_eq_exp_minus_1 push_bit_eq_mult)
  then show ?thesis by (simp only: bit_push_bit_iff bit_mask_iff) (auto simp: bit_simps)
qed

lemma entry_bits:
  "bit ((p :: u16) AND 0x0FFF) n \<longleftrightarrow> n < 12 \<and> bit p n"
  "bit ((p AND 0xF000) OR (v AND 0x0FFF)) n \<longleftrightarrow> (if n < 12 then bit v n else bit p n)"
  "bit ((p AND 0x000F) OR push_bit 4 (v AND 0x0FFF)) n \<longleftrightarrow> (if n < 4 then bit p n else n < 16 \<and> bit v (n - 4))"
  unfolding bit_and_iff bit_or_iff bit_push_bit_iff mask12 mask4 mask_high using bit_imp_le_length [of p n] by auto

text \<open>Entry \<open>c\<close> is the bits \<open>12 c\<close> to \<open>12 c + 11\<close> of the bytes.\<close>

lemma fat12_get_bits:
  assumes "fat12_get img off cluster = Inr w"
  shows "bit w n \<longleftrightarrow> n < 12 \<and> bit (img ! (off + (12 * unat cluster + n) div 8)) ((12 * unat cluster + n) mod 8)"
proof -
  obtain k where k: "unat cluster = 2 * k \<or> unat cluster = 2 * k + 1" by (metis oddE evenE)
  define pair :: u16 where "pair = ucast (img ! (off + unat cluster + unat cluster div 2)) OR
      push_bit 8 (ucast (img ! (off + unat cluster + unat cluster div 2 + 1)))"
  have w: "w = (if odd (unat cluster) then drop_bit 4 pair else pair AND 0x0FFF)"
    using assms by (auto simp: fat12_get_def get16_def ebind_eq_Inr vector_at_Inr word_parity pair_def)
  from k show ?thesis
  proof
    assume c: "unat cluster = 2 * k"
    have "bit w n \<longleftrightarrow> n < 12 \<and> bit pair n" using c by (simp add: w entry_bits)
    also have "\<dots> \<longleftrightarrow> n < 12 \<and> bit (img ! (off + 3 * k + n div 8)) (n mod 8)"
    proof (cases "n < 8")
      case True
      then show ?thesis unfolding pair_def pair_bits by (simp add: c add.assoc)
    next
      case False
      then have "n < 12 \<Longrightarrow> n div 8 = 1 \<and> n mod 8 = n - 8" by presburger
      with False show ?thesis unfolding pair_def pair_bits by (auto simp: c add.assoc)
    qed
    finally have "bit w n \<longleftrightarrow> n < 12 \<and> bit (img ! (off + 3 * k + n div 8)) (n mod 8)" .
    moreover have "(12 * (2 * k) + n) div 8 = 3 * k + n div 8" "(12 * (2 * k) + n) mod 8 = n mod 8"
      by presburger+
    ultimately show ?thesis by (simp add: c add.assoc)
  next
    assume c: "unat cluster = 2 * k + 1"
    have "bit w n \<longleftrightarrow> bit pair (4 + n)" using c by (simp add: w bit_drop_bit_eq)
    also have "\<dots> \<longleftrightarrow> n < 12 \<and> bit (img ! (off + 3 * k + 1 + (n + 4) div 8)) ((n + 4) mod 8)"
    proof (cases "n < 4")
      case True
      then show ?thesis unfolding pair_def pair_bits by (simp add: c add.commute add.left_commute)
    next
      case False
      then have "n < 12 \<Longrightarrow> (n + 4) div 8 = 1 \<and> (n + 4) mod 8 = n - 4" by presburger
      with False show ?thesis unfolding pair_def pair_bits by (auto simp: c add.commute add.left_commute)
    qed
    finally have "bit w n \<longleftrightarrow> n < 12 \<and> bit (img ! (off + 3 * k + 1 + (n + 4) div 8)) ((n + 4) mod 8)" .
    moreover have "(12 * (2 * k + 1) + n) div 8 = 3 * k + 1 + (n + 4) div 8" "(12 * (2 * k + 1) + n) mod 8 = (n + 4) mod 8"
      by presburger+
    ultimately show ?thesis by (simp add: c add.assoc)
  qed
qed

lemma fat12_set_bits:
  assumes "fat12_set cluster value fat = Inr fat'"
  shows "length fat' = length fat"
    and "j < length fat \<Longrightarrow> i < 8 \<Longrightarrow> bit (fat' ! j) i \<longleftrightarrow>
      (if 12 * unat cluster \<le> 8 * j + i \<and> 8 * j + i < 12 * unat cluster + 12
       then bit value (8 * j + i - 12 * unat cluster) else bit (fat ! j) i)"
proof -
  let ?o = "unat cluster + unat cluster div 2"
  let ?p = "ucast (fat ! ?o) OR push_bit 8 (ucast (fat ! (?o + 1))) :: u16"
  define new where "new = (if odd (unat cluster) then (?p AND 0x000F) OR push_bit 4 (value AND 0x0FFF)
                           else (?p AND 0xF000) OR (value AND 0x0FFF))"
  have o: "?o + 1 < length fat" and fat': "fat' = fat[?o := ucast new, ?o + 1 := ucast (drop_bit 8 new)]"
    using assms by (auto simp: fat12_set_def Let_def ebind_eq_Inr vector_at_Inr vector_put_Inr word_parity new_def)
  show "length fat' = length fat" by (simp add: fat')
  assume j: "j < length fat" and i: "i < 8"
  obtain k where k: "unat cluster = 2 * k \<or> unat cluster = 2 * k + 1" by (metis oddE evenE)
  have nth: "fat' ! j = (if j = ?o then ucast new else if j = ?o + 1 then ucast (drop_bit 8 new) else fat ! j)"
    using o j by (auto simp: fat' nth_list_update)
  from k show "bit (fat' ! j) i \<longleftrightarrow>
      (if 12 * unat cluster \<le> 8 * j + i \<and> 8 * j + i < 12 * unat cluster + 12
       then bit value (8 * j + i - 12 * unat cluster) else bit (fat ! j) i)"
  proof
    assume c: "unat cluster = 2 * k"
    have bits: "bit new n \<longleftrightarrow> (if n < 12 then bit value n else bit ?p n)" for n
      unfolding new_def by (simp only: c even_mult_iff even_numeral simp_thms if_False not_False_eq_True entry_bits)
    consider "j = 3 * k" | "j = 3 * k + 1" | "j < 3 * k \<or> j > 3 * k + 1" by linarith
    then show ?thesis
    proof cases
      case 1
      then show ?thesis using i nth by (simp add: c bit_simps bits)
    next
      case 2
      then show ?thesis using i nth by (simp add: c bit_unsigned_iff bit_drop_bit_eq bits pair_bits)
    next
      case 3
      then have "\<not> (24 * k \<le> 8 * j + i \<and> 8 * j + i < 24 * k + 12)" using i by auto
      then show ?thesis using 3 nth by (auto simp: c)
    qed
  next
    assume c: "unat cluster = 2 * k + 1"
    have bits: "bit new n \<longleftrightarrow> (if n < 4 then bit ?p n else n < 16 \<and> bit value (n - 4))" for n
      unfolding new_def by (simp only: c odd_add even_mult_iff even_numeral odd_one simp_thms if_True not_True_eq_False entry_bits)
    consider "j = 3 * k + 1" | "j = 3 * k + 2" | "j < 3 * k + 1 \<or> j > 3 * k + 2" by linarith
    then show ?thesis
    proof cases
      case 1
      then show ?thesis using i nth by (auto simp: c bit_unsigned_iff bit_drop_bit_eq bits pair_bits)
    next
      case 2
      then show ?thesis using i nth by (simp add: c bit_simps bits)
    next
      case 3
      then have "\<not> (24 * k + 12 \<le> 8 * j + i \<and> 8 * j + i < 24 * k + 24)" using i by auto
      then show ?thesis using 3 nth by (auto simp: c)
    qed
  qed
qed

definition entry_is :: "bytes \<Rightarrow> nat \<Rightarrow> u16 \<Rightarrow> bool" where
  "entry_is fat c v \<longleftrightarrow> (\<forall>n<12. bit v n = bit (fat ! ((12 * c + n) div 8)) ((12 * c + n) mod 8))"

lemma set_entry:
  assumes set: "fat12_set cluster value fat = Inr fat'" and len: "length fat = 4608" and c: "c < 3072"
  shows "c = unat cluster \<Longrightarrow> entry_is fat' c value"
    and "c \<noteq> unat cluster \<Longrightarrow> entry_is fat c v \<Longrightarrow> entry_is fat' c v"
proof -
  have pos: "bit (fat' ! ((12 * c + n) div 8)) ((12 * c + n) mod 8) =
      (if 12 * unat cluster \<le> 12 * c + n \<and> 12 * c + n < 12 * unat cluster + 12
       then bit value (12 * c + n - 12 * unat cluster) else bit (fat ! ((12 * c + n) div 8)) ((12 * c + n) mod 8))"
    if "n < 12" for n
  proof -
    have "(12 * c + n) div 8 < length fat" using that c len by auto
    moreover have "8 * ((12 * c + n) div 8) + (12 * c + n) mod 8 = 12 * c + n" by presburger
    ultimately show ?thesis
      using fat12_set_bits(2) [OF set, of "(12 * c + n) div 8" "(12 * c + n) mod 8"] by simp
  qed
  show "entry_is fat' c value" if "c = unat cluster" using that pos by (auto simp: entry_is_def)
  show "entry_is fat' c v" if "c \<noteq> unat cluster" "entry_is fat c v"
    using that pos by (auto simp: entry_is_def)
qed

definition next_cluster :: "nat \<Rightarrow> nat \<Rightarrow> u16" where
  "next_cluster clusters i = (if i + 1 = clusters then 0x0FFF else word_of_nat (2 + i) + 1)"

lemma fill_fat_entries:
  assumes "\<forall>i\<in>set is. i < 3070" "distinct is" "length fat = 4608"
  shows "\<exists>fat'. fill_fat clusters is fat = Inr fat' \<and> length fat' = 4608 \<and>
           (\<forall>i\<in>set is. entry_is fat' (2 + i) (next_cluster clusters i)) \<and>
           (\<forall>c v. c < 3072 \<longrightarrow> c \<notin> (+) 2 ` set is \<longrightarrow> entry_is fat c v \<longrightarrow> entry_is fat' c v)"
  using assms
proof (induction "is" arbitrary: fat)
  case (Cons i "is")
  define cl where "cl = (word_of_nat (2 + i) :: u16)"
  have cl: "unat cl = 2 + i" unfolding cl_def using Cons.prems(1) by (intro unat_of_nat_nowrap) simp
  have "unat cl + unat cl div 2 + 1 < length fat" using cl Cons.prems by auto
  then obtain fat1 where one: "fat12_set cl (next_cluster clusters i) fat = Inr fat1"
    by (auto simp: fat12_set_def Let_def vector_at_def vector_put_def)
  note len1 = fat12_set_bits(1) [OF one]
  obtain fat' where f: "fill_fat clusters is fat1 = Inr fat'" "length fat' = 4608"
      "\<forall>j\<in>set is. entry_is fat' (2 + j) (next_cluster clusters j)"
      "\<forall>c v. c < 3072 \<longrightarrow> c \<notin> (+) 2 ` set is \<longrightarrow> entry_is fat1 c v \<longrightarrow> entry_is fat' c v"
    using Cons.IH [of fat1] Cons.prems len1 by auto
  have "entry_is fat1 (2 + i) (next_cluster clusters i)"
    using set_entry(1) [OF one Cons.prems(3), of "2 + i"] Cons.prems(1) cl by simp
  moreover have "2 + i < 3072" "2 + i \<notin> (+) 2 ` set is" using Cons.prems(1,2) by auto
  ultimately have "entry_is fat' (2 + i) (next_cluster clusters i)" using f(4) by blast
  moreover have "fill_fat clusters (i # is) fat = Inr fat'"
    using one f(1) unfolding fill_fat.simps Let_def next_cluster_def cl_def [symmetric] by (simp only: ebind_Inr)
  moreover have "entry_is fat' c v" if "c < 3072" "c \<notin> (+) 2 ` set (i # is)" "entry_is fat c v" for c v
    using set_entry(2) [OF one Cons.prems(3) that(1)] that f(4) cl by auto
  ultimately show ?case using f(2,3) by auto
qed simp

section \<open>Regions of the image\<close>

definition region :: "nat \<Rightarrow> nat \<Rightarrow> bytes \<Rightarrow> bytes" where
  "region off n xs = take n (drop off xs)"

lemma region_blit_same:
  "at + length src \<le> length dst \<Longrightarrow> off = at \<Longrightarrow> n = length src \<Longrightarrow> region off n (blit at src dst) = src"
  by (simp add: region_def blit_def)

lemma region_blit_other:
  assumes "at + length src \<le> length dst" "off + n \<le> at \<or> at + length src \<le> off"
  shows "region off n (blit at src dst) = region off n dst"
proof (rule nth_equalityI)
  show "length (region off n (blit at src dst)) = length (region off n dst)"
    using assms(1) by (simp add: region_def)
  fix i assume "i < length (region off n (blit at src dst))"
  then have "i < n" "off + i < length dst" using assms(1) by (auto simp: region_def)
  then show "region off n (blit at src dst) ! i = region off n dst ! i"
    using assms by (auto simp: region_def nth_blit)
qed

lemma vector_put_blit: "i < length xs \<Longrightarrow> vector_put i v xs = Inr (blit i [v] xs)"
  by (simp add: vector_put_def blit_def upd_conv_take_nth_drop)

lemma update_blit: "i < length xs \<Longrightarrow> xs[i := v] = blit i [v] xs"
  by (simp add: blit_def upd_conv_take_nth_drop)

lemma blit_adjacent:
  "at + length a + length b \<le> length xs \<Longrightarrow> blit (at + length a) b (blit at a xs) = blit at (a @ b) xs"
  by (simp add: blit_def add.assoc add.commute [of "length b"])

lemma put16_blit: "at + 2 \<le> length xs \<Longrightarrow> put16 at v xs = Inr (blit at (le_bytes 2 v) xs)"
  using blit_adjacent [of at "[ucast v]" "[ucast (drop_bit 8 v)]" xs]
  by (simp add: put16_def vector_put_blit le_bytes_2_eq)

lemma put32_blit: "at + 4 \<le> length xs \<Longrightarrow> put32 at v xs = Inr (blit at (le_bytes 4 v) xs)"
proof -
  assume len: "at + 4 \<le> length xs"
  have "le_bytes 4 v = le_bytes 2 (ucast v :: u16) @ le_bytes 2 (ucast (drop_bit 16 v) :: u16)"
    by (simp add: le_bytes_4_eq le_bytes_2_eq) (auto intro!: bit_word_eqI simp: bit_simps)
  then show "put32 at v xs = Inr (blit at (le_bytes 4 v) xs)"
    using len blit_adjacent [of at "le_bytes 2 (ucast v :: u16)" "le_bytes 2 (ucast (drop_bit 16 v) :: u16)" xs]
    by (simp add: put32_def put16_blit)
qed

lemma get16_region: "off + 2 \<le> length xs \<Longrightarrow> get16 xs off = Inr (le_word (region off 2 xs))"
proof -
  assume len: "off + 2 \<le> length xs"
  then have "drop off xs = xs ! off # xs ! (off + 1) # drop (off + 2) xs"
    using Cons_nth_drop_Suc [of off xs] Cons_nth_drop_Suc [of "Suc off" xs] by simp
  then have "region off 2 xs = [xs ! off, xs ! (off + 1)]" by (simp add: region_def)
  then show "get16 xs off = Inr (le_word (region off 2 xs))" using len by (simp add: get16_def vector_at_def)
qed

lemma get32_value:
  assumes "region off 4 xs = le_bytes 4 v" "off + 4 \<le> length xs"
  shows "get32 xs off = Inr v"
proof -
  have nth: "xs ! (off + k) = le_bytes 4 v ! k" if "k < 4" for k
    using that assms(2) unfolding assms(1) [symmetric] by (simp add: region_def)
  have "xs ! off = ucast v" "xs ! (off + 1) = ucast (drop_bit 8 v)" "xs ! (off + 2) = ucast (drop_bit 16 v)"
      "xs ! (off + 3) = ucast (drop_bit 24 v)"
    using nth [of 0] nth [of 1] nth [of 2] nth [of 3] by (simp_all add: le_bytes_4_eq)
  then have "get32 xs off = Inr (ucast (ucast (ucast v :: byte) OR push_bit 8 (ucast (ucast (drop_bit 8 v) :: byte)) :: u16) OR
      push_bit 16 (ucast (ucast (ucast (drop_bit 16 v) :: byte) OR push_bit 8 (ucast (ucast (drop_bit 24 v) :: byte)) :: u16)))"
    using assms(2) by (simp add: get32_def get16_def vector_at_def add.assoc numeral_3_eq_3)
  also have "ucast (ucast (ucast v :: byte) OR push_bit 8 (ucast (ucast (drop_bit 8 v) :: byte)) :: u16) OR
      push_bit 16 (ucast (ucast (ucast (drop_bit 16 v) :: byte) OR push_bit 8 (ucast (ucast (drop_bit 24 v) :: byte)) :: u16)) = v"
  proof (rule bit_word_eqI)
    fix n assume n: "n < LENGTH(32)"
    consider "n < 8" | "8 \<le> n" "n < 16" | "16 \<le> n" "n < 24" | "24 \<le> n" by linarith
    then show "bit (ucast (ucast (ucast v :: byte) OR push_bit 8 (ucast (ucast (drop_bit 8 v) :: byte)) :: u16) OR
        push_bit 16 (ucast (ucast (ucast (drop_bit 16 v) :: byte) OR push_bit 8 (ucast (ucast (drop_bit 24 v) :: byte)) :: u16)) :: u32) n
        = bit v n"
      using n by cases (auto simp: bit_or_iff bit_push_bit_iff bit_unsigned_iff pair_bits bit_drop_bit_eq)
  qed
  finally show ?thesis .
qed

section \<open>The image of a kernel\<close>

text \<open>The image as a composition of writes.\<close>

definition floppy :: "bytes \<Rightarrow> bytes \<Rightarrow> bytes \<Rightarrow> bytes" where
  "floppy boot fat payload =
     blit 16896 payload (blit 9788 (le_bytes 4 (word_of_nat (length payload) :: u32)) (blit 9786 (le_bytes 2 (2 :: u16))
       (blit 9771 [0x20] (blit 9760 (bytes_of_string boot_kernel_name) (blit 9739 [0x08]
         (blit 9728 (bytes_of_string boot_volume_name) (blit 5120 fat (blit 512 fat (blit 0 boot (replicate 1474560 0))))))))))"

lemmas boot_defs = boot_sector_size_def boot_total_sectors_def boot_fat_sectors_def boot_root_start_def boot_data_start_def

lemma name_lengths [simp]: "length boot_kernel_name = 11" "length boot_volume_name = 11"
  by (simp_all add: boot_kernel_name_def boot_volume_name_def)

lemma floppy_fields:
  assumes "length boot = 512" "length fat = 4608" "16896 + length payload \<le> 1474560"
  shows "length (floppy boot fat payload) = 1474560" "region 0 512 (floppy boot fat payload) = boot"
    "region 512 4608 (floppy boot fat payload) = fat" "region 5120 4608 (floppy boot fat payload) = fat"
    "region 9728 11 (floppy boot fat payload) = bytes_of_string boot_volume_name"
    "region 9760 11 (floppy boot fat payload) = bytes_of_string boot_kernel_name"
    "region 9786 2 (floppy boot fat payload) = le_bytes 2 (2 :: u16)"
    "region 9788 4 (floppy boot fat payload) = le_bytes 4 (word_of_nat (length payload) :: u32)"
    "region 16896 (length payload) (floppy boot fat payload) = payload"
  using assms unfolding floppy_def
  by (simp_all add: region_blit_other region_blit_same)

lemma boot_image_floppy:
  assumes "boot_image boot payload = Inr img"
  defines "clusters \<equiv> (length payload + 511) div 512"
  shows "length boot = 512" "boot ! 510 = 0x55" "boot ! 511 = 0xAA" "payload \<noteq> []" "clusters \<le> 2847"
    and "\<exists>fat. length fat = 4608 \<and> img = floppy boot fat payload \<and>
           (\<forall>i<clusters. entry_is fat (2 + i) (next_cluster clusters i))"
proof -
  note run = assms(1) [unfolded boot_image_def Let_def boot_defs, simplified throw_if_eq_Inr ebind_eq_Inr]
  show l: "length boot = 512" "boot ! 510 = 0x55" "boot ! 511 = 0xAA" "payload \<noteq> []" "clusters \<le> 2847"
    using run by (auto simp: clusters_def)
  define fat0 where "fat0 = blit 0 [0xF0, 0xFF, 0xFF :: byte] (replicate 4608 0)"
  have len0: "length fat0 = 4608" by (simp add: fat0_def)
  obtain fat where fat: "fill_fat clusters [0..<clusters] fat0 = Inr fat" "length fat = 4608"
      "\<forall>i\<in>set [0..<clusters]. entry_is fat (2 + i) (next_cluster clusters i)"
    using fill_fat_entries [of "[0..<clusters]" fat0 clusters] l(5) len0 by auto
  have n: "(length payload + 512 - 1) div 512 = clusters" by (simp add: clusters_def)
  have sizes: "512 * 2880 = (1474560 :: nat)" "9 * 512 = (4608 :: nat)" by simp_all
  have "boot_image boot payload = Inr (floppy boot fat payload)"
    unfolding boot_image_def boot_defs Let_def n sizes fat0_def [symmetric]
    using l fat(1,2) by (simp add: throw_if_def copy_name_def put16_blit put32_blit update_blit floppy_def)
  then show "\<exists>fat. length fat = 4608 \<and> img = floppy boot fat payload \<and>
           (\<forall>i<clusters. entry_is fat (2 + i) (next_cluster clusters i))"
    using assms(1) fat(2,3) by auto
qed

section \<open>Following the chain\<close>

text \<open>What a loader reads: the sectors of the clusters, in the order of the chain.\<close>

primrec read_chain :: "nat \<Rightarrow> bytes \<Rightarrow> u16 \<Rightarrow> bytes" where
  "read_chain 0 img cluster = []"
| "read_chain (Suc n) img cluster =
     region ((boot_data_start + (unat cluster - 2)) * boot_sector_size) boot_sector_size img @
     (case fat12_get img boot_sector_size cluster of Inl _ \<Rightarrow> [] | Inr next \<Rightarrow> read_chain n img next)"

definition allocated :: "bytes \<Rightarrow> nat \<Rightarrow> bool" where
  "allocated img clusters \<longleftrightarrow> length img = 1474560 \<and> clusters \<le> 2847 \<and>
     (\<forall>i<clusters. entry_is (region 512 4608 img) (2 + i) (next_cluster clusters i))"

lemma next_cluster_small:
  assumes "i < clusters" "clusters \<le> 2847"
  shows "unat (word_of_nat (2 + i) :: u16) = 2 + i" and "unat (next_cluster clusters i) < 4096"
    and "i + 1 \<noteq> clusters \<Longrightarrow> next_cluster clusters i = word_of_nat (2 + (i + 1))"
proof -
  show cl: "unat (word_of_nat (2 + i) :: u16) = 2 + i" using assms by (intro unat_of_nat_nowrap) simp
  show follow: "next_cluster clusters i = word_of_nat (2 + (i + 1))" if "i + 1 \<noteq> clusters"
    using that by (simp add: next_cluster_def)
  show "unat (next_cluster clusters i) < 4096"
  proof (cases "i + 1 = clusters")
    case False
    have "unat (word_of_nat (2 + (i + 1)) :: u16) = 2 + (i + 1)" using assms by (intro unat_of_nat_nowrap) simp
    then show ?thesis using False follow assms by simp
  qed (simp add: next_cluster_def)
qed

lemma get_next:
  assumes al: "allocated img clusters" and i: "i < clusters"
  shows "fat12_get img 512 (word_of_nat (2 + i)) = Inr (next_cluster clusters i)"
proof -
  define cl where "cl = (word_of_nat (2 + i) :: u16)"
  have few: "clusters \<le> 2847" and len: "length img = 1474560" using al by (simp_all add: allocated_def)
  note small = next_cluster_small [OF i few]
  have cl: "unat cl = 2 + i" using small(1) by (simp add: cl_def)
  have "512 + unat cl + unat cl div 2 + 2 \<le> length img" using cl i few len by simp
  then obtain w where w: "fat12_get img 512 cl = Inr w" by (auto simp: fat12_get_def get16_region)
  have "take_bit 12 (next_cluster clusters i) = next_cluster clusters i"
    using small(2) by (simp add: take_bit_eq_mod word_unat_eq_iff unat_mod)
  then have low: "bit (next_cluster clusters i) n \<Longrightarrow> n < 12" for n by (metis bit_take_bit_iff)
  have "w = next_cluster clusters i"
  proof (rule bit_word_eqI)
    fix n
    show "bit w n = bit (next_cluster clusters i) n"
    proof (cases "n < 12")
      case True
      have "(12 * (2 + i) + n) div 8 < 4608" using True i few by auto
      then have "img ! (512 + (12 * (2 + i) + n) div 8) = region 512 4608 img ! ((12 * (2 + i) + n) div 8)"
        using len by (simp add: region_def)
      then show ?thesis
        using fat12_get_bits [OF w, of n] al i True by (simp add: cl entry_is_def allocated_def)
    next
      case False
      then show ?thesis using fat12_get_bits [OF w, of n] low [of n] by auto
    qed
  qed
  then show ?thesis using w by (simp add: cl_def)
qed

lemma walk_allocated:
  assumes "allocated img clusters" "i < clusters" "\<forall>c\<in>visited. unat c < 2 + i"
  shows "walk_chain img clusters (word_of_nat (2 + i)) visited i = Inr (0x0FFF, clusters)"
  using assms(2,3)
proof (induction "clusters - i" arbitrary: i visited)
  case (Suc d)
  define cl where "cl = (word_of_nat (2 + i) :: u16)"
  have few: "clusters \<le> 2847" and len: "length img = 1474560" using assms(1) by (simp_all add: allocated_def)
  have cl: "unat cl = 2 + i" using next_cluster_small(1) [OF Suc.prems(1) few] by (simp add: cl_def)
  have in_range: "cl < 0x0FF0" "\<not> cl < 2" using cl Suc.prems(1) few by (simp_all add: word_less_nat_alt)
  have fresh: "cl \<notin> visited" using Suc.prems(2) cl by auto
  have inside: "\<not> (boot_data_start + (unat cl - 2) + 1) * boot_sector_size > length img"
    using cl Suc.prems(1) few len by (simp add: boot_defs)
  have get: "fat12_get img boot_sector_size cl = Inr (next_cluster clusters i)"
    using get_next [OF assms(1) Suc.prems(1)] by (simp add: cl_def boot_sector_size_def)
  have step: "walk_chain img clusters cl visited i = walk_chain img clusters (next_cluster clusters i) (insert cl visited) (i + 1)"
    using in_range fresh inside get cl Suc.prems(1) few by (simp add: walk_chain.simps [of img clusters cl])
  show ?case
  proof (cases "i + 1 = clusters")
    case True
    then have "next_cluster clusters i = 0x0FFF" by (simp add: next_cluster_def)
    then have "walk_chain img clusters cl visited i = Inr (0x0FFF, clusters)"
      using step True by (simp add: walk_chain.simps [of img clusters "0x0FFF"])
    then show ?thesis unfolding cl_def .
  next
    case False
    have "walk_chain img clusters (word_of_nat (2 + (i + 1))) (insert cl visited) (i + 1) = Inr (0x0FFF, clusters)"
      using Suc.prems Suc.hyps(2) False cl by (intro Suc.hyps(1)) auto
    then have "walk_chain img clusters cl visited i = Inr (0x0FFF, clusters)"
      using step next_cluster_small(3) [OF Suc.prems(1) few False] by simp
    then show ?thesis unfolding cl_def .
  qed
qed simp

lemma read_allocated:
  assumes "allocated img clusters" "i + n \<le> clusters"
  shows "read_chain n img (word_of_nat (2 + i)) = region (16896 + i * 512) (n * 512) img"
  using assms(2)
proof (induction n arbitrary: i)
  case (Suc n)
  have few: "clusters \<le> 2847" and len: "length img = 1474560" and i: "i < clusters"
    using assms(1) Suc.prems by (simp_all add: allocated_def)
  note cl = next_cluster_small(1) [OF i few]
  have get: "fat12_get img boot_sector_size (word_of_nat (2 + i)) = Inr (next_cluster clusters i)"
    using get_next [OF assms(1) i] by (simp add: boot_sector_size_def)
  have rest: "read_chain n img (next_cluster clusters i) = region (16896 + (i + 1) * 512) (n * 512) img"
  proof (cases n)
    case (Suc k)
    then have "i + 1 \<noteq> clusters" using Suc.prems by simp
    then show ?thesis using Suc.IH [of "i + 1"] Suc.prems next_cluster_small(3) [OF i few] by simp
  qed (simp add: region_def)
  have "region (16896 + i * 512) (512 + n * 512) img =
      region (16896 + i * 512) 512 img @ region (16896 + (i + 1) * 512) (n * 512) img"
    by (simp add: region_def take_add add.commute add.left_commute)
  then show ?case
    unfolding read_chain.simps get cl using rest by (simp add: boot_defs add.commute)
qed (simp add: region_def)

section \<open>Properties\<close>

lemma sub_region: "off + n \<le> m \<Longrightarrow> region off n (region 0 m xs) = region off n xs"
  by (simp add: region_def drop_take min_def)

lemma image_text_region: "image_text img off n = string_of_bytes (region off n img)"
  by (simp add: image_text_def region_def)

text \<open>
  C28: The boot image is right. On every image \<open>fat12-builder\<close> makes, following the allocation chain from
  the kernel's first cluster yields the kernel. \<open>image-verify\<close> accepts the image exactly when the boot
  sector has the expected labels and the kernel is within the loader's limit of 512 KiB (the builder
  itself checks neither), and then it reports the kernel's size, its number of clusters and its first
  cluster.
\<close>

theorem boot_image_round_trip:
  assumes built: "boot_image boot payload = Inr img" and n: "n = (length payload + 511) div 512"
    and accepts: "accepts \<longleftrightarrow> image_text boot 3 8 = ''ZENOVOS '' \<and> get16 boot 11 = Inr 512 \<and>
      image_text boot 54 8 = ''FAT12   '' \<and> length payload \<le> 512 * 1024"
  shows "take (length payload) (read_chain n img 2) = payload \<and>
         (if accepts then verify_boot_image img = Inr (word_of_nat (length payload), n, 2)
          else \<exists>e. verify_boot_image img = Inl e)"
proof -
  note b = boot_image_floppy [OF built, folded n]
  obtain fat where f: "length fat = 4608" "img = floppy boot fat payload"
      "\<forall>i<n. entry_is fat (2 + i) (next_cluster n i)" using b(6) by blast
  have some: "0 < n" "n * 512 \<ge> length payload" using b(4) n by (auto simp: div_greater_zero_iff Suc_le_eq)
  then have fits: "16896 + length payload \<le> 1474560" using b(5) by linarith
  note r = floppy_fields [OF b(1) f(1) fits, folded f(2)]
  have al: "allocated img n" using r(1,3) f(3) b(5) by (simp add: allocated_def)
  have head: "region off k img = region off k boot" if "off + k \<le> 512" for off k
    using sub_region [OF that, of img] r(2) by simp
  have nth: "img ! k = boot ! k" if "k < 512" for k
  proof -
    have "img ! k = region 0 512 img ! k" using that r(1) by (simp add: region_def)
    then show ?thesis by (simp add: r(2))
  qed
  have sector: "get16 img 11 = get16 boot 11" using head [of 11 2] r(1) b(1) by (simp add: get16_region)
  have first: "get16 img 9786 = Inr 2" using r(1,7) by (simp add: get16_region)
  have count: "get32 img 9788 = Inr (word_of_nat (length payload))" using r(1,8) by (intro get32_value) simp_all
  have u: "unat (word_of_nat (length payload) :: u32) = length payload" using fits by (intro unat_of_nat_nowrap) simp
  have size_ok: "word_of_nat (length payload) \<noteq> (0 :: u32)"
      "524288 < (word_of_nat (length payload) :: u32) \<longleftrightarrow> \<not> length payload \<le> 512 * 1024"
    using u b(4) by (auto simp: word_less_nat_alt)
  have walk: "walk_chain img n 2 {} 0 = Inr (0x0FFF, n)" using walk_allocated [OF al some(1), of "{}"] by simp
  have fats: "take 4608 (drop 512 img) = take 4608 (drop 5120 img)" using r(3,4) by (simp add: region_def)
  have texts: "image_text img 3 8 = image_text boot 3 8" "image_text img 54 8 = image_text boot 54 8"
      "image_text img 9728 11 = boot_volume_name" "image_text img 9760 11 = boot_kernel_name"
    using head r(5,6) by (simp_all add: image_text_region)
  have n': "(length payload + 512 - 1) div 512 = n" using n by simp
  obtain k where k: "get16 boot 11 = Inr k" "k = 512 \<longleftrightarrow> unat k = 512"
    using b(1) by (auto simp: get16_region word_unat_eq_iff)
  have "if accepts then verify_boot_image img = Inr (word_of_nat (length payload), n, 2)
        else \<exists>e. verify_boot_image img = Inl e"
    unfolding verify_boot_image_def boot_defs Let_def accepts
    using r(1) nth [of 510] nth [of 511] b(2,3) texts sector k fats first count size_ok walk n' u
    by (auto simp: throw_if_def throw_def)
  moreover have "take (length payload) (read_chain n img 2) = payload"
    using read_allocated [OF al, of 0 n] r(9) some(2) by (simp add: region_def min_def)
  ultimately show ?thesis by blast
qed

definition demo_boot :: bytes where
  "demo_boot = blit 510 [0x55, 0xAA] (blit 54 (bytes_of_string ''FAT12   '') (blit 11 (le_bytes 2 (512 :: u16))
     (blit 3 (bytes_of_string ''ZENOVOS '') (replicate 512 0))))"

theorem boot_image_round_trip_witness:
  "\<exists>img. boot_image demo_boot [0xF4] = Inr img \<and> verify_boot_image img = Inr (1, 1, 2)"
proof -
  have len: "length demo_boot = 512" by (simp add: demo_boot_def)
  have r: "region 510 2 demo_boot = [0x55, 0xAA]" "region 54 8 demo_boot = bytes_of_string ''FAT12   ''"
      "region 11 2 demo_boot = le_bytes 2 (512 :: u16)" "region 3 8 demo_boot = bytes_of_string ''ZENOVOS ''"
    unfolding demo_boot_def by (simp_all add: region_blit_other region_blit_same)
  have nth: "demo_boot ! (510 + k) = region 510 2 demo_boot ! k" if "k < 2" for k
    using that len by (simp add: region_def)
  have sig: "demo_boot ! 510 = 0x55" "demo_boot ! 511 = 0xAA" using nth [of 0] nth [of 1] r(1) by simp_all
  have "is_ok (boot_image demo_boot [0xF4])"
    using len sig fill_fat_entries [of "[0]" "blit 0 [0xF0, 0xFF, 0xFF :: byte] (replicate 4608 0)" 1]
    by (auto simp: is_ok_iff boot_image_def boot_defs throw_if_def copy_name_def put16_blit put32_blit update_blit)
  then obtain img where img: "boot_image demo_boot [0xF4] = Inr img" by (auto simp: is_ok_iff)
  have "image_text demo_boot 3 8 = ''ZENOVOS ''" "get16 demo_boot 11 = Inr 512" "image_text demo_boot 54 8 = ''FAT12   ''"
    using r len by (simp_all add: image_text_region get16_region)
  with boot_image_round_trip [OF img refl refl] img show ?thesis by simp
qed

end
