(* ===== verification/Zenpkg_Common.thy ===== *)
theory Zenpkg_Common
  imports Host_Files
begin

text \<open>
  \<open>tools/zenpkg/common.hpp\<close>: text and file helpers, the character checks of identifiers, versions
  and printable text, little-endian fields and hexadecimal text. \<open>write_binary_atomic\<close> is shown to
  replace exactly the target.
\<close>

definition trim :: "string \<Rightarrow> string" where
  "trim value = strip isspace value"

definition starts_with_view :: "string \<Rightarrow> string \<Rightarrow> bool" where
  "starts_with_view value prefix_text \<longleftrightarrow> length value \<ge> length prefix_text \<and> take (length prefix_text) value = prefix_text"

definition read_binary :: "host \<Rightarrow> string \<Rightarrow> bytes result" where
  "read_binary h path =
     (case (host_read_fault h path, host_lookup h path) of
        (None, Some (Regular data)) \<Rightarrow>
          if length data > u64_max then throw (''file is too large for this host: '' @ path) else Inr data
      | (Some CannotSize, Some (Regular data)) \<Rightarrow> throw (''cannot determine file size: '' @ path)
      | (Some ShortRead, Some (Regular data)) \<Rightarrow>
          if data = [] then Inr data else throw (''short read: '' @ path)
      | _ \<Rightarrow> throw (''cannot open file for reading: '' @ path))"

definition read_text :: "host \<Rightarrow> string \<Rightarrow> string result" where
  "read_text h path = ebind (read_binary h path) (\<lambda>data. Inr (string_of_bytes data))"

definition write_binary_atomic :: "string \<Rightarrow> bytes \<Rightarrow> host \<Rightarrow> unit result \<times> host" where
  "write_binary_atomic path data h =
     (let parent = path_parent path;
          h = (if parent \<noteq> [] then host_create_directories parent h else h);
          temporary = path @ ''.tmp''
      in case host_write_fault h temporary of
           Some CannotCreate \<Rightarrow> (throw (''cannot open temporary file for writing: '' @ temporary), h)
         | Some (WriteFails n) \<Rightarrow>
             (throw (''write failed: '' @ temporary), host_put temporary (Regular (take n data)) h)
         | None \<Rightarrow>
             let h = host_put temporary (Regular data) h;
                 (renamed, h) = host_rename temporary path h
             in if renamed then (Inr (), h)
                else let h = host_remove path h;
                         (renamed, h) = host_rename temporary path h
                     in if renamed then (Inr (), h)
                        else (throw (''cannot replace output file: '' @ path @ '': '' @ host_error_text h),
                              host_remove temporary h))"

definition write_text_atomic :: "string \<Rightarrow> string \<Rightarrow> host \<Rightarrow> unit result \<times> host" where
  "write_text_atomic path content h = write_binary_atomic path (bytes_of_string content) h"

definition hex_digit :: "nat \<Rightarrow> char" where
  "hex_digit n = ''0123456789abcdef'' ! n"

definition hex_encode :: "bytes \<Rightarrow> string" where
  "hex_encode data = concat (map (\<lambda>b. [hex_digit (unat b div 16), hex_digit (unat b mod 16)]) data)"

definition is_safe_identifier :: "string \<Rightarrow> bool" where
  "is_safe_identifier value =
     (if value = [] \<or> length value > 64 then False
      else if \<not> isalnum (hd value) \<or> \<not> isalnum (last value) \<or> contains value ''..'' then False
      else list_all (\<lambda>ch. isalnum ch \<or> ch = CHR ''.'' \<or> ch = CHR ''-'' \<or> ch = CHR ''_'') value)"

definition is_printable_text :: "string \<Rightarrow> nat \<Rightarrow> bool" where
  "is_printable_text value maximum =
     (if value = [] \<or> length value > maximum then False else list_all (\<lambda>ch. \<not> iscontrol ch) value)"

definition is_safe_version :: "string \<Rightarrow> bool" where
  "is_safe_version value =
     (if value = [] \<or> length value > 64 then False
      else list_all (\<lambda>ch. isalnum ch \<or> ch = CHR ''.'' \<or> ch = CHR ''-'' \<or> ch = CHR ''+'' \<or> ch = CHR ''_'') value)"

definition append_u32_le :: "bytes \<Rightarrow> u32 \<Rightarrow> bytes" where
  "append_u32_le output value = output @ map (\<lambda>shift. ucast (drop_bit shift value)) [0, 8, 16, 24]"

definition append_u64_le :: "bytes \<Rightarrow> u64 \<Rightarrow> bytes" where
  "append_u64_le output value =
     output @ map (\<lambda>shift. ucast (drop_bit shift value)) [0, 8, 16, 24, 32, 40, 48, 56]"

definition read_u32_le :: "bytes \<Rightarrow> nat \<Rightarrow> u32 result" where
  "read_u32_le input offset =
     (if offset > length input \<or> length input - offset < 4 then throw ''truncated package header''
      else Inr (fold (\<lambda>i value. value OR push_bit (i * 8) (ucast (input ! (offset + i)))) [0..<4] 0))"

definition read_u64_le :: "bytes \<Rightarrow> nat \<Rightarrow> u64 result" where
  "read_u64_le input offset =
     (if offset > length input \<or> length input - offset < 8 then throw ''truncated package header''
      else Inr (fold (\<lambda>i value. value OR push_bit (i * 8) (ucast (input ! (offset + i)))) [0..<8] 0))"

fun join :: "string list \<Rightarrow> string \<Rightarrow> string" where
  "join [] separator = []"
| "join [x] separator = x"
| "join (x # y # ys) separator = x @ separator @ join (y # ys) separator"

section \<open>Lemmas\<close>

text \<open>A text that \<open>trim\<close> leaves alone.\<close>

definition trimmed :: "string \<Rightarrow> bool" where
  "trimmed value \<longleftrightarrow> value = [] \<or> (\<not> isspace (hd value) \<and> \<not> isspace (last value))"

lemma trim_trimmed [simp]: "trimmed str \<Longrightarrow> trim str = str"
  by (simp add: trim_def trimmed_def strip_stripped stripped_def)

lemma trimmed_trim: "trimmed (trim str)"
  using stripped_strip by (simp add: trim_def trimmed_def stripped_def)

lemma set_trim: "set (trim str) \<subseteq> set str"
  by (simp add: trim_def set_strip)

lemma append_u32_le_bytes: "append_u32_le output str = output @ le_bytes 4 str"
  by (simp add: append_u32_le_def le_bytes_4_eq)

lemma append_u64_le_bytes: "append_u64_le output str = output @ le_bytes 8 str"
  by (simp add: append_u64_le_def eval_nat_numeral)

lemma fold_or_bytes:
  "fold (\<lambda>i w. w OR push_bit (i * 8) (ucast (input ! (offset + i)))) [n..<m] w =
     (w OR push_bit (n * 8) (le_word (take (m - n) (drop (offset + n) input))) :: 'a::len word)"
  if "offset + m \<le> length input"
  using that
proof (induction "m - n" arbitrary: n w)
  case (Suc k)
  then have n: "n < m" "m - n = Suc (m - Suc n)" "k = m - Suc n" by auto
  have d: "drop (offset + n) input = input ! (offset + n) # drop (offset + Suc n) input"
    using n(1) Suc.prems by (simp add: Cons_nth_drop_Suc)
  have "fold (\<lambda>i w. w OR push_bit (i * 8) (ucast (input ! (offset + i)))) [n..<m] w =
      fold (\<lambda>i w. w OR push_bit (i * 8) (ucast (input ! (offset + i)))) [Suc n..<m]
        (w OR push_bit (n * 8) (ucast (input ! (offset + n))))"
    using n(1) by (simp add: upt_conv_Cons)
  also have "\<dots> = w OR push_bit (n * 8) (le_word (take (m - n) (drop (offset + n) input)))"
    unfolding Suc.hyps(1) [OF n(3) Suc.prems] d n(2)
    by (simp add: push_bit_or or.assoc push_bit_push_bit add.commute)
  finally show ?case .
qed simp

lemma read_u32_le_word:
  "offset + 4 \<le> length input \<Longrightarrow> read_u32_le input offset = Inr (le_word (take 4 (drop offset input)))"
  unfolding read_u32_le_def using fold_or_bytes [where 'a = 32 and offset = offset and m = 4 and n = 0 and w = 0 and input = input]
  by (auto simp: not_less)

lemma read_u64_le_word:
  "offset + 8 \<le> length input \<Longrightarrow> read_u64_le input offset = Inr (le_word (take 8 (drop offset input)))"
  unfolding read_u64_le_def using fold_or_bytes [where 'a = 64 and offset = offset and m = 8 and n = 0 and w = 0 and input = input]
  by (auto simp: not_less)

section \<open>The atomic write\<close>

lemma write_binary_atomic_spec:
  assumes "write_binary_atomic path data h = (r, h')"
  shows "(is_ok r \<longrightarrow> host_lookup h' path = Some (Regular data) \<and> host_lookup h' (path @ ''.tmp'') = None) \<and>
         (\<forall>p. p \<noteq> path \<and> p \<noteq> path @ ''.tmp'' \<longrightarrow> host_lookup h' p \<in> {host_lookup h p, Some Folder} \<and>
            (host_lookup h p \<noteq> None \<longrightarrow> host_lookup h' p = host_lookup h p)) \<and>
         (host_write_fault h (path @ ''.tmp'') \<noteq> None \<longrightarrow>
            \<not> is_ok r \<and> (host_lookup h path \<noteq> None \<longrightarrow> host_lookup h' path = host_lookup h path))"
proof -
  define h1 where "h1 = (if path_parent path \<noteq> [] then host_create_directories (path_parent path) h else h)"
  let ?t = "path @ ''.tmp''"
  have h1: "host_lookup h1 p \<in> {host_lookup h p, Some Folder}"
    "host_lookup h p \<noteq> None \<Longrightarrow> host_lookup h1 p = host_lookup h p" "host_write_fault h1 = host_write_fault h" for p
    using host_create_directories_lookup [where p = "path_parent path" and h = h and q = p] by (auto simp: h1_def)
  show ?thesis
  proof (cases "host_write_fault h ?t")
    case None
    define h2 where "h2 = host_put ?t (Regular data) h1"
    obtain b1 h3 where r1: "host_rename ?t path h2 = (b1, h3)" by fastforce
    obtain b2 h4 where r2: "host_rename ?t path (host_remove path h3) = (b2, h4)" by fastforce
    have call: "b1 \<Longrightarrow> r = Inr () \<and> h' = h3" "\<not> b1 \<Longrightarrow> b2 \<Longrightarrow> r = Inr () \<and> h' = h4"
      "\<not> b1 \<Longrightarrow> \<not> b2 \<Longrightarrow> \<not> is_ok r \<and> h' = host_remove ?t h4"
      using assms None h1(3) r1 r2
      by (auto simp: write_binary_atomic_def h1_def [symmetric] h2_def [symmetric] is_ok_def throw_def Let_def)
    have l2: "host_lookup h2 = (host_lookup h1)(?t \<mapsto> Regular data)" by (rule ext) (simp add: h2_def host_lookup_put)
    show ?thesis
    proof (cases b1)
      case True
      then have "host_lookup h' = (host_lookup h2)(path := host_lookup h2 ?t, ?t := None)" "r = Inr ()"
        using call(1) host_rename_lookup [of ?t path h2 h3] r1 by auto
      then show ?thesis using l2 h1(1,2) None by (auto simp: is_ok_def)
    next
      case False
      then have l3: "host_lookup h3 = host_lookup h2"
        using r1 by (auto simp: host_rename_def Let_def split: option.splits if_splits)
      show ?thesis
      proof (cases b2)
        case True
        then have "host_lookup h' = (host_lookup h2)(path := host_lookup h2 ?t, ?t := None)" "r = Inr ()"
          using call(2) False host_rename_lookup [of ?t path "host_remove path h3" h4] r2 l3
          by (auto simp: host_lookup_remove fun_eq_iff)
        then show ?thesis using l2 h1(1,2) None by (auto simp: is_ok_def)
      next
        case b2: False
        then have "host_lookup h4 p = (if p = path then None else host_lookup h2 p)" for p
          using r2 l3 by (auto simp: host_rename_def Let_def host_lookup_remove split: option.splits if_splits)
        then have "host_lookup h' p = (if p = ?t \<or> p = path then None else host_lookup h2 p)" "\<not> is_ok r" for p
          using call(3) False b2 by (auto simp: host_lookup_remove)
        then show ?thesis using l2 h1(1,2) None by auto
      qed
    qed
  next
    case (Some f)
    then have "\<not> is_ok r \<and> (\<forall>p. p \<noteq> ?t \<longrightarrow> host_lookup h' p = host_lookup h1 p)"
      using assms h1(3) by (cases f) (auto simp: write_binary_atomic_def Let_def h1_def [symmetric] host_lookup_put is_ok_def throw_def)
    then show ?thesis using h1(1,2) Some by auto
  qed
qed

lemma atomic_write_ok:
  "write_binary_atomic path data h = (r, h') \<Longrightarrow> is_ok r \<Longrightarrow> host_lookup h' path = Some (Regular data)"
  using write_binary_atomic_spec by blast

lemma rename_faults: "host_rename src dst h = (b, h') \<Longrightarrow> host_read_fault h' = host_read_fault h"
  using host_rename_fields(1) [of src dst h] by simp

lemma atomic_write_faults:
  "write_binary_atomic path data h = (r, h') \<Longrightarrow> host_read_fault h' = host_read_fault h"
  by (auto simp: write_binary_atomic_def Let_def dest!: rename_faults
      split: option.splits write_fault.splits prod.splits if_splits)

text \<open>
  \<open>write_binary_atomic\<close> replaces the target. When it returns, the target holds exactly the data
  and the temporary is gone, and every other path is as before or a directory created for the
  target. When the temporary cannot be created or written, the target is as before.
\<close>

theorem write_binary_atomic_replaces:
  assumes "write_binary_atomic path data h = (r, h')"
  shows "(is_ok r \<longrightarrow> host_lookup h' path = Some (Regular data) \<and> host_lookup h' (path @ ''.tmp'') = None) \<and>
         (\<forall>p. p \<noteq> path \<and> p \<noteq> path @ ''.tmp'' \<longrightarrow> host_lookup h' p \<in> {host_lookup h p, Some Folder} \<and>
            (host_lookup h p \<noteq> None \<longrightarrow> host_lookup h' p = host_lookup h p)) \<and>
         (host_write_fault h (path @ ''.tmp'') \<noteq> None \<longrightarrow>
            \<not> is_ok r \<and> (host_lookup h path \<noteq> None \<longrightarrow> host_lookup h' path = host_lookup h path))"
  using write_binary_atomic_spec [OF assms] .

theorem write_binary_atomic_replaces_witness:
  "host_lookup (snd (write_binary_atomic ''out/a'' [1, 2]
     \<lparr>host_nodes = [(''out/a'', Regular [9])], host_read_fault = (\<lambda>_. None), host_write_fault = (\<lambda>_. None),
      host_renames = [False], host_error_text = []\<rparr>)) ''out/a'' = Some (Regular [1, 2])"
proof -
  let ?h = "\<lparr>host_nodes = [(''out/a'', Regular [9])], host_read_fault = (\<lambda>_. None), host_write_fault = (\<lambda>_. None),
      host_renames = [False], host_error_text = []\<rparr>"
  have "is_ok (fst (write_binary_atomic ''out/a'' [1, 2] ?h))" by code_simp
  then show ?thesis
    using write_binary_atomic_replaces [of "''out/a''" "[1, 2]" ?h "fst (write_binary_atomic ''out/a'' [1, 2] ?h)"
        "snd (write_binary_atomic ''out/a'' [1, 2] ?h)"] by simp
qed

end
