(* ===== verification/Zenpkg_Manifest.thy ===== *)
theory Zenpkg_Manifest
  imports Zenpkg_Common
begin

text \<open>
  \<open>tools/zenpkg/manifest.hpp\<close>: the package manifest, its parser, its validation, its canonical text,
  numeric versions and the compatibility resolution. A canonical text parses back to the manifest,
  and versions are totally ordered.
\<close>

section \<open>The manifest\<close>

record manifest =
  m_format :: string
  m_name :: string
  m_version :: string
  m_architecture :: string
  m_target :: string
  m_kind :: string
  m_entrypoint :: string
  m_payload_type :: string
  m_runtime :: string
  m_min_os :: string
  m_license :: string
  m_source :: string
  m_asset_policy :: string
  m_capabilities :: "string list"
  m_dependencies :: "string list"
  m_conflicts :: "string list"

definition empty_manifest :: manifest where
  "empty_manifest =
     \<lparr>m_format = [], m_name = [], m_version = [], m_architecture = [], m_target = [], m_kind = [],
      m_entrypoint = [], m_payload_type = [], m_runtime = [], m_min_os = [], m_license = [],
      m_source = [], m_asset_policy = [], m_capabilities = [], m_dependencies = [], m_conflicts = []\<rparr>"

definition is_allowed_kind :: "string \<Rightarrow> bool" where
  "is_allowed_kind value \<longleftrightarrow>
     value \<in> {''native'', ''application'', ''runtime'', ''compat-profile'', ''firmware-descriptor''}"

definition is_allowed_payload_type :: "string \<Rightarrow> bool" where
  "is_allowed_payload_type value \<longleftrightarrow>
     value \<in> {''zex1'', ''elf32'', ''elf64'', ''tar'', ''runtime-bundle'', ''metadata'', ''none''}"

definition is_allowed_runtime :: "string \<Rightarrow> bool" where
  "is_allowed_runtime value \<longleftrightarrow>
     value \<in> {''native'', ''wine'', ''proton'', ''qemu-user'', ''qemu-system'', ''darling'',
              ''pcsx2'', ''rpcs3'', ''xemu'', ''xenia'', ''external''}"

definition entry_component_ok :: "string \<Rightarrow> bool" where
  "entry_component_ok component \<longleftrightarrow>
     component \<noteq> [] \<and> component \<noteq> ''.'' \<and> component \<noteq> ''..'' \<and>
     list_all (\<lambda>ch. \<not> iscontrol ch \<and> ch \<noteq> CHR 0x5C \<and> ch \<noteq> CHR '':'') component"

definition is_safe_absolute_entrypoint :: "string \<Rightarrow> bool" where
  "is_safe_absolute_entrypoint value =
     (if value = [] then False
      else if value = ''-'' then True
      else if hd value \<noteq> CHR ''/'' \<or> length value > 127 \<or> last value = CHR ''/'' then False
      else list_all entry_component_ok (split_all (CHR ''/'') (drop 1 value)))"

definition requirement_char :: "char \<Rightarrow> bool" where
  "requirement_char ch \<longleftrightarrow> isalnum ch \<or> ch \<in> set ''.-_:@<>=+''"

definition validate_requirement :: "string \<Rightarrow> string \<Rightarrow> unit result" where
  "validate_requirement value field =
     (if value = [] \<or> length value > 96 then throw (field @ '' entry has invalid length'')
      else if list_all requirement_char value then Inr ()
      else throw (field @ '' contains an unsupported character: '' @ value))"

section \<open>Parsing\<close>

text \<open>\<open>*found->second = value\<close> through the table of scalar fields.\<close>

definition set_scalar :: "string \<Rightarrow> string \<Rightarrow> manifest \<Rightarrow> manifest option" where
  "set_scalar key value m =
     (if key = ''format'' then Some (m\<lparr>m_format := value\<rparr>)
      else if key = ''name'' then Some (m\<lparr>m_name := value\<rparr>)
      else if key = ''version'' then Some (m\<lparr>m_version := value\<rparr>)
      else if key = ''architecture'' then Some (m\<lparr>m_architecture := value\<rparr>)
      else if key = ''target'' then Some (m\<lparr>m_target := value\<rparr>)
      else if key = ''kind'' then Some (m\<lparr>m_kind := value\<rparr>)
      else if key = ''entrypoint'' then Some (m\<lparr>m_entrypoint := value\<rparr>)
      else if key = ''payload_type'' then Some (m\<lparr>m_payload_type := value\<rparr>)
      else if key = ''runtime'' then Some (m\<lparr>m_runtime := value\<rparr>)
      else if key = ''min_os'' then Some (m\<lparr>m_min_os := value\<rparr>)
      else if key = ''license'' then Some (m\<lparr>m_license := value\<rparr>)
      else if key = ''source'' then Some (m\<lparr>m_source := value\<rparr>)
      else if key = ''asset_policy'' then Some (m\<lparr>m_asset_policy := value\<rparr>)
      else None)"

text \<open>A key and its value, with the scalar keys seen so far.\<close>

definition store_pair ::
    "nat \<Rightarrow> string \<Rightarrow> string \<Rightarrow> manifest \<times> string list \<Rightarrow> (manifest \<times> string list) result" where
  "store_pair line_number key value st =
     (let (m, seen_scalars) = st
      in if key = ''capability'' then Inr (m\<lparr>m_capabilities := m_capabilities m @ [value]\<rparr>, seen_scalars)
         else if key = ''dependency'' then Inr (m\<lparr>m_dependencies := m_dependencies m @ [value]\<rparr>, seen_scalars)
         else if key = ''conflict'' then Inr (m\<lparr>m_conflicts := m_conflicts m @ [value]\<rparr>, seen_scalars)
         else case set_scalar key value m of
                None \<Rightarrow> throw (''unknown manifest key on line '' @ show_nat line_number @ '': '' @ key)
              | Some m' \<Rightarrow> if key \<in> set seen_scalars then throw (''duplicate manifest key: '' @ key)
                            else Inr (m', key # seen_scalars))"

definition parse_line ::
    "nat \<Rightarrow> string \<Rightarrow> manifest \<times> string list \<Rightarrow> (manifest \<times> string list) result" where
  "parse_line line_number line st =
     (let line = (if line \<noteq> [] \<and> last line = carriage_return then butlast line else line);
          cleaned = trim line
      in if cleaned = [] \<or> hd cleaned = CHR ''#'' then Inr st
         else case split_first (CHR ''='') cleaned of
                (_, None) \<Rightarrow> throw (''manifest line '' @ show_nat line_number @ '' must use key=value syntax'')
              | (key, Some value) \<Rightarrow>
                  if key = [] then throw (''manifest line '' @ show_nat line_number @ '' must use key=value syntax'')
                  else let key = trim key; value = trim value
                       in if value = [] then throw (''manifest line '' @ show_nat line_number @ '' has an empty value'')
                          else store_pair line_number key value st)"

primrec parse_lines ::
    "string list \<Rightarrow> nat \<Rightarrow> manifest \<times> string list \<Rightarrow> (manifest \<times> string list) result" where
  "parse_lines [] line_number st = Inr st"
| "parse_lines (line # rest) line_number st =
     ebind (parse_line (line_number + 1) line st) (parse_lines rest (line_number + 1))"

definition parse_manifest :: "string \<Rightarrow> manifest result" where
  "parse_manifest input =
     ebind (parse_lines (getlines input) 0 (empty_manifest, [])) (\<lambda>(m, _). Inr m)"

section \<open>Validation\<close>

primrec validate_unique :: "string \<Rightarrow> string list \<Rightarrow> string set \<Rightarrow> unit result" where
  "validate_unique field [] unique = Inr ()"
| "validate_unique field (value # rest) unique =
     ebind (validate_requirement value field)
       (\<lambda>_. if value \<in> unique then throw (''duplicate '' @ field @ '': '' @ value)
            else validate_unique field rest (insert value unique))"

definition validate_manifest :: "manifest \<Rightarrow> nat \<Rightarrow> unit result" where
  "validate_manifest m payload_size =
     throw_if (m_format m \<noteq> ''zenpkg-manifest-1'') ''format must be zenpkg-manifest-1'' (
     throw_if (\<not> is_safe_identifier (m_name m)) ''name must be a 1-64 character safe identifier'' (
     throw_if (\<not> is_safe_version (m_version m)) ''version contains unsupported characters'' (
     throw_if (\<not> is_safe_identifier (m_architecture m)) ''architecture must be a safe identifier'' (
     throw_if (\<not> is_safe_identifier (m_target m)) ''target must be a safe identifier'' (
     throw_if (\<not> is_allowed_kind (m_kind m)) (''unsupported package kind: '' @ m_kind m) (
     throw_if (\<not> is_safe_absolute_entrypoint (m_entrypoint m)) ''entrypoint must be '-' or a safe absolute path'' (
     throw_if (\<not> is_allowed_payload_type (m_payload_type m)) (''unsupported payload_type: '' @ m_payload_type m) (
     throw_if (\<not> is_allowed_runtime (m_runtime m)) (''unsupported runtime: '' @ m_runtime m) (
     throw_if (\<not> is_safe_version (m_min_os m)) ''min_os contains unsupported characters'' (
     throw_if (\<not> is_printable_text (m_license m) 96) ''license is required, printable and must fit 96 characters'' (
     throw_if (\<not> is_printable_text (m_source m) 256) ''source is required, printable and must fit 256 characters'' (
     throw_if (m_asset_policy m \<noteq> ''redistributable'' \<and> m_asset_policy m \<noteq> ''user-supplied'' \<and>
               m_asset_policy m \<noteq> ''metadata-only'')
       ''asset_policy must be redistributable, user-supplied, or metadata-only'' (
     throw_if (m_payload_type m = ''none'' \<and> payload_size \<noteq> 0) ''payload_type=none requires an empty payload'' (
     throw_if (m_payload_type m \<noteq> ''none'' \<and> payload_size = 0) ''non-empty payload_type requires payload bytes'' (
     throw_if ((m_kind m = ''compat-profile'' \<or> m_kind m = ''firmware-descriptor'') \<and> m_entrypoint m \<noteq> ''-'')
       ''metadata-only package kinds must use entrypoint=-'' (
     throw_if ((m_kind m = ''application'' \<or> m_kind m = ''native'' \<or> m_kind m = ''runtime'') \<and> m_entrypoint m = ''-'')
       ''executable package kinds require an entrypoint'' (
     ebind (validate_unique ''capability'' (m_capabilities m) {}) (\<lambda>_.
     ebind (validate_unique ''dependency'' (m_dependencies m) {}) (\<lambda>_.
     validate_unique ''conflict'' (m_conflicts m) {})))))))))))))))))))"

section \<open>The canonical text\<close>

definition field_line :: "string \<Rightarrow> string \<Rightarrow> string" where
  "field_line key value = key @ ''='' @ value @ [newline]"

definition canonical_manifest :: "manifest \<Rightarrow> string" where
  "canonical_manifest m =
     field_line ''format'' (m_format m) @ field_line ''name'' (m_name m) @
     field_line ''version'' (m_version m) @ field_line ''architecture'' (m_architecture m) @
     field_line ''target'' (m_target m) @ field_line ''kind'' (m_kind m) @
     field_line ''entrypoint'' (m_entrypoint m) @ field_line ''payload_type'' (m_payload_type m) @
     field_line ''runtime'' (m_runtime m) @ field_line ''min_os'' (m_min_os m) @
     field_line ''license'' (m_license m) @ field_line ''source'' (m_source m) @
     field_line ''asset_policy'' (m_asset_policy m) @
     concat (map (field_line ''capability'') (sort (m_capabilities m))) @
     concat (map (field_line ''dependency'') (sort (m_dependencies m))) @
     concat (map (field_line ''conflict'') (sort (m_conflicts m)))"

definition parse_and_validate_manifest :: "string \<Rightarrow> nat \<Rightarrow> manifest result" where
  "parse_and_validate_manifest input payload_size =
     ebind (parse_manifest input) (\<lambda>m. ebind (validate_manifest m payload_size) (\<lambda>_. Inr m))"

section \<open>Versions and resolution\<close>

record resolution =
  res_compatible :: bool
  res_reasons :: "string list"

fun parse_digits :: "string \<Rightarrow> string \<Rightarrow> nat \<Rightarrow> nat result" where
  "parse_digits value [] parsed = Inr parsed"
| "parse_digits value (ch # rest) parsed =
     (if \<not> isdigit ch then throw (''version core must be numeric: '' @ value)
      else if parsed > (u64_max - digit_value ch) div 10 then throw (''version component overflows: '' @ value)
      else parse_digits value rest (parsed * 10 + digit_value ch))"

primrec parse_components :: "string \<Rightarrow> string list \<Rightarrow> nat list result" where
  "parse_components value [] = Inr []"
| "parse_components value (component # rest) =
     (if component = [] then throw (''version has an empty numeric component: '' @ value)
      else ebind (parse_digits value component 0)
             (\<lambda>parsed. ebind (parse_components value rest) (\<lambda>parts. Inr (parsed # parts))))"

definition parse_numeric_version :: "string \<Rightarrow> nat list result" where
  "parse_numeric_version value =
     parse_components value (split_all (CHR ''.'') (takeWhile (\<lambda>c. c \<noteq> CHR ''-'' \<and> c \<noteq> CHR ''+'') value))"

definition version_at_least :: "string \<Rightarrow> string \<Rightarrow> bool result" where
  "version_at_least current minimum =
     ebind (parse_numeric_version current) (\<lambda>left.
     ebind (parse_numeric_version minimum) (\<lambda>right.
       let count = max (length left) (length right);
           left = resize count left; right = resize count right
       in if left \<noteq> right then Inr (right < left)
          else let current_prerelease = CHR ''-'' \<in> set current; minimum_prerelease = CHR ''-'' \<in> set minimum
               in if current_prerelease \<noteq> minimum_prerelease then Inr (\<not> current_prerelease)
                  else Inr (current \<ge> minimum)))"

definition resolve_manifest ::
    "manifest \<Rightarrow> string \<Rightarrow> string \<Rightarrow> string \<Rightarrow> string set \<Rightarrow> resolution result" where
  "resolve_manifest m architecture target os_version capabilities =
     ebind (version_at_least os_version (m_min_os m)) (\<lambda>recent.
       let reasons =
             (if m_architecture m \<noteq> ''any'' \<and> m_architecture m \<noteq> architecture
              then [''architecture mismatch: package='' @ m_architecture m @ '' host='' @ architecture] else []) @
             (if m_target m \<noteq> ''any'' \<and> m_target m \<noteq> target
              then [''target mismatch: package='' @ m_target m @ '' host='' @ target] else []) @
             (if \<not> recent
              then [''OS version too old: package requires '' @ m_min_os m @ '' host='' @ os_version] else []) @
             map (\<lambda>required. ''missing capability: '' @ required)
               (filter (\<lambda>required. required \<notin> capabilities) (m_capabilities m))
       in Inr \<lparr>res_compatible = (reasons = []), res_reasons = reasons\<rparr>)"

section \<open>Round trip\<close>

text \<open>A text that survives one line of a manifest as a value.\<close>

definition plain_value :: "string \<Rightarrow> bool" where
  "plain_value v \<longleftrightarrow> v \<noteq> [] \<and> trimmed v \<and> newline \<notin> set v"

definition plain_key :: "string \<Rightarrow> bool" where
  "plain_key k \<longleftrightarrow> k \<noteq> [] \<and> (\<forall>c\<in>set k. \<not> isspace c) \<and> CHR ''='' \<notin> set k \<and> hd k \<noteq> CHR ''#''"

lemma space_cr: "isspace carriage_return" "isspace newline"
  by (simp_all add: isspace_def)

lemma trim_plain_key: "plain_key k \<Longrightarrow> trim k = k"
  by (rule trim_trimmed) (auto simp: plain_key_def trimmed_def)

definition pair_line :: "string \<times> string \<Rightarrow> string" where
  "pair_line p = fst p @ ''='' @ snd p"

definition plain_pair :: "string \<times> string \<Rightarrow> bool" where
  "plain_pair p \<longleftrightarrow> plain_key (fst p) \<and> plain_value (snd p)"

lemma parse_line_pair:
  assumes "plain_pair p"
  shows "parse_line n (pair_line p) st = store_pair n (fst p) (snd p) st"
proof -
  obtain k v where p: "p = (k, v)" by fastforce
  have k: "k \<noteq> []" "\<not> isspace (hd k)" "CHR ''='' \<notin> set k" "hd k \<noteq> CHR ''#''" "trim k = k"
    using assms by (auto simp: plain_pair_def plain_key_def p trim_plain_key)
  have v: "v \<noteq> []" "\<not> isspace (last v)" "last v \<noteq> carriage_return" "trim v = v"
    using assms space_cr by (auto simp: plain_pair_def plain_value_def trimmed_def p)
  have t: "trimmed (k @ ''='' @ v)" using k v by (simp add: trimmed_def)
  show ?thesis
    using k v trim_trimmed [OF t] by (simp add: parse_line_def Let_def p pair_line_def)
qed

text \<open>Storing a list of pairs, as the parser does it line by line.\<close>

primrec store_pairs ::
    "(string \<times> string) list \<Rightarrow> nat \<Rightarrow> manifest \<times> string list \<Rightarrow> (manifest \<times> string list) result" where
  "store_pairs [] n st = Inr st"
| "store_pairs (p # ps) n st = ebind (store_pair (n + 1) (fst p) (snd p) st) (store_pairs ps (n + 1))"

lemma parse_lines_pairs: "\<forall>p\<in>set ps. plain_pair p \<Longrightarrow> parse_lines (map pair_line ps) n st = store_pairs ps n st"
  by (induction ps arbitrary: n st) (simp_all add: parse_line_pair ebind_def split: sum.splits)

lemma store_pairs_append:
  "store_pairs (ps @ qs) n st = ebind (store_pairs ps n st) (store_pairs qs (n + length ps))"
  by (induction ps arbitrary: n st) (simp_all add: ebind_def split: sum.splits)

lemma store_capabilities:
  "store_pairs (map (Pair ''capability'') vs) n (m, seen) = Inr (m\<lparr>m_capabilities := m_capabilities m @ vs\<rparr>, seen)"
  by (induction vs arbitrary: n m) (simp_all add: store_pair_def)

lemma store_dependencies:
  "store_pairs (map (Pair ''dependency'') vs) n (m, seen) = Inr (m\<lparr>m_dependencies := m_dependencies m @ vs\<rparr>, seen)"
  by (induction vs arbitrary: n m) (simp_all add: store_pair_def)

lemma store_conflicts:
  "store_pairs (map (Pair ''conflict'') vs) n (m, seen) = Inr (m\<lparr>m_conflicts := m_conflicts m @ vs\<rparr>, seen)"
  by (induction vs arbitrary: n m) (simp_all add: store_pair_def)

text \<open>The pairs of the canonical text.\<close>

definition scalar_pairs :: "manifest \<Rightarrow> (string \<times> string) list" where
  "scalar_pairs m =
     [(''format'', m_format m), (''name'', m_name m), (''version'', m_version m),
      (''architecture'', m_architecture m), (''target'', m_target m), (''kind'', m_kind m),
      (''entrypoint'', m_entrypoint m), (''payload_type'', m_payload_type m),
      (''runtime'', m_runtime m), (''min_os'', m_min_os m), (''license'', m_license m),
      (''source'', m_source m), (''asset_policy'', m_asset_policy m)]"

definition manifest_pairs :: "manifest \<Rightarrow> (string \<times> string) list" where
  "manifest_pairs m =
     scalar_pairs m @ map (Pair ''capability'') (sort (m_capabilities m)) @
     map (Pair ''dependency'') (sort (m_dependencies m)) @ map (Pair ''conflict'') (sort (m_conflicts m))"

lemma concat_field_lines:
  "concat (map (field_line k) vs) = concat (map (\<lambda>p. pair_line p @ [newline]) (map (Pair k) vs))"
  by (induction vs) (simp_all add: field_line_def pair_line_def)

lemma canonical_lines:
  "canonical_manifest m = concat (map (\<lambda>x. x @ [newline]) (map pair_line (manifest_pairs m)))"
  unfolding canonical_manifest_def concat_field_lines
  by (simp add: manifest_pairs_def scalar_pairs_def field_line_def pair_line_def comp_def)

definition plain_manifest :: "manifest \<Rightarrow> bool" where
  "plain_manifest m \<longleftrightarrow> (\<forall>p\<in>set (manifest_pairs m). plain_value (snd p))"

definition sorted_manifest :: "manifest \<Rightarrow> manifest" where
  "sorted_manifest m =
     m\<lparr>m_capabilities := sort (m_capabilities m), m_dependencies := sort (m_dependencies m),
       m_conflicts := sort (m_conflicts m)\<rparr>"

lemma manifest_keys_plain:
  "plain_key ''format''" "plain_key ''name''" "plain_key ''version''" "plain_key ''architecture''"
  "plain_key ''target''" "plain_key ''kind''" "plain_key ''entrypoint''" "plain_key ''payload_type''"
  "plain_key ''runtime''" "plain_key ''min_os''" "plain_key ''license''" "plain_key ''source''"
  "plain_key ''asset_policy''" "plain_key ''capability''" "plain_key ''dependency''" "plain_key ''conflict''"
  by (simp_all add: plain_key_def isspace_def)

lemma manifest_pairs_plain: "plain_manifest m \<Longrightarrow> \<forall>p\<in>set (manifest_pairs m). plain_pair p"
  using manifest_keys_plain by (auto simp: plain_manifest_def plain_pair_def manifest_pairs_def scalar_pairs_def)

lemma store_scalars:
  "\<exists>seen. store_pairs (scalar_pairs m) 0 (empty_manifest, []) =
     Inr (m\<lparr>m_capabilities := [], m_dependencies := [], m_conflicts := []\<rparr>, seen)"
  by (simp add: scalar_pairs_def store_pair_def set_scalar_def empty_manifest_def)

lemma canonical_parses:
  assumes "plain_manifest m"
  shows "parse_manifest (canonical_manifest m) = Inr (sorted_manifest m)"
proof -
  note plain = manifest_pairs_plain [OF assms]
  have "\<forall>x\<in>set (map pair_line (manifest_pairs m)). newline \<notin> set x"
    using plain space_cr by (auto simp: plain_pair_def plain_value_def plain_key_def pair_line_def)
  then have lines: "getlines (canonical_manifest m) = map pair_line (manifest_pairs m)"
    unfolding canonical_lines by (rule getlines_concat)
  obtain seen where "store_pairs (scalar_pairs m) 0 (empty_manifest, []) =
      Inr (m\<lparr>m_capabilities := [], m_dependencies := [], m_conflicts := []\<rparr>, seen)"
    using store_scalars by blast
  then have "store_pairs (manifest_pairs m) 0 (empty_manifest, []) = Inr (sorted_manifest m, seen)"
    by (simp add: manifest_pairs_def store_pairs_append store_capabilities store_dependencies store_conflicts
        sorted_manifest_def)
  then show ?thesis using lines parse_lines_pairs [OF plain] by (simp add: parse_manifest_def)
qed

text \<open>What the parser stores is trimmed and on one line.\<close>

definition clean_value :: "string \<Rightarrow> bool" where
  "clean_value v \<longleftrightarrow> v = [] \<or> plain_value v"

definition clean_manifest :: "manifest \<Rightarrow> bool" where
  "clean_manifest m \<longleftrightarrow> (\<forall>p\<in>set (scalar_pairs m). clean_value (snd p)) \<and>
     (\<forall>v\<in>set (m_capabilities m) \<union> set (m_dependencies m) \<union> set (m_conflicts m). plain_value v)"

lemma clean_empty: "clean_manifest empty_manifest"
  by (simp add: clean_manifest_def scalar_pairs_def empty_manifest_def clean_value_def)

lemma clean_set_scalar:
  assumes "clean_manifest m" and "plain_value v" and "set_scalar k v m = Some m'"
  shows "clean_manifest m'"
proof -
  have v: "clean_value v" using assms(2) by (simp add: clean_value_def)
  show ?thesis using assms(1,3) v
    by (auto simp: set_scalar_def clean_manifest_def scalar_pairs_def split: if_splits)
qed

lemma clean_store_pair:
  "clean_manifest m \<Longrightarrow> plain_value v \<Longrightarrow> store_pair n k v (m, seen) = Inr (m', seen') \<Longrightarrow> clean_manifest m'"
  by (auto simp: store_pair_def split: if_splits option.splits intro: clean_set_scalar)
    (auto simp: clean_manifest_def scalar_pairs_def)

lemma clean_parse_line:
  assumes "clean_manifest m" and "newline \<notin> set line" and "parse_line n line (m, seen) = Inr (m', seen')"
  shows "clean_manifest m'"
proof -
  define l where "l = (if line \<noteq> [] \<and> last line = carriage_return then butlast line else line)"
  have l: "newline \<notin> set (trim l)"
    using assms(2) set_trim [of l] by (auto simp: l_def dest: in_set_butlastD split: if_splits)
  show ?thesis
  proof (cases "trim l = [] \<or> hd (trim l) = CHR ''#''")
    case True
    then show ?thesis using assms(1,3) by (auto simp: parse_line_def l_def [symmetric] Let_def)
  next
    case False
    obtain k v where sp: "split_first (CHR ''='') (trim l) = (k, Some v)" and "trim v \<noteq> []"
      and st: "store_pair n (trim k) (trim v) (m, seen) = Inr (m', seen')"
      using assms(3) False
      by (auto simp: parse_line_def l_def [symmetric] Let_def split: prod.splits option.splits if_splits)
    then have "plain_value (trim v)"
      using l set_trim [of v] split_first_Some [OF sp] trimmed_trim [of v] by (auto simp: plain_value_def)
    then show ?thesis using clean_store_pair [OF assms(1) _ st] by blast
  qed
qed

lemma clean_parse_lines:
  "clean_manifest m \<Longrightarrow> \<forall>l\<in>set ls. newline \<notin> set l \<Longrightarrow> parse_lines ls n (m, seen) = Inr (m', seen') \<Longrightarrow>
     clean_manifest m'"
proof (induction ls arbitrary: n m seen)
  case (Cons l ls)
  then obtain m1 seen1 where "parse_line (n + 1) l (m, seen) = Inr (m1, seen1)"
    "parse_lines ls (n + 1) (m1, seen1) = Inr (m', seen')"
    by (auto simp: ebind_eq_Inr)
  then show ?case using Cons clean_parse_line by (metis list.set_intros)
qed simp

lemma parse_manifest_clean: "parse_manifest input = Inr m \<Longrightarrow> clean_manifest m"
  using clean_parse_lines [OF clean_empty, of "getlines input"] getlines_no_newline
  by (auto simp: parse_manifest_def ebind_eq_Inr)

lemma validate_unique_iff:
  "validate_unique field vs U = Inr () \<longleftrightarrow>
     (\<forall>v\<in>set vs. validate_requirement v field = Inr ()) \<and> distinct vs \<and> set vs \<inter> U = {}"
  by (induction vs arbitrary: U) (auto simp: ebind_eq_Inr)

lemma validate_unique_sort: "validate_unique field (sort vs) U = Inr () \<longleftrightarrow> validate_unique field vs U = Inr ()"
  by (simp add: validate_unique_iff)

lemma checks_nonempty:
  "is_safe_identifier v \<Longrightarrow> v \<noteq> []" "is_safe_version v \<Longrightarrow> v \<noteq> []" "is_allowed_kind v \<Longrightarrow> v \<noteq> []"
  "is_allowed_payload_type v \<Longrightarrow> v \<noteq> []" "is_allowed_runtime v \<Longrightarrow> v \<noteq> []"
  "is_safe_absolute_entrypoint v \<Longrightarrow> v \<noteq> []" "is_printable_text v n \<Longrightarrow> v \<noteq> []"
  by (auto simp: is_safe_identifier_def is_safe_version_def is_allowed_kind_def is_allowed_payload_type_def
      is_allowed_runtime_def is_safe_absolute_entrypoint_def is_printable_text_def)

lemma validate_nonempty:
  assumes "validate_manifest m n = Inr ()"
  shows "\<forall>p\<in>set (scalar_pairs m). snd p \<noteq> []"
proof -
  have "m_format m = ''zenpkg-manifest-1''" "is_safe_identifier (m_name m)" "is_safe_version (m_version m)"
    "is_safe_identifier (m_architecture m)" "is_safe_identifier (m_target m)" "is_allowed_kind (m_kind m)"
    "is_safe_absolute_entrypoint (m_entrypoint m)" "is_allowed_payload_type (m_payload_type m)"
    "is_allowed_runtime (m_runtime m)" "is_safe_version (m_min_os m)" "is_printable_text (m_license m) 96"
    "is_printable_text (m_source m) 256" "m_asset_policy m \<noteq> []"
    using assms unfolding validate_manifest_def throw_if_eq_Inr by (blast, blast, blast, blast, blast, blast, blast, blast, blast, blast, blast, blast, fastforce)
  then show ?thesis by (simp add: scalar_pairs_def checks_nonempty)
qed

lemma validate_sorted: "validate_manifest m n = Inr () \<Longrightarrow> validate_manifest (sorted_manifest m) n = Inr ()"
  unfolding validate_manifest_def sorted_manifest_def
  by (simp add: throw_if_eq_Inr ebind_eq_Inr validate_unique_sort)

lemma canonical_sorted: "canonical_manifest (sorted_manifest m) = canonical_manifest m"
  by (simp add: canonical_manifest_def sorted_manifest_def sort_key_id_if_sorted)

lemma validated_plain: "clean_manifest m \<Longrightarrow> validate_manifest m n = Inr () \<Longrightarrow> plain_manifest m"
  using validate_nonempty [of m n]
  by (auto simp: plain_manifest_def clean_manifest_def clean_value_def manifest_pairs_def)

lemma parse_validated:
  "parse_and_validate_manifest input n = Inr m \<Longrightarrow> validate_manifest m n = Inr () \<and> plain_manifest m"
  using parse_manifest_clean validated_plain by (auto simp: parse_and_validate_manifest_def ebind_eq_Inr)

lemma canonical_parse_and_validate:
  "validate_manifest m n = Inr () \<Longrightarrow> plain_manifest m \<Longrightarrow>
     parse_and_validate_manifest (canonical_manifest m) n = Inr (sorted_manifest m)"
  by (simp add: parse_and_validate_manifest_def canonical_parses validate_sorted)

text \<open>
  Every manifest that the parser and the validation accept survives its canonical text: parsing
  and validating that text gives the same manifest with its lists sorted, and the canonical text of
  the result is the same text again.
\<close>

theorem manifest_canonical_round_trip:
  assumes "parse_and_validate_manifest input n = Inr m"
  shows "parse_and_validate_manifest (canonical_manifest m) n = Inr (sorted_manifest m) \<and>
         canonical_manifest (sorted_manifest m) = canonical_manifest m"
  using parse_validated [OF assms] canonical_parse_and_validate canonical_sorted by blast

definition demo_manifest_text :: string where
  "demo_manifest_text =
     field_line ''format'' ''zenpkg-manifest-1'' @ ''  name = demo'' @ [carriage_return, newline] @
     field_line ''version'' ''1.2.0'' @ field_line ''architecture'' ''x86'' @ field_line ''target'' ''zenov'' @
     field_line ''kind'' ''native'' @ field_line ''entrypoint'' ''/bin/demo'' @ field_line ''payload_type'' ''zex1'' @
     field_line ''runtime'' ''native'' @ field_line ''min_os'' ''0.1'' @ field_line ''license'' ''BSD-2-Clause'' @
     field_line ''source'' ''local'' @ field_line ''asset_policy'' ''redistributable'' @
     field_line ''capability'' ''net'' @ field_line ''capability'' ''disk''"

definition demo_manifest :: manifest where
  "demo_manifest =
     \<lparr>m_format = ''zenpkg-manifest-1'', m_name = ''demo'', m_version = ''1.2.0'', m_architecture = ''x86'',
      m_target = ''zenov'', m_kind = ''native'', m_entrypoint = ''/bin/demo'', m_payload_type = ''zex1'',
      m_runtime = ''native'', m_min_os = ''0.1'', m_license = ''BSD-2-Clause'', m_source = ''local'',
      m_asset_policy = ''redistributable'', m_capabilities = [''net'', ''disk''], m_dependencies = [],
      m_conflicts = []\<rparr>"

lemma demo_manifest_parses: "parse_and_validate_manifest demo_manifest_text 1 = Inr demo_manifest"
  by code_simp

theorem manifest_canonical_round_trip_witness:
  "parse_and_validate_manifest (canonical_manifest demo_manifest) 1 = Inr (sorted_manifest demo_manifest)"
  using manifest_canonical_round_trip [OF demo_manifest_parses] by blast

section \<open>The order of versions\<close>

lemma version_at_least_at:
  assumes "parse_numeric_version a = Inr xs" and "parse_numeric_version b = Inr ys"
    and "length xs \<le> n" and "length ys \<le> n"
  shows "version_at_least a b =
    Inr (if resize n xs \<noteq> resize n ys then resize n ys < resize n xs
         else if (CHR ''-'' \<in> set a) \<noteq> (CHR ''-'' \<in> set b) then CHR ''-'' \<notin> set a else a \<ge> b)"
proof -
  let ?k = "max (length xs) (length ys)"
  have "resize n xs = resize n ys \<longleftrightarrow> resize ?k xs = resize ?k ys"
    "resize n ys < resize n xs \<longleftrightarrow> resize ?k ys < resize ?k xs"
    using resize_compare [of xs ?k ys n] resize_compare [of ys ?k xs n] assms(3,4) by simp_all
  then show ?thesis using assms(1,2) by (simp add: version_at_least_def Let_def)
qed

text \<open>
  \<open>version_at_least\<close> is a total order on the versions with a numeric core: it is reflexive,
  antisymmetric and transitive, and any two versions are comparable. Shorter cores count as padded
  with zeros, and a prerelease comes before its release.
\<close>

theorem version_at_least_linear_order:
  assumes a: "parse_numeric_version a = Inr xs" and b: "parse_numeric_version b = Inr ys"
    and c: "parse_numeric_version c = Inr zs"
  shows "version_at_least a a = Inr True \<and>
         (version_at_least a b = Inr True \<or> version_at_least b a = Inr True) \<and>
         (version_at_least a b = Inr True \<and> version_at_least b a = Inr True \<longrightarrow> a = b) \<and>
         (version_at_least a b = Inr True \<and> version_at_least b c = Inr True \<longrightarrow> version_at_least a c = Inr True)"
proof -
  define n where "n = max (length xs) (max (length ys) (length zs))"
  have n: "length xs \<le> n" "length ys \<le> n" "length zs \<le> n" by (auto simp: n_def)
  show ?thesis
    unfolding version_at_least_at [OF a a n(1) n(1)] version_at_least_at [OF a b n(1) n(2)]
      version_at_least_at [OF b a n(2) n(1)] version_at_least_at [OF b c n(2) n(3)] version_at_least_at [OF a c n(1) n(3)]
    by (auto split: if_splits)
qed

theorem version_at_least_linear_order_witness:
  "version_at_least ''1.10'' ''1.9.3'' = Inr True \<and> version_at_least ''1.9.3'' ''1.9.3-rc1'' = Inr True \<and>
   version_at_least ''1.10'' ''1.9.3-rc1'' = Inr True"
proof -
  have v: "parse_numeric_version ''1.10'' = Inr [1, 10]" "parse_numeric_version ''1.9.3'' = Inr [1, 9, 3]"
    "parse_numeric_version ''1.9.3-rc1'' = Inr [1, 9, 3]" by code_simp+
  have "version_at_least ''1.10'' ''1.9.3'' = Inr True" "version_at_least ''1.9.3'' ''1.9.3-rc1'' = Inr True"
    by code_simp+
  with version_at_least_linear_order [OF v] show ?thesis by blast
qed

text \<open>
  \<open>resolve_manifest\<close> declares a package compatible exactly when its architecture and target are
  \<open>any\<close> or the host's, the host is recent enough, and the host has every capability it asks for;
  otherwise it gives a reason.
\<close>

theorem resolve_manifest_compatible:
  assumes "resolve_manifest m architecture target os_version capabilities = Inr r"
  shows "(res_compatible r \<longleftrightarrow>
            (m_architecture m = ''any'' \<or> m_architecture m = architecture) \<and>
            (m_target m = ''any'' \<or> m_target m = target) \<and>
            version_at_least os_version (m_min_os m) = Inr True \<and> set (m_capabilities m) \<subseteq> capabilities) \<and>
         (res_compatible r \<longleftrightarrow> res_reasons r = [])"
  using assms
  by (auto simp: resolve_manifest_def ebind_eq_Inr Let_def filter_empty_conv split: if_splits)

theorem resolve_manifest_compatible_witness:
  "\<exists>r. resolve_manifest demo_manifest ''x86'' ''zenov'' ''0.1.1'' {''net'', ''disk''} = Inr r \<and> res_compatible r"
proof -
  have v: "version_at_least ''0.1.1'' (m_min_os demo_manifest) = Inr True" by code_simp
  then obtain r where r: "resolve_manifest demo_manifest ''x86'' ''zenov'' ''0.1.1'' {''net'', ''disk''} = Inr r"
    by (simp add: resolve_manifest_def Let_def)
  then show ?thesis
    using resolve_manifest_compatible [OF r] v by (simp add: demo_manifest_def)
qed

end
