(* ===== verification/Sha256.thy ===== *)
theory Sha256
  imports Zenpkg_Common
begin

text \<open>
  \<open>tools/zenpkg/sha256.hpp\<close>: the streaming SHA-256 context, its compression function and its
  finalisation, against the definition of the hash on the whole padded message.
\<close>

section \<open>The context\<close>

record sha256 =
  sh_state :: "u32 list"
  sh_block :: bytes
  sh_digest :: bytes
  sh_total_bytes :: u64
  sh_block_size :: nat
  sh_finalized :: bool

text \<open>The table of round constants, in decimal: \<open>0x428a2f98\<close>, \<open>0x71374491\<close>, and so on.\<close>

definition sha_k :: "u32 list" where
  "sha_k =
    [1116352408, 1899447441, 3049323471, 3921009573, 961987163, 1508970993, 2453635748, 2870763221,
     3624381080, 310598401, 607225278, 1426881987, 1925078388, 2162078206, 2614888103, 3248222580,
     3835390401, 4022224774, 264347078, 604807628, 770255983, 1249150122, 1555081692, 1996064986,
     2554220882, 2821834349, 2952996808, 3210313671, 3336571891, 3584528711, 113926993, 338241895,
     666307205, 773529912, 1294757372, 1396182291, 1695183700, 1986661051, 2177026350, 2456956037,
     2730485921, 2820302411, 3259730800, 3345764771, 3516065817, 3600352804, 4094571909, 275423344,
     430227734, 506948616, 659060556, 883997877, 958139571, 1322822218, 1537002063, 1747873779,
     1955562222, 2024104815, 2227730452, 2361852424, 2428436474, 2756734187, 3204031479, 3329325298]"

definition rotate_right :: "u32 \<Rightarrow> nat \<Rightarrow> u32" where
  "rotate_right value count = drop_bit count value OR push_bit (32 - count) value"

definition add_mod32 :: "u32 list \<Rightarrow> u32" where
  "add_mod32 values = ucast ((sum_list (map ucast values) :: u64) AND 0xffffffff)"

definition sha_initial_state :: "u32 list" where
  "sha_initial_state =
    [0x6a09e667,0xbb67ae85,0x3c6ef372,0xa54ff53a,0x510e527f,0x9b05688c,0x1f83d9ab,0x5be0cd19]"

definition sha_reset :: sha256 where
  "sha_reset = \<lparr>sh_state = sha_initial_state, sh_block = replicate 64 0, sh_digest = replicate 32 0,
                sh_total_bytes = 0, sh_block_size = 0, sh_finalized = False\<rparr>"

definition block_word :: "bytes \<Rightarrow> nat \<Rightarrow> u32" where
  "block_word block i =
     push_bit 24 (ucast (block ! (i * 4))) OR push_bit 16 (ucast (block ! (i * 4 + 1))) OR
     push_bit 8 (ucast (block ! (i * 4 + 2))) OR ucast (block ! (i * 4 + 3))"

definition schedule_word :: "u32 list \<Rightarrow> nat \<Rightarrow> u32" where
  "schedule_word words i =
     (let s0 = rotate_right (words ! (i - 15)) 7 XOR rotate_right (words ! (i - 15)) 18 XOR drop_bit 3 (words ! (i - 15));
          s1 = rotate_right (words ! (i - 2)) 17 XOR rotate_right (words ! (i - 2)) 19 XOR drop_bit 10 (words ! (i - 2))
      in add_mod32 [words ! (i - 16), s0, words ! (i - 7), s1])"

definition message_schedule :: "bytes \<Rightarrow> u32 list" where
  "message_schedule block =
     fold (\<lambda>i words. words @ [schedule_word words i]) [16..<64] (map (block_word block) [0..<16])"

type_synonym sha_registers = "u32 \<times> u32 \<times> u32 \<times> u32 \<times> u32 \<times> u32 \<times> u32 \<times> u32"

fun sha_round :: "u32 \<Rightarrow> u32 \<Rightarrow> sha_registers \<Rightarrow> sha_registers" where
  "sha_round k w (a, b, c, d, e, f, g, h) =
     (let s1 = rotate_right e 6 XOR rotate_right e 11 XOR rotate_right e 25;
          chosen = (e AND f) XOR (NOT e AND g);
          temp1 = add_mod32 [h, s1, chosen, k, w];
          s0 = rotate_right a 2 XOR rotate_right a 13 XOR rotate_right a 22;
          majority = (a AND b) XOR (a AND c) XOR (b AND c);
          temp2 = add_mod32 [s0, majority]
      in (add_mod32 [temp1, temp2], a, b, c, add_mod32 [d, temp1], e, f, g))"

definition transform :: "bytes \<Rightarrow> u32 list \<Rightarrow> u32 list" where
  "transform block state =
     (let words = message_schedule block;
          (a, b, c, d, e, f, g, h) =
            fold (\<lambda>i. sha_round (sha_k ! i) (words ! i)) [0..<64]
              (state ! 0, state ! 1, state ! 2, state ! 3, state ! 4, state ! 5, state ! 6, state ! 7)
      in [add_mod32 [state ! 0, a], add_mod32 [state ! 1, b], add_mod32 [state ! 2, c], add_mod32 [state ! 3, d],
          add_mod32 [state ! 4, e], add_mod32 [state ! 5, f], add_mod32 [state ! 6, g], add_mod32 [state ! 7, h]])"

text \<open>\<open>transform(block_.data()); block_size_ = 0;\<close> once the block is full.\<close>

definition sha_flush :: "sha256 \<Rightarrow> sha256" where
  "sha_flush s =
     (if sh_block_size s = 64
      then s\<lparr>sh_state := transform (sh_block s) (sh_state s), sh_block_size := 0\<rparr> else s)"

definition sha_fill :: "bytes \<Rightarrow> sha256 \<Rightarrow> sha256" where
  "sha_fill chunk s =
     s\<lparr>sh_block := blit (sh_block_size s) chunk (sh_block s), sh_block_size := sh_block_size s + length chunk\<rparr>"

text \<open>The loop of \<open>update\<close>; \<open>block_size_ < 64\<close> holds before every iteration.\<close>

function update_loop :: "bytes \<Rightarrow> sha256 \<Rightarrow> sha256" where
  "update_loop data s =
     (if data = [] \<or> sh_block_size s \<ge> 64 then s
      else let available = 64 - sh_block_size s; chunk = min available (length data)
           in update_loop (drop chunk data) (sha_flush (sha_fill (take chunk data) s)))"
  by pat_completeness auto
termination
  by (relation "measure (\<lambda>(data, s). length data)") auto

declare update_loop.simps [simp del]

definition update :: "bytes \<Rightarrow> sha256 \<Rightarrow> sha256 result" where
  "update data s =
     (if sh_finalized s then throw ''SHA-256 context already finalized''
      else if length data > u64_max - unat (sh_total_bytes s) then throw ''SHA-256 input length overflow''
      else Inr (update_loop data (s\<lparr>sh_total_bytes := sh_total_bytes s + word_of_nat (length data)\<rparr>)))"

definition digest_bytes :: "u32 list \<Rightarrow> bytes" where
  "digest_bytes state =
     concat (map (\<lambda>w. [ucast (drop_bit 24 w), ucast (drop_bit 16 w), ucast (drop_bit 8 w), ucast w]) state)"

definition length_bytes :: "u64 \<Rightarrow> bytes" where
  "length_bytes bits = map (\<lambda>shift. ucast (drop_bit shift bits)) [56, 48, 40, 32, 24, 16, 8, 0]"

definition sha_final :: "sha256 \<Rightarrow> bytes result \<times> sha256" where
  "sha_final s =
     (if sh_finalized s then (Inr (sh_digest s), s)
      else if unat (sh_total_bytes s) > u64_max div 8
      then (throw ''SHA-256 input is too large to encode its bit length'', s)
      else let total_bits = sh_total_bytes s * 8;
               s = sha_fill [0x80] s;
               s = (if sh_block_size s > 56
                    then sha_flush (sha_fill (replicate (64 - sh_block_size s) 0) s) else s);
               s = sha_fill (replicate (56 - sh_block_size s) 0) s;
               s = sha_flush (sha_fill (length_bytes total_bits) s);
               s = s\<lparr>sh_digest := digest_bytes (sh_state s), sh_finalized := True\<rparr>
           in (Inr (sh_digest s), s))"

definition sha256_hash :: "bytes \<Rightarrow> bytes result" where
  "sha256_hash data = ebind (update data sha_reset) (\<lambda>s. fst (sha_final s))"

definition sha256_hex :: "bytes \<Rightarrow> string result" where
  "sha256_hex data = ebind (sha256_hash data) (\<lambda>digest. Inr (hex_encode digest))"

section \<open>The hash of a whole message\<close>

function chunks :: "bytes \<Rightarrow> bytes list" where
  "chunks data = (if length data < 64 then [] else take 64 data # chunks (drop 64 data))"
  by pat_completeness auto
termination
  by (relation "measure length") auto

declare chunks.simps [simp del]

definition padding :: "nat \<Rightarrow> bytes" where
  "padding n = 0x80 # replicate ((119 - n mod 64) mod 64) 0 @ length_bytes (word_of_nat (8 * n))"

definition compress_all :: "bytes \<Rightarrow> u32 list" where
  "compress_all data = fold transform (chunks data) sha_initial_state"

definition sha256_spec :: "bytes \<Rightarrow> bytes" where
  "sha256_spec message = digest_bytes (compress_all (message @ padding (length message)))"

section \<open>Streaming\<close>

lemma chunks_Nil [simp]: "chunks [] = []"
  by (simp add: chunks.simps)

lemma chunks_append: "length a mod 64 = 0 \<Longrightarrow> chunks (a @ b) = chunks a @ chunks b"
proof (induction "length a" arbitrary: a rule: less_induct)
  case less
  show ?case
  proof (cases "length a < 64")
    case True
    then have "a = []" using less.prems by auto
    then show ?thesis by simp
  next
    case False
    then have "length (drop 64 a) mod 64 = 0" using less.prems by (simp add: mod_if)
    then have "chunks (drop 64 a @ b) = chunks (drop 64 a) @ chunks b" using less.hyps False by simp
    then show ?thesis using False by (simp add: chunks.simps [of "a @ b"] chunks.simps [of a])
  qed
qed

lemma chunks_block: "length b = 64 \<Longrightarrow> chunks b = [b]"
  by (simp add: chunks.simps)

lemma compress_all_block:
  "length a mod 64 = 0 \<Longrightarrow> length b = 64 \<Longrightarrow> compress_all (a @ b) = transform b (compress_all a)"
  by (simp add: compress_all_def chunks_append chunks_block)

text \<open>The context has absorbed \<open>message\<close>: complete blocks in the state, the rest in the block.\<close>

definition absorbed :: "bytes \<Rightarrow> sha256 \<Rightarrow> bool" where
  "absorbed message s \<longleftrightarrow>
     length (sh_block s) = 64 \<and> sh_block_size s < 64 \<and> \<not> sh_finalized s \<and>
     (\<exists>full. message = full @ take (sh_block_size s) (sh_block s) \<and> length full mod 64 = 0 \<and>
             sh_state s = compress_all full)"

lemma absorbed_reset: "absorbed [] sha_reset"
  by (simp add: absorbed_def sha_reset_def compress_all_def)

lemma absorbed_length: "absorbed message s \<Longrightarrow> sh_block_size s = length message mod 64"
  by (auto simp: absorbed_def mod_add_eq [symmetric] mod_simps)

lemma absorbed_total [simp]: "absorbed message (s\<lparr>sh_total_bytes := n\<rparr>) = absorbed message s"
  by (simp add: absorbed_def)

lemma absorbed_step:
  assumes "absorbed message s" and "sh_block_size s + length chunk \<le> 64"
  shows "absorbed (message @ chunk) (sha_flush (sha_fill chunk s))"
proof -
  obtain full where len: "length (sh_block s) = 64" and used: "sh_block_size s < 64" and live: "\<not> sh_finalized s"
    and m: "message = full @ take (sh_block_size s) (sh_block s)" "length full mod 64 = 0"
      "sh_state s = compress_all full"
    using assms(1) by (auto simp: absorbed_def)
  let ?block = "blit (sh_block_size s) chunk (sh_block s)" and ?used = "sh_block_size s + length chunk"
  have block: "length ?block = 64" "take ?used ?block = take (sh_block_size s) (sh_block s) @ chunk"
    using len assms(2) by (simp_all add: blit_def)
  show ?thesis
  proof (cases "?used = 64")
    case True
    then have full: "?block = take (sh_block_size s) (sh_block s) @ chunk"
      using block by (metis order_refl take_all)
    have "compress_all (full @ ?block) = transform ?block (compress_all full)"
      by (rule compress_all_block [OF m(2) block(1)])
    moreover have "message @ chunk = (full @ ?block) @ []" using m(1) full by simp
    moreover have "length (full @ ?block) mod 64 = 0" using m(2) block(1) by simp
    ultimately show ?thesis
      using True live m(3) block(1) by (auto simp: absorbed_def sha_flush_def sha_fill_def)
  next
    case False
    then show ?thesis
      using assms(2) live m block by (auto simp: absorbed_def sha_flush_def sha_fill_def)
  qed
qed

lemma update_loop_absorbs: "absorbed message s \<Longrightarrow> absorbed (message @ data) (update_loop data s)"
proof (induction data s arbitrary: message rule: update_loop.induct)
  case (1 data s)
  have used: "sh_block_size s < 64" using "1.prems" by (simp add: absorbed_def)
  show ?case
  proof (cases "data = []")
    case False
    let ?c = "min (64 - sh_block_size s) (length data)"
    have "absorbed (message @ take ?c data) (sha_flush (sha_fill (take ?c data) s))"
      by (rule absorbed_step [OF "1.prems"]) (use used in auto)
    from "1.IH" [OF _ refl refl this] show ?thesis
      using False used by (subst update_loop.simps) (simp add: Let_def)
  qed (use "1.prems" in \<open>simp add: update_loop.simps\<close>)
qed

lemma sha_flush_fill_total [simp]: "sh_total_bytes (sha_flush (sha_fill chunk s)) = sh_total_bytes s"
  by (simp add: sha_flush_def sha_fill_def)

lemma update_loop_total [simp]: "sh_total_bytes (update_loop data s) = sh_total_bytes s"
proof (induction data s rule: update_loop.induct)
  case (1 data s)
  then show ?case by (subst update_loop.simps) (simp add: Let_def)
qed

text \<open>The context after \<open>message\<close>, with its length counted.\<close>

definition sha_after :: "bytes \<Rightarrow> sha256 \<Rightarrow> bool" where
  "sha_after message s \<longleftrightarrow> absorbed message s \<and> unat (sh_total_bytes s) = length message"

lemma sha_after_reset: "sha_after [] sha_reset"
  using absorbed_reset by (simp add: sha_after_def sha_reset_def)

lemma update_after:
  assumes "sha_after message s" and "length (message @ data) < 2 ^ 64"
  obtains s' where "update data s = Inr s'" and "sha_after (message @ data) s'"
proof
  let ?s = "s\<lparr>sh_total_bytes := sh_total_bytes s + word_of_nat (length data)\<rparr>"
  have n: "unat (sh_total_bytes s) = length message" and live: "\<not> sh_finalized s"
    using assms(1) by (auto simp: sha_after_def absorbed_def)
  have "unat (word_of_nat (length data) :: u64) = length data"
    using assms(2) by (simp add: unat_of_nat_nowrap)
  then have "unat (sh_total_bytes s + word_of_nat (length data)) = length (message @ data)"
    using assms(2) n by (simp add: unat_add_nowrap)
  then show "sha_after (message @ data) (update_loop data ?s)"
    using update_loop_absorbs [of message ?s data] assms(1) by (simp add: sha_after_def)
  show "update data s = Inr (update_loop data ?s)"
    using live n assms(2) by (simp add: update_def u64_max_def)
qed

lemma sha_fill_fill:
  "length (sh_block s) = 64 \<Longrightarrow> sh_block_size s + length a + length b \<le> 64 \<Longrightarrow>
     sha_fill b (sha_fill a s) = sha_fill (a @ b) s"
  by (simp add: sha_fill_def blit_def ac_simps)

lemma sha_fill_size [simp]: "sh_block_size (sha_fill a s) = sh_block_size s + length a"
  by (simp add: sha_fill_def)

lemma length_length_bytes [simp]: "length (length_bytes n) = 8"
  by (simp add: length_bytes_def)

lemma padding_split:
  "padding n = (0x80 # replicate (63 - n mod 64) 0) @ replicate 56 0 @ length_bytes (word_of_nat (8 * n))"
  if "56 \<le> n mod 64"
proof -
  have "119 - n mod 64 = (63 - n mod 64) + 56" "119 - n mod 64 < 64"
    using that mod_less_divisor [of 64 n] by linarith+
  then have "(119 - n mod 64) mod 64 = (63 - n mod 64) + 56" by (metis mod_less)
  then show ?thesis unfolding padding_def by (simp only: replicate_add append.assoc append_Cons)
qed

lemma padding_short:
  "padding n = 0x80 # replicate (55 - n mod 64) 0 @ length_bytes (word_of_nat (8 * n))"
  if "n mod 64 < 56"
proof -
  have "119 - n mod 64 = (55 - n mod 64) + 64" "55 - n mod 64 < 64" using that by linarith+
  then have "(119 - n mod 64) mod 64 = 55 - n mod 64" by (metis mod_add_self2 mod_less)
  then show ?thesis by (simp add: padding_def)
qed

text \<open>The padded message fills the last block whichever branch \<open>final\<close> takes.\<close>

lemma final_absorbs:
  assumes "absorbed message s"
  defines "s1 \<equiv> sha_fill [0x80] s"
  defines "s2 \<equiv> if sh_block_size s1 > 56 then sha_flush (sha_fill (replicate (64 - sh_block_size s1) 0) s1) else s1"
  defines "s3 \<equiv> sha_fill (replicate (56 - sh_block_size s2) 0) s2"
  shows "absorbed (message @ padding (length message))
           (sha_flush (sha_fill (length_bytes (word_of_nat (8 * length message))) s3))"
proof -
  let ?n = "length message" and ?len = "length_bytes (word_of_nat (8 * length message))"
  have used: "sh_block_size s = ?n mod 64" "?n mod 64 < 64" and block: "length (sh_block s) = 64"
    using absorbed_length [OF assms(1)] assms(1) by (auto simp: absorbed_def)
  show ?thesis
  proof (cases "56 \<le> ?n mod 64")
    case True
    let ?p = "0x80 # replicate (63 - ?n mod 64) 0 :: bytes"
    have s2: "s2 = sha_flush (sha_fill ?p s)"
      using True used block by (simp add: s2_def s1_def sha_fill_fill)
    have a2: "absorbed (message @ ?p) s2" unfolding s2 by (rule absorbed_step [OF assms(1)]) (use used True in auto)
    have "length (message @ ?p) = ?n + 64 - ?n mod 64" using used(2) by simp
    then have "length (message @ ?p) = 64 * (?n div 64) + 64"
      using mult_div_mod_eq [of 64 ?n] used(2) by linarith
    then have "length (message @ ?p) mod 64 = 0" by simp
    then have used2: "sh_block_size s2 = 0" "length (sh_block s2) = 64"
      using a2 absorbed_length [OF a2] by (auto simp: absorbed_def)
    have "absorbed ((message @ ?p) @ (replicate 56 0 @ ?len)) (sha_flush (sha_fill (replicate 56 0 @ ?len) s2))"
      by (rule absorbed_step [OF a2]) (simp add: used2)
    then show ?thesis
      using padding_split [OF True] used2 by (simp add: s3_def sha_fill_fill)
  next
    case False
    then have s2: "s2 = s1" using used by (simp add: s2_def s1_def)
    have "absorbed (message @ padding ?n) (sha_flush (sha_fill (padding ?n) s))"
      by (rule absorbed_step [OF assms(1)]) (use used False in \<open>simp add: padding_short\<close>)
    moreover have "sha_fill ?len s3 = sha_fill (padding ?n) s"
      using used False block by (simp add: s3_def s2 s1_def sha_fill_fill padding_short)
    ultimately show ?thesis by simp
  qed
qed

lemma length_padding: "(n + length (padding n)) mod 64 = 0"
proof (cases "56 \<le> n mod 64")
  case True
  then have "n + length (padding n) = n + (64 - n mod 64) + 64" by (simp add: padding_split)
  also have "\<dots> = 64 * (n div 64) + 128" using mult_div_mod_eq [of 64 n] mod_less_divisor [of 64 n] by linarith
  finally show ?thesis by simp
next
  case False
  then have "n + length (padding n) = n + (64 - n mod 64)" by (simp add: padding_short)
  also have "\<dots> = 64 * (n div 64) + 64" using mult_div_mod_eq [of 64 n] mod_less_divisor [of 64 n] by linarith
  finally show ?thesis by simp
qed

lemma final_after:
  assumes "sha_after message s" and "8 * length message < 2 ^ 64"
  shows "fst (sha_final s) = Inr (sha256_spec message)"
proof -
  have live: "\<not> sh_finalized s" and n: "unat (sh_total_bytes s) = length message" and a: "absorbed message s"
    using assms(1) by (auto simp: sha_after_def absorbed_def)
  have bits: "sh_total_bytes s * 8 = word_of_nat (8 * length message)"
    by (simp add: mult.commute flip: n)
  have fits: "\<not> unat (sh_total_bytes s) > u64_max div 8" using n assms(2) by (simp add: u64_max_def)
  note end_state = final_absorbs [OF a]
  have "sh_state t = compress_all (message @ padding (length message))"
    if "absorbed (message @ padding (length message)) t" for t
    using that absorbed_length [OF that] length_padding [of "length message"] by (auto simp: absorbed_def)
  from this [OF end_state] show ?thesis
    using live fits by (simp add: sha_final_def Let_def bits sha256_spec_def)
qed

lemma sha256_hash_eq: "8 * length data < 2 ^ 64 \<Longrightarrow> sha256_hash data = Inr (sha256_spec data)"
proof -
  assume n: "8 * length data < 2 ^ 64"
  obtain s where "update data sha_reset = Inr s" "sha_after data s"
    using update_after [OF sha_after_reset, of data] n by auto
  then show ?thesis using final_after n by (simp add: sha256_hash_def)
qed

lemma length_digest_bytes: "length (digest_bytes st) = 4 * length st"
  by (induction st) (simp_all add: digest_bytes_def)

lemma length_transform [simp]: "length (transform b st) = 8"
  by (simp add: transform_def Let_def split: prod.splits)

lemma length_compress_all [simp]: "length (compress_all data) = 8"
proof -
  have "length st = 8 \<Longrightarrow> length (fold transform bs st) = 8" for bs and st :: "u32 list"
    by (induction bs arbitrary: st) simp_all
  then show ?thesis by (simp add: compress_all_def sha_initial_state_def)
qed

lemma length_sha256_spec [simp]: "length (sha256_spec data) = 32"
  by (simp add: sha256_spec_def length_digest_bytes)

lemma updates_after:
  "sha_after message s \<Longrightarrow> length (message @ concat pieces) < 2 ^ 64 \<Longrightarrow>
     \<exists>s'. foldl (\<lambda>r piece. ebind r (update piece)) (Inr s) pieces = Inr s' \<and> sha_after (message @ concat pieces) s'"
proof (induction pieces arbitrary: message s)
  case (Cons p ps)
  obtain s1 where "update p s = Inr s1" "sha_after (message @ p) s1"
    using update_after [OF Cons.prems(1), of p] Cons.prems(2) by auto
  then show ?case using Cons.IH [of "message @ p" s1] Cons.prems(2) by simp
qed simp

text \<open>
  C34: Streaming SHA-256 computes SHA-256. However a message of less than \<open>2\<^sup>6\<^sup>4\<close> bits is cut into
  pieces, feeding the pieces to \<open>update\<close> and finalising succeeds and yields the digest of the whole
  padded message, 32 bytes long.
\<close>

theorem sha256_streaming:
  assumes "8 * length (concat pieces) < 2 ^ 64"
  shows "ebind (foldl (\<lambda>r piece. ebind r (update piece)) (Inr sha_reset) pieces) (\<lambda>s. fst (sha_final s)) =
           Inr (sha256_spec (concat pieces)) \<and> length (sha256_spec (concat pieces)) = 32"
  using updates_after [OF sha_after_reset, of pieces] assms final_after by fastforce

theorem sha256_streaming_witness:
  "ebind (foldl (\<lambda>r piece. ebind r (update piece)) (Inr sha_reset) [[97], [98, 99]]) (\<lambda>s. fst (sha_final s)) =
     Inr (sha256_spec [97, 98, 99])"
  using sha256_streaming [of "[[97], [98, 99]]"] by simp

end
