(* ===== verification/Zenpkg_Archive.thy ===== *)
theory Zenpkg_Archive
  imports Zenpkg_Manifest Sha256 "HOL-Library.Multiset"
begin

text \<open>
  \<open>tools/zenpkg/archive.hpp\<close>: the package container (a 128-byte header with three SHA-256 digests,
  the canonical manifest and the payload), packing and unpacking, and the repository index. Packing
  and parsing are inverse in both directions.
\<close>

section \<open>Packages\<close>

definition package_magic :: bytes where
  "package_magic = bytes_of_string ''ZENPKG1'' @ [0]"

definition package_version :: u32 where "package_version = 1"
definition package_header_size :: nat where "package_header_size = 128"
definition max_manifest_size :: nat where "max_manifest_size = 64 * 1024"
definition max_payload_size :: nat where "max_payload_size = 4 * 1024 * 1024 * 1024"

record package =
  pk_manifest :: manifest
  pk_manifest_text :: string
  pk_payload :: bytes
  pk_manifest_digest :: bytes
  pk_payload_digest :: bytes
  pk_package_digest_hex :: string

definition build_package_bytes :: "manifest \<Rightarrow> bytes \<Rightarrow> bytes result" where
  "build_package_bytes m payload =
     ebind (validate_manifest m (length payload)) (\<lambda>_.
     let canonical = canonical_manifest m in
     throw_if (length canonical > max_manifest_size) ''manifest exceeds package limit'' (
     throw_if (length payload > max_payload_size) ''payload exceeds package limit'' (
     ebind (sha256_hash (bytes_of_string canonical)) (\<lambda>manifest_digest.
     ebind (sha256_hash payload) (\<lambda>payload_digest.
     let output = package_magic;
         output = append_u32_le output package_version;
         output = append_u32_le output 0;
         output = append_u64_le output (word_of_nat (length canonical));
         output = append_u64_le output (word_of_nat (length payload));
         output = output @ manifest_digest @ payload_digest
     in ebind (sha256_hash output) (\<lambda>header_digest.
        let output = output @ header_digest
        in throw_if (length output \<noteq> package_header_size) ''internal package header size mismatch''
             (Inr (output @ bytes_of_string canonical @ payload))))))))"

definition pack_to_file :: "string \<Rightarrow> string \<Rightarrow> string \<Rightarrow> host \<Rightarrow> unit result \<times> host" where
  "pack_to_file manifest_path payload_path output_path h =
     (case ebind (if payload_path = ''-'' then Inr [] else read_binary h payload_path) (\<lambda>payload.
           ebind (read_text h manifest_path) (\<lambda>input.
           ebind (parse_and_validate_manifest input (length payload)) (\<lambda>m.
           build_package_bytes m payload))) of
        Inl e \<Rightarrow> (Inl e, h)
      | Inr package \<Rightarrow> write_binary_atomic output_path package h)"

definition parse_package_bytes :: "bytes \<Rightarrow> package result" where
  "parse_package_bytes data =
     throw_if (length data < package_header_size) ''package is smaller than the fixed header'' (
     throw_if (take 8 data \<noteq> package_magic) ''invalid package magic'' (
     ebind (read_u32_le data 8) (\<lambda>version.
     ebind (read_u32_le data 12) (\<lambda>flags.
     ebind (read_u64_le data 16) (\<lambda>manifest_size.
     ebind (read_u64_le data 24) (\<lambda>payload_size.
     throw_if (version \<noteq> package_version) (''unsupported package version: '' @ show_nat (unat version)) (
     throw_if (flags \<noteq> 0) ''unsupported package flags'' (
     throw_if (unat manifest_size > max_manifest_size) ''manifest size exceeds package limit'' (
     throw_if (unat payload_size > max_payload_size) ''payload size exceeds package limit'' (
     throw_if (unat manifest_size > u64_max \<or> unat payload_size > u64_max) ''package sizes exceed host address space'' (
     let expected_size = word_of_nat package_header_size + manifest_size + payload_size in
     throw_if (unat expected_size \<noteq> length data) ''package length does not match header sizes'' (
     let expected_manifest = take 32 (drop 32 data);
         expected_payload = take 32 (drop 64 data);
         expected_header = take 32 (drop 96 data)
     in ebind (sha256_hash (take 96 data)) (\<lambda>header.
     throw_if (header \<noteq> expected_header) ''package header checksum mismatch'' (
     let manifest_text = string_of_bytes (take (unat manifest_size) (drop package_header_size data));
         payload = drop (package_header_size + unat manifest_size) data
     in ebind (sha256_hash (bytes_of_string manifest_text)) (\<lambda>actual_manifest.
     ebind (sha256_hash payload) (\<lambda>actual_payload.
     throw_if (actual_manifest \<noteq> expected_manifest) ''manifest SHA-256 mismatch'' (
     throw_if (actual_payload \<noteq> expected_payload) ''payload SHA-256 mismatch'' (
     ebind (parse_and_validate_manifest manifest_text (length payload)) (\<lambda>m.
     throw_if (canonical_manifest m \<noteq> manifest_text) ''manifest is not in canonical form'' (
     ebind (sha256_hex data) (\<lambda>digest_hex.
     Inr \<lparr>pk_manifest = m, pk_manifest_text = manifest_text, pk_payload = payload,
          pk_manifest_digest = actual_manifest, pk_payload_digest = actual_payload,
          pk_package_digest_hex = digest_hex\<rparr>)))))))))))))))))))))"

definition read_package :: "host \<Rightarrow> string \<Rightarrow> package result" where
  "read_package h path = ebind (read_binary h path) parse_package_bytes"

definition extract_package :: "string \<Rightarrow> string \<Rightarrow> string \<Rightarrow> host \<Rightarrow> unit result \<times> host" where
  "extract_package package_path manifest_output payload_output h =
     (case read_package h package_path of
        Inl e \<Rightarrow> (Inl e, h)
      | Inr p \<Rightarrow>
          (let (r, h) = write_text_atomic manifest_output (pk_manifest_text p) h
           in case r of Inl e \<Rightarrow> (Inl e, h) | Inr _ \<Rightarrow> write_binary_atomic payload_output (pk_payload p) h))"

section \<open>The repository index\<close>

record index_record =
  ir_name :: string
  ir_version :: string
  ir_architecture :: string
  ir_target :: string
  ir_kind :: string
  ir_runtime :: string
  ir_file :: string
  ir_bytes :: nat
  ir_sha256 :: string

definition package_filename_ok :: "string \<Rightarrow> bool" where
  "package_filename_ok filename \<longleftrightarrow>
     is_printable_text filename 128 \<and> length filename > 4 \<and> drop (length filename - 4) filename = ''.zpk'' \<and>
     list_all (\<lambda>ch. isalnum ch \<or> ch = CHR ''.'' \<or> ch = CHR ''-'' \<or> ch = CHR ''_'') filename"

definition package_identity :: "manifest \<Rightarrow> string" where
  "package_identity m = m_name m @ ''@'' @ m_version m @ ''#'' @ m_target m"

primrec scan_files :: "host \<Rightarrow> string list \<Rightarrow> string set \<Rightarrow> index_record list result" where
  "scan_files h [] identities = Inr []"
| "scan_files h (path # rest) identities =
     (let filename = path_filename path in
      throw_if (\<not> package_filename_ok filename) (''unsafe package filename in repository: '' @ filename) (
      ebind (read_binary h path) (\<lambda>data.
      ebind (parse_package_bytes data) (\<lambda>p.
      let m = pk_manifest p; identity = package_identity m in
      throw_if (identity \<in> identities) (''duplicate package identity in index: '' @ identity) (
      ebind (scan_files h rest (insert identity identities)) (\<lambda>records.
      Inr (\<lparr>ir_name = m_name m, ir_version = m_version m, ir_architecture = m_architecture m,
            ir_target = m_target m, ir_kind = m_kind m, ir_runtime = m_runtime m, ir_file = filename,
            ir_bytes = length data, ir_sha256 = pk_package_digest_hex p\<rparr> # records)))))))"

definition index_key :: "index_record \<Rightarrow> string list" where
  "index_key r = [ir_name r, ir_version r, ir_target r]"

definition scan_packages :: "host \<Rightarrow> string \<Rightarrow> index_record list result" where
  "scan_packages h directory =
     throw_if (host_lookup h directory \<noteq> Some Folder) (''index input is not a directory: '' @ directory) (
     let files = sort (filter (\<lambda>path. path_extension path = ''.zpk'') (host_regular_files directory h))
     in ebind (scan_files h files {}) (\<lambda>records. Inr (sort_key index_key records)))"

definition tab :: string where "tab = [CHR 0x09]"

definition render_record :: "index_record \<Rightarrow> string" where
  "render_record r =
     ''package='' @ ir_name r @ tab @ ir_version r @ tab @ ir_architecture r @ tab @ ir_target r @ tab @
     ir_kind r @ tab @ ir_runtime r @ tab @ ir_file r @ tab @ show_nat (ir_bytes r) @ tab @ ir_sha256 r @ [newline]"

definition render_index :: "index_record list \<Rightarrow> string" where
  "render_index records =
     ''format=zenpkg-index-1'' @ [newline] @
     ''columns=name'' @ tab @ ''version'' @ tab @ ''architecture'' @ tab @ ''target'' @ tab @ ''kind'' @ tab @
     ''runtime'' @ tab @ ''file'' @ tab @ ''bytes'' @ tab @ ''sha256'' @ [newline] @
     concat (map render_record records)"

definition build_index :: "string \<Rightarrow> string \<Rightarrow> host \<Rightarrow> unit result \<times> host" where
  "build_index directory output_path h =
     (case scan_packages h directory of
        Inl e \<Rightarrow> (Inl e, h)
      | Inr records \<Rightarrow> write_text_atomic output_path (render_index records) h)"

section \<open>Packing and parsing\<close>

lemma length_package_magic [simp]: "length package_magic = 8"
  by (simp add: package_magic_def)

definition package_header :: "manifest \<Rightarrow> bytes \<Rightarrow> bytes" where
  "package_header m payload =
     package_magic @ le_bytes 4 package_version @ le_bytes 4 (0 :: u32) @
     le_bytes 8 (word_of_nat (length (canonical_manifest m)) :: u64) @
     le_bytes 8 (word_of_nat (length payload) :: u64) @
     sha256_spec (bytes_of_string (canonical_manifest m)) @ sha256_spec payload"

lemma length_package_header [simp]: "length (package_header m payload) = 96"
  by (simp add: package_header_def)

definition package_limits :: "manifest \<Rightarrow> bytes \<Rightarrow> bool" where
  "package_limits m payload \<longleftrightarrow>
     length (canonical_manifest m) \<le> max_manifest_size \<and> length payload \<le> max_payload_size"

definition package_bytes :: "manifest \<Rightarrow> bytes \<Rightarrow> bytes" where
  "package_bytes m payload =
     package_header m payload @ sha256_spec (package_header m payload) @
     bytes_of_string (canonical_manifest m) @ payload"

lemma build_package_iff:
  "build_package_bytes m payload = Inr data \<longleftrightarrow>
     validate_manifest m (length payload) = Inr () \<and> package_limits m payload \<and> data = package_bytes m payload"
proof -
  have h: "sha256_hash (bytes_of_string (canonical_manifest m)) = Inr (sha256_spec (bytes_of_string (canonical_manifest m)))"
      "sha256_hash payload = Inr (sha256_spec payload)" if "package_limits m payload"
    using that by (simp_all add: sha256_hash_eq package_limits_def max_manifest_size_def max_payload_size_def)
  have hh: "sha256_hash (package_header m payload) = Inr (sha256_spec (package_header m payload))"
    by (rule sha256_hash_eq) simp
  show ?thesis
    unfolding build_package_bytes_def Let_def append_u32_le_bytes append_u64_le_bytes ebind_eq_Inr throw_if_eq_Inr
    using h hh
    by (auto simp: package_limits_def package_header_def package_bytes_def package_header_size_def not_less)
qed

lemma unat_size: "n \<le> max_payload_size \<Longrightarrow> unat (word_of_nat n :: u64) = n"
  by (rule unat_of_nat_nowrap) (simp add: max_payload_size_def)

lemma limits_unat:
  assumes "package_limits m payload"
  shows "unat (word_of_nat (length (canonical_manifest m)) :: u64) = length (canonical_manifest m)"
    "unat (word_of_nat (length payload) :: u64) = length payload"
    "unat (word_of_nat package_header_size + word_of_nat (length (canonical_manifest m)) + word_of_nat (length payload) :: u64)
       = length (package_bytes m payload)"
proof -
  have b: "length (canonical_manifest m) \<le> max_payload_size" "length payload \<le> max_payload_size"
    "length (canonical_manifest m) \<le> 65536"
    using assms by (auto simp: package_limits_def max_manifest_size_def max_payload_size_def)
  show u: "unat (word_of_nat (length (canonical_manifest m)) :: u64) = length (canonical_manifest m)"
    "unat (word_of_nat (length payload) :: u64) = length payload"
    using b by (simp_all add: unat_size)
  have "unat (word_of_nat (package_header_size + length (canonical_manifest m) + length payload) :: u64) =
      package_header_size + length (canonical_manifest m) + length payload"
    using b by (intro unat_of_nat_nowrap) (simp add: package_header_size_def max_payload_size_def)
  then show "unat (word_of_nat package_header_size + word_of_nat (length (canonical_manifest m)) + word_of_nat (length payload) :: u64)
       = length (package_bytes m payload)"
    by (simp add: package_bytes_def package_header_size_def)
qed

lemma package_fields:
  fixes m payload
  defines "h \<equiv> package_header m payload"
  defines "d \<equiv> package_bytes m payload"
  shows "take 8 d = package_magic" "le_word (take 4 (drop 8 d)) = package_version"
    "le_word (take 4 (drop 12 d)) = (0 :: u32)"
    "le_word (take 8 (drop 16 d)) = (word_of_nat (length (canonical_manifest m)) :: u64)"
    "le_word (take 8 (drop 24 d)) = (word_of_nat (length payload) :: u64)"
    "take 32 (drop 32 d) = sha256_spec (bytes_of_string (canonical_manifest m))"
    "take 32 (drop 64 d) = sha256_spec payload" "take 96 d = h" "take 32 (drop 96 d) = sha256_spec h"
    "drop 128 d = bytes_of_string (canonical_manifest m) @ payload" "128 \<le> length d"
  by (simp_all add: d_def h_def package_bytes_def)
    (simp_all add: package_header_def)

lemma package_reads:
  assumes "128 \<le> length d"
  shows "read_u32_le d 8 = Inr (le_word (take 4 (drop 8 d)))" "read_u32_le d 12 = Inr (le_word (take 4 (drop 12 d)))"
    "read_u64_le d 16 = Inr (le_word (take 8 (drop 16 d)))" "read_u64_le d 24 = Inr (le_word (take 8 (drop 24 d)))"
  using assms by (simp_all add: read_u32_le_word read_u64_le_word)

definition package_of :: "manifest \<Rightarrow> bytes \<Rightarrow> package" where
  "package_of m payload =
     \<lparr>pk_manifest = sorted_manifest m, pk_manifest_text = canonical_manifest m, pk_payload = payload,
      pk_manifest_digest = sha256_spec (bytes_of_string (canonical_manifest m)),
      pk_payload_digest = sha256_spec payload,
      pk_package_digest_hex = hex_encode (sha256_spec (package_bytes m payload))\<rparr>"

lemma package_length: "package_limits m payload \<Longrightarrow> 8 * length (package_bytes m payload) < 2 ^ 64"
  by (simp add: package_bytes_def package_limits_def max_manifest_size_def max_payload_size_def)

lemma parse_package_built:
  assumes "validate_manifest m (length payload) = Inr ()" and "plain_manifest m" and lim: "package_limits m payload"
  shows "parse_package_bytes (package_bytes m payload) = Inr (package_of m payload)"
proof -
  define d where "d = package_bytes m payload"
  note f = package_fields [of m payload, folded d_def]
  note r = package_reads [OF f(11)]
  note u = limits_unat [OF lim, folded d_def]
  have lims: "length (canonical_manifest m) \<le> max_manifest_size" "length payload \<le> max_payload_size"
    "length (canonical_manifest m) \<le> u64_max" "length payload \<le> u64_max"
    using lim by (auto simp: package_limits_def max_manifest_size_def max_payload_size_def u64_max_def)
  have h: "sha256_hash (take 96 d) = Inr (sha256_spec (take 96 d))"
      "sha256_hash (bytes_of_string (canonical_manifest m)) = Inr (sha256_spec (bytes_of_string (canonical_manifest m)))"
      "sha256_hash payload = Inr (sha256_spec payload)" "sha256_hash d = Inr (sha256_spec d)"
    using lims package_length [OF lim, folded d_def]
    by (simp_all add: sha256_hash_eq max_manifest_size_def max_payload_size_def)
  have rest: "take (length (canonical_manifest m)) (drop 128 d) = bytes_of_string (canonical_manifest m)"
    "drop (128 + length (canonical_manifest m)) d = payload"
    using f(10) drop_drop [of "length (canonical_manifest m)" 128 d] by (simp_all add: add.commute)
  have size: "length d - (128 + length (canonical_manifest m)) = length payload"
    using arg_cong [OF rest(2), of length] by simp
  have pm: "parse_and_validate_manifest (canonical_manifest m) (length payload) = Inr (sorted_manifest m)"
    by (rule canonical_parse_and_validate [OF assms(1,2)])
  show ?thesis
    unfolding parse_package_bytes_def d_def [symmetric]
    using f(11) lims u h rest size pm canonical_sorted [of m]
    by (simp add: package_header_size_def r f(1-9) Let_def not_less sha256_hex_def package_of_def d_def [symmetric])
qed

lemma take_sum: "take (i + j) xs = take i xs @ take j (drop i xs)"
  by (simp add: take_add)

lemma header_split:
  "take 96 d = take 8 d @ take 4 (drop 8 d) @ take 4 (drop 12 d) @ take 8 (drop 16 d) @ take 8 (drop 24 d) @
     take 32 (drop 32 d) @ take 32 (drop 64 d)"
  using take_sum [of 8 88 d] take_sum [of 4 84 "drop 8 d"] take_sum [of 4 80 "drop 12 d"] take_sum [of 8 72 "drop 16 d"]
    take_sum [of 8 64 "drop 24 d"] take_sum [of 32 32 "drop 32 d"] by simp

lemma le_bytes_word_take:
  "length (take n (drop k d)) = n \<Longrightarrow> 8 * n \<le> LENGTH('a) \<Longrightarrow>
     le_bytes n (le_word (take n (drop k d)) :: 'a::len word) = take n (drop k d)"
  by (metis le_bytes_le_word)

lemma parse_package_bytes_elim:
  assumes "parse_package_bytes d = Inr p"
  obtains ms ps :: u64 where "128 \<le> length d" and "take 8 d = package_magic"
    and "le_word (take 4 (drop 8 d)) = package_version" and "le_word (take 4 (drop 12 d)) = (0 :: u32)"
    and "ms = le_word (take 8 (drop 16 d))" and "ps = le_word (take 8 (drop 24 d))"
    and "unat ms \<le> max_manifest_size" and "unat ps \<le> max_payload_size"
    and "unat (128 + ms + ps) = length d"
    and "sha256_hash (take 96 d) = Inr (take 32 (drop 96 d))"
    and "pk_manifest_text p = string_of_bytes (take (unat ms) (drop 128 d))"
    and "pk_payload p = drop (128 + unat ms) d"
    and "sha256_hash (bytes_of_string (pk_manifest_text p)) = Inr (take 32 (drop 32 d))"
    and "sha256_hash (pk_payload p) = Inr (take 32 (drop 64 d))"
    and "parse_and_validate_manifest (pk_manifest_text p) (length (pk_payload p)) = Inr (pk_manifest p)"
    and "canonical_manifest (pk_manifest p) = pk_manifest_text p"
    and "sha256_hex d = Inr (pk_package_digest_hex p)"
proof -
  have len: "128 \<le> length d"
    using assms by (auto simp: parse_package_bytes_def throw_if_eq_Inr package_header_size_def)
  show ?thesis
    using assms that [OF len, of "le_word (take 8 (drop 16 d))" "le_word (take 8 (drop 24 d))"]
    unfolding parse_package_bytes_def package_reads [OF len] ebind_Inr Let_def throw_if_eq_Inr ebind_eq_Inr
    by (auto simp: package_header_size_def not_less add.assoc)
qed

lemma parse_package_rebuilds:
  assumes "parse_package_bytes d = Inr p"
  shows "build_package_bytes (pk_manifest p) (pk_payload p) = Inr d"
proof -
  obtain ms ps :: u64 where len: "128 \<le> length d" and magic: "take 8 d = package_magic"
    and ver: "le_word (take 4 (drop 8 d)) = package_version" "le_word (take 4 (drop 12 d)) = (0 :: u32)"
    and sizes: "ms = le_word (take 8 (drop 16 d))" "ps = le_word (take 8 (drop 24 d))"
      "unat ms \<le> max_manifest_size" "unat ps \<le> max_payload_size" "unat (128 + ms + ps) = length d"
    and hd: "sha256_hash (take 96 d) = Inr (take 32 (drop 96 d))"
    and parts: "pk_manifest_text p = string_of_bytes (take (unat ms) (drop 128 d))" "pk_payload p = drop (128 + unat ms) d"
    and dig: "sha256_hash (bytes_of_string (pk_manifest_text p)) = Inr (take 32 (drop 32 d))"
      "sha256_hash (pk_payload p) = Inr (take 32 (drop 64 d))"
    and pm: "parse_and_validate_manifest (pk_manifest_text p) (length (pk_payload p)) = Inr (pk_manifest p)"
      "canonical_manifest (pk_manifest p) = pk_manifest_text p"
    using assms by (rule parse_package_bytes_elim)
  have "unat (word_of_nat (128 + unat ms + unat ps) :: u64) = 128 + unat ms + unat ps"
    using sizes(3,4) by (intro unat_of_nat_nowrap) (simp add: max_manifest_size_def max_payload_size_def)
  then have total_len: "length d = 128 + unat ms + unat ps" using sizes(5) by simp
  then have lens: "length (pk_manifest_text p) = unat ms" "length (pk_payload p) = unat ps"
    by (simp_all add: parts)
  have lim: "package_limits (pk_manifest p) (pk_payload p)"
    using sizes(3,4) lens pm(2) by (simp add: package_limits_def)
  have specs: "sha256_spec (bytes_of_string (pk_manifest_text p)) = take 32 (drop 32 d)"
      "sha256_spec (pk_payload p) = take 32 (drop 64 d)" "sha256_spec (take 96 d) = take 32 (drop 96 d)"
    using dig hd sizes(3,4) lens len
    by (simp_all add: sha256_hash_eq max_manifest_size_def max_payload_size_def)
  have header: "package_header (pk_manifest p) (pk_payload p) = take 96 d"
    unfolding package_header_def header_split pm(2) specs lens magic [symmetric] ver [symmetric]
    using len by (simp add: le_bytes_word_take sizes(1,2))
  have "package_bytes (pk_manifest p) (pk_payload p) = take 96 d @ take 32 (drop 96 d) @ drop 128 d"
    unfolding package_bytes_def header specs pm(2)
    using parts append_take_drop_id [of "unat ms" "drop 128 d"] by (simp add: add.commute)
  also have "\<dots> = d"
    using append_take_drop_id [of 32 "drop 96 d"] by simp
  finally show ?thesis
    using parse_validated [OF pm(1)] lim by (simp add: build_package_iff)
qed

lemma parse_package_payload:
  assumes "parse_package_bytes data = Inr p" and "build_package_bytes m payload = Inr data"
  shows "pk_payload p = payload"
proof -
  have d: "data = package_bytes m payload" and lim: "package_limits m payload"
    using assms(2) by (auto simp: build_package_iff)
  obtain ms :: u64 where "ms = le_word (take 8 (drop 16 data))" "pk_payload p = drop (128 + unat ms) data"
    using assms(1) by (rule parse_package_bytes_elim)
  then have "pk_payload p = drop (length (canonical_manifest m)) (drop 128 (package_bytes m payload))"
    using package_fields(4) [of m payload] limits_unat(1) [OF lim] by (simp add: d add.commute)
  then show ?thesis by (simp add: package_fields(10))
qed

text \<open>
  C32: A package built from a parsed manifest parses back: every manifest text that \<open>zenpkg pack\<close>
  accepts for a payload gives bytes that \<open>parse_package_bytes\<close> accepts, with the same payload, the
  same manifest up to the order of its lists, and the digests of the parts.
\<close>

theorem package_round_trip:
  assumes "parse_and_validate_manifest input (length payload) = Inr m"
    and "build_package_bytes m payload = Inr data"
  shows "\<exists>p. parse_package_bytes data = Inr p \<and> pk_manifest p = sorted_manifest m \<and> pk_payload p = payload \<and>
             pk_manifest_text p = canonical_manifest m \<and>
             pk_manifest_digest p = sha256_spec (bytes_of_string (canonical_manifest m)) \<and>
             pk_payload_digest p = sha256_spec payload"
  using parse_validated [OF assms(1)] assms(2) parse_package_built [of m payload]
  by (simp add: build_package_iff package_of_def)

lemma demo_package: "build_package_bytes demo_manifest [7] = Inr (package_bytes demo_manifest [7])"
proof -
  have "validate_manifest demo_manifest 1 = Inr ()" using parse_validated [OF demo_manifest_parses] by simp
  moreover have "length (canonical_manifest demo_manifest) \<le> max_manifest_size"
    by (simp add: demo_manifest_def canonical_manifest_def field_line_def max_manifest_size_def)
  ultimately show ?thesis by (simp add: build_package_iff package_limits_def max_payload_size_def)
qed

theorem package_round_trip_witness:
  "\<exists>p. parse_package_bytes (package_bytes demo_manifest [7]) = Inr p \<and> pk_payload p = [7]"
  using package_round_trip [OF _ demo_package] demo_manifest_parses by fastforce

text \<open>
  C31: A package is determined by its contents: bytes that \<open>parse_package_bytes\<close> accepts are exactly
  the bytes that packing the recovered manifest and payload produces, so no two different files pass
  for the same package.
\<close>

theorem package_bytes_canonical:
  assumes "parse_package_bytes data = Inr p"
  shows "build_package_bytes (pk_manifest p) (pk_payload p) = Inr data \<and>
         validate_manifest (pk_manifest p) (length (pk_payload p)) = Inr ()"
  using parse_package_rebuilds [OF assms] by (simp add: build_package_iff)

theorem package_bytes_canonical_witness:
  "build_package_bytes (sorted_manifest demo_manifest) [7] = Inr (package_bytes demo_manifest [7])"
proof -
  have "parse_package_bytes (package_bytes demo_manifest [7]) = Inr (package_of demo_manifest [7])"
    using parse_package_built [of demo_manifest "[7]"] demo_package parse_validated [OF demo_manifest_parses]
    by (simp add: build_package_iff)
  then show ?thesis using package_bytes_canonical by (fastforce simp: package_of_def)
qed

section \<open>The index\<close>

text \<open>What a record of the index says about the file it names.\<close>

definition record_describes :: "host \<Rightarrow> string \<Rightarrow> index_record \<Rightarrow> bool" where
  "record_describes h path r \<longleftrightarrow>
     (\<exists>data p. read_binary h path = Inr data \<and> parse_package_bytes data = Inr p \<and>
        ir_file r = path_filename path \<and> package_filename_ok (ir_file r) \<and> ir_bytes r = length data \<and>
        sha256_hex data = Inr (ir_sha256 r) \<and> ir_name r = m_name (pk_manifest p) \<and>
        ir_version r = m_version (pk_manifest p) \<and> ir_target r = m_target (pk_manifest p) \<and>
        ir_architecture r = m_architecture (pk_manifest p) \<and> ir_kind r = m_kind (pk_manifest p) \<and>
        ir_runtime r = m_runtime (pk_manifest p))"

definition record_identity :: "index_record \<Rightarrow> string" where
  "record_identity r = ir_name r @ ''@'' @ ir_version r @ ''#'' @ ir_target r"

lemma scan_files_spec:
  "scan_files h paths ids = Inr rs \<Longrightarrow>
     list_all2 (record_describes h) paths rs \<and> distinct (map record_identity rs) \<and>
     set (map record_identity rs) \<inter> ids = {}"
proof (induction paths arbitrary: ids rs)
  case (Cons path paths)
  obtain data p rs' r where st: "package_filename_ok (path_filename path)" "read_binary h path = Inr data"
      "parse_package_bytes data = Inr p" "package_identity (pk_manifest p) \<notin> ids"
      "scan_files h paths (insert (package_identity (pk_manifest p)) ids) = Inr rs'" "rs = r # rs'"
      "r = \<lparr>ir_name = m_name (pk_manifest p), ir_version = m_version (pk_manifest p),
            ir_architecture = m_architecture (pk_manifest p), ir_target = m_target (pk_manifest p),
            ir_kind = m_kind (pk_manifest p), ir_runtime = m_runtime (pk_manifest p), ir_file = path_filename path,
            ir_bytes = length data, ir_sha256 = pk_package_digest_hex p\<rparr>"
    using Cons.prems by (auto simp: Let_def throw_if_eq_Inr ebind_eq_Inr)
  have "sha256_hex data = Inr (pk_package_digest_hex p)" using st(3) by (rule parse_package_bytes_elim)
  then have "record_describes h path r" using st by (simp add: record_describes_def)
  moreover have "record_identity r = package_identity (pk_manifest p)"
    by (simp add: st(7) record_identity_def package_identity_def)
  ultimately show ?case using Cons.IH [OF st(5)] st(4,6) by auto
qed simp

text \<open>
  The repository index describes the repository. When \<open>scan_packages\<close> succeeds, its records are
  sorted by name, version and target, no two have the same identity, and they are, up to that
  order, one record for each package file of the directory, each giving the size, digest and manifest
  fields of a file that parses as a package.
\<close>

theorem scan_packages_sound:
  assumes "scan_packages h directory = Inr records"
  shows "sorted (map index_key records) \<and> distinct (map record_identity records) \<and>
         (\<exists>rs. mset rs = mset records \<and>
            list_all2 (record_describes h)
              (sort (filter (\<lambda>path. path_extension path = ''.zpk'') (host_regular_files directory h))) rs)"
proof -
  obtain rs where rs: "scan_files h (sort (filter (\<lambda>path. path_extension path = ''.zpk'') (host_regular_files directory h))) {} = Inr rs"
      "records = sort_key index_key rs"
    using assms by (auto simp: scan_packages_def throw_if_eq_Inr Let_def ebind_eq_Inr)
  note spec = scan_files_spec [OF rs(1)]
  have ms: "mset rs = mset records" by (simp add: rs(2))
  have "mset (map record_identity records) = mset (map record_identity rs)" by (simp add: ms)
  then have "distinct (map record_identity records)" using spec by (metis mset_eq_imp_distinct_iff)
  then show ?thesis using spec ms by (auto simp: rs(2))
qed

definition demo_repository :: host where
  "demo_repository =
     \<lparr>host_nodes = [(''repo'', Folder), (''repo/demo.zpk'', Regular (package_bytes demo_manifest [7]))],
      host_read_fault = (\<lambda>_. None), host_write_fault = (\<lambda>_. None), host_renames = [], host_error_text = []\<rparr>"

lemma demo_files: "host_regular_files ''repo'' demo_repository = [''repo/demo.zpk'']"
  by (simp add: host_regular_files_def demo_repository_def path_join_def path_filename_def)

lemma demo_scan: "is_ok (scan_packages demo_repository ''repo'')"
proof -
  have "parse_package_bytes (package_bytes demo_manifest [7]) = Inr (package_of demo_manifest [7])"
    using parse_package_built [of demo_manifest "[7]"] demo_package parse_validated [OF demo_manifest_parses]
    by (simp add: build_package_iff)
  moreover have "read_binary demo_repository ''repo/demo.zpk'' = Inr (package_bytes demo_manifest [7])"
    using package_length [of demo_manifest "[7]"] demo_package
    by (simp add: read_binary_def demo_repository_def host_lookup_def build_package_iff u64_max_def)
  moreover have "package_filename_ok (path_filename ''repo/demo.zpk'')" "path_extension ''repo/demo.zpk'' = ''.zpk''"
    by code_simp+
  ultimately show ?thesis
    by (simp add: scan_packages_def demo_files is_ok_def host_lookup_def Let_def)
      (simp add: demo_repository_def)
qed

theorem scan_packages_sound_witness:
  "\<exists>records. scan_packages demo_repository ''repo'' = Inr records \<and> sorted (map index_key records)"
proof -
  obtain records where "scan_packages demo_repository ''repo'' = Inr records"
    using demo_scan by (auto simp: is_ok_iff)
  then show ?thesis using scan_packages_sound by blast
qed

end
