(* ===== verification/Foreign_Format.thy ===== *)
theory Foreign_Format
  imports Host_Text
begin

text \<open>
  \<open>kernel/parts/package_foreign_format.inc\<close> and \<open>package_foreign_policy.inc\<close>: recognition of foreign
  package and executable formats by signature, then by file name. The kernel and the host's
  \<open>zenpkg\<close> share this code. A buffer is its bytes; its size is the length, below \<open>2\<^sup>3\<^sup>2\<close> at every call.
\<close>

section \<open>Formats\<close>

datatype foreign_format =
  Fmt_unknown
| Fmt_zenpkg
| Fmt_zex1
| Fmt_elf
| Fmt_elf_foreign
| Fmt_appimage
| Fmt_portable_executable
| Fmt_msi
| Fmt_msix
| Fmt_cabinet
| Fmt_windows_update
| Fmt_windows_image
| Fmt_deb
| Fmt_rpm
| Fmt_alpine_apk
| Fmt_arch_package
| Fmt_snap
| Fmt_flatpak
| Fmt_apple_pkg
| Fmt_apple_dmg
| Fmt_macho
| Fmt_xbox_xbe
| Fmt_xbox_xex
| Fmt_xbox_stfs
| Fmt_xbox_xvc
| Fmt_xbox_msixvc
| Fmt_xbox_msixvc2
| Fmt_playstation_psx_exe
| Fmt_playstation_ps2_elf
| Fmt_playstation_pbp
| Fmt_playstation_pkg
| Fmt_playstation_pup
| Fmt_playstation_self
| Fmt_disc_image
| Fmt_chd_image
| Fmt_zip

datatype foreign_support =
  Sup_installable | Sup_host_import | Sup_runtime_required | Sup_partner_only | Sup_inspect_only | Sup_unsupported

record detection =
  det_format :: foreign_format
  det_support :: foreign_support
  det_name :: string
  det_family :: string
  det_reason :: string
  det_extension_only :: bool

definition detected ::
    "foreign_format \<Rightarrow> foreign_support \<Rightarrow> string \<Rightarrow> string \<Rightarrow> string \<Rightarrow> bool \<Rightarrow> detection" where
  "detected format support name family reason extension_only =
     \<lparr>det_format = format, det_support = support, det_name = name, det_family = family,
      det_reason = reason, det_extension_only = extension_only\<rparr>"

section \<open>Reading\<close>

definition folded :: "char \<Rightarrow> char" where
  "folded c = (if isupper c then char_of (of_char c + (32 :: nat)) else c)"

definition suffix_folded :: "string \<Rightarrow> string \<Rightarrow> bool" where
  "suffix_folded path suffix_text =
     (if length suffix_text > length path then False
      else map folded (drop (length path - length suffix_text) path) = map folded suffix_text)"

definition bytes_at :: "bytes \<Rightarrow> nat \<Rightarrow> bytes \<Rightarrow> bool" where
  "bytes_at raw offset expected =
     (if offset > length raw \<or> length expected > length raw - offset then False
      else fold (\<lambda>i difference. difference OR (raw ! (offset + i) XOR expected ! i)) [0..<length expected] 0 = 0)"

definition u16_le_at :: "bytes \<Rightarrow> nat \<Rightarrow> u16 option" where
  "u16_le_at raw offset =
     (if offset > length raw \<or> 2 > length raw - offset then None
      else Some (ucast (raw ! offset) OR push_bit 8 (ucast (raw ! (offset + 1)))))"

definition u16_be_at :: "bytes \<Rightarrow> nat \<Rightarrow> u16 option" where
  "u16_be_at raw offset =
     (if offset > length raw \<or> 2 > length raw - offset then None
      else Some (push_bit 8 (ucast (raw ! offset)) OR ucast (raw ! (offset + 1))))"

definition u32_le_at :: "bytes \<Rightarrow> nat \<Rightarrow> u32 option" where
  "u32_le_at raw offset =
     (if offset > length raw \<or> 4 > length raw - offset then None
      else Some (ucast (raw ! offset) OR push_bit 8 (ucast (raw ! (offset + 1))) OR
                 push_bit 16 (ucast (raw ! (offset + 2))) OR push_bit 24 (ucast (raw ! (offset + 3)))))"

definition u32_be_at :: "bytes \<Rightarrow> nat \<Rightarrow> u32 option" where
  "u32_be_at raw offset =
     (if offset > length raw \<or> 4 > length raw - offset then None
      else Some (push_bit 24 (ucast (raw ! offset)) OR push_bit 16 (ucast (raw ! (offset + 1))) OR
                 push_bit 8 (ucast (raw ! (offset + 2))) OR ucast (raw ! (offset + 3))))"

section \<open>Detection\<close>

definition zenpkg_magic :: bytes where "zenpkg_magic = [90, 69, 78, 80, 75, 71, 49, 0]"
definition zex1_magic :: bytes where "zex1_magic = [90, 69, 88, 49]"
definition elf_magic :: bytes where "elf_magic = [127, 69, 76, 70]"
definition rpm_magic :: bytes where "rpm_magic = [237, 171, 238, 219]"
definition ar_magic :: bytes where "ar_magic = [33, 60, 97, 114, 99, 104, 62, 10]"
definition zip_magic :: bytes where "zip_magic = [80, 75, 3, 4]"
definition zip_empty_magic :: bytes where "zip_empty_magic = [80, 75, 5, 6]"
definition zip_spanned_magic :: bytes where "zip_spanned_magic = [80, 75, 7, 8]"
definition xar_magic :: bytes where "xar_magic = [120, 97, 114, 33]"
definition squashfs_magic :: bytes where "squashfs_magic = [104, 115, 113, 115]"
definition cfb_magic :: bytes where "cfb_magic = [208, 207, 17, 224, 161, 177, 26, 225]"
definition mz_magic :: bytes where "mz_magic = [77, 90]"
definition pe_magic :: bytes where "pe_magic = [80, 69, 0, 0]"
definition cab_magic :: bytes where "cab_magic = [77, 83, 67, 70]"
definition wim_magic :: bytes where "wim_magic = [77, 83, 87, 73, 77, 0, 0, 0]"
definition gzip_magic :: bytes where "gzip_magic = [31, 139]"
definition zstd_magic :: bytes where "zstd_magic = [40, 181, 47, 253]"
definition xz_magic :: bytes where "xz_magic = [253, 55, 122, 88, 90, 0]"
definition bzip_magic :: bytes where "bzip_magic = [66, 90, 104]"
definition lz4_magic :: bytes where "lz4_magic = [4, 34, 77, 24]"
definition apk_adb_magic :: bytes where "apk_adb_magic = [65, 68, 66, 46]"
definition xbe_magic :: bytes where "xbe_magic = [88, 66, 69, 72]"
definition xex_magic :: bytes where "xex_magic = [88, 69, 88, 50]"
definition xbox_con_magic :: bytes where "xbox_con_magic = [67, 79, 78, 32]"
definition xbox_live_magic :: bytes where "xbox_live_magic = [76, 73, 86, 69]"
definition xbox_pirs_magic :: bytes where "xbox_pirs_magic = [80, 73, 82, 83]"
definition psx_exe_magic :: bytes where "psx_exe_magic = [80, 83, 45, 88, 32, 69, 88, 69]"
definition pbp_magic :: bytes where "pbp_magic = [0, 80, 66, 80]"
definition ps_pkg_magic :: bytes where "ps_pkg_magic = [127, 80, 75, 71]"
definition ps4_pkg_magic :: bytes where "ps4_pkg_magic = [127, 67, 78, 84]"
definition pup_magic :: bytes where "pup_magic = [83, 67, 69, 85, 70]"
definition ps3_self_magic :: bytes where "ps3_self_magic = [83, 67, 69, 0]"
definition ps4_self_magic :: bytes where "ps4_self_magic = [79, 21, 61, 29]"
definition dmg_magic :: bytes where "dmg_magic = [107, 111, 108, 121]"
definition iso_magic :: bytes where "iso_magic = [67, 68, 48, 48, 49]"
definition chd_magic :: bytes where "chd_magic = [77, 67, 111, 109, 112, 114, 72, 68]"

text \<open>The ELF branch: AppImage, the native ELF32/i386, MIPS, PlayStation 4, anything else.\<close>

definition elf_machine :: "bytes \<Rightarrow> u16 option" where
  "elf_machine raw = (if raw ! 5 = 1 then u16_le_at raw 18 else u16_be_at raw 18)"

definition detect_elf :: "bytes \<Rightarrow> string \<Rightarrow> detection" where
  "detect_elf raw path =
     (if suffix_folded path ''.appimage'' then detected Fmt_appimage Sup_runtime_required ''AppImage'' ''Linux''
        ''ELF AppImage is recognized; ZenovOS has no FUSE/dynamic Linux runtime'' False
      else if length raw \<ge> 20 \<and> raw ! 4 = 1 \<and> raw ! 5 = 1 \<and> elf_machine raw = Some 3 then detected Fmt_elf Sup_host_import ''ELF32/i386 executable'' ''Linux/Unix''
        ''only static ET_EXEC images satisfying the ZenovOS loader contract can be imported'' False
      else if length raw \<ge> 20 \<and> raw ! 4 = 1 \<and> elf_machine raw = Some 8 then detected Fmt_playstation_ps2_elf Sup_runtime_required ''MIPS ELF executable'' ''PlayStation 2/MIPS''
        ''MIPS ELF is recognized; Emotion Engine/IOP runtime and console services are absent'' False
      else if length raw \<ge> 20 \<and> raw ! 4 = 2 \<and> raw ! 5 = 1 \<and> elf_machine raw = Some 62 \<and> raw ! 7 = 9 \<and>
              (u16_le_at raw 16 = Some 0xfe00 \<or> u16_le_at raw 16 = Some 0xfe10 \<or> u16_le_at raw 16 = Some 0xfe18)
      then detected Fmt_playstation_self Sup_runtime_required ''PlayStation 4 ELF'' ''PlayStation 4''
        ''decrypted SCE ELF is recognized; FreeBSD-derived PS4 ABI and services are absent'' False
      else detected Fmt_elf_foreign Sup_runtime_required ''foreign ELF executable'' ''Linux/Unix/console''
        ''ELF architecture or ABI is not the native static ELF32/i386 import target'' False)"

definition fat_macho :: "bytes \<Rightarrow> bool" where
  "fat_macho raw =
     (if length raw < 8 then False
      else let magic = u32_be_at raw 0;
               count = (if magic = Some 0xcafebabe then u32_be_at raw 4 else u32_le_at raw 4)
           in (magic = Some 0xcafebabe \<or> magic = Some 0xbebafeca) \<and>
              (case count of None \<Rightarrow> False | Some count \<Rightarrow> count \<ge> 1 \<and> count \<le> 32))"

definition detect :: "bytes \<Rightarrow> string \<Rightarrow> detection" where
  "detect raw path =
     (let zip = bytes_at raw 0 zip_magic \<or> bytes_at raw 0 zip_empty_magic \<or> bytes_at raw 0 zip_spanned_magic;
          arch_suffix = suffix_folded path ''.pkg.tar.zst'' \<or> suffix_folded path ''.pkg.tar.xz'' \<or>
            suffix_folded path ''.pkg.tar.gz'' \<or> suffix_folded path ''.pkg.tar.bz2'' \<or>
            suffix_folded path ''.pkg.tar.lz4'';
          arch_compression = bytes_at raw 0 zstd_magic \<or> bytes_at raw 0 xz_magic \<or> bytes_at raw 0 gzip_magic \<or>
            bytes_at raw 0 bzip_magic \<or> bytes_at raw 0 lz4_magic
      in if bytes_at raw 0 zenpkg_magic
      then detected Fmt_zenpkg Sup_installable ''ZenPkg ZENPKG1'' ''ZenovOS''
        ''verified container; installation still requires signed repository authorization'' False
      else if bytes_at raw 0 zex1_magic
      then detected Fmt_zex1 Sup_host_import ''ZEX1 executable'' ''ZenovOS''
        ''raw payload can be wrapped by zenpkg import-native before repository signing'' False
      else if bytes_at raw 0 xbe_magic
      then detected Fmt_xbox_xbe Sup_runtime_required ''Original Xbox XBE executable'' ''Xbox''
        ''legacy executable is recognized; Xbox kernel, graphics, audio and input runtime are absent'' False
      else if bytes_at raw 0 xex_magic
      then detected Fmt_xbox_xex Sup_runtime_required ''Xbox 360 XEX2 executable'' ''Xbox 360''
        ''legacy executable is recognized; Xenon/PowerPC runtime and Xbox services are absent'' False
      else if bytes_at raw 0 xbox_con_magic \<or> bytes_at raw 0 xbox_live_magic \<or> bytes_at raw 0 xbox_pirs_magic
      then detected Fmt_xbox_stfs Sup_runtime_required ''Xbox 360 STFS content container'' ''Xbox 360''
        ''content container is recognized; license metadata is preserved and no activation bypass is performed'' False
      else if bytes_at raw 0 psx_exe_magic
      then detected Fmt_playstation_psx_exe Sup_runtime_required ''PS-X EXE'' ''PlayStation''
        ''PlayStation executable is recognized; MIPS R3000A and console services are absent'' False
      else if bytes_at raw 0 pbp_magic
      then detected Fmt_playstation_pbp Sup_runtime_required ''PlayStation PBP container'' ''PSP/PlayStation''
        ''PBP container is recognized; PSP/PS1 runtime and content licensing remain external'' False
      else if bytes_at raw 0 pup_magic
      then detected Fmt_playstation_pup Sup_partner_only ''PlayStation system update package'' ''PlayStation''
        ''firmware/update container is recognized; official validation and target hardware are required'' False
      else if bytes_at raw 0 ps3_self_magic
      then detected Fmt_playstation_self Sup_partner_only ''PlayStation SELF executable'' ''PS3/PS Vita''
        ''signed/encrypted executable is recognized; keys, signatures and console runtime are not bypassed'' False
      else if bytes_at raw 0 ps4_self_magic
      then detected Fmt_playstation_self Sup_partner_only ''PlayStation 4 SELF executable'' ''PlayStation 4''
        ''SELF header is recognized; signed/encrypted segments require lawful platform tooling and runtime'' False
      else if bytes_at raw 0 elf_magic
      then detect_elf raw path
      else if bytes_at raw 0 cfb_magic \<and> (suffix_folded path ''.msi'' \<or> suffix_folded path ''.msp'' \<or> suffix_folded path ''.msm'')
      then detected Fmt_msi Sup_runtime_required ''Windows Installer database'' ''Windows''
        ''MSI/MSP/MSM compound document is recognized; installer actions and Win32 execution are unavailable'' False
      else if bytes_at raw 0 mz_magic \<and>
         (case u32_le_at raw 0x3C of None \<Rightarrow> False | Some pe_offset \<Rightarrow> bytes_at raw (unat pe_offset) pe_magic)
      then detected Fmt_portable_executable Sup_runtime_required ''PE/COFF executable'' ''Windows''
        ''MZ and PE signatures are valid; a Win32 compatibility runtime is still required'' False
      else if zip \<and> (suffix_folded path ''.msix'' \<or> suffix_folded path ''.appx'' \<or> suffix_folded path ''.msixbundle'' \<or> suffix_folded path ''.appxbundle'')
      then detected Fmt_msix Sup_runtime_required ''MSIX/AppX package'' ''Windows''
        ''ZIP package family is recognized; deployment identity, signatures and Win32/UWP runtime are absent'' False
      else if zip \<and> suffix_folded path ''.vpk''
      then detected Fmt_playstation_pkg Sup_runtime_required ''PlayStation Vita VPK'' ''PlayStation Vita''
        ''ZIP-based VPK is recognized; Vita ABI and content policy remain external'' False
      else if bytes_at raw 0 cab_magic \<and> suffix_folded path ''.msu''
      then detected Fmt_windows_update Sup_inspect_only ''Windows Update Standalone package'' ''Windows''
        ''CAB-based MSU is recognized; Windows servicing stack actions are never executed'' False
      else if bytes_at raw 0 cab_magic
      then detected Fmt_cabinet Sup_inspect_only ''Microsoft Cabinet archive'' ''Windows''
        ''CAB archive is recognized; setup directives and executable payloads are never run'' False
      else if bytes_at raw 0 wim_magic
      then detected Fmt_windows_image Sup_inspect_only ''Windows Imaging Format image'' ''Windows''
        ''WIM image is recognized; Windows deployment and servicing are not implemented'' False
      else if bytes_at raw 0 ar_magic \<and> suffix_folded path ''.deb''
      then detected Fmt_deb Sup_inspect_only ''Debian binary package'' ''Linux''
        ''ar package is recognized; maintainer scripts and shared-library dependencies are not executed'' False
      else if bytes_at raw 0 rpm_magic
      then detected Fmt_rpm Sup_inspect_only ''RPM package'' ''Linux''
        ''RPM lead is recognized; scripts, database semantics and dynamic dependencies are unavailable'' False
      else if bytes_at raw 0 apk_adb_magic \<and> suffix_folded path ''.apk''
      then detected Fmt_alpine_apk Sup_inspect_only ''Alpine APK v3 package'' ''Linux/Alpine''
        ''ADB package header is recognized; signatures, scripts and filesystem deployment are not executed'' False
      else if bytes_at raw 0 gzip_magic \<and> suffix_folded path ''.apk''
      then detected Fmt_alpine_apk Sup_inspect_only ''Alpine APK v2 package'' ''Linux/Alpine''
        ''gzip-stream APK v2 candidate is recognized; signatures and install scripts are not executed'' False
      else if arch_suffix \<and> arch_compression
      then detected Fmt_arch_package Sup_inspect_only ''Arch Linux ALPM package'' ''Linux/Arch''
        ''compressed pkg.tar package is recognized; ALPM scripts, signatures and dependency actions are not executed'' False
      else if bytes_at raw 0 squashfs_magic \<and> suffix_folded path ''.snap''
      then detected Fmt_snap Sup_runtime_required ''Snap package'' ''Linux''
        ''SquashFS Snap payload is recognized; snapd, namespaces and Linux runtime are absent'' False
      else if bytes_at raw 0 xar_magic \<and> suffix_folded path ''.pkg''
      then detected Fmt_apple_pkg Sup_runtime_required ''macOS installer package'' ''macOS''
        ''XAR installer is recognized; Installer scripts, Mach-O and Apple trust services are absent'' False
      else if length raw \<ge> 512 \<and> bytes_at raw (length raw - 512) dmg_magic
      then detected Fmt_apple_dmg Sup_runtime_required ''Apple disk image (UDIF)'' ''macOS''
        ''UDIF trailer is recognized; HFS/APFS mounting and Mach-O runtime are absent'' False
      else if (case u32_be_at raw 0 of None \<Rightarrow> False
         | Some magic \<Rightarrow> magic = 0xfeedface \<or> magic = 0xcefaedfe \<or> magic = 0xfeedfacf \<or> magic = 0xcffaedfe)
      then detected Fmt_macho Sup_runtime_required ''Mach-O executable'' ''macOS''
        ''thin Mach-O is recognized; Darwin ABI, loader and Apple frameworks are absent'' False
      else if fat_macho raw
      then detected Fmt_macho Sup_runtime_required ''Mach-O universal binary'' ''macOS''
        ''fat Mach-O header is plausible; Darwin ABI and Apple frameworks are absent'' False
      else if bytes_at raw 0 ps_pkg_magic
      then (case u16_be_at raw 6 of
           Some platform \<Rightarrow>
             if platform = 1 then detected Fmt_playstation_pkg Sup_partner_only ''PlayStation 3 PKG'' ''PlayStation 3''
        ''PS3 package header is recognized; encryption, licenses and signatures are not bypassed'' False
             else if platform = 2 then detected Fmt_playstation_pkg Sup_partner_only ''PSP/PlayStation Vita PKG'' ''PSP/PlayStation Vita''
        ''portable PlayStation package is recognized; encryption and content licenses remain external'' False
             else detected Fmt_playstation_pkg Sup_partner_only ''PlayStation PKG'' ''PlayStation''
        ''package signature is recognized but platform metadata is unknown or truncated'' False
         | None \<Rightarrow> detected Fmt_playstation_pkg Sup_partner_only ''PlayStation PKG'' ''PlayStation''
        ''package signature is recognized but platform metadata is unknown or truncated'' False)
      else if bytes_at raw 0 ps4_pkg_magic
      then detected Fmt_playstation_pkg Sup_partner_only ''PlayStation 4 package'' ''PlayStation 4''
        ''PS4 package signature is recognized; official keys, licenses and target runtime are required'' False
      else if length raw > 0x8005 \<and> bytes_at raw 0x8001 iso_magic
      then detected Fmt_disc_image Sup_runtime_required ''ISO 9660 disc image'' ''optical media/console''
        ''disc filesystem is recognized; title-specific console runtime and lawful media ownership are required'' False
      else if bytes_at raw 0 chd_magic
      then detected Fmt_chd_image Sup_runtime_required ''CHD compressed media image'' ''arcade/console media''
        ''compressed media container is recognized; CHD decoder and target runtime are absent'' False
      else if suffix_folded path ''.msixvc2''
      then detected Fmt_xbox_msixvc2 Sup_partner_only ''MSIXVC2 PC game package'' ''Xbox GDK/Windows PC''
        ''extension-only match; April 2026 preview format requires GDK tooling, package identity and keys'' True
      else if suffix_folded path ''.msixvc''
      then detected Fmt_xbox_msixvc Sup_partner_only ''Xbox/PC MSIXVC package'' ''Xbox GDK/Windows PC''
        ''extension-only match; official GDK identity and package key material are required'' True
      else if suffix_folded path ''.xvc''
      then detected Fmt_xbox_xvc Sup_partner_only ''Xbox XVC package'' ''Xbox One/Series''
        ''extension-only match; official GDK identity and package key material are required'' True
      else if suffix_folded path ''.flatpak'' \<or> suffix_folded path ''.flatpakref''
      then detected Fmt_flatpak Sup_runtime_required ''Flatpak package/reference'' ''Linux''
        ''extension-only match; OSTree/Flatpak and Linux sandbox runtime are absent'' True
      else if suffix_folded path ''.dmg''
      then detected Fmt_apple_dmg Sup_runtime_required ''Apple disk image candidate'' ''macOS''
        ''extension-only match; a valid UDIF trailer was not present in the bounded input'' True
      else if suffix_folded path ''.pkg''
      then detected Fmt_apple_pkg Sup_runtime_required ''PKG container candidate'' ''Apple/PlayStation''
        ''extension-only match is ambiguous; a known container signature is required'' True
      else if suffix_folded path ''.iso'' \<or> suffix_folded path ''.bin'' \<or> suffix_folded path ''.cue''
      then detected Fmt_disc_image Sup_runtime_required ''disc image candidate'' ''optical media/console''
        ''extension-only match; filesystem or track metadata was not present in the bounded input'' True
      else if zip
      then detected Fmt_zip Sup_inspect_only ''ZIP archive'' ''portable''
        ''generic archive is recognized but has no executable package contract'' False
      else detected Fmt_unknown Sup_unsupported ''unknown'' ''unknown''
        ''no supported package, executable or media signature was found'' False)"

definition classify :: "bytes \<Rightarrow> string \<Rightarrow> detection" where
  "classify raw path =
     (if \<not> bytes_at raw 0 elf_magic \<or> suffix_folded path ''.appimage'' \<or> length raw < 20 then detect raw path
      else if raw ! 4 \<noteq> 1 \<or> elf_machine raw \<noteq> Some 8 then detect raw path
      else if raw ! 5 = 1 \<and> length raw \<ge> 40 \<and>
              (case u32_le_at raw 36 of
                 None \<Rightarrow> False
               | Some flags \<Rightarrow> flags AND 0xf0000000 = 0x20000000 \<and> flags AND 0x00ff0000 = 0x00920000)
      then detected Fmt_playstation_ps2_elf Sup_runtime_required ''PlayStation 2 R5900 ELF'' ''PlayStation 2''
        ''R5900 ELF flags are recognized; Emotion Engine/IOP runtime and console services are absent'' False
      else detected Fmt_elf_foreign Sup_runtime_required ''foreign MIPS ELF executable'' ''Linux/Unix/MIPS''
        ''generic MIPS ELF is not identified as PlayStation 2 without R5900 architecture flags'' False)"

fun support_text :: "foreign_support \<Rightarrow> string" where
  "support_text Sup_installable = ''installable''"
| "support_text Sup_host_import = ''host-import''"
| "support_text Sup_runtime_required = ''runtime-required''"
| "support_text Sup_partner_only = ''partner-only''"
| "support_text Sup_inspect_only = ''inspect-only''"
| "support_text Sup_unsupported = ''unsupported''"

section \<open>Lemmas\<close>

text \<open>\<open>bytes_at\<close> compares without early exit and means equality of the two ranges.\<close>

lemma bytes_at_iff: "bytes_at raw offset expected \<longleftrightarrow>
    offset + length expected \<le> length raw \<and> take (length expected) (drop offset raw) = expected"
proof (cases "offset > length raw \<or> length expected > length raw - offset")
  case False
  have x: "a XOR b = 0 \<longleftrightarrow> a = b" for a b :: byte by (auto simp: bit_eq_iff bit_simps)
  have "bytes_at raw offset expected \<longleftrightarrow> (\<forall>i < length expected. raw ! (offset + i) = expected ! i)"
    using False by (auto simp: bytes_at_def fold_or_zero x)
  also have "\<dots> \<longleftrightarrow> take (length expected) (drop offset raw) = expected"
    using False by (auto simp: list_eq_iff_nth_eq)
  finally show ?thesis using False by auto
qed (auto simp: bytes_at_def)

end
