(* ===== verification/Zenpkg_Foreign.thy ===== *)
theory Zenpkg_Foreign
  imports Zenpkg_Archive Foreign_Format
begin

text \<open>
  \<open>tools/zenpkg/foreign_import.hpp\<close> and \<open>foreign_probe.hpp\<close>: validation of ZEX1 and static ELF32
  executables for import, streaming digests and probes of foreign files, and the native import.
\<close>

section \<open>Executable headers\<close>

definition zenov_user_limit :: u32 where "zenov_user_limit = 0x00100000"
definition zenov_stack_bytes :: u32 where "zenov_stack_bytes = 16 * 1024"
definition zenov_stack_base :: u32 where "zenov_stack_base = zenov_user_limit - zenov_stack_bytes"
definition zenov_page_size :: u32 where "zenov_page_size = 4096"
definition zenov_package_limit :: nat where "zenov_package_limit = 64 * 1024"

definition foreign_u16_le :: "bytes \<Rightarrow> nat \<Rightarrow> u16 result" where
  "foreign_u16_le input offset =
     (if offset > length input \<or> length input - offset < 2 then throw ''truncated executable header''
      else Inr (ucast (input ! offset) OR push_bit 8 (ucast (input ! (offset + 1)))))"

definition foreign_u32_le :: "bytes \<Rightarrow> nat \<Rightarrow> u32 result" where
  "foreign_u32_le input offset =
     (if offset > length input \<or> length input - offset < 4 then throw ''truncated executable header''
      else Inr (ucast (input ! offset) OR push_bit 8 (ucast (input ! (offset + 1))) OR
                push_bit 16 (ucast (input ! (offset + 2))) OR push_bit 24 (ucast (input ! (offset + 3)))))"

definition zex_checksum :: "bytes \<Rightarrow> u32" where
  "zex_checksum data =
     fold (\<lambda>b hash. let hash = hash XOR ucast b; product = (ucast hash :: u64) * 16777619
                    in ucast (product AND 0xffffffff)) data 2166136261"

definition validate_zex1_import :: "bytes \<Rightarrow> unit result" where
  "validate_zex1_import data =
     throw_if (length data < 32 \<or> take 4 data \<noteq> bytes_of_string ''ZEX1'') ''input is not a complete ZEX1 executable'' (
     ebind (foreign_u32_le data 4) (\<lambda>version.
     ebind (foreign_u32_le data 8) (\<lambda>declared_header.
     ebind (foreign_u32_le data 12) (\<lambda>image_size.
     ebind (foreign_u32_le data 16) (\<lambda>entry_offset.
     ebind (foreign_u32_le data 20) (\<lambda>bss_size.
     ebind (foreign_u32_le data 24) (\<lambda>stack_size.
     ebind (foreign_u32_le data 28) (\<lambda>expected_checksum.
     throw_if (version \<noteq> 1 \<or> declared_header \<noteq> 32 \<or> image_size = 0 \<or>
               unat image_size > length data - 32 \<or> length data \<noteq> unat (32 + image_size) \<or>
               entry_offset \<ge> image_size \<or> image_size > zenov_stack_base \<or>
               bss_size > zenov_stack_base - image_size \<or> stack_size > zenov_stack_bytes \<or>
               (bss_size \<noteq> 0 \<and> image_size AND (zenov_page_size - 1) \<noteq> 0))
       ''ZEX1 executable is incompatible with the ZenovOS 0.1.1 loader'' (
     throw_if (zex_checksum (take (unat image_size) (drop 32 data)) \<noteq> expected_checksum)
       ''ZEX1 image checksum mismatch'' (Inr ()))))))))))"

record elf_segment =
  seg_type :: u32
  seg_offset :: u32
  seg_virtual_address :: u32
  seg_file_size :: u32
  seg_memory_size :: u32
  seg_flags :: u32
  seg_alignment :: u32

definition foreign_ranges_overlap :: "u32 \<Rightarrow> u32 \<Rightarrow> u32 \<Rightarrow> u32 \<Rightarrow> bool" where
  "foreign_ranges_overlap left left_size right right_size \<longleftrightarrow>
     left < right + right_size \<and> right < left + left_size"

definition foreign_page_ranges_overlap :: "u32 \<Rightarrow> u32 \<Rightarrow> u32 \<Rightarrow> u32 \<Rightarrow> bool" where
  "foreign_page_ranges_overlap left left_size right right_size \<longleftrightarrow>
     (let left_begin = left AND NOT (zenov_page_size - 1);
          left_end = (left + left_size + zenov_page_size - 1) AND NOT (zenov_page_size - 1);
          right_begin = right AND NOT (zenov_page_size - 1);
          right_end = (right + right_size + zenov_page_size - 1) AND NOT (zenov_page_size - 1)
      in left_begin < right_end \<and> right_begin < left_end)"

definition read_segment :: "bytes \<Rightarrow> nat \<Rightarrow> elf_segment result" where
  "read_segment data base =
     ebind (foreign_u32_le data base) (\<lambda>type.
     ebind (foreign_u32_le data (base + 4)) (\<lambda>offset.
     ebind (foreign_u32_le data (base + 8)) (\<lambda>virtual_address.
     ebind (foreign_u32_le data (base + 16)) (\<lambda>file_size.
     ebind (foreign_u32_le data (base + 20)) (\<lambda>memory_size.
     ebind (foreign_u32_le data (base + 24)) (\<lambda>flags.
     ebind (foreign_u32_le data (base + 28)) (\<lambda>alignment.
     Inr \<lparr>seg_type = type, seg_offset = offset, seg_virtual_address = virtual_address,
          seg_file_size = file_size, seg_memory_size = memory_size, seg_flags = flags,
          seg_alignment = alignment\<rparr>)))))))"

definition segment_refused :: "bytes \<Rightarrow> elf_segment \<Rightarrow> bool" where
  "segment_refused data s \<longleftrightarrow>
     seg_file_size s > seg_memory_size s \<or> unat (seg_offset s) > length data \<or>
     unat (seg_file_size s) > length data - unat (seg_offset s) \<or>
     seg_virtual_address s \<ge> zenov_stack_base \<or>
     seg_memory_size s > zenov_stack_base - seg_virtual_address s \<or>
     seg_flags s AND NOT 7 \<noteq> 0 \<or> seg_flags s AND 3 = 3 \<or>
     (seg_alignment s > 1 \<and>
      (seg_alignment s AND (seg_alignment s - 1) \<noteq> 0 \<or>
       seg_virtual_address s AND (seg_alignment s - 1) \<noteq> seg_offset s AND (seg_alignment s - 1)))"

definition segments_conflict :: "elf_segment \<Rightarrow> elf_segment \<Rightarrow> bool" where
  "segments_conflict s other \<longleftrightarrow>
     foreign_ranges_overlap (seg_virtual_address s) (seg_memory_size s)
       (seg_virtual_address other) (seg_memory_size other) \<or>
     ((seg_flags s XOR seg_flags other) AND 2 \<noteq> 0 \<and>
      foreign_page_ranges_overlap (seg_virtual_address s) (seg_memory_size s)
        (seg_virtual_address other) (seg_memory_size other))"

definition segment_runs_entry :: "u32 \<Rightarrow> elf_segment \<Rightarrow> bool" where
  "segment_runs_entry entry s \<longleftrightarrow>
     seg_flags s AND 1 \<noteq> 0 \<and> seg_flags s AND 2 = 0 \<and> entry \<ge> seg_virtual_address s \<and>
     entry < seg_virtual_address s + seg_memory_size s"

text \<open>The loop over the program headers: the load segments so far, and whether one runs the entry.\<close>

primrec elf_segments_loop ::
    "bytes \<Rightarrow> u32 \<Rightarrow> nat \<Rightarrow> nat list \<Rightarrow> elf_segment list \<Rightarrow> bool \<Rightarrow> (elf_segment list \<times> bool) result" where
  "elf_segments_loop data entry program_offset [] loaded executable_entry = Inr (loaded, executable_entry)"
| "elf_segments_loop data entry program_offset (i # rest) loaded executable_entry =
     ebind (read_segment data (program_offset + i * 32)) (\<lambda>s.
     throw_if (seg_type s = 2 \<or> seg_type s = 3) ''dynamic ELF and PT_INTERP executables cannot be imported'' (
     if seg_type s \<noteq> 1 then elf_segments_loop data entry program_offset rest loaded executable_entry
     else if seg_memory_size s = 0
     then throw_if (seg_file_size s \<noteq> 0) ''ELF has a zero-memory load segment with file data''
            (elf_segments_loop data entry program_offset rest loaded executable_entry)
     else throw_if (segment_refused data s) ''ELF load segment violates the ZenovOS loader contract'' (
          throw_if (list_ex (segments_conflict s) loaded)
            ''ELF load segments overlap or require conflicting page permissions'' (
          elf_segments_loop data entry program_offset rest (loaded @ [s])
            (executable_entry \<or> segment_runs_entry entry s)))))"

definition validate_elf32_i386_import :: "bytes \<Rightarrow> unit result" where
  "validate_elf32_i386_import data =
     throw_if (length data < 52 \<or> data ! 0 \<noteq> 0x7f \<or> data ! 1 \<noteq> 69 \<or> data ! 2 \<noteq> 76 \<or> data ! 3 \<noteq> 70 \<or>
               data ! 4 \<noteq> 1 \<or> data ! 5 \<noteq> 1 \<or> data ! 6 \<noteq> 1)
       ''input is not a little-endian ELF32 executable'' (
     ebind (foreign_u16_le data 16) (\<lambda>type.
     ebind (foreign_u16_le data 18) (\<lambda>machine.
     ebind (foreign_u32_le data 20) (\<lambda>version.
     ebind (foreign_u32_le data 24) (\<lambda>entry.
     ebind (foreign_u32_le data 28) (\<lambda>program_offset.
     ebind (foreign_u16_le data 40) (\<lambda>header_size.
     ebind (foreign_u16_le data 42) (\<lambda>program_entry_size.
     ebind (foreign_u16_le data 44) (\<lambda>program_count.
     throw_if (type \<noteq> 2 \<or> machine \<noteq> 3 \<or> version \<noteq> 1 \<or> header_size \<noteq> 52 \<or> program_entry_size \<noteq> 32 \<or>
               program_count = 0 \<or> entry \<ge> zenov_stack_base \<or> unat program_offset > length data \<or>
               unat program_count > (length data - unat program_offset) div 32)
       ''ELF is not an ET_EXEC ELF32/i386 image accepted by ZenovOS 0.1.1'' (
     ebind (elf_segments_loop data entry (unat program_offset) [0..<unat program_count] [] False)
       (\<lambda>(loaded, executable_entry).
     throw_if (loaded = [] \<or> \<not> executable_entry)
       ''ELF has no loadable executable segment containing its entrypoint'' (Inr ()))))))))))))"

section \<open>What an accepted executable guarantees\<close>

definition is_load :: "elf_segment \<Rightarrow> bool" where
  "is_load s \<longleftrightarrow> seg_type s = 1 \<and> seg_memory_size s \<noteq> 0"

text \<open>The segment lies in user memory below the stack and its bytes in the file, and is not both
  writable and executable.\<close>

definition segment_contained :: "bytes \<Rightarrow> elf_segment \<Rightarrow> bool" where
  "segment_contained data s \<longleftrightarrow>
     unat (seg_virtual_address s) + unat (seg_memory_size s) \<le> unat zenov_stack_base \<and>
     unat (seg_offset s) + unat (seg_file_size s) \<le> length data \<and>
     unat (seg_file_size s) \<le> unat (seg_memory_size s) \<and> seg_flags s AND 3 \<noteq> 3"

definition segments_apart :: "elf_segment \<Rightarrow> elf_segment \<Rightarrow> bool" where
  "segments_apart a b \<longleftrightarrow>
     unat (seg_virtual_address a) + unat (seg_memory_size a) \<le> unat (seg_virtual_address b) \<or>
     unat (seg_virtual_address b) + unat (seg_memory_size b) \<le> unat (seg_virtual_address a)"

definition segment_has_entry :: "u32 \<Rightarrow> elf_segment \<Rightarrow> bool" where
  "segment_has_entry entry s \<longleftrightarrow>
     seg_flags s AND 1 \<noteq> 0 \<and> seg_flags s AND 2 = 0 \<and> unat (seg_virtual_address s) \<le> unat entry \<and>
     unat entry < unat (seg_virtual_address s) + unat (seg_memory_size s)"

lemma elf_segments_loop_spec:
  "elf_segments_loop data entry po is loaded ex = Inr (loaded', ex') \<Longrightarrow>
     sorted_wrt (\<lambda>a b. \<not> segments_conflict b a) loaded \<Longrightarrow>
     \<exists>segs. list_all2 (\<lambda>i s. read_segment data (po + i * 32) = Inr s) is segs \<and>
            loaded' = loaded @ filter is_load segs \<and> (\<forall>s\<in>set segs. seg_type s \<noteq> 2 \<and> seg_type s \<noteq> 3) \<and>
            (\<forall>s\<in>set (filter is_load segs). \<not> segment_refused data s) \<and>
            sorted_wrt (\<lambda>a b. \<not> segments_conflict b a) loaded' \<and>
            (ex' \<longleftrightarrow> ex \<or> (\<exists>s\<in>set (filter is_load segs). segment_runs_entry entry s))"
proof (induction "is" arbitrary: loaded ex)
  case (Cons i "is")
  obtain s where s: "read_segment data (po + i * 32) = Inr s" "seg_type s \<noteq> 2" "seg_type s \<noteq> 3"
    using Cons.prems(1) by (auto simp: ebind_eq_Inr throw_if_eq_Inr)
  show ?case
  proof (cases "is_load s")
    case True
    then have st: "\<not> segment_refused data s" "\<not> list_ex (segments_conflict s) loaded"
        "elf_segments_loop data entry po is (loaded @ [s]) (ex \<or> segment_runs_entry entry s) = Inr (loaded', ex')"
      using Cons.prems(1) s by (auto simp: throw_if_eq_Inr is_load_def)
    have "sorted_wrt (\<lambda>a b. \<not> segments_conflict b a) (loaded @ [s])"
      using Cons.prems(2) st(2) by (auto simp: sorted_wrt_append list_ex_iff)
    from Cons.IH [OF st(3) this] obtain segs where
      "list_all2 (\<lambda>i s. read_segment data (po + i * 32) = Inr s) is segs" "loaded' = loaded @ s # filter is_load segs"
      "\<forall>s\<in>set segs. seg_type s \<noteq> 2 \<and> seg_type s \<noteq> 3" "\<forall>s\<in>set (filter is_load segs). \<not> segment_refused data s"
      "sorted_wrt (\<lambda>a b. \<not> segments_conflict b a) loaded'"
      "ex' \<longleftrightarrow> (ex \<or> segment_runs_entry entry s) \<or> (\<exists>s\<in>set (filter is_load segs). segment_runs_entry entry s)"
      by auto
    then show ?thesis using True s st(1) by (intro exI [of _ "s # segs"]) auto
  next
    case False
    then have "elf_segments_loop data entry po is loaded ex = Inr (loaded', ex')"
      using Cons.prems(1) s by (auto simp: throw_if_eq_Inr is_load_def split: if_splits)
    from Cons.IH [OF this Cons.prems(2)] obtain segs where
      "list_all2 (\<lambda>i s. read_segment data (po + i * 32) = Inr s) is segs" "loaded' = loaded @ filter is_load segs"
      "\<forall>s\<in>set segs. seg_type s \<noteq> 2 \<and> seg_type s \<noteq> 3" "\<forall>s\<in>set (filter is_load segs). \<not> segment_refused data s"
      "sorted_wrt (\<lambda>a b. \<not> segments_conflict b a) loaded'"
      "ex' \<longleftrightarrow> ex \<or> (\<exists>s\<in>set (filter is_load segs). segment_runs_entry entry s)"
      by blast
    then show ?thesis using False s by (intro exI [of _ "s # segs"]) auto
  qed
qed simp

lemma stack_base: "unat zenov_stack_base = 1032192"
  by (simp add: zenov_stack_base_def zenov_user_limit_def zenov_stack_bytes_def)

lemma accepted_contained:
  assumes "\<not> segment_refused data s"
  shows "segment_contained data s"
proof -
  have v: "seg_virtual_address s \<le> zenov_stack_base" using assms by (auto simp: segment_refused_def)
  then have "unat (zenov_stack_base - seg_virtual_address s) = unat zenov_stack_base - unat (seg_virtual_address s)"
    by (simp add: unat_sub)
  then show ?thesis
    using assms v by (auto simp: segment_refused_def segment_contained_def not_less word_le_nat_alt)
qed

lemma unat_segment_end:
  assumes "segment_contained data s"
  shows "unat (seg_virtual_address s + seg_memory_size s) = unat (seg_virtual_address s) + unat (seg_memory_size s)"
  using assms stack_base by (intro unat_add_nowrap) (simp add: segment_contained_def)

lemma apart_if_no_conflict:
  assumes "segment_contained data a" and "segment_contained data b" and "\<not> segments_conflict b a"
  shows "segments_apart a b"
  using assms(3) unat_segment_end [OF assms(1)] unat_segment_end [OF assms(2)]
  by (auto simp: segments_conflict_def foreign_ranges_overlap_def segments_apart_def word_less_nat_alt not_less)

text \<open>
  C33: An ELF image accepted for import is safe to load: none of its program headers asks for dynamic
  linking; every load segment lies in user memory below the stack, takes its bytes from inside the
  file and is not both writable and executable; no two load segments overlap; and the entry point
  lies in an executable segment that is not writable.
\<close>

theorem elf_import_safe:
  assumes "validate_elf32_i386_import data = Inr ()"
  shows "\<exists>entry po segs. foreign_u32_le data 24 = Inr entry \<and> foreign_u32_le data 28 = Inr po \<and>
           foreign_u16_le data 44 = Inr (word_of_nat (length segs)) \<and>
           list_all2 (\<lambda>i s. read_segment data (unat po + i * 32) = Inr s) [0..<length segs] segs \<and>
           (\<forall>s\<in>set segs. seg_type s \<noteq> 2 \<and> seg_type s \<noteq> 3) \<and>
           (\<forall>s\<in>set (filter is_load segs). segment_contained data s) \<and>
           sorted_wrt segments_apart (filter is_load segs) \<and>
           (\<exists>s\<in>set (filter is_load segs). segment_has_entry entry s)"
proof -
  obtain entry po cnt loaded where hd: "foreign_u32_le data 24 = Inr entry" "foreign_u32_le data 28 = Inr po"
      "foreign_u16_le data 44 = Inr cnt"
      "elf_segments_loop data entry (unat po) [0..<unat cnt] [] False = Inr (loaded, True)"
    using assms by (auto simp: validate_elf32_i386_import_def throw_if_eq_Inr ebind_eq_Inr split: prod.splits)
  obtain segs where segs: "list_all2 (\<lambda>i s. read_segment data (unat po + i * 32) = Inr s) [0..<unat cnt] segs"
      "loaded = filter is_load segs" "\<forall>s\<in>set segs. seg_type s \<noteq> 2 \<and> seg_type s \<noteq> 3"
      "\<forall>s\<in>set (filter is_load segs). \<not> segment_refused data s"
      "sorted_wrt (\<lambda>a b. \<not> segments_conflict b a) loaded"
      "\<exists>s\<in>set (filter is_load segs). segment_runs_entry entry s"
    using elf_segments_loop_spec [OF hd(4)] by auto
  have len: "length segs = unat cnt" using list_all2_lengthD [OF segs(1)] by simp
  have inside: "\<forall>s\<in>set (filter is_load segs). segment_contained data s"
    using segs(4) accepted_contained by blast
  have "sorted_wrt segments_apart (filter is_load segs)"
    using segs(5) inside unfolding segs(2)
    by (elim sorted_wrt_mono_rel [rotated]) (blast intro: apart_if_no_conflict)
  moreover have "\<exists>s\<in>set (filter is_load segs). segment_has_entry entry s"
  proof -
    obtain s where s: "s \<in> set (filter is_load segs)" "segment_runs_entry entry s" using segs(6) by blast
    have "segment_has_entry entry s"
      using s(2) unat_segment_end [OF inside [rule_format, OF s(1)]]
      by (simp add: segment_runs_entry_def segment_has_entry_def word_less_nat_alt word_le_nat_alt)
    then show ?thesis using s(1) by blast
  qed
  ultimately show ?thesis
    using hd segs(1,3) inside len by (intro exI [of _ entry] exI [of _ po] exI [of _ segs]) simp
qed

definition demo_elf :: bytes where
  "demo_elf =
     [0x7f, 69, 76, 70, 1, 1, 1, 0, 0, 0, 0, 0, 0, 0, 0, 0, 2, 0, 3, 0, 1, 0, 0, 0, 0, 16, 0, 0,
      52, 0, 0, 0, 0, 0, 0, 0, 0, 0, 0, 0, 52, 0, 32, 0, 1, 0, 0, 0, 0, 0, 0, 0,
      1, 0, 0, 0, 84, 0, 0, 0, 0, 16, 0, 0, 0, 0, 0, 0, 2, 0, 0, 0, 2, 0, 0, 0, 5, 0, 0, 0, 1, 0, 0, 0,
      0xEB, 0xFE]"

lemma demo_elf_reads:
  "foreign_u16_le demo_elf 16 = Inr 2" "foreign_u16_le demo_elf 18 = Inr 3" "foreign_u32_le demo_elf 20 = Inr 1"
  "foreign_u32_le demo_elf 24 = Inr 0x1000" "foreign_u32_le demo_elf 28 = Inr 52" "foreign_u16_le demo_elf 40 = Inr 52"
  "foreign_u16_le demo_elf 42 = Inr 32" "foreign_u16_le demo_elf 44 = Inr 1"
  by (simp_all add: foreign_u16_le_def foreign_u32_le_def demo_elf_def)

lemma demo_elf_segment:
  "read_segment demo_elf 52 = Inr \<lparr>seg_type = 1, seg_offset = 84, seg_virtual_address = 0x1000,
     seg_file_size = 2, seg_memory_size = 2, seg_flags = 5, seg_alignment = 1\<rparr>"
  by (simp add: read_segment_def foreign_u32_le_def demo_elf_def)

lemma demo_elf_ok: "validate_elf32_i386_import demo_elf = Inr ()"
proof -
  have "length demo_elf = 86" "demo_elf ! 0 = 0x7f" "demo_elf ! 1 = 69" "demo_elf ! 2 = 76" "demo_elf ! 3 = 70"
    "demo_elf ! 4 = 1" "demo_elf ! 5 = 1" "demo_elf ! 6 = 1" by (simp_all add: demo_elf_def)
  then show ?thesis
    by (simp add: validate_elf32_i386_import_def demo_elf_reads demo_elf_segment upt_rec zenov_stack_base_def
      zenov_user_limit_def zenov_stack_bytes_def segment_refused_def segment_runs_entry_def)
qed

theorem elf_import_safe_witness:
  "\<exists>segs. list_all2 (\<lambda>i s. read_segment demo_elf (52 + i * 32) = Inr s) [0..<length segs] segs \<and>
          (\<exists>s\<in>set (filter is_load segs). segment_has_entry 0x1000 s)"
proof -
  show ?thesis using elf_import_safe [OF demo_elf_ok] demo_elf_reads by auto
qed

lemma zex_checksum_step:
  "(ucast ((ucast (w :: u32) :: u64) * 16777619 AND 0xffffffff) :: u32) = w * 16777619"
proof -
  have m: "(0xffffffff :: u64) = mask 32" by (simp add: mask_eq_exp_minus_1)
  have "(ucast ((ucast w :: u64) * 16777619 AND mask 32) :: u32) = ucast ((ucast w :: u64) * 16777619)"
    by (rule bit_word_eqI) (simp add: bit_simps)
  also have "\<dots> = w * 16777619"
    by transfer (simp add: take_bit_eq_mod mod_mult_left_eq mod_mod_cancel)
  finally show ?thesis by (simp add: m)
qed

lemma zex_checksum_fnv1a: "zex_checksum data = fnv1a data"
  by (simp add: zex_checksum_def fnv1a_def Let_def zex_checksum_step)

text \<open>
  A ZEX1 image accepted for import is complete and fits: its length is the 32-byte header plus
  the declared image, the image, its zero-initialised memory and the stack fit user memory without
  overlapping, the entry point is inside the image, and the image hashes to the recorded checksum,
  the same hash that the kernel's loader computes.
\<close>

theorem zex1_import_safe:
  assumes "validate_zex1_import data = Inr ()"
  shows "\<exists>image_size entry_offset bss_size stack_size.
           foreign_u32_le data 12 = Inr image_size \<and> foreign_u32_le data 16 = Inr entry_offset \<and>
           foreign_u32_le data 20 = Inr bss_size \<and> foreign_u32_le data 24 = Inr stack_size \<and>
           length data = 32 + unat image_size \<and> unat entry_offset < unat image_size \<and>
           unat image_size + unat bss_size \<le> unat zenov_stack_base \<and> unat stack_size \<le> unat zenov_stack_bytes \<and>
           foreign_u32_le data 28 = Inr (fnv1a (drop 32 data))"
proof -
  obtain image_size entry_offset bss_size stack_size chk where f: "32 \<le> length data"
      "foreign_u32_le data 12 = Inr image_size" "foreign_u32_le data 16 = Inr entry_offset"
      "foreign_u32_le data 20 = Inr bss_size" "foreign_u32_le data 24 = Inr stack_size" "foreign_u32_le data 28 = Inr chk"
      "length data = unat (32 + image_size)" "entry_offset < image_size" "image_size \<le> zenov_stack_base"
      "bss_size \<le> zenov_stack_base - image_size" "stack_size \<le> zenov_stack_bytes"
      "zex_checksum (take (unat image_size) (drop 32 data)) = chk"
    using assms by (auto simp: validate_zex1_import_def throw_if_eq_Inr ebind_eq_Inr not_less not_le)
  have "unat image_size \<le> unat zenov_stack_base" using f(9) by (simp add: word_le_nat_alt)
  then have len: "length data = 32 + unat image_size"
    using f(7) stack_base by (simp add: unat_add_nowrap)
  moreover have "unat image_size + unat bss_size \<le> unat zenov_stack_base"
    using f(9,10) by (simp add: word_le_nat_alt unat_sub)
  moreover have "take (unat image_size) (drop 32 data) = drop 32 data" using len by simp
  ultimately show ?thesis
    using f by (simp add: word_less_nat_alt word_le_nat_alt zex_checksum_fnv1a)
qed

definition demo_zex :: bytes where
  "demo_zex =
     bytes_of_string ''ZEX1'' @ [1, 0, 0, 0, 32, 0, 0, 0, 1, 0, 0, 0, 0, 0, 0, 0, 0, 0, 0, 0, 0, 0, 0, 0] @
     le_bytes 4 (fnv1a [0xC3]) @ [0xC3]"

theorem zex1_import_safe_witness:
  "validate_zex1_import demo_zex = Inr () \<and> length demo_zex = 33"
proof -
  have ok: "validate_zex1_import demo_zex = Inr ()" by code_simp
  have "foreign_u32_le demo_zex 12 = Inr 1" by code_simp
  then show ?thesis using zex1_import_safe [OF ok] ok by auto
qed

end
