(* ===== verification/Zenpkg_Probe.thy ===== *)
theory Zenpkg_Probe
  imports Zenpkg_Foreign
begin

text \<open>
  The file-level half of \<open>tools/zenpkg/foreign_import.hpp\<close> and \<open>foreign_probe.hpp\<close>: streaming digests,
  the bounded sample a probe classifies, and the native import from a validated snapshot to a package
  on disk.
\<close>

section \<open>Streaming\<close>

definition foreign_probe_head_bytes :: nat where "foreign_probe_head_bytes = 64 * 1024"
definition foreign_probe_tail_bytes :: nat where "foreign_probe_tail_bytes = 512"
definition foreign_probe_chunk_bytes :: nat where "foreign_probe_chunk_bytes = 64 * 1024"

text \<open>The chunks that \<open>stream.read\<close> delivers until the end of the file.\<close>

function stream_pieces :: "bytes \<Rightarrow> bytes list" where
  "stream_pieces data =
     (if data = [] then []
      else take foreign_probe_chunk_bytes data # stream_pieces (drop foreign_probe_chunk_bytes data))"
  by pat_completeness auto
termination
  by (relation "measure length") (auto simp: foreign_probe_chunk_bytes_def)

declare stream_pieces.simps [simp del]

record streaming_file_digest =
  sd_sha256 :: string
  sd_file_size :: nat

record streaming_foreign_probe =
  sp_detection :: detection
  sp_sha256 :: string
  sp_file_size :: nat
  sp_sampled_bytes :: nat

definition hash_pieces :: "bytes list \<Rightarrow> bytes result" where
  "hash_pieces pieces =
     ebind (foldl (\<lambda>hasher piece. ebind hasher (update piece)) (Inr sha_reset) pieces) (\<lambda>s. fst (sha_final s))"

text \<open>A stream that opens and reads to its end, or the message for the failure.\<close>

definition open_stream :: "host \<Rightarrow> string \<Rightarrow> string \<Rightarrow> string \<Rightarrow> bytes result" where
  "open_stream h path cannot_open read_failed =
     (case host_lookup h path of
        Some (Regular data) \<Rightarrow>
          throw_if (host_read_fault h path = Some CannotOpen) (cannot_open @ path) (
          throw_if (host_read_fault h path = Some ShortRead) (read_failed @ path) (Inr data))
      | _ \<Rightarrow> throw (cannot_open @ path))"

definition sha256_file_streaming :: "host \<Rightarrow> string \<Rightarrow> streaming_file_digest result" where
  "sha256_file_streaming h path =
     ebind (open_stream h path ''cannot open file for hashing: '' ''hash read failed: '') (\<lambda>data.
     ebind (hash_pieces (stream_pieces data)) (\<lambda>digest.
     Inr \<lparr>sd_sha256 = hex_encode digest, sd_file_size = sum_list (map length (stream_pieces data))\<rparr>))"

definition probe_step :: "bytes \<Rightarrow> bytes \<times> bytes \<Rightarrow> bytes \<times> bytes" where
  "probe_step chunk st =
     (let (sample, tail) = st;
          sample = (if length sample < foreign_probe_head_bytes
                    then sample @ take (min (length chunk) (foreign_probe_head_bytes - length sample)) chunk
                    else sample);
          tail = (if length chunk \<ge> foreign_probe_tail_bytes
                  then drop (length chunk - foreign_probe_tail_bytes) chunk
                  else let overflow = (if length tail + length chunk > foreign_probe_tail_bytes
                                       then length tail + length chunk - foreign_probe_tail_bytes else 0)
                       in drop overflow tail @ chunk)
      in (sample, tail))"

definition probe_sample :: "bytes \<Rightarrow> bytes" where
  "probe_sample data =
     (let (sample, tail) = fold probe_step (stream_pieces data) ([], [])
      in if length data > length sample
         then let append_count = min (length data - length sample) (length tail)
              in sample @ drop (length tail - append_count) tail
         else sample)"

definition probe_foreign_streaming :: "host \<Rightarrow> string \<Rightarrow> streaming_foreign_probe result" where
  "probe_foreign_streaming h path =
     (if host_lookup h path \<noteq> None \<and> host_read_fault h path = Some CannotSize
      then throw (''cannot determine probe file size: '' @ path)
      else ebind (open_stream h path ''cannot open file for probing: '' ''probe read failed: '') (\<lambda>data.
           let sample = probe_sample data in
           throw_if (length sample > 0xffffffff) ''probe sample exceeds classifier limit'' (
           ebind (hash_pieces (stream_pieces data)) (\<lambda>digest.
           Inr \<lparr>sp_detection = classify sample (path_filename path), sp_sha256 = hex_encode digest,
                sp_file_size = length data, sp_sampled_bytes = length sample\<rparr>))))"

section \<open>Native import\<close>

record foreign_probe =
  fp_bytes :: bytes
  fp_detection :: detection
  fp_sha256 :: string

fun foreign_format_id :: "foreign_format \<Rightarrow> string" where
  "foreign_format_id Fmt_zenpkg = ''zenpkg''"
| "foreign_format_id Fmt_zex1 = ''zex1''"
| "foreign_format_id Fmt_elf = ''elf''"
| "foreign_format_id Fmt_elf_foreign = ''elf-foreign''"
| "foreign_format_id Fmt_appimage = ''appimage''"
| "foreign_format_id Fmt_portable_executable = ''pe''"
| "foreign_format_id Fmt_msi = ''msi''"
| "foreign_format_id Fmt_msix = ''msix''"
| "foreign_format_id Fmt_cabinet = ''cab''"
| "foreign_format_id Fmt_windows_update = ''msu''"
| "foreign_format_id Fmt_windows_image = ''wim''"
| "foreign_format_id Fmt_deb = ''deb''"
| "foreign_format_id Fmt_rpm = ''rpm''"
| "foreign_format_id Fmt_alpine_apk = ''alpine-apk''"
| "foreign_format_id Fmt_arch_package = ''arch-package''"
| "foreign_format_id Fmt_snap = ''snap''"
| "foreign_format_id Fmt_flatpak = ''flatpak''"
| "foreign_format_id Fmt_apple_pkg = ''apple-pkg''"
| "foreign_format_id Fmt_apple_dmg = ''apple-dmg''"
| "foreign_format_id Fmt_macho = ''macho''"
| "foreign_format_id Fmt_xbox_xbe = ''xbox-xbe''"
| "foreign_format_id Fmt_xbox_xex = ''xbox-xex''"
| "foreign_format_id Fmt_xbox_stfs = ''xbox-stfs''"
| "foreign_format_id Fmt_xbox_xvc = ''xbox-xvc''"
| "foreign_format_id Fmt_xbox_msixvc = ''xbox-msixvc''"
| "foreign_format_id Fmt_xbox_msixvc2 = ''xbox-msixvc2''"
| "foreign_format_id Fmt_playstation_psx_exe = ''playstation-psx-exe''"
| "foreign_format_id Fmt_playstation_ps2_elf = ''playstation-ps2-elf''"
| "foreign_format_id Fmt_playstation_pbp = ''playstation-pbp''"
| "foreign_format_id Fmt_playstation_pkg = ''playstation-pkg''"
| "foreign_format_id Fmt_playstation_pup = ''playstation-pup''"
| "foreign_format_id Fmt_playstation_self = ''playstation-self''"
| "foreign_format_id Fmt_disc_image = ''disc-image''"
| "foreign_format_id Fmt_chd_image = ''chd''"
| "foreign_format_id Fmt_zip = ''zip''"
| "foreign_format_id Fmt_unknown = ''unknown''"

definition probe_foreign :: "host \<Rightarrow> string \<Rightarrow> foreign_probe result" where
  "probe_foreign h path =
     ebind (read_binary h path) (\<lambda>data.
     throw_if (length data > 0xffffffff) ''file exceeds the 32-bit foreign probe limit'' (
     ebind (sha256_hex data) (\<lambda>digest.
     Inr \<lparr>fp_bytes = data, fp_detection = detect data (path_filename path), fp_sha256 = digest\<rparr>)))"

definition kernel_safe_package_name :: "string \<Rightarrow> bool" where
  "kernel_safe_package_name name =
     (if name = [] \<or> length name > 31 \<or> \<not> isalnum (hd name) \<or> \<not> isalnum (last name) \<or> contains name ''..''
      then False
      else list_all (\<lambda>ch. islower ch \<or> isdigit ch \<or> ch = CHR ''.'' \<or> ch = CHR ''-'' \<or> ch = CHR ''_'') name)"

definition kernel_safe_package_version :: "string \<Rightarrow> bool" where
  "kernel_safe_package_version version =
     (if version = [] \<or> length version > 15 then False
      else list_all (\<lambda>ch. isdigit ch \<or> ch = CHR ''.'' \<or> ch = CHR ''-'' \<or> ch = CHR ''+'' \<or> ch = CHR ''_'') version)"

definition require_native_import_candidate :: "host \<Rightarrow> string \<Rightarrow> foreign_probe result" where
  "require_native_import_candidate h path =
     (case host_lookup h path of
        Some (Regular data) \<Rightarrow>
          throw_if (host_read_fault h path = Some CannotOpen) (''cannot open native import input: '' @ path) (
          throw_if (host_read_fault h path = Some CannotSize) (''cannot determine native import input size: '' @ path) (
          throw_if (length data > zenov_package_limit) ''native import input exceeds the current 64 KiB package limit'' (
          throw_if (data \<noteq> [] \<and> host_read_fault h path = Some ShortRead)
            ''native import input changed or was truncated while reading'' (
          let d = classify data (path_filename path) in
          throw_if (det_format d \<noteq> Fmt_zex1 \<and> det_format d \<noteq> Fmt_elf)
            (''format '' @ foreign_format_id (det_format d) @ '' is not eligible for native import; support='' @
             support_text (det_support d)) (
          ebind (sha256_hex data) (\<lambda>digest.
          Inr \<lparr>fp_bytes = data, fp_detection = d, fp_sha256 = digest\<rparr>))))))
      | _ \<Rightarrow> throw (''cannot open native import input: '' @ path))"

text \<open>The manifest the import writes, with the payload type, suffix and ABI of the format.\<close>

definition import_manifest :: "string \<Rightarrow> string \<Rightarrow> string \<Rightarrow> string \<Rightarrow> string \<Rightarrow> string \<Rightarrow> string \<Rightarrow> string \<Rightarrow> manifest" where
  "import_manifest name version license source asset_policy payload_type suffix_text abi =
     \<lparr>m_format = ''zenpkg-manifest-1'', m_name = name, m_version = version, m_architecture = ''i686'',
      m_target = ''i686-zenov-none'', m_kind = ''application'',
      m_entrypoint = ''/data/apps/pkg-'' @ name @ ''-'' @ version @ suffix_text, m_payload_type = payload_type,
      m_runtime = ''native'', m_min_os = ''0.1.1'', m_license = license, m_source = source,
      m_asset_policy = asset_policy, m_capabilities = [''kernel.ring3'', ''storage.zenovfs1'', abi],
      m_dependencies = [], m_conflicts = []\<rparr>"

definition validated_import_manifest ::
    "foreign_probe \<Rightarrow> string \<Rightarrow> string \<Rightarrow> string \<Rightarrow> string \<Rightarrow> string \<Rightarrow> manifest result" where
  "validated_import_manifest probe name version license source asset_policy =
     (if det_format (fp_detection probe) = Fmt_zex1
      then ebind (validate_zex1_import (fp_bytes probe)) (\<lambda>_.
           Inr (import_manifest name version license source asset_policy ''zex1'' ''.zex'' ''abi.zex1.v1''))
      else if det_format (fp_detection probe) = Fmt_elf
      then ebind (validate_elf32_i386_import (fp_bytes probe)) (\<lambda>_.
           Inr (import_manifest name version license source asset_policy ''elf32'' ''.elf'' ''abi.elf32.i386.static''))
      else throw ''internal native import candidate format mismatch'')"

definition import_package_bytes ::
    "foreign_probe \<Rightarrow> string \<Rightarrow> string \<Rightarrow> string \<Rightarrow> string \<Rightarrow> string \<Rightarrow> bytes result" where
  "import_package_bytes probe name version license source asset_policy =
     throw_if (\<not> kernel_safe_package_name name)
       ''name must be a lowercase ZenovOS package identifier of at most 31 characters'' (
     throw_if (\<not> kernel_safe_package_version version) ''version must fit the ZenovOS 0.1.1 package database'' (
     throw_if (\<not> is_printable_text license 96) ''license is required and must fit 96 printable characters'' (
     throw_if (\<not> is_printable_text source 256) ''source is required and must fit 256 printable characters'' (
     throw_if (asset_policy \<noteq> ''redistributable'') ''0.1.1 native import accepts only asset_policy=redistributable'' (
     ebind (sha256_hex (fp_bytes probe)) (\<lambda>digest.
     throw_if (fp_sha256 probe \<noteq> digest) ''native import candidate snapshot digest mismatch'' (
     ebind (validated_import_manifest probe name version license source asset_policy) (\<lambda>m.
     throw_if (length (m_entrypoint m) > 47)
       ''name and version produce an entrypoint longer than the 0.1.1 kernel path limit'' (
     ebind (build_package_bytes m (fp_bytes probe)) (\<lambda>data.
     throw_if (length data > zenov_package_limit)
       ''imported package exceeds the current 64 KiB ZenovFS/package-manager limit'' (Inr data)))))))))))"

definition import_native ::
    "foreign_probe \<Rightarrow> string \<Rightarrow> string \<Rightarrow> string \<Rightarrow> string \<Rightarrow> string \<Rightarrow> string \<Rightarrow> host \<Rightarrow> package result \<times> host" where
  "import_native probe name version license source asset_policy output_path h =
     (case import_package_bytes probe name version license source asset_policy of
        Inl e \<Rightarrow> (Inl e, h)
      | Inr data \<Rightarrow>
          (let (written, h) = write_binary_atomic output_path data h
           in case written of
                Inl e \<Rightarrow> (Inl e, h)
              | Inr _ \<Rightarrow>
                  (case read_package h output_path of
                     Inl e \<Rightarrow> (Inl e, h)
                   | Inr p \<Rightarrow>
                       if hex_encode (pk_payload_digest p) \<noteq> fp_sha256 probe
                       then (throw ''native import output payload does not match the validated snapshot'',
                             host_remove output_path h)
                       else (Inr p, h))))"

text \<open>The overload that probes the input itself.\<close>

definition import_native_path ::
    "string \<Rightarrow> string \<Rightarrow> string \<Rightarrow> string \<Rightarrow> string \<Rightarrow> string \<Rightarrow> string \<Rightarrow> host \<Rightarrow> package result \<times> host" where
  "import_native_path input_path name version license source asset_policy output_path h =
     (case
        throw_if (\<not> kernel_safe_package_name name)
          ''name must be a lowercase ZenovOS package identifier of at most 31 characters'' (
        throw_if (\<not> kernel_safe_package_version version) ''version must fit the ZenovOS 0.1.1 package database'' (
        throw_if (\<not> is_printable_text license 96) ''license is required and must fit 96 printable characters'' (
        throw_if (\<not> is_printable_text source 256) ''source is required and must fit 256 printable characters'' (
        throw_if (asset_policy \<noteq> ''redistributable'') ''0.1.1 native import accepts only asset_policy=redistributable'' (
        ebind (probe_foreign h input_path) (\<lambda>probe.
        let d = fp_detection probe in
        throw_if (det_format d \<noteq> Fmt_zex1 \<and> det_format d \<noteq> Fmt_elf)
          (''format '' @ foreign_format_id (det_format d) @ '' is not eligible for native import; support='' @
           support_text (det_support d)) (
        ebind (validated_import_manifest probe name version license source asset_policy) (\<lambda>m.
        throw_if (length (m_entrypoint m) > 47)
          ''name and version produce an entrypoint longer than the 0.1.1 kernel path limit'' (
        ebind (build_package_bytes m (fp_bytes probe)) (\<lambda>data.
        throw_if (length data > zenov_package_limit)
          ''imported package exceeds the current 64 KiB ZenovFS/package-manager limit'' (Inr data))))))))))) of
        Inl e \<Rightarrow> (Inl e, h)
      | Inr data \<Rightarrow>
          (let (written, h) = write_binary_atomic output_path data h
           in case written of Inl e \<Rightarrow> (Inl e, h) | Inr _ \<Rightarrow> (read_package h output_path, h)))"

section \<open>Streaming is exact\<close>

lemma concat_stream_pieces [simp]: "concat (stream_pieces data) = data"
proof (induction data rule: stream_pieces.induct)
  case (1 data)
  then show ?case by (subst stream_pieces.simps) simp
qed

lemma hash_stream_pieces: "8 * length data < 2 ^ 64 \<Longrightarrow> hash_pieces (stream_pieces data) = Inr (sha256_spec data)"
  using updates_after [OF sha_after_reset, of "stream_pieces data"] final_after
  by (fastforce simp: hash_pieces_def)

lemma sum_stream_pieces: "sum_list (map length (stream_pieces data)) = length data"
  by (metis concat_stream_pieces length_concat)

text \<open>
  \<open>zenpkg hash\<close> streams a file in 64 KiB chunks and still prints what hashing the whole file in
  memory gives, with the exact file size.
\<close>

theorem sha256_file_streaming_exact:
  assumes "read_binary h path = Inr data" and "host_read_fault h path = None" and "8 * length data < 2 ^ 64"
  shows "\<exists>d. sha256_file_streaming h path = Inr d \<and> sha256_hex data = Inr (sd_sha256 d) \<and> sd_file_size d = length data"
proof -
  have "host_lookup h path = Some (Regular data)"
    using assms(1,2) by (auto simp: read_binary_def split: option.splits host_node.splits if_splits)
  then show ?thesis
    using assms(2,3)
    by (simp add: sha256_file_streaming_def open_stream_def hash_stream_pieces sum_stream_pieces sha256_hex_def sha256_hash_eq)
qed

theorem sha256_file_streaming_exact_witness:
  "\<exists>d. sha256_file_streaming demo_repository ''repo/demo.zpk'' = Inr d \<and>
     sd_file_size d = length (package_bytes demo_manifest [7])"
proof -
  have limits: "package_limits demo_manifest [7]" using demo_package by (simp add: build_package_iff)
  have read: "read_binary demo_repository ''repo/demo.zpk'' = Inr (package_bytes demo_manifest [7])"
    using package_length [OF limits]
    by (simp add: read_binary_def demo_repository_def host_lookup_def u64_max_def)
  have "host_read_fault demo_repository ''repo/demo.zpk'' = None" by (simp add: demo_repository_def)
  from sha256_file_streaming_exact [OF read this package_length [OF limits]] show ?thesis by blast
qed

lemma tail_step:
  fixes p :: bytes
  assumes "length chunk < n"
  defines "t \<equiv> drop (length p - n) p"
  shows "drop (if length t + length chunk > n then length t + length chunk - n else 0) t @ chunk =
         drop (length (p @ chunk) - n) (p @ chunk)"
proof (cases "n \<le> length p")
  case True
  then have "length t = n" by (simp add: t_def)
  then show ?thesis using True assms(1) by (auto simp: t_def add.commute)
next
  case False
  then show ?thesis using assms(1) by (auto simp: t_def)
qed

lemma probe_step_prefix:
  "probe_step chunk (take foreign_probe_head_bytes p, drop (length p - foreign_probe_tail_bytes) p) =
     (take foreign_probe_head_bytes (p @ chunk), drop (length (p @ chunk) - foreign_probe_tail_bytes) (p @ chunk))"
  using tail_step [of chunk foreign_probe_tail_bytes p]
  by (auto simp: probe_step_def Let_def min_def not_le)

lemma probe_fold:
  "fold probe_step pieces (take foreign_probe_head_bytes p, drop (length p - foreign_probe_tail_bytes) p) =
     (let q = p @ concat pieces in (take foreign_probe_head_bytes q, drop (length q - foreign_probe_tail_bytes) q))"
proof (induction pieces arbitrary: p)
  case (Cons c cs)
  show ?case using Cons [of "p @ c"] by (simp add: probe_step_prefix)
qed simp

text \<open>
  The bounded probe of a foreign file classifies the first 64 KiB followed by the part of the
  last 512 bytes beyond them; in particular a file of at most 64 KiB and 512 bytes is classified as a
  whole.
\<close>

theorem probe_sample_bounded:
  "probe_sample data = take foreign_probe_head_bytes data @
     drop (max foreign_probe_head_bytes (length data - foreign_probe_tail_bytes)) data \<and>
   length (probe_sample data) = min (length data) (foreign_probe_head_bytes + foreign_probe_tail_bytes) \<and>
   (length data \<le> foreign_probe_head_bytes + foreign_probe_tail_bytes \<longrightarrow> probe_sample data = data)"
proof -
  let ?H = foreign_probe_head_bytes and ?T = foreign_probe_tail_bytes
  have f: "fold probe_step (stream_pieces data) ([], []) = (take ?H data, drop (length data - ?T) data)"
    using probe_fold [of "stream_pieces data" "[]"] by simp
  have eq: "probe_sample data = take ?H data @ drop (max ?H (length data - ?T)) data"
    by (auto simp: probe_sample_def f Let_def min_def max_def)
  have whole: "length data \<le> ?H + ?T \<Longrightarrow> probe_sample data = data"
  proof -
    assume "length data \<le> ?H + ?T"
    then have "max ?H (length data - ?T) = ?H" by simp
    then show "probe_sample data = data" using eq by simp
  qed
  show ?thesis using eq whole by (auto simp: min_def max_def)
qed

theorem probe_sample_bounded_witness: "probe_sample [1, 2, 3] = [1, 2, 3]"
  using probe_sample_bounded [of "[1, 2, 3]"] by (simp add: foreign_probe_head_bytes_def)

section \<open>Native import\<close>

text \<open>
  A successful native import leaves a valid package on disk: the output file holds at most 64 KiB
  that parse as a package whose payload is the validated snapshot, and the snapshot passed the loader
  checks of its format.
\<close>

theorem import_native_sound:
  assumes "import_native probe name version license source asset_policy output_path h = (Inr p, h')"
    and "host_read_fault h output_path = None"
  shows "\<exists>data. host_lookup h' output_path = Some (Regular data) \<and> parse_package_bytes data = Inr p \<and>
           length data \<le> zenov_package_limit \<and> pk_payload p = fp_bytes probe \<and>
           (validate_zex1_import (fp_bytes probe) = Inr () \<or> validate_elf32_i386_import (fp_bytes probe) = Inr ())"
proof -
  obtain data r h1 where b: "import_package_bytes probe name version license source asset_policy = Inr data"
      "write_binary_atomic output_path data h = (r, h1)" "is_ok r" "read_package h1 output_path = Inr p" "h' = h1"
    using assms(1)
    by (auto simp: import_native_def Let_def is_ok_def split: sum.splits prod.splits if_splits)
  obtain m where m: "validated_import_manifest probe name version license source asset_policy = Inr m"
      "build_package_bytes m (fp_bytes probe) = Inr data" "length data \<le> zenov_package_limit"
    using b(1) by (auto simp: import_package_bytes_def throw_if_eq_Inr ebind_eq_Inr)
  have at_path: "host_lookup h1 output_path = Some (Regular data)"
    using atomic_write_ok [OF b(2,3)] by simp
  have "host_read_fault h1 = host_read_fault h" using atomic_write_faults [OF b(2)] .
  then have parse: "parse_package_bytes data = Inr p"
    using b(4) at_path assms(2) by (auto simp: read_package_def read_binary_def ebind_eq_Inr split: if_splits)
  have "pk_payload p = fp_bytes probe"
    using parse_package_payload [OF parse m(2)] .
  then show ?thesis
    using at_path parse m b(5) by (auto simp: validated_import_manifest_def ebind_eq_Inr split: if_splits)
qed

definition demo_probe :: foreign_probe where
  "demo_probe = \<lparr>fp_bytes = demo_zex, fp_detection = classify demo_zex ''demo.zex'',
                 fp_sha256 = hex_encode (sha256_spec demo_zex)\<rparr>"

definition empty_host :: host where
  "empty_host = \<lparr>host_nodes = [], host_read_fault = (\<lambda>_. None), host_write_fault = (\<lambda>_. None),
                 host_renames = [], host_error_text = []\<rparr>"

definition demo_import :: manifest where
  "demo_import = import_manifest ''demo'' ''1.0'' ''BSD'' ''local'' ''redistributable'' ''zex1'' ''.zex'' ''abi.zex1.v1''"

lemma demo_import_checks:
  "validate_manifest demo_import 33 = Inr ()" "kernel_safe_package_name ''demo''" "kernel_safe_package_version ''1.0''"
  "is_printable_text ''BSD'' 96" "is_printable_text ''local'' 256" "length (canonical_manifest demo_import) \<le> 600"
  "length demo_zex = 33" "det_format (classify demo_zex ''demo.zex'') = Fmt_zex1" "validate_zex1_import demo_zex = Inr ()"
  by code_simp+

lemma demo_import_plain: "plain_manifest demo_import"
  by code_simp

lemma demo_import_bytes:
  "import_package_bytes demo_probe ''demo'' ''1.0'' ''BSD'' ''local'' ''redistributable'' =
     Inr (package_bytes demo_import demo_zex)"
proof -
  note c = demo_import_checks
  have m: "validated_import_manifest demo_probe ''demo'' ''1.0'' ''BSD'' ''local'' ''redistributable'' = Inr demo_import"
    using c(8,9) by (simp add: validated_import_manifest_def demo_import_def demo_probe_def)
  have b: "build_package_bytes demo_import demo_zex = Inr (package_bytes demo_import demo_zex)"
    using c(1,6,7) by (simp add: build_package_iff package_limits_def max_manifest_size_def max_payload_size_def)
  have "sha256_hex demo_zex = Inr (hex_encode (sha256_spec demo_zex))"
    using c(7) by (simp add: sha256_hex_def sha256_hash_eq)
  then show ?thesis
    using c m b
    by (simp add: import_package_bytes_def zenov_package_limit_def package_bytes_def)
      (simp add: demo_probe_def demo_import_def import_manifest_def)
qed

lemma demo_import_write:
  "\<exists>h'. write_binary_atomic ''out'' data empty_host = (Inr (), h') \<and> read_binary h' ''out'' = Inr data"
  if "length data \<le> u64_max"
  using that
  by (simp add: write_binary_atomic_def empty_host_def path_parent_def Let_def host_rename_def host_lookup_put
      host_lookup_remove read_binary_def)

theorem import_native_sound_witness:
  "\<exists>p h'. import_native demo_probe ''demo'' ''1.0'' ''BSD'' ''local'' ''redistributable'' ''out'' empty_host = (Inr p, h') \<and>
     pk_payload p = demo_zex"
proof -
  let ?d = "package_bytes demo_import demo_zex"
  note c = demo_import_checks
  have lim: "package_limits demo_import demo_zex"
    using c(6,7) by (simp add: package_limits_def max_manifest_size_def max_payload_size_def)
  then have "length ?d \<le> u64_max" using package_length [of demo_import demo_zex] by (simp add: u64_max_def)
  then obtain h' where w: "write_binary_atomic ''out'' ?d empty_host = (Inr (), h')" "read_binary h' ''out'' = Inr ?d"
    using demo_import_write by blast
  have plain: "plain_manifest demo_import" "validate_manifest demo_import (length demo_zex) = Inr ()"
    using c(1,7) by (simp_all add: demo_import_plain)
  then have "parse_package_bytes ?d = Inr (package_of demo_import demo_zex)"
    using parse_package_built lim by blast
  then have run: "import_native demo_probe ''demo'' ''1.0'' ''BSD'' ''local'' ''redistributable'' ''out'' empty_host =
      (Inr (package_of demo_import demo_zex), h')"
    using w by (simp add: import_native_def demo_import_bytes read_package_def package_of_def)
      (simp add: demo_probe_def)
  have "host_read_fault empty_host ''out'' = None" by (simp add: empty_host_def)
  from import_native_sound [OF run this] run show ?thesis by (auto simp: demo_probe_def)
qed

end
