(* ===== verification/Zenpkg_Main.thy ===== *)
theory Zenpkg_Main
  imports Zenpkg_Probe
begin

text \<open>
  \<open>tools/zenpkg/main.cpp\<close>: the command line of \<open>zenpkg\<close>. A command returns its exit code and the
  text it prints, or the error, with the host's file system; \<open>zenpkg_main\<close> adds the error stream.
\<close>

section \<open>Arguments\<close>

record arguments =
  arg_positionals :: "string list"
  arg_options :: "(string \<times> string list) list"

definition push_option :: "string \<Rightarrow> string \<Rightarrow> (string \<times> string list) list \<Rightarrow> (string \<times> string list) list" where
  "push_option key value options =
     (if map_of options key = None then options @ [(key, [value])]
      else map (\<lambda>(k, vs). if k = key then (k, vs @ [value]) else (k, vs)) options)"

fun parse_arguments :: "string list \<Rightarrow> arguments \<Rightarrow> arguments result" where
  "parse_arguments [] a = Inr a"
| "parse_arguments (token # rest) a =
     (if starts_with_view token ''--''
      then case split_first (CHR ''='') (drop 2 token) of
             (key, Some value) \<Rightarrow>
               throw_if (key = [] \<or> value = []) ''invalid empty option''
                 (parse_arguments rest (a\<lparr>arg_options := push_option key value (arg_options a)\<rparr>))
           | (key, None) \<Rightarrow>
               (case rest of
                  [] \<Rightarrow> throw (''option --'' @ key @ '' requires a value'')
                | value # rest' \<Rightarrow>
                    throw_if (starts_with_view value ''--'') (''option --'' @ key @ '' requires a value'') (
                    throw_if (key = [] \<or> value = []) ''invalid empty option''
                      (parse_arguments rest' (a\<lparr>arg_options := push_option key value (arg_options a)\<rparr>))))
      else parse_arguments rest (a\<lparr>arg_positionals := arg_positionals a @ [token]\<rparr>))"

definition require_one :: "arguments \<Rightarrow> string \<Rightarrow> string result" where
  "require_one a name =
     (case map_of (arg_options a) name of
        Some [value] \<Rightarrow> Inr value
      | _ \<Rightarrow> throw (''exactly one --'' @ name @ '' is required''))"

definition many :: "arguments \<Rightarrow> string \<Rightarrow> string list" where
  "many a name = (case map_of (arg_options a) name of None \<Rightarrow> [] | Some values \<Rightarrow> values)"

text \<open>The keys are visited in the order of \<open>std::map\<close>.\<close>

definition reject_unknown :: "arguments \<Rightarrow> string list \<Rightarrow> unit result" where
  "reject_unknown a allowed =
     (case List.find (\<lambda>key. key \<notin> set allowed) (sort (map fst (arg_options a))) of
        None \<Rightarrow> Inr ()
      | Some key \<Rightarrow> throw (''unknown option: --'' @ key))"

definition require_positional :: "arguments \<Rightarrow> string \<Rightarrow> string result" where
  "require_positional a label =
     (case arg_positionals a of
        [value] \<Rightarrow> Inr value
      | _ \<Rightarrow> throw (''exactly one '' @ label @ '' is required''))"

definition zenpkg_usage :: string where
  "zenpkg_usage =
     ''zenpkg - deterministic ZenovOS package tooling'' @ [newline] @ [newline] @
     ''Usage:'' @ [newline] @
     ''  zenpkg pack --manifest FILE --payload FILE|- --output FILE.zpk'' @ [newline] @
     ''  zenpkg verify FILE.zpk'' @ [newline] @
     ''  zenpkg inspect FILE.zpk'' @ [newline] @
     ''  zenpkg probe FILE'' @ [newline] @
     ''  zenpkg import-native FILE --name NAME --version VERSION --license TEXT --source TEXT --asset-policy redistributable --output FILE.zpk'' @ [newline] @
     ''  zenpkg extract FILE.zpk --manifest-output FILE --payload-output FILE'' @ [newline] @
     ''  zenpkg resolve FILE.zpk --architecture ARCH --target TARGET --os-version VERSION [--capability NAME ...]'' @ [newline] @
     ''  zenpkg index --input DIRECTORY --output INDEX'' @ [newline] @
     ''  zenpkg manifest-check FILE --payload-size BYTES'' @ [newline] @
     ''  zenpkg hash FILE'' @ [newline] @ [newline] @
     ''Foreign package probing uses bounded head/tail sampling and a streaming SHA-256.'' @ [newline] @
     ''Detection never implies execution compatibility. Native import is limited to validated'' @ [newline] @
     ''ZEX1 and static ELF32/i386 payloads and still requires ZenRepo authorization.'' @ [newline] @ [newline] @
     ''Exit codes: 0 success, 2 invalid package/arguments, 3 incompatible resolution.'' @ [newline]"

section \<open>Numbers\<close>

text \<open>\<open>std::stoull(value, &consumed, 10)\<close>: leading spaces, an optional sign, digits; a minus wraps.\<close>

definition stoull :: "string \<Rightarrow> (nat \<times> nat) option" where
  "stoull value =
     (let spaces = length (takeWhile isspace value); body = drop spaces value;
          signed = body \<noteq> [] \<and> (hd body = CHR ''+'' \<or> hd body = CHR ''-'');
          negative = body \<noteq> [] \<and> hd body = CHR ''-'';
          digits = takeWhile isdigit (if signed then tl body else body); n = decimal_value digits
      in if digits = [] \<or> n > u64_max then None
         else Some (if negative then (2 ^ 64 - n) mod 2 ^ 64 else n,
                    spaces + (if signed then 1 else 0) + length digits))"

definition parse_u64 :: "string \<Rightarrow> string \<Rightarrow> nat result" where
  "parse_u64 value field =
     throw_if (value = []) (field @ '' is empty'') (
     case stoull value of
       None \<Rightarrow> throw (field @ '' is not an unsigned integer: '' @ value)
     | Some (parsed, consumed) \<Rightarrow>
         throw_if (consumed \<noteq> length value) (field @ '' contains trailing characters: '' @ value) (Inr parsed))"

section \<open>Commands\<close>

definition text_line :: "string \<Rightarrow> string \<Rightarrow> string" where
  "text_line label value = label @ '': '' @ value @ [newline]"

definition or_dash :: "string list \<Rightarrow> string" where
  "or_dash values = (if values = [] then ''-'' else join values '','')"

definition print_manifest :: "package \<Rightarrow> string" where
  "print_manifest p =
     (let m = pk_manifest p
      in text_line ''package'' (m_name m @ ''@'' @ m_version m) @ text_line ''kind'' (m_kind m) @
         text_line ''target'' (m_target m) @ text_line ''architecture'' (m_architecture m) @
         text_line ''runtime'' (m_runtime m) @ text_line ''payload_type'' (m_payload_type m) @
         text_line ''entrypoint'' (m_entrypoint m) @ text_line ''min_os'' (m_min_os m) @
         text_line ''asset_policy'' (m_asset_policy m) @ text_line ''payload_bytes'' (show_nat (length (pk_payload p))) @
         text_line ''manifest_sha256'' (hex_encode (pk_manifest_digest p)) @
         text_line ''payload_sha256'' (hex_encode (pk_payload_digest p)) @
         text_line ''package_sha256'' (pk_package_digest_hex p) @
         text_line ''capabilities'' (or_dash (m_capabilities m)) @
         text_line ''dependencies'' (or_dash (m_dependencies m)) @ text_line ''conflicts'' (or_dash (m_conflicts m)))"

definition confidence_text :: "detection \<Rightarrow> string" where
  "confidence_text d = (if det_extension_only d then ''extension-only'' else ''signature'')"

definition print_probe :: "string \<Rightarrow> streaming_foreign_probe \<Rightarrow> string" where
  "print_probe path probe =
     (let d = sp_detection probe
      in text_line ''path'' path @ text_line ''format'' (foreign_format_id (det_format d)) @
         text_line ''name'' (det_name d) @ text_line ''family'' (det_family d) @
         text_line ''support'' (support_text (det_support d)) @ text_line ''confidence'' (confidence_text d) @
         text_line ''reason'' (det_reason d) @ text_line ''bytes'' (show_nat (sp_file_size probe)) @
         text_line ''sampled_bytes'' (show_nat (sp_sampled_bytes probe)) @ text_line ''sha256'' (sp_sha256 probe) @
         ''PROBE_OK format='' @ foreign_format_id (det_format d) @ '' support='' @ support_text (det_support d) @
         '' confidence='' @ confidence_text d @ [newline])"

type_synonym outcome = "(nat \<times> string) result \<times> host"

text \<open>A command that only reads.\<close>

definition pure_command :: "host \<Rightarrow> (nat \<times> string) result \<Rightarrow> outcome" where
  "pure_command h r = (r, h)"

definition package_name :: "package \<Rightarrow> string" where
  "package_name p = m_name (pk_manifest p) @ ''@'' @ m_version (pk_manifest p)"

definition host_file_size :: "host \<Rightarrow> string \<Rightarrow> nat" where
  "host_file_size h path = (case host_lookup h path of Some (Regular data) \<Rightarrow> length data | _ \<Rightarrow> 0)"

definition run_pack :: "arguments \<Rightarrow> host \<Rightarrow> outcome" where
  "run_pack a h =
     (case ebind (reject_unknown a [''manifest'', ''payload'', ''output'']) (\<lambda>_.
           throw_if (arg_positionals a \<noteq> []) ''pack does not accept positional arguments'' (
           ebind (require_one a ''manifest'') (\<lambda>manifest_path.
           ebind (require_one a ''payload'') (\<lambda>payload.
           ebind (require_one a ''output'') (\<lambda>output_path.
           Inr (manifest_path, payload, output_path)))))) of
        Inl e \<Rightarrow> (Inl e, h)
      | Inr (manifest_path, payload, output_path) \<Rightarrow>
          (let (packed, h) = pack_to_file manifest_path payload output_path h
           in (ebind packed (\<lambda>_. ebind (read_package h output_path) (\<lambda>p.
                 Inr (0, ''PACK_OK '' @ package_name p @ '' bytes='' @ show_nat (host_file_size h output_path) @
                         '' sha256='' @ pk_package_digest_hex p @ [newline]))), h)))"

definition run_import_native :: "arguments \<Rightarrow> host \<Rightarrow> outcome" where
  "run_import_native a h =
     (case ebind (reject_unknown a [''name'', ''version'', ''license'', ''source'', ''asset-policy'', ''output'']) (\<lambda>_.
           ebind (require_positional a ''native executable path'') (\<lambda>input.
           ebind (require_one a ''output'') (\<lambda>output_path.
           ebind (require_native_import_candidate h input) (\<lambda>candidate.
           ebind (require_one a ''name'') (\<lambda>name.
           ebind (require_one a ''version'') (\<lambda>version.
           ebind (require_one a ''license'') (\<lambda>license.
           ebind (require_one a ''source'') (\<lambda>source.
           ebind (require_one a ''asset-policy'') (\<lambda>asset_policy.
           Inr (candidate, name, version, license, source, asset_policy, output_path)))))))))) of
        Inl e \<Rightarrow> (Inl e, h)
      | Inr (candidate, name, version, license, source, asset_policy, output_path) \<Rightarrow>
          (let (imported, h) = import_native candidate name version license source asset_policy output_path h
           in (ebind imported (\<lambda>p.
                 Inr (0, ''IMPORT_NATIVE_OK '' @ package_name p @ '' payload='' @ m_payload_type (pk_manifest p) @
                         '' bytes='' @ show_nat (host_file_size h output_path) @ '' sha256='' @
                         pk_package_digest_hex p @ [newline])), h)))"

definition run_extract :: "arguments \<Rightarrow> host \<Rightarrow> outcome" where
  "run_extract a h =
     (case ebind (reject_unknown a [''manifest-output'', ''payload-output'']) (\<lambda>_.
           ebind (require_positional a ''package path'') (\<lambda>path.
           ebind (require_one a ''manifest-output'') (\<lambda>manifest_output.
           ebind (require_one a ''payload-output'') (\<lambda>payload_output.
           Inr (path, manifest_output, payload_output))))) of
        Inl e \<Rightarrow> (Inl e, h)
      | Inr (path, manifest_output, payload_output) \<Rightarrow>
          (let (extracted, h) = extract_package path manifest_output payload_output h
           in (ebind extracted (\<lambda>_. Inr (0, ''EXTRACT_OK'' @ [newline])), h)))"

definition run_resolve :: "arguments \<Rightarrow> host \<Rightarrow> (nat \<times> string) result" where
  "run_resolve a h =
     ebind (reject_unknown a [''architecture'', ''target'', ''os-version'', ''capability'']) (\<lambda>_.
     ebind (require_positional a ''package path'') (\<lambda>path.
     ebind (read_package h path) (\<lambda>p.
     ebind (require_one a ''architecture'') (\<lambda>architecture.
     ebind (require_one a ''target'') (\<lambda>target.
     ebind (require_one a ''os-version'') (\<lambda>os_version.
     throw_if (\<not> is_safe_identifier architecture) ''invalid host architecture'' (
     throw_if (\<not> is_safe_identifier target) ''invalid host target'' (
     throw_if (\<not> is_safe_version os_version) ''invalid host OS version'' (
     ebind (resolve_manifest (pk_manifest p) architecture target os_version (set (many a ''capability''))) (\<lambda>r.
     if res_compatible r then Inr (0, ''RESOLVE_OK '' @ package_name p @ [newline])
     else Inr (3, ''RESOLVE_INCOMPATIBLE '' @ package_name p @ [newline] @
                  concat (map (text_line ''reason'') (res_reasons r)))))))))))))"

definition run_index :: "arguments \<Rightarrow> host \<Rightarrow> outcome" where
  "run_index a h =
     (case ebind (reject_unknown a [''input'', ''output'']) (\<lambda>_.
           throw_if (arg_positionals a \<noteq> []) ''index does not accept positional arguments'' (
           ebind (require_one a ''input'') (\<lambda>input.
           ebind (require_one a ''output'') (\<lambda>output_path.
           ebind (scan_packages h input) (\<lambda>records. Inr (records, output_path)))))) of
        Inl e \<Rightarrow> (Inl e, h)
      | Inr (records, output_path) \<Rightarrow>
          (let (written, h) = write_text_atomic output_path (render_index records) h
           in (ebind written (\<lambda>_.
                 Inr (0, ''INDEX_OK packages='' @ show_nat (length records) @ '' output='' @ output_path @ [newline])), h)))"

definition run_command :: "string \<Rightarrow> arguments \<Rightarrow> host \<Rightarrow> outcome" where
  "run_command command a h =
     (if command = ''pack'' then run_pack a h
      else if command = ''verify'' then pure_command h (
        ebind (reject_unknown a []) (\<lambda>_.
        ebind (require_positional a ''package path'') (\<lambda>path.
        ebind (read_package h path) (\<lambda>p.
        Inr (0, ''VERIFY_OK '' @ package_name p @ '' sha256='' @ pk_package_digest_hex p @ [newline])))))
      else if command = ''inspect'' then pure_command h (
        ebind (reject_unknown a []) (\<lambda>_.
        ebind (require_positional a ''package path'') (\<lambda>path.
        ebind (read_package h path) (\<lambda>p. Inr (0, print_manifest p)))))
      else if command = ''probe'' then pure_command h (
        ebind (reject_unknown a []) (\<lambda>_.
        ebind (require_positional a ''file path'') (\<lambda>path.
        ebind (probe_foreign_streaming h path) (\<lambda>probe. Inr (0, print_probe path probe)))))
      else if command = ''import-native'' then run_import_native a h
      else if command = ''extract'' then run_extract a h
      else if command = ''resolve'' then pure_command h (run_resolve a h)
      else if command = ''index'' then run_index a h
      else if command = ''hash'' then pure_command h (
        ebind (reject_unknown a []) (\<lambda>_.
        ebind (require_positional a ''file path'') (\<lambda>path.
        ebind (sha256_file_streaming h path) (\<lambda>digest. Inr (0, sd_sha256 digest @ [newline])))))
      else if command = ''manifest-check'' then pure_command h (
        ebind (reject_unknown a [''payload-size'']) (\<lambda>_.
        ebind (require_positional a ''manifest path'') (\<lambda>path.
        ebind (require_one a ''payload-size'') (\<lambda>size_text.
        ebind (parse_u64 size_text ''payload-size'') (\<lambda>payload_size.
        ebind (read_text h path) (\<lambda>input.
        ebind (parse_and_validate_manifest input payload_size) (\<lambda>m.
        Inr (0, ''MANIFEST_OK '' @ m_name m @ ''@'' @ m_version m @ [newline] @ canonical_manifest m))))))))
      else pure_command h (throw (''unknown command: '' @ command)))"

text \<open>The exit code, the two output streams and the file system after the program.\<close>

definition zenpkg_main :: "string list \<Rightarrow> host \<Rightarrow> nat \<times> string \<times> string \<times> host" where
  "zenpkg_main args h =
     (case args of
        [] \<Rightarrow> (2, zenpkg_usage, [], h)
      | command # rest \<Rightarrow>
          if command = ''--help'' \<or> command = ''help'' then (0, zenpkg_usage, [], h)
          else case parse_arguments rest \<lparr>arg_positionals = [], arg_options = []\<rparr> of
                 Inl (Error message) \<Rightarrow> (2, [], ''zenpkg: error: '' @ message @ [newline], h)
               | Inr a \<Rightarrow>
                   (case run_command command a h of
                      (Inl (Error message), h) \<Rightarrow> (2, [], ''zenpkg: error: '' @ message @ [newline], h)
                    | (Inr (code, printed), h) \<Rightarrow> (code, printed, [], h)))"

section \<open>Properties\<close>

lemma run_command_code:
  "run_command command a h = (Inr (code, printed), h') \<Longrightarrow> code = 0 \<or> (code = 3 \<and> command = ''resolve'')"
  by (auto simp: run_command_def run_pack_def run_import_native_def run_extract_def run_resolve_def run_index_def
      pure_command_def ebind_eq_Inr throw_if_eq_Inr split: if_splits sum.splits prod.splits)

text \<open>
  The exit codes of \<open>zenpkg\<close> mean what its usage says: 0, 2 or 3 and nothing else; 3 only for
  \<open>resolve\<close>; an error message appears exactly when arguments were given and the code is 2.
\<close>

theorem zenpkg_exit_codes:
  assumes "zenpkg_main args h = (code, printed, message, h')"
  shows "code \<in> {0, 2, 3} \<and> (code = 3 \<longrightarrow> (\<exists>rest. args = ''resolve'' # rest)) \<and>
         (message \<noteq> [] \<longleftrightarrow> code = 2 \<and> args \<noteq> [])"
proof (cases args)
  case Nil
  then show ?thesis using assms by (simp add: zenpkg_main_def)
next
  case (Cons command rest)
  show ?thesis
  proof (cases "command = ''--help'' \<or> command = ''help''")
    case True
    then show ?thesis using assms Cons by (auto simp: zenpkg_main_def)
  next
    case False
    show ?thesis
    proof (cases "parse_arguments rest \<lparr>arg_positionals = [], arg_options = []\<rparr>")
      case (Inl e)
      then show ?thesis using assms Cons False by (cases e) (auto simp: zenpkg_main_def)
    next
      case (Inr a)
      obtain r h1 where r: "run_command command a h = (r, h1)" by fastforce
      show ?thesis
      proof (cases r)
        case (Inl e)
        then show ?thesis using assms Cons False Inr r by (cases e) (auto simp: zenpkg_main_def)
      next
        case (Inr cp)
        then show ?thesis
          using assms Cons False \<open>parse_arguments _ _ = Inr a\<close> r run_command_code [of command a h]
          by (cases cp) (auto simp: zenpkg_main_def)
      qed
    qed
  qed
qed

theorem zenpkg_exit_codes_witness:
  "fst (zenpkg_main [''frobnicate''] empty_host) = 2 \<and> fst (snd (snd (zenpkg_main [''frobnicate''] empty_host))) \<noteq> []"
proof -
  obtain code printed message h' where r: "zenpkg_main [''frobnicate''] empty_host = (code, printed, message, h')"
    by (metis prod_cases4)
  moreover have "fst (zenpkg_main [''frobnicate''] empty_host) = 2" by code_simp
  ultimately show ?thesis using zenpkg_exit_codes [OF r] by simp
qed

lemma extract_writes:
  assumes "read_package h path = Inr p" and "extract_package path mo po h = (Inr u, h')"
  shows "host_lookup h' po = Some (Regular (pk_payload p))"
    and "mo \<noteq> po \<Longrightarrow> mo \<noteq> po @ ''.tmp'' \<Longrightarrow> host_lookup h' mo = Some (Regular (bytes_of_string (pk_manifest_text p)))"
proof -
  obtain r1 h1 where w1: "write_binary_atomic mo (bytes_of_string (pk_manifest_text p)) h = (r1, h1)" by fastforce
  have ok1: "is_ok r1" and w2: "write_binary_atomic po (pk_payload p) h1 = (Inr u, h')"
    using assms w1 by (auto simp: extract_package_def write_text_atomic_def is_ok_def split: sum.splits)
  show "host_lookup h' po = Some (Regular (pk_payload p))"
    using atomic_write_ok [OF w2] by (simp add: is_ok_def)
  have "host_lookup h1 mo = Some (Regular (bytes_of_string (pk_manifest_text p)))" by (rule atomic_write_ok [OF w1 ok1])
  then show "mo \<noteq> po \<Longrightarrow> mo \<noteq> po @ ''.tmp'' \<Longrightarrow> host_lookup h' mo = Some (Regular (bytes_of_string (pk_manifest_text p)))"
    using write_binary_atomic_spec [OF w2] by auto
qed

text \<open>
  Packing a manifest and a payload and extracting the package gives the payload back byte for
  byte, and a manifest file that holds the canonical text of the manifest.
\<close>

theorem pack_extract_round_trip:
  assumes "pack_to_file manifest_path payload_path output_path h = (Inr u, h1)"
    and "host_read_fault h output_path = None"
    and "if payload_path = ''-'' then payload = [] else read_binary h payload_path = Inr payload"
    and "read_text h manifest_path = Inr input"
    and "extract_package output_path manifest_output payload_output h1 = (Inr v, h2)"
    and "manifest_output \<noteq> payload_output" and "manifest_output \<noteq> payload_output @ ''.tmp''"
  shows "\<exists>m. parse_and_validate_manifest input (length payload) = Inr m \<and>
             host_lookup h2 payload_output = Some (Regular payload) \<and>
             host_lookup h2 manifest_output = Some (Regular (bytes_of_string (canonical_manifest m)))"
proof -
  obtain m data where m: "parse_and_validate_manifest input (length payload) = Inr m"
      "build_package_bytes m payload = Inr data" "write_binary_atomic output_path data h = (Inr u, h1)"
    using assms(1,3,4) by (auto simp: pack_to_file_def ebind_eq_Inr split: sum.splits if_splits)
  have limits: "package_limits m payload" and d: "data = package_bytes m payload"
    using m(2) by (auto simp: build_package_iff)
  have on_disk: "host_lookup h1 output_path = Some (Regular data)"
    using atomic_write_ok [OF m(3)] by (simp add: is_ok_def)
  have "host_read_fault h1 = host_read_fault h" using atomic_write_faults [OF m(3)] .
  then have "read_binary h1 output_path = Inr data"
    using on_disk assms(2) package_length [OF limits] d by (simp add: read_binary_def u64_max_def)
  moreover have "parse_package_bytes data = Inr (package_of m payload)"
    using parse_package_built parse_validated [OF m(1)] limits d by blast
  ultimately have "read_package h1 output_path = Inr (package_of m payload)" by (simp add: read_package_def)
  from extract_writes [OF this assms(5)] show ?thesis
    using m(1) assms(6,7) by (simp add: package_of_def)
qed

lemma write_without_faults:
  assumes "host_write_fault h (path @ ''.tmp'') = None" and "host_renames h = []"
  shows "\<exists>h'. write_binary_atomic path data h = (Inr (), h') \<and> host_write_fault h' = host_write_fault h \<and> host_renames h' = []"
proof -
  define h1 where "h1 = host_put (path @ ''.tmp'') (Regular data)
      (if path_parent path \<noteq> [] then host_create_directories (path_parent path) h else h)"
  have h1: "host_renames h1 = []" "host_write_fault h1 = host_write_fault h"
      "host_lookup h1 (path @ ''.tmp'') = Some (Regular data)"
    using assms(2) by (simp_all add: h1_def host_lookup_put)
  then have "\<exists>h'. host_rename (path @ ''.tmp'') path h1 = (True, h') \<and> host_write_fault h' = host_write_fault h \<and> host_renames h' = []"
    by (simp add: host_rename_def Let_def)
  then show ?thesis using assms(1) by (auto simp: write_binary_atomic_def Let_def h1_def)
qed

definition demo_host :: host where
  "demo_host = empty_host\<lparr>host_nodes := [(''m'', Regular (bytes_of_string demo_manifest_text)), (''p'', Regular [7])]\<rparr>"

theorem pack_extract_round_trip_witness:
  "\<exists>h1 h2. pack_to_file ''m'' ''p'' ''out'' demo_host = (Inr (), h1) \<and>
     extract_package ''out'' ''mo'' ''po'' h1 = (Inr (), h2) \<and> host_lookup h2 ''po'' = Some (Regular [7])"
proof -
  have reads: "read_binary demo_host ''p'' = Inr [7]" "read_text demo_host ''m'' = Inr demo_manifest_text"
    by (simp_all add: read_text_def read_binary_def demo_host_def empty_host_def host_lookup_def u64_max_def
        demo_manifest_text_def field_line_def)
  have clean: "host_write_fault demo_host x = None" "host_renames demo_host = []" "host_read_fault demo_host x = None" for x
    by (simp_all add: demo_host_def empty_host_def)
  let ?d = "package_bytes demo_manifest [7]"
  obtain h1 where w: "write_binary_atomic ''out'' ?d demo_host = (Inr (), h1)"
      "host_write_fault h1 = host_write_fault demo_host" "host_renames h1 = []"
    using write_without_faults [OF clean(1,2)] by blast
  have pack: "pack_to_file ''m'' ''p'' ''out'' demo_host = (Inr (), h1)"
    using reads demo_manifest_parses demo_package w(1) by (simp add: pack_to_file_def)
  have limits: "package_limits demo_manifest [7]" using demo_package by (simp add: build_package_iff)
  have "host_lookup h1 ''out'' = Some (Regular ?d)" using atomic_write_ok [OF w(1)] by (simp add: is_ok_def)
  then have "read_binary h1 ''out'' = Inr ?d"
    using atomic_write_faults [OF w(1)] clean(3) package_length [OF limits] by (simp add: read_binary_def u64_max_def)
  moreover have "parse_package_bytes ?d = Inr (package_of demo_manifest [7])"
    using parse_package_built [of demo_manifest "[7]"] demo_package parse_validated [OF demo_manifest_parses]
    by (simp add: build_package_iff)
  ultimately have rp: "read_package h1 ''out'' = Inr (package_of demo_manifest [7])" by (simp add: read_package_def)
  obtain h' where w2: "write_binary_atomic ''mo'' (bytes_of_string (pk_manifest_text (package_of demo_manifest [7]))) h1 = (Inr (), h')"
      "host_write_fault h' = host_write_fault h1" "host_renames h' = []"
    using write_without_faults [of h1 "''mo''"] w(2,3) clean(1) by metis
  obtain h2 where w3: "write_binary_atomic ''po'' (pk_payload (package_of demo_manifest [7])) h' = (Inr (), h2)"
    using write_without_faults [of h' "''po''"] w(2) w2(2,3) clean(1) by metis
  have ex: "extract_package ''out'' ''mo'' ''po'' h1 = (Inr (), h2)"
    using rp w2(1) w3 by (simp add: extract_package_def write_text_atomic_def)
  from pack_extract_round_trip [OF pack clean(3) _ reads(2) ex, of "[7]"] reads(1) pack ex show ?thesis by auto
qed

lemma parse_u64_negative: "parse_u64 ''-1'' ''payload-size'' = Inr 18446744073709551615"
  by code_simp

end
