(* ===== verification/Zex_Tools.thy ===== *)
theory Zex_Tools
  imports Zenpkg_Foreign Host_Files
begin

text \<open>
  The tools that produce ZEX1 executables: \<open>tools/zex_pack.cpp\<close> wraps a flat binary, and
  \<open>tools/zenov_app_compiler.cpp\<close> compiles a \<open>.zv\<close> source to machine code. What they write is accepted by
  the import check of \<open>zenpkg\<close>, and the compiled code, run on the processor with the system calls of the
  kernel, prints the messages of the source in order and exits with its code.
\<close>

section \<open>The packer\<close>

definition zex_stack_bytes :: u32 where "zex_stack_bytes = 16 * 1024"

text \<open>The 32-byte header and the image, as both tools write them.\<close>

definition zex_file :: "bytes \<Rightarrow> bytes" where
  "zex_file img =
     bytes_of_string ''ZEX1'' @ le_bytes 4 (1 :: u32) @ le_bytes 4 (32 :: u32) @
     le_bytes 4 (word_of_nat (length img) :: u32) @ le_bytes 4 (0 :: u32) @ le_bytes 4 (0 :: u32) @
     le_bytes 4 zex_stack_bytes @ le_bytes 4 (fnv1a img) @ img"

definition read_flat :: "host \<Rightarrow> string \<Rightarrow> bytes result" where
  "read_flat h path =
     (case (host_read_fault h path, host_lookup h path) of
        (Some CannotOpen, _) \<Rightarrow> throw (''cannot open input: '' @ path)
      | (Some CannotSize, Some (Regular _)) \<Rightarrow> throw ''invalid application size''
      | (fault, Some (Regular data)) \<Rightarrow>
          throw_if (data = [] \<or> length data > 512 * 1024) ''invalid application size'' (
          throw_if (fault = Some ShortRead) ''cannot read input'' (Inr data))
      | _ \<Rightarrow> throw (''cannot open input: '' @ path))"

definition zex_pack_main :: "string list \<Rightarrow> host \<Rightarrow> nat \<times> string \<times> string \<times> host" where
  "zex_pack_main argv h =
     (if length argv + 1 \<noteq> 3 then (2, [], ''usage: zex-pack <flat-binary> <output.zex>'' @ [newline], h)
      else let failed = (\<lambda>e h. (1, [], ''zex-pack: '' @ e @ [newline], h))
           in case read_flat h (argv ! 0) of
                Inl (Error e) \<Rightarrow> failed e h
              | Inr img \<Rightarrow>
                  (case write_stream (argv ! 1) (zex_file img) ''cannot open output'' ''cannot write output'' h of
                     (Inl (Error e), h) \<Rightarrow> failed e h
                   | (Inr _, h) \<Rightarrow>
                       (0, ''zex-pack: OK image='' @ show_nat (length img) @ '' stack='' @ show_nat (unat zex_stack_bytes) @
                           '' checksum='' @ show_nat (unat (fnv1a img)) @ [newline], [], h)))"

section \<open>The compiler's front end\<close>

definition app_trim :: "string \<Rightarrow> string" where
  "app_trim value = strip (\<lambda>c. c = CHR '' '' \<or> c = CHR 0x09 \<or> c = carriage_return) value"

text \<open>The loop of \<open>quoted\<close>: the literal, and what follows its closing quote.\<close>

fun quoted_loop :: "string \<Rightarrow> string \<Rightarrow> (string \<times> string option) result" where
  "quoted_loop [] out = Inr (out, None)"
| "quoted_loop (c # cs) out =
     (if c = CHR 0x22 then Inr (out, Some cs)
      else if c = CHR 0x5C
      then (case cs of
              [] \<Rightarrow> throw ''unterminated escape''
            | e # es \<Rightarrow>
                if e = CHR ''n'' then quoted_loop es (out @ [newline])
                else if e = CHR ''r'' then quoted_loop es (out @ [carriage_return])
                else if e = CHR ''t'' then quoted_loop es (out @ [CHR 0x09])
                else if e = CHR 0x5C \<or> e = CHR 0x22 then quoted_loop es (out @ [e])
                else throw ''unsupported escape'')
      else quoted_loop cs (out @ [c]))"

definition quoted :: "string \<Rightarrow> string \<Rightarrow> string result" where
  "quoted line keyword =
     throw_if (\<not> has_prefix line keyword \<or> length line < length keyword + 3 \<or> last line \<noteq> CHR '';'')
       (''unsupported ZenovOS app statement: '' @ line) (
     throw_if (line ! length keyword \<noteq> CHR ''('' \<or> line ! (length keyword + 1) \<noteq> CHR 0x22)
       (''expected quoted string: '' @ line) (
     ebind (quoted_loop (drop (length keyword + 2) line) []) (\<lambda>(out, rest).
     throw_if (rest \<noteq> Some '');'') (''malformed call: '' @ line) (
     throw_if (length out > 4096) ''string literal too large'' (Inr out)))))"

text \<open>\<open>std::stol(number, &used, 10)\<close>: both of its exceptions carry its name.\<close>

definition stol :: "string \<Rightarrow> (int \<times> nat) result" where
  "stol number =
     (let spaces = length (takeWhile isspace number); body = drop spaces number;
          signed = body \<noteq> [] \<and> (hd body = CHR ''+'' \<or> hd body = CHR ''-'');
          negative = body \<noteq> [] \<and> hd body = CHR ''-'';
          digits = takeWhile isdigit (if signed then tl body else body);
          n = (if negative then - int (decimal_value digits) else int (decimal_value digits))
      in throw_if (digits = [] \<or> n < - (2 ^ 63) \<or> n \<ge> 2 ^ 63) ''stol''
           (Inr (n, spaces + (if signed then 1 else 0) + length digits)))"

definition parse_exit :: "string \<Rightarrow> nat result" where
  "parse_exit line =
     throw_if (\<not> has_prefix line ''exit('' \<or> length line < 8 \<or> drop (length line - 2) line \<noteq> '');'')
       ''malformed exit statement'' (
     let number = take (length line - 7) (drop 5 line)
     in ebind (stol number) (\<lambda>(parsed, used).
        throw_if (used \<noteq> length number \<or> parsed < 0 \<or> parsed > 255) ''exit code must be 0..255''
          (Inr (nat parsed))))"

record app_source =
  as_name :: string
  as_messages :: "string list"
  as_exit :: "nat option"

definition parse_app_line :: "string \<Rightarrow> app_source \<Rightarrow> app_source result" where
  "parse_app_line line st =
     (let line = app_trim line
      in if line = [] \<or> has_prefix line ''//'' \<or> hd line = CHR ''#'' then Inr st
         else if has_prefix line ''app''
         then throw_if (as_name st \<noteq> []) ''duplicate app declaration'' (
              ebind (quoted line ''app'') (\<lambda>n. Inr (st\<lparr>as_name := n\<rparr>)))
         else if has_prefix line ''say''
         then ebind (quoted line ''say'') (\<lambda>m. Inr (st\<lparr>as_messages := as_messages st @ [m]\<rparr>))
         else if has_prefix line ''exit''
         then ebind (parse_exit line) (\<lambda>code. Inr (st\<lparr>as_exit := Some code\<rparr>))
         else throw (''unsupported ZenovOS app statement: '' @ line))"

primrec parse_app_lines :: "string list \<Rightarrow> app_source \<Rightarrow> app_source result" where
  "parse_app_lines [] st = Inr st"
| "parse_app_lines (l # ls) st = ebind (parse_app_line l st) (parse_app_lines ls)"

text \<open>The source's declarations after the checks that follow the loop.\<close>

definition parse_app :: "string \<Rightarrow> (string \<times> string list \<times> nat) result" where
  "parse_app source =
     ebind (parse_app_lines (getlines source) \<lparr>as_name = [], as_messages = [], as_exit = None\<rparr>) (\<lambda>st.
     throw_if (as_name st = []) ''missing app declaration'' (
     throw_if (as_messages st = []) ''app must emit at least one message'' (
     case as_exit st of
       None \<Rightarrow> throw ''missing exit statement''
     | Some code \<Rightarrow> Inr (as_name st, as_messages st, code))))"

section \<open>Code generation\<close>

definition emit_u32 :: "bytes \<Rightarrow> u32 \<Rightarrow> bytes" where
  "emit_u32 out value = out @ le_bytes 4 value"

text \<open>\<open>std::vector::at\<close> throws outside the vector.\<close>

definition patch_u32 :: "bytes \<Rightarrow> nat \<Rightarrow> u32 \<Rightarrow> bytes result" where
  "patch_u32 out at value = throw_if (at + 4 > length out) ''vector::_M_range_check'' (Inr (blit at (le_bytes 4 value) out))"

definition emit_say :: "string \<Rightarrow> bytes \<times> (string \<times> nat) list \<Rightarrow> bytes \<times> (string \<times> nat) list" where
  "emit_say message st =
     (let (img, patches) = st;
          img = emit_u32 (img @ [0xB8]) 1 @ [0xBB];
          patch = length img;
          img = emit_u32 img 0;
          img = emit_u32 (img @ [0xB9]) (word_of_nat (length message)) @ [0xCD, 0x80]
      in (img, patches @ [(message, patch)]))"

definition emit_exit :: "nat \<Rightarrow> bytes \<Rightarrow> bytes" where
  "emit_exit exit_code img =
     emit_u32 (emit_u32 (img @ [0xBB]) (word_of_nat exit_code) @ [0xB8]) 0 @ [0xCD, 0x80, 0x0F, 0x0B]"

definition place_text :: "string \<times> nat \<Rightarrow> bytes \<Rightarrow> bytes result" where
  "place_text item img =
     (let offset = word_of_nat (length img)
      in ebind (patch_u32 img (snd item) offset) (\<lambda>img. Inr (img @ bytes_of_string (fst item))))"

primrec place_texts :: "(string \<times> nat) list \<Rightarrow> bytes \<Rightarrow> bytes result" where
  "place_texts [] img = Inr img"
| "place_texts (item # items) img = ebind (place_text item img) (place_texts items)"

definition generate :: "string list \<Rightarrow> nat \<Rightarrow> bytes result" where
  "generate messages exit_code =
     (let (img, patches) = fold emit_say messages ([], [])
      in place_texts patches (emit_exit exit_code img))"

text \<open>
  \<open>compile\<close>. When reading the source fails, \<open>std::getline\<close> ends the loop as at the end of the file; the model
  lets such a read yield nothing.
\<close>

definition compile_app :: "host \<Rightarrow> string \<Rightarrow> (string \<times> bytes) result" where
  "compile_app h path =
     (case (host_read_fault h path, host_lookup h path) of
        (Some CannotOpen, _) \<Rightarrow> throw (''cannot open source: '' @ path)
      | (fault, Some (Regular data)) \<Rightarrow>
          ebind (parse_app (if fault = Some ShortRead then [] else string_of_bytes data)) (\<lambda>(name, messages, exit_code).
          ebind (generate messages exit_code) (\<lambda>img. Inr (name, img)))
      | _ \<Rightarrow> throw (''cannot open source: '' @ path))"

definition app_compiler_main :: "string list \<Rightarrow> host \<Rightarrow> nat \<times> string \<times> string \<times> host" where
  "app_compiler_main argv h =
     (if length argv + 1 \<noteq> 6 \<or> argv ! 1 \<noteq> ''-o'' \<or> argv ! 3 \<noteq> ''--abi'' \<or> argv ! 4 \<noteq> ''0.1.1''
      then (2, [], ''usage: zenov-app-compiler <source.zv> -o <output.zex> --abi 0.1.1'' @ [newline], h)
      else let failed = (\<lambda>e h. (1, [], ''zenov-app-compiler: '' @ e @ [newline], h))
           in case compile_app h (argv ! 0) of
                Inl (Error e) \<Rightarrow> failed e h
              | Inr (name, img) \<Rightarrow>
                  (case write_stream (argv ! 2) (zex_file img) ''cannot open output'' ''cannot write output'' h of
                     (Inl (Error e), h) \<Rightarrow> failed e h
                   | (Inr _, h) \<Rightarrow>
                       (0, ''ZENOV_SOURCE_APP_BUILD_OK app='' @ name @ '' abi=0.1.1 bytes='' @
                           show_nat (32 + length img) @ [newline], [], h)))"

section \<open>Running an application\<close>

text \<open>
  The processor and the system calls a compiled application uses, as its specification: \<open>mov r32, imm32\<close>
  for three registers, \<open>int 0x80\<close> and \<open>ud2\<close>. The loader places the image at user offset 0. System call 0
  ends the application with the code in \<open>ebx\<close>; system call 1 prints \<open>ecx\<close> bytes at \<open>ebx\<close> and returns
  their number, or an error for bytes outside the image (\<open>syscall_dispatch\<close> of \<open>process.inc\<close>). Anything
  else, and any other instruction, has no value here.
\<close>

record user_cpu =
  cpu_eip :: nat
  cpu_eax :: u32
  cpu_ebx :: u32
  cpu_ecx :: u32

datatype app_state = Running user_cpu string | Exited u32 string

definition system_call :: "bytes \<Rightarrow> user_cpu \<Rightarrow> string \<Rightarrow> app_state option" where
  "system_call img cpu console =
     (if cpu_eax cpu = 0 then Some (Exited (cpu_ebx cpu) console)
      else if cpu_eax cpu = 1
      then if unat (cpu_ebx cpu) + unat (cpu_ecx cpu) \<le> length img
           then Some (Running (cpu\<lparr>cpu_eax := cpu_ecx cpu\<rparr>)
                  (console @ string_of_bytes (take (unat (cpu_ecx cpu)) (drop (unat (cpu_ebx cpu)) img))))
           else Some (Running (cpu\<lparr>cpu_eax := 0xFFFFFFFB\<rparr>) console)
      else None)"

definition app_step :: "bytes \<Rightarrow> user_cpu \<Rightarrow> string \<Rightarrow> app_state option" where
  "app_step img cpu console =
     (let code = drop (cpu_eip cpu) img; imm = le_word (take 4 (drop 1 code)) :: u32;
          after = (\<lambda>n. cpu\<lparr>cpu_eip := cpu_eip cpu + n\<rparr>)
      in if length code < 2 then None
         else if code ! 0 = 0xCD \<and> code ! 1 = 0x80 then system_call img (after 2) console
         else if length code < 5 then None
         else if code ! 0 = 0xB8 then Some (Running ((after 5)\<lparr>cpu_eax := imm\<rparr>) console)
         else if code ! 0 = 0xB9 then Some (Running ((after 5)\<lparr>cpu_ecx := imm\<rparr>) console)
         else if code ! 0 = 0xBB then Some (Running ((after 5)\<lparr>cpu_ebx := imm\<rparr>) console)
         else None)"

primrec app_run :: "nat \<Rightarrow> bytes \<Rightarrow> user_cpu \<Rightarrow> string \<Rightarrow> (u32 \<times> string) option" where
  "app_run 0 img cpu console = None"
| "app_run (Suc fuel) img cpu console =
     (case app_step img cpu console of
        None \<Rightarrow> None
      | Some (Exited code console) \<Rightarrow> Some (code, console)
      | Some (Running cpu console) \<Rightarrow> app_run fuel img cpu console)"

section \<open>The shape of the generated code\<close>

definition call_bytes :: "u32 \<Rightarrow> nat \<Rightarrow> bytes" where
  "call_bytes offset n =
     [0xB8] @ le_bytes 4 (1 :: u32) @ [0xBB] @ le_bytes 4 offset @ [0xB9] @ le_bytes 4 (word_of_nat n :: u32) @ [0xCD, 0x80]"

definition exit_bytes :: "nat \<Rightarrow> bytes" where
  "exit_bytes code = [0xBB] @ le_bytes 4 (word_of_nat code :: u32) @ [0xB8] @ le_bytes 4 (0 :: u32) @ [0xCD, 0x80, 0x0F, 0x0B]"

primrec call_list :: "nat \<Rightarrow> string list \<Rightarrow> bytes" where
  "call_list offset [] = []"
| "call_list offset (m # ms) = call_bytes (word_of_nat offset) (length m) @ call_list (offset + length m) ms"

definition blank_calls :: "string list \<Rightarrow> bytes" where
  "blank_calls ms = concat (map (\<lambda>m. call_bytes 0 (length m)) ms)"

primrec patch_list :: "nat \<Rightarrow> string list \<Rightarrow> (string \<times> nat) list" where
  "patch_list at [] = []"
| "patch_list at (m # ms) = (m, at + 6) # patch_list (at + 17) ms"

lemma length_call_bytes [simp]: "length (call_bytes offset n) = 17"
  by (simp add: call_bytes_def)

lemma length_exit_bytes [simp]: "length (exit_bytes code) = 14"
  by (simp add: exit_bytes_def)

lemma length_call_list [simp]: "length (call_list offset ms) = 17 * length ms"
  by (induction ms arbitrary: offset) simp_all

lemma length_blank_calls [simp]: "length (blank_calls ms) = 17 * length ms"
  by (induction ms) (simp_all add: blank_calls_def)

lemma emit_calls:
  "fold emit_say ms (img, patches) = (img @ blank_calls ms, patches @ patch_list (length img) ms)"
proof (induction ms arbitrary: img patches)
  case (Cons m ms)
  have "emit_say m (img, patches) = (img @ call_bytes 0 (length m), patches @ [(m, length img + 6)])"
    by (simp add: emit_say_def emit_u32_def call_bytes_def)
  then show ?case by (simp add: Cons.IH blank_calls_def)
qed (simp add: blank_calls_def)

lemma patch_call:
  "patch_u32 (pre @ call_bytes 0 n @ rest) (length pre + 6) offset = Inr (pre @ call_bytes offset n @ rest)"
  by (simp add: patch_u32_def throw_if_def blit_def call_bytes_def)

lemma place_texts_shape:
  "length whole = length pre + 17 * length ms + length tl' \<Longrightarrow> whole = pre @ blank_calls ms @ tl' \<Longrightarrow>
     place_texts (patch_list (length pre) ms) whole =
       Inr (pre @ call_list (length whole) ms @ tl' @ concat (map bytes_of_string ms))"
proof (induction ms arbitrary: whole pre tl')
  case (Cons m ms)
  let ?pre = "pre @ call_bytes (word_of_nat (length whole)) (length m)"
  let ?whole = "?pre @ blank_calls ms @ tl' @ bytes_of_string m"
  have "whole = pre @ call_bytes 0 (length m) @ blank_calls ms @ tl'" using Cons.prems(2) by (simp add: blank_calls_def)
  then have "place_text (m, length pre + 6) whole = Inr ?whole"
    unfolding place_text_def Let_def fst_conv snd_conv by (simp only: patch_call append_assoc ebind_Inr)
  moreover have len: "length ?whole = length whole + length m" using Cons.prems(1) by simp
  have "place_texts (patch_list (length ?pre) ms) ?whole =
      Inr (?pre @ call_list (length ?whole) ms @ (tl' @ bytes_of_string m) @ concat (map bytes_of_string ms))"
    by (rule Cons.IH) simp_all
  then have "place_texts (patch_list (length pre + 17) ms) ?whole =
      Inr (?pre @ call_list (length whole + length m) ms @ (tl' @ bytes_of_string m) @ concat (map bytes_of_string ms))"
    unfolding len by simp
  ultimately show ?case by simp
qed (simp add: blank_calls_def)

lemma bytes_of_concat: "concat (map bytes_of_string ms) = bytes_of_string (concat ms)"
  by (induction ms) (simp_all add: bytes_of_string_def)

definition app_code :: "string list \<Rightarrow> nat \<Rightarrow> bytes" where
  "app_code ms code = call_list (17 * length ms + 14) ms @ exit_bytes code @ bytes_of_string (concat ms)"

lemma generate_shape: "generate ms code = Inr (app_code ms code)"
proof -
  have "emit_exit code (blank_calls ms) = blank_calls ms @ exit_bytes code"
    by (simp add: emit_exit_def emit_u32_def exit_bytes_def)
  then show ?thesis
    using place_texts_shape [of "blank_calls ms @ exit_bytes code" "[]" ms "exit_bytes code"] emit_calls [of ms "[]" "[]"]
    by (simp add: generate_def app_code_def bytes_of_concat)
qed

section \<open>Running the generated code\<close>

lemma app_step_mov:
  assumes "img = pre @ op # le_bytes 4 w @ rest" "cpu_eip cpu = length pre"
  shows "op = 0xB8 \<Longrightarrow> app_step img cpu console = Some (Running (cpu\<lparr>cpu_eip := length pre + 5, cpu_eax := w\<rparr>) console)"
    and "op = 0xB9 \<Longrightarrow> app_step img cpu console = Some (Running (cpu\<lparr>cpu_eip := length pre + 5, cpu_ecx := w\<rparr>) console)"
    and "op = 0xBB \<Longrightarrow> app_step img cpu console = Some (Running (cpu\<lparr>cpu_eip := length pre + 5, cpu_ebx := w\<rparr>) console)"
  using assms by (simp_all add: app_step_def)

lemma app_step_int:
  assumes "img = pre @ 0xCD # 0x80 # rest" "cpu_eip cpu = length pre"
  shows "app_step img cpu console = system_call img (cpu\<lparr>cpu_eip := length pre + 2\<rparr>) console"
  using assms by (simp add: app_step_def)

text \<open>One call prints its message.\<close>

lemma run_call:
  assumes img: "img = pre @ call_bytes (word_of_nat offset) n @ rest" and eip: "cpu_eip cpu = length pre"
    and str: "take n (drop offset img) = bytes_of_string m" "offset + n \<le> length img" "length img < 2 ^ 32"
  shows "\<exists>cpu'. cpu_eip cpu' = length pre + 17 \<and>
           app_run (Suc (Suc (Suc (Suc fuel)))) img cpu console = app_run fuel img cpu' (console @ m)"
proof -
  define r1 where "r1 = [0xBB] @ le_bytes 4 (word_of_nat offset :: u32) @ [0xB9] @ le_bytes 4 (word_of_nat n :: u32) @ [0xCD, 0x80] @ rest"
  define r2 where "r2 = [0xB9] @ le_bytes 4 (word_of_nat n :: u32) @ [0xCD, 0x80] @ rest"
  define p1 where "p1 = pre @ [0xB8] @ le_bytes 4 (1 :: u32)"
  define p2 where "p2 = p1 @ [0xBB] @ le_bytes 4 (word_of_nat offset :: u32)"
  define p3 where "p3 = p2 @ [0xB9] @ le_bytes 4 (word_of_nat n :: u32)"
  have lens: "length p1 = length pre + 5" "length p2 = length pre + 10" "length p3 = length pre + 15"
    by (simp_all add: p1_def p2_def p3_def)
  have i0: "img = pre @ 0xB8 # le_bytes 4 (1 :: u32) @ r1" using img by (simp add: call_bytes_def r1_def)
  have i1: "img = p1 @ 0xBB # le_bytes 4 (word_of_nat offset :: u32) @ r2" using i0 by (simp add: p1_def r1_def r2_def)
  have i2: "img = p2 @ 0xB9 # le_bytes 4 (word_of_nat n :: u32) @ [0xCD, 0x80] @ rest" using i1 by (simp add: p2_def r2_def)
  have i3: "img = p3 @ 0xCD # 0x80 # rest" using i2 by (simp add: p3_def)
  define c1 where "c1 = cpu\<lparr>cpu_eip := length p1, cpu_eax := 1\<rparr>"
  define c2 where "c2 = c1\<lparr>cpu_eip := length p2, cpu_ebx := word_of_nat offset\<rparr>"
  define c3 where "c3 = c2\<lparr>cpu_eip := length p3, cpu_ecx := word_of_nat n\<rparr>"
  have s1: "app_step img cpu console = Some (Running c1 console)"
    using app_step_mov(1) [OF i0 eip] lens by (simp add: c1_def)
  have s2: "app_step img c1 console = Some (Running c2 console)"
    using app_step_mov(3) [OF i1, of c1] lens by (simp add: c1_def c2_def)
  have s3: "app_step img c2 console = Some (Running c3 console)"
    using app_step_mov(2) [OF i2, of c2] lens by (simp add: c2_def c3_def)
  have words: "unat (word_of_nat offset :: u32) = offset" "unat (word_of_nat n :: u32) = n"
    using str(2,3) by (auto intro!: unat_of_nat_nowrap)
  define c4 where "c4 = c3\<lparr>cpu_eip := length p3 + 2, cpu_eax := cpu_ecx c3\<rparr>"
  have "app_step img c3 console = system_call img (c3\<lparr>cpu_eip := length p3 + 2\<rparr>) console"
    by (rule app_step_int [OF i3]) (simp add: c3_def)
  also have "\<dots> = Some (Running c4 (console @ m))"
    using str words by (simp add: system_call_def c3_def c2_def c1_def c4_def)
  finally have "app_run (Suc (Suc (Suc (Suc fuel)))) img cpu console = app_run fuel img c4 (console @ m)"
    using s1 s2 s3 by simp
  moreover have "cpu_eip c4 = length pre + 17" using lens by (simp add: c4_def)
  ultimately show ?thesis by blast
qed

lemma run_calls:
  assumes "img = pre @ call_list offset ms @ rest" "cpu_eip cpu = length pre"
    and "take (length (concat ms)) (drop offset img) = bytes_of_string (concat ms)"
    and "offset + length (concat ms) \<le> length img" "length img < 2 ^ 32"
  shows "\<exists>cpu'. cpu_eip cpu' = length pre + 17 * length ms \<and>
           app_run (4 * length ms + fuel) img cpu console = app_run fuel img cpu' (console @ concat ms)"
  using assms
proof (induction ms arbitrary: pre offset cpu console)
  case (Cons m ms)
  have all: "take (length m + length (concat ms)) (drop offset img) = bytes_of_string m @ bytes_of_string (concat ms)"
    using Cons.prems(3) by (simp add: bytes_of_string_def)
  have "take (length m) (take (length m + length (concat ms)) (drop offset img)) = bytes_of_string m"
    unfolding all by simp
  then have first: "take (length m) (drop offset img) = bytes_of_string m" by simp
  have "drop (length m) (take (length m + length (concat ms)) (drop offset img)) = bytes_of_string (concat ms)"
    unfolding all by simp
  then have later: "take (length (concat ms)) (drop (offset + length m) img) = bytes_of_string (concat ms)"
    by (simp add: drop_take add.commute)
  have shape: "img = pre @ call_bytes (word_of_nat offset) (length m) @ call_list (offset + length m) ms @ rest"
    using Cons.prems(1) by simp
  obtain cpu1 where one: "cpu_eip cpu1 = length pre + 17"
      "app_run (Suc (Suc (Suc (Suc (4 * length ms + fuel))))) img cpu console = app_run (4 * length ms + fuel) img cpu1 (console @ m)"
    using run_call [OF shape Cons.prems(2) first _ Cons.prems(5)] Cons.prems(4) by fastforce
  have "\<exists>cpu'. cpu_eip cpu' = length (pre @ call_bytes (word_of_nat offset) (length m)) + 17 * length ms \<and>
      app_run (4 * length ms + fuel) img cpu1 (console @ m) = app_run fuel img cpu' ((console @ m) @ concat ms)"
  proof (rule Cons.IH)
    show "img = (pre @ call_bytes (word_of_nat offset) (length m)) @ call_list (offset + length m) ms @ rest"
      using shape by simp
    show "offset + length m + length (concat ms) \<le> length img" using Cons.prems(4) by simp
  qed (simp_all add: one(1) later Cons.prems(5) [simplified])
  moreover have fuel: "4 * length (m # ms) + fuel = Suc (Suc (Suc (Suc (4 * length ms + fuel))))" by simp
  ultimately show ?case unfolding fuel one(2) by (simp add: add.assoc)
qed auto

lemma run_exit:
  assumes "img = pre @ exit_bytes code @ rest" "cpu_eip cpu = length pre"
  shows "app_run 3 img cpu console = Some (word_of_nat code, console)"
proof -
  define p1 where "p1 = pre @ [0xBB] @ le_bytes 4 (word_of_nat code :: u32)"
  define p2 where "p2 = p1 @ [0xB8] @ le_bytes 4 (0 :: u32)"
  have i0: "img = pre @ 0xBB # le_bytes 4 (word_of_nat code :: u32) @ [0xB8] @ le_bytes 4 (0 :: u32) @ [0xCD, 0x80, 0x0F, 0x0B] @ rest"
    using assms(1) by (simp add: exit_bytes_def)
  have i1: "img = p1 @ 0xB8 # le_bytes 4 (0 :: u32) @ [0xCD, 0x80, 0x0F, 0x0B] @ rest" using i0 by (simp add: p1_def)
  have i2: "img = p2 @ 0xCD # 0x80 # [0x0F, 0x0B] @ rest" using i1 by (simp add: p2_def)
  have lens: "length p1 = length pre + 5" "length p2 = length pre + 10" by (simp_all add: p1_def p2_def)
  define c1 where "c1 = cpu\<lparr>cpu_eip := length p1, cpu_ebx := word_of_nat code\<rparr>"
  define c2 where "c2 = c1\<lparr>cpu_eip := length p2, cpu_eax := 0\<rparr>"
  have s1: "app_step img cpu console = Some (Running c1 console)"
    using app_step_mov(3) [OF i0 assms(2)] lens by (simp add: c1_def)
  have s2: "app_step img c1 console = Some (Running c2 console)"
    using app_step_mov(1) [OF i1, of c1] lens by (simp add: c1_def c2_def)
  have "app_step img c2 console = Some (Exited (word_of_nat code) console)"
    using app_step_int [OF i2, of c2] lens by (simp add: c2_def c1_def system_call_def)
  then show ?thesis using s1 s2 by (simp add: numeral_3_eq_3)
qed

lemma generated_runs:
  assumes "length (app_code ms code) < 2 ^ 32" "cpu_eip cpu = 0"
  shows "app_run (4 * length ms + 3) (app_code ms code) cpu [] = Some (word_of_nat code, concat ms)"
proof -
  let ?img = "app_code ms code"
  let ?n = "17 * length ms + 14"
  have shape: "?img = [] @ call_list ?n ms @ exit_bytes code @ bytes_of_string (concat ms)" by (simp add: app_code_def)
  have texts: "drop ?n ?img = bytes_of_string (concat ms)" by (simp add: app_code_def)
  have len: "length ?img = ?n + length (concat ms)" by (simp add: app_code_def)
  obtain cpu' where "cpu_eip cpu' = 17 * length ms"
      "app_run (4 * length ms + 3) ?img cpu [] = app_run 3 ?img cpu' (concat ms)"
    using run_calls [OF shape _ _ _ assms(1), of cpu 3 "[]"] texts len assms(2) by auto
  moreover have "app_run 3 ?img cpu' (concat ms) = Some (word_of_nat code, concat ms)"
    using calculation(1) by (intro run_exit [of _ "call_list ?n ms"]) (simp_all add: app_code_def)
  ultimately show ?thesis by simp
qed

section \<open>Properties\<close>

lemma foreign_field: "n = length pre \<Longrightarrow> foreign_u32_le (pre @ le_bytes 4 w @ rest) n = Inr w"
proof -
  have "le_word (le_bytes 4 w) = w" by simp
  then show "n = length pre \<Longrightarrow> foreign_u32_le (pre @ le_bytes 4 w @ rest) n = Inr w"
    by (simp add: foreign_u32_le_def nth_append le_bytes_4_eq push_bit_or push_bit_push_bit)
qed

lemma zex_file_fields:
  "foreign_u32_le (zex_file img) 4 = Inr 1" "foreign_u32_le (zex_file img) 8 = Inr 32"
  "foreign_u32_le (zex_file img) 12 = Inr (word_of_nat (length img))" "foreign_u32_le (zex_file img) 16 = Inr 0"
  "foreign_u32_le (zex_file img) 20 = Inr 0" "foreign_u32_le (zex_file img) 24 = Inr zex_stack_bytes"
  "foreign_u32_le (zex_file img) 28 = Inr (fnv1a img)"
  "take 4 (zex_file img) = bytes_of_string ''ZEX1''" "drop 32 (zex_file img) = img" "length (zex_file img) = 32 + length img"
proof -
  let ?z = "bytes_of_string ''ZEX1''" and ?w = "\<lambda>w. le_bytes 4 (w :: u32)"
  let ?n = "word_of_nat (length img) :: u32"
  show "foreign_u32_le (zex_file img) 4 = Inr 1"
    using foreign_field [of 4 ?z 1] by (simp add: zex_file_def)
  show "foreign_u32_le (zex_file img) 8 = Inr 32"
    using foreign_field [of 8 "?z @ ?w 1" 32] by (simp add: zex_file_def)
  show "foreign_u32_le (zex_file img) 12 = Inr ?n"
    using foreign_field [of 12 "?z @ ?w 1 @ ?w 32" ?n] by (simp add: zex_file_def)
  show "foreign_u32_le (zex_file img) 16 = Inr 0"
    using foreign_field [of 16 "?z @ ?w 1 @ ?w 32 @ ?w ?n" 0] by (simp add: zex_file_def)
  show "foreign_u32_le (zex_file img) 20 = Inr 0"
    using foreign_field [of 20 "?z @ ?w 1 @ ?w 32 @ ?w ?n @ ?w 0" 0] by (simp add: zex_file_def)
  show "foreign_u32_le (zex_file img) 24 = Inr zex_stack_bytes"
    using foreign_field [of 24 "?z @ ?w 1 @ ?w 32 @ ?w ?n @ ?w 0 @ ?w 0" zex_stack_bytes] by (simp add: zex_file_def)
  show "foreign_u32_le (zex_file img) 28 = Inr (fnv1a img)"
    using foreign_field [of 28 "?z @ ?w 1 @ ?w 32 @ ?w ?n @ ?w 0 @ ?w 0 @ ?w zex_stack_bytes" "fnv1a img"]
    by (simp add: zex_file_def)
qed (simp_all add: zex_file_def)

lemma zex_file_importable:
  assumes "img \<noteq> []" "length img \<le> unat zenov_stack_base"
  shows "validate_zex1_import (zex_file img) = Inr ()"
proof -
  have n: "unat (word_of_nat (length img) :: u32) = length img"
    using assms(2) stack_base by (intro unat_of_nat_nowrap) simp
  have len: "unat (32 + word_of_nat (length img) :: u32) = 32 + length img"
    using n assms(2) stack_base by (subst unat_add_nowrap) simp_all
  have "(word_of_nat (length img) :: u32) \<noteq> 0" "\<not> zenov_stack_base < (word_of_nat (length img) :: u32)"
    using n assms by (auto simp: word_less_nat_alt)
  then show ?thesis
    unfolding validate_zex1_import_def
    by (simp add: zex_file_fields n len zex_checksum_fnv1a throw_if_eq_Inr)
      (simp add: zex_stack_bytes_def zenov_stack_bytes_def)
qed

text \<open>
  What \<open>zex-pack\<close> writes can be imported: when it succeeds, the output is the ZEX1 header of the input
  followed by the input, and the import check of \<open>zenpkg\<close> accepts it.
\<close>

theorem zex_pack_importable:
  assumes "zex_pack_main [source, target] h = (0, printed, complaint, h')"
  shows "\<exists>data. host_lookup h source = Some (Regular data) \<and> host_lookup h' target = Some (Regular (zex_file data)) \<and>
           validate_zex1_import (zex_file data) = Inr () \<and> drop 32 (zex_file data) = data"
proof -
  obtain data where d: "read_flat h source = Inr data"
    using assms by (cases "read_flat h source") (auto simp: zex_pack_main_def split: error.splits)
  then have "host_lookup h source = Some (Regular data)" "data \<noteq> []" "length data \<le> 524288"
    by (auto simp: read_flat_def throw_if_eq_Inr split: option.splits host_node.splits read_fault.splits)
  moreover have "host_lookup h' target = Some (Regular (zex_file data))"
    using assms d by (auto simp: zex_pack_main_def Let_def write_stream_def throw_def host_lookup_put
        split: option.splits write_fault.splits)
  ultimately show ?thesis using zex_file_importable [of data] stack_base zex_file_fields(9) by auto
qed

definition pack_host :: host where
  "pack_host = \<lparr>host_nodes = [(''in'', Regular [0xC3])], host_read_fault = (\<lambda>_. None), host_write_fault = (\<lambda>_. None),
     host_renames = [], host_error_text = []\<rparr>"

theorem zex_pack_importable_witness:
  "fst (zex_pack_main [''in'', ''out''] pack_host) = 0 \<and> validate_zex1_import (zex_file [0xC3]) = Inr ()"
proof -
  have "\<exists>printed complaint h'. zex_pack_main [''in'', ''out''] pack_host = (0, printed, complaint, h')"
    by (simp add: zex_pack_main_def read_flat_def pack_host_def host_lookup_def write_stream_def throw_if_def)
  then obtain printed complaint h' where run: "zex_pack_main [''in'', ''out''] pack_host = (0, printed, complaint, h')" by blast
  have "host_lookup pack_host ''in'' = Some (Regular [0xC3])" by (simp add: pack_host_def host_lookup_def)
  then show ?thesis using zex_pack_importable [OF run] run by auto
qed

lemma parse_app_nothing: "parse_app [] \<noteq> Inr r"
  by (simp add: parse_app_def getlines_def throw_if_def throw_def)

text \<open>
  C29: The compiler of \<open>.zv\<close> sources is correct. When it compiles a source to an image that fits user memory,
  the source parses to a name, messages and an exit code, the executable passes the import check, and
  running the image from its first byte prints exactly the messages, in order, and exits with the code.
\<close>

theorem app_compiler_correct:
  assumes "compile_app h path = Inr (name, img)" and "length img \<le> unat zenov_stack_base" and "cpu_eip cpu = 0"
  shows "\<exists>data messages code fuel. host_lookup h path = Some (Regular data) \<and>
           parse_app (string_of_bytes data) = Inr (name, messages, code) \<and> code \<le> 255 \<and>
           app_run fuel img cpu [] = Some (word_of_nat code, concat messages) \<and>
           validate_zex1_import (zex_file img) = Inr ()"
proof -
  obtain data messages code where d: "host_lookup h path = Some (Regular data)"
      "parse_app (string_of_bytes data) = Inr (name, messages, code)" "img = app_code messages code"
    using assms(1) parse_app_nothing
    by (auto simp: compile_app_def ebind_eq_Inr generate_shape split: option.splits host_node.splits read_fault.splits if_splits)
  have "parse_app_lines ls st = Inr st' \<Longrightarrow> (\<forall>n. as_exit st = Some n \<longrightarrow> n \<le> 255) \<Longrightarrow> as_exit st' = Some code \<Longrightarrow> code \<le> 255" for ls st st'
  proof (induction ls arbitrary: st)
    case (Cons l ls)
    then obtain st1 where s: "parse_app_line l st = Inr st1" "parse_app_lines ls st1 = Inr st'" by (auto simp: ebind_eq_Inr)
    have "parse_exit x = Inr n \<Longrightarrow> n \<le> 255" for x n
      by (auto simp: parse_exit_def Let_def throw_if_eq_Inr ebind_eq_Inr)
    then have "\<forall>n. as_exit st1 = Some n \<longrightarrow> n \<le> 255"
      using s(1) Cons.prems(2) by (auto simp: parse_app_line_def Let_def ebind_eq_Inr throw_if_eq_Inr split: if_splits)
    then show ?case using Cons.IH s(2) Cons.prems(3) by blast
  qed simp
  then have "code \<le> 255"
    using d(2) by (fastforce simp: parse_app_def ebind_eq_Inr throw_if_eq_Inr split: option.splits)
  moreover have "img \<noteq> []" using d(3) by (auto simp: app_code_def exit_bytes_def)
  moreover have "app_run (4 * length messages + 3) img cpu [] = Some (word_of_nat code, concat messages)"
    using generated_runs [of messages code cpu] d(3) assms(2,3) stack_base by simp
  ultimately show ?thesis using d zex_file_importable [of img] assms(2) by blast
qed

definition demo_source :: string where
  "demo_source = ''app('' @ [CHR 0x22] @ ''a'' @ [CHR 0x22] @ '');'' @ [newline] @
     ''say('' @ [CHR 0x22] @ ''hi'' @ [CHR 0x22] @ '');'' @ [newline] @ ''exit(3);'' @ [newline]"

definition source_host :: host where
  "source_host = pack_host\<lparr>host_nodes := [(''a.zv'', Regular (bytes_of_string demo_source))]\<rparr>"

definition start_cpu :: user_cpu where
  "start_cpu = \<lparr>cpu_eip = 0, cpu_eax = 7, cpu_ebx = 8, cpu_ecx = 9\<rparr>"

theorem app_compiler_correct_witness:
  "\<exists>img fuel. compile_app source_host ''a.zv'' = Inr (''a'', img) \<and> app_run fuel img start_cpu [] = Some (3, ''hi'')"
proof -
  have parsed: "parse_app demo_source = Inr (''a'', [''hi''], 3)" by code_simp
  have found: "host_lookup source_host ''a.zv'' = Some (Regular (bytes_of_string demo_source))"
    by (simp add: source_host_def host_lookup_def)
  then have built: "compile_app source_host ''a.zv'' = Inr (''a'', app_code [''hi''] 3)"
    using parsed by (simp add: compile_app_def source_host_def pack_host_def generate_shape)
  have "length (app_code [''hi''] 3) \<le> unat zenov_stack_base" by (simp add: app_code_def stack_base)
  from app_compiler_correct [OF built this, of start_cpu] parsed found built show ?thesis
    by (auto simp: start_cpu_def)
qed

end
