(* ===== verification/Universe_Common.thy ===== *)
theory Universe_Common
  imports Sha256 Host_Files
begin

text \<open>
  \<open>tools/zenuniverse/common.hpp\<close>: the text checks, the bounded text reader, the atomic writer and
  the SHA-256 of \<open>zenuniverse\<close>, a second implementation that absorbs its input byte by byte. It is
  shown to compute the same digest as the block-wise implementation of \<open>zenpkg\<close>.

  The tool's \<open>StringSet\<close> and \<open>StringMap\<close> are ordered by unsigned bytes, which is the order of
  strings here: a \<open>StringSet\<close> is a set of strings, visited in the order of \<open>in_order\<close>.
\<close>

definition in_order :: "string set \<Rightarrow> string list" where
  "in_order S = sorted_list_of_set S"

section \<open>Text checks\<close>

definition isblank :: "char \<Rightarrow> bool" where
  "isblank c = (c = CHR '' '' \<or> c = CHR 0x09 \<or> c = carriage_return \<or> c = newline)"

definition universe_trim :: "string \<Rightarrow> string" where
  "universe_trim value = strip isblank value"

definition safe_id :: "string \<Rightarrow> bool" where
  "safe_id value =
     (if value = [] \<or> length value > 96 then False
      else if \<not> list_all (\<lambda>c. isalnum c \<or> c = CHR ''.'' \<or> c = CHR ''-'' \<or> c = CHR ''_'' \<or> c = CHR ''+'') value then False
      else hd value \<noteq> CHR ''.'' \<and> last value \<noteq> CHR ''.'' \<and> \<not> contains value ''..'')"

definition printable :: "string \<Rightarrow> nat \<Rightarrow> bool" where
  "printable value maximum =
     (if value = [] \<or> length value > maximum then False else list_all (\<lambda>c. \<not> iscontrol c) value)"

definition hex64 :: "string \<Rightarrow> bool" where
  "hex64 value = (length value = 64 \<and> list_all (\<lambda>c. isxdigit c \<and> \<not> isupper c) value)"

definition https_url :: "string \<Rightarrow> bool" where
  "https_url value =
     (if length value < 12 \<or> length value > 512 \<or> take 8 value \<noteq> ''https://'' then False
      else if list_ex isblank value then False
      else let host = takeWhile (\<lambda>c. c \<noteq> CHR ''/'') (drop 8 value)
           in host \<noteq> [] \<and> CHR ''.'' \<in> set host \<and> hd host \<noteq> CHR ''.'' \<and> last host \<noteq> CHR ''.'')"

section \<open>Files\<close>

text \<open>
  What the operating system answers while a file is read by descriptor: \<open>lstat\<close>, \<open>open\<close>, the
  \<open>fstat\<close> before and after, and the results of the \<open>read\<close> calls up to the end of the file.
  \<open>ps_text_changes\<close> says that a text file changes while it is read.
\<close>

record file_stat =
  st_regular :: bool
  st_device :: nat
  st_inode :: nat
  st_bytes :: int
  st_mtime :: "int \<times> int"
  st_ctime :: "int \<times> int"

datatype read_event = Bytes bytes | Interrupted | ReadError string

record open_file =
  of_before :: "file_stat option"
  of_reads :: "read_event list"
  of_after :: "file_stat option"

datatype open_answer = OpenLink | OpenError string | Opened open_file

record posix =
  ps_lstat :: "string \<Rightarrow> bool option"
  ps_open :: "string \<Rightarrow> open_answer"
  ps_text_changes :: "string \<Rightarrow> bool"

definition read_text_bounded :: "posix \<Rightarrow> host \<Rightarrow> string \<Rightarrow> nat \<Rightarrow> string result" where
  "read_text_bounded os h path maximum =
     (case host_lookup h path of
        None \<Rightarrow> throw (''cannot stat: '' @ path)
      | Some Link \<Rightarrow> throw (''symbolic links are not accepted: '' @ path)
      | Some Folder \<Rightarrow> throw (''not a regular file: '' @ path)
      | Some (Regular data) \<Rightarrow>
          if host_read_fault h path = Some CannotSize then throw (''cannot determine size: '' @ path)
          else if length data > maximum then throw (''text file exceeds bounded read limit: '' @ path)
          else if host_read_fault h path = Some CannotOpen then throw (''cannot open: '' @ path)
          else if host_read_fault h path = Some ShortRead \<and> data \<noteq> [] then throw (''cannot read exact text snapshot: '' @ path)
          else if ps_text_changes os path then throw (''text file changed while reading: '' @ path)
          else Inr (string_of_bytes data))"

definition write_atomic :: "string \<Rightarrow> string \<Rightarrow> host \<Rightarrow> unit result \<times> host" where
  "write_atomic path data h =
     (let temporary = path @ ''.tmp''
      in case host_write_fault h temporary of
           Some CannotCreate \<Rightarrow> (throw (''cannot create: '' @ temporary), h)
         | Some (WriteFails n) \<Rightarrow>
             (throw (''cannot write: '' @ temporary), host_put temporary (Regular (take n (bytes_of_string data))) h)
         | None \<Rightarrow>
             let h = host_put temporary (Regular (bytes_of_string data)) h;
                 (renamed, h) = host_rename temporary path h
             in if renamed then (Inr (), h)
                else let h = host_remove path h;
                         (renamed, h) = host_rename temporary path h
                     in if renamed then (Inr (), h) else (throw (''cannot replace: '' @ path), h))"

section \<open>SHA-256\<close>

record universe_sha =
  us_state :: "u32 list"
  us_buffer :: bytes
  us_bytes :: u64
  us_used :: nat

definition universe_sha_initial :: universe_sha where
  "universe_sha_initial =
     \<lparr>us_state = [0x6a09e667,0xbb67ae85,0x3c6ef372,0xa54ff53a,0x510e527f,0x9b05688c,0x1f83d9ab,0x5be0cd19],
      us_buffer = replicate 64 0, us_bytes = 0, us_used = 0\<rparr>"

definition rotr :: "u32 \<Rightarrow> nat \<Rightarrow> u32" where
  "rotr x n = drop_bit n x OR push_bit (32 - n) x"

definition add32 :: "u64 \<Rightarrow> u32" where
  "add32 value = ucast (value AND 0xFFFFFFFF)"

text \<open>The table of round constants, in decimal: \<open>0x428a2f98\<close>, \<open>0x71374491\<close>, and so on.\<close>

definition universe_k :: "u32 list" where
  "universe_k =
    [1116352408, 1899447441, 3049323471, 3921009573, 961987163, 1508970993, 2453635748, 2870763221,
     3624381080, 310598401, 607225278, 1426881987, 1925078388, 2162078206, 2614888103, 3248222580,
     3835390401, 4022224774, 264347078, 604807628, 770255983, 1249150122, 1555081692, 1996064986,
     2554220882, 2821834349, 2952996808, 3210313671, 3336571891, 3584528711, 113926993, 338241895,
     666307205, 773529912, 1294757372, 1396182291, 1695183700, 1986661051, 2177026350, 2456956037,
     2730485921, 2820302411, 3259730800, 3345764771, 3516065817, 3600352804, 4094571909, 275423344,
     430227734, 506948616, 659060556, 883997877, 958139571, 1322822218, 1537002063, 1747873779,
     1955562222, 2024104815, 2227730452, 2361852424, 2428436474, 2756734187, 3204031479, 3329325298]"

text \<open>The words \<open>w[0..15]\<close> of the block and \<open>w[16..63]\<close> after them.\<close>

definition universe_schedule :: "bytes \<Rightarrow> u32 list" where
  "universe_schedule p =
     fold (\<lambda>i w.
         let s0 = rotr (w ! (i - 15)) 7 XOR rotr (w ! (i - 15)) 18 XOR drop_bit 3 (w ! (i - 15));
             s1 = rotr (w ! (i - 2)) 17 XOR rotr (w ! (i - 2)) 19 XOR drop_bit 10 (w ! (i - 2))
         in w @ [add32 (ucast (w ! (i - 16)) + ucast s0 + ucast (w ! (i - 7)) + ucast s1)])
       [16..<64]
       (map (\<lambda>i. push_bit 24 (ucast (p ! (i * 4))) OR push_bit 16 (ucast (p ! (i * 4 + 1))) OR
                 push_bit 8 (ucast (p ! (i * 4 + 2))) OR ucast (p ! (i * 4 + 3))) [0..<16])"

fun universe_round :: "u32 \<Rightarrow> u32 \<Rightarrow> sha_registers \<Rightarrow> sha_registers" where
  "universe_round k w (a, b, c, d, e, f, g, h) =
     (let s1 = rotr e 6 XOR rotr e 11 XOR rotr e 25;
          ch = (e AND f) XOR (NOT e AND g);
          t1 = add32 (ucast h + ucast s1 + ucast ch + ucast k + ucast w);
          s0 = rotr a 2 XOR rotr a 13 XOR rotr a 22;
          maj = (a AND b) XOR (a AND c) XOR (b AND c);
          t2 = add32 (ucast s0 + ucast maj)
      in (add32 (ucast t1 + ucast t2), a, b, c, add32 (ucast d + ucast t1), e, f, g))"

definition universe_block :: "bytes \<Rightarrow> u32 list \<Rightarrow> u32 list" where
  "universe_block p state =
     (let w = universe_schedule p;
          (a, b, c, d, e, f, g, h) =
            fold (\<lambda>i. universe_round (universe_k ! i) (w ! i)) [0..<64]
              (state ! 0, state ! 1, state ! 2, state ! 3, state ! 4, state ! 5, state ! 6, state ! 7)
      in [add32 (ucast (state ! 0) + ucast a), add32 (ucast (state ! 1) + ucast b),
          add32 (ucast (state ! 2) + ucast c), add32 (ucast (state ! 3) + ucast d),
          add32 (ucast (state ! 4) + ucast e), add32 (ucast (state ! 5) + ucast f),
          add32 (ucast (state ! 6) + ucast g), add32 (ucast (state ! 7) + ucast h)])"

text \<open>\<open>buffer[used++] = c\<close>, and the block when the buffer is full.\<close>

definition universe_push :: "byte \<Rightarrow> universe_sha \<Rightarrow> universe_sha" where
  "universe_push c s = s\<lparr>us_buffer := (us_buffer s)[us_used s := c], us_used := us_used s + 1\<rparr>"

definition universe_absorb :: "byte \<Rightarrow> universe_sha \<Rightarrow> universe_sha" where
  "universe_absorb c s =
     (let s = universe_push c s
      in if us_used s = 64 then s\<lparr>us_state := universe_block (us_buffer s) (us_state s), us_used := 0\<rparr> else s)"

definition universe_update :: "bytes \<Rightarrow> universe_sha \<Rightarrow> universe_sha result" where
  "universe_update data s =
     throw_if (length data > u64_max - unat (us_bytes s)) ''SHA-256 input length overflow''
       (Inr (fold universe_absorb data (s\<lparr>us_bytes := us_bytes s + word_of_nat (length data)\<rparr>)))"

text \<open>\<open>while (used < limit) buffer[used++] = 0;\<close>\<close>

definition universe_zeros :: "nat \<Rightarrow> universe_sha \<Rightarrow> universe_sha" where
  "universe_zeros limit s = fold universe_push (replicate (limit - us_used s) 0) s"

definition universe_finish :: "universe_sha \<Rightarrow> string result" where
  "universe_finish s =
     throw_if (unat (us_bytes s) > u64_max div 8) ''SHA-256 bit length overflow'' (
       let bits = us_bytes s * 8;
           s = universe_push 0x80 s;
           s = (if us_used s > 56
                then let s = universe_zeros 64 s
                     in s\<lparr>us_state := universe_block (us_buffer s) (us_state s), us_used := 0\<rparr>
                else s);
           s = universe_zeros 56 s;
           s = fold universe_push (map (\<lambda>i. ucast (drop_bit (i * 8) bits)) (rev [0..<8])) s;
           state = universe_block (us_buffer s) (us_state s)
       in Inr (concat (map (\<lambda>v. concat (map (\<lambda>i. let b = ucast (drop_bit (i * 8) v) :: byte
                                                  in [''0123456789abcdef'' ! unat (drop_bit 4 b),
                                                      ''0123456789abcdef'' ! unat (b AND 15)])
                                            (rev [0..<4]))) state)))"

definition universe_sha256 :: "string \<Rightarrow> string result" where
  "universe_sha256 data = ebind (universe_update (bytes_of_string data) universe_sha_initial) universe_finish"

section \<open>The digest is SHA-256\<close>

lemma rotr_eq: "rotr = rotate_right"
  by (intro ext) (simp add: rotr_def rotate_right_def)

lemma add32_sum:
  "add32 (ucast a + ucast b) = add_mod32 [a, b]"
  "add32 (ucast a + ucast b + ucast c + ucast d) = add_mod32 [a, b, c, d]"
  "add32 (ucast a + ucast b + ucast c + ucast d + ucast e) = add_mod32 [a, b, c, d, e]"
  by (simp_all add: add32_def add_mod32_def add.assoc)

lemma universe_schedule_eq: "universe_schedule p = message_schedule p"
  unfolding universe_schedule_def message_schedule_def schedule_word_def [abs_def] block_word_def [abs_def] add32_sum rotr_eq Let_def ..

lemma universe_round_eq: "universe_round k w = sha_round k w"
proof
  fix r :: sha_registers
  obtain a b c d e f g h where "r = (a, b, c, d, e, f, g, h)" by (cases "(k, w, r)" rule: universe_round.cases) blast
  then show "universe_round k w r = sha_round k w r"
    by (simp only: universe_round.simps sha_round.simps add32_sum rotr_eq Let_def)
qed

lemma universe_k_eq: "universe_k = sha_k"
  unfolding universe_k_def sha_k_def ..

lemma universe_block_eq: "universe_block p st = transform p st"
  unfolding universe_block_def transform_def universe_schedule_eq universe_round_eq universe_k_eq add32_sum ..

text \<open>The context as a context of \<open>zenpkg\<close>.\<close>

definition as_sha256 :: "universe_sha \<Rightarrow> sha256" where
  "as_sha256 s = \<lparr>sh_state = us_state s, sh_block = us_buffer s, sh_digest = replicate 32 0,
                  sh_total_bytes = us_bytes s, sh_block_size = us_used s, sh_finalized = False\<rparr>"

lemma as_push:
  "length (us_buffer s) = 64 \<Longrightarrow> us_used s < 64 \<Longrightarrow> as_sha256 (universe_push c s) = sha_fill [c] (as_sha256 s)"
  by (simp add: as_sha256_def universe_push_def sha_fill_def blit_def upd_conv_take_nth_drop)

lemma as_total: "sh_total_bytes (as_sha256 s) = us_bytes s"
  by (simp add: as_sha256_def)

lemma as_state: "sh_state (as_sha256 s) = us_state s"
  by (simp add: as_sha256_def)

lemma as_size: "sh_block_size (as_sha256 s) = us_used s"
  by (simp add: as_sha256_def)

lemma absorbed_state: "absorbed message s \<Longrightarrow> length message mod 64 = 0 \<Longrightarrow> sh_state s = compress_all message"
proof -
  assume a: "absorbed message s" and "length message mod 64 = 0"
  then have used: "sh_block_size s = 0" using absorbed_length by metis
  obtain full where "message = full @ take (sh_block_size s) (sh_block s)" "sh_state s = compress_all full"
    using a unfolding absorbed_def by blast
  then show "sh_state s = compress_all message" using used by simp
qed

lemma push_fields [simp]:
  "us_used (universe_push c s) = us_used s + 1" "length (us_buffer (universe_push c s)) = length (us_buffer s)"
  "us_bytes (universe_push c s) = us_bytes s"
  by (simp_all add: universe_push_def)

lemma as_pushes:
  "length (us_buffer s) = 64 \<Longrightarrow> us_used s + length cs \<le> 64 \<Longrightarrow>
     as_sha256 (fold universe_push cs s) = sha_fill cs (as_sha256 s) \<and>
     length (us_buffer (fold universe_push cs s)) = 64 \<and> us_used (fold universe_push cs s) = us_used s + length cs"
proof (induction cs arbitrary: s)
  case Nil
  then show ?case by (simp add: sha_fill_def blit_def as_sha256_def)
next
  case (Cons c cs)
  have "length (sh_block (as_sha256 s)) = 64" "sh_block_size (as_sha256 s) = us_used s"
    using Cons.prems by (simp_all add: as_sha256_def)
  then have "sha_fill cs (sha_fill [c] (as_sha256 s)) = sha_fill (c # cs) (as_sha256 s)"
    using Cons.prems by (simp add: sha_fill_fill)
  then show ?case using Cons.IH [of "universe_push c s"] Cons.prems as_push [of s c] by simp
qed

text \<open>Processing a full buffer.\<close>

definition universe_flush :: "universe_sha \<Rightarrow> universe_sha" where
  "universe_flush s = s\<lparr>us_state := universe_block (us_buffer s) (us_state s), us_used := 0\<rparr>"

lemma as_flush: "us_used s = 64 \<Longrightarrow> as_sha256 (universe_flush s) = sha_flush (as_sha256 s)"
  by (simp add: as_sha256_def sha_flush_def universe_block_eq universe_flush_def)

lemma as_absorb:
  assumes "length (us_buffer s) = 64" and "us_used s < 64"
  shows "as_sha256 (universe_absorb c s) = sha_flush (sha_fill [c] (as_sha256 s))"
proof (cases "us_used s + 1 = 64")
  case True
  then show ?thesis
    using as_push [OF assms, of c] as_flush [of "universe_push c s"]
    by (simp add: universe_absorb_def Let_def universe_flush_def)
next
  case False
  then have "sh_block_size (sha_fill [c] (as_sha256 s)) \<noteq> 64" by (simp add: as_sha256_def)
  then show ?thesis
    using as_push [OF assms, of c] False by (simp add: universe_absorb_def sha_flush_def Let_def)
qed

lemma absorbs:
  "absorbed message (as_sha256 s) \<Longrightarrow> absorbed (message @ data) (as_sha256 (fold universe_absorb data s)) \<and>
     us_bytes (fold universe_absorb data s) = us_bytes s"
proof (induction data arbitrary: message s)
  case (Cons c data)
  have "length (us_buffer s) = 64" "us_used s < 64" using Cons.prems by (auto simp: absorbed_def as_sha256_def)
  then have "absorbed (message @ [c]) (as_sha256 (universe_absorb c s))"
    using absorbed_step [OF Cons.prems, of "[c]"] as_absorb by (simp add: as_sha256_def)
  moreover have "us_bytes (universe_absorb c s) = us_bytes s" by (simp add: universe_absorb_def Let_def)
  ultimately show ?case using Cons.IH [of "message @ [c]" "universe_absorb c s"] by simp
qed simp

definition universe_after :: "bytes \<Rightarrow> universe_sha \<Rightarrow> bool" where
  "universe_after message s \<longleftrightarrow> sha_after message (as_sha256 s)"

lemma universe_after_initial: "universe_after [] universe_sha_initial"
proof -
  have "as_sha256 universe_sha_initial = sha_reset"
    by (simp add: as_sha256_def universe_sha_initial_def sha_reset_def sha_initial_state_def)
  then show ?thesis using sha_after_reset by (simp add: universe_after_def)
qed

lemma universe_update_after:
  assumes "universe_after message s" and "length (message @ data) < 2 ^ 64"
  obtains s' where "universe_update data s = Inr s'" and "universe_after (message @ data) s'"
proof
  let ?s = "s\<lparr>us_bytes := us_bytes s + word_of_nat (length data)\<rparr>"
  have n: "unat (us_bytes s) = length message"
    using assms(1) by (simp add: universe_after_def sha_after_def as_sha256_def)
  have "unat (word_of_nat (length data) :: u64) = length data"
    using assms(2) by (simp add: unat_of_nat_nowrap)
  then have total: "unat (us_bytes ?s) = length (message @ data)"
    using assms(2) n by (simp add: unat_add_nowrap)
  have "absorbed message (as_sha256 ?s)"
    using assms(1) by (simp add: universe_after_def sha_after_def absorbed_def as_sha256_def)
  from absorbs [OF this, of data] total
  show "universe_after (message @ data) (fold universe_absorb data ?s)"
    by (simp add: universe_after_def sha_after_def as_total)
  show "universe_update data s = Inr (fold universe_absorb data ?s)"
    using n assms(2) by (simp add: universe_update_def u64_max_def throw_if_def)
qed

lemma universe_hex: "hex_encode (digest_bytes st) =
  concat (map (\<lambda>v. concat (map (\<lambda>i. let b = ucast (drop_bit (i * 8) v) :: byte
     in [''0123456789abcdef'' ! unat (drop_bit 4 b), ''0123456789abcdef'' ! unat (b AND 15)]) (rev [0..<4]))) st)"
proof -
  have high: "unat (drop_bit 4 b) = unat b div 16" for b :: byte
    unfolding unat_drop_bit_eq by (simp add: drop_bit_eq_div)
  have "b AND 15 = take_bit 4 b" for b :: byte by (simp add: take_bit_eq_mask mask_eq_exp_minus_1)
  then have low: "unat (b AND 15) = unat b mod 16" for b :: byte
    by (simp only: unsigned_take_bit_eq) (simp add: take_bit_eq_mod)
  have bytes: "rev [0..<4] = [3, 2, 1, 0]" by (simp add: upt_rec)
  show ?thesis unfolding high low bytes Let_def
    by (induction st) (simp_all add: digest_bytes_def hex_encode_def hex_digit_def del: nth_Cons_numeral)
qed

lemma universe_zeros_fill:
  assumes "length (us_buffer s) = 64" and "us_used s \<le> limit" and "limit \<le> 64"
  shows "as_sha256 (universe_zeros limit s) = sha_fill (replicate (limit - us_used s) 0) (as_sha256 s) \<and>
         length (us_buffer (universe_zeros limit s)) = 64 \<and> us_used (universe_zeros limit s) = limit"
  using as_pushes [of s "replicate (limit - us_used s) 0"] assms by (simp add: universe_zeros_def)

lemma length_bytes_rev: "map (\<lambda>i. ucast (drop_bit (i * 8) n)) (rev [0..<8]) = length_bytes n"
  by (simp add: length_bytes_def upt_rec)

text \<open>The context with the padding and the length filled in, just before the last block is compressed.\<close>

definition universe_closed :: "u64 \<Rightarrow> universe_sha \<Rightarrow> universe_sha" where
  "universe_closed bits s =
     (let s = universe_push 0x80 s;
          s = (if us_used s > 56 then universe_flush (universe_zeros 64 s) else s)
      in fold universe_push (length_bytes bits) (universe_zeros 56 s))"

lemma universe_closed_after:
  assumes "universe_after message s"
  shows "universe_block (us_buffer (universe_closed (word_of_nat (8 * length message)) s))
           (us_state (universe_closed (word_of_nat (8 * length message)) s)) =
         compress_all (message @ padding (length message))"
proof -
  let ?a = "as_sha256 s" and ?bits = "word_of_nat (8 * length message) :: u64"
  have len: "length (us_buffer s) = 64" and used: "us_used s < 64" and a: "absorbed message ?a"
    using assms by (auto simp: universe_after_def sha_after_def absorbed_def as_sha256_def)
  define s1 where "s1 = universe_push 0x80 s"
  define s2 where "s2 = (if us_used s1 > 56 then universe_flush (universe_zeros 64 s1) else s1)"
  define s3 where "s3 = universe_zeros 56 s2"
  define s4 where "s4 = fold universe_push (length_bytes ?bits) s3"
  have s1: "as_sha256 s1 = sha_fill [0x80] ?a" "length (us_buffer s1) = 64" "us_used s1 \<le> 64"
    "sh_block_size (sha_fill [0x80] ?a) = us_used s1"
    using as_push [OF len used] len used by (simp_all add: s1_def, simp add: as_sha256_def)
  have s2: "as_sha256 s2 = (if us_used s1 > 56 then sha_flush (sha_fill (replicate (64 - us_used s1) 0) (as_sha256 s1)) else as_sha256 s1)"
    "length (us_buffer s2) = 64" "us_used s2 \<le> 56"
    using universe_zeros_fill [OF s1(2,3)] s1(2,3) as_flush [of "universe_zeros 64 s1"]
    by (auto simp: s2_def universe_flush_def)
  have s3: "as_sha256 s3 = sha_fill (replicate (56 - us_used s2) 0) (as_sha256 s2)" "length (us_buffer s3) = 64" "us_used s3 = 56"
    using universe_zeros_fill [OF s2(2,3)] by (auto simp: s3_def)
  have s2': "as_sha256 s2 = (if sh_block_size (sha_fill [0x80] ?a) > 56
      then sha_flush (sha_fill (replicate (64 - sh_block_size (sha_fill [0x80] ?a)) 0) (sha_fill [0x80] ?a))
      else sha_fill [0x80] ?a)"
    using s2(1) by (simp only: s1(1,4))
  have s3': "as_sha256 s3 = sha_fill (replicate (56 - sh_block_size (as_sha256 s2)) 0) (as_sha256 s2)"
    using s3(1) by (simp only: as_size)
  have s4: "as_sha256 s4 = sha_fill (length_bytes ?bits) (as_sha256 s3)" "us_used s4 = 64"
    using as_pushes [of s3 "length_bytes ?bits"] s3 by (auto simp: s4_def)
  have "absorbed (message @ padding (length message)) (sha_flush (as_sha256 s4))"
    unfolding s4(1) s3' s2' by (rule final_absorbs [OF a])
  then have state: "us_state (universe_flush s4) = compress_all (message @ padding (length message))"
    using length_padding [of "length message"] as_flush [OF s4(2)]
    by (metis absorbed_state as_state length_append)
  moreover have "universe_closed ?bits s = s4" by (simp add: universe_closed_def s1_def s2_def s3_def s4_def Let_def)
  ultimately show ?thesis by (simp add: universe_flush_def)
qed

lemma universe_finish_after:
  assumes "universe_after message s" and "8 * length message < 2 ^ 64"
  shows "universe_finish s = Inr (hex_encode (sha256_spec message))"
proof -
  have n: "unat (us_bytes s) = length message"
    using assms(1) by (simp add: universe_after_def sha_after_def as_sha256_def)
  have bits: "us_bytes s * 8 = word_of_nat (8 * length message)" by (simp add: mult.commute flip: n)
  let ?c = "universe_closed (word_of_nat (8 * length message)) s"
  have "universe_finish s = Inr (hex_encode (digest_bytes (universe_block (us_buffer ?c) (us_state ?c))))"
    unfolding universe_finish_def Let_def bits length_bytes_rev universe_hex
    using n assms(2) by (simp add: universe_closed_def universe_flush_def throw_if_def u64_max_def Let_def)
  then show ?thesis using universe_closed_after [OF assms(1)] by (simp add: sha256_spec_def)
qed

text \<open>
  C38: Two implementations, one hash. For every input of less than \<open>2\<^sup>6\<^sup>4\<close> bits, the byte-wise
  SHA-256 of \<open>zenuniverse\<close> returns the 64 lower-case hexadecimal digits that the block-wise SHA-256
  of \<open>zenpkg\<close> returns, which encode the digest of the padded message.
\<close>

theorem universe_sha256_agrees:
  assumes "8 * length data < 2 ^ 64"
  shows "universe_sha256 data = sha256_hex (bytes_of_string data) \<and>
         universe_sha256 data = Inr (hex_encode (sha256_spec (bytes_of_string data)))"
proof -
  obtain s where "universe_update (bytes_of_string data) universe_sha_initial = Inr s"
      "universe_after (bytes_of_string data) s"
    using universe_update_after [OF universe_after_initial, of "bytes_of_string data"] assms by auto
  then have "universe_sha256 data = Inr (hex_encode (sha256_spec (bytes_of_string data)))"
    using universe_finish_after assms by (simp add: universe_sha256_def)
  moreover have "sha256_hex (bytes_of_string data) = Inr (hex_encode (sha256_spec (bytes_of_string data)))"
    using sha256_hash_eq [of "bytes_of_string data"] assms by (simp add: sha256_hex_def)
  ultimately show ?thesis by simp
qed

theorem universe_sha256_agrees_witness: "universe_sha256 ''abc'' = sha256_hex [97, 98, 99]"
proof -
  have "bytes_of_string ''abc'' = [97, 98, 99]" by (simp add: bytes_of_string_def byte_of_char_def)
  then show ?thesis using universe_sha256_agrees [of "''abc''"] by simp
qed

end
