(* ===== verification/Universe_Capability.thy ===== *)
theory Universe_Capability
  imports Universe_Common
begin

text \<open>
  \<open>tools/zenuniverse/capability.hpp\<close>: the registry of runtimes and capabilities and the
  \<open>requires-any\<close> groups, whose canonical text is shown to be a normal form.
\<close>

definition runtime_names :: "string set" where
  "runtime_names =
     {''native'', ''linux-i386-minimal'', ''linux-abi'', ''wine'', ''proton'', ''qemu-user'', ''qemu-system'',
      ''darling'', ''duckstation'', ''ppsspp'', ''pcsx2'', ''rpcs3'', ''xemu'', ''xenia'', ''external''}"

definition static_capabilities :: "string set" where
  "static_capabilities =
     {''abi.zenov.zex1'', ''abi.linux.i386.int80-minimal'', ''audio.low-latency'', ''audio.stream'',
      ''cpu.avx2'', ''cpu.sse4.1'', ''cpu.x86'', ''cpu.x86_64-modern'',
      ''filesystem.fuse-or-extract'', ''filesystem.overlay'',
      ''graphics.framebuffer'', ''graphics.opengl'', ''graphics.opengl3.0'', ''graphics.opengl3.1'',
      ''graphics.opengl3.3'', ''graphics.vulkan'', ''graphics.vulkan1.0'', ''graphics.vulkan1.1'',
      ''graphics.vulkan1.3'', ''graphics.window-system'',
      ''input.gamepad'', ''input.keyboard'', ''input.mouse'',
      ''kernel.dynamic-linker'', ''kernel.futex'', ''kernel.jit'', ''kernel.mmap'', ''kernel.namespaces'',
      ''kernel.processes'', ''kernel.signals'', ''kernel.single-foreground-process'', ''kernel.threads'',
      ''loader.elf32-static'', ''loader.elf64-dynamic'', ''loader.elf64-static'',
      ''storage.large-files'', ''storage.small-files'', ''storage.zenovfs''}"

definition known_capability :: "string \<Rightarrow> bool" where
  "known_capability value =
     (if value \<in> static_capabilities then True
      else if \<not> has_prefix value ''runtime.'' then False
      else drop 8 value \<in> runtime_names)"

primrec check_known :: "string list \<Rightarrow> unit result" where
  "check_known [] = Inr ()"
| "check_known (token # rest) =
     throw_if (\<not> known_capability token) (''unknown capability in requires-any: '' @ token) (check_known rest)"

definition parse_capability_alternatives :: "string \<Rightarrow> string list result" where
  "parse_capability_alternatives value =
     (let options = split_all (CHR ''|'') value
      in ebind (check_known options) (\<lambda>_.
         throw_if (length options < 2) ''requires-any must contain at least two capabilities'' (
         throw_if (\<not> distinct_adj (sort options)) ''requires-any contains duplicate capability'' (
         Inr (sort options)))))"

definition canonical_alternatives :: "string \<Rightarrow> string result" where
  "canonical_alternatives value =
     ebind (parse_capability_alternatives value) (\<lambda>options. Inr (join options ''|''))"

section \<open>The canonical text of a group\<close>

lemma check_known_iff: "check_known ts = Inr u \<longleftrightarrow> (\<forall>t\<in>set ts. known_capability t)"
  by (induction ts) (auto simp: throw_if_eq_Inr)

lemma sorted_distinct_adj: "sorted xs \<Longrightarrow> distinct_adj xs \<longleftrightarrow> distinct (xs :: 'a::linorder list)"
  by (induction xs rule: induct_list012) (auto simp: order_le_less)

lemma split_all_join:
  "xs \<noteq> [] \<Longrightarrow> \<forall>x\<in>set xs. c \<notin> set x \<Longrightarrow> split_all c (join xs [c]) = xs"
proof (induction xs "[c]" rule: join.induct)
  case (2 x)
  then have "c \<notin> set x" by simp
  then show ?case by (induction x) auto
next
  case (3 x y ys)
  have "split_all c (x @ c # t) = x # split_all c t" if "c \<notin> set x" for x t
    using that by (induction x) auto
  then show ?case using 3 by simp
qed simp

lemma split_all_parts: "x \<in> set (split_all c str) \<Longrightarrow> c \<notin> set x"
proof (induction str arbitrary: x)
  case (Cons a str)
  then show ?case by (cases "split_all c str") (auto split: if_splits)
qed simp

lemma parse_alternatives_iff:
  "parse_capability_alternatives str = Inr ts \<longleftrightarrow>
     ts = sort (split_all (CHR ''|'') str) \<and> (\<forall>t\<in>set ts. known_capability t) \<and> 2 \<le> length ts \<and> distinct ts"
  unfolding parse_capability_alternatives_def Let_def
  by (auto simp: ebind_eq_Inr throw_if_eq_Inr check_known_iff sorted_distinct_adj)

text \<open>
  The canonical text of a \<open>requires-any\<close> group is a normal form: it parses to the same
  alternatives, sorted, known and pairwise distinct, is its own canonical text, and two groups have
  the same canonical text exactly when they name the same set of capabilities.
\<close>

theorem canonical_alternatives_normal_form:
  assumes "canonical_alternatives str = Inr canonical"
  shows "parse_capability_alternatives canonical = parse_capability_alternatives str \<and>
         canonical_alternatives canonical = Inr canonical \<and>
         (\<forall>other. is_ok (canonical_alternatives other) \<longrightarrow>
            (canonical_alternatives other = Inr canonical \<longleftrightarrow>
               set (split_all (CHR ''|'') other) = set (split_all (CHR ''|'') str)))"
proof -
  let ?split = "split_all (CHR ''|'')"
  have parsed: "sort (?split (join ts ''|'')) = ts" if "parse_capability_alternatives s = Inr ts" for s ts
  proof -
    have "ts \<noteq> []" "\<forall>t\<in>set ts. CHR ''|'' \<notin> set t" "sorted ts"
      using that by (auto simp: parse_alternatives_iff dest: split_all_parts)
    then show ?thesis using split_all_join [of ts "CHR ''|''"] by (simp add: sorted_sort_id)
  qed
  obtain ts where ts: "parse_capability_alternatives str = Inr ts" and c: "canonical = join ts ''|''"
    using assms by (auto simp: canonical_alternatives_def ebind_eq_Inr)
  have same: "parse_capability_alternatives canonical = Inr ts"
    using ts parsed [OF ts] by (auto simp: parse_alternatives_iff c)
  have "canonical_alternatives other = Inr canonical \<longleftrightarrow> set (?split other) = set (?split str)"
    if ok: "is_ok (canonical_alternatives other)" for other
  proof -
    obtain us where us: "parse_capability_alternatives other = Inr us"
      using ok by (auto simp: canonical_alternatives_def is_ok_iff ebind_eq_Inr)
    have "join us ''|'' = join ts ''|'' \<longleftrightarrow> us = ts" using parsed [OF ts] parsed [OF us] by metis
    also have "\<dots> \<longleftrightarrow> set us = set ts"
      using ts us sorted_distinct_set_unique [of us ts] by (metis distinct_sort parse_alternatives_iff sorted_sort)
    finally have "join us ''|'' = join ts ''|'' \<longleftrightarrow> set us = set ts" .
    moreover have "set us = set (?split other)" "set ts = set (?split str)"
      using ts us by (simp_all add: parse_alternatives_iff)
    ultimately show ?thesis by (simp add: canonical_alternatives_def c us)
  qed
  then show ?thesis using ts same c by (simp add: canonical_alternatives_def)
qed

theorem canonical_alternatives_normal_form_witness:
  "canonical_alternatives ''graphics.vulkan1.0|graphics.opengl3.1'' = Inr ''graphics.opengl3.1|graphics.vulkan1.0'' \<and>
   canonical_alternatives ''graphics.opengl3.1|graphics.vulkan1.0'' = Inr ''graphics.opengl3.1|graphics.vulkan1.0''"
proof -
  have "canonical_alternatives ''graphics.vulkan1.0|graphics.opengl3.1'' = Inr ''graphics.opengl3.1|graphics.vulkan1.0''"
    by code_simp
  from canonical_alternatives_normal_form [OF this] this show ?thesis by blast
qed

end
