(* ===== verification/Universe_Descriptor.thy ===== *)
theory Universe_Descriptor
  imports Universe_Capability
begin

text \<open>
  \<open>tools/zenuniverse/descriptor.hpp\<close>: package descriptors, their parser, validation, canonical text
  and version order, and the loading of a catalog directory.
\<close>

record descriptor =
  d_schema :: string
  d_id :: string
  d_version :: string
  d_kind :: string
  d_platform :: string
  d_architecture :: string
  d_artifact :: string
  d_delivery :: string
  d_runtime :: string
  d_availability :: string
  d_entrypoint :: string
  d_channel :: string
  d_category :: string
  d_license :: string
  d_description :: string
  d_homepage :: string
  d_sha :: string
  d_provider_abi :: string
  d_launch_mode :: string
  d_bytes :: nat
  d_mirrors :: "string list"
  d_requirements :: "string list"
  d_requirement_any :: "string list"
  d_provides :: "string list"
  d_assets :: "string list"
  d_accepts :: "string list"
  d_launch_args :: "string list"
  d_source :: string

definition empty_descriptor :: descriptor where
  "empty_descriptor =
     \<lparr>d_schema = [], d_id = [], d_version = [], d_kind = [], d_platform = [], d_architecture = [], d_artifact = [],
      d_delivery = [], d_runtime = [], d_availability = [], d_entrypoint = [], d_channel = [], d_category = [],
      d_license = [], d_description = [], d_homepage = [], d_sha = [], d_provider_abi = [], d_launch_mode = [],
      d_bytes = 0, d_mirrors = [], d_requirements = [], d_requirement_any = [], d_provides = [], d_assets = [],
      d_accepts = [], d_launch_args = [], d_source = []\<rparr>"

definition kinds :: "string set" where
  "kinds = {''application'', ''game'', ''runtime'', ''sdk'', ''toolchain'', ''profile'', ''firmware''}"

definition platforms :: "string set" where
  "platforms = {''zenov'', ''linux'', ''windows'', ''macos'', ''playstation1'', ''playstation-portable'',
                ''playstation2'', ''playstation3'', ''xbox'', ''xbox360''}"

definition architectures :: "string set" where
  "architectures = {''any'', ''x86'', ''x86_64'', ''arm64'', ''ppc64''}"

definition artifacts :: "string set" where
  "artifacts = {''zpk'', ''zex1'', ''elf32'', ''elf64'', ''appimage'', ''flatpak'', ''deb'', ''rpm'', ''tar'', ''exe'',
                ''msi'', ''msix'', ''appx'', ''dmg'', ''pkg'', ''app'', ''iso'', ''disc-image'', ''rom'', ''psx-exe'',
                ''bin-cue'', ''chd'', ''pbp'', ''cso'', ''runtime-bundle'', ''metadata''}"

definition deliveries :: "string set" where
  "deliveries = {''builtin'', ''embedded'', ''https'', ''user-supplied'', ''metadata-only''}"

definition availability_values :: "string set" where
  "availability_values = {''available'', ''planned'', ''external''}"

definition launch_modes :: "string set" where
  "launch_modes = {''builtin'', ''exec'', ''external''}"

section \<open>Numbers and small checks\<close>

primrec decimal_loop :: "string \<Rightarrow> string \<Rightarrow> nat \<Rightarrow> nat result" where
  "decimal_loop field [] result = Inr result"
| "decimal_loop field (c # rest) result =
     throw_if (\<not> isdigit c) (field @ '' must be decimal'') (
     throw_if (result > (u64_max - digit_value c) div 10) (field @ '' overflows'') (
     decimal_loop field rest (result * 10 + digit_value c)))"

definition universe_parse_u64 :: "string \<Rightarrow> string \<Rightarrow> nat result" where
  "universe_parse_u64 value field =
     throw_if (value = []) (field @ '' is empty'') (
     throw_if (length value > 1 \<and> hd value = CHR ''0'') (field @ '' must be canonical decimal'') (
     decimal_loop field value 0))"

definition safe_runtime_entrypoint :: "string \<Rightarrow> bool" where
  "safe_runtime_entrypoint value =
     (if value = ''@kernel-loader'' then True
      else if length value < 2 \<or> length value > 192 \<or> hd value \<noteq> CHR ''/'' then False
      else if contains value ''//'' \<or> contains value ''/../'' \<or> contains value ''/./'' \<or> last value = CHR ''/'' then False
      else list_all (\<lambda>c. 0x21 \<le> (of_char c :: nat) \<and> (of_char c :: nat) \<le> 0x7E \<and> c \<noteq> CHR 0x5C) value)"

definition valid_launch_argument :: "string \<Rightarrow> string set \<Rightarrow> bool" where
  "valid_launch_argument value assets =
     (if \<not> printable value 192 then False
      else if value = ''%artifact%'' then True
      else if has_prefix value ''%asset:'' \<and> length value > 8 \<and> last value = CHR ''%''
      then take (length value - 8) (drop 7 value) \<in> assets
      else CHR ''%'' \<notin> set value)"

section \<open>Parsing\<close>

definition descriptor_scalar :: "string \<Rightarrow> string \<Rightarrow> descriptor \<Rightarrow> descriptor option" where
  "descriptor_scalar key value d =
     (if key = ''schema'' then Some (d\<lparr>d_schema := value\<rparr>)
      else if key = ''id'' then Some (d\<lparr>d_id := value\<rparr>)
      else if key = ''version'' then Some (d\<lparr>d_version := value\<rparr>)
      else if key = ''kind'' then Some (d\<lparr>d_kind := value\<rparr>)
      else if key = ''platform'' then Some (d\<lparr>d_platform := value\<rparr>)
      else if key = ''architecture'' then Some (d\<lparr>d_architecture := value\<rparr>)
      else if key = ''artifact'' then Some (d\<lparr>d_artifact := value\<rparr>)
      else if key = ''delivery'' then Some (d\<lparr>d_delivery := value\<rparr>)
      else if key = ''runtime'' then Some (d\<lparr>d_runtime := value\<rparr>)
      else if key = ''availability'' then Some (d\<lparr>d_availability := value\<rparr>)
      else if key = ''entrypoint'' then Some (d\<lparr>d_entrypoint := value\<rparr>)
      else if key = ''channel'' then Some (d\<lparr>d_channel := value\<rparr>)
      else if key = ''category'' then Some (d\<lparr>d_category := value\<rparr>)
      else if key = ''license'' then Some (d\<lparr>d_license := value\<rparr>)
      else if key = ''description'' then Some (d\<lparr>d_description := value\<rparr>)
      else if key = ''homepage'' then Some (d\<lparr>d_homepage := value\<rparr>)
      else if key = ''sha256'' then Some (d\<lparr>d_sha := value\<rparr>)
      else if key = ''provider-abi'' then Some (d\<lparr>d_provider_abi := value\<rparr>)
      else if key = ''launch-mode'' then Some (d\<lparr>d_launch_mode := value\<rparr>)
      else None)"

definition store_field ::
    "string \<Rightarrow> string \<Rightarrow> string \<Rightarrow> descriptor \<times> string list \<Rightarrow> (descriptor \<times> string list) result" where
  "store_field place key value st =
     (let (d, seen) = st
      in if key = ''mirror'' then Inr (d\<lparr>d_mirrors := d_mirrors d @ [value]\<rparr>, seen)
         else if key = ''requires'' then Inr (d\<lparr>d_requirements := d_requirements d @ [value]\<rparr>, seen)
         else if key = ''requires-any'' then Inr (d\<lparr>d_requirement_any := d_requirement_any d @ [value]\<rparr>, seen)
         else if key = ''provides'' then Inr (d\<lparr>d_provides := d_provides d @ [value]\<rparr>, seen)
         else if key = ''asset'' then Inr (d\<lparr>d_assets := d_assets d @ [value]\<rparr>, seen)
         else if key = ''accepts'' then Inr (d\<lparr>d_accepts := d_accepts d @ [value]\<rparr>, seen)
         else if key = ''arg'' then Inr (d\<lparr>d_launch_args := d_launch_args d @ [value]\<rparr>, seen)
         else if key = ''bytes''
         then throw_if (key \<in> set seen) ''duplicate bytes'' (
              ebind (universe_parse_u64 value ''bytes'') (\<lambda>n. Inr (d\<lparr>d_bytes := n\<rparr>, key # seen)))
         else case descriptor_scalar key value d of
                None \<Rightarrow> throw (place @ '': unknown key '' @ key)
              | Some d' \<Rightarrow> throw_if (key \<in> set seen) (''duplicate '' @ key) (Inr (d', key # seen)))"

definition parse_descriptor_line ::
    "string \<Rightarrow> string \<Rightarrow> descriptor \<times> string list \<Rightarrow> (descriptor \<times> string list) result" where
  "parse_descriptor_line place line st =
     (let line = (if line \<noteq> [] \<and> last line = carriage_return then butlast line else line);
          line = universe_trim line
      in if line = [] \<or> hd line = CHR ''#'' then Inr st
         else if line = ''.'' then Inr st
         else case split_first (CHR ''='') line of
                (_, None) \<Rightarrow> throw (place @ '': expected key=value'')
              | (key, Some value) \<Rightarrow>
                  if key = [] then throw (place @ '': expected key=value'')
                  else let key = universe_trim key; value = universe_trim value
                       in throw_if (value = []) (place @ '': empty value'') (store_field place key value st))"

primrec parse_descriptor_lines ::
    "string \<Rightarrow> string list \<Rightarrow> nat \<Rightarrow> descriptor \<times> string list \<Rightarrow> (descriptor \<times> string list) result" where
  "parse_descriptor_lines path [] line_number st = Inr st"
| "parse_descriptor_lines path (line # rest) line_number st =
     ebind (parse_descriptor_line (path @ '':'' @ show_nat (line_number + 1)) line st)
       (parse_descriptor_lines path rest (line_number + 1))"

definition parse_descriptor :: "posix \<Rightarrow> host \<Rightarrow> string \<Rightarrow> descriptor result" where
  "parse_descriptor os h path =
     ebind (read_text_bounded os h path (64 * 1024)) (\<lambda>input.
     ebind (parse_descriptor_lines path (getlines input) 0 (empty_descriptor\<lparr>d_source := path\<rparr>, [])) (\<lambda>(d, _).
     Inr d))"

definition runtime_capability :: "descriptor \<Rightarrow> string" where
  "runtime_capability d = ''runtime.'' @ d_runtime d"

section \<open>Validation\<close>

primrec validate_unique_capabilities :: "string list \<Rightarrow> string \<Rightarrow> descriptor \<Rightarrow> string list \<Rightarrow> unit result" where
  "validate_unique_capabilities [] field d unique = Inr ()"
| "validate_unique_capabilities (value # rest) field d unique =
     throw_if (\<not> known_capability value \<or> value \<in> set unique)
       (''unknown or duplicate '' @ field @ '' in '' @ d_source d @ '': '' @ value)
       (validate_unique_capabilities rest field d (value # unique))"

primrec validate_any_groups :: "string list \<Rightarrow> descriptor \<Rightarrow> string list \<Rightarrow> unit result" where
  "validate_any_groups [] d any_groups = Inr ()"
| "validate_any_groups (any_group # rest) d any_groups =
     ebind (canonical_alternatives any_group) (\<lambda>canonical.
     throw_if (canonical \<in> set any_groups) (''duplicate requires-any in '' @ d_source d)
       (validate_any_groups rest d (canonical # any_groups)))"

text \<open>The loops over assets, accepted artifacts and mirrors: every value passes a check and is new.\<close>

primrec validate_values :: "(string \<Rightarrow> bool) \<Rightarrow> string \<Rightarrow> string list \<Rightarrow> string list \<Rightarrow> unit result" where
  "validate_values check message [] unique = Inr ()"
| "validate_values check message (value # rest) unique =
     throw_if (\<not> check value \<or> value \<in> set unique) message (validate_values check message rest (value # unique))"

primrec validate_launch_args :: "string list \<Rightarrow> descriptor \<Rightarrow> unit result" where
  "validate_launch_args [] d = Inr ()"
| "validate_launch_args (value # rest) d =
     throw_if (\<not> valid_launch_argument value (set (d_assets d)))
       (''invalid launch argument in '' @ d_source d @ '': '' @ value) (validate_launch_args rest d)"

definition validate_delivery :: "descriptor \<Rightarrow> unit result" where
  "validate_delivery d =
     (if d_delivery d = ''https''
      then throw_if (d_mirrors d = [] \<or> \<not> hex64 (d_sha d) \<or> d_bytes d = 0)
             (''https delivery requires mirror, bytes and lowercase sha256: '' @ d_source d) (Inr ())
      else if d_delivery d = ''embedded''
      then throw_if (d_mirrors d \<noteq> [] \<or> \<not> hex64 (d_sha d) \<or> d_bytes d = 0)
             (''embedded delivery requires bytes/sha256 and no mirrors: '' @ d_source d) (Inr ())
      else if d_delivery d = ''builtin''
      then throw_if (d_mirrors d \<noteq> [] \<or> d_sha d \<noteq> ''-'' \<or> d_bytes d \<noteq> 0 \<or> d_kind d \<noteq> ''runtime'')
             (''builtin delivery is reserved for zero-byte runtime substrate: '' @ d_source d) (Inr ())
      else if d_delivery d = ''metadata-only''
      then throw_if (d_mirrors d \<noteq> [] \<or> d_sha d \<noteq> ''-'' \<or> d_bytes d \<noteq> 0)
             (''metadata-only requires bytes=0 sha256=- and no mirrors: '' @ d_source d) (Inr ())
      else if d_delivery d = ''user-supplied''
      then throw_if (d_mirrors d \<noteq> [] \<or> d_sha d \<noteq> ''-'' \<or> d_bytes d \<noteq> 0)
             (''user-supplied content cannot publish mirrors or fixed bytes: '' @ d_source d) (Inr ())
      else Inr ())"

definition console_platforms :: "string set" where
  "console_platforms = {''playstation1'', ''playstation-portable'', ''playstation2'', ''playstation3'', ''xbox'', ''xbox360''}"

definition allowed_artifacts :: "(string \<times> string set) list" where
  "allowed_artifacts =
     [(''windows'', {''exe'', ''msi'', ''msix'', ''appx'', ''runtime-bundle'', ''metadata''}),
      (''linux'', {''elf32'', ''elf64'', ''appimage'', ''flatpak'', ''deb'', ''rpm'', ''tar'', ''runtime-bundle'', ''metadata''}),
      (''macos'', {''dmg'', ''pkg'', ''app'', ''runtime-bundle'', ''metadata''}),
      (''playstation1'', {''psx-exe'', ''bin-cue'', ''chd'', ''pbp'', ''iso'', ''disc-image'', ''metadata''}),
      (''playstation-portable'', {''iso'', ''disc-image'', ''pbp'', ''cso'', ''metadata''}),
      (''playstation2'', {''iso'', ''disc-image'', ''cso'', ''metadata''}),
      (''playstation3'', {''iso'', ''disc-image'', ''metadata''}),
      (''xbox'', {''iso'', ''disc-image'', ''rom'', ''metadata''}),
      (''xbox360'', {''iso'', ''disc-image'', ''rom'', ''metadata''}),
      (''zenov'', {''zpk'', ''zex1'', ''elf32'', ''runtime-bundle'', ''metadata''})]"

definition platform_runtime :: "(string \<times> string set) list" where
  "platform_runtime =
     [(''windows'', {''wine'', ''proton'', ''qemu-system'', ''external''}),
      (''linux'', {''linux-i386-minimal'', ''linux-abi'', ''qemu-user'', ''qemu-system'', ''external''}),
      (''macos'', {''darling'', ''qemu-system'', ''external''}),
      (''playstation1'', {''duckstation'', ''external''}),
      (''playstation-portable'', {''ppsspp'', ''external''}),
      (''playstation2'', {''pcsx2'', ''external''}),
      (''playstation3'', {''rpcs3'', ''external''}),
      (''xbox'', {''xemu'', ''external''}),
      (''xbox360'', {''xenia'', ''external''}),
      (''zenov'', {''native'', ''external''})]"

text \<open>\<open>map.at(key)\<close>.\<close>

definition map_at :: "(string \<times> 'a) list \<Rightarrow> string \<Rightarrow> 'a result" where
  "map_at m key = (case map_of m key of None \<Rightarrow> throw ''map::at'' | Some x \<Rightarrow> Inr x)"

definition validate_provider :: "descriptor \<Rightarrow> unit result" where
  "validate_provider d =
     (if d_kind d = ''runtime''
      then
        throw_if (d_runtime d \<noteq> ''native'') (''runtime provider itself must execute natively: '' @ d_source d) (
        throw_if (d_provider_abi d \<noteq> ''zen-runtime-provider-1'')
          (''runtime provider must declare provider-abi=zen-runtime-provider-1: '' @ d_source d) (
        throw_if (d_launch_mode d \<notin> launch_modes) (''runtime provider has invalid launch-mode: '' @ d_source d) (
        throw_if (d_accepts d = []) (''runtime provider must declare accepted artifacts: '' @ d_source d) (
        throw_if (\<not> safe_runtime_entrypoint (d_entrypoint d))
          (''runtime provider entrypoint must be absolute or @kernel-loader: '' @ d_source d) (
        throw_if (length (d_provides d) \<noteq> 1 \<or> \<not> has_prefix (hd (d_provides d)) ''runtime.'')
          (''runtime provider must provide exactly one runtime capability: '' @ d_source d) (
        throw_if (hd (d_provides d) \<noteq> ''runtime.'' @ rev (takeWhile (\<lambda>c. c \<noteq> CHR ''.'') (rev (d_id d))))
          (''runtime provider id/capability mismatch: '' @ d_source d) (
        throw_if (d_delivery d = ''builtin'' \<and>
                  (d_availability d \<noteq> ''available'' \<or> d_launch_mode d \<noteq> ''builtin'' \<or> d_entrypoint d \<noteq> ''@kernel-loader''))
          (''builtin runtime must be available through @kernel-loader: '' @ d_source d) (
        throw_if (d_delivery d \<noteq> ''builtin'' \<and> d_availability d = ''available'' \<and>
                  d_delivery d \<noteq> ''embedded'' \<and> d_delivery d \<noteq> ''https'')
          (''available runtime must contain downloadable, embedded or builtin bytes: '' @ d_source d) (
        throw_if (d_launch_mode d = ''builtin'' \<and> d_delivery d \<noteq> ''builtin'')
          (''builtin launch-mode requires builtin delivery: '' @ d_source d) (Inr ()))))))))))
      else
        throw_if (d_provider_abi d \<noteq> [] \<or> d_launch_mode d \<noteq> [] \<or> d_accepts d \<noteq> [] \<or> d_launch_args d \<noteq> [])
          (''only runtime providers may declare provider ABI, accepts or launch arguments: '' @ d_source d) (Inr ()))"

definition validate_descriptor :: "descriptor \<Rightarrow> unit result" where
  "validate_descriptor d =
     throw_if (d_schema d \<noteq> ''zen-source-1'') (''schema must be zen-source-1: '' @ d_source d) (
     throw_if (\<not> safe_id (d_id d) \<or> \<not> safe_id (d_version d)) (''unsafe id or version: '' @ d_source d) (
     throw_if (d_kind d \<notin> kinds \<or> d_platform d \<notin> platforms \<or> d_architecture d \<notin> architectures \<or>
               d_artifact d \<notin> artifacts \<or> d_delivery d \<notin> deliveries \<or> d_runtime d \<notin> runtime_names \<or>
               d_availability d \<notin> availability_values) (''unsupported enum in '' @ d_source d) (
     throw_if (\<not> safe_id (d_channel d) \<or> \<not> safe_id (d_category d) \<or> \<not> printable (d_license d) 96 \<or>
               \<not> printable (d_description d) 240 \<or> \<not> https_url (d_homepage d)) (''invalid metadata in '' @ d_source d) (
     throw_if (d_entrypoint d = [] \<or> length (d_entrypoint d) > 192 \<or>
               list_ex (\<lambda>c. c = carriage_return \<or> c = newline) (d_entrypoint d)) (''invalid entrypoint in '' @ d_source d) (
     ebind (validate_unique_capabilities (d_requirements d) ''requires'' d []) (\<lambda>_.
     ebind (validate_unique_capabilities (d_provides d) ''provides'' d []) (\<lambda>_.
     ebind (validate_any_groups (d_requirement_any d) d []) (\<lambda>_.
     ebind (validate_values safe_id (''invalid or duplicate asset in '' @ d_source d) (d_assets d) []) (\<lambda>_.
     ebind (validate_values (\<lambda>v. v \<in> artifacts) (''invalid or duplicate accepts in '' @ d_source d) (d_accepts d) []) (\<lambda>_.
     ebind (validate_launch_args (d_launch_args d) d) (\<lambda>_.
     ebind (validate_values https_url (''invalid or duplicate HTTPS mirror in '' @ d_source d) (d_mirrors d) []) (\<lambda>_.
     ebind (validate_delivery d) (\<lambda>_.
     throw_if (d_platform d \<in> console_platforms \<and> d_kind d = ''game'' \<and> d_delivery d \<noteq> ''user-supplied'')
       (''console game content must be user-supplied: '' @ d_source d) (
     ebind (map_at allowed_artifacts (d_platform d)) (\<lambda>allowed.
     throw_if (d_artifact d \<notin> allowed) (''artifact/platform mismatch: '' @ d_source d) (
     ebind (if d_kind d \<noteq> ''runtime'' then map_at platform_runtime (d_platform d) else Inr {d_runtime d}) (\<lambda>runtimes.
     throw_if (d_runtime d \<notin> runtimes) (''runtime/platform mismatch: '' @ d_source d) (
     validate_provider d))))))))))))))))))"

section \<open>Canonical text\<close>

definition source_line :: "string \<Rightarrow> string \<Rightarrow> string" where
  "source_line key value = key @ ''='' @ value @ [newline]"

primrec canonical_groups :: "string list \<Rightarrow> string list result" where
  "canonical_groups [] = Inr []"
| "canonical_groups (any_group # rest) =
     ebind (canonical_alternatives any_group) (\<lambda>g. ebind (canonical_groups rest) (\<lambda>gs. Inr (g # gs)))"

definition canonical_descriptor :: "descriptor \<Rightarrow> string result" where
  "canonical_descriptor d =
     ebind (canonical_groups (d_requirement_any d)) (\<lambda>any_groups.
     Inr (source_line ''schema'' (d_schema d) @ source_line ''id'' (d_id d) @ source_line ''version'' (d_version d) @
          source_line ''kind'' (d_kind d) @ source_line ''platform'' (d_platform d) @
          source_line ''architecture'' (d_architecture d) @ source_line ''artifact'' (d_artifact d) @
          source_line ''delivery'' (d_delivery d) @ source_line ''runtime'' (d_runtime d) @
          source_line ''availability'' (d_availability d) @ source_line ''entrypoint'' (d_entrypoint d) @
          (if d_provider_abi d \<noteq> [] then source_line ''provider-abi'' (d_provider_abi d) else []) @
          (if d_launch_mode d \<noteq> [] then source_line ''launch-mode'' (d_launch_mode d) else []) @
          source_line ''channel'' (d_channel d) @ source_line ''category'' (d_category d) @
          source_line ''license'' (d_license d) @ source_line ''description'' (d_description d) @
          source_line ''homepage'' (d_homepage d) @ source_line ''bytes'' (show_nat (d_bytes d)) @
          source_line ''sha256'' (d_sha d) @
          concat (map (source_line ''mirror'') (sort (d_mirrors d))) @
          concat (map (source_line ''accepts'') (sort (d_accepts d))) @
          concat (map (source_line ''asset'') (sort (d_assets d))) @
          concat (map (source_line ''requires'') (sort (d_requirements d))) @
          concat (map (source_line ''requires-any'') (sort any_groups)) @
          concat (map (source_line ''provides'') (sort (d_provides d))) @
          concat (map (source_line ''arg'') (d_launch_args d))))"

section \<open>Versions\<close>

text \<open>The digits of a version component up to the first other character, saturating at 64 bits.\<close>

primrec version_number :: "string \<Rightarrow> nat \<Rightarrow> nat" where
  "version_number [] number = number"
| "version_number (c # rest) number =
     (if \<not> isdigit c then number
      else if number > (u64_max - digit_value c) div 10 then u64_max
      else version_number rest (number * 10 + digit_value c))"

text \<open>The loop stops when its position reaches the end, so no component follows a trailing dot.\<close>

definition version_parts :: "string \<Rightarrow> nat list" where
  "version_parts value =
     (let parts = split_all (CHR ''.'') value
      in map (\<lambda>part. version_number part 0) (if last parts = [] then butlast parts else parts))"

definition version_less :: "descriptor \<Rightarrow> descriptor \<Rightarrow> bool" where
  "version_less left right =
     (let a = version_parts (d_version left); b = version_parts (d_version right);
          n = max (length a) (length b); a = resize n a; b = resize n b
      in if a = b then d_version left < d_version right else a < b)"

section \<open>Loading a catalog\<close>

primrec load_descriptors ::
    "posix \<Rightarrow> host \<Rightarrow> string list \<Rightarrow> string list \<Rightarrow> descriptor list \<Rightarrow> descriptor list result" where
  "load_descriptors os h [] identities records = Inr records"
| "load_descriptors os h (path # rest) identities records =
     ebind (parse_descriptor os h path) (\<lambda>d.
     ebind (validate_descriptor d) (\<lambda>_.
       let identity = d_id d @ ''@'' @ d_version d
       in throw_if (identity \<in> set identities) (''duplicate identity: '' @ identity)
            (load_descriptors os h rest (identity # identities) (records @ [d]))))"

definition load_directory :: "posix \<Rightarrow> host \<Rightarrow> string \<Rightarrow> descriptor list result" where
  "load_directory os h directory =
     throw_if (host_lookup h directory \<noteq> Some Folder) (''not a directory: '' @ directory) (
     ebind (load_descriptors os h
              (sort (filter (\<lambda>p. path_extension p = ''.zsource'') (host_regular_files directory h))) [] []) (\<lambda>records.
     throw_if (records = []) ''catalog has no .zsource descriptors'' (Inr records)))"

section \<open>Properties\<close>

lemma decimal_loop_iff:
  "acc \<le> u64_max \<Longrightarrow> decimal_loop field xs acc = Inr n \<longleftrightarrow>
     list_all isdigit xs \<and> n = foldl (\<lambda>n c. n * 10 + digit_value c) acc xs \<and> n \<le> u64_max"
proof (induction xs arbitrary: acc)
  case (Cons c xs)
  have grows: "foldl (\<lambda>n c. n * 10 + digit_value c) a ys \<ge> a" for a ys
  proof (induction ys arbitrary: a)
    case (Cons y ys)
    show ?case using order_trans [OF _ Cons.IH [of "a * 10 + digit_value y"], of a] by simp
  qed simp
  have "acc > (u64_max - digit_value c) div 10 \<longleftrightarrow> acc * 10 + digit_value c > u64_max" if "isdigit c"
    using digit_char_value [OF that] by (auto simp: u64_max_def)
  then show ?case
    using Cons.IH [of "acc * 10 + digit_value c"] grows [of "acc * 10 + digit_value c" xs]
    by (auto simp: throw_if_eq_Inr)
qed auto

lemma parse_u64_exact: "universe_parse_u64 str field = Inr n \<longleftrightarrow> n \<le> u64_max \<and> str = show_nat n"
proof -
  have "decimal_loop field str 0 = Inr n \<longleftrightarrow> list_all isdigit str \<and> decimal_value str = n \<and> n \<le> u64_max"
    using decimal_loop_iff [of 0 field str n] by (auto simp: decimal_value_def)
  then show ?thesis by (auto simp: universe_parse_u64_def throw_if_eq_Inr show_nat_iff)
qed

text \<open>
  \<open>parse_u64\<close> accepts exactly the canonical decimal texts of the 64-bit numbers, and returns
  the number: no sign, no leading zero, no wrap-around.
\<close>

theorem universe_parse_u64_exact:
  "universe_parse_u64 str field = Inr n \<longleftrightarrow> n \<le> u64_max \<and> str = show_nat n"
  by (rule parse_u64_exact)

lemma version_less_at:
  assumes "length (version_parts (d_version x)) \<le> n" and "length (version_parts (d_version y)) \<le> n"
  shows "version_less x y =
    (if resize n (version_parts (d_version x)) = resize n (version_parts (d_version y)) then d_version x < d_version y
     else resize n (version_parts (d_version x)) < resize n (version_parts (d_version y)))"
  using resize_compare [of "version_parts (d_version x)" "max (length (version_parts (d_version x))) (length (version_parts (d_version y)))"
      "version_parts (d_version y)" n] assms
  by (simp add: version_less_def Let_def)

lemma version_less_irrefl: "\<not> version_less x x"
  by (simp add: version_less_def)

lemma version_less_trans: "version_less x y \<Longrightarrow> version_less y z \<Longrightarrow> version_less x z"
proof -
  let ?p = "\<lambda>d. version_parts (d_version d)"
  define n where "n = max (length (?p x)) (max (length (?p y)) (length (?p z)))"
  have n: "length (?p x) \<le> n" "length (?p y) \<le> n" "length (?p z) \<le> n" by (auto simp: n_def)
  show "version_less x y \<Longrightarrow> version_less y z \<Longrightarrow> version_less x z"
    unfolding version_less_at [OF n(1,2)] version_less_at [OF n(2,3)] version_less_at [OF n(1,3)]
    by (auto split: if_splits)
qed

lemma version_less_total: "version_less x y \<or> version_less y x \<or> d_version x = d_version y"
proof -
  let ?p = "\<lambda>d. version_parts (d_version d)"
  define n where "n = max (length (?p x)) (length (?p y))"
  have n: "length (?p x) \<le> n" "length (?p y) \<le> n" by (auto simp: n_def)
  show ?thesis unfolding version_less_at [OF n(1,2)] version_less_at [OF n(2,1)] by auto
qed

lemma version_less_cong: "d_version x = d_version x' \<Longrightarrow> version_less x y = version_less x' y"
  by (simp add: version_less_def)

lemma version_less_asym: "version_less x y \<Longrightarrow> \<not> version_less y x"
  using version_less_trans version_less_irrefl by blast

end
