(* ===== verification/Universe_Host_Profile.thy ===== *)
theory Universe_Host_Profile
  imports Universe_Descriptor
begin

text \<open>\<open>tools/zenuniverse/host_profile.hpp\<close>: the built-in host profiles and their validation.\<close>

record host_profile =
  hp_schema :: string
  hp_id :: string
  hp_architecture :: string
  hp_description :: string
  hp_capabilities :: "string set"
  hp_artifact_bytes_limit :: nat
  hp_process_limit :: nat
  hp_thread_limit :: nat

definition validate_host_profile :: "host_profile \<Rightarrow> unit result" where
  "validate_host_profile p =
     throw_if (hp_schema p \<noteq> ''ZENHOST1'' \<or> \<not> safe_id (hp_id p) \<or> hp_architecture p \<notin> architectures)
       ''invalid built-in host profile metadata'' (
     throw_if (\<not> printable (hp_description p) 240 \<or> hp_artifact_bytes_limit p = 0 \<or> hp_process_limit p = 0 \<or>
               hp_thread_limit p = 0) ''invalid built-in host profile limits'' (
     case List.find (\<lambda>c. \<not> known_capability c) (in_order (hp_capabilities p)) of
       Some c \<Rightarrow> throw (''host profile contains unknown capability: '' @ c)
     | None \<Rightarrow>
         throw_if (''cpu.'' @ hp_architecture p \<notin> hp_capabilities p) ''host profile architecture capability mismatch''
           (Inr ())))"

definition zenov_i686_profile :: host_profile where
  "zenov_i686_profile =
     \<lparr>hp_schema = ''ZENHOST1'', hp_id = ''zenov-0.1.1-i686'', hp_architecture = ''x86'',
      hp_description = ''Current ZenovOS 0.1.1 BIOS/i686 single-foreground-process runtime substrate.'',
      hp_capabilities =
        {''abi.linux.i386.int80-minimal'', ''abi.zenov.zex1'', ''cpu.x86'', ''graphics.framebuffer'',
         ''input.keyboard'', ''input.mouse'', ''kernel.single-foreground-process'', ''loader.elf32-static'',
         ''storage.small-files'', ''storage.zenovfs''},
      hp_artifact_bytes_limit = 65536, hp_process_limit = 1, hp_thread_limit = 1\<rparr>"

definition host_profile_table :: "(string \<times> host_profile) list" where
  "host_profile_table = [(''zenov-0.1.1-i686'', zenov_i686_profile)]"

primrec validate_profiles :: "(string \<times> host_profile) list \<Rightarrow> unit result" where
  "validate_profiles [] = Inr ()"
| "validate_profiles (p # ps) = ebind (validate_host_profile (snd p)) (\<lambda>_. validate_profiles ps)"

definition builtin_host_profiles :: "(string \<times> host_profile) list result" where
  "builtin_host_profiles = ebind (validate_profiles host_profile_table) (\<lambda>_. Inr host_profile_table)"

definition require_host_profile :: "string \<Rightarrow> host_profile result" where
  "require_host_profile name =
     ebind builtin_host_profiles (\<lambda>profiles.
     case map_of profiles name of None \<Rightarrow> throw (''unknown host profile: '' @ name) | Some p \<Rightarrow> Inr p)"

section \<open>The built-in profile is valid\<close>

lemma zenov_i686_profile_valid: "validate_host_profile zenov_i686_profile = Inr ()"
  by code_simp

lemma builtin_host_profiles_ok: "builtin_host_profiles = Inr host_profile_table"
  by (simp add: builtin_host_profiles_def host_profile_table_def zenov_i686_profile_valid)

lemma require_host_profile_iff:
  "require_host_profile name = Inr p \<longleftrightarrow> name = ''zenov-0.1.1-i686'' \<and> p = zenov_i686_profile"
  by (auto simp: require_host_profile_def builtin_host_profiles_ok host_profile_table_def)

end
