(* ===== verification/Universe_Resolver.thy ===== *)
theory Universe_Resolver
  imports Universe_Host_Profile
begin

text \<open>
  \<open>tools/zenuniverse/resolver.hpp\<close>: the choice of packages and providers, the recursive resolution of
  capabilities into an installation plan, and the compiled catalog.

  A \<open>const Descriptor*\<close> into the loaded vector is the index of the descriptor, so that comparing
  pointers is comparing indices. \<open>resolve_capability\<close> and \<open>resolve_alternative\<close> call each other; as in
  the source, the second is written over a forward declaration of the first. The recursion is bounded
  by fuel, with \<open>None\<close> for a call that has none left; the fuel that \<open>make_plan\<close> grants is shown to be
  enough for every catalog.
\<close>

section \<open>Choosing packages\<close>

definition latest_step :: "descriptor list \<Rightarrow> string \<Rightarrow> nat option \<Rightarrow> nat \<Rightarrow> nat option" where
  "latest_step records name best i =
     (if d_id (records ! i) = name \<and>
         (case best of None \<Rightarrow> True | Some b \<Rightarrow> version_less (records ! b) (records ! i)) then Some i else best)"

definition latest :: "descriptor list \<Rightarrow> string \<Rightarrow> nat option" where
  "latest records name = foldl (latest_step records name) None [0..<length records]"

definition runtime_provider :: "descriptor list \<Rightarrow> string \<Rightarrow> nat option" where
  "runtime_provider records runtime = latest records (''org.zenov.runtime.'' @ runtime)"

record alternative_decision =
  ad_expression :: string
  ad_selected :: string
  ad_satisfied :: bool

record plan =
  pl_order :: "nat list"
  pl_blocked :: "string list"
  pl_diagnostics :: "string list"
  pl_alternatives :: "alternative_decision list"
  pl_required_assets :: "string set"
  pl_user_asset :: bool

definition empty_plan :: plan where
  "empty_plan = \<lparr>pl_order = [], pl_blocked = [], pl_diagnostics = [], pl_alternatives = [],
                 pl_required_assets = {}, pl_user_asset = False\<rparr>"

definition append_assets :: "descriptor \<Rightarrow> plan \<Rightarrow> plan" where
  "append_assets d plan = plan\<lparr>pl_required_assets := pl_required_assets plan \<union> set (d_assets d)\<rparr>"

definition append_blocker :: "string \<Rightarrow> plan \<Rightarrow> plan" where
  "append_blocker reason plan =
     (if reason \<in> set (pl_blocked plan) then plan else plan\<lparr>pl_blocked := pl_blocked plan @ [reason]\<rparr>)"

definition append_diagnostic :: "string \<Rightarrow> plan \<Rightarrow> plan" where
  "append_diagnostic message plan =
     (if message \<in> set (pl_diagnostics plan) then plan else plan\<lparr>pl_diagnostics := pl_diagnostics plan @ [message]\<rparr>)"

definition architecture_rank :: "descriptor \<Rightarrow> string \<Rightarrow> nat" where
  "architecture_rank d host_architecture =
     (if d_architecture d = host_architecture then 2 else if d_architecture d = ''any'' then 1 else 0)"

definition availability_rank :: "descriptor \<Rightarrow> nat" where
  "availability_rank d =
     (if d_availability d = ''available'' then 2 else if d_availability d = ''external'' then 1 else 0)"

definition delivery_rank :: "descriptor \<Rightarrow> nat" where
  "delivery_rank d =
     (if d_delivery d = ''builtin'' \<or> d_delivery d = ''embedded'' \<or> d_delivery d = ''https'' then 2
      else if d_delivery d = ''user-supplied'' then 1 else 0)"

definition provider_score :: "string \<Rightarrow> descriptor \<Rightarrow> nat list" where
  "provider_score host_architecture d = [architecture_rank d host_architecture, availability_rank d, delivery_rank d]"

text \<open>The descriptor under the loop's index replaces the best one so far.\<close>

definition better_provider :: "string \<Rightarrow> descriptor \<Rightarrow> descriptor \<Rightarrow> bool" where
  "better_provider host_architecture d best =
     (let current_score = provider_score host_architecture d; best_score = provider_score host_architecture best
      in current_score > best_score \<or> (current_score = best_score \<and> version_less best d) \<or>
         (current_score = best_score \<and> \<not> version_less d best \<and> \<not> version_less best d \<and> d_id d < d_id best))"

definition best_provider_step :: "string \<Rightarrow> descriptor list \<Rightarrow> string \<Rightarrow> nat option \<Rightarrow> nat \<Rightarrow> nat option" where
  "best_provider_step capability records host_architecture best i =
     (if capability \<notin> set (d_provides (records ! i)) then best
      else case best of
             None \<Rightarrow> Some i
           | Some b \<Rightarrow> if better_provider host_architecture (records ! i) (records ! b) then Some i else best)"

definition best_provider :: "string \<Rightarrow> descriptor list \<Rightarrow> string \<Rightarrow> nat option" where
  "best_provider capability records host_architecture =
     foldl (best_provider_step capability records host_architecture) None [0..<length records]"

section \<open>Resolution\<close>

text \<open>What stays fixed during a resolution, and what it changes: active, emitted and the plan.\<close>

record resolver_context =
  cx_records :: "descriptor list"
  cx_architecture :: string
  cx_host :: "string set"

type_synonym resolving = "string set \<times> string set \<times> plan"

type_synonym 'a run = "'a result option"

definition rbind :: "'a run \<Rightarrow> ('a \<Rightarrow> 'b run) \<Rightarrow> 'b run" where
  "rbind m f = (case m of None \<Rightarrow> None | Some (Inl e) \<Rightarrow> Some (Inl e) | Some (Inr x) \<Rightarrow> f x)"

primrec run_all :: "('a \<Rightarrow> 's \<Rightarrow> 's run) \<Rightarrow> 'a list \<Rightarrow> 's \<Rightarrow> 's run" where
  "run_all f [] s = Some (Inr s)"
| "run_all f (x # xs) s = rbind (f x s) (run_all f xs)"

record attempt =
  at_option :: string
  at_state :: resolving
  at_blockers :: nat
  at_packages :: nat

definition attempt_less :: "attempt \<Rightarrow> attempt \<Rightarrow> bool" where
  "attempt_less left right =
     (if at_blockers left \<noteq> at_blockers right then at_blockers left < at_blockers right
      else if at_packages left \<noteq> at_packages right then at_packages left < at_packages right
      else at_option left < at_option right)"

text \<open>\<open>std::min_element\<close>: the first of the least attempts.\<close>

definition min_attempt :: "attempt list \<Rightarrow> attempt" where
  "min_attempt attempts = foldl (\<lambda>best a. if attempt_less a best then a else best) (hd attempts) (tl attempts)"

definition try_option ::
    "(string \<Rightarrow> resolving \<Rightarrow> resolving run) \<Rightarrow> resolving \<Rightarrow> string \<Rightarrow> attempt list \<Rightarrow> attempt list run" where
  "try_option resolve st option attempts =
     rbind (resolve option st) (\<lambda>st'.
       let plan = snd (snd st); plan' = snd (snd st')
       in Some (Inr (attempts @
            [\<lparr>at_option = option, at_state = st',
              at_blockers = length (pl_blocked plan') - length (pl_blocked plan),
              at_packages = length (pl_order plan') - length (pl_order plan)\<rparr>])))"

definition decide :: "string \<Rightarrow> string \<Rightarrow> bool \<Rightarrow> plan \<Rightarrow> plan" where
  "decide canonical selected satisfied plan =
     plan\<lparr>pl_alternatives := pl_alternatives plan @
       [\<lparr>ad_expression = canonical, ad_selected = selected, ad_satisfied = satisfied\<rparr>]\<rparr>"

definition reject_attempt :: "attempt \<Rightarrow> plan \<Rightarrow> plan" where
  "reject_attempt a plan =
     (let blocked = pl_blocked (snd (snd (at_state a)));
          reason = (if blocked \<noteq> [] then last blocked else ''unresolved'')
      in append_diagnostic (''alternative '' @ at_option a @ '' rejected: '' @ reason) plan)"

definition resolve_alternative ::
    "(string \<Rightarrow> resolving \<Rightarrow> resolving run) \<Rightarrow> resolver_context \<Rightarrow> string \<Rightarrow> resolving \<Rightarrow> resolving run" where
  "resolve_alternative resolve cx expression st =
     (case ebind (parse_capability_alternatives expression) (\<lambda>options.
           ebind (canonical_alternatives expression) (\<lambda>canonical. Inr (options, canonical))) of
        Inl e \<Rightarrow> Some (Inl e)
      | Inr (options, canonical) \<Rightarrow>
          let (active, emitted, plan) = st
          in case List.find (\<lambda>option. option \<in> cx_host cx \<or> option \<in> emitted) options of
               Some option \<Rightarrow> Some (Inr (active, emitted, decide canonical option True plan))
             | None \<Rightarrow>
                 rbind (run_all (try_option resolve st) options []) (\<lambda>attempts.
                   let best = min_attempt attempts
                   in if attempts \<noteq> [] \<and> at_blockers best = 0
                      then let (active, emitted, plan) = at_state best
                           in Some (Inr (active, emitted, decide canonical (at_option best) True plan))
                      else let plan = append_blocker (''no satisfiable capability alternative: '' @ canonical) plan;
                               plan = fold reject_attempt attempts plan
                           in Some (Inr (active, emitted, decide canonical ''-'' False plan))))"

text \<open>The blockers a chosen provider adds by itself, and its assets.\<close>

definition note_provider :: "resolver_context \<Rightarrow> descriptor \<Rightarrow> plan \<Rightarrow> plan" where
  "note_provider cx provider plan =
     (let plan = (if d_architecture provider \<noteq> ''any'' \<and> d_architecture provider \<noteq> cx_architecture cx
                  then append_blocker (''provider architecture mismatch: provider='' @ d_id provider @ '' package='' @
                         d_architecture provider @ '' host='' @ cx_architecture cx) plan else plan);
          plan = (if d_availability provider \<noteq> ''available''
                  then append_blocker (''provider not available yet: '' @ d_id provider @ '' ('' @ d_availability provider @ '')'') plan
                  else plan)
      in append_assets provider plan)"

text \<open>The provider enters the order, and what it provides is emitted.\<close>

definition emit_provider :: "resolver_context \<Rightarrow> string \<Rightarrow> nat \<Rightarrow> resolving \<Rightarrow> resolving" where
  "emit_provider cx capability provider st =
     (let (active, emitted, plan) = st;
          (emitted, plan) =
            (if capability \<notin> emitted
             then (emitted \<union> set (d_provides (cx_records cx ! provider)),
                   if provider \<in> set (pl_order plan) then plan else plan\<lparr>pl_order := pl_order plan @ [provider]\<rparr>)
             else (emitted, plan))
      in (active - {capability}, emitted, plan))"

primrec resolve_capability :: "nat \<Rightarrow> resolver_context \<Rightarrow> string \<Rightarrow> resolving \<Rightarrow> resolving run" where
  "resolve_capability 0 cx capability st = None"
| "resolve_capability (Suc fuel) cx capability st =
     (let (active, emitted, plan) = st
      in if capability \<in> cx_host cx \<or> capability \<in> emitted then Some (Inr st)
         else if capability \<in> active
         then Some (Inr (active, emitted, append_blocker (''dependency cycle at '' @ capability) plan))
         else case best_provider capability (cx_records cx) (cx_architecture cx) of
                None \<Rightarrow> Some (Inr (active, emitted, append_blocker (''missing capability provider: '' @ capability) plan))
              | Some i \<Rightarrow>
                  let provider = cx_records cx ! i;
                      st = (insert capability active, emitted, note_provider cx provider plan)
                  in rbind (if capability \<noteq> ''runtime.native'' \<and> d_kind provider = ''runtime'' \<and> d_runtime provider = ''native''
                            then resolve_capability fuel cx ''runtime.native'' st else Some (Inr st)) (\<lambda>st.
                     rbind (run_all (resolve_capability fuel cx) (d_requirements provider) st) (\<lambda>st.
                     rbind (run_all (resolve_alternative (resolve_capability fuel cx) cx) (d_requirement_any provider) st) (\<lambda>st.
                     Some (Inr (emit_provider cx capability i st))))))"

text \<open>One call more than there are capabilities with a provider.\<close>

definition resolve_fuel :: "descriptor list \<Rightarrow> nat" where
  "resolve_fuel records = length (concat (map d_provides records)) + 2"

definition make_plan :: "nat \<Rightarrow> descriptor list \<Rightarrow> string \<Rightarrow> string set \<Rightarrow> plan run" where
  "make_plan i records host_architecture host =
     (let application = records ! i;
          cx = \<lparr>cx_records = records, cx_architecture = host_architecture, cx_host = host\<rparr>;
          resolve = resolve_capability (resolve_fuel records) cx;
          plan = (if d_architecture application \<noteq> ''any'' \<and> d_architecture application \<noteq> host_architecture
                  then append_blocker (''architecture mismatch: package='' @ d_architecture application @ '' host='' @
                         host_architecture) empty_plan else empty_plan);
          plan = append_assets application plan
      in rbind (resolve (runtime_capability application) ({}, host, plan)) (\<lambda>st.
         rbind (run_all resolve (d_requirements application) st) (\<lambda>st.
         rbind (run_all (resolve_alternative resolve cx) (d_requirement_any application) st) (\<lambda>(active, emitted, plan).
         Some (Inr (plan\<lparr>pl_order := pl_order plan @ [i],
                          pl_user_asset := (d_delivery application = ''user-supplied'')\<rparr>))))))"

definition make_runtime_plan :: "string \<Rightarrow> descriptor list \<Rightarrow> string \<Rightarrow> string set \<Rightarrow> plan run" where
  "make_runtime_plan runtime records host_architecture host =
     (let cx = \<lparr>cx_records = records, cx_architecture = host_architecture, cx_host = host\<rparr>
      in rbind (resolve_capability (resolve_fuel records) cx (''runtime.'' @ runtime) ({}, host, empty_plan))
           (\<lambda>(active, emitted, plan). Some (Inr plan)))"

definition provider_accepts_artifact :: "descriptor \<Rightarrow> string \<Rightarrow> bool" where
  "provider_accepts_artifact provider artifact = (artifact \<in> set (d_accepts provider))"

section \<open>The compiled catalog\<close>

text \<open>\<open>std::sort\<close> with a comparison.\<close>

primrec insert_by :: "('a \<Rightarrow> 'a \<Rightarrow> bool) \<Rightarrow> 'a \<Rightarrow> 'a list \<Rightarrow> 'a list" where
  "insert_by lt x [] = [x]"
| "insert_by lt x (y # ys) = (if lt y x then y # insert_by lt x ys else x # y # ys)"

definition sort_by :: "('a \<Rightarrow> 'a \<Rightarrow> bool) \<Rightarrow> 'a list \<Rightarrow> 'a list" where
  "sort_by lt xs = foldr (insert_by lt) xs []"

definition catalog_less :: "descriptor \<Rightarrow> descriptor \<Rightarrow> bool" where
  "catalog_less left right = (if d_id left = d_id right then version_less left right else d_id left < d_id right)"

primrec catalog_payload :: "descriptor list \<Rightarrow> string result" where
  "catalog_payload [] = Inr []"
| "catalog_payload (d # ds) =
     ebind (canonical_descriptor d) (\<lambda>record_text.
     ebind (universe_sha256 record_text) (\<lambda>digest.
     ebind (catalog_payload ds) (\<lambda>rest.
     Inr (''record-sha256='' @ digest @ [newline] @ record_text @ ''.'' @ [newline] @ rest))))"

definition compile_catalog :: "descriptor list \<Rightarrow> string result" where
  "compile_catalog records =
     (let sorted_records = sort_by catalog_less records
      in ebind (catalog_payload sorted_records) (\<lambda>body.
         ebind (universe_sha256 body) (\<lambda>digest.
         Inr (''ZENUNIVERSE1'' @ [newline] @ ''count='' @ show_nat (length sorted_records) @ [newline] @
              ''payload-sha256='' @ digest @ [newline] @ [newline] @ body))))"

end
