(* ===== verification/Universe_Plan.thy ===== *)
theory Universe_Plan
  imports Universe_Resolver
begin

text \<open>
  What the resolver guarantees: it ends for every catalog, a plan without blockers can be carried out
  in its order, the chosen provider and the chosen version are the best ones, and the compiled
  catalog does not depend on the order of the descriptors.
\<close>

section \<open>The contract of a resolver\<close>

abbreviation active_of :: "resolving \<Rightarrow> string set" where "active_of st \<equiv> fst st"
abbreviation emitted_of :: "resolving \<Rightarrow> string set" where "emitted_of st \<equiv> fst (snd st)"
abbreviation plan_of :: "resolving \<Rightarrow> plan" where "plan_of st \<equiv> snd (snd st)"

text \<open>The capabilities of the host and of the packages installed so far.\<close>

definition offered :: "resolver_context \<Rightarrow> nat list \<Rightarrow> string set" where
  "offered cx order = cx_host cx \<union> (\<Union>i\<in>set order. set (d_provides (cx_records cx ! i)))"

text \<open>Every requirement of a package is met by what is offered.\<close>

definition requirements_met :: "string set \<Rightarrow> descriptor \<Rightarrow> bool" where
  "requirements_met offers d \<longleftrightarrow>
     set (d_requirements d) \<subseteq> offers \<and>
     (\<forall>expression\<in>set (d_requirement_any d). \<exists>option\<in>set (split_all (CHR ''|'') expression). option \<in> offers)"

text \<open>A provider can be installed after the packages \<open>before\<close>.\<close>

definition installable :: "resolver_context \<Rightarrow> nat list \<Rightarrow> nat \<Rightarrow> bool" where
  "installable cx before i \<longleftrightarrow>
     (let d = cx_records cx ! i
      in (d_architecture d = ''any'' \<or> d_architecture d = cx_architecture cx) \<and> d_availability d = ''available'' \<and>
         requirements_met (offered cx before) d \<and>
         (d_kind d = ''runtime'' \<and> d_runtime d = ''native'' \<longrightarrow>
            ''runtime.native'' \<in> offered cx before \<union> set (d_provides d)))"

definition plan_valid :: "resolver_context \<Rightarrow> plan \<Rightarrow> bool" where
  "plan_valid cx plan \<longleftrightarrow>
     distinct (pl_order plan) \<and> finite (pl_required_assets plan) \<and> (\<forall>i\<in>set (pl_order plan). i < length (cx_records cx) \<and>
        set (d_assets (cx_records cx ! i)) \<subseteq> pl_required_assets plan) \<and>
     (pl_blocked plan = [] \<longrightarrow> (\<forall>k<length (pl_order plan). installable cx (take k (pl_order plan)) (pl_order plan ! k)))"

definition state_valid :: "resolver_context \<Rightarrow> resolving \<Rightarrow> bool" where
  "state_valid cx st \<longleftrightarrow> emitted_of st = offered cx (pl_order (plan_of st)) \<and> plan_valid cx (plan_of st)"

text \<open>A resolution only adds, and leaves the set of active capabilities as it found it.\<close>

definition grows :: "resolving \<Rightarrow> resolving \<Rightarrow> bool" where
  "grows st st' \<longleftrightarrow>
     active_of st' = active_of st \<and> emitted_of st \<subseteq> emitted_of st' \<and>
     prefix (pl_blocked (plan_of st)) (pl_blocked (plan_of st')) \<and> prefix (pl_order (plan_of st)) (pl_order (plan_of st')) \<and>
     pl_required_assets (plan_of st) \<subseteq> pl_required_assets (plan_of st')"

lemma grows_refl [simp]: "grows st st"
  by (simp add: grows_def)

lemma grows_trans: "grows st st' \<Longrightarrow> grows st' st'' \<Longrightarrow> grows st st''"
  by (auto simp: grows_def)

lemma grows_unblocked: "grows st st' \<Longrightarrow> pl_blocked (plan_of st') = [] \<Longrightarrow> pl_blocked (plan_of st) = []"
  by (simp add: grows_def)

lemma grows_emitted: "grows st st' \<Longrightarrow> x \<in> emitted_of st \<Longrightarrow> x \<in> emitted_of st'"
  by (auto simp: grows_def)

text \<open>
  \<open>honest cx f Q\<close>: from a valid state, \<open>f x\<close> yields a valid state that extends it, in which \<open>Q x\<close> holds
  of the emitted capabilities unless something is blocked.
\<close>

definition honest :: "resolver_context \<Rightarrow> ('a \<Rightarrow> resolving \<Rightarrow> resolving run) \<Rightarrow> ('a \<Rightarrow> string set \<Rightarrow> bool) \<Rightarrow> bool" where
  "honest cx f Q \<longleftrightarrow>
     (\<forall>x st st'. state_valid cx st \<longrightarrow> f x st = Some (Inr st') \<longrightarrow>
        state_valid cx st' \<and> grows st st' \<and> (pl_blocked (plan_of st') = [] \<longrightarrow> Q x (emitted_of st')))"

text \<open>\<open>ends cx A ok f\<close>: with the active set \<open>A\<close>, \<open>f\<close> returns, and without an error when \<open>ok\<close> holds.\<close>

definition ends :: "resolver_context \<Rightarrow> string set \<Rightarrow> ('a \<Rightarrow> bool) \<Rightarrow> ('a \<Rightarrow> resolving \<Rightarrow> resolving run) \<Rightarrow> bool" where
  "ends cx A ok f \<longleftrightarrow>
     (\<forall>x st. state_valid cx st \<longrightarrow> active_of st = A \<longrightarrow> (\<exists>r. f x st = Some r \<and> (ok x \<longrightarrow> is_ok r)))"

lemma honest_elim:
  "honest cx f Q \<Longrightarrow> state_valid cx st \<Longrightarrow> f x st = Some (Inr st') \<Longrightarrow>
     state_valid cx st' \<and> grows st st' \<and> (pl_blocked (plan_of st') = [] \<longrightarrow> Q x (emitted_of st'))"
  unfolding honest_def by blast

lemma ends_elim:
  "ends cx A ok f \<Longrightarrow> state_valid cx st \<Longrightarrow> active_of st = A \<Longrightarrow> \<exists>r. f x st = Some r \<and> (ok x \<longrightarrow> is_ok r)"
  unfolding ends_def by blast

lemma rbind_eq_Inr: "rbind m f = Some (Inr y) \<longleftrightarrow> (\<exists>x. m = Some (Inr x) \<and> f x = Some (Inr y))"
  by (auto simp: rbind_def split: option.splits sum.splits)

lemma rbind_simps [simp]: "rbind (Some (Inr x)) f = f x" "rbind (Some (Inl e)) f = Some (Inl e)" "rbind None f = None"
  by (simp_all add: rbind_def)

lemma honest_run_all:
  assumes "honest cx f Q" and mono: "\<And>x e e'. e \<subseteq> e' \<Longrightarrow> Q x e \<Longrightarrow> Q x e'"
  shows "honest cx (run_all f) (\<lambda>xs e. \<forall>x\<in>set xs. Q x e)"
proof -
  have "state_valid cx st' \<and> grows st st' \<and> (pl_blocked (plan_of st') = [] \<longrightarrow> (\<forall>x\<in>set xs. Q x (emitted_of st')))"
    if "state_valid cx st" "run_all f xs st = Some (Inr st')" for xs st st'
    using that
  proof (induction xs arbitrary: st)
    case (Cons x xs)
    obtain st1 where s1: "f x st = Some (Inr st1)" and s2: "run_all f xs st1 = Some (Inr st')"
      using Cons.prems(2) by (auto simp: rbind_eq_Inr)
    have one: "state_valid cx st1" "grows st st1" "pl_blocked (plan_of st1) = [] \<longrightarrow> Q x (emitted_of st1)"
      using assms(1) Cons.prems(1) s1 unfolding honest_def by blast+
    note rest = Cons.IH [OF one(1) s2]
    then have "pl_blocked (plan_of st') = [] \<longrightarrow> Q x (emitted_of st')"
      using one(3) grows_unblocked mono unfolding grows_def by blast
    then show ?case using rest one(2) grows_trans by auto
  qed simp
  then show ?thesis unfolding honest_def by blast
qed

lemma ends_run_all:
  assumes "ends cx A ok f" and "honest cx f Q"
  shows "ends cx A (\<lambda>xs. \<forall>x\<in>set xs. ok x) (run_all f)"
proof -
  have "\<exists>r. run_all f xs st = Some r \<and> ((\<forall>x\<in>set xs. ok x) \<longrightarrow> is_ok r)"
    if "state_valid cx st" "active_of st = A" for xs st
    using that
  proof (induction xs arbitrary: st)
    case (Cons x xs)
    obtain r where r: "f x st = Some r" "ok x \<longrightarrow> is_ok r"
      using assms(1) Cons.prems unfolding ends_def by blast
    show ?case
    proof (cases r)
      case (Inr st1)
      then have "state_valid cx st1" "grows st st1"
        using assms(2) Cons.prems(1) r(1) unfolding honest_def by blast+
      then obtain r' where "run_all f xs st1 = Some r'" "(\<forall>x\<in>set xs. ok x) \<longrightarrow> is_ok r'"
        using Cons.IH [of st1] Cons.prems by (auto simp: grows_def)
      then show ?thesis using r(1) Inr by auto
    qed (use r in \<open>auto simp: is_ok_def\<close>)
  qed (simp add: is_ok_def)
  then show ?thesis unfolding ends_def by blast
qed

section \<open>Building blocks\<close>

lemma append_blocker_fields [simp]:
  "pl_order (append_blocker r p) = pl_order p" "pl_required_assets (append_blocker r p) = pl_required_assets p"
  "prefix (pl_blocked p) (pl_blocked (append_blocker r p))" "pl_blocked (append_blocker r p) \<noteq> []"
  by (auto simp: append_blocker_def)

lemma append_diagnostic_fields [simp]:
  "pl_order (append_diagnostic r p) = pl_order p" "pl_required_assets (append_diagnostic r p) = pl_required_assets p"
  "pl_blocked (append_diagnostic r p) = pl_blocked p"
  by (auto simp: append_diagnostic_def)

lemma reject_fields [simp]:
  "pl_order (fold reject_attempt as p) = pl_order p" "pl_required_assets (fold reject_attempt as p) = pl_required_assets p"
  "pl_blocked (fold reject_attempt as p) = pl_blocked p"
  by (induction as arbitrary: p) (simp_all add: reject_attempt_def Let_def)

lemma decide_fields [simp]:
  "pl_order (decide c s b p) = pl_order p" "pl_required_assets (decide c s b p) = pl_required_assets p"
  "pl_blocked (decide c s b p) = pl_blocked p"
  by (simp_all add: decide_def)

text \<open>A plan stays valid when blockers or assets are added and the order is kept.\<close>

lemma plan_valid_weaken:
  assumes "plan_valid cx p" and "pl_order p' = pl_order p" and "pl_required_assets p \<subseteq> pl_required_assets p'"
    and "pl_blocked p' = [] \<longrightarrow> pl_blocked p = []" and "finite (pl_required_assets p) \<Longrightarrow> finite (pl_required_assets p')"
  shows "plan_valid cx p'"
  using assms unfolding plan_valid_def by auto

lemma note_provider_fields [simp]:
  "pl_order (note_provider cx d p) = pl_order p"
  "pl_required_assets (note_provider cx d p) = pl_required_assets p \<union> set (d_assets d)"
  "prefix (pl_blocked p) (pl_blocked (note_provider cx d p))"
  by (auto simp: note_provider_def append_assets_def Let_def intro: prefix_order.trans [OF append_blocker_fields(3)])

lemma note_provider_unblocked:
  "pl_blocked (note_provider cx d p) = [] \<Longrightarrow>
     (d_architecture d = ''any'' \<or> d_architecture d = cx_architecture cx) \<and> d_availability d = ''available''"
  by (auto simp: note_provider_def append_assets_def Let_def split: if_splits)

lemma emit_provider_valid:
  assumes "state_valid cx st" and "i < length (cx_records cx)"
    and "set (d_assets (cx_records cx ! i)) \<subseteq> pl_required_assets (plan_of st)"
    and "capability \<in> set (d_provides (cx_records cx ! i))"
    and "pl_blocked (plan_of st) = [] \<longrightarrow> installable cx (pl_order (plan_of st)) i"
  defines "st' \<equiv> emit_provider cx capability i st"
  shows "state_valid cx st' \<and> capability \<in> emitted_of st' \<and> active_of st' = active_of st - {capability} \<and>
         emitted_of st \<subseteq> emitted_of st' \<and> pl_blocked (plan_of st') = pl_blocked (plan_of st) \<and>
         prefix (pl_order (plan_of st)) (pl_order (plan_of st')) \<and>
         pl_required_assets (plan_of st') = pl_required_assets (plan_of st)"
proof (cases "capability \<in> emitted_of st")
  case True
  then show ?thesis using assms(1) by (cases st) (auto simp: st'_def emit_provider_def state_valid_def)
next
  case False
  let ?o = "pl_order (plan_of st)"
  have new: "i \<notin> set ?o" using False assms(1,4) by (auto simp: state_valid_def offered_def)
  have st': "st' = (active_of st - {capability}, emitted_of st \<union> set (d_provides (cx_records cx ! i)),
      (plan_of st)\<lparr>pl_order := ?o @ [i]\<rparr>)"
    using False new by (simp add: st'_def emit_provider_def case_prod_beta Let_def)
  have "plan_valid cx ((plan_of st)\<lparr>pl_order := ?o @ [i]\<rparr>)"
    using assms(1-3,5) new by (auto simp: state_valid_def plan_valid_def nth_append less_Suc_eq)
  then show ?thesis using assms(1,4) by (auto simp: st' state_valid_def offered_def)
qed

lemma best_provider_Some:
  assumes "best_provider capability records arch = Some i"
  shows "i < length records \<and> capability \<in> set (d_provides (records ! i))"
proof -
  have "foldl (best_provider_step capability records arch) None [0..<n] = Some i \<Longrightarrow>
      i < n \<and> capability \<in> set (d_provides (records ! i))" for n
    by (induction n) (auto simp: best_provider_step_def split: if_splits option.splits)
  then show ?thesis using assms unfolding best_provider_def .
qed

lemma latest_Some:
  assumes "latest records name = Some i"
  shows "i < length records \<and> d_id (records ! i) = name"
proof -
  have "foldl (latest_step records name) None [0..<n] = Some i \<Longrightarrow> i < n \<and> d_id (records ! i) = name" for n
    by (induction n) (auto simp: latest_step_def split: if_splits)
  then show ?thesis using assms unfolding latest_def .
qed

lemma min_attempt_in: "as \<noteq> [] \<Longrightarrow> min_attempt as \<in> set as"
proof -
  have "foldl (\<lambda>best a. if attempt_less a best then a else best) b bs \<in> insert b (set bs)" for b bs
    by (induction bs arbitrary: b) (auto split: if_splits)
  then show "as \<noteq> [] \<Longrightarrow> min_attempt as \<in> set as"
    by (cases as) (auto simp: min_attempt_def split: if_splits)
qed

lemma attempts_made:
  assumes "run_all (try_option resolve st) options acc = Some (Inr attempts)"
  shows "\<exists>new. attempts = acc @ new \<and> map at_option new = options \<and>
           (\<forall>a\<in>set new. resolve (at_option a) st = Some (Inr (at_state a)))"
  using assms
proof (induction options arbitrary: acc)
  case (Cons x xs)
  obtain acc1 where a: "try_option resolve st x acc = Some (Inr acc1)" "run_all (try_option resolve st) xs acc1 = Some (Inr attempts)"
    using Cons.prems by (auto simp: rbind_eq_Inr)
  obtain st1 n m where s: "resolve x st = Some (Inr st1)"
      "acc1 = acc @ [\<lparr>at_option = x, at_state = st1, at_blockers = n, at_packages = m\<rparr>]"
    using a(1) by (auto simp: try_option_def rbind_eq_Inr Let_def)
  let ?y = "\<lparr>at_option = x, at_state = st1, at_blockers = n, at_packages = m\<rparr>"
  obtain new where "attempts = acc1 @ new" "map at_option new = xs"
      "\<forall>a\<in>set new. resolve (at_option a) st = Some (Inr (at_state a))"
    using Cons.IH [OF a(2)] by blast
  then show ?case using s by (intro exI [of _ "?y # new"]) auto
qed simp

text \<open>\<open>resolve_alternative\<close> as a whole, for an expression that parses.\<close>

lemma resolve_alternative_cases:
  assumes "resolve_alternative resolve cx expression st = Some (Inr st')"
  obtains options option canonical where "parse_capability_alternatives expression = Inr options" "option \<in> set options"
      "option \<in> cx_host cx \<union> emitted_of st" "st' = (active_of st, emitted_of st, decide canonical option True (plan_of st))"
  | options and a :: attempt and canonical where "parse_capability_alternatives expression = Inr options" "at_option a \<in> set options"
      "resolve (at_option a) st = Some (Inr (at_state a))"
      "st' = (active_of (at_state a), emitted_of (at_state a), decide canonical (at_option a) True (plan_of (at_state a)))"
  | attempts canonical where
      "st' = (active_of st, emitted_of st, decide canonical ''-'' False
         (fold reject_attempt attempts (append_blocker (''no satisfiable capability alternative: '' @ canonical) (plan_of st))))"
proof -
  obtain options canonical where p: "parse_capability_alternatives expression = Inr options"
      "canonical_alternatives expression = Inr canonical"
    using assms by (auto simp: resolve_alternative_def split: sum.splits simp: ebind_def)
  show thesis
  proof (cases "List.find (\<lambda>option. option \<in> cx_host cx \<or> option \<in> emitted_of st) options")
    case (Some x)
    then have "x \<in> set options" "x \<in> cx_host cx \<union> emitted_of st" by (auto simp: find_Some_iff)
    moreover have "st' = (active_of st, emitted_of st, decide canonical x True (plan_of st))"
      using assms Some p by (simp add: resolve_alternative_def split: prod.splits)
    ultimately show thesis using that(1) p(1) by blast
  next
    case None
    then obtain attempts where a: "run_all (try_option resolve st) options [] = Some (Inr attempts)"
      and st': "Inr st' =
        (if attempts \<noteq> [] \<and> at_blockers (min_attempt attempts) = 0
         then Inr (active_of (at_state (min_attempt attempts)), emitted_of (at_state (min_attempt attempts)),
                decide canonical (at_option (min_attempt attempts)) True (plan_of (at_state (min_attempt attempts))))
         else Inr (active_of st, emitted_of st, decide canonical ''-'' False (fold reject_attempt attempts
                (append_blocker (''no satisfiable capability alternative: '' @ canonical) (plan_of st)))))"
      using assms p by (auto simp: resolve_alternative_def rbind_eq_Inr Let_def case_prod_beta split: if_splits)
    show thesis
    proof (cases "attempts \<noteq> [] \<and> at_blockers (min_attempt attempts) = 0")
      case True
      obtain new where "attempts = new" "map at_option new = options"
          "\<forall>a\<in>set new. resolve (at_option a) st = Some (Inr (at_state a))"
        using attempts_made [OF a] by auto
      then have "at_option (min_attempt attempts) \<in> set options"
          "resolve (at_option (min_attempt attempts)) st = Some (Inr (at_state (min_attempt attempts)))"
        using min_attempt_in True by force+
      then show thesis using that(2) [OF p(1)] True st' by simp
    next
      case False
      then show thesis using st' that(3) [of canonical attempts] by (simp only: if_False) blast
    qed
  qed
qed

section \<open>Resolvers keep the contract\<close>

locale capability_resolver =
  fixes cx :: resolver_context
    and resolve :: "string \<Rightarrow> resolving \<Rightarrow> resolving run"
  assumes resolve_honest: "honest cx resolve (\<lambda>capability e. capability \<in> e)"
begin

lemma requirements_honest: "honest cx (run_all resolve) (\<lambda>capabilities e. \<forall>c\<in>set capabilities. c \<in> e)"
  by (rule honest_run_all [OF resolve_honest]) auto

lemma alternative_honest:
  "honest cx (resolve_alternative resolve cx) (\<lambda>expression e. \<exists>option\<in>set (split_all (CHR ''|'') expression). option \<in> e)"
  unfolding honest_def
proof (intro allI impI)
  fix expression st st'
  assume st: "state_valid cx st" and r: "resolve_alternative resolve cx expression st = Some (Inr st')"
  let ?options = "split_all (CHR ''|'') expression"
  have host: "cx_host cx \<subseteq> emitted_of st" using st by (auto simp: state_valid_def offered_def)
  show "state_valid cx st' \<and> grows st st' \<and>
      (pl_blocked (plan_of st') = [] \<longrightarrow> (\<exists>option\<in>set ?options. option \<in> emitted_of st'))"
    using r
  proof (cases rule: resolve_alternative_cases)
    case (1 options option canonical)
    have "state_valid cx st'" using st plan_valid_weaken [of cx "plan_of st" "plan_of st'"] 1 by (simp add: state_valid_def)
    moreover have "option \<in> set ?options" using 1 by (simp add: parse_alternatives_iff)
    ultimately show ?thesis using 1 host by (auto simp: grows_def)
  next
    case (2 options a canonical)
    have a: "state_valid cx (at_state a)" "grows st (at_state a)"
        "pl_blocked (plan_of (at_state a)) = [] \<longrightarrow> at_option a \<in> emitted_of (at_state a)"
      using resolve_honest st 2(3) unfolding honest_def by blast+
    have "state_valid cx st'" using a(1) plan_valid_weaken [of cx "plan_of (at_state a)" "plan_of st'"] 2(4)
      by (simp add: state_valid_def)
    moreover have "at_option a \<in> set ?options" using 2 by (simp add: parse_alternatives_iff)
    ultimately show ?thesis using a(2,3) 2(4) by (auto simp: grows_def)
  next
    case (3 attempts canonical)
    have "state_valid cx st'" using st plan_valid_weaken [of cx "plan_of st" "plan_of st'"] 3 by (simp add: state_valid_def)
    then show ?thesis using 3 by (auto simp: grows_def)
  qed
qed

lemma alternatives_honest:
  "honest cx (run_all (resolve_alternative resolve cx))
     (\<lambda>expressions e. \<forall>x\<in>set expressions. \<exists>option\<in>set (split_all (CHR ''|'') x). option \<in> e)"
  by (rule honest_run_all [OF alternative_honest]) auto

lemma alternative_ends:
  assumes "ends cx A (\<lambda>_. ok) resolve"
  shows "ends cx A (\<lambda>x. ok \<and> is_ok (parse_capability_alternatives x)) (resolve_alternative resolve cx)"
proof -
  have tries: "\<exists>r. run_all (try_option resolve st) options acc = Some r \<and> (ok \<longrightarrow> is_ok r)"
    if st: "state_valid cx st" "active_of st = A" for st options acc
  proof (induction options arbitrary: acc)
    case (Cons x xs)
    obtain r where "resolve x st = Some r" "ok \<longrightarrow> is_ok r"
      using ends_elim [OF assms st] by blast
    then obtain r' where "try_option resolve st x acc = Some r'" "ok \<longrightarrow> is_ok r'"
      by (cases r) (auto simp: try_option_def is_ok_def Let_def)
    then show ?case using Cons by (cases r') (auto simp: is_ok_def)
  qed (simp add: is_ok_def)
  have "\<exists>r. resolve_alternative resolve cx x st = Some r \<and> (ok \<and> is_ok (parse_capability_alternatives x) \<longrightarrow> is_ok r)"
    if st: "state_valid cx st" "active_of st = A" for x st
  proof (cases "parse_capability_alternatives x")
    case (Inr options)
    show ?thesis
    proof (cases "List.find (\<lambda>option. option \<in> cx_host cx \<or> option \<in> emitted_of st) options")
      case None
      obtain r where "run_all (try_option resolve st) options [] = Some r" "ok \<longrightarrow> is_ok r" using tries [OF st] by blast
      then show ?thesis using Inr None
        by (cases r) (auto simp: resolve_alternative_def canonical_alternatives_def Let_def is_ok_def split: prod.splits)
    qed (use Inr in \<open>auto simp: resolve_alternative_def canonical_alternatives_def is_ok_def split: prod.splits\<close>)
  qed (auto simp: resolve_alternative_def is_ok_def)
  then show ?thesis unfolding ends_def by blast
qed

end

text \<open>
  The calls of \<open>resolve_capability\<close> and \<open>make_plan\<close> for one package: the capabilities it needs, in order,
  and then its alternatives.
\<close>

definition calls ::
    "(string \<Rightarrow> resolving \<Rightarrow> resolving run) \<Rightarrow> resolver_context \<Rightarrow> string list \<Rightarrow> string list \<Rightarrow> resolving \<Rightarrow> resolving run" where
  "calls resolve cx needed anys st = rbind (run_all resolve needed st) (run_all (resolve_alternative resolve cx) anys)"

definition native_first :: "string \<Rightarrow> descriptor \<Rightarrow> string list" where
  "native_first capability d =
     (if capability \<noteq> ''runtime.native'' \<and> d_kind d = ''runtime'' \<and> d_runtime d = ''native'' then [''runtime.native''] else [])"

lemma rbind_assoc: "rbind (rbind m f) g = rbind m (\<lambda>x. rbind (f x) g)"
  by (auto simp: rbind_def split: option.splits sum.splits)

lemma rbind_return: "rbind m (\<lambda>x. Some (Inr x)) = m"
  by (auto simp: rbind_def split: option.splits sum.splits)

lemma run_all_append: "run_all f (xs @ ys) st = rbind (run_all f xs st) (run_all f ys)"
proof (induction xs arbitrary: st)
  case (Cons x xs)
  have "run_all f (xs @ ys) = (\<lambda>st. rbind (run_all f xs st) (run_all f ys))" using Cons by (rule ext)
  then show ?case by (simp add: rbind_assoc)
qed simp

lemma run_all_Nil: "run_all f [] = (\<lambda>st. Some (Inr st))"
  by (rule ext) simp

lemma run_all_native:
  "run_all resolve (native_first capability d) st =
     (if capability \<noteq> ''runtime.native'' \<and> d_kind d = ''runtime'' \<and> d_runtime d = ''native''
      then resolve ''runtime.native'' st else Some (Inr st))"
  by (simp add: native_first_def run_all_Nil rbind_return del: run_all.simps(1))

lemma resolve_capability_Suc:
  "resolve_capability (Suc fuel) cx capability st =
     (if capability \<in> cx_host cx \<or> capability \<in> emitted_of st then Some (Inr st)
      else if capability \<in> active_of st
      then Some (Inr (active_of st, emitted_of st, append_blocker (''dependency cycle at '' @ capability) (plan_of st)))
      else case best_provider capability (cx_records cx) (cx_architecture cx) of
             None \<Rightarrow> Some (Inr (active_of st, emitted_of st, append_blocker (''missing capability provider: '' @ capability) (plan_of st)))
           | Some i \<Rightarrow>
               rbind (calls (resolve_capability fuel cx) cx
                        (native_first capability (cx_records cx ! i) @ d_requirements (cx_records cx ! i))
                        (d_requirement_any (cx_records cx ! i))
                        (insert capability (active_of st), emitted_of st, note_provider cx (cx_records cx ! i) (plan_of st)))
                 (\<lambda>st. Some (Inr (emit_provider cx capability i st))))"
  by (simp add: calls_def run_all_append run_all_native Let_def case_prod_beta rbind_assoc cong: option.case_cong)

declare resolve_capability.simps(2) [simp del]

context capability_resolver
begin

lemma calls_honest:
  assumes "state_valid cx st" and "calls resolve cx needed anys st = Some (Inr st')"
  shows "state_valid cx st'" and "grows st st'"
    and "pl_blocked (plan_of st') = [] \<Longrightarrow> set needed \<subseteq> emitted_of st' \<and>
           (\<forall>x\<in>set anys. \<exists>option\<in>set (split_all (CHR ''|'') x). option \<in> emitted_of st')"
proof -
  obtain s where c: "run_all resolve needed st = Some (Inr s)" "run_all (resolve_alternative resolve cx) anys s = Some (Inr st')"
    using assms(2) unfolding calls_def rbind_eq_Inr by blast
  have 1: "state_valid cx s" "grows st s" "pl_blocked (plan_of s) = [] \<longrightarrow> set needed \<subseteq> emitted_of s"
    using honest_elim [OF requirements_honest assms(1) c(1)] by auto
  have 2: "state_valid cx st'" "grows s st'" "pl_blocked (plan_of st') = [] \<longrightarrow>
      (\<forall>x\<in>set anys. \<exists>option\<in>set (split_all (CHR ''|'') x). option \<in> emitted_of st')"
    using honest_elim [OF alternatives_honest 1(1) c(2)] by auto
  show "state_valid cx st'" "grows st st'" using 2(1,2) 1(2) grows_trans by blast+
  assume un: "pl_blocked (plan_of st') = []"
  then have "set needed \<subseteq> emitted_of st'"
    using 1(3) 2(2) grows_unblocked [OF 2(2)] unfolding grows_def by blast
  then show "set needed \<subseteq> emitted_of st' \<and> (\<forall>x\<in>set anys. \<exists>option\<in>set (split_all (CHR ''|'') x). option \<in> emitted_of st')"
    using 2(3) un by simp
qed

lemma calls_end:
  assumes "ends cx A (\<lambda>_. ok) resolve" and "state_valid cx st" and "active_of st = A"
    and "ok \<Longrightarrow> \<forall>x\<in>set anys. is_ok (parse_capability_alternatives x)"
  shows "\<exists>r. calls resolve cx needed anys st = Some r \<and> (ok \<longrightarrow> is_ok r)"
proof -
  obtain r where r: "run_all resolve needed st = Some r" "ok \<longrightarrow> is_ok r"
    using ends_elim [OF ends_run_all [OF assms(1) resolve_honest] assms(2,3), of needed] by auto
  show ?thesis
  proof (cases r)
    case (Inr s)
    then have s: "state_valid cx s" "active_of s = A"
      using honest_elim [OF requirements_honest assms(2), of needed s] r(1) assms(3) by (auto simp: grows_def)
    have "\<exists>r. run_all (resolve_alternative resolve cx) anys s = Some r \<and> (ok \<longrightarrow> is_ok r)"
      using ends_elim [OF ends_run_all [OF alternative_ends [OF assms(1)] alternative_honest] s, of anys] assms(4) by auto
    then show ?thesis using r(1) Inr by (simp add: calls_def)
  qed (use r in \<open>auto simp: calls_def is_ok_def\<close>)
qed

end

text \<open>The state in which the calls for a provider start.\<close>

lemma provider_state_valid:
  "state_valid cx st \<Longrightarrow> state_valid cx (insert capability (active_of st), emitted_of st, note_provider cx d (plan_of st))"
  unfolding state_valid_def
  using plan_valid_weaken [of cx "plan_of st" "note_provider cx d (plan_of st)"] note_provider_fields(3) [of "plan_of st" cx d]
  by (auto simp: prefix_def)

lemma blocker_state_valid:
  "state_valid cx st \<Longrightarrow> state_valid cx (active_of st, emitted_of st, append_blocker reason (plan_of st))"
  unfolding state_valid_def using plan_valid_weaken [of cx "plan_of st" "append_blocker reason (plan_of st)"] by auto

lemma resolve_capability_honest: "honest cx (resolve_capability fuel cx) (\<lambda>capability e. capability \<in> e)"
proof (induction fuel)
  case 0
  then show ?case by (simp add: honest_def)
next
  case (Suc fuel)
  have resolver: "capability_resolver cx (resolve_capability fuel cx)" by (rule capability_resolver.intro [OF Suc])
  show ?case unfolding honest_def
  proof (intro allI impI)
    fix capability st st'
    assume st: "state_valid cx st" and r: "resolve_capability (Suc fuel) cx capability st = Some (Inr st')"
    have host: "cx_host cx \<subseteq> emitted_of st" using st by (auto simp: state_valid_def offered_def)
    show "state_valid cx st' \<and> grows st st' \<and> (pl_blocked (plan_of st') = [] \<longrightarrow> capability \<in> emitted_of st')"
    proof (cases "capability \<in> cx_host cx \<or> capability \<in> emitted_of st")
      case True
      then show ?thesis using r st host by (auto simp: resolve_capability_Suc)
    next
      case new: False
      show ?thesis
      proof (cases "capability \<in> active_of st \<or> best_provider capability (cx_records cx) (cx_architecture cx) = None")
        case True
        then obtain reason where "st' = (active_of st, emitted_of st, append_blocker reason (plan_of st))"
          using r new by (auto simp: resolve_capability_Suc split: if_splits)
        then show ?thesis using blocker_state_valid [OF st] by (simp add: grows_def)
      next
        case False
        then obtain i s where i: "best_provider capability (cx_records cx) (cx_architecture cx) = Some i"
          and s: "calls (resolve_capability fuel cx) cx (native_first capability (cx_records cx ! i) @ d_requirements (cx_records cx ! i))
              (d_requirement_any (cx_records cx ! i))
              (insert capability (active_of st), emitted_of st, note_provider cx (cx_records cx ! i) (plan_of st)) = Some (Inr s)"
          and st': "st' = emit_provider cx capability i s"
          using r new by (auto simp: resolve_capability_Suc rbind_eq_Inr)
        let ?d = "cx_records cx ! i"
        note start = provider_state_valid [OF st, of capability ?d]
        note called = capability_resolver.calls_honest [OF resolver start s]
        note p = best_provider_Some [OF i]
        have order: "emitted_of s = offered cx (pl_order (plan_of s))" using called(1) by (simp add: state_valid_def)
        have "installable cx (pl_order (plan_of s)) i" if "pl_blocked (plan_of s) = []"
          using called(3) [OF that] note_provider_unblocked [of cx ?d "plan_of st"] grows_unblocked [OF called(2) that] p
          by (auto simp: installable_def requirements_met_def native_first_def Let_def order split: if_splits)
        moreover have "set (d_assets ?d) \<subseteq> pl_required_assets (plan_of s)" using called(2) by (auto simp: grows_def)
        ultimately have e: "state_valid cx st' \<and> capability \<in> emitted_of st' \<and> active_of st' = active_of s - {capability} \<and>
         emitted_of s \<subseteq> emitted_of st' \<and> pl_blocked (plan_of st') = pl_blocked (plan_of s) \<and>
         prefix (pl_order (plan_of s)) (pl_order (plan_of st')) \<and> pl_required_assets (plan_of st') = pl_required_assets (plan_of s)"
          using emit_provider_valid [OF called(1), of i capability] p unfolding st' by blast
        have "grows st st'"
          using called(2) e False prefix_order.trans [OF note_provider_fields(3) [of "plan_of st" cx ?d]] unfolding grows_def
          by (auto intro: prefix_order.trans)
        then show ?thesis using e by blast
      qed
    qed
  qed
qed

interpretation resolver: capability_resolver cx "resolve_capability fuel cx" for cx fuel
  by unfold_locales (rule resolve_capability_honest)

section \<open>Termination\<close>

definition groups_ok :: "resolver_context \<Rightarrow> bool" where
  "groups_ok cx \<longleftrightarrow> (\<forall>d\<in>set (cx_records cx). \<forall>x\<in>set (d_requirement_any d). is_ok (parse_capability_alternatives x))"

definition provided :: "resolver_context \<Rightarrow> string set" where
  "provided cx = set (concat (map d_provides (cx_records cx)))"

text \<open>Every nested call has one more provided capability active, so the recursion ends.\<close>

lemma resolve_capability_ends:
  "card (provided cx - A) < fuel \<Longrightarrow> ends cx A (\<lambda>_. groups_ok cx) (resolve_capability fuel cx)"
proof (induction fuel arbitrary: A)
  case (Suc fuel)
  have "\<exists>r. resolve_capability (Suc fuel) cx capability st = Some r \<and> (groups_ok cx \<longrightarrow> is_ok r)"
    if st: "state_valid cx st" "active_of st = A" for capability st
  proof (cases "(capability \<in> cx_host cx \<or> capability \<in> emitted_of st) \<or> capability \<in> A \<or>
      best_provider capability (cx_records cx) (cx_architecture cx) = None")
    case True
    then show ?thesis using st(2) by (auto simp: resolve_capability_Suc is_ok_def)
  next
    case False
    then obtain i where i: "best_provider capability (cx_records cx) (cx_architecture cx) = Some i" by auto
    let ?d = "cx_records cx ! i" and ?A = "insert capability A"
    note p = best_provider_Some [OF i]
    then have "capability \<in> provided cx" by (auto simp: provided_def)
    then have "card (provided cx - ?A) < card (provided cx - A)"
      using False by (intro psubset_card_mono) (auto simp: provided_def)
    then have "card (provided cx - ?A) < fuel" using Suc.prems by linarith
    from resolver.calls_end [OF Suc.IH [OF this] provider_state_valid [OF st(1), of capability ?d]] st(2)
    obtain r where "calls (resolve_capability fuel cx) cx (native_first capability ?d @ d_requirements ?d) (d_requirement_any ?d)
        (insert capability (active_of st), emitted_of st, note_provider cx ?d (plan_of st)) = Some r" "groups_ok cx \<longrightarrow> is_ok r"
      using p unfolding groups_ok_def by (metis fst_conv nth_mem)
    then show ?thesis using False i st(2) by (cases r) (auto simp: resolve_capability_Suc is_ok_def)
  qed
  then show ?case unfolding ends_def by blast
qed simp

lemma resolve_fuel_enough: "card (provided cx - A) < resolve_fuel (cx_records cx)"
proof -
  have "card (provided cx - A) \<le> card (provided cx)" by (rule card_mono) (auto simp: provided_def)
  also have "\<dots> \<le> length (concat (map d_provides (cx_records cx)))" unfolding provided_def by (rule card_length)
  finally show ?thesis by (simp add: resolve_fuel_def)
qed

lemma initial_state_valid:
  "pl_order plan = [] \<Longrightarrow> finite (pl_required_assets plan) \<Longrightarrow> state_valid cx (A, cx_host cx, plan)"
  by (simp add: state_valid_def offered_def plan_valid_def)

text \<open>\<open>make_plan\<close> over the shared calls.\<close>

definition initial_plan :: "descriptor \<Rightarrow> string \<Rightarrow> plan" where
  "initial_plan application host_architecture =
     append_assets application
       (if d_architecture application \<noteq> ''any'' \<and> d_architecture application \<noteq> host_architecture
        then append_blocker (''architecture mismatch: package='' @ d_architecture application @ '' host='' @
               host_architecture) empty_plan else empty_plan)"

lemma make_plan_calls:
  "make_plan i records host_architecture host =
     (let cx = \<lparr>cx_records = records, cx_architecture = host_architecture, cx_host = host\<rparr>; d = records ! i
      in rbind (calls (resolve_capability (resolve_fuel records) cx) cx (runtime_capability d # d_requirements d)
                  (d_requirement_any d) ({}, host, initial_plan d host_architecture))
           (\<lambda>st. Some (Inr ((plan_of st)\<lparr>pl_order := pl_order (plan_of st) @ [i],
                                         pl_user_asset := (d_delivery d = ''user-supplied'')\<rparr>))))"
  unfolding make_plan_def calls_def initial_plan_def Let_def case_prod_beta run_all.simps(2) rbind_assoc ..

lemma initial_plan_fields [simp]:
  "pl_order (initial_plan d arch) = []" "pl_required_assets (initial_plan d arch) = set (d_assets d)"
  by (simp_all add: initial_plan_def append_assets_def empty_plan_def append_blocker_def)

lemma initial_plan_unblocked:
  "pl_blocked (initial_plan d arch) = [] \<Longrightarrow> d_architecture d = ''any'' \<or> d_architecture d = arch"
  by (auto simp: initial_plan_def append_assets_def split: if_splits)

lemma validated_groups:
  assumes "validate_any_groups xs d seen = Inr u" and "x \<in> set xs"
  shows "is_ok (parse_capability_alternatives x)"
  using assms
proof (induction xs arbitrary: seen)
  case (Cons a xs)
  then show ?case
    by (auto simp: ebind_eq_Inr throw_if_eq_Inr canonical_alternatives_def is_ok_iff)
qed simp

lemma validated_descriptor_groups:
  "validate_descriptor d = Inr u \<Longrightarrow> x \<in> set (d_requirement_any d) \<Longrightarrow> is_ok (parse_capability_alternatives x)"
  unfolding validate_descriptor_def throw_if_eq_Inr ebind_eq_Inr by (blast intro: validated_groups)

lemma make_plan_ends:
  assumes "i < length records"
  shows "\<exists>r. make_plan i records host_architecture host = Some r \<and>
             ((\<forall>d\<in>set records. validate_descriptor d = Inr ()) \<longrightarrow> is_ok r)"
proof -
  define cx where "cx = \<lparr>cx_records = records, cx_architecture = host_architecture, cx_host = host\<rparr>"
  have cx: "cx_records cx = records" "cx_host cx = host" by (simp_all add: cx_def)
  let ?d = "records ! i"
  note fuel = resolve_capability_ends [OF resolve_fuel_enough, of cx "{}"]
  have st: "state_valid cx ({}, host, initial_plan ?d host_architecture)"
    using initial_state_valid [of "initial_plan ?d host_architecture" cx "{}"] cx by simp
  have "groups_ok cx \<Longrightarrow> \<forall>x\<in>set (d_requirement_any ?d). is_ok (parse_capability_alternatives x)"
    using assms cx by (auto simp: groups_ok_def)
  from resolver.calls_end [OF fuel st _ this, of "runtime_capability ?d # d_requirements ?d"] cx(1)
  obtain r where "make_plan i records host_architecture host = Some r" "groups_ok cx \<longrightarrow> is_ok r"
    unfolding make_plan_calls Let_def cx_def [symmetric] by (fastforce simp: rbind_def is_ok_def split: sum.splits)
  moreover have "(\<forall>d\<in>set records. validate_descriptor d = Inr ()) \<Longrightarrow> groups_ok cx"
    using validated_descriptor_groups cx by (auto simp: groups_ok_def)
  ultimately show ?thesis by blast
qed

lemma make_plan_carries_out:
  assumes "i < length records" and "make_plan i records host_architecture host = Some (Inr plan)"
    and "pl_blocked plan = []"
  defines "cx \<equiv> \<lparr>cx_records = records, cx_architecture = host_architecture, cx_host = host\<rparr>"
  shows "\<exists>providers. pl_order plan = providers @ [i] \<and> distinct providers \<and>
           (\<forall>k<length providers. providers ! k < length records \<and> installable cx (take k providers) (providers ! k)) \<and>
           (d_architecture (records ! i) = ''any'' \<or> d_architecture (records ! i) = host_architecture) \<and>
           runtime_capability (records ! i) \<in> offered cx providers \<and>
           requirements_met (offered cx providers) (records ! i) \<and>
           (\<forall>j\<in>set (pl_order plan). set (d_assets (records ! j)) \<subseteq> pl_required_assets plan)"
proof -
  have cx: "cx_records cx = records" "cx_host cx = host" "cx_architecture cx = host_architecture" by (simp_all add: cx_def)
  let ?d = "records ! i"
  obtain st where c: "calls (resolve_capability (resolve_fuel records) cx) cx (runtime_capability ?d # d_requirements ?d)
      (d_requirement_any ?d) ({}, host, initial_plan ?d host_architecture) = Some (Inr st)"
    and plan: "plan = (plan_of st)\<lparr>pl_order := pl_order (plan_of st) @ [i], pl_user_asset := (d_delivery ?d = ''user-supplied'')\<rparr>"
    using assms(2) unfolding make_plan_calls Let_def cx_def [symmetric] rbind_eq_Inr by auto
  have start: "state_valid cx ({}, host, initial_plan ?d host_architecture)"
    using initial_state_valid [of "initial_plan ?d host_architecture" cx "{}"] cx by simp
  note called = resolver.calls_honest [OF start c]
  have un: "pl_blocked (plan_of st) = []" using assms(3) plan by simp
  have off: "emitted_of st = offered cx (pl_order (plan_of st))" and valid: "plan_valid cx (plan_of st)"
    using called(1) by (auto simp: state_valid_def)
  have "d_architecture ?d = ''any'' \<or> d_architecture ?d = host_architecture"
    using grows_unblocked [OF called(2) un] by (auto dest: initial_plan_unblocked)
  moreover have "runtime_capability ?d \<in> offered cx (pl_order (plan_of st))"
      "requirements_met (offered cx (pl_order (plan_of st))) ?d"
    using called(3) [OF un] by (auto simp: off requirements_met_def)
  moreover have "set (d_assets ?d) \<subseteq> pl_required_assets plan" using called(2) by (simp add: grows_def plan)
  ultimately show ?thesis using valid un cx plan
    by (intro exI [of _ "pl_order (plan_of st)"]) (auto simp: plan_valid_def)
qed

lemma make_plan_assets_finite:
  assumes "make_plan i records host_architecture host = Some (Inr plan)"
  shows "finite (pl_required_assets plan)"
proof -
  define cx where "cx = \<lparr>cx_records = records, cx_architecture = host_architecture, cx_host = host\<rparr>"
  let ?d = "records ! i"
  obtain st where c: "calls (resolve_capability (resolve_fuel records) cx) cx (runtime_capability ?d # d_requirements ?d)
      (d_requirement_any ?d) ({}, host, initial_plan ?d host_architecture) = Some (Inr st)"
    and "pl_required_assets plan = pl_required_assets (plan_of st)"
    using assms unfolding make_plan_calls Let_def cx_def [symmetric] rbind_eq_Inr by auto
  have "state_valid cx ({}, host, initial_plan ?d host_architecture)"
    using initial_state_valid [of "initial_plan ?d host_architecture" cx "{}"] by (simp add: cx_def)
  from resolver.calls_honest(1) [OF this c] have "finite (pl_required_assets (plan_of st))"
    by (simp add: state_valid_def plan_valid_def)
  then show ?thesis using \<open>pl_required_assets plan = _\<close> by simp
qed

text \<open>
  C36: The resolver ends on every catalog, cyclic ones included: for each package \<open>make_plan\<close> returns,
  and when the descriptors of the catalog are valid it returns a plan.
\<close>

theorem make_plan_terminates:
  assumes "i < length records"
  shows "\<exists>r. make_plan i records host_architecture host = Some r \<and>
             ((\<forall>d\<in>set records. validate_descriptor d = Inr ()) \<longrightarrow> is_ok r)"
  by (rule make_plan_ends [OF assms])

text \<open>
  C35: A plan without blockers can be carried out. The packages before the requested one are distinct
  and each of them is available for the host's architecture, and when its turn comes every capability
  it requires, one of each group of alternatives and its native runtime are offered by the host or by
  the packages before it. The requested package comes last, fits the architecture, and finds its
  runtime and its requirements in the same way; every asset the packages need is listed.
\<close>

theorem make_plan_sound:
  assumes "i < length records" and "make_plan i records host_architecture host = Some (Inr plan)"
    and "pl_blocked plan = []"
  defines "cx \<equiv> \<lparr>cx_records = records, cx_architecture = host_architecture, cx_host = host\<rparr>"
  shows "\<exists>providers. pl_order plan = providers @ [i] \<and> distinct providers \<and>
           (\<forall>k<length providers. providers ! k < length records \<and> installable cx (take k providers) (providers ! k)) \<and>
           (d_architecture (records ! i) = ''any'' \<or> d_architecture (records ! i) = host_architecture) \<and>
           runtime_capability (records ! i) \<in> offered cx providers \<and>
           requirements_met (offered cx providers) (records ! i) \<and>
           (\<forall>j\<in>set (pl_order plan). set (d_assets (records ! j)) \<subseteq> pl_required_assets plan)"
  using make_plan_carries_out [OF assms(1-3)] unfolding cx_def .

section \<open>The best provider and the latest version\<close>

lemma better_provider_alt:
  "better_provider arch x y \<longleftrightarrow>
     provider_score arch x > provider_score arch y \<or>
     (provider_score arch x = provider_score arch y \<and>
        (version_less y x \<or> (d_version x = d_version y \<and> d_id x < d_id y)))"
  using version_less_total [of x y] version_less_irrefl version_less_cong
  unfolding better_provider_def Let_def by (metis version_less_def)

lemma better_provider_trans: "better_provider arch x y \<Longrightarrow> better_provider arch y z \<Longrightarrow> better_provider arch x z"
proof -
  have "version_less z x" if "version_less y x \<and> d_version y = d_version z \<or> version_less z y \<and> d_version x = d_version y"
    using that by (auto simp: version_less_def Let_def)
  then show "better_provider arch x y \<Longrightarrow> better_provider arch y z \<Longrightarrow> better_provider arch x z"
    unfolding better_provider_alt using version_less_trans [of z y x] by (auto intro: less_trans)
qed

lemma better_provider_irrefl: "\<not> better_provider arch x x"
  by (simp add: better_provider_alt version_less_irrefl)

text \<open>
  \<open>best_provider\<close> finds a provider exactly when one exists, and no provider of the capability is
  better than the one it chooses: by architecture, availability and delivery in this order, then by
  version, then by identifier.
\<close>

theorem best_provider_optimal:
  "case best_provider capability records arch of
     None \<Rightarrow> \<forall>d\<in>set records. capability \<notin> set (d_provides d)
   | Some i \<Rightarrow> i < length records \<and> capability \<in> set (d_provides (records ! i)) \<and>
       (\<forall>d\<in>set records. capability \<in> set (d_provides d) \<longrightarrow> \<not> better_provider arch d (records ! i))"
proof -
  let ?best = "\<lambda>n. foldl (best_provider_step capability records arch) None [0..<n]"
  have "case ?best n of
     None \<Rightarrow> \<forall>j<n. capability \<notin> set (d_provides (records ! j))
   | Some i \<Rightarrow> i < n \<and> capability \<in> set (d_provides (records ! i)) \<and>
       (\<forall>j<n. capability \<in> set (d_provides (records ! j)) \<longrightarrow> \<not> better_provider arch (records ! j) (records ! i))" for n
  proof (induction n)
    case (Suc n)
    define r where "r = ?best n"
    have step: "?best (Suc n) = best_provider_step capability records arch r n" by (simp add: r_def)
    show ?case unfolding step
      using Suc [folded r_def] better_provider_trans [of arch _ "records ! n"] better_provider_irrefl [of arch "records ! n"]
      by (cases r) (auto simp: best_provider_step_def less_Suc_eq)
  qed simp
  from this [of "length records"] show ?thesis
    unfolding best_provider_def all_set_conv_all_nth .
qed

text \<open>
  \<open>latest\<close> finds a package exactly when its identifier occurs in the catalog, and no record of
  that identifier has a greater version than the one it returns.
\<close>

theorem latest_greatest:
  "case latest records name of
     None \<Rightarrow> \<forall>d\<in>set records. d_id d \<noteq> name
   | Some i \<Rightarrow> i < length records \<and> d_id (records ! i) = name \<and>
       (\<forall>d\<in>set records. d_id d = name \<longrightarrow> \<not> version_less (records ! i) d)"
proof -
  let ?best = "\<lambda>n. foldl (latest_step records name) None [0..<n]"
  have "case ?best n of
     None \<Rightarrow> \<forall>j<n. d_id (records ! j) \<noteq> name
   | Some i \<Rightarrow> i < n \<and> d_id (records ! i) = name \<and>
       (\<forall>j<n. d_id (records ! j) = name \<longrightarrow> \<not> version_less (records ! i) (records ! j))" for n
  proof (induction n)
    case (Suc n)
    define r where "r = ?best n"
    have step: "?best (Suc n) = latest_step records name r n" by (simp add: r_def)
    show ?case unfolding step
      using Suc [folded r_def] version_less_trans [of _ "records ! n"] version_less_irrefl [of "records ! n"]
      by (cases r) (auto simp: latest_step_def less_Suc_eq)
  qed simp
  from this [of "length records"] show ?thesis
    unfolding latest_def all_set_conv_all_nth .
qed

text \<open>A catalog of two versions of a runtime and an application.\<close>

definition demo_runtime :: "string \<Rightarrow> descriptor" where
  "demo_runtime version = empty_descriptor\<lparr>d_id := ''org.zenov.runtime.native'', d_version := version, d_kind := ''runtime'',
     d_architecture := ''x86'', d_runtime := ''native'', d_availability := ''available'', d_delivery := ''builtin'',
     d_provides := [''runtime.native'']\<rparr>"

definition demo_app :: descriptor where
  "demo_app = empty_descriptor\<lparr>d_id := ''org.zenov.app'', d_version := ''1'', d_kind := ''application'', d_architecture := ''any'',
     d_runtime := ''native'', d_requirements := [''input.mouse''],
     d_requirement_any := [''graphics.framebuffer|graphics.vulkan'']\<rparr>"

definition demo_catalog :: "descriptor list" where
  "demo_catalog = [demo_runtime ''1.9'', demo_runtime ''1.10'', demo_app]"

definition demo_capabilities :: "string set" where
  "demo_capabilities = {''input.mouse'', ''graphics.framebuffer''}"

theorem latest_greatest_witness:
  "latest demo_catalog ''org.zenov.runtime.native'' = Some 1 \<and> \<not> version_less (demo_catalog ! 1) (demo_catalog ! 0)"
proof -
  have "latest demo_catalog ''org.zenov.runtime.native'' = Some 1" by code_simp
  then show ?thesis using latest_greatest [where records = demo_catalog and name = "''org.zenov.runtime.native''"]
    by (simp add: demo_catalog_def demo_runtime_def)
qed

theorem best_provider_optimal_witness:
  "best_provider ''runtime.native'' demo_catalog ''x86'' = Some 1 \<and> \<not> better_provider ''x86'' (demo_catalog ! 0) (demo_catalog ! 1)"
proof -
  have "best_provider ''runtime.native'' demo_catalog ''x86'' = Some 1" by code_simp
  then show ?thesis using best_provider_optimal [where capability = "''runtime.native''" and records = demo_catalog and arch = "''x86''"]
    by (simp add: demo_catalog_def demo_runtime_def)
qed

lemma demo_plan:
  "\<exists>plan. make_plan 2 demo_catalog ''x86'' demo_capabilities = Some (Inr plan) \<and> pl_blocked plan = [] \<and> pl_order plan = [1, 2]"
proof -
  have "(case make_plan 2 demo_catalog ''x86'' demo_capabilities of
     Some (Inr plan) \<Rightarrow> pl_blocked plan = [] \<and> pl_order plan = [1, 2] | _ \<Rightarrow> False)" by code_simp
  then show ?thesis by (auto split: option.splits sum.splits)
qed

theorem make_plan_terminates_witness: "make_plan 2 demo_catalog ''x86'' {} \<noteq> None"
  using make_plan_terminates [of 2 demo_catalog "''x86''" "{}"] by (auto simp: demo_catalog_def)

theorem make_plan_sound_witness:
  "\<exists>plan. make_plan 2 demo_catalog ''x86'' demo_capabilities = Some (Inr plan) \<and> pl_order plan = [1, 2] \<and>
     installable \<lparr>cx_records = demo_catalog, cx_architecture = ''x86'', cx_host = demo_capabilities\<rparr> [] 1"
proof -
  obtain plan where p: "make_plan 2 demo_catalog ''x86'' demo_capabilities = Some (Inr plan)" "pl_blocked plan = []"
      "pl_order plan = [1, 2]"
    using demo_plan by blast
  from make_plan_sound [OF _ p(1,2)] obtain providers where "pl_order plan = providers @ [2]"
      "\<forall>k<length providers. installable \<lparr>cx_records = demo_catalog, cx_architecture = ''x86'', cx_host = demo_capabilities\<rparr>
         (take k providers) (providers ! k)"
    by (auto simp: demo_catalog_def)
  then show ?thesis using p by (cases providers rule: rev_cases) (auto dest: spec [of _ 0])
qed

end
