(* ===== verification/Universe_Catalog.thy ===== *)
theory Universe_Catalog
  imports Universe_Plan "HOL-Library.Multiset"
begin

text \<open>
  The compiled catalog of \<open>compile_catalog\<close>: the order of its records is a total order on package
  identities, so the text depends on the descriptors only and not on the order they were loaded in.
\<close>

lemma catalog_less_trans: "catalog_less x y \<Longrightarrow> catalog_less y z \<Longrightarrow> catalog_less x z"
  by (auto simp: catalog_less_def split: if_splits intro: version_less_trans)

lemma catalog_less_irrefl: "\<not> catalog_less x x"
  by (simp add: catalog_less_def version_less_irrefl)

lemma catalog_less_total: "catalog_less x y \<or> catalog_less y x \<or> (d_id x = d_id y \<and> d_version x = d_version y)"
  using version_less_total [of x y] by (auto simp: catalog_less_def)

lemma catalog_less_cong:
  "d_id x = d_id x' \<Longrightarrow> d_version x = d_version x' \<Longrightarrow>
     catalog_less x y = catalog_less x' y \<and> catalog_less y x = catalog_less y x'"
  by (simp add: catalog_less_def version_less_def)

lemma catalog_less_negtrans: "\<not> catalog_less y x \<Longrightarrow> \<not> catalog_less z y \<Longrightarrow> \<not> catalog_less z x"
  using catalog_less_total [of x y] catalog_less_cong [of x y z] catalog_less_trans [of z x y] by blast

lemma mset_insert_by [simp]: "mset (insert_by lt x ys) = add_mset x (mset ys)"
  by (induction ys) simp_all

lemma mset_sort_by [simp]: "mset (sort_by lt xs) = mset xs"
  by (induction xs) (simp_all add: sort_by_def)

lemma set_insert_by [simp]: "set (insert_by lt x ys) = insert x (set ys)"
  by (induction ys) auto

lemma insert_by_sorted:
  "sorted_wrt (\<lambda>x y. \<not> catalog_less y x) ys \<Longrightarrow> sorted_wrt (\<lambda>x y. \<not> catalog_less y x) (insert_by catalog_less x ys)"
proof (induction ys)
  case (Cons y ys)
  show ?case
  proof (cases "catalog_less y x")
    case True
    then have "\<not> catalog_less x y" using catalog_less_trans catalog_less_irrefl by blast
    then show ?thesis using Cons True by simp
  next
    case False
    then have "\<forall>z\<in>set ys. \<not> catalog_less z x" using Cons.prems catalog_less_negtrans by auto
    then show ?thesis using Cons.prems False by simp
  qed
qed simp

lemma sort_by_sorted: "sorted_wrt (\<lambda>x y. \<not> catalog_less y x) (sort_by catalog_less xs)"
  by (induction xs) (simp_all add: sort_by_def insert_by_sorted)

lemma sorted_wrt_unique:
  assumes "\<And>x y. x \<in> set xs \<Longrightarrow> y \<in> set xs \<Longrightarrow> R x y \<Longrightarrow> R y x \<Longrightarrow> x = y"
    and "sorted_wrt R xs" and "sorted_wrt R ys" and "mset xs = mset ys"
  shows "xs = ys"
  using assms
proof (induction xs arbitrary: ys)
  case (Cons x xs)
  then obtain y ys' where ys: "ys = y # ys'" by (cases ys) auto
  have same: "set (x # xs) = set (y # ys')" using Cons.prems(4) ys by (metis set_mset_mset)
  have "x = y"
  proof (rule ccontr)
    assume "x \<noteq> y"
    then have "x \<in> set ys'" "y \<in> set xs" using same by auto
    then have "R y x" "R x y" using Cons.prems(2,3) ys by auto
    then show False using Cons.prems(1) [of x y] \<open>y \<in> set xs\<close> \<open>x \<noteq> y\<close> by auto
  qed
  moreover have "xs = ys'"
  proof (rule Cons.IH)
    show "\<And>a b. a \<in> set xs \<Longrightarrow> b \<in> set xs \<Longrightarrow> R a b \<Longrightarrow> R b a \<Longrightarrow> a = b" using Cons.prems(1) by auto
  qed (use Cons.prems ys calculation in auto)
  ultimately show ?case using ys by simp
qed simp

text \<open>
  Compiling a catalog is deterministic: for descriptors with distinct identities the compiled text,
  and so its digests, does not depend on the order of the descriptors.
\<close>

theorem compile_catalog_deterministic:
  assumes "distinct (map (\<lambda>d. (d_id d, d_version d)) records)" and "mset reordered = mset records"
  shows "compile_catalog reordered = compile_catalog records"
proof -
  have "sort_by catalog_less records = sort_by catalog_less reordered"
  proof (rule sorted_wrt_unique [where R = "\<lambda>x y. \<not> catalog_less y x"])
    fix x y
    assume "x \<in> set (sort_by catalog_less records)" "y \<in> set (sort_by catalog_less records)"
    then have "x \<in> set records" "y \<in> set records" by (metis mset_sort_by set_mset_mset)+
    moreover assume "\<not> catalog_less y x" "\<not> catalog_less x y"
    then have "(d_id x, d_version x) = (d_id y, d_version y)" using catalog_less_total by blast
    ultimately show "x = y" using assms(1) by (simp add: distinct_map inj_on_def)
  qed (use assms(2) in \<open>simp_all add: sort_by_sorted\<close>)
  then show ?thesis by (simp add: compile_catalog_def)
qed

theorem compile_catalog_deterministic_witness:
  "compile_catalog [demo_app, demo_runtime ''1.10'', demo_runtime ''1.9''] = compile_catalog demo_catalog"
  by (rule compile_catalog_deterministic)
    (simp_all add: demo_catalog_def demo_app_def demo_runtime_def add_mset_commute)

end
