(* ===== verification/Universe_Artifact.thy ===== *)
theory Universe_Artifact
  imports Universe_Descriptor
begin

text \<open>
  \<open>tools/zenuniverse/artifact_manifest.hpp\<close>: hashing an artifact through one open descriptor, and the
  manifests that pin its size and digest. A digest is shown to describe exactly the bytes that were
  read from an unchanged regular file, and manifests to be in bijection with their texts.
\<close>

section \<open>Digests of files\<close>

record file_digest =
  fd_bytes :: nat
  fd_sha256 :: string

text \<open>The read loop: an empty read is the end of the file, an interrupted one is repeated.\<close>

fun hash_reads :: "string \<Rightarrow> read_event list \<Rightarrow> nat \<times> universe_sha \<Rightarrow> (nat \<times> universe_sha) result" where
  "hash_reads path [] st = Inr st"
| "hash_reads path (Interrupted # rest) st = hash_reads path rest st"
| "hash_reads path (ReadError message # rest) st = throw (''artifact read failed: '' @ path @ '': '' @ message)"
| "hash_reads path (Bytes data # rest) (total_bytes, hash) =
     (if data = [] then Inr (total_bytes, hash)
      else throw_if (total_bytes > u64_max - length data) ''artifact size overflows'' (
           ebind (universe_update data hash) (\<lambda>hash. hash_reads path rest (total_bytes + length data, hash))))"

definition digest_regular_file :: "posix \<Rightarrow> string \<Rightarrow> file_digest result" where
  "digest_regular_file os path =
     (case ps_lstat os path of
        None \<Rightarrow> throw (''cannot stat artifact: '' @ path)
      | Some True \<Rightarrow> throw (''symbolic links are not accepted as artifacts: '' @ path)
      | Some False \<Rightarrow>
          (case ps_open os path of
             OpenLink \<Rightarrow> throw (''symbolic links are not accepted as artifacts: '' @ path)
           | OpenError message \<Rightarrow> throw (''cannot open artifact: '' @ path @ '': '' @ message)
           | Opened f \<Rightarrow>
               (case of_before f of
                  None \<Rightarrow> throw (''cannot inspect opened artifact: '' @ path)
                | Some before \<Rightarrow>
                    throw_if (\<not> st_regular before) (''artifact is not a regular file: '' @ path) (
                    throw_if (st_bytes before \<le> 0) (''artifact must not be empty: '' @ path) (
                    ebind (hash_reads path (of_reads f) (0, universe_sha_initial)) (\<lambda>(total_bytes, hash).
                    case of_after f of
                      None \<Rightarrow> throw (''cannot re-inspect opened artifact: '' @ path)
                    | Some after \<Rightarrow>
                        let identity_changed = st_device before \<noteq> st_device after \<or> st_inode before \<noteq> st_inode after;
                            size_changed = st_bytes before \<noteq> st_bytes after \<or> int total_bytes \<noteq> st_bytes before;
                            time_changed = st_mtime before \<noteq> st_mtime after \<or> st_ctime before \<noteq> st_ctime after
                        in throw_if (identity_changed \<or> size_changed \<or> time_changed)
                             (''artifact changed while hashing: '' @ path) (
                           ebind (universe_finish hash) (\<lambda>digest.
                           Inr \<lparr>fd_bytes = total_bytes, fd_sha256 = digest\<rparr>))))))))"

section \<open>Artifact manifests\<close>

record artifact_manifest =
  am_schema :: string
  am_profile :: string
  am_artifact :: string
  am_ownership :: string
  am_bytes :: nat
  am_sha256 :: string

definition ownership_values :: "string set" where
  "ownership_values = {''redistributable'', ''user-owned''}"

definition validate_artifact_manifest :: "artifact_manifest \<Rightarrow> unit result" where
  "validate_artifact_manifest m =
     throw_if (am_schema m \<noteq> ''ZENARTIFACT1'') ''artifact manifest schema must be ZENARTIFACT1'' (
     throw_if (\<not> safe_id (am_profile m)) ''artifact manifest has unsafe profile id'' (
     throw_if (am_artifact m \<notin> artifacts \<or> am_artifact m = ''metadata'' \<or> am_artifact m = ''runtime-bundle'')
       ''artifact manifest has unsupported artifact family'' (
     throw_if (am_ownership m \<notin> ownership_values) ''artifact manifest ownership must be redistributable or user-owned'' (
     throw_if (am_bytes m = 0 \<or> \<not> hex64 (am_sha256 m)) ''artifact manifest requires non-zero bytes and lowercase SHA-256''
       (Inr ())))))"

definition canonical_artifact_manifest :: "artifact_manifest \<Rightarrow> string result" where
  "canonical_artifact_manifest m =
     ebind (validate_artifact_manifest m) (\<lambda>_.
     Inr (''ZENARTIFACT1'' @ [newline] @ source_line ''profile'' (am_profile m) @ source_line ''artifact'' (am_artifact m) @
          source_line ''ownership'' (am_ownership m) @ source_line ''bytes'' (show_nat (am_bytes m)) @
          source_line ''sha256'' (am_sha256 m)))"

definition empty_artifact_manifest :: artifact_manifest where
  "empty_artifact_manifest =
     \<lparr>am_schema = ''ZENARTIFACT1'', am_profile = [], am_artifact = [], am_ownership = [], am_bytes = 0, am_sha256 = []\<rparr>"

definition artifact_field :: "string \<Rightarrow> string \<Rightarrow> artifact_manifest \<Rightarrow> artifact_manifest result" where
  "artifact_field key value m =
     (if key = ''profile'' then Inr (m\<lparr>am_profile := value\<rparr>)
      else if key = ''artifact'' then Inr (m\<lparr>am_artifact := value\<rparr>)
      else if key = ''ownership'' then Inr (m\<lparr>am_ownership := value\<rparr>)
      else if key = ''bytes''
      then ebind (universe_parse_u64 value ''artifact bytes'') (\<lambda>n. Inr (m\<lparr>am_bytes := n\<rparr>))
      else if key = ''sha256'' then Inr (m\<lparr>am_sha256 := value\<rparr>)
      else throw (''artifact manifest unknown field: '' @ key))"

primrec parse_artifact_lines ::
    "string \<Rightarrow> string list \<Rightarrow> artifact_manifest \<times> string list \<Rightarrow> (artifact_manifest \<times> string list) result" where
  "parse_artifact_lines path [] st = Inr st"
| "parse_artifact_lines path (line # rest) st =
     (let (m, seen) = st
      in throw_if (line \<noteq> [] \<and> last line = carriage_return) (''artifact manifest must use LF line endings: '' @ path) (
         throw_if (line = []) (''artifact manifest contains blank line: '' @ path) (
         case split_first (CHR ''='') line of
           (_, None) \<Rightarrow> throw (''artifact manifest expected key=value: '' @ path)
         | (key, Some value) \<Rightarrow>
             throw_if (key = []) (''artifact manifest expected key=value: '' @ path) (
             throw_if (value = [] \<or> key \<in> set seen) (''artifact manifest empty or duplicate field: '' @ key) (
             ebind (artifact_field key value m) (\<lambda>m. parse_artifact_lines path rest (m, key # seen)))))))"

definition parse_artifact_text :: "string \<Rightarrow> string \<Rightarrow> artifact_manifest result" where
  "parse_artifact_text path text =
     throw_if (text = [] \<or> last text \<noteq> newline) (''artifact manifest must end with newline: '' @ path) (
     throw_if (hd (getlines text) \<noteq> ''ZENARTIFACT1'') (''invalid artifact manifest header: '' @ path) (
     ebind (parse_artifact_lines path (tl (getlines text)) (empty_artifact_manifest, [])) (\<lambda>(m, seen).
     throw_if (set seen \<noteq> {''artifact'', ''bytes'', ''ownership'', ''profile'', ''sha256''})
       ''artifact manifest field set is incomplete'' (
     ebind (validate_artifact_manifest m) (\<lambda>_.
     ebind (canonical_artifact_manifest m) (\<lambda>canonical.
     throw_if (canonical \<noteq> text) (''artifact manifest is not canonical: '' @ path) (Inr m)))))))"

definition parse_artifact_manifest :: "posix \<Rightarrow> host \<Rightarrow> string \<Rightarrow> artifact_manifest result" where
  "parse_artifact_manifest os h path = ebind (read_text_bounded os h path 4096) (parse_artifact_text path)"

definition verify_artifact_file :: "posix \<Rightarrow> artifact_manifest \<Rightarrow> string \<Rightarrow> file_digest result" where
  "verify_artifact_file os m path =
     ebind (digest_regular_file os path) (\<lambda>digest.
     throw_if (fd_bytes digest \<noteq> am_bytes m) ''artifact size mismatch'' (
     throw_if (fd_sha256 digest \<noteq> am_sha256 m) ''artifact SHA-256 mismatch'' (Inr digest)))"

section \<open>What a digest describes\<close>

text \<open>The bytes delivered by the reads up to the end of the file.\<close>

fun read_data :: "read_event list \<Rightarrow> bytes" where
  "read_data (Bytes data # rest) = (if data = [] then [] else data @ read_data rest)"
| "read_data (_ # rest) = read_data rest"
| "read_data [] = []"

lemma hash_reads_after:
  "hash_reads path events (n, s) = Inr (n', s') \<Longrightarrow> universe_after message s \<Longrightarrow> length message = n \<Longrightarrow>
     n' = length (message @ read_data events) \<and> universe_after (message @ read_data events) s'"
proof (induction events arbitrary: n s message)
  case (Cons e events)
  show ?case
  proof (cases e)
    case (Bytes data)
    show ?thesis
    proof (cases "data = []")
      case False
      then obtain s1 where s1: "universe_update data s = Inr s1" "hash_reads path events (n + length data, s1) = Inr (n', s')"
          and fits: "\<not> n > u64_max - length data"
        using Cons.prems(1) Bytes by (auto simp: throw_if_eq_Inr ebind_eq_Inr)
      have len: "unat (us_bytes s) = length message"
        using Cons.prems(2) by (simp add: universe_after_def sha_after_def as_total)
      then have "length (message @ data) < 2 ^ 64"
        using s1(1) unat_less_exp [of "us_bytes s"] by (auto simp: universe_update_def throw_if_eq_Inr u64_max_def)
      then have "universe_after (message @ data) s1"
        using universe_update_after [OF Cons.prems(2), of data] s1(1) by auto
      from Cons.IH [OF s1(2) this] show ?thesis using Bytes False Cons.prems(3) by simp
    qed (use Cons.prems Bytes in auto)
  qed (use Cons in auto)
qed simp

lemma digest_regular_file_reads:
  assumes "digest_regular_file os path = Inr d"
  obtains f before after where "ps_lstat os path = Some False" "ps_open os path = Opened f"
    "of_before f = Some before" "of_after f = Some after" "st_regular before"
    "st_device after = st_device before" "st_inode after = st_inode before" "st_bytes after = st_bytes before"
    "st_mtime after = st_mtime before" "st_ctime after = st_ctime before"
    "read_data (of_reads f) \<noteq> []" "st_bytes before = int (length (read_data (of_reads f)))"
    "fd_bytes d = length (read_data (of_reads f))" "fd_sha256 d = hex_encode (sha256_spec (read_data (of_reads f)))"
    "fd_bytes d \<le> u64_max"
proof -
  obtain f before n s after where a: "ps_lstat os path = Some False" "ps_open os path = Opened f"
      "of_before f = Some before" "of_after f = Some after" "st_regular before" "0 < st_bytes before"
      "hash_reads path (of_reads f) (0, universe_sha_initial) = Inr (n, s)"
    and same: "st_device after = st_device before" "st_inode after = st_inode before" "st_bytes after = st_bytes before"
      "int n = st_bytes before" "st_mtime after = st_mtime before" "st_ctime after = st_ctime before"
    and d: "fd_bytes d = n" "universe_finish s = Inr (fd_sha256 d)"
    using assms unfolding digest_regular_file_def
    by (auto simp: throw_if_eq_Inr ebind_eq_Inr Let_def split: option.splits bool.splits open_answer.splits)
  have n: "n = length (read_data (of_reads f))" "universe_after (read_data (of_reads f)) s"
    using hash_reads_after [OF a(7) universe_after_initial] by simp_all
  have small: "8 * length (read_data (of_reads f)) < 2 ^ 64"
  proof -
    have "unat (us_bytes s) = length (read_data (of_reads f))" using n(2) by (simp add: universe_after_def sha_after_def as_total)
    moreover have "\<not> unat (us_bytes s) > u64_max div 8" using d(2) by (auto simp: universe_finish_def throw_if_eq_Inr)
    ultimately show ?thesis by (simp add: u64_max_def)
  qed
  then have "fd_sha256 d = hex_encode (sha256_spec (read_data (of_reads f)))" using universe_finish_after [OF n(2)] d(2) by simp
  moreover have "fd_bytes d \<le> u64_max" using small d(1) n(1) by (simp add: u64_max_def)
  moreover have "read_data (of_reads f) \<noteq> []" using n(1) same(4) a(6) by auto
  ultimately show ?thesis using that [of f before after] a same n(1) d(1) by simp
qed

text \<open>
  What \<open>digest_regular_file\<close> returns describes a file: a regular file, reached without following a
  symbolic link, whose identity, size and times did not change while it was read. The digest is the
  SHA-256 of exactly the bytes read, as many as the file's size, and at least one.
\<close>

theorem digest_regular_file_exact:
  assumes "digest_regular_file os path = Inr d"
  shows "\<exists>f before after. ps_lstat os path = Some False \<and> ps_open os path = Opened f \<and>
           of_before f = Some before \<and> of_after f = Some after \<and> st_regular before \<and>
           st_device after = st_device before \<and> st_inode after = st_inode before \<and> st_bytes after = st_bytes before \<and>
           st_mtime after = st_mtime before \<and> st_ctime after = st_ctime before \<and>
           read_data (of_reads f) \<noteq> [] \<and> st_bytes before = int (length (read_data (of_reads f))) \<and>
           fd_bytes d = length (read_data (of_reads f)) \<and>
           fd_sha256 d = hex_encode (sha256_spec (read_data (of_reads f)))"
  using digest_regular_file_reads [OF assms] by metis

text \<open>A file of three bytes, read in two pieces with an interruption.\<close>

definition demo_stat :: file_stat where
  "demo_stat = \<lparr>st_regular = True, st_device = 1, st_inode = 2, st_bytes = 3, st_mtime = (5, 0), st_ctime = (5, 0)\<rparr>"

definition demo_posix :: posix where
  "demo_posix = \<lparr>ps_lstat = (\<lambda>_. Some False),
     ps_open = (\<lambda>_. Opened \<lparr>of_before = Some demo_stat, of_reads = [Bytes [97, 98], Interrupted, Bytes [99]], of_after = Some demo_stat\<rparr>),
     ps_text_changes = (\<lambda>_. False)\<rparr>"

definition demo_digest :: file_digest where
  "demo_digest = \<lparr>fd_bytes = 3, fd_sha256 = hex_encode (sha256_spec [97, 98, 99])\<rparr>"

lemma demo_digest_read: "digest_regular_file demo_posix path = Inr demo_digest"
proof -
  obtain s1 where s1: "universe_update [97, 98] universe_sha_initial = Inr s1" "universe_after [97, 98] s1"
    using universe_update_after [OF universe_after_initial, of "[97, 98]"] by auto
  obtain s2 where s2: "universe_update [99] s1 = Inr s2" "universe_after [97, 98, 99] s2"
    using universe_update_after [OF s1(2), of "[99]"] by auto
  have "universe_finish s2 = Inr (hex_encode (sha256_spec [97, 98, 99]))" using universe_finish_after [OF s2(2)] by simp
  then show ?thesis using s1(1) s2(1)
    by (simp add: digest_regular_file_def demo_posix_def demo_stat_def demo_digest_def u64_max_def Let_def)
qed

theorem digest_regular_file_exact_witness: "fd_bytes demo_digest = 3 \<and> ps_lstat demo_posix ''a'' = Some False"
  using digest_regular_file_exact [OF demo_digest_read [of "''a''"]] by (auto simp: demo_digest_def)

section \<open>Manifests and their texts\<close>

definition plain_text :: "string \<Rightarrow> bool" where
  "plain_text v \<longleftrightarrow> v \<noteq> [] \<and> newline \<notin> set v \<and> carriage_return \<notin> set v"

lemma plain_all: "list_all P v \<Longrightarrow> v \<noteq> [] \<Longrightarrow> \<not> P newline \<Longrightarrow> \<not> P carriage_return \<Longrightarrow> plain_text v"
  by (auto simp: plain_text_def list_all_iff)

lemma plain_safe_id: "safe_id v \<Longrightarrow> plain_text v"
  by (rule plain_all [of "\<lambda>c. isalnum c \<or> c = CHR ''.'' \<or> c = CHR ''-'' \<or> c = CHR ''_'' \<or> c = CHR ''+''"])
    (auto simp: safe_id_def ctype_defs split: if_splits)

lemma plain_artifact: "v \<in> artifacts \<Longrightarrow> plain_text v"
  by (auto simp: artifacts_def plain_text_def)

lemma plain_ownership: "v \<in> ownership_values \<Longrightarrow> plain_text v"
  by (auto simp: ownership_values_def plain_text_def)

lemma plain_hex64: "hex64 v \<Longrightarrow> plain_text v"
  by (rule plain_all [of "\<lambda>c. isxdigit c \<and> \<not> isupper c"]) (auto simp: hex64_def ctype_defs)

lemma plain_show_nat: "plain_text (show_nat n)"
  by (rule plain_all [of isdigit]) (use decimal_show_nat [of n] in \<open>auto simp: ctype_defs\<close>)

definition artifact_pairs :: "artifact_manifest \<Rightarrow> (string \<times> string) list" where
  "artifact_pairs m = [(''profile'', am_profile m), (''artifact'', am_artifact m), (''ownership'', am_ownership m),
     (''bytes'', show_nat (am_bytes m)), (''sha256'', am_sha256 m)]"

definition assignment :: "string \<times> string \<Rightarrow> string" where
  "assignment p = fst p @ ''='' @ snd p"

lemma artifact_pairs_plain:
  "validate_artifact_manifest m = Inr u \<Longrightarrow> \<forall>p\<in>set (artifact_pairs m). plain_text (snd p)"
  by (auto simp: validate_artifact_manifest_def throw_if_eq_Inr artifact_pairs_def plain_safe_id plain_artifact
      plain_ownership plain_hex64 plain_show_nat)

lemma canonical_artifact_lines:
  "canonical_artifact_manifest m = Inr str \<longleftrightarrow> validate_artifact_manifest m = Inr () \<and>
     str = concat (map (\<lambda>x. x @ [newline]) (''ZENARTIFACT1'' # map assignment (artifact_pairs m)))"
  unfolding canonical_artifact_manifest_def artifact_pairs_def source_line_def assignment_def by (auto simp: ebind_eq_Inr)

lemma parse_artifact_line:
  assumes "plain_text v" and "k \<noteq> []" and "CHR ''='' \<notin> set k" and "k \<notin> set seen"
  shows "parse_artifact_lines path (assignment (k, v) # rest) (m, seen) =
    ebind (artifact_field k v m) (\<lambda>m. parse_artifact_lines path rest (m, k # seen))"
proof -
  have "v \<noteq> []" "last v \<noteq> carriage_return" using assms(1) unfolding plain_text_def by (simp, metis last_in_set)
  then show ?thesis using assms by (simp add: assignment_def throw_if_def)
qed

lemma parse_artifact_text_canonical:
  assumes "canonical_artifact_manifest m = Inr str" and "am_bytes m \<le> u64_max"
  shows "parse_artifact_text path str = Inr m"
proof -
  let ?pairs = "artifact_pairs m"
  have v: "validate_artifact_manifest m = Inr ()"
    and str: "str = concat (map (\<lambda>x. x @ [newline]) (''ZENARTIFACT1'' # map assignment ?pairs))"
    using assms(1) by (auto simp: canonical_artifact_lines)
  note plain = artifact_pairs_plain [OF v]
  have "\<forall>x\<in>set (''ZENARTIFACT1'' # map assignment ?pairs). newline \<notin> set x"
    using plain by (auto simp: plain_text_def artifact_pairs_def assignment_def)
  then have lines: "getlines str = ''ZENARTIFACT1'' # map assignment ?pairs"
    unfolding str by (rule getlines_concat)
  have "str \<noteq> [] \<and> last str = newline" by (simp add: str artifact_pairs_def)
  moreover have "universe_parse_u64 (show_nat (am_bytes m)) ''artifact bytes'' = Inr (am_bytes m)"
    using assms(2) by (simp add: parse_u64_exact)
  then have "parse_artifact_lines path (map assignment ?pairs) (empty_artifact_manifest, []) =
      Inr (m, [''sha256'', ''bytes'', ''ownership'', ''artifact'', ''profile''])"
    using plain v unfolding artifact_pairs_def
    by (simp add: parse_artifact_line artifact_field_def empty_artifact_manifest_def validate_artifact_manifest_def
        throw_if_eq_Inr del: parse_artifact_lines.simps(2))
  ultimately show ?thesis using lines v assms(1)
    by (simp add: parse_artifact_text_def throw_if_def insert_commute)
qed

lemma parse_artifact_text_sound:
  "parse_artifact_text path str = Inr m \<Longrightarrow> canonical_artifact_manifest m = Inr str"
  by (auto simp: parse_artifact_text_def throw_if_eq_Inr ebind_eq_Inr)

text \<open>
  C39: Artifact manifests and their texts determine each other: a text parses to a manifest exactly
  when it is the canonical text of that manifest, so no other text of the same manifest is accepted.
\<close>

theorem artifact_manifest_bijective:
  assumes "am_bytes m \<le> u64_max"
  shows "parse_artifact_text path str = Inr m \<longleftrightarrow> canonical_artifact_manifest m = Inr str"
  using parse_artifact_text_canonical [OF _ assms] parse_artifact_text_sound by blast

definition demo_artifact :: artifact_manifest where
  "demo_artifact = \<lparr>am_schema = ''ZENARTIFACT1'', am_profile = ''org.zenov.app'', am_artifact = ''zex1'',
     am_ownership = ''redistributable'', am_bytes = 4, am_sha256 = replicate 64 (CHR ''a'')\<rparr>"

theorem artifact_manifest_bijective_witness:
  "\<exists>str. canonical_artifact_manifest demo_artifact = Inr str \<and> parse_artifact_text ''m'' str = Inr demo_artifact"
proof -
  have "is_ok (canonical_artifact_manifest demo_artifact)" by code_simp
  then obtain str where "canonical_artifact_manifest demo_artifact = Inr str" by (auto simp: is_ok_iff)
  moreover have "am_bytes demo_artifact \<le> u64_max" by (simp add: demo_artifact_def u64_max_def)
  ultimately show ?thesis using artifact_manifest_bijective by blast
qed

end
