(* ===== verification/Universe_Main.thy ===== *)
theory Universe_Main
  imports Universe_Catalog Universe_Artifact
begin

text \<open>
  \<open>tools/zenuniverse/main.cpp\<close>: the command line of \<open>zenuniverse\<close>. A command yields its exit code or
  error, the text it printed until then, and the host's file system.
\<close>

section \<open>Arguments\<close>

record universe_args =
  ua_positional :: "string list"
  ua_options :: "(string \<times> string list) list"

definition add_option :: "string \<Rightarrow> string \<Rightarrow> (string \<times> string list) list \<Rightarrow> (string \<times> string list) list" where
  "add_option key value options =
     (if map_of options key = None then options @ [(key, [value])]
      else map (\<lambda>(k, vs). if k = key then (k, vs @ [value]) else (k, vs)) options)"

fun parse_args :: "string list \<Rightarrow> universe_args \<Rightarrow> universe_args result" where
  "parse_args [] a = Inr a"
| "parse_args (token # rest) a =
     (if has_prefix token ''--''
      then let key = drop 2 token
           in case rest of
                [] \<Rightarrow> throw (''option requires value: '' @ token)
              | value # rest' \<Rightarrow>
                  throw_if (key = []) (''option requires value: '' @ token)
                    (parse_args rest' (a\<lparr>ua_options := add_option key value (ua_options a)\<rparr>))
      else parse_args rest (a\<lparr>ua_positional := ua_positional a @ [token]\<rparr>))"

definition one_option :: "universe_args \<Rightarrow> string \<Rightarrow> string result" where
  "one_option a key =
     (case map_of (ua_options a) key of Some [value] \<Rightarrow> Inr value | _ \<Rightarrow> throw (''exactly one --'' @ key @ '' required''))"

definition optional_one :: "universe_args \<Rightarrow> string \<Rightarrow> string \<Rightarrow> string result" where
  "optional_one a key fallback =
     (case map_of (ua_options a) key of
        None \<Rightarrow> Inr fallback
      | Some [value] \<Rightarrow> Inr value
      | _ \<Rightarrow> throw (''at most one --'' @ key @ '' allowed''))"

definition many_options :: "universe_args \<Rightarrow> string \<Rightarrow> string list" where
  "many_options a key = (case map_of (ua_options a) key of None \<Rightarrow> [] | Some values \<Rightarrow> values)"

definition reject_unknown_options :: "universe_args \<Rightarrow> string list \<Rightarrow> unit result" where
  "reject_unknown_options a allowed =
     (case List.find (\<lambda>key. key \<notin> set allowed) (sort (map fst (ua_options a))) of
        None \<Rightarrow> Inr ()
      | Some key \<Rightarrow> throw (''unknown option --'' @ key))"

definition require_no_positionals :: "universe_args \<Rightarrow> string \<Rightarrow> unit result" where
  "require_no_positionals a command =
     throw_if (ua_positional a \<noteq> []) (command @ '' takes no positional arguments'') (Inr ())"

definition universe_usage :: string where
  "universe_usage =
     ''zenuniverse - deterministic universal package catalog, artifact manifest and runtime resolver'' @ [newline] @ [newline] @
     ''  zenuniverse validate FILE.zsource [...]'' @ [newline] @
     ''  zenuniverse compile --input DIR --output CATALOG.zuc'' @ [newline] @
     ''  zenuniverse resolve --input DIR --package ID --host-arch ARCH [--capability CAP ...]'' @ [newline] @
     ''  zenuniverse host-profile --name PROFILE'' @ [newline] @
     ''  zenuniverse runtime-plan --input DIR --package ID --host-profile PROFILE [--artifact FAMILY]'' @ [newline] @
     ''  zenuniverse runtime-status --input DIR --runtime RUNTIME --host-profile PROFILE'' @ [newline] @
     ''  zenuniverse artifact-manifest --input DIR --profile ID --artifact FAMILY --file PATH --ownership MODE --output FILE'' @ [newline] @
     ''  zenuniverse verify-artifact --manifest FILE --file PATH'' @ [newline] @
     ''  zenuniverse launch-plan --input DIR --manifest FILE --file PATH --host-profile PROFILE [--asset ID=PATH ...] [--output FILE]'' @ [newline] @
     ''  zenuniverse fetch-plan --input DIR --package ID'' @ [newline] @
     ''  zenuniverse self-test'' @ [newline]"

section \<open>Texts\<close>

definition render_plan :: "descriptor list \<Rightarrow> string \<Rightarrow> plan \<Rightarrow> string" where
  "render_plan records name plan =
     concat (map (\<lambda>i. let d = records ! i
                      in ''install '' @ d_id d @ ''@'' @ d_version d @ '' availability='' @ d_availability d @
                         '' delivery='' @ d_delivery d @ '' runtime='' @ d_runtime d @ [newline]) (pl_order plan)) @
     concat (map (\<lambda>a. ''capability-alternative='' @ ad_expression a @ '' selected='' @ ad_selected a @
                      '' satisfied='' @ (if ad_satisfied a then ''yes'' else ''no'') @ [newline]) (pl_alternatives plan)) @
     concat (map (\<lambda>asset. ''required-asset='' @ asset @ '' source=user-supplied'' @ [newline]) (in_order (pl_required_assets plan))) @
     concat (map (\<lambda>blocker. ''blocked: '' @ blocker @ [newline]) (pl_blocked plan)) @
     concat (map (\<lambda>diagnostic. ''diagnostic: '' @ diagnostic @ [newline]) (pl_diagnostics plan)) @
     (if pl_user_asset plan
      then ''asset: user-supplied; ZenovOS must not download or redistribute proprietary content'' @ [newline] else []) @
     (if pl_blocked plan = [] then ''ZENUNIVERSE_RUNTIME_READY package='' @ name @ [newline]
      else ''ZENUNIVERSE_RUNTIME_BLOCKED package='' @ name @ '' reasons='' @ show_nat (length (pl_blocked plan)) @ [newline])"

primrec parse_asset_arguments :: "string list \<Rightarrow> (string \<times> string) list \<Rightarrow> (string \<times> string) list result" where
  "parse_asset_arguments [] assets = Inr assets"
| "parse_asset_arguments (value # rest) assets =
     (case split_first (CHR ''='') value of
        (_, None) \<Rightarrow> throw ''--asset must use ID=PATH''
      | (name, Some path) \<Rightarrow>
          throw_if (name = [] \<or> path = []) ''--asset must use ID=PATH'' (
          throw_if (\<not> safe_id name \<or> name \<in> fst ` set assets) (''unsafe or duplicate --asset id: '' @ name)
            (parse_asset_arguments rest (assets @ [(name, path)]))))"

definition expand_argument :: "string \<Rightarrow> string" where
  "expand_argument argument =
     (if argument = ''%artifact%'' then ''<verified-artifact>''
      else if has_prefix argument ''%asset:'' \<and> last argument = CHR ''%''
      then ''<verified-asset:'' @ take (length argument - 8) (drop 7 argument) @ ''>''
      else argument)"

definition is_console_platform :: "string \<Rightarrow> bool" where
  "is_console_platform platform \<longleftrightarrow>
     platform = ''playstation1'' \<or> platform = ''playstation-portable'' \<or> platform = ''playstation2'' \<or>
     platform = ''playstation3'' \<or> platform = ''xbox'' \<or> platform = ''xbox360''"

section \<open>Commands\<close>

type_synonym universe_outcome = "nat result \<times> string \<times> host"

text \<open>A command that only reads and prints its text at its end.\<close>

definition reading :: "host \<Rightarrow> (nat \<times> string) result \<Rightarrow> universe_outcome" where
  "reading h r = (case r of Inl e \<Rightarrow> (Inl e, [], h) | Inr (code, printed) \<Rightarrow> (Inr code, printed, h))"

text \<open>The resolver's answer; its fuel never runs out.\<close>

definition planned :: "'a run \<Rightarrow> 'a result" where
  "planned r = (case r of None \<Rightarrow> throw ''resolver fuel exhausted'' | Some r \<Rightarrow> r)"

definition plan_code :: "plan \<Rightarrow> nat" where
  "plan_code plan = (if pl_blocked plan = [] then 0 else 3)"

definition run_self_test :: "universe_args \<Rightarrow> (nat \<times> string) result" where
  "run_self_test a =
     ebind (reject_unknown_options a []) (\<lambda>_.
     ebind (require_no_positionals a ''self-test'') (\<lambda>_.
     ebind (universe_sha256 ''abc'') (\<lambda>digest.
     throw_if (digest \<noteq> ''ba7816bf8f01cfea414140de5dae2223b00361a396177a9cb410ff61f20015ad'') ''SHA-256 known-answer test failed'' (
     ebind (require_host_profile ''zenov-0.1.1-i686'') (\<lambda>profile.
     throw_if (hp_architecture profile \<noteq> ''x86'' \<or> hp_artifact_bytes_limit profile \<noteq> 65536 \<or>
               ''loader.elf32-static'' \<notin> hp_capabilities profile \<or> ''kernel.threads'' \<in> hp_capabilities profile)
       ''host-profile invariant failed'' (
     ebind (canonical_alternatives ''graphics.vulkan1.0|graphics.opengl3.1'') (\<lambda>canonical.
     throw_if (canonical \<noteq> ''graphics.opengl3.1|graphics.vulkan1.0'') ''capability alternative canonicalization failed'' (
     ebind (canonical_artifact_manifest
       \<lparr>am_schema = ''ZENARTIFACT1'', am_profile = ''org.zenov.profile.native-app'', am_artifact = ''zex1'',
        am_ownership = ''redistributable'', am_bytes = 4, am_sha256 = replicate 64 (CHR ''a'')\<rparr>) (\<lambda>manifest_text.
     throw_if (\<not> has_prefix manifest_text (''ZENARTIFACT1'' @ [newline])) ''artifact manifest canonicalization failed'' (
     Inr (0, ''ZENUNIVERSE_SELF_TEST_OK host-profile=yes capability-registry=yes artifact-manifest=yes'' @ [newline])))))))))))"

primrec validate_files :: "posix \<Rightarrow> host \<Rightarrow> string list \<Rightarrow> string \<Rightarrow> unit result \<times> string" where
  "validate_files os h [] printed = (Inr (), printed)"
| "validate_files os h (path # rest) printed =
     (case ebind (parse_descriptor os h path) (\<lambda>d. ebind (validate_descriptor d) (\<lambda>_. Inr d)) of
        Inl e \<Rightarrow> (Inl e, printed)
      | Inr d \<Rightarrow> validate_files os h rest (printed @ ''VALID '' @ d_id d @ ''@'' @ d_version d @ [newline]))"

definition run_validate :: "posix \<Rightarrow> universe_args \<Rightarrow> host \<Rightarrow> universe_outcome" where
  "run_validate os a h =
     (case ebind (reject_unknown_options a []) (\<lambda>_.
           throw_if (ua_positional a = []) ''validate requires descriptors'' (Inr ())) of
        Inl e \<Rightarrow> (Inl e, [], h)
      | Inr _ \<Rightarrow>
          (let (r, printed) = validate_files os h (ua_positional a) []
           in case r of
                Inl e \<Rightarrow> (Inl e, printed, h)
              | Inr _ \<Rightarrow> (Inr 0, printed @ ''ZENUNIVERSE_VALIDATE_OK count='' @ show_nat (length (ua_positional a)) @ [newline], h)))"

definition run_compile :: "posix \<Rightarrow> universe_args \<Rightarrow> host \<Rightarrow> universe_outcome" where
  "run_compile os a h =
     (case ebind (reject_unknown_options a [''input'', ''output'']) (\<lambda>_.
           ebind (require_no_positionals a ''compile'') (\<lambda>_.
           ebind (one_option a ''input'') (\<lambda>input.
           ebind (load_directory os h input) (\<lambda>records.
           ebind (compile_catalog records) (\<lambda>catalog.
           ebind (one_option a ''output'') (\<lambda>output_path. Inr (records, catalog, output_path))))))) of
        Inl e \<Rightarrow> (Inl e, [], h)
      | Inr (records, catalog, output_path) \<Rightarrow>
          (let (written, h) = write_atomic output_path catalog h
           in case ebind written (\<lambda>_. universe_sha256 catalog) of
                Inl e \<Rightarrow> (Inl e, [], h)
              | Inr digest \<Rightarrow>
                  (Inr 0, ''ZENUNIVERSE_COMPILE_OK packages='' @ show_nat (length records) @ '' sha256='' @ digest @ [newline], h)))"

definition run_host_profile :: "universe_args \<Rightarrow> (nat \<times> string) result" where
  "run_host_profile a =
     ebind (reject_unknown_options a [''name'']) (\<lambda>_.
     ebind (require_no_positionals a ''host-profile'') (\<lambda>_.
     ebind (one_option a ''name'') (\<lambda>name.
     ebind (require_host_profile name) (\<lambda>profile.
     Inr (0, hp_schema profile @ [newline] @ source_line ''profile'' (hp_id profile) @
             source_line ''architecture'' (hp_architecture profile) @ source_line ''description'' (hp_description profile) @
             source_line ''artifact-bytes-limit'' (show_nat (hp_artifact_bytes_limit profile)) @
             source_line ''process-limit'' (show_nat (hp_process_limit profile)) @
             source_line ''thread-limit'' (show_nat (hp_thread_limit profile)) @
             concat (map (source_line ''capability'') (in_order (hp_capabilities profile))) @
             ''ZENUNIVERSE_HOST_PROFILE_OK capabilities='' @ show_nat (card (hp_capabilities profile)) @ [newline])))))"

primrec manual_capabilities :: "string list \<Rightarrow> string set \<Rightarrow> string set result" where
  "manual_capabilities [] capabilities = Inr capabilities"
| "manual_capabilities (value # rest) capabilities =
     throw_if (\<not> known_capability value) (''unknown manual capability: '' @ value)
       (manual_capabilities rest (insert value capabilities))"

definition find_package :: "descriptor list \<Rightarrow> string \<Rightarrow> nat result" where
  "find_package records name =
     (case latest records name of None \<Rightarrow> throw (''package not found: '' @ name) | Some i \<Rightarrow> Inr i)"

definition run_resolve_command :: "posix \<Rightarrow> universe_args \<Rightarrow> host \<Rightarrow> (nat \<times> string) result" where
  "run_resolve_command os a h =
     ebind (reject_unknown_options a [''input'', ''package'', ''host-arch'', ''capability'']) (\<lambda>_.
     ebind (require_no_positionals a ''resolve'') (\<lambda>_.
     ebind (one_option a ''input'') (\<lambda>input.
     ebind (load_directory os h input) (\<lambda>records.
     ebind (one_option a ''package'') (\<lambda>name.
     ebind (one_option a ''host-arch'') (\<lambda>architecture.
     throw_if (architecture \<notin> architectures) ''unsupported host architecture'' (
     ebind (manual_capabilities (many_options a ''capability'') {}) (\<lambda>capabilities.
     ebind (find_package records name) (\<lambda>application.
     ebind (planned (make_plan application records architecture capabilities)) (\<lambda>plan.
     Inr (plan_code plan, ''capability-source=manual-unverified'' @ [newline] @ render_plan records name plan @
          (if pl_blocked plan = [] then ''ZENUNIVERSE_RESOLVE_OK package='' @ name @ [newline]
           else ''ZENUNIVERSE_RESOLVE_BLOCKED package='' @ name @ '' reasons='' @ show_nat (length (pl_blocked plan)) @ [newline]))))))))))))"

definition run_runtime_plan :: "posix \<Rightarrow> universe_args \<Rightarrow> host \<Rightarrow> (nat \<times> string) result" where
  "run_runtime_plan os a h =
     ebind (reject_unknown_options a [''input'', ''package'', ''host-profile'', ''artifact'']) (\<lambda>_.
     ebind (require_no_positionals a ''runtime-plan'') (\<lambda>_.
     ebind (one_option a ''input'') (\<lambda>input.
     ebind (load_directory os h input) (\<lambda>records.
     ebind (one_option a ''package'') (\<lambda>name.
     ebind (one_option a ''host-profile'') (\<lambda>profile_name.
     ebind (require_host_profile profile_name) (\<lambda>profile.
     ebind (find_package records name) (\<lambda>application.
     ebind (planned (make_plan application records (hp_architecture profile) (hp_capabilities profile))) (\<lambda>plan.
     ebind (optional_one a ''artifact'' []) (\<lambda>artifact.
     throw_if (artifact \<noteq> [] \<and> artifact \<notin> artifacts) (''unsupported artifact family: '' @ artifact) (
       let provider = runtime_provider records (d_runtime (records ! application));
           accepted = (case provider of None \<Rightarrow> False | Some i \<Rightarrow> provider_accepts_artifact (records ! i) artifact);
           plan = (if artifact \<noteq> [] \<and> \<not> accepted
                   then append_blocker (''runtime provider does not accept artifact: '' @ artifact) plan else plan)
       in Inr (plan_code plan,
            ''ZEN_RUNTIME_PLAN2'' @ [newline] @ source_line ''host-profile'' (hp_id profile) @
            source_line ''host-architecture'' (hp_architecture profile) @ source_line ''package'' name @
            (if artifact \<noteq> [] then source_line ''artifact'' artifact else []) @ render_plan records name plan))))))))))))"

definition run_runtime_status :: "posix \<Rightarrow> universe_args \<Rightarrow> host \<Rightarrow> (nat \<times> string) result" where
  "run_runtime_status os a h =
     ebind (reject_unknown_options a [''input'', ''runtime'', ''host-profile'']) (\<lambda>_.
     ebind (require_no_positionals a ''runtime-status'') (\<lambda>_.
     ebind (one_option a ''input'') (\<lambda>input.
     ebind (load_directory os h input) (\<lambda>records.
     ebind (one_option a ''runtime'') (\<lambda>runtime.
     ebind (one_option a ''host-profile'') (\<lambda>profile_name.
     ebind (require_host_profile profile_name) (\<lambda>profile.
     case runtime_provider records runtime of
       None \<Rightarrow> throw (''runtime provider not found: '' @ runtime)
     | Some i \<Rightarrow>
         ebind (planned (make_runtime_plan runtime records (hp_architecture profile) (hp_capabilities profile))) (\<lambda>plan.
           let provider = records ! i
           in Inr (plan_code plan,
                ''ZEN_RUNTIME_STATUS2'' @ [newline] @ source_line ''runtime'' runtime @
                source_line ''provider'' (d_id provider @ ''@'' @ d_version provider) @
                source_line ''provider-abi'' (d_provider_abi provider) @
                source_line ''provider-availability'' (d_availability provider) @
                source_line ''launch-mode'' (d_launch_mode provider) @ source_line ''host-profile'' (hp_id profile) @
                concat (map (source_line ''accepts'') (d_accepts provider)) @ render_plan records (d_id provider) plan)))))))))"

definition run_artifact_manifest :: "posix \<Rightarrow> universe_args \<Rightarrow> host \<Rightarrow> universe_outcome" where
  "run_artifact_manifest os a h =
     (case ebind (reject_unknown_options a [''input'', ''profile'', ''artifact'', ''file'', ''ownership'', ''output'']) (\<lambda>_.
           ebind (require_no_positionals a ''artifact-manifest'') (\<lambda>_.
           ebind (one_option a ''input'') (\<lambda>input.
           ebind (load_directory os h input) (\<lambda>records.
           ebind (one_option a ''profile'') (\<lambda>profile_id.
           ebind (one_option a ''artifact'') (\<lambda>artifact.
           ebind (one_option a ''ownership'') (\<lambda>ownership.
           case latest records profile_id of
             None \<Rightarrow> throw (''artifact profile not found: '' @ profile_id)
           | Some p \<Rightarrow>
               (let profile = records ! p
                in throw_if (d_kind profile = ''runtime'') (''artifact profile not found: '' @ profile_id) (
                   case runtime_provider records (d_runtime profile) of
                     None \<Rightarrow> throw (''runtime provider not found for profile: '' @ d_runtime profile)
                   | Some i \<Rightarrow>
                       (let provider = records ! i
                        in throw_if (\<not> provider_accepts_artifact provider artifact)
                             (''runtime provider '' @ d_id provider @ '' does not accept artifact '' @ artifact) (
                           throw_if (is_console_platform (d_platform profile) \<and> ownership \<noteq> ''user-owned'')
                             ''console artifacts must use ownership=user-owned'' (
                           throw_if (d_delivery profile = ''user-supplied'' \<and> ownership \<noteq> ''user-owned'')
                             ''user-supplied profile requires ownership=user-owned'' (
                           ebind (one_option a ''file'') (\<lambda>path.
                           ebind (digest_regular_file os path) (\<lambda>digest.
                           ebind (canonical_artifact_manifest
                             \<lparr>am_schema = ''ZENARTIFACT1'', am_profile = profile_id, am_artifact = artifact,
                              am_ownership = ownership, am_bytes = fd_bytes digest, am_sha256 = fd_sha256 digest\<rparr>) (\<lambda>canonical.
                           ebind (one_option a ''output'') (\<lambda>output_path.
                           Inr (profile_id, artifact, digest, canonical, output_path)))))))))))))))))) of
        Inl e \<Rightarrow> (Inl e, [], h)
      | Inr (profile_id, artifact, digest, canonical, output_path) \<Rightarrow>
          (let (written, h) = write_atomic output_path canonical h
           in case written of
                Inl e \<Rightarrow> (Inl e, [], h)
              | Inr _ \<Rightarrow>
                  (Inr 0, ''ZENUNIVERSE_ARTIFACT_MANIFEST_OK profile='' @ profile_id @ '' artifact='' @ artifact @
                          '' bytes='' @ show_nat (fd_bytes digest) @ '' sha256='' @ fd_sha256 digest @ [newline], h)))"

definition run_verify_artifact :: "posix \<Rightarrow> universe_args \<Rightarrow> host \<Rightarrow> (nat \<times> string) result" where
  "run_verify_artifact os a h =
     ebind (reject_unknown_options a [''manifest'', ''file'']) (\<lambda>_.
     ebind (require_no_positionals a ''verify-artifact'') (\<lambda>_.
     ebind (one_option a ''manifest'') (\<lambda>manifest_path.
     ebind (parse_artifact_manifest os h manifest_path) (\<lambda>m.
     ebind (one_option a ''file'') (\<lambda>path.
     ebind (verify_artifact_file os m path) (\<lambda>digest.
     Inr (0, ''ZENUNIVERSE_ARTIFACT_VERIFIED profile='' @ am_profile m @ '' artifact='' @ am_artifact m @
             '' bytes='' @ show_nat (fd_bytes digest) @ '' sha256='' @ fd_sha256 digest @ [newline])))))))"

section \<open>The launch plan\<close>

text \<open>The loop over the required assets: a blocker for a missing one, a digest for a supplied one.\<close>

primrec digest_assets ::
    "posix \<Rightarrow> (string \<times> string) list \<Rightarrow> string list \<Rightarrow> plan \<times> (string \<times> file_digest) list \<Rightarrow> (plan \<times> (string \<times> file_digest) list) result" where
  "digest_assets os supplied [] st = Inr st"
| "digest_assets os supplied (asset # rest) st =
     (let (plan, digests) = st
      in case map_of supplied asset of
           None \<Rightarrow> digest_assets os supplied rest (append_blocker (''required asset not supplied: '' @ asset) plan, digests)
         | Some path \<Rightarrow>
             ebind (digest_regular_file os path) (\<lambda>digest.
             digest_assets os supplied rest (plan, digests @ [(asset, digest)])))"

text \<open>The plan of the profile with the blockers that the manifest adds.\<close>

definition launch_blockers :: "artifact_manifest \<Rightarrow> host_profile \<Rightarrow> descriptor \<Rightarrow> descriptor \<Rightarrow> plan \<Rightarrow> plan" where
  "launch_blockers m profile_host profile provider plan =
     (let plan = (if \<not> provider_accepts_artifact provider (am_artifact m)
                  then append_blocker (''runtime provider does not accept manifest artifact: '' @ am_artifact m) plan else plan);
          plan = (if am_bytes m > hp_artifact_bytes_limit profile_host
                  then append_blocker (''artifact exceeds host profile storage limit: bytes='' @ show_nat (am_bytes m) @
                         '' limit='' @ show_nat (hp_artifact_bytes_limit profile_host)) plan else plan)
      in if is_console_platform (d_platform profile) \<and> am_ownership m \<noteq> ''user-owned''
         then append_blocker ''console artifact ownership is not user-owned'' plan else plan)"

definition render_launch ::
    "descriptor list \<Rightarrow> artifact_manifest \<Rightarrow> file_digest \<Rightarrow> host_profile \<Rightarrow> descriptor \<Rightarrow> (string \<times> file_digest) list \<Rightarrow> plan \<Rightarrow> string" where
  "render_launch records m digest profile_host provider asset_digests plan =
     ''ZENLAUNCH1'' @ [newline] @ source_line ''profile'' (am_profile m) @ source_line ''artifact'' (am_artifact m) @
     source_line ''artifact-bytes'' (show_nat (fd_bytes digest)) @ source_line ''artifact-sha256'' (fd_sha256 digest) @
     source_line ''ownership'' (am_ownership m) @ source_line ''host-profile'' (hp_id profile_host) @
     source_line ''provider'' (d_id provider @ ''@'' @ d_version provider) @
     source_line ''provider-abi'' (d_provider_abi provider) @ source_line ''launch-mode'' (d_launch_mode provider) @
     source_line ''entrypoint'' (d_entrypoint provider) @
     concat (map (\<lambda>(name, digest). ''asset='' @ name @ '' bytes='' @ show_nat (fd_bytes digest) @ '' sha256='' @
                                   fd_sha256 digest @ [newline]) asset_digests) @
     concat (map (\<lambda>argument. source_line ''argument'' (expand_argument argument)) (d_launch_args provider)) @
     render_plan records (am_profile m) plan @
     (if pl_blocked plan = [] then ''ZENUNIVERSE_LAUNCH_READY'' else ''ZENUNIVERSE_LAUNCH_BLOCKED'') @
     '' profile='' @ am_profile m @ '' reasons='' @ show_nat (length (pl_blocked plan)) @ [newline]"

definition reject_unneeded :: "plan \<Rightarrow> (string \<times> string) list \<Rightarrow> unit result" where
  "reject_unneeded plan supplied =
     (case List.find (\<lambda>name. name \<notin> pl_required_assets plan) (sort (map fst supplied)) of
        None \<Rightarrow> Inr ()
      | Some name \<Rightarrow> throw (''asset not required by plan: '' @ name))"

definition prepare_launch :: "posix \<Rightarrow> universe_args \<Rightarrow> host \<Rightarrow> (plan \<times> string) result" where
  "prepare_launch os a h =
     ebind (reject_unknown_options a [''input'', ''manifest'', ''file'', ''host-profile'', ''asset'', ''output'']) (\<lambda>_.
     ebind (require_no_positionals a ''launch-plan'') (\<lambda>_.
     ebind (one_option a ''input'') (\<lambda>input.
     ebind (load_directory os h input) (\<lambda>records.
     ebind (one_option a ''manifest'') (\<lambda>manifest_path.
     ebind (parse_artifact_manifest os h manifest_path) (\<lambda>m.
     ebind (one_option a ''file'') (\<lambda>path.
     ebind (verify_artifact_file os m path) (\<lambda>artifact_digest.
     ebind (one_option a ''host-profile'') (\<lambda>profile_name.
     ebind (require_host_profile profile_name) (\<lambda>profile_host.
     case latest records (am_profile m) of
       None \<Rightarrow> throw (''artifact manifest profile not found: '' @ am_profile m)
     | Some p \<Rightarrow>
         throw_if (d_kind (records ! p) = ''runtime'') (''artifact manifest profile not found: '' @ am_profile m) (
         case runtime_provider records (d_runtime (records ! p)) of
           None \<Rightarrow> throw (''runtime provider not found for profile: '' @ d_runtime (records ! p))
         | Some i \<Rightarrow>
             ebind (planned (make_plan p records (hp_architecture profile_host) (hp_capabilities profile_host))) (\<lambda>plan.
               let plan = launch_blockers m profile_host (records ! p) (records ! i) plan
               in ebind (parse_asset_arguments (many_options a ''asset'') []) (\<lambda>supplied.
                  ebind (reject_unneeded plan supplied) (\<lambda>_.
                  ebind (digest_assets os supplied (in_order (pl_required_assets plan)) (plan, [])) (\<lambda>(plan, asset_digests).
                  Inr (plan, render_launch records m artifact_digest profile_host (records ! i) asset_digests plan))))))))))))))))"

definition run_launch_plan :: "posix \<Rightarrow> universe_args \<Rightarrow> host \<Rightarrow> universe_outcome" where
  "run_launch_plan os a h =
     (case prepare_launch os a h of
        Inl e \<Rightarrow> (Inl e, [], h)
      | Inr (plan, launch_text) \<Rightarrow>
          (case optional_one a ''output'' [] of
             Inl e \<Rightarrow> (Inl e, launch_text, h)
           | Inr output_path \<Rightarrow>
               if output_path = [] then (Inr (plan_code plan), launch_text, h)
               else let (written, h) = write_atomic output_path launch_text h
                    in case written of
                         Inl e \<Rightarrow> (Inl e, launch_text, h)
                       | Inr _ \<Rightarrow> (Inr (plan_code plan), launch_text, h)))"

definition run_fetch_plan :: "posix \<Rightarrow> universe_args \<Rightarrow> host \<Rightarrow> (nat \<times> string) result" where
  "run_fetch_plan os a h =
     ebind (reject_unknown_options a [''input'', ''package'']) (\<lambda>_.
     ebind (require_no_positionals a ''fetch-plan'') (\<lambda>_.
     ebind (one_option a ''input'') (\<lambda>input.
     ebind (load_directory os h input) (\<lambda>records.
     ebind (one_option a ''package'') (\<lambda>name.
     ebind (find_package records name) (\<lambda>i.
       let d = records ! i
       in Inr (0, source_line ''package'' (d_id d @ ''@'' @ d_version d) @ source_line ''delivery'' (d_delivery d) @
              source_line ''bytes'' (show_nat (d_bytes d)) @ source_line ''sha256'' (d_sha d) @
              concat (map (source_line ''mirror'') (d_mirrors d)) @ source_line ''runtime'' (d_runtime d) @
              source_line ''artifact'' (d_artifact d) @
              (if d_delivery d = ''https''
               then ''ZENUNIVERSE_FETCH_READY verified-https=yes atomic-temp=yes resume-policy=range-if-server-supports'' @ [newline]
               else if d_delivery d = ''user-supplied'' then ''ZENUNIVERSE_FETCH_USER_SUPPLIED'' @ [newline]
               else if d_delivery d = ''builtin'' then ''ZENUNIVERSE_FETCH_BUILTIN'' @ [newline]
               else ''ZENUNIVERSE_FETCH_NO_NETWORK'' @ [newline]))))))))"

definition universe_command :: "posix \<Rightarrow> string \<Rightarrow> universe_args \<Rightarrow> host \<Rightarrow> universe_outcome" where
  "universe_command os name a h =
     (if name = ''self-test'' then reading h (run_self_test a)
      else if name = ''validate'' then run_validate os a h
      else if name = ''compile'' then run_compile os a h
      else if name = ''host-profile'' then reading h (run_host_profile a)
      else if name = ''resolve'' then reading h (run_resolve_command os a h)
      else if name = ''runtime-plan'' then reading h (run_runtime_plan os a h)
      else if name = ''runtime-status'' then reading h (run_runtime_status os a h)
      else if name = ''artifact-manifest'' then run_artifact_manifest os a h
      else if name = ''verify-artifact'' then reading h (run_verify_artifact os a h)
      else if name = ''launch-plan'' then run_launch_plan os a h
      else if name = ''fetch-plan'' then reading h (run_fetch_plan os a h)
      else (throw (''unknown command: '' @ name), [], h))"

text \<open>The exit code, the two output streams and the file system after the program.\<close>

definition universe_main :: "posix \<Rightarrow> string list \<Rightarrow> host \<Rightarrow> nat \<times> string \<times> string \<times> host" where
  "universe_main os args h =
     (case args of
        [] \<Rightarrow> (2, universe_usage, [], h)
      | name # rest \<Rightarrow>
          if name = ''--help'' \<or> name = ''help'' then (0, universe_usage, [], h)
          else case parse_args rest \<lparr>ua_positional = [], ua_options = []\<rparr> of
                 Inl (Error message) \<Rightarrow> (2, [], ''zenuniverse: error: '' @ message @ [newline], h)
               | Inr a \<Rightarrow>
                   (case universe_command os name a h of
                      (Inl (Error message), printed, h) \<Rightarrow> (2, printed, ''zenuniverse: error: '' @ message @ [newline], h)
                    | (Inr code, printed, h) \<Rightarrow> (code, printed, [], h)))"

end
