(* ===== verification/Universe_Safety.thy ===== *)
theory Universe_Safety
  imports Universe_Main
begin

text \<open>
  What the commands of \<open>zenuniverse\<close> guarantee as a whole: the catalogs they load, the launch plans they
  declare ready, the manifests they write, and their exit codes.
\<close>

lemma option_throw_eq_Inr:
  "(case x of None \<Rightarrow> throw e | Some y \<Rightarrow> f y) = Inr z \<longleftrightarrow> (\<exists>y. x = Some y \<and> f y = Inr z)"
  by (cases x) simp_all

section \<open>Loaded catalogs\<close>

lemma load_descriptors_valid:
  "load_descriptors os h paths identities records = Inr loaded \<Longrightarrow>
     (\<forall>d\<in>set records. validate_descriptor d = Inr ()) \<Longrightarrow>
     distinct (map (\<lambda>d. d_id d @ ''@'' @ d_version d) records) \<Longrightarrow>
     set identities = set (map (\<lambda>d. d_id d @ ''@'' @ d_version d) records) \<Longrightarrow>
     (\<forall>d\<in>set loaded. validate_descriptor d = Inr ()) \<and> distinct (map (\<lambda>d. d_id d @ ''@'' @ d_version d) loaded)"
proof (induction paths arbitrary: identities records)
  case (Cons path paths)
  obtain d where d: "validate_descriptor d = Inr ()" "d_id d @ ''@'' @ d_version d \<notin> set identities"
      "load_descriptors os h paths ((d_id d @ ''@'' @ d_version d) # identities) (records @ [d]) = Inr loaded"
    using Cons.prems(1) by (auto simp: ebind_eq_Inr throw_if_eq_Inr Let_def)
  from Cons.IH [OF d(3)] show ?case using Cons.prems(2-4) d(1,2) by auto
qed simp

lemma load_directory_valid:
  assumes "load_directory os h directory = Inr records"
  shows "records \<noteq> []" and "\<And>d. d \<in> set records \<Longrightarrow> validate_descriptor d = Inr ()"
    and "distinct (map (\<lambda>d. d_id d @ ''@'' @ d_version d) records)"
  using assms load_descriptors_valid [of os h _ "[]" "[]" records]
  by (auto simp: load_directory_def throw_if_eq_Inr ebind_eq_Inr)

lemma validated_delivery:
  "validate_descriptor d = Inr u \<Longrightarrow> validate_delivery d = Inr () \<and> validate_provider d = Inr () \<and>
     \<not> (d_platform d \<in> console_platforms \<and> d_kind d = ''game'' \<and> d_delivery d \<noteq> ''user-supplied'') \<and>
     safe_id (d_id d) \<and> safe_id (d_version d)"
  unfolding validate_descriptor_def throw_if_eq_Inr ebind_eq_Inr by fastforce

lemma delivery_pinned:
  assumes "validate_delivery d = Inr ()" and "d_delivery d \<in> deliveries"
  shows "(d_delivery d = ''https'' \<or> d_delivery d = ''embedded'' \<longrightarrow> hex64 (d_sha d) \<and> 0 < d_bytes d) \<and>
         (d_delivery d = ''https'' \<longleftrightarrow> d_mirrors d \<noteq> [])"
proof -
  consider "d_delivery d = ''builtin''" | "d_delivery d = ''embedded''" | "d_delivery d = ''https''"
    | "d_delivery d = ''user-supplied''" | "d_delivery d = ''metadata-only''"
    using assms(2) unfolding deliveries_def by blast
  then show ?thesis
    by cases (use assms(1) in \<open>simp_all add: validate_delivery_def throw_if_eq_Inr\<close>)
qed

text \<open>
  A record whose content is pinned: what is fetched or embedded has a digest and a size, only what is
  fetched has mirrors, console games are supplied by the user, and a runtime provider offers exactly
  the runtime its identifier ends with.
\<close>

definition pinned_record :: "descriptor \<Rightarrow> bool" where
  "pinned_record d \<longleftrightarrow>
     (d_delivery d = ''https'' \<or> d_delivery d = ''embedded'' \<longrightarrow> hex64 (d_sha d) \<and> 0 < d_bytes d) \<and>
     (d_delivery d = ''https'' \<longleftrightarrow> d_mirrors d \<noteq> []) \<and>
     (d_platform d \<in> console_platforms \<and> d_kind d = ''game'' \<longrightarrow> d_delivery d = ''user-supplied'') \<and>
     (d_kind d = ''runtime'' \<longrightarrow>
        d_provides d = [''runtime.'' @ rev (takeWhile (\<lambda>c. c \<noteq> CHR ''.'') (rev (d_id d)))])"

lemma validated_pinned:
  assumes v: "validate_descriptor d = Inr ()"
  shows "pinned_record d"
proof -
  have "d_delivery d \<in> deliveries" using v by (simp add: validate_descriptor_def throw_if_eq_Inr)
  note q = delivery_pinned [OF conjunct1 [OF validated_delivery [OF v]] this]
  have p: "d_kind d = ''runtime'' \<longrightarrow> d_provides d = [''runtime.'' @ rev (takeWhile (\<lambda>c. c \<noteq> CHR ''.'') (rev (d_id d)))]"
    using validated_delivery [OF v] by (cases "d_provides d") (auto simp: validate_provider_def throw_if_eq_Inr)
  have r: "d_platform d \<in> console_platforms \<and> d_kind d = ''game'' \<longrightarrow> d_delivery d = ''user-supplied''"
    using validated_delivery [OF v] by simp
  show ?thesis unfolding pinned_record_def using conjunct1 [OF q] conjunct2 [OF q] r p by (intro conjI)
qed

text \<open>
  A loaded catalog is well formed: it is not empty, every record passes validation and is pinned,
  and no two records share identifier and version.
\<close>

theorem load_directory_well_formed:
  assumes "load_directory os h directory = Inr records"
  shows "records \<noteq> [] \<and> distinct (map (\<lambda>d. (d_id d, d_version d)) records) \<and>
         (\<forall>d\<in>set records. validate_descriptor d = Inr () \<and> pinned_record d)"
proof -
  let ?identity = "\<lambda>d. d_id d @ ''@'' @ d_version d" and ?pair = "\<lambda>d. (d_id d, d_version d)"
  have "distinct (map (\<lambda>p. fst p @ ''@'' @ snd p) (map ?pair records))"
    using load_directory_valid(3) [OF assms] by (simp add: comp_def)
  then have "distinct (map ?pair records)" unfolding distinct_map [of _ "map ?pair records"] ..
  then show ?thesis using load_directory_valid(1,2) [OF assms] validated_pinned by simp
qed

section \<open>Launch plans\<close>

lemma digest_assets_spec:
  "digest_assets os supplied assets (plan, digests) = Inr (plan', digests') \<Longrightarrow>
     prefix (pl_blocked plan) (pl_blocked plan') \<and>
     (pl_blocked plan' = [] \<longrightarrow> plan' = plan \<and>
        (\<forall>asset\<in>set assets. \<exists>path d. map_of supplied asset = Some path \<and> digest_regular_file os path = Inr d))"
proof (induction assets arbitrary: plan digests)
  case (Cons asset assets)
  show ?case
  proof (cases "map_of supplied asset")
    case None
    define p1 where "p1 = append_blocker (''required asset not supplied: '' @ asset) plan"
    have p1: "prefix (pl_blocked plan) (pl_blocked p1)" "pl_blocked p1 \<noteq> []" by (simp_all add: p1_def)
    have "digest_assets os supplied assets (p1, digests) = Inr (plan', digests')"
      using Cons.prems None by (simp add: p1_def)
    then have "prefix (pl_blocked p1) (pl_blocked plan')" using Cons.IH by blast
    then show ?thesis using p1 by (auto intro: prefix_order.trans)
  next
    case (Some path)
    then obtain d where "digest_regular_file os path = Inr d" "digest_assets os supplied assets (plan, digests @ [(asset, d)]) = Inr (plan', digests')"
      using Cons.prems by (auto simp: ebind_eq_Inr)
    then show ?thesis using Cons.IH [of plan] Some by auto
  qed
qed simp

lemma launch_blockers_unblocked:
  assumes "pl_blocked (launch_blockers m profile_host profile provider plan) = []"
  shows "launch_blockers m profile_host profile provider plan = plan"
    and "provider_accepts_artifact provider (am_artifact m)" and "am_bytes m \<le> hp_artifact_bytes_limit profile_host"
    and "is_console_platform (d_platform profile) \<longrightarrow> am_ownership m = ''user-owned''"
  using assms by (auto simp: launch_blockers_def Let_def split: if_splits)

lemma zenov_i686_fields:
  "hp_architecture zenov_i686_profile = ''x86''" "hp_artifact_bytes_limit zenov_i686_profile = 65536"
  by (simp_all add: zenov_i686_profile_def)

lemma planned_Inr: "planned r = Inr plan \<longleftrightarrow> r = Some (Inr plan)"
  by (auto simp: planned_def split: option.splits)

lemma parse_artifact_manifest_canonical:
  "parse_artifact_manifest os h path = Inr m \<Longrightarrow> canonical_artifact_manifest m \<in> range Inr"
  using parse_artifact_text_sound by (fastforce simp: parse_artifact_manifest_def ebind_eq_Inr)

lemma verify_artifact_file_reads:
  assumes "verify_artifact_file os m path = Inr d"
  obtains f where "ps_lstat os path = Some False" "ps_open os path = Opened f"
    "am_bytes m = length (read_data (of_reads f))" "am_sha256 m = hex_encode (sha256_spec (read_data (of_reads f)))"
proof -
  have "digest_regular_file os path = Inr d" "fd_bytes d = am_bytes m" "fd_sha256 d = am_sha256 m"
    using assms by (auto simp: verify_artifact_file_def ebind_eq_Inr throw_if_eq_Inr)
  then show ?thesis using that by (auto elim!: digest_regular_file_reads)
qed

lemma in_order_set: "finite S \<Longrightarrow> set (in_order S) = S"
  by (simp add: in_order_def)

text \<open>
  C37: A launch plan declared ready is safe to launch. The catalog is the one loaded from the given
  directory and the manifest the one parsed from the given file; the manifest is canonical, and its size
  and SHA-256 are those of the bytes read from the artifact, which fits the host's limit; the provider
  of the profile's runtime in that catalog accepts the artifact's family; a console artifact is owned by
  the user; the plan of the profile can be carried out in its order on the host; and every asset the plan
  requires is among those given on the command line and was hashed.
\<close>

theorem launch_ready_safe:
  assumes "run_launch_plan os a h = (Inr 0, printed, h')"
  shows "\<exists>input records manifest_path m path f p i plan supplied providers.
    one_option a ''input'' = Inr input \<and> load_directory os h input = Inr records \<and>
    one_option a ''manifest'' = Inr manifest_path \<and> parse_artifact_manifest os h manifest_path = Inr m \<and>
    parse_asset_arguments (many_options a ''asset'') [] = Inr supplied \<and>
    one_option a ''file'' = Inr path \<and> ps_lstat os path = Some False \<and> ps_open os path = Opened f \<and>
    canonical_artifact_manifest m \<in> range Inr \<and>
    am_bytes m = length (read_data (of_reads f)) \<and> am_sha256 m = hex_encode (sha256_spec (read_data (of_reads f))) \<and>
    am_bytes m \<le> 65536 \<and>
    latest records (am_profile m) = Some p \<and> runtime_provider records (d_runtime (records ! p)) = Some i \<and>
    provider_accepts_artifact (records ! i) (am_artifact m) \<and>
    (is_console_platform (d_platform (records ! p)) \<longrightarrow> am_ownership m = ''user-owned'') \<and>
    make_plan p records ''x86'' (hp_capabilities zenov_i686_profile) = Some (Inr plan) \<and> pl_order plan = providers @ [p] \<and>
    (\<forall>k<length providers. installable \<lparr>cx_records = records, cx_architecture = ''x86'', cx_host = hp_capabilities zenov_i686_profile\<rparr>
       (take k providers) (providers ! k)) \<and>
    requirements_met (offered \<lparr>cx_records = records, cx_architecture = ''x86'', cx_host = hp_capabilities zenov_i686_profile\<rparr> providers)
      (records ! p) \<and>
    (\<forall>asset\<in>pl_required_assets plan. \<exists>path d. map_of supplied asset = Some path \<and> digest_regular_file os path = Inr d)"
proof -
  obtain final launch_text where prep: "prepare_launch os a h = Inr (final, launch_text)" and code: "plan_code final = 0"
    using assms unfolding run_launch_plan_def by (auto simp: Let_def split: sum.splits prod.splits if_splits)
  obtain input records m path digest p i plan supplied digests mpath where
      src: "one_option a ''input'' = Inr input" "load_directory os h input = Inr records" "one_option a ''manifest'' = Inr mpath"
        "parse_asset_arguments (many_options a ''asset'') [] = Inr supplied"
    and l: "parse_artifact_manifest os h mpath = Inr m" "one_option a ''file'' = Inr path"
        "verify_artifact_file os m path = Inr digest" "latest records (am_profile m) = Some p"
        "runtime_provider records (d_runtime (records ! p)) = Some i"
        "planned (make_plan p records ''x86'' (hp_capabilities zenov_i686_profile)) = Inr plan"
        "digest_assets os supplied (in_order (pl_required_assets
            (launch_blockers m zenov_i686_profile (records ! p) (records ! i) plan)))
          (launch_blockers m zenov_i686_profile (records ! p) (records ! i) plan, []) = Inr (final, digests)"
    using prep unfolding prepare_launch_def
    by (auto simp: ebind_eq_Inr throw_if_eq_Inr require_host_profile_iff Let_def zenov_i686_fields option_throw_eq_Inr)
  let ?start = "launch_blockers m zenov_i686_profile (records ! p) (records ! i) plan"
  have "pl_blocked final = []" using code by (simp add: plan_code_def split: if_splits)
  then have "pl_blocked ?start = []" and assets: "\<forall>asset\<in>set (in_order (pl_required_assets ?start)).
      \<exists>path d. map_of supplied asset = Some path \<and> digest_regular_file os path = Inr d"
    using digest_assets_spec [OF l(7)] by auto
  note clear = launch_blockers_unblocked [OF this(1)]
  have mp: "make_plan p records ''x86'' (hp_capabilities zenov_i686_profile) = Some (Inr plan)"
    using l(6) by (simp add: planned_Inr)
  have p: "p < length records" using latest_Some [OF l(4)] by simp
  have "pl_blocked plan = []" using clear(1) \<open>pl_blocked ?start = []\<close> by simp
  note carried = make_plan_carries_out [OF p mp this]
  have "\<forall>asset\<in>pl_required_assets plan. \<exists>path d. map_of supplied asset = Some path \<and> digest_regular_file os path = Inr d"
    using assets clear(1) make_plan_assets_finite [OF mp] by (simp add: in_order_set)
  with carried verify_artifact_file_reads [OF l(3)] parse_artifact_manifest_canonical [OF l(1)] src l(1,2,4,5) mp clear(2-4)
  show ?thesis unfolding zenov_i686_fields by metis
qed

section \<open>A catalog of one runtime and one tool\<close>

definition source_text :: "(string \<times> string) list \<Rightarrow> string" where
  "source_text pairs = concat (map (\<lambda>(k, v). source_line k v) pairs)"

definition demo_native_text :: string where
  "demo_native_text = source_text
     [(''schema'', ''zen-source-1''), (''id'', ''org.zenov.runtime.native''), (''version'', ''1.0''), (''kind'', ''runtime''),
      (''platform'', ''zenov''), (''architecture'', ''x86''), (''artifact'', ''runtime-bundle''), (''delivery'', ''builtin''),
      (''runtime'', ''native''), (''availability'', ''available''), (''entrypoint'', ''@kernel-loader''),
      (''channel'', ''stable''), (''category'', ''runtime''), (''license'', ''BSD-2-Clause''), (''description'', ''Native loader''),
      (''homepage'', ''https://zenov.org/''), (''sha256'', ''-''), (''provider-abi'', ''zen-runtime-provider-1''),
      (''launch-mode'', ''builtin''), (''accepts'', ''zex1''), (''provides'', ''runtime.native''), (''arg'', ''%artifact%'')]"

definition demo_tool_text :: string where
  "demo_tool_text = source_text
     [(''schema'', ''zen-source-1''), (''id'', ''org.zenov.profile.tool''), (''version'', ''1.0''), (''kind'', ''application''),
      (''platform'', ''zenov''), (''architecture'', ''x86''), (''artifact'', ''zex1''), (''delivery'', ''user-supplied''),
      (''runtime'', ''native''), (''availability'', ''available''), (''entrypoint'', ''/apps/tool''),
      (''channel'', ''stable''), (''category'', ''tools''), (''license'', ''BSD-2-Clause''), (''description'', ''A tool''),
      (''homepage'', ''https://zenov.org/''), (''sha256'', ''-''), (''requires'', ''input.keyboard'')]"

text \<open>The host: the catalog directory and a file \<open>m\<close> with the given bytes.\<close>

definition catalog_host :: "bytes \<Rightarrow> host" where
  "catalog_host content =
     \<lparr>host_nodes = [(''cat'', Folder), (''cat/native.zsource'', Regular (bytes_of_string demo_native_text)),
        (''cat/tool.zsource'', Regular (bytes_of_string demo_tool_text)), (''m'', Regular content)],
      host_read_fault = (\<lambda>_. None), host_write_fault = (\<lambda>_. None), host_renames = [], host_error_text = []\<rparr>"

definition demo_records :: "descriptor list" where
  "demo_records =
     (let both = empty_descriptor\<lparr>d_schema := ''zen-source-1'', d_version := ''1.0'', d_platform := ''zenov'', d_architecture := ''x86'',
            d_runtime := ''native'', d_availability := ''available'', d_channel := ''stable'', d_license := ''BSD-2-Clause'',
            d_homepage := ''https://zenov.org/'', d_sha := ''-''\<rparr>
      in [both\<lparr>d_id := ''org.zenov.runtime.native'', d_kind := ''runtime'', d_artifact := ''runtime-bundle'', d_delivery := ''builtin'',
            d_entrypoint := ''@kernel-loader'', d_category := ''runtime'', d_description := ''Native loader'',
            d_provider_abi := ''zen-runtime-provider-1'', d_launch_mode := ''builtin'', d_accepts := [''zex1''],
            d_provides := [''runtime.native''], d_launch_args := [''%artifact%''], d_source := ''cat/native.zsource''\<rparr>,
          both\<lparr>d_id := ''org.zenov.profile.tool'', d_kind := ''application'', d_artifact := ''zex1'', d_delivery := ''user-supplied'',
            d_entrypoint := ''/apps/tool'', d_category := ''tools'', d_description := ''A tool'',
            d_requirements := [''input.keyboard''], d_source := ''cat/tool.zsource''\<rparr>])"

lemma demo_load: "load_directory demo_posix (catalog_host content) ''cat'' = Inr demo_records"
  by code_simp

theorem load_directory_well_formed_witness:
  "load_directory demo_posix (catalog_host []) ''cat'' = Inr demo_records \<and> pinned_record (demo_records ! 0)"
  using load_directory_well_formed [OF demo_load [of "[]"]] demo_load [of "[]"] by (simp add: demo_records_def Let_def)

lemma hex64_encode: "length x = 32 \<Longrightarrow> hex64 (hex_encode x)"
proof -
  have digit: "isxdigit (hex_digit n) \<and> \<not> isupper (hex_digit n)" if "n < 16" for n
  proof -
    have "\<forall>n\<in>set [0..<16]. isxdigit (hex_digit n) \<and> \<not> isupper (hex_digit n)" by code_simp
    then show ?thesis using that by simp
  qed
  have "unat b div 16 < 16" for b :: byte using unat_less_exp [of b] by simp
  then have "list_all (\<lambda>c. isxdigit c \<and> \<not> isupper c) (hex_encode x)"
    using digit by (auto simp: hex_encode_def list_all_iff)
  moreover have "length (hex_encode x) = 2 * length x" by (induction x) (simp_all add: hex_encode_def)
  ultimately show "length x = 32 \<Longrightarrow> hex64 (hex_encode x)" by (simp add: hex64_def)
qed

text \<open>The manifest that pins the artifact read through \<open>demo_posix\<close>.\<close>

definition demo_pin :: artifact_manifest where
  "demo_pin = \<lparr>am_schema = ''ZENARTIFACT1'', am_profile = ''org.zenov.profile.tool'', am_artifact = ''zex1'',
     am_ownership = ''user-owned'', am_bytes = fd_bytes demo_digest, am_sha256 = fd_sha256 demo_digest\<rparr>"

lemma demo_pin_valid: "validate_artifact_manifest demo_pin = Inr ()"
proof -
  have "safe_id ''org.zenov.profile.tool''" "''zex1'' \<in> artifacts" by code_simp+
  then show ?thesis
    using hex64_encode [of "sha256_spec [97, 98, 99]"]
    by (simp add: demo_pin_def demo_digest_def validate_artifact_manifest_def ownership_values_def throw_if_def)
qed

text \<open>A manifest's text is short enough for the bounded reader.\<close>

lemma show_nat_length: "n < 10 ^ k \<Longrightarrow> 0 < k \<Longrightarrow> length (show_nat n) \<le> k"
proof (induction k arbitrary: n)
  case (Suc k)
  show ?case
  proof (cases "n < 10")
    case False
    then have "k \<noteq> 0" using Suc.prems by (auto intro: ccontr)
    moreover have "n div 10 < 10 ^ k" using Suc.prems by (simp add: less_mult_imp_div_less)
    ultimately show ?thesis using Suc.IH [of "n div 10"] False by (simp add: show_nat.simps [of n])
  qed (simp add: show_nat.simps)
qed simp

lemma canonical_artifact_length:
  assumes "canonical_artifact_manifest m = Inr str" and "am_bytes m \<le> u64_max"
  shows "length str \<le> 4096"
proof -
  have v: "safe_id (am_profile m)" "am_artifact m \<in> artifacts" "am_ownership m \<in> ownership_values" "hex64 (am_sha256 m)"
    using assms(1) by (auto simp: canonical_artifact_manifest_def validate_artifact_manifest_def ebind_eq_Inr throw_if_eq_Inr)
  have "length (am_profile m) \<le> 96" using v(1) by (simp add: safe_id_def split: if_splits)
  moreover have "length (am_artifact m) \<le> 14" using v(2) unfolding artifacts_def by auto
  moreover have "length (am_ownership m) \<le> 15" using v(3) unfolding ownership_values_def by auto
  moreover have "length (am_sha256 m) = 64" using v(4) by (simp add: hex64_def)
  moreover have "length (show_nat (am_bytes m)) \<le> 20" using show_nat_length [of "am_bytes m" 20] assms(2) by (simp add: u64_max_def)
  ultimately show ?thesis
    using assms(1) by (auto simp: canonical_artifact_manifest_def ebind_eq_Inr source_line_def)
qed

lemma parse_canonical_file:
  assumes "canonical_artifact_manifest m = Inr str" and "am_bytes m \<le> u64_max"
    and "host_lookup h path = Some (Regular (bytes_of_string str))" and "host_read_fault h path = None"
    and "\<not> ps_text_changes os path"
  shows "parse_artifact_manifest os h path = Inr m"
  using assms canonical_artifact_length [OF assms(1,2)] parse_artifact_text_canonical [OF assms(1,2)]
  by (simp add: parse_artifact_manifest_def read_text_bounded_def)

definition launch_args :: universe_args where
  "launch_args = \<lparr>ua_positional = [], ua_options = [(''input'', [''cat'']), (''manifest'', [''m'']), (''file'', [''a'']),
     (''host-profile'', [''zenov-0.1.1-i686''])]\<rparr>"

lemma demo_launch_plan:
  "\<exists>plan. make_plan 1 demo_records ''x86'' (hp_capabilities zenov_i686_profile) = Some (Inr plan) \<and>
     pl_blocked plan = [] \<and> pl_required_assets plan = {}"
proof -
  have "(case make_plan 1 demo_records ''x86'' (hp_capabilities zenov_i686_profile) of
     Some (Inr plan) \<Rightarrow> pl_blocked plan = [] \<and> pl_required_assets plan = {} | _ \<Rightarrow> False)" by code_simp
  then show ?thesis by (auto split: option.splits sum.splits)
qed

lemma demo_launch:
  assumes "canonical_artifact_manifest demo_pin = Inr str"
  shows "\<exists>printed. run_launch_plan demo_posix launch_args (catalog_host (bytes_of_string str)) =
    (Inr 0, printed, catalog_host (bytes_of_string str))"
proof -
  let ?h = "catalog_host (bytes_of_string str)"
  have args: "reject_unknown_options launch_args [''input'', ''manifest'', ''file'', ''host-profile'', ''asset'', ''output''] = Inr ()"
      "require_no_positionals launch_args ''launch-plan'' = Inr ()" "one_option launch_args ''input'' = Inr ''cat''"
      "one_option launch_args ''manifest'' = Inr ''m''" "one_option launch_args ''file'' = Inr ''a''"
      "one_option launch_args ''host-profile'' = Inr ''zenov-0.1.1-i686''" "many_options launch_args ''asset'' = []"
      "optional_one launch_args ''output'' [] = Inr []"
    by code_simp+
  have profile: "require_host_profile ''zenov-0.1.1-i686'' = Inr zenov_i686_profile" by (simp add: require_host_profile_iff)
  have small: "am_bytes demo_pin \<le> u64_max" by (simp add: demo_pin_def demo_digest_def u64_max_def)
  have manifest: "parse_artifact_manifest demo_posix ?h ''m'' = Inr demo_pin"
    by (rule parse_canonical_file [OF assms small]) (simp_all add: catalog_host_def host_lookup_def demo_posix_def)
  have verified: "verify_artifact_file demo_posix demo_pin ''a'' = Inr demo_digest"
    by (simp add: verify_artifact_file_def demo_digest_read demo_pin_def)
  have found: "latest demo_records ''org.zenov.profile.tool'' = Some 1" "runtime_provider demo_records ''native'' = Some 0"
      "d_kind (demo_records ! 1) \<noteq> ''runtime''" "d_runtime (demo_records ! 1) = ''native''"
      "provider_accepts_artifact (demo_records ! 0) ''zex1''" "\<not> is_console_platform (d_platform (demo_records ! 1))"
    by code_simp+
  obtain plan where plan: "make_plan 1 demo_records ''x86'' (hp_capabilities zenov_i686_profile) = Some (Inr plan)"
      "pl_blocked plan = []" "pl_required_assets plan = {}"
    using demo_launch_plan by blast
  have "am_profile demo_pin = ''org.zenov.profile.tool''" "am_artifact demo_pin = ''zex1''" "am_bytes demo_pin = 3"
    by (simp_all add: demo_pin_def demo_digest_def)
  then have blockers: "launch_blockers demo_pin zenov_i686_profile (demo_records ! 1) (demo_records ! 0) plan = plan"
    using found by (simp add: launch_blockers_def zenov_i686_fields Let_def)
  have assets: "reject_unneeded plan [] = Inr ()" "in_order {} = []"
    using plan(3) by (simp_all add: reject_unneeded_def in_order_def)
  have "prepare_launch demo_posix launch_args ?h =
      Inr (plan, render_launch demo_records demo_pin demo_digest zenov_i686_profile (demo_records ! 0) [] plan)"
    unfolding prepare_launch_def args demo_load ebind_Inr manifest verified profile \<open>am_profile demo_pin = _\<close> found(1,2,4) option.case
    using found(3) by (simp add: plan planned_def zenov_i686_fields blockers assets Let_def throw_if_def del: One_nat_def)
  then show ?thesis using plan(2) args(8) by (simp add: run_launch_plan_def plan_code_def)
qed

theorem launch_ready_safe_witness:
  "\<exists>str printed h'. run_launch_plan demo_posix launch_args (catalog_host str) = (Inr 0, printed, h') \<and>
     ps_lstat demo_posix ''a'' = Some False"
proof -
  obtain str where "canonical_artifact_manifest demo_pin = Inr str"
    using demo_pin_valid by (simp add: canonical_artifact_manifest_def)
  from demo_launch [OF this] obtain printed where r: "run_launch_plan demo_posix launch_args (catalog_host (bytes_of_string str)) =
      (Inr 0, printed, catalog_host (bytes_of_string str))" by blast
  have "one_option launch_args ''file'' = Inr ''a''" by code_simp
  then have "ps_lstat demo_posix ''a'' = Some False" using launch_ready_safe [OF r] by auto
  then show ?thesis using r by blast
qed

section \<open>Writing files\<close>

lemma write_atomic_cases:
  assumes "write_atomic path data h = (r, h')" and "path \<noteq> path @ ''.tmp''"
  shows "(is_ok r \<longrightarrow> host_lookup h' = (host_lookup h)(path \<mapsto> Regular (bytes_of_string data), path @ ''.tmp'' := None)) \<and>
         (\<not> is_ok r \<longrightarrow> (\<forall>p. p \<noteq> path \<and> p \<noteq> path @ ''.tmp'' \<longrightarrow> host_lookup h' p = host_lookup h p) \<and>
            (if host_write_fault h (path @ ''.tmp'') = None
             then host_lookup h' path = None \<and> host_lookup h' (path @ ''.tmp'') = Some (Regular (bytes_of_string data))
             else host_lookup h' path = host_lookup h path)) \<and>
         host_read_fault h' = host_read_fault h"
proof (cases "host_write_fault h (path @ ''.tmp'')")
  case (Some f)
  then show ?thesis using assms
    by (cases f) (auto simp: write_atomic_def Let_def is_ok_def throw_def host_lookup_put)
next
  case None
  let ?t = "path @ ''.tmp''"
  define h2 where "h2 = host_put ?t (Regular (bytes_of_string data)) h"
  obtain b1 h3 where r1: "host_rename ?t path h2 = (b1, h3)" by fastforce
  obtain b2 h4 where r2: "host_rename ?t path (host_remove path h3) = (b2, h4)" by fastforce
  have call: "b1 \<Longrightarrow> r = Inr () \<and> h' = h3" "\<not> b1 \<Longrightarrow> b2 \<Longrightarrow> r = Inr () \<and> h' = h4" "\<not> b1 \<Longrightarrow> \<not> b2 \<Longrightarrow> \<not> is_ok r \<and> h' = h4"
    using assms(1) None r1 r2 by (auto simp: write_atomic_def h2_def [symmetric] is_ok_def throw_def Let_def)
  have l2: "host_lookup h2 = (host_lookup h)(?t \<mapsto> Regular (bytes_of_string data))" by (rule ext) (simp add: h2_def host_lookup_put)
  have faults: "host_read_fault h' = host_read_fault h"
    using call rename_faults [OF r1] rename_faults [OF r2] by (cases b1; cases b2) (auto simp: h2_def)
  show ?thesis
  proof (cases b1)
    case True
    then show ?thesis using call(1) host_rename_lookup [of ?t path h2 h3] r1 l2 faults by (auto simp: is_ok_def fun_eq_iff)
  next
    case False
    then have l3: "host_lookup h3 = host_lookup h2"
      using r1 by (auto simp: host_rename_def Let_def split: option.splits if_splits)
    show ?thesis
    proof (cases b2)
      case True
      then show ?thesis
        using call(2) False host_rename_lookup [of ?t path "host_remove path h3" h4] r2 l3 l2 faults
        by (auto simp: host_lookup_remove fun_eq_iff is_ok_def)
    next
      case b2: False
      then have "host_lookup h4 p = (if p = path then None else host_lookup h2 p)" for p
        using r2 l3 by (auto simp: host_rename_def Let_def host_lookup_remove split: option.splits if_splits)
      then show ?thesis using call(3) [OF False b2] l2 faults None by auto
    qed
  qed
qed

lemma write_atomic_ok:
  "write_atomic path data h = (Inr u, h') \<Longrightarrow>
     host_lookup h' path = Some (Regular (bytes_of_string data)) \<and> host_read_fault h' = host_read_fault h"
  using write_atomic_cases [of path data h "Inr u" h'] by (simp add: is_ok_def)

text \<open>
  \<open>write_atomic\<close> changes the target and its temporary only. When it returns, the target holds the
  data and the temporary is gone. When the temporary cannot be written, the target is as before. When
  both renames fail the old target is lost: the path is gone and only the temporary holds the data.
\<close>

theorem write_atomic_outcome:
  assumes "write_atomic path data h = (r, h')"
  shows "(is_ok r \<longrightarrow> host_lookup h' = (host_lookup h)(path \<mapsto> Regular (bytes_of_string data), path @ ''.tmp'' := None)) \<and>
         (\<not> is_ok r \<longrightarrow> (\<forall>p. p \<noteq> path \<and> p \<noteq> path @ ''.tmp'' \<longrightarrow> host_lookup h' p = host_lookup h p) \<and>
            (if host_write_fault h (path @ ''.tmp'') = None
             then host_lookup h' path = None \<and> host_lookup h' (path @ ''.tmp'') = Some (Regular (bytes_of_string data))
             else host_lookup h' path = host_lookup h path))"
  using write_atomic_cases [OF assms] by simp

theorem write_atomic_outcome_witness:
  "host_lookup (snd (write_atomic ''m'' ''xy'' ((catalog_host [1])\<lparr>host_renames := [False, False]\<rparr>))) ''m'' = None"
proof -
  let ?h = "(catalog_host [1])\<lparr>host_renames := [False, False]\<rparr>"
  have "\<not> is_ok (fst (write_atomic ''m'' ''xy'' ?h))" by code_simp
  moreover have "host_write_fault ?h x = None" for x by (simp add: catalog_host_def)
  ultimately show ?thesis
    using write_atomic_outcome [of "''m''" "''xy''" ?h "fst (write_atomic ''m'' ''xy'' ?h)" "snd (write_atomic ''m'' ''xy'' ?h)"]
    by simp
qed

section \<open>Manifests written and verified\<close>

definition verify_args :: "string \<Rightarrow> string \<Rightarrow> universe_args" where
  "verify_args manifest_path path =
     \<lparr>ua_positional = [], ua_options = [(''manifest'', [manifest_path]), (''file'', [path])]\<rparr>"

lemma verify_args_options:
  "reject_unknown_options (verify_args m p) [''manifest'', ''file''] = Inr ()"
  "require_no_positionals (verify_args m p) ''verify-artifact'' = Inr ()"
  "one_option (verify_args m p) ''manifest'' = Inr m" "one_option (verify_args m p) ''file'' = Inr p"
  by (simp_all add: verify_args_def reject_unknown_options_def require_no_positionals_def one_option_def throw_if_def)

text \<open>
  What \<open>artifact-manifest\<close> writes, \<open>verify-artifact\<close> accepts: after a manifest of a file was written
  with success, verifying the same file against it succeeds, as long as the file gives the same
  answers and the manifest can be read back.
\<close>

theorem artifact_manifest_verifies:
  assumes "run_artifact_manifest os a h = (Inr code, printed, h')"
    and "one_option a ''file'' = Inr path" and "one_option a ''output'' = Inr output_path"
    and "host_read_fault h output_path = None" and "\<not> ps_text_changes os output_path"
  shows "\<exists>printed'. run_verify_artifact os (verify_args output_path path) h' = Inr (0, printed')"
proof -
  obtain m digest canonical u where d: "digest_regular_file os path = Inr digest" "canonical_artifact_manifest m = Inr canonical"
      "am_bytes m = fd_bytes digest" "am_sha256 m = fd_sha256 digest" "write_atomic output_path canonical h = (Inr u, h')"
    using assms(1-3) unfolding run_artifact_manifest_def
    by (auto simp: ebind_eq_Inr throw_if_eq_Inr option_throw_eq_Inr Let_def split: sum.splits prod.splits)
  have small: "am_bytes m \<le> u64_max" using d(1,3) by (auto elim: digest_regular_file_reads)
  have "parse_artifact_manifest os h' output_path = Inr m"
    using parse_canonical_file [OF d(2) small] write_atomic_ok [OF d(5)] assms(4,5) by simp
  moreover have "verify_artifact_file os m path = Inr digest" using d(1,3,4) by (simp add: verify_artifact_file_def)
  ultimately show ?thesis by (simp add: run_verify_artifact_def verify_args_options)
qed

definition pin_args :: universe_args where
  "pin_args = \<lparr>ua_positional = [], ua_options = [(''input'', [''cat'']), (''profile'', [''org.zenov.profile.tool'']),
     (''artifact'', [''zex1'']), (''file'', [''a'']), (''ownership'', [''user-owned'']), (''output'', [''m''])]\<rparr>"

lemma demo_pin_written: "\<exists>printed h'. run_artifact_manifest demo_posix pin_args (catalog_host []) = (Inr 0, printed, h')"
proof -
  have args: "reject_unknown_options pin_args [''input'', ''profile'', ''artifact'', ''file'', ''ownership'', ''output''] = Inr ()"
      "require_no_positionals pin_args ''artifact-manifest'' = Inr ()" "one_option pin_args ''input'' = Inr ''cat''"
      "one_option pin_args ''profile'' = Inr ''org.zenov.profile.tool''" "one_option pin_args ''artifact'' = Inr ''zex1''"
      "one_option pin_args ''ownership'' = Inr ''user-owned''" "one_option pin_args ''file'' = Inr ''a''"
      "one_option pin_args ''output'' = Inr ''m''"
    by code_simp+
  have found: "latest demo_records ''org.zenov.profile.tool'' = Some 1" "runtime_provider demo_records ''native'' = Some 0"
      "d_kind (demo_records ! 1) \<noteq> ''runtime''" "d_runtime (demo_records ! 1) = ''native''"
      "provider_accepts_artifact (demo_records ! 0) ''zex1''"
    by code_simp+
  obtain str where str: "canonical_artifact_manifest demo_pin = Inr str"
    using demo_pin_valid by (simp add: canonical_artifact_manifest_def)
  obtain h' where "write_atomic ''m'' str (catalog_host []) = (Inr (), h')"
    by (simp add: write_atomic_def catalog_host_def host_rename_def host_put_def host_lookup_def Let_def)
  then show ?thesis
    unfolding run_artifact_manifest_def args demo_load ebind_Inr found(1,2,4) option.case Let_def demo_digest_read demo_pin_def [symmetric] str
    using found(3,5) by (simp add: throw_if_def del: One_nat_def)
qed

theorem artifact_manifest_verifies_witness:
  "\<exists>printed h' printed'. run_artifact_manifest demo_posix pin_args (catalog_host []) = (Inr 0, printed, h') \<and>
     run_verify_artifact demo_posix (verify_args ''m'' ''a'') h' = Inr (0, printed')"
proof -
  obtain printed h' where r: "run_artifact_manifest demo_posix pin_args (catalog_host []) = (Inr 0, printed, h')"
    using demo_pin_written by blast
  have "one_option pin_args ''file'' = Inr ''a''" "one_option pin_args ''output'' = Inr ''m''" by code_simp+
  from artifact_manifest_verifies [OF r this] show ?thesis using r by (auto simp: catalog_host_def demo_posix_def)
qed

section \<open>Exit codes\<close>

lemma reading_Inr: "reading h r = (Inr code, printed, h') \<longleftrightarrow> r = Inr (code, printed) \<and> h' = h"
  by (auto simp: reading_def split: sum.splits)

definition planning_commands :: "string set" where
  "planning_commands = {''resolve'', ''runtime-plan'', ''runtime-status'', ''launch-plan''}"

lemma zero_codes:
  "run_self_test a = Inr (code, printed) \<Longrightarrow> code = 0" "run_host_profile a = Inr (code, printed) \<Longrightarrow> code = 0"
  "run_verify_artifact os a h = Inr (code, printed) \<Longrightarrow> code = 0" "run_fetch_plan os a h = Inr (code, printed) \<Longrightarrow> code = 0"
  "run_validate os a h = (Inr code, printed, h') \<Longrightarrow> code = 0" "run_compile os a h = (Inr code, printed, h') \<Longrightarrow> code = 0"
  "run_artifact_manifest os a h = (Inr code, printed, h') \<Longrightarrow> code = 0"
  subgoal by (auto simp: run_self_test_def ebind_eq_Inr throw_if_eq_Inr)
  subgoal by (auto simp: run_host_profile_def ebind_eq_Inr)
  subgoal by (auto simp: run_verify_artifact_def ebind_eq_Inr)
  subgoal by (auto simp: run_fetch_plan_def ebind_eq_Inr Let_def)
  subgoal by (auto simp: run_validate_def Let_def split: sum.splits prod.splits)
  subgoal by (auto simp: run_compile_def Let_def split: sum.splits prod.splits)
  subgoal by (auto simp: run_artifact_manifest_def Let_def split: sum.splits prod.splits)
  done

text \<open>
  The plan a planning command decides on, from the catalog it loads and the options it is given: the plan of
  the package for \<open>resolve\<close> and, with one more blocker when the provider refuses the artifact, for
  \<open>runtime-plan\<close>; the plan of the provider for \<open>runtime-status\<close>; the plan with the blockers of manifest and
  assets for \<open>launch-plan\<close>.
\<close>

definition loaded_catalog :: "posix \<Rightarrow> universe_args \<Rightarrow> host \<Rightarrow> descriptor list \<Rightarrow> bool" where
  "loaded_catalog os a h records \<longleftrightarrow> (\<exists>input. one_option a ''input'' = Inr input \<and> load_directory os h input = Inr records)"

definition chosen_profile :: "universe_args \<Rightarrow> host_profile \<Rightarrow> bool" where
  "chosen_profile a profile \<longleftrightarrow> (\<exists>name. one_option a ''host-profile'' = Inr name \<and> require_host_profile name = Inr profile)"

definition chosen_package :: "universe_args \<Rightarrow> descriptor list \<Rightarrow> nat \<Rightarrow> bool" where
  "chosen_package a records i \<longleftrightarrow> (\<exists>name. one_option a ''package'' = Inr name \<and> latest records name = Some i)"

definition artifact_refused :: "descriptor list \<Rightarrow> nat \<Rightarrow> string \<Rightarrow> bool" where
  "artifact_refused records i artifact \<longleftrightarrow> artifact \<noteq> [] \<and>
     \<not> (\<exists>k. runtime_provider records (d_runtime (records ! i)) = Some k \<and> provider_accepts_artifact (records ! k) artifact)"

definition decided_plan :: "posix \<Rightarrow> string \<Rightarrow> universe_args \<Rightarrow> host \<Rightarrow> plan \<Rightarrow> bool" where
  "decided_plan os name a h plan \<longleftrightarrow>
     (if name = ''resolve'' then
        \<exists>records i architecture capabilities. loaded_catalog os a h records \<and> chosen_package a records i \<and>
          one_option a ''host-arch'' = Inr architecture \<and>
          manual_capabilities (many_options a ''capability'') {} = Inr capabilities \<and>
          make_plan i records architecture capabilities = Some (Inr plan)
      else if name = ''runtime-plan'' then
        \<exists>records i profile artifact plan0. loaded_catalog os a h records \<and> chosen_package a records i \<and>
          chosen_profile a profile \<and> optional_one a ''artifact'' [] = Inr artifact \<and>
          make_plan i records (hp_architecture profile) (hp_capabilities profile) = Some (Inr plan0) \<and>
          plan = (if artifact_refused records i artifact
                  then append_blocker (''runtime provider does not accept artifact: '' @ artifact) plan0 else plan0)
      else if name = ''runtime-status'' then
        \<exists>records runtime profile. loaded_catalog os a h records \<and> one_option a ''runtime'' = Inr runtime \<and>
          chosen_profile a profile \<and>
          make_runtime_plan runtime records (hp_architecture profile) (hp_capabilities profile) = Some (Inr plan)
      else name = ''launch-plan'' \<and> (\<exists>launch_text. prepare_launch os a h = Inr (plan, launch_text)))"

lemma find_package_iff: "find_package records name = Inr i \<longleftrightarrow> latest records name = Some i"
  by (simp add: find_package_def throw_def split: option.split)

lemma runtime_plan_decided:
  assumes "run_runtime_plan os a h = Inr (code, printed)"
  shows "\<exists>plan. decided_plan os ''runtime-plan'' a h plan \<and> code = (if pl_blocked plan = [] then 0 else 3)"
proof -
  have refused: "artifact \<noteq> [] \<and> \<not> (case runtime_provider records (d_runtime (records ! i)) of
      None \<Rightarrow> False | Some k \<Rightarrow> provider_accepts_artifact (records ! k) artifact) \<longleftrightarrow> artifact_refused records i artifact"
    for artifact records i by (simp add: artifact_refused_def split: option.split)
  obtain input records name profile_name profile i plan0 artifact where
      "one_option a ''input'' = Inr input" "load_directory os h input = Inr records" "one_option a ''package'' = Inr name"
      "one_option a ''host-profile'' = Inr profile_name" "require_host_profile profile_name = Inr profile"
      "latest records name = Some i" "make_plan i records (hp_architecture profile) (hp_capabilities profile) = Some (Inr plan0)"
      "optional_one a ''artifact'' [] = Inr artifact"
      "code = plan_code (if artifact_refused records i artifact
         then append_blocker (''runtime provider does not accept artifact: '' @ artifact) plan0 else plan0)"
    using assms unfolding run_runtime_plan_def Let_def refused
    by (simp only: ebind_eq_Inr throw_if_eq_Inr planned_Inr find_package_iff sum.inject prod.inject) blast
  then show ?thesis unfolding decided_plan_def loaded_catalog_def chosen_package_def chosen_profile_def plan_code_def by auto
qed

lemma decided_codes:
  "run_resolve_command os a h = Inr (code, printed) \<Longrightarrow>
     \<exists>plan. decided_plan os ''resolve'' a h plan \<and> code = (if pl_blocked plan = [] then 0 else 3)"
  "run_runtime_plan os a h = Inr (code, printed) \<Longrightarrow>
     \<exists>plan. decided_plan os ''runtime-plan'' a h plan \<and> code = (if pl_blocked plan = [] then 0 else 3)"
  "run_runtime_status os a h = Inr (code, printed) \<Longrightarrow>
     \<exists>plan. decided_plan os ''runtime-status'' a h plan \<and> code = (if pl_blocked plan = [] then 0 else 3)"
  "run_launch_plan os a h = (Inr code, printed, h') \<Longrightarrow>
     \<exists>plan. decided_plan os ''launch-plan'' a h plan \<and> code = (if pl_blocked plan = [] then 0 else 3)"
  subgoal
    by (auto simp: run_resolve_command_def ebind_eq_Inr throw_if_eq_Inr planned_Inr find_package_iff decided_plan_def
        loaded_catalog_def chosen_package_def plan_code_def)
  subgoal by (rule runtime_plan_decided)
  subgoal
    by (auto simp: run_runtime_status_def ebind_eq_Inr option_throw_eq_Inr planned_Inr decided_plan_def
        loaded_catalog_def chosen_profile_def plan_code_def Let_def)
  subgoal
    by (auto simp: run_launch_plan_def decided_plan_def plan_code_def Let_def split: sum.splits prod.splits if_splits)
  done

definition planning_answer :: "posix \<Rightarrow> string \<Rightarrow> universe_args \<Rightarrow> host \<Rightarrow> nat \<Rightarrow> bool" where
  "planning_answer os name a h code \<longleftrightarrow>
     (\<exists>plan. decided_plan os name a h plan \<and> code = (if pl_blocked plan = [] then 0 else 3))"

lemma planning_answer_code: "planning_answer os name a h code \<Longrightarrow> code = 0 \<or> code = 3"
  by (auto simp: planning_answer_def split: if_splits)

lemma universe_command_code:
  assumes "universe_command os name a h = (Inr code, printed, h')"
  shows "if name \<in> planning_commands then planning_answer os name a h code else code = 0"
  using assms unfolding universe_command_def planning_commands_def
  by (auto simp: reading_Inr throw_def split: if_splits dest: zero_codes decided_codes [folded planning_answer_def])

text \<open>
  C40: The exit codes of \<open>zenuniverse\<close> and what they mean: 0, 2 or 3 and nothing else. An error message
  appears exactly when arguments were given and the code is 2. A command that plans and does not fail has
  decided on a plan from the catalog it loaded and the options it was given, and its code is 0 when that
  plan has no blocker and 3 when it has one; no other command returns 3.
\<close>

theorem universe_exit_codes:
  assumes "universe_main os args h = (code, printed, message, h')"
  shows "code \<in> {0, 2, 3} \<and> (message \<noteq> [] \<longleftrightarrow> code = 2 \<and> args \<noteq> []) \<and>
         (code = 3 \<longrightarrow> args \<noteq> [] \<and> hd args \<in> planning_commands) \<and>
         (code \<noteq> 2 \<and> args \<noteq> [] \<and> hd args \<in> planning_commands \<longrightarrow>
            (\<exists>a. parse_args (tl args) \<lparr>ua_positional = [], ua_options = []\<rparr> = Inr a \<and>
               planning_answer os (hd args) a h code))"
proof (cases args)
  case Nil
  then show ?thesis using assms by (simp add: universe_main_def)
next
  case (Cons name rest)
  show ?thesis
  proof (cases "name = ''--help'' \<or> name = ''help''")
    case True
    then show ?thesis using assms Cons by (auto simp: universe_main_def planning_commands_def)
  next
    case False
    show ?thesis
    proof (cases "parse_args rest \<lparr>ua_positional = [], ua_options = []\<rparr>")
      case (Inl e)
      then show ?thesis using assms Cons False by (cases e) (auto simp: universe_main_def)
    next
      case args: (Inr a)
      obtain r p h1 where r: "universe_command os name a h = (r, p, h1)" by (metis prod_cases3)
      show ?thesis
      proof (cases r)
        case (Inl e)
        then show ?thesis using assms Cons False args r by (cases e) (auto simp: universe_main_def)
      next
        case (Inr c)
        then show ?thesis
          using assms Cons False args r universe_command_code [of os name a h c p h1] planning_answer_code [of os name a h c]
          by (auto simp: universe_main_def split: if_splits)
      qed
    qed
  qed
qed

definition launch_line :: "string list" where
  "launch_line = [''launch-plan'', ''--input'', ''cat'', ''--manifest'', ''m'', ''--file'', ''a'', ''--host-profile'', ''zenov-0.1.1-i686'']"

theorem universe_exit_codes_witness:
  "\<exists>str. fst (universe_main demo_posix launch_line (catalog_host str)) = 0 \<and>
     planning_answer demo_posix ''launch-plan'' launch_args (catalog_host str) 0"
proof -
  obtain str where str: "canonical_artifact_manifest demo_pin = Inr str"
    using demo_pin_valid by (simp add: canonical_artifact_manifest_def)
  let ?h = "catalog_host (bytes_of_string str)"
  obtain printed where launch: "run_launch_plan demo_posix launch_args ?h = (Inr 0, printed, ?h)" using demo_launch [OF str] by blast
  have parsed: "parse_args (tl launch_line) \<lparr>ua_positional = [], ua_options = []\<rparr> = Inr launch_args" by code_simp
  have line: "launch_line \<noteq> []" "hd launch_line = ''launch-plan''" "''launch-plan'' \<in> planning_commands"
    by (simp_all add: launch_line_def planning_commands_def)
  obtain rest where rest: "launch_line = ''launch-plan'' # rest" by (simp add: launch_line_def)
  have main: "universe_main demo_posix launch_line ?h = (0, printed, [], ?h)"
    using parsed launch unfolding rest by (simp add: universe_main_def universe_command_def)
  from universe_exit_codes [OF this] have "planning_answer demo_posix ''launch-plan'' launch_args ?h 0"
    using parsed line by simp
  then show ?thesis using main by (intro exI [of _ "bytes_of_string str"]) simp
qed

end
