(* ===== verification/Audit_Format.thy ===== *)
theory Audit_Format
  imports Universe_Common ZenovFS_Core
begin

text \<open>
  The audit journal on disk and the host's library for it, \<open>tools/zenov_audit_format.hpp\<close>: the header and the
  ring of 64 records, the byte-wise SHA-256 (the same code as in \<open>kernel/parts/security_guard.inc\<close>), the
  hash of a record over its predecessor's hash, and the verification of a whole journal.
\<close>

section \<open>Layout\<close>

record audit_header =
  ah_magic :: bytes
  ah_schema :: u16
  ah_header_size :: u16
  ah_record_size :: u16
  ah_capacity :: u16
  ah_count :: u32
  ah_next_index :: u32
  ah_next_sequence :: u32
  ah_anchor_hash :: bytes
  ah_head_hash :: bytes
  ah_reserved :: bytes

record audit_record =
  ar_sequence :: u32
  ar_tick :: u32
  ar_action :: u8
  ar_verdict :: u8
  ar_path_length :: u16
  ar_path :: bytes
  ar_digest :: bytes
  ar_record_hash :: bytes
  ar_reserved :: bytes

record audit_journal =
  aj_header :: audit_header
  aj_records :: "audit_record list"

definition audit_capacity :: nat where "audit_capacity = 64"
definition audit_journal_bytes :: nat where "audit_journal_bytes = 8288"

text \<open>The packed structures as the bytes that are read and written through a cast.\<close>

definition encode_header :: "audit_header \<Rightarrow> bytes" where
  "encode_header h =
     ah_magic h @ le_bytes 2 (ah_schema h) @ le_bytes 2 (ah_header_size h) @ le_bytes 2 (ah_record_size h) @
     le_bytes 2 (ah_capacity h) @ le_bytes 4 (ah_count h) @ le_bytes 4 (ah_next_index h) @
     le_bytes 4 (ah_next_sequence h) @ ah_anchor_hash h @ ah_head_hash h @ ah_reserved h"

definition decode_header :: "bytes \<Rightarrow> audit_header" where
  "decode_header raw =
     \<lparr>ah_magic = take 4 raw, ah_schema = field_u16 4 raw, ah_header_size = field_u16 6 raw,
      ah_record_size = field_u16 8 raw, ah_capacity = field_u16 10 raw, ah_count = field_u32 12 raw,
      ah_next_index = field_u32 16 raw, ah_next_sequence = field_u32 20 raw,
      ah_anchor_hash = take 32 (drop 24 raw), ah_head_hash = take 32 (drop 56 raw),
      ah_reserved = take 8 (drop 88 raw)\<rparr>"

definition encode_record :: "audit_record \<Rightarrow> bytes" where
  "encode_record r =
     le_bytes 4 (ar_sequence r) @ le_bytes 4 (ar_tick r) @ [ar_action r, ar_verdict r] @
     le_bytes 2 (ar_path_length r) @ ar_path r @ ar_digest r @ ar_record_hash r @ ar_reserved r"

definition decode_record :: "bytes \<Rightarrow> audit_record" where
  "decode_record raw =
     \<lparr>ar_sequence = field_u32 0 raw, ar_tick = field_u32 4 raw, ar_action = raw ! 8, ar_verdict = raw ! 9,
      ar_path_length = field_u16 10 raw, ar_path = take 48 (drop 12 raw), ar_digest = take 32 (drop 60 raw),
      ar_record_hash = take 32 (drop 92 raw), ar_reserved = take 4 (drop 124 raw)\<rparr>"

definition encode_journal :: "audit_journal \<Rightarrow> bytes" where
  "encode_journal j = encode_header (aj_header j) @ concat (map encode_record (aj_records j))"

definition decode_journal :: "bytes \<Rightarrow> audit_journal" where
  "decode_journal raw =
     \<lparr>aj_header = decode_header (take 96 raw),
      aj_records = map (\<lambda>i. decode_record (take 128 (drop (96 + i * 128) raw))) [0..<audit_capacity]\<rparr>"

section \<open>SHA-256\<close>

record guard_sha =
  gs_state :: "u32 list"
  gs_total :: u64
  gs_block :: bytes
  gs_used :: nat

text \<open>The table of round constants, in decimal: \<open>0x428a2f98\<close>, \<open>0x71374491\<close>, and so on.\<close>

definition guard_k :: "u32 list" where
  "guard_k =
    [1116352408, 1899447441, 3049323471, 3921009573, 961987163, 1508970993, 2453635748, 2870763221,
     3624381080, 310598401, 607225278, 1426881987, 1925078388, 2162078206, 2614888103, 3248222580,
     3835390401, 4022224774, 264347078, 604807628, 770255983, 1249150122, 1555081692, 1996064986,
     2554220882, 2821834349, 2952996808, 3210313671, 3336571891, 3584528711, 113926993, 338241895,
     666307205, 773529912, 1294757372, 1396182291, 1695183700, 1986661051, 2177026350, 2456956037,
     2730485921, 2820302411, 3259730800, 3345764771, 3516065817, 3600352804, 4094571909, 275423344,
     430227734, 506948616, 659060556, 883997877, 958139571, 1322822218, 1537002063, 1747873779,
     1955562222, 2024104815, 2227730452, 2361852424, 2428436474, 2756734187, 3204031479, 3329325298]"

definition guard_rotate :: "u32 \<Rightarrow> nat \<Rightarrow> u32" where
  "guard_rotate value count = drop_bit count value OR push_bit (32 - count) value"

definition load_be32 :: "bytes \<Rightarrow> u32" where
  "load_be32 input =
     push_bit 24 (ucast (input ! 0)) OR push_bit 16 (ucast (input ! 1)) OR
     push_bit 8 (ucast (input ! 2)) OR ucast (input ! 3)"

definition store_be32 :: "u32 \<Rightarrow> bytes" where
  "store_be32 value = [ucast (drop_bit 24 value), ucast (drop_bit 16 value), ucast (drop_bit 8 value), ucast value]"

definition guard_word :: "u32 list \<Rightarrow> nat \<Rightarrow> u32" where
  "guard_word words i =
     (let s0 = guard_rotate (words ! (i - 15)) 7 XOR guard_rotate (words ! (i - 15)) 18 XOR drop_bit 3 (words ! (i - 15));
          s1 = guard_rotate (words ! (i - 2)) 17 XOR guard_rotate (words ! (i - 2)) 19 XOR drop_bit 10 (words ! (i - 2))
      in words ! (i - 16) + s0 + words ! (i - 7) + s1)"

definition guard_schedule :: "bytes \<Rightarrow> u32 list" where
  "guard_schedule block =
     fold (\<lambda>i words. words @ [guard_word words i]) [16..<64] (map (\<lambda>i. load_be32 (drop (i * 4) block)) [0..<16])"

fun guard_round :: "u32 \<Rightarrow> u32 \<Rightarrow> sha_registers \<Rightarrow> sha_registers" where
  "guard_round k w (a, b, c, d, e, f, g, h) =
     (let s1 = guard_rotate e 6 XOR guard_rotate e 11 XOR guard_rotate e 25;
          choice = (e AND f) XOR (NOT e AND g);
          temp1 = h + s1 + choice + k + w;
          s0 = guard_rotate a 2 XOR guard_rotate a 13 XOR guard_rotate a 22;
          majority = (a AND b) XOR (a AND c) XOR (b AND c);
          temp2 = s0 + majority
      in (temp1 + temp2, a, b, c, d + temp1, e, f, g))"

definition guard_transform :: "bytes \<Rightarrow> u32 list \<Rightarrow> u32 list" where
  "guard_transform block state =
     (let words = guard_schedule block;
          (a, b, c, d, e, f, g, h) =
            fold (\<lambda>i. guard_round (guard_k ! i) (words ! i)) [0..<64]
              (state ! 0, state ! 1, state ! 2, state ! 3, state ! 4, state ! 5, state ! 6, state ! 7)
      in [state ! 0 + a, state ! 1 + b, state ! 2 + c, state ! 3 + d,
          state ! 4 + e, state ! 5 + f, state ! 6 + g, state ! 7 + h])"

definition guard_sha_init :: guard_sha where
  "guard_sha_init =
     \<lparr>gs_state = [0x6a09e667, 0xbb67ae85, 0x3c6ef372, 0xa54ff53a, 0x510e527f, 0x9b05688c, 0x1f83d9ab, 0x5be0cd19],
      gs_total = 0, gs_block = replicate 64 0, gs_used = 0\<rparr>"

text \<open>\<open>block[used++] = c\<close>; a full block is compressed.\<close>

definition guard_push :: "byte \<Rightarrow> guard_sha \<Rightarrow> guard_sha" where
  "guard_push c s = s\<lparr>gs_block := (gs_block s)[gs_used s := c], gs_used := gs_used s + 1\<rparr>"

definition guard_compress :: "guard_sha \<Rightarrow> guard_sha" where
  "guard_compress s = s\<lparr>gs_state := guard_transform (gs_block s) (gs_state s)\<rparr>"

definition guard_absorb :: "byte \<Rightarrow> guard_sha \<Rightarrow> guard_sha" where
  "guard_absorb c s =
     (let s = guard_push c s in if gs_used s = 64 then (guard_compress s)\<lparr>gs_used := 0\<rparr> else s)"

definition guard_sha_update :: "bytes \<Rightarrow> guard_sha \<Rightarrow> guard_sha" where
  "guard_sha_update data s = fold guard_absorb data (s\<lparr>gs_total := gs_total s + word_of_nat (length data)\<rparr>)"

text \<open>\<open>while (used < limit) block[used++] = 0;\<close>\<close>

definition guard_zeros :: "nat \<Rightarrow> guard_sha \<Rightarrow> guard_sha" where
  "guard_zeros limit s = fold guard_push (replicate (limit - gs_used s) 0) s"

definition guard_sha_final :: "guard_sha \<Rightarrow> bytes" where
  "guard_sha_final s =
     (let bits = gs_total s * 8;
          s = guard_push 0x80 s;
          s = (if gs_used s > 56 then (guard_compress (guard_zeros 64 s))\<lparr>gs_used := 0\<rparr> else s);
          s = guard_zeros 56 s;
          s = s\<lparr>gs_block := fold (\<lambda>i block. block[63 - i := ucast (drop_bit (i * 8) bits)]) [0..<8] (gs_block s)\<rparr>;
          s = guard_compress s
      in concat (map store_be32 (gs_state s)))"

definition guard_sha256 :: "bytes \<Rightarrow> bytes" where
  "guard_sha256 data = guard_sha_final (guard_sha_update data guard_sha_init)"

definition same_hash :: "bytes \<Rightarrow> bytes \<Rightarrow> bool" where
  "same_hash left right \<longleftrightarrow> fold (\<lambda>i difference. difference OR (left ! i XOR right ! i)) [0..<32] 0 = 0"

definition guard_self_test :: bool where
  "guard_self_test \<longleftrightarrow>
     same_hash (guard_sha256 (bytes_of_string ''abc''))
       [0xba,0x78,0x16,0xbf,0x8f,0x01,0xcf,0xea,0x41,0x41,0x40,0xde,0x5d,0xae,0x22,0x23,
        0xb0,0x03,0x61,0xa3,0x96,0x17,0x7a,0x9c,0xb4,0x10,0xff,0x61,0xf2,0x00,0x15,0xad]"

section \<open>Records and journals\<close>

definition all_zero :: "bytes \<Rightarrow> bool" where
  "all_zero data \<longleftrightarrow> fold (\<lambda>b combined. combined OR b) data 0 = 0"

definition audit_domain :: bytes where
  "audit_domain = bytes_of_string ''ZENOV-AUDIT-V1'' @ [0, 0]"

definition audit_metadata :: "audit_record \<Rightarrow> bytes" where
  "audit_metadata r =
     le_bytes 4 (ar_sequence r) @ le_bytes 4 (ar_tick r) @ [ar_action r, ar_verdict r] @ le_bytes 2 (ar_path_length r)"

definition record_hash :: "audit_record \<Rightarrow> bytes \<Rightarrow> bytes" where
  "record_hash r previous =
     guard_sha_final (guard_sha_update (ar_digest r) (guard_sha_update (ar_path r)
       (guard_sha_update (audit_metadata r) (guard_sha_update previous
         (guard_sha_update audit_domain guard_sha_init)))))"

definition zero_record :: audit_record where
  "zero_record =
     \<lparr>ar_sequence = 0, ar_tick = 0, ar_action = 0, ar_verdict = 0, ar_path_length = 0, ar_path = replicate 48 0,
      ar_digest = replicate 32 0, ar_record_hash = replicate 32 0, ar_reserved = replicate 4 0\<rparr>"

definition initialize_empty :: audit_journal where
  "initialize_empty =
     \<lparr>aj_header =
        \<lparr>ah_magic = bytes_of_string ''ZGAL'', ah_schema = 1, ah_header_size = 96, ah_record_size = 128,
         ah_capacity = 64, ah_count = 0, ah_next_index = 0, ah_next_sequence = 1,
         ah_anchor_hash = replicate 32 0, ah_head_hash = replicate 32 0, ah_reserved = replicate 8 0\<rparr>,
      aj_records = replicate audit_capacity zero_record\<rparr>"

text \<open>The body of the loop of \<open>verify\<close>, and the loop: the last hash, or nothing when a check fails.\<close>

definition host_record_ok :: "audit_record \<Rightarrow> u32 \<Rightarrow> bool" where
  "host_record_ok r sequence \<longleftrightarrow>
     \<not> (ar_sequence r \<noteq> sequence \<or> ar_action r > 9 \<or> ar_verdict r > 5 \<or> ar_path_length r = 0 \<or>
        unat (ar_path_length r) \<ge> 48 \<or> ar_path r ! unat (ar_path_length r) \<noteq> 0 \<or> \<not> all_zero (ar_reserved r)) \<and>
     (\<forall>p\<in>set [unat (ar_path_length r) + 1..<48]. ar_path r ! p = 0)"

primrec host_chain :: "audit_journal \<Rightarrow> u32 \<Rightarrow> u32 \<Rightarrow> nat list \<Rightarrow> bytes \<Rightarrow> bytes option" where
  "host_chain j first first_sequence [] previous = Some previous"
| "host_chain j first first_sequence (i # indices) previous =
     (let r = aj_records j ! (unat (first + word_of_nat i) mod audit_capacity)
      in if \<not> host_record_ok r (first_sequence + word_of_nat i) then None
         else let computed = record_hash r previous
              in if \<not> same_hash computed (ar_record_hash r) then None
                 else host_chain j first first_sequence indices computed)"

definition host_verify :: "bool \<Rightarrow> audit_journal \<Rightarrow> bool" where
  "host_verify require_nonempty j =
     (let h = aj_header j
      in if ah_magic h \<noteq> bytes_of_string ''ZGAL'' \<or> ah_schema h \<noteq> 1 \<or> ah_header_size h \<noteq> 96 \<or>
            ah_record_size h \<noteq> 128 \<or> ah_capacity h \<noteq> 64 \<or> ah_count h > 64 \<or> ah_next_index h \<ge> 64 \<or>
            ah_next_sequence h = 0 \<or> \<not> all_zero (ah_reserved h) then False
         else if require_nonempty \<and> ah_count h = 0 then False
         else if ah_count h = 0
         then ah_next_index h = 0 \<and> ah_next_sequence h = 1 \<and> all_zero (ah_anchor_hash h) \<and> all_zero (ah_head_hash h)
         else if ah_next_sequence h \<le> ah_count h then False
         else if ah_count h < 64 \<and> (ah_next_index h \<noteq> ah_count h \<or> \<not> all_zero (ah_anchor_hash h)) then False
         else let first = (if ah_count h = 64 then ah_next_index h else 0);
                  first_sequence = ah_next_sequence h - ah_count h
              in case host_chain j first first_sequence [0..<unat (ah_count h)] (ah_anchor_hash h) of
                   None \<Rightarrow> False
                 | Some previous \<Rightarrow> same_hash previous (ah_head_hash h))"

section \<open>The digest is SHA-256\<close>

lemma ucast_down_add: "(ucast (x + y :: u64) :: u32) = ucast x + ucast y"
proof -
  have low: "take_bit 32 (take_bit 64 x + take_bit 64 y) = take_bit 32 (x + y)" for x y :: int
    using take_bit_add [of 32 "take_bit 64 x" "take_bit 64 y"] take_bit_add [of 32 x y] by simp
  show ?thesis by transfer (simp add: low)
qed

lemma add_mod32_sum: "add_mod32 values = sum_list values"
proof -
  have mask: "x AND 0xffffffff = take_bit 32 x" for x :: u64 by (simp add: take_bit_eq_mask mask_eq_exp_minus_1)
  have "(ucast (x AND 0xffffffff :: u64) :: u32) = ucast x" for x
    unfolding mask by (auto simp: bit_eq_iff bit_simps)
  moreover have up: "(ucast (ucast x :: u64) :: u32) = x" for x by (auto simp: bit_eq_iff bit_simps)
  moreover have "(ucast (sum_list (map ucast values) :: u64) :: u32) = sum_list values"
    by (induction "values") (simp_all add: ucast_down_add up)
  ultimately show ?thesis by (simp add: add_mod32_def)
qed

lemma guard_rotate_eq: "guard_rotate = rotate_right"
  by (intro ext) (simp add: guard_rotate_def rotate_right_def)

lemma guard_schedule_eq: "length block = 64 \<Longrightarrow> guard_schedule block = message_schedule block"
proof -
  assume "length block = 64"
  then have "map (\<lambda>i. load_be32 (drop (i * 4) block)) [0..<16] = map (block_word block) [0..<16]"
    by (auto simp: load_be32_def block_word_def add.commute)
  moreover have "guard_word = schedule_word"
    by (intro ext) (simp add: guard_word_def schedule_word_def guard_rotate_eq add_mod32_sum Let_def add.assoc)
  ultimately show ?thesis unfolding guard_schedule_def message_schedule_def by (simp only:)
qed

lemma guard_round_eq: "guard_round k w = sha_round k w"
proof
  fix r :: sha_registers
  obtain a b c d e f g h where "r = (a, b, c, d, e, f, g, h)" by (cases "(k, w, r)" rule: guard_round.cases) blast
  then show "guard_round k w r = sha_round k w r" by (simp add: guard_rotate_eq add_mod32_sum Let_def add.assoc)
qed

lemma guard_transform_eq: "length block = 64 \<Longrightarrow> guard_transform block = universe_block block"
proof
  fix st :: "u32 list"
  assume "length block = 64"
  moreover have "guard_k = sha_k" unfolding guard_k_def sha_k_def ..
  ultimately show "guard_transform block st = universe_block block st"
    by (simp add: universe_block_eq guard_transform_def transform_def guard_schedule_eq guard_round_eq add_mod32_sum)
qed

text \<open>The context as one of \<open>zenuniverse\<close>, whose blocks are compressed by the same function.\<close>

definition as_universe :: "guard_sha \<Rightarrow> universe_sha" where
  "as_universe s = \<lparr>us_state = gs_state s, us_buffer = gs_block s, us_bytes = gs_total s, us_used = gs_used s\<rparr>"

lemma as_universe_fields:
  "us_state (as_universe s) = gs_state s" "us_buffer (as_universe s) = gs_block s"
  "us_bytes (as_universe s) = gs_total s" "us_used (as_universe s) = gs_used s"
  by (simp_all add: as_universe_def)

lemma as_universe_push: "as_universe (guard_push c s) = universe_push c (as_universe s)"
  by (simp add: as_universe_def guard_push_def universe_push_def)

lemma length_guard_push [simp]: "length (gs_block (guard_push c s)) = length (gs_block s)"
  by (simp add: guard_push_def)

lemma as_universe_pushes:
  "as_universe (fold guard_push cs s) = fold universe_push cs (as_universe s)"
  "length (gs_block (fold guard_push cs s)) = length (gs_block s)"
  by (induction cs arbitrary: s) (simp_all add: as_universe_push)

lemma as_universe_absorb:
  assumes "length (gs_block s) = 64"
  shows "as_universe (guard_absorb c s) = universe_absorb c (as_universe s)"
    and "length (gs_block (guard_absorb c s)) = 64"
  using assms guard_transform_eq [of "gs_block (guard_push c s)"]
  by (auto simp: guard_absorb_def universe_absorb_def Let_def guard_compress_def as_universe_def guard_push_def universe_push_def)

lemma as_universe_absorbs:
  "length (gs_block s) = 64 \<Longrightarrow> as_universe (fold guard_absorb data s) = fold universe_absorb data (as_universe s) \<and>
     length (gs_block (fold guard_absorb data s)) = 64"
  by (induction data arbitrary: s) (simp_all add: as_universe_absorb)

definition guard_after :: "bytes \<Rightarrow> guard_sha \<Rightarrow> bool" where
  "guard_after message s \<longleftrightarrow> universe_after message (as_universe s)"

lemma guard_after_init: "guard_after [] guard_sha_init"
proof -
  have "as_universe guard_sha_init = universe_sha_initial"
    by (simp add: as_universe_def guard_sha_init_def universe_sha_initial_def)
  then show ?thesis using universe_after_initial by (simp add: guard_after_def)
qed

lemma guard_after_block: "guard_after message s \<Longrightarrow> length (gs_block s) = 64"
  by (simp add: guard_after_def universe_after_def sha_after_def absorbed_def as_sha256_def as_universe_def)

lemma guard_update_after:
  assumes "guard_after message s" and "length (message @ data) < 2 ^ 64"
  shows "guard_after (message @ data) (guard_sha_update data s)"
proof -
  obtain u where u: "universe_update data (as_universe s) = Inr u" "universe_after (message @ data) u"
    using universe_update_after assms unfolding guard_after_def by metis
  moreover have "as_universe (guard_sha_update data s) = u"
    using u(1) as_universe_absorbs [of "s\<lparr>gs_total := gs_total s + word_of_nat (length data)\<rparr>" data] guard_after_block [OF assms(1)]
    by (simp add: universe_update_def throw_if_eq_Inr guard_sha_update_def as_universe_def)
  ultimately show ?thesis by (simp add: guard_after_def)
qed

lemma fold_length_bytes:
  assumes "length block = 64"
  shows "fold (\<lambda>i block. block[63 - i := ucast (drop_bit (i * 8) bits)]) [0..<8] block = blit 56 (length_bytes bits) block"
proof -
  have "[0..<8] = [0, 1, 2, 3, 4, 5, 6, 7 :: nat]" by (simp add: upt_rec)
  moreover have "length_bytes bits = [ucast (drop_bit 56 bits), ucast (drop_bit 48 bits), ucast (drop_bit 40 bits),
      ucast (drop_bit 32 bits), ucast (drop_bit 24 bits), ucast (drop_bit 16 bits), ucast (drop_bit 8 bits), ucast bits]"
    by (simp add: length_bytes_def)
  ultimately show ?thesis using assms
    by (intro nth_equalityI) (auto simp: nth_blit nth_list_update nth_Cons' )
qed

lemma fold_universe_push:
  "us_used u + length cs \<le> length (us_buffer u) \<Longrightarrow>
     us_buffer (fold universe_push cs u) = blit (us_used u) cs (us_buffer u) \<and> us_state (fold universe_push cs u) = us_state u"
proof (induction cs arbitrary: u)
  case (Cons c cs)
  have push: "us_buffer (universe_push c u) = (us_buffer u)[us_used u := c]" "us_used (universe_push c u) = us_used u + 1"
    "us_state (universe_push c u) = us_state u" by (simp_all add: universe_push_def)
  then have "us_buffer (fold universe_push cs (universe_push c u)) = blit (us_used u + 1) cs ((us_buffer u)[us_used u := c])"
    using Cons by simp
  also have "\<dots> = blit (us_used u) (c # cs) (us_buffer u)"
    using Cons.prems by (simp add: blit_def upd_conv_take_nth_drop ac_simps)
  finally show ?case using Cons.IH [of "universe_push c u"] Cons.prems push by simp
qed (simp add: blit_def)

lemma guard_final_after:
  assumes "guard_after message s"
  shows "guard_sha_final s = sha256_spec message"
proof -
  let ?bits = "word_of_nat (8 * length message) :: u64"
  have n: "unat (gs_total s) = length message" and block: "length (gs_block s) = 64"
    using assms guard_after_block [OF assms]
    by (simp_all add: guard_after_def universe_after_def sha_after_def as_sha256_def as_universe_def)
  have bits: "gs_total s * 8 = ?bits" by (simp add: mult.commute flip: n)
  define s1 where "s1 = guard_push 0x80 s"
  define s2 where "s2 = (if gs_used s1 > 56 then (guard_compress (guard_zeros 64 s1))\<lparr>gs_used := 0\<rparr> else s1)"
  define s3 where "s3 = guard_zeros 56 s2"
  have s1: "as_universe s1 = universe_push 0x80 (as_universe s)" "length (gs_block s1) = 64"
    using block by (simp_all add: s1_def as_universe_push)
  have zeros: "as_universe (guard_zeros l t) = universe_zeros l (as_universe t)"
    "length (gs_block (guard_zeros l t)) = length (gs_block t)" for l t
    unfolding guard_zeros_def universe_zeros_def as_universe_pushes as_universe_fields by (rule refl)+
  have "as_universe ((guard_compress t)\<lparr>gs_used := 0\<rparr>) = universe_flush (as_universe t)" if "length (gs_block t) = 64" for t
    using that guard_transform_eq [of "gs_block t"] by (simp add: guard_compress_def as_universe_def universe_flush_def)
  then have s2: "as_universe s2 = (if us_used (as_universe s1) > 56 then universe_flush (universe_zeros 64 (as_universe s1)) else as_universe s1)"
    "length (gs_block s2) = 64"
    using s1(2) zeros(2) [of 64 s1] by (auto simp: s2_def zeros(1) as_universe_fields guard_compress_def)
  have s3: "as_universe s3 = universe_zeros 56 (as_universe s2)" "length (gs_block s3) = 64"
    using s2(2) by (simp_all add: s3_def zeros)
  have "gs_used s2 \<le> 56" by (auto simp: s2_def)
  then have used: "gs_used s3 = 56"
    using universe_zeros_fill [of "as_universe s2" 56] s2(2) s3(1) as_universe_fields(4) [of s3] by (simp add: as_universe_fields)
  have closed: "universe_closed ?bits (as_universe s) = fold universe_push (length_bytes ?bits) (as_universe s3)"
    unfolding universe_closed_def Let_def s3(1) s2(1) s1(1) ..
  have last: "us_buffer (universe_closed ?bits (as_universe s)) = blit 56 (length_bytes ?bits) (gs_block s3)"
    "us_state (universe_closed ?bits (as_universe s)) = gs_state s3"
    using fold_universe_push [of "as_universe s3" "length_bytes ?bits"] s3(2) used
    unfolding closed by (simp_all add: as_universe_fields)
  have "guard_sha_final s = digest_bytes (guard_transform (blit 56 (length_bytes ?bits) (gs_block s3)) (gs_state s3))"
    unfolding guard_sha_final_def Let_def bits s1_def [symmetric] s2_def [symmetric] s3_def [symmetric]
    by (simp add: guard_compress_def fold_length_bytes [OF s3(2)] digest_bytes_def store_be32_def [abs_def])
  moreover have "length (blit 56 (length_bytes ?bits) (gs_block s3)) = 64" using s3(2) by simp
  ultimately show ?thesis
    using universe_closed_after [of message "as_universe s"] assms last
    by (simp add: guard_transform_eq guard_after_def sha256_spec_def)
qed

lemma same_hash_iff: "length left = 32 \<Longrightarrow> length right = 32 \<Longrightarrow> same_hash left right \<longleftrightarrow> left = right"
  by (auto simp: same_hash_def fold_or_zero list_eq_iff_nth_eq)

lemma all_zero_iff: "all_zero data \<longleftrightarrow> (\<forall>b\<in>set data. b = 0)"
  by (simp add: all_zero_def fold_or_bytes_zero)

text \<open>What the hash of a record covers: the domain, the predecessor's hash, and everything but the hash itself.\<close>

definition audit_message :: "audit_record \<Rightarrow> bytes \<Rightarrow> bytes" where
  "audit_message r previous = audit_domain @ previous @ audit_metadata r @ ar_path r @ ar_digest r"

definition record_wf :: "audit_record \<Rightarrow> bool" where
  "record_wf r \<longleftrightarrow> length (ar_path r) = 48 \<and> length (ar_digest r) = 32 \<and> length (ar_record_hash r) = 32 \<and> length (ar_reserved r) = 4"

definition journal_wf :: "audit_journal \<Rightarrow> bool" where
  "journal_wf j \<longleftrightarrow>
     length (ah_magic (aj_header j)) = 4 \<and> length (ah_anchor_hash (aj_header j)) = 32 \<and>
     length (ah_head_hash (aj_header j)) = 32 \<and> length (ah_reserved (aj_header j)) = 8 \<and>
     length (aj_records j) = audit_capacity \<and> (\<forall>r\<in>set (aj_records j). record_wf r)"

lemma length_audit_message: "length previous = 32 \<Longrightarrow> record_wf r \<Longrightarrow> length (audit_message r previous) = 140"
  by (simp add: audit_message_def audit_domain_def audit_metadata_def record_wf_def)

lemma record_hash_spec:
  assumes "length previous = 32" and "record_wf r"
  shows "record_hash r previous = sha256_spec (audit_message r previous)"
proof -
  let ?m = "audit_domain @ previous @ audit_metadata r @ ar_path r"
  have small: "length (?m @ ar_digest r) < 2 ^ 64"
    using length_audit_message [OF assms] by (simp add: audit_message_def)
  have "guard_after ?m (guard_sha_update (ar_path r) (guard_sha_update (audit_metadata r) (guard_sha_update previous
      (guard_sha_update audit_domain guard_sha_init))))"
    using guard_update_after [OF guard_update_after [OF guard_update_after [OF guard_update_after [OF guard_after_init]]],
        of audit_domain previous "audit_metadata r" "ar_path r"] small by simp
  from guard_update_after [OF this small] have "guard_after (audit_message r previous) (guard_sha_update (ar_digest r)
      (guard_sha_update (ar_path r) (guard_sha_update (audit_metadata r) (guard_sha_update previous
      (guard_sha_update audit_domain guard_sha_init)))))"
    by (simp add: audit_message_def)
  then show ?thesis unfolding record_hash_def by (rule guard_final_after)
qed

lemma length_record_hash [simp]: "length previous = 32 \<Longrightarrow> record_wf r \<Longrightarrow> length (record_hash r previous) = 32"
  by (simp add: record_hash_spec)

text \<open>Distinct records, or distinct predecessors, give distinct messages.\<close>

lemma audit_message_inject:
  assumes "audit_message r p = audit_message r' p'" and "length p = 32" "length p' = 32" and "record_wf r" "record_wf r'"
  shows "p = p' \<and> ar_sequence r = ar_sequence r' \<and> ar_tick r = ar_tick r' \<and> ar_action r = ar_action r' \<and>
         ar_verdict r = ar_verdict r' \<and> ar_path_length r = ar_path_length r' \<and> ar_path r = ar_path r' \<and>
         ar_digest r = ar_digest r'"
proof -
  have inj4: "le_bytes 4 (x :: u32) = le_bytes 4 y \<longleftrightarrow> x = y" for x y by (metis le_word_le_bytes_4)
  have inj2: "le_bytes 2 (x :: u16) = le_bytes 2 y \<longleftrightarrow> x = y" for x y by (metis le_word_le_bytes_2)
  from assms show ?thesis
    by (auto simp: audit_message_def audit_metadata_def record_wf_def inj4 inj2)
qed

section \<open>Codecs\<close>

lemma decode_encode_header:
  assumes "journal_wf j"
  shows "decode_header (encode_header (aj_header j) @ rest) = aj_header j"
  using assms by (simp add: journal_wf_def decode_header_def encode_header_def field_u16_def field_u32_def)

lemma length_encode_header: "journal_wf j \<Longrightarrow> length (encode_header (aj_header j)) = 96"
  by (simp add: journal_wf_def encode_header_def)

lemma length_encode_record: "record_wf r \<Longrightarrow> length (encode_record r) = 128"
  by (simp add: record_wf_def encode_record_def)

lemma decode_encode_record: "record_wf r \<Longrightarrow> decode_record (encode_record r) = r"
  by (simp add: record_wf_def decode_record_def encode_record_def field_u16_def field_u32_def nth_append)

lemma length_encode_journal: "journal_wf j \<Longrightarrow> length (encode_journal j) = audit_journal_bytes"
proof -
  assume wf: "journal_wf j"
  then have "\<forall>b\<in>set (map encode_record (aj_records j)). length b = 128"
    by (auto simp: journal_wf_def length_encode_record)
  then have "length (concat (map encode_record (aj_records j))) = 128 * length (aj_records j)"
    by (induction "aj_records j" rule: rev_induct) (simp_all add: length_concat sum_list_triv o_def cong: map_cong)
  then show ?thesis using wf by (simp add: encode_journal_def length_encode_header audit_journal_bytes_def journal_wf_def audit_capacity_def)
qed

lemma decode_encode_journal: "journal_wf j \<Longrightarrow> decode_journal (encode_journal j) = j"
proof -
  assume wf: "journal_wf j"
  let ?bs = "map encode_record (aj_records j)"
  have uniform: "\<forall>b\<in>set ?bs. length b = 128" using wf by (auto simp: journal_wf_def length_encode_record)
  have "take 128 (drop (96 + i * 128) (encode_journal j)) = encode_record (aj_records j ! i)" if "i < audit_capacity" for i
    using concat_uniform_nth [of ?bs 128 i] uniform that wf length_encode_header [OF wf]
    by (simp add: encode_journal_def journal_wf_def)
  moreover have "record_wf (aj_records j ! i)" if "i < audit_capacity" for i using wf that by (simp add: journal_wf_def)
  ultimately have "map (\<lambda>i. decode_record (take 128 (drop (96 + i * 128) (encode_journal j)))) [0..<audit_capacity] =
      map (\<lambda>i. aj_records j ! i) [0..<audit_capacity]"
    by (simp add: decode_encode_record)
  also have "\<dots> = aj_records j" using wf map_nth [of "aj_records j"] by (simp add: journal_wf_def)
  finally show ?thesis
    using decode_encode_header [OF wf, of "[]"] length_encode_header [OF wf]
    by (simp add: decode_journal_def encode_journal_def)
qed

end
