(* ===== verification/Security_Audit.thy ===== *)
theory Security_Audit
  imports Audit_Format ZenovFS
begin

text \<open>
  The kernel's audit journal, \<open>kernel/parts/security_audit.inc\<close>: a ring of 64 records in which every record
  carries the hash of itself and its predecessor, kept in memory and stored on every append as a file of the
  file system. An append that cannot be stored is undone and closes the journal.
\<close>

section \<open>Verification\<close>

definition zero_bytes :: "bytes \<Rightarrow> bool" where
  "zero_bytes data \<longleftrightarrow> fold (\<lambda>b combined. combined OR b) data 0 = 0"

definition digest_equal :: "bytes \<Rightarrow> bytes \<Rightarrow> bool" where
  "digest_equal left right \<longleftrightarrow> fold (\<lambda>i difference. difference OR (left ! i XOR right ! i)) [0..<32] 0 = 0"

definition hash_record :: "audit_record \<Rightarrow> bytes \<Rightarrow> bytes" where
  "hash_record r previous =
     (let metadata = le_bytes 4 (ar_sequence r) @ le_bytes 4 (ar_tick r) @ [ar_action r, ar_verdict r] @
                     le_bytes 2 (ar_path_length r);
          s = guard_sha_init;
          s = guard_sha_update (bytes_of_string ''ZENOV-AUDIT-V1'' @ [0, 0]) s;
          s = guard_sha_update previous s;
          s = guard_sha_update metadata s;
          s = guard_sha_update (ar_path r) s;
          s = guard_sha_update (ar_digest r) s
      in guard_sha_final s)"

text \<open>The last audit action is \<open>read_audit\<close>, number 9, and the last verdict \<open>error\<close>, number 5.\<close>

definition record_valid :: "audit_record \<Rightarrow> bool" where
  "record_valid r \<longleftrightarrow>
     \<not> (ar_action r > 9 \<or> ar_verdict r > 5 \<or> ar_path_length r = 0 \<or> unat (ar_path_length r) \<ge> 48 \<or>
        ar_path r ! unat (ar_path_length r) \<noteq> 0 \<or> \<not> zero_bytes (ar_reserved r)) \<and>
     (\<forall>i\<in>set [unat (ar_path_length r) + 1..<48]. ar_path r ! i = 0)"

primrec verify_chain :: "audit_journal \<Rightarrow> u32 \<Rightarrow> u32 \<Rightarrow> nat list \<Rightarrow> bytes \<Rightarrow> bytes option" where
  "verify_chain j first first_sequence [] previous = Some previous"
| "verify_chain j first first_sequence (i # indices) previous =
     (let r = aj_records j ! (unat (first + word_of_nat i) mod audit_capacity)
      in if \<not> record_valid r \<or> ar_sequence r \<noteq> first_sequence + word_of_nat i then None
         else let computed = hash_record r previous
              in if \<not> digest_equal computed (ar_record_hash r) then None
                 else verify_chain j first first_sequence indices (ar_record_hash r))"

definition audit_verify :: "audit_journal \<Rightarrow> bool" where
  "audit_verify j =
     (let h = aj_header j
      in if ah_magic h \<noteq> bytes_of_string ''ZGAL'' \<or> ah_schema h \<noteq> 1 \<or> ah_header_size h \<noteq> 96 \<or>
            ah_record_size h \<noteq> 128 \<or> ah_capacity h \<noteq> 64 \<or> ah_count h > 64 \<or> ah_next_index h \<ge> 64 \<or>
            ah_next_sequence h = 0 \<or> \<not> zero_bytes (ah_reserved h) then False
         else if ah_count h = 0
         then ah_next_index h = 0 \<and> ah_next_sequence h = 1 \<and> zero_bytes (ah_anchor_hash h) \<and> zero_bytes (ah_head_hash h)
         else if ah_next_sequence h \<le> ah_count h then False
         else if ah_count h < 64 \<and> (ah_next_index h \<noteq> ah_count h \<or> \<not> zero_bytes (ah_anchor_hash h)) then False
         else let first = (if ah_count h = 64 then ah_next_index h else 0);
                  first_sequence = ah_next_sequence h - ah_count h
              in case verify_chain j first first_sequence [0..<unat (ah_count h)] (ah_anchor_hash h) of
                   None \<Rightarrow> False
                 | Some previous \<Rightarrow> digest_equal previous (ah_head_hash h))"

section \<open>Appending\<close>

text \<open>
  \<open>append_to\<close> changes the journal in place, also when it fails: the record is cleared before the path is
  copied, and \<open>path_copy\<close> stops at the end of the array.
\<close>

definition append_to ::
    "u32 \<Rightarrow> u8 \<Rightarrow> u8 \<Rightarrow> string option \<Rightarrow> bytes option \<Rightarrow> audit_journal \<Rightarrow> bool \<times> audit_journal" where
  "append_to tick action verdict path digest j =
     (let h = aj_header j
      in if ah_next_sequence h = 0xFFFFFFFF \<or> path = None \<or> path = Some [] \<or> digest = None then (False, j)
         else let index = unat (ah_next_index h);
                  h = (if ah_count h = 64 then h\<lparr>ah_anchor_hash := ar_record_hash (aj_records j ! index)\<rparr> else h);
                  r = zero_record\<lparr>ar_sequence := ah_next_sequence h, ar_tick := tick, ar_action := action,
                                  ar_verdict := verdict\<rparr>
              in case path_copy (ar_path r) (the path) 48 of
                   None \<Rightarrow>
                     (False, \<lparr>aj_header = h,
                              aj_records = (aj_records j)[index := r\<lparr>ar_path := blit 0 (take 47 (bytes_of_string (the path))) (ar_path r)\<rparr>]\<rparr>)
                 | Some copied \<Rightarrow>
                     let r = r\<lparr>ar_path := copied, ar_path_length := word_of_nat (length (cstr copied)),
                               ar_digest := the digest\<rparr>;
                         r = r\<lparr>ar_record_hash := hash_record r (ah_head_hash h)\<rparr>;
                         h = (if ah_count h < 64 then h\<lparr>ah_count := ah_count h + 1\<rparr> else h);
                         h = h\<lparr>ah_next_index := (word_of_nat index + 1) mod 64,
                               ah_next_sequence := ah_next_sequence h + 1, ah_head_hash := ar_record_hash r\<rparr>
                     in (True, \<lparr>aj_header = h, aj_records = (aj_records j)[index := r]\<rparr>))"

section \<open>The journal of the running kernel\<close>

record audit_state =
  au_journal :: audit_journal
  au_ready :: bool
  au_replayed :: bool
  au_appends :: u32

definition journal_path :: string where "journal_path = ''/security/zenovguard.audit''"

definition flip_path :: "nat \<Rightarrow> nat \<Rightarrow> audit_journal \<Rightarrow> audit_journal" where
  "flip_path i k j =
     (let r = aj_records j ! i
      in j\<lparr>aj_records := (aj_records j)[i := r\<lparr>ar_path := (ar_path r)[k := ar_path r ! k XOR 1]\<rparr>]\<rparr>)"

definition flip_head :: "audit_journal \<Rightarrow> audit_journal" where
  "flip_head j =
     (let h = aj_header j in j\<lparr>aj_header := h\<lparr>ah_head_hash := (ah_head_hash h)[0 := ah_head_hash h ! 0 XOR 1]\<rparr>\<rparr>)"

definition audit_self_test :: bool where
  "audit_self_test =
     (let (first_ok, j) = append_to 1 0 1 (Some ''<audit-selftest-1>'') (Some (0x11 # replicate 31 0)) initialize_empty
      in if \<not> first_ok then False
         else let (second_ok, j) = append_to 2 1 0 (Some ''<audit-selftest-2>'') (Some (0x22 # replicate 31 0)) j
              in if \<not> second_ok \<or> \<not> audit_verify j then False
                 else \<not> audit_verify (flip_path 0 1 j) \<and> \<not> audit_verify (flip_head j) \<and> audit_verify j)"

definition serial_line :: "string \<Rightarrow> string" where
  "serial_line s = s @ [CHR 0x0D, newline]"

definition serial_state :: "string \<Rightarrow> audit_journal \<Rightarrow> string" where
  "serial_state marker j =
     serial_line (marker @ '' count='' @ show_nat (unat (ah_count (aj_header j))) @
       '' next='' @ show_nat (unat (ah_next_sequence (aj_header j))))"

text \<open>\<open>init\<close>: whether it succeeds, the text on the serial line, the journal's state and the file system's.\<close>

definition audit_init :: "audit_state \<Rightarrow> 's zfs \<Rightarrow> bool \<times> string \<times> audit_state \<times> 's zfs" where
  "audit_init a st =
     (let a = a\<lparr>au_ready := False, au_replayed := False, au_appends := 0\<rparr>
      in if \<not> audit_self_test then (False, serial_line ''ZENOV_GUARD_AUDIT_SELFTEST_FAILED'', a, st)
         else let out = serial_line ''ZENOV_GUARD_AUDIT_SELFTEST_OK'';
                  ready = (\<lambda>out a. (True, out @ serial_state ''ZENOV_GUARD_AUDIT_READY'' (au_journal a), a\<lparr>au_ready := True\<rparr>))
              in case find_entry (zf_super st) (zf_entries st) journal_path of
                   None \<Rightarrow>
                     (let a = a\<lparr>au_journal := initialize_empty\<rparr>;
                          (r, st) = write_file_result (Some journal_path) (DataBytes (encode_journal initialize_empty))
                                      (word_of_nat audit_journal_bytes) False st
                      in if \<not> fs_ok r then (False, out @ serial_line ''ZENOV_GUARD_AUDIT_CREATE_FAILED'', a, st)
                         else let (done, out, a) = ready (out @ serial_line ''ZENOV_GUARD_AUDIT_CREATED'') a
                              in (done, out, a, st))
                 | Some _ \<Rightarrow>
                     (let (r, n, raw, st) = read_file_result (Some journal_path) (Some (encode_journal (au_journal a)))
                                              (word_of_nat audit_journal_bytes) st;
                          j = decode_journal (the raw);
                          a = a\<lparr>au_journal := j\<rparr>
                      in if \<not> fs_ok r \<or> n \<noteq> word_of_nat audit_journal_bytes \<or> \<not> audit_verify j
                         then (False, out @ serial_line ''ZENOV_GUARD_AUDIT_INVALID'', a, st)
                         else let a = a\<lparr>au_replayed := ah_count (aj_header j) \<noteq> 0\<rparr>;
                                  (done, out, a) = ready (out @ serial_state ''ZENOV_GUARD_AUDIT_REPLAY_OK'' j) a
                              in (done, out, a, st)))"

definition audit_append ::
    "u32 \<Rightarrow> u8 \<Rightarrow> u8 \<Rightarrow> string option \<Rightarrow> bytes option \<Rightarrow> audit_state \<Rightarrow> 's zfs \<Rightarrow>
       bool \<times> string \<times> audit_state \<times> 's zfs" where
  "audit_append tick action verdict path digest a st =
     (if \<not> au_ready a then (False, [], a, st)
      else let before = au_journal a;
               index = unat (ah_next_index (aj_header before));
               (appended, j) = append_to tick action verdict path digest before;
               (stored, st) =
                 (if appended
                  then let (r, st) = write_file_result (Some journal_path) (DataBytes (encode_journal j))
                                       (word_of_nat audit_journal_bytes) False st
                       in (fs_ok r, st)
                  else (False, st))
           in if \<not> stored
              then (False, serial_line ''ZENOV_GUARD_AUDIT_APPEND_FAILED'',
                    a\<lparr>au_journal := \<lparr>aj_header = aj_header before,
                                     aj_records = (aj_records j)[index := aj_records before ! index]\<rparr>,
                      au_ready := False\<rparr>, st)
              else (True, [], a\<lparr>au_journal := j, au_appends := au_appends a + 1\<rparr>, st))"

text \<open>\<open>verify_active\<close> compares the stored journal with the one in memory; \<open>buffer\<close> is the application buffer.\<close>

definition verify_active :: "bytes option \<Rightarrow> audit_state \<Rightarrow> 's zfs \<Rightarrow> bool \<times> string \<times> bytes option \<times> 's zfs" where
  "verify_active buffer a st =
     (if \<not> au_ready a \<or> buffer = None then (False, [], buffer, st)
      else let (r, n, raw, st) = read_file_result (Some journal_path) buffer 65536 st
           in if \<not> fs_ok r \<or> n \<noteq> word_of_nat audit_journal_bytes then (False, [], raw, st)
              else let disk = decode_journal (the raw)
                   in if \<not> audit_verify disk \<or> ah_count (aj_header disk) \<noteq> ah_count (aj_header (au_journal a)) \<or>
                         ah_next_sequence (aj_header disk) \<noteq> ah_next_sequence (aj_header (au_journal a)) \<or>
                         \<not> digest_equal (ah_head_hash (aj_header disk)) (ah_head_hash (aj_header (au_journal a)))
                      then (False, [], raw, st)
                      else (True, serial_state ''ZENOV_GUARD_AUDIT_VERIFY_OK'' (au_journal a), raw, st))"

section \<open>The chain of a journal\<close>

lemma kernel_host_equal: "zero_bytes = all_zero" "digest_equal = same_hash" "hash_record = record_hash"
  by (intro ext, simp add: zero_bytes_def all_zero_def)
    (intro ext, simp add: digest_equal_def same_hash_def,
     intro ext, simp add: hash_record_def record_hash_def audit_metadata_def audit_domain_def Let_def)

text \<open>The position of the oldest record, and the live records from the oldest to the newest.\<close>

definition first_index :: "audit_journal \<Rightarrow> nat" where
  "first_index j = (if ah_count (aj_header j) = 64 then unat (ah_next_index (aj_header j)) else 0)"

definition logged :: "audit_journal \<Rightarrow> audit_record list" where
  "logged j = map (\<lambda>i. aj_records j ! ((first_index j + i) mod audit_capacity)) [0..<unat (ah_count (aj_header j))]"

text \<open>Each record is valid, has the next number, and its hash covers its predecessor's.\<close>

primrec chained :: "bytes \<Rightarrow> u32 \<Rightarrow> audit_record list \<Rightarrow> bytes \<Rightarrow> bool" where
  "chained previous sequence [] head \<longleftrightarrow> previous = head"
| "chained previous sequence (r # rs) head \<longleftrightarrow>
     record_valid r \<and> ar_sequence r = sequence \<and> ar_record_hash r = sha256_spec (audit_message r previous) \<and>
     chained (ar_record_hash r) (sequence + 1) rs head"

definition header_good :: "audit_header \<Rightarrow> bool" where
  "header_good h \<longleftrightarrow>
     ah_magic h = bytes_of_string ''ZGAL'' \<and> ah_schema h = 1 \<and> ah_header_size h = 96 \<and> ah_record_size h = 128 \<and>
     ah_capacity h = 64 \<and> ah_count h \<le> 64 \<and> ah_next_index h < 64 \<and> all_zero (ah_reserved h) \<and>
     ah_count h < ah_next_sequence h \<and> (ah_count h = 0 \<longrightarrow> ah_next_sequence h = 1) \<and>
     (ah_count h < 64 \<longrightarrow> ah_next_index h = ah_count h \<and> all_zero (ah_anchor_hash h))"

lemma verify_chain_iff:
  assumes "journal_wf j" and "unat first + n + k \<le> 128" and "length previous = 32"
  shows "verify_chain j first sequence [k..<k + n] previous = Some q \<longleftrightarrow>
         chained previous (sequence + word_of_nat k)
           (map (\<lambda>i. aj_records j ! ((unat first + i) mod audit_capacity)) [k..<k + n]) q"
  using assms(2,3)
proof (induction n arbitrary: k previous)
  case (Suc n)
  define r where "r = aj_records j ! ((unat first + k) mod audit_capacity)"
  have wf: "record_wf r" using assms(1) by (simp add: r_def journal_wf_def audit_capacity_def)
  have i: "unat (first + word_of_nat k) = unat first + k"
    using Suc.prems(1) by (simp add: unat_add_nowrap unat_of_nat_nowrap)
  have upt: "[k..<k + Suc n] = k # [Suc k..<Suc k + n]" by (simp add: upt_conv_Cons del: upt_Suc)
  have hash: "digest_equal (hash_record r previous) (ar_record_hash r) \<longleftrightarrow>
      ar_record_hash r = sha256_spec (audit_message r previous)"
    using wf Suc.prems(2) by (auto simp: kernel_host_equal record_hash_spec same_hash_iff record_wf_def)
  have "length (ar_record_hash r) = 32" using wf by (simp add: record_wf_def)
  moreover have "sequence + word_of_nat (Suc k) = sequence + word_of_nat k + 1" by simp
  ultimately have step: "verify_chain j first sequence [Suc k..<Suc k + n] (ar_record_hash r) = Some q \<longleftrightarrow>
      chained (ar_record_hash r) (sequence + word_of_nat k + 1)
        (map (\<lambda>i. aj_records j ! ((unat first + i) mod audit_capacity)) [Suc k..<Suc k + n]) q"
    using Suc.IH [of "Suc k" "ar_record_hash r"] Suc.prems(1) by (simp add: add.assoc del: upt_Suc of_nat_Suc)
  show ?case
    unfolding upt verify_chain.simps Let_def i list.map chained.simps r_def [symmetric] hash step [symmetric] by auto
qed simp

lemma chained_head: "chained previous sequence rs q \<Longrightarrow> \<forall>r\<in>set rs. record_wf r \<Longrightarrow> length previous = 32 \<Longrightarrow> length q = 32"
  by (induction rs arbitrary: previous sequence) (auto simp: record_wf_def)

lemma logged_wf: "journal_wf j \<Longrightarrow> \<forall>r\<in>set (logged j). record_wf r"
  by (auto simp: logged_def journal_wf_def audit_capacity_def)

lemma audit_verify_iff:
  assumes wf: "journal_wf j"
  shows "audit_verify j \<longleftrightarrow> header_good (aj_header j) \<and>
    chained (ah_anchor_hash (aj_header j)) (ah_next_sequence (aj_header j) - ah_count (aj_header j)) (logged j)
      (ah_head_hash (aj_header j))"
proof (cases "header_good (aj_header j)")
  case True
  let ?h = "aj_header j"
  define first where "first = (if ah_count ?h = 64 then ah_next_index ?h else 0)"
  let ?run = "verify_chain j first (ah_next_sequence ?h - ah_count ?h) [0..<unat (ah_count ?h)] (ah_anchor_hash ?h)"
  have len: "length (ah_anchor_hash ?h) = 32" "length (ah_head_hash ?h) = 32" using wf by (simp_all add: journal_wf_def)
  have "unat (ah_count ?h) \<le> 64" "unat first < 64" "first_index j = unat first"
    using True by (auto simp: first_def first_index_def header_good_def word_le_nat_alt word_less_nat_alt)
  then have run: "?run = Some q \<longleftrightarrow> chained (ah_anchor_hash ?h) (ah_next_sequence ?h - ah_count ?h) (logged j) q" for q
    using verify_chain_iff [OF wf, of first "unat (ah_count ?h)" 0 "ah_anchor_hash ?h"] len
    by (simp add: logged_def)
  have "?run = Some q \<Longrightarrow> length q = 32" for q
    using chained_head [OF _ logged_wf [OF wf] len(1)] run by blast
  then have "audit_verify j \<longleftrightarrow> ?run = Some (ah_head_hash ?h)" if "ah_count ?h \<noteq> 0"
    using True that len by (auto simp: audit_verify_def Let_def header_good_def kernel_host_equal same_hash_iff first_def [symmetric] split: option.splits)
  moreover have "audit_verify j \<longleftrightarrow> ah_anchor_hash ?h = ah_head_hash ?h" if "ah_count ?h = 0"
  proof -
    have "all_zero x \<longleftrightarrow> x = replicate 32 0" if "length x = 32" for x :: bytes
      using that by (auto simp: all_zero_iff list_eq_iff_nth_eq all_set_conv_all_nth)
    then show ?thesis using True that len by (auto simp: audit_verify_def Let_def header_good_def kernel_host_equal)
  qed
  ultimately show ?thesis using True run by (cases "ah_count ?h = 0") (auto simp: logged_def)
next
  case False
  then show ?thesis
    by (auto simp: audit_verify_def Let_def header_good_def kernel_host_equal word_neq_0_conv not_le split: option.splits if_splits)
qed

section \<open>An append extends the chain\<close>

record audit_event =
  ev_tick :: u32
  ev_action :: u8
  ev_verdict :: u8
  ev_path :: string
  ev_digest :: bytes

definition event_ok :: "audit_event \<Rightarrow> bool" where
  "event_ok e \<longleftrightarrow> ev_action e \<le> 9 \<and> ev_verdict e \<le> 5 \<and> ev_path e \<noteq> [] \<and> path_ok (ev_path e) \<and> length (ev_digest e) = 32"

definition append_event :: "audit_event \<Rightarrow> audit_journal \<Rightarrow> bool \<times> audit_journal" where
  "append_event e = append_to (ev_tick e) (ev_action e) (ev_verdict e) (Some (ev_path e)) (Some (ev_digest e))"

definition unsealed :: "u32 \<Rightarrow> audit_event \<Rightarrow> audit_record" where
  "unsealed sequence e =
     \<lparr>ar_sequence = sequence, ar_tick = ev_tick e, ar_action = ev_action e, ar_verdict = ev_verdict e,
      ar_path_length = word_of_nat (length (ev_path e)),
      ar_path = bytes_of_string (ev_path e) @ replicate (48 - length (ev_path e)) 0,
      ar_digest = ev_digest e, ar_record_hash = replicate 32 0, ar_reserved = replicate 4 0\<rparr>"

definition event_record :: "u32 \<Rightarrow> bytes \<Rightarrow> audit_event \<Rightarrow> audit_record" where
  "event_record sequence previous e =
     (unsealed sequence e)\<lparr>ar_record_hash := sha256_spec (audit_message (unsealed sequence e) previous)\<rparr>"

definition pushed :: "audit_event \<Rightarrow> audit_journal \<Rightarrow> audit_journal" where
  "pushed e j =
     (let h = aj_header j; index = unat (ah_next_index h); r = event_record (ah_next_sequence h) (ah_head_hash h) e
      in \<lparr>aj_header = h\<lparr>ah_anchor_hash := (if ah_count h = 64 then ar_record_hash (aj_records j ! index) else ah_anchor_hash h),
            ah_count := (if ah_count h < 64 then ah_count h + 1 else ah_count h),
            ah_next_index := (ah_next_index h + 1) mod 64, ah_next_sequence := ah_next_sequence h + 1,
            ah_head_hash := ar_record_hash r\<rparr>,
          aj_records = (aj_records j)[index := r]\<rparr>)"

lemma event_record_wf: "event_ok e \<Longrightarrow> record_wf (event_record sequence previous e)" "event_ok e \<Longrightarrow> record_wf (unsealed sequence e)"
  by (simp_all add: event_record_def unsealed_def record_wf_def event_ok_def path_ok_def)

lemma event_record_hash:
  "ar_record_hash (event_record sequence previous e) = sha256_spec (audit_message (event_record sequence previous e) previous)"
  by (simp add: event_record_def audit_message_def audit_metadata_def)

lemma event_record_valid: "event_ok e \<Longrightarrow> record_valid (event_record sequence previous e)"
proof -
  assume ok: "event_ok e"
  then have "unat (word_of_nat (length (ev_path e)) :: u16) = length (ev_path e)"
    by (simp add: event_ok_def path_ok_def unat_of_nat_nowrap)
  moreover have "(word_of_nat (length (ev_path e)) :: u16) \<noteq> 0"
    using calculation ok by (metis event_ok_def length_0_conv unat_0)
  ultimately show ?thesis
    using ok by (auto simp: record_valid_def event_record_def unsealed_def event_ok_def path_ok_def nth_append
        kernel_host_equal all_zero_iff not_less)
qed

lemma path_zeros: "n \<le> 47 \<Longrightarrow> replicate (48 - n) 0 = 0 # replicate (47 - n) (0 :: byte)"
  by (simp flip: replicate_Suc add: Suc_diff_le)

lemma append_event_pushed:
  assumes "event_ok e" and "ah_next_sequence (aj_header j) \<noteq> 0xFFFFFFFF" and "length (ah_head_hash (aj_header j)) = 32"
  shows "append_event e j = (True, pushed e j)"
proof -
  let ?p = "ev_path e" and ?copied = "bytes_of_string (ev_path e) @ replicate (48 - length (ev_path e)) 0 :: bytes"
  have p: "?p \<noteq> []" "length ?p \<le> 47" "CHR 0x00 \<notin> set ?p" using assms(1) by (auto simp: event_ok_def path_ok_def)
  have copy: "path_copy (replicate 48 0) ?p 48 = Some ?copied" "cstr ?copied = ?p"
    using p cstr_terminated [OF p(3), of "replicate (47 - length ?p) 0"] by (auto simp: path_copy_def blit_def path_zeros)
  have hash: "hash_record (unsealed n e) (ah_head_hash (aj_header j)) = sha256_spec (audit_message (unsealed n e) (ah_head_hash (aj_header j)))" for n
    using record_hash_spec [OF assms(3) event_record_wf(2) [OF assms(1)]] by (simp add: kernel_host_equal)
  show ?thesis
    using assms(2) p(1) copy
    by (simp add: append_event_def append_to_def Let_def zero_record_def hash [unfolded unsealed_def]
        pushed_def event_record_def unsealed_def)
qed

text \<open>The last \<open>n\<close> elements of a list.\<close>

definition keep_last :: "nat \<Rightarrow> 'a list \<Rightarrow> 'a list" where
  "keep_last n xs = drop (length xs - n) xs"

lemma keep_last_append: "keep_last n (keep_last n xs @ ys) = keep_last n (xs @ ys)"
proof (cases "length xs \<le> n")
  case False
  have "drop (length ys) (drop (length xs - n) xs @ ys) = drop (length ys + (length xs - n)) (xs @ ys)"
    by (simp flip: drop_drop)
  then show ?thesis using False by (simp add: keep_last_def ac_simps)
qed (simp add: keep_last_def)

lemma length_logged: "length (logged j) = unat (ah_count (aj_header j))"
  by (simp add: logged_def)

lemma next_index_pushed: "ah_next_index (aj_header j) < 64 \<Longrightarrow>
    unat (ah_next_index (aj_header (pushed e j))) = (unat (ah_next_index (aj_header j)) + 1) mod 64"
  by (simp add: pushed_def Let_def unat_mod_distrib unat_add_nowrap word_less_nat_alt)

lemma logged_pushed:
  assumes "journal_wf j" and "header_good (aj_header j)"
  shows "logged (pushed e j) =
    keep_last 64 (logged j @ [event_record (ah_next_sequence (aj_header j)) (ah_head_hash (aj_header j)) e])"
proof -
  let ?h = "aj_header j"
  let ?r = "event_record (ah_next_sequence ?h) (ah_head_hash ?h) e"
  define ni where "ni = unat (ah_next_index ?h)"
  have ni: "ni < 64" and len: "length (aj_records j) = 64" and good: "ah_count ?h \<le> 64"
    using assms by (auto simp: ni_def header_good_def word_less_nat_alt journal_wf_def audit_capacity_def)
  have recs: "aj_records (pushed e j) = (aj_records j)[ni := ?r]" by (simp add: pushed_def Let_def ni_def)
  show ?thesis
  proof (cases "ah_count ?h = 64")
    case True
    have full: "unat (ah_count (aj_header (pushed e j))) = 64" "first_index (pushed e j) = (ni + 1) mod 64"
      using True next_index_pushed [of j e] ni by (simp_all add: pushed_def Let_def first_index_def ni_def word_less_nat_alt)
    have old: "logged j = map (\<lambda>i. aj_records j ! ((ni + i) mod 64)) [0..<64]"
      using True by (simp add: logged_def first_index_def ni_def audit_capacity_def)
    have "logged (pushed e j) = map (\<lambda>i. (aj_records j)[ni := ?r] ! (((ni + 1) mod 64 + i) mod 64)) [0..<64]"
      by (simp only: logged_def full recs audit_capacity_def)
    also have "\<dots> = tl (logged j) @ [?r]"
    proof (rule nth_equalityI)
      fix i assume "i < length (map (\<lambda>i. (aj_records j)[ni := ?r] ! (((ni + 1) mod 64 + i) mod 64)) [0..<64])"
      then have i: "i < 64" by simp
      have pos: "((ni + 1) mod 64 + i) mod 64 = (ni + (i + 1)) mod 64" by (simp add: mod_simps add.assoc)
      have lhs: "map (\<lambda>i. (aj_records j)[ni := ?r] ! (((ni + 1) mod 64 + i) mod 64)) [0..<64] ! i =
          (aj_records j)[ni := ?r] ! ((ni + (i + 1)) mod 64)"
        using i by (simp only: pos nth_map_upt diff_zero add_0)
      have shifted: "tl (logged j) ! i = aj_records j ! ((ni + (i + 1)) mod 64)" if "i < 63"
        using that by (simp only: old map_tl [symmetric] tl_upt nth_map_upt) simp
      have "(ni + (i + 1)) mod 64 = (if ni + (i + 1) < 64 then ni + (i + 1) else ni + (i + 1) - 64)"
        using i ni by (simp add: mod_if)
      then have hit: "(ni + (i + 1)) mod 64 = ni \<longleftrightarrow> i = 63" using i ni by (auto split: if_splits)
      show "map (\<lambda>i. (aj_records j)[ni := ?r] ! (((ni + 1) mod 64 + i) mod 64)) [0..<64] ! i = (tl (logged j) @ [?r]) ! i"
      proof (cases "i = 63")
        case True then show ?thesis using lhs hit ni len by (simp add: nth_append length_logged \<open>ah_count ?h = 64\<close>)
      next
        case False
        then have "i < 63" "i < length (tl (logged j))" using i by (simp_all add: length_logged \<open>ah_count ?h = 64\<close>)
        then show ?thesis unfolding lhs nth_append using hit shifted False by simp
      qed
    qed (simp add: old)
    finally show ?thesis using True by (simp add: keep_last_def length_logged drop_Suc)
  next
    case False
    then have small: "ah_count ?h < 64" "ni = unat (ah_count ?h)"
      using good assms(2) by (auto simp: header_good_def ni_def)
    have count: "unat (ah_count (aj_header (pushed e j))) = ni + 1"
      using small by (simp add: pushed_def Let_def unat_add_nowrap word_less_nat_alt)
    have first: "first_index (pushed e j) = 0"
    proof (cases "ni = 63")
      case True then show ?thesis using next_index_pushed [of j e] small by (simp add: first_index_def ni_def word_less_nat_alt)
    next
      case False then show ?thesis using count ni by (auto simp: first_index_def)
    qed
    have "logged (pushed e j) = map (\<lambda>i. (aj_records j)[ni := ?r] ! (i mod 64)) [0..<ni + 1]"
      unfolding logged_def count recs first audit_capacity_def by simp
    also have "\<dots> = logged j @ [?r]"
      using ni len small False by (auto simp: logged_def first_index_def audit_capacity_def)
    finally show ?thesis using small ni by (simp add: keep_last_def length_logged)
  qed
qed

lemma pushed_wf:
  assumes wf: "journal_wf j" and good: "header_good (aj_header j)" and ok: "event_ok e"
  shows "journal_wf (pushed e j)"
proof -
  let ?i = "unat (ah_next_index (aj_header j))"
  have "aj_records j ! ?i \<in> set (aj_records j)"
    using wf good by (simp add: journal_wf_def audit_capacity_def header_good_def word_less_nat_alt)
  then have "length (ar_record_hash (aj_records j ! ?i)) = 32" using wf by (simp add: journal_wf_def record_wf_def)
  moreover have "\<forall>r\<in>set ((aj_records j)[?i := event_record n p e]). record_wf r" for n p
    using wf event_record_wf(1) [OF ok] set_update_subset_insert [of "aj_records j" ?i] by (fastforce simp: journal_wf_def)
  ultimately show ?thesis
    using wf event_record_wf(1) [OF ok] by (simp add: journal_wf_def pushed_def Let_def record_wf_def [of "event_record _ _ _"])
qed

lemma pushed_header_good:
  assumes "header_good (aj_header j)" and "ah_next_sequence (aj_header j) \<noteq> 0xFFFFFFFF"
  shows "header_good (aj_header (pushed e j))"
proof -
  let ?h = "aj_header j" and ?g = "aj_header (pushed e j)"
  have ni: "unat (ah_next_index ?h) < 64" and c: "unat (ah_count ?h) \<le> 64" and less: "unat (ah_count ?h) < unat (ah_next_sequence ?h)"
    using assms(1) by (auto simp: header_good_def word_less_nat_alt word_le_nat_alt)
  have "unat (ah_next_sequence ?h) \<noteq> unat (0xFFFFFFFF :: u32)" using assms(2) unsigned_word_eqI by metis
  then have top: "unat (ah_next_sequence ?h) + 1 < 2 ^ 32" using unat_less_exp [of "ah_next_sequence ?h"] by simp
  have seq: "unat (ah_next_sequence ?g) = unat (ah_next_sequence ?h) + 1"
    using top by (simp add: pushed_def Let_def unat_add_nowrap)
  have count: "unat (ah_count ?g) = (if unat (ah_count ?h) < 64 then unat (ah_count ?h) + 1 else 64)"
    using c by (simp add: pushed_def Let_def unat_add_nowrap word_less_nat_alt)
  have index: "unat (ah_next_index ?g) = (unat (ah_next_index ?h) + 1) mod 64"
    using next_index_pushed ni by (simp add: word_less_nat_alt)
  have bounds: "ah_count ?g \<le> 64" "ah_next_index ?g < 64" "ah_count ?g < ah_next_sequence ?g" "ah_count ?g \<noteq> 0"
    using seq count index c less by (auto simp: word_less_nat_alt word_le_nat_alt split: if_splits)
  have young: "ah_next_index ?g = ah_count ?g \<and> all_zero (ah_anchor_hash ?g)" if "ah_count ?g < 64"
  proof -
    have small: "unat (ah_count ?h) < 63" using that count by (simp add: word_less_nat_alt split: if_splits)
    then have "ah_count ?h < 64" by (simp add: word_less_nat_alt)
    then have "ah_next_index ?h = ah_count ?h" "all_zero (ah_anchor_hash ?h)" "ah_anchor_hash ?g = ah_anchor_hash ?h"
      using assms(1) by (auto simp: header_good_def pushed_def Let_def)
    moreover from this have "unat (ah_next_index ?g) = unat (ah_count ?g)" using small count index by simp
    ultimately show ?thesis using unsigned_word_eqI by simp
  qed
  have "ah_magic ?g = ah_magic ?h" "ah_schema ?g = ah_schema ?h" "ah_header_size ?g = ah_header_size ?h"
    "ah_record_size ?g = ah_record_size ?h" "ah_capacity ?g = ah_capacity ?h" "ah_reserved ?g = ah_reserved ?h"
    by (simp_all add: pushed_def Let_def)
  then show ?thesis using assms(1) bounds young unfolding header_good_def by simp
qed

lemma chained_append:
  "chained previous sequence (rs @ [r]) head \<longleftrightarrow>
     (\<exists>m. chained previous sequence rs m \<and> record_valid r \<and> ar_sequence r = sequence + word_of_nat (length rs) \<and>
          ar_record_hash r = sha256_spec (audit_message r m) \<and> head = ar_record_hash r)"
  by (induction rs arbitrary: previous sequence) (auto simp: add.assoc)

lemma pushed_verifies:
  assumes wf: "journal_wf j" and ver: "audit_verify j" and ok: "event_ok e" and room: "ah_next_sequence (aj_header j) \<noteq> 0xFFFFFFFF"
  shows "audit_verify (pushed e j)"
proof -
  let ?h = "aj_header j" and ?g = "aj_header (pushed e j)"
  let ?r = "event_record (ah_next_sequence ?h) (ah_head_hash ?h) e"
  have good: "header_good ?h" and chain: "chained (ah_anchor_hash ?h) (ah_next_sequence ?h - ah_count ?h) (logged j) (ah_head_hash ?h)"
    using ver audit_verify_iff [OF wf] by simp_all
  have new: "chained p n (rs @ [?r]) (ar_record_hash ?r)"
    if "chained p n rs (ah_head_hash ?h)" "n + word_of_nat (length rs) = ah_next_sequence ?h" for p n rs
    using that event_record_valid [OF ok] event_record_hash [of "ah_next_sequence ?h" "ah_head_hash ?h" e]
    by (auto simp: chained_append) (auto simp: event_record_def unsealed_def)
  have head: "ah_head_hash ?g = ar_record_hash ?r" by (simp add: pushed_def Let_def)
  have "chained (ah_anchor_hash ?g) (ah_next_sequence ?g - ah_count ?g) (logged (pushed e j)) (ah_head_hash ?g)"
  proof (cases "ah_count ?h = 64")
    case True
    then obtain r0 rs where l: "logged j = r0 # rs" "length rs = 63"
      using length_logged [of j] by (cases "logged j") auto
    have "r0 = aj_records j ! unat (ah_next_index ?h)"
      using l(1) True good by (simp add: logged_def first_index_def audit_capacity_def header_good_def word_less_nat_alt upt_rec)
    then have "ah_anchor_hash ?g = ar_record_hash r0" "ah_next_sequence ?g - ah_count ?g = ah_next_sequence ?h - 64 + 1"
      using True by (simp_all add: pushed_def Let_def)
    moreover have "chained (ar_record_hash r0) (ah_next_sequence ?h - 64 + 1) rs (ah_head_hash ?h)"
      using chain unfolding l(1) chained.simps True by blast
    from new [OF this] have "chained (ar_record_hash r0) (ah_next_sequence ?h - 64 + 1) (rs @ [?r]) (ar_record_hash ?r)"
      using l(2) by simp
    moreover have "logged (pushed e j) = rs @ [?r]" using l by (simp add: logged_pushed [OF wf good] keep_last_def)
    ultimately show ?thesis by (simp only: head)
  next
    case False
    then have "ah_count ?h < 64" using good by (auto simp: header_good_def)
    then have "ah_anchor_hash ?g = ah_anchor_hash ?h" "ah_next_sequence ?g - ah_count ?g = ah_next_sequence ?h - ah_count ?h"
      "length (logged j) < 64"
      using False by (simp_all add: pushed_def Let_def length_logged word_less_nat_alt)
    then show ?thesis
      using new [OF chain] by (simp add: head logged_pushed [OF wf good] keep_last_def length_logged)
  qed
  then show ?thesis
    using audit_verify_iff [OF pushed_wf [OF wf good ok]] pushed_header_good [OF good room] by simp
qed

section \<open>A bounded log\<close>

text \<open>
  The interface of a log that keeps its last entries: an admissible event is recorded as long as numbers are
  left, and drops the oldest entry when the log is full.
\<close>

primrec record_all :: "('e \<Rightarrow> 'j \<Rightarrow> bool \<times> 'j) \<Rightarrow> 'e list \<Rightarrow> 'j \<Rightarrow> bool \<times> 'j" where
  "record_all push [] j = (True, j)"
| "record_all push (e # es) j = (let (recorded, j) = push e j in if \<not> recorded then (False, j) else record_all push es j)"

locale bounded_log =
  fixes push :: "'e \<Rightarrow> 'j \<Rightarrow> bool \<times> 'j" and entries :: "'j \<Rightarrow> 'r list" and good :: "'j \<Rightarrow> bool"
    and left :: "'j \<Rightarrow> nat" and admissible :: "'e \<Rightarrow> bool" and describes :: "'r \<Rightarrow> 'e \<Rightarrow> bool" and capacity :: nat
  assumes bounded: "good j \<Longrightarrow> length (entries j) \<le> capacity"
    and push_step: "good j \<Longrightarrow> admissible e \<Longrightarrow> 0 < left j \<Longrightarrow>
      \<exists>j' r. push e j = (True, j') \<and> good j' \<and> left j' = left j - 1 \<and> describes r e \<and>
             entries j' = keep_last capacity (entries j @ [r])"
begin

lemma history:
  "good j \<Longrightarrow> \<forall>e\<in>set es. admissible e \<Longrightarrow> length es \<le> left j \<Longrightarrow>
     \<exists>j' rs. record_all push es j = (True, j') \<and> good j' \<and> list_all2 describes rs es \<and>
             entries j' = keep_last capacity (entries j @ rs)"
proof (induction es arbitrary: j)
  case Nil
  then show ?case using bounded [of j] by (simp add: keep_last_def)
next
  case (Cons e es)
  then obtain j1 r where step: "push e j = (True, j1)" "good j1" "left j1 = left j - 1" "describes r e"
      "entries j1 = keep_last capacity (entries j @ [r])" using push_step [of j e] by auto
  with Cons obtain j' rs where rest: "record_all push es j1 = (True, j')" "good j'" "list_all2 describes rs es"
      "entries j' = keep_last capacity (entries j1 @ rs)" by fastforce
  have "keep_last capacity (keep_last capacity (entries j @ [r]) @ rs) = keep_last capacity (entries j @ r # rs)"
    by (simp add: keep_last_append)
  then show ?case using step rest by (intro exI [of _ j'] exI [of _ "r # rs"]) simp
qed

end

definition journal_good :: "audit_journal \<Rightarrow> bool" where
  "journal_good j \<longleftrightarrow> journal_wf j \<and> audit_verify j"

definition sequences_left :: "audit_journal \<Rightarrow> nat" where
  "sequences_left j = 0xFFFFFFFF - unat (ah_next_sequence (aj_header j))"

definition describes_event :: "audit_record \<Rightarrow> audit_event \<Rightarrow> bool" where
  "describes_event r e \<longleftrightarrow>
     ar_tick r = ev_tick e \<and> ar_action r = ev_action e \<and> ar_verdict r = ev_verdict e \<and>
     cstr (ar_path r) = ev_path e \<and> ar_digest r = ev_digest e"

lemma describes_event_record: "event_ok e \<Longrightarrow> describes_event (event_record sequence previous e) e"
  using cstr_terminated [of "ev_path e"]
  by (simp add: describes_event_def event_record_def unsealed_def event_ok_def path_ok_def path_zeros)

interpretation audit_log: bounded_log append_event logged journal_good sequences_left event_ok describes_event 64
proof
  show "length (logged j) \<le> 64" if "journal_good j" for j
    using that audit_verify_iff by (auto simp: journal_good_def length_logged header_good_def word_le_nat_alt)
  fix j e
  assume good: "journal_good j" and ok: "event_ok e" and left: "0 < sequences_left j"
  have wf: "journal_wf j" and ver: "audit_verify j" and head: "header_good (aj_header j)"
    using good audit_verify_iff by (auto simp: journal_good_def)
  have room: "unat (ah_next_sequence (aj_header j)) < 0xFFFFFFFF" using left by (simp add: sequences_left_def)
  then have "ah_next_sequence (aj_header j) \<noteq> 0xFFFFFFFF" by auto
  moreover have "sequences_left (pushed e j) = sequences_left j - 1"
    using room by (simp add: sequences_left_def pushed_def Let_def unat_add_nowrap)
  moreover have "append_event e j = (True, pushed e j)"
    using append_event_pushed [OF ok] calculation wf by (simp add: journal_wf_def)
  ultimately show "\<exists>j' r. append_event e j = (True, j') \<and> journal_good j' \<and> sequences_left j' = sequences_left j - 1 \<and>
      describes_event r e \<and> logged j' = keep_last 64 (logged j @ [r])"
    using pushed_verifies [OF wf ver ok] pushed_wf [OF wf head ok] logged_pushed [OF wf head]
      describes_event_record [OF ok] by (auto simp: journal_good_def)
qed

section \<open>Tampering shows\<close>

text \<open>The messages whose digests make up the chain.\<close>

primrec chain_messages :: "bytes \<Rightarrow> audit_record list \<Rightarrow> bytes list" where
  "chain_messages previous [] = []"
| "chain_messages previous (r # rs) = audit_message r previous # chain_messages (ar_record_hash r) rs"

lemma length_chain_messages [simp]: "length (chain_messages previous rs) = length rs"
  by (induction rs arbitrary: previous) simp_all

lemma record_valid_fields:
  "record_valid r \<Longrightarrow> record_valid r' \<Longrightarrow> record_wf r \<Longrightarrow> record_wf r' \<Longrightarrow> ar_record_hash r = ar_record_hash r' \<Longrightarrow>
   audit_message r p = audit_message r' p' \<Longrightarrow> length p = 32 \<Longrightarrow> length p' = 32 \<Longrightarrow> p = p' \<and> r = r'"
proof -
  assume v: "record_valid r" "record_valid r'" and wf: "record_wf r" "record_wf r'"
    and "ar_record_hash r = ar_record_hash r'" "audit_message r p = audit_message r' p'" "length p = 32" "length p' = 32"
  moreover have "ar_reserved r = ar_reserved r'"
    using v wf unfolding record_valid_def kernel_host_equal all_zero_iff record_wf_def by (metis replicate_eqI)
  ultimately show ?thesis using audit_message_inject [of r p r' p'] by simp
qed

lemma chained_unique:
  assumes "length rs = length rs'" "chained p n rs head" "chained p' n' rs' head" "length p = 32" "length p' = 32"
    and "\<forall>r\<in>set rs \<union> set rs'. record_wf r"
    and "\<forall>i<length rs. sha256_spec (chain_messages p rs ! i) = sha256_spec (chain_messages p' rs' ! i) \<longrightarrow>
           chain_messages p rs ! i = chain_messages p' rs' ! i"
  shows "p = p' \<and> rs = rs'"
  using assms
proof (induction rs rs' arbitrary: p p' n n' rule: list_induct2)
  case (Cons r rs r' rs')
  have wf: "record_wf r" "record_wf r'" "\<forall>r\<in>set rs \<union> set rs'. record_wf r" using Cons.prems(5) by auto
  have "ar_record_hash r = ar_record_hash r' \<and> rs = rs'"
  proof (rule Cons.IH)
    show "chained (ar_record_hash r) (n + 1) rs head" "chained (ar_record_hash r') (n' + 1) rs' head"
      using Cons.prems(1,2) unfolding chained.simps by blast+
    show "\<forall>i<length rs. sha256_spec (chain_messages (ar_record_hash r) rs ! i) = sha256_spec (chain_messages (ar_record_hash r') rs' ! i) \<longrightarrow>
        chain_messages (ar_record_hash r) rs ! i = chain_messages (ar_record_hash r') rs' ! i"
      using Cons.prems(6) by (metis chain_messages.simps(2) length_Cons not_less_eq nth_Cons_Suc)
  qed (use wf in \<open>simp_all add: record_wf_def\<close>)
  moreover have "audit_message r p = audit_message r' p'"
    using Cons.prems(1,2) Cons.prems(6) [rule_format, of 0] calculation by auto
  ultimately show ?case using record_valid_fields [of r r' p p'] wf Cons.prems(1-4) by auto
qed simp

lemma journal_tamper:
  assumes "journal_good j" "journal_good j'"
    and "ah_head_hash (aj_header j) = ah_head_hash (aj_header j')" "ah_count (aj_header j) = ah_count (aj_header j')"
    and "\<not> (\<exists>i<length (logged j). let m = chain_messages (ah_anchor_hash (aj_header j)) (logged j) ! i;
                m' = chain_messages (ah_anchor_hash (aj_header j')) (logged j') ! i
           in m \<noteq> m' \<and> sha256_spec m = sha256_spec m')"
  shows "ah_anchor_hash (aj_header j) = ah_anchor_hash (aj_header j') \<and> logged j = logged j'"
proof (rule chained_unique)
  have wf: "journal_wf j" "journal_wf j'" using assms(1,2) by (simp_all add: journal_good_def)
  show "chained (ah_anchor_hash (aj_header j)) (ah_next_sequence (aj_header j) - ah_count (aj_header j)) (logged j) (ah_head_hash (aj_header j))"
    "chained (ah_anchor_hash (aj_header j')) (ah_next_sequence (aj_header j') - ah_count (aj_header j')) (logged j') (ah_head_hash (aj_header j))"
    using assms(1-3) audit_verify_iff wf by (auto simp: journal_good_def)
  show "\<forall>r\<in>set (logged j) \<union> set (logged j'). record_wf r" using logged_wf wf by auto
  show "length (logged j) = length (logged j')" by (simp add: length_logged assms(4))
  show "length (ah_anchor_hash (aj_header j)) = 32" "length (ah_anchor_hash (aj_header j')) = 32"
    using wf by (simp_all add: journal_wf_def)
qed (use assms(5) in \<open>auto simp: Let_def\<close>)

end
