(* ===== verification/Audit_System.thy ===== *)
theory Audit_System
  imports Security_Audit ZenovFS_Device
begin

text \<open>
  The audit journal over the file system: an append that reports success survives a reboot, an append that
  does not is undone in memory and leaves the stored journal old or new, and a journal that replays after the
  reboot is one of the two. With it, the claims on the journal itself: the log it keeps, and the evidence
  that tampering leaves.
\<close>

section \<open>Storing the journal\<close>

lemma journal_name: "normalize_path cwd (Some journal_path) = Some journal_path"
proof -
  have "normalize_path cwd (Some journal_path) = normalize_path ''/'' (Some journal_path)"
    by (simp add: normalize_path_def combine_path_def journal_path_def starts_with_def path_append_def)
  also have "\<dots> = Some journal_path" by code_simp
  finally show ?thesis .
qed

lemma journal_path_clean: "CHR 0x00 \<notin> set journal_path" "journal_path \<noteq> ''/''" "\<not> starts_with journal_path ''/data''"
  by (simp_all add: journal_path_def starts_with_def)

lemma journal_bytes_word: "unat (word_of_nat audit_journal_bytes :: u32) = audit_journal_bytes"
  by (simp add: audit_journal_bytes_def)

text \<open>What an append leaves in memory: the new journal, or the old one with the journal closed.\<close>

lemma audit_append_cases:
  assumes call: "audit_append tick action verdict path digest a st = (ok, out, a1, st1)" and ready: "au_ready a"
    and index: "unat (ah_next_index (aj_header (au_journal a))) < length (aj_records (au_journal a))"
  obtains (stored) j r where "ok" "append_to tick action verdict path digest (au_journal a) = (True, j)"
      "write_file_result (Some journal_path) (DataBytes (encode_journal j)) (word_of_nat audit_journal_bytes) False st = (r, st1)"
      "fs_ok r" "au_journal a1 = j" "au_ready a1"
    | (refused) j r where "\<not> ok" "append_to tick action verdict path digest (au_journal a) = (True, j)"
      "write_file_result (Some journal_path) (DataBytes (encode_journal j)) (word_of_nat audit_journal_bytes) False st = (r, st1)"
      "\<not> fs_ok r" "au_journal a1 = au_journal a" "\<not> au_ready a1"
    | (invalid) j where "\<not> ok" "append_to tick action verdict path digest (au_journal a) = (False, j)" "st1 = st"
      "au_journal a1 = au_journal a" "\<not> au_ready a1"
proof -
  obtain appended j where app: "append_to tick action verdict path digest (au_journal a) = (appended, j)" by fastforce
  obtain r st2 where w: "write_file_result (Some journal_path) (DataBytes (encode_journal j)) (word_of_nat audit_journal_bytes) False st = (r, st2)"
    by fastforce
  let ?i = "unat (ah_next_index (aj_header (au_journal a)))"
  have "\<exists>r0. aj_records j = (aj_records (au_journal a))[?i := r0]"
  proof -
    have "\<exists>r0. aj_records (au_journal a) = (aj_records (au_journal a))[?i := r0]" by (metis list_update_id)
    then show ?thesis using app by (auto simp: append_to_def Let_def split: if_splits option.splits)
  qed
  then have undone: "\<lparr>aj_header = aj_header (au_journal a), aj_records = (aj_records j)[?i := aj_records (au_journal a) ! ?i]\<rparr> = au_journal a"
    by auto
  show ?thesis
  proof (cases "appended \<and> fs_ok r")
    case True
    then show ?thesis using call ready app w by (intro stored [of j r]) (auto simp: audit_append_def Let_def)
  next
    case False
    then show ?thesis
    proof (cases appended)
      case True
      then show ?thesis using False call ready app w undone by (intro refused [of j r]) (auto simp: audit_append_def Let_def)
    next
      case False
      then show ?thesis using call ready app undone by (intro invalid [of j]) (auto simp: audit_append_def Let_def)
    qed
  qed
qed

section \<open>Replaying the journal\<close>

text \<open>What \<open>init\<close> has found when it reports success on a file system that holds a journal.\<close>

lemma audit_init_reads:
  assumes dev: "zenovfs_device rd wr dinv dabs" and sok: "driver_installed rd wr dinv dabs (zf_storage st)"
    and shape: "zfs_shape (contents dabs st) st" and wf: "journal_wf (au_journal a)"
    and held: "current_view (contents dabs st) st journal_path = Some (File data)"
    and call: "audit_init a st = (True, out, a', st')"
  shows "length data = audit_journal_bytes" "au_journal a' = decode_journal data" "au_ready a'"
    "audit_verify (decode_journal data)"
proof -
  note inst = zenovfs_device.storage_installed [OF dev]
  obtain i where i: "find_entry (zf_super st) (zf_entries st) journal_path = Some i"
    "data = file_data (zf_super st) (contents dabs st) i (zf_entries st ! i)"
    using held by (auto simp: current_view_def view_def split: option.splits if_splits)
  let ?buffer = "encode_journal (au_journal a)"
  obtain r n raw st2 where rd: "read_file_result (Some journal_path) (Some ?buffer) (word_of_nat audit_journal_bytes) st = (r, n, raw, st2)"
    by (metis prod_cases4)
  have ok: "fs_ok r" "n = word_of_nat audit_journal_bytes" "audit_verify (decode_journal (the raw))"
    "au_journal a' = decode_journal (the raw)" "au_ready a'"
    using call i(1) rd by (auto simp: audit_init_def Let_def split: if_splits)
  have len: "length ?buffer = audit_journal_bytes" by (rule length_encode_journal [OF wf])
  have zok: "zenovfs_device.zok rd wr dinv dabs st"
    using sok shape by (simp add: zenovfs_device.zok_def [OF dev] inst)
  have "unat (word_of_nat audit_journal_bytes :: u32) \<le> length ?buffer" by (simp only: len journal_bytes_word order_refl)
  from zenovfs_device.read_file_spec(6) [OF dev zok this rd ok(1)]
  have "raw = Some (data @ drop (unat n) ?buffer)" "length data = unat n"
    using i by (auto simp: inst journal_name)
  then show "length data = audit_journal_bytes" "au_journal a' = decode_journal data" "au_ready a'"
    "audit_verify (decode_journal data)"
    using ok len by (simp_all add: journal_bytes_word)
qed

lemma append_event_good:
  assumes "journal_good j" and "event_ok e" and "append_event e j = (True, j')"
  shows "journal_good j'"
proof -
  have "ah_next_sequence (aj_header j) \<noteq> 0xFFFFFFFF"
    using assms(3) by (auto simp: append_event_def append_to_def Let_def)
  then have "unat (ah_next_sequence (aj_header j)) \<noteq> unat (0xFFFFFFFF :: u32)" using unsigned_word_eqI by metis
  then have "0 < sequences_left j"
    using unat_less_exp [of "ah_next_sequence (aj_header j)"] by (simp add: sequences_left_def)
  then show ?thesis using audit_log.push_step [OF assms(1,2)] assms(3) by auto
qed

section \<open>The self test\<close>

lemma empty_good: "journal_good initialize_empty"
proof -
  have "journal_wf initialize_empty"
    by (simp add: journal_wf_def initialize_empty_def record_wf_def zero_record_def)
  then show ?thesis
    by (simp add: journal_good_def audit_verify_iff)
      (simp add: initialize_empty_def header_good_def all_zero_iff logged_def)
qed

text \<open>
  The self test appends two records, checks that the journal verifies, and checks that a flipped bit in the
  path of the first record, and one in the head hash, make the verification fail. All of this holds, but for
  the first flip, which is noticed unless the two messages collide.
\<close>

definition test_event :: "u32 \<Rightarrow> u8 \<Rightarrow> u8 \<Rightarrow> string \<Rightarrow> byte \<Rightarrow> audit_event" where
  "test_event tick action verdict path b =
     \<lparr>ev_tick = tick, ev_action = action, ev_verdict = verdict, ev_path = path, ev_digest = b # replicate 31 0\<rparr>"

definition test_first :: audit_record where
  "test_first = event_record 1 (replicate 32 0) (test_event 1 0 1 ''<audit-selftest-1>'' 0x11)"

definition test_flipped :: audit_record where
  "test_flipped = test_first\<lparr>ar_path := (ar_path test_first)[1 := ar_path test_first ! 1 XOR 1]\<rparr>"

lemma chained_end: "chained p n rs q \<Longrightarrow> chained p n rs q' \<longleftrightarrow> q' = q"
  by (induction rs arbitrary: p n) auto

lemma flip_head_noticed:
  assumes wf: "journal_wf j"
    and chain: "chained (ah_anchor_hash (aj_header j)) (ah_next_sequence (aj_header j) - ah_count (aj_header j)) (logged j) (ah_head_hash (aj_header j))"
  shows "\<not> audit_verify (flip_head j)"
proof
  let ?q = "ah_head_hash (aj_header j)"
  let ?q' = "?q[0 := ?q ! 0 XOR 1]"
  assume "audit_verify (flip_head j)"
  moreover have "journal_wf (flip_head j)" using wf by (simp add: journal_wf_def flip_head_def Let_def)
  moreover have "logged (flip_head j) = logged j" by (simp add: logged_def first_index_def flip_head_def Let_def)
  ultimately have "chained (ah_anchor_hash (aj_header j)) (ah_next_sequence (aj_header j) - ah_count (aj_header j)) (logged j) ?q'"
    by (simp add: audit_verify_iff) (simp add: flip_head_def Let_def)
  then have "?q' ! 0 = ?q ! 0" using chained_end [OF chain] by simp
  moreover have "?q ! 0 XOR 1 \<noteq> ?q ! 0"
  proof
    assume "?q ! 0 XOR 1 = ?q ! 0"
    then have "bit (?q ! 0 XOR 1) 0 = bit (?q ! 0) 0" by simp
    then show False by (simp add: bit_xor_iff)
  qed
  ultimately show False using wf by (simp add: journal_wf_def)
qed

lemma test_flipped_valid: "record_wf test_flipped" "record_valid test_flipped"
proof -
  let ?e = "test_event 1 0 1 ''<audit-selftest-1>'' 0x11"
  have ev: "event_ok ?e" by (simp add: event_ok_def test_event_def path_ok_def)
  have "ar_path_length test_first = 18" by (simp add: test_first_def event_record_def unsealed_def test_event_def)
  then show "record_valid test_flipped"
    using event_record_valid [OF ev, of 1 "replicate 32 0"]
    by (auto simp: record_valid_def test_flipped_def nth_list_update simp flip: test_first_def)
  show "record_wf test_flipped"
    using event_record_wf(1) [OF ev, of 1 "replicate 32 0"] by (simp add: record_wf_def test_flipped_def flip: test_first_def)
qed

lemma audit_self_test_iff:
  "audit_self_test \<longleftrightarrow> sha256_spec (audit_message test_first (replicate 32 0)) \<noteq> sha256_spec (audit_message test_flipped (replicate 32 0))"
proof -
  let ?e1 = "test_event 1 0 1 ''<audit-selftest-1>'' 0x11" and ?e2 = "test_event 2 1 0 ''<audit-selftest-2>'' 0x22"
  define j1 where "j1 = pushed ?e1 initialize_empty"
  define j2 where "j2 = pushed ?e2 j1"
  have ev: "event_ok ?e1" "event_ok ?e2" by (simp_all add: event_ok_def test_event_def path_ok_def)
  have ap1: "append_event ?e1 initialize_empty = (True, j1)"
    unfolding j1_def by (rule append_event_pushed [OF ev(1)]) (simp_all add: initialize_empty_def)
  note g1 = append_event_good [OF empty_good ev(1) ap1]
  have seq1: "ah_next_sequence (aj_header j1) = 2" by (simp add: j1_def pushed_def Let_def initialize_empty_def)
  have ap2: "append_event ?e2 j1 = (True, j2)"
    unfolding j2_def by (rule append_event_pushed [OF ev(2)]) (use g1 seq1 in \<open>simp_all add: journal_good_def journal_wf_def\<close>)
  note g2 = append_event_good [OF g1 ev(2) ap2]
  have run: "audit_self_test \<longleftrightarrow> \<not> audit_verify (flip_path 0 1 j2) \<and> \<not> audit_verify (flip_head j2)"
    using ap1 ap2 g2 by (simp add: audit_self_test_def append_event_def test_event_def journal_good_def)
  have wf: "journal_wf j2" and good: "header_good (aj_header j2)"
    and chain: "chained (ah_anchor_hash (aj_header j2)) (ah_next_sequence (aj_header j2) - ah_count (aj_header j2)) (logged j2) (ah_head_hash (aj_header j2))"
    using g2 audit_verify_iff by (auto simp: journal_good_def)
  have h: "ah_count (aj_header j2) = 2" "ah_anchor_hash (aj_header j2) = replicate 32 0" "ah_next_sequence (aj_header j2) = 3"
    by (simp_all add: j2_def j1_def pushed_def Let_def initialize_empty_def)
  define r2 where "r2 = aj_records j2 ! 1"
  have first: "aj_records j2 ! 0 = test_first"
    by (simp add: j2_def j1_def pushed_def Let_def initialize_empty_def audit_capacity_def test_first_def)
  have pair: "logged j = [aj_records j ! 0, aj_records j ! 1]" if "ah_count (aj_header j) = 2" for j
    using that by (simp add: logged_def first_index_def audit_capacity_def upt_rec)
  have "\<not> audit_verify (flip_head j2)" by (rule flip_head_noticed [OF wf chain])
  moreover have "audit_verify (flip_path 0 1 j2) \<longleftrightarrow>
      sha256_spec (audit_message test_first (replicate 32 0)) = sha256_spec (audit_message test_flipped (replicate 32 0))"
  proof -
    define flipped where "flipped = flip_path 0 1 j2"
    have f: "aj_header flipped = aj_header j2" "aj_records flipped = (aj_records j2)[0 := test_flipped]"
      by (simp_all add: flipped_def flip_path_def first test_flipped_def)
    have fwf: "record_wf test_flipped" "record_valid test_flipped" using test_flipped_valid by simp_all
    have "set ((aj_records j2)[0 := test_flipped]) \<subseteq> insert test_flipped (set (aj_records j2))" by (rule set_update_subset_insert)
    then have "journal_wf flipped" using wf fwf(1) unfolding journal_wf_def f by auto
    moreover have "logged flipped = [test_flipped, r2]" "logged j2 = [test_first, r2]"
      using pair [of flipped] pair [of j2] h(1) wf by (simp_all add: f first r2_def journal_wf_def audit_capacity_def)
    moreover have "ar_sequence test_flipped = ar_sequence test_first" "ar_record_hash test_flipped = ar_record_hash test_first"
      by (simp_all add: test_flipped_def)
    ultimately show ?thesis
      using chain good fwf(2) h(2) unfolding flipped_def [symmetric] by (auto simp: audit_verify_iff f)
  qed
  ultimately show ?thesis using run by blast
qed

section \<open>Properties\<close>

text \<open>
  C10: The audit journal is a log of the last 64 events. From a valid journal, a sequence of admissible
  events is recorded completely as long as sequence numbers are left; the journal stays valid, and its live
  records are the last 64 of the old ones followed by one record for each event, in order.
\<close>

theorem audit_journal_keeps_log:
  assumes "journal_wf j" and "audit_verify j" and "\<forall>e\<in>set es. event_ok e"
    and "unat (ah_next_sequence (aj_header j)) + length es \<le> 0xFFFFFFFF"
  shows "\<exists>j' rs. record_all append_event es j = (True, j') \<and> journal_wf j' \<and> audit_verify j' \<and>
           list_all2 describes_event rs es \<and> logged j' = keep_last 64 (logged j @ rs)"
  using audit_log.history [of j es] assms by (auto simp: journal_good_def sequences_left_def)

definition demo_event :: audit_event where
  "demo_event = \<lparr>ev_tick = 7, ev_action = 2, ev_verdict = 2, ev_path = ''/apps/x'', ev_digest = replicate 32 0\<rparr>"

lemma demo_event_ok: "event_ok demo_event"
  by (simp add: event_ok_def demo_event_def path_ok_def)

theorem audit_journal_keeps_log_witness:
  "\<exists>j' rs. record_all append_event [demo_event, demo_event] initialize_empty = (True, j') \<and> audit_verify j' \<and>
     logged j' = rs \<and> list_all2 describes_event rs [demo_event, demo_event]"
proof -
  have "unat (ah_next_sequence (aj_header initialize_empty)) + length [demo_event, demo_event] \<le> 0xFFFFFFFF"
    by (simp add: initialize_empty_def)
  with audit_journal_keeps_log [of initialize_empty "[demo_event, demo_event]"] empty_good demo_event_ok
  obtain j' rs where log: "record_all append_event [demo_event, demo_event] initialize_empty = (True, j')" "audit_verify j'"
      "list_all2 describes_event rs [demo_event, demo_event]" "logged j' = keep_last 64 (logged initialize_empty @ rs)"
    unfolding journal_good_def by (metis empty_iff empty_set insert_iff list.simps(15))
  moreover have "logged initialize_empty = []" by (simp add: logged_def initialize_empty_def)
  moreover have "length rs = 2" using log(3) list_all2_lengthD by fastforce
  ultimately show ?thesis by (simp add: keep_last_def)
qed

text \<open>
  C11: Tampering with the journal shows. Two valid journals with the same number of records and the same
  head hash have the same records, byte for byte, or there is a record at which the two hashed messages
  differ and have the same SHA-256 digest: whoever changes the history without changing the head hash has
  found a collision.
\<close>

theorem audit_tamper_evident:
  assumes "journal_wf j" "audit_verify j" and "journal_wf j'" "audit_verify j'"
    and "ah_head_hash (aj_header j) = ah_head_hash (aj_header j')" and "ah_count (aj_header j) = ah_count (aj_header j')"
  shows "logged j = logged j' \<or>
         (\<exists>i<length (logged j).
            chain_messages (ah_anchor_hash (aj_header j)) (logged j) ! i \<noteq>
              chain_messages (ah_anchor_hash (aj_header j')) (logged j') ! i \<and>
            sha256_spec (chain_messages (ah_anchor_hash (aj_header j)) (logged j) ! i) =
              sha256_spec (chain_messages (ah_anchor_hash (aj_header j')) (logged j') ! i))"
  using journal_tamper [of j j'] assms by (auto simp: journal_good_def Let_def)

text \<open>
  Arguments of \<open>append\<close> as the caller's types have them: an action and a verdict of their enumerations, a
  C string and 32 bytes; each pointer may be null.
\<close>

definition append_typed :: "u8 \<Rightarrow> u8 \<Rightarrow> string option \<Rightarrow> bytes option \<Rightarrow> bool" where
  "append_typed action verdict path digest \<longleftrightarrow> action \<le> 9 \<and> verdict \<le> 5 \<and>
    (\<forall>p\<in>set_option path. CHR 0x00 \<notin> set p) \<and> (\<forall>d\<in>set_option digest. length d = 32)"

lemma append_to_good:
  assumes good: "journal_good j" and typed: "append_typed action verdict path digest"
    and app: "append_to tick action verdict path digest j = (True, j')"
  shows "journal_good j'"
proof -
  obtain p d where pd: "path = Some p" "digest = Some d" "p \<noteq> []" "path_copy (replicate 48 0) p 48 \<noteq> None"
    using app by (auto simp: append_to_def Let_def zero_record_def split: if_splits option.splits)
  define e where "e = \<lparr>ev_tick = tick, ev_action = action, ev_verdict = verdict, ev_path = p, ev_digest = d\<rparr>"
  have "event_ok e" using typed pd by (auto simp: event_ok_def e_def append_typed_def path_ok_def path_copy_def split: if_splits)
  moreover have "append_event e j = (True, j')" using app pd by (simp add: append_event_def e_def)
  ultimately show ?thesis using append_event_good [OF good] by blast
qed

text \<open>On a device whose reads succeed, \<open>init\<close> opens a valid journal exactly when its self test passes.\<close>

lemma audit_init_replays:
  assumes dev: "reliable_device rd wr dinv dabs" and sok: "driver_installed rd wr dinv dabs (zf_storage st)"
    and shape: "zfs_shape (contents dabs st) st" and mounted: "zf_mounted st" and intact: "files_intact (contents dabs st) st"
    and wf: "journal_wf (au_journal a)" and good: "journal_good k"
    and held: "current_view (contents dabs st) st journal_path = Some (File (encode_journal k))"
    and call: "audit_init a st = (replayed, out, a', st')"
  shows "replayed = audit_self_test" "replayed \<Longrightarrow> au_journal a' = k \<and> au_ready a'"
proof -
  note fsd = reliable_device.axioms(1) [OF dev]
  note inst = zenovfs_device.storage_installed [OF fsd]
  have k: "journal_wf k" "audit_verify k" using good by (simp_all add: journal_good_def)
  let ?buffer = "encode_journal (au_journal a)" and ?n = "word_of_nat audit_journal_bytes :: u32"
  have len: "length ?buffer = audit_journal_bytes" "length (encode_journal k) = audit_journal_bytes"
    by (rule length_encode_journal, fact)+
  have zok: "zenovfs_device.zok rd wr dinv dabs st" using sok shape by (simp add: zenovfs_device.zok_def [OF fsd] inst)
  obtain i where i: "find_entry (zf_super st) (zf_entries st) journal_path = Some i"
    using held by (auto simp: current_view_def view_def split: option.splits)
  obtain r n raw st2 where rd: "read_file_result (Some journal_path) (Some ?buffer) ?n st = (r, n, raw, st2)"
    by (metis prod_cases4)
  have "length (encode_journal k) \<le> unat ?n" "unat ?n \<le> length ?buffer"
    unfolding len journal_bytes_word by simp_all
  from reliable_device.read_file_total [OF dev zok _ mounted journal_name _ this rd] intact held
  have res: "r = fs_success FopRead ?n" "n = ?n" "raw = Some (encode_journal k)"
    by (simp_all add: inst len)
  have ok: "fs_ok r" by (simp add: res(1) fs_ok_def fs_success_def mk_fs_result_def)
  show "replayed = audit_self_test" "replayed \<Longrightarrow> au_journal a' = k \<and> au_ready a'"
    using call i rd res ok k decode_encode_journal [OF k(1)] by (auto simp: audit_init_def Let_def split: if_splits)
qed

text \<open>A mount of what a file system at rest left on the disk.\<close>

lemma append_refused_reboot:
  assumes dev: "zenovfs_device rd wr dinv dabs" and sok: "driver_installed rd wr dinv dabs (zf_storage st)"
    and con: "fs_consistent (contents dabs st) st"
    and reboot: "zf_storage st2 = zf_storage st" "super_wf (zf_super st2)" "length (zf_sector_buffer st2) = 512"
    and mnt: "mount_result allocate st2 = (m, st3)" "fs_ok m"
  shows "current_view (contents dabs st3) st3 = current_view (contents dabs st) st"
    "files_intact (contents dabs st) st \<longrightarrow> files_intact (contents dabs st3) st3"
    "zenovfs_device.zok rd wr dinv dabs st3" "zf_mounted st3"
proof -
  note inst = zenovfs_device.storage_installed [OF dev]
  have ok2: "sector_driver.storage_ok rd wr dinv dabs (zf_storage st2)" using sok reboot(1) by (simp add: inst)
  have d: "contents dabs st2 = contents dabs st" using reboot(1) by (simp add: contents_def)
  have s: "decode_super (contents dabs st ! 0) = zf_super st" using con by (simp add: fs_consistent_def)
  note m = zenovfs_device.reboot_mount [OF dev ok2 reboot(2,3) mnt, unfolded inst d s]
  show "current_view (contents dabs st3) st3 = current_view (contents dabs st) st"
    "files_intact (contents dabs st) st \<longrightarrow> files_intact (contents dabs st3) st3"
    using m consistent_recovered [OF con] by simp_all
  show "zenovfs_device.zok rd wr dinv dabs st3" "zf_mounted st3"
    using zenovfs_device.mount_spec(1,3) [OF dev ok2 reboot(2,3) mnt] by simp_all
qed

lemma append_reboot_view:
  assumes dev: "zenovfs_device rd wr dinv dabs" and sok: "driver_installed rd wr dinv dabs (zf_storage st)"
    and con: "fs_consistent (contents dabs st) st" and ready: "au_ready a"
    and index: "unat (ah_next_index (aj_header (au_journal a))) < length (aj_records (au_journal a))"
    and app: "append_to tick action verdict path digest (au_journal a) = (appended, j)"
    and jg: "appended \<Longrightarrow> journal_good j"
    and call: "audit_append tick action verdict path digest a st = (ok, out, a1, st1)"
    and reboot: "zf_storage st2 = zf_storage st1" "super_wf (zf_super st2)" "length (zf_sector_buffer st2) = 512"
    and mnt: "mount_result allocate st2 = (m, st3)" "fs_ok m"
  defines "V \<equiv> current_view (contents dabs st) st" and "V' \<equiv> current_view (contents dabs st3) st3"
  shows "(V' = V \<or> appended \<and> V' = V(journal_path \<mapsto> File (encode_journal j))) \<and>
    (ok \<longrightarrow> V' = V(journal_path \<mapsto> File (encode_journal j))) \<and>
    (files_intact (contents dabs st) st \<longrightarrow> files_intact (contents dabs st3) st3) \<and>
    zenovfs_device.zok rd wr dinv dabs st3 \<and> zf_mounted st3"
proof (cases appended)
  case False
  then have st1: "st1 = st" "\<not> ok" using app by (cases rule: audit_append_cases [OF call ready index], simp_all)+
  show ?thesis using append_refused_reboot [OF dev sok con _ reboot(2,3) mnt] st1 reboot(1) by (simp add: V_def V'_def)
next
  case True
  obtain r where w: "write_file_result (Some journal_path) (DataBytes (encode_journal j)) (word_of_nat audit_journal_bytes) False st = (r, st1)"
      "ok = fs_ok r"
    using app True by (cases rule: audit_append_cases [OF call ready index]) auto
  have jw: "journal_wf j" using jg [OF True] by (simp add: journal_good_def)
  have bytes: "take (unat (word_of_nat audit_journal_bytes :: u32)) (encode_journal j) = encode_journal j"
    "unat (word_of_nat audit_journal_bytes :: u32) \<le> length (encode_journal j)"
    by (simp_all only: journal_bytes_word length_encode_journal [OF jw] take_all order_refl)
  note inst = zenovfs_device.storage_installed [OF dev]
  note wr = zenovfs_device.write_reboot_mount [OF dev _ _ journal_name journal_path_clean(1) bytes(2) w(1) reboot mnt,
      unfolded inst bytes(1) outcome_overwrite]
  show ?thesis using wr sok con w(2) True by (auto simp: V_def V'_def)
qed


section \<open>Witnesses\<close>

definition one_event :: audit_journal where
  "one_event = pushed demo_event initialize_empty"

lemma one_event_good: "journal_good one_event" "append_event demo_event initialize_empty = (True, one_event)"
proof -
  show app: "append_event demo_event initialize_empty = (True, one_event)"
    unfolding one_event_def
    by (rule append_event_pushed [OF demo_event_ok]) (simp_all add: initialize_empty_def)
  show "journal_good one_event" by (rule append_event_good [OF empty_good demo_event_ok app])
qed

theorem audit_tamper_evident_witness:
  "audit_verify one_event \<and>
   (logged one_event = logged one_event \<or>
    (\<exists>i<length (logged one_event).
       chain_messages (ah_anchor_hash (aj_header one_event)) (logged one_event) ! i \<noteq>
         chain_messages (ah_anchor_hash (aj_header one_event)) (logged one_event) ! i \<and>
       sha256_spec (chain_messages (ah_anchor_hash (aj_header one_event)) (logged one_event) ! i) =
         sha256_spec (chain_messages (ah_anchor_hash (aj_header one_event)) (logged one_event) ! i)))"
  using audit_tamper_evident [of one_event one_event] one_event_good(1) unfolding journal_good_def by blast

text \<open>A RAM disk with room for a journal and the directory \<open>/security\<close>.\<close>

definition audit_super :: zfs_superblock where
  "audit_super = demo_super\<lparr>zs_total_sectors := 36, zs_slot_sectors := 17\<rparr>"

definition security_entry :: zfs_entry where
  "security_entry = empty_entry\<lparr>ze_used := 1, ze_type := 2, ze_path := blit 0 (bytes_of_string ''/security'') (replicate 48 0)\<rparr>"

definition audit_disk :: "bytes list" where
  "audit_disk = encode_super audit_super # (encode_entry security_entry @ replicate 448 0) # replicate 34 (replicate 512 0)"

definition audit_fs :: "bytes list zfs" where
  "audit_fs = demo_fs\<lparr>zf_storage := (zf_storage demo_fs)\<lparr>ata0 := (ata0 (zf_storage demo_fs))\<lparr>bd_sectors := 36\<rparr>,
       driver_state := audit_disk\<rparr>,
     zf_super := audit_super, zf_entries := security_entry # replicate 127 empty_entry,
     zf_file_buffer := Some (replicate 8704 0)\<rparr>"

definition audit_demo :: audit_state where
  "audit_demo = \<lparr>au_journal = initialize_empty, au_ready = True, au_replayed = False, au_appends = 0\<rparr>"

lemma audit_super_fields: "super_wf audit_super" "geometry audit_super 36" "entry_total audit_super = 2"
  by (simp_all add: audit_super_def super_wf_def demo_super_def zfs_magic_def geometry_def entry_total_def slots_def
      data_base_def zfs_max_entries_def)

lemma security_entry_fields: "entry_wf security_entry" "cstr (ze_path security_entry) = ''/security''" "entry_visible security_entry"
  "ze_type security_entry = zfs_type_directory"
proof -
  have "ze_path security_entry = bytes_of_string ''/security'' @ 0 # replicate 38 0"
    by (simp add: security_entry_def blit_def flip: replicate_Suc)
  then show "cstr (ze_path security_entry) = ''/security''" "entry_wf security_entry"
    by (simp_all add: cstr_terminated) (simp add: entry_wf_def)
qed (simp_all add: security_entry_def entry_visible_def zfs_type_directory_def zfs_type_transaction_def)

lemma audit_disk_wf: "sectors_wf audit_disk" "length audit_disk = 36"
  using audit_super_fields(1) security_entry_fields(1)
  by (auto simp: sectors_wf_def audit_disk_def nth_Cons split: nat.splits)

lemma audit_installed: "driver_installed ram_read ram_write sectors_wf id (zf_storage audit_fs)" "contents id audit_fs = audit_disk"
  using audit_disk_wf by (simp_all add: driver_installed_def audit_fs_def demo_fs_def contents_def)

lemma audit_fs_fields: "zf_super audit_fs = audit_super" "zf_entries audit_fs = security_entry # replicate 127 empty_entry"
  "zf_mounted audit_fs" "zf_current_directory audit_fs = ''/''"
  by (simp_all add: audit_fs_def demo_fs_def)

lemma audit_consistent: "fs_consistent audit_disk audit_fs"
proof -
  have "zfs_shape audit_disk audit_fs"
    using audit_super_fields audit_disk_wf(2) security_entry_fields(1)
    by (simp add: zfs_shape_def audit_fs_fields zfs_max_entries_def) (simp add: audit_fs_def demo_fs_def entry_wf_def empty_entry_def)
  moreover have "table_synced audit_disk audit_fs"
    using audit_super_fields(3) security_entry_fields(1)
    by (simp add: table_synced_def audit_fs_fields disk_table_def upt_rec disk_entry_def audit_disk_def table_sector_def
        entry_slot_offset_def decode_zero_entry numeral_2_eq_2)
  moreover have "decode_super (audit_disk ! 0) = zf_super audit_fs"
    using audit_super_fields(1) by (simp add: audit_disk_def audit_fs_fields)
  moreover have "table_settled 2 (zf_entries audit_fs)" "paths_unique 2 (zf_entries audit_fs)"
    using security_entry_fields
    by (auto simp: table_settled_def paths_unique_def audit_fs_fields entry_settled_def entry_visible_def less_2_cases_iff
        empty_entry_def zfs_type_directory_def zfs_type_file_def zfs_type_transaction_def)
  ultimately show ?thesis
    using audit_super_fields(3) by (simp add: fs_consistent_def audit_fs_fields)
      (simp add: audit_fs_def max_file_bytes_def audit_super_def demo_super_def)
qed

lemma audit_intact: "files_intact (contents id audit_fs) audit_fs"
proof -
  have "\<not> (entry_visible (zf_entries audit_fs ! i) \<and> ze_type (zf_entries audit_fs ! i) = zfs_type_file)" if "i < 2" for i
    using that unfolding audit_fs_fields
    by (auto simp: less_2_cases_iff security_entry_def zfs_type_file_def empty_entry_def entry_visible_def zfs_type_directory_def)
  then show ?thesis unfolding files_intact_def audit_fs_fields(1) audit_super_fields(3) by blast
qed

lemma audit_tree: "find_entry audit_super (zf_entries audit_fs) journal_path = None"
  "parent_exists audit_super (zf_entries audit_fs) journal_path"
  "free_entry audit_super (zf_entries audit_fs) (old_word None) \<noteq> None"
proof -
  have size: "[0..<table_size audit_super] = [0, 1]"
    using audit_super_fields(3) by (simp add: table_size_def entry_total_def zfs_max_entries_def upt_rec)
  have es: "zf_entries audit_fs ! 0 = security_entry" "zf_entries audit_fs ! 1 = empty_entry"
    by (simp_all add: audit_fs_fields)
  have "\<not> entry_visible empty_entry" by (simp add: entry_visible_def empty_entry_def)
  then show "find_entry audit_super (zf_entries audit_fs) journal_path = None"
    using es security_entry_fields(2) by (simp add: find_entry_def size journal_path_def)
  have "parent_path journal_path = Some ''/security''" by code_simp
  then show "parent_exists audit_super (zf_entries audit_fs) journal_path"
    using es security_entry_fields by (simp add: parent_exists_def find_entry_def size)
  show "free_entry audit_super (zf_entries audit_fs) (old_word None) \<noteq> None"
    using es by (simp add: free_entry_def size old_word_def transaction_none_def empty_entry_def)
qed

lemma audit_demo_write:
  assumes "write_file_result (Some journal_path) (DataBytes (encode_journal one_event)) (word_of_nat audit_journal_bytes) False audit_fs = (r, st1)"
  shows "fs_durable r" "fs_ok r" "zf_super st1 = audit_super" "super_wf (zf_super st1)" "length (zf_sector_buffer st1) = 512"
    "mount_result (\<lambda>n. Some (replicate (unat n) 0)) st1 = (m, st3) \<Longrightarrow> fs_ok m"
proof -
  note inst = zenovfs_device.storage_installed [OF ram_fs_device]
  have sok: "sector_driver.storage_ok ram_read ram_write sectors_wf id (zf_storage audit_fs)"
    and disk: "sector_driver.disk id (zf_storage audit_fs) = audit_disk"
    using audit_installed by (simp_all add: inst)
  have count: "unat (word_of_nat audit_journal_bytes :: u32) \<le> length (encode_journal one_event)"
    using one_event_good(1) by (simp only: journal_good_def journal_bytes_word length_encode_journal order_refl)
  have con: "fs_consistent (sector_driver.disk id (zf_storage audit_fs)) audit_fs" by (simp add: disk audit_consistent)
  have view: "current_view audit_disk audit_fs journal_path = None"
    by (simp add: current_view_def view_def audit_fs_fields(1) audit_tree(1))
  have room: "unat (word_of_nat audit_journal_bytes :: u32) \<le> unat (max_file_bytes (zf_super audit_fs))"
    by (simp add: audit_journal_bytes_def audit_fs_fields max_file_bytes_def audit_super_def demo_super_def)
  have "r = fs_success FopWrite (word_of_nat audit_journal_bytes)"
    by (rule reliable_device.write_file_total [OF ram_device ram_writes_total sok con audit_fs_fields(3) journal_name
          journal_path_clean(2) _ _ _ room _ count assms])
      (simp_all add: audit_fs_fields(1) audit_tree disk view, simp add: journal_path_def)
  then show ok: "fs_durable r" "fs_ok r" by (simp_all add: fs_durable_def fs_ok_def fs_success_def mk_fs_result_def)
  note a = zenovfs_device.write_file_atomic [OF ram_fs_device sok con journal_name journal_path_clean(1) count assms]
  have st1: "sector_driver.storage_ok ram_read ram_write sectors_wf id (zf_storage st1)"
    "decode_super (sector_driver.disk id (zf_storage st1) ! 0) = audit_super"
    using a(1,4) by (simp_all add: audit_fs_fields)
  show super: "zf_super st1 = audit_super" "super_wf (zf_super st1)" "length (zf_sector_buffer st1) = 512"
    using a(2,3) by (simp_all add: audit_fs_fields)
  show "fs_ok m" if mnt: "mount_result (\<lambda>n. Some (replicate (unat n) 0)) st1 = (m, st3)"
  proof -
    have "geometry audit_super (length (contents id st1))"
      using a(7) ok(1) super(1) by (simp add: fs_consistent_def zfs_shape_def inst)
    then have len: "36 \<le> length (contents id st1)"
      using audit_super_fields(3) by (simp add: geometry_def data_base_def slots_def) (simp add: audit_super_def demo_super_def)
    then have "36 \<le> bd_sectors (ata0 (zf_storage st1))"
      using st1(1) by (simp add: inst driver_installed_def contents_def word_le_nat_alt)
    then have layout: "mount_layout_valid audit_super (bd_sectors (ata0 (zf_storage st1)))"
      by (simp add: mount_layout_valid_def audit_super_def demo_super_def zfs_max_entries_def not_less)
    have some: "0 < length (sector_driver.disk id (zf_storage st1))" using len by (auto simp: inst)
    show ?thesis
      by (rule reliable_device.mount_total [OF ram_device ram_writes_total st1(1) super(2,3) some _ _ _ _ mnt])
        (simp_all add: st1(2) layout, simp_all add: audit_super_def demo_super_def)
  qed
qed


end
