(* ===== verification/Audit_Verify.thy ===== *)
theory Audit_Verify
  imports Audit_System Host_Files
begin

text \<open>
  The host's verifier of the audit journal in a data image, \<open>tools/zenovfs_audit_verify.cpp\<close>. It finds the
  journal in the entry table, checks the file's checksum and the chain, optionally asks for a record, and can
  write a copy of the image with one bit of the history flipped and the checksum repaired. Its verification
  accepts the same journals as the kernel's.
\<close>

section \<open>Reading the image\<close>

definition audit_path :: string where "audit_path = ''/security/zenovguard.audit''"

definition read_audit_image :: "host \<Rightarrow> string \<Rightarrow> bytes result" where
  "read_audit_image h path =
     (case (host_read_fault h path, host_lookup h path) of
        (Some CannotOpen, _) \<Rightarrow> throw ''cannot open image''
      | (Some CannotSize, Some (Regular _)) \<Rightarrow> throw ''image too small''
      | (fault, Some (Regular data)) \<Rightarrow>
          throw_if (length data < 512) ''image too small'' (
          throw_if (fault = Some ShortRead) ''cannot read image'' (Inr data))
      | _ \<Rightarrow> throw ''cannot open image'')"

definition audit_data_sector :: "zfs_superblock \<Rightarrow> nat \<Rightarrow> u32" where
  "audit_data_sector block index = zs_data_start block + word_of_nat index * zs_slot_sectors block"

definition path_equal :: "zfs_entry \<Rightarrow> string \<Rightarrow> bool" where
  "path_equal entry path \<longleftrightarrow>
     length path < 48 \<and> take (length path) (ze_path entry) = bytes_of_string path \<and> ze_path entry ! length path = 0"

text \<open>
  The entry table behind the first sector. The tool does not compare its size with the image: an entry outside
  the image is read beyond the buffer, and has no particular value here either.
\<close>

definition table_entry :: "bytes \<Rightarrow> nat \<Rightarrow> zfs_entry" where
  "table_entry img i = decode_entry (take 64 (drop (512 + i * 64) img))"

primrec find_audit :: "bytes \<Rightarrow> nat list \<Rightarrow> nat option \<Rightarrow> nat option result" where
  "find_audit img [] found = Inr found"
| "find_audit img (i # indices) found =
     (if ze_used (table_entry img i) \<noteq> 0 \<and> ze_type (table_entry img i) = 1 \<and> path_equal (table_entry img i) audit_path
      then throw_if (found \<noteq> None) ''duplicate audit path'' (find_audit img indices (Some i))
      else find_audit img indices found)"

definition record_path_equal :: "audit_record \<Rightarrow> string \<Rightarrow> bool" where
  "record_path_equal r path \<longleftrightarrow>
     length path = unat (ar_path_length r) \<and> length path < 48 \<and>
     take (length path) (ar_path r) = bytes_of_string path \<and> ar_path r ! length path = 0"

definition contains_record :: "audit_journal \<Rightarrow> u8 \<Rightarrow> u8 \<Rightarrow> string \<Rightarrow> bool" where
  "contains_record j action verdict path =
     (let first = (if ah_count (aj_header j) = 64 then ah_next_index (aj_header j) else 0)
      in \<exists>i\<in>set [0..<unat (ah_count (aj_header j))].
           let r = aj_records j ! (unat (first + word_of_nat i) mod audit_capacity)
           in ar_action r = action \<and> ar_verdict r = verdict \<and> record_path_equal r path)"

section \<open>The checks\<close>

record audit_options =
  ao_nonempty :: bool
  ao_exec_untrusted :: string
  ao_tampered :: string

fun parse_audit_options :: "string list \<Rightarrow> audit_options \<Rightarrow> audit_options result" where
  "parse_audit_options [] opts = Inr opts"
| "parse_audit_options (argument # rest) opts =
     (if argument = ''--require-nonempty'' then parse_audit_options rest (opts\<lparr>ao_nonempty := True\<rparr>)
      else case rest of
             x # others \<Rightarrow>
               if argument = ''--require-exec-untrusted'' then parse_audit_options others (opts\<lparr>ao_exec_untrusted := x\<rparr>)
               else if argument = ''--emit-tampered'' then parse_audit_options others (opts\<lparr>ao_tampered := x\<rparr>)
               else throw (''unknown or incomplete argument: '' @ argument)
           | [] \<Rightarrow> throw (''unknown or incomplete argument: '' @ argument))"

text \<open>The checks up to the printed line: the entry's index, the payload's offset and the journal.\<close>

definition check_audit_image :: "audit_options \<Rightarrow> bytes \<Rightarrow> (nat \<times> nat \<times> audit_journal) result" where
  "check_audit_image opts img =
     throw_if (take 8 img \<noteq> bytes_of_string ''ZENOVFS1'') ''not a ZenovFS1 image'' (
     let block = decode_super (take 512 img)
     in throw_if (zs_entry_count block = 0 \<or> zs_entry_count block > 128 \<or> zs_slot_sectors block = 0 \<or>
                  length img < unat (zs_total_sectors block) * 512) ''invalid ZenovFS geometry'' (
        ebind (find_audit img [0..<unat (zs_entry_count block)] None) (\<lambda>found.
        case found of
          None \<Rightarrow> throw ''audit path missing''
        | Some index \<Rightarrow>
            let entry = table_entry img index;
                payload_offset = unat (audit_data_sector block index) * 512;
                payload = take audit_journal_bytes (drop payload_offset img);
                journal = decode_journal payload
            in throw_if (ze_flags entry \<noteq> 0 \<or> ze_size entry \<noteq> word_of_nat audit_journal_bytes) ''invalid audit metadata'' (
               throw_if (payload_offset + audit_journal_bytes > length img) ''audit payload outside image'' (
               throw_if (fnv1a payload \<noteq> ze_checksum entry) ''audit filesystem checksum mismatch'' (
               throw_if (\<not> host_verify (ao_nonempty opts) journal) ''audit hash-chain mismatch'' (
               throw_if (ao_exec_untrusted opts \<noteq> [] \<and> \<not> contains_record journal 2 2 (ao_exec_untrusted opts))
                 (''required persistent untrusted execution record missing: '' @ ao_exec_untrusted opts)
               (Inr (index, payload_offset, journal)))))))))"

definition print_prefix :: "bytes \<Rightarrow> string" where
  "print_prefix hash = hex_encode (take 8 hash)"

definition tamper_image :: "nat \<Rightarrow> nat \<Rightarrow> audit_journal \<Rightarrow> bytes \<Rightarrow> bytes" where
  "tamper_image index payload_offset j img =
     (let first = (if ah_count (aj_header j) = 64 then unat (ah_next_index (aj_header j)) else 0);
          record_offset = payload_offset + 96 + first * 128;
          img = img[record_offset + 12 := img ! (record_offset + 12) XOR 0x01];
          checksum = fnv1a (take audit_journal_bytes (drop payload_offset img))
      in blit (512 + index * 64 + 56) (le_bytes 4 checksum) img)"

section \<open>The program\<close>

definition audit_usage :: string where
  "audit_usage = ''usage: zenovfs-audit-verify <zenov-data.img> [--require-nonempty] '' @
     ''[--require-exec-untrusted <path>] [--emit-tampered <image>]'' @ [newline]"

definition audit_verify_main :: "string list \<Rightarrow> host \<Rightarrow> nat \<times> string \<times> string \<times> host" where
  "audit_verify_main argv h =
     (if length argv + 1 < 2 then (2, [], audit_usage, h)
      else let failed = (\<lambda>out e h. (1, out, ''zenovfs-audit-verify: '' @ e @ [newline], h))
           in case throw_if (\<not> guard_self_test) ''SHA-256 known-answer test failed'' (
                     ebind (parse_audit_options (drop 1 argv) \<lparr>ao_nonempty = False, ao_exec_untrusted = [], ao_tampered = []\<rparr>) (\<lambda>opts.
                     ebind (read_audit_image h (argv ! 0)) (\<lambda>img.
                     ebind (check_audit_image opts img) (\<lambda>checked. Inr (opts, img, checked))))) of
                Inl (Error e) \<Rightarrow> failed [] e h
              | Inr (opts, img, index, payload_offset, j) \<Rightarrow>
                  let out = ''zenovfs-audit-verify: OK count='' @ show_nat (unat (ah_count (aj_header j))) @ '' next='' @
                        show_nat (unat (ah_next_sequence (aj_header j))) @ '' head='' @ print_prefix (ah_head_hash (aj_header j)) @
                        (if ao_exec_untrusted opts \<noteq> [] then '' required_exec_untrusted='' @ ao_exec_untrusted opts else []) @ [newline]
                  in if ao_tampered opts = [] then (0, out, [], h)
                     else if ah_count (aj_header j) = 0 then failed out ''cannot tamper an empty audit journal'' h
                     else case write_stream (ao_tampered opts) (tamper_image index payload_offset j img)
                                 ''cannot create output image'' ''cannot write output image'' h of
                            (Inl (Error e), h) \<Rightarrow> failed out e h
                          | (Inr _, h) \<Rightarrow>
                              (0, out @ ''zenovfs-audit-verify: emitted FNV-repaired hash-chain tamper '' @ ao_tampered opts @ [newline], [], h))"

section \<open>The two verifications agree\<close>

lemma decode_journal_wf: "length raw = audit_journal_bytes \<Longrightarrow> journal_wf (decode_journal raw)"
  by (auto simp: journal_wf_def decode_journal_def decode_header_def decode_record_def record_wf_def audit_journal_bytes_def
      audit_capacity_def)

lemma host_record_ok_iff: "host_record_ok r sequence \<longleftrightarrow> record_valid r \<and> ar_sequence r = sequence"
  by (auto simp: host_record_ok_def record_valid_def kernel_host_equal)

lemma host_chain_eq:
  "journal_wf j \<Longrightarrow> length previous = 32 \<Longrightarrow> host_chain j first sequence indices previous = verify_chain j first sequence indices previous"
proof (induction indices arbitrary: previous)
  case (Cons i indices)
  let ?r = "aj_records j ! (unat (first + word_of_nat i) mod audit_capacity)"
  have wf: "record_wf ?r" using Cons.prems(1) by (simp add: journal_wf_def audit_capacity_def)
  then have len: "length (record_hash ?r previous) = 32" "length (ar_record_hash ?r) = 32"
    using Cons.prems(2) by (simp_all add: record_wf_def)
  then show ?case
    using Cons.IH [of "ar_record_hash ?r"] Cons.prems(1)
    by (auto simp: Let_def host_record_ok_iff kernel_host_equal same_hash_iff [OF len])
qed simp

lemma host_verify_iff:
  assumes "journal_wf j"
  shows "host_verify nonempty j \<longleftrightarrow> audit_verify j \<and> (nonempty \<longrightarrow> ah_count (aj_header j) \<noteq> 0)"
proof -
  have len: "length (ah_anchor_hash (aj_header j)) = 32" using assms by (simp add: journal_wf_def)
  have "(if bad then False else if n \<and> z then False else if z then x else y) \<longleftrightarrow>
      (if bad then False else if z then x else y) \<and> (n \<longrightarrow> \<not> z)" for bad n z x y by auto
  then show ?thesis
    unfolding host_verify_def audit_verify_def Let_def kernel_host_equal host_chain_eq [OF assms len] .
qed

lemma check_audit_image_accepts:
  assumes "check_audit_image opts img = Inr (index, offset, j)"
  shows "offset + audit_journal_bytes \<le> length img \<and> j = decode_journal (take audit_journal_bytes (drop offset img)) \<and>
    fnv1a (take audit_journal_bytes (drop offset img)) = ze_checksum (table_entry img index) \<and> host_verify (ao_nonempty opts) j \<and>
    (ao_exec_untrusted opts = [] \<or> contains_record j 2 2 (ao_exec_untrusted opts))"
proof -
  let ?block = "decode_super (take 512 img)"
  obtain i where "unat (audit_data_sector ?block i) * 512 + audit_journal_bytes \<le> length img" "i = index"
      "fnv1a (take audit_journal_bytes (drop (unat (audit_data_sector ?block i) * 512) img)) = ze_checksum (table_entry img i)"
      "host_verify (ao_nonempty opts) (decode_journal (take audit_journal_bytes (drop (unat (audit_data_sector ?block i) * 512) img)))"
      "ao_exec_untrusted opts = [] \<or> contains_record (decode_journal (take audit_journal_bytes
         (drop (unat (audit_data_sector ?block i) * 512) img))) 2 2 (ao_exec_untrusted opts)"
      "offset = unat (audit_data_sector ?block i) * 512" "j = decode_journal (take audit_journal_bytes (drop offset img))"
    using assms unfolding check_audit_image_def Let_def throw_if_eq_Inr ebind_eq_Inr
    by (elim conjE exE, split option.split_asm) (simp_all only: throw_not_Inr throw_if_eq_Inr option.case sum.inject prod.inject not_less, blast)
  then show ?thesis by blast
qed

text \<open>
  C12: The host's verifier and the kernel agree. On every payload of the journal's size they accept the same
  journals, apart from the option to refuse an empty one; and when \<open>zenovfs-audit-verify\<close> accepts an image,
  the journal in it has the file's checksum, passes the kernel's verification and, when a record was asked
  for, has a record of an untrusted execution of that path.
\<close>

theorem audit_verifiers_agree:
  assumes "length raw = audit_journal_bytes"
  shows "(host_verify nonempty (decode_journal raw) \<longleftrightarrow>
           audit_verify (decode_journal raw) \<and> (nonempty \<longrightarrow> ah_count (aj_header (decode_journal raw)) \<noteq> 0)) \<and>
         (check_audit_image opts img = Inr (index, offset, j) \<longrightarrow>
           audit_verify j \<and> j = decode_journal (take audit_journal_bytes (drop offset img)) \<and>
           fnv1a (take audit_journal_bytes (drop offset img)) = ze_checksum (table_entry img index) \<and>
           (ao_exec_untrusted opts = [] \<or> contains_record j 2 2 (ao_exec_untrusted opts)))"
proof -
  have "audit_verify j \<and> j = decode_journal (take audit_journal_bytes (drop offset img)) \<and>
      fnv1a (take audit_journal_bytes (drop offset img)) = ze_checksum (table_entry img index) \<and>
      (ao_exec_untrusted opts = [] \<or> contains_record j 2 2 (ao_exec_untrusted opts))"
    if "check_audit_image opts img = Inr (index, offset, j)"
  proof -
    have c: "offset + audit_journal_bytes \<le> length img" "j = decode_journal (take audit_journal_bytes (drop offset img))"
      "fnv1a (take audit_journal_bytes (drop offset img)) = ze_checksum (table_entry img index)" "host_verify (ao_nonempty opts) j"
      "ao_exec_untrusted opts = [] \<or> contains_record j 2 2 (ao_exec_untrusted opts)"
      using check_audit_image_accepts [OF that] by blast+
    have "length (take audit_journal_bytes (drop offset img)) = audit_journal_bytes" using c(1) by simp
    from decode_journal_wf [OF this] have "journal_wf j" by (simp only: c(2))
    from host_verify_iff [OF this] show ?thesis using c by (simp only:)
  qed
  then show ?thesis using host_verify_iff [OF decode_journal_wf [OF assms]] by blast
qed

text \<open>A small image that holds the empty journal.\<close>

definition tool_super :: zfs_superblock where
  "tool_super = demo_super\<lparr>zs_total_sectors := 18, zs_entry_count := 1, zs_slot_sectors := 17\<rparr>"

definition tool_entry :: zfs_entry where
  "tool_entry = empty_entry\<lparr>ze_used := 1, ze_type := 1, ze_path := bytes_of_string audit_path @ replicate (48 - length audit_path) 0,
     ze_size := word_of_nat audit_journal_bytes, ze_checksum := fnv1a (encode_journal initialize_empty)\<rparr>"

definition tool_image :: bytes where
  "tool_image = encode_super tool_super @ encode_entry tool_entry @ replicate 448 0 @ encode_journal initialize_empty"

lemma tool_image_checked:
  "check_audit_image \<lparr>ao_nonempty = False, ao_exec_untrusted = [], ao_tampered = []\<rparr> tool_image = Inr (0, 1024, initialize_empty)"
proof -
  have swf: "super_wf tool_super" by (simp add: tool_super_def super_wf_def demo_super_def zfs_magic_def)
  have ewf: "entry_wf tool_entry" by (simp add: tool_entry_def entry_wf_def audit_path_def)
  have good: "journal_wf initialize_empty" "audit_verify initialize_empty" using empty_good by (simp_all add: journal_good_def)
  have len: "length (encode_journal initialize_empty) = audit_journal_bytes" by (rule length_encode_journal [OF good(1)])
  have lens: "length (encode_super tool_super) = 512" "length (encode_entry tool_entry) = 64"
    using swf ewf by (simp_all add: entry_wf_def encode_entry_def)
  have parts: "take 512 tool_image = encode_super tool_super" "take 64 (drop 512 tool_image) = encode_entry tool_entry"
    "drop 1024 tool_image = encode_journal initialize_empty" "length tool_image = 1024 + audit_journal_bytes"
    using lens len by (simp_all add: tool_image_def)
  have magic: "take 8 tool_image = bytes_of_string ''ZENOVFS1''"
    by (simp add: tool_image_def encode_super_def tool_super_def demo_super_def zfs_magic_def)
  have entry: "table_entry tool_image 0 = tool_entry" using parts(2) ewf by (simp add: table_entry_def)
  have block: "decode_super (take 512 tool_image) = tool_super" using parts(1) swf by simp
  have offset: "unat (audit_data_sector tool_super 0) = 2" by (simp add: audit_data_sector_def tool_super_def demo_super_def)
  have "path_equal tool_entry audit_path" by (simp add: path_equal_def tool_entry_def nth_append) (simp add: audit_path_def)
  then have found: "find_audit tool_image [0..<unat (zs_entry_count tool_super)] None = Inr (Some 0)"
    using entry by (simp add: tool_super_def) (simp add: tool_entry_def)
  have counts: "zs_entry_count tool_super = 1" "zs_slot_sectors tool_super = 17" "zs_total_sectors tool_super = 18"
    by (simp_all add: tool_super_def)
  have "host_verify False initialize_empty" using host_verify_iff [OF good(1)] good(2) by simp
  then show ?thesis
    unfolding check_audit_image_def Let_def magic block found entry offset counts
    using parts len decode_encode_journal [OF good(1)] found
    by (simp add: entry offset counts throw_if_def audit_journal_bytes_def) (simp add: tool_entry_def audit_journal_bytes_def empty_entry_def)
qed

theorem audit_verifiers_agree_witness:
  "host_verify False (decode_journal (encode_journal initialize_empty)) \<and>
   audit_verify initialize_empty \<and> initialize_empty = decode_journal (take audit_journal_bytes (drop 1024 tool_image))"
proof -
  have good: "journal_wf initialize_empty" using empty_good by (simp add: journal_good_def)
  note agree = audit_verifiers_agree [OF length_encode_journal [OF good]]
  show ?thesis
    using agree [of False _ tool_image 0 1024 initialize_empty] tool_image_checked by (metis decode_encode_journal [OF good])
qed

end
