(* ===== verification/Rsa_Big.thy ===== *)
theory Rsa_Big
  imports Prelude
begin

text \<open>
  The 2048-bit arithmetic of the kernel's signature check (\<open>kernel/parts/rsa_pss.inc\<close>, up to
  \<open>big_exp_65537\<close>): big integers of 64 little-endian 32-bit limbs, their conversion from and to
  big-endian byte strings, comparison, addition and subtraction with carries in 64-bit intermediate
  values, addition and multiplication modulo the RSA modulus, and the fixed exponent 65537.

  \<open>big_value\<close> is the number a big integer stands for. Every operation is shown to compute the
  operation on numbers, for values that fit its precondition; the C++ output parameters are results.
\<close>

section \<open>Big integers\<close>

record big_integer =
  limb :: "u32 list"

definition signature_bytes :: nat where "signature_bytes = 256"

definition big_zero :: big_integer where
  "big_zero = \<lparr>limb = replicate 64 0\<rparr>"

definition big_put :: "bytes \<Rightarrow> nat \<Rightarrow> u32 list \<Rightarrow> u32 list" where
  "big_put input i ls =
    (let reverse = signature_bytes - 1 - i in
     ls[reverse div 4 := ls ! (reverse div 4) OR push_bit ((reverse mod 4) * 8) (ucast (input ! i))])"

definition big_from_be :: "bytes \<Rightarrow> big_integer" where
  "big_from_be input = \<lparr>limb = fold (big_put input) [0..<signature_bytes] (limb big_zero)\<rparr>"

definition big_to_be :: "big_integer \<Rightarrow> bytes" where
  "big_to_be v = map (\<lambda>i. let reverse = signature_bytes - 1 - i in
    ucast (drop_bit ((reverse mod 4) * 8) (limb v ! (reverse div 4)))) [0..<signature_bytes]"

fun compare_from :: "nat \<Rightarrow> u32 list \<Rightarrow> u32 list \<Rightarrow> int" where
  "compare_from 0 left right = 0"
| "compare_from (Suc index) left right =
    (if left ! index < right ! index then - 1
     else if right ! index < left ! index then 1
     else compare_from index left right)"

definition big_compare :: "big_integer \<Rightarrow> big_integer \<Rightarrow> int" where
  "big_compare left right = compare_from 64 (limb left) (limb right)"

text \<open>The limbs from the lowest to the highest, with the borrow or the carry of the limb before.\<close>

fun subtract_limbs :: "u64 \<Rightarrow> u32 list \<Rightarrow> u32 list \<Rightarrow> u32 list" where
  "subtract_limbs borrow (l # left) (r # right) =
    (let current = ucast l :: u64;
         subtrahend = ucast r + borrow
     in ucast (current - subtrahend) # subtract_limbs (if current < subtrahend then 1 else 0) left right)"
| "subtract_limbs borrow _ _ = []"

definition big_subtract :: "big_integer \<Rightarrow> big_integer \<Rightarrow> big_integer" where
  "big_subtract left right = \<lparr>limb = subtract_limbs 0 (limb left) (limb right)\<rparr>"

fun add_limbs :: "u64 \<Rightarrow> u32 list \<Rightarrow> u32 list \<Rightarrow> u32 list" where
  "add_limbs carry (l # left) (r # right) =
    (let sum = ucast l + ucast r + carry :: u64
     in ucast sum # add_limbs (drop_bit 32 sum) left right)"
| "add_limbs carry _ _ = []"

definition big_add_plain :: "big_integer \<Rightarrow> big_integer \<Rightarrow> big_integer" where
  "big_add_plain left right = \<lparr>limb = add_limbs 0 (limb left) (limb right)\<rparr>"

definition big_add_mod :: "big_integer \<Rightarrow> big_integer \<Rightarrow> big_integer \<Rightarrow> big_integer" where
  "big_add_mod left right modulus =
    (let threshold = big_subtract modulus right in
     if 0 \<le> big_compare left threshold then big_subtract left threshold else big_add_plain left right)"

definition big_bit :: "big_integer \<Rightarrow> nat \<Rightarrow> bool" where
  "big_bit v n \<longleftrightarrow> drop_bit (n mod 32) (limb v ! (n div 32)) AND 1 \<noteq> 0"

definition multiply_step :: "big_integer \<Rightarrow> big_integer \<Rightarrow> nat \<Rightarrow> big_integer \<times> big_integer \<Rightarrow> big_integer \<times> big_integer" where
  "multiply_step right modulus n s =
    (case s of (result, current) \<Rightarrow>
       (if big_bit right n then big_add_mod result current modulus else result,
        big_add_mod current current modulus))"

definition big_multiply_mod :: "big_integer \<Rightarrow> big_integer \<Rightarrow> big_integer \<Rightarrow> big_integer" where
  "big_multiply_mod left right modulus = fst (fold (multiply_step right modulus) [0..<2048] (big_zero, left))"

definition exp_step :: "big_integer \<Rightarrow> big_integer \<Rightarrow> nat \<Rightarrow> big_integer \<Rightarrow> big_integer" where
  "exp_step signature modulus n result =
    (let squared = big_multiply_mod result result modulus in
     if drop_bit n (65537 :: u32) AND 1 \<noteq> 0 then big_multiply_mod squared signature modulus else squared)"

definition big_exp_65537 :: "big_integer \<Rightarrow> big_integer \<Rightarrow> big_integer" where
  "big_exp_65537 signature modulus =
    fold (exp_step signature modulus) (rev [0..<17]) \<lparr>limb = (limb big_zero)[0 := 1]\<rparr>"

section \<open>Values\<close>

fun limbs_value :: "u32 list \<Rightarrow> nat" where
  "limbs_value [] = 0"
| "limbs_value (l # ls) = unat l + 2 ^ 32 * limbs_value ls"

definition big_value :: "big_integer \<Rightarrow> nat" where
  "big_value v = limbs_value (limb v)"

definition big_limit :: nat where
  "big_limit = 2 ^ (32 * 64)"

definition big_wf :: "big_integer \<Rightarrow> bool" where
  "big_wf v \<longleftrightarrow> length (limb v) = 64"

lemma limbs_value_bound: "limbs_value ls < 2 ^ (32 * length ls)"
proof (induction ls)
  case (Cons l ls)
  have "unat l < 2 ^ 32" using unat_less_exp [of l] by simp
  moreover have "limbs_value ls + 1 \<le> 2 ^ (32 * length ls)" using Cons by simp
  then have "2 ^ 32 * (limbs_value ls + 1) \<le> 2 ^ 32 * (2 :: nat) ^ (32 * length ls)" by (rule mult_le_mono2)
  ultimately have "limbs_value (l # ls) < 2 ^ 32 * 2 ^ (32 * length ls)" by (simp add: algebra_simps)
  then show ?case by (simp add: power_add)
qed simp

lemma limbs_value_append: "limbs_value (xs @ ys) = limbs_value xs + 2 ^ (32 * length xs) * limbs_value ys"
  by (induction xs) (simp_all add: power_add algebra_simps)

lemma limbs_value_split:
  "j < length ls \<Longrightarrow> limbs_value ls =
    limbs_value (take j ls) + 2 ^ (32 * j) * (unat (ls ! j) + 2 ^ 32 * limbs_value (drop (Suc j) ls))"
  using limbs_value_append [of "take j ls" "ls ! j # drop (Suc j) ls"] id_take_nth_drop [of j ls] by simp

lemma limbs_value_nth: "j < length ls \<Longrightarrow> limbs_value ls div 2 ^ (32 * j) mod 2 ^ 32 = unat (ls ! j)"
proof -
  assume j: "j < length ls"
  have "limbs_value (take j ls) < 2 ^ (32 * j)" using limbs_value_bound [of "take j ls"] j by simp
  then have "limbs_value ls div 2 ^ (32 * j) = unat (ls ! j) + 2 ^ 32 * limbs_value (drop (Suc j) ls)"
    unfolding limbs_value_split [OF j] by simp
  then show ?thesis using unat_less_exp [of "ls ! j"] by simp
qed

lemma limbs_value_update:
  "j < length ls \<Longrightarrow> limbs_value (ls[j := v]) + 2 ^ (32 * j) * unat (ls ! j) = limbs_value ls + 2 ^ (32 * j) * unat v"
  using limbs_value_split [of j ls] limbs_value_split [of j "ls[j := v]"] by (simp add: algebra_simps)

lemma big_zero_value [simp]: "big_value big_zero = 0" "big_wf big_zero"
proof -
  have "limbs_value (replicate n 0) = 0" for n by (induction n) simp_all
  then show "big_value big_zero = 0" by (simp add: big_value_def big_zero_def)
  show "big_wf big_zero" by (simp add: big_wf_def big_zero_def)
qed

lemma big_value_bound: "big_wf v \<Longrightarrow> big_value v < big_limit"
  using limbs_value_bound [of "limb v"] by (simp only: big_wf_def big_value_def big_limit_def)

section \<open>Subtraction, addition and comparison\<close>

lemma subtract_limbs_length [simp]: "length (subtract_limbs b left right) = min (length left) (length right)"
  by (induction b left right rule: subtract_limbs.induct) (simp_all add: Let_def)

lemma add_limbs_length [simp]: "length (add_limbs b left right) = min (length left) (length right)"
  by (induction b left right rule: add_limbs.induct) (simp_all add: Let_def)

lemma ucast_down_unat: "unat (ucast (w :: u64) :: u32) = unat w mod 2 ^ 32"
  by (simp add: unsigned_ucast_eq take_bit_eq_mod)

lemma add_limbs_value:
  "length left = length right \<Longrightarrow> unat carry \<le> 1 \<Longrightarrow>
    limbs_value (add_limbs carry left right) =
      (limbs_value left + limbs_value right + unat carry) mod 2 ^ (32 * length left)"
proof (induction left right arbitrary: carry rule: list_induct2')
  case (4 l left r right)
  let ?sum = "ucast l + ucast r + carry :: u64"
  have b: "unat l < 2 ^ 32" "unat r < 2 ^ 32" using unat_less_exp [of l] unat_less_exp [of r] by simp_all
  have "unat (ucast l + ucast r :: u64) = unat l + unat r"
    using b by (subst unat_add_nowrap) (simp_all add: unat_ucast_up)
  then have s: "unat ?sum = unat l + unat r + unat carry"
    using b 4(3) by (subst unat_add_nowrap) simp_all
  have c: "unat (drop_bit 32 ?sum) = (unat l + unat r + unat carry) div 2 ^ 32"
    using s by (metis drop_bit_eq_div unat_drop_bit_eq)
  have c1: "unat (drop_bit 32 ?sum) \<le> 1" unfolding c using b 4(3) by simp
  let ?S = "unat l + unat r + unat carry" and ?L = "limbs_value left" and ?R = "limbs_value right"
  have "limbs_value (add_limbs carry (l # left) (r # right)) =
      ?S mod 2 ^ 32 + 2 ^ 32 * ((?L + ?R + ?S div 2 ^ 32) mod 2 ^ (32 * length left))"
    using 4(1) [OF _ c1] 4(2) by (simp add: Let_def ucast_down_unat s c)
  also have "\<dots> = (?S + 2 ^ 32 * (?L + ?R)) mod (2 ^ 32 * 2 ^ (32 * length left))"
  proof -
    have "(?S + 2 ^ 32 * (?L + ?R)) div 2 ^ 32 = ?L + ?R + ?S div 2 ^ 32" by simp
    moreover have "(?S + 2 ^ 32 * (?L + ?R)) mod 2 ^ 32 = ?S mod 2 ^ 32" by (rule mod_mult_self2)
    ultimately show ?thesis unfolding mod_mult2_eq by (simp only: add.commute)
  qed
  finally show ?case by (simp add: power_add algebra_simps)
qed simp_all

lemma subtract_limbs_value:
  "length left = length right \<Longrightarrow> unat borrow \<le> 1 \<Longrightarrow>
    int (limbs_value (subtract_limbs borrow left right)) =
      (int (limbs_value left) - int (limbs_value right) - int (unat borrow)) mod 2 ^ (32 * length left)"
proof (induction left right arbitrary: borrow rule: list_induct2')
  case (4 l left r right)
  let ?c = "ucast l :: u64" and ?s = "ucast r + borrow :: u64"
  have b: "unat l < 2 ^ 32" "unat r < 2 ^ 32" using unat_less_exp [of l] unat_less_exp [of r] by simp_all
  have s: "unat ?s = unat r + unat borrow" using b 4(3) by (subst unat_add_nowrap) (simp_all add: unat_ucast_up)
  have c: "unat ?c = unat l" by (simp add: unat_ucast_up)
  let ?D = "int (unat l) - int (unat r) - int (unat borrow)" and ?L = "int (limbs_value left)" and ?R = "int (limbs_value right)"
  let ?b = "if ?c < ?s then 1 else 0 :: u64"
  have d: "int (unat (ucast (?c - ?s) :: u32)) = ?D mod 2 ^ 32"
  proof -
    have "int (unat (?c - ?s)) = (int (unat ?c) - int (unat ?s)) mod 2 ^ 64"
      by (simp add: uint_word_ariths(2) flip: uint_nat)
    then show ?thesis unfolding ucast_down_unat zmod_int s c
      by (simp add: mod_mod_cancel algebra_simps)
  qed
  have q: "?D div 2 ^ 32 = - int (unat ?b)"
  proof (cases "unat l < unat r + unat borrow")
    case True
    moreover have "(2 :: int) ^ 32 = 4294967296" "(2 :: nat) ^ 32 = 4294967296" by simp_all
    ultimately have "?D div 2 ^ 32 = - 1"
      using b 4(3) by (intro int_div_pos_eq [of _ _ _ "?D + 2 ^ 32"]) linarith+
    then show ?thesis using True s c by (simp add: word_less_nat_alt)
  next
    case False
    moreover have "(2 :: int) ^ 32 = 4294967296" "(2 :: nat) ^ 32 = 4294967296" by simp_all
    ultimately have "0 \<le> ?D" "?D < 2 ^ 32" using b by linarith+
    then show ?thesis using False s c by (simp add: word_less_nat_alt div_pos_pos_trivial)
  qed
  have "int (limbs_value (subtract_limbs borrow (l # left) (r # right))) =
      ?D mod 2 ^ 32 + 2 ^ 32 * ((?L - ?R - int (unat ?b)) mod 2 ^ (32 * length left))"
    using 4(1) [of ?b] 4(2) d by (simp add: Let_def)
  also have "\<dots> = (?D + 2 ^ 32 * (?L - ?R)) mod (2 ^ 32 * 2 ^ (32 * length left))"
  proof -
    have "(?D + 2 ^ 32 * (?L - ?R)) div 2 ^ 32 = ?L - ?R - int (unat ?b)" using q by simp
    moreover have "(?D + 2 ^ 32 * (?L - ?R)) mod 2 ^ 32 = ?D mod 2 ^ 32" by (rule mod_mult_self2)
    ultimately show ?thesis by (subst zmod_zmult2_eq) (simp_all only: add.commute, simp)
  qed
  finally show ?case by (simp add: power_add algebra_simps)
qed simp_all

lemma compare_from_value:
  assumes "n \<le> length left" "n \<le> length right"
  shows "compare_from n left right =
    (if limbs_value (take n left) < limbs_value (take n right) then - 1
     else if limbs_value (take n right) < limbs_value (take n left) then 1 else 0)"
  using assms
proof (induction n)
  case (Suc n)
  have t: "limbs_value (take (Suc n) xs) = limbs_value (take n xs) + 2 ^ (32 * n) * unat (xs ! n)"
    if "Suc n \<le> length xs" for xs
    using that limbs_value_append [of "take n xs" "[xs ! n]"] by (simp add: take_Suc_conv_app_nth)
  have b: "limbs_value (take n xs) < 2 ^ (32 * n)" if "Suc n \<le> length xs" for xs
    using that limbs_value_bound [of "take n xs"] by simp
  have less: "limbs_value (take (Suc n) xs) < limbs_value (take (Suc n) ys)"
    if "Suc n \<le> length xs" "Suc n \<le> length ys" "unat (xs ! n) < unat (ys ! n)" for xs ys
  proof -
    have "unat (xs ! n) + 1 \<le> unat (ys ! n)" using that(3) by simp
    then have "2 ^ (32 * n) * (unat (xs ! n) + 1) \<le> 2 ^ (32 * n) * unat (ys ! n)" by (rule mult_le_mono2)
    then show ?thesis using b [OF that(1)] unfolding t [OF that(1)] t [OF that(2)] by (simp add: algebra_simps)
  qed
  have l: "Suc n \<le> length left" and r: "Suc n \<le> length right" using Suc.prems by simp_all
  show ?case
  proof (cases "unat (left ! n) = unat (right ! n)")
    case True
    then show ?thesis using Suc.IH l r unfolding t [OF l] t [OF r] by (simp add: word_less_nat_alt)
  next
    case False
    then consider "unat (left ! n) < unat (right ! n)" | "unat (right ! n) < unat (left ! n)" by linarith
    then show ?thesis
    proof cases
      case 1
      then show ?thesis using less [OF l r 1] by (simp add: word_less_nat_alt)
    next
      case 2
      then show ?thesis using less [OF r l 2] by (simp add: word_less_nat_alt)
    qed
  qed
qed simp

lemma big_compare_value:
  "big_wf left \<Longrightarrow> big_wf right \<Longrightarrow> 0 \<le> big_compare left right \<longleftrightarrow> big_value right \<le> big_value left"
  by (auto simp: big_compare_def big_wf_def big_value_def compare_from_value)

lemma big_subtract_value:
  assumes wf: "big_wf left" "big_wf right"
  shows "big_wf (big_subtract left right)"
    and "big_value right \<le> big_value left \<Longrightarrow> big_value (big_subtract left right) = big_value left - big_value right"
proof -
  show "big_wf (big_subtract left right)" using wf by (simp add: big_subtract_def big_wf_def)
  assume le: "big_value right \<le> big_value left"
  have z: "unat (0 :: u64) = 0" "\<And>x. x - int 0 = x" by simp_all
  have m: "int (big_value (big_subtract left right)) = (int (big_value left) - int (big_value right)) mod int big_limit"
    using subtract_limbs_value [of "limb left" "limb right" 0] wf
    by (simp only: big_subtract_def big_value_def big_wf_def big_limit_def big_integer.select_convs z
        le0 of_nat_power of_nat_numeral)
  have "int (big_value left) - int (big_value right) = int (big_value left - big_value right)" using le by simp
  moreover have "big_value left - big_value right < big_limit" using big_value_bound [OF wf(1)] by linarith
  ultimately show "big_value (big_subtract left right) = big_value left - big_value right"
    using m by (simp only: zmod_int [symmetric] mod_less of_nat_eq_iff)
qed

lemma big_add_plain_value:
  assumes wf: "big_wf left" "big_wf right"
  shows "big_wf (big_add_plain left right)"
    and "big_value left + big_value right < big_limit \<Longrightarrow>
      big_value (big_add_plain left right) = big_value left + big_value right"
proof -
  show "big_wf (big_add_plain left right)" using wf by (simp add: big_add_plain_def big_wf_def)
  assume "big_value left + big_value right < big_limit"
  then show "big_value (big_add_plain left right) = big_value left + big_value right"
    using add_limbs_value [of "limb left" "limb right" 0] wf
    by (simp only: big_add_plain_def big_value_def big_wf_def big_limit_def big_integer.select_convs unsigned_0
        le0 add_0_right mod_less)
qed

section \<open>Modular arithmetic\<close>

lemma big_add_mod_value:
  assumes wf: "big_wf left" "big_wf right" "big_wf modulus"
    and lt: "big_value left < big_value modulus" "big_value right < big_value modulus"
  shows "big_wf (big_add_mod left right modulus)"
    and "big_value (big_add_mod left right modulus) = (big_value left + big_value right) mod big_value modulus"
proof -
  let ?t = "big_subtract modulus right"
  have t: "big_wf ?t" "big_value ?t = big_value modulus - big_value right"
    using big_subtract_value [OF wf(3,2)] lt(2) by simp_all
  note cmp = big_compare_value [OF wf(1) t(1)]
  show "big_wf (big_add_mod left right modulus)"
    using big_subtract_value(1) [OF wf(1) t(1)] big_add_plain_value(1) [OF wf(1,2)] by (simp add: big_add_mod_def Let_def)
  show "big_value (big_add_mod left right modulus) = (big_value left + big_value right) mod big_value modulus"
  proof (cases "big_value ?t \<le> big_value left")
    case True
    then have "big_value modulus \<le> big_value left + big_value right" using t(2) lt by linarith
    then have "(big_value left + big_value right) mod big_value modulus =
        big_value left + big_value right - big_value modulus"
      using lt by (subst le_mod_geq) simp_all
    then show ?thesis using True cmp big_subtract_value(2) [OF wf(1) t(1) True] t(2) lt
      by (simp add: big_add_mod_def Let_def)
  next
    case False
    then have "big_value left + big_value right < big_value modulus" using t(2) lt by linarith
    moreover have "big_value left + big_value right < big_limit"
      using calculation big_value_bound [OF wf(3)] by linarith
    ultimately show ?thesis using False cmp big_add_plain_value(2) [OF wf(1,2)] by (simp add: big_add_mod_def Let_def)
  qed
qed

lemma big_bit_value:
  assumes "big_wf v" "n < 2048"
  shows "big_bit v n \<longleftrightarrow> odd (big_value v div 2 ^ n)"
proof -
  have j: "n div 32 < length (limb v)" using assms by (simp add: big_wf_def)
  define X where "X = limbs_value (limb v) div 2 ^ (32 * (n div 32))"
  have "big_value v div 2 ^ n = X div 2 ^ (n mod 32)"
    unfolding X_def big_value_def by (simp add: div_mult2_eq [symmetric] power_add [symmetric])
  moreover have "odd (X div 2 ^ (n mod 32)) \<longleftrightarrow> odd (X mod 2 ^ 32 div 2 ^ (n mod 32))"
    by (metis bit_iff_odd bit_take_bit_iff take_bit_eq_mod mod_less_divisor zero_less_numeral)
  moreover have "X mod 2 ^ 32 = unat (limb v ! (n div 32))" unfolding X_def by (rule limbs_value_nth [OF j])
  ultimately have "odd (big_value v div 2 ^ n) \<longleftrightarrow> odd (unat (limb v ! (n div 32)) div 2 ^ (n mod 32))"
    by (simp only:)
  also have "\<dots> \<longleftrightarrow> bit (limb v ! (n div 32)) (n mod 32)" by (simp add: bit_unsigned_iff flip: bit_iff_odd)
  finally show ?thesis by (simp add: big_bit_def and_one_eq odd_iff_mod_2_eq_one bit_iff_odd_drop_bit)
qed

lemma multiply_loop_value:
  assumes wf: "big_wf left" "big_wf right" "big_wf modulus"
    and lt: "big_value left < big_value modulus" and n: "n \<le> 2048"
  shows "case fold (multiply_step right modulus) [0..<n] (big_zero, left) of (result, current) \<Rightarrow>
    big_wf result \<and> big_wf current \<and>
    big_value result = (big_value left * (big_value right mod 2 ^ n)) mod big_value modulus \<and>
    big_value current = (big_value left * 2 ^ n) mod big_value modulus"
  using n
proof (induction n)
  case 0
  then show ?case using wf lt by simp
next
  case (Suc n)
  let ?M = "big_value modulus" and ?L = "big_value left" and ?R = "big_value right"
  obtain result current where rc: "fold (multiply_step right modulus) [0..<n] (big_zero, left) = (result, current)"
    by fastforce
  then have IH: "big_wf result" "big_wf current" "big_value result = (?L * (?R mod 2 ^ n)) mod ?M"
    "big_value current = (?L * 2 ^ n) mod ?M" using Suc by auto
  have M: "0 < ?M" using lt by simp
  then have lt2: "big_value result < ?M" "big_value current < ?M" using IH by simp_all
  note add = big_add_mod_value [OF IH(1,2) wf(3) lt2] and dbl = big_add_mod_value [OF IH(2,2) wf(3) lt2(2,2)]
  have bit: "big_bit right n \<longleftrightarrow> odd (?R div 2 ^ n)" using big_bit_value [OF wf(2)] Suc.prems by simp
  have r: "?R mod 2 ^ Suc n = ?R mod 2 ^ n + (if odd (?R div 2 ^ n) then 2 ^ n else 0)"
  proof -
    have "?R mod (2 ^ n * 2) = 2 ^ n * (?R div 2 ^ n mod 2) + ?R mod 2 ^ n" by (rule mod_mult2_eq)
    then show ?thesis by (simp add: mult.commute mod_2_eq_odd)
  qed
  have "big_value (big_add_mod result current modulus) = (?L * (?R mod 2 ^ n) + ?L * 2 ^ n) mod ?M"
    unfolding add(2) IH(3,4) by (rule mod_add_eq)
  moreover have "big_value (big_add_mod current current modulus) = (?L * 2 ^ Suc n) mod ?M"
  proof -
    have "big_value (big_add_mod current current modulus) = (?L * 2 ^ n + ?L * 2 ^ n) mod ?M"
      unfolding dbl(2) IH(4) by (rule mod_add_eq)
    moreover have "?L * 2 ^ n + ?L * 2 ^ n = ?L * 2 ^ Suc n" by simp
    ultimately show ?thesis by (simp only:)
  qed
  moreover have st: "fold (multiply_step right modulus) [0..<Suc n] (big_zero, left) =
      multiply_step right modulus n (result, current)" using rc by simp
  ultimately show ?case using IH add(1) dbl(1) bit
    unfolding r st multiply_step_def [of right modulus n] by (simp add: distrib_left)
qed

lemma big_multiply_mod_value:
  assumes "big_wf left" "big_wf right" "big_wf modulus" "big_value left < big_value modulus"
  shows "big_wf (big_multiply_mod left right modulus)"
    and "big_value (big_multiply_mod left right modulus) = (big_value left * big_value right) mod big_value modulus"
proof -
  have "(2 :: nat) ^ 2048 = big_limit" unfolding big_limit_def by (simp only: numeral_times_numeral semiring_norm)
  then have "big_value right mod 2 ^ 2048 = big_value right"
    using big_value_bound [OF assms(2)] by (simp only: mod_less)
  then show "big_wf (big_multiply_mod left right modulus)"
    "big_value (big_multiply_mod left right modulus) = (big_value left * big_value right) mod big_value modulus"
    using multiply_loop_value [OF assms le_refl] unfolding big_multiply_mod_def
    by (simp_all only: split_beta)
qed

lemma and_one_odd: "drop_bit n (w :: u32) AND 1 \<noteq> 0 \<longleftrightarrow> odd (unat w div 2 ^ n)"
proof -
  have "unat (drop_bit n w) = unat w div 2 ^ n" by (metis drop_bit_eq_div unat_drop_bit_eq)
  then show ?thesis by (simp add: and_one_eq word_unat_eq_iff unat_mod odd_iff_mod_2_eq_one)
qed

lemma exp_loop_value:
  assumes wf: "big_wf signature" "big_wf modulus" and lt: "big_value signature < big_value modulus" "1 < big_value modulus"
  shows "big_wf result \<Longrightarrow> big_value result = big_value signature ^ k mod big_value modulus \<Longrightarrow>
    big_wf (exp_step signature modulus n result) \<and>
    big_value (exp_step signature modulus n result) =
      big_value signature ^ (2 * k + (if odd ((65537 :: nat) div 2 ^ n) then 1 else 0)) mod big_value modulus"
proof -
  assume r: "big_wf result" "big_value result = big_value signature ^ k mod big_value modulus"
  let ?M = "big_value modulus" and ?S = "big_value signature"
  have rM: "big_value result < ?M" using r(2) lt by simp
  note sq = big_multiply_mod_value [OF r(1,1) wf(2) rM]
  have sqv: "big_value (big_multiply_mod result result modulus) = ?S ^ (2 * k) mod ?M"
    unfolding sq(2) r(2) by (simp add: mod_mult_eq mult_2 power_add)
  then have sM: "big_value (big_multiply_mod result result modulus) < ?M" using lt by simp
  note ml = big_multiply_mod_value [OF sq(1) wf(1,2) sM]
  have mlv: "big_value (big_multiply_mod (big_multiply_mod result result modulus) signature modulus) = ?S ^ (2 * k + 1) mod ?M"
    unfolding ml(2) sqv by (simp only: mod_mult_left_eq power_add power_one_right)
  have "drop_bit n (65537 :: u32) AND 1 \<noteq> 0 \<longleftrightarrow> odd ((65537 :: nat) div 2 ^ n)"
    using and_one_odd [of n "65537 :: u32"] by simp
  then show ?thesis using sq(1) ml(1) sqv mlv by (simp add: exp_step_def Let_def)
qed

lemma exp_fold_value:
  assumes wf: "big_wf signature" "big_wf modulus" and lt: "big_value signature < big_value modulus" "1 < big_value modulus"
  shows "big_wf result \<Longrightarrow> big_value result = big_value signature ^ k mod big_value modulus \<Longrightarrow>
    big_wf (fold (exp_step signature modulus) ns result) \<and>
    big_value (fold (exp_step signature modulus) ns result) =
      big_value signature ^ fold (\<lambda>n k. 2 * k + (if odd ((65537 :: nat) div 2 ^ n) then 1 else 0)) ns k mod big_value modulus"
proof (induction ns arbitrary: result k)
  case (Cons n ns)
  then show ?case using exp_loop_value [OF assms Cons.prems, of n] by (simp del: odd_iff_mod_2_eq_one)
qed simp

lemma big_exp_65537_value:
  assumes "big_wf signature" "big_wf modulus" "big_value signature < big_value modulus" "1 < big_value modulus"
  shows "big_wf (big_exp_65537 signature modulus)"
    and "big_value (big_exp_65537 signature modulus) = big_value signature ^ 65537 mod big_value modulus"
proof -
  let ?one = "\<lparr>limb = (limb big_zero)[0 := 1]\<rparr>"
  have "big_wf ?one" by (simp add: big_wf_def big_zero_def)
  moreover have "big_value ?one = big_value signature ^ 0 mod big_value modulus"
    using limbs_value_update [of 0 "limb big_zero" 1] assms(4) big_zero_value(1)
    by (simp add: big_value_def big_zero_def)
  moreover have "fold (\<lambda>n k. 2 * k + (if odd ((65537 :: nat) div 2 ^ n) then 1 else 0)) (rev [0..<17]) 0 = (65537 :: nat)"
    by code_simp
  ultimately show "big_wf (big_exp_65537 signature modulus)"
    "big_value (big_exp_65537 signature modulus) = big_value signature ^ 65537 mod big_value modulus"
    using exp_fold_value [OF assms, of ?one 0 "rev [0..<17]"] unfolding big_exp_65537_def by (simp_all only:)
qed

section \<open>Byte strings\<close>

text \<open>The number a big-endian byte string stands for (OS2IP of RFC 8017) and its inverse (I2OSP).\<close>

definition os2ip :: "bytes \<Rightarrow> nat" where
  "os2ip = foldl (\<lambda>n b. 256 * n + unat b) 0"

definition i2osp :: "nat \<Rightarrow> nat \<Rightarrow> bytes" where
  "i2osp n v = map (\<lambda>i. word_of_nat (v div 256 ^ (n - 1 - i))) [0..<n]"

lemma os2ip_append: "os2ip (xs @ [b]) = 256 * os2ip xs + unat b"
  by (simp add: os2ip_def)

lemma power_256_split: "(256 :: nat) ^ r = 2 ^ (32 * (r div 4)) * 2 ^ (r mod 4 * 8)"
proof -
  have "8 * r = 32 * (r div 4) + r mod 4 * 8" using div_mult_mod_eq [of r 4] by linarith
  moreover have "(256 :: nat) ^ r = 2 ^ (8 * r)" by (simp add: power_mult)
  ultimately show ?thesis by (simp only: power_add)
qed

lemma big_to_be_value: "big_wf v \<Longrightarrow> big_to_be v = i2osp 256 (big_value v)"
proof -
  assume wf: "big_wf v"
  have "(ucast (drop_bit (r mod 4 * 8) (limb v ! (r div 4))) :: byte) = word_of_nat (big_value v div 256 ^ r)"
    if "r < 256" for r
  proof -
    have j: "r div 4 < length (limb v)" using that wf by (simp add: big_wf_def)
    have k: "r mod 4 * 8 + 8 \<le> 32" by simp
    define X where "X = limbs_value (limb v) div 2 ^ (32 * (r div 4))"
    have "(256 :: nat) ^ r = 2 ^ (32 * (r div 4)) * 2 ^ (r mod 4 * 8)" by (rule power_256_split)
    then have v: "big_value v div 256 ^ r = X div 2 ^ (r mod 4 * 8)"
      by (simp add: big_value_def X_def div_mult2_eq)
    have "unat (limb v ! (r div 4)) = X mod 2 ^ 32" unfolding X_def by (rule limbs_value_nth [OF j, symmetric])
    moreover have "unat (drop_bit k w) = unat w div 2 ^ k" for k and w :: u32
      by (metis drop_bit_eq_div unat_drop_bit_eq)
    ultimately have "unat (ucast (drop_bit (r mod 4 * 8) (limb v ! (r div 4))) :: byte) =
        (X mod 2 ^ 32 div 2 ^ (r mod 4 * 8)) mod 2 ^ 8"
      by (simp add: unsigned_ucast_eq take_bit_eq_mod)
    also have "\<dots> = (X div 2 ^ (r mod 4 * 8)) mod 2 ^ 8"
      using k by (simp only: take_bit_eq_mod [symmetric] drop_bit_eq_div [symmetric] take_bit_drop_bit
          take_bit_take_bit min_absorb1 add.commute [of 8])
    finally show ?thesis unfolding v by (simp add: word_unat_eq_iff unat_of_nat)
  qed
  then show ?thesis by (simp add: big_to_be_def i2osp_def signature_bytes_def Let_def)
qed

lemma or_byte:
  fixes w :: u32
  assumes "2 ^ (s + 8) dvd unat w" "s + 8 \<le> 32"
  shows "unat (w OR push_bit s (ucast (b :: byte))) = unat w + unat b * 2 ^ s"
proof -
  have b: "unat b < 2 ^ 8" using unat_less_exp [of b] by simp
  have lt: "unat b * 2 ^ s < 2 ^ (8 + s)" using b by (simp add: power_add)
  have "unat (push_bit s (ucast b :: u32)) = take_bit 32 (push_bit s (unat b))"
    by (simp add: unsigned_push_bit_eq unat_ucast_up)
  also have "\<dots> = unat b * 2 ^ s"
  proof -
    have "(2 :: nat) ^ (8 + s) \<le> 2 ^ 32" using assms(2) by (intro power_increasing) simp_all
    then show ?thesis using lt by (simp add: push_bit_eq_mult take_bit_nat_eq_self)
  qed
  finally have p: "unat (push_bit s (ucast b :: u32)) = unat b * 2 ^ s" .
  obtain m where m: "unat w = push_bit (s + 8) m" using assms(1) by (auto simp: push_bit_eq_mult mult.commute elim: dvdE)
  have "unat w AND (unat b * 2 ^ s) = 0"
  proof (rule bit_eqI)
    fix n
    have "\<not> bit (unat b * 2 ^ s) n" if "s + 8 \<le> n"
      using lt that by (simp add: bit_iff_odd add.commute) (metis div_less dvd_0_right less_le_trans one_le_numeral power_increasing)
    then show "bit (unat w AND (unat b * 2 ^ s)) n = bit (0 :: nat) n"
      unfolding m by (auto simp: bit_and_iff bit_push_bit_iff_nat)
  qed
  then show ?thesis unfolding unsigned_or_eq p by (simp add: disjunctive_add_eq_or)
qed

lemma big_put_value:
  assumes "length ls = 64" "n < 256" "limbs_value ls = A * 256 ^ (256 - n)"
  shows "length (big_put input n ls) = 64 \<and>
    limbs_value (big_put input n ls) = (256 * A + unat (input ! n)) * 256 ^ (255 - n)"
proof -
  define r where "r = 255 - n"
  define j where "j = r div 4"
  define s where "s = r mod 4 * 8"
  have p: "(256 :: nat) ^ r = 2 ^ (32 * j) * 2 ^ s" unfolding j_def s_def by (rule power_256_split)
  have jl: "j < length ls" and s: "s + 8 \<le> 32" using assms(1,2) by (simp_all add: j_def s_def r_def)
  have rn: "256 - n = Suc r" using assms(2) by (simp add: r_def)
  have v: "limbs_value ls = 2 ^ (32 * j) * (A * 2 ^ (s + 8))"
    unfolding assms(3) rn power_Suc p by (simp add: power_add)
  then have "unat (ls ! j) = A * 2 ^ (s + 8) mod 2 ^ 32" using limbs_value_nth [OF jl] by simp
  moreover have "(2 :: nat) ^ (s + 8) dvd 2 ^ 32" by (rule le_imp_power_dvd [OF s])
  ultimately have "2 ^ (s + 8) dvd unat (ls ! j)" by (metis dvd_mod dvd_triv_right)
  note o = or_byte [OF this s, of "input ! n"]
  have put: "big_put input n ls = ls[j := ls ! j OR push_bit s (ucast (input ! n))]"
    by (simp add: big_put_def signature_bytes_def r_def j_def s_def Let_def)
  have "limbs_value (big_put input n ls) = limbs_value ls + unat (input ! n) * (2 ^ (32 * j) * 2 ^ s)"
    using limbs_value_update [OF jl, of "ls ! j OR push_bit s (ucast (input ! n))"] unfolding put o
    by (simp add: algebra_simps)
  also have "\<dots> = (256 * A + unat (input ! n)) * 256 ^ r"
    unfolding assms(3) rn p [symmetric] by (simp add: algebra_simps)
  finally show ?thesis using assms(1) put unfolding r_def by simp
qed

lemma big_from_be_value:
  assumes "length input = 256"
  shows "big_wf (big_from_be input)" "big_value (big_from_be input) = os2ip input"
proof -
  have "length (fold (big_put input) [0..<n] (limb big_zero)) = 64 \<and>
      limbs_value (fold (big_put input) [0..<n] (limb big_zero)) = os2ip (take n input) * 256 ^ (256 - n)"
    if "n \<le> 256" for n
    using that
  proof (induction n)
    case 0
    then show ?case using big_zero_value by (simp add: big_wf_def big_value_def os2ip_def)
  next
    case (Suc n)
    have "take (Suc n) input = take n input @ [input ! n]" using Suc.prems assms by (simp add: take_Suc_conv_app_nth)
    then show ?case using Suc big_put_value [of "fold (big_put input) [0..<n] (limb big_zero)" n "os2ip (take n input)" input]
      by (simp add: os2ip_append)
  qed
  from this [of 256] show "big_wf (big_from_be input)" "big_value (big_from_be input) = os2ip input"
    using assms by (simp_all add: big_from_be_def signature_bytes_def big_wf_def big_value_def)
qed

end
