(* ===== verification/Rsa_Pss.thy ===== *)
theory Rsa_Pss
  imports Rsa_Big Security_Audit
begin

text \<open>
  RSASSA-PSS verification in the kernel (\<open>kernel/parts/rsa_pss.inc\<close>): the mask generation function
  over the kernel's SHA-256 and \<open>verify\<close>, which the signed policy databases, package repositories and
  update sets are checked with. The specification is the one of RFC 8017 for a 2048-bit modulus, the
  public exponent 65537, SHA-256 and a salt of 32 bytes: \<open>pss_encode\<close> is EMSA-PSS-ENCODE.
\<close>

section \<open>The verification\<close>

function mgf1_loop :: "bytes \<Rightarrow> nat \<Rightarrow> nat \<Rightarrow> u32 \<Rightarrow> bytes" where
  "mgf1_loop seed total_bytes offset counter =
    (if offset < total_bytes then
       let counter_be = [ucast (drop_bit 24 counter), ucast (drop_bit 16 counter), ucast (drop_bit 8 counter), ucast counter];
           block = guard_sha_final (guard_sha_update counter_be (guard_sha_update seed guard_sha_init));
           copied = min (total_bytes - offset) 32
       in take copied block @ mgf1_loop seed total_bytes (offset + copied) (counter + 1)
     else [])"
  by pat_completeness auto
termination by (relation "measure (\<lambda>(seed, total_bytes, offset, counter). total_bytes - offset)") auto

definition mgf1_sha256 :: "bytes \<Rightarrow> nat \<Rightarrow> bytes" where
  "mgf1_sha256 seed total_bytes = mgf1_loop seed total_bytes 0 0"

definition rsa_verify :: "bytes \<Rightarrow> bytes \<Rightarrow> bytes \<Rightarrow> bool" where
  "rsa_verify signature digest modulus_bytes =
    (let encoded_signature = big_from_be signature;
         modulus = big_from_be modulus_bytes
     in if modulus_bytes ! 0 AND 0x80 = 0 \<or> 0 \<le> big_compare encoded_signature modulus then False
        else
          let encoded = big_to_be (big_exp_65537 encoded_signature modulus) in
          if encoded ! 255 \<noteq> 0xBC \<or> encoded ! 0 AND 0x80 \<noteq> 0 then False
          else
            let encoded_hash = take 32 (drop 223 encoded);
                mask = mgf1_sha256 encoded_hash 223;
                database0 = map (\<lambda>i. encoded ! i XOR mask ! i) [0..<223];
                database = database0[0 := database0 ! 0 AND 0x7F];
                malformed0 = fold (\<lambda>i malformed. malformed OR database ! i) [0..<190] 0;
                malformed = malformed0 OR (database ! 190 XOR 1);
                message = replicate 8 0 @ digest @ take 32 (drop 191 database)
            in malformed = 0 \<and> digest_equal encoded_hash (guard_sha256 message))"

section \<open>The specification\<close>

definition pss_mask :: "bytes \<Rightarrow> nat \<Rightarrow> bytes" where
  "pss_mask seed n = take n (concat (map (\<lambda>c. sha256_spec (seed @ i2osp 4 c)) [0..<(n + 31) div 32]))"

definition pss_hash :: "bytes \<Rightarrow> bytes \<Rightarrow> bytes" where
  "pss_hash digest salt = sha256_spec (replicate 8 0 @ digest @ salt)"

definition clear_top_bit :: "bytes \<Rightarrow> bytes" where
  "clear_top_bit bs = bs[0 := bs ! 0 AND 0x7F]"

definition pss_encode :: "bytes \<Rightarrow> bytes \<Rightarrow> bytes" where
  "pss_encode digest salt =
    (let h = pss_hash digest salt;
         db = replicate 190 0 @ [1] @ salt
     in clear_top_bit (map (\<lambda>(a, b). a XOR b) (zip db (pss_mask h 223))) @ h @ [0xBC])"

section \<open>The mask generation function\<close>

lemma counter_be: "c < 2 ^ 32 \<Longrightarrow>
  [ucast (drop_bit 24 (word_of_nat c :: u32)), ucast (drop_bit 16 (word_of_nat c :: u32)),
   ucast (drop_bit 8 (word_of_nat c :: u32)), ucast (word_of_nat c :: u32)] = i2osp 4 c"
proof -
  assume c: "c < 2 ^ 32"
  then have u: "unat (word_of_nat c :: u32) = c" by (simp add: unat_of_nat_nowrap)
  have d: "unat (drop_bit k w) = unat w div 2 ^ k" for k and w :: u32 by (metis drop_bit_eq_div unat_drop_bit_eq)
  have b: "(ucast w :: byte) = word_of_nat (unat w)" for w :: u32
    by (simp add: word_unat_eq_iff unsigned_ucast_eq take_bit_eq_mod unat_of_nat)
  have "[0..<4] = [0, 1, 2, 3 :: nat]" by (simp add: upt_rec)
  then show ?thesis unfolding b d u by (simp add: i2osp_def)
qed

lemma guard_sha_pieces: "length seed + length rest < 2 ^ 64 \<Longrightarrow>
    guard_sha_final (guard_sha_update rest (guard_sha_update seed guard_sha_init)) = sha256_spec (seed @ rest)"
  using guard_update_after [OF guard_update_after [OF guard_after_init], of seed rest]
  by (intro guard_final_after) simp

lemma guard_sha256_spec: "length data < 2 ^ 64 \<Longrightarrow> guard_sha256 data = sha256_spec data"
  using guard_update_after [OF guard_after_init, of data] guard_final_after by (simp add: guard_sha256_def)

declare mgf1_loop.simps [simp del]

lemma mgf1_loop_spec:
  assumes "length seed = 32" "total_bytes < 2 ^ 32"
  shows "offset = 32 * c \<Longrightarrow> offset \<le> total_bytes + 31 \<Longrightarrow> mgf1_loop seed total_bytes (min offset total_bytes) (word_of_nat c) =
    take (total_bytes - offset) (concat (map (\<lambda>c. sha256_spec (seed @ i2osp 4 c)) [c..<(total_bytes + 31) div 32]))"
proof (induction "total_bytes - offset" arbitrary: offset c rule: less_induct)
  case less
  show ?case
  proof (cases "offset < total_bytes")
    case True
    then have c: "c < 2 ^ 32" "c < (total_bytes + 31) div 32" 
      using less.prems assms(2) by (simp_all add: less_eq_div_iff_mult_less_eq less_eq_Suc_le)
    let ?rest = "concat (map (\<lambda>c. sha256_spec (seed @ i2osp 4 c)) [Suc c..<(total_bytes + 31) div 32])"
    have block: "guard_sha_final (guard_sha_update (i2osp 4 c) (guard_sha_update seed guard_sha_init)) = sha256_spec (seed @ i2osp 4 c)"
      by (rule guard_sha_pieces) (simp add: assms(1) i2osp_def)
    have "mgf1_loop seed total_bytes (min (offset + 32) total_bytes) (word_of_nat (Suc c)) = take (total_bytes - (offset + 32)) ?rest"
    proof (rule less.hyps)
      show "total_bytes - (offset + 32) < total_bytes - offset" "offset + 32 \<le> total_bytes + 31"
        using True by linarith+
      show "offset + 32 = 32 * Suc c" using less.prems(1) by simp
    qed
    moreover have "offset + min (total_bytes - offset) 32 = min (offset + 32) total_bytes" using True by simp
    moreover have "word_of_nat (Suc c) = (word_of_nat c + 1 :: u32)" by simp
    ultimately have "mgf1_loop seed total_bytes offset (word_of_nat c) =
        take (min (total_bytes - offset) 32) (sha256_spec (seed @ i2osp 4 c)) @ take (total_bytes - (offset + 32)) ?rest"
      using True block by (subst mgf1_loop.simps) (simp only: Let_def counter_be [OF c(1)] if_True)
    then show ?thesis using True c(2) by (simp add: upt_conv_Cons min_def)
  next
    case False
    then show ?thesis by (simp add: mgf1_loop.simps)
  qed
qed

lemma mgf1_spec: "length seed = 32 \<Longrightarrow> n < 2 ^ 32 \<Longrightarrow> mgf1_sha256 seed n = pss_mask seed n"
  using mgf1_loop_spec [of seed n 0 0] by (simp add: mgf1_sha256_def pss_mask_def)

lemma length_pss_mask: "length (pss_mask seed 223) = 223"
proof -
  have "length (concat (map (\<lambda>c. sha256_spec (seed @ i2osp 4 c)) cs)) = 32 * length cs" for cs
    by (induction cs) simp_all
  then show ?thesis by (simp add: pss_mask_def)
qed

section \<open>Encoding and decoding\<close>

text \<open>The padding check of \<open>verify\<close> on an encoded message: the part after the exponentiation.\<close>

definition pss_accepts :: "bytes \<Rightarrow> bytes \<Rightarrow> bool" where
  "pss_accepts encoded digest \<longleftrightarrow> encoded ! 255 = 0xBC \<and> encoded ! 0 AND 0x80 = 0 \<and>
    (let h = take 32 (drop 223 encoded);
         db = clear_top_bit (map (\<lambda>i. encoded ! i XOR pss_mask h 223 ! i) [0..<223])
     in (\<forall>i<190. db ! i = 0) \<and> db ! 190 = 1 \<and> h = pss_hash digest (take 32 (drop 191 db)))"

lemma low7_low: "(a :: byte) AND 0x80 = 0 \<Longrightarrow> a AND 0x7F = a"
proof -
  assume "a AND 0x80 = 0"
  moreover have "a = (a AND 0x7F) OR (a AND 0x80)"
  proof -
    have "a AND (0x7F OR 0x80) = (a AND 0x7F) OR (a AND 0x80)" by (rule bit.conj_disj_distrib)
    moreover have "(0x7F OR 0x80 :: byte) = - 1" by simp
    ultimately show ?thesis by (metis and.right_neutral)
  qed
  ultimately show ?thesis by (metis or.right_neutral)
qed

lemma clear_top_xor: "(((a AND 0x7F) XOR m) AND 0x7F :: byte) = (a XOR m) AND 0x7F"
  by (rule bit_eqI) (auto simp: bit_simps)

lemma low7_top: "((a AND 0x7F) AND 0x80 :: byte) = 0"
proof -
  have "(a AND 0x7F) AND 0x80 = a AND (0x7F AND 0x80 :: byte)" by (rule and.assoc)
  then show ?thesis by simp
qed

lemma xor_twice: "((a XOR b) XOR b :: byte) = a"
  by (simp add: xor.assoc)

lemma pss_accepts_encode:
  assumes "length salt = 32"
  shows "length (pss_encode digest salt) = 256" "pss_accepts (pss_encode digest salt) digest"
proof -
  define h where "h = pss_hash digest salt"
  define db where "db = replicate 190 0 @ [1] @ salt"
  define masked where "masked = map (\<lambda>(a, b). a XOR b) (zip db (pss_mask h 223))"
  have lens: "length h = 32" "length db = 223" "length masked = 223" "length (pss_mask h 223) = 223"
    using assms by (simp_all add: h_def pss_hash_def db_def masked_def length_pss_mask)
  have enc: "pss_encode digest salt = clear_top_bit masked @ h @ [0xBC]"
    by (simp add: pss_encode_def Let_def h_def db_def masked_def)
  then show "length (pss_encode digest salt) = 256" using lens by (simp add: clear_top_bit_def)
  have h: "take 32 (drop 223 (pss_encode digest salt)) = h" using lens by (simp add: enc clear_top_bit_def)
  have e: "pss_encode digest salt ! i = (if i = 0 then (db ! 0 XOR pss_mask h 223 ! 0) AND 0x7F else db ! i XOR pss_mask h 223 ! i)"
    if "i < 223" for i
    using that lens by (simp add: enc nth_append clear_top_bit_def masked_def)
  have "clear_top_bit (map (\<lambda>i. pss_encode digest salt ! i XOR pss_mask h 223 ! i) [0..<223]) = db"
  proof (rule nth_equalityI)
    show "length (clear_top_bit (map (\<lambda>i. pss_encode digest salt ! i XOR pss_mask h 223 ! i) [0..<223])) = length db"
      using lens by (simp add: clear_top_bit_def)
    fix i assume "i < length (clear_top_bit (map (\<lambda>i. pss_encode digest salt ! i XOR pss_mask h 223 ! i) [0..<223]))"
    then have i: "i < 223" by (simp add: clear_top_bit_def)
    have "db ! 0 = 0" by (simp add: db_def nth_append)
    then show "clear_top_bit (map (\<lambda>i. pss_encode digest salt ! i XOR pss_mask h 223 ! i) [0..<223]) ! i = db ! i"
      using i e [OF i] by (cases "i = 0") (simp_all add: clear_top_bit_def clear_top_xor xor_twice)
  qed
  moreover have "pss_encode digest salt ! 255 = 0xBC" using lens by (simp add: enc nth_append clear_top_bit_def)
  moreover have "pss_encode digest salt ! 0 AND 0x80 = 0" using e [of 0] low7_top by simp
  moreover have "\<forall>i<190. db ! i = 0" "db ! 190 = 1" "take 32 (drop 191 db) = salt"
    using assms by (simp_all add: db_def nth_append)
  ultimately show "pss_accepts (pss_encode digest salt) digest"
    unfolding pss_accepts_def h Let_def by (simp add: h_def)
qed

lemma pss_accepts_only:
  assumes len: "length encoded = 256" and ok: "pss_accepts encoded digest"
  shows "\<exists>salt. length salt = 32 \<and> encoded = pss_encode digest salt"
proof -
  define h where "h = take 32 (drop 223 encoded)"
  define m where "m = pss_mask h 223"
  define db where "db = clear_top_bit (map (\<lambda>i. encoded ! i XOR m ! i) [0..<223])"
  define salt where "salt = drop 191 db"
  have c: "encoded ! 255 = 0xBC" "encoded ! 0 AND 0x80 = 0" "\<forall>i<190. db ! i = 0" "db ! 190 = 1"
    "h = pss_hash digest (take 32 (drop 191 db))"
    using ok unfolding pss_accepts_def Let_def h_def [symmetric] m_def [symmetric] db_def [symmetric] by blast+
  have l: "length db = 223" "length m = 223" "length salt = 32" by (simp_all add: db_def clear_top_bit_def m_def length_pss_mask salt_def)
  have h: "h = pss_hash digest salt" using c(5) l by (simp add: salt_def)
  have db: "db = replicate 190 0 @ [1] @ salt"
  proof (rule nth_equalityI)
    fix i assume "i < length db"
    then show "db ! i = (replicate 190 0 @ [1] @ salt) ! i"
      using c(3,4) l by (cases "i < 190"; cases "i = 190") (auto simp: nth_append salt_def nth_Cons')
  qed (simp add: l)
  have "take 223 encoded = clear_top_bit (map (\<lambda>(a, b). a XOR b) (zip db m))"
  proof (rule nth_equalityI)
    fix i assume "i < length (take 223 encoded)"
    then have i: "i < 223" by simp
    have "db ! i = (if i = 0 then (encoded ! 0 XOR m ! 0) AND 0x7F else encoded ! i XOR m ! i)"
      using i by (simp add: db_def clear_top_bit_def)
    then show "take 223 encoded ! i = clear_top_bit (map (\<lambda>(a, b). a XOR b) (zip db m)) ! i"
      using i l low7_low [OF c(2)] by (cases "i = 0") (simp_all add: clear_top_bit_def clear_top_xor xor_twice)
  qed (use len l in \<open>simp add: clear_top_bit_def\<close>)
  moreover have "encoded = take 223 encoded @ h @ [0xBC]"
  proof -
    have "drop 255 encoded = [encoded ! 255]" using len by (simp add: Cons_nth_drop_Suc [symmetric])
    then show ?thesis using append_take_drop_id [of 223 encoded] append_take_drop_id [of 32 "drop 223 encoded"] c(1)
      unfolding h_def by simp
  qed
  ultimately have "encoded = pss_encode digest salt"
    unfolding pss_encode_def Let_def h [symmetric] db [symmetric] m_def [symmetric] by simp
  then show ?thesis using l(3) by blast
qed

section \<open>Numbers and byte strings\<close>

lemma length_i2osp [simp]: "length (i2osp n v) = n"
  by (simp add: i2osp_def)

lemma i2osp_Suc: "i2osp (Suc n) v = i2osp n (v div 256) @ [word_of_nat v]"
proof -
  have "map (\<lambda>i. word_of_nat (v div 256 ^ (n - i))) [0..<n] = (map (\<lambda>i. word_of_nat (v div 256 div 256 ^ (n - 1 - i))) [0..<n] :: bytes)"
  proof (rule map_cong [OF refl])
    fix i assume "i \<in> set [0..<n]"
    then have "256 ^ (n - i) = 256 * (256 :: nat) ^ (n - 1 - i)" by (cases "n - i") auto
    then show "word_of_nat (v div 256 ^ (n - i)) = (word_of_nat (v div 256 div 256 ^ (n - 1 - i)) :: byte)"
      by (simp add: div_mult2_eq)
  qed
  then show ?thesis by (simp add: i2osp_def)
qed

lemma os2ip_i2osp: "v < 256 ^ n \<Longrightarrow> os2ip (i2osp n v) = v"
proof (induction n arbitrary: v)
  case 0
  then show ?case by (simp add: i2osp_def os2ip_def)
next
  case (Suc n)
  have "v div 256 < 256 ^ n" using Suc.prems by (simp add: less_mult_imp_div_less mult.commute)
  then show ?case using Suc.IH [of "v div 256"] by (simp add: i2osp_Suc os2ip_append unat_of_nat)
qed

lemma i2osp_os2ip: "i2osp (length bs) (os2ip bs) = bs"
proof (induction bs rule: rev_induct)
  case Nil
  then show ?case by (simp add: i2osp_def)
next
  case (snoc b bs)
  have "unat b < 256" using unat_less_exp [of b] by simp
  then have "(256 * os2ip bs + unat b) div 256 = os2ip bs" by simp
  moreover have "(word_of_nat (256 * os2ip bs + unat b) :: byte) = b"
  proof -
    have "(256 :: byte) = 0" by simp
    then have z: "(256 :: byte) * x = 0" for x by (metis mult_zero_left)
    show ?thesis by (simp add: z)
  qed
  ultimately show ?case using snoc by (simp only: length_append_singleton i2osp_Suc os2ip_append)
qed

lemma os2ip_Cons: "os2ip (b # bs) = unat b * 256 ^ length bs + os2ip bs"
  by (induction bs rule: rev_induct) (simp_all add: os2ip_append [of "b # _", simplified] os2ip_append os2ip_def algebra_simps)

lemma os2ip_bound: "os2ip bs < 256 ^ length bs"
proof (induction bs)
  case (Cons b bs)
  have "unat b < 256" using unat_less_exp [of b] by simp
  then have "(unat b + 1) * 256 ^ length bs \<le> 256 * 256 ^ length bs" by (intro mult_le_mono1) simp
  then have "unat b * 256 ^ length bs + 256 ^ length bs \<le> 256 * 256 ^ length bs"
    by (simp only: distrib_right mult_1)
  then show ?case using Cons unfolding os2ip_Cons length_Cons power_Suc by linarith
qed (simp add: os2ip_def)

lemma top_bit_value:
  assumes "length bs = 256"
  shows "bs ! 0 AND 0x80 \<noteq> 0 \<longleftrightarrow> 2 ^ 7 * 256 ^ 255 \<le> os2ip bs"
proof -
  obtain b cs where bs: "bs = b # cs" "length cs = 255" using assms by (cases bs) auto
  have b: "b AND 0x80 \<noteq> 0 \<longleftrightarrow> 128 \<le> unat b"
  proof -
    have "(0x80 :: byte) = push_bit 7 1" by simp
    then have "b AND 0x80 \<noteq> 0 \<longleftrightarrow> bit b 7" by (simp only: and_push_bit_one)
    also have "\<dots> \<longleftrightarrow> bit (unat b) 7" by (simp add: bit_unsigned_iff)
    also have "\<dots> \<longleftrightarrow> odd (unat b div 128)" using bit_iff_odd [of "unat b" 7] by simp
    also have "\<dots> \<longleftrightarrow> 128 \<le> unat b"
    proof (cases "128 \<le> unat b")
      case True
      have "unat b < 256" using unat_less_exp [of b] by simp
      then have "unat b div 128 = 1" using True by (intro div_nat_eqI) simp_all
      then show ?thesis using True by simp
    qed simp
    finally show ?thesis .
  qed
  have cs: "os2ip cs < 256 ^ 255" using os2ip_bound [of cs] bs(2) by simp
  have v: "os2ip bs = unat b * 256 ^ 255 + os2ip cs" unfolding bs(1) os2ip_Cons bs(2) ..
  define K where "K = (256 :: nat) ^ 255"
  have "128 * K \<le> unat b * K + os2ip cs \<longleftrightarrow> 128 \<le> unat b"
  proof
    assume "128 \<le> unat b"
    then have "128 * K \<le> unat b * K" by (rule mult_le_mono1)
    then show "128 * K \<le> unat b * K + os2ip cs" by (rule trans_le_add1)
  next
    assume a: "128 * K \<le> unat b * K + os2ip cs"
    show "128 \<le> unat b"
    proof (rule ccontr)
      assume "\<not> 128 \<le> unat b"
      then have "(unat b + 1) * K \<le> 128 * K" by (intro mult_le_mono1) simp
      then show False using a cs unfolding K_def [symmetric] distrib_right mult_1 by linarith
    qed
  qed
  then show ?thesis using b unfolding v K_def [symmetric] by (simp add: bs(1))
qed

section \<open>The verification is the one of the specification\<close>

lemma rsa_verify_accepts:
  assumes len: "length (big_to_be (big_exp_65537 (big_from_be signature) (big_from_be modulus))) = 256"
    and d: "length digest = 32"
  shows "rsa_verify signature digest modulus \<longleftrightarrow>
    modulus ! 0 AND 0x80 \<noteq> 0 \<and> \<not> 0 \<le> big_compare (big_from_be signature) (big_from_be modulus) \<and>
    pss_accepts (big_to_be (big_exp_65537 (big_from_be signature) (big_from_be modulus))) digest"
proof -
  define encoded where "encoded = big_to_be (big_exp_65537 (big_from_be signature) (big_from_be modulus))"
  define h where "h = take 32 (drop 223 encoded)"
  define db where "db = clear_top_bit (map (\<lambda>i. encoded ! i XOR pss_mask h 223 ! i) [0..<223])"
  have l: "length h = 32" "length db = 223" using len by (simp_all add: h_def db_def clear_top_bit_def encoded_def)
  have m: "mgf1_sha256 h 223 = pss_mask h 223" by (rule mgf1_spec) (simp_all add: l)
  have msg: "guard_sha256 (replicate 8 0 @ digest @ take 32 (drop 191 db)) = pss_hash digest (take 32 (drop 191 db))"
    unfolding pss_hash_def by (rule guard_sha256_spec) (simp add: d l)
  have eq: "digest_equal h (pss_hash digest x) \<longleftrightarrow> h = pss_hash digest x" for x
    using l by (simp add: kernel_host_equal same_hash_iff pss_hash_def)
  have bad: "fold (\<lambda>i malformed. malformed OR db ! i) [0..<190] 0 OR (db ! 190 XOR 1) = 0 \<longleftrightarrow> (\<forall>i<190. db ! i = 0) \<and> db ! 190 = 1"
    by (simp add: or_eq_0_iff fold_or_zero Ball_def)
  show ?thesis
    unfolding rsa_verify_def pss_accepts_def Let_def encoded_def [symmetric] h_def [symmetric] m
      clear_top_bit_def [symmetric] db_def [symmetric] msg eq bad
    by auto
qed

lemma rsa_verify_spec:
  assumes len: "length signature = 256" "length digest = 32" "length modulus = 256"
  shows "rsa_verify signature digest modulus \<longleftrightarrow>
    2 ^ 7 * 256 ^ 255 \<le> os2ip modulus \<and> os2ip signature < os2ip modulus \<and>
    (\<exists>salt. length salt = 32 \<and> os2ip signature ^ 65537 mod os2ip modulus = os2ip (pss_encode digest salt))"
proof -
  define s where "s = big_from_be signature"
  define m where "m = big_from_be modulus"
  define e where "e = os2ip signature ^ 65537 mod os2ip modulus"
  have sv: "big_wf s" "big_value s = os2ip signature" "big_wf m" "big_value m = os2ip modulus"
    using len by (simp_all add: s_def m_def big_from_be_value)
  note guards = top_bit_value [OF len(3)] big_compare_value [OF sv(1,3), unfolded sv(2,4)]
  show ?thesis
  proof (cases "2 ^ 7 * 256 ^ 255 \<le> os2ip modulus \<and> os2ip signature < os2ip modulus")
    case True
    have "1 < (2 :: nat) ^ 7 * 256 ^ 255" by simp
    then have one: "1 < os2ip modulus" using True by linarith
    note ev = big_exp_65537_value [OF sv(1,3), unfolded sv(2,4), OF conjunct2 [OF True] one, folded e_def]
    have enc: "big_to_be (big_exp_65537 s m) = i2osp 256 e" using big_to_be_value [OF ev(1)] ev(2) by simp
    have "e < os2ip modulus" unfolding e_def using one by (intro mod_less_divisor) simp
    also have "\<dots> < 256 ^ 256" using os2ip_bound [of modulus] unfolding len(3) .
    finally have "e < 256 ^ 256" .
    then have e: "os2ip (i2osp 256 e) = e" by (rule os2ip_i2osp)
    have "pss_accepts (i2osp 256 e) digest \<longleftrightarrow> (\<exists>salt. length salt = 32 \<and> e = os2ip (pss_encode digest salt))"
    proof
      assume "pss_accepts (i2osp 256 e) digest"
      then show "\<exists>salt. length salt = 32 \<and> e = os2ip (pss_encode digest salt)"
        using pss_accepts_only [of "i2osp 256 e" digest] e by auto
    next
      assume "\<exists>salt. length salt = 32 \<and> e = os2ip (pss_encode digest salt)"
      then obtain salt where "length salt = 32" "e = os2ip (pss_encode digest salt)" by blast
      then show "pss_accepts (i2osp 256 e) digest"
        using pss_accepts_encode [of salt digest] i2osp_os2ip [of "pss_encode digest salt"] by simp
    qed
    then show ?thesis
      using True guards rsa_verify_accepts [of signature modulus digest] len(2)
      unfolding s_def [symmetric] m_def [symmetric] enc e_def [symmetric] by (simp add: not_le)
  next
    case False
    have "\<not> rsa_verify signature digest modulus"
      using False guards unfolding rsa_verify_def Let_def s_def [symmetric] m_def [symmetric] by (auto simp: not_le)
    then show ?thesis using False by blast
  qed
qed

lemma pss_encode_positive: "os2ip (pss_encode digest salt) \<noteq> 0"
  by (simp add: pss_encode_def Let_def os2ip_append flip: append_assoc)

text \<open>
  C14: The kernel accepts a signature of a digest exactly when RSASSA-PSS-VERIFY of RFC 8017 does: for every
  256-byte signature, 32-byte digest and 256-byte modulus, \<open>verify\<close> returns true if and only if the modulus
  has its full 2048 bits, the signature is less than the modulus, and its 65537th power modulo the modulus is
  the EMSA-PSS encoding of the digest for some salt of 32 bytes. The limb arithmetic (with its wrapping adds and
  borrows), the square-and-multiply loop, the mask generation and the padding check are all part of it: nothing
  but an encoding of this very digest is accepted, and every such encoding is.
\<close>

theorem rsa_verify_correct:
  assumes "length signature = 256" "length digest = 32" "length modulus = 256"
  shows "rsa_verify signature digest modulus \<longleftrightarrow>
    2 ^ 7 * 256 ^ 255 \<le> os2ip modulus \<and> os2ip signature < os2ip modulus \<and>
    (\<exists>salt. length salt = 32 \<and> os2ip signature ^ 65537 mod os2ip modulus = os2ip (pss_encode digest salt))"
  using assms by (rule rsa_verify_spec)

theorem rsa_verify_correct_witness:
  "\<not> rsa_verify (replicate 256 0) (replicate 32 7) (replicate 256 0xFF)"
proof -
  have z: "os2ip (replicate n 0) = 0" for n by (induction n) (simp_all add: os2ip_def)
  then have "(os2ip (replicate 256 0)) ^ 65537 mod m = 0" for m by simp
  then show ?thesis
    using rsa_verify_correct [of "replicate 256 0" "replicate 32 7" "replicate 256 0xFF"] pss_encode_positive
    by (metis length_replicate)
qed

end
