(* ===== verification/Div64.thy ===== *)
theory Div64
  imports Prelude "HOL-Library.Signed_Division"
begin

text \<open>
  The 64-bit division runtime of the freestanding 32-bit kernel (\<open>kernel/parts/div64_runtime.inc\<close>):
  \<open>__udivmoddi4\<close>, \<open>__udivdi3\<close>, \<open>__umoddi3\<close> and \<open>__divdi3\<close>. The compiler calls these functions
  wherever the kernel divides 64-bit integers, so that their result must be the quotient and the
  remainder for every pair of operands, with the value the code chooses for a zero divisor.

  A pointer argument that may be null is an option: \<open>None\<close> is \<open>nullptr\<close>, \<open>Some v\<close> a cell holding \<open>v\<close>.
  The remainder is shifted left before it is compared, which for divisors above \<open>2 ^ 63\<close> could lose
  its top bit; the loop invariant shows that it never does.
\<close>

section \<open>The runtime\<close>

definition store_remainder :: "u64 option \<Rightarrow> u64 \<Rightarrow> u64 option" where
  "store_remainder remainder_output remainder = map_option (\<lambda>_. remainder) remainder_output"

text \<open>The loop over the bits, from \<open>k - 1\<close> down to 0.\<close>

fun udivmod_loop :: "nat \<Rightarrow> u64 \<Rightarrow> u64 \<Rightarrow> u64 \<Rightarrow> u64 \<Rightarrow> u64 \<times> u64" where
  "udivmod_loop 0 numerator denominator quot remainder = (quot, remainder)"
| "udivmod_loop (Suc k) numerator denominator quot remainder =
    (let shifted = push_bit 1 remainder OR (drop_bit k numerator AND 1) in
     if denominator \<le> shifted
     then udivmod_loop k numerator denominator (quot OR push_bit k 1) (shifted - denominator)
     else udivmod_loop k numerator denominator quot shifted)"

definition udivmoddi4 :: "u64 \<Rightarrow> u64 \<Rightarrow> u64 option \<Rightarrow> u64 \<times> u64 option" where
  "udivmoddi4 numerator denominator remainder_output =
    (if denominator = 0 then (0, store_remainder remainder_output 0)
     else if drop_bit 32 numerator = 0 \<and> drop_bit 32 denominator = 0 then
       (let numerator32 = ucast numerator :: u32; denominator32 = ucast denominator :: u32 in
        (ucast (numerator32 div denominator32),
         store_remainder remainder_output (ucast (numerator32 mod denominator32))))
     else
       (case udivmod_loop 64 numerator denominator 0 0 of
          (quot, remainder) \<Rightarrow> (quot, store_remainder remainder_output remainder)))"

definition udivdi3 :: "u64 \<Rightarrow> u64 \<Rightarrow> u64" where
  "udivdi3 numerator denominator = fst (udivmoddi4 numerator denominator None)"

definition umoddi3 :: "u64 \<Rightarrow> u64 \<Rightarrow> u64" where
  "umoddi3 numerator denominator =
    (case snd (udivmoddi4 numerator denominator (Some 0)) of Some remainder \<Rightarrow> remainder | None \<Rightarrow> 0)"

text \<open>\<open>__divdi3\<close> works on the magnitudes; an \<open>int64_t\<close> is the word of its two's complement.\<close>

definition unsigned_magnitude :: "u64 \<Rightarrow> u64" where
  "unsigned_magnitude v = (if sint v < 0 then - (v + 1) + 1 else v)"

definition divdi3 :: "u64 \<Rightarrow> u64 \<Rightarrow> u64" where
  "divdi3 numerator denominator =
    (if denominator = 0 then 0
     else let negative = ((sint numerator < 0) \<noteq> (sint denominator < 0));
              quot = udivdi3 (unsigned_magnitude numerator) (unsigned_magnitude denominator)
          in if \<not> negative then quot else - (quot - 1) - 1)"

section \<open>The long division loop\<close>

lemma unat_push_or_bit:
  fixes r n :: u64
  assumes "unat r < 2 ^ 63"
  shows "unat (push_bit 1 r OR (drop_bit k n AND 1)) = 2 * unat r + (unat n div 2 ^ k) mod 2"
proof -
  have a: "unat (push_bit 1 r) = 2 * unat r"
    using assms by (simp add: push_bit_eq_mult unat_word_ariths)
  have b: "unat (drop_bit k n AND 1) = (unat n div 2 ^ k) mod 2"
    by (simp add: and_one_eq unat_mod) (simp only: unat_drop_bit_eq drop_bit_eq_div flip: drop_bit_eq_div)
  have d: "unat (push_bit 1 r) AND unat (drop_bit k n AND 1) = 0"
    unfolding a b by (rule bit_eqI) (auto simp: bit_simps bit_double_iff mod_2_eq_odd)
  show ?thesis unfolding unsigned_or_eq a b
    using d unfolding a b by (simp add: disjunctive_add_eq_or)
qed

lemma unat_or_push_one:
  fixes q :: u64
  assumes q: "unat q = 2 ^ Suc k * m" and k: "k < 64"
  shows "unat (q OR push_bit k 1) = unat q + 2 ^ k"
proof -
  have b: "unat (push_bit k (1 :: u64)) = 2 ^ k"
    using power_strict_increasing [OF k, of "2 :: nat"] unat_of_nat_nowrap [of "2 ^ k", where 'a = 64]
    by (simp add: push_bit_eq_mult)
  have "unat q = push_bit (Suc k) m" using q by (simp only: push_bit_eq_mult mult.commute)
  then have d: "unat q AND 2 ^ k = 0"
    by (auto intro!: bit_eqI simp: bit_and_iff bit_push_bit_iff_nat bit_exp_iff simp del: push_bit_Suc)
  show ?thesis unfolding unsigned_or_eq b using d by (simp add: disjunctive_add_eq_or)
qed

lemma div_mod_next_bit:
  fixes n :: nat
  shows "n div 2 ^ k = 2 * (n div 2 ^ Suc k) + (n div 2 ^ k) mod 2"
proof -
  have "n div 2 ^ Suc k = n div 2 ^ k div 2"
    by (simp add: div_mult2_eq mult.commute [of 2] del: div_mult2_eq') 
  then show ?thesis by simp
qed

lemma long_division_step:
  fixes x b D :: nat
  assumes "0 < D" "b < 2"
  shows "D \<le> 2 * (x mod D) + b \<Longrightarrow> (2 * x + b) mod D = 2 * (x mod D) + b - D"
    and "D \<le> 2 * (x mod D) + b \<Longrightarrow> (2 * x + b) div D = 2 * (x div D) + 1"
    and "\<not> D \<le> 2 * (x mod D) + b \<Longrightarrow> (2 * x + b) mod D = 2 * (x mod D) + b"
    and "\<not> D \<le> 2 * (x mod D) + b \<Longrightarrow> (2 * x + b) div D = 2 * (x div D)"
proof -
  let ?r = "2 * (x mod D) + b"
  have x: "2 * x + b = 2 * (x div D) * D + ?r"
    by (metis (no_types, lifting) add.assoc distrib_left div_mult_mod_eq mult.assoc)
  have r: "?r < 2 * D" using assms mod_less_divisor [of D x] by linarith
  {
    assume "D \<le> ?r"
    with r have e: "2 * x + b = (2 * (x div D) + 1) * D + (?r - D)" and l: "?r - D < D"
      using x by (simp_all add: algebra_simps)
    show "(2 * x + b) mod D = ?r - D" unfolding e mod_mult_self3 using l by (rule mod_less)
    show "(2 * x + b) div D = 2 * (x div D) + 1" unfolding e using l assms(1)
      by (simp only: div_mult_self3 div_less neq0_conv add_0_right)
  next
    assume "\<not> D \<le> ?r"
    then have l: "?r < D" by simp
    show "(2 * x + b) mod D = ?r" unfolding x mod_mult_self3 using l by (rule mod_less)
    show "(2 * x + b) div D = 2 * (x div D)" unfolding x using l assms(1)
      by (simp only: div_mult_self3 div_less neq0_conv add_0_right)
  }
qed

lemma udivmod_loop_correct:
  assumes "denominator \<noteq> 0" "k \<le> 64"
    and "unat remainder = (unat numerator div 2 ^ k) mod unat denominator"
    and "unat quot = 2 ^ k * (unat numerator div 2 ^ k div unat denominator)"
  shows "\<exists>q r. udivmod_loop k numerator denominator quot remainder = (q, r) \<and>
    unat q = unat numerator div unat denominator \<and> unat r = unat numerator mod unat denominator"
  using assms(2-)
proof (induction k arbitrary: quot remainder)
  case 0
  then show ?case by simp
next
  case (Suc k)
  let ?N = "unat numerator" and ?D = "unat denominator"
  let ?x = "?N div 2 ^ Suc k" and ?b = "(?N div 2 ^ k) mod 2"
  let ?s = "push_bit 1 remainder OR (drop_bit k numerator AND 1)"
  have D: "0 < ?D" using assms(1) by (simp add: unat_gt_0)
  have "?x \<le> ?N div 2" using div_le_mono2 [of 2 "2 ^ Suc k" ?N] by simp
  then have "?x < 2 ^ 63" using unat_less_exp [of numerator] by simp
  then have "unat remainder < 2 ^ 63" using Suc.prems(2) mod_less_eq_dividend [of ?x ?D] by linarith
  then have s: "unat ?s = 2 * (?x mod ?D) + ?b" using Suc.prems(2) by (simp only: unat_push_or_bit)
  have y: "?N div 2 ^ k = 2 * ?x + ?b" by (rule div_mod_next_bit)
  note step = long_division_step [OF D, of ?b ?x]
  show ?case
  proof (cases "denominator \<le> ?s")
    case True
    then have le: "?D \<le> 2 * (?x mod ?D) + ?b" using s by (simp add: word_le_nat_alt)
    have r: "unat (?s - denominator) = (?N div 2 ^ k) mod ?D"
      using True s step(1) [OF _ le] y by (simp add: unat_sub)
    have "unat (quot OR push_bit k 1) = 2 ^ Suc k * (?x div ?D) + 2 ^ k"
      using unat_or_push_one [OF Suc.prems(3)] Suc.prems(1,3) by simp
    then have q: "unat (quot OR push_bit k 1) = 2 ^ k * (?N div 2 ^ k div ?D)"
      using step(2) [OF _ le] y by (simp add: algebra_simps)
    show ?thesis using Suc.IH [OF _ r q] Suc.prems(1) True by (simp add: Let_def)
  next
    case False
    then have le: "\<not> ?D \<le> 2 * (?x mod ?D) + ?b" using s by (simp add: word_le_nat_alt)
    have r: "unat ?s = (?N div 2 ^ k) mod ?D" using s step(3) [OF _ le] y by simp
    have q: "unat quot = 2 ^ k * (?N div 2 ^ k div ?D)"
      using Suc.prems(3) step(4) [OF _ le] y by (simp add: algebra_simps)
    show ?thesis using Suc.IH [OF _ r q] Suc.prems(1) False by (simp add: Let_def)
  qed
qed

section \<open>Correctness\<close>

lemma drop_32_ucast:
  "drop_bit 32 (w :: u64) = 0 \<Longrightarrow> unat (ucast w :: u32) = unat w"
proof -
  assume "drop_bit 32 w = 0"
  then have "unat w div 2 ^ 32 = 0" by (metis drop_bit_eq_div unat_0 unat_drop_bit_eq)
  then have "unat w < 2 ^ 32" by (simp add: div_eq_0_iff)
  then show ?thesis by (simp add: unsigned_ucast_eq take_bit_nat_eq_self)
qed

lemma udivmoddi4_div_mod:
  "udivmoddi4 n d out = (n div d, store_remainder out (if d = 0 then 0 else n mod d))"
proof (cases "d = 0")
  case True
  then show ?thesis by (simp add: udivmoddi4_def)
next
  case d: False
  show ?thesis
  proof (cases "drop_bit 32 n = 0 \<and> drop_bit 32 d = 0")
    case True
    then have "ucast (ucast n div ucast d :: u32) = n div d" "ucast (ucast n mod ucast d :: u32) = n mod d"
      by (simp_all add: word_unat_eq_iff unat_ucast_up unat_div unat_mod drop_32_ucast)
    with True d show ?thesis by (simp add: udivmoddi4_def Let_def)
  next
    case False
    have N: "unat n div 2 ^ 64 = 0" using unat_less_exp [of n] by simp
    obtain q r where "udivmod_loop 64 n d 0 0 = (q, r)"
      "unat q = unat n div unat d" "unat r = unat n mod unat d"
      using udivmod_loop_correct [OF d, of 64 0 n 0] N by auto
    moreover from this have "q = n div d" "r = n mod d"
      by (simp_all add: word_unat_eq_iff unat_div unat_mod)
    ultimately show ?thesis using False d by (auto simp: udivmoddi4_def)
  qed
qed

lemma udivdi3_div [simp]: "udivdi3 n d = n div d"
  by (simp add: udivdi3_def udivmoddi4_div_mod)

lemma unsigned_magnitude_abs: "uint (unsigned_magnitude v) = \<bar>sint v\<bar>"
proof -
  have r: "- (2 ^ 63) \<le> sint v" "sint v < 2 ^ 63" using sint_range_size [of v] by (simp_all add: word_size)
  have "- (v + 1) + 1 = - v" by simp
  moreover have "uint (- v) = - sint v" if "sint v < 0"
  proof -
    have "uint (- v) = (- sint v) mod 2 ^ 64"
      using uint_word_of_int [of "- sint v", where 'a = 64] by simp
    then show ?thesis using that r by simp
  qed
  moreover have "uint v = sint v" if "\<not> sint v < 0"
  proof -
    have "uint v = (sint v) mod 2 ^ 64" 
      using uint_word_of_int [of "sint v", where 'a = 64] by simp
    then show ?thesis using that r by simp
  qed
  ultimately show ?thesis unfolding unsigned_magnitude_def by simp
qed

lemma sint_word_of_int_64: "sint (word_of_int k :: u64) = signed_take_bit 63 k"
    "sint (- word_of_int k :: u64) = signed_take_bit 63 (- k)"
  using signed_of_int [of k, where 'b = 64 and 'a = int] signed_of_int [of "- k", where 'b = 64 and 'a = int]
  by simp_all

text \<open>
  C25: The unsigned 64-bit division runtime returns the quotient and, through a non-null pointer, the
  remainder, on the 32-bit fast path as on the bit-by-bit path, for every numerator and every
  denominator up to \<open>2 ^ 64 - 1\<close>; with a zero denominator it returns 0 and stores 0.
\<close>

theorem udivmoddi4_correct:
  "udivmoddi4 n d out = (n div d, map_option (\<lambda>_. if d = 0 then 0 else n mod d) out) \<and>
    udivdi3 n d = n div d \<and> umoddi3 n d = (if d = 0 then 0 else n mod d)"
  by (simp add: udivmoddi4_div_mod umoddi3_def store_remainder_def)

text \<open>
  C26: The signed 64-bit division runtime truncates towards zero for every pair of operands, at the
  boundaries too: the one quotient that does not fit, \<open>-(2 ^ 63) / -1\<close>, wraps to \<open>-(2 ^ 63)\<close>, and a
  zero denominator gives 0.
\<close>

theorem divdi3_truncates:
  "sint (divdi3 n d) = signed_take_bit 63 (sint n sdiv sint d)"
proof -
  let ?q = "unsigned_magnitude n div unsigned_magnitude d"
  have q: "?q = word_of_int (\<bar>sint n\<bar> div \<bar>sint d\<bar>)"
    unfolding unsigned_magnitude_abs [symmetric] uint_div [symmetric] by simp
  have "sint d = 0 \<longleftrightarrow> d = 0" by (simp add: signed_eq_0_iff)
  then show ?thesis unfolding divdi3_def
    by (auto simp: Let_def q sint_word_of_int_64 signed_divide_int_def sgn_if)
qed

end
