(* ===== verification/Allocator.thy ===== *)
theory Allocator
  imports Prelude
begin

text \<open>
  What a memory allocator of the kernel promises to the code that uses it, as two interfaces. An
  \<open>allocator\<close> hands out what is not handed out already, changes nothing when it has to refuse, and takes
  back whatever is live. A \<open>checked_allocator\<close> also refuses, without effect, to take back anything else.
  The client lemmas are about whole runs of calls: they are proved here once and hold for the frame
  allocator and for the kernel heap through the interpretations in their theories.
\<close>

datatype ('r, 'a) call = Allocate 'r | Release 'a

locale allocator =
  fixes ok :: "'s \<Rightarrow> bool"
    and live :: "'s \<Rightarrow> 'a set"
    and alloc :: "'r \<Rightarrow> 's \<Rightarrow> 'a option \<times> 's"
    and release :: "'a \<Rightarrow> 's \<Rightarrow> bool \<times> 's"
  assumes alloc_fresh: "ok s \<Longrightarrow> alloc r s = (Some x, s') \<Longrightarrow> ok s' \<and> x \<notin> live s \<and> live s' = insert x (live s)"
    and alloc_refuses: "ok s \<Longrightarrow> alloc r s = (None, s') \<Longrightarrow> s' = s"
    and release_live: "ok s \<Longrightarrow> x \<in> live s \<Longrightarrow> \<exists>s'. release x s = (True, s') \<and> ok s' \<and> live s' = live s - {x}"
begin

text \<open>Taking back everything that is live, in any order.\<close>

fun release_each :: "'a list \<Rightarrow> 's \<Rightarrow> bool \<times> 's" where
  "release_each [] s = (True, s)"
| "release_each (x # xs) s =
    (case release x s of (done, s1) \<Rightarrow> case release_each xs s1 of (rest, s2) \<Rightarrow> (done \<and> rest, s2))"

lemma release_each_live:
  "ok s \<Longrightarrow> distinct xs \<Longrightarrow> set xs \<subseteq> live s \<Longrightarrow>
    \<exists>s'. release_each xs s = (True, s') \<and> ok s' \<and> live s' = live s - set xs"
proof (induction xs arbitrary: s)
  case (Cons x xs)
  obtain s1 where s1: "release x s = (True, s1)" "ok s1" "live s1 = live s - {x}"
    using release_live [OF Cons.prems(1), of x] Cons.prems(3) by auto
  obtain s2 where "release_each xs s1 = (True, s2)" "ok s2" "live s2 = live s1 - set xs"
    using Cons.IH [OF s1(2)] Cons.prems(2,3) s1(3) by auto
  then show ?case using s1 by auto
qed simp

end

locale checked_allocator = allocator ok live alloc release
  for ok :: "'s \<Rightarrow> bool" and live :: "'s \<Rightarrow> 'a set"
    and alloc :: "'r \<Rightarrow> 's \<Rightarrow> 'a option \<times> 's" and release :: "'a \<Rightarrow> 's \<Rightarrow> bool \<times> 's" +
  assumes release_dead: "ok s \<Longrightarrow> x \<notin> live s \<Longrightarrow> release x s = (False, s)"
begin

fun perform :: "('r, 'a) call \<Rightarrow> 's \<Rightarrow> 's" where
  "perform (Allocate r) s = snd (alloc r s)"
| "perform (Release x) s = snd (release x s)"

lemma perform_ok: "ok s \<Longrightarrow> ok (perform c s)"
proof (cases c)
  case (Allocate r)
  assume s: "ok s"
  obtain a s1 where a: "alloc r s = (a, s1)" by fastforce
  then have "ok s1" using alloc_fresh [OF s, of r] alloc_refuses [OF s, of r] s by (cases a) auto
  then show ?thesis using a Allocate by simp
next
  case (Release x)
  assume s: "ok s"
  obtain d s1 where d: "release x s = (d, s1)" by fastforce
  have "ok s1"
  proof (cases "x \<in> live s")
    case True
    from release_live [OF s this] d show ?thesis by simp
  next
    case False
    from release_dead [OF s this] d s show ?thesis by simp
  qed
  then show ?thesis using d Release by simp
qed

lemma run_ok: "ok s \<Longrightarrow> ok (fold perform calls s)"
  by (induction calls arbitrary: s) (auto intro: perform_ok)

lemma no_double_release: "ok s \<Longrightarrow> release x s = (True, s1) \<Longrightarrow> release x s1 = (False, s1)"
proof -
  assume s: "ok s" and r: "release x s = (True, s1)"
  have "x \<in> live s" using release_dead [OF s] r by fastforce
  from release_live [OF s this] r have "ok s1" "x \<notin> live s1" by auto
  then show ?thesis by (rule release_dead)
qed

end

end
