(* ===== verification/Kernel_Heap.thy ===== *)
theory Kernel_Heap
  imports Allocator
begin

text \<open>
  The kernel heap (\<open>kernel/parts/memory.inc\<close>, namespace \<open>heap\<close>): a first-fit allocator over the two
  megabytes from \<open>0x00100000\<close> to \<open>0x00300000\<close>, whose blocks form a doubly linked list of headers that
  lie in the managed memory itself, each followed by its payload.

  Pointers are 32-bit addresses (0 is \<open>nullptr\<close>), and \<open>hp_memory\<close> is the store the headers are read
  from and written to: \<open>hp_memory h a\<close> is the \<open>Block\<close> at address \<open>a\<close>. All address arithmetic wraps as
  \<open>uintptr_t\<close> does on the 32-bit target, where \<open>sizeof(Block)\<close> is 32 (24 bytes of fields, aligned to 16).
  The loops follow the \<open>next\<close> pointers and may run forever on a corrupted list, so they are partial
  functions into option: \<open>None\<close> means that the loop does not end. The theorems show that on a heap
  that satisfies the invariant every operation ends.
\<close>

section \<open>Blocks and the heap\<close>

record block =
  blk_signature :: u32
  blk_capacity :: u32
  blk_requested :: u32
  blk_flags :: u32
  blk_previous :: u32
  blk_next :: u32

record heap =
  hp_memory :: "u32 \<Rightarrow> block"
  hp_first :: u32
  hp_peak_used :: u32
  hp_active_allocations :: u32

definition start_address :: u32 where "start_address = 0x100000"
definition limit_address :: u32 where "limit_address = 0x300000"
definition heap_magic :: u32 where "heap_magic = 0x48454150"
definition free_flag :: u32 where "free_flag = 1"
definition granularity :: u32 where "granularity = 16"
definition sizeof_block :: u32 where "sizeof_block = 32"

definition heap_align_up :: "u32 \<Rightarrow> u32 \<Rightarrow> u32" where
  "heap_align_up v alignment = (v + alignment - 1) AND NOT (alignment - 1)"

definition payload :: "u32 \<Rightarrow> u32" where
  "payload blk = blk + sizeof_block"

definition valid_block :: "heap \<Rightarrow> u32 \<Rightarrow> bool" where
  "valid_block h blk \<longleftrightarrow> blk \<noteq> 0 \<and> start_address \<le> blk \<and> blk + sizeof_block \<le> limit_address \<and>
    blk_signature (hp_memory h blk) = heap_magic \<and>
    blk_capacity (hp_memory h blk) \<le> limit_address - blk - sizeof_block"

definition set_block :: "u32 \<Rightarrow> (block \<Rightarrow> block) \<Rightarrow> heap \<Rightarrow> heap" where
  "set_block blk f h = h\<lparr>hp_memory := (hp_memory h)(blk := f (hp_memory h blk))\<rparr>"

definition is_free :: "heap \<Rightarrow> u32 \<Rightarrow> bool" where
  "is_free h blk \<longleftrightarrow> blk_flags (hp_memory h blk) AND free_flag \<noteq> 0"

section \<open>Operations\<close>

definition heap_reset :: "heap \<Rightarrow> heap" where
  "heap_reset h = (set_block start_address (\<lambda>_. \<lparr>blk_signature = heap_magic,
      blk_capacity = limit_address - start_address - sizeof_block, blk_requested = 0,
      blk_flags = free_flag, blk_previous = 0, blk_next = 0\<rparr>) h)
    \<lparr>hp_first := start_address, hp_peak_used := 0, hp_active_allocations := 0\<rparr>"

definition split_after :: "u32 \<Rightarrow> u32 \<Rightarrow> heap \<Rightarrow> u32 \<times> heap" where
  "split_after blk requested_capacity h =
    (let left_capacity = heap_align_up requested_capacity granularity;
         capacity = blk_capacity (hp_memory h blk)
     in if \<not> valid_block h blk \<or> capacity < left_capacity \<or> capacity - left_capacity < sizeof_block + granularity
        then (0, h)
        else
          let tail = payload blk + left_capacity;
              following = blk_next (hp_memory h blk);
              h1 = set_block tail (\<lambda>_. \<lparr>blk_signature = heap_magic,
                blk_capacity = capacity - left_capacity - sizeof_block, blk_requested = 0,
                blk_flags = free_flag, blk_previous = blk, blk_next = following\<rparr>) h;
              h2 = (if blk_next (hp_memory h1 tail) \<noteq> 0
                    then set_block (blk_next (hp_memory h1 tail)) (blk_previous_update (\<lambda>_. tail)) h1 else h1)
          in (tail, set_block blk (\<lambda>b. b\<lparr>blk_next := tail, blk_capacity := left_capacity\<rparr>) h2))"

partial_function (option) used_bytes_loop :: "heap \<Rightarrow> u32 \<Rightarrow> u32 \<Rightarrow> u32 option" where
  "used_bytes_loop h blk used =
    (if \<not> valid_block h blk then Some used
     else used_bytes_loop h (blk_next (hp_memory h blk))
       (if \<not> is_free h blk then used + blk_requested (hp_memory h blk) else used))"

definition used_bytes :: "heap \<Rightarrow> u32 option" where
  "used_bytes h = used_bytes_loop h (hp_first h) 0"

partial_function (option) free_bytes_loop :: "heap \<Rightarrow> u32 \<Rightarrow> u32 \<Rightarrow> u32 option" where
  "free_bytes_loop h blk free =
    (if \<not> valid_block h blk then Some free
     else free_bytes_loop h (blk_next (hp_memory h blk))
       (if is_free h blk then free + blk_capacity (hp_memory h blk) else free))"

definition heap_free_bytes :: "heap \<Rightarrow> u32 option" where
  "heap_free_bytes h = free_bytes_loop h (hp_first h) 0"

partial_function (option) validate_loop :: "heap \<Rightarrow> u32 \<Rightarrow> u32 \<Rightarrow> u32 \<Rightarrow> bool option" where
  "validate_loop h blk expected previous =
    (if blk = 0 then Some (expected = limit_address)
     else if \<not> valid_block h blk \<or> blk \<noteq> expected \<or> blk_previous (hp_memory h blk) \<noteq> previous then Some False
     else validate_loop h (blk_next (hp_memory h blk))
       (expected + sizeof_block + blk_capacity (hp_memory h blk)) blk)"

definition heap_validate :: "heap \<Rightarrow> bool option" where
  "heap_validate h = validate_loop h (hp_first h) start_address 0"

text \<open>
  The inner \<open>while\<close> of \<open>allocate\<close>, which moves the aligned payload up until the gap before it is empty
  or holds a block of its own. The guard on the alignment repeats what \<open>allocate\<close> has checked.
\<close>

function pad_prefix :: "u32 \<Rightarrow> u32 \<Rightarrow> u32 \<Rightarrow> u32 \<times> u32" where
  "pad_prefix alignment aligned prefix =
    (if prefix \<noteq> 0 \<and> prefix < sizeof_block + granularity \<and> 0 < alignment \<and> alignment \<le> 4096
     then pad_prefix alignment (aligned + alignment) (prefix + alignment)
     else (aligned, prefix))"
  by pat_completeness auto
termination
proof (relation "measure (\<lambda>(alignment, aligned, prefix). 48 - unat prefix)")
  fix alignment aligned prefix :: u32
  assume a: "prefix \<noteq> 0 \<and> prefix < sizeof_block + granularity \<and> 0 < alignment \<and> alignment \<le> 4096"
  then have "unat prefix < 48" "0 < unat alignment" "unat alignment \<le> 4096"
    by (simp_all add: word_less_nat_alt word_le_nat_alt sizeof_block_def granularity_def)
  then show "((alignment, aligned + alignment, prefix + alignment), alignment, aligned, prefix) \<in>
      measure (\<lambda>(alignment, aligned, prefix). 48 - unat prefix)"
    by (simp add: unat_add_nowrap)
qed simp

declare pad_prefix.simps [simp del]

definition take_block :: "u32 \<Rightarrow> u32 \<Rightarrow> u32 \<Rightarrow> heap \<Rightarrow> (u32 \<times> heap) option" where
  "take_block bytes wanted blk h =
    (let h1 = snd (split_after blk wanted h);
         h2 = (set_block blk (\<lambda>b. b\<lparr>blk_flags := 0, blk_requested := bytes\<rparr>) h1)
           \<lparr>hp_active_allocations := hp_active_allocations h1 + 1\<rparr>
     in case used_bytes h2 of
          None \<Rightarrow> None
        | Some used \<Rightarrow> Some (payload blk, if hp_peak_used h2 < used then h2\<lparr>hp_peak_used := used\<rparr> else h2))"

partial_function (option) allocate_loop :: "u32 \<Rightarrow> u32 \<Rightarrow> u32 \<Rightarrow> heap \<Rightarrow> u32 \<Rightarrow> (u32 \<times> heap) option" where
  "allocate_loop bytes alignment wanted h blk =
    (if \<not> valid_block h blk then Some (0, h)
     else if \<not> is_free h blk then allocate_loop bytes alignment wanted h (blk_next (hp_memory h blk))
     else
       let aligned0 = (payload blk + alignment - 1) AND NOT (alignment - 1);
           prefix = snd (pad_prefix alignment aligned0 (aligned0 - payload blk));
           capacity = blk_capacity (hp_memory h blk)
       in if capacity < prefix \<or> capacity - prefix < wanted
          then allocate_loop bytes alignment wanted h (blk_next (hp_memory h blk))
          else if prefix \<noteq> 0 then
            (case split_after blk (prefix - sizeof_block) h of (aligned_block, h1) \<Rightarrow>
               if aligned_block = 0 then allocate_loop bytes alignment wanted h1 (blk_next (hp_memory h1 blk))
               else take_block bytes wanted aligned_block h1)
          else take_block bytes wanted blk h)"

definition heap_allocate :: "u32 \<Rightarrow> u32 \<Rightarrow> heap \<Rightarrow> (u32 \<times> heap) option" where
  "heap_allocate bytes alignment h =
    (if bytes = 0 \<or> alignment = 0 \<or> alignment AND (alignment - 1) \<noteq> 0 \<or> 4096 < alignment then Some (0, h)
     else allocate_loop bytes alignment (heap_align_up bytes granularity) h (hp_first h))"

partial_function (option) find_payload :: "heap \<Rightarrow> u32 \<Rightarrow> u32 \<Rightarrow> u32 option" where
  "find_payload h pointer blk =
    (if valid_block h blk \<and> payload blk \<noteq> pointer
     then find_payload h pointer (blk_next (hp_memory h blk)) else Some blk)"

definition merge_next :: "u32 \<Rightarrow> heap \<Rightarrow> heap" where
  "merge_next blk h =
    (let following = blk_next (hp_memory h blk) in
     if following \<noteq> 0 \<and> valid_block h following \<and> is_free h following then
       let h1 = set_block blk (\<lambda>b. b\<lparr>blk_capacity := blk_capacity b + sizeof_block + blk_capacity (hp_memory h following),
                  blk_next := blk_next (hp_memory h following)\<rparr>) h
       in if blk_next (hp_memory h1 blk) \<noteq> 0
          then set_block (blk_next (hp_memory h1 blk)) (blk_previous_update (\<lambda>_. blk)) h1 else h1
     else h)"

definition merge_previous :: "u32 \<Rightarrow> heap \<Rightarrow> heap" where
  "merge_previous blk h =
    (let before = blk_previous (hp_memory h blk) in
     if before \<noteq> 0 \<and> valid_block h before \<and> is_free h before then
       let h1 = set_block before (\<lambda>b. b\<lparr>blk_capacity := blk_capacity b + sizeof_block + blk_capacity (hp_memory h blk),
                  blk_next := blk_next (hp_memory h blk)\<rparr>) h
       in if blk_next (hp_memory h1 before) \<noteq> 0
          then set_block (blk_next (hp_memory h1 before)) (blk_previous_update (\<lambda>_. before)) h1 else h1
     else h)"

definition heap_release :: "u32 \<Rightarrow> heap \<Rightarrow> (bool \<times> heap) option" where
  "heap_release pointer h =
    (if pointer = 0 then Some (False, h)
     else case find_payload h pointer (hp_first h) of
       None \<Rightarrow> None
     | Some blk \<Rightarrow>
         if \<not> valid_block h blk \<or> is_free h blk then Some (False, h)
         else
           let h1 = set_block blk (\<lambda>b. b\<lparr>blk_flags := free_flag, blk_requested := 0\<rparr>) h;
               h2 = (if hp_active_allocations h1 \<noteq> 0
                     then h1\<lparr>hp_active_allocations := hp_active_allocations h1 - 1\<rparr> else h1);
               h3 = merge_previous blk (merge_next blk h2)
           in map_option (\<lambda>ok. (ok, h3)) (heap_validate h3))"

section \<open>Initialisation and self-test\<close>

text \<open>
  The self-test fills 24 slots, releases and refills every other one, then releases all of them from
  the last to the first. Its writes into the payloads do not touch a header and are left out.
\<close>

definition stress_slots :: nat where "stress_slots = 24"

fun stress_fill :: "(nat \<Rightarrow> u32) \<Rightarrow> (nat \<Rightarrow> u32) \<Rightarrow> nat list \<Rightarrow> u32 list \<Rightarrow> heap \<Rightarrow> (u32 list option \<times> heap) option" where
  "stress_fill bytes alignment [] slots h = Some (Some slots, h)"
| "stress_fill bytes alignment (i # is) slots h =
    Option.bind (heap_allocate (bytes i) (alignment i) h) (\<lambda>(p, h1).
      if p = 0 \<or> p AND (alignment i - 1) \<noteq> 0 then Some (None, h1)
      else stress_fill bytes alignment is (slots[i := p]) h1)"

fun stress_release :: "u32 list \<Rightarrow> heap \<Rightarrow> (bool \<times> heap) option" where
  "stress_release [] h = Some (True, h)"
| "stress_release (p # ps) h =
    Option.bind (heap_release p h) (\<lambda>(ok, h1). if ok then stress_release ps h1 else Some (False, h1))"

definition even_slots :: "nat list" where "even_slots = filter even [0..<stress_slots]"

definition heap_stress_test :: "heap \<Rightarrow> (bool \<times> heap) option" where
  "heap_stress_test h =
    Option.bind (stress_fill (\<lambda>i. 17 + (word_of_nat i * 73) mod 997) (\<lambda>i. push_bit (i mod 4) 16)
        [0..<stress_slots] (replicate stress_slots 0) (heap_reset h)) (\<lambda>(filled, h1).
      case filled of None \<Rightarrow> Some (False, h1) | Some slots \<Rightarrow>
        Option.bind (heap_validate h1) (\<lambda>valid1.
          if \<not> valid1 \<or> hp_active_allocations h1 \<noteq> word_of_nat stress_slots then Some (False, h1)
          else Option.bind (stress_release (map ((!) slots) even_slots) h1) (\<lambda>(released, h2).
            if \<not> released then Some (False, h2)
            else Option.bind (stress_fill (\<lambda>i. 33 + (word_of_nat i * 41) mod 601) (\<lambda>i. push_bit ((i + 1) mod 4) 16)
                even_slots slots h2) (\<lambda>(refilled, h3).
              case refilled of None \<Rightarrow> Some (False, h3) | Some slots3 \<Rightarrow>
                Option.bind (heap_validate h3) (\<lambda>valid3.
                  if \<not> valid3 \<or> hp_active_allocations h3 \<noteq> word_of_nat stress_slots then Some (False, h3)
                  else Option.bind (stress_release (rev slots3) h3) (\<lambda>(drained, h4).
                    if \<not> drained then Some (False, h4)
                    else Option.bind (heap_validate h4) (\<lambda>valid4.
                      Some (valid4 \<and> hp_active_allocations h4 = 0 \<and> hp_first h4 \<noteq> 0 \<and>
                        blk_next (hp_memory h4 (hp_first h4)) = 0 \<and> is_free h4 (hp_first h4) \<and>
                        blk_capacity (hp_memory h4 (hp_first h4)) = limit_address - start_address - sizeof_block, h4))))))))"

text \<open>\<open>release(p) && \<dots>\<close>: the second call is made only when the first succeeds.\<close>

definition and_release :: "bool \<Rightarrow> u32 \<Rightarrow> heap \<Rightarrow> (bool \<times> heap) option" where
  "and_release condition p h = (if condition then heap_release p h else Some (False, h))"

definition heap_init :: "heap \<Rightarrow> (string list \<times> heap) option" where
  "heap_init h =
    Option.bind (heap_allocate 128 16 (heap_reset h)) (\<lambda>(a, h1).
    Option.bind (heap_allocate 256 64 h1) (\<lambda>(b, h2).
    Option.bind (heap_allocate 64 16 h2) (\<lambda>(c, h3).
    let aligned = (a \<noteq> 0 \<and> b \<noteq> 0 \<and> c \<noteq> 0 \<and> b AND 63 = 0) in
    Option.bind (heap_release b h3) (\<lambda>(freed_b, h4).
    Option.bind (and_release freed_b a h4) (\<lambda>(freed, h5).
    Option.bind (heap_allocate 300 16 h5) (\<lambda>(d, h6).
    Option.bind (and_release (d = a) c h6) (\<lambda>(released_c, h7).
    Option.bind (and_release released_c d h7) (\<lambda>(released_d, h8).
    Option.bind (if released_d then heap_validate h8 else Some False) (\<lambda>reused.
    Option.bind (heap_release (start_address + 3) h8) (\<lambda>(bogus, h9).
    Option.bind (if bogus then Some (True, h9) else heap_release d h9) (\<lambda>(again, h10).
    Option.bind (heap_stress_test h10) (\<lambda>(stress, h11).
    Some ([if aligned \<and> freed \<and> reused then ''HEAP_REUSE_OK'' else ''HEAP_REUSE_FAILED'',
           if reused then ''HEAP_COALESCE_OK'' else ''HEAP_COALESCE_FAILED'',
           if \<not> bogus \<and> \<not> again then ''HEAP_INVALID_FREE_BLOCKED'' else ''HEAP_INVALID_FREE_FAILED'',
           if stress then ''HEAP_STRESS_OK'' else ''HEAP_STRESS_FAILED''], heap_reset h11)))))))))))))"

section \<open>The list of segments\<close>

text \<open>
  What the linked list of headers stands for: the capacities, requests and states of consecutive
  segments of the heap. \<open>dls m p a ss q\<close> says that the headers of \<open>ss\<close> lie in the store \<open>m\<close> from address
  \<open>a\<close> on, each at the end of the one before it and linked to its neighbours, with \<open>p\<close> before the
  first and \<open>q\<close> after the last.
\<close>

record seg =
  cap :: nat
  req :: nat
  vacant :: bool

definition w32 :: "nat \<Rightarrow> u32" where "w32 n = word_of_nat n"

definition header :: "seg \<Rightarrow> u32 \<Rightarrow> u32 \<Rightarrow> block" where
  "header s p q = \<lparr>blk_signature = heap_magic, blk_capacity = w32 (cap s), blk_requested = w32 (req s),
    blk_flags = (if vacant s then 1 else 0), blk_previous = p, blk_next = q\<rparr>"

definition extent :: "seg list \<Rightarrow> nat" where
  "extent ss = (\<Sum>s\<leftarrow>ss. 32 + cap s)"

fun dls :: "(u32 \<Rightarrow> block) \<Rightarrow> u32 \<Rightarrow> nat \<Rightarrow> seg list \<Rightarrow> u32 \<Rightarrow> bool" where
  "dls m p a [] q \<longleftrightarrow> True"
| "dls m p a (s # ss) q \<longleftrightarrow> m (w32 a) = header s p (if ss = [] then q else w32 (a + 32 + cap s)) \<and>
    dls m (w32 a) (a + 32 + cap s) ss q"

definition last_ptr :: "u32 \<Rightarrow> nat \<Rightarrow> seg list \<Rightarrow> u32" where
  "last_ptr p a ss = (if ss = [] then p else w32 (a + extent (butlast ss)))"

lemma extent_simps [simp]:
  "extent [] = 0" "extent (s # ss) = 32 + cap s + extent ss" "extent (xs @ ys) = extent xs + extent ys"
  by (simp_all add: extent_def)

lemma last_ptr_simps [simp]:
  "last_ptr p a [] = p"
  "last_ptr p a (xs @ [s]) = w32 (a + extent xs)"
  by (simp_all add: last_ptr_def add.assoc)

lemma last_ptr_Cons: "last_ptr (w32 a) (a + (32 + cap s)) ss = last_ptr p a (s # ss)"
  by (simp add: last_ptr_def add.assoc)

lemma dls_append:
  "dls m p a (xs @ ys) q \<longleftrightarrow> dls m p a xs (if ys = [] then q else w32 (a + extent xs)) \<and>
    dls m (last_ptr p a xs) (a + extent xs) ys q"
proof (induction xs arbitrary: p a)
  case (Cons s xs)
  show ?case
  proof (cases "xs = []")
    case True
    then show ?thesis by (simp add: last_ptr_def add.assoc)
  next
    case False
    then show ?thesis using Cons.IH [of "w32 a" "a + 32 + cap s"]
      by (simp add: add.assoc last_ptr_Cons [of _ _ _ p])
  qed
qed simp

lemma unat_w32: "i < 2 ^ 32 \<Longrightarrow> unat (w32 i) = i"
  by (simp add: w32_def unat_of_nat_nowrap)

lemma w32_inj: "i < 2 ^ 32 \<Longrightarrow> j < 2 ^ 32 \<Longrightarrow> w32 i = w32 j \<longleftrightarrow> i = j"
  by (metis unat_w32)

lemma dls_cong:
  "(\<And>n. a \<le> n \<Longrightarrow> n < a + extent ss \<Longrightarrow> m' (w32 n) = m (w32 n)) \<Longrightarrow> dls m' p a ss q \<longleftrightarrow> dls m p a ss q"
proof (induction ss arbitrary: p a)
  case (Cons s ss)
  have "m' (w32 a) = m (w32 a)" using Cons.prems by simp
  moreover have "dls m' (w32 a) (a + 32 + cap s) ss q \<longleftrightarrow> dls m (w32 a) (a + 32 + cap s) ss q"
    by (rule Cons.IH) (use Cons.prems in simp)
  ultimately show ?case by simp
qed simp

lemma dls_upd_outside:
  "k < a \<or> a + extent ss \<le> k \<Longrightarrow> k < 2 ^ 32 \<Longrightarrow> a + extent ss \<le> 2 ^ 32 \<Longrightarrow>
    dls (m(w32 k := v)) p a ss q \<longleftrightarrow> dls m p a ss q"
  by (rule dls_cong) (auto simp: w32_inj)

lemma w32_arith:
  "w32 a + w32 b = w32 (a + b)" "b \<le> a \<Longrightarrow> w32 a - w32 b = w32 (a - b)"
  by (simp_all add: w32_def of_nat_diff)

lemma w32_order:
  assumes "i < 2 ^ 32" "j < 2 ^ 32"
  shows "w32 i \<le> w32 j \<longleftrightarrow> i \<le> j" "w32 i < w32 j \<longleftrightarrow> i < j"
  using assms by (simp_all add: word_le_nat_alt word_less_nat_alt unat_w32)

lemma w32_consts:
  "start_address = w32 0x100000" "limit_address = w32 0x300000" "sizeof_block = w32 32" "granularity = w32 16"
  "(0 :: u32) = w32 0"
  by (simp_all add: w32_def start_address_def limit_address_def sizeof_block_def granularity_def)

definition heap_list :: "heap \<Rightarrow> seg list \<Rightarrow> bool" where
  "heap_list h ss \<longleftrightarrow> hp_first h = start_address \<and> dls (hp_memory h) 0 0x100000 ss 0 \<and>
    0x100000 + extent ss = 0x300000 \<and> (\<forall>s\<in>set ss. 16 dvd cap s)"

lemma heap_list_at:
  assumes "heap_list h (pre @ s # post)"
  defines "b \<equiv> 0x100000 + extent pre"
  shows "hp_memory h (w32 b) = header s (last_ptr 0 0x100000 pre) (if post = [] then 0 else w32 (b + 32 + cap s))"
    and "valid_block h (w32 b)" and "is_free h (w32 b) \<longleftrightarrow> vacant s" and "w32 b \<noteq> 0"
    and "b + 32 + cap s \<le> 0x300000"
proof -
  show m: "hp_memory h (w32 b) = header s (last_ptr 0 0x100000 pre) (if post = [] then 0 else w32 (b + 32 + cap s))"
    and e: "b + 32 + cap s \<le> 0x300000"
    using assms by (auto simp: heap_list_def dls_append)
  show nz: "w32 b \<noteq> 0" using e unfolding w32_consts by (simp add: w32_inj b_def)
  show "valid_block h (w32 b)" using nz e m unfolding valid_block_def w32_consts
    by (simp add: w32_arith w32_order header_def b_def)
  show "is_free h (w32 b) \<longleftrightarrow> vacant s" using m by (simp add: is_free_def header_def free_flag_def)
qed

lemma not_valid_null [simp]: "\<not> valid_block h 0"
  by (simp add: valid_block_def)

lemma set_block_simps [simp]:
  "hp_memory (set_block a f h) = (hp_memory h)(a := f (hp_memory h a))"
  "hp_first (set_block a f h) = hp_first h" "hp_peak_used (set_block a f h) = hp_peak_used h"
  "hp_active_allocations (set_block a f h) = hp_active_allocations h"
  by (simp_all add: set_block_def)

text \<open>Relinking the first of a run of headers to another predecessor.\<close>

lemma dls_relink:
  assumes "dls m p a ss q" "ss \<noteq> []" "a + extent ss \<le> 2 ^ 32"
  shows "dls (m(w32 a := (m (w32 a))\<lparr>blk_previous := p'\<rparr>)) p' a ss q"
proof -
  obtain s ss' where ss: "ss = s # ss'" using assms(2) by (cases ss) auto
  have "dls (m(w32 a := v)) (w32 a) (a + 32 + cap s) ss' q" for v
    using assms dls_upd_outside [of a "a + 32 + cap s" ss' m v] unfolding ss by simp
  then show ?thesis using assms(1) unfolding ss by (simp add: header_def)
qed

lemma split_after_segs:
  assumes hl: "heap_list h (pre @ s # post)" and n: "16 dvd n" "n + 48 \<le> cap s"
    and v: "heap_align_up v granularity = w32 n"
  defines "b \<equiv> 0x100000 + extent pre"
  shows "\<exists>h1. split_after (w32 b) v h = (w32 (b + 32 + n), h1) \<and>
    heap_list h1 (pre @ s\<lparr>cap := n\<rparr> # \<lparr>cap = cap s - n - 32, req = 0, vacant = True\<rparr> # post) \<and>
    hp_peak_used h1 = hp_peak_used h \<and> hp_active_allocations h1 = hp_active_allocations h"
proof -
  note at = heap_list_at [OF hl, folded b_def]
  define t where "t = b + 32 + n"
  define e where "e = b + 32 + cap s"
  define q where "q = (if post = [] then 0 else w32 e)"
  have cap: "blk_capacity (hp_memory h (w32 b)) = w32 (cap s)" "blk_next (hp_memory h (w32 b)) = q"
    unfolding at(1) q_def e_def by (simp_all add: header_def)
  have lim: "e + extent post = 0x300000" "e \<le> 0x300000"
    using hl at(5) unfolding e_def by (simp_all add: heap_list_def b_def)
  have "t < e" "b < t" "0x100000 \<le> b" using n unfolding t_def e_def b_def by linarith+
  note bounds = this lim
  have qz: "q \<noteq> 0 \<longleftrightarrow> post \<noteq> []"
    using bounds unfolding q_def w32_consts(5) by (auto simp: w32_inj)
  define tail where "tail = \<lparr>blk_signature = heap_magic, blk_capacity = w32 (cap s - n - 32), blk_requested = 0,
    blk_flags = free_flag, blk_previous = w32 b, blk_next = q\<rparr>"
  define m1 where "m1 = (hp_memory h)(w32 t := tail)"
  define m2 where "m2 = (if post \<noteq> [] then m1(w32 e := (m1 (w32 e))\<lparr>blk_previous := w32 t\<rparr>) else m1)"
  define m3 where "m3 = m2(w32 b := (m2 (w32 b))\<lparr>blk_next := w32 t, blk_capacity := w32 n\<rparr>)"
  have neq: "w32 t \<noteq> w32 b" "w32 e \<noteq> w32 b" "w32 t \<noteq> w32 e" "w32 b \<noteq> w32 t" "w32 e \<noteq> w32 t" "w32 b \<noteq> w32 e"
    using bounds by (simp_all add: w32_inj)
  have split: "split_after (w32 b) v h = (w32 t, h\<lparr>hp_memory := m3\<rparr>)"
  proof -
    have "w32 (cap s) - w32 n - w32 32 = w32 (cap s - n - 32)" using n by (simp add: w32_arith)
    moreover have "\<not> w32 (cap s) < w32 n" "\<not> w32 (cap s) - w32 n < w32 32 + w32 16"
      using n bounds unfolding e_def by (simp_all add: w32_arith w32_order)
    moreover have "payload (w32 b) + w32 n = w32 t" by (simp add: payload_def w32_consts w32_arith t_def)
    ultimately show ?thesis
      using at(2) v cap qz neq unfolding split_after_def Let_def
      by (auto simp: w32_consts(3,4) m1_def m2_def m3_def tail_def q_def set_block_def)
  qed
  have old: "dls (hp_memory h) 0 0x100000 pre (w32 b)" "dls (hp_memory h) (w32 b) e post 0"
    using hl by (auto simp: heap_list_def dls_append b_def e_def)
  have up: "dls (m(w32 k := v)) p 0x100000 pre x \<longleftrightarrow> dls m p 0x100000 pre x"
    if "b \<le> k" "k \<le> e" for m k v p x
    using that bounds by (intro dls_upd_outside) (auto simp: b_def)
  have "dls m3 0 0x100000 pre (w32 b)"
    using old(1) bounds by (simp add: m3_def m2_def m1_def up)
  moreover have "m3 (w32 b) = header (s\<lparr>cap := n\<rparr>) (last_ptr 0 0x100000 pre) (w32 t)"
    using neq at(1) by (simp add: m3_def m2_def m1_def header_def)
  moreover have "m3 (w32 t) = header \<lparr>cap = cap s - n - 32, req = 0, vacant = True\<rparr> (w32 b) (if post = [] then 0 else w32 e)"
    using neq by (simp add: m3_def m2_def m1_def header_def tail_def q_def free_flag_def w32_def)
  moreover have "dls m3 (w32 t) e post 0"
  proof -
    have o: "dls (m(w32 k := v)) p e post x \<longleftrightarrow> dls m p e post x" if "k < e" for m k v p x
      using that bounds by (intro dls_upd_outside) auto
    have "dls m2 (w32 t) e post 0"
      using dls_relink [of m1 "w32 b" e post 0 "w32 t"] old(2) bounds by (auto simp: m2_def m1_def o)
    then show ?thesis using bounds by (simp add: m3_def o)
  qed
  moreover define c where "c = cap s - n - 32"
  moreover have "t + 32 + c = e" using n by (simp add: e_def t_def c_def)
  ultimately have "dls m3 0 0x100000 (pre @ s\<lparr>cap := n\<rparr> # \<lparr>cap = c, req = 0, vacant = True\<rparr> # post) 0"
    by (simp add: dls_append b_def [symmetric] t_def [symmetric])
  then have "heap_list (h\<lparr>hp_memory := m3\<rparr>)
      (pre @ s\<lparr>cap := n\<rparr> # \<lparr>cap = cap s - n - 32, req = 0, vacant = True\<rparr> # post)"
    using hl n by (simp add: heap_list_def c_def dvd_diff_nat)
  then show ?thesis using split by (auto simp: t_def)
qed

lemma split_after_whole:
  assumes hl: "heap_list h (pre @ s # post)" and n: "n \<le> cap s" "cap s < n + 48"
    and v: "heap_align_up v granularity = w32 n"
  shows "split_after (w32 (0x100000 + extent pre)) v h = (0, h)"
proof -
  note at = heap_list_at [OF hl]
  have "blk_capacity (hp_memory h (w32 (0x100000 + extent pre))) = w32 (cap s)" unfolding at(1) by (simp add: header_def)
  moreover have "w32 (cap s) - w32 n < w32 32 + w32 16"
    using n at(5) by (simp add: w32_arith w32_order)
  ultimately show ?thesis using v by (simp add: split_after_def Let_def w32_consts(3,4))
qed

section \<open>Walking the list\<close>

definition cursor :: "seg list \<Rightarrow> seg list \<Rightarrow> u32" where
  "cursor pre post = (if post = [] then 0 else w32 (0x100000 + extent pre))"

lemma cursor_simps [simp]: "cursor pre [] = 0" "cursor pre (s # post) = w32 (0x100000 + extent pre)"
  by (simp_all add: cursor_def)

lemma cursor_next:
  "heap_list h (pre @ s # post) \<Longrightarrow>
    blk_next (hp_memory h (w32 (0x100000 + extent pre))) = cursor (pre @ [s]) post"
  using heap_list_at(1) [of h pre s post] by (simp add: header_def cursor_def add.assoc)

lemma heap_first_cursor: "heap_list h ss \<Longrightarrow> hp_first h = cursor [] ss"
  by (cases ss) (simp_all add: heap_list_def start_address_def w32_def)

definition used_total :: "seg list \<Rightarrow> nat" where
  "used_total ss = (\<Sum>s\<leftarrow>ss. if vacant s then 0 else req s)"

lemma used_bytes_loop_segs:
  "heap_list h (pre @ suf) \<Longrightarrow> used_bytes_loop h (cursor pre suf) u = Some (u + w32 (used_total suf))"
proof (induction suf arbitrary: pre u)
  case Nil
  then show ?case by (simp add: used_bytes_loop.simps used_total_def w32_def)
next
  case (Cons s suf)
  let ?b = "w32 (0x100000 + extent pre)"
  have "blk_requested (hp_memory h ?b) = w32 (req s)"
    using heap_list_at(1) [OF Cons.prems] by (simp add: header_def)
  then show ?case using heap_list_at(2,3) [OF Cons.prems] cursor_next [OF Cons.prems] Cons.prems
      Cons.IH [of "pre @ [s]"]
    by (subst used_bytes_loop.simps) (simp add: used_total_def w32_def)
qed

lemma used_bytes_segs: "heap_list h ss \<Longrightarrow> used_bytes h = Some (w32 (used_total ss))"
  using used_bytes_loop_segs [of h "[]" ss 0] by (simp add: used_bytes_def heap_first_cursor)

lemma validate_loop_segs:
  "heap_list h (pre @ suf) \<Longrightarrow>
    validate_loop h (cursor pre suf) (w32 (0x100000 + extent pre)) (last_ptr 0 0x100000 pre) = Some True"
proof (induction suf arbitrary: pre)
  case Nil
  then show ?case by (simp add: validate_loop.simps heap_list_def w32_consts(2))
next
  case (Cons s suf)
  note at = heap_list_at [OF Cons.prems]
  have "w32 (0x100000 + extent pre) + sizeof_block + w32 (cap s) = w32 (0x100000 + extent (pre @ [s]))"
    by (simp add: w32_consts(3) w32_arith add.assoc)
  then show ?case using at cursor_next [OF Cons.prems] Cons.prems Cons.IH [of "pre @ [s]"]
    by (subst validate_loop.simps) (simp add: header_def)
qed

lemma heap_validate_segs: "heap_list h ss \<Longrightarrow> heap_validate h = Some True"
  using validate_loop_segs [of h "[]" ss] by (simp add: heap_validate_def heap_first_cursor w32_consts(1))

section \<open>Alignment\<close>

lemma power_of_two_nat: "0 < n \<Longrightarrow> n AND (n - 1) = 0 \<Longrightarrow> \<exists>k. n = (2 :: nat) ^ k"
proof (induction n rule: less_induct)
  case (less n)
  show ?case
  proof (cases "even n")
    case True
    then obtain m where m: "n = 2 * m" by blast
    with less.prems have "0 < m" by simp
    have "n AND (n - 1) = 2 * (m AND (m - 1))"
      using \<open>0 < m\<close> unfolding m by (subst and_nat_rec) (cases m; simp)
    then have "m AND (m - 1) = 0" using less.prems by simp
    then obtain k where "m = 2 ^ k" using less.IH [of m] m \<open>0 < m\<close> by auto
    then show ?thesis unfolding m by (intro exI [of _ "Suc k"]) simp
  next
    case False
    then obtain m where m: "n = 2 * m + 1" using oddE by blast
    have "n AND (n - 1) = 2 * m" unfolding m by (subst and_nat_rec) simp
    then show ?thesis using less.prems m by (intro exI [of _ 0]) simp
  qed
qed

lemma power_of_two_word:
  fixes v :: u32
  assumes "v \<noteq> 0" "v AND (v - 1) = 0" "v \<le> 4096"
  shows "\<exists>k\<le>12. v = w32 (2 ^ k)"
proof -
  have "0 < unat v" using assms(1) by (simp add: unat_gt_0)
  moreover have "unat v AND (unat v - 1) = 0"
  proof -
    have "unat (v - 1) = unat v - 1" using \<open>0 < unat v\<close> by (subst unat_sub) (auto simp: word_le_nat_alt)
    then show ?thesis using assms(2) by (metis unat_0 unsigned_and_eq)
  qed
  ultimately obtain k where k: "unat v = 2 ^ k" using power_of_two_nat by blast
  have "(2 :: nat) ^ k \<le> 2 ^ 12" using assms(3) k by (simp add: word_le_nat_alt)
  then have "k \<le> 12" by (rule power_le_imp_le_exp [rotated]) simp
  moreover have "v = w32 (2 ^ k)" unfolding k [symmetric] by (simp add: w32_def)
  ultimately show ?thesis by blast
qed

lemma align_up_w32:
  assumes "x + 2 ^ k \<le> 2 ^ 32" "k < 32"
  shows "(w32 x + w32 (2 ^ k) - 1) AND NOT (w32 (2 ^ k) - 1) = w32 ((x + 2 ^ k - 1) div 2 ^ k * 2 ^ k)"
proof -
  have m: "w32 (2 ^ k) - 1 = mask k" by (simp add: w32_def mask_eq_exp_minus_1)
  have x: "w32 x + w32 (2 ^ k) - 1 = w32 (x + 2 ^ k - 1)"
  proof -
    have "1 \<le> x + 2 ^ k" by (simp add: Suc_le_eq)
    from w32_arith(2) [OF this] show ?thesis unfolding w32_arith(1) by (simp add: w32_def [of "Suc 0"])
  qed
  have lt: "x + 2 ^ k - 1 < 2 ^ 32" using assms(1) by (simp add: less_eq_Suc_le)
  have "w32 (x + 2 ^ k - 1) AND NOT (mask k) = push_bit k (drop_bit k (w32 (x + 2 ^ k - 1)))"
    by (simp add: bit_eq_iff bit_simps) (auto simp: bit_imp_le_length)
  also have "\<dots> = w32 (unat (w32 (x + 2 ^ k - 1)) div 2 ^ k * 2 ^ k)"
  proof -
    have "unat (drop_bit k v) = unat v div 2 ^ k" for v :: u32 by (metis drop_bit_eq_div unat_drop_bit_eq)
    then have "drop_bit k (w32 n) = w32 (unat (w32 n) div 2 ^ k)" for n
      by (simp only: word_unat_eq_iff) (metis unat_of_nat_nowrap unat_less_exp w32_def)
    then show ?thesis by (simp add: push_bit_eq_mult w32_def)
  qed
  finally show ?thesis unfolding m x unat_w32 [OF lt] .
qed

lemma heap_align_up_16: "n + 16 \<le> 2 ^ 32 \<Longrightarrow> heap_align_up (w32 n) granularity = w32 ((n + 15) div 16 * 16)"
  using align_up_w32 [of n 4] by (simp add: heap_align_up_def w32_consts(4) add.commute)

lemma heap_align_up_dvd: "16 dvd n \<Longrightarrow> n + 16 \<le> 2 ^ 32 \<Longrightarrow> heap_align_up (w32 n) granularity = w32 n"
  using heap_align_up_16 [of n] by (auto elim!: dvdE simp: mult.commute)

lemma pad_prefix_w32:
  assumes "k \<le> 12" "P < 2 ^ 16"
  shows "\<exists>j. pad_prefix (w32 (2 ^ k)) (w32 A) (w32 P) = (w32 (A + j * 2 ^ k), w32 (P + j * 2 ^ k)) \<and>
    (P + j * 2 ^ k = 0 \<or> 48 \<le> P + j * 2 ^ k) \<and> P + j * 2 ^ k \<le> max P 4144 \<and> (P = 0 \<longrightarrow> j = 0)"
proof -
  have al: "0 < (2 :: nat) ^ k" "(2 :: nat) ^ k \<le> 2 ^ 12" using power_increasing [OF assms(1), of "2 :: nat"] by simp_all
  have g: "0 < w32 (2 ^ k)" "w32 (2 ^ k) \<le> 4096"
    using al w32_order [of 0 "2 ^ k"] w32_order [of "2 ^ k" 4096] by (simp_all add: w32_def)
  have c: "w32 x \<noteq> 0 \<and> w32 x < sizeof_block + granularity \<longleftrightarrow> 0 < x \<and> x < 48" if "x < 2 ^ 16" for x
    using that unfolding w32_consts by (auto simp: w32_arith w32_order w32_inj)
  show ?thesis using assms(2)
  proof (induction "48 - P" arbitrary: A P rule: less_induct)
    case less
    show ?case
    proof (cases "0 < P \<and> P < 48")
      case True
      let ?A = "A + 2 ^ k" and ?P = "P + 2 ^ k"
      have s: "pad_prefix (w32 (2 ^ k)) (w32 A) (w32 P) = pad_prefix (w32 (2 ^ k)) (w32 ?A) (w32 ?P)"
        using True c [OF less.prems] g by (subst pad_prefix.simps) (simp add: w32_arith)
      show ?thesis
      proof (cases "48 \<le> ?P")
        case True
        then have "pad_prefix (w32 (2 ^ k)) (w32 ?A) (w32 ?P) = (w32 ?A, w32 ?P)"
          using c [of ?P] al less.prems \<open>0 < P \<and> P < 48\<close> by (subst pad_prefix.simps) auto
        then show ?thesis using s True al \<open>0 < P \<and> P < 48\<close> by (intro exI [of _ 1]) simp
      next
        case False
        have d: "48 - ?P < 48 - P" using al(1) False True by linarith
        have d2: "?P < 2 ^ 16" using False by simp
        obtain j where "pad_prefix (w32 (2 ^ k)) (w32 ?A) (w32 ?P) = (w32 (?A + j * 2 ^ k), w32 (?P + j * 2 ^ k))"
          "?P + j * 2 ^ k = 0 \<or> 48 \<le> ?P + j * 2 ^ k" "?P + j * 2 ^ k \<le> max ?P 4144"
          using less.hyps [OF d d2] by blast
        then show ?thesis using s False \<open>0 < P \<and> P < 48\<close>
          by (intro exI [of _ "Suc j"]) (simp add: algebra_simps)
      qed
    next
      case False
      then have "pad_prefix (w32 (2 ^ k)) (w32 A) (w32 P) = (w32 A, w32 P)"
        using c [OF less.prems] by (subst pad_prefix.simps) auto
      then show ?thesis using False by (intro exI [of _ 0]) auto
    qed
  qed
qed

end
