(* ===== verification/Heap_Correct.thy ===== *)
theory Heap_Correct
  imports Kernel_Heap
begin

text \<open>
  Correctness of the kernel heap: the invariant on the list of segments that the block headers stand
  for, what \<open>allocate\<close> and \<open>release\<close> do to it, the heap as an instance of the \<open>checked_allocator\<close>
  interface, and the properties of whole runs.
\<close>

section \<open>The invariant\<close>

text \<open>
  A request of \<open>n\<close> bytes is granted as a multiple of 16, rounded up in 32 bits: at least \<open>n\<close> bytes for
  every \<open>n\<close> up to \<open>2 ^ 32 - 16\<close>, and none at all above. No two neighbouring segments are vacant, an
  allocated segment holds the bytes that were granted, and the count of allocations agrees with the list.
  The heap is moreover in order when no request was above the bound: then every allocated segment holds
  the bytes that were requested, and the peak is at least the number of bytes in use.
\<close>

definition granted :: "nat \<Rightarrow> nat" where
  "granted n = (n + 15) mod 2 ^ 32 div 16 * 16"

lemma granted_dvd [simp]: "16 dvd granted n"
  by (simp add: granted_def)

lemma granted_less: "granted n < 2 ^ 32"
proof -
  have "granted n \<le> (n + 15) mod 2 ^ 32" by (simp add: granted_def)
  also have "\<dots> < 2 ^ 32" by simp
  finally show ?thesis .
qed

lemma granted_small:
  assumes "n \<le> 0xFFFFFFF0"
  shows "granted n = (n + 15) div 16 * 16" "n \<le> granted n"
proof -
  show g: "granted n = (n + 15) div 16 * 16" using assms by (simp add: granted_def)
  show "n \<le> granted n" unfolding g using mod_less_divisor [of 16 "n + 15"] by (simp add: minus_mod_eq_div_mult [symmetric])
qed

lemma granted_wraps: "0xFFFFFFF0 < n \<Longrightarrow> n < 2 ^ 32 \<Longrightarrow> granted n = 0"
proof -
  assume n: "0xFFFFFFF0 < n" "n < 2 ^ 32"
  then have "(n + 15) mod 2 ^ 32 = n + 15 - 2 ^ 32" by (simp add: mod_if)
  then show ?thesis using n by (simp add: granted_def)
qed

lemma heap_align_up_granted: "heap_align_up v granularity = w32 (granted (unat v))"
proof (cases "unat v \<le> 0xFFFFFFF0")
  case True
  then have "heap_align_up (w32 (unat v)) granularity = w32 ((unat v + 15) div 16 * 16)"
    by (intro heap_align_up_16) simp
  then show ?thesis using granted_small(1) [OF True] by (simp add: w32_def)
next
  case False
  then have g: "granted (unat v) = 0" using unat_less_exp [of v] by (intro granted_wraps) simp_all
  have "unat (v + 15) = unat v + 15 - 2 ^ 32" using False unat_less_exp [of v] by (simp add: unat_word_ariths mod_if)
  then have small: "unat (v + 15) < 2 ^ 4" using unat_less_exp [of v] by simp
  have high: "\<not> bit (v + 15) k" if "4 \<le> k" for k
  proof -
    have "unat (v + 15) < 2 ^ k" using small power_increasing [OF that, of "2 :: nat"] by linarith
    then have "\<not> bit (unat (v + 15)) k" by (simp add: bit_iff_odd)
    then show ?thesis by (auto simp: bit_unsigned_iff exp_eq_zero_iff bit_imp_le_length)
  qed
  have "(v + 15) AND NOT (mask 4) = 0"
    by (rule bit_eqI) (use high in \<open>auto simp: bit_and_iff bit_not_iff bit_mask_iff not_less\<close>)
  then show ?thesis by (simp add: g heap_align_up_def granularity_def w32_def mask_eq_exp_minus_1 add.commute)
qed

definition coalesced :: "seg list \<Rightarrow> bool" where
  "coalesced ss \<longleftrightarrow> successively (\<lambda>s t. \<not> (vacant s \<and> vacant t)) ss"

definition seg_ok :: "seg \<Rightarrow> bool" where
  "seg_ok s \<longleftrightarrow> (if vacant s then req s = 0 else 0 < req s \<and> req s < 2 ^ 32 \<and> granted (req s) \<le> cap s)"

definition heap_sound :: "heap \<Rightarrow> seg list \<Rightarrow> bool" where
  "heap_sound h ss \<longleftrightarrow> heap_list h ss \<and> coalesced ss \<and> (\<forall>s\<in>set ss. seg_ok s) \<and>
    hp_active_allocations h = w32 (length (filter (Not \<circ> vacant) ss))"

definition sizes_granted :: "heap \<Rightarrow> seg list \<Rightarrow> bool" where
  "sizes_granted h ss \<longleftrightarrow> (\<forall>s\<in>set ss. req s \<le> cap s) \<and> used_total ss \<le> unat (hp_peak_used h)"

definition heap_ok :: "heap \<Rightarrow> seg list \<Rightarrow> bool" where
  "heap_ok h ss \<longleftrightarrow> heap_sound h ss \<and> sizes_granted h ss"

text \<open>The allocations: the payload address and the requested size of every segment in use.\<close>

fun allocations :: "nat \<Rightarrow> seg list \<Rightarrow> (nat \<times> nat) set" where
  "allocations a [] = {}"
| "allocations a (s # ss) = (if vacant s then {} else {(a + 32, req s)}) \<union> allocations (a + 32 + cap s) ss"

lemma allocations_append: "allocations a (xs @ ys) = allocations a xs \<union> allocations (a + extent xs) ys"
  by (induction xs arbitrary: a) (auto simp: add.assoc)

lemma allocations_range:
  "(x, n) \<in> allocations a ss \<Longrightarrow> \<forall>s\<in>set ss. seg_ok s \<Longrightarrow> a + 32 \<le> x \<and> x + granted n \<le> a + extent ss \<and> 0 < n"
proof (induction ss arbitrary: a)
  case (Cons s ss)
  have "\<forall>s\<in>set ss. seg_ok s" using Cons.prems(2) by simp
  then have "(x, n) \<in> allocations (a + 32 + cap s) ss \<Longrightarrow> a + 32 \<le> x \<and> x + granted n \<le> a + extent (s # ss) \<and> 0 < n"
    using Cons.IH [of "a + 32 + cap s"] by auto
  then show ?case using Cons.prems by (auto simp: seg_ok_def [of s] split: if_splits)
qed simp

lemma allocations_disjoint:
  "(x, n) \<in> allocations a ss \<Longrightarrow> (y, k) \<in> allocations a ss \<Longrightarrow> (x, n) \<noteq> (y, k) \<Longrightarrow> \<forall>s\<in>set ss. seg_ok s \<Longrightarrow>
    x + granted n < y \<or> y + granted k < x"
proof (induction ss arbitrary: a)
  case (Cons s ss)
  have ok: "\<forall>s\<in>set ss. seg_ok s" "seg_ok s" using Cons.prems(4) by auto
  have r: "a + 32 + cap s + 32 \<le> z" if "(z, i) \<in> allocations (a + 32 + cap s) ss" for z i
    using allocations_range [OF that ok(1)] by simp
  show ?case using Cons.prems(1-3) ok(2) r Cons.IH [OF _ _ Cons.prems(3) ok(1)]
    by (force simp: seg_ok_def split: if_splits)
qed simp

section \<open>Allocation\<close>

text \<open>The gap that \<open>allocate\<close> leaves before the payload of a segment whose payload is at \<open>x\<close>.\<close>

definition gap :: "nat \<Rightarrow> nat \<Rightarrow> nat" where
  "gap x k = (let aligned = (x + 2 ^ k - 1) div 2 ^ k * 2 ^ k in
    unat (snd (pad_prefix (w32 (2 ^ k)) (w32 aligned) (w32 (aligned - x)))))"

lemma gap_facts:
  assumes k: "k \<le> 12" and x: "16 dvd x" "x < 2 ^ 23"
  shows "gap x k = 0 \<or> 48 \<le> gap x k" "16 dvd gap x k" "2 ^ k dvd x + gap x k" "gap x k < 2 ^ 14"
    and "snd (pad_prefix (w32 (2 ^ k)) ((w32 x + w32 (2 ^ k) - 1) AND NOT (w32 (2 ^ k) - 1))
      (((w32 x + w32 (2 ^ k) - 1) AND NOT (w32 (2 ^ k) - 1)) - w32 x)) = w32 (gap x k)"
proof -
  let ?K = "2 ^ k :: nat"
  define aligned where "aligned = (x + ?K - 1) div ?K * ?K"
  have K: "0 < ?K" "?K \<le> 2 ^ 12" using power_increasing [OF k, of "2 :: nat"] by simp_all
  have a: "x \<le> aligned" "aligned < x + ?K" "?K dvd aligned"
  proof -
    have "(x + ?K - 1) div ?K * ?K + (x + ?K - 1) mod ?K = x + ?K - 1" by (rule div_mult_mod_eq)
    moreover have "(x + ?K - 1) mod ?K < ?K" using K by simp
    ultimately show "x \<le> aligned" "aligned < x + ?K" using K unfolding aligned_def by linarith+
    show "?K dvd aligned" unfolding aligned_def by simp
  qed
  then obtain j where j: "pad_prefix (w32 ?K) (w32 aligned) (w32 (aligned - x)) =
      (w32 (aligned + j * ?K), w32 (aligned - x + j * ?K))"
    "aligned - x + j * ?K = 0 \<or> 48 \<le> aligned - x + j * ?K" "aligned - x + j * ?K \<le> max (aligned - x) 4144"
    "aligned - x = 0 \<longrightarrow> j = 0"
    using pad_prefix_w32 [OF k, of "aligned - x" aligned] K by fastforce
  have b: "aligned - x + j * ?K < 2 ^ 14" using j(3) a K by (simp add: max_def split: if_splits)
  then have g: "gap x k = aligned - x + j * ?K"
    unfolding gap_def aligned_def [symmetric] Let_def j(1) by (simp add: unat_w32)
  show "gap x k = 0 \<or> 48 \<le> gap x k" "gap x k < 2 ^ 14" using j(2) b unfolding g by auto
  have xg: "x + gap x k = aligned + j * ?K" using a(1) unfolding g by simp
  show "?K dvd x + gap x k" unfolding xg using a(3) by simp
  show "16 dvd gap x k"
  proof (cases "4 \<le> k")
    case True
    then have "(16 :: nat) dvd ?K" using le_imp_power_dvd [OF True, of "2 :: nat"] by simp
    then show ?thesis using \<open>?K dvd x + gap x k\<close> x(1) by (meson dvd_add_right_iff dvd_trans)
  next
    case False
    then have "?K dvd 16" using le_imp_power_dvd [of k 4 "2 :: nat"] by simp
    then have "?K dvd x" using x(1) dvd_trans by blast
    then have "?K dvd aligned - x" using a by (simp add: dvd_diff_nat)
    then have "aligned - x = 0" using a by (metis K(1) add.commute less_diff_conv2 nat_dvd_not_less neq0_conv)
    then show ?thesis using j(4) unfolding g by simp
  qed
  have "x + ?K \<le> 2 ^ 32" "k < 32" using x(2) K k by simp_all
  note e = align_up_w32 [OF this, folded aligned_def]
  show "snd (pad_prefix (w32 ?K) ((w32 x + w32 ?K - 1) AND NOT (w32 ?K - 1))
      (((w32 x + w32 ?K - 1) AND NOT (w32 ?K - 1)) - w32 x)) = w32 (gap x k)"
    unfolding e w32_arith(2) [OF a(1)] j(1) g by simp
qed

lemma heap_list_update:
  assumes hl: "heap_list h (pre @ s # post)" and f: "\<And>p q. f (header s p q) = header s' p q" and c: "cap s' = cap s"
  shows "heap_list (set_block (w32 (0x100000 + extent pre)) f h) (pre @ s' # post)"
proof -
  let ?b = "0x100000 + extent pre"
  note at = heap_list_at [OF hl]
  have e: "?b + 32 + cap s + extent post = 0x300000" using hl by (simp add: heap_list_def)
  have "dls (hp_memory h) 0 0x100000 pre (w32 ?b)" "dls (hp_memory h) (w32 ?b) (?b + 32 + cap s) post 0"
    using hl by (simp_all add: heap_list_def dls_append)
  then have "dls ((hp_memory h)(w32 ?b := v)) 0 0x100000 pre (w32 ?b)"
    "dls ((hp_memory h)(w32 ?b := v)) (w32 ?b) (?b + 32 + cap s) post 0" for v
    using e dls_upd_outside [of ?b "0x100000" pre] dls_upd_outside [of ?b "?b + 32 + cap s" post] by simp_all
  then show ?thesis using hl at(1) f c by (simp add: heap_list_def dls_append)
qed

lemma used_total_le_extent: "\<forall>s\<in>set ss. req s \<le> cap s \<Longrightarrow> used_total ss \<le> extent ss"
  by (induction ss) (auto simp: used_total_def)

lemma used_total_append [simp]:
  "used_total (xs @ ys) = used_total xs + used_total ys"
  "used_total (s # ss) = (if vacant s then 0 else req s) + used_total ss"
  by (simp_all add: used_total_def)

text \<open>Putting a vacant segment to use, all of it or its front part.\<close>

lemma take_block_segs:
  assumes hl: "heap_list h (pre @ s # post)" and v: "vacant s"
    and n: "16 dvd n" "n \<le> cap s" "w = w32 n" "0 < bytes" "bytes < 2 ^ 32" "granted bytes \<le> n"
    and ok: "\<forall>t\<in>set pre \<union> set post. seg_ok t"
    and act: "hp_active_allocations h = w32 (length (filter (Not \<circ> vacant) (pre @ s # post)))"
  defines "b \<equiv> 0x100000 + extent pre"
  shows "\<exists>u rest h1. take_block (w32 bytes) w (w32 b) h = Some (w32 (b + 32), h1) \<and>
    \<not> vacant u \<and> req u = bytes \<and> seg_ok u \<and>
    (rest = [] \<and> cap u = cap s \<or> (\<exists>t. rest = [t] \<and> vacant t \<and> seg_ok t \<and> cap u + 32 + cap t = cap s)) \<and>
    heap_list h1 (pre @ u # rest @ post) \<and>
    hp_active_allocations h1 = w32 (length (filter (Not \<circ> vacant) (pre @ u # rest @ post))) \<and>
    (sizes_granted h (pre @ s # post) \<and> bytes \<le> n \<longrightarrow> sizes_granted h1 (pre @ u # rest @ post))"
proof -
  have al: "heap_align_up w granularity = w32 n"
  proof -
    have "n + 16 \<le> 2 ^ 32" using n(2) heap_list_at(5) [OF hl] by simp
    with n(1) show ?thesis unfolding n(3) by (rule heap_align_up_dvd)
  qed
  define rest where "rest = (if n + 48 \<le> cap s then [\<lparr>cap = cap s - n - 32, req = 0, vacant = True\<rparr>] else [])"
  define u0 where "u0 = (if n + 48 \<le> cap s then s\<lparr>cap := n\<rparr> else s)"
  define u where "u = u0\<lparr>req := bytes, vacant := False\<rparr>"
  define h1 where "h1 = snd (split_after (w32 b) w h)"
  have h1: "heap_list h1 (pre @ u0 # rest @ post)" "hp_active_allocations h1 = hp_active_allocations h"
    "hp_peak_used h1 = hp_peak_used h"
  proof -
    have "heap_list h1 (pre @ u0 # rest @ post) \<and> hp_active_allocations h1 = hp_active_allocations h \<and>
      hp_peak_used h1 = hp_peak_used h"
    proof (cases "n + 48 \<le> cap s")
      case True
      from split_after_segs [OF hl n(1) True al] show ?thesis
        unfolding h1_def b_def using True by (auto simp: rest_def u0_def)
    next
      case False
      then show ?thesis using split_after_whole [OF hl n(2) _ al] hl
        unfolding h1_def b_def by (simp add: rest_def u0_def)
    qed
    then show "heap_list h1 (pre @ u0 # rest @ post)" "hp_active_allocations h1 = hp_active_allocations h"
      "hp_peak_used h1 = hp_peak_used h" by blast+
  qed
  define h2 where "h2 = (set_block (w32 b) (\<lambda>x. x\<lparr>blk_flags := 0, blk_requested := w32 bytes\<rparr>) h1)
    \<lparr>hp_active_allocations := hp_active_allocations h1 + 1\<rparr>"
  have "heap_list (set_block (w32 b) (\<lambda>x. x\<lparr>blk_flags := 0, blk_requested := w32 bytes\<rparr>) h1) (pre @ u # rest @ post)"
    unfolding b_def by (rule heap_list_update [OF h1(1)]) (simp_all add: header_def u_def)
  then have h2: "heap_list h2 (pre @ u # rest @ post)" by (simp add: h2_def heap_list_def)
  have u: "\<not> vacant u" "req u = bytes" "seg_ok u" using n by (auto simp: u_def u0_def seg_ok_def)
  have r: "rest = [] \<and> cap u = cap s \<or> (\<exists>t. rest = [t] \<and> vacant t \<and> seg_ok t \<and> cap u + 32 + cap t = cap s)"
    by (auto simp: rest_def u_def u0_def seg_ok_def)
  have a: "hp_active_allocations h2 = w32 (length (filter (Not \<circ> vacant) (pre @ u # rest @ post)))"
    using act v u r h1(2) by (auto simp: h2_def w32_def)
  let ?used = "used_total (pre @ u # rest @ post)"
  have fit: "\<forall>t\<in>set (pre @ u # rest @ post). req t \<le> cap t" if "sizes_granted h (pre @ s # post)" "bytes \<le> n"
    using that n(2) by (auto simp: sizes_granted_def rest_def u_def u0_def)
  have used: "unat (w32 ?used) = ?used" if "sizes_granted h (pre @ s # post)" "bytes \<le> n"
    using used_total_le_extent [OF fit [OF that]] h2 by (intro unat_w32) (simp add: heap_list_def)
  define h3 where "h3 = (if hp_peak_used h2 < w32 ?used then h2\<lparr>hp_peak_used := w32 ?used\<rparr> else h2)"
  have "take_block (w32 bytes) w (w32 b) h = Some (w32 (b + 32), h3)"
    unfolding take_block_def h1_def [symmetric] Let_def h2_def [symmetric] used_bytes_segs [OF h2]
    by (simp add: h3_def payload_def w32_consts(3) w32_arith)
  moreover have "heap_list h3 (pre @ u # rest @ post)" using h2 by (simp add: h3_def heap_list_def)
  moreover have "sizes_granted h3 (pre @ u # rest @ post)" if "sizes_granted h (pre @ s # post)" "bytes \<le> n"
    using fit [OF that] used [OF that] by (auto simp: sizes_granted_def h3_def word_less_nat_alt)
  moreover have "hp_active_allocations h3 = hp_active_allocations h2" by (simp add: h3_def)
  ultimately show ?thesis using u r a by metis
qed

lemma extent_dvd: "\<forall>s\<in>set ss. 16 dvd cap s \<Longrightarrow> 16 dvd extent ss"
proof (induction ss)
  case (Cons s ss)
  then have "16 dvd cap s" "16 dvd extent ss" by simp_all
  then show ?case by (auto intro!: dvd_add)
qed simp

lemma coalesced_use:
  assumes "coalesced (pre @ s # post)" "vacant s" "\<not> vacant u" "\<forall>t\<in>set before \<union> set rest. vacant t"
    "length before \<le> 1" "length rest \<le> 1"
  shows "coalesced (pre @ before @ u # rest @ post)"
proof -
  have "before = [] \<or> (\<exists>t. before = [t] \<and> vacant t)" "rest = [] \<or> (\<exists>t. rest = [t] \<and> vacant t)"
    using assms(4-6) by (auto simp: le_Suc_eq length_Suc_conv)
  then show ?thesis using assms(1-3)
    by (auto simp: coalesced_def successively_append_iff successively_Cons)
qed

definition take_at :: "u32 \<Rightarrow> u32 \<Rightarrow> nat \<Rightarrow> u32 \<Rightarrow> heap \<Rightarrow> (u32 \<times> heap) option" where
  "take_at bytes wanted g blk h =
    (if w32 g \<noteq> 0 then (case split_after blk (w32 g - sizeof_block) h of (aligned_block, h1) \<Rightarrow>
       if aligned_block = 0 then None else take_block bytes wanted aligned_block h1)
     else take_block bytes wanted blk h)"

lemma take_at_segs:
  assumes ok: "heap_sound h (pre @ s # post)" and v: "vacant s"
    and g: "g = 0 \<or> 48 \<le> g" "16 dvd g" "g + n \<le> cap s" "g = 0 \<or> g + 16 \<le> cap s"
    and n: "16 dvd n" "0 < bytes" "bytes < 2 ^ 32" "granted bytes \<le> n"
  defines "b \<equiv> 0x100000 + extent pre"
  shows "\<exists>h1 ss. take_at (w32 bytes) (w32 n) g (w32 b) h = Some (w32 (b + 32 + g), h1) \<and> heap_sound h1 ss \<and>
    allocations 0x100000 ss = insert (b + 32 + g, bytes) (allocations 0x100000 (pre @ s # post)) \<and>
    b + 32 + g + n \<le> 0x300000 \<and> (\<forall>i. (b + 32 + g, i) \<notin> allocations 0x100000 (pre @ s # post)) \<and>
    (sizes_granted h (pre @ s # post) \<and> bytes \<le> n \<longrightarrow> sizes_granted h1 ss) \<and> (w32 g \<noteq> 0 \<longrightarrow> fst (split_after (w32 b) (w32 g - sizeof_block) h) \<noteq> 0)"
proof -
  have hl: "heap_list h (pre @ s # post)" and co: "coalesced (pre @ s # post)"
    and so: "\<forall>t\<in>set pre \<union> set post. seg_ok t" "seg_ok s"
    and act: "hp_active_allocations h = w32 (length (filter (Not \<circ> vacant) (pre @ s # post)))"
    using ok by (auto simp: heap_sound_def)
  have lim: "b + 32 + cap s \<le> 0x300000" using heap_list_at(5) [OF hl] unfolding b_def .
  have fresh: "\<forall>i. (b + 32 + g, i) \<notin> allocations 0x100000 (pre @ s # post)"
    using allocations_range [of _ _ "0x100000" pre] allocations_range [of _ _ "b + 32 + cap s" post] so v g(3)
    by (force simp: allocations_append b_def)
  show ?thesis
  proof (cases "g = 0")
    case True
    have nc: "n \<le> cap s" using g(3) by simp
    obtain u rest h1 where t: "take_block (w32 bytes) (w32 n) (w32 b) h = Some (w32 (b + 32), h1)"
      "\<not> vacant u" "req u = bytes" "seg_ok u"
      "rest = [] \<and> cap u = cap s \<or> (\<exists>t. rest = [t] \<and> vacant t \<and> seg_ok t \<and> cap u + 32 + cap t = cap s)"
      "heap_list h1 (pre @ u # rest @ post)"
      "hp_active_allocations h1 = w32 (length (filter (Not \<circ> vacant) (pre @ u # rest @ post)))"
      "sizes_granted h (pre @ s # post) \<and> bytes \<le> n \<longrightarrow> sizes_granted h1 (pre @ u # rest @ post)"
      using take_block_segs [OF hl v n(1) nc refl n(2-4) so(1) act, folded b_def] by blast
    have "coalesced (pre @ u # rest @ post)" using coalesced_use [OF co v t(2), of "[]" rest] t(5) by auto
    then have "heap_sound h1 (pre @ u # rest @ post)" using t so by (auto simp: heap_sound_def)
    moreover have "allocations 0x100000 (pre @ u # rest @ post) =
        insert (b + 32 + g, bytes) (allocations 0x100000 (pre @ s # post))"
      using t(2,3,5) v True by (auto simp: allocations_append b_def add.assoc)
    ultimately show ?thesis using t(1,8) True lim g(3) fresh by (auto simp: take_at_def w32_def)
  next
    case False
    then have g48: "48 \<le> g" using g(1) by simp
    define s1 where "s1 = s\<lparr>cap := g - 32\<rparr>"
    define s2 where "s2 = \<lparr>cap = cap s - g, req = 0, vacant = True\<rparr>"
    have al: "heap_align_up (w32 g - sizeof_block) granularity = w32 (g - 32)"
    proof -
      have "g - 32 + 16 \<le> 2 ^ 32" using g(3) lim by simp
      moreover have "16 dvd g - 32" using g(2) g48 by (simp add: dvd_diff_nat)
      ultimately show ?thesis using heap_align_up_dvd [of "g - 32"] g48 unfolding w32_consts(3)
        by (simp add: w32_arith(2))
    qed
    have "16 dvd g - 32" "g - 32 + 48 \<le> cap s" using g g48 by (simp_all add: dvd_diff_nat)
    from split_after_segs [OF hl this al] obtain h0 where h0:
      "split_after (w32 b) (w32 g - sizeof_block) h = (w32 (b + g), h0)" "heap_list h0 (pre @ s1 # s2 # post)"
      "hp_peak_used h0 = hp_peak_used h" "hp_active_allocations h0 = hp_active_allocations h"
      using g48 unfolding b_def s1_def s2_def by (auto simp: add.assoc)
    let ?pre = "pre @ [s1]"
    have e: "0x100000 + extent ?pre = b + g" using g48 by (simp add: b_def s1_def)
    have s1: "vacant s1" "req s1 = 0" "seg_ok s1" "cap s1 = g - 32" using v so(2) by (auto simp: s1_def seg_ok_def)
    have hl': "heap_list h0 (?pre @ s2 # post)" using h0(2) by simp
    have so': "\<forall>t\<in>set ?pre \<union> set post. seg_ok t" using so s1 by auto
    have act': "hp_active_allocations h0 = w32 (length (filter (Not \<circ> vacant) (?pre @ s2 # post)))"
      using act h0(4) v s1 by (simp add: s2_def)
    have hon': "sizes_granted h0 (?pre @ s2 # post)" if "sizes_granted h (pre @ s # post)"
      using that h0(3) v s1 by (simp add: sizes_granted_def s2_def)
    have "vacant s2" "n \<le> cap s2" using g(3) by (simp_all add: s2_def)
    from take_block_segs [OF hl' this(1) n(1) this(2) refl n(2-4) so' act', unfolded e]
    obtain u rest h1 where t: "take_block (w32 bytes) (w32 n) (w32 (b + g)) h0 = Some (w32 (b + g + 32), h1)"
      "\<not> vacant u" "req u = bytes" "seg_ok u"
      "rest = [] \<and> cap u = cap s2 \<or> (\<exists>t. rest = [t] \<and> vacant t \<and> seg_ok t \<and> cap u + 32 + cap t = cap s2)"
      "heap_list h1 (?pre @ u # rest @ post)"
      "hp_active_allocations h1 = w32 (length (filter (Not \<circ> vacant) (?pre @ u # rest @ post)))"
      "sizes_granted h0 (?pre @ s2 # post) \<and> bytes \<le> n \<longrightarrow> sizes_granted h1 (?pre @ u # rest @ post)" by blast
    have "coalesced (?pre @ u # rest @ post)" using coalesced_use [OF co v t(2), of "[s1]" rest] t(5) s1 by auto
    then have ok1: "heap_sound h1 (?pre @ u # rest @ post)" using t so' by (auto simp: heap_sound_def)
    have "cap u + extent rest = cap s - g" using t(5) by (auto simp: s2_def)
    then have "allocations 0x100000 (?pre @ u # rest @ post) =
        insert (b + 32 + g, bytes) (allocations 0x100000 (pre @ s # post))"
      using t(2,3,5) v s1 g48 g(3) by (auto simp: allocations_append b_def add.assoc)
    moreover have nz: "w32 g \<noteq> 0" "w32 (b + g) \<noteq> 0"
      using g48 g(3) lim unfolding w32_consts(5) by (simp_all add: w32_inj)
    ultimately show ?thesis using ok1 t(1,8) hon' h0(1) lim g(3) fresh by (auto simp: take_at_def add.assoc add.left_commute add.commute)
  qed
qed

text \<open>
  Whether some vacant segment can hold \<open>n\<close> bytes at an address aligned to \<open>2 ^ k\<close>. A gap in front
  becomes a block of its own, for which the rest must be large enough to be split off.
\<close>

fun fits :: "nat \<Rightarrow> nat \<Rightarrow> nat \<Rightarrow> seg list \<Rightarrow> bool" where
  "fits n k a [] \<longleftrightarrow> False"
| "fits n k a (s # ss) \<longleftrightarrow>
    vacant s \<and> gap (a + 32) k + n \<le> cap s \<and> (gap (a + 32) k = 0 \<or> gap (a + 32) k + 16 \<le> cap s) \<or> fits n k (a + 32 + cap s) ss"

lemma allocate_loop_segs:
  assumes ok: "heap_sound h (pre @ suf)" and k: "k \<le> 12"
    and n: "16 dvd n" "0 < bytes" "bytes < 2 ^ 32" "granted bytes \<le> n" "n < 2 ^ 32"
  shows "if fits n k (0x100000 + extent pre) suf
    then \<exists>x h1 ss. allocate_loop (w32 bytes) (w32 (2 ^ k)) (w32 n) h (cursor pre suf) = Some (w32 x, h1) \<and>
      heap_sound h1 ss \<and> allocations 0x100000 ss = insert (x, bytes) (allocations 0x100000 (pre @ suf)) \<and>
      2 ^ k dvd x \<and> 0x100000 < x \<and> x + n \<le> 0x300000 \<and> (\<forall>i. (x, i) \<notin> allocations 0x100000 (pre @ suf)) \<and>
      (sizes_granted h (pre @ suf) \<and> bytes \<le> n \<longrightarrow> sizes_granted h1 ss)
    else allocate_loop (w32 bytes) (w32 (2 ^ k)) (w32 n) h (cursor pre suf) = Some (0, h)"
  using ok
proof (induction suf arbitrary: pre)
  case Nil
  then show ?case by (simp add: allocate_loop.simps)
next
  case (Cons s post)
  let ?loop = "allocate_loop (w32 bytes) (w32 (2 ^ k)) (w32 n)"
  define b where "b = 0x100000 + extent pre"
  define g where "g = gap (b + 32) k"
  have hl: "heap_list h (pre @ s # post)" using Cons.prems by (simp add: heap_sound_def)
  note at = heap_list_at [OF hl, folded b_def]
  have c: "blk_capacity (hp_memory h (w32 b)) = w32 (cap s)" using at(1) by (simp add: header_def)
  have "16 dvd b + 32" using hl extent_dvd [of pre] by (auto simp: heap_list_def b_def intro!: dvd_add)
  then have g: "g = 0 \<or> 48 \<le> g" "16 dvd g" "2 ^ k dvd b + 32 + g" "g < 2 ^ 14"
      "snd (pad_prefix (w32 (2 ^ k)) ((w32 (b + 32) + w32 (2 ^ k) - 1) AND NOT (w32 (2 ^ k) - 1))
        (((w32 (b + 32) + w32 (2 ^ k) - 1) AND NOT (w32 (2 ^ k) - 1)) - w32 (b + 32))) = w32 g"
    using gap_facts [OF k, of "b + 32"] at(5) unfolding g_def by simp_all
  have pl: "payload (w32 b) = w32 (b + 32)" by (simp add: payload_def w32_consts(3) w32_arith)
  have fit: "w32 (cap s) < w32 g \<or> w32 (cap s) - w32 g < w32 n \<longleftrightarrow> \<not> g + n \<le> cap s"
  proof (cases "g \<le> cap s")
    case True
    then show ?thesis using at(5) g(4) n(5) by (auto simp: w32_arith w32_order)
  next
    case False
    then show ?thesis using at(5) g(4) by (simp add: w32_order)
  qed
  note nxt = cursor_next [OF hl, folded b_def]
  have IH: "if fits n k (b + 32 + cap s) post
    then \<exists>x h1 ss. ?loop h (cursor (pre @ [s]) post) = Some (w32 x, h1) \<and>
      heap_sound h1 ss \<and> allocations 0x100000 ss = insert (x, bytes) (allocations 0x100000 (pre @ s # post)) \<and>
      2 ^ k dvd x \<and> 0x100000 < x \<and> x + n \<le> 0x300000 \<and> (\<forall>i. (x, i) \<notin> allocations 0x100000 (pre @ s # post)) \<and>
      (sizes_granted h (pre @ s # post) \<and> bytes \<le> n \<longrightarrow> sizes_granted h1 ss)
    else ?loop h (cursor (pre @ [s]) post) = Some (0, h)"
    using Cons.IH [of "pre @ [s]", unfolded append_assoc append_Cons append_Nil, OF Cons.prems]
    by (simp only: extent_simps add.assoc add_0_right b_def)
  show ?case
  proof (cases "vacant s \<and> g + n \<le> cap s \<and> (g = 0 \<or> g + 16 \<le> cap s)")
    case True
    obtain h1 ss where t: "take_at (w32 bytes) (w32 n) g (w32 b) h = Some (w32 (b + 32 + g), h1)" "heap_sound h1 ss"
      "allocations 0x100000 ss = insert (b + 32 + g, bytes) (allocations 0x100000 (pre @ s # post))"
      "b + 32 + g + n \<le> 0x300000" "\<forall>i. (b + 32 + g, i) \<notin> allocations 0x100000 (pre @ s # post)" "w32 g \<noteq> 0 \<longrightarrow> fst (split_after (w32 b) (w32 g - sizeof_block) h) \<noteq> 0"
      "sizes_granted h (pre @ s # post) \<and> bytes \<le> n \<longrightarrow> sizes_granted h1 ss"
      using take_at_segs [OF Cons.prems _ g(1,2) _ _ n(1-4), folded b_def] True by blast
    have "?loop h (w32 b) = take_at (w32 bytes) (w32 n) g (w32 b) h"
      unfolding take_at_def using True at(2,3) fit t(6)
      by (subst allocate_loop.simps) (auto simp: Let_def pl c g(5) split: prod.split)
    then have "?loop h (cursor pre (s # post)) = Some (w32 (b + 32 + g), h1)" using t(1) by (simp add: b_def)
    moreover have "fits n k b (s # post)" using True by (simp add: g_def)
    moreover have "0x100000 < b + 32 + g" by (simp add: b_def)
    ultimately show ?thesis using t(2-5,7) g(3) unfolding b_def [symmetric] by (simp only: if_True) blast
  next
    case False
    have whole: "split_after (w32 b) (w32 g - sizeof_block) h = (0, h) \<and> w32 g \<noteq> 0" if "g + n \<le> cap s" "vacant s"
    proof -
      have g48: "48 \<le> g" "cap s < g + 16" using False that g(1) by auto
      have "heap_align_up (w32 g - sizeof_block) granularity = w32 (g - 32)"
        using heap_align_up_dvd [of "g - 32"] g(2,4) g48 unfolding w32_consts(3) by (simp add: w32_arith(2) dvd_diff_nat)
      from split_after_whole [OF hl _ _ this] have "split_after (w32 b) (w32 g - sizeof_block) h = (0, h)"
        using that g48 unfolding b_def by simp
      moreover have "w32 g \<noteq> 0" using g48(1) g(4) unfolding w32_consts(5) by (simp add: w32_inj)
      ultimately show ?thesis by blast
    qed
    have l: "?loop h (w32 b) = ?loop h (cursor (pre @ [s]) post)"
      using False at(2,3) fit whole by (subst allocate_loop.simps) (auto simp: Let_def pl c g(5) nxt)
    have f: "fits n k b (s # post) \<longleftrightarrow> fits n k (b + 32 + cap s) post" using False by (auto simp: g_def)
    show ?thesis unfolding cursor_simps b_def [symmetric] l f by (rule IH)
  qed
qed

lemma heap_allocate_segs:
  assumes ok: "heap_sound h ss" and b: "bytes \<noteq> 0"
    and a: "alignment \<noteq> 0" "alignment AND (alignment - 1) = 0" "alignment \<le> 4096"
  defines "n \<equiv> granted (unat bytes)"
  shows "\<exists>k\<le>12. unat alignment = 2 ^ k \<and>
    (if fits n k 0x100000 ss
     then \<exists>x h1 ss1. heap_allocate bytes alignment h = Some (w32 x, h1) \<and> heap_sound h1 ss1 \<and>
       allocations 0x100000 ss1 = insert (x, unat bytes) (allocations 0x100000 ss) \<and>
       unat alignment dvd x \<and> 0x100000 < x \<and> x + n \<le> 0x300000 \<and> (\<forall>i. (x, i) \<notin> allocations 0x100000 ss) \<and>
       (sizes_granted h ss \<and> unat bytes \<le> n \<longrightarrow> sizes_granted h1 ss1)
     else heap_allocate bytes alignment h = Some (0, h))"
proof -
  obtain k where k: "k \<le> 12" "alignment = w32 (2 ^ k)" using power_of_two_word [OF a] by blast
  have "(2 :: nat) ^ k < 2 ^ 32" using k(1) by (intro power_strict_increasing) simp_all
  then have u: "unat alignment = 2 ^ k" unfolding k(2) by (rule unat_w32)
  have B: "bytes = w32 (unat bytes)" by (simp add: w32_def)
  have n: "16 dvd n" "0 < unat bytes" "unat bytes < 2 ^ 32" "granted (unat bytes) \<le> n" "n < 2 ^ 32"
    using b granted_less unat_less_exp [of bytes] by (simp_all add: n_def unat_gt_0)
  have eq: "heap_allocate bytes alignment h = allocate_loop bytes alignment (w32 n) h (cursor [] ss)"
    using a b ok heap_first_cursor [of h ss] by (auto simp: heap_allocate_def heap_sound_def heap_align_up_granted n_def)
  note loop = allocate_loop_segs [of h "[]" ss k n "unat bytes", unfolded append_Nil extent_simps(1) add_0_right
      B [symmetric] k(2) [symmetric], OF ok k(1) n, folded eq u]
  show ?thesis by (intro exI [of _ k] conjI k(1) u loop)
qed

section \<open>Release\<close>

text \<open>Both merges of \<open>release\<close> join a block with the one after it.\<close>

definition join_blocks :: "u32 \<Rightarrow> u32 \<Rightarrow> heap \<Rightarrow> heap" where
  "join_blocks left right h =
    (let h1 = set_block left (\<lambda>b. b\<lparr>blk_capacity := blk_capacity b + sizeof_block + blk_capacity (hp_memory h right),
            blk_next := blk_next (hp_memory h right)\<rparr>) h
     in if blk_next (hp_memory h1 left) \<noteq> 0
        then set_block (blk_next (hp_memory h1 left)) (blk_previous_update (\<lambda>_. left)) h1 else h1)"

lemma merge_join:
  "merge_next blk h = (let following = blk_next (hp_memory h blk) in
     if following \<noteq> 0 \<and> valid_block h following \<and> is_free h following then join_blocks blk following h else h)"
  "merge_previous blk h = (let before = blk_previous (hp_memory h blk) in
     if before \<noteq> 0 \<and> valid_block h before \<and> is_free h before then join_blocks before blk h else h)"
  by (simp_all add: merge_next_def merge_previous_def join_blocks_def Let_def)

lemma join_segs:
  assumes hl: "heap_list h (pre @ s # t # post)"
  defines "b \<equiv> 0x100000 + extent pre"
  shows "heap_list (join_blocks (w32 b) (w32 (b + 32 + cap s)) h) (pre @ s\<lparr>cap := cap s + 32 + cap t\<rparr> # post)"
    and "hp_active_allocations (join_blocks (w32 b) (w32 (b + 32 + cap s)) h) = hp_active_allocations h"
    and "hp_peak_used (join_blocks (w32 b) (w32 (b + 32 + cap s)) h) = hp_peak_used h"
proof -
  define c where "c = b + 32 + cap s"
  define e where "e = c + 32 + cap t"
  define q where "q = (if post = [] then 0 else w32 e)"
  have b: "hp_memory h (w32 b) = header s (last_ptr 0 0x100000 pre) (w32 c)"
    using heap_list_at(1) [OF hl] by (simp add: b_def c_def)
  have c: "hp_memory h (w32 c) = header t (w32 b) q"
    using heap_list_at(1) [of h "pre @ [s]" t post] hl by (simp add: b_def c_def q_def e_def add.assoc)
  have e: "e + extent post = 0x300000" "0x100000 \<le> b" "b < c" "c < e"
    using hl by (simp_all add: heap_list_def e_def c_def b_def)
  have qz: "q \<noteq> 0 \<longleftrightarrow> post \<noteq> []" using e unfolding q_def w32_consts(5) by (auto simp: w32_inj)
  define m1 where "m1 = (hp_memory h)(w32 b := header (s\<lparr>cap := cap s + 32 + cap t\<rparr>) (last_ptr 0 0x100000 pre) q)"
  define m2 where "m2 = (if post \<noteq> [] then m1(w32 e := (m1 (w32 e))\<lparr>blk_previous := w32 b\<rparr>) else m1)"
  have ne: "w32 e \<noteq> w32 b" "w32 b \<noteq> w32 e" using e by (simp_all add: w32_inj)
  have j: "join_blocks (w32 b) (w32 c) h = h\<lparr>hp_memory := m2\<rparr>"
  proof -
    have "(hp_memory h (w32 b))\<lparr>blk_capacity := blk_capacity (hp_memory h (w32 b)) + sizeof_block + blk_capacity (hp_memory h (w32 c)),
        blk_next := blk_next (hp_memory h (w32 c))\<rparr> = header (s\<lparr>cap := cap s + 32 + cap t\<rparr>) (last_ptr 0 0x100000 pre) q"
      unfolding b c by (simp add: header_def w32_consts(3) w32_arith)
    moreover have "blk_next (header s' p q) = q" for s' p by (simp add: header_def)
    ultimately show ?thesis using qz unfolding join_blocks_def Let_def
      by (auto simp: m1_def m2_def q_def set_block_def)
  qed
  have old: "dls (hp_memory h) 0 0x100000 pre (w32 b)" "dls (hp_memory h) (w32 c) e post 0"
    using hl by (simp_all add: heap_list_def dls_append b_def c_def e_def)
  have "dls m2 0 0x100000 pre (w32 b)"
  proof -
    have up: "dls (m(w32 k := v)) p 0x100000 pre x \<longleftrightarrow> dls m p 0x100000 pre x" if "b \<le> k" "k \<le> e" for m k v p x
      using that e by (intro dls_upd_outside) (auto simp: b_def)
    show ?thesis using old(1) e by (simp add: m2_def m1_def up)
  qed
  moreover have "m2 (w32 b) = header (s\<lparr>cap := cap s + 32 + cap t\<rparr>) (last_ptr 0 0x100000 pre) q"
    using ne by (simp add: m2_def m1_def)
  moreover have "dls m2 (w32 b) e post 0"
  proof (cases "post = []")
    case False
    have "dls m1 (w32 c) e post 0"
      using old(2) e unfolding m1_def by (subst dls_upd_outside) auto
    then show ?thesis using dls_relink [of m1 "w32 c" e post 0 "w32 b"] False e by (simp add: m2_def)
  qed simp
  moreover have "b + 32 + (cap s + 32 + cap t) = e" by (simp add: e_def c_def)
  ultimately have "dls m2 0 0x100000 (pre @ s\<lparr>cap := cap s + 32 + cap t\<rparr> # post) 0"
    by (simp add: dls_append b_def [symmetric] q_def add.assoc)
  then have "heap_list (h\<lparr>hp_memory := m2\<rparr>) (pre @ s\<lparr>cap := cap s + 32 + cap t\<rparr> # post)"
    using hl by (simp add: heap_list_def)
  then show "heap_list (join_blocks (w32 b) (w32 (b + 32 + cap s)) h) (pre @ s\<lparr>cap := cap s + 32 + cap t\<rparr> # post)"
    "hp_active_allocations (join_blocks (w32 b) (w32 (b + 32 + cap s)) h) = hp_active_allocations h"
    "hp_peak_used (join_blocks (w32 b) (w32 (b + 32 + cap s)) h) = hp_peak_used h"
    using j unfolding c_def by simp_all
qed

lemma find_payload_segs:
  "heap_list h (pre @ suf) \<Longrightarrow>
    \<exists>pre1 suf1. pre @ suf = pre1 @ suf1 \<and> find_payload h pointer (cursor pre suf) = Some (cursor pre1 suf1) \<and>
      (suf1 = [] \<or> pointer = w32 (0x100000 + extent pre1 + 32)) \<and>
      (suf1 = [] \<longrightarrow> (\<forall>p s q. pre @ suf = p @ s # q \<and> length pre \<le> length p \<longrightarrow> pointer \<noteq> w32 (0x100000 + extent p + 32)))"
proof (induction suf arbitrary: pre)
  case Nil
  then show ?case by - (rule exI [of _ pre], rule exI [of _ "[]"], auto simp: find_payload.simps)
next
  case (Cons s suf)
  let ?b = "0x100000 + extent pre"
  note at = heap_list_at [OF Cons.prems]
  have pl: "payload (w32 ?b) = w32 (?b + 32)" by (simp add: payload_def w32_consts(3) w32_arith)
  show ?case
  proof (cases "pointer = w32 (?b + 32)")
    case True
    then show ?thesis using at(2) pl
      by - (rule exI [of _ pre], rule exI [of _ "s # suf"], simp add: find_payload.simps)
  next
    case False
    have f: "find_payload h pointer (cursor pre (s # suf)) = find_payload h pointer (cursor (pre @ [s]) suf)"
      using False at(2) pl cursor_next [OF Cons.prems] by (subst find_payload.simps) simp
    obtain pre1 suf1 where r: "(pre @ [s]) @ suf = pre1 @ suf1"
      "find_payload h pointer (cursor (pre @ [s]) suf) = Some (cursor pre1 suf1)"
      "suf1 = [] \<or> pointer = w32 (0x100000 + extent pre1 + 32)"
      "suf1 = [] \<longrightarrow> (\<forall>p s' q. (pre @ [s]) @ suf = p @ s' # q \<and> length (pre @ [s]) \<le> length p \<longrightarrow>
        pointer \<noteq> w32 (0x100000 + extent p + 32))"
      using Cons.IH [of "pre @ [s]"] Cons.prems unfolding append_assoc append_Cons append_Nil by blast
    have "pointer \<noteq> w32 (0x100000 + extent p + 32)"
      if "suf1 = []" "pre @ s # suf = p @ s' # q" "length pre \<le> length p" for p s' q
    proof (cases "length p = length pre")
      case True
      then have "p = pre" using that(2) by simp
      then show ?thesis using False by simp
    next
      case False
      then show ?thesis using r(4) that by simp
    qed
    then show ?thesis using r(1-3) f by - (rule exI [of _ pre1], rule exI [of _ suf1], simp)
  qed
qed

lemma merge_next_segs:
  assumes hl: "heap_list h (pre @ s # post)"
  defines "b \<equiv> 0x100000 + extent pre"
  shows "\<exists>s1 post1. heap_list (merge_next (w32 b) h) (pre @ s1 # post1) \<and>
    (s1 = s \<and> post1 = post \<and> (post = [] \<or> \<not> vacant (hd post)) \<or>
     (\<exists>t. post = t # post1 \<and> vacant t \<and> s1 = s\<lparr>cap := cap s + 32 + cap t\<rparr>)) \<and>
    hp_active_allocations (merge_next (w32 b) h) = hp_active_allocations h \<and>
    hp_peak_used (merge_next (w32 b) h) = hp_peak_used h"
proof (cases post)
  case Nil
  then have "merge_next (w32 b) h = h"
    using heap_list_at(1) [OF hl] by (simp add: merge_join(1) header_def b_def)
  then show ?thesis using hl Nil by auto
next
  case (Cons t ts)
  have hl2: "heap_list h (pre @ s # t # ts)" using hl Cons by simp
  have n: "blk_next (hp_memory h (w32 b)) = w32 (b + 32 + cap s)"
    using heap_list_at(1) [OF hl2] by (simp add: header_def b_def)
  have "valid_block h (w32 (b + 32 + cap s))" "is_free h (w32 (b + 32 + cap s)) \<longleftrightarrow> vacant t" "w32 (b + 32 + cap s) \<noteq> 0"
    using heap_list_at(2-4) [of h "pre @ [s]" t ts] hl2 by (simp_all add: b_def add.assoc)
  then have m: "merge_next (w32 b) h = (if vacant t then join_blocks (w32 b) (w32 (b + 32 + cap s)) h else h)"
    by (simp add: merge_join(1) n)
  show ?thesis unfolding m using join_segs [OF hl2, folded b_def] hl Cons by (cases "vacant t") auto
qed

lemma merge_previous_segs:
  assumes hl: "heap_list h (pre @ s # post)" and v: "vacant s" "req s = 0" "\<forall>t\<in>set pre. seg_ok t"
  defines "b \<equiv> 0x100000 + extent pre"
  shows "\<exists>s1 pre1. heap_list (merge_previous (w32 b) h) (pre1 @ s1 # post) \<and>
    (s1 = s \<and> pre1 = pre \<and> (pre = [] \<or> \<not> vacant (last pre)) \<or>
     (\<exists>t. pre = pre1 @ [t] \<and> vacant t \<and> s1 = s\<lparr>cap := cap t + 32 + cap s\<rparr>)) \<and>
    hp_active_allocations (merge_previous (w32 b) h) = hp_active_allocations h \<and>
    hp_peak_used (merge_previous (w32 b) h) = hp_peak_used h"
proof (cases pre rule: rev_cases)
  case Nil
  then have "merge_previous (w32 b) h = h"
    using heap_list_at(1) [OF hl] by (simp add: merge_join(2) header_def b_def)
  then show ?thesis using hl Nil by auto
next
  case (snoc ps t)
  have hl2: "heap_list h (ps @ t # s # post)" using hl snoc by simp
  define a where "a = 0x100000 + extent ps"
  have ab: "b = a + 32 + cap t" by (simp add: b_def a_def snoc)
  have n: "blk_previous (hp_memory h (w32 b)) = w32 a"
    using heap_list_at(1) [OF hl] unfolding b_def [symmetric] by (simp add: header_def snoc a_def)
  have "valid_block h (w32 a)" "is_free h (w32 a) \<longleftrightarrow> vacant t" "w32 a \<noteq> 0"
    using heap_list_at(2-4) [OF hl2] by (simp_all add: a_def)
  then have m: "merge_previous (w32 b) h = (if vacant t then join_blocks (w32 a) (w32 b) h else h)"
    by (simp add: merge_join(2) n)
  have "vacant t \<Longrightarrow> t\<lparr>cap := cap t + 32 + cap s\<rparr> = s\<lparr>cap := cap t + 32 + cap s\<rparr>"
    using v snoc by (simp add: seg_ok_def)
  then show ?thesis unfolding m using join_segs [OF hl2, folded a_def, folded ab] hl snoc by (cases "vacant t") auto
qed

lemma length_le_extent: "length ss \<le> extent ss"
  by (induction ss) simp_all

lemma release_at_segs:
  assumes ok: "heap_sound h (pre @ s # post)" and s: "\<not> vacant s"
  defines "b \<equiv> 0x100000 + extent pre"
  defines "h1 \<equiv> set_block (w32 b) (\<lambda>x. x\<lparr>blk_flags := free_flag, blk_requested := 0\<rparr>) h"
  defines "h2 \<equiv> (if hp_active_allocations h1 \<noteq> 0
      then h1\<lparr>hp_active_allocations := hp_active_allocations h1 - 1\<rparr> else h1)"
  shows "\<exists>ss. heap_sound (merge_previous (w32 b) (merge_next (w32 b) h2)) ss \<and>
    allocations 0x100000 (pre @ s # post) = insert (b + 32, req s) (allocations 0x100000 ss) \<and>
    (b + 32, req s) \<notin> allocations 0x100000 ss \<and>
    (sizes_granted h (pre @ s # post) \<longrightarrow> sizes_granted (merge_previous (w32 b) (merge_next (w32 b) h2)) ss)"
proof -
  have hl: "heap_list h (pre @ s # post)" and co: "coalesced (pre @ s # post)"
    and so: "\<forall>t\<in>set pre. seg_ok t" "\<forall>t\<in>set post. seg_ok t" "seg_ok s"
    and act: "hp_active_allocations h = w32 (length (filter (Not \<circ> vacant) (pre @ s # post)))"
    using ok by (auto simp: heap_sound_def)
  define s0 where "s0 = s\<lparr>req := 0, vacant := True\<rparr>"
  have s0: "vacant s0" "req s0 = 0" "cap s0 = cap s" by (simp_all add: s0_def)
  have "heap_list h1 (pre @ s0 # post)" unfolding h1_def b_def
    by (rule heap_list_update [OF hl]) (simp_all add: header_def s0_def free_flag_def w32_def)
  then have hl2: "heap_list h2 (pre @ s0 # post)" by (simp add: h2_def heap_list_def)
  let ?n = "length (filter (Not \<circ> vacant) (pre @ post))"
  have "?n \<le> extent (pre @ post)" by (rule order_trans [OF length_filter_le length_le_extent])
  then have "Suc ?n < 2 ^ 32" using hl by (simp add: heap_list_def)
  then have "hp_active_allocations h1 = w32 (Suc ?n)" "w32 (Suc ?n) \<noteq> 0"
    using act s w32_inj [of "Suc ?n" 0] by (simp_all add: h1_def w32_consts(5))
  then have act2: "hp_active_allocations h2 = w32 ?n" "hp_peak_used h2 = hp_peak_used h"
    using w32_arith(2) [of 1 "Suc ?n"] by (simp_all add: h2_def h1_def w32_def)
  obtain s1 post1 where m1: "heap_list (merge_next (w32 b) h2) (pre @ s1 # post1)"
    "s1 = s0 \<and> post1 = post \<and> (post = [] \<or> \<not> vacant (hd post)) \<or>
     (\<exists>t. post = t # post1 \<and> vacant t \<and> s1 = s0\<lparr>cap := cap s0 + 32 + cap t\<rparr>)"
    "hp_active_allocations (merge_next (w32 b) h2) = w32 ?n" "hp_peak_used (merge_next (w32 b) h2) = hp_peak_used h"
    using merge_next_segs [OF hl2, folded b_def] act2 by auto
  have s1: "vacant s1" "req s1 = 0" using m1(2) s0 by auto
  obtain s2 pre1 where m2: "heap_list (merge_previous (w32 b) (merge_next (w32 b) h2)) (pre1 @ s2 # post1)"
    "s2 = s1 \<and> pre1 = pre \<and> (pre = [] \<or> \<not> vacant (last pre)) \<or>
     (\<exists>t. pre = pre1 @ [t] \<and> vacant t \<and> s2 = s1\<lparr>cap := cap t + 32 + cap s1\<rparr>)"
    "hp_active_allocations (merge_previous (w32 b) (merge_next (w32 b) h2)) = w32 ?n"
    "hp_peak_used (merge_previous (w32 b) (merge_next (w32 b) h2)) = hp_peak_used h"
    using merge_previous_segs [OF m1(1) s1 so(1), folded b_def] m1(3,4) by auto
  have s2: "vacant s2" "req s2 = 0" using m2(2) s1 by auto
  have post1: "post = post1 \<and> cap s1 = cap s \<and> (post = [] \<or> \<not> vacant (hd post)) \<or>
      (\<exists>t. post = t # post1 \<and> vacant t \<and> cap s1 = cap s + 32 + cap t)" using m1(2) s0 by auto
  have pre1: "pre = pre1 \<and> cap s2 = cap s1 \<and> (pre = [] \<or> \<not> vacant (last pre)) \<or>
      (\<exists>t. pre = pre1 @ [t] \<and> vacant t \<and> cap s2 = cap t + 32 + cap s1)" using m2(2) by auto
  have "coalesced (pre1 @ s2 # post1)" using co s post1 pre1
    by (auto simp: coalesced_def successively_append_iff successively_Cons)
  moreover have "w32 ?n = w32 (length (filter (Not \<circ> vacant) (pre1 @ s2 # post1)))"
    using s2 post1 pre1 by auto
  moreover have "sizes_granted (merge_previous (w32 b) (merge_next (w32 b) h2)) (pre1 @ s2 # post1)" if "sizes_granted h (pre @ s # post)"
    using that m2(4) s2 post1 pre1 s unfolding sizes_granted_def by auto
  moreover have "\<forall>t\<in>set (pre1 @ s2 # post1). seg_ok t"
    using so s2 post1 pre1 by (auto simp: seg_ok_def [of s2])
  ultimately have "heap_sound (merge_previous (w32 b) (merge_next (w32 b) h2)) (pre1 @ s2 # post1) \<and>
      (sizes_granted h (pre @ s # post) \<longrightarrow> sizes_granted (merge_previous (w32 b) (merge_next (w32 b) h2)) (pre1 @ s2 # post1))"
    using m2(1,3) by (simp add: heap_sound_def)
  moreover have al: "allocations 0x100000 (pre1 @ s2 # post1) =
      allocations 0x100000 pre \<union> allocations (b + 32 + cap s) post"
    using s2 post1 pre1 by (auto simp: allocations_append b_def add.assoc)
  moreover have "(b + 32, req s) \<notin> allocations 0x100000 pre \<union> allocations (b + 32 + cap s) post"
    using allocations_range [of _ _ "0x100000" pre] allocations_range [of _ _ "b + 32 + cap s" post] so
    by (force simp: b_def)
  ultimately show ?thesis using s by (auto simp: allocations_append b_def)
qed

lemma allocations_at:
  "(x, n) \<in> allocations a ss \<longleftrightarrow>
    (\<exists>p s q. ss = p @ s # q \<and> \<not> vacant s \<and> x = a + extent p + 32 \<and> n = req s)"
proof
  show "(x, n) \<in> allocations a ss \<Longrightarrow> \<exists>p s q. ss = p @ s # q \<and> \<not> vacant s \<and> x = a + extent p + 32 \<and> n = req s"
  proof (induction ss arbitrary: a)
    case (Cons s ss)
    show ?case
    proof (cases "(x, n) \<in> allocations (a + 32 + cap s) ss")
      case True
      from Cons.IH [OF this] obtain p t q where "ss = p @ t # q" "\<not> vacant t" "x = a + 32 + cap s + extent p + 32" "n = req t"
        by blast
      then have "s # ss = (s # p) @ t # q \<and> \<not> vacant t \<and> x = a + extent (s # p) + 32 \<and> n = req t" by simp
      then show ?thesis by blast
    next
      case False
      then have "s # ss = [] @ s # ss \<and> \<not> vacant s \<and> x = a + extent [] + 32 \<and> n = req s"
        using Cons.prems by (auto split: if_splits)
      then show ?thesis by blast
    qed
  qed simp
qed (auto simp: allocations_append)

lemma prefix_extent_inj: "p @ s # q = p' @ s' # q' \<Longrightarrow> extent p = extent p' \<Longrightarrow> p = p' \<and> s = s' \<and> q = q'"
proof (induction p arbitrary: p')
  case Nil
  then show ?case by (cases p') auto
next
  case (Cons t p)
  then obtain p'' where "p' = t # p''" by (cases p') auto
  then show ?case using Cons by simp
qed

lemma heap_release_segs:
  assumes ok: "heap_sound h ss"
  shows "(\<exists>n h1 ss1. heap_release pointer h = Some (True, h1) \<and> heap_sound h1 ss1 \<and>
      allocations 0x100000 ss = insert (unat pointer, n) (allocations 0x100000 ss1) \<and>
      (unat pointer, n) \<notin> allocations 0x100000 ss1 \<and> (sizes_granted h ss \<longrightarrow> sizes_granted h1 ss1)) \<or>
    heap_release pointer h = Some (False, h) \<and> (\<forall>n. (unat pointer, n) \<notin> allocations 0x100000 ss)"
proof -
  have hl: "heap_list h ss" and so: "\<forall>s\<in>set ss. seg_ok s" using ok by (simp_all add: heap_sound_def)
  have small: "0x100000 + extent p + 32 < 2 ^ 32" if "ss = p @ s # q" for p s q
    using hl that by (simp add: heap_list_def)
  obtain pre suf where f: "ss = pre @ suf" "find_payload h pointer (hp_first h) = Some (cursor pre suf)"
    "suf = [] \<or> pointer = w32 (0x100000 + extent pre + 32)"
    "suf = [] \<longrightarrow> (\<forall>p s q. ss = p @ s # q \<longrightarrow> pointer \<noteq> w32 (0x100000 + extent p + 32))"
    using find_payload_segs [of h "[]" ss pointer] hl unfolding heap_first_cursor [OF hl]
    by (simp only: append_Nil list.size(3) le0 simp_thms) blast
  show ?thesis
  proof (cases suf)
    case Nil
    have "(unat pointer, n) \<notin> allocations 0x100000 ss" for n
    proof
      assume "(unat pointer, n) \<in> allocations 0x100000 ss"
      then obtain p s q where p: "ss = p @ s # q" "unat pointer = 0x100000 + extent p + 32"
        unfolding allocations_at by blast
      then have "pointer = w32 (0x100000 + extent p + 32)"
        using unat_w32 [OF small [OF p(1)]] by (simp only: word_unat_eq_iff)
      then show False using f(4) Nil p(1) by blast
    qed
    moreover have "heap_release pointer h = Some (False, h)"
      using f(2) Nil by (simp add: heap_release_def)
    ultimately show ?thesis by blast
  next
    case (Cons s post)
    define b where "b = 0x100000 + extent pre"
    have ss: "ss = pre @ s # post" using f(1) Cons by simp
    have at: "valid_block h (w32 b)" "is_free h (w32 b) \<longleftrightarrow> vacant s"
      using heap_list_at(2,3) [of h pre s post] hl unfolding ss b_def by simp_all
    have ptr: "pointer = w32 (b + 32)" using f(3) Cons by (simp add: b_def)
    then have up: "unat pointer = b + 32" using small [OF ss] by (simp add: unat_w32 b_def)
    then have nz: "pointer \<noteq> 0" by (auto simp: b_def)
    have fp: "find_payload h pointer (hp_first h) = Some (w32 b)" using f(2) Cons by (simp add: b_def)
    show ?thesis
    proof (cases "vacant s")
      case True
      have "(unat pointer, n) \<notin> allocations 0x100000 ss" for n
      proof
        assume "(unat pointer, n) \<in> allocations 0x100000 ss"
        then obtain p t q where "ss = p @ t # q" "\<not> vacant t" "b + 32 = 0x100000 + extent p + 32"
          unfolding allocations_at up by blast
        then show False using prefix_extent_inj [of pre s post p t q] ss True by (simp add: b_def)
      qed
      then show ?thesis using True at fp nz by (simp add: heap_release_def)
    next
      case False
      let ?h1 = "set_block (w32 b) (\<lambda>x. x\<lparr>blk_flags := free_flag, blk_requested := 0\<rparr>) h"
      let ?h2 = "if hp_active_allocations ?h1 \<noteq> 0
        then ?h1\<lparr>hp_active_allocations := hp_active_allocations ?h1 - 1\<rparr> else ?h1"
      let ?h3 = "merge_previous (w32 b) (merge_next (w32 b) ?h2)"
      obtain ss1 where r: "heap_sound ?h3 ss1"
        "allocations 0x100000 ss = insert (b + 32, req s) (allocations 0x100000 ss1)"
        "(b + 32, req s) \<notin> allocations 0x100000 ss1" "sizes_granted h ss \<longrightarrow> sizes_granted ?h3 ss1"
        using release_at_segs [OF ok [unfolded ss] False, folded b_def] unfolding ss by blast
      have "heap_validate ?h3 = Some True" using r(1) heap_validate_segs unfolding heap_sound_def by blast
      then have "heap_release pointer h = Some (True, ?h3)"
        using False at fp nz by (simp add: heap_release_def Let_def)
      then show ?thesis using r unfolding up by blast
    qed
  qed
qed

section \<open>The empty heap\<close>

definition empty_segs :: "seg list" where
  "empty_segs = [\<lparr>cap = 0x1FFFE0, req = 0, vacant = True\<rparr>]"

lemma heap_reset_ok: "heap_sound (heap_reset h) empty_segs"
  by (simp add: heap_sound_def heap_reset_def empty_segs_def heap_list_def header_def seg_ok_def used_total_def
      coalesced_def w32_def start_address_def limit_address_def sizeof_block_def free_flag_def)

lemma heap_ok_empty: "heap_ok h empty_segs = heap_sound h empty_segs"
  by (simp add: heap_ok_def sizes_granted_def empty_segs_def used_total_def)

lemma no_allocations_empty: 
  assumes ok: "heap_sound h ss" and none: "allocations 0x100000 ss = {}"
  shows "ss = empty_segs"
proof -
  have v: "vacant s" if "s \<in> set ss" for s
    using none allocations_at [of _ _ "0x100000" ss] split_list [OF that] by blast
  have co: "coalesced ss" and e: "extent ss = 0x200000" and so: "\<forall>s\<in>set ss. seg_ok s"
    using ok by (simp_all add: heap_sound_def heap_list_def)
  obtain s rest where ss: "ss = s # rest" using e by (cases ss) auto
  have "rest = []" using co v unfolding ss by (cases rest) (auto simp: coalesced_def)
  then show ?thesis using e v [of s] so unfolding ss empty_segs_def by (simp add: seg_ok_def)
qed

section \<open>The heap as an allocator\<close>

lemma header_inj:
  "header s p q = header s' p q' \<Longrightarrow> cap s < 2 ^ 32 \<Longrightarrow> cap s' < 2 ^ 32 \<Longrightarrow> seg_ok s \<Longrightarrow> seg_ok s' \<Longrightarrow> s = s'"
proof -
  assume h: "header s p q = header s' p q'" and c: "cap s < 2 ^ 32" "cap s' < 2 ^ 32" and so: "seg_ok s" "seg_ok s'"
  have v: "vacant s = vacant s'" using h by (auto simp: header_def split: if_splits)
  have "req s < 2 ^ 32" "req s' < 2 ^ 32" using so by (auto simp: seg_ok_def split: if_splits)
  then have "cap s = cap s'" "req s = req s'" using h c by (simp_all add: header_def w32_inj)
  then show ?thesis using v by (intro seg.equality) simp_all
qed

lemma dls_unique:
  "dls m p a ss 0 \<Longrightarrow> dls m p a ss' 0 \<Longrightarrow> extent ss = extent ss' \<Longrightarrow> a + extent ss < 2 ^ 32 \<Longrightarrow>
    \<forall>s\<in>set ss. seg_ok s \<Longrightarrow> \<forall>s\<in>set ss'. seg_ok s \<Longrightarrow> ss = ss'"
proof (induction ss arbitrary: p a ss')
  case Nil
  then show ?case by (cases ss') auto
next
  case (Cons s ss)
  then obtain t ts where ss': "ss' = t # ts" by (cases ss') auto
  have "s = t" using Cons.prems unfolding ss' by (intro header_inj) auto
  then show ?case using Cons.prems Cons.IH [of "w32 a" "a + 32 + cap s" ts] unfolding ss' by simp
qed

lemma heap_sound_unique: "heap_sound h ss \<Longrightarrow> heap_sound h ss' \<Longrightarrow> ss = ss'"
  using dls_unique [of "hp_memory h" 0 "0x100000" ss ss'] by (simp add: heap_sound_def heap_list_def)

text \<open>A request is a number of bytes and an alignment; an address 0 means that it was refused.\<close>

definition heap_inv :: "heap \<Rightarrow> bool" where
  "heap_inv h \<longleftrightarrow> (\<exists>ss. heap_sound h ss)"

definition heap_live :: "heap \<Rightarrow> u32 set" where
  "heap_live h = {p. \<exists>ss n. heap_sound h ss \<and> (unat p, n) \<in> allocations 0x100000 ss}"

definition heap_alloc :: "u32 \<times> u32 \<Rightarrow> heap \<Rightarrow> u32 option \<times> heap" where
  "heap_alloc r h =
     (case heap_allocate (fst r) (snd r) h of
        Some (p, h1) \<Rightarrow> (if p = 0 then None else Some p, h1) | None \<Rightarrow> (None, h))"

definition heap_free :: "u32 \<Rightarrow> heap \<Rightarrow> bool \<times> heap" where
  "heap_free p h = (case heap_release p h of Some r \<Rightarrow> r | None \<Rightarrow> (False, h))"

lemma heap_live_eq: "heap_sound h ss \<Longrightarrow> heap_live h = {p. \<exists>n. (unat p, n) \<in> allocations 0x100000 ss}"
  using heap_sound_unique unfolding heap_live_def by blast

lemma heap_alloc_cases:
  assumes ok: "heap_sound h ss"
  shows "heap_alloc r h = (None, h) \<or> (\<exists>x h1 ss1. heap_alloc r h = (Some (w32 x), h1) \<and> heap_sound h1 ss1 \<and>
    allocations 0x100000 ss1 = insert (x, unat (fst r)) (allocations 0x100000 ss) \<and> x < 2 ^ 32 \<and>
       (\<forall>i. (x, i) \<notin> allocations 0x100000 ss))"
proof (cases "fst r = 0 \<or> snd r = 0 \<or> snd r AND (snd r - 1) \<noteq> 0 \<or> \<not> snd r \<le> 4096")
  case True
  then have "heap_alloc r h = (None, h)" by (auto simp: heap_alloc_def heap_allocate_def not_le)
  then show ?thesis by blast
next
  case False
  then obtain k where e: "if fits (granted (unat (fst r))) k 0x100000 ss
     then \<exists>x h1 ss1. heap_allocate (fst r) (snd r) h = Some (w32 x, h1) \<and> heap_sound h1 ss1 \<and>
       allocations 0x100000 ss1 = insert (x, unat (fst r)) (allocations 0x100000 ss) \<and>
       unat (snd r) dvd x \<and> 0x100000 < x \<and> x + granted (unat (fst r)) \<le> 0x300000 \<and>
       (\<forall>i. (x, i) \<notin> allocations 0x100000 ss) \<and> (sizes_granted h ss \<and> unat (fst r) \<le> granted (unat (fst r)) \<longrightarrow> sizes_granted h1 ss1)
     else heap_allocate (fst r) (snd r) h = Some (0, h)"
    using heap_allocate_segs [OF ok, of "fst r" "snd r"] by blast
  show ?thesis
  proof (cases "fits (granted (unat (fst r))) k 0x100000 ss")
    case True
    with e obtain x h1 ss1 where x: "heap_allocate (fst r) (snd r) h = Some (w32 x, h1)" "heap_sound h1 ss1"
      "allocations 0x100000 ss1 = insert (x, unat (fst r)) (allocations 0x100000 ss)"
      "0x100000 < x" "x + granted (unat (fst r)) \<le> 0x300000" "\<forall>i. (x, i) \<notin> allocations 0x100000 ss"
      by (simp only: if_True) blast
    have "w32 x \<noteq> 0" using x(4,5) unfolding w32_consts(5) by (simp add: w32_inj)
    then have "heap_alloc r h = (Some (w32 x), h1)" using x(1) by (simp add: heap_alloc_def)
    moreover have "x < 2 ^ 32" using x(5) by simp
    ultimately show ?thesis using x(2,3,6) by blast
  next
    case no: False
    then have "heap_alloc r h = (None, h)" using e by (simp add: heap_alloc_def)
    then show ?thesis by blast
  qed
qed

interpretation kheap: checked_allocator heap_inv heap_live heap_alloc heap_free
proof
  fix h r x h1
  assume inv: "heap_inv h" and a: "heap_alloc r h = (Some x, h1)"
  then obtain ss where ok: "heap_sound h ss" by (auto simp: heap_inv_def)
  obtain y ss1 where y: "x = w32 y" "heap_sound h1 ss1"
    "allocations 0x100000 ss1 = insert (y, unat (fst r)) (allocations 0x100000 ss)" "y < 2 ^ 32"
    "\<forall>i. (y, i) \<notin> allocations 0x100000 ss" using heap_alloc_cases [OF ok, of r] a by auto
  have u: "unat x = y" using y by (simp add: unat_w32)
  have "x \<notin> heap_live h" unfolding heap_live_eq [OF ok] using y(5) u by simp
  moreover have "heap_live h1 = insert x (heap_live h)"
    unfolding heap_live_eq [OF ok] heap_live_eq [OF y(2)] y(3) using u by (auto simp: word_unat_eq_iff)
  ultimately show "heap_inv h1 \<and> x \<notin> heap_live h \<and> heap_live h1 = insert x (heap_live h)"
    using y(2) by (auto simp: heap_inv_def)
next
  fix h r h1
  assume "heap_inv h" "heap_alloc r h = (None, h1)"
  then show "h1 = h" using heap_alloc_cases [of h _ r] by (auto simp: heap_inv_def)
next
  fix h x
  assume "heap_inv h" "x \<in> heap_live h"
  then obtain ss n where ok: "heap_sound h ss" "(unat x, n) \<in> allocations 0x100000 ss" by (auto simp: heap_live_def)
  then obtain n1 h1 ss1 where r: "heap_release x h = Some (True, h1)" "heap_sound h1 ss1"
    "allocations 0x100000 ss = insert (unat x, n1) (allocations 0x100000 ss1)"
    "(unat x, n1) \<notin> allocations 0x100000 ss1"
    using heap_release_segs [OF ok(1), of x] by auto
  have "(unat x, i) \<notin> allocations 0x100000 ss1" for i
  proof
    assume i: "(unat x, i) \<in> allocations 0x100000 ss1"
    then have "i \<noteq> n1" "0 < i" "0 < n1"
      using r(3,4) ok(1) allocations_range [of "unat x" _ "0x100000" ss] by (auto simp: heap_sound_def)
    then show False
      using allocations_disjoint [of "unat x" i "0x100000" ss "unat x" n1] i r(3) ok(1) by (auto simp: heap_sound_def)
  qed
  then have "heap_live h1 = heap_live h - {x}"
    unfolding heap_live_eq [OF ok(1)] heap_live_eq [OF r(2)] r(3) by (auto simp: word_unat_eq_iff)
  then show "\<exists>h1. heap_free x h = (True, h1) \<and> heap_inv h1 \<and> heap_live h1 = heap_live h - {x}"
    using r(1,2) by (auto simp: heap_free_def heap_inv_def)
next
  fix h x
  assume "heap_inv h" "x \<notin> heap_live h"
  then show "heap_free x h = (False, h)"
    using heap_release_segs [of h _ x] by (fastforce simp: heap_inv_def heap_live_def heap_free_def)
qed

section \<open>Properties\<close>

text \<open>A step of the self-test that ends and keeps the invariant.\<close>

definition ends_ok :: "('a \<times> heap) option \<Rightarrow> bool" where
  "ends_ok m \<longleftrightarrow> (\<exists>x h. m = Some (x, h) \<and> heap_inv h)"

lemma ends_ok_bind: "ends_ok m \<Longrightarrow> (\<And>x h. heap_inv h \<Longrightarrow> ends_ok (f (x, h))) \<Longrightarrow> ends_ok (Option.bind m f)"
  by (auto simp: ends_ok_def)

lemma ends_ok_Some [simp]: "heap_inv h \<Longrightarrow> ends_ok (Some (x, h))"
  by (simp add: ends_ok_def)

lemma ends_ok_release [simp]: "heap_inv h \<Longrightarrow> ends_ok (heap_release p h)"
  using heap_release_segs [of h _ p] unfolding ends_ok_def heap_inv_def by blast

lemma ends_ok_allocate [simp]:
  assumes "heap_inv h"
  shows "ends_ok (heap_allocate bytes alignment h)"
proof -
  obtain ss where ok: "heap_sound h ss" using assms by (auto simp: heap_inv_def)
  show ?thesis
  proof (cases "bytes = 0 \<or> alignment = 0 \<or> alignment AND (alignment - 1) \<noteq> 0 \<or> 4096 < alignment")
    case True
    then show ?thesis using assms by (auto simp: heap_allocate_def)
  next
    case False
    then show ?thesis using heap_allocate_segs [OF ok, of bytes alignment] assms
      unfolding ends_ok_def heap_inv_def by (auto simp: not_less split: if_splits)
  qed
qed

lemma ends_ok_validate: "heap_inv h \<Longrightarrow> heap_validate h = Some True"
  using heap_validate_segs by (auto simp: heap_inv_def heap_sound_def)

lemma ends_ok_fill:
  "heap_inv h \<Longrightarrow> ends_ok (stress_fill bytes alignment is slots h)"
  by (induction "is" arbitrary: slots h) (auto intro!: ends_ok_bind)

lemma ends_ok_stress_release: "heap_inv h \<Longrightarrow> ends_ok (stress_release ps h)"
  by (induction ps arbitrary: h) (auto intro!: ends_ok_bind)

lemma heap_inv_reset [simp]: "heap_inv (heap_reset h)"
  using heap_reset_ok by (auto simp: heap_inv_def)

lemma ends_ok_stress: "ends_ok (heap_stress_test h)"
  unfolding heap_stress_test_def
  by (auto intro!: ends_ok_bind ends_ok_fill ends_ok_stress_release
      simp: ends_ok_validate split: option.split prod.split)

lemma heap_init_ends: "\<exists>lines h1. heap_init h = Some (lines, heap_reset h1)"
proof -
  define Q where "Q = (\<lambda>m :: (string list \<times> heap) option. \<exists>lines h1. m = Some (lines, heap_reset h1))"
  have b: "ends_ok m \<Longrightarrow> (\<And>x h. heap_inv h \<Longrightarrow> Q (f (x, h))) \<Longrightarrow> Q (Option.bind m f)" for m :: "('a \<times> heap) option" and f
    by (auto simp: ends_ok_def)
  have "Q (heap_init h)" unfolding heap_init_def Let_def and_release_def
    by (auto intro!: b ends_ok_stress simp: ends_ok_validate) (auto simp: Q_def)
  then show ?thesis by (simp add: Q_def)
qed

lemma allocation_apart:
  assumes "heap_sound h ss1" and "allocations 0x100000 ss1 = insert (x, b) (allocations 0x100000 ss)"
    and "\<forall>i. (x, i) \<notin> allocations 0x100000 ss"
  shows "\<forall>(y, m)\<in>allocations 0x100000 ss. x + granted b < y \<or> y + granted m < x"
proof (intro ballI, clarify)
  fix y m assume y: "(y, m) \<in> allocations 0x100000 ss" and "\<not> y + granted m < x"
  then show "x + granted b < y"
    using allocations_disjoint [of x b "0x100000" ss1 y m] assms by (auto simp: heap_sound_def)
qed

text \<open>
  C15: Allocation from the kernel heap always ends, for every request. A request of zero bytes, or with an
  alignment that is not a power of two up to 4096, returns null and changes nothing. Otherwise the size
  is rounded up to a multiple of 16 in 32 bits, and the call returns null, with the heap unchanged,
  exactly when no vacant block can hold that many bytes behind a payload so aligned; else it returns an
  aligned address whose bytes lie inside the heap and overlap neither another allocation nor a header, and
  the new heap satisfies the invariant with exactly that allocation added. The rounded size is at least
  the requested one up to \<open>2 ^ 32 - 16\<close> bytes, and the heap then stays in order; above, the rounding
  wraps and the block that is granted is empty.
\<close>

theorem heap_allocate_correct:
  assumes ok: "heap_sound h ss" and n: "n = granted (unat bytes)"
  shows "(if bytes = 0 \<or> alignment = 0 \<or> alignment AND (alignment - 1) \<noteq> 0 \<or> 4096 < alignment
      then heap_allocate bytes alignment h = Some (0, h)
      else \<exists>k\<le>12. unat alignment = 2 ^ k \<and>
        (if fits n k 0x100000 ss
         then \<exists>x h1 ss1. heap_allocate bytes alignment h = Some (word_of_nat x, h1) \<and> heap_sound h1 ss1 \<and>
           allocations 0x100000 ss1 = insert (x, unat bytes) (allocations 0x100000 ss) \<and>
           unat alignment dvd x \<and> 0x100000 < x \<and> x + n \<le> 0x300000 \<and>
           (\<forall>(y, m)\<in>allocations 0x100000 ss. x + n < y \<or> y + granted m < x) \<and>
           (heap_ok h ss \<and> unat bytes \<le> 0xFFFFFFF0 \<longrightarrow> heap_ok h1 ss1)
         else heap_allocate bytes alignment h = Some (0, h))) \<and>
    (if unat bytes \<le> 0xFFFFFFF0 then unat bytes \<le> n else n = 0)"
proof -
  have size: "if unat bytes \<le> 0xFFFFFFF0 then unat bytes \<le> n else n = 0"
    using granted_small(2) [of "unat bytes"] granted_wraps [of "unat bytes"] unat_less_exp [of bytes] by (auto simp: n)
  show ?thesis
  proof (cases "bytes = 0 \<or> alignment = 0 \<or> alignment AND (alignment - 1) \<noteq> 0 \<or> 4096 < alignment")
    case True
    then have "heap_allocate bytes alignment h = Some (0, h)" by (auto simp: heap_allocate_def)
    then show ?thesis using True size by simp
  next
    case False
    then obtain k where k: "k \<le> 12" "unat alignment = 2 ^ k"
      and r: "if fits n k 0x100000 ss
       then \<exists>x h1 ss1. heap_allocate bytes alignment h = Some (w32 x, h1) \<and> heap_sound h1 ss1 \<and>
         allocations 0x100000 ss1 = insert (x, unat bytes) (allocations 0x100000 ss) \<and>
         unat alignment dvd x \<and> 0x100000 < x \<and> x + n \<le> 0x300000 \<and> (\<forall>i. (x, i) \<notin> allocations 0x100000 ss) \<and>
         (sizes_granted h ss \<and> unat bytes \<le> n \<longrightarrow> sizes_granted h1 ss1)
       else heap_allocate bytes alignment h = Some (0, h)"
      using heap_allocate_segs [OF ok, of bytes alignment, folded n] by (auto simp: not_less)
    have "if fits n k 0x100000 ss
         then \<exists>x h1 ss1. heap_allocate bytes alignment h = Some (word_of_nat x, h1) \<and> heap_sound h1 ss1 \<and>
           allocations 0x100000 ss1 = insert (x, unat bytes) (allocations 0x100000 ss) \<and>
           unat alignment dvd x \<and> 0x100000 < x \<and> x + n \<le> 0x300000 \<and>
           (\<forall>(y, m)\<in>allocations 0x100000 ss. x + n < y \<or> y + granted m < x) \<and>
           (heap_ok h ss \<and> unat bytes \<le> 0xFFFFFFF0 \<longrightarrow> heap_ok h1 ss1)
         else heap_allocate bytes alignment h = Some (0, h)"
    proof (cases "fits n k 0x100000 ss")
      case True
      with r obtain x h1 ss1 where x: "heap_allocate bytes alignment h = Some (w32 x, h1)" "heap_sound h1 ss1"
        "allocations 0x100000 ss1 = insert (x, unat bytes) (allocations 0x100000 ss)"
        "unat alignment dvd x" "0x100000 < x" "x + n \<le> 0x300000" "\<forall>i. (x, i) \<notin> allocations 0x100000 ss"
        "sizes_granted h ss \<and> unat bytes \<le> n \<longrightarrow> sizes_granted h1 ss1"
        by (simp only: if_True) blast
      have "\<forall>(y, m)\<in>allocations 0x100000 ss. x + n < y \<or> y + granted m < x"
        by (rule allocation_apart [OF x(2,3,7), folded n])
      moreover have "heap_ok h ss \<and> unat bytes \<le> 0xFFFFFFF0 \<longrightarrow> heap_ok h1 ss1"
        using x(2,8) size by (auto simp: heap_ok_def)
      ultimately show ?thesis using True x(1-6) unfolding w32_def by (simp only: if_True) blast
    qed (use r in simp)
    then show ?thesis using False k size by (simp only: if_False simp_thms) blast
  qed
qed

definition blank_heap :: heap where
  "blank_heap = \<lparr>hp_memory = (\<lambda>_. \<lparr>blk_signature = 0, blk_capacity = 0, blk_requested = 0, blk_flags = 0,
    blk_previous = 0, blk_next = 0\<rparr>), hp_first = 0, hp_peak_used = 0, hp_active_allocations = 0\<rparr>"

theorem heap_allocate_correct_witness:
  "\<exists>x h1 ss1. heap_allocate 128 16 (heap_reset blank_heap) = Some (word_of_nat x, h1) \<and> heap_ok h1 ss1 \<and>
    allocations 0x100000 ss1 = {(x, 128)} \<and> 16 dvd x"
proof -
  have g: "granted (unat (128 :: u32)) = 128" by (simp add: granted_def)
  have guard: "\<not> ((128 :: u32) = 0 \<or> (16 :: u32) = 0 \<or> (16 :: u32) AND (16 - 1) \<noteq> 0 \<or> 4096 < (16 :: u32))" by simp
  obtain k where k: "unat (16 :: u32) = 2 ^ k"
    "if fits 128 k 0x100000 empty_segs
     then \<exists>x h1 ss1. heap_allocate 128 16 (heap_reset blank_heap) = Some (word_of_nat x, h1) \<and> heap_sound h1 ss1 \<and>
       allocations 0x100000 ss1 = insert (x, unat (128 :: u32)) (allocations 0x100000 empty_segs) \<and>
       unat (16 :: u32) dvd x \<and> 0x100000 < x \<and> x + 128 \<le> 0x300000 \<and>
       (\<forall>(y, m)\<in>allocations 0x100000 empty_segs. x + 128 < y \<or> y + granted m < x) \<and>
       (heap_ok (heap_reset blank_heap) empty_segs \<and> unat (128 :: u32) \<le> 0xFFFFFFF0 \<longrightarrow> heap_ok h1 ss1)
     else heap_allocate 128 16 (heap_reset blank_heap) = Some (0, heap_reset blank_heap)"
    using heap_allocate_correct [OF heap_reset_ok g [symmetric], of 16 blank_heap, unfolded if_not_P [OF guard]] by blast
  have "(2 :: nat) ^ k = 2 ^ 4" using k(1) by simp
  then have "k = 4" by (simp only: power_inject_exp)
  moreover have "gap 0x100020 4 = 0" by (simp add: gap_def w32_def pad_prefix.simps)
  ultimately have "fits 128 k 0x100000 empty_segs" by (simp add: empty_segs_def)
  moreover have "allocations 0x100000 empty_segs = {}" by (simp add: empty_segs_def)
  moreover have "heap_ok (heap_reset blank_heap) empty_segs" using heap_reset_ok by (simp add: heap_ok_empty)
  ultimately show ?thesis using k(2) by fastforce
qed

text \<open>
  C16: Releasing to the kernel heap always ends, and succeeds exactly for the address of a current
  allocation: then that allocation and no other is gone, its block is merged with its vacant
  neighbours and the invariant holds. Any other pointer, among them null, an address inside a block and
  one released before, is refused and leaves the heap unchanged.
\<close>

theorem heap_release_correct:
  assumes ok: "heap_sound h ss"
  shows "if \<exists>n. (unat pointer, n) \<in> allocations 0x100000 ss
    then \<exists>n h1 ss1. heap_release pointer h = Some (True, h1) \<and> heap_sound h1 ss1 \<and> (heap_ok h ss \<longrightarrow> heap_ok h1 ss1) \<and>
      (unat pointer, n) \<in> allocations 0x100000 ss \<and>
      allocations 0x100000 ss1 = allocations 0x100000 ss - {(unat pointer, n)} \<and>
      heap_release pointer h1 = Some (False, h1)
    else heap_release pointer h = Some (False, h)"
proof (cases "\<exists>n. (unat pointer, n) \<in> allocations 0x100000 ss")
  case True
  then obtain n h1 ss1 where r: "heap_release pointer h = Some (True, h1)" "heap_sound h1 ss1"
    "allocations 0x100000 ss = insert (unat pointer, n) (allocations 0x100000 ss1)"
    "(unat pointer, n) \<notin> allocations 0x100000 ss1" "sizes_granted h ss \<longrightarrow> sizes_granted h1 ss1"
    using heap_release_segs [OF ok, of pointer] by auto
  have "heap_free pointer h = (True, h1)" using r(1) by (simp add: heap_free_def)
  then have "heap_free pointer h1 = (False, h1)" using kheap.no_double_release ok by (auto simp: heap_inv_def)
  then have "heap_release pointer h1 = Some (False, h1)"
    using heap_release_segs [OF r(2), of pointer] by (auto simp: heap_free_def)
  moreover have "allocations 0x100000 ss1 = allocations 0x100000 ss - {(unat pointer, n)}" using r(3,4) by auto
  moreover have "heap_ok h ss \<longrightarrow> heap_ok h1 ss1" using r(2,5) by (simp add: heap_ok_def)
  ultimately show ?thesis using True r(1-3) by auto
next
  case False
  then show ?thesis using heap_release_segs [OF ok, of pointer] by auto
qed

theorem heap_release_correct_witness:
  "heap_ok (heap_reset blank_heap) empty_segs \<and>
    heap_release 0x100020 (heap_reset blank_heap) = Some (False, heap_reset blank_heap)"
  using heap_release_correct [OF heap_reset_ok, of "0x100020" blank_heap] heap_reset_ok
  by (simp add: empty_segs_def heap_ok_empty [unfolded empty_segs_def])

text \<open>Whole runs of calls.\<close>

fun heap_call :: "(u32 \<times> u32, u32) call \<Rightarrow> heap \<Rightarrow> heap" where
  "heap_call (Allocate r) h = snd (heap_alloc r h)"
| "heap_call (Release p) h = snd (heap_free p h)"

fun heap_free_each :: "u32 list \<Rightarrow> heap \<Rightarrow> bool \<times> heap" where
  "heap_free_each [] h = (True, h)"
| "heap_free_each (p # ps) h =
    (case heap_free p h of (ok, h1) \<Rightarrow> case heap_free_each ps h1 of (rest, h2) \<Rightarrow> (ok \<and> rest, h2))"

lemma heap_call_perform: "heap_call = kheap.perform"
proof (intro ext)
  show "heap_call c h = kheap.perform c h" for c h by (cases c) simp_all
qed

lemma heap_free_each_release: "heap_free_each ps h = kheap.release_each ps h"
  by (induction ps arbitrary: h) simp_all

lemma heap_run_inv: "heap_inv (fold heap_call calls (heap_reset h))"
  unfolding heap_call_perform by (rule kheap.run_ok) simp

text \<open>
  C17: Whatever sequence of allocations and releases is made after a reset, with any sizes, alignments and
  pointers whatever, the list of blocks passes
  \<open>validate\<close>, and releasing what is then allocated, in any order, succeeds for every block and leaves
  one vacant block that spans the whole heap: no memory is lost to fragmentation or to headers.
\<close>

theorem heap_runs_never_leak:
  "heap_validate (fold heap_call calls (heap_reset h)) = Some True \<and>
   (distinct ps \<and> set ps = heap_live (fold heap_call calls (heap_reset h)) \<longrightarrow>
     (\<exists>h1. heap_free_each ps (fold heap_call calls (heap_reset h)) = (True, h1) \<and> heap_ok h1 empty_segs))"
proof (intro conjI impI)
  let ?h = "fold heap_call calls (heap_reset h)"
  show "heap_validate ?h = Some True" by (rule ends_ok_validate [OF heap_run_inv])
  assume ps: "distinct ps \<and> set ps = heap_live ?h"
  then obtain h1 where h1: "heap_free_each ps ?h = (True, h1)" "heap_inv h1" "heap_live h1 = {}"
    using kheap.release_each_live [OF heap_run_inv, of ps calls h] unfolding heap_free_each_release by auto
  then obtain ss where ok: "heap_sound h1 ss" by (auto simp: heap_inv_def)
  have "allocations 0x100000 ss = {}"
  proof (rule ccontr)
    assume "allocations 0x100000 ss \<noteq> {}"
    then obtain x n where x: "(x, n) \<in> allocations 0x100000 ss" by auto
    then have "x < 2 ^ 32" using allocations_range [OF x] ok by (auto simp: heap_sound_def heap_list_def)
    then have "w32 x \<in> heap_live h1" using x unfolding heap_live_eq [OF ok] by (auto simp: unat_w32)
    then show False using h1(3) by simp
  qed
  then show "\<exists>h1. heap_free_each ps ?h = (True, h1) \<and> heap_ok h1 empty_segs"
    using h1(1) ok no_allocations_empty [OF ok] by (auto simp: heap_ok_empty)
qed

theorem heap_runs_never_leak_witness:
  "\<exists>p h1. heap_live (fold heap_call [Allocate (128, 16)] (heap_reset blank_heap)) \<subseteq> {p} \<and>
    heap_free_each (if heap_live (fold heap_call [Allocate (128, 16)] (heap_reset blank_heap)) = {} then [] else [p])
      (fold heap_call [Allocate (128, 16)] (heap_reset blank_heap)) = (True, h1) \<and> heap_ok h1 empty_segs"
proof -
  let ?h = "fold heap_call [Allocate (128, 16)] (heap_reset blank_heap)"
  have e: "heap_live (heap_reset blank_heap) = {}"
    unfolding heap_live_eq [OF heap_reset_ok] by (simp add: empty_segs_def)
  obtain r h1 where a: "heap_alloc (128, 16) (heap_reset blank_heap) = (r, h1)" by fastforce
  have "\<exists>p. heap_live ?h \<subseteq> {p}"
    using kheap.alloc_fresh [OF heap_inv_reset] kheap.alloc_refuses [OF heap_inv_reset] a e by (cases r) fastforce+
  then obtain p where p: "heap_live ?h \<subseteq> {p}" by blast
  then have "set (if heap_live ?h = {} then [] else [p]) = heap_live ?h" by auto
  moreover have "distinct (if heap_live ?h = {} then [] else [p])" by simp
  ultimately show ?thesis using p heap_runs_never_leak by blast
qed

text \<open>
  The one request size the guards of \<open>allocate\<close> miss: above \<open>2 ^ 32 - 16\<close> bytes the rounding wraps to 0, and
  the caller gets a block of capacity 0 whose payload is the next header.
\<close>

lemma heap_allocate_wraps:
  "\<exists>h1. heap_allocate 0xFFFFFFFF 16 (heap_reset h) = Some (0x100020, h1) \<and>
    blk_capacity (hp_memory h1 0x100000) = 0 \<and> blk_requested (hp_memory h1 0x100000) = 0xFFFFFFFF \<and>
    blk_signature (hp_memory h1 0x100020) = heap_magic"
proof -
  let ?h = "heap_reset h"
  define s where "s = \<lparr>cap = 0x1FFFE0, req = 0, vacant = True\<rparr>"
  have hl: "heap_list ?h ([] @ s # [])" using heap_reset_ok [of h] by (simp add: heap_sound_def empty_segs_def s_def)
  have w: "heap_align_up 0xFFFFFFFF granularity = 0" "heap_align_up 0 granularity = w32 0"
    by (simp_all add: heap_align_up_def granularity_def w32_def)
  obtain h1 where h1: "split_after (w32 0x100000) 0 ?h = (w32 0x100020, h1)"
    "heap_list h1 (s\<lparr>cap := 0\<rparr> # \<lparr>cap = 0x1FFFC0, req = 0, vacant = True\<rparr> # [])"
    using split_after_segs [OF hl _ _ w(2)] by (auto simp: s_def)
  let ?u = "\<lparr>cap = 0, req = 0xFFFFFFFF, vacant = False\<rparr>" and ?t = "\<lparr>cap = 0x1FFFC0, req = 0, vacant = True\<rparr>"
  define h2 where "h2 = (set_block (w32 0x100000) (\<lambda>x. x\<lparr>blk_flags := 0, blk_requested := 0xFFFFFFFF\<rparr>) h1)
    \<lparr>hp_active_allocations := hp_active_allocations h1 + 1\<rparr>"
  have "heap_list (set_block (w32 (0x100000 + extent [])) (\<lambda>x. x\<lparr>blk_flags := 0, blk_requested := 0xFFFFFFFF\<rparr>) h1) ([] @ ?u # [?t])"
    by (rule heap_list_update [where s = "s\<lparr>cap := 0\<rparr>"]) (use h1(2) in \<open>simp_all add: header_def s_def w32_def\<close>)
  then have h2: "heap_list h2 [?u, ?t]" by (simp add: h2_def heap_list_def w32_inj)
  have at: "hp_memory h2 (w32 0x100000) = header ?u 0 (w32 0x100020)"
    "hp_memory h2 (w32 0x100020) = header ?t (w32 0x100000) 0"
    using heap_list_at(1) [of h2 "[]" ?u "[?t]"] heap_list_at(1) [of h2 "[?u]" ?t "[]"] h2
    by (simp_all add: last_ptr_def)
  define h3 where "h3 = (if hp_peak_used h2 < w32 (used_total [?u, ?t])
    then h2\<lparr>hp_peak_used := w32 (used_total [?u, ?t])\<rparr> else h2)"
  have t: "take_block 0xFFFFFFFF 0 (w32 0x100000) ?h = Some (w32 0x100020, h3)"
    unfolding take_block_def h1(1) snd_conv Let_def h2_def [symmetric] used_bytes_segs [OF h2]
    by (simp add: h3_def payload_def w32_consts(3) w32_arith)
  have b: "valid_block ?h (w32 0x100000)" "is_free ?h (w32 0x100000)"
    using heap_list_at(2,3) [OF hl] by (simp_all add: s_def)
  have "heap_allocate 0xFFFFFFFF 16 ?h = allocate_loop 0xFFFFFFFF 16 0 ?h (w32 0x100000)"
    using heap_first_cursor [of ?h "[s]"] hl w(1) by (simp add: heap_allocate_def)
  also have "\<dots> = take_block 0xFFFFFFFF 0 (w32 0x100000) ?h"
    using b by (subst allocate_loop.simps)
      (simp add: Let_def payload_def w32_def sizeof_block_def pad_prefix.simps)
  finally have "heap_allocate 0xFFFFFFFF 16 ?h = Some (w32 0x100020, h3)" using t by simp
  moreover have "hp_memory h3 = hp_memory h2" by (simp add: h3_def)
  ultimately show ?thesis using at by (auto simp: w32_def header_def)
qed

end
