(* ===== verification/Frame_Allocator.thy ===== *)
theory Frame_Allocator
  imports Allocator
begin

text \<open>
  The physical frame allocator of the kernel (\<open>kernel/parts/memory.inc\<close>, namespace \<open>pmm\<close>): a bitmap
  with one bit per 4 KiB frame of the first 128 MiB, a set bit for a frame that is not available.
  \<open>init\<close> starts with every bit set, clears the bits of the frames that the firmware's E820 map reports
  usable, above the kernel's reserved region and outside the hole in its identity mapping, and runs a
  self-test that allocates and frees 16 frames.

  The C++ globals are the record \<open>pmm\<close>; every function takes it and returns it updated. Frame numbers,
  addresses and counters are 32-bit words; \<open>used\<close> and \<open>free_set\<close> read the bitmap as a set of frame
  numbers. The E820 records that the boot sector leaves in memory are an argument of \<open>pmm_init\<close>.
\<close>

section \<open>State and constants\<close>

record pmm =
  frame_bitmap :: "u32 list"
  available_frames :: u32
  allocated_frames :: u32
  pmm_initialized :: bool

definition page_size :: u32 where "page_size = 4096"
definition managed_limit :: u32 where "managed_limit = 0x8000000"
definition frame_count :: nat where "frame_count = 32768"
definition bitmap_words :: nat where "bitmap_words = 1024"
definition reserved_end :: u32 where "reserved_end = 0x820000"
definition identity_hole_start :: u32 where "identity_hole_start = 0x800000"
definition identity_hole_end :: u32 where "identity_hole_end = 0xC00000"
definition self_test_frames :: nat where "self_test_frames = 16"

definition mark_used :: "pmm \<Rightarrow> u32 \<Rightarrow> pmm" where
  "mark_used p frame = p\<lparr>frame_bitmap := (frame_bitmap p)[unat (frame div 32) :=
    frame_bitmap p ! unat (frame div 32) OR push_bit (unat (frame mod 32)) 1]\<rparr>"

definition mark_free :: "pmm \<Rightarrow> u32 \<Rightarrow> pmm" where
  "mark_free p frame = p\<lparr>frame_bitmap := (frame_bitmap p)[unat (frame div 32) :=
    frame_bitmap p ! unat (frame div 32) AND NOT (push_bit (unat (frame mod 32)) 1)]\<rparr>"

definition is_used :: "pmm \<Rightarrow> u32 \<Rightarrow> bool" where
  "is_used p frame \<longleftrightarrow> frame_bitmap p ! unat (frame div 32) AND push_bit (unat (frame mod 32)) 1 \<noteq> 0"

definition page_align_up :: "u32 \<Rightarrow> u32" where
  "page_align_up v = (v + page_size - 1) AND NOT (page_size - 1)"

definition page_align_down :: "u32 \<Rightarrow> u32" where
  "page_align_down v = v AND NOT (page_size - 1)"

definition pmm_free_bytes :: "pmm \<Rightarrow> u32" where
  "pmm_free_bytes p = available_frames p * page_size"

definition allocated_bytes :: "pmm \<Rightarrow> u32" where
  "allocated_bytes p = allocated_frames p * page_size"

section \<open>Operations\<close>

definition in_hole :: "u32 \<Rightarrow> bool" where
  "in_hole address \<longleftrightarrow> identity_hole_start \<le> address \<and> address < identity_hole_end"

text \<open>
  The body of the loop of \<open>release_usable_range\<close>, and the loop over \<open>start, start + 4096, \<dots>\<close> below
  \<open>end\<close>: \<open>end\<close> is at most 128 MiB there, so the address does not wrap.
\<close>

definition release_page :: "u32 \<Rightarrow> pmm \<Rightarrow> pmm" where
  "release_page address p =
    (if in_hole address then p
     else let frame = address div page_size in
       if is_used p frame
       then (mark_free p frame)\<lparr>available_frames := available_frames p + 1\<rparr>
       else p)"

definition page_addresses :: "u32 \<Rightarrow> u32 \<Rightarrow> u32 list" where
  "page_addresses first limit =
    map (\<lambda>i. first + word_of_nat i * page_size) [0..<(unat limit - unat first + 4095) div 4096]"

definition release_usable_range :: "u32 \<Rightarrow> u32 \<Rightarrow> pmm \<Rightarrow> pmm" where
  "release_usable_range first limit p =
    (if limit \<le> first \<or> managed_limit \<le> first then p
     else
       let limit1 = page_align_down (if managed_limit < limit then managed_limit else limit);
           first1 = page_align_up first;
           first2 = (if first1 < reserved_end then reserved_end else first1)
       in fold release_page (page_addresses first2 limit1) p)"

text \<open>The two nested loops of \<open>allocate_frame\<close>: words of the bitmap, then bits of a word.\<close>

fun scan_words :: "pmm \<Rightarrow> nat list \<Rightarrow> nat option" where
  "scan_words p [] = None"
| "scan_words p (w # ws) =
    (if frame_bitmap p ! w = 0xFFFFFFFF then scan_words p ws
     else case find (\<lambda>k. \<not> (frame_count \<le> w * 32 + k \<or> is_used p (word_of_nat (w * 32 + k)))) [0..<32] of
        Some k \<Rightarrow> Some (w * 32 + k)
      | None \<Rightarrow> scan_words p ws)"

definition allocate_frame :: "pmm \<Rightarrow> u32 \<times> pmm" where
  "allocate_frame p =
    (if \<not> pmm_initialized p then (0, p)
     else case scan_words p [unat (reserved_end div page_size div 32)..<bitmap_words] of
        None \<Rightarrow> (0, p)
      | Some frame \<Rightarrow>
          (word_of_nat frame * page_size,
           (mark_used p (word_of_nat frame))
             \<lparr>available_frames := available_frames p - 1, allocated_frames := allocated_frames p + 1\<rparr>))"

definition free_frame :: "u32 \<Rightarrow> pmm \<Rightarrow> bool \<times> pmm" where
  "free_frame address p =
    (if \<not> pmm_initialized p \<or> address < reserved_end \<or> managed_limit \<le> address \<or> in_hole address \<or>
        address AND (page_size - 1) \<noteq> 0 then (False, p)
     else let frame = address div page_size in
       if \<not> is_used p frame then (False, p)
       else (True, (mark_free p frame)
          \<lparr>available_frames := available_frames p + 1,
           allocated_frames := (if allocated_frames p \<noteq> 0 then allocated_frames p - 1 else allocated_frames p)\<rparr>))"

text \<open>The self-test: its first loop collects the frames, or stops with a failure.\<close>

fun stress_allocate :: "nat \<Rightarrow> u32 list \<Rightarrow> pmm \<Rightarrow> u32 list option \<times> pmm" where
  "stress_allocate 0 frames p = (Some frames, p)"
| "stress_allocate (Suc n) frames p =
    (case allocate_frame p of (a, p1) \<Rightarrow>
       if a = 0 \<or> a AND (page_size - 1) \<noteq> 0 \<or> a \<in> set frames then (None, p1)
       else stress_allocate n (frames @ [a]) p1)"

fun stress_free :: "u32 list \<Rightarrow> pmm \<Rightarrow> bool \<times> pmm" where
  "stress_free [] p = (True, p)"
| "stress_free (a # as) p =
    (case free_frame a p of (ok, p1) \<Rightarrow> if \<not> ok then (False, p1) else stress_free as p1)"

definition pmm_stress_test :: "pmm \<Rightarrow> bool \<times> pmm" where
  "pmm_stress_test p =
    (if available_frames p < word_of_nat self_test_frames then (False, p)
     else case stress_allocate self_test_frames [] p of
       (None, p1) \<Rightarrow> (False, p1)
     | (Some frames, p1) \<Rightarrow>
         if available_frames p1 + word_of_nat self_test_frames \<noteq> available_frames p \<or>
            allocated_frames p1 \<noteq> allocated_frames p + word_of_nat self_test_frames \<or>
            allocated_bytes p1 \<noteq> (allocated_frames p + word_of_nat self_test_frames) * page_size
         then (False, p1)
         else case free_frame (hd frames + 1) p1 of (misaligned, p2) \<Rightarrow>
           if misaligned then (False, p2)
           else case stress_free (rev frames) p2 of (freed, p3) \<Rightarrow>
             if \<not> freed then (False, p3)
             else case free_frame (hd frames) p3 of (again, p4) \<Rightarrow>
               if again then (False, p4)
               else (available_frames p4 = available_frames p \<and> allocated_frames p4 = allocated_frames p \<and>
                     allocated_bytes p4 = allocated_frames p * page_size, p4))"

record e820_entry =
  e820_base_low :: u32
  e820_base_high :: u32
  e820_length_low :: u32
  e820_length_high :: u32
  e820_type :: u32

definition release_entry :: "e820_entry \<Rightarrow> pmm \<Rightarrow> pmm" where
  "release_entry entry p =
    (if e820_type entry \<noteq> 1 \<or> e820_base_high entry \<noteq> 0 then p
     else
       let limit = (if e820_length_high entry = 0
                   then let candidate = e820_base_low entry + e820_length_low entry in
                     if candidate < e820_base_low entry then managed_limit else candidate
                   else managed_limit)
       in release_usable_range (e820_base_low entry) limit p)"

text \<open>
  \<open>init\<close>, with whether \<open>boot_info()->magic\<close> is the boot magic, the E820 records, and the lines it
  prints on the serial port.
\<close>

definition pmm_init :: "bool \<Rightarrow> e820_entry list \<Rightarrow> pmm \<times> string list" where
  "pmm_init magic_ok entries =
    (let p0 = \<lparr>frame_bitmap = replicate bitmap_words 0xFFFFFFFF, available_frames = 0,
               allocated_frames = 0, pmm_initialized = False\<rparr>;
         p1 = (if magic_ok then fold release_entry entries p0 else p0);
         p2 = p1\<lparr>pmm_initialized := available_frames p1 \<noteq> 0\<rparr>
     in if \<not> pmm_initialized p2 then (p2, [''PMM_UNAVAILABLE''])
        else case pmm_stress_test p2 of (ok, p3) \<Rightarrow>
          if \<not> ok then (p3\<lparr>pmm_initialized := False\<rparr>, [''PMM_SELFTEST_FAILED''])
          else (p3, [''PMM_STRESS_OK'', ''PMM_OK'']))"

section \<open>The bitmap as a set of frames\<close>

definition used :: "pmm \<Rightarrow> nat \<Rightarrow> bool" where
  "used p f \<longleftrightarrow> bit (frame_bitmap p ! (f div 32)) (f mod 32)"

definition free_set :: "pmm \<Rightarrow> nat set" where
  "free_set p = {f. f < frame_count \<and> \<not> used p f}"

lemma finite_free_set [simp]: "finite (free_set p)"
  unfolding free_set_def by simp

lemma frame_word [simp]:
  assumes "f < frame_count"
  shows "unat (word_of_nat f :: u32) = f" "unat ((word_of_nat f :: u32) div 32) = f div 32"
    "unat ((word_of_nat f :: u32) mod 32) = f mod 32"
  using assms by (simp_all add: unat_of_nat_nowrap unat_div unat_mod frame_count_def)

lemma is_used_iff: "f < frame_count \<Longrightarrow> is_used p (word_of_nat f) \<longleftrightarrow> used p f"
  unfolding is_used_def used_def and_push_bit_one by simp

lemma bit_mark:
  fixes w :: u32
  assumes "n < 32" "k < 32"
  shows "bit (w OR push_bit n 1) k \<longleftrightarrow> bit w k \<or> k = n"
    and "bit (w AND NOT (push_bit n 1)) k \<longleftrightarrow> bit w k \<and> k \<noteq> n"
  using assms by (auto simp: bit_simps simp del: push_bit_of_1)

lemma div_mod_32_eq: "(f :: nat) div 32 = g div 32 \<Longrightarrow> f mod 32 = g mod 32 \<longleftrightarrow> f = g"
  by (metis div_mult_mod_eq)

lemma used_mark_used:
  assumes "length (frame_bitmap p) = bitmap_words" "f < frame_count" "g < frame_count"
  shows "used (mark_used p (word_of_nat f)) g \<longleftrightarrow> used p g \<or> g = f"
proof (cases "g div 32 = f div 32")
  case True
  have "f div 32 < length (frame_bitmap p)" using assms by (simp add: bitmap_words_def frame_count_def)
  then show ?thesis using True assms(2) div_mod_32_eq [OF True]
    by (simp add: used_def mark_used_def bit_mark del: push_bit_of_1)
next
  case False
  then show ?thesis using assms by (auto simp: used_def mark_used_def)
qed

lemma used_mark_free:
  assumes "length (frame_bitmap p) = bitmap_words" "f < frame_count" "g < frame_count"
  shows "used (mark_free p (word_of_nat f)) g \<longleftrightarrow> used p g \<and> g \<noteq> f"
proof (cases "g div 32 = f div 32")
  case True
  have "f div 32 < length (frame_bitmap p)" using assms by (simp add: bitmap_words_def frame_count_def)
  then show ?thesis using True assms(2) div_mod_32_eq [OF True]
    by (simp add: used_def mark_free_def bit_mark del: push_bit_of_1)
next
  case False
  then show ?thesis using assms by (auto simp: used_def mark_free_def)
qed

lemma free_set_mark:
  assumes "length (frame_bitmap p) = bitmap_words" "f < frame_count"
  shows "free_set (mark_used p (word_of_nat f)) = free_set p - {f}"
    and "free_set (mark_free p (word_of_nat f)) = insert f (free_set p)"
  using assms by (auto simp: free_set_def used_mark_used used_mark_free)

lemma mark_simps [simp]:
  "length (frame_bitmap (mark_used p f)) = length (frame_bitmap p)"
  "length (frame_bitmap (mark_free p f)) = length (frame_bitmap p)"
  "available_frames (mark_used p f) = available_frames p" "available_frames (mark_free p f) = available_frames p"
  "allocated_frames (mark_used p f) = allocated_frames p" "allocated_frames (mark_free p f) = allocated_frames p"
  "pmm_initialized (mark_used p f) = pmm_initialized p" "pmm_initialized (mark_free p f) = pmm_initialized p"
  by (simp_all add: mark_used_def mark_free_def)

lemma free_set_fields [simp]:
  "free_set (p\<lparr>available_frames := a\<rparr>) = free_set p" "free_set (p\<lparr>allocated_frames := a\<rparr>) = free_set p"
  "free_set (p\<lparr>pmm_initialized := b\<rparr>) = free_set p"
  by (simp_all add: free_set_def used_def)

lemma full_word: "(w :: u32) = 0xFFFFFFFF \<longleftrightarrow> (\<forall>k<32. bit w k)"
proof -
  have "(0xFFFFFFFF :: u32) = - 1" by simp
  then show ?thesis by (simp only: bit_eq_iff) (auto simp: bit_imp_le_length)
qed

lemma find_upt_first: "P i \<Longrightarrow> i < n \<Longrightarrow> (\<And>j. j < i \<Longrightarrow> \<not> P j) \<Longrightarrow> find P [0..<n] = Some i"
  by (auto simp: find_Some_iff)

section \<open>The invariant\<close>

definition allocatable :: "nat set" where
  "allocatable = {3072..<32768}"

definition pmm_ok :: "nat set \<Rightarrow> pmm \<Rightarrow> bool" where
  "pmm_ok A p \<longleftrightarrow> length (frame_bitmap p) = bitmap_words \<and> free_set p \<subseteq> allocatable \<and> A \<subseteq> allocatable \<and>
    A \<inter> free_set p = {} \<and> unat (available_frames p) = card (free_set p) \<and>
    unat (allocated_frames p) = card A"

lemma scan_words_lowest:
  assumes len: "length (frame_bitmap p) = bitmap_words"
    and low: "\<forall>f\<in>free_set p. k * 32 \<le> f" and k: "k \<le> bitmap_words"
  shows "scan_words p [k..<bitmap_words] = (if free_set p = {} then None else Some (Min (free_set p)))"
  using low k
proof (induction "bitmap_words - k" arbitrary: k)
  case 0
  then have "k = 1024" by (simp add: bitmap_words_def)
  then have "free_set p = {}" using 0 by (force simp: free_set_def frame_count_def)
  then show ?case using 0 by simp
next
  case (Suc n)
  then have k: "k < 1024" and u: "[k..<bitmap_words] = k # [Suc k..<bitmap_words]"
    by (simp_all add: bitmap_words_def upt_conv_Cons)
  let ?P = "\<lambda>i. \<not> (frame_count \<le> k * 32 + i \<or> is_used p (word_of_nat (k * 32 + i)))"
  have P: "?P i \<longleftrightarrow> \<not> bit (frame_bitmap p ! k) i" if "i < 32" for i
    using that k is_used_iff [of "k * 32 + i" p] by (auto simp: frame_count_def used_def)
  show ?case
  proof (cases "frame_bitmap p ! k = 0xFFFFFFFF")
    case True
    have "Suc k * 32 \<le> f" if "f \<in> free_set p" for f
    proof (rule ccontr)
      assume "\<not> Suc k * 32 \<le> f"
      then have "f div 32 = k" using Suc.prems(1) that by auto
      then show False using that True [unfolded full_word] by (auto simp: free_set_def used_def)
    qed
    then show ?thesis unfolding u using Suc.hyps(1) [of "Suc k"] Suc.hyps(2) k True
      by (simp add: bitmap_words_def)
  next
    case False
    define i where "i = (LEAST i. \<not> bit (frame_bitmap p ! k) i)"
    obtain j where j: "j < 32" "\<not> bit (frame_bitmap p ! k) j" using False by (auto simp: full_word)
    then have i: "i < 32" "\<not> bit (frame_bitmap p ! k) i" and least: "\<And>m. m < i \<Longrightarrow> bit (frame_bitmap p ! k) m"
      unfolding i_def using LeastI [of "\<lambda>i. \<not> bit (frame_bitmap p ! k) i" j]
        Least_le [of "\<lambda>i. \<not> bit (frame_bitmap p ! k) i" j] not_less_Least by (blast intro: le_less_trans)+
    have f: "find ?P [0..<32] = Some i"
    proof (rule find_upt_first)
      show "?P i" using P [OF i(1)] i(2) by blast
      show "\<not> ?P j" if "j < i" for j using P [OF less_trans [OF that i(1)]] least [OF that] by blast
    qed (rule i(1))
    have "k * 32 + i \<in> free_set p" using i k by (simp add: free_set_def used_def frame_count_def)
    moreover have "k * 32 + i \<le> f" if "f \<in> free_set p" for f
    proof (rule ccontr)
      assume "\<not> k * 32 + i \<le> f"
      moreover have "k * 32 \<le> f" using Suc.prems(1) that by blast
      ultimately obtain m where "f = k * 32 + m" "m < i" by (metis le_Suc_ex add_less_cancel_left not_le)
      then have "f div 32 = k" "f mod 32 < i" using i(1) by auto
      then show False using that least by (auto simp: free_set_def used_def)
    qed
    ultimately have "Min (free_set p) = k * 32 + i" "free_set p \<noteq> {}" by (auto intro: Min_eqI)
    then show ?thesis using False f by (simp add: u)
  qed
qed

lemma page_frame [simp]:
  assumes "f < frame_count"
  shows "unat (word_of_nat f * page_size) = f * 4096"
    and "(word_of_nat f * page_size :: u32) div page_size = word_of_nat f"
proof -
  show 1: "unat (word_of_nat f * page_size) = f * 4096"
    using assms by (subst unat_mult_nowrap) (simp_all add: page_size_def frame_count_def unat_of_nat_nowrap)
  show "(word_of_nat f * page_size :: u32) div page_size = word_of_nat f"
    using assms 1 by (simp add: word_unat_eq_iff unat_div page_size_def)
qed

lemma page_aligned_iff: "a AND (page_size - 1) = 0 \<longleftrightarrow> unat a mod 4096 = 0"
proof -
  have "page_size - 1 = mask 12" by (simp add: page_size_def mask_eq_exp_minus_1)
  then have "a AND (page_size - 1) = a mod 4096" by (simp add: take_bit_eq_mod flip: take_bit_eq_mask)
  then show ?thesis by (simp add: word_unat_eq_iff unat_mod)
qed

lemma allocatable_frame:
  "f \<in> allocatable \<Longrightarrow> f < frame_count \<and> \<not> in_hole (word_of_nat f * page_size) \<and>
    reserved_end \<le> word_of_nat f * page_size \<and> word_of_nat f * page_size < managed_limit \<and>
    (word_of_nat f * page_size :: u32) \<noteq> 0 \<and> (word_of_nat f * page_size) AND (page_size - 1) = 0"
proof -
  assume f: "f \<in> allocatable"
  then have c: "f < frame_count" by (simp add: allocatable_def frame_count_def)
  have "(word_of_nat f * page_size :: u32) \<noteq> 0"
    using f c page_frame(1) [OF c] by (auto simp: allocatable_def word_unat_eq_iff)
  then show ?thesis using c f
    by (simp add: allocatable_def in_hole_def word_le_nat_alt word_less_nat_alt page_aligned_iff
        identity_hole_start_def identity_hole_end_def reserved_end_def managed_limit_def)
qed

lemma unat_inc: "unat a < 2 ^ 32 - 1 \<Longrightarrow> unat (a + 1 :: u32) = Suc (unat a)"
  by (subst unat_add_nowrap) simp_all

lemma unat_dec: "0 < unat a \<Longrightarrow> unat (a - 1 :: u32) = unat a - 1"
  by (subst unat_sub) (auto simp: word_le_nat_alt)

lemma card_allocatable: "B \<subseteq> allocatable \<Longrightarrow> finite B \<and> card B \<le> 29696"
proof -
  assume "B \<subseteq> allocatable"
  moreover have "finite allocatable" "card allocatable = 29696" by (simp_all add: allocatable_def)
  ultimately show ?thesis by (metis card_mono finite_subset)
qed

lemma allocate_frame_empty: "pmm_ok A p \<Longrightarrow> free_set p = {} \<Longrightarrow> allocate_frame p = (0, p)"
  using scan_words_lowest [of p 65] unfolding pmm_ok_def allocate_frame_def
  by (simp add: reserved_end_def page_size_def bitmap_words_def)

lemma allocate_frame_lowest:
  assumes ok: "pmm_ok A p" and init: "pmm_initialized p" and ne: "free_set p \<noteq> {}"
  defines "f \<equiv> Min (free_set p)"
  shows "\<exists>p1. allocate_frame p = (word_of_nat f * page_size, p1) \<and> pmm_ok (insert f A) p1 \<and>
    free_set p1 = free_set p - {f} \<and> f \<in> free_set p \<and> f \<in> allocatable \<and> f \<notin> A \<and> pmm_initialized p1 \<and>
    available_frames p1 = available_frames p - 1 \<and> allocated_frames p1 = allocated_frames p + 1"
proof -
  have f: "f \<in> free_set p" unfolding f_def using ne by (simp add: Min_in)
  then have fa: "f \<in> allocatable" and fA: "f \<notin> A" using ok by (auto simp: pmm_ok_def)
  then have fc: "f < frame_count" using allocatable_frame by blast
  let ?p1 = "(mark_used p (word_of_nat f))
    \<lparr>available_frames := available_frames p - 1, allocated_frames := allocated_frames p + 1\<rparr>"
  have low: "\<forall>f\<in>free_set p. 65 * 32 \<le> f" using ok by (force simp: pmm_ok_def allocatable_def)
  have "scan_words p [65..<bitmap_words] = Some f" unfolding f_def
    using scan_words_lowest [OF _ low] ok ne by (simp add: pmm_ok_def bitmap_words_def)
  then have a: "allocate_frame p = (word_of_nat f * page_size, ?p1)"
    using init by (simp add: allocate_frame_def reserved_end_def page_size_def)
  have fs: "free_set ?p1 = free_set p - {f}" using ok fc by (simp add: free_set_mark pmm_ok_def)
  have A: "finite A" "card A \<le> 29696" using ok card_allocatable by (auto simp: pmm_ok_def)
  have "0 < card (free_set p)" using f by (auto simp: card_gt_0_iff)
  then have "unat (available_frames p - 1) = card (free_set p - {f})"
    "unat (allocated_frames p + 1) = card (insert f A)"
    using ok f fA A unat_dec [of "available_frames p"] unat_inc [of "allocated_frames p"]
    by (simp_all add: pmm_ok_def)
  then have "pmm_ok (insert f A) ?p1" using ok fa fs by (auto simp: pmm_ok_def)
  then show ?thesis using a fs f fa fA init by simp
qed

lemma free_frame_owned:
  assumes ok: "pmm_ok A p" and init: "pmm_initialized p" and f: "f \<in> A"
  shows "\<exists>p1. free_frame (word_of_nat f * page_size) p = (True, p1) \<and> pmm_ok (A - {f}) p1 \<and>
    free_set p1 = insert f (free_set p) \<and> pmm_initialized p1 \<and>
    available_frames p1 = available_frames p + 1 \<and> allocated_frames p1 = allocated_frames p - 1"
proof -
  have fa: "f \<in> allocatable" and fn: "f \<notin> free_set p" using ok f by (auto simp: pmm_ok_def)
  note al = allocatable_frame [OF fa]
  then have fc: "f < frame_count" by blast
  have A: "finite A" "0 < card A" "unat (allocated_frames p) = card A"
    using ok f card_allocatable [of A] by (auto simp: pmm_ok_def card_gt_0_iff)
  have u: "is_used p (word_of_nat f)" using fn fc by (simp add: is_used_iff free_set_def)
  let ?p1 = "(mark_free p (word_of_nat f))
    \<lparr>available_frames := available_frames p + 1, allocated_frames := allocated_frames p - 1\<rparr>"
  have nz: "allocated_frames p \<noteq> 0" using A by auto
  have e: "free_frame (word_of_nat f * page_size) p = (True, ?p1)"
    using al fc u init nz by (auto simp: free_frame_def Let_def)
  have fs: "free_set ?p1 = insert f (free_set p)" using ok fc by (simp add: free_set_mark pmm_ok_def)
  have c: "card (free_set p) \<le> 29696" using ok card_allocatable by (auto simp: pmm_ok_def)
  have "unat (available_frames p + 1) = card (insert f (free_set p))"
    "unat (allocated_frames p - 1) = card (A - {f})"
    using ok f fn A c unat_inc [of "available_frames p"] unat_dec [of "allocated_frames p"]
    by (simp_all add: pmm_ok_def)
  then have "pmm_ok (A - {f}) ?p1" using ok fa fs by (auto simp: pmm_ok_def)
  then show ?thesis using e fs init by simp
qed

section \<open>Releasing the usable frames\<close>

text \<open>The whole frames of a usable E820 range, whatever its length, above the hole.\<close>

definition usable_frame :: "e820_entry \<Rightarrow> nat \<Rightarrow> bool" where
  "usable_frame entry f \<longleftrightarrow> e820_type entry = 1 \<and> e820_base_high entry = 0 \<and>
    unat (e820_base_low entry) \<le> f * 4096 \<and>
    (f + 1) * 4096 \<le> unat (e820_base_low entry) + unat (e820_length_high entry) * 2 ^ 32 + unat (e820_length_low entry)"

definition range_frames :: "nat \<Rightarrow> nat \<Rightarrow> nat set" where
  "range_frames first limit = {f. first \<le> f * 4096 \<and> (f + 1) * 4096 \<le> limit}"

lemma unat_page_mask: "unat (v AND NOT (page_size - 1)) = unat v div 4096 * 4096"
proof -
  have "page_size - 1 = mask 12" by (simp add: page_size_def mask_eq_exp_minus_1)
  then have "v AND NOT (page_size - 1) = push_bit 12 (drop_bit 12 v)"
    by (simp add: bit_eq_iff bit_simps) (auto simp: bit_imp_le_length)
  also have "\<dots> = v div 4096 * 4096" by (simp add: push_bit_eq_mult drop_bit_eq_div)
  also have "unat \<dots> = unat v div 4096 * 4096"
    using unat_less_exp [of v] by (subst unat_mult_nowrap) (simp_all add: unat_div)
  finally show ?thesis .
qed

lemma unat_page_align_up:
  "v < managed_limit \<Longrightarrow> unat (page_align_up v) = (unat v + 4095) div 4096 * 4096"
proof -
  assume v: "v < managed_limit"
  have p: "v + page_size - 1 = v + 4095" by (simp add: page_size_def)
  have "unat (v + 4095) = unat v + 4095"
    using v by (subst unat_add_nowrap) (simp_all add: word_less_nat_alt managed_limit_def)
  then show ?thesis unfolding page_align_up_def unat_page_mask p by simp
qed

lemma release_page_free:
  assumes ok: "pmm_ok {} p" and f: "f < frame_count" "2080 \<le> f"
  shows "pmm_ok {} (release_page (word_of_nat f * page_size) p)"
    and "free_set (release_page (word_of_nat f * page_size) p) = free_set p \<union> ({f} \<inter> allocatable)"
proof -
  have h: "in_hole (word_of_nat f * page_size) \<longleftrightarrow> f \<notin> allocatable"
    using f by (auto simp: in_hole_def word_le_nat_alt word_less_nat_alt identity_hole_start_def
        identity_hole_end_def allocatable_def frame_count_def)
  have len: "length (frame_bitmap p) = bitmap_words" using ok by (simp add: pmm_ok_def)
  let ?q = "release_page (word_of_nat f * page_size) p"
  have q: "?q = (if f \<in> allocatable \<and> f \<notin> free_set p
      then (mark_free p (word_of_nat f))\<lparr>available_frames := available_frames p + 1\<rparr> else p)"
    using h f(1) is_used_iff [OF f(1), of p] by (auto simp: release_page_def Let_def free_set_def)
  show fs: "free_set ?q = free_set p \<union> ({f} \<inter> allocatable)"
    unfolding q using free_set_mark(2) [OF len f(1)] by auto
  have "card (free_set p) \<le> 29696" using ok card_allocatable by (auto simp: pmm_ok_def)
  then have "f \<notin> free_set p \<Longrightarrow> unat (available_frames p + 1) = card (insert f (free_set p))"
    using ok unat_inc [of "available_frames p"] by (simp add: pmm_ok_def)
  then show "pmm_ok {} ?q" unfolding q using ok free_set_mark(2) [OF len f(1)] by (simp add: pmm_ok_def)
qed

lemma fold_release_page:
  assumes "pmm_ok {} p" "\<forall>f\<in>set fs. f < frame_count \<and> 2080 \<le> f"
  shows "pmm_ok {} (fold release_page (map (\<lambda>f. word_of_nat f * page_size) fs) p) \<and>
    free_set (fold release_page (map (\<lambda>f. word_of_nat f * page_size) fs) p) = free_set p \<union> (set fs \<inter> allocatable)"
  using assms
proof (induction fs arbitrary: p)
  case (Cons f fs)
  then show ?case using release_page_free [of p f] Cons.IH [of "release_page (word_of_nat f * page_size) p"] by auto
qed simp

lemma page_addresses_frames:
  assumes "unat first = a * 4096" "unat limit = b * 4096" "b \<le> frame_count"
  shows "page_addresses first limit = map (\<lambda>f. word_of_nat f * page_size) [a..<b]"
proof -
  have n: "(unat limit - unat first + 4095) div 4096 = b - a"
    unfolding assms(1,2) by (simp add: diff_mult_distrib [symmetric])
  have w: "first = word_of_nat a * page_size" if "a < b"
    using assms that by (simp add: word_unat_eq_iff)
  show ?thesis unfolding page_addresses_def n
    by (rule nth_equalityI) (auto simp: w ring_distribs)
qed

lemma release_usable_range_frames:
  assumes ok: "pmm_ok {} p"
  shows "pmm_ok {} (release_usable_range first limit p)"
    and "free_set (release_usable_range first limit p) =
      free_set p \<union> (range_frames (unat first) (unat limit) \<inter> allocatable)"
proof -
  have "pmm_ok {} (release_usable_range first limit p) \<and> free_set (release_usable_range first limit p) =
      free_set p \<union> (range_frames (unat first) (unat limit) \<inter> allocatable)"
  proof (cases "limit \<le> first \<or> managed_limit \<le> first")
    case True
    then have "range_frames (unat first) (unat limit) \<inter> allocatable = {}"
      by (auto simp: range_frames_def allocatable_def word_le_nat_alt managed_limit_def)
    then show ?thesis using True ok by (simp add: release_usable_range_def)
  next
    case False
    let ?l = "min (unat limit) 134217728 div 4096" and ?f = "max 2080 ((unat first + 4095) div 4096)"
    let ?limit = "page_align_down (if managed_limit < limit then managed_limit else limit)"
    let ?first = "if page_align_up first < reserved_end then reserved_end else page_align_up first"
    have l: "unat ?limit = ?l * 4096"
      by (auto simp: page_align_down_def unat_page_mask word_less_nat_alt managed_limit_def)
    have f: "unat ?first = ?f * 4096"
      using False unat_page_align_up [of first] by (auto simp: word_less_nat_alt reserved_end_def not_le)
    have b: "?l \<le> frame_count" by (simp add: frame_count_def)
    have "set [?f..<?l] \<inter> allocatable = range_frames (unat first) (unat limit) \<inter> allocatable"
      by (auto simp: range_frames_def allocatable_def)
    moreover have "release_usable_range first limit p = fold release_page (page_addresses ?first ?limit) p"
      using False by (simp add: release_usable_range_def Let_def)
    ultimately show ?thesis unfolding page_addresses_frames [OF f l b]
      using fold_release_page [OF ok, of "[?f..<?l]"] b by (auto simp: frame_count_def)
  qed
  then show "pmm_ok {} (release_usable_range first limit p)"
    "free_set (release_usable_range first limit p) =
      free_set p \<union> (range_frames (unat first) (unat limit) \<inter> allocatable)" by auto
qed

lemma usable_frame_limit:
  fixes base len :: u32
  assumes "f \<in> allocatable"
  shows "(f + 1) * 4096 \<le> unat (if high = 0 then if base + len < base then managed_limit else base + len
      else managed_limit) \<longleftrightarrow> (f + 1) * 4096 \<le> unat base + unat (high :: u32) * 2 ^ 32 + unat len"
proof -
  have f: "(f + 1) * 4096 \<le> 134217728" using assms by (simp add: allocatable_def)
  have "0 < unat high" if "high \<noteq> 0" using that by (simp add: unat_gt_0)
  moreover have "unat (base + len) = unat base + unat len \<and> \<not> base + len < base \<or>
      base + len < base \<and> 2 ^ 32 \<le> unat base + unat len"
    using unat_less_exp [of base] unat_less_exp [of len]
    by (cases "unat base + unat len < 2 ^ 32") (auto simp: word_less_nat_alt unat_word_ariths mod_if)
  ultimately show ?thesis using f by (auto simp: managed_limit_def)
qed

lemma release_entry_frames:
  assumes ok: "pmm_ok {} p"
  shows "pmm_ok {} (release_entry entry p)"
    and "free_set (release_entry entry p) = free_set p \<union> {f \<in> allocatable. usable_frame entry f}"
proof -
  show "pmm_ok {} (release_entry entry p)"
    using ok release_usable_range_frames(1) [OF ok] by (simp add: release_entry_def Let_def)
  let ?limit = "if e820_length_high entry = 0
    then if e820_base_low entry + e820_length_low entry < e820_base_low entry then managed_limit
      else e820_base_low entry + e820_length_low entry
    else managed_limit"
  have "range_frames (unat (e820_base_low entry)) (unat ?limit) \<inter> allocatable =
      {f \<in> allocatable. usable_frame entry f}" if "e820_type entry = 1" "e820_base_high entry = 0"
    unfolding range_frames_def usable_frame_def using that usable_frame_limit
    by (simp only: set_eq_iff Int_iff mem_Collect_eq) blast
  then show "free_set (release_entry entry p) = free_set p \<union> {f \<in> allocatable. usable_frame entry f}"
    unfolding release_entry_def Let_def using release_usable_range_frames(2) [OF ok]
    by (simp only: split: if_split) (auto simp: usable_frame_def)
qed

lemma fold_release_entry:
  "pmm_ok {} p \<Longrightarrow> pmm_ok {} (fold release_entry entries p) \<and>
    free_set (fold release_entry entries p) = free_set p \<union> {f \<in> allocatable. \<exists>e\<in>set entries. usable_frame e f}"
proof (induction entries arbitrary: p)
  case (Cons e entries)
  then show ?case using release_entry_frames [of p e] Cons.IH [of "release_entry e p"] by auto
qed simp

section \<open>The self-test\<close>

lemma frame_address_inj:
  "f < frame_count \<Longrightarrow> g < frame_count \<Longrightarrow> (word_of_nat f * page_size :: u32) = word_of_nat g * page_size \<Longrightarrow> f = g"
  using page_frame(1) by (metis mult_right_cancel zero_neq_numeral)

lemma stress_allocate_frames:
  assumes "pmm_ok A p" "pmm_initialized p" "n \<le> card (free_set p)" "set fs \<subseteq> A"
  shows "\<exists>gs p1. stress_allocate n (map (\<lambda>f. word_of_nat f * page_size) fs) p =
      (Some (map (\<lambda>f. word_of_nat f * page_size) (fs @ gs)), p1) \<and> length gs = n \<and> distinct gs \<and>
      set gs \<inter> A = {} \<and> set gs \<subseteq> free_set p \<and> pmm_ok (A \<union> set gs) p1 \<and> pmm_initialized p1 \<and>
      free_set p1 = free_set p - set gs \<and>
      available_frames p1 = available_frames p - word_of_nat n \<and> allocated_frames p1 = allocated_frames p + word_of_nat n"
  using assms
proof (induction n arbitrary: A p fs)
  case 0
  then show ?case by (intro exI [of _ "[]"]) simp
next
  case (Suc n)
  define f where "f = Min (free_set p)"
  have ne: "free_set p \<noteq> {}" using Suc.prems(3) by auto
  obtain p1 where p1: "allocate_frame p = (word_of_nat f * page_size, p1)" "pmm_ok (insert f A) p1"
    "free_set p1 = free_set p - {f}" "f \<in> free_set p" "f \<in> allocatable" "f \<notin> A" "pmm_initialized p1"
    "available_frames p1 = available_frames p - 1" "allocated_frames p1 = allocated_frames p + 1"
    using allocate_frame_lowest [OF Suc.prems(1,2) ne] unfolding f_def by blast
  have fs: "word_of_nat f * page_size \<notin> set (map (\<lambda>f. word_of_nat f * page_size) fs)"
  proof
    assume "word_of_nat f * page_size \<in> set (map (\<lambda>f. word_of_nat f * page_size) fs)"
    then obtain g where "g \<in> A" "word_of_nat f * page_size = (word_of_nat g * page_size :: u32)"
      using Suc.prems(4) by auto
    then show False using p1(5,6) frame_address_inj Suc.prems(1) allocatable_frame
      by (metis pmm_ok_def subsetD)
  qed
  have "n \<le> card (free_set p1)" "set (fs @ [f]) \<subseteq> insert f A" using Suc.prems(3,4) p1(3,4) by auto
  from Suc.IH [OF p1(2,7) this] obtain gs p2 where
    "stress_allocate n (map (\<lambda>f. word_of_nat f * page_size) (fs @ [f])) p1 =
      (Some (map (\<lambda>f. word_of_nat f * page_size) ((fs @ [f]) @ gs)), p2)" and rest: "length gs = n" "distinct gs"
      "set gs \<inter> insert f A = {}" "set gs \<subseteq> free_set p1" "pmm_ok (insert f A \<union> set gs) p2" "pmm_initialized p2"
      "free_set p2 = free_set p1 - set gs" "available_frames p2 = available_frames p1 - word_of_nat n"
      "allocated_frames p2 = allocated_frames p1 + word_of_nat n"
    by blast
  then have "stress_allocate (Suc n) (map (\<lambda>f. word_of_nat f * page_size) fs) p =
      (Some (map (\<lambda>f. word_of_nat f * page_size) (fs @ f # gs)), p2)"
    using p1(1) fs allocatable_frame [OF p1(5)] by auto
  then show ?case using rest p1 by (intro exI [of _ "f # gs"] exI [of _ p2]) auto
qed

lemma stress_free_frames:
  assumes "pmm_ok A p" "pmm_initialized p" "set gs \<subseteq> A" "distinct gs"
  shows "\<exists>p1. stress_free (map (\<lambda>f. word_of_nat f * page_size) gs) p = (True, p1) \<and> pmm_ok (A - set gs) p1 \<and>
    pmm_initialized p1 \<and> free_set p1 = free_set p \<union> set gs \<and>
    available_frames p1 = available_frames p + word_of_nat (length gs) \<and>
    allocated_frames p1 = allocated_frames p - word_of_nat (length gs)"
  using assms
proof (induction gs arbitrary: A p)
  case (Cons g gs)
  obtain p1 where p1: "free_frame (word_of_nat g * page_size) p = (True, p1)" "pmm_ok (A - {g}) p1"
    "free_set p1 = insert g (free_set p)" "pmm_initialized p1"
    "available_frames p1 = available_frames p + 1" "allocated_frames p1 = allocated_frames p - 1"
    using free_frame_owned [OF Cons.prems(1,2), of g] Cons.prems(3) by auto
  have "set gs \<subseteq> A - {g}" "distinct gs" using Cons.prems by auto
  from Cons.IH [OF p1(2,4) this] obtain p2 where
    "stress_free (map (\<lambda>f. word_of_nat f * page_size) gs) p1 = (True, p2)" "pmm_ok (A - {g} - set gs) p2"
    "pmm_initialized p2" "free_set p2 = free_set p1 \<union> set gs"
    "available_frames p2 = available_frames p1 + word_of_nat (length gs)"
    "allocated_frames p2 = allocated_frames p1 - word_of_nat (length gs)" by blast
  moreover have "A - set (g # gs) = A - {g} - set gs" by auto
  ultimately show ?case using p1 by simp
qed simp

lemma free_set_determines_bitmap:
  assumes "length (frame_bitmap p) = bitmap_words" "length (frame_bitmap q) = bitmap_words" "free_set p = free_set q"
  shows "frame_bitmap p = frame_bitmap q"
proof (rule nth_equalityI)
  fix i assume i: "i < length (frame_bitmap p)"
  have u: "used p f \<longleftrightarrow> used q f" if "f < frame_count" for f
    using assms(3) that by (auto simp: free_set_def set_eq_iff)
  show "frame_bitmap p ! i = frame_bitmap q ! i"
  proof (rule bit_eqI)
    fix k assume "possible_bit TYPE(u32) k"
    then have k: "k < 32" by simp
    then show "bit (frame_bitmap p ! i) k = bit (frame_bitmap q ! i) k"
      using u [of "i * 32 + k"] i assms(1) by (simp add: used_def frame_count_def bitmap_words_def)
  qed
qed (use assms in simp)

lemma free_frame_rejects:
  "a AND (page_size - 1) \<noteq> 0 \<Longrightarrow> free_frame a p = (False, p)"
  "f < frame_count \<Longrightarrow> f \<in> free_set p \<Longrightarrow> free_frame (word_of_nat f * page_size) p = (False, p)"
  by (simp_all add: free_frame_def Let_def is_used_iff free_set_def)

lemma stress_test_restores:
  assumes ok: "pmm_ok A p" and init: "pmm_initialized p" and n: "self_test_frames \<le> card (free_set p)"
  shows "pmm_stress_test p = (True, p)"
proof -
  obtain gs p1 where s: "stress_allocate self_test_frames [] p = (Some (map (\<lambda>f. word_of_nat f * page_size) gs), p1)"
    and gs: "length gs = self_test_frames" "distinct gs" "set gs \<inter> A = {}" "set gs \<subseteq> free_set p"
    and p1: "pmm_ok (A \<union> set gs) p1" "pmm_initialized p1" "free_set p1 = free_set p - set gs"
      "available_frames p1 = available_frames p - word_of_nat self_test_frames"
      "allocated_frames p1 = allocated_frames p + word_of_nat self_test_frames"
    using stress_allocate_frames [OF ok init n, of "[]"] by auto
  obtain p2 where p2: "stress_free (map (\<lambda>f. word_of_nat f * page_size) (rev gs)) p1 = (True, p2)"
    "pmm_ok (A \<union> set gs - set gs) p2" "pmm_initialized p2" "free_set p2 = free_set p"
    "available_frames p2 = available_frames p" "allocated_frames p2 = allocated_frames p"
    using stress_free_frames [OF p1(1,2), of "rev gs"] gs p1 by (auto simp: Un_absorb2)
  obtain g gs' where g: "gs = g # gs'" using gs(1) by (cases gs) (auto simp: self_test_frames_def)
  have gf: "g \<in> free_set p" "g < frame_count" using g gs(4) by (auto simp: free_set_def)
  have "frame_bitmap p2 = frame_bitmap p"
    using p2(2,4) ok by (intro free_set_determines_bitmap) (auto simp: pmm_ok_def)
  then have "p2 = p" using p2 init by (intro pmm.equality) simp_all
  moreover have "(word_of_nat g * page_size + 1) AND (page_size - 1) \<noteq> 0"
  proof -
    have "unat (word_of_nat g * page_size + 1 :: u32) = g * 4096 + 1"
      using gf(2) by (subst unat_add_nowrap) (auto simp: frame_count_def)
    moreover have "(g * 4096 + 1) mod 4096 = (1 :: nat)" by (subst mod_mult_self3) simp
    ultimately show ?thesis unfolding page_aligned_iff by simp
  qed
  moreover have "\<not> available_frames p < word_of_nat self_test_frames"
    using n ok by (simp add: word_less_nat_alt self_test_frames_def pmm_ok_def)
  ultimately show ?thesis using s p1(4,5) p2 g gf free_frame_rejects(2) [OF gf(2,1)] free_frame_rejects(1)
    by (simp add: pmm_stress_test_def rev_map allocated_bytes_def)
qed

section \<open>The frame allocator as an allocator\<close>

text \<open>
  The interface is about the set of frames handed out, which the bitmap alone does not give: a set bit
  may also be a frame that was never available. \<open>A\<close> is that set, kept beside the state. The frame
  allocator is an \<open>allocator\<close> but not a \<open>checked_allocator\<close>: \<open>free_frame\<close> takes a frame that the firmware
  never reported usable for one handed out, and makes it available.
\<close>

definition frame_alloc :: "unit \<Rightarrow> nat set \<times> pmm \<Rightarrow> nat option \<times> nat set \<times> pmm" where
  "frame_alloc _ s = (case allocate_frame (snd s) of (a, p1) \<Rightarrow>
    if a = 0 then (None, fst s, p1) else (Some (unat a div 4096), insert (unat a div 4096) (fst s), p1))"

definition frame_release :: "nat \<Rightarrow> nat set \<times> pmm \<Rightarrow> bool \<times> nat set \<times> pmm" where
  "frame_release f s = (case free_frame (word_of_nat f * page_size) (snd s) of (ok, p1) \<Rightarrow>
    (ok, if ok then fst s - {f} else fst s, p1))"

lemma frame_alloc_cases:
  assumes "pmm_ok A p" "pmm_initialized p"
  shows "frame_alloc r (A, p) = (None, A, p) \<or>
    (\<exists>f p1. frame_alloc r (A, p) = (Some f, insert f A, p1) \<and> f \<notin> A \<and> pmm_ok (insert f A) p1 \<and> pmm_initialized p1)"
proof (cases "free_set p = {}")
  case True
  then show ?thesis using allocate_frame_empty assms(1) by (simp add: frame_alloc_def)
next
  case False
  define f where "f = Min (free_set p)"
  obtain p1 where p1: "allocate_frame p = (word_of_nat f * page_size, p1)" "pmm_ok (insert f A) p1"
    "f \<in> allocatable" "f \<notin> A" "pmm_initialized p1"
    using allocate_frame_lowest [OF assms False] unfolding f_def by blast
  then have "frame_alloc r (A, p) = (Some f, insert f A, p1)"
    using allocatable_frame [OF p1(3)] by (simp add: frame_alloc_def)
  then show ?thesis using p1 by blast
qed

interpretation frames: allocator "\<lambda>(A, p). pmm_ok A p \<and> pmm_initialized p" fst frame_alloc frame_release
proof
  fix s r x s' assume "case s of (A, p) \<Rightarrow> pmm_ok A p \<and> pmm_initialized p" "frame_alloc r s = (Some x, s')"
  then show "(case s' of (A, p) \<Rightarrow> pmm_ok A p \<and> pmm_initialized p) \<and> x \<notin> fst s \<and> fst s' = insert x (fst s)"
    using frame_alloc_cases [of "fst s" "snd s" r] by (cases s) auto
next
  fix s r s' assume "case s of (A, p) \<Rightarrow> pmm_ok A p \<and> pmm_initialized p" "frame_alloc r s = (None, s')"
  then show "s' = s" using frame_alloc_cases [of "fst s" "snd s" r] by (cases s) auto
next
  fix s x assume "case s of (A, p) \<Rightarrow> pmm_ok A p \<and> pmm_initialized p" "x \<in> fst s"
  then show "\<exists>s'. frame_release x s = (True, s') \<and> (case s' of (A, p) \<Rightarrow> pmm_ok A p \<and> pmm_initialized p) \<and>
      fst s' = fst s - {x}"
    using free_frame_owned [of "fst s" "snd s" x] by (cases s) (auto simp: frame_release_def)
qed

lemma free_frame_accepts_unowned:
  assumes ok: "pmm_ok A p" "pmm_initialized p" and f: "f \<in> allocatable" "f \<notin> A" "f \<notin> free_set p"
  shows "\<exists>p1. free_frame (word_of_nat f * page_size) p = (True, p1) \<and> f \<in> free_set p1"
proof -
  note al = allocatable_frame [OF f(1)]
  then have "is_used p (word_of_nat f)" using f(3) by (simp add: is_used_iff free_set_def)
  then show ?thesis using al ok free_set_mark(2) [of p f] by (auto simp: free_frame_def Let_def pmm_ok_def)
qed

section \<open>Initialisation\<close>

lemma pmm_ok_initialized [simp]: "pmm_ok A (p\<lparr>pmm_initialized := b\<rparr>) = pmm_ok A p"
  by (simp add: pmm_ok_def)

lemma pmm_ok_reset:
  "pmm_ok {} \<lparr>frame_bitmap = replicate bitmap_words 0xFFFFFFFF, available_frames = 0,
     allocated_frames = 0, pmm_initialized = False\<rparr>" (is "pmm_ok {} ?p")
  and free_set_reset: "free_set \<lparr>frame_bitmap = replicate bitmap_words 0xFFFFFFFF, available_frames = 0,
     allocated_frames = 0, pmm_initialized = False\<rparr> = {}"
proof -
  have "bit (0xFFFFFFFF :: u32) k" if "k < 32" for k using that full_word [of "0xFFFFFFFF"] by blast
  then show f: "free_set ?p = {}"
    by (auto simp: free_set_def used_def frame_count_def bitmap_words_def simp del: bit_numeral_simps)
  show "pmm_ok {} ?p" unfolding pmm_ok_def f by simp
qed

definition usable_frames :: "bool \<Rightarrow> e820_entry list \<Rightarrow> nat set" where
  "usable_frames magic_ok entries =
    (if magic_ok then {f \<in> allocatable. \<exists>e\<in>set entries. usable_frame e f} else {})"

text \<open>
  Initialisation makes exactly the whole frames of the usable E820 ranges available that lie above the
  identity hole: the counters agree with the bitmap, no frame is allocated, the self-test leaves no trace,
  and the allocator reports itself initialised if and only if at least 16 frames are available. The hole of
  the code ends at \<open>0x00C00000\<close>, while \<open>docs/MEMORY.md\<close> has \<open>0x00800000\<close> as the first frame.
\<close>

lemma pmm_init_frames:
  "pmm_ok {} (fst (pmm_init magic_ok entries)) \<and>
   free_set (fst (pmm_init magic_ok entries)) = usable_frames magic_ok entries \<and>
   (pmm_initialized (fst (pmm_init magic_ok entries)) \<longleftrightarrow>
      self_test_frames \<le> card (usable_frames magic_ok entries)) \<and>
   (''PMM_OK'' \<in> set (snd (pmm_init magic_ok entries)) \<longleftrightarrow> pmm_initialized (fst (pmm_init magic_ok entries)))"
proof -
  define p0 where "p0 = \<lparr>frame_bitmap = replicate bitmap_words 0xFFFFFFFF, available_frames = 0,
    allocated_frames = 0, pmm_initialized = False\<rparr>"
  define p1 where "p1 = (if magic_ok then fold release_entry entries p0 else p0)"
  have p1: "pmm_ok {} p1" "free_set p1 = usable_frames magic_ok entries"
    unfolding p1_def usable_frames_def 
    using fold_release_entry [of p0 entries] pmm_ok_reset free_set_reset by (simp_all add: p0_def [symmetric])
  have av: "unat (available_frames p1) = card (free_set p1)" using p1(1) by (simp add: pmm_ok_def)
  have i: "pmm_init magic_ok entries =
    (if available_frames p1 = 0 then (p1\<lparr>pmm_initialized := False\<rparr>, [''PMM_UNAVAILABLE''])
     else case pmm_stress_test (p1\<lparr>pmm_initialized := True\<rparr>) of (ok, p3) \<Rightarrow>
       if \<not> ok then (p3\<lparr>pmm_initialized := False\<rparr>, [''PMM_SELFTEST_FAILED''])
       else (p3, [''PMM_STRESS_OK'', ''PMM_OK'']))"
    unfolding pmm_init_def p0_def [symmetric] Let_def p1_def [symmetric] by simp
  show ?thesis
  proof (cases "self_test_frames \<le> card (free_set p1)")
    case True
    then have "pmm_stress_test (p1\<lparr>pmm_initialized := True\<rparr>) = (True, p1\<lparr>pmm_initialized := True\<rparr>)"
      using p1(1) by (intro stress_test_restores) simp_all
    moreover have "available_frames p1 \<noteq> 0" using True av by (auto simp: self_test_frames_def)
    ultimately show ?thesis using True p1 by (simp add: i)
  next
    case False
    then have "pmm_stress_test (p1\<lparr>pmm_initialized := True\<rparr>) = (False, p1\<lparr>pmm_initialized := True\<rparr>)"
      using av by (simp add: pmm_stress_test_def word_less_nat_alt self_test_frames_def)
    then show ?thesis using False p1 by (simp add: i)
  qed
qed

text \<open>
  C19: Allocation and release of physical frames. As long as the allocator's own counters are right and
  \<open>A\<close> is the set of frames handed out, \<open>allocate_frame\<close> returns 0 only when no frame is free, and
  otherwise the page-aligned address of the lowest free frame, inside the managed 128 MiB and above the
  eight megabytes of low memory that are never handed out, and never one already handed out; \<open>free_frame\<close>
  of a frame handed out succeeds and makes it available again, a second \<open>free_frame\<close> of it fails, and
  freeing what was just allocated restores the allocator exactly.
\<close>

theorem frame_allocator_correct:
  assumes ok: "pmm_ok A p" "pmm_initialized p"
  shows "(free_set p = {} \<longrightarrow> allocate_frame p = (0, p)) \<and>
    (free_set p \<noteq> {} \<longrightarrow>
      (\<exists>f p1. f = Min (free_set p) \<and> f \<notin> A \<and> allocate_frame p = (word_of_nat (f * 4096), p1) \<and>
        0x800000 \<le> f * 4096 \<and> f * 4096 < 0x8000000 \<and> pmm_ok (insert f A) p1 \<and>
        free_frame (word_of_nat (f * 4096)) p1 = (True, p))) \<and>
    (\<forall>f\<in>A. \<exists>p1. free_frame (word_of_nat (f * 4096)) p = (True, p1) \<and> pmm_ok (A - {f}) p1 \<and>
        free_set p1 = insert f (free_set p) \<and> free_frame (word_of_nat (f * 4096)) p1 = (False, p1))"
proof (intro conjI impI ballI)
  have w: "word_of_nat (f * 4096) = (word_of_nat f * page_size :: u32)" for f by (simp add: page_size_def)
  {
    assume "free_set p = {}"
    then show "allocate_frame p = (0, p)" using allocate_frame_empty ok(1) by blast
  next
    assume ne: "free_set p \<noteq> {}"
    define f where "f = Min (free_set p)"
    obtain p1 where p1: "allocate_frame p = (word_of_nat f * page_size, p1)" "pmm_ok (insert f A) p1"
      "free_set p1 = free_set p - {f}" "f \<in> free_set p" "f \<in> allocatable" "f \<notin> A" "pmm_initialized p1"
      "available_frames p1 = available_frames p - 1" "allocated_frames p1 = allocated_frames p + 1"
      using allocate_frame_lowest [OF ok ne] unfolding f_def by blast
    obtain p2 where p2: "free_frame (word_of_nat f * page_size) p1 = (True, p2)" "pmm_ok (insert f A - {f}) p2"
      "free_set p2 = insert f (free_set p1)" "pmm_initialized p2"
      "available_frames p2 = available_frames p1 + 1" "allocated_frames p2 = allocated_frames p1 - 1"
      using free_frame_owned [OF p1(2,7)] by blast
    have "frame_bitmap p2 = frame_bitmap p"
      using p1(3,4) p2(2,3) ok(1) by (intro free_set_determines_bitmap) (auto simp: pmm_ok_def)
    then have "p2 = p" using p1 p2 ok(2) by (intro pmm.equality) simp_all
    then show "\<exists>f p1. f = Min (free_set p) \<and> f \<notin> A \<and> allocate_frame p = (word_of_nat (f * 4096), p1) \<and>
        0x800000 \<le> f * 4096 \<and> f * 4096 < 0x8000000 \<and> pmm_ok (insert f A) p1 \<and>
        free_frame (word_of_nat (f * 4096)) p1 = (True, p)"
      unfolding w using p1 p2 by (auto simp: f_def [symmetric] allocatable_def)
  next
    fix f assume f: "f \<in> A"
    then have "f < frame_count" using ok(1) allocatable_frame by (auto simp: pmm_ok_def)
    then show "\<exists>p1. free_frame (word_of_nat (f * 4096)) p = (True, p1) \<and> pmm_ok (A - {f}) p1 \<and>
        free_set p1 = insert f (free_set p) \<and> free_frame (word_of_nat (f * 4096)) p1 = (False, p1)"
      unfolding w using free_frame_owned [OF ok f] free_frame_rejects(2) by (metis insertI1)
  }
qed

definition demo_memory :: "e820_entry list" where
  "demo_memory = [\<lparr>e820_base_low = 0xC00000, e820_base_high = 0, e820_length_low = 0x7400000,
    e820_length_high = 0, e820_type = 1\<rparr>]"

lemma demo_memory_frames: "usable_frames True demo_memory = {3072..<32768}"
  by (auto simp: usable_frames_def demo_memory_def usable_frame_def allocatable_def)

theorem frame_allocator_correct_witness:
  "pmm_initialized (fst (pmm_init True demo_memory)) \<and>
    fst (allocate_frame (fst (pmm_init True demo_memory))) = 0xC00000 \<and>
    free_frame 0xC00000 (snd (allocate_frame (fst (pmm_init True demo_memory)))) =
      (True, fst (pmm_init True demo_memory))"
proof -
  let ?p = "fst (pmm_init True demo_memory)"
  have p: "pmm_ok {} ?p" "pmm_initialized ?p" "free_set ?p = {3072..<32768}"
    using pmm_init_frames [of True demo_memory] by (simp_all add: demo_memory_frames self_test_frames_def)
  moreover have "Min {3072..<32768} = (3072 :: nat)" by (rule Min_eqI) auto
  ultimately show ?thesis using frame_allocator_correct [OF p(1,2)] by auto
qed

end
