(* ===== verification/Paging.thy ===== *)
theory Paging
  imports Frame_Allocator
begin

text \<open>
  Address spaces (\<open>kernel/parts/memory.inc\<close>, namespace \<open>paging\<close>): every task has a page table of its own,
  kept in a frame of the frame allocator, for the one megabyte window of user memory; its pages are frames
  too. Physical memory is a function from addresses to bytes, and a page table is the 32-bit words in its
  frame. An \<open>AddressSpace\<close> of the code is named by a number that stands for its address, so that the
  pointer \<open>active_address_space\<close> and the structure it points to can be told apart. Loading the page
  directory register only flushes the processor's cache of translations and has no counterpart.
\<close>

section \<open>The code\<close>

record address_space =
  as_table_physical :: u32
  as_mapped_pages :: u32

record paging =
  pg_pmm :: pmm
  pg_memory :: "nat \<Rightarrow> byte"
  pg_directory :: "u32 list"
  pg_kernel_tables :: "u32 list list"
  pg_legacy_table :: "u32 list"
  pg_legacy_address :: u32
  pg_spaces :: "nat \<Rightarrow> address_space"
  pg_active :: "nat option"

definition pte_present :: u32 where "pte_present = 1"
definition pte_writable :: u32 where "pte_writable = 2"
definition pte_user :: u32 where "pte_user = 4"
definition user_directory_index :: nat where "user_directory_index = 256"
definition process_window_bytes :: u32 where "process_window_bytes = 0x100000"
definition process_page_count :: nat where "process_page_count = 256"
definition legacy_user_physical_base :: u32 where "legacy_user_physical_base = 0x600000"

definition no_space :: address_space where
  "no_space = \<lparr>as_table_physical = 0, as_mapped_pages = 0\<rparr>"

definition page_floor :: "u32 \<Rightarrow> u32" where
  "page_floor v = v AND NOT (page_size - 1)"

definition page_ceiling :: "u32 \<Rightarrow> u32" where
  "page_ceiling v = (v + page_size - 1) AND NOT (page_size - 1)"

text \<open>Memory: bytes copied to an address, a page cleared, and a 32-bit word read and written.\<close>

definition copy_bytes :: "nat \<Rightarrow> bytes \<Rightarrow> (nat \<Rightarrow> byte) \<Rightarrow> nat \<Rightarrow> byte" where
  "copy_bytes a bs m = (\<lambda>x. if a \<le> x \<and> x < a + length bs then bs ! (x - a) else m x)"

definition clear_page :: "nat \<Rightarrow> (nat \<Rightarrow> byte) \<Rightarrow> nat \<Rightarrow> byte" where
  "clear_page a m = (\<lambda>x. if a \<le> x \<and> x < a + 4096 then 0 else m x)"

definition load32 :: "(nat \<Rightarrow> byte) \<Rightarrow> nat \<Rightarrow> u32" where
  "load32 m a = le_word (map m [a..<a + 4])"

definition store32 :: "nat \<Rightarrow> u32 \<Rightarrow> (nat \<Rightarrow> byte) \<Rightarrow> nat \<Rightarrow> byte" where
  "store32 a v m = copy_bytes a (le_bytes 4 v) m"

definition install_user_table :: "u32 \<Rightarrow> paging \<Rightarrow> paging" where
  "install_user_table table_physical st =
    st\<lparr>pg_directory := (pg_directory st)[user_directory_index :=
        (if table_physical \<noteq> 0 then table_physical OR pte_present OR pte_writable OR pte_user else 0)]\<rparr>"

definition address_space_create :: "nat \<Rightarrow> paging \<Rightarrow> bool \<times> paging" where
  "address_space_create space st =
    (if as_table_physical (pg_spaces st space) \<noteq> 0 \<or> \<not> pmm_initialized (pg_pmm st) then (False, st)
     else case allocate_frame (pg_pmm st) of (table_frame, p) \<Rightarrow>
       if table_frame = 0 then (False, st\<lparr>pg_pmm := p\<rparr>)
       else (True, st\<lparr>pg_pmm := p, pg_memory := clear_page (unat table_frame) (pg_memory st),
              pg_spaces := (pg_spaces st)(space := \<lparr>as_table_physical = table_frame, as_mapped_pages = 0\<rparr>)\<rparr>))"

text \<open>A table is the legacy table, a static array of the kernel, or the frame of an address space.\<close>

definition space_entry :: "nat \<Rightarrow> paging \<Rightarrow> nat \<Rightarrow> u32" where
  "space_entry space st page = load32 (pg_memory st) (unat (as_table_physical (pg_spaces st space)) + 4 * page)"

definition set_space_entry :: "nat \<Rightarrow> nat \<Rightarrow> u32 \<Rightarrow> paging \<Rightarrow> paging" where
  "set_space_entry space page entry st =
    st\<lparr>pg_memory := store32 (unat (as_table_physical (pg_spaces st space)) + 4 * page) entry (pg_memory st)\<rparr>"

definition clear_space_page :: "nat \<Rightarrow> nat \<Rightarrow> paging \<Rightarrow> paging" where
  "clear_space_page space page st =
    (let entry = space_entry space st page in
     if entry AND pte_present = 0 then st
     else
       let frame = entry AND NOT (page_size - 1);
           st = set_space_entry space page 0 st;
           st = st\<lparr>pg_memory := clear_page (unat frame) (pg_memory st)\<rparr>
       in st\<lparr>pg_pmm := snd (free_frame frame (pg_pmm st))\<rparr>)"

definition address_space_clear :: "nat \<Rightarrow> paging \<Rightarrow> paging" where
  "address_space_clear space st =
    (if as_table_physical (pg_spaces st space) = 0 then st
     else
       let st = fold (clear_space_page space) [0..<process_page_count] st
       in st\<lparr>pg_spaces := (pg_spaces st)(space := (pg_spaces st space)\<lparr>as_mapped_pages := 0\<rparr>)\<rparr>)"

definition address_space_destroy :: "nat \<Rightarrow> paging \<Rightarrow> paging" where
  "address_space_destroy space st =
    (if as_table_physical (pg_spaces st space) = 0 then st
     else
       let st = (if pg_active st = Some space
                 then install_user_table (pg_legacy_address st) (st\<lparr>pg_active := None\<rparr>) else st);
           st = address_space_clear space st;
           table_frame = as_table_physical (pg_spaces st space)
       in st\<lparr>pg_memory := clear_page (unat table_frame) (pg_memory st),
             pg_spaces := (pg_spaces st)(space := no_space),
             pg_pmm := snd (free_frame table_frame (pg_pmm st))\<rparr>)"

definition address_space_activate :: "nat option \<Rightarrow> paging \<Rightarrow> bool \<times> paging" where
  "address_space_activate space st =
    (case space of
       None \<Rightarrow> (True, install_user_table (pg_legacy_address st) (st\<lparr>pg_active := None\<rparr>))
     | Some s \<Rightarrow>
         if as_table_physical (pg_spaces st s) = 0 then (False, st)
         else (True, install_user_table (as_table_physical (pg_spaces st s)) (st\<lparr>pg_active := Some s\<rparr>)))"

definition user_entry :: "paging \<Rightarrow> nat \<Rightarrow> u32" where
  "user_entry st page = (case pg_active st of None \<Rightarrow> pg_legacy_table st ! page | Some s \<Rightarrow> space_entry s st page)"

definition set_user_entry :: "nat \<Rightarrow> u32 \<Rightarrow> paging \<Rightarrow> paging" where
  "set_user_entry page entry st =
    (case pg_active st of
       None \<Rightarrow> st\<lparr>pg_legacy_table := (pg_legacy_table st)[page := entry]\<rparr>
     | Some s \<Rightarrow> set_space_entry s page entry st)"

definition has_user_table :: "paging \<Rightarrow> bool" where
  "has_user_table st \<longleftrightarrow> (case pg_active st of None \<Rightarrow> True | Some s \<Rightarrow> as_table_physical (pg_spaces st s) \<noteq> 0)"

definition clear_user :: "paging \<Rightarrow> paging" where
  "clear_user st =
    (case pg_active st of
       Some s \<Rightarrow> address_space_clear s st
     | None \<Rightarrow> st\<lparr>pg_legacy_table := replicate 1024 0\<rparr>)"

definition bad_window :: "u32 \<Rightarrow> u32 \<Rightarrow> bool" where
  "bad_window offset len \<longleftrightarrow> process_window_bytes \<le> offset \<or> process_window_bytes - offset < len"

definition window_pages :: "u32 \<Rightarrow> u32 \<Rightarrow> nat list" where
  "window_pages offset len = [unat (page_floor offset div page_size)..<unat (page_ceiling (offset + len) div page_size)]"

definition grant_writable :: "bool \<Rightarrow> nat \<Rightarrow> paging \<Rightarrow> paging" where
  "grant_writable writing page st =
    (if writing then set_user_entry page (user_entry st page OR pte_writable) st else st)"

fun map_pages :: "bool \<Rightarrow> nat list \<Rightarrow> paging \<Rightarrow> bool \<times> paging" where
  "map_pages writing [] st = (True, st)"
| "map_pages writing (page # pages) st =
    (if user_entry st page AND pte_present \<noteq> 0 then map_pages writing pages (grant_writable writing page st)
     else case pg_active st of
       Some s \<Rightarrow>
         (case allocate_frame (pg_pmm st) of (frame, p) \<Rightarrow>
            if frame = 0 then (False, st\<lparr>pg_pmm := p\<rparr>)
            else
              let space = pg_spaces st s;
                  st = st\<lparr>pg_pmm := p, pg_memory := clear_page (unat frame) (pg_memory st),
                    pg_spaces := (pg_spaces st)(s := space\<lparr>as_mapped_pages := as_mapped_pages space + 1\<rparr>)\<rparr>;
                  st = set_user_entry page (frame OR pte_present OR pte_user) st
              in map_pages writing pages (grant_writable writing page st))
     | None \<Rightarrow>
         let frame = legacy_user_physical_base + word_of_nat page * page_size;
             st = set_user_entry page (frame OR pte_present OR pte_user) st
         in map_pages writing pages (grant_writable writing page st))"

definition map_user :: "u32 \<Rightarrow> u32 \<Rightarrow> bool \<Rightarrow> paging \<Rightarrow> bool \<times> paging" where
  "map_user offset len writing st =
    (if len = 0 \<or> bad_window offset len \<or> \<not> has_user_table st then (False, st)
     else map_pages writing (window_pages offset len) st)"

fun protect_pages :: "bool \<Rightarrow> nat list \<Rightarrow> paging \<Rightarrow> bool \<times> paging" where
  "protect_pages writing [] st = (True, st)"
| "protect_pages writing (page # pages) st =
    (if user_entry st page AND pte_present = 0 then (False, st)
     else protect_pages writing pages
       (set_user_entry page (if writing then user_entry st page OR pte_writable
                             else user_entry st page AND NOT pte_writable) st))"

definition protect_user :: "u32 \<Rightarrow> u32 \<Rightarrow> bool \<Rightarrow> paging \<Rightarrow> bool \<times> paging" where
  "protect_user offset len writing st =
    (if len = 0 \<or> bad_window offset len \<or> \<not> has_user_table st then (False, st)
     else protect_pages writing (window_pages offset len) st)"

definition entry_allows :: "bool \<Rightarrow> u32 \<Rightarrow> bool" where
  "entry_allows writing entry \<longleftrightarrow>
    \<not> (entry AND pte_present = 0 \<or> entry AND pte_user = 0 \<or> (writing \<and> entry AND pte_writable = 0))"

definition user_access :: "u32 \<Rightarrow> u32 \<Rightarrow> bool \<Rightarrow> paging \<Rightarrow> bool" where
  "user_access offset len writing st =
    (if len = 0 then offset \<le> process_window_bytes
     else if bad_window offset len \<or> \<not> has_user_table st then False
     else list_all (\<lambda>page. entry_allows writing (user_entry st page)) (window_pages offset len))"

definition address_space_user_access :: "nat \<Rightarrow> u32 \<Rightarrow> u32 \<Rightarrow> bool \<Rightarrow> paging \<Rightarrow> bool" where
  "address_space_user_access space offset len writing st =
    (if as_table_physical (pg_spaces st space) = 0 then False
     else if len = 0 then offset \<le> process_window_bytes
     else if bad_window offset len then False
     else list_all (\<lambda>page. entry_allows writing (space_entry space st page)) (window_pages offset len))"

text \<open>The loop of \<open>address_space_write\<close> copies up to the end of a page at a time.\<close>

function write_chunks :: "nat \<Rightarrow> nat \<Rightarrow> bytes \<Rightarrow> paging \<Rightarrow> paging" where
  "write_chunks space current source st =
    (if source = [] then st
     else
       let page = current div 4096;
           within = current mod 4096;
           chunk = min (4096 - within) (length source);
           frame = unat (space_entry space st page AND NOT (page_size - 1))
       in write_chunks space (current + chunk) (drop chunk source)
            (st\<lparr>pg_memory := copy_bytes (frame + within) (take chunk source) (pg_memory st)\<rparr>))"
  by pat_completeness auto
termination
proof (relation "measure (\<lambda>(space, current, source, st). length source)", goal_cases)
  case (2 space current source st page within chunk frame)
  then show ?case by (cases source) auto
qed simp

definition address_space_write :: "nat \<Rightarrow> u32 \<Rightarrow> bytes option \<Rightarrow> u32 \<Rightarrow> paging \<Rightarrow> bool \<times> paging" where
  "address_space_write space offset source len st =
    (if source = None \<and> len \<noteq> 0 \<or> \<not> address_space_user_access space offset len True st then (False, st)
     else (True, write_chunks space (unat offset) (take (unat len) (case source of None \<Rightarrow> [] | Some input \<Rightarrow> input)) st))"

definition writable_at :: "u32 \<Rightarrow> paging \<Rightarrow> bool" where
  "writable_at offset st \<longleftrightarrow> has_user_table st \<and> offset < process_window_bytes \<and>
    user_entry st (unat (offset div page_size)) AND (pte_present OR pte_writable OR pte_user) =
      pte_present OR pte_writable OR pte_user"

definition user_mapped_bytes :: "paging \<Rightarrow> u32" where
  "user_mapped_bytes st =
    (if \<not> has_user_table st then 0
     else fold (\<lambda>i pages. if user_entry st i AND pte_present \<noteq> 0 then pages + 1 else pages) [0..<process_page_count] 0 * page_size)"

text \<open>
  Initialisation. The addresses of the static tables are arguments; setting the paging bits of the
  processor's control registers has no counterpart.
\<close>

definition table_span :: nat where "table_span = 4 * 1024 * 1024"
definition kernel_table_count :: nat where "kernel_table_count = unat managed_limit div table_span"
definition supervisor_hole_directory_index :: nat where "supervisor_hole_directory_index = 0x800000 div table_span"
definition task_stack_count :: nat where "task_stack_count = 8"
definition task_stack_stride :: nat where "task_stack_stride = 0x1000 + 0x4000"
definition task_stack_region_start :: nat where "task_stack_region_start = 0x500000"

definition identity_table :: "nat \<Rightarrow> u32 list" where
  "identity_table table = map (\<lambda>page. word_of_nat (table * table_span + page * 4096) OR pte_present OR pte_writable) [0..<1024]"

definition unmap_guard :: "nat \<Rightarrow> u32 list list \<Rightarrow> u32 list list" where
  "unmap_guard task tables =
    (let guard = task_stack_region_start + task * task_stack_stride;
         table = guard div table_span
     in tables[table := (tables ! table)[guard mod table_span div 4096 := 0]])"

definition paging_init :: "(nat \<Rightarrow> u32) \<Rightarrow> paging \<Rightarrow> paging" where
  "paging_init kernel_table_address st =
    (let directory = map (\<lambda>i. if i < kernel_table_count \<and> i \<noteq> supervisor_hole_directory_index
                              then kernel_table_address i OR pte_present OR pte_writable else 0) [0..<1024]
     in st\<lparr>pg_directory := directory[user_directory_index := pg_legacy_address st OR pte_present OR pte_writable OR pte_user],
           pg_kernel_tables := fold unmap_guard [0..<task_stack_count] (map identity_table [0..<kernel_table_count]),
           pg_legacy_table := replicate 1024 0\<rparr>)"

end
