(* ===== verification/Paging_Correct.thy ===== *)
theory Paging_Correct
  imports Paging
begin

text \<open>
  Isolation of address spaces. The state of \<open>Paging\<close> represents, for every space in use, a table frame and
  a map from pages to frames with their write permission; the frames of all spaces are pairwise
  different and are exactly those the frame allocator has handed out. From this follow what the kernel
  relies on: no operation on one space changes what another one sees, a page that is newly mapped reads
  as zeros, the kernel's own memory is not touched, and destroying a space gives all its frames back,
  cleared.
\<close>

section \<open>Memory\<close>

lemma load32_cong: "(\<And>x. a \<le> x \<Longrightarrow> x < a + 4 \<Longrightarrow> m x = m' x) \<Longrightarrow> load32 m a = load32 m' a"
  unfolding load32_def by (intro arg_cong [of _ _ le_word] map_cong) auto

lemma load32_store32: "load32 (store32 a v m) a = v"
proof -
  have "map (store32 a v m) [a..<a + 4] = le_bytes 4 v"
    by (rule nth_equalityI) (simp_all add: store32_def copy_bytes_def)
  then show ?thesis by (simp add: load32_def)
qed

lemma load32_store32_other: "b + 4 \<le> a \<or> a + 4 \<le> b \<Longrightarrow> load32 (store32 a v m) b = load32 m b"
  by (rule load32_cong) (auto simp: store32_def copy_bytes_def)

lemma load32_clear_page: "a \<le> b \<Longrightarrow> b + 4 \<le> a + 4096 \<Longrightarrow> load32 (clear_page a m) b = 0"
proof -
  assume "a \<le> b" "b + 4 \<le> a + 4096"
  then have "map (clear_page a m) [b..<b + 4] = replicate 4 0"
    by (intro nth_equalityI) (simp_all add: clear_page_def)
  then show ?thesis by (simp add: load32_def numeral_eq_Suc)
qed

text \<open>What changes only other frames leaves a frame as it is.\<close>

lemma frame_of_address: "f * 4096 \<le> x \<Longrightarrow> x < f * 4096 + 4096 \<Longrightarrow> x div 4096 = (f :: nat)"
  by (intro div_nat_eqI) simp_all

lemma clear_page_other: "x div 4096 \<noteq> f \<Longrightarrow> clear_page (f * 4096) m x = m x"
  using frame_of_address [of f x] by (auto simp: clear_page_def)

lemma clear_page_same: "x div 4096 = f \<Longrightarrow> clear_page (f * 4096) m x = 0"
  using div_mult_mod_eq [of x 4096] mod_less_divisor [of 4096 x] by (auto simp: clear_page_def)

lemma copy_bytes_other:
  "x div 4096 \<noteq> f \<Longrightarrow> d + length bs \<le> 4096 \<Longrightarrow> copy_bytes (f * 4096 + d) bs m x = m x"
  using frame_of_address [of f x] by (auto simp: copy_bytes_def)

lemma store32_other: "x div 4096 \<noteq> f \<Longrightarrow> p < 1024 \<Longrightarrow> store32 (f * 4096 + 4 * p) v m x = m x"
  unfolding store32_def by (rule copy_bytes_other) simp_all

section \<open>Page table entries\<close>

definition pte :: "nat \<Rightarrow> bool \<Rightarrow> u32" where
  "pte f writing = word_of_nat f * page_size OR pte_present OR pte_user OR (if writing then pte_writable else 0)"

definition pte_of :: "(nat \<times> bool) option \<Rightarrow> u32" where
  "pte_of e = (case e of None \<Rightarrow> 0 | Some (f, writing) \<Rightarrow> pte f writing)"

lemma frame_shift: "(word_of_nat f * page_size :: u32) = push_bit 12 (word_of_nat f)"
  by (simp add: page_size_def push_bit_eq_mult mult.commute)

lemma flag_bits: "bit pte_present n \<longleftrightarrow> n = 0" "bit pte_writable n \<longleftrightarrow> n = 1" "bit pte_user n \<longleftrightarrow> n = 2"
proof -
  have p: "bit (push_bit k (1 :: u32)) n \<longleftrightarrow> n = k" if "k < 32" for k
    using that unfolding bit_push_bit_iff by (auto simp: bit_1_iff)
  have f: "pte_present = push_bit 0 1" "pte_writable = push_bit 1 1" "pte_user = push_bit 2 1"
    by (simp_all add: pte_present_def pte_writable_def pte_user_def)
  show "bit pte_present n \<longleftrightarrow> n = 0" "bit pte_writable n \<longleftrightarrow> n = 1" "bit pte_user n \<longleftrightarrow> n = 2"
    unfolding f using p [of 0] p [of 1] p [of 2] by simp_all
qed

lemma flag_clear: "(v AND pte_present = 0) = (\<not> bit v 0)" "(v AND pte_writable = 0) = (\<not> bit v 1)" "(v AND pte_user = 0) = (\<not> bit v 2)"
proof -
  have f: "pte_present = push_bit 0 1" "pte_writable = push_bit 1 1" "pte_user = push_bit 2 1"
    by (simp_all add: pte_present_def pte_writable_def pte_user_def)
  show "(v AND pte_present = 0) = (\<not> bit v 0)" "(v AND pte_writable = 0) = (\<not> bit v 1)" "(v AND pte_user = 0) = (\<not> bit v 2)"
    unfolding f using and_push_bit_one [of v 0] and_push_bit_one [of v 1] and_push_bit_one [of v 2] by blast+
qed

lemma bit_pte: "bit (pte f w) n \<longleftrightarrow> (if n < 12 then n = 0 \<or> n = 2 \<or> (n = 1 \<and> w) else bit (word_of_nat f * page_size :: u32) n)"
  unfolding pte_def frame_shift by (auto simp: bit_or_iff bit_push_bit_iff flag_bits)

lemma pte_flags [simp]:
  "(pte f w AND pte_present = 0) = False" "(pte f w AND pte_user = 0) = False" "(pte f w AND pte_writable = 0) = (\<not> w)"
  unfolding flag_clear by (simp_all add: bit_pte)

lemma pte_grant: "pte f w OR pte_writable = pte f True"
  by (rule bit_eqI) (auto simp: bit_or_iff bit_pte flag_bits)

lemma pte_revoke: "pte f w AND NOT pte_writable = pte f False"
  by (rule bit_eqI) (auto simp: bit_and_iff bit_not_iff bit_pte flag_bits)

lemma pte_new: "word_of_nat f * page_size OR pte_present OR pte_user = pte f False"
  by (simp add: pte_def)

lemma pte_frame: "f < frame_count \<Longrightarrow> pte f w AND NOT (page_size - 1) = word_of_nat f * page_size"
proof -
  have "page_size - 1 = mask 12" by (simp add: page_size_def mask_eq_exp_minus_1)
  moreover have "pte f w AND NOT (mask 12) = word_of_nat f * page_size"
    by (rule bit_eqI) (auto simp: bit_and_iff bit_not_iff bit_mask_iff bit_pte frame_shift bit_push_bit_iff)
  ultimately show ?thesis by simp
qed

section \<open>What a state represents\<close>

type_synonym page_map = "nat \<Rightarrow> (nat \<times> bool) option"

definition table_holds :: "(nat \<Rightarrow> byte) \<Rightarrow> nat \<Rightarrow> page_map \<Rightarrow> bool" where
  "table_holds m t tbl \<longleftrightarrow> (\<forall>p<1024. load32 m (t * 4096 + 4 * p) = pte_of (tbl p))"

lemma table_holds_cong:
  assumes "table_holds m t tbl" "\<And>x. x div 4096 = t \<Longrightarrow> m' x = m x"
  shows "table_holds m' t tbl"
  unfolding table_holds_def
proof (intro allI impI)
  fix p :: nat assume p: "p < 1024"
  have "load32 m' (t * 4096 + 4 * p) = load32 m (t * 4096 + 4 * p)"
    by (rule load32_cong, rule assms(2), rule frame_of_address) (use p in linarith)+
  then show "load32 m' (t * 4096 + 4 * p) = pte_of (tbl p)" using assms(1) p by (simp add: table_holds_def)
qed

lemma table_holds_clear: "table_holds (clear_page (t * 4096) m) t (\<lambda>_. None)"
  by (simp add: table_holds_def load32_clear_page pte_of_def)

lemma table_holds_store:
  assumes "table_holds m t tbl" "p < 1024"
  shows "table_holds (store32 (t * 4096 + 4 * p) (pte_of e) m) t (tbl(p := e))"
  unfolding table_holds_def
proof (intro allI impI)
  fix q :: nat assume q: "q < 1024"
  show "load32 (store32 (t * 4096 + 4 * p) (pte_of e) m) (t * 4096 + 4 * q) = pte_of ((tbl(p := e)) q)"
  proof (cases "q = p")
    case False
    then have "t * 4096 + 4 * q + 4 \<le> t * 4096 + 4 * p \<or> t * 4096 + 4 * p + 4 \<le> t * 4096 + 4 * q" by linarith
    from load32_store32_other [OF this] show ?thesis using assms False q by (simp add: table_holds_def)
  qed (simp add: load32_store32)
qed

definition page_frames :: "page_map \<Rightarrow> nat set" where
  "page_frames tbl = {f. \<exists>p w. tbl p = Some (f, w)}"

definition owned :: "(nat \<Rightarrow> (nat \<times> page_map) option) \<Rightarrow> nat \<Rightarrow> nat set" where
  "owned ab s = (case ab s of None \<Rightarrow> {} | Some (t, tbl) \<Rightarrow> insert t (page_frames tbl))"

definition map_ok :: "nat \<Rightarrow> page_map \<Rightarrow> bool" where
  "map_ok t tbl \<longleftrightarrow> dom tbl \<subseteq> {..<256} \<and> t \<notin> page_frames tbl \<and>
    (\<forall>p q f w v. tbl p = Some (f, w) \<longrightarrow> tbl q = Some (f, v) \<longrightarrow> p = q)"

definition space_ok :: "paging \<Rightarrow> nat \<Rightarrow> (nat \<times> page_map) option \<Rightarrow> bool" where
  "space_ok st s e \<longleftrightarrow> (case e of
      None \<Rightarrow> as_table_physical (pg_spaces st s) = 0
    | Some (t, tbl) \<Rightarrow> as_table_physical (pg_spaces st s) = word_of_nat t * page_size \<and> map_ok t tbl \<and>
        table_holds (pg_memory st) t tbl)"

definition paging_inv :: "paging \<Rightarrow> (nat \<Rightarrow> (nat \<times> page_map) option) \<Rightarrow> bool" where
  "paging_inv st ab \<longleftrightarrow> pmm_ok (\<Union>s. owned ab s) (pg_pmm st) \<and> pmm_initialized (pg_pmm st) \<and>
    (\<forall>s. space_ok st s (ab s)) \<and> (\<forall>s r. s \<noteq> r \<longrightarrow> owned ab s \<inter> owned ab r = {})"

text \<open>The frames of all spaces but one.\<close>

definition others :: "(nat \<Rightarrow> (nat \<times> page_map) option) \<Rightarrow> nat \<Rightarrow> nat set" where
  "others ab s = (\<Union>r\<in>- {s}. owned ab r)"

lemma owned_all: "(\<Union>r. owned ab r) = owned ab s \<union> others ab s"
  by (auto simp: others_def)

lemma others_upd [simp]: "others (ab(s := e)) s = others ab s"
  by (auto simp: others_def owned_def)

lemma owned_upd [simp]: "owned (ab(s := e)) s = (case e of None \<Rightarrow> {} | Some (t, tbl) \<Rightarrow> insert t (page_frames tbl))"
  "r \<noteq> s \<Longrightarrow> owned (ab(s := e)) r = owned ab r"
  by (simp_all add: owned_def)

lemma owned_frame: "paging_inv st ab \<Longrightarrow> f \<in> owned ab s \<Longrightarrow> f < frame_count \<and> f \<in> allocatable"
proof -
  assume inv: "paging_inv st ab" and f: "f \<in> owned ab s"
  have "(\<Union>s. owned ab s) \<subseteq> allocatable" using inv by (simp add: paging_inv_def pmm_ok_def)
  then have "f \<in> allocatable" using f by blast
  then show ?thesis using allocatable_frame by blast
qed

lemma owned_disjoint: "paging_inv st ab \<Longrightarrow> owned ab s \<inter> others ab s = {}"
  by (auto simp: paging_inv_def others_def)

text \<open>A step that concerns one space.\<close>

lemma paging_inv_update:
  assumes inv: "paging_inv st ab"
    and pm: "pmm_ok (owned (ab(s := e)) s \<union> others ab s) (pg_pmm st')" "pmm_initialized (pg_pmm st')"
    and sp: "\<And>r. r \<noteq> s \<Longrightarrow> as_table_physical (pg_spaces st' r) = as_table_physical (pg_spaces st r)"
    and mem: "\<And>x. x div 4096 \<in> others ab s \<Longrightarrow> pg_memory st' x = pg_memory st x"
    and own: "owned (ab(s := e)) s \<inter> others ab s = {}" and ok: "space_ok st' s e"
  shows "paging_inv st' (ab(s := e))"
proof -
  have "space_ok st' r (ab r)" if r: "r \<noteq> s" for r
  proof -
    have "space_ok st r (ab r)" using inv by (simp add: paging_inv_def)
    moreover have "table_holds (pg_memory st') t tbl" if "ab r = Some (t, tbl)" "table_holds (pg_memory st) t tbl" for t tbl
    proof (rule table_holds_cong [OF that(2)], rule mem)
      fix x :: nat assume "x div 4096 = t"
      then have "x div 4096 \<in> owned ab r" using that(1) by (simp add: owned_def)
      then show "x div 4096 \<in> others ab s" using r by (auto simp: others_def)
    qed
    ultimately show ?thesis using sp [OF r] by (auto simp: space_ok_def split: option.splits)
  qed
  moreover have "owned (ab(s := e)) a \<inter> owned (ab(s := e)) b = {}" if ab: "a \<noteq> b" for a b
  proof -
    have o: "owned ab r \<subseteq> others ab s" if "r \<noteq> s" for r using that by (auto simp: others_def)
    show ?thesis
    proof (cases "a = s \<or> b = s")
      case True
      then consider "a = s" "b \<noteq> s" | "b = s" "a \<noteq> s" using ab by blast
      then show ?thesis
      proof cases
        case 1
        then show ?thesis using own o [of b] owned_upd(2) [of b s ab e] by (simp only:) blast
      next
        case 2
        then show ?thesis using own o [of a] owned_upd(2) [of a s ab e] by (simp only:) blast
      qed
    next
      case False
      then show ?thesis using inv ab by (simp add: paging_inv_def)
    qed
  qed
  ultimately show ?thesis
    using pm ok owned_all [of "ab(s := e)" s] by (simp add: paging_inv_def)
qed

lemma space_tableD:
  assumes inv: "paging_inv st ab" and s: "ab s = Some (t, tbl)"
  shows "t < frame_count" "t \<in> allocatable" "as_table_physical (pg_spaces st s) = word_of_nat t * page_size"
    "unat (as_table_physical (pg_spaces st s)) = t * 4096" "as_table_physical (pg_spaces st s) \<noteq> 0"
    "map_ok t tbl" "table_holds (pg_memory st) t tbl" "p < 1024 \<Longrightarrow> space_entry s st p = pte_of (tbl p)"
proof -
  have sp: "space_ok st s (ab s)" using inv by (simp add: paging_inv_def)
  show t: "t < frame_count" "t \<in> allocatable" using owned_frame [OF inv, of t s] s by (simp_all add: owned_def)
  show a: "as_table_physical (pg_spaces st s) = word_of_nat t * page_size" "map_ok t tbl" "table_holds (pg_memory st) t tbl"
    using sp s by (simp_all add: space_ok_def)
  then show u: "unat (as_table_physical (pg_spaces st s)) = t * 4096" using page_frame(1) [OF t(1)] by simp
  show "as_table_physical (pg_spaces st s) \<noteq> 0" using a(1) allocatable_frame [OF t(2)] by simp
  show "p < 1024 \<Longrightarrow> space_entry s st p = pte_of (tbl p)" using a(3) u by (simp add: space_entry_def table_holds_def)
qed

lemma page_frameD:
  assumes inv: "paging_inv st ab" and s: "ab s = Some (t, tbl)" and p: "tbl p = Some (f, w)"
  shows "f < frame_count" "f \<in> allocatable" "f \<noteq> t" "p < 256" "f \<in> owned ab s"
proof -
  have o: "f \<in> owned ab s" using s p by (auto simp: owned_def page_frames_def)
  then show "f < frame_count" "f \<in> allocatable" "f \<in> owned ab s" using owned_frame [OF inv] by blast+
  show "f \<noteq> t" "p < 256" using space_tableD(6) [OF inv s] p by (auto simp: map_ok_def page_frames_def)
qed

lemma no_space_iff: "paging_inv st ab \<Longrightarrow> as_table_physical (pg_spaces st s) = 0 \<longleftrightarrow> ab s = None"
  using space_tableD(5) [of st ab s] by (cases "ab s") (auto simp: paging_inv_def space_ok_def dest: spec [of _ s])

section \<open>Steps on one space\<close>

text \<open>The frames there are: free or owned by a space.\<close>

definition pool :: "paging \<Rightarrow> (nat \<Rightarrow> (nat \<times> page_map) option) \<Rightarrow> nat set" where
  "pool st ab = free_set (pg_pmm st) \<union> (\<Union>r. owned ab r)"

definition isolates :: "nat \<Rightarrow> paging \<Rightarrow> (nat \<Rightarrow> (nat \<times> page_map) option) \<Rightarrow> paging \<Rightarrow> (nat \<Rightarrow> (nat \<times> page_map) option) \<Rightarrow> bool" where
  "isolates s st ab st' ab' \<longleftrightarrow> paging_inv st' ab' \<and>
    (\<forall>r. r \<noteq> s \<longrightarrow> ab' r = ab r \<and> pg_spaces st' r = pg_spaces st r) \<and>
    (\<forall>x. x div 4096 \<in> others ab s \<or> x div 4096 \<notin> allocatable \<longrightarrow> pg_memory st' x = pg_memory st x) \<and>
    pg_legacy_table st' = pg_legacy_table st \<and> pool st' ab' = pool st ab"

lemma isolates_refl: "paging_inv st ab \<Longrightarrow> isolates s st ab st ab"
  by (simp add: isolates_def)

lemma isolates_others: "isolates s st ab st' ab' \<Longrightarrow> others ab' s = others ab s"
  by (auto simp: isolates_def others_def owned_def)

lemma isolates_trans: "isolates s st ab st1 ab1 \<Longrightarrow> isolates s st1 ab1 st2 ab2 \<Longrightarrow> isolates s st ab st2 ab2"
  using isolates_others [of s st ab st1 ab1] by (auto simp: isolates_def)

lemma isolatesI:
  assumes inv: "paging_inv st ab"
    and pm: "pmm_ok (owned (ab(s := e)) s \<union> others ab s) (pg_pmm st')" "pmm_initialized (pg_pmm st')"
    and own: "owned (ab(s := e)) s \<inter> others ab s = {}" and ok: "space_ok st' s e"
    and sp: "\<And>r. r \<noteq> s \<Longrightarrow> pg_spaces st' r = pg_spaces st r"
    and mem: "\<And>x. x div 4096 \<in> others ab s \<or> x div 4096 \<notin> allocatable \<Longrightarrow> pg_memory st' x = pg_memory st x"
    and rest: "pg_legacy_table st' = pg_legacy_table st"
    and free: "free_set (pg_pmm st') \<union> owned (ab(s := e)) s = free_set (pg_pmm st) \<union> owned ab s"
  shows "isolates s st ab st' (ab(s := e))"
proof -
  have "pool st' (ab(s := e)) = pool st ab"
    unfolding pool_def owned_all [of "ab(s := e)" s] owned_all [of ab s] others_upd Un_assoc [symmetric] free ..
  note rest = rest this
  have "paging_inv st' (ab(s := e))"
    by (rule paging_inv_update [OF inv pm _ _ own ok]) (use sp mem in auto)
  then show ?thesis using sp mem rest by (simp add: isolates_def)
qed

lemma allocate_frame_cases:
  assumes "paging_inv st ab"
  obtains "allocate_frame (pg_pmm st) = (0, pg_pmm st)"
  | f pm where "allocate_frame (pg_pmm st) = (word_of_nat f * page_size, pm)" "f \<notin> (\<Union>r. owned ab r)" "f \<in> allocatable"
      "f < frame_count" "(word_of_nat f * page_size :: u32) \<noteq> 0" "pmm_ok (insert f (\<Union>r. owned ab r)) pm" "pmm_initialized pm"
      "insert f (free_set pm) = free_set (pg_pmm st)"
proof -
  have ok: "pmm_ok (\<Union>r. owned ab r) (pg_pmm st)" "pmm_initialized (pg_pmm st)" using assms by (simp_all add: paging_inv_def)
  show thesis
  proof (cases "free_set (pg_pmm st) = {}")
    case True
    then show thesis using that(1) allocate_frame_empty [OF ok(1)] by simp
  next
    case False
    define f where "f = Min (free_set (pg_pmm st))"
    obtain pm where pm: "allocate_frame (pg_pmm st) = (word_of_nat f * page_size, pm)" "pmm_ok (insert f (\<Union>r. owned ab r)) pm"
        "free_set pm = free_set (pg_pmm st) - {f}" "f \<in> free_set (pg_pmm st)" "f \<in> allocatable" "f \<notin> (\<Union>r. owned ab r)" "pmm_initialized pm"
      using allocate_frame_lowest [OF ok False] unfolding f_def by blast
    then have "insert f (free_set pm) = free_set (pg_pmm st)" by blast
    then show thesis using that(2) [OF pm(1,6,5) _ _ pm(2,7)] allocatable_frame [OF pm(5)] by blast
  qed
qed

lemma create_isolates:
  assumes inv: "paging_inv st ab" and c: "address_space_create s st = (ok, st')"
  shows "if ok then ab s = None \<and> (\<exists>t. isolates s st ab st' (ab(s \<mapsto> (t, \<lambda>_. None)))) else st' = st"
proof (cases "ab s = None")
  case False
  then show ?thesis using c no_space_iff [OF inv, of s] by (simp add: address_space_create_def)
next
  case True
  then have z: "as_table_physical (pg_spaces st s) = 0" "pmm_initialized (pg_pmm st)"
    using no_space_iff [OF inv, of s] inv by (simp_all add: paging_inv_def)
  show ?thesis
  proof (cases rule: allocate_frame_cases [OF inv])
    case 1
    then show ?thesis using c z by (simp add: address_space_create_def)
  next
    case (2 f pm)
    have u: "unat (word_of_nat f * page_size) = f * 4096" using page_frame(1) [OF 2(4)] .
    have st': "ok" "st' = st\<lparr>pg_pmm := pm, pg_memory := clear_page (f * 4096) (pg_memory st),
        pg_spaces := (pg_spaces st)(s := \<lparr>as_table_physical = word_of_nat f * page_size, as_mapped_pages = 0\<rparr>)\<rparr>"
      using c z 2(1,5) by (simp_all add: address_space_create_def u)
    have o: "owned ab s = {}" using True by (simp add: owned_def)
    have f: "f \<notin> others ab s" using 2(2) by (auto simp: others_def)
    have "isolates s st ab st' (ab(s := Some (f, \<lambda>_. None)))"
    proof (rule isolatesI [OF inv])
      show "pmm_ok (owned (ab(s := Some (f, \<lambda>_. None))) s \<union> others ab s) (pg_pmm st')"
        using 2(6) o owned_all [of ab s] by (simp add: st'(2) page_frames_def)
      show "space_ok st' s (Some (f, \<lambda>_. None))"
        using table_holds_clear [of f] by (simp add: st'(2) space_ok_def map_ok_def page_frames_def)
      show "pg_memory st' x = pg_memory st x" if "x div 4096 \<in> others ab s \<or> x div 4096 \<notin> allocatable" for x
      proof -
        have "x div 4096 \<noteq> f" using that f 2(3) by blast
        then show ?thesis by (simp add: st'(2) clear_page_other)
      qed
    qed (use 2(7,8) f o in \<open>auto simp: st'(2) page_frames_def\<close>)
    then show ?thesis using True st'(1) by auto
  qed
qed

text \<open>The permission of a page, a new page, and a page given up.\<close>

lemma page_frames_upd: "g \<in> page_frames (tbl(p := e)) \<longleftrightarrow> (\<exists>w. e = Some (g, w)) \<or> (\<exists>q w. q \<noteq> p \<and> tbl q = Some (g, w))"
  unfolding page_frames_def mem_Collect_eq fun_upd_apply by metis

lemma map_frames_update: "tbl p = Some (f, w) \<Longrightarrow> page_frames (tbl(p \<mapsto> (f, v))) = page_frames tbl"
  by (intro set_eqI, unfold page_frames_upd) (auto simp: page_frames_def, metis option.inject prod.inject)

lemma permit_isolates:
  assumes inv: "paging_inv st ab" and s: "ab s = Some (t, tbl)" and p: "tbl p = Some (f, w)"
  shows "isolates s st ab (set_space_entry s p (pte f v) st) (ab(s \<mapsto> (t, tbl(p \<mapsto> (f, v)))))"
proof (rule isolatesI [OF inv])
  note sp = space_tableD [OF inv s]
  have pf: "page_frames (tbl(p \<mapsto> (f, v))) = page_frames tbl" by (rule map_frames_update [of tbl p f w v, OF p])
  have p6: "p < 256" using page_frameD(4) [OF inv s p] .
  have st': "set_space_entry s p (pte f v) st = st\<lparr>pg_memory := store32 (t * 4096 + 4 * p) (pte f v) (pg_memory st)\<rparr>"
    by (simp add: set_space_entry_def sp(4))
  have own: "owned (ab(s \<mapsto> (t, tbl(p \<mapsto> (f, v))))) s = owned ab s" using s by (simp add: pf owned_def)
  show "pmm_ok (owned (ab(s \<mapsto> (t, tbl(p \<mapsto> (f, v))))) s \<union> others ab s) (pg_pmm (set_space_entry s p (pte f v) st))"
    "pmm_initialized (pg_pmm (set_space_entry s p (pte f v) st))"
    using inv owned_all [of ab s] unfolding own by (simp_all add: st' paging_inv_def)
  show "owned (ab(s \<mapsto> (t, tbl(p \<mapsto> (f, v))))) s \<inter> others ab s = {}" unfolding own by (rule owned_disjoint [OF inv])
  show "free_set (pg_pmm (set_space_entry s p (pte f v) st)) \<union> owned (ab(s \<mapsto> (t, tbl(p \<mapsto> (f, v))))) s =
    free_set (pg_pmm st) \<union> owned ab s" unfolding own by (simp add: st')
  have "table_holds (store32 (t * 4096 + 4 * p) (pte_of (Some (f, v))) (pg_memory st)) t (tbl(p := Some (f, v)))"
    by (rule table_holds_store [OF sp(7)]) (use p6 in simp)
  then show "space_ok (set_space_entry s p (pte f v) st) s (Some (t, tbl(p \<mapsto> (f, v))))"
    using sp(3,6) p p6 by (auto simp: space_ok_def st' pte_of_def map_ok_def pf split: if_splits)
  show "pg_memory (set_space_entry s p (pte f v) st) x = pg_memory st x" if "x div 4096 \<in> others ab s \<or> x div 4096 \<notin> allocatable" for x
  proof -
    have "t \<in> owned ab s" using s by (simp add: owned_def)
    then have "x div 4096 \<noteq> t" using that sp(2) owned_disjoint [OF inv, of s] by blast
    then show ?thesis using p6 by (simp add: st' store32_other)
  qed
qed (simp_all add: set_space_entry_def)

lemma new_page_isolates:
  assumes inv: "paging_inv st ab" and s: "ab s = Some (t, tbl)" and p: "p < 256" "tbl p = None"
    and g: "g \<notin> (\<Union>r. owned ab r)" "g \<in> allocatable" "g < frame_count"
    and pm: "pmm_ok (insert g (\<Union>r. owned ab r)) pm" "pmm_initialized pm" "insert g (free_set pm) = free_set (pg_pmm st)"
    and st': "st' = st\<lparr>pg_pmm := pm, pg_memory := store32 (t * 4096 + 4 * p) (pte g False) (clear_page (g * 4096) (pg_memory st)),
      pg_spaces := (pg_spaces st)(s := (pg_spaces st s)\<lparr>as_mapped_pages := n\<rparr>)\<rparr>"
  shows "isolates s st ab st' (ab(s \<mapsto> (t, tbl(p \<mapsto> (g, False)))))"
    and "x div 4096 = g \<Longrightarrow> pg_memory st' x = 0"
proof -
  note sp = space_tableD [OF inv s]
  have gt: "g \<noteq> t" "g \<notin> page_frames tbl" "g \<notin> others ab s" using g(1) s by (auto simp: owned_def others_def split: option.splits)
  have pf: "page_frames (tbl(p \<mapsto> (g, False))) = insert g (page_frames tbl)"
    using p(2) by (intro set_eqI, unfold page_frames_upd) (auto simp: page_frames_def, metis option.distinct(1))
  have own: "owned (ab(s \<mapsto> (t, tbl(p \<mapsto> (g, False))))) s = insert g (owned ab s)" using s pf by (auto simp: owned_def)
  show "isolates s st ab st' (ab(s \<mapsto> (t, tbl(p \<mapsto> (g, False)))))"
  proof (rule isolatesI [OF inv])
    show "pmm_ok (owned (ab(s \<mapsto> (t, tbl(p \<mapsto> (g, False))))) s \<union> others ab s) (pg_pmm st')" "pmm_initialized (pg_pmm st')"
      using pm unfolding own owned_all [of ab s] by (simp_all add: st')
    show "owned (ab(s \<mapsto> (t, tbl(p \<mapsto> (g, False))))) s \<inter> others ab s = {}"
      unfolding own using owned_disjoint [OF inv, of s] gt(3) by blast
    show "free_set (pg_pmm st') \<union> owned (ab(s \<mapsto> (t, tbl(p \<mapsto> (g, False))))) s = free_set (pg_pmm st) \<union> owned ab s"
      unfolding own using pm(3) by (auto simp: st')
    have "table_holds (clear_page (g * 4096) (pg_memory st)) t tbl"
      by (rule table_holds_cong [OF sp(7)]) (use gt(1) in \<open>auto simp: clear_page_other\<close>)
    from table_holds_store [OF this, of p "Some (g, False)"]
    have "table_holds (pg_memory st') t (tbl(p \<mapsto> (g, False)))" using p(1) by (simp add: st' pte_of_def)
    moreover have "map_ok t (tbl(p \<mapsto> (g, False)))"
      using sp(6) p gt unfolding map_ok_def pf by (auto simp: page_frames_def split: if_splits)
    ultimately show "space_ok st' s (Some (t, tbl(p \<mapsto> (g, False))))" using sp(3) by (simp add: space_ok_def st')
    show "pg_memory st' x = pg_memory st x" if "x div 4096 \<in> others ab s \<or> x div 4096 \<notin> allocatable" for x
    proof -
      have "t \<in> owned ab s" using s by (simp add: owned_def)
      then have "x div 4096 \<noteq> t" "x div 4096 \<noteq> g" using that sp(2) g(2) gt(3) owned_disjoint [OF inv, of s] by blast+
      then show ?thesis using p(1) by (simp add: st' store32_other clear_page_other)
    qed
  qed (simp_all add: st')
  show "x div 4096 = g \<Longrightarrow> pg_memory st' x = 0" using gt(1) p(1) by (simp add: st' store32_other clear_page_same)
qed

lemma give_up_page:
  assumes inv: "paging_inv st ab" and s: "ab s = Some (t, tbl)" and p: "p < 256"
  shows "isolates s st ab (clear_space_page s p st) (ab(s \<mapsto> (t, tbl(p := None))))"
    and "pg_spaces (clear_space_page s p st) = pg_spaces st"
    and "pg_active (clear_space_page s p st) = pg_active st"
    and "x div 4096 \<noteq> t \<Longrightarrow> pg_memory (clear_space_page s p st) x = (if (\<exists>w. tbl p = Some (x div 4096, w)) then 0 else pg_memory st x)"
proof -
  note sp = space_tableD [OF inv s]
  have e: "space_entry s st p = pte_of (tbl p)" using sp(8) [of p] p by simp
  have "isolates s st ab (clear_space_page s p st) (ab(s \<mapsto> (t, tbl(p := None)))) \<and>
    pg_spaces (clear_space_page s p st) = pg_spaces st \<and> pg_active (clear_space_page s p st) = pg_active st \<and>
    (x div 4096 \<noteq> t \<longrightarrow> pg_memory (clear_space_page s p st) x = (if (\<exists>w. tbl p = Some (x div 4096, w)) then 0 else pg_memory st x))"
  proof (cases "tbl p")
    case None
    then have c: "clear_space_page s p st = st" using e by (simp add: clear_space_page_def pte_of_def)
    have "ab(s \<mapsto> (t, tbl(p := None))) = ab" using s None by (auto simp: fun_eq_iff)
    then show ?thesis using isolates_refl [OF inv, of s] None unfolding c by simp
  next
    case (Some fw)
    obtain f w where fw: "fw = (f, w)" by fastforce
    note pd = page_frameD [OF inv s Some [unfolded fw]]
    have A: "pmm_ok (\<Union>r. owned ab r) (pg_pmm st)" "pmm_initialized (pg_pmm st)" "f \<in> (\<Union>r. owned ab r)"
      using inv pd(5) by (auto simp: paging_inv_def)
    obtain pm where pm: "free_frame (word_of_nat f * page_size) (pg_pmm st) = (True, pm)"
        "pmm_ok ((\<Union>r. owned ab r) - {f}) pm" "pmm_initialized pm" "free_set pm = insert f (free_set (pg_pmm st))"
      using free_frame_owned [OF A] by blast
    have c: "clear_space_page s p st = st\<lparr>pg_memory := clear_page (f * 4096) (store32 (t * 4096 + 4 * p) 0 (pg_memory st)), pg_pmm := pm\<rparr>"
      using e Some fw pm(1) pd(1) sp(4) pte_frame [OF pd(1)]
      by (simp add: clear_space_page_def pte_of_def Let_def set_space_entry_def page_frame(1))
    have pf: "page_frames (tbl(p := None)) = page_frames tbl - {f}"
      using sp(6) Some fw by (intro set_eqI, unfold page_frames_upd) (auto simp: page_frames_def map_ok_def, metis option.inject prod.inject)
    have own: "owned (ab(s \<mapsto> (t, tbl(p := None)))) s = owned ab s - {f}" using s pf pd(3) by (auto simp: owned_def)
    have t: "t \<in> owned ab s" using s by (simp add: owned_def)
    have "isolates s st ab (clear_space_page s p st) (ab(s \<mapsto> (t, tbl(p := None))))"
    proof (rule isolatesI [OF inv])
      have "owned ab s - {f} \<union> others ab s = (\<Union>r. owned ab r) - {f}"
        using owned_all [of ab s] owned_disjoint [OF inv, of s] pd(5) by blast
      then show "pmm_ok (owned (ab(s \<mapsto> (t, tbl(p := None)))) s \<union> others ab s) (pg_pmm (clear_space_page s p st))"
        "pmm_initialized (pg_pmm (clear_space_page s p st))"
        using pm(2,3) unfolding own by (simp_all add: c)
      show "owned (ab(s \<mapsto> (t, tbl(p := None)))) s \<inter> others ab s = {}"
        unfolding own using owned_disjoint [OF inv, of s] by blast
      show "free_set (pg_pmm (clear_space_page s p st)) \<union> owned (ab(s \<mapsto> (t, tbl(p := None)))) s = free_set (pg_pmm st) \<union> owned ab s"
        unfolding own using pm(4) pd(5) by (auto simp: c)
      have "table_holds (store32 (t * 4096 + 4 * p) (pte_of None) (pg_memory st)) t (tbl(p := None))"
        by (rule table_holds_store [OF sp(7)]) (use p in simp)
      then have "table_holds (pg_memory (clear_space_page s p st)) t (tbl(p := None))"
        by (rule table_holds_cong) (use pd(3) in \<open>auto simp: c pte_of_def clear_page_other\<close>)
      moreover have "map_ok t (tbl(p := None))" using sp(6) unfolding map_ok_def pf by (auto split: if_splits)
      ultimately show "space_ok (clear_space_page s p st) s (Some (t, tbl(p := None)))" using sp(3) by (simp add: space_ok_def c)
      show "pg_memory (clear_space_page s p st) x = pg_memory st x" if "x div 4096 \<in> others ab s \<or> x div 4096 \<notin> allocatable" for x
      proof -
        have "x div 4096 \<noteq> t" "x div 4096 \<noteq> f" using that sp(2) pd(2,5) t owned_disjoint [OF inv, of s] by blast+
        then show ?thesis using p by (simp add: c store32_other clear_page_other)
      qed
    qed (simp_all add: c)
    moreover have "pg_memory (clear_space_page s p st) x = (if \<exists>w. tbl p = Some (x div 4096, w) then 0 else pg_memory st x)"
      if "x div 4096 \<noteq> t"
      using that Some fw p by (cases "x div 4096 = f") (auto simp: c clear_page_same clear_page_other store32_other)
    ultimately show ?thesis by (simp add: c)
  qed
  then show "isolates s st ab (clear_space_page s p st) (ab(s \<mapsto> (t, tbl(p := None))))"
    "pg_spaces (clear_space_page s p st) = pg_spaces st" "pg_active (clear_space_page s p st) = pg_active st"
    "x div 4096 \<noteq> t \<Longrightarrow> pg_memory (clear_space_page s p st) x = (if (\<exists>w. tbl p = Some (x div 4096, w)) then 0 else pg_memory st x)"
    by blast+
qed

section \<open>Clearing and destroying a space\<close>

definition from_page :: "nat \<Rightarrow> page_map \<Rightarrow> page_map" where
  "from_page n tbl = (\<lambda>p. if p < n then None else tbl p)"

lemma clear_loop:
  assumes inv: "paging_inv st ab" and s: "ab s = Some (t, tbl)" and n: "n \<le> 256"
  defines "st' \<equiv> fold (clear_space_page s) [0..<n] st"
  shows "isolates s st ab st' (ab(s \<mapsto> (t, from_page n tbl)))" "pg_spaces st' = pg_spaces st"
    "pg_active st' = pg_active st"
    "x div 4096 \<noteq> t \<Longrightarrow> pg_memory st' x = (if \<exists>p<n. \<exists>w. tbl p = Some (x div 4096, w) then 0 else pg_memory st x)"
proof -
  have "isolates s st ab st' (ab(s \<mapsto> (t, from_page n tbl))) \<and> pg_spaces st' = pg_spaces st \<and>
    pg_active st' = pg_active st \<and>
    (\<forall>x. x div 4096 \<noteq> t \<longrightarrow> pg_memory st' x = (if \<exists>p<n. \<exists>w. tbl p = Some (x div 4096, w) then 0 else pg_memory st x))"
    using n unfolding st'_def
  proof (induction n)
    case 0
    have "ab(s \<mapsto> (t, from_page 0 tbl)) = ab" using s by (auto simp: fun_eq_iff from_page_def)
    then show ?case using isolates_refl [OF inv, of s] by simp
  next
    case (Suc n)
    let ?m = "fold (clear_space_page s) [0..<n] st" and ?tn = "from_page n tbl"
    have m: "isolates s st ab ?m (ab(s \<mapsto> (t, ?tn)))" "pg_spaces ?m = pg_spaces st" "pg_active ?m = pg_active st"
        "\<And>x. x div 4096 \<noteq> t \<Longrightarrow> pg_memory ?m x = (if \<exists>p<n. \<exists>w. tbl p = Some (x div 4096, w) then 0 else pg_memory st x)"
      using Suc.IH Suc.prems by (simp_all only: Suc_leD) blast+
    have n: "n < 256" using Suc.prems by simp
    have mi: "paging_inv ?m (ab(s \<mapsto> (t, ?tn)))" "(ab(s \<mapsto> (t, ?tn))) s = Some (t, ?tn)" using m(1) by (simp_all add: isolates_def)
    note g = give_up_page [OF mi n]
    have e: "?tn(n := None) = from_page (Suc n) tbl" by (auto simp: fun_eq_iff from_page_def)
    have "isolates s st ab (clear_space_page s n ?m) (ab(s \<mapsto> (t, from_page (Suc n) tbl)))"
      using isolates_trans [OF m(1) g(1)] by (simp only: e fun_upd_upd)
    moreover have "pg_memory (clear_space_page s n ?m) x = (if \<exists>p<Suc n. \<exists>w. tbl p = Some (x div 4096, w) then 0 else pg_memory st x)"
      if "x div 4096 \<noteq> t" for x
      using g(4) [OF that] m(4) [OF that] by (auto simp: less_Suc_eq from_page_def)
    ultimately show ?case using g(2,3) m(2,3) by (simp add: fun_upd_def)
  qed
  then show "isolates s st ab st' (ab(s \<mapsto> (t, from_page n tbl)))" "pg_spaces st' = pg_spaces st"
    "pg_active st' = pg_active st"
    "x div 4096 \<noteq> t \<Longrightarrow> pg_memory st' x = (if \<exists>p<n. \<exists>w. tbl p = Some (x div 4096, w) then 0 else pg_memory st x)"
    by blast+
qed

lemma paging_inv_fields:
  assumes "pg_pmm st' = pg_pmm st" "pg_memory st' = pg_memory st"
    "\<And>r. as_table_physical (pg_spaces st' r) = as_table_physical (pg_spaces st r)"
  shows "paging_inv st' ab = paging_inv st ab"
proof -
  have "space_ok st' r e = space_ok st r e" for r e using assms by (simp add: space_ok_def split: option.splits)
  then show ?thesis using assms(1) by (simp add: paging_inv_def)
qed

lemma isolates_fields:
  assumes "isolates s st ab st1 ab1" "pg_pmm st2 = pg_pmm st1" "pg_memory st2 = pg_memory st1" "pg_legacy_table st2 = pg_legacy_table st1"
    "\<And>r. r \<noteq> s \<Longrightarrow> pg_spaces st2 r = pg_spaces st1 r" "as_table_physical (pg_spaces st2 s) = as_table_physical (pg_spaces st1 s)"
  shows "isolates s st ab st2 ab1"
proof -
  have "as_table_physical (pg_spaces st2 r) = as_table_physical (pg_spaces st1 r)" for r using assms(5,6) by (cases "r = s") auto
  then have "paging_inv st2 ab1 = paging_inv st1 ab1" by (rule paging_inv_fields [OF assms(2,3)])
  then show ?thesis using assms by (simp add: isolates_def pool_def)
qed

lemma clear_isolates:
  assumes inv: "paging_inv st ab" and s: "ab s = Some (t, tbl)"
  shows "isolates s st ab (address_space_clear s st) (ab(s \<mapsto> (t, \<lambda>_. None)))"
    and "pg_spaces (address_space_clear s st) s = (pg_spaces st s)\<lparr>as_mapped_pages := 0\<rparr>"
    and "pg_active (address_space_clear s st) = pg_active st"
    and "x div 4096 \<in> page_frames tbl \<Longrightarrow> pg_memory (address_space_clear s st) x = 0"
proof -
  note sp = space_tableD [OF inv s]
  note l = clear_loop [OF inv s order_refl]
  let ?m = "fold (clear_space_page s) [0..<256] st"
  have c: "address_space_clear s st = ?m\<lparr>pg_spaces := (pg_spaces ?m)(s := (pg_spaces ?m s)\<lparr>as_mapped_pages := 0\<rparr>)\<rparr>"
    using sp(5) by (simp add: address_space_clear_def process_page_count_def Let_def)
  have "from_page 256 tbl = (\<lambda>_. None)" using sp(6) by (auto simp: fun_eq_iff map_ok_def from_page_def)
  then have "isolates s st ab ?m (ab(s \<mapsto> (t, \<lambda>_. None)))" using l(1) by simp
  then show "isolates s st ab (address_space_clear s st) (ab(s \<mapsto> (t, \<lambda>_. None)))"
    by (rule isolates_fields) (simp_all add: c)
  show "pg_spaces (address_space_clear s st) s = (pg_spaces st s)\<lparr>as_mapped_pages := 0\<rparr>"
    "pg_active (address_space_clear s st) = pg_active st" using l(2,3) by (simp_all add: c)
  show "pg_memory (address_space_clear s st) x = 0" if x: "x div 4096 \<in> page_frames tbl"
  proof -
    obtain p w where p: "tbl p = Some (x div 4096, w)" using x unfolding page_frames_def by blast
    then have "x div 4096 \<noteq> t" "p < 256" using page_frameD [OF inv s p] by simp_all
    then show ?thesis using l(4) [of x] p by (auto simp: c)
  qed
qed

lemma install_fields [simp]:
  "pg_pmm (install_user_table a st) = pg_pmm st" "pg_memory (install_user_table a st) = pg_memory st"
  "pg_spaces (install_user_table a st) = pg_spaces st" "pg_legacy_table (install_user_table a st) = pg_legacy_table st"
  "pg_active (install_user_table a st) = pg_active st" "pg_legacy_address (install_user_table a st) = pg_legacy_address st"
  by (simp_all add: install_user_table_def)

lemma destroy_isolates:
  assumes inv: "paging_inv st ab" and s: "ab s = Some (t, tbl)"
  shows "isolates s st ab (address_space_destroy s st) (ab(s := None))"
    and "pg_active (address_space_destroy s st) = (if pg_active st = Some s then None else pg_active st)"
    and "x div 4096 \<in> owned ab s \<Longrightarrow> pg_memory (address_space_destroy s st) x = 0"
proof -
  note sp = space_tableD [OF inv s]
  define st0 where "st0 = (if pg_active st = Some s then install_user_table (pg_legacy_address st) (st\<lparr>pg_active := None\<rparr>) else st)"
  have st0: "pg_pmm st0 = pg_pmm st" "pg_memory st0 = pg_memory st" "pg_spaces st0 = pg_spaces st" "pg_legacy_table st0 = pg_legacy_table st"
      "pg_active st0 = (if pg_active st = Some s then None else pg_active st)"
    by (simp_all add: st0_def)
  have inv0: "paging_inv st0 ab" using inv paging_inv_fields [of st0 st ab] st0 by simp
  define st1 where "st1 = address_space_clear s st0"
  note c = clear_isolates [OF inv0 s, folded st1_def]
  have i1: "isolates s st ab st1 (ab(s \<mapsto> (t, \<lambda>_. None)))" using c(1) st0 by (simp add: isolates_def pool_def)
  have inv1: "paging_inv st1 (ab(s \<mapsto> (t, \<lambda>_. None)))" using i1 by (simp add: isolates_def)
  have t1: "as_table_physical (pg_spaces st1 s) = word_of_nat t * page_size" using c(2) st0 sp(3) by simp
  have o1: "(\<Union>r. owned (ab(s \<mapsto> (t, \<lambda>_. None))) r) = insert t (others ab s)"
    using owned_all [of "ab(s \<mapsto> (t, \<lambda>_. None))" s] by (simp add: page_frames_def)
  have "t \<in> owned ab s" using s by (simp add: owned_def)
  then have to: "t \<notin> others ab s" using owned_disjoint [OF inv, of s] by blast
  have A: "pmm_ok (insert t (others ab s)) (pg_pmm st1)" "pmm_initialized (pg_pmm st1)"
    using inv1 o1 by (simp_all add: paging_inv_def)
  obtain pm where pm: "free_frame (word_of_nat t * page_size) (pg_pmm st1) = (True, pm)"
      "pmm_ok (insert t (others ab s) - {t}) pm" "pmm_initialized pm" "free_set pm = insert t (free_set (pg_pmm st1))"
    using free_frame_owned [OF A, of t] by blast
  have d: "address_space_destroy s st = st1\<lparr>pg_memory := clear_page (t * 4096) (pg_memory st1),
      pg_spaces := (pg_spaces st1)(s := no_space), pg_pmm := pm\<rparr>"
    using sp(5) t1 pm(1) page_frame(1) [OF sp(1)]
    by (simp add: address_space_destroy_def Let_def st0_def [symmetric] st1_def [symmetric])
  have "isolates s st1 (ab(s \<mapsto> (t, \<lambda>_. None))) (address_space_destroy s st) ((ab(s \<mapsto> (t, \<lambda>_. None)))(s := None))"
  proof (rule isolatesI [OF inv1])
    show "pg_memory (address_space_destroy s st) x = pg_memory st1 x"
      if "x div 4096 \<in> others (ab(s \<mapsto> (t, \<lambda>_. None))) s \<or> x div 4096 \<notin> allocatable" for x
    proof -
      have "x div 4096 \<noteq> t" using that to sp(2) by auto
      then show ?thesis by (simp add: d clear_page_other)
    qed
  qed (use pm(2,3,4) to in \<open>simp_all add: d space_ok_def no_space_def page_frames_def\<close>)
  then show "isolates s st ab (address_space_destroy s st) (ab(s := None))" using isolates_trans [OF i1] by simp
  show "pg_active (address_space_destroy s st) = (if pg_active st = Some s then None else pg_active st)"
    using c(3) st0(5) by (simp add: d)
  show "pg_memory (address_space_destroy s st) x = 0" if "x div 4096 \<in> owned ab s"
    using that s c(4) [of x] by (cases "x div 4096 = t") (auto simp: d owned_def clear_page_same clear_page_other)
qed

section \<open>Mapping and protecting pages\<close>

lemma window_pages_bound:
  assumes "len \<noteq> 0" "\<not> bad_window offset len"
  shows "set (window_pages offset len) \<subseteq> {..<256}"
    and "window_pages offset len = [unat offset div 4096..<(unat offset + unat len + 4095) div 4096]"
    and "unat offset + unat len \<le> 0x100000"
proof -
  have w: "unat (0x100000 - offset) = 0x100000 - unat offset" if "offset \<le> 0x100000"
    using that by (simp add: unat_sub)
  have o: "unat offset < 0x100000" using assms(2) by (simp add: bad_window_def process_window_bytes_def word_le_nat_alt)
  then have "offset \<le> 0x100000" by (simp add: word_le_nat_alt)
  moreover have "\<not> 0x100000 - offset < len" using assms(2) by (simp add: bad_window_def process_window_bytes_def)
  ultimately have l: "unat len \<le> 0x100000 - unat offset" using w by (simp add: word_less_nat_alt)
  then show sum: "unat offset + unat len \<le> 0x100000" using o by simp
  have u: "unat (offset + len + page_size - 1) = unat offset + unat len + 4095"
  proof -
    have e: "offset + len + page_size - 1 = offset + len + 4095" by (simp add: page_size_def)
    have l: "unat (offset + len) = unat offset + unat len" using sum by (intro unat_add_nowrap) simp
    have "unat (offset + len + 4095) = unat (offset + len) + unat (4095 :: u32)"
      by (rule unat_add_nowrap) (use sum l in simp)
    then show ?thesis unfolding e l by simp
  qed
  have d: "unat ((v AND NOT (page_size - 1)) div page_size) = unat v div 4096" for v
    unfolding unat_div unat_page_mask by (simp add: page_size_def)
  show e: "window_pages offset len = [unat offset div 4096..<(unat offset + unat len + 4095) div 4096]"
    by (simp only: window_pages_def page_floor_def page_ceiling_def d u)
  have "(unat offset + unat len + 4095) div 4096 \<le> (0x100000 + 4095) div 4096" using sum by (intro div_le_mono) simp
  then show "set (window_pages offset len) \<subseteq> {..<256}" unfolding e by auto
qed

definition pages_grow :: "bool \<Rightarrow> nat set \<Rightarrow> paging \<Rightarrow> page_map \<Rightarrow> paging \<Rightarrow> page_map \<Rightarrow> bool" where
  "pages_grow writing pages st tbl st' tbl' \<longleftrightarrow>
    (\<forall>p f v. tbl p = Some (f, v) \<longrightarrow> (\<exists>u. tbl' p = Some (f, u) \<and> (v \<longrightarrow> u) \<and> (u \<longrightarrow> v \<or> writing \<and> p \<in> pages))) \<and>
    (\<forall>p f u. tbl p = None \<longrightarrow> tbl' p = Some (f, u) \<longrightarrow> p \<in> pages \<and> (u \<longrightarrow> writing) \<and> (\<forall>x. x div 4096 = f \<longrightarrow> pg_memory st' x = 0)) \<and>
    (\<forall>x. x div 4096 \<in> page_frames tbl \<longrightarrow> pg_memory st' x = pg_memory st x)"

lemma pages_grow_refl: "pages_grow writing pages st tbl st tbl"
  by (auto simp: pages_grow_def)

lemma pages_grow_trans:
  assumes 1: "pages_grow writing P st tbl st1 tbl1" and 2: "pages_grow writing Q st1 tbl1 st2 tbl2" and PQ: "P \<union> Q \<subseteq> R"
  shows "pages_grow writing R st tbl st2 tbl2"
  unfolding pages_grow_def
proof (intro conjI allI impI)
  fix p f v assume "tbl p = Some (f, v)"
  then obtain u where u: "tbl1 p = Some (f, u)" "v \<longrightarrow> u" "u \<longrightarrow> v \<or> writing \<and> p \<in> P" using 1 unfolding pages_grow_def by blast
  then obtain w where "tbl2 p = Some (f, w)" "u \<longrightarrow> w" "w \<longrightarrow> u \<or> writing \<and> p \<in> Q" using 2 unfolding pages_grow_def by blast
  then show "\<exists>u. tbl2 p = Some (f, u) \<and> (v \<longrightarrow> u) \<and> (u \<longrightarrow> v \<or> writing \<and> p \<in> R)" using u PQ by blast
next
  fix p f u assume n: "tbl p = None" and s: "tbl2 p = Some (f, u)"
  have "p \<in> R \<and> (u \<longrightarrow> writing) \<and> (\<forall>x. x div 4096 = f \<longrightarrow> pg_memory st2 x = 0)"
  proof (cases "tbl1 p")
    case None
    then have "p \<in> Q \<and> (u \<longrightarrow> writing) \<and> (\<forall>x. x div 4096 = f \<longrightarrow> pg_memory st2 x = 0)" using 2 s unfolding pages_grow_def by blast
    then show ?thesis using PQ by blast
  next
    case (Some gv)
    obtain g v where gv: "gv = (g, v)" by fastforce
    have a: "p \<in> P" "v \<longrightarrow> writing" "\<forall>x. x div 4096 = g \<longrightarrow> pg_memory st1 x = 0" using 1 n Some gv unfolding pages_grow_def by blast+
    have "\<exists>w. tbl2 p = Some (g, w) \<and> (w \<longrightarrow> v \<or> writing \<and> p \<in> Q)" using 2 Some gv unfolding pages_grow_def by blast
    then have b: "g = f" "u \<longrightarrow> v \<or> writing" using s by auto
    have "g \<in> page_frames tbl1" using Some gv unfolding page_frames_def by blast
    then have "\<forall>x. x div 4096 = g \<longrightarrow> pg_memory st2 x = pg_memory st1 x" using 2 unfolding pages_grow_def by blast
    then show ?thesis using a b PQ by auto
  qed
  then show "p \<in> R" "u \<Longrightarrow> writing" "x div 4096 = f \<Longrightarrow> pg_memory st2 x = 0" for x by blast+
next
  fix x :: nat assume x: "x div 4096 \<in> page_frames tbl"
  then obtain p v where "tbl p = Some (x div 4096, v)" unfolding page_frames_def by blast
  then obtain u where "tbl1 p = Some (x div 4096, u)" using 1 unfolding pages_grow_def by blast
  then have "x div 4096 \<in> page_frames tbl1" unfolding page_frames_def by blast
  then show "pg_memory st2 x = pg_memory st x" using 1 2 x unfolding pages_grow_def by simp
qed

lemma permit_pages_grow:
  assumes inv: "paging_inv st ab" and s: "ab s = Some (t, tbl)" and p: "tbl p = Some (f, w)" and v: "w \<longrightarrow> v" "v \<longrightarrow> w \<or> writing \<and> p \<in> P"
  shows "pages_grow writing P st tbl (set_space_entry s p (pte f v) st) (tbl(p \<mapsto> (f, v)))"
proof -
  note sp = space_tableD [OF inv s]
  have p6: "p < 256" using page_frameD(4) [OF inv s p] .
  have "pg_memory (set_space_entry s p (pte f v) st) x = pg_memory st x" if "x div 4096 \<in> page_frames tbl" for x
  proof -
    have "x div 4096 \<noteq> t" using that sp(6) by (auto simp: map_ok_def)
    then show ?thesis using p6 sp(4) by (simp add: set_space_entry_def store32_other)
  qed
  then show ?thesis unfolding pages_grow_def using p v by auto
qed

lemma new_page_pages_grow:
  assumes inv: "paging_inv st ab" and s: "ab s = Some (t, tbl)" and p: "p < 256" "tbl p = None" "p \<in> P"
    and g: "g \<notin> (\<Union>r. owned ab r)"
    and m: "pg_memory st' = store32 (t * 4096 + 4 * p) (pte g False) (clear_page (g * 4096) (pg_memory st))"
  shows "pages_grow writing P st tbl st' (tbl(p \<mapsto> (g, False)))"
proof -
  note sp = space_tableD [OF inv s]
  have gt: "g \<noteq> t" "g \<notin> page_frames tbl" using g s by (auto simp: owned_def split: option.splits)
  have "pg_memory st' x = pg_memory st x" if x: "x div 4096 \<in> page_frames tbl" for x
  proof -
    have "x div 4096 \<noteq> t" "x div 4096 \<noteq> g" using x gt(2) sp(6) by (auto simp: map_ok_def)
    then show ?thesis using p(1) by (simp add: m store32_other clear_page_other)
  qed
  moreover have "pg_memory st' x = 0" if "x div 4096 = g" for x
    using that gt(1) p(1) by (simp add: m store32_other clear_page_same)
  ultimately show ?thesis unfolding pages_grow_def using p by auto
qed

definition counted :: "paging \<Rightarrow> nat \<Rightarrow> page_map \<Rightarrow> bool" where
  "counted st s tbl \<longleftrightarrow> as_mapped_pages (pg_spaces st s) = word_of_nat (card (dom tbl))"

lemma counted_new: "finite (dom tbl) \<Longrightarrow> tbl p = None \<Longrightarrow> counted st s tbl \<Longrightarrow>
    as_mapped_pages (pg_spaces st' s) = as_mapped_pages (pg_spaces st s) + 1 \<Longrightarrow> counted st' s (tbl(p \<mapsto> e))"
  by (simp add: counted_def domIff add.commute)

lemma map_finite: "map_ok t tbl \<Longrightarrow> finite (dom tbl)"
  using finite_subset [of "dom tbl" "{..<256}"] by (simp add: map_ok_def)

lemma set_user_entry_active: "pg_active st = Some s \<Longrightarrow> set_user_entry p e st = set_space_entry s p e st"
  by (simp add: set_user_entry_def)

lemma set_space_entry_fields [simp]:
  "pg_active (set_space_entry s p e st) = pg_active st" "pg_spaces (set_space_entry s p e st) = pg_spaces st"
  by (simp_all add: set_space_entry_def)

lemma grant_step:
  assumes inv: "paging_inv st ab" and act: "pg_active st = Some s" and s: "ab s = Some (t, tbl)"
    and p: "tbl p = Some (f, w)" "p \<in> P"
  shows "\<exists>v. (w \<or> writing \<longleftrightarrow> v) \<and> isolates s st ab (grant_writable writing p st) (ab(s \<mapsto> (t, tbl(p \<mapsto> (f, v))))) \<and>
    pages_grow writing P st tbl (grant_writable writing p st) (tbl(p \<mapsto> (f, v))) \<and>
    pg_active (grant_writable writing p st) = Some s \<and> pg_spaces (grant_writable writing p st) = pg_spaces st"
proof (cases writing)
  case True
  have e: "user_entry st p = pte f w"
    using space_tableD(8) [OF inv s, of p] page_frameD(4) [OF inv s p(1)] p(1) act by (simp add: user_entry_def pte_of_def)
  have "grant_writable writing p st = set_space_entry s p (pte f True) st"
    using True act by (simp add: grant_writable_def set_user_entry_active e pte_grant)
  then show ?thesis
    using permit_isolates [OF inv s p(1), of True] permit_pages_grow [OF inv s p(1), of True writing P] True p(2) act
    by (intro exI [of _ True]) simp
next
  case False
  have "ab(s \<mapsto> (t, tbl(p \<mapsto> (f, w)))) = ab" "tbl(p \<mapsto> (f, w)) = tbl" using s p(1) by (auto simp: fun_eq_iff)
  then show ?thesis using False isolates_refl [OF inv, of s] pages_grow_refl [of writing P st tbl] act
    by (intro exI [of _ w]) (simp add: grant_writable_def)
qed

lemma map_pages_isolates:
  assumes "paging_inv st ab" "pg_active st = Some s" "ab s = Some (t, tbl)" "counted st s tbl" "set pages \<subseteq> P" "P \<subseteq> {..<256}"
    "map_pages writing pages st = (ok, st')"
  shows "\<exists>tbl'. isolates s st ab st' (ab(s \<mapsto> (t, tbl'))) \<and> pages_grow writing P st tbl st' tbl' \<and> pg_active st' = Some s \<and>
    counted st' s tbl' \<and> (ok \<longrightarrow> (\<forall>p\<in>set pages. \<exists>f v. tbl' p = Some (f, v) \<and> (writing \<longrightarrow> v)))"
  using assms
proof (induction pages arbitrary: st ab tbl)
  case Nil
  have "ab(s \<mapsto> (t, tbl)) = ab" using Nil by (auto simp: fun_eq_iff)
  then show ?case using Nil isolates_refl [of st ab s] pages_grow_refl [of writing P st tbl] by (intro exI [of _ tbl]) auto
next
  case (Cons p pages)
  note inv = Cons.prems(1) and act = Cons.prems(2) and s = Cons.prems(3)
  note sp = space_tableD [OF inv s]
  have p: "p < 256" "p \<in> P" using Cons.prems(5,6) by auto
  have e: "user_entry st p = pte_of (tbl p)" using act sp(8) [of p] p by (simp add: user_entry_def)
  have step: "\<exists>tbl'. isolates s st ab st' (ab(s \<mapsto> (t, tbl'))) \<and> pages_grow writing P st tbl st' tbl' \<and> pg_active st' = Some s \<and>
      counted st' s tbl' \<and> (ok \<longrightarrow> (\<forall>q\<in>set (p # pages). \<exists>f v. tbl' q = Some (f, v) \<and> (writing \<longrightarrow> v)))"
    if i1: "isolates s st ab st1 (ab(s \<mapsto> (t, tbl1)))" and g1: "pages_grow writing P st tbl st1 tbl1" and a1: "pg_active st1 = Some s"
      and c1: "counted st1 s tbl1" and m: "map_pages writing pages st1 = (ok, st')" and got: "tbl1 p = Some (f, v)" "writing \<longrightarrow> v"
    for st1 tbl1 f v
  proof -
    have inv1: "paging_inv st1 (ab(s \<mapsto> (t, tbl1)))" using i1 by (simp add: isolates_def)
    have "\<exists>tbl'. isolates s st1 (ab(s \<mapsto> (t, tbl1))) st' ((ab(s \<mapsto> (t, tbl1)))(s \<mapsto> (t, tbl'))) \<and> pages_grow writing P st1 tbl1 st' tbl' \<and>
        pg_active st' = Some s \<and> counted st' s tbl' \<and> (ok \<longrightarrow> (\<forall>q\<in>set pages. \<exists>f v. tbl' q = Some (f, v) \<and> (writing \<longrightarrow> v)))"
      by (rule Cons.IH [OF inv1 a1 _ c1 _ Cons.prems(6) m]) (use Cons.prems(5) in auto)
    then obtain tbl' where r: "isolates s st1 (ab(s \<mapsto> (t, tbl1))) st' ((ab(s \<mapsto> (t, tbl1)))(s \<mapsto> (t, tbl')))" "pages_grow writing P st1 tbl1 st' tbl'"
        "pg_active st' = Some s" "counted st' s tbl'" "ok \<longrightarrow> (\<forall>q\<in>set pages. \<exists>f v. tbl' q = Some (f, v) \<and> (writing \<longrightarrow> v))"
      by blast
    have "\<exists>u. tbl' p = Some (f, u) \<and> (writing \<longrightarrow> u)" using r(2) got unfolding pages_grow_def by blast
    then show ?thesis
      using isolates_trans [OF i1 r(1)] pages_grow_trans [OF g1 r(2), of P] r(3,4,5) by (intro exI [of _ tbl']) auto
  qed
  show ?case
  proof (cases "tbl p")
    case (Some fw)
    obtain f w where fw: "fw = (f, w)" by fastforce
    obtain v where v: "w \<or> writing \<longleftrightarrow> v" "isolates s st ab (grant_writable writing p st) (ab(s \<mapsto> (t, tbl(p \<mapsto> (f, v)))))"
        "pages_grow writing P st tbl (grant_writable writing p st) (tbl(p \<mapsto> (f, v)))"
        "pg_active (grant_writable writing p st) = Some s" "pg_spaces (grant_writable writing p st) = pg_spaces st"
      using grant_step [OF inv act s Some [unfolded fw] p(2), of writing] by blast
    have "dom (tbl(p \<mapsto> (f, v))) = dom tbl" using Some by auto
    then have c: "counted (grant_writable writing p st) s (tbl(p \<mapsto> (f, v)))" using Cons.prems(4) v(5) by (simp add: counted_def)
    have m: "map_pages writing pages (grant_writable writing p st) = (ok, st')" using Cons.prems(7) e Some fw by (simp add: pte_of_def)
    show ?thesis by (rule step [OF v(2,3,4) c m, of f v]) (use v(1) in auto)
  next
    case None
    show ?thesis
    proof (cases rule: allocate_frame_cases [OF inv])
      case 1
      have "ab(s \<mapsto> (t, tbl)) = ab" using s by (auto simp: fun_eq_iff)
      moreover have "st' = st" "\<not> ok" using Cons.prems(7) e None act 1 by (simp_all add: pte_of_def)
      ultimately have "isolates s st ab st' (ab(s \<mapsto> (t, tbl))) \<and> pages_grow writing P st tbl st' tbl \<and> pg_active st' = Some s \<and>
          counted st' s tbl \<and> \<not> ok"
        using isolates_refl [OF inv, of s] pages_grow_refl [of writing P st tbl] act Cons.prems(4) by simp
      then show ?thesis by blast
    next
      case (2 g pm)
      define st1 where "st1 = st\<lparr>pg_pmm := pm, pg_memory := store32 (t * 4096 + 4 * p) (pte g False) (clear_page (g * 4096) (pg_memory st)),
        pg_spaces := (pg_spaces st)(s := (pg_spaces st s)\<lparr>as_mapped_pages := as_mapped_pages (pg_spaces st s) + 1\<rparr>)\<rparr>"
      note n = new_page_isolates(1) [OF inv s p(1) None 2(2,3,4,6,7,8) st1_def]
      have g1: "pages_grow writing P st tbl st1 (tbl(p \<mapsto> (g, False)))"
        by (rule new_page_pages_grow [OF inv s p(1) None p(2) 2(2)]) (simp add: st1_def)
      have inv1: "paging_inv st1 (ab(s \<mapsto> (t, tbl(p \<mapsto> (g, False)))))" using n by (simp add: isolates_def)
      have a1: "pg_active st1 = Some s" using act by (simp add: st1_def)
      have c1: "counted st1 s (tbl(p \<mapsto> (g, False)))"
        by (rule counted_new [OF map_finite [OF sp(6)] None Cons.prems(4)]) (simp add: st1_def)
      obtain v where v: "False \<or> writing \<longleftrightarrow> v"
          "isolates s st1 (ab(s \<mapsto> (t, tbl(p \<mapsto> (g, False))))) (grant_writable writing p st1)
            ((ab(s \<mapsto> (t, tbl(p \<mapsto> (g, False)))))(s \<mapsto> (t, (tbl(p \<mapsto> (g, False)))(p \<mapsto> (g, v)))))"
          "pages_grow writing P st1 (tbl(p \<mapsto> (g, False))) (grant_writable writing p st1) ((tbl(p \<mapsto> (g, False)))(p \<mapsto> (g, v)))"
          "pg_active (grant_writable writing p st1) = Some s" "pg_spaces (grant_writable writing p st1) = pg_spaces st1"
        using grant_step [OF inv1 a1, of t "tbl(p \<mapsto> (g, False))" p g False P writing] p(2) by auto
      have c2: "counted (grant_writable writing p st1) s (tbl(p \<mapsto> (g, v)))" using c1 v(5) by (simp add: counted_def)
      have st1: "set_user_entry p (word_of_nat g * page_size OR pte_present OR pte_user)
          (st\<lparr>pg_pmm := pm, pg_memory := clear_page (g * 4096) (pg_memory st),
            pg_spaces := (pg_spaces st)(s := (pg_spaces st s)\<lparr>as_mapped_pages := as_mapped_pages (pg_spaces st s) + 1\<rparr>)\<rparr>) = st1"
        using act sp(4) by (simp add: set_user_entry_def set_space_entry_def pte_new st1_def)
      have m: "map_pages writing pages (grant_writable writing p st1) = (ok, st')"
        using Cons.prems(7) e None act 2(1,5) st1 page_frame(1) [OF 2(4)] by (simp add: pte_of_def Let_def)
      show ?thesis
        by (rule step [of "grant_writable writing p st1" "tbl(p \<mapsto> (g, v))" g v])
          (use isolates_trans [OF n v(2)] pages_grow_trans [OF g1 v(3), of P] v(1,4) c2 m in auto)
    qed
  qed
qed

definition permits :: "bool \<Rightarrow> nat set \<Rightarrow> page_map \<Rightarrow> page_map \<Rightarrow> bool" where
  "permits writing P tbl tbl' \<longleftrightarrow> (\<forall>p. tbl p = None \<longrightarrow> tbl' p = None) \<and>
    (\<forall>p f v. tbl p = Some (f, v) \<longrightarrow> (\<exists>u. tbl' p = Some (f, u) \<and> (u = v \<or> p \<in> P \<and> u = writing)))"

lemma permits_refl: "permits writing P tbl tbl"
  by (simp add: permits_def)

lemma permits_frames: "permits writing P tbl tbl' \<Longrightarrow> page_frames tbl' = page_frames tbl"
proof (intro set_eqI iffI)
  fix f assume a: "permits writing P tbl tbl'" "f \<in> page_frames tbl'"
  then obtain p u where u: "tbl' p = Some (f, u)" unfolding page_frames_def by blast
  then obtain g v where "tbl p = Some (g, v)" using a(1) unfolding permits_def by (metis option.distinct(1) option.exhaust surj_pair)
  then have "tbl p = Some (f, v)" using a(1) u unfolding permits_def by fastforce
  then show "f \<in> page_frames tbl" unfolding page_frames_def by blast
next
  fix f assume "permits writing P tbl tbl'" "f \<in> page_frames tbl"
  then show "f \<in> page_frames tbl'" unfolding permits_def page_frames_def by blast
qed

lemma protect_pages_isolates:
  assumes "paging_inv st ab" "pg_active st = Some s" "ab s = Some (t, tbl)" "set pages \<subseteq> {..<256}"
    "protect_pages writing pages st = (ok, st')"
  shows "\<exists>tbl'. isolates s st ab st' (ab(s \<mapsto> (t, tbl'))) \<and> permits writing (set pages) tbl tbl' \<and> pg_active st' = Some s \<and>
    pg_spaces st' = pg_spaces st \<and> (ok \<longrightarrow> (\<forall>p\<in>set pages. \<exists>f. tbl' p = Some (f, writing))) \<and>
    (\<forall>x. x div 4096 \<in> page_frames tbl \<longrightarrow> pg_memory st' x = pg_memory st x)"
  using assms
proof (induction pages arbitrary: st ab tbl)
  case Nil
  have "ab(s \<mapsto> (t, tbl)) = ab" using Nil by (auto simp: fun_eq_iff)
  then show ?case using Nil isolates_refl [of st ab s] permits_refl [of writing "{}" tbl] by (intro exI [of _ tbl]) auto
next
  case (Cons p pages)
  note inv = Cons.prems(1) and act = Cons.prems(2) and s = Cons.prems(3)
  note sp = space_tableD [OF inv s]
  have p: "p < 256" using Cons.prems(4) by auto
  have e: "user_entry st p = pte_of (tbl p)" using act sp(8) [of p] p by (simp add: user_entry_def)
  have "\<exists>tbl'. isolates s st ab st' (ab(s \<mapsto> (t, tbl'))) \<and> permits writing (set (p # pages)) tbl tbl' \<and> pg_active st' = Some s \<and>
    pg_spaces st' = pg_spaces st \<and> (ok \<longrightarrow> (\<forall>p\<in>set (p # pages). \<exists>f. tbl' p = Some (f, writing))) \<and>
    (\<forall>x. x div 4096 \<in> page_frames tbl \<longrightarrow> pg_memory st' x = pg_memory st x)"
  proof (cases "tbl p")
    case None
    have "ab(s \<mapsto> (t, tbl)) = ab" using s by (auto simp: fun_eq_iff)
    moreover have "st' = st" "\<not> ok" using Cons.prems(5) e None by (simp_all add: pte_of_def)
    ultimately show ?thesis using isolates_refl [OF inv, of s] permits_refl [of writing "set (p # pages)" tbl] act
      by (intro exI [of _ tbl]) simp
  next
    case (Some fw)
    obtain f w where fw: "fw = (f, w)" by fastforce
    note pe = Some [unfolded fw]
    define st1 where "st1 = set_space_entry s p (pte f writing) st"
    define tbl1 where "tbl1 = tbl(p \<mapsto> (f, writing))"
    have i1: "isolates s st ab st1 (ab(s \<mapsto> (t, tbl1)))" unfolding st1_def tbl1_def by (rule permit_isolates [OF inv s pe])
    have inv1: "paging_inv st1 (ab(s \<mapsto> (t, tbl1)))" using i1 by (simp add: isolates_def)
    have m: "protect_pages writing pages st1 = (ok, st')"
      using Cons.prems(5) e pe act pte_grant [of f w] pte_revoke [of f w]
      by (simp add: pte_of_def st1_def set_user_entry_def split: if_splits)
    have "\<exists>tbl'. isolates s st1 (ab(s \<mapsto> (t, tbl1))) st' ((ab(s \<mapsto> (t, tbl1)))(s \<mapsto> (t, tbl'))) \<and> permits writing (set pages) tbl1 tbl' \<and>
        pg_active st' = Some s \<and> pg_spaces st' = pg_spaces st1 \<and> (ok \<longrightarrow> (\<forall>p\<in>set pages. \<exists>f. tbl' p = Some (f, writing))) \<and>
        (\<forall>x. x div 4096 \<in> page_frames tbl1 \<longrightarrow> pg_memory st' x = pg_memory st1 x)"
      by (rule Cons.IH [OF inv1 _ _ _ m]) (use act Cons.prems(4) in \<open>auto simp: st1_def\<close>)
    then obtain tbl' where r: "isolates s st1 (ab(s \<mapsto> (t, tbl1))) st' ((ab(s \<mapsto> (t, tbl1)))(s \<mapsto> (t, tbl')))"
        "permits writing (set pages) tbl1 tbl'" "pg_active st' = Some s" "pg_spaces st' = pg_spaces st1"
        "ok \<longrightarrow> (\<forall>p\<in>set pages. \<exists>f. tbl' p = Some (f, writing))"
        "\<forall>x. x div 4096 \<in> page_frames tbl1 \<longrightarrow> pg_memory st' x = pg_memory st1 x"
      by blast
    have pf: "page_frames tbl1 = page_frames tbl" unfolding tbl1_def by (rule map_frames_update [of tbl p f w writing, OF pe])
    have "permits writing (set (p # pages)) tbl tbl'"
      unfolding permits_def
    proof (intro conjI allI impI)
      fix q assume "tbl q = None"
      then have "tbl1 q = None" using pe by (auto simp: tbl1_def)
      then show "tbl' q = None" using r(2) unfolding permits_def by blast
    next
      fix q g v assume q: "tbl q = Some (g, v)"
      show "\<exists>u. tbl' q = Some (g, u) \<and> (u = v \<or> q \<in> set (p # pages) \<and> u = writing)"
      proof (cases "q = p")
        case True
        then have "tbl1 q = Some (g, writing)" using q pe by (simp add: tbl1_def)
        then show ?thesis using r(2) True unfolding permits_def by fastforce
      next
        case False
        then have "tbl1 q = Some (g, v)" using q by (simp add: tbl1_def)
        then show ?thesis using r(2) unfolding permits_def by fastforce
      qed
    qed
    moreover have "\<exists>f. tbl' p = Some (f, writing)" 
    proof -
      have "tbl1 p = Some (f, writing)" by (simp add: tbl1_def)
      then show ?thesis using r(2) unfolding permits_def by blast
    qed
    moreover have "pg_memory st' x = pg_memory st x" if x: "x div 4096 \<in> page_frames tbl" for x
    proof -
      have "x div 4096 \<noteq> t" using x sp(6) by (auto simp: map_ok_def)
      then have "pg_memory st1 x = pg_memory st x" using p sp(4) by (simp add: st1_def set_space_entry_def store32_other)
      then show ?thesis using r(6) x pf by simp
    qed
    moreover have "isolates s st ab st' (ab(s \<mapsto> (t, tbl')))" using isolates_trans [OF i1 r(1)] by simp
    ultimately show ?thesis using r(3,4,5) by (intro exI [of _ tbl']) (simp add: st1_def)
  qed
  then show ?case .
qed

section \<open>Writing into a space\<close>

definition user_byte :: "nat \<Rightarrow> paging \<Rightarrow> nat \<Rightarrow> byte" where
  "user_byte s st offset = pg_memory st (unat (space_entry s st (offset div 4096) AND NOT (page_size - 1)) + offset mod 4096)"

lemma user_byte_frame:
  assumes "paging_inv st ab" "ab s = Some (t, tbl)" "tbl (offset div 4096) = Some (f, w)"
  shows "user_byte s st offset = pg_memory st (f * 4096 + offset mod 4096)"
  using page_frameD [OF assms] space_tableD(8) [OF assms(1,2), of "offset div 4096"] assms(3) pte_frame [of f w]
  by (simp add: user_byte_def pte_of_def page_frame(1))

declare write_chunks.simps [simp del]

lemma write_chunks_isolates:
  assumes "paging_inv st ab" "ab s = Some (t, tbl)"
    "\<forall>off. current \<le> off \<and> off < current + length source \<longrightarrow> tbl (off div 4096) \<noteq> None"
  shows "isolates s st ab (write_chunks s current source st) ab \<and>
    (\<forall>off. tbl (off div 4096) \<noteq> None \<longrightarrow> user_byte s (write_chunks s current source st) off =
      (if current \<le> off \<and> off < current + length source then source ! (off - current) else user_byte s st off)) \<and>
    pg_spaces (write_chunks s current source st) = pg_spaces st \<and> pg_active (write_chunks s current source st) = pg_active st"
  using assms
proof (induction s current source st rule: write_chunks.induct)
  case (1 s current source st)
  note inv = 1(2) and s = 1(3) and src = 1(4)
  show ?case
  proof (cases "source = []")
    case True
    then show ?thesis using isolates_refl [OF inv, of s] by (auto simp: write_chunks.simps)
  next
    case False
    note sp = space_tableD [OF inv s]
    define page where "page = current div 4096"
    define d where "d = current mod 4096"
    define chunk where "chunk = min (4096 - d) (length source)"
    have d: "d < 4096" "current = page * 4096 + d" by (simp_all add: d_def page_def)
    have ch: "0 < chunk" "chunk \<le> length source" "d + chunk \<le> 4096" using False d(1) by (auto simp: chunk_def)
    obtain f w where pe: "tbl page = Some (f, w)" using src False by (auto simp: page_def)
    note pd = page_frameD [OF inv s pe]
    have fr: "unat (space_entry s st page AND NOT (page_size - 1)) = f * 4096"
      using sp(8) [of page] pd(1,4) pe pte_frame [of f w] by (simp add: pte_of_def page_frame(1))
    define st1 where "st1 = st\<lparr>pg_memory := copy_bytes (f * 4096 + d) (take chunk source) (pg_memory st)\<rparr>"
    have eq: "write_chunks s current source st = write_chunks s (current + chunk) (drop chunk source) st1"
      using False fr by (subst write_chunks.simps) (simp add: Let_def page_def [symmetric] d_def [symmetric] chunk_def [symmetric] st1_def)
    have len: "d + length (take chunk source) \<le> 4096" using ch by simp
    have other: "pg_memory st1 x = pg_memory st x" if "x div 4096 \<noteq> f" for x
      using that len by (simp add: st1_def copy_bytes_other)
    have i1: "isolates s st ab st1 (ab(s := Some (t, tbl)))"
    proof (rule isolatesI [OF inv])
      have own: "owned (ab(s := Some (t, tbl))) s = owned ab s" using s by (simp add: owned_def)
      show "pmm_ok (owned (ab(s \<mapsto> (t, tbl))) s \<union> others ab s) (pg_pmm st1)" "pmm_initialized (pg_pmm st1)"
        using inv owned_all [of ab s] unfolding own by (simp_all add: st1_def paging_inv_def)
      show "owned (ab(s \<mapsto> (t, tbl))) s \<inter> others ab s = {}" unfolding own by (rule owned_disjoint [OF inv])
      show "free_set (pg_pmm st1) \<union> owned (ab(s \<mapsto> (t, tbl))) s = free_set (pg_pmm st) \<union> owned ab s" unfolding own by (simp add: st1_def)
      have "table_holds (pg_memory st1) t tbl"
        by (rule table_holds_cong [OF sp(7)]) (use pd(3) in \<open>auto intro: other\<close>)
      then show "space_ok st1 s (Some (t, tbl))" using sp(3,6) by (simp add: space_ok_def st1_def)
      show "pg_memory st1 x = pg_memory st x" if "x div 4096 \<in> others ab s \<or> x div 4096 \<notin> allocatable" for x
        by (rule other) (use that pd(2,5) owned_disjoint [OF inv, of s] in blast)
    qed (simp_all add: st1_def)
    moreover have "ab(s \<mapsto> (t, tbl)) = ab" using s by (auto simp: fun_eq_iff)
    ultimately have i1: "isolates s st ab st1 ab" by simp
    have inv1: "paging_inv st1 ab" using i1 by (simp add: isolates_def)
    have src1: "\<forall>off. current + chunk \<le> off \<and> off < current + chunk + length (drop chunk source) \<longrightarrow> tbl (off div 4096) \<noteq> None"
      using src ch by auto
    have IH: "isolates s st1 ab (write_chunks s (current + chunk) (drop chunk source) st1) ab \<and>
      (\<forall>off. tbl (off div 4096) \<noteq> None \<longrightarrow> user_byte s (write_chunks s (current + chunk) (drop chunk source) st1) off =
        (if current + chunk \<le> off \<and> off < current + chunk + length (drop chunk source) then drop chunk source ! (off - (current + chunk))
         else user_byte s st1 off)) \<and>
      pg_spaces (write_chunks s (current + chunk) (drop chunk source) st1) = pg_spaces st1 \<and>
      pg_active (write_chunks s (current + chunk) (drop chunk source) st1) = pg_active st1"
      using 1(1) [OF False page_def d_def chunk_def refl] inv1 s src1 unfolding page_def [symmetric] fr st1_def by blast
    have b1: "user_byte s st1 off = (if current \<le> off \<and> off < current + chunk then source ! (off - current) else user_byte s st off)"
      if mp: "tbl (off div 4096) \<noteq> None" for off
    proof -
      obtain g v where g: "tbl (off div 4096) = Some (g, v)" using mp by auto
      have u: "user_byte s st1 off = pg_memory st1 (g * 4096 + off mod 4096)" "user_byte s st off = pg_memory st (g * 4096 + off mod 4096)"
        using user_byte_frame [OF inv1 s g] user_byte_frame [OF inv s g] by simp_all
      show ?thesis
      proof (cases "off div 4096 = page")
        case True
        define r where "r = off mod 4096"
        have gf: "g = f" and o: "off = page * 4096 + r" using True g pe by (auto simp: r_def)
        have "pg_memory st1 (f * 4096 + r) = (if d \<le> r \<and> r < d + chunk then source ! (r - d) else pg_memory st (f * 4096 + r))"
          using ch by (auto simp: st1_def copy_bytes_def)
        then show ?thesis unfolding u r_def [symmetric] gf unfolding o d(2) by simp
      next
        case False
        then have "g \<noteq> f" using sp(6) g pe unfolding map_ok_def by blast
        then have "pg_memory st1 (g * 4096 + off mod 4096) = pg_memory st (g * 4096 + off mod 4096)" by (intro other) simp
        moreover have "\<not> (current \<le> off \<and> off < current + chunk)"
        proof
          assume "current \<le> off \<and> off < current + chunk"
          then have "off div 4096 = page" using d ch(3) by (intro frame_of_address) simp_all
          then show False using False by simp
        qed
        ultimately show ?thesis using u by auto
      qed
    qed
    have "user_byte s (write_chunks s current source st) off =
        (if current \<le> off \<and> off < current + length source then source ! (off - current) else user_byte s st off)"
      if "tbl (off div 4096) \<noteq> None" for off
      using IH b1 [OF that] that ch unfolding eq by auto
    then show ?thesis using IH isolates_trans [OF i1] unfolding eq by (auto simp: st1_def)
  qed
qed

end
