(* ===== verification/Address_Spaces.thy ===== *)
theory Address_Spaces
  imports Paging_Correct
begin

text \<open>
  What the rest of the kernel relies on of \<open>Paging\<close>: the calls as steps of one machine, the view a
  user program has of its window (which byte it reads at an offset and whether it may write there), and
  the theorems on the isolation of spaces, on the effect of every call on the view, and on the frames.
\<close>

section \<open>Calls and views\<close>

datatype paging_call = CreateSpace nat | DestroySpace nat | ClearSpace nat | ActivateSpace "nat option"
  | MapUser u32 u32 bool | ProtectUser u32 u32 bool | ClearUser | WriteSpace nat u32 "bytes option" u32

fun paging_step :: "paging_call \<Rightarrow> paging \<Rightarrow> bool \<times> paging" where
  "paging_step (CreateSpace s) st = address_space_create s st"
| "paging_step (DestroySpace s) st = (True, address_space_destroy s st)"
| "paging_step (ClearSpace s) st = (True, address_space_clear s st)"
| "paging_step (ActivateSpace e) st = address_space_activate e st"
| "paging_step (MapUser offset len writing) st = map_user offset len writing st"
| "paging_step (ProtectUser offset len writing) st = protect_user offset len writing st"
| "paging_step ClearUser st = (True, clear_user st)"
| "paging_step (WriteSpace s offset source len) st = address_space_write s offset source len st"

fun call_target :: "paging_call \<Rightarrow> paging \<Rightarrow> nat option" where
  "call_target (CreateSpace s) st = Some s"
| "call_target (DestroySpace s) st = Some s"
| "call_target (ClearSpace s) st = Some s"
| "call_target (ActivateSpace e) st = None"
| "call_target (MapUser offset len writing) st = pg_active st"
| "call_target (ProtectUser offset len writing) st = pg_active st"
| "call_target ClearUser st = pg_active st"
| "call_target (WriteSpace s offset source len) st = Some s"

text \<open>What the program of a space sees at an offset of its window: nothing, or a byte and whether it may write it.\<close>

definition user_view :: "paging \<Rightarrow> nat \<Rightarrow> nat \<Rightarrow> (byte \<times> bool) option" where
  "user_view st s offset =
    (if 0x100000 \<le> offset \<or> as_table_physical (pg_spaces st s) = 0 then None
     else let entry = space_entry s st (offset div 4096) in
       if entry AND pte_present = 0 \<or> entry AND pte_user = 0 then None
       else Some (user_byte s st offset, entry AND pte_writable \<noteq> 0))"

definition map_view :: "(nat \<Rightarrow> byte) \<Rightarrow> (nat \<times> page_map) option \<Rightarrow> nat \<Rightarrow> (byte \<times> bool) option" where
  "map_view m e offset =
    (case e of None \<Rightarrow> None
     | Some (t, tbl) \<Rightarrow> map_option (\<lambda>(f, w). (m (f * 4096 + offset mod 4096), w)) (tbl (offset div 4096)))"

lemma user_view_map:
  assumes inv: "paging_inv st ab"
  shows "user_view st s offset = map_view (pg_memory st) (ab s) offset"
proof (cases "ab s")
  case None
  then show ?thesis using no_space_iff [OF inv, of s] by (simp add: user_view_def map_view_def)
next
  case (Some a)
  obtain t tbl where s: "ab s = Some (t, tbl)" using Some by (cases a) auto
  note sp = space_tableD [OF inv s]
  have out: "tbl (offset div 4096) = None" if "0x100000 \<le> offset"
  proof -
    have "\<not> offset div 4096 < 256" using that by linarith
    then show ?thesis using sp(6) unfolding map_ok_def by blast
  qed
  have page: "offset div 4096 < 1024" if "offset < 0x100000" using that by linarith
  show ?thesis
  proof (cases "tbl (offset div 4096)")
    case None
    then show ?thesis using sp(8) [OF page] s by (simp add: user_view_def map_view_def pte_of_def)
  next
    case (Some b)
    obtain f w where p: "tbl (offset div 4096) = Some (f, w)" using Some by (cases b) auto
    have "offset < 0x100000" using out p by force
    then show ?thesis using sp(8) [OF page] s p sp(5) user_byte_frame [OF inv s p]
      by (simp add: user_view_def map_view_def pte_of_def)
  qed
qed

lemma map_view_cong:
  assumes "\<And>x. x div 4096 \<in> page_frames tbl \<Longrightarrow> m' x = m x"
  shows "map_view m' (Some (t, tbl)) offset = map_view m (Some (t, tbl)) offset"
proof (cases "tbl (offset div 4096)")
  case (Some b)
  obtain f w where p: "tbl (offset div 4096) = Some (f, w)" using Some by (cases b) auto
  have "(f * 4096 + offset mod 4096) div 4096 = f" by (rule frame_of_address) simp_all
  then have "m' (f * 4096 + offset mod 4096) = m (f * 4096 + offset mod 4096)"
    using p by (intro assms) (auto simp: page_frames_def)
  then show ?thesis using p by (simp add: map_view_def)
qed (simp add: map_view_def)

lemma isolates_view:
  assumes inv: "paging_inv st ab" and i: "isolates s st ab st' ab'" and r: "r \<noteq> s"
  shows "user_view st' r offset = user_view st r offset"
proof -
  have ab: "ab' r = ab r" and inv': "paging_inv st' ab'" using i r by (simp_all add: isolates_def)
  have "map_view (pg_memory st') (ab r) offset = map_view (pg_memory st) (ab r) offset"
  proof (cases "ab r")
    case (Some a)
    obtain t tbl where a: "ab r = Some (t, tbl)" using Some by (cases a) auto
    have "page_frames tbl \<subseteq> others ab s" using a r by (auto simp: others_def owned_def)
    then show ?thesis unfolding a using i by (intro map_view_cong) (auto simp: isolates_def)
  qed (simp add: map_view_def)
  then show ?thesis using user_view_map [OF inv] user_view_map [OF inv'] ab by simp
qed

section \<open>The invariant\<close>

definition user_directory_entry :: "paging \<Rightarrow> u32" where
  "user_directory_entry st =
    (case pg_active st of None \<Rightarrow> pg_legacy_address st | Some s \<Rightarrow> as_table_physical (pg_spaces st s))
      OR pte_present OR pte_writable OR pte_user"

definition supervisor_only :: "paging \<Rightarrow> bool" where
  "supervisor_only st \<longleftrightarrow> (\<forall>i<1024. i \<noteq> user_directory_index \<longrightarrow> pg_directory st ! i AND pte_user = 0)"

definition directory_ok :: "paging \<Rightarrow> bool" where
  "directory_ok st \<longleftrightarrow> length (pg_directory st) = 1024 \<and> pg_legacy_address st \<noteq> 0 \<and>
    pg_directory st ! user_directory_index = user_directory_entry st \<and> supervisor_only st"

definition paging_abs :: "nat set \<Rightarrow> paging \<Rightarrow> (nat \<Rightarrow> (nat \<times> page_map) option) \<Rightarrow> bool" where
  "paging_abs F st ab \<longleftrightarrow> paging_inv st ab \<and> pool st ab = F \<and> (\<forall>s t tbl. ab s = Some (t, tbl) \<longrightarrow> counted st s tbl) \<and>
    (\<forall>s. pg_active st = Some s \<longrightarrow> ab s \<noteq> None) \<and> directory_ok st"

text \<open>\<open>paging_ok F st\<close>: the state is in order, and \<open>F\<close> are the frames its spaces and the allocator share.\<close>

definition paging_ok :: "nat set \<Rightarrow> paging \<Rightarrow> bool" where
  "paging_ok F st \<longleftrightarrow> (\<exists>ab. paging_abs F st ab)"

text \<open>A call keeps the state in order and everything that is not its target.\<close>

definition call_isolates :: "nat set \<Rightarrow> nat option \<Rightarrow> paging \<Rightarrow> paging \<Rightarrow> bool" where
  "call_isolates F target st st' \<longleftrightarrow> paging_ok F st' \<and>
    (\<forall>s offset. target \<noteq> Some s \<longrightarrow> user_view st' s offset = user_view st s offset) \<and>
    (\<forall>x. x div 4096 \<notin> allocatable \<longrightarrow> pg_memory st' x = pg_memory st x) \<and>
    pg_kernel_tables st' = pg_kernel_tables st"

lemma call_isolatesI:
  assumes a: "paging_abs F st ab" and i: "isolates s st ab st' ab'" and t: "target = Some s"
    and c: "\<And>t tbl. ab' s = Some (t, tbl) \<Longrightarrow> counted st' s tbl"
    and act: "\<And>r. pg_active st' = Some r \<Longrightarrow> ab' r \<noteq> None" and dir: "directory_ok st'"
    and kt: "pg_kernel_tables st' = pg_kernel_tables st"
  shows "call_isolates F target st st'"
proof -
  have inv: "paging_inv st ab" and inv': "paging_inv st' ab'" using a i by (simp_all add: paging_abs_def isolates_def)
  have "counted st' r tbl" if "ab' r = Some (t, tbl)" for r t tbl
  proof (cases "r = s")
    case True
    then show ?thesis using c that by simp
  next
    case False
    then have "ab r = Some (t, tbl)" "pg_spaces st' r = pg_spaces st r" using i that by (auto simp: isolates_def)
    then show ?thesis using a by (auto simp: paging_abs_def counted_def)
  qed
  moreover have "pool st' ab' = F" using a i by (simp add: paging_abs_def isolates_def)
  ultimately have "paging_abs F st' ab'" using inv' act dir by (auto simp: paging_abs_def)
  then have "paging_ok F st'" by (auto simp: paging_ok_def)
  moreover have "\<forall>r offset. target \<noteq> Some r \<longrightarrow> user_view st' r offset = user_view st r offset"
    using isolates_view [OF inv i] t by auto
  ultimately show ?thesis using i kt unfolding call_isolates_def isolates_def by blast
qed

section \<open>Every call\<close>

definition same_tables :: "paging \<Rightarrow> paging \<Rightarrow> bool" where
  "same_tables st st' \<longleftrightarrow> pg_directory st' = pg_directory st \<and> pg_kernel_tables st' = pg_kernel_tables st \<and>
    pg_legacy_address st' = pg_legacy_address st"

lemma same_tables_set_entry [simp]: "same_tables st (set_user_entry p e st)" "same_tables st (set_space_entry s p e st)"
  by (simp_all add: same_tables_def set_user_entry_def set_space_entry_def split: option.split)

lemma same_tables_trans: "same_tables st st1 \<Longrightarrow> same_tables st1 st2 \<Longrightarrow> same_tables st st2"
  by (simp add: same_tables_def)

lemma same_tables_clear [simp]: "same_tables st (address_space_clear s st)"
proof -
  have step: "same_tables st (clear_space_page s p st)" for p st
    by (simp add: clear_space_page_def Let_def same_tables_def set_space_entry_def)
  have "same_tables st (fold (clear_space_page s) ps st)" for ps
  proof (induction ps arbitrary: st)
    case (Cons p ps)
    show ?case using same_tables_trans [OF step Cons.IH] by simp
  qed (simp add: same_tables_def)
  then show ?thesis by (auto simp: address_space_clear_def Let_def same_tables_def)
qed

lemma same_tables_grant: "same_tables st (grant_writable w p st)"
  by (simp add: grant_writable_def) (simp add: same_tables_def)

lemma same_tables_map: "map_pages w ps st = (ok, st') \<Longrightarrow> same_tables st st'"
proof (induction w ps st rule: map_pages.induct)
  case (2 writing page pages st)
  show ?case
  proof (cases "user_entry st page AND pte_present \<noteq> 0")
    case True
    then show ?thesis using 2(1,4) same_tables_trans [OF same_tables_grant] by simp
  next
    case False
    show ?thesis
    proof (cases "pg_active st")
      case None
      define st1 where "st1 = set_user_entry page (legacy_user_physical_base + word_of_nat page * page_size OR pte_present OR pte_user) st"
      have "same_tables st (grant_writable writing page st1)"
        using same_tables_trans [OF _ same_tables_grant] by (simp add: st1_def)
      then show ?thesis using 2(2) [OF _ None refl refl] 2(4) False None same_tables_trans
        by (simp add: st1_def [symmetric] Let_def)
    next
      case (Some s)
      obtain frame p where a: "allocate_frame (pg_pmm st) = (frame, p)" by (cases "allocate_frame (pg_pmm st)") auto
      define st1 where "st1 = st\<lparr>pg_pmm := p, pg_memory := clear_page (unat frame) (pg_memory st),
        pg_spaces := (pg_spaces st)(s := (pg_spaces st s)\<lparr>as_mapped_pages := as_mapped_pages (pg_spaces st s) + 1\<rparr>)\<rparr>"
      define st2 where "st2 = set_user_entry page (frame OR pte_present OR pte_user) st1"
      have "same_tables st st1" by (simp add: st1_def same_tables_def)
      then have "same_tables st st2" using same_tables_trans same_tables_set_entry(1) unfolding st2_def by blast
      then have st2: "same_tables st (grant_writable writing page st2)" using same_tables_trans same_tables_grant by blast
      have eq: "map_pages writing (page # pages) st =
          (if frame = 0 then (False, st\<lparr>pg_pmm := p\<rparr>) else map_pages writing pages (grant_writable writing page st2))"
        using False Some a by (simp add: st2_def st1_def Let_def)
      show ?thesis
      proof (cases "frame = 0")
        case True
        then show ?thesis using 2(4) unfolding eq by (auto simp: same_tables_def)
      next
        case nz: False
        then have "map_pages writing pages (grant_writable writing page st2) = (ok, st')" using 2(4) unfolding eq by simp
        then have "same_tables (grant_writable writing page st2) st'"
          using 2(3) [OF _ Some a [symmetric] nz refl st1_def st2_def] False by simp
        then show ?thesis using same_tables_trans [OF st2] by simp
      qed
    qed
  qed
qed (simp add: same_tables_def)

lemma same_tables_protect: "protect_pages w ps st = (ok, st') \<Longrightarrow> same_tables st st'"
proof (induction w ps st rule: protect_pages.induct)
  case (2 writing page pages st)
  show ?case
  proof (cases "user_entry st page AND pte_present = 0")
    case True
    then show ?thesis using 2(2) by (simp add: same_tables_def)
  next
    case False
    then show ?thesis using 2 same_tables_trans [OF same_tables_set_entry(1)] by (simp split: if_splits)
  qed
qed (simp add: same_tables_def)

lemma same_tables_write: "same_tables st (write_chunks s current source st)"
proof (induction s current source st rule: write_chunks.induct)
  case (1 s current source st)
  show ?case
  proof (cases "source = []")
    case True
    then show ?thesis by (simp add: write_chunks.simps same_tables_def)
  next
    case False
    then show ?thesis using 1 [OF False refl refl refl refl]
      by (subst write_chunks.simps) (simp add: Let_def same_tables_def)
  qed
qed

lemma directory_ok_same:
  assumes "directory_ok st" "same_tables st st'" "pg_active st' = pg_active st"
    "\<And>s. pg_active st = Some s \<Longrightarrow> as_table_physical (pg_spaces st' s) = as_table_physical (pg_spaces st s)"
  shows "directory_ok st'"
  using assms by (auto simp: directory_ok_def same_tables_def user_directory_entry_def supervisor_only_def split: option.splits)

lemma directory_ok_install:
  assumes "directory_ok st" "pg_legacy_address st' = pg_legacy_address st" "pg_directory st' = pg_directory st"
    "table = (case pg_active st' of None \<Rightarrow> pg_legacy_address st | Some s \<Rightarrow> as_table_physical (pg_spaces st' s))" "table \<noteq> 0"
  shows "directory_ok (install_user_table table st')"
  using assms by (auto simp: directory_ok_def install_user_table_def user_directory_entry_def supervisor_only_def user_directory_index_def split: option.split)

lemma directory_ok_isolates:
  assumes inv: "paging_inv st ab" and i: "isolates s st ab st' (ab(s \<mapsto> (t, tbl')))" and s: "ab s = Some (t, tbl)"
    and d: "directory_ok st" "same_tables st st'" "pg_active st' = pg_active st"
  shows "directory_ok st'"
proof (rule directory_ok_same [OF d])
  fix r
  have inv': "paging_inv st' (ab(s \<mapsto> (t, tbl')))" using i by (simp add: isolates_def)
  show "as_table_physical (pg_spaces st' r) = as_table_physical (pg_spaces st r)"
  proof (cases "r = s")
    case True
    then show ?thesis using space_tableD(3) [OF inv s] space_tableD(3) [OF inv', of s t tbl'] by simp
  qed (use i in \<open>simp add: isolates_def\<close>)
qed

lemma call_isolates_fields:
  assumes a: "paging_abs F st ab"
    and f: "pg_pmm st' = pg_pmm st" "pg_memory st' = pg_memory st" "pg_spaces st' = pg_spaces st" "pg_kernel_tables st' = pg_kernel_tables st"
    and act: "\<And>r. pg_active st' = Some r \<Longrightarrow> ab r \<noteq> None" and dir: "directory_ok st'"
  shows "call_isolates F target st st'"
proof -
  have "paging_inv st' ab = paging_inv st ab" by (rule paging_inv_fields [OF f(1,2)]) (simp add: f)
  then have "paging_abs F st' ab" using a f act dir by (simp add: paging_abs_def counted_def pool_def)
  moreover have "user_view st' s offset = user_view st s offset" for s offset
    using f by (simp add: user_view_def user_byte_def space_entry_def Let_def)
  ultimately show ?thesis using f by (auto simp: call_isolates_def paging_ok_def)
qed

lemma call_isolates_refl: "paging_abs F st ab \<Longrightarrow> call_isolates F target st st"
  by (rule call_isolates_fields) (auto simp: paging_abs_def)

lemma legacy_map: "map_pages w ps st = (ok, st') \<Longrightarrow> pg_active st = None \<Longrightarrow> \<exists>l. st' = st\<lparr>pg_legacy_table := l\<rparr>"
proof (induction w ps st rule: map_pages.induct)
  case (2 writing page pages st)
  have set: "\<exists>l. set_user_entry page e st1 = st\<lparr>pg_legacy_table := l\<rparr>" if "st1 = st\<lparr>pg_legacy_table := l1\<rparr>" for e st1 l1
    using that 2(5) by (simp add: set_user_entry_def) blast
  have grant: "\<exists>l. grant_writable writing page st1 = st\<lparr>pg_legacy_table := l\<rparr>" if "st1 = st\<lparr>pg_legacy_table := l1\<rparr>" for st1 l1
    using set [OF that] that by (auto simp: grant_writable_def)
  define st1 where "st1 = (if user_entry st page AND pte_present \<noteq> 0 then st
      else set_user_entry page (legacy_user_physical_base + word_of_nat page * page_size OR pte_present OR pte_user) st)"
  obtain l1 where "st1 = st\<lparr>pg_legacy_table := l1\<rparr>"
    using set [of st "pg_legacy_table st"] by (cases "user_entry st page AND pte_present \<noteq> 0") (auto simp: st1_def intro: that [of "pg_legacy_table st"])
  from grant [OF this] obtain l where l: "grant_writable writing page st1 = st\<lparr>pg_legacy_table := l\<rparr>" by blast
  have m: "map_pages writing pages (grant_writable writing page st1) = (ok, st')"
    using 2(4,5) by (auto simp: st1_def Let_def split: if_splits)
  have "\<exists>l'. st' = (grant_writable writing page st1)\<lparr>pg_legacy_table := l'\<rparr>"
  proof (cases "user_entry st page AND pte_present \<noteq> 0")
    case True
    then show ?thesis using 2(1) [OF True] m l 2(5) by (simp add: st1_def)
  next
    case False
    then show ?thesis using 2(2) [OF False 2(5) refl refl] m l 2(5) by (simp add: st1_def)
  qed
  then show ?case unfolding l by auto
qed (auto intro: exI [of _ "pg_legacy_table st'"])

lemma legacy_protect: "protect_pages w ps st = (ok, st') \<Longrightarrow> pg_active st = None \<Longrightarrow> \<exists>l. st' = st\<lparr>pg_legacy_table := l\<rparr>"
proof (induction w ps st rule: protect_pages.induct)
  case (2 writing page pages st)
  show ?case
  proof (cases "user_entry st page AND pte_present = 0")
    case True
    then show ?thesis using 2(2) by (auto intro: exI [of _ "pg_legacy_table st'"])
  next
    case False
    define st1 where "st1 = set_user_entry page (if writing then user_entry st page OR pte_writable else user_entry st page AND NOT pte_writable) st"
    have l: "\<exists>l. st1 = st\<lparr>pg_legacy_table := l\<rparr>" using 2(3) by (auto simp: st1_def set_user_entry_def)
    then have "\<exists>l'. st' = st1\<lparr>pg_legacy_table := l'\<rparr>" using 2(1) [OF False] 2(2,3) False by (auto simp: st1_def)
    then show ?thesis using l by auto
  qed
qed (auto intro: exI [of _ "pg_legacy_table st'"])

lemma call_isolates_legacy: "paging_abs F st ab \<Longrightarrow> \<exists>l. st' = st\<lparr>pg_legacy_table := l\<rparr> \<Longrightarrow> call_isolates F target st st'"
  by (rule call_isolates_fields)
    (auto simp: paging_abs_def directory_ok_def user_directory_entry_def supervisor_only_def split: option.splits)

lemma create_call:
  assumes a: "paging_abs F st ab" and c: "address_space_create s st = (ok, st')"
  shows "call_isolates F (Some s) st st'"
proof (cases ok)
  case False
  then show ?thesis using create_isolates [OF _ c, of ab] a call_isolates_refl [OF a] by (simp add: paging_abs_def)
next
  case True
  have inv: "paging_inv st ab" using a by (simp add: paging_abs_def)
  obtain t where new: "ab s = None" and i: "isolates s st ab st' (ab(s \<mapsto> (t, \<lambda>_. None)))"
    using create_isolates [OF inv c] True by auto
  have f: "as_mapped_pages (pg_spaces st' s) = 0"
    "pg_active st' = pg_active st" "same_tables st st'"
    using c True by (auto simp: address_space_create_def same_tables_def split: if_splits prod.splits)
  have na: "pg_active st \<noteq> Some s" using a new by (auto simp: paging_abs_def)
  show ?thesis
  proof (rule call_isolatesI [OF a i refl])
    show "directory_ok st'"
      by (rule directory_ok_same [of st]) (use a f na i in \<open>auto simp: paging_abs_def isolates_def\<close>)
    show "counted st' s tbl" if "(ab(s \<mapsto> (t, \<lambda>_. None))) s = Some (u, tbl)" for u tbl
      using that f(1) by (auto simp: counted_def)
    show "(ab(s \<mapsto> (t, \<lambda>_. None))) r \<noteq> None" if "pg_active st' = Some r" for r
      using that f(2) a by (simp add: paging_abs_def)
    show "pg_kernel_tables st' = pg_kernel_tables st" using f(3) by (simp add: same_tables_def)
  qed
qed

text \<open>A call that changes the pages of a space that stays in use.\<close>

lemma update_call:
  assumes a: "paging_abs F st ab" and s: "ab s = Some (t, tbl)" and i: "isolates s st ab st' (ab(s \<mapsto> (t, tbl')))"
    and c: "counted st' s tbl'" and f: "same_tables st st'" "pg_active st' = pg_active st"
  shows "call_isolates F (Some s) st st'"
proof (rule call_isolatesI [OF a i refl])
  show "directory_ok st'" using a directory_ok_isolates [OF _ i s _ f] by (simp add: paging_abs_def)
  show "(ab(s \<mapsto> (t, tbl'))) r \<noteq> None" if "pg_active st' = Some r" for r
    using that f(2) a by (simp add: paging_abs_def)
qed (use c f in \<open>auto simp: same_tables_def\<close>)

lemma clear_call:
  assumes a: "paging_abs F st ab"
  shows "call_isolates F (Some s) st (address_space_clear s st)"
proof (cases "ab s")
  case None
  then have "address_space_clear s st = st" using a no_space_iff [of st ab s] by (simp add: paging_abs_def address_space_clear_def)
  then show ?thesis using call_isolates_refl [OF a] by simp
next
  case (Some e)
  obtain t tbl where s: "ab s = Some (t, tbl)" using Some by (cases e) auto
  have inv: "paging_inv st ab" using a by (simp add: paging_abs_def)
  note c = clear_isolates [OF inv s]
  show ?thesis by (rule update_call [OF a s c(1) _ _ c(3)]) (use c(2) in \<open>simp_all add: counted_def\<close>)
qed

lemma destroy_call:
  assumes a: "paging_abs F st ab"
  shows "call_isolates F (Some s) st (address_space_destroy s st)"
proof (cases "ab s")
  case None
  then have "address_space_destroy s st = st" using a no_space_iff [of st ab s] by (simp add: paging_abs_def address_space_destroy_def)
  then show ?thesis using call_isolates_refl [OF a] by simp
next
  case (Some e)
  obtain t tbl where s: "ab s = Some (t, tbl)" using Some by (cases e) auto
  have inv: "paging_inv st ab" and dir: "directory_ok st" using a by (simp_all add: paging_abs_def)
  note d = destroy_isolates [OF inv s]
  define st1 where "st1 = (if pg_active st = Some s then install_user_table (pg_legacy_address st) (st\<lparr>pg_active := None\<rparr>) else st)"
  have st1: "directory_ok st1" "pg_active st1 = (if pg_active st = Some s then None else pg_active st)" "pg_spaces st1 = pg_spaces st"
    "pg_kernel_tables st1 = pg_kernel_tables st"
    using dir directory_ok_install [OF dir, of "st\<lparr>pg_active := None\<rparr>"]
    by (auto simp: st1_def directory_ok_def install_user_table_def)
  have "same_tables st1 (address_space_destroy s st)"
    using same_tables_clear [of st1 s] no_space_iff [OF inv, of s] s
    by (simp add: address_space_destroy_def st1_def [symmetric] Let_def same_tables_def)
  then have tb: "same_tables st1 (address_space_destroy s st)" "pg_kernel_tables (address_space_destroy s st) = pg_kernel_tables st"
    using st1(4) by (simp_all add: same_tables_def)
  show ?thesis
  proof (rule call_isolatesI [OF a d(1) refl _ _ _ tb(2)])
    show "directory_ok (address_space_destroy s st)"
      by (rule directory_ok_same [OF st1(1) tb(1)]) (use st1 d(1,2) in \<open>auto simp: isolates_def split: if_splits\<close>)
    show "(ab(s := None)) r \<noteq> None" if "pg_active (address_space_destroy s st) = Some r" for r
      using that d(2) a by (auto simp: paging_abs_def split: if_splits)
  qed simp
qed

lemma activate_call:
  assumes a: "paging_abs F st ab" and c: "address_space_activate e st = (ok, st')"
  shows "call_isolates F target st st'"
proof (cases ok)
  case False
  then have "st' = st" using c by (auto simp: address_space_activate_def split: option.splits if_splits)
  then show ?thesis using call_isolates_refl [OF a] by simp
next
  case True
  have inv: "paging_inv st ab" and dir: "directory_ok st" using a by (simp_all add: paging_abs_def)
  define table where "table = (case e of None \<Rightarrow> pg_legacy_address st | Some s \<Rightarrow> as_table_physical (pg_spaces st s))"
  have st': "st' = install_user_table table (st\<lparr>pg_active := e\<rparr>)" "table \<noteq> 0" "\<And>s. e = Some s \<Longrightarrow> ab s \<noteq> None"
    using c True dir no_space_iff [OF inv]
    by (auto simp: address_space_activate_def table_def directory_ok_def split: option.splits if_splits)
  show ?thesis
  proof (rule call_isolates_fields [OF a])
    show "directory_ok st'" unfolding st'(1) by (rule directory_ok_install [OF dir]) (use st'(2) in \<open>simp_all add: table_def split: option.split\<close>)
    show "ab r \<noteq> None" if "pg_active st' = Some r" for r using that st'(3) unfolding st'(1) by (simp add: install_user_table_def)
  qed (simp_all add: st'(1) install_user_table_def)
qed

text \<open>In the active space, the pages of the window that a call concerns.\<close>

lemma active_space:
  assumes "paging_abs F st ab" "pg_active st = Some s"
  obtains t tbl where "ab s = Some (t, tbl)" "counted st s tbl"
  using assms by (force simp: paging_abs_def)

lemma map_call:
  assumes a: "paging_abs F st ab" and c: "map_user offset len w st = (ok, st')"
  shows "call_isolates F (pg_active st) st st'"
proof (cases "len = 0 \<or> bad_window offset len \<or> \<not> has_user_table st")
  case True
  then have "st' = st" using c by (auto simp: map_user_def)
  then show ?thesis using call_isolates_refl [OF a] by simp
next
  case False
  then have m: "map_pages w (window_pages offset len) st = (ok, st')" using c by (simp add: map_user_def)
  show ?thesis
  proof (cases "pg_active st")
    case None
    then show ?thesis using call_isolates_legacy [OF a legacy_map [OF m None]] by simp
  next
    case (Some s)
    obtain t tbl where s: "ab s = Some (t, tbl)" "counted st s tbl" using active_space [OF a Some] by blast
    have inv: "paging_inv st ab" using a by (simp add: paging_abs_def)
    have w: "set (window_pages offset len) \<subseteq> {..<256}" using window_pages_bound(1) False by blast
    obtain tbl' where t: "isolates s st ab st' (ab(s \<mapsto> (t, tbl')))" "pg_active st' = Some s" "counted st' s tbl'"
      using map_pages_isolates [OF inv Some s w _ m] by auto
    show ?thesis unfolding Some by (rule update_call [OF a s(1) t(1,3) same_tables_map [OF m]]) (use t(2) Some in simp)
  qed
qed

lemma protect_call:
  assumes a: "paging_abs F st ab" and c: "protect_user offset len w st = (ok, st')"
  shows "call_isolates F (pg_active st) st st'"
proof (cases "len = 0 \<or> bad_window offset len \<or> \<not> has_user_table st")
  case True
  then have "st' = st" using c by (auto simp: protect_user_def)
  then show ?thesis using call_isolates_refl [OF a] by simp
next
  case False
  then have m: "protect_pages w (window_pages offset len) st = (ok, st')" using c by (simp add: protect_user_def)
  show ?thesis
  proof (cases "pg_active st")
    case None
    then show ?thesis using call_isolates_legacy [OF a legacy_protect [OF m None]] by simp
  next
    case (Some s)
    obtain t tbl where s: "ab s = Some (t, tbl)" "counted st s tbl" using active_space [OF a Some] by blast
    have inv: "paging_inv st ab" using a by (simp add: paging_abs_def)
    have w: "set (window_pages offset len) \<subseteq> {..<256}" using window_pages_bound(1) False by blast
    obtain tbl' where t: "isolates s st ab st' (ab(s \<mapsto> (t, tbl')))" "permits w (set (window_pages offset len)) tbl tbl'"
        "pg_active st' = Some s" "pg_spaces st' = pg_spaces st"
      using protect_pages_isolates [OF inv Some s(1) w m] by auto
    have "dom tbl' = dom tbl" using t(2) by (fastforce simp: permits_def)
    then have "counted st' s tbl'" using s(2) t(4) by (simp add: counted_def)
    then show ?thesis unfolding Some by (rule update_call [OF a s(1) t(1) _ same_tables_protect [OF m]]) (use t(3) Some in simp)
  qed
qed

section \<open>Access checks\<close>

lemma bad_window_iff:
  assumes "len \<noteq> 0"
  shows "bad_window offset len \<longleftrightarrow> 0x100000 < unat offset + unat len"
proof -
  have len: "0 < unat len" using assms by (simp add: unat_gt_0)
  show ?thesis
  proof (cases "offset < process_window_bytes")
    case True
    then have "unat (process_window_bytes - offset) = 0x100000 - unat offset" "unat offset < 0x100000"
      by (simp_all add: unat_sub word_less_nat_alt word_le_nat_alt process_window_bytes_def)
    then show ?thesis using True by (auto simp: bad_window_def not_le [symmetric] word_le_nat_alt)
  next
    case False
    then show ?thesis using len by (simp add: bad_window_def word_less_nat_alt word_le_nat_alt process_window_bytes_def)
  qed
qed

lemma window_pages_offsets:
  assumes "len \<noteq> 0" "\<not> bad_window offset len"
  shows "set (window_pages offset len) = (\<lambda>off. off div 4096) ` {unat offset..<unat offset + unat len}"
proof -
  have len: "0 < unat len" using assms(1) by (simp add: unat_gt_0)
  have "p \<in> (\<lambda>off. off div 4096) ` {unat offset..<unat offset + unat len}"
    if "unat offset div 4096 \<le> p" "p < (unat offset + unat len + 4095) div 4096" for p
  proof (rule image_eqI)
    show "p = max (unat offset) (p * 4096) div 4096" using that(1) by (auto simp: max_def)
    show "max (unat offset) (p * 4096) \<in> {unat offset..<unat offset + unat len}" using that len by auto
  qed
  moreover have "unat offset div 4096 \<le> off div 4096 \<and> off div 4096 < (unat offset + unat len + 4095) div 4096"
    if "unat offset \<le> off" "off < unat offset + unat len" for off
    using that div_le_mono [of "unat offset" off 4096] by auto
  ultimately show ?thesis unfolding window_pages_bound(2) [OF assms] by auto
qed

text \<open>Whether a program itself may access the bytes of a range of its window.\<close>

definition may_access :: "paging \<Rightarrow> nat \<Rightarrow> bool \<Rightarrow> nat \<Rightarrow> nat \<Rightarrow> bool" where
  "may_access st s writing first len \<longleftrightarrow>
    (\<forall>off\<in>{first..<first + len}. \<exists>b v. user_view st s off = Some (b, v) \<and> (writing \<longrightarrow> v))"

lemma map_view_page: "(\<exists>b. map_view m (Some (t, tbl)) off = Some (b, v)) \<longleftrightarrow> (\<exists>f. tbl (off div 4096) = Some (f, v))"
  by (auto simp: map_view_def)

lemma entry_allows_pte: "entry_allows w (pte_of e) \<longleftrightarrow> (\<exists>f v. e = Some (f, v) \<and> (w \<longrightarrow> v))"
proof (cases e)
  case (Some b)
  then show ?thesis by (cases b) (simp add: entry_allows_def pte_of_def)
qed (simp add: entry_allows_def pte_of_def)

lemma space_access_iff:
  assumes inv: "paging_inv st ab" and s: "ab s = Some (t, tbl)" and len: "len \<noteq> 0"
  shows "\<not> bad_window offset len \<and> list_all (\<lambda>page. entry_allows w (space_entry s st page)) (window_pages offset len) \<longleftrightarrow>
    unat offset + unat len \<le> 0x100000 \<and> may_access st s w (unat offset) (unat len)"
proof (cases "bad_window offset len")
  case True
  then show ?thesis using bad_window_iff [OF len, of offset] by simp
next
  case False
  have "entry_allows w (space_entry s st p) \<longleftrightarrow> (\<exists>f v. tbl p = Some (f, v) \<and> (w \<longrightarrow> v))" if "p \<in> set (window_pages offset len)" for p
  proof -
    have "p < 1024" using that window_pages_bound(1) [OF len False] by fastforce
    then show ?thesis using space_tableD(8) [OF inv s] entry_allows_pte by simp
  qed
  then have "list_all (\<lambda>page. entry_allows w (space_entry s st page)) (window_pages offset len) \<longleftrightarrow>
      (\<forall>p\<in>set (window_pages offset len). \<exists>f v. tbl p = Some (f, v) \<and> (w \<longrightarrow> v))" by (auto simp: list_all_iff)
  also have "\<dots> \<longleftrightarrow> may_access st s w (unat offset) (unat len)"
    unfolding window_pages_offsets [OF len False] may_access_def user_view_map [OF inv] s
    using map_view_page [of "pg_memory st" t tbl] by (simp add: ball_simps) blast
  finally show ?thesis using bad_window_iff [OF len, of offset] False by simp
qed

lemma write_call:
  assumes a: "paging_abs F st ab" and c: "address_space_write s offset source len st = (ok, st')"
    and fits: "\<And>input. source = Some input \<Longrightarrow> unat len \<le> length input"
  shows "call_isolates F (Some s) st st'"
proof (cases ok)
  case False
  then have "st' = st" using c by (auto simp: address_space_write_def split: if_splits)
  then show ?thesis using call_isolates_refl [OF a] by simp
next
  case True
  define input where "input = take (unat len) (case source of None \<Rightarrow> [] | Some input \<Rightarrow> input)"
  have inv: "paging_inv st ab" using a by (simp add: paging_abs_def)
  have st': "st' = write_chunks s (unat offset) input st" and acc: "address_space_user_access s offset len True st"
    using c True by (auto simp: address_space_write_def input_def split: if_splits)
  have "ab s \<noteq> None" using acc no_space_iff [OF inv, of s] by (auto simp: address_space_user_access_def split: if_splits)
  then obtain t tbl where s: "ab s = Some (t, tbl)" by auto
  have len: "length input \<le> unat len" by (simp add: input_def)
  have may: "tbl (off div 4096) \<noteq> None" if "unat offset \<le> off" "off < unat offset + length input" for off
  proof -
    have nz: "len \<noteq> 0" using that len by auto
    then have "may_access st s True (unat offset) (unat len)"
      using acc space_access_iff [OF inv s nz, of offset True] by (auto simp: address_space_user_access_def split: if_splits)
    then have "user_view st s off \<noteq> None" using that len by (force simp: may_access_def)
    then show ?thesis using user_view_map [OF inv, of s off] s by (auto simp: map_view_def)
  qed
  have w: "isolates s st ab st' ab" "pg_spaces st' = pg_spaces st" "pg_active st' = pg_active st"
    using write_chunks_isolates [OF inv s, of "unat offset" input] may unfolding st' by blast+
  have "isolates s st ab st' (ab(s \<mapsto> (t, tbl)))" using w(1) s by (simp add: fun_upd_idem)
  then show ?thesis using a s w(2,3) same_tables_write unfolding st'
    by (intro update_call [OF a s]) (auto simp: paging_abs_def counted_def)
qed

section \<open>The abstract contract\<close>

text \<open>
  What a call may do to the view of its target, given its result: \<open>v\<close> is the view before the call and
  \<open>v'\<close> the one after it. Mapping and protecting work on whole pages, so they reach the bytes that lie on
  the page of some byte of the range.
\<close>

definition on_page_of :: "u32 \<Rightarrow> u32 \<Rightarrow> nat \<Rightarrow> bool" where
  "on_page_of offset len off \<longleftrightarrow> (\<exists>x\<in>{unat offset..<unat offset + unat len}. off div 4096 = x div 4096)"

fun call_view :: "paging_call \<Rightarrow> bool \<Rightarrow> (nat \<Rightarrow> (byte \<times> bool) option) \<Rightarrow> (nat \<Rightarrow> (byte \<times> bool) option) \<Rightarrow> bool" where
  "call_view (CreateSpace s) ok v v' \<longleftrightarrow> v' = v \<and> (ok \<longrightarrow> v = (\<lambda>_. None))"
| "call_view (DestroySpace s) ok v v' \<longleftrightarrow> v' = (\<lambda>_. None)"
| "call_view (ClearSpace s) ok v v' \<longleftrightarrow> v' = (\<lambda>_. None)"
| "call_view ClearUser ok v v' \<longleftrightarrow> v' = (\<lambda>_. None)"
| "call_view (ActivateSpace e) ok v v' \<longleftrightarrow> v' = v"
| "call_view (MapUser offset len writing) ok v v' \<longleftrightarrow>
    (\<forall>off b w. v off = Some (b, w) \<longrightarrow> (\<exists>w'. v' off = Some (b, w') \<and> (w \<longrightarrow> w') \<and> (w' \<longrightarrow> w \<or> writing \<and> on_page_of offset len off))) \<and>
    (\<forall>off b w. v off = None \<longrightarrow> v' off = Some (b, w) \<longrightarrow> b = 0 \<and> (w \<longrightarrow> writing) \<and> on_page_of offset len off) \<and>
    (ok \<longrightarrow> (\<forall>off. on_page_of offset len off \<longrightarrow> (\<exists>b w. v' off = Some (b, w) \<and> (writing \<longrightarrow> w))))"
| "call_view (ProtectUser offset len writing) ok v v' \<longleftrightarrow>
    (\<forall>off. map_option fst (v' off) = map_option fst (v off)) \<and>
    (\<forall>off. v' off = v off \<or> on_page_of offset len off \<and> map_option snd (v' off) = Some writing) \<and>
    (ok \<longrightarrow> (\<forall>off. on_page_of offset len off \<longrightarrow> map_option snd (v' off) = Some writing))"
| "call_view (WriteSpace s offset source len) ok v v' \<longleftrightarrow>
    (if ok then \<forall>off. v' off = (if unat offset \<le> off \<and> off < unat offset + unat len then Some (the source ! (off - unat offset), True) else v off)
     else v' = v)"

fun call_fits :: "paging_call \<Rightarrow> bool" where
  "call_fits (WriteSpace s offset source len) \<longleftrightarrow> (case source of None \<Rightarrow> True | Some input \<Rightarrow> unat len \<le> length input)"
| "call_fits _ \<longleftrightarrow> True"

lemma empty_view: "paging_inv st ab \<Longrightarrow> ab s = None \<or> (\<exists>t. ab s = Some (t, \<lambda>_. None)) \<Longrightarrow> user_view st s = (\<lambda>_. None)"
  by (auto simp: user_view_map map_view_def fun_eq_iff)

lemma create_view:
  assumes inv: "paging_inv st ab" and c: "address_space_create s st = (ok, st')"
  shows "call_view (CreateSpace s) ok (user_view st s) (user_view st' s)"
proof (cases ok)
  case True
  obtain t where "ab s = None" "paging_inv st' (ab(s \<mapsto> (t, \<lambda>_. None)))"
    using create_isolates [OF inv c] True by (auto simp: isolates_def)
  then show ?thesis using empty_view [OF inv, of s] empty_view [of st' "ab(s \<mapsto> (t, \<lambda>_. None))" s] True by simp
qed (use create_isolates [OF inv c] in simp)

lemma clear_view:
  assumes inv: "paging_inv st ab"
  shows "user_view (address_space_clear s st) s = (\<lambda>_. None)"
proof (cases "ab s")
  case None
  then have "address_space_clear s st = st" using no_space_iff [OF inv, of s] by (simp add: address_space_clear_def)
  then show ?thesis using empty_view [OF inv, of s] None by simp
next
  case (Some e)
  obtain t tbl where s: "ab s = Some (t, tbl)" using Some by (cases e) auto
  then have "paging_inv (address_space_clear s st) (ab(s \<mapsto> (t, \<lambda>_. None)))"
    using clear_isolates(1) [OF inv s] by (simp add: isolates_def)
  from empty_view [OF this, of s] show ?thesis by simp
qed

lemma destroy_view:
  assumes inv: "paging_inv st ab"
  shows "user_view (address_space_destroy s st) s = (\<lambda>_. None)"
proof (cases "ab s")
  case None
  then have "address_space_destroy s st = st" using no_space_iff [OF inv, of s] by (simp add: address_space_destroy_def)
  then show ?thesis using empty_view [OF inv, of s] None by simp
next
  case (Some e)
  obtain t tbl where s: "ab s = Some (t, tbl)" using Some by (cases e) auto
  then have "paging_inv (address_space_destroy s st) (ab(s := None))"
    using destroy_isolates(1) [OF inv s] by (simp add: isolates_def)
  from empty_view [OF this, of s] show ?thesis by simp
qed

lemma on_page_of_window:
  assumes "len \<noteq> 0" "\<not> bad_window offset len"
  shows "on_page_of offset len off \<longleftrightarrow> off div 4096 \<in> set (window_pages offset len)"
  unfolding window_pages_offsets [OF assms] by (auto simp: on_page_of_def)

lemma map_call_view:
  assumes a: "paging_abs F st ab" and act: "pg_active st = Some s" and c: "map_user offset len w st = (ok, st')"
  shows "call_view (MapUser offset len w) ok (user_view st s) (user_view st' s)"
proof (cases "len = 0 \<or> bad_window offset len \<or> \<not> has_user_table st")
  case True
  then have "st' = st" "\<not> ok" using c by (auto simp: map_user_def)
  then show ?thesis by simp
next
  case False
  then have m: "map_pages w (window_pages offset len) st = (ok, st')" using c by (simp add: map_user_def)
  obtain t tbl where s: "ab s = Some (t, tbl)" "counted st s tbl" using active_space [OF a act] by blast
  have inv: "paging_inv st ab" using a by (simp add: paging_abs_def)
  have w: "set (window_pages offset len) \<subseteq> {..<256}" and pg: "on_page_of offset len off \<longleftrightarrow> off div 4096 \<in> set (window_pages offset len)" for off
    using window_pages_bound(1) on_page_of_window False by blast+
  obtain tbl' where t: "isolates s st ab st' (ab(s \<mapsto> (t, tbl')))" "pages_grow w (set (window_pages offset len)) st tbl st' tbl'"
      "ok \<longrightarrow> (\<forall>p\<in>set (window_pages offset len). \<exists>f v. tbl' p = Some (f, v) \<and> (w \<longrightarrow> v))"
    using map_pages_isolates [OF inv act s order_refl w m] by auto
  have inv': "paging_inv st' (ab(s \<mapsto> (t, tbl')))" using t(1) by (simp add: isolates_def)
  have at: "(f * 4096 + off mod 4096) div 4096 = f" for f off :: nat by (rule frame_of_address) simp_all
  have v: "user_view st s off = map_view (pg_memory st) (Some (t, tbl)) off"
    "user_view st' s off = map_view (pg_memory st') (Some (t, tbl')) off" for off
    using user_view_map [OF inv, of s off] user_view_map [OF inv', of s off] s by simp_all
  have old: "\<exists>w'. user_view st' s off = Some (b, w') \<and> (x \<longrightarrow> w') \<and> (w' \<longrightarrow> x \<or> w \<and> on_page_of offset len off)"
    if o: "user_view st s off = Some (b, x)" for off b x
  proof -
    obtain f where f: "tbl (off div 4096) = Some (f, x)" "b = pg_memory st (f * 4096 + off mod 4096)"
      using o unfolding v by (auto simp: map_view_def)
    obtain u where u: "tbl' (off div 4096) = Some (f, u)" "x \<longrightarrow> u" "u \<longrightarrow> x \<or> w \<and> off div 4096 \<in> set (window_pages offset len)"
      using t(2) f(1) unfolding pages_grow_def by blast
    have "f \<in> page_frames tbl" using f(1) by (auto simp: page_frames_def)
    then have "pg_memory st' (f * 4096 + off mod 4096) = b" using t(2) f(2) at unfolding pages_grow_def by simp
    then show ?thesis unfolding v pg using u by (simp add: map_view_def)
  qed
  have new: "b = 0 \<and> (x \<longrightarrow> w) \<and> on_page_of offset len off"
    if o: "user_view st s off = None" "user_view st' s off = Some (b, x)" for off b x
  proof -
    obtain f where f: "tbl' (off div 4096) = Some (f, x)" "b = pg_memory st' (f * 4096 + off mod 4096)" "tbl (off div 4096) = None"
      using o unfolding v by (auto simp: map_view_def)
    then show ?thesis using t(2) at unfolding pages_grow_def pg by blast
  qed
  have all: "\<exists>b x. user_view st' s off = Some (b, x) \<and> (w \<longrightarrow> x)" if "ok" "on_page_of offset len off" for off
    using t(3) that unfolding v pg by (fastforce simp: map_view_def)
  show ?thesis using old new all by simp
qed

lemma protect_call_view:
  assumes a: "paging_abs F st ab" and act: "pg_active st = Some s" and c: "protect_user offset len w st = (ok, st')"
  shows "call_view (ProtectUser offset len w) ok (user_view st s) (user_view st' s)"
proof (cases "len = 0 \<or> bad_window offset len \<or> \<not> has_user_table st")
  case True
  then have "st' = st" "\<not> ok" using c by (auto simp: protect_user_def)
  then show ?thesis by simp
next
  case False
  then have m: "protect_pages w (window_pages offset len) st = (ok, st')" using c by (simp add: protect_user_def)
  obtain t tbl where s: "ab s = Some (t, tbl)" using active_space [OF a act] by blast
  have inv: "paging_inv st ab" using a by (simp add: paging_abs_def)
  let ?P = "set (window_pages offset len)"
  have w: "?P \<subseteq> {..<256}" and pg: "on_page_of offset len off \<longleftrightarrow> off div 4096 \<in> ?P" for off
    using window_pages_bound(1) on_page_of_window False by blast+
  obtain tbl' where t: "isolates s st ab st' (ab(s \<mapsto> (t, tbl')))" "permits w ?P tbl tbl'"
      "ok \<longrightarrow> (\<forall>p\<in>?P. \<exists>f. tbl' p = Some (f, w))" "\<forall>x. x div 4096 \<in> page_frames tbl \<longrightarrow> pg_memory st' x = pg_memory st x"
    using protect_pages_isolates [OF inv act s w m] by blast
  have inv': "paging_inv st' (ab(s \<mapsto> (t, tbl')))" using t(1) by (simp add: isolates_def)
  have "user_view st' s off = map_view (pg_memory st') (Some (t, tbl')) off" for off
    using user_view_map [OF inv', of s off] by simp
  also have "map_view (pg_memory st') (Some (t, tbl')) off = map_view (pg_memory st) (Some (t, tbl')) off" for off
    using t(4) permits_frames [OF t(2)] by (intro map_view_cong) simp
  finally have v: "user_view st s off = map_view (pg_memory st) (Some (t, tbl)) off"
    "user_view st' s off = map_view (pg_memory st) (Some (t, tbl')) off" for off
    using user_view_map [OF inv, of s off] s by simp_all
  have change: "map_option fst (user_view st' s off) = map_option fst (user_view st s off) \<and>
      (user_view st' s off = user_view st s off \<or> on_page_of offset len off \<and> map_option snd (user_view st' s off) = Some w)" for off
  proof (cases "tbl (off div 4096)")
    case None
    then have "tbl' (off div 4096) = None" using t(2) by (simp add: permits_def)
    then show ?thesis unfolding v using None by (simp add: map_view_def)
  next
    case (Some e)
    obtain f x where f: "tbl (off div 4096) = Some (f, x)" using Some by (cases e) auto
    then obtain u where "tbl' (off div 4096) = Some (f, u)" "u = x \<or> off div 4096 \<in> ?P \<and> u = w"
      using t(2) unfolding permits_def by blast
    then show ?thesis unfolding v pg using f by (auto simp: map_view_def)
  qed
  moreover have "map_option snd (user_view st' s off) = Some w" if "ok" "on_page_of offset len off" for off
    using t(3) that unfolding v pg by (fastforce simp: map_view_def)
  ultimately show ?thesis by simp
qed

lemma write_call_view:
  assumes inv: "paging_inv st ab" and c: "address_space_write s offset source len st = (ok, st')"
    and fits: "call_fits (WriteSpace s offset source len)"
  shows "call_view (WriteSpace s offset source len) ok (user_view st s) (user_view st' s)"
proof (cases "ok \<and> len \<noteq> 0")
  case False
  then have "st' = st" using c by (auto simp: address_space_write_def write_chunks.simps split: if_splits)
  then show ?thesis using False by auto
next
  case True
  have acc: "address_space_user_access s offset len True st" "source \<noteq> None"
    using c True by (auto simp: address_space_write_def split: if_splits)
  obtain input where src: "source = Some input" "unat len \<le> length input" using acc(2) fits by auto
  define bs where "bs = take (unat len) input"
  have bs: "length bs = unat len" using src(2) by (simp add: bs_def)
  have st': "st' = write_chunks s (unat offset) bs st"
    using c True src(1) by (auto simp: address_space_write_def bs_def split: if_splits)
  have "ab s \<noteq> None" using acc no_space_iff [OF inv, of s] by (auto simp: address_space_user_access_def split: if_splits)
  then obtain t tbl where s: "ab s = Some (t, tbl)" by auto
  have may: "may_access st s True (unat offset) (unat len)"
    using acc space_access_iff [OF inv s, of len offset True] True by (auto simp: address_space_user_access_def split: if_splits)
  have page: "\<exists>f. tbl (off div 4096) = Some (f, True)" if "unat offset \<le> off" "off < unat offset + unat len" for off
  proof -
    have "off \<in> {unat offset..<unat offset + unat len}" using that by simp
    then obtain b v where "user_view st s off = Some (b, v)" "v" using may unfolding may_access_def by blast
    then have "\<exists>b. user_view st s off = Some (b, True)" by simp
    then show ?thesis using user_view_map [OF inv, of s off] map_view_page [of "pg_memory st" t tbl off True] s by simp
  qed
  then have wr: "isolates s st ab st' ab" "tbl (off div 4096) \<noteq> None \<Longrightarrow> user_byte s st' off =
      (if unat offset \<le> off \<and> off < unat offset + unat len then bs ! (off - unat offset) else user_byte s st off)" for off
    using write_chunks_isolates [OF inv s, of "unat offset" bs] unfolding st' bs by fastforce+
  have inv': "paging_inv st' ab" using wr(1) by (simp add: isolates_def)
  have "user_view st' s off = (if unat offset \<le> off \<and> off < unat offset + unat len
      then Some (the source ! (off - unat offset), True) else user_view st s off)" for off
  proof (cases "tbl (off div 4096)")
    case None
    then show ?thesis using page [of off] by (auto simp: user_view_map [OF inv] user_view_map [OF inv'] s map_view_def)
  next
    case (Some e)
    obtain f x where f: "tbl (off div 4096) = Some (f, x)" using Some by (cases e) auto
    have v: "user_view st s off = Some (user_byte s st off, x)" "user_view st' s off = Some (user_byte s st' off, x)"
      using user_byte_frame [OF inv s f] user_byte_frame [OF inv' s f] f
      by (simp_all add: user_view_map [OF inv] user_view_map [OF inv'] s map_view_def)
    show ?thesis
    proof (cases "unat offset \<le> off \<and> off < unat offset + unat len")
      case True
      moreover from this have "x" using page [of off] f by simp
      moreover have "off - unat offset < unat len" using True by linarith
      moreover from this have "bs ! (off - unat offset) = input ! (off - unat offset)" by (simp add: bs_def)
      ultimately show ?thesis using wr(2) [of off] f v(2) src(1) by simp
    next
      case False
      then show ?thesis using wr(2) [of off] f v by auto
    qed
  qed
  then show ?thesis using True by simp
qed

section \<open>The machine\<close>

lemma paging_step_isolates:
  assumes a: "paging_abs F st ab" and fits: "call_fits c" and step: "paging_step c st = (ok, st')"
  shows "call_isolates F (call_target c st) st st'"
proof (cases c)
  case ClearUser
  show ?thesis
  proof (cases "pg_active st")
    case None
    then show ?thesis using step ClearUser call_isolates_legacy [OF a, of st'] by (auto simp: clear_user_def)
  next
    case (Some s)
    then show ?thesis using step ClearUser clear_call [OF a, of s] by (simp add: clear_user_def)
  qed
next
  case (WriteSpace s offset source len)
  then have "call_isolates F (Some s) st st'"
    using step fits by (intro write_call [OF a]) (auto split: option.splits)
  then show ?thesis using WriteSpace by simp
qed (use step create_call [OF a] destroy_call [OF a] clear_call [OF a] activate_call [OF a] map_call [OF a] protect_call [OF a]
  in auto)

lemma paging_step_view:
  assumes a: "paging_abs F st ab" and fits: "call_fits c" and step: "paging_step c st = (ok, st')"
    and target: "call_target c st = Some s"
  shows "call_view c ok (user_view st s) (user_view st' s)"
proof -
  have inv: "paging_inv st ab" using a by (simp add: paging_abs_def)
  show ?thesis
  proof (cases c)
    case (CreateSpace r)
    then show ?thesis using create_view [OF inv] step target by (metis call_target.simps(1) option.inject paging_step.simps(1))
  next
    case ClearUser
    then show ?thesis using clear_view [OF inv, of s] step target by (auto simp: clear_user_def)
  next
    case (MapUser offset len w)
    then show ?thesis using map_call_view [OF a, of s offset len w ok st'] step target by (simp del: call_view.simps)
  next
    case (ProtectUser offset len w)
    then show ?thesis using protect_call_view [OF a, of s offset len w ok st'] step target by (simp del: call_view.simps)
  next
    case (WriteSpace r offset source len)
    then show ?thesis using write_call_view [OF inv, of s offset source len ok st'] step target fits
      by (simp del: call_view.simps call_fits.simps)
  qed (use step target destroy_view [OF inv, of s] clear_view [OF inv, of s] in auto)
qed

text \<open>No frame is lost: when no space is left, the allocator has all frames again.\<close>

lemma paging_ok_drained:
  assumes ok: "paging_ok F st" and none: "\<forall>s. as_table_physical (pg_spaces st s) = 0"
  shows "free_set (pg_pmm st) = F \<and> allocated_frames (pg_pmm st) = 0"
proof -
  obtain ab where a: "paging_abs F st ab" using ok by (auto simp: paging_ok_def)
  then have inv: "paging_inv st ab" by (simp add: paging_abs_def)
  have "ab s = None" for s using no_space_iff [OF inv] none by simp
  then have "(\<Union>r. owned ab r) = {}" by (simp add: owned_def)
  then show ?thesis using a inv by (simp add: paging_abs_def pool_def paging_inv_def pmm_ok_def unat_eq_0)
qed

lemma paging_init_ok:
  assumes pm: "pg_pmm st = fst (pmm_init magic_ok entries)" "pmm_initialized (pg_pmm st)"
    and none: "\<forall>s. pg_spaces st s = no_space" "pg_active st = None" "pg_legacy_address st \<noteq> 0"
    and aligned: "\<forall>i. kernel_table_address i AND pte_user = 0"
  shows "paging_ok (usable_frames magic_ok entries) (paging_init kernel_table_address st)"
proof -
  let ?st = "paging_init kernel_table_address st" and ?ab = "\<lambda>_ :: nat. None :: (nat \<times> page_map) option"
  have f: "pg_pmm ?st = pg_pmm st" "pg_spaces ?st = pg_spaces st" "pg_active ?st = None" "pg_legacy_address ?st = pg_legacy_address st"
    using none(2) by (simp_all add: paging_init_def Let_def)
  have "paging_inv ?st ?ab"
    using pm pmm_init_frames [of magic_ok entries] none(1) by (simp add: paging_inv_def owned_def f space_ok_def no_space_def)
  moreover have "pool ?st ?ab = usable_frames magic_ok entries"
    using pm pmm_init_frames [of magic_ok entries] by (simp add: pool_def f owned_def)
  moreover have "directory_ok ?st"
  proof -
    have "(v OR pte_present OR pte_writable) AND pte_user = v AND pte_user" for v :: u32
      by (rule bit_eqI) (auto simp: bit_and_iff bit_or_iff flag_bits)
    then have "supervisor_only ?st" using aligned
      by (auto simp: supervisor_only_def paging_init_def Let_def user_directory_index_def nth_list_update)
    then show ?thesis using none(3) f by (simp add: directory_ok_def user_directory_entry_def paging_init_def Let_def user_directory_index_def)
  qed
  ultimately have "paging_abs (usable_frames magic_ok entries) ?st ?ab" using f by (simp add: paging_abs_def)
  then show ?thesis by (auto simp: paging_ok_def)
qed

text \<open>
  C18: Address spaces are isolated, and every call does to its own space what it promises. In a state that is
  in order, as it is after initialisation, any call, whatever its arguments and its result, leaves the state
  in order: no frame belongs to two spaces or is both owned and free, the counters are exact, the page
  directory shows the table of the active space and no other entry of it is open to user mode. The views
  of all spaces but the call's target, the kernel's page tables and all memory outside the frame
  allocator's range are unchanged. The view of the target changes as \<open>call_view\<close> says: a mapped page reads
  as zeros when it is new and keeps its bytes otherwise, protection changes no byte, a write changes exactly
  the bytes of its range, and a cleared or destroyed space has no memory. And when no space is left, every frame
  is back in the allocator.
\<close>

theorem address_spaces_isolated:
  assumes ok: "paging_ok F st" and fits: "call_fits c" and step: "paging_step c st = (success, st')"
  shows "paging_ok F st' \<and>
    (\<forall>s offset. call_target c st \<noteq> Some s \<longrightarrow> user_view st' s offset = user_view st s offset) \<and>
    (\<forall>s. call_target c st = Some s \<longrightarrow> call_view c success (user_view st s) (user_view st' s)) \<and>
    (\<forall>x. x div 4096 \<notin> allocatable \<longrightarrow> pg_memory st' x = pg_memory st x) \<and>
    pg_kernel_tables st' = pg_kernel_tables st \<and>
    ((\<forall>s. as_table_physical (pg_spaces st' s) = 0) \<longrightarrow> free_set (pg_pmm st') = F \<and> allocated_frames (pg_pmm st') = 0)"
proof -
  obtain ab where a: "paging_abs F st ab" using ok by (auto simp: paging_ok_def)
  have "call_isolates F (call_target c st) st st'" by (rule paging_step_isolates [OF a fits step])
  moreover have "\<forall>s. call_target c st = Some s \<longrightarrow> call_view c success (user_view st s) (user_view st' s)"
    using paging_step_view [OF a fits step] by blast
  ultimately show ?thesis using paging_ok_drained [of F st'] unfolding call_isolates_def by blast
qed

definition demo_paging :: paging where
  "demo_paging = paging_init (\<lambda>i. 0) \<lparr>pg_pmm = fst (pmm_init True demo_memory), pg_memory = (\<lambda>_. 0xFF), pg_directory = [],
    pg_kernel_tables = [], pg_legacy_table = [], pg_legacy_address = 0x1000, pg_spaces = (\<lambda>_. no_space), pg_active = None\<rparr>"

theorem address_spaces_isolated_witness:
  "\<exists>st'. paging_step (CreateSpace 5) demo_paging = (True, st') \<and> paging_ok {3072..<32768} st' \<and>
    user_view st' 5 = (\<lambda>_. None) \<and> user_view st' 6 = user_view demo_paging 6 \<and> pg_memory st' 0x600000 = 0xFF"
proof -
  have pm: "pmm_ok {} (pg_pmm demo_paging)" "pmm_initialized (pg_pmm demo_paging)" "free_set (pg_pmm demo_paging) \<noteq> {}"
    using pmm_init_frames [of True demo_memory]
    by (simp_all add: demo_paging_def paging_init_def Let_def demo_memory_frames self_test_frames_def)
  have ok: "paging_ok {3072..<32768} demo_paging"
    unfolding demo_paging_def demo_memory_frames [symmetric]
    using pm(2) by (intro paging_init_ok) (simp_all add: demo_paging_def paging_init_def Let_def)
  have mem: "as_table_physical (pg_spaces demo_paging 5) = 0" "pg_memory demo_paging 0x600000 = 0xFF"
    by (simp_all add: demo_paging_def paging_init_def Let_def no_space_def)
  obtain f p where f: "allocate_frame (pg_pmm demo_paging) = (word_of_nat f * page_size, p)" "f \<in> allocatable"
    using allocate_frame_lowest [OF pm] by blast
  then obtain st' where step: "paging_step (CreateSpace 5) demo_paging = (True, st')"
    using mem(1) pm(2) allocatable_frame [OF f(2)] by (simp add: address_space_create_def)
  from address_spaces_isolated [OF ok _ step]
  have "paging_ok {3072..<32768} st'" "user_view st' 5 = user_view demo_paging 5" "user_view demo_paging 5 = (\<lambda>_. None)"
    "user_view st' 6 = user_view demo_paging 6" "pg_memory st' 0x600000 = pg_memory demo_paging 0x600000"
    by (auto simp: allocatable_def fun_eq_iff)
  then show ?thesis using step mem(2) by simp
qed

end
