(* ===== verification/Generations.thy ===== *)
theory Generations
  imports Prelude
begin

text \<open>
  Slots with generations: the scheme that both the handle table of a task and the kernel's table of
  process objects follow. A slot that is taken into use gets the next 16-bit generation, never 0, and
  whoever kept the slot's name remembers the generation, so that a name of an earlier occupant is told
  apart from a name of the present one. The interface \<open>generation_slots\<close> states what a step of such a
  table may do to a slot; its client lemma says how long a forgotten name stays dead, which is
  proved once here and used for handles and for process identifiers.
\<close>

definition next_generation :: "u16 \<Rightarrow> u16" where
  "next_generation current = (let current = current + 1 in if current \<noteq> 0 then current else 1)"

lemma unat_u16: "unat (g :: u16) < 65536"
  using unat_less_exp [of g] by simp

lemma next_generation_nonzero [simp]: "next_generation g \<noteq> 0"
  by (simp add: next_generation_def Let_def)

text \<open>The generations 1 to 65535 form one cycle.\<close>

lemma unat_next_generation: "g \<noteq> 0 \<Longrightarrow> unat (next_generation g) = unat g mod 65535 + 1"
proof -
  assume g: "g \<noteq> 0"
  show ?thesis
  proof (cases "g = - 1")
    case True
    have "unat (- 1 :: u16) = 65535" by (simp add: unsigned_minus_1_eq_mask mask_eq_exp_minus_1)
    then show ?thesis using True by (simp add: next_generation_def)
  next
    case False
    then have "g + 1 \<noteq> 0" by (metis add_eq_0_iff2)
    then have n: "next_generation g = g + 1" and u: "unat (g + 1) = unat g + 1"
      using unatSuc [of g] by (simp_all add: next_generation_def Let_def add.commute)
    have "unat (g + 1) < 65536" by (rule unat_u16)
    then have "unat g < 65535" using u by simp
    then show ?thesis using n u by simp
  qed
qed

lemma unat_later_generation: "g \<noteq> 0 \<Longrightarrow> unat ((next_generation ^^ n) g) = (unat g - 1 + n) mod 65535 + 1"
proof (induction n)
  case 0
  have "unat g \<noteq> 0" using 0 by (simp add: unat_eq_zero)
  then show ?case using unat_u16 [of g] by simp
next
  case (Suc n)
  have "(next_generation ^^ n) g \<noteq> 0" by (cases n) (use Suc.prems in simp_all)
  then show ?case using Suc unat_next_generation by (simp add: mod_Suc_eq)
qed

lemma generation_cycle: "g \<noteq> 0 \<Longrightarrow> (next_generation ^^ n) g = g \<Longrightarrow> n < 65535 \<Longrightarrow> n = 0"
proof (rule ccontr)
  assume g: "g \<noteq> 0" "(next_generation ^^ n) g = g" and n: "n < 65535" "n \<noteq> 0"
  define u where "u = unat g - 1"
  have "unat g \<noteq> 0" using g(1) by (simp add: unat_eq_zero)
  then have u: "unat g = u + 1" "u < 65535" using unat_u16 [of g] unfolding u_def by linarith+
  have e: "(u + n) mod 65535 = u" using unat_later_generation [OF g(1), of n] unfolding g(2) u(1) by simp
  show False
  proof (cases "u + n < 65535")
    case True
    then show False using e n by simp
  next
    case False
    then have "(u + n) mod 65535 = u + n - 65535" using u(2) n(1) by (simp add: mod_if)
    then show False using e n False by simp
  qed
qed

locale generation_slots =
  fixes slots_ok :: "'s \<Rightarrow> bool"
    and occupied :: "'s \<Rightarrow> nat \<Rightarrow> bool"
    and generation :: "'s \<Rightarrow> nat \<Rightarrow> u16"
    and slot_step :: "'c \<Rightarrow> 's \<Rightarrow> 's"
  assumes step_ok: "slots_ok s \<Longrightarrow> slots_ok (slot_step c s)"
    and step_slot: "slots_ok s \<Longrightarrow>
      (generation (slot_step c s) i = generation s i \<and> (occupied (slot_step c s) i \<longrightarrow> occupied s i)) \<or>
      (\<not> occupied s i \<and> generation (slot_step c s) i = next_generation (generation s i))"
begin

definition named :: "'s \<Rightarrow> nat \<Rightarrow> u16 \<Rightarrow> bool" where
  "named s i g \<longleftrightarrow> occupied s i \<and> generation s i = g"

lemma run_ok: "slots_ok s \<Longrightarrow> slots_ok (fold slot_step cs s)"
  by (induction cs arbitrary: s) (simp_all add: step_ok)

lemma run_generation:
  "slots_ok s \<Longrightarrow> \<not> occupied s i \<Longrightarrow>
    \<exists>n\<le>length cs. generation (fold slot_step cs s) i = (next_generation ^^ n) (generation s i) \<and>
      (occupied (fold slot_step cs s) i \<longrightarrow> 0 < n)"
proof (induction cs rule: rev_induct)
  case Nil
  then show ?case by (intro exI [of _ 0]) simp
next
  case (snoc c cs)
  let ?m = "fold slot_step cs s"
  obtain n where n: "n \<le> length cs" "generation ?m i = (next_generation ^^ n) (generation s i)" "occupied ?m i \<longrightarrow> 0 < n"
    using snoc by blast
  from step_slot [OF run_ok [OF snoc.prems(1)], of c cs i] show ?case
  proof
    assume "generation (slot_step c ?m) i = generation ?m i \<and> (occupied (slot_step c ?m) i \<longrightarrow> occupied ?m i)"
    then show ?thesis using n by (intro exI [of _ n]) simp
  next
    assume "\<not> occupied ?m i \<and> generation (slot_step c ?m) i = next_generation (generation ?m i)"
    then show ?thesis using n by (intro exI [of _ "Suc n"]) simp
  qed
qed

text \<open>The name of a slot that has been given up means nothing for the next 65534 steps.\<close>

lemma stale_name:
  assumes "slots_ok s" "named s i g" "g \<noteq> 0" "\<not> occupied (slot_step c s) i" "length cs < 65535"
  shows "\<not> named (fold slot_step cs (slot_step c s)) i g"
proof
  let ?t = "slot_step c s"
  have g: "generation ?t i = g" using step_slot [OF assms(1), of c i] assms(2) by (auto simp: named_def)
  obtain n where "n \<le> length cs" "generation (fold slot_step cs ?t) i = (next_generation ^^ n) g"
      "occupied (fold slot_step cs ?t) i \<longrightarrow> 0 < n"
    using run_generation [OF step_ok [OF assms(1)] assms(4), of cs] unfolding g by blast
  moreover assume "named (fold slot_step cs ?t) i g"
  ultimately show False using generation_cycle [OF assms(3), of n] assms(5) by (auto simp: named_def)
qed

end

end
