(* ===== verification/Process_Handles.thy ===== *)
theory Process_Handles
  imports Generations
begin

text \<open>
  The handle table of a task (\<open>kernel/parts/process_handles.inc\<close>): eight entries, each of which names a
  process object and the rights its holder has on it. A handle is the entry's index and its generation
  in one 32-bit number. The table is shown to be a finite map from (index, generation) pairs to objects
  with rights, whose names are never reused before the generations have gone round.
\<close>

section \<open>The table\<close>

record object_key =
  key_slot :: u16
  key_generation :: u16

record handle_entry =
  he_used :: bool
  he_rights :: u8
  he_generation :: u16
  he_object :: object_key

record handle_table =
  ht_entries :: "handle_entry list"
  ht_generations :: "u16 list"

definition handle_capacity :: nat where "handle_capacity = 8"
definition right_wait :: u8 where "right_wait = 1"
definition right_query :: u8 where "right_query = 2"
definition rights_all :: u8 where "rights_all = right_wait OR right_query"

definition no_key :: object_key where
  "no_key = \<lparr>key_slot = 0, key_generation = 0\<rparr>"

definition no_entry :: handle_entry where
  "no_entry = \<lparr>he_used = False, he_rights = 0, he_generation = 0, he_object = no_key\<rparr>"

definition empty_table :: handle_table where
  "empty_table = \<lparr>ht_entries = replicate handle_capacity no_entry, ht_generations = replicate handle_capacity 0\<rparr>"

definition key_equal :: "object_key \<Rightarrow> object_key \<Rightarrow> bool" where
  "key_equal left right \<longleftrightarrow> key_slot left = key_slot right \<and> key_generation left = key_generation right"

definition key_valid :: "object_key \<Rightarrow> bool" where
  "key_valid key \<longleftrightarrow> key_generation key \<noteq> 0"

definition encode_handle :: "u32 \<Rightarrow> u16 \<Rightarrow> u32" where
  "encode_handle index gen =
    (if word_of_nat handle_capacity \<le> index \<or> gen = 0 then 0 else push_bit 8 (ucast gen) OR (index + 1))"

definition decode_handle :: "u32 \<Rightarrow> (u32 \<times> u16) option" where
  "decode_handle handle =
    (let encoded_index = handle AND 0xFF;
         gen = ucast (drop_bit 8 handle)
     in if encoded_index = 0 \<or> word_of_nat handle_capacity < encoded_index \<or> gen = 0 then None
        else Some (encoded_index - 1, gen))"

definition free_handle :: "handle_table \<Rightarrow> nat option" where
  "free_handle table = List.find (\<lambda>index. \<not> he_used (ht_entries table ! index)) [0..<handle_capacity]"

definition handle_allocate :: "handle_table \<Rightarrow> object_key \<Rightarrow> u8 \<Rightarrow> u32 \<times> handle_table" where
  "handle_allocate table object rights =
    (if \<not> key_valid object \<or> rights = 0 \<or> rights AND NOT rights_all \<noteq> 0 then (0, table)
     else case free_handle table of
       None \<Rightarrow> (0, table)
     | Some index \<Rightarrow>
         let gen = next_generation (ht_generations table ! index);
             entry = \<lparr>he_used = True, he_rights = rights, he_generation = gen, he_object = object\<rparr>
         in (encode_handle (word_of_nat index) gen,
             \<lparr>ht_entries = (ht_entries table)[index := entry], ht_generations = (ht_generations table)[index := gen]\<rparr>))"

definition handle_resolve :: "handle_table \<Rightarrow> u32 \<Rightarrow> u8 \<Rightarrow> object_key option" where
  "handle_resolve table handle required_rights =
    (case decode_handle handle of
       None \<Rightarrow> None
     | Some (index, gen) \<Rightarrow>
         let entry = ht_entries table ! unat index in
         if \<not> he_used entry \<or> he_generation entry \<noteq> gen \<or>
            he_rights entry AND required_rights \<noteq> required_rights \<or> \<not> key_valid (he_object entry) then None
         else Some (he_object entry))"

definition handle_close :: "handle_table \<Rightarrow> u32 \<Rightarrow> object_key option \<times> handle_table" where
  "handle_close table handle =
    (case decode_handle handle of
       None \<Rightarrow> (None, table)
     | Some (index, gen) \<Rightarrow>
         let entry = ht_entries table ! unat index in
         if \<not> he_used entry \<or> he_generation entry \<noteq> gen \<or> \<not> key_valid (he_object entry) then (None, table)
         else (Some (he_object entry), table\<lparr>ht_entries := (ht_entries table)[unat index := no_entry]\<rparr>))"

definition active_count :: "handle_table \<Rightarrow> u32" where
  "active_count table = fold (\<lambda>entry count. if he_used entry then count + 1 else count) (ht_entries table) 0"

section \<open>Handles as numbers\<close>

lemma key_equal_iff: "key_equal left right \<longleftrightarrow> left = right"
  by (cases left, cases right) (simp add: key_equal_def)

lemma handle_number:
  assumes "i < 8"
  shows "(push_bit 8 (ucast g) OR (word_of_nat i + 1) :: u32) AND 0xFF = word_of_nat (i + 1)"
    and "ucast (drop_bit 8 (push_bit 8 (ucast g) OR (word_of_nat i + 1) :: u32)) = (g :: u16)"
proof -
  have small: "\<not> bit (word_of_nat (i + 1) :: u32) n" if "8 \<le> n" for n
  proof -
    have "(i + 1) div 2 ^ n = 0"
    proof -
      have "i + 1 < 2 ^ 8" using assms by simp
      also have "(2 :: nat) ^ 8 \<le> 2 ^ n" using that by (intro power_increasing) simp_all
      finally show ?thesis by simp
    qed
    moreover have "unat (word_of_nat (i + 1) :: u32) = i + 1"
      using assms by (simp add: unat_of_nat_nowrap del: of_nat_Suc of_nat_add)
    ultimately have "\<not> bit (unat (word_of_nat (i + 1) :: u32)) n" unfolding bit_iff_odd by simp
    then show ?thesis by (simp add: bit_unsigned_iff del: of_nat_Suc of_nat_add)
  qed
  have mask: "bit (0xFF :: u32) n \<longleftrightarrow> n < 8" for n
  proof -
    have "(0xFF :: u32) = mask 8" by (simp add: mask_eq_exp_minus_1)
    moreover have "bit (mask 8 :: u32) n \<longleftrightarrow> n < 8" unfolding bit_mask_iff by auto
    ultimately show ?thesis by (simp only:)
  qed
  have e: "(word_of_nat i + 1 :: u32) = word_of_nat (i + 1)" by simp
  show "(push_bit 8 (ucast g) OR (word_of_nat i + 1) :: u32) AND 0xFF = word_of_nat (i + 1)"
    unfolding e
  proof (rule bit_eqI)
    fix n
    show "bit ((push_bit 8 (ucast g) OR word_of_nat (i + 1) :: u32) AND 0xFF) n \<longleftrightarrow> bit (word_of_nat (i + 1) :: u32) n"
      unfolding bit_and_iff bit_or_iff mask using small [of n] by (cases "8 \<le> n") (auto simp: bit_push_bit_iff simp del: of_nat_Suc of_nat_add)
  qed
  show "ucast (drop_bit 8 (push_bit 8 (ucast g) OR (word_of_nat i + 1) :: u32)) = (g :: u16)"
    unfolding e
  proof (rule bit_eqI)
    fix n
    assume "possible_bit TYPE(u16) n"
    then have "n < 16" by simp
    then show "bit (ucast (drop_bit 8 (push_bit 8 (ucast g) OR word_of_nat (i + 1) :: u32)) :: u16) n \<longleftrightarrow> bit g n"
      unfolding bit_unsigned_iff bit_drop_bit_eq o_def bit_or_iff
      using small [of "8 + n"] by (auto simp: bit_push_bit_iff bit_unsigned_iff)
  qed
qed

lemma decode_encode:
  assumes "i < 8" "g \<noteq> 0"
  shows "decode_handle (encode_handle (word_of_nat i) g) = Some (word_of_nat i, g)" "encode_handle (word_of_nat i) g \<noteq> 0"
proof -
  have u: "unat (word_of_nat i :: u32) = i" "unat (word_of_nat (i + 1) :: u32) = i + 1"
    using assms(1) by (simp_all add: unat_of_nat_nowrap del: of_nat_Suc of_nat_add)
  have "encode_handle (word_of_nat i) g = push_bit 8 (ucast g) OR (word_of_nat i + 1)"
    using assms by (simp add: encode_handle_def handle_capacity_def word_le_nat_alt u)
  moreover have "word_of_nat (i + 1) \<noteq> (0 :: u32)" "\<not> (8 :: u32) < word_of_nat (i + 1)"
    using u(2) assms(1) by (auto simp: word_less_nat_alt simp del: of_nat_Suc of_nat_add)
  ultimately show "decode_handle (encode_handle (word_of_nat i) g) = Some (word_of_nat i, g)"
    using assms handle_number [OF assms(1), of g] by (simp add: decode_handle_def handle_capacity_def Let_def)
  then show "encode_handle (word_of_nat i) g \<noteq> 0" by (auto simp: decode_handle_def Let_def)
qed

lemma decode_bounds: "decode_handle h = Some (i, g) \<Longrightarrow> unat i < 8 \<and> g \<noteq> 0"
proof -
  assume d: "decode_handle h = Some (i, g)"
  define e where "e = h AND 0xFF"
  have e: "e \<noteq> 0" "\<not> 8 < e" "i = e - 1" "g \<noteq> 0"
    using d unfolding decode_handle_def handle_capacity_def Let_def e_def [symmetric] by (auto split: if_splits)
  have "unat e \<noteq> 0" "unat e \<le> 8" using e(1,2) by (simp_all add: unat_eq_zero word_less_nat_alt)
  then have "unat i < 8" using e(1,3) by (simp add: unat_minus_one)
  then show ?thesis using e(4) by simp
qed

section \<open>The table as a map\<close>

definition handle_name :: "u32 \<Rightarrow> (nat \<times> u16) option" where
  "handle_name h = map_option (\<lambda>(i, g). (unat i, g)) (decode_handle h)"

definition handle_map :: "handle_table \<Rightarrow> nat \<times> u16 \<rightharpoonup> object_key \<times> u8" where
  "handle_map t = (\<lambda>(i, g).
    if i < handle_capacity \<and> he_used (ht_entries t ! i) \<and> he_generation (ht_entries t ! i) = g
    then Some (he_object (ht_entries t ! i), he_rights (ht_entries t ! i)) else None)"

definition entry_ok :: "handle_entry \<Rightarrow> u16 \<Rightarrow> bool" where
  "entry_ok e g \<longleftrightarrow> (he_used e \<longrightarrow> he_generation e = g \<and> g \<noteq> 0 \<and> key_valid (he_object e) \<and>
    he_rights e \<noteq> 0 \<and> he_rights e AND NOT rights_all = 0)"

definition table_ok :: "handle_table \<Rightarrow> bool" where
  "table_ok t \<longleftrightarrow> length (ht_entries t) = handle_capacity \<and> length (ht_generations t) = handle_capacity \<and>
    (\<forall>i<handle_capacity. entry_ok (ht_entries t ! i) (ht_generations t ! i))"

lemma empty_table_ok: "table_ok empty_table"
  by (simp add: table_ok_def empty_table_def entry_ok_def no_entry_def)

lemma handle_name_bounds: "handle_name h = Some (i, g) \<Longrightarrow> i < handle_capacity \<and> g \<noteq> 0"
  using decode_bounds [of h] by (auto simp: handle_name_def handle_capacity_def)

lemma free_handle_Some: "free_handle t = Some i \<Longrightarrow> i < handle_capacity \<and> \<not> he_used (ht_entries t ! i)"
  by (auto simp: free_handle_def find_Some_iff)

lemma free_handle_None: "free_handle t = None \<Longrightarrow> i < handle_capacity \<Longrightarrow> he_used (ht_entries t ! i)"
  by (simp add: free_handle_def find_None_iff)

lemma full_table:
  assumes "free_handle t = None"
  shows "card (dom (handle_map t)) = handle_capacity"
proof -
  have "dom (handle_map t) = (\<lambda>i. (i, he_generation (ht_entries t ! i))) ` {..<handle_capacity}"
    using free_handle_None [OF assms] by (auto simp: handle_map_def split: if_splits)
  moreover have "inj_on (\<lambda>i. (i, he_generation (ht_entries t ! i))) {..<handle_capacity}" by (rule inj_onI) simp
  ultimately show ?thesis by (simp add: card_image)
qed

lemma allocate_cases:
  obtains "handle_allocate t object rights = (0, t)" "\<not> key_valid object \<or> rights = 0 \<or> rights AND NOT rights_all \<noteq> 0"
  | "handle_allocate t object rights = (0, t)" "free_handle t = None"
  | i g where "key_valid object" "rights \<noteq> 0" "rights AND NOT rights_all = 0" "free_handle t = Some i"
      "g = next_generation (ht_generations t ! i)"
      "handle_allocate t object rights = (encode_handle (word_of_nat i) g,
        \<lparr>ht_entries = (ht_entries t)[i := \<lparr>he_used = True, he_rights = rights, he_generation = g, he_object = object\<rparr>],
         ht_generations = (ht_generations t)[i := g]\<rparr>)"
  by (cases "free_handle t") (auto simp: handle_allocate_def Let_def)

lemma allocate_ok: "table_ok t \<Longrightarrow> table_ok (snd (handle_allocate t object rights))"
proof (rule allocate_cases [of t object rights])
  fix i g
  assume "table_ok t" "free_handle t = Some i" "key_valid object" "rights \<noteq> 0" "rights AND NOT rights_all = 0"
    "g = next_generation (ht_generations t ! i)"
    and a: "handle_allocate t object rights = (encode_handle (word_of_nat i) g,
        \<lparr>ht_entries = (ht_entries t)[i := \<lparr>he_used = True, he_rights = rights, he_generation = g, he_object = object\<rparr>],
         ht_generations = (ht_generations t)[i := g]\<rparr>)"
  then show "table_ok (snd (handle_allocate t object rights))"
    unfolding a by (auto simp: table_ok_def entry_ok_def nth_list_update split: if_splits dest!: free_handle_Some)
qed simp_all

lemma close_cases:
  obtains "handle_close t h = (None, t)"
  | i g where "decode_handle h = Some (i, g)" "unat i < handle_capacity" "he_used (ht_entries t ! unat i)"
      "he_generation (ht_entries t ! unat i) = g"
      "handle_close t h = (Some (he_object (ht_entries t ! unat i)), t\<lparr>ht_entries := (ht_entries t)[unat i := no_entry]\<rparr>)"
proof (cases "decode_handle h")
  case None
  then show ?thesis using that(1) by (simp add: handle_close_def)
next
  case (Some p)
  obtain i g where p: "p = (i, g)" by fastforce
  have "unat i < handle_capacity" using decode_bounds [of h i g] Some p by (simp add: handle_capacity_def)
  then show ?thesis
    using that by (cases "key_valid (he_object (ht_entries t ! unat i))"; cases "he_used (ht_entries t ! unat i)";
        cases "he_generation (ht_entries t ! unat i) = g") (simp_all add: handle_close_def Some p)
qed

lemma close_ok: "table_ok t \<Longrightarrow> table_ok (snd (handle_close t h))"
  by (rule close_cases [of t h]) (auto simp: table_ok_def entry_ok_def no_entry_def nth_list_update)

lemma allocate_map:
  assumes ok: "table_ok t" and a: "handle_allocate t object rights = (h, t')"
  shows "if h = 0
    then t' = t \<and> (\<not> key_valid object \<or> rights = 0 \<or> rights AND NOT rights_all \<noteq> 0 \<or> card (dom (handle_map t)) = handle_capacity)
    else \<exists>k. handle_name h = Some k \<and> k \<notin> dom (handle_map t) \<and> handle_map t' = (handle_map t)(k \<mapsto> (object, rights))"
proof (rule allocate_cases [of t object rights])
  fix i g
  assume i: "free_handle t = Some i" and g: "g = next_generation (ht_generations t ! i)"
    and e: "handle_allocate t object rights = (encode_handle (word_of_nat i) g,
        \<lparr>ht_entries = (ht_entries t)[i := \<lparr>he_used = True, he_rights = rights, he_generation = g, he_object = object\<rparr>],
         ht_generations = (ht_generations t)[i := g]\<rparr>)"
  note f = free_handle_Some [OF i]
  have d: "decode_handle h = Some (word_of_nat i, g)" "h \<noteq> 0"
    using decode_encode [of i g] f g e a by (simp_all add: handle_capacity_def)
  have "unat (word_of_nat i :: u32) = i" using f by (simp add: handle_capacity_def unat_of_nat_nowrap)
  then have "handle_name h = Some (i, g)" by (simp add: handle_name_def d)
  moreover have "(i, g) \<notin> dom (handle_map t)" using f by (auto simp: handle_map_def)
  moreover have "handle_map t' = (handle_map t)((i, g) \<mapsto> (object, rights))"
    using f ok e a by (auto simp: handle_map_def table_ok_def nth_list_update fun_eq_iff)
  ultimately show ?thesis using d(2) by auto
qed (use a full_table in auto)

lemma resolve_map:
  assumes "table_ok t"
  shows "handle_resolve t h required =
    (case handle_name h of None \<Rightarrow> None | Some k \<Rightarrow>
      case handle_map t k of None \<Rightarrow> None | Some (object, rights) \<Rightarrow> if rights AND required = required then Some object else None)"
  using assms handle_name_bounds [of h]
  by (auto simp: handle_resolve_def handle_name_def handle_map_def table_ok_def entry_ok_def Let_def split: option.splits)

lemma close_map:
  assumes ok: "table_ok t" and c: "handle_close t h = (r, t')"
  shows "(case r of
      None \<Rightarrow> t' = t \<and> (\<forall>k. handle_name h = Some k \<longrightarrow> handle_map t k = None)
    | Some object \<Rightarrow> \<exists>k rights. handle_name h = Some k \<and> handle_map t k = Some (object, rights) \<and> handle_map t' = (handle_map t)(k := None))"
proof (cases "decode_handle h")
  case None
  then show ?thesis using c by (auto simp: handle_close_def handle_name_def)
next
  case (Some p)
  obtain i g where p: "p = (i, g)" by fastforce
  then have b: "unat i < handle_capacity" "g \<noteq> 0" and n: "handle_name h = Some (unat i, g)"
    using decode_bounds [of h i g] Some by (simp_all add: handle_name_def handle_capacity_def)
  show ?thesis
  proof (cases "he_used (ht_entries t ! unat i) \<and> he_generation (ht_entries t ! unat i) = g")
    case True
    then have "key_valid (he_object (ht_entries t ! unat i))" using ok b by (simp add: table_ok_def entry_ok_def)
    then have r: "r = Some (he_object (ht_entries t ! unat i))" "t' = t\<lparr>ht_entries := (ht_entries t)[unat i := no_entry]\<rparr>"
      using c True by (auto simp: handle_close_def Some p Let_def)
    have "handle_map t' = (handle_map t)((unat i, g) := None)"
      using True b ok by (auto simp: r handle_map_def table_ok_def nth_list_update no_entry_def fun_eq_iff)
    then show ?thesis using True b n by (auto simp: r handle_map_def)
  next
    case False
    then show ?thesis using c b n by (auto simp: handle_close_def Some p Let_def handle_map_def)
  qed
qed

section \<open>Runs of calls\<close>

datatype handle_call = OpenHandle object_key u8 | CloseHandle u32

fun handle_step :: "handle_call \<Rightarrow> handle_table \<Rightarrow> handle_table" where
  "handle_step (OpenHandle object rights) t = snd (handle_allocate t object rights)"
| "handle_step (CloseHandle h) t = snd (handle_close t h)"

definition handle_taken :: "handle_table \<Rightarrow> nat \<Rightarrow> bool" where
  "handle_taken t i \<longleftrightarrow> i < handle_capacity \<and> he_used (ht_entries t ! i)"

interpretation handles: generation_slots table_ok handle_taken "\<lambda>t i. ht_generations t ! i" handle_step
proof
  fix t c
  assume ok: "table_ok t"
  then show "table_ok (handle_step c t)" by (cases c) (simp_all add: allocate_ok close_ok)
  fix i
  show "(ht_generations (handle_step c t) ! i = ht_generations t ! i \<and> (handle_taken (handle_step c t) i \<longrightarrow> handle_taken t i)) \<or>
    (\<not> handle_taken t i \<and> ht_generations (handle_step c t) ! i = next_generation (ht_generations t ! i))"
  proof (cases c)
    case (OpenHandle object rights)
    then show ?thesis
      by (rule_tac allocate_cases [of t object rights])
        (use ok in \<open>auto simp: handle_taken_def table_ok_def nth_list_update split: if_splits dest!: free_handle_Some\<close>)
  next
    case (CloseHandle h)
    then show ?thesis
      by (rule_tac close_cases [of t h])
        (use ok in \<open>auto simp: handle_taken_def table_ok_def no_entry_def nth_list_update\<close>)
  qed
qed

lemma handle_map_taken: "table_ok t \<Longrightarrow> handle_map t (i, g) \<noteq> None \<longleftrightarrow> handles.named t i g"
  by (auto simp: handle_map_def handles.named_def handle_taken_def table_ok_def entry_ok_def)

text \<open>
  C23: The handle table of a task is a finite map from (index, generation) names to an object and the rights on
  it. \<open>allocate\<close> returns a handle whose name was not in the map and enters exactly that name, or returns 0 and
  changes nothing, which happens only for an invalid object, for rights that are empty or unknown, or when all
  eight entries are taken; \<open>resolve\<close> returns the object of the name when the map has it with all the required
  rights, and nothing otherwise; \<open>close\<close> takes out exactly the name it is given, or fails and changes nothing
  when the map does not have it.
\<close>

theorem handle_table_refines_map:
  assumes "table_ok t"
  shows "(case handle_allocate t object rights of (h, t') \<Rightarrow> table_ok t' \<and>
      (if h = 0
       then t' = t \<and> (\<not> key_valid object \<or> rights = 0 \<or> rights AND NOT rights_all \<noteq> 0 \<or> card (dom (handle_map t)) = handle_capacity)
       else \<exists>k. handle_name h = Some k \<and> k \<notin> dom (handle_map t) \<and> handle_map t' = (handle_map t)(k \<mapsto> (object, rights)))) \<and>
    handle_resolve t h required =
      (case handle_name h of None \<Rightarrow> None | Some k \<Rightarrow>
        case handle_map t k of None \<Rightarrow> None | Some (object, rights) \<Rightarrow> if rights AND required = required then Some object else None) \<and>
    (case handle_close t h of (r, t') \<Rightarrow> table_ok t' \<and> (case r of
        None \<Rightarrow> t' = t \<and> (\<forall>k. handle_name h = Some k \<longrightarrow> handle_map t k = None)
      | Some object \<Rightarrow> \<exists>k rights. handle_name h = Some k \<and> handle_map t k = Some (object, rights) \<and>
          handle_map t' = (handle_map t)(k := None)))"
proof (intro conjI)
  obtain x t' where a: "handle_allocate t object rights = (x, t')" by fastforce
  show "(case handle_allocate t object rights of (h, t') \<Rightarrow> table_ok t' \<and>
      (if h = 0
       then t' = t \<and> (\<not> key_valid object \<or> rights = 0 \<or> rights AND NOT rights_all \<noteq> 0 \<or> card (dom (handle_map t)) = handle_capacity)
       else \<exists>k. handle_name h = Some k \<and> k \<notin> dom (handle_map t) \<and> handle_map t' = (handle_map t)(k \<mapsto> (object, rights))))"
    using allocate_map [OF assms a] allocate_ok [OF assms, of object rights] unfolding a by simp
  obtain r u where c: "handle_close t h = (r, u)" by fastforce
  show "(case handle_close t h of (r, t') \<Rightarrow> table_ok t' \<and> (case r of
        None \<Rightarrow> t' = t \<and> (\<forall>k. handle_name h = Some k \<longrightarrow> handle_map t k = None)
      | Some object \<Rightarrow> \<exists>k rights. handle_name h = Some k \<and> handle_map t k = Some (object, rights) \<and>
          handle_map t' = (handle_map t)(k := None)))"
    using close_map [OF assms c] close_ok [OF assms, of h] unfolding c by simp
qed (rule resolve_map [OF assms])

theorem handle_table_refines_map_witness:
  "table_ok empty_table \<and> handle_resolve empty_table 0x101 right_wait = None"
proof -
  have "handle_map empty_table k = None" for k
    by (auto simp: handle_map_def empty_table_def no_entry_def split: prod.splits)
  then show ?thesis
    using handle_table_refines_map [OF empty_table_ok, where h = "0x101" and required = right_wait] empty_table_ok
    by (simp split: option.splits)
qed

lemma closed_stays_closed:
  assumes ok: "table_ok t" and c: "handle_close t h = (Some object, t')" and n: "length cs < 65535"
  shows "handle_resolve (fold handle_step cs t') h required = None" "fst (handle_close (fold handle_step cs t') h) = None"
proof -
  obtain k rights where k: "handle_name h = Some k" "handle_map t k = Some (object, rights)" "handle_map t' k = None"
    using close_map [OF ok c] by auto
  obtain i g where ig: "k = (i, g)" by fastforce
  have t': "t' = handle_step (CloseHandle h) t" "table_ok t'" using c close_ok [OF ok, of h] by simp_all
  have g: "g \<noteq> 0" "i < handle_capacity" using handle_name_bounds [of h i g] k(1) ig by simp_all
  have "handles.named t i g" using handle_map_taken [OF ok, of i g] k(2) ig by simp
  moreover have "\<not> handle_taken t' i"
  proof (rule close_cases [of t h])
    fix j e
    assume "decode_handle h = Some (j, e)" "unat j < handle_capacity"
      "handle_close t h = (Some (he_object (ht_entries t ! unat j)), t\<lparr>ht_entries := (ht_entries t)[unat j := no_entry]\<rparr>)"
    then show ?thesis using c k(1) ig ok by (auto simp: handle_name_def handle_taken_def table_ok_def no_entry_def)
  qed (use c in simp)
  ultimately have "\<not> handles.named (fold handle_step cs t') i g"
    using handles.stale_name [OF ok _ g(1), of i "CloseHandle h" cs] n unfolding t'(1) by blast
  moreover have f: "table_ok (fold handle_step cs t')" using handles.run_ok [OF t'(2)] .
  ultimately have none: "handle_map (fold handle_step cs t') k = None" using handle_map_taken [OF f, of i g] ig by blast
  then show "handle_resolve (fold handle_step cs t') h required = None" using resolve_map [OF f] k(1) by simp
  obtain r u where r: "handle_close (fold handle_step cs t') h = (r, u)" by fastforce
  show "fst (handle_close (fold handle_step cs t') h) = None"
    using close_map [OF f r] none k(1) r by (cases r) auto
qed

text \<open>
  C24: A handle that has been closed stays dead: whatever handles are opened and closed afterwards, fewer than
  65535 of them, neither \<open>resolve\<close> nor \<open>close\<close> accepts it again, although its entry may have been given to other
  objects. After 65535 openings of one entry its generation comes round, so the bound is the best one.
\<close>

theorem closed_handle_is_stale:
  assumes "table_ok t" "handle_close t h = (Some object, t')" "length cs < 65535"
  shows "handle_resolve (fold handle_step cs t') h required = None \<and> fst (handle_close (fold handle_step cs t') h) = None"
  using closed_stays_closed [OF assms] by simp

definition demo_key :: object_key where
  "demo_key = \<lparr>key_slot = 3, key_generation = 1\<rparr>"

theorem closed_handle_is_stale_witness:
  "handle_allocate empty_table demo_key right_wait = (0x101, snd (handle_allocate empty_table demo_key right_wait)) \<and>
   handle_resolve (snd (handle_allocate empty_table demo_key right_wait)) 0x101 right_wait = Some demo_key \<and>
   handle_resolve (fold handle_step [OpenHandle demo_key right_wait]
     (snd (handle_close (snd (handle_allocate empty_table demo_key right_wait)) 0x101))) 0x101 right_wait = None"
proof -
  have a: "handle_allocate empty_table demo_key right_wait = (0x101, snd (handle_allocate empty_table demo_key right_wait))" by code_simp
  have r: "handle_resolve (snd (handle_allocate empty_table demo_key right_wait)) 0x101 right_wait = Some demo_key" by code_simp
  have c: "handle_close (snd (handle_allocate empty_table demo_key right_wait)) 0x101 =
      (Some demo_key, snd (handle_close (snd (handle_allocate empty_table demo_key right_wait)) 0x101))" by code_simp
  show ?thesis
    using a r closed_handle_is_stale [OF allocate_ok [OF empty_table_ok] c, of "[OpenHandle demo_key right_wait]" right_wait] by simp
qed

text \<open>The top eight bits of a handle are not looked at, so a handle has 255 further numbers that mean the same entry.\<close>

lemma handle_high_bits_ignored: "decode_handle (h OR push_bit 24 w) = decode_handle h"
proof -
  have "(h OR push_bit 24 w) AND 0xFF = h AND (0xFF :: u32)"
  proof -
    have "push_bit 24 w AND (mask 8 :: u32) = 0"
      by (rule bit_eqI) (auto simp: bit_and_iff bit_mask_iff bit_push_bit_iff)
    then show ?thesis by (simp add: mask_eq_exp_minus_1 and.commute [of "_ OR _"] bit.conj_disj_distrib and.commute [of "0xFF"])
  qed
  moreover have "ucast (drop_bit 8 (h OR push_bit 24 w)) = (ucast (drop_bit 8 h) :: u16)"
    by (rule bit_eqI) (auto simp: bit_unsigned_iff bit_drop_bit_eq bit_or_iff bit_push_bit_iff)
  ultimately show ?thesis unfolding decode_handle_def by simp
qed

end
