(* ===== verification/Process_Lifecycle.thy ===== *)
theory Process_Lifecycle
  imports Process_Handles
begin

text \<open>
  The kernel's table of process objects (\<open>kernel/parts/process_lifecycle.inc\<close>): sixteen slots with
  generations, the lifetime of an object from its creation over its termination and its reaping by
  the parent to its collection, and the process identifiers. An object stays until it has terminated,
  its parent has reaped it and no handle refers to it any more; the invariant says that it then goes
  at once, and that the two counters of the kernel are exact.
\<close>

section \<open>Objects and the table\<close>

datatype termination_reason = ReasonRunning | ReasonExited | ReasonFaulted | ReasonCancelled

record process_object =
  ob_used :: bool
  ob_signaled :: bool
  ob_parent_reaped :: bool
  ob_generation :: u16
  ob_slot :: u16
  ob_task_slot :: int
  ob_pid :: u32
  ob_parent_pid :: u32
  ob_exit_code :: u32
  ob_fault_vector :: u32
  ob_runtime_ticks :: u32
  ob_context_switches :: u32
  ob_handle_references :: u32
  ob_reason :: termination_reason

record lifecycle =
  lc_objects :: "process_object list"
  lc_generations :: "u16 list"
  lc_live_objects :: u32
  lc_retained_objects :: u32

definition object_capacity :: nat where "object_capacity = 16"

definition no_object :: process_object where
  "no_object = \<lparr>ob_used = False, ob_signaled = False, ob_parent_reaped = False, ob_generation = 0, ob_slot = 0,
    ob_task_slot = - 1, ob_pid = 0, ob_parent_pid = 0, ob_exit_code = 0, ob_fault_vector = 0, ob_runtime_ticks = 0,
    ob_context_switches = 0, ob_handle_references = 0, ob_reason = ReasonRunning\<rparr>"

definition lifecycle_boot :: lifecycle where
  "lifecycle_boot = \<lparr>lc_objects = replicate object_capacity no_object, lc_generations = replicate object_capacity 0,
    lc_live_objects = 0, lc_retained_objects = 0\<rparr>"

definition object_next_generation :: "u16 \<Rightarrow> u16" where
  "object_next_generation current = (let current = current + 1 in if current \<noteq> 0 then current else 1)"

definition encode_pid :: "u32 \<Rightarrow> u16 \<Rightarrow> u32" where
  "encode_pid slot gen =
    (if word_of_nat object_capacity \<le> slot \<or> gen = 0 then 0 else push_bit 8 (ucast gen - 1) OR (slot + 1))"

definition decode_pid :: "u32 \<Rightarrow> (u32 \<times> u16) option" where
  "decode_pid pid =
    (let encoded_slot = pid AND 0xFF;
         encoded_generation = drop_bit 8 pid
     in if encoded_slot = 0 \<or> word_of_nat object_capacity < encoded_slot \<or> 0xFFFE < encoded_generation then None
        else Some (encoded_slot - 1, ucast (encoded_generation + 1)))"

definition key_for :: "process_object \<Rightarrow> object_key" where
  "key_for object = \<lparr>key_slot = ob_slot object, key_generation = ob_generation object\<rparr>"

definition find_object :: "lifecycle \<Rightarrow> object_key \<Rightarrow> nat option" where
  "find_object s key =
    (if \<not> key_valid key \<or> word_of_nat object_capacity \<le> key_slot key then None
     else let object = lc_objects s ! unat (key_slot key) in
       if ob_used object \<and> ob_generation object = key_generation key then Some (unat (key_slot key)) else None)"

definition find_pid :: "lifecycle \<Rightarrow> u32 \<Rightarrow> nat option" where
  "find_pid s pid =
    (case decode_pid pid of
       None \<Rightarrow> None
     | Some (slot, gen) \<Rightarrow>
         let object = lc_objects s ! unat slot in
         if ob_used object \<and> ob_generation object = gen \<and> ob_pid object = pid then Some (unat slot) else None)"

abbreviation set_object :: "nat \<Rightarrow> process_object \<Rightarrow> lifecycle \<Rightarrow> lifecycle" where
  "set_object i object s \<equiv> s\<lparr>lc_objects := (lc_objects s)[i := object]\<rparr>"

definition less_one :: "u32 \<Rightarrow> u32" where
  "less_one count = (if count \<noteq> 0 then count - 1 else count)"

definition collect_if_unreferenced :: "object_key \<Rightarrow> lifecycle \<Rightarrow> bool \<times> lifecycle" where
  "collect_if_unreferenced key s =
    (case find_object s key of
       None \<Rightarrow> (False, s)
     | Some i \<Rightarrow>
         let object = lc_objects s ! i in
         if \<not> ob_signaled object \<or> \<not> ob_parent_reaped object \<or> ob_handle_references object \<noteq> 0 then (False, s)
         else (True, (set_object i no_object s)\<lparr>lc_retained_objects := less_one (lc_retained_objects s)\<rparr>))"

definition object_create :: "u32 \<Rightarrow> int \<Rightarrow> lifecycle \<Rightarrow> (object_key \<times> u32) option \<times> lifecycle" where
  "object_create parent_pid task_slot s =
    (case List.find (\<lambda>slot. \<not> ob_used (lc_objects s ! slot)) [0..<object_capacity] of
       None \<Rightarrow> (None, s)
     | Some slot \<Rightarrow>
         let gen = object_next_generation (lc_generations s ! slot);
             object = no_object\<lparr>ob_used := True, ob_generation := gen, ob_slot := word_of_nat slot,
               ob_task_slot := task_slot, ob_pid := encode_pid (word_of_nat slot) gen, ob_parent_pid := parent_pid\<rparr>
         in (Some (key_for object, ob_pid object),
             \<lparr>lc_objects = (lc_objects s)[slot := object], lc_generations = (lc_generations s)[slot := gen],
              lc_live_objects = lc_live_objects s + 1, lc_retained_objects = lc_retained_objects s + 1\<rparr>))"

definition destroy_unstarted :: "object_key \<Rightarrow> lifecycle \<Rightarrow> bool \<times> lifecycle" where
  "destroy_unstarted key s =
    (case find_object s key of
       None \<Rightarrow> (False, s)
     | Some i \<Rightarrow>
         let object = lc_objects s ! i in
         if ob_signaled object \<or> ob_handle_references object \<noteq> 0 then (False, s)
         else (True, (set_object i no_object s)\<lparr>lc_live_objects := less_one (lc_live_objects s),
                lc_retained_objects := less_one (lc_retained_objects s)\<rparr>))"

definition object_retain :: "object_key \<Rightarrow> lifecycle \<Rightarrow> bool \<times> lifecycle" where
  "object_retain key s =
    (case find_object s key of
       None \<Rightarrow> (False, s)
     | Some i \<Rightarrow>
         let object = lc_objects s ! i in
         if ob_handle_references object = 0xFFFFFFFF then (False, s)
         else (True, set_object i (object\<lparr>ob_handle_references := ob_handle_references object + 1\<rparr>) s))"

definition object_release :: "object_key \<Rightarrow> lifecycle \<Rightarrow> bool \<times> lifecycle" where
  "object_release key s =
    (case find_object s key of
       None \<Rightarrow> (False, s)
     | Some i \<Rightarrow>
         let object = lc_objects s ! i in
         if ob_handle_references object = 0 then (False, s)
         else (True, snd (collect_if_unreferenced key
                (set_object i (object\<lparr>ob_handle_references := ob_handle_references object - 1\<rparr>) s))))"

definition object_terminate ::
    "object_key \<Rightarrow> u32 \<Rightarrow> u32 \<Rightarrow> u32 \<Rightarrow> u32 \<Rightarrow> termination_reason \<Rightarrow> lifecycle \<Rightarrow> bool \<times> lifecycle" where
  "object_terminate key exit_code fault_vector runtime_ticks context_switches reason s =
    (case find_object s key of
       None \<Rightarrow> (False, s)
     | Some i \<Rightarrow>
         let object = lc_objects s ! i in
         if ob_signaled object \<or> reason = ReasonRunning then (False, s)
         else
           let object = object\<lparr>ob_signaled := True, ob_exit_code := exit_code, ob_fault_vector := fault_vector,
                 ob_runtime_ticks := runtime_ticks, ob_context_switches := context_switches, ob_reason := reason\<rparr>;
               object = (if ob_parent_pid object = 0 then object\<lparr>ob_parent_reaped := True\<rparr> else object)
           in (True, snd (collect_if_unreferenced key
                ((set_object i object s)\<lparr>lc_live_objects := less_one (lc_live_objects s)\<rparr>))))"

definition reap_parent :: "object_key \<Rightarrow> u32 \<Rightarrow> lifecycle \<Rightarrow> bool \<times> lifecycle" where
  "reap_parent key parent_pid s =
    (case find_object s key of
       None \<Rightarrow> (False, s)
     | Some i \<Rightarrow>
         let object = lc_objects s ! i in
         if \<not> ob_signaled object \<or> ob_parent_reaped object \<or> ob_parent_pid object \<noteq> parent_pid then (False, s)
         else (True, snd (collect_if_unreferenced key (set_object i (object\<lparr>ob_parent_reaped := True\<rparr>) s))))"

definition reparent_slot :: "u32 \<Rightarrow> u32 \<Rightarrow> nat \<Rightarrow> bool \<times> lifecycle \<Rightarrow> bool \<times> lifecycle" where
  "reparent_slot old_parent_pid new_parent_pid slot = (\<lambda>(changed, s).
    let object = lc_objects s ! slot in
    if \<not> ob_used object \<or> ob_parent_pid object \<noteq> old_parent_pid then (changed, s)
    else
      let object = object\<lparr>ob_parent_pid := new_parent_pid\<rparr> in
      if new_parent_pid = 0 \<and> ob_signaled object then
        let object = object\<lparr>ob_parent_reaped := True\<rparr>
        in (True, snd (collect_if_unreferenced (key_for object) (set_object slot object s)))
      else (True, set_object slot object s))"

definition object_reparent :: "u32 \<Rightarrow> u32 \<Rightarrow> lifecycle \<Rightarrow> bool \<times> lifecycle" where
  "object_reparent old_parent_pid new_parent_pid s =
    fold (reparent_slot old_parent_pid new_parent_pid) [0..<object_capacity] (False, s)"

definition first_child :: "lifecycle \<Rightarrow> u32 \<Rightarrow> bool \<Rightarrow> nat option" where
  "first_child s parent_pid signaled_only = List.find (\<lambda>i.
    let object = lc_objects s ! i in
    ob_used object \<and> ob_parent_pid object = parent_pid \<and> \<not> ob_parent_reaped object \<and>
    (signaled_only \<longrightarrow> ob_signaled object)) [0..<object_capacity]"

definition lifecycle_reset :: "lifecycle \<Rightarrow> lifecycle" where
  "lifecycle_reset s = s\<lparr>lc_objects := replicate object_capacity no_object, lc_live_objects := 0, lc_retained_objects := 0\<rparr>"

section \<open>The invariant\<close>

definition live_object :: "process_object \<Rightarrow> bool" where
  "live_object ob \<longleftrightarrow> ob_used ob \<and> \<not> ob_signaled ob"

definition collectable :: "process_object \<Rightarrow> bool" where
  "collectable ob \<longleftrightarrow> ob_signaled ob \<and> ob_parent_reaped ob \<and> ob_handle_references ob = 0"

definition object_ok :: "nat \<Rightarrow> u16 \<Rightarrow> process_object \<Rightarrow> bool" where
  "object_ok i g ob \<longleftrightarrow>
    (if ob_used ob then
       ob_generation ob = g \<and> g \<noteq> 0 \<and> ob_slot ob = word_of_nat i \<and> ob_pid ob = encode_pid (word_of_nat i) g \<and>
       (ob_signaled ob \<longleftrightarrow> ob_reason ob \<noteq> ReasonRunning) \<and> (ob_parent_reaped ob \<longrightarrow> ob_signaled ob) \<and>
       (ob_signaled ob \<and> ob_parent_pid ob = 0 \<longrightarrow> ob_parent_reaped ob)
     else ob = no_object)"

definition tally :: "('a \<Rightarrow> bool) \<Rightarrow> 'a list \<Rightarrow> nat" where
  "tally P xs = length (filter P xs)"

definition lifecycle_ok :: "lifecycle \<Rightarrow> bool" where
  "lifecycle_ok s \<longleftrightarrow> length (lc_objects s) = object_capacity \<and> length (lc_generations s) = object_capacity \<and>
    (\<forall>i<object_capacity. object_ok i (lc_generations s ! i) (lc_objects s ! i) \<and> \<not> collectable (lc_objects s ! i)) \<and>
    lc_live_objects s = word_of_nat (tally live_object (lc_objects s)) \<and>
    lc_retained_objects s = word_of_nat (tally ob_used (lc_objects s))"

text \<open>An object is put into a slot with the counters that go with it; one that nothing keeps goes.\<close>

definition settle :: "process_object \<Rightarrow> process_object" where
  "settle ob = (if collectable ob then no_object else ob)"

definition put_object :: "nat \<Rightarrow> process_object \<Rightarrow> lifecycle \<Rightarrow> lifecycle" where
  "put_object i ob s =
    (let objects = (lc_objects s)[i := ob]
     in s\<lparr>lc_objects := objects, lc_live_objects := word_of_nat (tally live_object objects),
          lc_retained_objects := word_of_nat (tally ob_used objects)\<rparr>)"

lemma tally_update:
  "i < length xs \<Longrightarrow> tally P (xs[i := y]) + (if P (xs ! i) then 1 else 0) = tally P xs + (if P y then 1 else 0)"
proof (induction xs arbitrary: i)
  case (Cons x xs)
  then show ?case using Cons.IH [of "i - 1"] by (cases i) (auto simp: tally_def split: if_splits)
qed simp

lemma tally_le: "tally P xs \<le> length xs"
  by (simp add: tally_def)

lemma tally_pos: "i < length xs \<Longrightarrow> P (xs ! i) \<Longrightarrow> 0 < tally P xs"
  by (auto simp: tally_def filter_empty_conv)

lemma less_one_count: "0 < n \<Longrightarrow> n \<le> 16 \<Longrightarrow> less_one (word_of_nat n :: u32) = word_of_nat (n - 1)"
proof -
  assume n: "0 < n" "n \<le> 16"
  then have "unat (word_of_nat n :: u32) = n" by (simp add: unat_of_nat_nowrap)
  then have "(word_of_nat n :: u32) \<noteq> 0" using n by force
  then show ?thesis using n by (simp add: less_one_def of_nat_diff)
qed

definition lifecycle_wf :: "lifecycle \<Rightarrow> bool" where
  "lifecycle_wf s \<longleftrightarrow> length (lc_objects s) = object_capacity \<and> length (lc_generations s) = object_capacity \<and>
    (\<forall>i<object_capacity. object_ok i (lc_generations s ! i) (lc_objects s ! i)) \<and>
    lc_live_objects s = word_of_nat (tally live_object (lc_objects s)) \<and>
    lc_retained_objects s = word_of_nat (tally ob_used (lc_objects s))"

lemma lifecycle_ok_wf: "lifecycle_ok s \<longleftrightarrow> lifecycle_wf s \<and> (\<forall>i<object_capacity. \<not> collectable (lc_objects s ! i))"
  by (auto simp: lifecycle_ok_def lifecycle_wf_def)

lemma no_object_simps [simp]: "\<not> collectable no_object" "object_ok i g no_object" "\<not> live_object no_object" "\<not> ob_used no_object"
  by (simp_all add: collectable_def no_object_def object_ok_def live_object_def)

lemma settle_simps [simp]: "\<not> collectable (settle ob)" "object_ok i g ob \<Longrightarrow> object_ok i g (settle ob)"
  by (simp_all add: settle_def)

lemma put_object_simps [simp]:
  "lc_objects (put_object i ob s) = (lc_objects s)[i := ob]" "lc_generations (put_object i ob s) = lc_generations s"
  by (simp_all add: put_object_def Let_def)

lemma put_object_wf:
  "lifecycle_wf s \<Longrightarrow> i < object_capacity \<Longrightarrow> object_ok i (lc_generations s ! i) ob \<Longrightarrow> lifecycle_wf (put_object i ob s)"
  by (auto simp: lifecycle_wf_def put_object_def Let_def nth_list_update)

lemma put_object_ok:
  "lifecycle_ok s \<Longrightarrow> i < object_capacity \<Longrightarrow> object_ok i (lc_generations s ! i) ob \<Longrightarrow> \<not> collectable ob \<Longrightarrow>
    lifecycle_ok (put_object i ob s)"
  by (auto simp: lifecycle_ok_wf put_object_wf) (auto simp: lifecycle_wf_def nth_list_update split: if_splits)

lemma put_object_twice: "put_object i b (put_object i a s) = put_object i b s"
  by (simp add: put_object_def Let_def)

text \<open>What the code writes, with its counters, is a \<open>put_object\<close>.\<close>

lemma set_object_put:
  assumes "lifecycle_wf s" "i < object_capacity"
    "ob_used (lc_objects s ! i) = ob_used ob" "live_object (lc_objects s ! i) = live_object ob"
  shows "set_object i ob s = put_object i ob s"
  using assms tally_update [of i "lc_objects s" ob_used ob] tally_update [of i "lc_objects s" live_object ob]
  by (simp add: put_object_def Let_def lifecycle_wf_def)

lemma signal_object_put:
  assumes wf: "lifecycle_wf s" "i < object_capacity" "live_object (lc_objects s ! i)" "ob_used ob" "\<not> live_object ob"
  shows "(set_object i ob s)\<lparr>lc_live_objects := less_one (lc_live_objects s)\<rparr> = put_object i ob s"
proof -
  have l: "length (lc_objects s) = object_capacity" using wf(1) by (simp add: lifecycle_wf_def)
  have u: "ob_used (lc_objects s ! i)" using wf(3) by (simp add: live_object_def)
  have "tally live_object ((lc_objects s)[i := ob]) = tally live_object (lc_objects s) - 1"
    using tally_update [of i "lc_objects s" live_object ob] wf l by simp
  moreover have "tally ob_used ((lc_objects s)[i := ob]) = tally ob_used (lc_objects s)"
    using tally_update [of i "lc_objects s" ob_used ob] wf l u by simp
  moreover have "less_one (word_of_nat (tally live_object (lc_objects s))) = (word_of_nat (tally live_object (lc_objects s) - 1) :: u32)"
    by (rule less_one_count) (use tally_pos [of i "lc_objects s" live_object] tally_le [of live_object "lc_objects s"] wf l in \<open>simp_all add: object_capacity_def\<close>)
  ultimately show ?thesis using wf by (cases s) (simp add: put_object_def Let_def lifecycle_wf_def)
qed

lemma clear_object_put:
  assumes wf: "lifecycle_wf s" "i < object_capacity" "ob_used (lc_objects s ! i)" "\<not> live_object (lc_objects s ! i)"
  shows "(set_object i no_object s)\<lparr>lc_retained_objects := less_one (lc_retained_objects s)\<rparr> = put_object i no_object s"
proof -
  have l: "length (lc_objects s) = object_capacity" using wf(1) by (simp add: lifecycle_wf_def)
  have "tally ob_used ((lc_objects s)[i := no_object]) = tally ob_used (lc_objects s) - 1"
    using tally_update [of i "lc_objects s" ob_used no_object] wf l by simp
  moreover have "tally live_object ((lc_objects s)[i := no_object]) = tally live_object (lc_objects s)"
    using tally_update [of i "lc_objects s" live_object no_object] wf l by simp
  moreover have "less_one (word_of_nat (tally ob_used (lc_objects s))) = (word_of_nat (tally ob_used (lc_objects s) - 1) :: u32)"
    by (rule less_one_count) (use tally_pos [of i "lc_objects s" ob_used] tally_le [of ob_used "lc_objects s"] wf l in \<open>simp_all add: object_capacity_def\<close>)
  ultimately show ?thesis using wf by (cases s) (simp add: put_object_def Let_def lifecycle_wf_def)
qed

lemma destroy_object_put:
  assumes wf: "lifecycle_wf s" "i < object_capacity" "live_object (lc_objects s ! i)"
  shows "(set_object i no_object s)\<lparr>lc_live_objects := less_one (lc_live_objects s),
    lc_retained_objects := less_one (lc_retained_objects s)\<rparr> = put_object i no_object s"
proof -
  have l: "length (lc_objects s) = object_capacity" using wf(1) by (simp add: lifecycle_wf_def)
  have u: "ob_used (lc_objects s ! i)" using wf(3) by (simp add: live_object_def)
  have "tally ob_used ((lc_objects s)[i := no_object]) = tally ob_used (lc_objects s) - 1"
    using tally_update [of i "lc_objects s" ob_used no_object] wf l u by simp
  moreover have "tally live_object ((lc_objects s)[i := no_object]) = tally live_object (lc_objects s) - 1"
    using tally_update [of i "lc_objects s" live_object no_object] wf l by simp
  moreover have "less_one (word_of_nat (tally ob_used (lc_objects s))) = (word_of_nat (tally ob_used (lc_objects s) - 1) :: u32)"
    by (rule less_one_count) (use tally_pos [of i "lc_objects s" ob_used] tally_le [of ob_used "lc_objects s"] wf l u in \<open>simp_all add: object_capacity_def\<close>)
  moreover have "less_one (word_of_nat (tally live_object (lc_objects s))) = (word_of_nat (tally live_object (lc_objects s) - 1) :: u32)"
    by (rule less_one_count) (use tally_pos [of i "lc_objects s" live_object] tally_le [of live_object "lc_objects s"] wf l in \<open>simp_all add: object_capacity_def\<close>)
  ultimately show ?thesis using wf by (cases s) (simp add: put_object_def Let_def lifecycle_wf_def)
qed

section \<open>Finding objects\<close>

lemma slot_word: "i < object_capacity \<Longrightarrow> unat (word_of_nat i :: u16) = i \<and> \<not> word_of_nat object_capacity \<le> (word_of_nat i :: u16)"
  by (simp add: object_capacity_def unat_of_nat_nowrap word_le_nat_alt)

lemma find_object_iff:
  assumes wf: "lifecycle_wf s"
  shows "find_object s key = Some i \<longleftrightarrow> i < object_capacity \<and> ob_used (lc_objects s ! i) \<and> key = key_for (lc_objects s ! i)"
proof
  assume f: "find_object s key = Some i"
  then have k: "\<not> word_of_nat object_capacity \<le> key_slot key" "i = unat (key_slot key)" "ob_used (lc_objects s ! i)"
      "ob_generation (lc_objects s ! i) = key_generation key"
    by (auto simp: find_object_def Let_def split: if_splits)
  have i: "i < object_capacity" using k(1,2) by (simp add: word_le_nat_alt object_capacity_def)
  then have "ob_slot (lc_objects s ! i) = word_of_nat i" using wf k(3) by (simp add: lifecycle_wf_def object_ok_def)
  then have "key = key_for (lc_objects s ! i)" using k by (simp add: key_for_def)
  then show "i < object_capacity \<and> ob_used (lc_objects s ! i) \<and> key = key_for (lc_objects s ! i)" using i k(3) by simp
next
  assume "i < object_capacity \<and> ob_used (lc_objects s ! i) \<and> key = key_for (lc_objects s ! i)"
  moreover from this have "ob_slot (lc_objects s ! i) = word_of_nat i" "ob_generation (lc_objects s ! i) \<noteq> 0"
    using wf by (auto simp: lifecycle_wf_def object_ok_def)
  ultimately show "find_object s key = Some i"
    using slot_word [of i] by (simp add: find_object_def Let_def key_for_def key_valid_def)
qed

lemma object_ok_key: "object_ok i g ob \<Longrightarrow> object_ok i g ob' \<Longrightarrow> ob_used ob \<Longrightarrow> ob_used ob' \<Longrightarrow> key_for ob = key_for ob'"
  by (simp add: object_ok_def key_for_def)

lemma collect_put:
  assumes wf: "lifecycle_wf s" and i: "i < object_capacity" and ob: "object_ok i (lc_generations s ! i) ob" "ob_used ob"
  shows "snd (collect_if_unreferenced (key_for ob) (put_object i ob s)) = put_object i (settle ob) s"
proof -
  let ?t = "put_object i ob s"
  have t: "lifecycle_wf ?t" by (rule put_object_wf [OF wf i ob(1)])
  have l: "lc_objects ?t ! i = ob" using wf i by (simp add: lifecycle_wf_def)
  have f: "find_object ?t (key_for ob) = Some i" using find_object_iff [OF t, of "key_for ob" i] i ob(2) l by simp
  show ?thesis
  proof (cases "collectable ob")
    case True
    then have "\<not> live_object ob" by (simp add: collectable_def live_object_def)
    then have "(set_object i no_object ?t)\<lparr>lc_retained_objects := less_one (lc_retained_objects ?t)\<rparr> = put_object i no_object ?t"
      by (intro clear_object_put [OF t i]) (simp_all only: l ob(2) simp_thms)
    then show ?thesis using f l True
      by (simp add: collect_if_unreferenced_def Let_def collectable_def settle_def put_object_twice)
  next
    case False
    then show ?thesis using f l by (auto simp: collect_if_unreferenced_def Let_def collectable_def settle_def)
  qed
qed

section \<open>What the operations do\<close>

lemma find_object_ok:
  assumes "lifecycle_ok s" "find_object s key = Some i"
  shows "i < object_capacity" "ob_used (lc_objects s ! i)" "key = key_for (lc_objects s ! i)"
    "object_ok i (lc_generations s ! i) (lc_objects s ! i)" "\<not> collectable (lc_objects s ! i)" "lifecycle_wf s"
    "length (lc_objects s) = object_capacity" "length (lc_generations s) = object_capacity"
  using assms find_object_iff [of s key i] by (auto simp: lifecycle_ok_wf lifecycle_wf_def)

lemma retain_eq:
  assumes "lifecycle_ok s"
  shows "object_retain key s = (case find_object s key of None \<Rightarrow> (False, s) | Some i \<Rightarrow>
    let ob = lc_objects s ! i in
    if ob_handle_references ob = 0xFFFFFFFF then (False, s)
    else (True, put_object i (ob\<lparr>ob_handle_references := ob_handle_references ob + 1\<rparr>) s))"
  by (auto simp: object_retain_def Let_def live_object_def split: option.splits
      intro!: set_object_put dest: find_object_ok [OF assms])

lemma collect_changed:
  assumes ok: "lifecycle_ok s" and f: "find_object s key = Some i"
    and ob: "object_ok i (lc_generations s ! i) ob" "ob_used ob" and t: "t = put_object i ob s"
  shows "snd (collect_if_unreferenced key t) = put_object i (settle ob) s"
  using collect_put [OF find_object_ok(6,1) [OF ok f] ob] object_ok_key [OF find_object_ok(4) [OF ok f] ob(1) _ ob(2)]
    find_object_ok(2,3) [OF ok f] unfolding t by simp

lemma release_eq:
  assumes ok: "lifecycle_ok s"
  shows "object_release key s = (case find_object s key of None \<Rightarrow> (False, s) | Some i \<Rightarrow>
    let ob = lc_objects s ! i in
    if ob_handle_references ob = 0 then (False, s)
    else (True, put_object i (settle (ob\<lparr>ob_handle_references := ob_handle_references ob - 1\<rparr>)) s))"
proof (cases "find_object s key")
  case (Some i)
  note f = find_object_ok [OF ok Some]
  define ob where "ob = (lc_objects s ! i)\<lparr>ob_handle_references := ob_handle_references (lc_objects s ! i) - 1\<rparr>"
  have "set_object i ob s = put_object i ob s" by (rule set_object_put [OF f(6,1)]) (simp_all add: ob_def live_object_def)
  moreover have "object_ok i (lc_generations s ! i) ob" "ob_used ob" using f(2,4) by (auto simp: ob_def object_ok_def)
  ultimately show ?thesis using collect_changed [OF ok Some, of ob "set_object i ob s"]
    by (simp add: object_release_def Some Let_def ob_def [symmetric])
qed (simp add: object_release_def)

definition terminated :: "u32 \<Rightarrow> u32 \<Rightarrow> u32 \<Rightarrow> u32 \<Rightarrow> termination_reason \<Rightarrow> process_object \<Rightarrow> process_object" where
  "terminated code fault ticks switches reason ob =
    ob\<lparr>ob_signaled := True, ob_parent_reaped := ob_parent_reaped ob \<or> ob_parent_pid ob = 0, ob_exit_code := code,
       ob_fault_vector := fault, ob_runtime_ticks := ticks, ob_context_switches := switches, ob_reason := reason\<rparr>"

lemma terminate_eq:
  assumes ok: "lifecycle_ok s"
  shows "object_terminate key code fault ticks switches reason s = (case find_object s key of None \<Rightarrow> (False, s) | Some i \<Rightarrow>
    let ob = lc_objects s ! i in
    if ob_signaled ob \<or> reason = ReasonRunning then (False, s)
    else (True, put_object i (settle (terminated code fault ticks switches reason ob)) s))"
proof (cases "find_object s key")
  case (Some i)
  note f = find_object_ok [OF ok Some]
  show ?thesis
  proof (cases "ob_signaled (lc_objects s ! i) \<or> reason = ReasonRunning")
    case False
    define ob where "ob = terminated code fault ticks switches reason (lc_objects s ! i)"
    have e: "(let object = (lc_objects s ! i)\<lparr>ob_signaled := True, ob_exit_code := code, ob_fault_vector := fault,
                 ob_runtime_ticks := ticks, ob_context_switches := switches, ob_reason := reason\<rparr>
        in if ob_parent_pid object = 0 then object\<lparr>ob_parent_reaped := True\<rparr> else object) = ob"
      by (cases "lc_objects s ! i") (simp add: ob_def terminated_def Let_def)
    have "(set_object i ob s)\<lparr>lc_live_objects := less_one (lc_live_objects s)\<rparr> = put_object i ob s"
      by (rule signal_object_put [OF f(6,1)]) (use False f(2) in \<open>simp_all add: ob_def terminated_def live_object_def\<close>)
    moreover have "object_ok i (lc_generations s ! i) ob" "ob_used ob"
      using f(2,4) False by (auto simp: ob_def object_ok_def terminated_def)
    ultimately show ?thesis
      using collect_changed [OF ok Some, of ob "(set_object i ob s)\<lparr>lc_live_objects := less_one (lc_live_objects s)\<rparr>"]
        False e [unfolded Let_def]
      by (simp add: object_terminate_def Some Let_def ob_def [symmetric])
  qed (simp add: object_terminate_def Some)
qed (simp add: object_terminate_def)

lemma reap_eq:
  assumes ok: "lifecycle_ok s"
  shows "reap_parent key parent s = (case find_object s key of None \<Rightarrow> (False, s) | Some i \<Rightarrow>
    let ob = lc_objects s ! i in
    if \<not> ob_signaled ob \<or> ob_parent_reaped ob \<or> ob_parent_pid ob \<noteq> parent then (False, s)
    else (True, put_object i (settle (ob\<lparr>ob_parent_reaped := True\<rparr>)) s))"
proof (cases "find_object s key")
  case (Some i)
  note f = find_object_ok [OF ok Some]
  define ob where "ob = (lc_objects s ! i)\<lparr>ob_parent_reaped := True\<rparr>"
  have "set_object i ob s = put_object i ob s" by (rule set_object_put [OF f(6,1)]) (simp_all add: ob_def live_object_def)
  moreover have "ob_signaled (lc_objects s ! i) \<Longrightarrow> object_ok i (lc_generations s ! i) ob" "ob_used ob"
    using f(2,4) by (simp_all add: ob_def object_ok_def)
  ultimately show ?thesis using collect_changed [OF ok Some, of ob "set_object i ob s"]
    by (simp add: reap_parent_def Some Let_def ob_def [symmetric])
qed (simp add: reap_parent_def)

lemma destroy_eq:
  assumes ok: "lifecycle_ok s"
  shows "destroy_unstarted key s = (case find_object s key of None \<Rightarrow> (False, s) | Some i \<Rightarrow>
    let ob = lc_objects s ! i in
    if ob_signaled ob \<or> ob_handle_references ob \<noteq> 0 then (False, s) else (True, put_object i no_object s))"
proof (cases "find_object s key")
  case (Some i)
  note f = find_object_ok [OF ok Some]
  have "live_object (lc_objects s ! i)" if "\<not> ob_signaled (lc_objects s ! i)" using that f(2) by (simp add: live_object_def)
  then show ?thesis using destroy_object_put [OF f(6,1)] by (simp add: destroy_unstarted_def Some Let_def)
qed (simp add: destroy_unstarted_def)

lemma find_free_slot:
  "List.find (\<lambda>slot. \<not> ob_used (lc_objects s ! slot)) [0..<object_capacity] = Some i \<Longrightarrow>
    i < object_capacity \<and> \<not> ob_used (lc_objects s ! i)"
  by (auto simp: find_Some_iff)

definition created :: "u32 \<Rightarrow> int \<Rightarrow> nat \<Rightarrow> u16 \<Rightarrow> process_object" where
  "created parent task i g = no_object\<lparr>ob_used := True, ob_generation := g, ob_slot := word_of_nat i,
    ob_task_slot := task, ob_pid := encode_pid (word_of_nat i) g, ob_parent_pid := parent\<rparr>"

lemma created_simps [simp]:
  "ob_used (created p t i g)" "live_object (created p t i g)" "\<not> collectable (created p t i g)"
  "g \<noteq> 0 \<Longrightarrow> object_ok i g (created p t i g)" "ob_handle_references (created p t i g) = 0"
  "ob_parent_pid (created p t i g) = p" "ob_task_slot (created p t i g) = t" "\<not> ob_signaled (created p t i g)"
  by (simp_all add: created_def live_object_def collectable_def object_ok_def no_object_def)

lemma object_next_generation_eq [simp]: "object_next_generation = next_generation"
  by (simp add: fun_eq_iff object_next_generation_def next_generation_def)

lemma create_cases:
  assumes ok: "lifecycle_ok s"
  obtains "object_create parent task s = (None, s)" "\<forall>i<object_capacity. ob_used (lc_objects s ! i)"
  | i g where "i < object_capacity" "\<not> ob_used (lc_objects s ! i)" "g = next_generation (lc_generations s ! i)"
      "object_create parent task s = (Some (key_for (created parent task i g), ob_pid (created parent task i g)),
        put_object i (created parent task i g) (s\<lparr>lc_generations := (lc_generations s)[i := g]\<rparr>))"
      "lifecycle_ok (snd (object_create parent task s))"
proof (cases "List.find (\<lambda>slot. \<not> ob_used (lc_objects s ! slot)) [0..<object_capacity]")
  case None
  then have "object_create parent task s = (None, s)" by (simp add: object_create_def)
  then show ?thesis using None that(1) by (simp add: find_None_iff)
next
  case (Some i)
  note f = find_free_slot [OF Some]
  define g where "g = next_generation (lc_generations s ! i)"
  define ob where "ob = created parent task i g"
  define r where "r = s\<lparr>lc_generations := (lc_generations s)[i := g]\<rparr>"
  have wf: "lifecycle_wf s" "length (lc_objects s) = object_capacity" using ok by (simp_all add: lifecycle_ok_wf lifecycle_wf_def)
  have "lc_objects s ! i = no_object" using wf(1) f by (simp add: lifecycle_wf_def object_ok_def)
  then have r: "lifecycle_ok r" "lc_generations r ! i = g"
    using ok f by (auto simp: lifecycle_ok_def r_def nth_list_update)
  have "tally live_object ((lc_objects s)[i := ob]) = tally live_object (lc_objects s) + 1"
    "tally ob_used ((lc_objects s)[i := ob]) = tally ob_used (lc_objects s) + 1"
    using tally_update [of i "lc_objects s" live_object ob] tally_update [of i "lc_objects s" ob_used ob] f wf(2)
    by (simp_all add: ob_def live_object_def)
  then have "\<lparr>lc_objects = (lc_objects s)[i := ob], lc_generations = (lc_generations s)[i := g],
      lc_live_objects = lc_live_objects s + 1, lc_retained_objects = lc_retained_objects s + 1\<rparr> = put_object i ob r"
    using wf(1) by (cases s) (simp add: put_object_def r_def lifecycle_wf_def)
  then have "object_create parent task s = (Some (key_for ob, ob_pid ob), put_object i ob r)"
    by (simp add: object_create_def Some Let_def g_def ob_def created_def)
  moreover have "lifecycle_ok (put_object i ob r)"
    by (rule put_object_ok [OF r(1)]) (use f r(2) in \<open>simp_all add: ob_def g_def\<close>)
  ultimately show ?thesis using that(2) [of i g] f unfolding g_def ob_def r_def by simp
qed

section \<open>A new parent for the children of a task\<close>

definition adopt :: "u32 \<Rightarrow> u32 \<Rightarrow> process_object \<Rightarrow> process_object" where
  "adopt old new ob =
    (if ob_used ob \<and> ob_parent_pid ob = old
     then settle (ob\<lparr>ob_parent_pid := new, ob_parent_reaped := ob_parent_reaped ob \<or> (new = 0 \<and> ob_signaled ob)\<rparr>) else ob)"

lemma adopt_ok: "object_ok i g ob \<Longrightarrow> object_ok i g (adopt old new ob)"
  by (auto simp: adopt_def object_ok_def settle_def no_object_def)

lemma put_object_same: "lifecycle_wf s \<Longrightarrow> put_object i (lc_objects s ! i) s = s"
  by (cases s) (simp add: put_object_def lifecycle_wf_def)

lemma reparent_slot_eq:
  assumes ok: "lifecycle_ok s" and i: "i < object_capacity"
  shows "snd (reparent_slot old new i (c, s)) = put_object i (adopt old new (lc_objects s ! i)) s"
proof (cases "ob_used (lc_objects s ! i) \<and> ob_parent_pid (lc_objects s ! i) = old")
  case True
  define ob where "ob = (lc_objects s ! i)\<lparr>ob_parent_pid := new,
    ob_parent_reaped := ob_parent_reaped (lc_objects s ! i) \<or> (new = 0 \<and> ob_signaled (lc_objects s ! i))\<rparr>"
  have wf: "lifecycle_wf s" "object_ok i (lc_generations s ! i) (lc_objects s ! i)" "\<not> collectable (lc_objects s ! i)"
    using ok i by (simp_all add: lifecycle_ok_wf lifecycle_wf_def)
  have ob: "object_ok i (lc_generations s ! i) ob" "ob_used ob" using wf(2) True by (auto simp: ob_def object_ok_def)
  have p: "set_object i ob s = put_object i ob s"
    by (rule set_object_put [OF wf(1) i]) (simp_all add: ob_def live_object_def)
  have a: "adopt old new (lc_objects s ! i) = settle ob" using True by (simp add: adopt_def ob_def)
  show ?thesis
  proof (cases "new = 0 \<and> ob_signaled (lc_objects s ! i)")
    case z: True
    then have "(lc_objects s ! i)\<lparr>ob_parent_pid := new\<rparr>\<lparr>ob_parent_reaped := True\<rparr> = ob"
      by (cases "lc_objects s ! i") (simp add: ob_def)
    then show ?thesis using True z collect_put [OF wf(1) i ob] unfolding a
      by (simp add: reparent_slot_def Let_def p)
  next
    case z: False
    then have "(lc_objects s ! i)\<lparr>ob_parent_pid := new\<rparr> = ob" by (cases "lc_objects s ! i") (auto simp: ob_def)
    moreover have "settle ob = ob" using wf(3) z by (auto simp: settle_def collectable_def ob_def)
    ultimately show ?thesis using True z unfolding a by (auto simp: reparent_slot_def Let_def p)
  qed
next
  case False
  then have "adopt old new (lc_objects s ! i) = lc_objects s ! i" by (auto simp: adopt_def)
  then show ?thesis using False put_object_same [of s i] ok by (auto simp: reparent_slot_def Let_def lifecycle_ok_wf)
qed

lemma reparent_eq:
  assumes ok: "lifecycle_ok s"
  shows "lifecycle_ok (snd (object_reparent old new s))"
    and "lc_objects (snd (object_reparent old new s)) = map (adopt old new) (lc_objects s)"
    and "lc_generations (snd (object_reparent old new s)) = lc_generations s"
proof -
  let ?f = "\<lambda>n. snd (fold (reparent_slot old new) [0..<n] (False, s))"
  have l: "length (lc_objects s) = object_capacity" using ok by (simp add: lifecycle_ok_def)
  have "lifecycle_ok (?f n) \<and> lc_generations (?f n) = lc_generations s \<and>
      lc_objects (?f n) = map (adopt old new) (take n (lc_objects s)) @ drop n (lc_objects s)" if "n \<le> object_capacity" for n
    using that
  proof (induction n)
    case (Suc n)
    let ?t = "?f n"
    have IH: "lifecycle_ok ?t" "lc_generations ?t = lc_generations s"
        "lc_objects ?t = map (adopt old new) (take n (lc_objects s)) @ drop n (lc_objects s)" and n: "n < object_capacity"
      using Suc by simp_all
    have nth: "lc_objects ?t ! n = lc_objects s ! n" using n l by (simp add: IH(3) nth_append)
    have "?f (Suc n) = snd (reparent_slot old new n (fst (fold (reparent_slot old new) [0..<n] (False, s)), ?t))" by simp
    also have "\<dots> = put_object n (adopt old new (lc_objects s ! n)) ?t"
      unfolding reparent_slot_eq [OF IH(1) n] nth ..
    finally have e: "?f (Suc n) = put_object n (adopt old new (lc_objects s ! n)) ?t" .
    have "object_ok n (lc_generations ?t ! n) (lc_objects s ! n)" "\<not> collectable (lc_objects s ! n)"
      using ok n IH(2) by (simp_all add: lifecycle_ok_def)
    then have "lifecycle_ok (?f (Suc n))"
      unfolding e by (intro put_object_ok [OF IH(1) n] adopt_ok) (auto simp: adopt_def)
    moreover have "lc_objects (?f (Suc n)) = map (adopt old new) (take (Suc n) (lc_objects s)) @ drop (Suc n) (lc_objects s)"
      using n l unfolding e
      by (simp add: IH(3) list_update_append take_Suc_conv_app_nth Cons_nth_drop_Suc [symmetric, of n])
    ultimately show ?case using IH(2) e by simp
  qed (use ok in simp)
  from this [of object_capacity] show "lifecycle_ok (snd (object_reparent old new s))"
    "lc_objects (snd (object_reparent old new s)) = map (adopt old new) (lc_objects s)"
    "lc_generations (snd (object_reparent old new s)) = lc_generations s"
    using l by (simp_all add: object_reparent_def)
qed

section \<open>Process identifiers\<close>

lemma unat_ucast_u16: "unat (ucast (g :: u16) :: u32) = unat g" "(ucast g :: u32) \<noteq> 0 \<longleftrightarrow> g \<noteq> 0"
proof -
  have "unat g < 2 ^ 32" using unat_u16 [of g] by simp
  then show u: "unat (ucast g :: u32) = unat g" by (simp add: unsigned_ucast_eq take_bit_nat_eq_self)
  show "(ucast g :: u32) \<noteq> 0 \<longleftrightarrow> g \<noteq> 0" using u by (simp add: unat_eq_0 [symmetric])
qed

lemma pid_number:
  assumes "i < 16" "g \<noteq> 0"
  shows "(push_bit 8 (ucast (g :: u16) - 1) OR (word_of_nat i + 1) :: u32) AND 0xFF = word_of_nat (i + 1)"
    and "drop_bit 8 (push_bit 8 (ucast g - 1) OR (word_of_nat i + 1) :: u32) = ucast g - 1"
proof -
  have u: "unat (word_of_nat (i + 1) :: u32) = i + 1"
    using assms(1) by (simp add: unat_of_nat_nowrap del: of_nat_Suc of_nat_add)
  have small: "\<not> bit (word_of_nat (i + 1) :: u32) n" if "8 \<le> n" for n
  proof -
    have "i + 1 < 2 ^ 8" using assms(1) by simp
    also have "(2 :: nat) ^ 8 \<le> 2 ^ n" using that by (intro power_increasing) simp_all
    finally have "\<not> bit (unat (word_of_nat (i + 1) :: u32)) n" unfolding u bit_iff_odd by simp
    then show ?thesis by (simp add: bit_unsigned_iff del: of_nat_Suc of_nat_add)
  qed
  have mask: "bit (0xFF :: u32) n \<longleftrightarrow> n < 8" for n
  proof -
    have "(0xFF :: u32) = mask 8" by (simp add: mask_eq_exp_minus_1)
    moreover have "bit (mask 8 :: u32) n \<longleftrightarrow> n < 8" unfolding bit_mask_iff by auto
    ultimately show ?thesis by (simp only:)
  qed
  have g: "unat (ucast g - 1 :: u32) < 2 ^ 16"
  proof -
    have "(ucast g :: u32) \<noteq> 0" using assms(2) by (simp add: unat_ucast_u16(2))
    then show ?thesis using unat_u16 [of g] by (simp add: unat_minus_one unat_ucast_u16(1))
  qed
  have high: "\<not> bit (ucast g - 1 :: u32) n" if "16 \<le> n" for n
  proof -
    have "(2 :: nat) ^ 16 \<le> 2 ^ n" using that by (intro power_increasing) simp_all
    then have "unat (ucast g - 1 :: u32) div 2 ^ n = 0" using g by simp
    then have "\<not> bit (unat (ucast g - 1 :: u32)) n" unfolding bit_iff_odd by simp
    then show ?thesis by (simp add: bit_unsigned_iff)
  qed
  have e: "(word_of_nat i + 1 :: u32) = word_of_nat (i + 1)" by simp
  show "(push_bit 8 (ucast g - 1) OR (word_of_nat i + 1) :: u32) AND 0xFF = word_of_nat (i + 1)"
    unfolding e
  proof (rule bit_eqI)
    fix n
    show "bit ((push_bit 8 (ucast g - 1) OR word_of_nat (i + 1) :: u32) AND 0xFF) n \<longleftrightarrow> bit (word_of_nat (i + 1) :: u32) n"
      unfolding bit_and_iff bit_or_iff mask using small [of n]
      by (cases "8 \<le> n") (auto simp: bit_push_bit_iff simp del: of_nat_Suc of_nat_add)
  qed
  show "drop_bit 8 (push_bit 8 (ucast g - 1) OR (word_of_nat i + 1) :: u32) = ucast g - 1"
    unfolding e
  proof (rule bit_eqI)
    fix n
    show "bit (drop_bit 8 (push_bit 8 (ucast g - 1) OR word_of_nat (i + 1) :: u32)) n \<longleftrightarrow> bit (ucast g - 1 :: u32) n"
      unfolding bit_drop_bit_eq o_def bit_or_iff
      using small [of "8 + n"] high [of n] by (cases "16 \<le> n") (auto simp: bit_push_bit_iff simp del: of_nat_Suc of_nat_add)
  qed
qed

lemma decode_encode_pid:
  assumes "i < object_capacity" "g \<noteq> 0"
  shows "decode_pid (encode_pid (word_of_nat i) g) = Some (word_of_nat i, g)" "encode_pid (word_of_nat i) g \<noteq> 0"
proof -
  have i: "i < 16" using assms(1) by (simp add: object_capacity_def)
  have u: "unat (word_of_nat i :: u32) = i" "unat (word_of_nat (i + 1) :: u32) = i + 1"
    using i by (simp_all add: unat_of_nat_nowrap del: of_nat_Suc of_nat_add)
  have e: "encode_pid (word_of_nat i) g = push_bit 8 (ucast g - 1) OR (word_of_nat i + 1)"
    using assms i by (simp add: encode_pid_def object_capacity_def word_le_nat_alt u)
  have n: "word_of_nat (i + 1) \<noteq> (0 :: u32)" "\<not> (16 :: u32) < word_of_nat (i + 1)"
    using u(2) i by (auto simp: word_less_nat_alt simp del: of_nat_Suc of_nat_add)
  have "(ucast g :: u32) \<noteq> 0" using assms(2) by (simp add: unat_ucast_u16(2))
  then have "unat (ucast g - 1 :: u32) \<le> 0xFFFE" using unat_u16 [of g] by (simp add: unat_minus_one unat_ucast_u16(1))
  then have "\<not> (0xFFFE :: u32) < ucast g - 1" by (simp add: word_less_nat_alt)
  moreover have "ucast (ucast g - 1 + 1 :: u32) = g"
    by (simp add: word_unat_eq_iff unsigned_ucast_eq [of "ucast g"] unat_ucast_u16 take_bit_nat_eq_self unat_u16)
  ultimately show "decode_pid (encode_pid (word_of_nat i) g) = Some (word_of_nat i, g)"
    using n unfolding e decode_pid_def Let_def pid_number [OF i assms(2)] by (simp add: object_capacity_def)
  then show "encode_pid (word_of_nat i) g \<noteq> 0" by (auto simp: decode_pid_def Let_def)
qed

lemma decode_pid_bounds: "decode_pid pid = Some (i, g) \<Longrightarrow> unat i < object_capacity"
proof -
  assume d: "decode_pid pid = Some (i, g)"
  define e where "e = pid AND 0xFF"
  have e: "e \<noteq> 0" "\<not> 16 < e" "i = e - 1"
    using d unfolding decode_pid_def object_capacity_def Let_def e_def [symmetric] by (auto split: if_splits)
  have "unat e \<noteq> 0" "unat e \<le> 16" using e(1,2) by (simp_all add: unat_eq_zero word_less_nat_alt)
  then show ?thesis using e(1,3) by (simp add: unat_minus_one object_capacity_def)
qed

lemma find_pid_iff:
  assumes wf: "lifecycle_wf s"
  shows "find_pid s pid = Some i \<longleftrightarrow> i < object_capacity \<and> ob_used (lc_objects s ! i) \<and> ob_pid (lc_objects s ! i) = pid"
proof
  assume "find_pid s pid = Some i"
  then show "i < object_capacity \<and> ob_used (lc_objects s ! i) \<and> ob_pid (lc_objects s ! i) = pid"
    using decode_pid_bounds [of pid] by (auto simp: find_pid_def Let_def split: option.splits if_splits)
next
  assume i: "i < object_capacity \<and> ob_used (lc_objects s ! i) \<and> ob_pid (lc_objects s ! i) = pid"
  then have g: "ob_generation (lc_objects s ! i) \<noteq> 0" "pid = encode_pid (word_of_nat i) (ob_generation (lc_objects s ! i))"
    using wf by (auto simp: lifecycle_wf_def object_ok_def)
  have "decode_pid pid = Some (word_of_nat i, ob_generation (lc_objects s ! i))"
    unfolding g(2) by (rule decode_encode_pid) (use i g in auto)
  moreover have "unat (word_of_nat i :: u32) = i" using i by (simp add: unat_of_nat_nowrap object_capacity_def)
  ultimately show "find_pid s pid = Some i" using i by (simp add: find_pid_def Let_def)
qed

section \<open>Runs of calls\<close>

datatype lifecycle_call =
    CreateObject u32 int
  | DestroyUnstarted object_key
  | RetainObject object_key
  | ReleaseObject object_key
  | TerminateObject object_key u32 u32 u32 u32 termination_reason
  | ReapObject object_key u32
  | ReparentObjects u32 u32
  | ResetObjects

fun lifecycle_step :: "lifecycle_call \<Rightarrow> lifecycle \<Rightarrow> lifecycle" where
  "lifecycle_step (CreateObject parent task) s = snd (object_create parent task s)"
| "lifecycle_step (DestroyUnstarted key) s = snd (destroy_unstarted key s)"
| "lifecycle_step (RetainObject key) s = snd (object_retain key s)"
| "lifecycle_step (ReleaseObject key) s = snd (object_release key s)"
| "lifecycle_step (TerminateObject key code fault ticks switches reason) s =
    snd (object_terminate key code fault ticks switches reason s)"
| "lifecycle_step (ReapObject key parent) s = snd (reap_parent key parent s)"
| "lifecycle_step (ReparentObjects old new) s = snd (object_reparent old new s)"
| "lifecycle_step ResetObjects s = lifecycle_reset s"

text \<open>
  Every operation but creation, reparenting and reset puts one object back into its slot, and takes an object
  away only if nothing refers to it any more.
\<close>

definition object_step :: "object_key option \<Rightarrow> lifecycle \<Rightarrow> lifecycle \<Rightarrow> bool" where
  "object_step released s t \<longleftrightarrow> t = s \<or>
    (\<exists>i<object_capacity. \<exists>ob. ob_used (lc_objects s ! i) \<and> object_ok i (lc_generations s ! i) ob \<and> \<not> collectable ob \<and>
      t = put_object i ob s \<and>
      (ob_used ob \<or> ob_handle_references (lc_objects s ! i) = 0 \<or>
       ob_handle_references (lc_objects s ! i) = 1 \<and> released = Some (key_for (lc_objects s ! i))))"

lemma object_step_same [simp]: "object_step r s s"
  by (simp add: object_step_def)

lemma object_step_settle:
  assumes "lifecycle_ok s" "find_object s key = Some i" "object_ok i (lc_generations s ! i) ob" "ob_used ob"
    "ob_handle_references ob = ob_handle_references (lc_objects s ! i) \<or>
     r = Some key \<and> ob_handle_references ob = ob_handle_references (lc_objects s ! i) - 1"
  shows "object_step r s (put_object i (settle ob) s)"
proof -
  note f = find_object_ok [OF assms(1,2)]
  have "ob_handle_references (lc_objects s ! i) = 0 \<or> ob_handle_references (lc_objects s ! i) = 1 \<and> r = Some key"
    if "collectable ob" using that assms(5) by (auto simp: collectable_def)
  then have "ob_used (settle ob) \<or> ob_handle_references (lc_objects s ! i) = 0 \<or>
      ob_handle_references (lc_objects s ! i) = 1 \<and> r = Some (key_for (lc_objects s ! i))"
    using assms(4) f(3) by (auto simp: settle_def)
  moreover have "object_ok i (lc_generations s ! i) (settle ob)" "\<not> collectable (settle ob)" using assms(3) by simp_all
  ultimately show ?thesis using f(1,2) unfolding object_step_def by blast
qed

lemma retain_step: "lifecycle_ok s \<Longrightarrow> object_step r s (snd (object_retain key s))"
proof -
  assume ok: "lifecycle_ok s"
  show ?thesis
  proof (cases "find_object s key")
    case (Some i)
    note f = find_object_ok [OF ok Some]
    show ?thesis
    proof (cases "ob_handle_references (lc_objects s ! i) = 0xFFFFFFFF")
      case False
      define ob where "ob = (lc_objects s ! i)\<lparr>ob_handle_references := ob_handle_references (lc_objects s ! i) + 1\<rparr>"
      have "ob_handle_references (lc_objects s ! i) + 1 \<noteq> 0"
      proof
        assume "ob_handle_references (lc_objects s ! i) + 1 = 0"
        then have "ob_handle_references (lc_objects s ! i) = - 1" by (simp only: add_eq_0_iff2)
        then show False using False by simp
      qed
      then have "\<not> collectable ob" "ob_used ob" "object_ok i (lc_generations s ! i) ob"
        using f(2,4) by (auto simp: ob_def collectable_def object_ok_def)
      then have "object_step r s (put_object i ob s)" using f(1,2) unfolding object_step_def by blast
      then show ?thesis using False by (simp add: retain_eq [OF ok] Some ob_def Let_def)
    qed (simp add: retain_eq [OF ok] Some)
  qed (simp add: retain_eq [OF ok])
qed

lemma release_step: "lifecycle_ok s \<Longrightarrow> object_step (Some key) s (snd (object_release key s))"
proof -
  assume ok: "lifecycle_ok s"
  show ?thesis
  proof (cases "find_object s key")
    case (Some i)
    note f = find_object_ok [OF ok Some]
    define ob where "ob = (lc_objects s ! i)\<lparr>ob_handle_references := ob_handle_references (lc_objects s ! i) - 1\<rparr>"
    have "object_step (Some key) s (put_object i (settle ob) s)" if "ob_handle_references (lc_objects s ! i) \<noteq> 0"
      by (rule object_step_settle [OF ok Some])
        (use f(2,4) that in \<open>auto simp: ob_def terminated_def object_ok_def\<close>)
    then show ?thesis by (simp add: release_eq [OF ok] Some Let_def ob_def)
  qed (simp add: release_eq [OF ok])
qed

lemma terminate_step: "lifecycle_ok s \<Longrightarrow> object_step r s (snd (object_terminate key code fault ticks switches reason s))"
proof -
  assume ok: "lifecycle_ok s"
  show ?thesis
  proof (cases "find_object s key")
    case (Some i)
    note f = find_object_ok [OF ok Some]
    define ob where "ob = terminated code fault ticks switches reason (lc_objects s ! i)"
    have "object_step r s (put_object i (settle ob) s)" if "\<not> ob_signaled (lc_objects s ! i) \<and> reason \<noteq> ReasonRunning"
      by (rule object_step_settle [OF ok Some])
        (use f(2,4) that in \<open>auto simp: ob_def terminated_def object_ok_def\<close>)
    then show ?thesis by (simp add: terminate_eq [OF ok] Some Let_def ob_def)
  qed (simp add: terminate_eq [OF ok])
qed

lemma reap_step: "lifecycle_ok s \<Longrightarrow> object_step r s (snd (reap_parent key parent s))"
proof -
  assume ok: "lifecycle_ok s"
  show ?thesis
  proof (cases "find_object s key")
    case (Some i)
    note f = find_object_ok [OF ok Some]
    define ob where "ob = (lc_objects s ! i)\<lparr>ob_parent_reaped := True\<rparr>"
    have "object_step r s (put_object i (settle ob) s)" if "ob_signaled (lc_objects s ! i)"
      by (rule object_step_settle [OF ok Some])
        (use f(2,4) that in \<open>auto simp: ob_def terminated_def object_ok_def\<close>)
    then show ?thesis by (simp add: reap_eq [OF ok] Some Let_def ob_def)
  qed (simp add: reap_eq [OF ok])
qed

lemma destroy_step: "lifecycle_ok s \<Longrightarrow> object_step r s (snd (destroy_unstarted key s))"
proof -
  assume ok: "lifecycle_ok s"
  show ?thesis
  proof (cases "find_object s key")
    case (Some i)
    then show ?thesis using find_object_ok [OF ok Some] unfolding destroy_eq [OF ok] Some
      by (auto simp: Let_def object_step_def intro!: exI [of _ i] exI [of _ no_object])
  qed (simp add: destroy_eq [OF ok])
qed

lemma object_step_ok: "lifecycle_ok s \<Longrightarrow> object_step r s t \<Longrightarrow> lifecycle_ok t"
  by (auto simp: object_step_def put_object_ok)

lemma object_step_slot:
  assumes "lifecycle_ok s" "object_step r s t"
  shows "lc_generations t ! j = lc_generations s ! j" "j < object_capacity \<Longrightarrow> ob_used (lc_objects t ! j) \<Longrightarrow> ob_used (lc_objects s ! j)"
  using assms by (auto simp: object_step_def lifecycle_ok_def nth_list_update split: if_splits)

lemma object_step_keeps:
  assumes ok: "lifecycle_ok s" "object_step r s t" and i: "find_object s key = Some i"
    and refs: "(if r = Some key then 1 else 0) < ob_handle_references (lc_objects s ! i)"
  shows "find_object t key = Some i"
proof -
  note f = find_object_ok [OF ok(1) i]
  have t: "lifecycle_wf t" using object_step_ok [OF ok] by (simp add: lifecycle_ok_wf)
  have "ob_used (lc_objects t ! i) \<and> key_for (lc_objects t ! i) = key"
  proof (cases "t = s")
    case False
    then obtain j ob where j: "object_ok j (lc_generations s ! j) ob" "t = put_object j ob s"
        "ob_used ob \<or> ob_handle_references (lc_objects s ! j) = 0 \<or>
         ob_handle_references (lc_objects s ! j) = 1 \<and> r = Some (key_for (lc_objects s ! j))"
      using ok(2) unfolding object_step_def by blast
    show ?thesis
    proof (cases "j = i")
      case True
      have "ob_used ob" using j(3) refs f(3) True by (auto split: if_splits)
      then show ?thesis using j True f object_ok_key [OF f(4) _ f(2), of ob] by simp
    qed (use j(2) f in simp)
  qed (use f in simp)
  then show ?thesis using find_object_iff [OF t, of key i] f(1) by simp
qed

lemma reset_ok: "lifecycle_ok s \<Longrightarrow> lifecycle_ok (lifecycle_reset s)"
  by (simp add: lifecycle_ok_def lifecycle_reset_def tally_def)

lemma boot_ok: "lifecycle_ok lifecycle_boot"
  by (simp add: lifecycle_ok_def lifecycle_boot_def tally_def)

lemma step_cases:
  assumes ok: "lifecycle_ok s"
  obtains (create) parent task where "c = CreateObject parent task"
  | (reparent) old new where "c = ReparentObjects old new"
  | (reset) "c = ResetObjects"
  | (one) r where "object_step r s (lifecycle_step c s)" "\<And>key. r = Some key \<Longrightarrow> c = ReleaseObject key"
proof (cases c)
  case (RetainObject key)
  then show thesis using one [of None] retain_step [OF ok, of None key] by simp
next
  case (ReleaseObject key)
  then show thesis using one [of "Some key"] release_step [OF ok, of key] by simp
next
  case (TerminateObject key code fault ticks switches reason)
  then show thesis using one [of None] terminate_step [OF ok, of None key code fault ticks switches reason] by simp
next
  case (ReapObject key parent)
  then show thesis using one [of None] reap_step [OF ok, of None key parent] by simp
next
  case (DestroyUnstarted key)
  then show thesis using one [of None] destroy_step [OF ok, of None key] by simp
qed (use create reparent reset in auto)

lemma lifecycle_step_ok:
  assumes ok: "lifecycle_ok s"
  shows "lifecycle_ok (lifecycle_step c s)"
proof (cases c rule: step_cases [OF ok, case_names create reparent reset one])
  case (create parent task)
  then show ?thesis using ok by (cases rule: create_cases [OF ok, of parent task]) simp_all
next
  case (one r)
  then show ?thesis using object_step_ok [OF ok] by blast
qed (simp_all add: reparent_eq(1) [OF ok] reset_ok [OF ok])

definition object_taken :: "lifecycle \<Rightarrow> nat \<Rightarrow> bool" where
  "object_taken s i \<longleftrightarrow> i < object_capacity \<and> ob_used (lc_objects s ! i)"

interpretation processes: generation_slots lifecycle_ok object_taken "\<lambda>s i. lc_generations s ! i" lifecycle_step
proof
  fix s c
  assume ok: "lifecycle_ok s"
  then show "lifecycle_ok (lifecycle_step c s)" by (rule lifecycle_step_ok)
  fix j
  have l: "length (lc_objects s) = object_capacity" "length (lc_generations s) = object_capacity"
    using ok by (simp_all add: lifecycle_ok_def)
  show "(lc_generations (lifecycle_step c s) ! j = lc_generations s ! j \<and> (object_taken (lifecycle_step c s) j \<longrightarrow> object_taken s j)) \<or>
    (\<not> object_taken s j \<and> lc_generations (lifecycle_step c s) ! j = next_generation (lc_generations s ! j))"
  proof (cases c rule: step_cases [OF ok, case_names create reparent reset one])
    case (create parent task)
    show ?thesis
    proof (cases rule: create_cases [OF ok, of parent task])
      case (2 i g)
      then show ?thesis using create l by (cases "i = j") (simp_all add: object_taken_def)
    qed (use create in simp)
  next
    case (reparent old new)
    then show ?thesis using reparent_eq(2,3) [OF ok, of old new] l by (auto simp: object_taken_def adopt_def)
  next
    case reset
    then show ?thesis by (auto simp: lifecycle_reset_def object_taken_def)
  next
    case (one r)
    then show ?thesis using object_step_slot [OF ok one(1)] by (auto simp: object_taken_def)
  qed
qed

lemma processes_named: "lifecycle_ok s \<Longrightarrow> i < object_capacity \<Longrightarrow>
  processes.named s i g \<longleftrightarrow> ob_used (lc_objects s ! i) \<and> ob_generation (lc_objects s ! i) = g"
  by (auto simp: processes.named_def object_taken_def lifecycle_ok_def object_ok_def)

text \<open>
  C20: From boot on, through every sequence of creations, retains, releases, terminations, reapings, reparentings,
  cancelled starts and resets, the table of process objects is well-formed: the counters of live and of retained
  objects are exact, every object in use has the identifier and the key of its slot and generation, an object
  whose parent is gone counts as reaped as soon as it has terminated, an object that is terminated, reaped and
  unreferenced is not in the table, and looking up an identifier finds the one object in use that has it and nothing else.
\<close>

theorem lifecycle_invariant:
  "lifecycle_ok (fold lifecycle_step calls lifecycle_boot) \<and>
   (\<forall>pid i. find_pid (fold lifecycle_step calls lifecycle_boot) pid = Some i \<longleftrightarrow>
     i < object_capacity \<and> ob_used (lc_objects (fold lifecycle_step calls lifecycle_boot) ! i) \<and>
     ob_pid (lc_objects (fold lifecycle_step calls lifecycle_boot) ! i) = pid)"
proof -
  have "lifecycle_ok (fold lifecycle_step calls lifecycle_boot)" by (rule processes.run_ok [OF boot_ok])
  then show ?thesis using find_pid_iff by (simp add: lifecycle_ok_wf)
qed

lemma referenced_kept:
  assumes ok: "lifecycle_ok s" and i: "find_object s key = Some i" and r: "c \<noteq> ResetObjects"
    and refs: "(if c = ReleaseObject key then 1 else 0) < ob_handle_references (lc_objects s ! i)"
  shows "find_object (lifecycle_step c s) key = Some i"
proof (cases c rule: step_cases [OF ok, case_names create reparent reset one])
  case (create parent task)
  note f = find_object_ok [OF ok i]
  show ?thesis
  proof (cases rule: create_cases [OF ok, of parent task])
    case (2 j g)
    have "j \<noteq> i" using 2(2) f(2) by blast
    then have "lc_objects (lifecycle_step c s) ! i = lc_objects s ! i" using create 2 by simp
    then show ?thesis
      using find_object_iff [of "lifecycle_step c s" key i] lifecycle_step_ok [OF ok, of c] f by (simp add: lifecycle_ok_wf)
  qed (use create i in simp)
next
  case (reparent old new)
  note f = find_object_ok [OF ok i]
  have "ob_handle_references (lc_objects s ! i) \<noteq> 0" using refs by (auto split: if_splits)
  then have "ob_used (adopt old new (lc_objects s ! i)) \<and> key_for (adopt old new (lc_objects s ! i)) = key"
    using f(2,3) by (auto simp: adopt_def settle_def collectable_def key_for_def)
  moreover have "lc_objects (lifecycle_step c s) ! i = adopt old new (lc_objects s ! i)"
    using reparent reparent_eq(2) [OF ok, of old new] f(1,7) by simp
  ultimately show ?thesis
    using find_object_iff [of "lifecycle_step c s" key i] lifecycle_step_ok [OF ok, of c] f(1) by (simp add: lifecycle_ok_wf)
next
  case (one q)
  have "(if q = Some key then 1 else 0) \<le> (if c = ReleaseObject key then 1 else 0 :: u32)" using one(2) by auto
  then show ?thesis using object_step_keeps [OF ok one(1) i] refs by (meson le_less_trans)
qed (use r in simp)

text \<open>
  C21: A process object is never taken away under an open handle: while handles refer to it, no operation on the
  table (the release of its last reference and the reset of the whole table apart) makes its key stale, so a
  task that waits on a handle or queries it finds the same object, terminated or not.
\<close>

theorem referenced_object_kept:
  assumes "lifecycle_ok s" "find_object s key = Some i" "c \<noteq> ResetObjects"
    "(if c = ReleaseObject key then 1 else 0) < ob_handle_references (lc_objects s ! i)"
  shows "find_object (lifecycle_step c s) key = Some i"
  using assms by (rule referenced_kept)

definition demo_process :: object_key where
  "demo_process = \<lparr>key_slot = 0, key_generation = 1\<rparr>"

definition demo_referenced :: lifecycle where
  "demo_referenced = snd (object_retain demo_process (snd (object_create 0x100 3 lifecycle_boot)))"

theorem referenced_object_kept_witness:
  "find_object (lifecycle_step (TerminateObject demo_process 37 0 91 7 ReasonExited) demo_referenced) demo_process = Some 0"
proof (rule referenced_object_kept)
  show "lifecycle_ok demo_referenced"
    using lifecycle_step_ok [OF lifecycle_step_ok [OF boot_ok], of "RetainObject demo_process" "CreateObject 0x100 3"]
    by (simp add: demo_referenced_def)
  show "find_object demo_referenced demo_process = Some 0" by code_simp
  have "ob_handle_references (lc_objects demo_referenced ! 0) = 1" by code_simp
  then show "(if TerminateObject demo_process 37 0 91 7 ReasonExited = ReleaseObject demo_process then 1 else 0)
      < ob_handle_references (lc_objects demo_referenced ! 0)" by simp
qed simp

text \<open>
  A key and an identifier name the slot and the generation that are written in them, and nothing else.
\<close>

lemma find_key_named:
  assumes t: "lifecycle_ok t" and i: "i < object_capacity"
  shows "find_object t \<lparr>key_slot = word_of_nat i, key_generation = g\<rparr> \<noteq> None \<longleftrightarrow> g \<noteq> 0 \<and> processes.named t i g"
    (is "find_object t ?key \<noteq> None \<longleftrightarrow> _")
proof
  assume "find_object t ?key \<noteq> None"
  then obtain j where j: "find_object t ?key = Some j" by auto
  note h = find_object_ok [OF t j]
  have "word_of_nat j = (word_of_nat i :: u16)" and g: "ob_generation (lc_objects t ! j) = g" "g \<noteq> 0"
    using h(2,3,4) by (auto simp: object_ok_def key_for_def)
  then have "j = i" using slot_word [OF h(1)] slot_word [OF i] by metis
  then show "g \<noteq> 0 \<and> processes.named t i g" using processes_named [OF t i] h(2) g by simp
next
  assume "g \<noteq> 0 \<and> processes.named t i g"
  then have u: "ob_used (lc_objects t ! i)" "ob_generation (lc_objects t ! i) = g" using processes_named [OF t i] by simp_all
  then have "?key = key_for (lc_objects t ! i)" using t i by (simp add: lifecycle_ok_def object_ok_def key_for_def)
  then show "find_object t ?key \<noteq> None" using find_object_iff [of t ?key i] t u i by (simp add: lifecycle_ok_wf)
qed

lemma encode_pid_eq:
  assumes "i < object_capacity" "j < object_capacity" "g \<noteq> 0" "k \<noteq> 0" "encode_pid (word_of_nat i) g = encode_pid (word_of_nat j) k"
  shows "i = j \<and> g = k"
proof -
  have "decode_pid (encode_pid (word_of_nat i) g) = decode_pid (encode_pid (word_of_nat j) k)" using assms(5) by simp
  then have "word_of_nat i = (word_of_nat j :: u32)" "g = k"
    unfolding decode_encode_pid(1) [OF assms(1,3)] decode_encode_pid(1) [OF assms(2,4)] by simp_all
  moreover have "unat (word_of_nat x :: u32) = x" if "x < object_capacity" for x
    using that by (simp add: unat_of_nat_nowrap object_capacity_def)
  ultimately show ?thesis using assms(1,2) by metis
qed

lemma find_pid_named:
  assumes t: "lifecycle_ok t" and i: "i < object_capacity" "g \<noteq> 0" and p: "find_pid t (encode_pid (word_of_nat i) g) = Some j"
  shows "processes.named t i g"
proof -
  have h: "j < object_capacity" "ob_used (lc_objects t ! j)" "ob_pid (lc_objects t ! j) = encode_pid (word_of_nat i) g"
    using p find_pid_iff [of t] t by (simp_all add: lifecycle_ok_wf)
  define k where "k = ob_generation (lc_objects t ! j)"
  have k: "k \<noteq> 0" "ob_pid (lc_objects t ! j) = encode_pid (word_of_nat j) k"
    using t h(1,2) by (auto simp: lifecycle_ok_def object_ok_def k_def)
  have "j = i \<and> k = g" using encode_pid_eq [OF h(1) i(1) k(1) i(2)] h(3) k(2) by simp
  then show ?thesis using processes_named [OF t i(1)] h(2) unfolding k_def by blast
qed

text \<open>
  C22: The identifier of a process that is gone is not given to another one soon: after the step in which an
  object leaves the table, no sequence of fewer than 65535 further operations makes its identifier or its key
  valid again, even though its slot may be reused at once.
\<close>

theorem stale_pid_not_found:
  assumes "lifecycle_ok s" "find_object s key = Some i" "find_object (lifecycle_step c s) key = None" "length cs < 65535"
  shows "find_object (fold lifecycle_step cs (lifecycle_step c s)) key = None \<and>
    find_pid (fold lifecycle_step cs (lifecycle_step c s)) (ob_pid (lc_objects s ! i)) = None"
proof -
  note f = find_object_ok [OF assms(1,2)]
  let ?t = "lifecycle_step c s" and ?e = "fold lifecycle_step cs (lifecycle_step c s)"
  define g where "g = ob_generation (lc_objects s ! i)"
  have g: "g \<noteq> 0" "ob_pid (lc_objects s ! i) = encode_pid (word_of_nat i) g" "key = \<lparr>key_slot = word_of_nat i, key_generation = g\<rparr>"
    using f(2,3,4) by (auto simp: g_def object_ok_def key_for_def)
  have ok: "lifecycle_ok ?t" "lifecycle_ok ?e" using lifecycle_step_ok [OF assms(1)] processes.run_ok by blast+
  have named: "processes.named s i g" using processes_named [OF assms(1) f(1)] f(2) by (simp add: g_def)
  have "\<not> processes.named ?t i g" using find_key_named [OF ok(1) f(1), of g] assms(3) g(1,3) by simp
  then have "\<not> object_taken ?t i"
    using processes.step_slot [OF assms(1), of c i] named by (auto simp: processes.named_def)
  then have stale: "\<not> processes.named ?e i g"
    by (rule processes.stale_name [OF assms(1) named g(1) _ assms(4)])
  then have "find_pid ?e (ob_pid (lc_objects s ! i)) = None"
    using find_pid_named [OF ok(2) f(1) g(1)] g(2) by (cases "find_pid ?e (ob_pid (lc_objects s ! i))") auto
  then show ?thesis using find_key_named [OF ok(2) f(1), of g] g(3) stale by simp
qed

definition demo_gone :: lifecycle where
  "demo_gone = snd (object_create 0 3 lifecycle_boot)"

theorem stale_pid_not_found_witness:
  "find_pid demo_gone 1 = Some 0 \<and>
   find_pid (fold lifecycle_step [CreateObject 0 4] (lifecycle_step (TerminateObject demo_process 0 14 3 1 ReasonFaulted) demo_gone)) 1 = None"
proof -
  have ok: "lifecycle_ok demo_gone"
    using lifecycle_step_ok [OF boot_ok, of "CreateObject 0 3"] by (simp add: demo_gone_def)
  have f: "find_object demo_gone demo_process = Some 0" by code_simp
  have g: "find_object (lifecycle_step (TerminateObject demo_process 0 14 3 1 ReasonFaulted) demo_gone) demo_process = None"
    by code_simp
  have p: "find_pid demo_gone 1 = Some 0" "ob_pid (lc_objects demo_gone ! 0) = 1" by code_simp+
  show ?thesis using stale_pid_not_found [OF ok f g, of "[CreateObject 0 4]"] p by simp
qed

end
