(* ===== verification/Spec2Isabelle.thy ===== *)
theory Spec2Isabelle
  imports Live_Image ZenovFS_Device Image_Verify Boot_Image Zenpkg_Main Zex_Tools Universe_Safety Audit_Verify
    Rsa_Pss Div64 Heap_Correct Address_Spaces Process_Lifecycle
begin

text \<open>
  ZenovOS is a 32-bit operating system with a set of host tools that build, check and package what it runs.
  This development models the kernel's storage stack, audit journal, memory management, process objects and
  signature check, and the host tools, and proves what makes them correct. Paths below are relative to
  \<open>src/\<close>.

  \<^bold>\<open>The parts and how they interact.\<close> The kernel reads and writes sectors through a typed block layer; on a live
  medium the sectors come from a compressed image with an overlay of changed sectors. ZenovFS keeps files in
  slots behind a table of entries and publishes every write through a staged, a committed and a final entry.
  The audit journal is a file of ZenovFS. The data image is built and checked on the host, as are the boot
  floppy and the executables. The frame allocator hands out pages of physical memory; address spaces are made
  of them, while the kernel heap lives in a fixed range of its own. Process objects outlive their tasks and are named by
  identifiers and, from the tasks, by handles. \<open>zenpkg\<close> packs applications and imports foreign ones; \<open>zenuniverse\<close> resolves
  which packages can run on which host and pins their artifacts.

  \<^bold>\<open>Theories and sources.\<close>
  \<^item> \<open>Prelude\<close>: machine integers as words, byte strings, exceptions as values of a sum type, little-endian
    encodings, FNV-1a, decimal text, and the collections \<open>bytes_simps\<close> and \<open>result_simps\<close>.
  \<^item> \<open>Block_Device\<close>, \<open>Fs_Result\<close>: \<open>kernel/parts/storage_block_result.inc\<close>, \<open>storage_block_device.inc\<close>,
    \<open>storage_fs_result.inc\<close>. The locale \<open>sector_driver\<close> is the contract of a block driver: a request either
    fails and changes nothing or does what it says.
  \<^item> \<open>Lzss\<close>, \<open>Live_Image\<close>: \<open>tools/live_image_pack.cpp\<close> and \<open>kernel/parts/storage_live_image.inc\<close>. The kernel's
    decoder inverts the host's compressor, a packed image boots to the bytes it was packed from, and the live
    device with its overlay refines a plain array of sectors, which interprets the driver contract.
  \<^item> \<open>ZenovFS_Core\<close>, \<open>ZenovFS_Paths\<close>, \<open>ZenovFS_Io\<close>, \<open>ZenovFS\<close>, \<open>ZenovFS_Device\<close>:
    \<open>kernel/parts/storage_zenovfs_core.inc\<close> and \<open>storage_zenovfs_io.inc\<close>. The structures on disk, path
    normalisation against a component-wise reference, every operation on files and directories, and the
    proofs inside the locales \<open>zenovfs_device\<close> (any driver) and \<open>reliable_device\<close> (one whose reads succeed):
    a write is atomic across a crash at any sector, mount finishes or drops what was under way, reads return
    what was written. What an append leaves is \<open>outcome_contents\<close>: the code normalises a stored path under
    \<open>/data\<close> twice, and there the old contents are those of another file. The locale is interpreted on the
    live device.
  \<^item> \<open>Host_Text\<close>, \<open>Host_Files\<close>: the parts of the C++ library the tools use; the host's file system with its
    refusals and faults is a record the tools are run on.
  \<^item> \<open>Image_Builder\<close>, \<open>Image_Verify\<close>: \<open>tools/zenovfs_builder.cpp\<close> and \<open>tools/zenovfs_verify.cpp\<close>. The shipped
    image passes the verifier, mounts, and gives back every seeded file; a verified image mounts to a
    consistent file system.
  \<^item> \<open>Audit_Format\<close>, \<open>Security_Audit\<close>, \<open>Audit_System\<close>, \<open>Audit_Verify\<close>: \<open>tools/zenov_audit_format.hpp\<close>,
    \<open>kernel/parts/security_audit.inc\<close> and \<open>tools/zenovfs_audit_verify.cpp\<close>. The journal is a bounded log
    (locale \<open>bounded_log\<close>) whose chain of hashes makes tampering evident, an append survives a reboot or is
    undone, what is stored is replayed, and host and kernel accept the same journals.
  \<^item> \<open>Boot_Image\<close>: \<open>tools/fat12_builder.cpp\<close> and \<open>tools/image_verify.cpp\<close>. The FAT chain leads to the
    kernel's bytes, and the verifier accepts exactly the built images with the expected labels and a kernel
    of at most 512 KiB.
  \<^item> \<open>Zex_Tools\<close>: \<open>tools/zex_pack.cpp\<close> and \<open>tools/zenov_app_compiler.cpp\<close>. The compiled code, run on a small
    machine with the instructions and system calls it uses, prints the source's messages and exits with its
    code.
  \<^item> \<open>Zenpkg_Common\<close>, \<open>Sha256\<close>, \<open>Zenpkg_Manifest\<close>, \<open>Zenpkg_Archive\<close>, \<open>Foreign_Format\<close>, \<open>Zenpkg_Foreign\<close>,
    \<open>Zenpkg_Probe\<close>, \<open>Zenpkg_Main\<close>: the headers of \<open>tools/zenpkg/\<close> with the kernel's
    \<open>kernel/parts/package_foreign_format.inc\<close>. Manifests and packages have one canonical form and round trip,
    streaming SHA-256 is SHA-256, and an imported executable stays inside user memory.
  \<^item> \<open>Universe_Common\<close>, \<open>Universe_Capability\<close>, \<open>Universe_Descriptor\<close>, \<open>Universe_Host_Profile\<close>,
    \<open>Universe_Resolver\<close>, \<open>Universe_Plan\<close>, \<open>Universe_Catalog\<close>, \<open>Universe_Artifact\<close>, \<open>Universe_Main\<close>,
    \<open>Universe_Safety\<close>: \<open>tools/zenuniverse/\<close>. Loaded catalogs are well formed, plans can be carried out in
    order, the resolver ends on cyclic catalogs too, a launch declared ready has a verified artifact, and
    the exit codes tell blocked plans from ready ones.
  \<^item> \<open>Div64\<close>: \<open>kernel/parts/div64_runtime.inc\<close>, 64-bit division against \<open>div\<close> and \<open>mod\<close>.
  \<^item> \<open>Rsa_Big\<close>, \<open>Rsa_Pss\<close>: \<open>kernel/parts/rsa_pss.inc\<close>. The limbs compute modular arithmetic, and the verifier
    accepts exactly what RSASSA-PSS-VERIFY does.
  \<^item> \<open>Allocator\<close>, \<open>Frame_Allocator\<close>, \<open>Kernel_Heap\<close>, \<open>Heap_Correct\<close>: the namespaces \<open>pmm\<close> and \<open>heap\<close> of
    \<open>kernel/parts/memory.inc\<close>. \<open>Allocator\<close> has the locales of an allocator that hands out only what is not
    live and takes back what is; the bitmap of frames and the list of heap blocks interpret it. The heap is described by the list of its
    segments; \<open>heap_sound\<close> holds after every request, \<open>heap_ok\<close> as long as no request wraps.
  \<^item> \<open>Paging\<close>, \<open>Paging_Correct\<close>, \<open>Address_Spaces\<close>: the namespace \<open>paging\<close>. Page tables are words in frames of
    physical memory; they represent maps from pages to frames (\<open>paging_abs\<close>), and every call acts on one
    space and leaves the others alone.
  \<^item> \<open>Generations\<close>, \<open>Process_Handles\<close>, \<open>Process_Lifecycle\<close>: \<open>kernel/parts/process_handles.inc\<close> and
    \<open>process_lifecycle.inc\<close>. \<open>Generations\<close> is the locale of tables whose slots are reused under a new
    generation; both tables interpret it, so stale names stay invalid.
  \<^item> This theory: what spans the image builder, the file system and the audit journal.

  \<^bold>\<open>How code becomes definitions.\<close> A struct is a record, an enum a datatype, a fixed-width integer a word that
  wraps as in the source. A function that throws returns \<open>error + 'a\<close>; a kernel function that changes globals
  takes and returns the record of them, with the result values of the source. A program is a function from
  its arguments and the host to exit code, output, error output and the new host. Pointers that may be null
  are options. Packed structures are read and written through explicit codecs that are proved inverse.

  \<^bold>\<open>Bounds and fuel.\<close> Loops are structural recursions over the list they run through, or functions with a
  proved measure. The resolver recurses with the fuel \<open>resolve_fuel\<close>, computed from the catalog, and is proved
  never to exhaust it. The machine that runs compiled applications takes a number of steps; the theorem gives
  one that is enough. Sequence numbers, sizes and offsets keep their width, and the theorems that need room
  say how much.

  \<^bold>\<open>Assumptions.\<close> Block drivers, allocation and the host's file system are parameters; their contracts appear as
  hypotheses, and each theorem that has them is applied to a concrete device. SHA-256 is computed, not
  assumed: where security rests on it the theorem exhibits the two messages that would collide. Every
  operation runs to completion before the next: interleaving of kernel paths is not modelled, and the tools
  are single-threaded.

  \<^bold>\<open>Not modelled.\<close> The tasks, the scheduler and the drivers (hardware registers and assembly); the dispatch of
  system calls with its capability gate (the two calls compiled applications make are specified in
  \<open>Zex_Tools\<close>); the user interface and the shell (drawing and dispatch); the scanners and signed policy databases and the package
  repositories (they rest on generated keys); the console
  printing of the audit journal; the catch of library exceptions in \<open>zenuniverse\<close>, which differs from the
  modelled one in a word of the message; the stage-0 language; tests, fixtures and fault injectors. Opening a
  directory as a file stream, whose outcome the C++ standard leaves to the host, is refused by the model of
  the host.
\<close>

section \<open>The shipped audit journal\<close>

lemma shipped_journal: "empty_audit_journal = encode_journal initialize_empty"
proof -
  have "encode_record zero_record = replicate 128 0"
    by (simp add: encode_record_def zero_record_def le_bytes_4_eq le_bytes_2_eq) (simp add: numeral_eq_Suc)
  then have "concat (map encode_record (replicate n zero_record)) = replicate (128 * n) 0" for n
    by (induction n) (simp_all add: replicate_add)
  from this [of 64] show ?thesis
    by (simp add: empty_audit_journal_def encode_journal_def initialize_empty_def encode_header_def audit_capacity_def
        flip: replicate_add)
qed

text \<open>
  C13: The shipped system starts with a working audit journal. On the image that the builder writes, mounted by
  the kernel on a device that performs its requests, \<open>init\<close> of the audit journal finds the empty journal the
  builder put there, verifies it and opens it, exactly when its self test passes; and the self test passes
  unless two fixed messages, one bit apart, have the same SHA-256 digest.
\<close>

theorem shipped_journal_ready:
  assumes run: "builder_main argv h = (0, printed, complaint, h')"
    and out: "host_lookup h' (argv ! 27) = Some (Regular img)"
    and files: "read_seeds h (take 27 argv) = Inr files"
    and dev: "reliable_device rd wr dinv dabs" and wt: "device_writes wr dinv dabs"
    and sok: "driver_installed rd wr dinv dabs (zf_storage st)" and disk: "contents dabs st = image_sectors img"
    and fresh: "super_wf (zf_super st)" "length (zf_sector_buffer st) = 512"
    and alloc: "\<And>n. \<exists>buffer. allocate n = Some buffer \<and> unat n \<le> length buffer"
    and mnt: "mount_result allocate st = (m, st1)" and wf: "journal_wf (au_journal a)"
    and init: "audit_init a st1 = (ready, printed', a', st2)"
  shows "ready = audit_self_test \<and> au_ready a' = ready \<and> au_replayed a' = False \<and> au_appends a' = 0 \<and>
         au_journal a' = (if ready then initialize_empty else au_journal a) \<and>
         (audit_self_test \<longleftrightarrow> sha256_spec (audit_message test_first (replicate 32 0)) \<noteq>
                             sha256_spec (audit_message test_flipped (replicate 32 0)))"
proof -
  define ss where "ss = seeds_of (\<lambda>n. files ! (n - 1))"
  note boot = seed_image_mounts [OF run out files ss_def dev wt sok disk fresh alloc mnt]
  have good: "journal_wf initialize_empty" "audit_verify initialize_empty" using empty_good by (simp_all add: journal_good_def)
  have tree: "seed_tree ss journal_path = Some (File empty_audit_journal)"
    by (simp add: ss_def seed_tree_def seeds_of_def journal_path_def)
  then have "current_view (contents dabs st1) st1 journal_path = Some (File empty_audit_journal)" using boot by simp
  then obtain i where i: "find_entry (zf_super st1) (zf_entries st1) journal_path = Some i"
    by (auto simp: current_view_def view_def split: option.splits)
  have len: "length empty_audit_journal = audit_journal_bytes" "length (encode_journal (au_journal a)) = audit_journal_bytes"
    using length_encode_journal [OF good(1)] length_encode_journal [OF wf] by (simp_all only: shipped_journal)
  from boot tree have "length empty_audit_journal \<le> unat (word_of_nat audit_journal_bytes :: u32) \<and>
        unat (word_of_nat audit_journal_bytes :: u32) \<le> length (encode_journal (au_journal a)) \<longrightarrow>
      (\<exists>st2. read_file_result (Some journal_path) (Some (encode_journal (au_journal a))) (word_of_nat audit_journal_bytes) st1 =
         (fs_success FopRead (word_of_nat (length empty_audit_journal)), word_of_nat (length empty_audit_journal),
          Some (empty_audit_journal @ drop (length empty_audit_journal) (encode_journal (au_journal a))), st2))" by blast
  then obtain st3 where rd: "read_file_result (Some journal_path) (Some (encode_journal (au_journal a))) (word_of_nat audit_journal_bytes) st1 =
      (fs_success FopRead (word_of_nat audit_journal_bytes), word_of_nat audit_journal_bytes, Some empty_audit_journal, st3)"
    unfolding len journal_bytes_word by (auto simp: len)
  have dec: "decode_journal empty_audit_journal = initialize_empty" by (simp only: shipped_journal decode_encode_journal [OF good(1)])
  have ok: "fs_ok (fs_success FopRead n)" for n by (simp add: fs_ok_def fs_success_def mk_fs_result_def)
  have "ah_count (aj_header initialize_empty) = 0" by (simp add: initialize_empty_def)
  then show ?thesis
    using init i rd dec good(2) ok audit_self_test_iff by (auto simp: audit_init_def Let_def split: if_splits)
qed

theorem shipped_journal_ready_witness:
  "fst (audit_init audit_demo (snd (mount_result allocate_zeros (image_fs demo_image)))) = audit_self_test"
proof -
  obtain m st1 where mnt: "mount_result allocate_zeros (image_fs demo_image) = (m, st1)" by fastforce
  obtain ready out a' st2 where init: "audit_init audit_demo st1 = (ready, out, a', st2)" by (metis prod_cases4)
  obtain printed complaint h' where run: "builder_main demo_argv builder_host = (0, printed, complaint, h')"
    "host_lookup h' (demo_argv ! 27) = Some (Regular demo_image)" by (rule demo_built)
  have len: "length demo_image = 16777216" using seed_image_fields(1) [OF demo_legal] by (simp add: demo_image_def)
  have alloc: "\<exists>buffer. allocate_zeros n = Some buffer \<and> unat n \<le> length buffer" for n
    by (simp add: allocate_zeros_def)
  have wf: "journal_wf (au_journal audit_demo)" using empty_good by (simp add: audit_demo_def journal_good_def)
  from shipped_journal_ready [OF run demo_reads ram_device ram_writes image_fs_installed [OF len] alloc mnt wf init]
  show ?thesis by (simp add: mnt init)
qed

end
